(* ===== verification/Prelude.thy ===== *)
theory Prelude
  imports Complex_Main "HOL-Library.Word"
begin

unbundle bit_operations_syntax

text \<open>
  The shared vocabulary of the development: names for the C integer types, the
  collections of rewrite rules the component theories use, and the generic lemmas that
  move a statement on machine words to arithmetic on natural numbers.

  The widths are those of the platform the simulator is built for (64-bit Linux with
  glibc): \<open>uint_fast8_t\<close> has 8 bits and \<open>uint_fast16_t\<close>, \<open>uint_fast32_t\<close> and
  \<open>uint_fast64_t\<close> have 64 bits. Unsigned C types are words, whose arithmetic wraps as in C.
  Signed C types (\<open>int_fast8_t\<close>, \<open>int_fast16_t\<close>, \<open>int_fast32_t\<close>, \<open>int\<close>) hold exponents,
  shift distances and small differences; signed overflow is undefined in C, so they are
  mathematical integers, with every conversion to or from an unsigned type written out.
\<close>

section \<open>C integer types\<close>

type_synonym uint8 = "8 word"
type_synonym uint16 = "16 word"
type_synonym uint32 = "32 word"
type_synonym uint64 = "64 word"
type_synonym uint_fast8 = "8 word"
type_synonym uint_fast16 = "64 word"
type_synonym uint_fast32 = "64 word"
type_synonym uint_fast64 = "64 word"

text \<open>
  \<open>shl\<close> and \<open>shr\<close> are the C shifts of an unsigned operand by a non-negative \<open>int\<close>
  distance. A distance of the operand's width or more is undefined in C; the sources never
  shift that far.
\<close>

abbreviation shl :: "'a::len word \<Rightarrow> int \<Rightarrow> 'a word" where
  "shl a d \<equiv> push_bit (nat d) a"

abbreviation shr :: "'a::len word \<Rightarrow> int \<Rightarrow> 'a word" where
  "shr a d \<equiv> drop_bit (nat d) a"

text \<open>\<open>to_u32\<close> and its kin are the C conversions between the unsigned types.\<close>

abbreviation to_u8 :: "'a::len word \<Rightarrow> 8 word" where
  "to_u8 \<equiv> ucast"

abbreviation to_u16 :: "'a::len word \<Rightarrow> 16 word" where
  "to_u16 \<equiv> ucast"

abbreviation to_u32 :: "'a::len word \<Rightarrow> 32 word" where
  "to_u32 \<equiv> ucast"

abbreviation to_u64 :: "'a::len word \<Rightarrow> 64 word" where
  "to_u64 \<equiv> ucast"

section \<open>Rule collections\<close>

named_theorems word_nat \<open>words read as natural numbers\<close>
named_theorems model_defs \<open>definitions of the model, for evaluation of closed terms\<close>

section \<open>Words as natural numbers\<close>

declare of_nat_unat [simp del]

lemma unat_lt: "unat x < 2 ^ LENGTH('a)" for x :: "'a::len word"
  by (rule unsigned_less)

lemma unat_take_bit_mod [word_nat]:
  "unat (take_bit n x) = unat x mod 2 ^ n" for x :: "'a::len word"
  by (metis take_bit_eq_mod unsigned_take_bit_eq)

lemma unat_drop_bit_div [word_nat]:
  "unat (drop_bit n x) = unat x div 2 ^ n" for x :: "'a::len word"
  by (metis drop_bit_eq_div unsigned_drop_bit_eq unsigned_take_bit_eq take_bit_length_eq)

lemma unat_push_bit_mod:
  "unat (push_bit n x) = (unat x * 2 ^ n) mod 2 ^ LENGTH('a)" for x :: "'a::len word"
  by (metis push_bit_eq_mult unsigned_push_bit_eq take_bit_eq_mod)

lemma unat_push_bit_mult:
  "unat x * 2 ^ n < 2 ^ LENGTH('a) \<Longrightarrow> unat (push_bit n x) = unat x * 2 ^ n"
  for x :: "'a::len word"
  by (simp only: unat_push_bit_mod mod_less)

lemma unat_ucast_mod:
  "unat (ucast x :: 'b::len word) = unat x mod 2 ^ LENGTH('b)" for x :: "'a::len word"
  by (metis unsigned_ucast_eq take_bit_eq_mod)

lemma unat_ucast_widen [word_nat]:
  "LENGTH('a) \<le> LENGTH('b) \<Longrightarrow> unat (ucast x :: 'b::len word) = unat x"
  for x :: "'a::len word"
  by (metis unat_ucast_mod mod_less unsigned_less order_less_le_trans
      one_le_numeral power_increasing)

lemma unat_and_mask:
  "unat (x AND mask n) = unat x mod 2 ^ n" for x :: "'a::len word"
  by (metis take_bit_eq_mask unat_take_bit_mod)

lemma unat_add_no_wrap:
  "unat x + unat y < 2 ^ LENGTH('a) \<Longrightarrow> unat (x + y) = unat x + unat y"
  for x y :: "'a::len word"
  by (simp add: unat_word_ariths)

lemma unat_mult_no_wrap:
  "unat x * unat y < 2 ^ LENGTH('a) \<Longrightarrow> unat (x * y) = unat x * unat y"
  for x y :: "'a::len word"
  by (simp add: unat_word_ariths)

lemma unat_sub_le:
  "unat y \<le> unat x \<Longrightarrow> unat (x - y) = unat x - unat y" for x y :: "'a::len word"
  by (simp add: unat_sub word_le_nat_alt)

lemma unat_uminus:
  fixes d :: "'a::len word"
  assumes "d \<noteq> 0"
  shows "unat (- d) = 2 ^ LENGTH('a) - unat d"
proof -
  have "(unat (- d) + unat d) mod 2 ^ LENGTH('a) = 0"
    using unat_word_ariths(1)[of "- d" d] by simp
  then obtain k where k: "unat (- d) + unat d = 2 ^ LENGTH('a) * k"
    by (auto simp: mod_eq_0_iff_dvd elim: dvdE)
  have "0 < unat d"
    using assms by (simp add: unat_gt_0)
  then have "0 < k"
    using k by (cases k) simp_all
  moreover have "2 ^ LENGTH('a) * k < 2 ^ LENGTH('a) * 2"
    using k unat_lt[of d] unat_lt[of "- d"] by linarith
  ultimately have "k = 1"
    by simp
  with k show ?thesis
    by simp
qed

lemma unat_of_bool [word_nat, simp]: "unat (of_bool b :: 'a::len word) = of_bool b"
  by (cases b) simp_all

lemma nat_or_1: "(n::nat) OR 1 = (if even n then n + 1 else n)"
  by (simp add: or_Suc_0_eq)

lemma unat_or_of_bool:
  "unat (x OR of_bool b) = (if b \<and> even (unat x) then unat x + 1 else unat x)"
  for x :: "'a::len word"
  by (cases b) (simp_all add: unsigned_or_eq or_Suc_0_eq)

lemma word_eq_0_unat: "x = 0 \<longleftrightarrow> unat x = 0" for x :: "'a::len word"
  by (simp add: unat_eq_0)

lemma word_xor_eq_0_iff: "x XOR y = 0 \<longleftrightarrow> x = y" for x y :: "'a::len word"
  by (metis xor.assoc xor.right_neutral xor_self_eq)

lemma unat_and_not_of_bool:
  "unat (x AND NOT (of_bool b)) = (if b \<and> odd (unat x) then unat x - 1 else unat x)"
  for x :: "'a::len word"
proof -
  have "x AND NOT 1 = x - of_bool (odd (unat x))"
  proof -
    have "x AND NOT (mask n) = push_bit n (drop_bit n x)" for n
      by (rule bit_word_eqI) (auto simp: bit_simps)
    from this[of 1] have "x AND NOT 1 = push_bit 1 (drop_bit 1 x)"
      by simp
    also have "\<dots> = x - take_bit 1 x"
      using bits_ident[of 1 x] by (simp add: algebra_simps)
    also have "take_bit 1 x = of_bool (odd (unat x))"
      unfolding word_unat_eq_iff unat_take_bit_mod unat_of_bool by (simp add: mod_2_eq_odd)
    finally show ?thesis .
  qed
  then show ?thesis
    by (cases b; cases "odd (unat x)") (simp_all del: not_one_eq add: unat_sub_le odd_pos Suc_leI)
qed

lemma unat_word_of_int:
  "0 \<le> e \<Longrightarrow> e < 2 ^ LENGTH('a) \<Longrightarrow> unat (word_of_int e :: 'a::len word) = nat e"
  by (simp add: unat_eq_nat_uint uint_word_of_int)

text \<open>The comparison of an exponent, converted to an unsigned type, with a positive bound.\<close>

lemma word_of_int_ge:
  fixes e :: int and c :: "'a::len word"
  assumes "- (2 ^ (LENGTH('a) - 1)) \<le> e" and "e < 2 ^ (LENGTH('a) - 1)" and "unat c \<le> 2 ^ (LENGTH('a) - 1)"
  shows "c \<le> word_of_int e \<longleftrightarrow> e < 0 \<or> int (unat c) \<le> e"
proof -
  define h :: int where "h = 2 ^ (LENGTH('a) - 1)"
  have w: "(2::int) ^ LENGTH('a) = 2 * h" "0 < h"
    by (simp_all add: h_def flip: power_Suc)
  have e: "- h \<le> e" "e < h" and c: "int (unat c) \<le> h"
    using assms by (simp_all add: h_def) 
  have u: "uint (word_of_int e :: 'a word) = e mod (2 * h)"
    by (simp add: uint_word_of_int w)
  show ?thesis
  proof (cases "e < 0")
    case True
    then have "e mod (2 * h) = e + 2 * h"
      using e mod_add_self2[of e "2 * h"] mod_pos_pos_trivial[of "e + 2 * h" "2 * h"] by simp
    with True show ?thesis
      using e c unfolding word_le_def u uint_nat[of c] by simp
  next
    case False
    then have "e mod (2 * h) = e"
      using e w by (simp add: mod_pos_pos_trivial)
    with False show ?thesis
      unfolding word_le_def u uint_nat[of c] by simp
  qed
qed

text \<open>Setting bit \<open>n\<close> of a number below \<open>2 ^ (n + 1)\<close>, as the routines do with the implicit bit.\<close>

lemma nat_or_pow2:
  fixes x :: nat
  assumes "x < 2 ^ Suc n"
  shows "x OR 2 ^ n = 2 ^ n + x mod 2 ^ n"
proof (cases "x < 2 ^ n")
  case True
  then have "\<not> bit x n"
    by (simp add: bit_iff_odd)
  then have "x AND 2 ^ n = 0"
    by (intro bit_eqI) (auto simp: bit_simps)
  then show ?thesis
    using True by (simp flip: disjunctive_add_eq_or)
next
  case False
  then have "x div 2 ^ n = 1"
    using assms by (intro div_nat_eqI) simp_all
  then have "bit x n"
    by (simp add: bit_iff_odd)
  then have "x OR 2 ^ n = x"
    by (intro bit_eqI) (auto simp: bit_simps)
  then show ?thesis
    using \<open>x div 2 ^ n = 1\<close> div_mult_mod_eq[of x "2 ^ n"] by simp
qed

lemma unat_or_pow2:
  fixes x y :: "'a::len word"
  assumes "unat x < 2 ^ Suc n" and "unat y = 2 ^ n"
  shows "unat (x OR y) = 2 ^ n + unat x mod 2 ^ n"
  using assms by (simp add: unsigned_or_eq nat_or_pow2)

lemma and_shifted_mask:
  fixes x :: "'a::len word"
  shows "x AND push_bit n (mask m) = push_bit n (take_bit m (drop_bit n x))"
  by (rule bit_word_eqI) (auto simp: bit_simps)

lemma ucast_widen_narrow:
  "LENGTH('a) \<le> LENGTH('b) \<Longrightarrow> (ucast (ucast x :: 'b::len word) :: 'a word) = x"
  for x :: "'a::len word"
  unfolding word_unat_eq_iff unat_ucast_mod[where 'b = 'a]
  using unat_lt[of x] by (simp add: unat_ucast_widen)

lemma word_and_1_eq_0: "x AND 1 = 0 \<longleftrightarrow> even (unat x)" for x :: "'a::len word"
  using unat_and_mask[of x 1] by (simp add: word_eq_0_unat[of "x AND 1"] even_iff_mod_2_eq_zero)

lemma word_of_int_nat: "unat (word_of_int (int n) :: 'a::len word) = n mod 2 ^ LENGTH('a)"
  by (metis of_int_of_nat_eq unat_of_nat)

lemma top_bit_div: "bit x (LENGTH('a) - 1) \<longleftrightarrow> unat x div 2 ^ (LENGTH('a) - 1) \<noteq> 0" for x :: "'a::len word"
proof -
  have "unat x < 2 * 2 ^ (LENGTH('a) - 1)"
    using unat_lt[of x] by (simp flip: power_Suc)
  then have "unat x div 2 ^ (LENGTH('a) - 1) < 2"
    by (simp add: less_mult_imp_div_less)
  moreover have "bit x (LENGTH('a) - 1) \<longleftrightarrow> bit (unat x) (LENGTH('a) - 1)"
    by (simp add: bit_unsigned_iff)
  ultimately show ?thesis
    by (auto simp: less_2_cases_iff bit_iff_odd[of "unat x"])
qed

lemma drop_bit_top: "drop_bit (LENGTH('a) - 1) x \<noteq> 0 \<longleftrightarrow> bit x (LENGTH('a) - 1)" for x :: "'a::len word"
  unfolding top_bit_div word_eq_0_unat unat_drop_bit_div ..

lemma push_bit_eq_0_iff':
  "unat x * 2 ^ n < 2 ^ LENGTH('a) \<Longrightarrow> push_bit n x = 0 \<longleftrightarrow> x = 0" for x :: "'a::len word"
  unfolding word_eq_0_unat by (simp add: unat_push_bit_mult)

section \<open>Signed readings\<close>

lemma sint_cases:
  "sint u = (if uint u < 2 ^ (LENGTH('a) - 1) then uint u else uint u - 2 ^ LENGTH('a))"
  for u :: "'a::len word"
proof -
  define h :: int where "h = 2 ^ (LENGTH('a) - 1)"
  have n: "2 ^ LENGTH('a) = 2 * h"
    by (simp add: h_def flip: power_Suc)
  have "sint u = (uint u + h) mod (2 * h) - h"
    by (simp add: sint_uint signed_take_bit_eq_take_bit_shift take_bit_eq_mod h_def flip: power_Suc)
  moreover have "0 \<le> uint u" "uint u < 2 * h" "0 < h"
    using uint_lt2p[of u] by (simp_all add: n h_def)
  moreover have "(uint u + h) mod (2 * h) = (if uint u < h then uint u + h else uint u - h)"
  proof (cases "uint u < h")
    case False
    have "uint u + h = uint u - h + 2 * h"
      by simp
    then have "(uint u + h) mod (2 * h) = (uint u - h) mod (2 * h)"
      by (simp only: mod_add_self2)
    then show ?thesis
      using False \<open>uint u < 2 * h\<close> by (simp add: mod_pos_pos_trivial)
  qed (use \<open>0 \<le> uint u\<close> \<open>0 < h\<close> in \<open>simp add: mod_pos_pos_trivial\<close>)
  moreover have "2 ^ (LENGTH('a) - Suc 0) = h"
    by (simp add: h_def)
  ultimately show ?thesis
    by (simp add: n)
qed

lemma unat_abs:
  fixes a :: "'a::len word"
  shows "unat (if sint a < 0 then - a else a) = nat \<bar>sint a\<bar>"
proof -
  have u: "uint (- a) = (if uint a = 0 then 0 else 2 ^ LENGTH('a) - uint a)"
    by (simp add: uint_word_ariths zmod_zminus1_eq_if)
  show ?thesis
  proof (cases "uint a < 2 ^ (LENGTH('a) - 1)")
    case True
    then have "sint a = uint a"
      using sint_cases[of a] by simp
    then show ?thesis
      by simp
  next
    case False
    moreover have "(0::int) < 2 ^ (LENGTH('a) - 1)"
      by simp
    ultimately have "uint a \<noteq> 0"
      by linarith
    moreover have "sint a = uint a - 2 ^ LENGTH('a)"
      using False sint_cases[of a] by simp
    ultimately show ?thesis
      using uint_lt2p[of a] u by (simp only: unat_eq_nat_uint) (simp add: abs_if)
  qed
qed

lemma sint_scast32: "sint (scast a :: uint64) = sint a" for a :: uint32
proof -
  have "sint (scast a :: uint64) = signed_take_bit 63 (sint a)"
    by (simp add: signed_scast_eq)
  then show ?thesis
    using sint_ge[of a] sint_lt[of a] by (simp add: signed_take_bit_int_eq_self)
qed

end
