(* ===== verification/RV_Arith.thy ===== *)
theory RV_Arith
  imports Prelude
begin

text \<open>
  The integer helpers of the simulator's instructions (\<open>riscv/arith.h\<close>): the upper halves of
  128-bit products, saturating addition and subtraction, and bit-field masks. The theorems
  compare each with the exact integer result. Signed values are the two's complement readings of
  words, and signed arithmetic wraps around.
\<close>

section \<open>The routines\<close>

definition mulhu :: "uint64 \<Rightarrow> uint64 \<Rightarrow> uint64" where
  "mulhu a b =
     (let a0 = to_u64 (to_u32 a); a1 = drop_bit 32 a;
          b0 = to_u64 (to_u32 b); b1 = drop_bit 32 b;
          t = a1 * b0 + drop_bit 32 (a0 * b0);
          y1 = to_u32 t;
          y2 = to_u32 (drop_bit 32 t);
          t = a0 * b1 + to_u64 y1;
          t = a1 * b1 + to_u64 y2 + drop_bit 32 t;
          y2 = to_u32 t;
          y3 = to_u32 (drop_bit 32 t)
      in push_bit 32 (to_u64 y3) OR to_u64 y2)"

definition mulh :: "uint64 \<Rightarrow> uint64 \<Rightarrow> uint64" where
  "mulh a b =
     (let neg = ((a <s 0) \<noteq> (b <s 0));
          res = mulhu (if a <s 0 then - a else a) (if b <s 0 then - b else b)
      in if neg then NOT res + of_bool (a * b = 0) else res)"

definition mulhsu :: "uint64 \<Rightarrow> uint64 \<Rightarrow> uint64" where
  "mulhsu a b =
     (let neg = (a <s 0);
          res = mulhu (if a <s 0 then - a else a) b
      in if neg then NOT res + of_bool (a * b = 0) else res)"

text \<open>The saturating operations return the result and the value of the flag.\<close>

definition sat_add :: "'a::len word \<Rightarrow> 'a word \<Rightarrow> 'a word \<times> bool" where
  "sat_add x y =
     (let res = x + y;
          sh = LENGTH('a) - 1;
          ux = drop_bit sh x + (push_bit sh 1 - 1)
      in if \<not> ((ux XOR y) OR NOT (y XOR res)) <s 0 then (ux, True) else (res, False))"

definition sat_sub :: "'a::len word \<Rightarrow> 'a word \<Rightarrow> 'a word \<times> bool" where
  "sat_sub x y =
     (let res = x - y;
          sh = LENGTH('a) - 1;
          ux = drop_bit sh x + (push_bit sh 1 - 1)
      in if ((ux XOR y) AND (ux XOR res)) <s 0 then (ux, True) else (res, False))"

definition sat_addu :: "'a::len word \<Rightarrow> 'a word \<Rightarrow> 'a word \<times> bool" where
  "sat_addu x y = (let res = x + y in (res OR - of_bool (res < x), res < x))"

definition sat_subu :: "'a::len word \<Rightarrow> 'a word \<Rightarrow> 'a word \<times> bool" where
  "sat_subu x y = (let res = x - y in (res AND - of_bool (res \<le> x), \<not> res \<le> x))"

text \<open>The two mask helpers assert their arguments; a failed assertion is \<open>None\<close>.\<close>

definition extract64 :: "uint64 \<Rightarrow> int \<Rightarrow> int \<Rightarrow> uint64 option" where
  "extract64 val pos len =
     (if 0 \<le> pos \<and> 0 < len \<and> len \<le> 64 - pos
      then Some (drop_bit (nat pos) val AND drop_bit (nat (64 - len)) (NOT 0)) else None)"

definition make_mask64 :: "int \<Rightarrow> int \<Rightarrow> uint64 option" where
  "make_mask64 pos len =
     (if 0 \<le> pos \<and> 0 < len \<and> pos < 64 \<and> len \<le> 64
      then Some (push_bit (nat pos) (drop_bit (nat (64 - len)) (- 1))) else None)"

section \<open>Upper halves of products\<close>

lemma mulhu_nat: "unat (mulhu a b) = unat a * unat b div 2 ^ 64"
proof -
  define a0 a1 b0 b1 where d: "a0 = unat a mod 2 ^ 32" "a1 = unat a div 2 ^ 32"
    "b0 = unat b mod 2 ^ 32" "b1 = unat b div 2 ^ 32"
  have l: "a0 < 2 ^ 32" "a1 < 2 ^ 32" "b0 < 2 ^ 32" "b1 < 2 ^ 32"
    using unat_lt[of a] unat_lt[of b] by (simp_all add: d less_mult_imp_div_less)
  have le: "x < 2 ^ 32 \<Longrightarrow> y < 2 ^ 32 \<Longrightarrow> x * y \<le> (2 ^ 32 - 1) * (2 ^ 32 - 1)" for x y :: nat
    by (intro mult_le_mono) simp_all
  note ab = le[OF l(1,3)] le[OF l(1,4)] le[OF l(2,3)] le[OF l(2,4)]
  define t1 where "t1 = a1 * b0 + a0 * b0 div 2 ^ 32"
  define t2 where "t2 = a0 * b1 + t1 mod 2 ^ 32"
  define t3 where "t3 = a1 * b1 + t1 div 2 ^ 32 + t2 div 2 ^ 32"
  have q0: "a0 * b0 div 2 ^ 32 < 2 ^ 32"
    using ab(1) by (simp add: less_mult_imp_div_less)
  have t1: "t1 < 2 ^ 64"
    using ab(3) q0 unfolding t1_def by simp
  have t2: "t2 < 2 ^ 64"
    using ab(2) mod_less_divisor[of "2 ^ 32" t1] unfolding t2_def by simp
  have q: "t1 div 2 ^ 32 < 2 ^ 32" "t2 div 2 ^ 32 < 2 ^ 32"
    using t1 t2 by (simp_all add: less_mult_imp_div_less)
  have t3: "t3 < 2 ^ 64"
    using ab(4) q unfolding t3_def by simp
  have u: "unat (to_u64 (to_u32 a)) = a0" "unat (drop_bit 32 a) = a1"
      "unat (to_u64 (to_u32 b)) = b0" "unat (drop_bit 32 b) = b1"
    by (simp_all add: d unat_ucast_widen unat_ucast_mod unat_drop_bit_div)
  have m: "unat (to_u64 (to_u32 a) * to_u64 (to_u32 b)) = a0 * b0" "unat (drop_bit 32 a * to_u64 (to_u32 b)) = a1 * b0"
      "unat (to_u64 (to_u32 a) * drop_bit 32 b) = a0 * b1" "unat (drop_bit 32 a * drop_bit 32 b) = a1 * b1"
    using ab by (subst unat_mult_no_wrap; simp add: u)+
  define T1 where "T1 = drop_bit 32 a * to_u64 (to_u32 b) + drop_bit 32 (to_u64 (to_u32 a) * to_u64 (to_u32 b))"
  define T2 where "T2 = to_u64 (to_u32 a) * drop_bit 32 b + to_u64 (to_u32 T1)"
  define T3 where "T3 = drop_bit 32 a * drop_bit 32 b + to_u64 (to_u32 (drop_bit 32 T1)) + drop_bit 32 T2"
  have T1: "unat T1 = t1"
    using t1 unfolding T1_def t1_def by (subst unat_add_no_wrap) (simp_all add: m unat_drop_bit_div)
  have T2: "unat T2 = t2"
    using t2 unfolding T2_def t2_def
    by (subst unat_add_no_wrap) (simp_all add: m T1 unat_ucast_widen unat_ucast_mod)
  have T3: "unat T3 = t3"
  proof -
    have "unat (drop_bit 32 a * drop_bit 32 b + to_u64 (to_u32 (drop_bit 32 T1))) = a1 * b1 + t1 div 2 ^ 32"
      using t3 q(1) unfolding t3_def
      by (subst unat_add_no_wrap) (simp_all add: m T1 unat_ucast_widen unat_ucast_mod unat_drop_bit_div)
    then show ?thesis
      using t3 unfolding T3_def t3_def
      by (subst unat_add_no_wrap) (simp_all add: T2 unat_drop_bit_div)
  qed
  have "mulhu a b = T3"
  proof -
    have "mulhu a b = push_bit 32 (to_u64 (to_u32 (drop_bit 32 T3))) OR to_u64 (to_u32 T3)"
      by (simp only: mulhu_def Let_def T1_def T2_def T3_def)
    also have "\<dots> = T3"
      by (rule bit_word_eqI) (auto simp: bit_simps)
    finally show ?thesis .
  qed
  moreover have "unat a * unat b div 2 ^ 64 = t3"
  proof -
    have "unat a = a1 * 2 ^ 32 + a0" "unat b = b1 * 2 ^ 32 + b0"
      by (simp_all only: d div_mult_mod_eq)
    then have "unat a * unat b = a1 * b1 * 2 ^ 64 + (a1 * b0 + a0 * b1) * 2 ^ 32 + a0 * b0"
      by (simp add: algebra_simps)
    also have "\<dots> = (t1 + a0 * b1) * 2 ^ 32 + a0 * b0 mod 2 ^ 32 + a1 * b1 * 2 ^ 64"
      using div_mult_mod_eq[of "a0 * b0" "2 ^ 32"] by (simp add: t1_def algebra_simps)
    also have "t1 + a0 * b1 = t2 + t1 div 2 ^ 32 * 2 ^ 32"
      using div_mult_mod_eq[of t1 "2 ^ 32"] by (simp add: t2_def)
    finally have "unat a * unat b = (t2 + t1 div 2 ^ 32 * 2 ^ 32) * 2 ^ 32 + a0 * b0 mod 2 ^ 32 + a1 * b1 * 2 ^ 64" .
    moreover define q2 r2 where qr: "q2 = t2 div 2 ^ 32" "r2 = t2 mod 2 ^ 32"
    have "t2 = q2 * 2 ^ 32 + r2"
      by (simp only: qr div_mult_mod_eq)
    ultimately have "unat a * unat b = t3 * 2 ^ 64 + (r2 * 2 ^ 32 + a0 * b0 mod 2 ^ 32)"
      unfolding t3_def qr(1)[symmetric] by (simp add: algebra_simps)
    moreover have "r2 * 2 ^ 32 + a0 * b0 mod 2 ^ 32 < 2 ^ 64"
      unfolding qr using mod_less_divisor[of "2 ^ 32" t2] mod_less_divisor[of "2 ^ 32" "a0 * b0"] by simp
    ultimately show ?thesis
      by simp
  qed
  ultimately show ?thesis
    by (simp add: T3)
qed

text \<open>
  The signed variants negate the operands and the product. The high half of a negated 128-bit
  number is the complement of its high half, plus one when the low half is zero.
\<close>

lemma high_of_negated:
  assumes "0 \<le> (P::int)"
  shows "(- P) div 2 ^ 64 = - 1 - P div 2 ^ 64 + of_bool (P mod 2 ^ 64 = 0)"
  using assms by (simp add: div_minus_minus zdiv_zminus1_eq_if)

lemma uint_abs: "uint (if a <s 0 then - a else a) = \<bar>sint a\<bar>" for a :: "'a::len word"
  using unat_abs[of a] by (simp add: word_sless_alt uint_nat del: nat_uint_eq)

lemma mulhu_int: "uint (mulhu a b) = uint a * uint b div 2 ^ 64"
  using arg_cong[OF mulhu_nat[of a b], of int] by (simp add: uint_nat zdiv_int)

lemma word_mult_0_iff:
  fixes a b :: uint64
  assumes "a = word_of_int A" and "b = word_of_int B"
  shows "a * b = 0 \<longleftrightarrow> \<bar>A * B\<bar> mod 2 ^ 64 = 0"
proof -
  have "a * b = 0 \<longleftrightarrow> (2 ^ 64 :: int) dvd A * B"
    unfolding assms wi_hom_mult using word_of_int_eq_0_iff[where ?'a = 64 and k = "A * B"] by simp
  then show ?thesis
    by (simp only: mod_eq_0_iff_dvd dvd_abs_iff)
qed

lemma negated_high_word:
  assumes "0 \<le> P" and "uint res = P div 2 ^ 64"
  shows "NOT res + of_bool (P mod 2 ^ 64 = 0) = (word_of_int ((- P) div 2 ^ 64) :: uint64)"
proof -
  have "res = word_of_int (P div 2 ^ 64)"
    using assms(2) by (metis word_of_int_uint)
  then show ?thesis
    unfolding high_of_negated[OF assms(1)] by (simp add: not_eq_complement wi_hom_syms)
qed

lemma mulh_int: "mulh a b = word_of_int (sint a * sint b div 2 ^ 64)"
proof -
  define P where "P = \<bar>sint a\<bar> * \<bar>sint b\<bar>"
  have P0: "0 \<le> P"
    by (simp add: P_def)
  define res where "res = mulhu (if a <s 0 then - a else a) (if b <s 0 then - b else b)"
  have r: "uint res = P div 2 ^ 64"
    unfolding res_def mulhu_int uint_abs P_def ..
  then have rw: "res = word_of_int (P div 2 ^ 64)"
    using word_of_int_uint[of res] by simp
  have z: "a * b = 0 \<longleftrightarrow> P mod 2 ^ 64 = 0"
    using word_mult_0_iff[of a "sint a" b "sint b"] by (simp add: P_def abs_mult)
  show ?thesis
  proof (cases "(a <s 0) = (b <s 0)")
    case True
    then have "P = sint a * sint b"
      by (auto simp: P_def abs_if word_sless_alt)
    then show ?thesis
      unfolding mulh_def Let_def res_def[symmetric] using True rw by simp
  next
    case False
    then have "- P = sint a * sint b"
      by (auto simp: P_def abs_if word_sless_alt)
    then show ?thesis
      unfolding mulh_def Let_def res_def[symmetric] z
      using False negated_high_word[OF P0 r] by simp
  qed
qed

lemma mulhsu_int: "mulhsu a b = word_of_int (sint a * uint b div 2 ^ 64)"
proof -
  define P where "P = \<bar>sint a\<bar> * uint b"
  have P0: "0 \<le> P"
    by (simp add: P_def)
  define res where "res = mulhu (if a <s 0 then - a else a) b"
  have r: "uint res = P div 2 ^ 64"
    unfolding res_def mulhu_int uint_abs P_def ..
  then have rw: "res = word_of_int (P div 2 ^ 64)"
    using word_of_int_uint[of res] by simp
  have z: "a * b = 0 \<longleftrightarrow> P mod 2 ^ 64 = 0"
    using word_mult_0_iff[of a "sint a" b "uint b"] by (simp add: P_def abs_mult)
  show ?thesis
  proof (cases "a <s 0")
    case False
    then have "P = sint a * uint b"
      by (simp add: P_def abs_if word_sless_alt)
    then show ?thesis
      unfolding mulhsu_def Let_def res_def[symmetric] using False rw by simp
  next
    case True
    then have "- P = sint a * uint b"
      by (simp add: P_def abs_if word_sless_alt)
    then show ?thesis
      unfolding mulhsu_def Let_def res_def[symmetric] z
      using True negated_high_word[OF P0 r] by simp
  qed
qed

text \<open>
  C34: the three routines for the upper half of a product, which split their operands into 32-bit
  halves and negate where needed, return bits 64 to 127 of the exact product of the operands read
  as unsigned, signed, or signed and unsigned numbers.
\<close>

theorem multiply_high_correct:
  "mulhu a b = word_of_int (uint a * uint b div 2 ^ 64)
   \<and> mulh a b = word_of_int (sint a * sint b div 2 ^ 64)
   \<and> mulhsu a b = word_of_int (sint a * uint b div 2 ^ 64)"
  using mulhu_int[of a b] mulh_int mulhsu_int by (metis word_of_int_uint)

section \<open>Saturating arithmetic\<close>

text \<open>The specification: the exact result, or the bound of the range it is beyond.\<close>

definition clamp :: "int \<Rightarrow> int \<Rightarrow> int \<Rightarrow> int" where
  "clamp lo hi z = (if z < lo then lo else if hi < z then hi else z)"

definition saturated :: "int \<Rightarrow> int \<Rightarrow> int \<Rightarrow> 'a::len word \<times> bool" where
  "saturated lo hi z = (word_of_int (clamp lo hi z), z < lo \<or> hi < z)"

lemma bit_top_sint: "bit x (LENGTH('a) - 1) \<longleftrightarrow> sint x < 0" for x :: "'a::len word"
  using bit_last_iff[of x] by simp

lemma sless_0_bit: "x <s 0 \<longleftrightarrow> bit x (LENGTH('a) - 1)" for x :: "'a::len word"
  unfolding bit_top_sint by (simp add: word_sless_alt)

lemma sat_bound:
  fixes x :: "'a::len word"
  defines "h \<equiv> 2 ^ (LENGTH('a) - 1)"
  shows "drop_bit (LENGTH('a) - 1) x + (push_bit (LENGTH('a) - 1) 1 - 1) =
    word_of_int (if sint x < 0 then - h else h - 1)"
proof -
  have dr: "drop_bit (LENGTH('a) - 1) x = of_bool (sint x < 0)"
  proof (rule bit_word_eqI)
    fix n
    show "bit (drop_bit (LENGTH('a) - 1) x) n \<longleftrightarrow> bit (of_bool (sint x < 0) :: 'a word) n"
      unfolding bit_top_sint[symmetric] by (cases "n = 0") (auto simp: bit_simps dest!: bit_imp_le_length)
  qed
  have pu: "push_bit (LENGTH('a) - 1) 1 = (word_of_int h :: 'a word)"
    by (simp add: h_def push_bit_of_1)
  have wr: "word_of_int h = (word_of_int (- h) :: 'a word)"
  proof -
    have "h - - h = 2 ^ LENGTH('a)"
      by (simp add: h_def flip: power_Suc)
    then show ?thesis
      using word_of_int_eq_iff[where ?'a = 'a and k = h and l = "- h"] by (simp add: take_bit_eq_mod mod_eq_dvd_iff)
  qed
  show ?thesis
  proof (cases "sint x < 0")
    case True
    show ?thesis
      unfolding dr pu if_P[OF True] wr[symmetric] using True by simp
  next
    case False
    then show ?thesis
      unfolding dr pu if_not_P[OF False] by simp
  qed
qed

lemma sint_wrap:
  fixes z :: int
  defines "h \<equiv> 2 ^ (LENGTH('a) - 1)"
  assumes "- 2 * h \<le> z" and "z < 2 * h"
  shows "sint (word_of_int z :: 'a::len word) = z + (if z < - h then 2 * h else if h \<le> z then - 2 * h else 0)"
proof -
  define c where "c = (if z < - h then 1 else if h \<le> z then - 1 else 0 :: int)"
  have "(z + h) mod (2 * h) = (z + h + c * (2 * h)) mod (2 * h)"
    by simp
  also have "\<dots> = z + h + c * (2 * h)"
    using assms(2,3) by (intro mod_pos_pos_trivial) (auto simp: c_def)
  finally have "(z + h) mod (2 * h) - h = z + c * (2 * h)"
    by simp
  moreover have "sint (word_of_int z :: 'a word) = (z + h) mod (2 * h) - h"
    by (simp add: sint_sbintrunc' signed_take_bit_eq_take_bit_shift take_bit_eq_mod h_def flip: power_Suc)
  ultimately show ?thesis
    by (simp add: c_def)
qed

lemma sint_add_wrap:
  fixes x y :: "'a::len word"
  defines "h \<equiv> 2 ^ (LENGTH('a) - 1)"
  shows "sint (x + y) = (if sint x + sint y < - h then sint x + sint y + 2 * h
    else if h \<le> sint x + sint y then sint x + sint y - 2 * h else sint x + sint y)"
    and "sint (x - y) = (if sint x - sint y < - h then sint x - sint y + 2 * h
    else if h \<le> sint x - sint y then sint x - sint y - 2 * h else sint x - sint y)"
    and "- h \<le> sint x" and "sint x < h"
proof -
  have n: "2 ^ LENGTH('a) = 2 * h"
    by (simp add: h_def flip: power_Suc)
  show r: "- h \<le> sint x" "sint x < h" for x :: "'a word"
    using sint_greater_eq[of x] sint_less[of x] by (simp_all add: h_def)
  note w = sint_wrap[where ?'a = 'a, folded h_def]
  show "sint (x + y) = (if sint x + sint y < - h then sint x + sint y + 2 * h
      else if h \<le> sint x + sint y then sint x + sint y - 2 * h else sint x + sint y)"
    using w[of "sint x + sint y"] r[of x] r[of y] by (simp add: wi_hom_add split: if_splits)
  show "sint (x - y) = (if sint x - sint y < - h then sint x - sint y + 2 * h
      else if h \<le> sint x - sint y then sint x - sint y - 2 * h else sint x - sint y)"
    using w[of "sint x - sint y"] r[of x] r[of y] by (simp add: wi_hom_sub split: if_splits)
qed

lemma sat_add_correct: "sat_add x y = saturated (- (2 ^ (LENGTH('a) - 1))) (2 ^ (LENGTH('a) - 1) - 1) (sint x + sint y)"
  for x y :: "'a::len word"
proof -
  define h :: int where "h = 2 ^ (LENGTH('a) - 1)"
  define ux where "ux = drop_bit (LENGTH('a) - 1) x + (push_bit (LENGTH('a) - 1) 1 - 1)"
  note b = sat_bound[of x, folded ux_def h_def]
  have h: "0 < h"
    by (simp add: h_def)
  note x = sint_add_wrap(3,4)[of x, folded h_def]
  note y = sint_add_wrap(3,4)[of y, folded h_def]
  note r = sint_add_wrap(1)[of x y, folded h_def]
  have "sint (word_of_int z :: 'a word) = z" if "- h \<le> z" "z < h" for z
    using sint_wrap[where ?'a = 'a and z = z] that h by (simp add: h_def)
  then have ux: "sint ux = (if sint x < 0 then - h else h - 1)"
    unfolding b using h by simp
  have "\<not> ((ux XOR y) OR NOT (y XOR (x + y))) <s 0 \<longleftrightarrow>
      (sint x < 0 \<longleftrightarrow> sint y < 0) \<and> (sint y < 0 \<longleftrightarrow> \<not> sint (x + y) < 0)"
    unfolding sless_0_bit bit_or_iff bit_not_iff bit_xor_iff unfolding bit_top_sint ux
    using h by (auto simp: bit_top_sint)
  also have "\<dots> \<longleftrightarrow> sint x + sint y < - h \<or> h - 1 < sint x + sint y"
    using x y h unfolding r by auto
  finally have c: "\<not> ((ux XOR y) OR NOT (y XOR (x + y))) <s 0 \<longleftrightarrow> sint x + sint y < - h \<or> h - 1 < sint x + sint y" .
  have w: "x + y = word_of_int (sint x + sint y)"
    by (simp add: wi_hom_add[symmetric])
  show ?thesis
    unfolding sat_add_def Let_def ux_def[symmetric] c unfolding saturated_def clamp_def h_def[symmetric] b w
    using x y h by auto
qed

lemma sat_sub_correct: "sat_sub x y = saturated (- (2 ^ (LENGTH('a) - 1))) (2 ^ (LENGTH('a) - 1) - 1) (sint x - sint y)"
  for x y :: "'a::len word"
proof -
  define h :: int where "h = 2 ^ (LENGTH('a) - 1)"
  define ux where "ux = drop_bit (LENGTH('a) - 1) x + (push_bit (LENGTH('a) - 1) 1 - 1)"
  note b = sat_bound[of x, folded ux_def h_def]
  have h: "0 < h"
    by (simp add: h_def)
  note x = sint_add_wrap(3,4)[of x, folded h_def]
  note y = sint_add_wrap(3,4)[of y, folded h_def]
  note r = sint_add_wrap(2)[of x y, folded h_def]
  have "sint (word_of_int z :: 'a word) = z" if "- h \<le> z" "z < h" for z
    using sint_wrap[where ?'a = 'a and z = z] that h by (simp add: h_def)
  then have ux: "sint ux = (if sint x < 0 then - h else h - 1)"
    unfolding b using h by simp
  have "((ux XOR y) AND (ux XOR (x - y))) <s 0 \<longleftrightarrow>
      (sint x < 0 \<longleftrightarrow> \<not> sint y < 0) \<and> (sint x < 0 \<longleftrightarrow> \<not> sint (x - y) < 0)"
    unfolding sless_0_bit bit_and_iff bit_xor_iff unfolding bit_top_sint ux
    using h by auto
  also have "\<dots> \<longleftrightarrow> sint x - sint y < - h \<or> h - 1 < sint x - sint y"
    using x y h unfolding r by auto
  finally have c: "((ux XOR y) AND (ux XOR (x - y))) <s 0 \<longleftrightarrow> sint x - sint y < - h \<or> h - 1 < sint x - sint y" .
  have w: "x - y = word_of_int (sint x - sint y)"
    by (simp add: wi_hom_sub[symmetric])
  show ?thesis
    unfolding sat_sub_def Let_def ux_def[symmetric] c unfolding saturated_def clamp_def h_def[symmetric] b w
    using x y h by auto
qed

lemma sat_addu_correct: "sat_addu x y = saturated 0 (2 ^ LENGTH('a) - 1) (uint x + uint y)"
  for x y :: "'a::len word"
proof -
  have x: "0 \<le> uint x" "uint x < 2 ^ LENGTH('a)" "0 \<le> uint y" "uint y < 2 ^ LENGTH('a)"
    using uint_lt2p[of x] uint_lt2p[of y] by simp_all
  have x0: "\<not> uint x + uint y < 0"
    using x by linarith
  have lt: "x + y < x \<longleftrightarrow> 2 ^ LENGTH('a) - 1 < uint x + uint y"
    using x by (simp add: word_less_def uint_plus_if')
  have w: "x + y = word_of_int (uint x + uint y)"
    by (simp add: wi_hom_add[symmetric])
  have m: "(- 1 :: 'a word) = word_of_int (2 ^ LENGTH('a) - 1)"
    by simp
  show ?thesis
    unfolding sat_addu_def Let_def lt saturated_def clamp_def if_not_P[OF x0]
    using x0 w m by (cases "2 ^ LENGTH('a) - 1 < uint x + uint y") (simp_all add: not_less)
qed

lemma sat_subu_correct: "sat_subu x y = saturated 0 (2 ^ LENGTH('a) - 1) (uint x - uint y)"
  for x y :: "'a::len word"
proof -
  have x: "0 \<le> uint x" "uint x < 2 ^ LENGTH('a)" "0 \<le> uint y" "uint y < 2 ^ LENGTH('a)"
    using uint_lt2p[of x] uint_lt2p[of y] by simp_all
  have x1: "\<not> 2 ^ LENGTH('a) - 1 < uint x - uint y"
    using x by linarith
  have le: "x - y \<le> x \<longleftrightarrow> \<not> uint x - uint y < 0"
    using x(4) by (simp add: word_le_def uint_sub_if' not_le)
  have w: "x - y = word_of_int (uint x - uint y)"
    by (simp add: wi_hom_sub[symmetric])
  show ?thesis
    unfolding sat_subu_def Let_def le saturated_def clamp_def
    using x1 w by (cases "uint x - uint y < 0") simp_all
qed

text \<open>
  C35: for every width, the branch-free saturating operations return the exact signed or unsigned
  sum or difference where it is in range, the bound on its side otherwise, and set the flag
  exactly when they saturate.
\<close>

theorem saturating_correct:
  fixes x y :: "'a::len word"
  defines "h \<equiv> 2 ^ (LENGTH('a) - 1)"
  shows "sat_add x y = saturated (- h) (h - 1) (sint x + sint y)
    \<and> sat_sub x y = saturated (- h) (h - 1) (sint x - sint y)
    \<and> sat_addu x y = saturated 0 (2 ^ LENGTH('a) - 1) (uint x + uint y)
    \<and> sat_subu x y = saturated 0 (2 ^ LENGTH('a) - 1) (uint x - uint y)"
  unfolding h_def by (intro conjI sat_add_correct sat_sub_correct sat_addu_correct sat_subu_correct)

section \<open>Fields and masks\<close>

lemma drop_all_ones: "0 < len \<Longrightarrow> len \<le> 64 \<Longrightarrow> drop_bit (nat (64 - len)) (- 1 :: uint64) = mask (nat len)"
  by (rule bit_word_eqI) (auto simp: bit_simps nat_less_iff)

lemma extract64_value:
  assumes "0 \<le> pos" and "0 < len" and "pos + len \<le> 64"
  shows "extract64 val pos len = Some (of_nat (unat val div 2 ^ nat pos mod 2 ^ nat len))"
proof -
  have "unat (drop_bit (nat pos) val AND mask (nat len)) = unat val div 2 ^ nat pos mod 2 ^ nat len"
    by (simp add: unat_and_mask unat_drop_bit_div)
  then have "drop_bit (nat pos) val AND mask (nat len) = of_nat (unat val div 2 ^ nat pos mod 2 ^ nat len)"
    by (metis of_nat_unat ucast_id)
  then show ?thesis
    using assms drop_all_ones[of len] by (simp add: extract64_def)
qed

lemma make_mask64_bits:
  assumes "make_mask64 pos len = Some m"
  shows "bit m n \<longleftrightarrow> n < 64 \<and> nat pos \<le> n \<and> n < nat pos + nat len"
  using assms drop_all_ones[of len] by (auto simp: make_mask64_def bit_simps split: if_splits)

end
