(* ===== verification/RV_Decode.thy ===== *)
theory RV_Decode
  imports RV_Arith
begin

text \<open>
  Instruction words (\<open>class insn_t\<close> and \<open>insn_length\<close> of \<open>riscv/decode.h\<close>) and the assembler
  the debug module uses (\<open>riscv/opcodes.h\<close>). An instruction is its 64 bits; the accessors return
  64-bit words, signed ones in two's complement.
\<close>

type_synonym reg_t = "64 word"
type_synonym insn_bits = "64 word"

section \<open>Accessors\<close>

definition insn_length :: "insn_bits \<Rightarrow> nat" where
  "insn_length x =
     (if x AND 0x03 < 0x03 then 2 else if x AND 0x1f < 0x1f then 4 else if x AND 0x3f < 0x3f then 6 else 8)"

definition insn_bits :: "insn_bits \<Rightarrow> insn_bits" where
  "insn_bits b = b AND NOT (push_bit (insn_length b * 8) (- 1))"

definition insn_x :: "insn_bits \<Rightarrow> nat \<Rightarrow> nat \<Rightarrow> reg_t" where
  "insn_x b lo len = drop_bit lo b AND (push_bit len 1 - 1)"

definition insn_xs :: "insn_bits \<Rightarrow> nat \<Rightarrow> nat \<Rightarrow> reg_t" where
  "insn_xs b lo len = signed_drop_bit (64 - len) (push_bit (64 - lo - len) b)"

definition imm_sign :: "insn_bits \<Rightarrow> reg_t" where
  "imm_sign b = insn_xs b 63 1"

definition i_imm :: "insn_bits \<Rightarrow> reg_t" where
  "i_imm b = signed_drop_bit 20 b"

definition insn_shamt :: "insn_bits \<Rightarrow> reg_t" where
  "insn_shamt b = insn_x b 20 6"

definition s_imm :: "insn_bits \<Rightarrow> reg_t" where
  "s_imm b = insn_x b 7 5 + push_bit 5 (insn_xs b 25 7)"

definition sb_imm :: "insn_bits \<Rightarrow> reg_t" where
  "sb_imm b = push_bit 1 (insn_x b 8 4) + push_bit 5 (insn_x b 25 6) + push_bit 11 (insn_x b 7 1)
     + push_bit 12 (imm_sign b)"

definition u_imm :: "insn_bits \<Rightarrow> reg_t" where
  "u_imm b = push_bit 12 (signed_drop_bit 12 b)"

definition uj_imm :: "insn_bits \<Rightarrow> reg_t" where
  "uj_imm b = push_bit 1 (insn_x b 21 10) + push_bit 11 (insn_x b 20 1) + push_bit 12 (insn_x b 12 8)
     + push_bit 20 (imm_sign b)"

definition insn_rd :: "insn_bits \<Rightarrow> nat" where
  "insn_rd b = unat (insn_x b 7 5)"

definition insn_rs1 :: "insn_bits \<Rightarrow> nat" where
  "insn_rs1 b = unat (insn_x b 15 5)"

definition insn_rs2 :: "insn_bits \<Rightarrow> nat" where
  "insn_rs2 b = unat (insn_x b 20 5)"

definition insn_rs3 :: "insn_bits \<Rightarrow> nat" where
  "insn_rs3 b = unat (insn_x b 27 5)"

definition insn_rm :: "insn_bits \<Rightarrow> nat" where
  "insn_rm b = unat (insn_x b 12 3)"

definition insn_csr :: "insn_bits \<Rightarrow> nat" where
  "insn_csr b = unat (insn_x b 20 12)"

definition rvc_imm :: "insn_bits \<Rightarrow> reg_t" where
  "rvc_imm b = insn_x b 2 5 + push_bit 5 (insn_xs b 12 1)"

definition rvc_zimm :: "insn_bits \<Rightarrow> reg_t" where
  "rvc_zimm b = insn_x b 2 5 + push_bit 5 (insn_x b 12 1)"

definition rvc_addi4spn_imm :: "insn_bits \<Rightarrow> reg_t" where
  "rvc_addi4spn_imm b = push_bit 2 (insn_x b 6 1) + push_bit 3 (insn_x b 5 1) + push_bit 4 (insn_x b 11 2)
     + push_bit 6 (insn_x b 7 4)"

definition rvc_addi16sp_imm :: "insn_bits \<Rightarrow> reg_t" where
  "rvc_addi16sp_imm b = push_bit 4 (insn_x b 6 1) + push_bit 5 (insn_x b 2 1) + push_bit 6 (insn_x b 5 1)
     + push_bit 7 (insn_x b 3 2) + push_bit 9 (insn_xs b 12 1)"

definition rvc_lwsp_imm :: "insn_bits \<Rightarrow> reg_t" where
  "rvc_lwsp_imm b = push_bit 2 (insn_x b 4 3) + push_bit 5 (insn_x b 12 1) + push_bit 6 (insn_x b 2 2)"

definition rvc_ldsp_imm :: "insn_bits \<Rightarrow> reg_t" where
  "rvc_ldsp_imm b = push_bit 3 (insn_x b 5 2) + push_bit 5 (insn_x b 12 1) + push_bit 6 (insn_x b 2 3)"

definition rvc_swsp_imm :: "insn_bits \<Rightarrow> reg_t" where
  "rvc_swsp_imm b = push_bit 2 (insn_x b 9 4) + push_bit 6 (insn_x b 7 2)"

definition rvc_sdsp_imm :: "insn_bits \<Rightarrow> reg_t" where
  "rvc_sdsp_imm b = push_bit 3 (insn_x b 10 3) + push_bit 6 (insn_x b 7 3)"

definition rvc_lw_imm :: "insn_bits \<Rightarrow> reg_t" where
  "rvc_lw_imm b = push_bit 2 (insn_x b 6 1) + push_bit 3 (insn_x b 10 3) + push_bit 6 (insn_x b 5 1)"

definition rvc_ld_imm :: "insn_bits \<Rightarrow> reg_t" where
  "rvc_ld_imm b = push_bit 3 (insn_x b 10 3) + push_bit 6 (insn_x b 5 2)"

definition rvc_j_imm :: "insn_bits \<Rightarrow> reg_t" where
  "rvc_j_imm b = push_bit 1 (insn_x b 3 3) + push_bit 4 (insn_x b 11 1) + push_bit 5 (insn_x b 2 1)
     + push_bit 6 (insn_x b 7 1) + push_bit 7 (insn_x b 6 1) + push_bit 8 (insn_x b 9 2)
     + push_bit 10 (insn_x b 8 1) + push_bit 11 (insn_xs b 12 1)"

definition rvc_b_imm :: "insn_bits \<Rightarrow> reg_t" where
  "rvc_b_imm b = push_bit 1 (insn_x b 3 2) + push_bit 3 (insn_x b 10 2) + push_bit 5 (insn_x b 2 1)
     + push_bit 6 (insn_x b 5 2) + push_bit 8 (insn_xs b 12 1)"

definition rvc_rs1s :: "insn_bits \<Rightarrow> nat" where
  "rvc_rs1s b = 8 + unat (insn_x b 7 3)"

definition rvc_rs2s :: "insn_bits \<Rightarrow> nat" where
  "rvc_rs2s b = 8 + unat (insn_x b 2 3)"

definition rvc_rs2 :: "insn_bits \<Rightarrow> nat" where
  "rvc_rs2 b = unat (insn_x b 2 5)"

section \<open>Fields as integers\<close>

definition fld :: "insn_bits \<Rightarrow> nat \<Rightarrow> nat \<Rightarrow> int" where
  "fld b lo len = uint b div 2 ^ lo mod 2 ^ len"

definition sfld :: "insn_bits \<Rightarrow> nat \<Rightarrow> nat \<Rightarrow> int" where
  "sfld b lo len = signed_take_bit (len - 1) (uint b div 2 ^ lo)"

lemma insn_x_take: "insn_x b lo len = take_bit len (drop_bit lo b)"
  by (simp add: insn_x_def take_bit_eq_mask mask_eq_exp_minus_1 push_bit_of_1)

lemma uint_insn_x: "uint (insn_x b lo len) = fld b lo len"
  unfolding insn_x_take unsigned_take_bit_eq unsigned_drop_bit_eq unfolding fld_def take_bit_eq_mod drop_bit_eq_div using uint_lt2p[of b] by simp

lemma insn_x_fld: "insn_x b lo len = word_of_int (fld b lo len)"
  using word_of_int_uint[of "insn_x b lo len"] by (simp only: uint_insn_x)

lemma fld_bounds: "0 \<le> fld b lo len" "fld b lo len < 2 ^ len"
  by (simp_all add: fld_def)

lemma bit_insn_xs:
  assumes "0 < len" and "lo + len \<le> 64" and "n < 64"
  shows "bit (insn_xs b lo len) n \<longleftrightarrow> bit b (lo + min n (len - 1))"
proof -
  have "bit (insn_xs b lo len) n \<longleftrightarrow> bit (push_bit (64 - lo - len) b) (if len \<le> n then 63 else 64 - len + n)"
    using assms unfolding insn_xs_def bit_signed_drop_bit_iff by auto
  also have "\<dots> \<longleftrightarrow> bit b (lo + min n (len - 1))"
  proof (cases "len \<le> n")
    case True
    have "63 - (64 - lo - len) = lo + (len - 1)" "64 - lo - len \<le> 63" "min n (len - 1) = len - 1"
      using True assms by simp_all
    then show ?thesis
      using True by (simp add: bit_push_bit_iff)
  next
    case False
    have "64 - len + n - (64 - lo - len) = lo + n" "64 - lo - len \<le> 64 - len + n" "64 - len + n < 64"
        "min n (len - 1) = n"
      using False assms by simp_all
    then show ?thesis
      using False by (simp add: bit_push_bit_iff)
  qed
  finally show ?thesis .
qed

lemma sint_insn_xs:
  assumes "0 < len" and "lo + len \<le> 64"
  shows "sint (insn_xs b lo len) = sfld b lo len"
proof (rule bit_eqI)
  fix n
  have "bit (sfld b lo len) n \<longleftrightarrow> bit b (lo + min n (len - 1))"
    unfolding sfld_def by (simp add: bit_simps min.commute add.commute flip: drop_bit_eq_div)
  moreover have "bit (sint (insn_xs b lo len)) n \<longleftrightarrow> bit (insn_xs b lo len) (min n 63)"
    by (simp add: bit_simps min_def)
  moreover have "min (min n 63) (len - 1) = min n (len - 1)"
    using assms by simp
  ultimately show "bit (sint (insn_xs b lo len)) n \<longleftrightarrow> bit (sfld b lo len) n"
    using bit_insn_xs[OF assms, of "min n 63"] by simp
qed

lemma insn_xs_sfld:
  assumes "0 < len" and "lo + len \<le> 64"
  shows "insn_xs b lo len = word_of_int (sfld b lo len)"
  unfolding sint_insn_xs[OF assms, symmetric] by simp

lemma sfld_bounds:
  assumes "0 < len"
  shows "- (2 ^ (len - 1)) \<le> sfld b lo len" "sfld b lo len < 2 ^ (len - 1)"
  by (simp_all add: sfld_def signed_take_bit_int_less_exp signed_take_bit_int_greater_eq_minus_exp)

text \<open>Every immediate is a sum of fields at their places.\<close>

lemma imm_sums:
  "s_imm b = word_of_int (fld b 7 5 + sfld b 25 7 * 2 ^ 5)"
  "sb_imm b = word_of_int (fld b 8 4 * 2 ^ 1 + fld b 25 6 * 2 ^ 5 + fld b 7 1 * 2 ^ 11 + sfld b 63 1 * 2 ^ 12)"
  "uj_imm b = word_of_int (fld b 21 10 * 2 ^ 1 + fld b 20 1 * 2 ^ 11 + fld b 12 8 * 2 ^ 12 + sfld b 63 1 * 2 ^ 20)"
  "rvc_imm b = word_of_int (fld b 2 5 + sfld b 12 1 * 2 ^ 5)"
  "rvc_zimm b = word_of_int (fld b 2 5 + fld b 12 1 * 2 ^ 5)"
  "rvc_addi4spn_imm b = word_of_int (fld b 6 1 * 2 ^ 2 + fld b 5 1 * 2 ^ 3 + fld b 11 2 * 2 ^ 4 + fld b 7 4 * 2 ^ 6)"
  "rvc_addi16sp_imm b = word_of_int (fld b 6 1 * 2 ^ 4 + fld b 2 1 * 2 ^ 5 + fld b 5 1 * 2 ^ 6 + fld b 3 2 * 2 ^ 7 + sfld b 12 1 * 2 ^ 9)"
  "rvc_lwsp_imm b = word_of_int (fld b 4 3 * 2 ^ 2 + fld b 12 1 * 2 ^ 5 + fld b 2 2 * 2 ^ 6)"
  "rvc_ldsp_imm b = word_of_int (fld b 5 2 * 2 ^ 3 + fld b 12 1 * 2 ^ 5 + fld b 2 3 * 2 ^ 6)"
  "rvc_swsp_imm b = word_of_int (fld b 9 4 * 2 ^ 2 + fld b 7 2 * 2 ^ 6)"
  "rvc_sdsp_imm b = word_of_int (fld b 10 3 * 2 ^ 3 + fld b 7 3 * 2 ^ 6)"
  "rvc_lw_imm b = word_of_int (fld b 6 1 * 2 ^ 2 + fld b 10 3 * 2 ^ 3 + fld b 5 1 * 2 ^ 6)"
  "rvc_ld_imm b = word_of_int (fld b 10 3 * 2 ^ 3 + fld b 5 2 * 2 ^ 6)"
  "rvc_j_imm b = word_of_int (fld b 3 3 * 2 ^ 1 + fld b 11 1 * 2 ^ 4 + fld b 2 1 * 2 ^ 5 + fld b 7 1 * 2 ^ 6 + fld b 6 1 * 2 ^ 7 + fld b 9 2 * 2 ^ 8 + fld b 8 1 * 2 ^ 10 + sfld b 12 1 * 2 ^ 11)"
  "rvc_b_imm b = word_of_int (fld b 3 2 * 2 ^ 1 + fld b 10 2 * 2 ^ 3 + fld b 2 1 * 2 ^ 5 + fld b 5 2 * 2 ^ 6 + sfld b 12 1 * 2 ^ 8)"
  by (simp_all add: s_imm_def sb_imm_def uj_imm_def rvc_imm_def rvc_zimm_def rvc_addi4spn_imm_def rvc_addi16sp_imm_def rvc_lwsp_imm_def rvc_ldsp_imm_def rvc_swsp_imm_def rvc_sdsp_imm_def rvc_lw_imm_def rvc_ld_imm_def rvc_j_imm_def rvc_b_imm_def imm_sign_def insn_x_fld insn_xs_sfld push_bit_eq_mult)

text \<open>\<open>imm_in w lo hi k\<close>: the signed value of the word lies between the bounds and is a multiple of \<open>k\<close>.\<close>

definition imm_in :: "reg_t \<Rightarrow> int \<Rightarrow> int \<Rightarrow> int \<Rightarrow> bool" where
  "imm_in w lo hi k \<longleftrightarrow> lo \<le> sint w \<and> sint w \<le> hi \<and> k dvd sint w"

lemma imm_in_word_of_int:
  assumes "lo \<le> z" and "z \<le> hi" and "k dvd z" and "- (2 ^ 63) \<le> lo" and "hi < 2 ^ 63"
  shows "imm_in (word_of_int z) lo hi k"
  using assms sint_wrap[where ?'a = 64 and z = z] by (simp add: imm_in_def)

lemma s_imm_in: "imm_in (s_imm b) (- 2048) 2047 1"
  unfolding imm_sums using fld_bounds[of b 7 5] sfld_bounds[of 7 b 25]
  by (intro imm_in_word_of_int) (simp_all add: dvd_add)

lemma sb_imm_in: "imm_in (sb_imm b) (- 4096) 4094 2"
  unfolding imm_sums using fld_bounds[of b 25 6] fld_bounds[of b 7 1] fld_bounds[of b 8 4] sfld_bounds[of 1 b 63]
  by (intro imm_in_word_of_int) (simp_all add: dvd_add)

lemma uj_imm_in: "imm_in (uj_imm b) (- 1048576) 1048574 2"
  unfolding imm_sums using fld_bounds[of b 12 8] fld_bounds[of b 20 1] fld_bounds[of b 21 10] sfld_bounds[of 1 b 63]
  by (intro imm_in_word_of_int) (simp_all add: dvd_add)

lemma rvc_imm_in: "imm_in (rvc_imm b) (- 32) 31 1"
  unfolding imm_sums using fld_bounds[of b 2 5] sfld_bounds[of 1 b 12]
  by (intro imm_in_word_of_int) (simp_all add: dvd_add)

text \<open>A 32-bit instruction is fetched sign-extended.\<close>

lemma i_imm_in: "imm_in (i_imm (scast w)) (- 2048) 2047 1" for w :: uint32
proof -
  have "sint (i_imm (scast w)) = sint w div 2 ^ 20"
    by (simp add: i_imm_def sint_signed_drop_bit_eq drop_bit_eq_div sint_scast32)
  then show ?thesis
    using sint_greater_eq[of w] sint_less[of w] by (simp add: imm_in_def) linarith
qed

lemma u_imm_in: "imm_in (u_imm (scast w)) (- (2 ^ 31)) (2 ^ 31 - 4096) 4096" for w :: uint32
proof -
  have "u_imm (scast w) = push_bit 12 (word_of_int (sint (signed_drop_bit 12 (scast w :: insn_bits))))"
    by (simp add: u_imm_def)
  also have "\<dots> = word_of_int (sint w div 2 ^ 12 * 2 ^ 12)"
    by (simp add: sint_signed_drop_bit_eq drop_bit_eq_div sint_scast32 push_bit_eq_mult)
  finally show ?thesis
    using sint_greater_eq[of w] sint_less[of w]
    by (simp only:) (intro imm_in_word_of_int; simp; linarith)
qed

lemma insn_fields_less: "unat (insn_x b lo len) < 2 ^ len"
  by (simp add: insn_x_take unat_take_bit_mod)

text \<open>
  \<open>imm_bits w b z signed_imm src\<close>: bit \<open>z + k\<close> of the word is bit \<open>src ! k\<close> of the instruction, the bits
  below are zero, and those above are zero or copies of the last source bit.
\<close>

definition imm_bits :: "reg_t \<Rightarrow> insn_bits \<Rightarrow> nat \<Rightarrow> bool \<Rightarrow> nat list \<Rightarrow> bool" where
  "imm_bits w b z signed_imm src \<longleftrightarrow>
     (\<forall>n<64. bit w n \<longleftrightarrow>
       (if n < z then False else if n - z < length src then bit b (src ! (n - z)) else signed_imm \<and> bit b (last src)))"

lemma all_below_64: "(\<forall>n<64. P n) \<longleftrightarrow> list_all P [0..<64]"
  by (auto simp: list_all_iff)

definition below :: "nat \<Rightarrow> reg_t \<Rightarrow> bool" where
  "below k x \<longleftrightarrow> (\<forall>n. bit x n \<longrightarrow> n < k)"

lemma bit_plus_push:
  fixes x y :: reg_t
  assumes "below k x"
  shows "bit (x + push_bit k y) n \<longleftrightarrow> (if n < k then bit x n else n < 64 \<and> bit y (n - k))"
proof -
  have "x + push_bit k y = x OR push_bit k y"
    by (rule disjunctive_add) (use assms in \<open>auto simp: below_def bit_simps\<close>)
  then show ?thesis
    using assms by (auto simp: below_def bit_simps)
qed

lemma below_insn_x: "len \<le> k \<Longrightarrow> below k (insn_x b lo len)"
  by (auto simp: below_def insn_x_take bit_simps)

lemma below_push: "j \<le> k \<Longrightarrow> below (k - j) x \<Longrightarrow> below k (push_bit j x)"
  by (fastforce simp: below_def bit_simps)

lemma below_plus: "below j x \<Longrightarrow> j \<le> k \<Longrightarrow> below (k - j) y \<Longrightarrow> below k (x + push_bit j y)"
  unfolding below_def[of k] by (auto simp: bit_plus_push below_def)

lemma bit_insn_x: "bit (insn_x b lo len) n \<longleftrightarrow> n < len \<and> bit b (lo + n)"
  by (auto simp: insn_x_take bit_simps)

lemma bit_push_num: "bit (push_bit k x) n \<longleftrightarrow> k \<le> n \<and> n < 64 \<and> bit x (n - k)" for x :: reg_t
  by (auto simp: bit_simps)

lemmas imm_unfold = s_imm_def sb_imm_def uj_imm_def rvc_imm_def rvc_zimm_def rvc_addi4spn_imm_def rvc_addi16sp_imm_def
  rvc_lwsp_imm_def rvc_ldsp_imm_def rvc_swsp_imm_def rvc_sdsp_imm_def rvc_lw_imm_def rvc_ld_imm_def rvc_j_imm_def rvc_b_imm_def
  imm_sign_def

lemmas below_intros = below_plus below_push below_insn_x

lemma upt_64: "[0..<64] = [0,1,2,3,4,5,6,7,8,9,10,11,12,13,14,15,16,17,18,19,20,21,22,23,24,25,26,27,28,29,30,31,32,33,34,35,36,37,38,39,40,41,42,43,44,45,46,47,48,49,50,51,52,53,54,55,56,57,58,59,60,61,62,63]"
  by (simp add: upt_rec)

lemma bit_times_2: "bit (x * 2) n \<longleftrightarrow> 1 \<le> n \<and> n < 64 \<and> bit x (n - 1)" for x :: reg_t
  using bit_push_num[of 1 x n] by (simp add: push_bit_eq_mult)

lemma imm_layout:
  "imm_bits (s_imm b) b 0 True [7, 8, 9, 10, 11, 25, 26, 27, 28, 29, 30, 31]"
  "imm_bits (sb_imm b) b 1 True [8, 9, 10, 11, 25, 26, 27, 28, 29, 30, 7, 63]"
  "imm_bits (uj_imm b) b 1 True [21, 22, 23, 24, 25, 26, 27, 28, 29, 30, 20, 12, 13, 14, 15, 16, 17, 18, 19, 63]"
  "imm_bits (rvc_imm b) b 0 True [2, 3, 4, 5, 6, 12]"
  "imm_bits (rvc_zimm b) b 0 False [2, 3, 4, 5, 6, 12]"
  "imm_bits (rvc_addi4spn_imm b) b 2 False [6, 5, 11, 12, 7, 8, 9, 10]"
  "imm_bits (rvc_addi16sp_imm b) b 4 True [6, 2, 5, 3, 4, 12]"
  "imm_bits (rvc_lwsp_imm b) b 2 False [4, 5, 6, 12, 2, 3]"
  "imm_bits (rvc_ldsp_imm b) b 3 False [5, 6, 12, 2, 3, 4]"
  "imm_bits (rvc_swsp_imm b) b 2 False [9, 10, 11, 12, 7, 8]"
  "imm_bits (rvc_sdsp_imm b) b 3 False [10, 11, 12, 7, 8, 9]"
  "imm_bits (rvc_lw_imm b) b 2 False [6, 10, 11, 12, 5]"
  "imm_bits (rvc_ld_imm b) b 3 False [10, 11, 12, 5, 6]"
  "imm_bits (rvc_j_imm b) b 1 True [3, 4, 5, 11, 2, 7, 6, 9, 10, 8, 12]"
  "imm_bits (rvc_b_imm b) b 1 True [3, 4, 10, 11, 2, 5, 6, 12]"
  unfolding imm_bits_def all_below_64 upt_64 imm_unfold
  by ((subst bit_plus_push, (intro below_intros; simp))+,
      simp add: bit_insn_x bit_push_num bit_times_2 bit_insn_xs del: push_bit_numeral)+

lemma word_imm_layout:
  fixes w :: uint32
  shows "imm_bits (i_imm (scast w)) (scast w) 0 True [20, 21, 22, 23, 24, 25, 26, 27, 28, 29, 30, 31]"
    "imm_bits (s_imm (scast w)) (scast w) 0 True [7, 8, 9, 10, 11, 25, 26, 27, 28, 29, 30, 31]"
    "imm_bits (sb_imm (scast w)) (scast w) 1 True [8, 9, 10, 11, 25, 26, 27, 28, 29, 30, 7, 31]"
    "imm_bits (u_imm (scast w)) (scast w) 12 True [12, 13, 14, 15, 16, 17, 18, 19, 20, 21, 22, 23, 24, 25, 26, 27, 28, 29, 30, 31]"
    "imm_bits (uj_imm (scast w)) (scast w) 1 True [21, 22, 23, 24, 25, 26, 27, 28, 29, 30, 20, 12, 13, 14, 15, 16, 17, 18, 19, 31]"
proof -
  have s: "bit (scast w :: insn_bits) k \<longleftrightarrow> bit (scast w :: insn_bits) 31" if "32 \<le> k" "k < 64" for k
    using that by (simp add: bit_simps)
  show "imm_bits (i_imm (scast w)) (scast w) 0 True [20, 21, 22, 23, 24, 25, 26, 27, 28, 29, 30, 31]"
    unfolding imm_bits_def all_below_64 upt_64 i_imm_def by (simp add: bit_signed_drop_bit_iff s)
  show "imm_bits (u_imm (scast w)) (scast w) 12 True [12, 13, 14, 15, 16, 17, 18, 19, 20, 21, 22, 23, 24, 25, 26, 27, 28, 29, 30, 31]"
    unfolding imm_bits_def all_below_64 upt_64 u_imm_def
    by (simp add: bit_push_num bit_signed_drop_bit_iff s del: push_bit_numeral)
  show "imm_bits (s_imm (scast w)) (scast w) 0 True [7, 8, 9, 10, 11, 25, 26, 27, 28, 29, 30, 31]"
    by (rule imm_layout)
  show "imm_bits (sb_imm (scast w)) (scast w) 1 True [8, 9, 10, 11, 25, 26, 27, 28, 29, 30, 7, 31]"
    using imm_layout(2)[of "scast w"] unfolding imm_bits_def all_below_64 upt_64 by (simp add: s)
  show "imm_bits (uj_imm (scast w)) (scast w) 1 True [21, 22, 23, 24, 25, 26, 27, 28, 29, 30, 20, 12, 13, 14, 15, 16, 17, 18, 19, 31]"
    using imm_layout(3)[of "scast w"] unfolding imm_bits_def all_below_64 upt_64 by (simp add: s)
qed

lemma shamt_layout: "imm_bits (insn_shamt b) b 0 False [20, 21, 22, 23, 24, 25]"
  unfolding imm_bits_def all_below_64 upt_64 insn_shamt_def by (simp add: bit_insn_x)

lemma register_fields:
  "int (insn_rd b) = fld b 7 5"
  "int (insn_rs1 b) = fld b 15 5"
  "int (insn_rs2 b) = fld b 20 5"
  "int (insn_rs3 b) = fld b 27 5"
  "int (insn_rm b) = fld b 12 3"
  "int (insn_csr b) = fld b 20 12"
  "int (rvc_rs2 b) = fld b 2 5"
  "int (rvc_rs1s b) = 8 + fld b 7 3"
  "int (rvc_rs2s b) = 8 + fld b 2 3"
  by (simp_all add: insn_rd_def insn_rs1_def insn_rs2_def insn_rs3_def insn_rm_def insn_csr_def rvc_rs2_def rvc_rs1s_def
      rvc_rs2s_def uint_insn_x flip: uint_nat)

text \<open>
  C36: an instruction word is decoded as its format lays it out. Whatever the word, bit for bit: every immediate of a
  fetched 32-bit instruction and of a compressed one has the bits of the instruction at the places of its
  format, zeros below and the sign (or zeros) above; the register numbers, the rounding mode and the CSR
  number are the fields of their format, and the compressed register numbers count from register 8. So the immediates have their range
  and alignment and the register files are never accessed out of bounds.
\<close>

theorem decoded_fields_correct:
  fixes w :: uint32 and b :: insn_bits
  shows "imm_bits (i_imm (scast w)) (scast w) 0 True [20, 21, 22, 23, 24, 25, 26, 27, 28, 29, 30, 31]
    \<and> imm_bits (s_imm (scast w)) (scast w) 0 True [7, 8, 9, 10, 11, 25, 26, 27, 28, 29, 30, 31]
    \<and> imm_bits (sb_imm (scast w)) (scast w) 1 True [8, 9, 10, 11, 25, 26, 27, 28, 29, 30, 7, 31]
    \<and> imm_bits (u_imm (scast w)) (scast w) 12 True [12, 13, 14, 15, 16, 17, 18, 19, 20, 21, 22, 23, 24, 25, 26, 27, 28, 29, 30, 31]
    \<and> imm_bits (uj_imm (scast w)) (scast w) 1 True [21, 22, 23, 24, 25, 26, 27, 28, 29, 30, 20, 12, 13, 14, 15, 16, 17, 18, 19, 31]
    \<and> imm_bits (insn_shamt b) b 0 False [20, 21, 22, 23, 24, 25]
    \<and> imm_bits (rvc_imm b) b 0 True [2, 3, 4, 5, 6, 12]
    \<and> imm_bits (rvc_zimm b) b 0 False [2, 3, 4, 5, 6, 12]
    \<and> imm_bits (rvc_addi4spn_imm b) b 2 False [6, 5, 11, 12, 7, 8, 9, 10]
    \<and> imm_bits (rvc_addi16sp_imm b) b 4 True [6, 2, 5, 3, 4, 12]
    \<and> imm_bits (rvc_lwsp_imm b) b 2 False [4, 5, 6, 12, 2, 3]
    \<and> imm_bits (rvc_ldsp_imm b) b 3 False [5, 6, 12, 2, 3, 4]
    \<and> imm_bits (rvc_swsp_imm b) b 2 False [9, 10, 11, 12, 7, 8]
    \<and> imm_bits (rvc_sdsp_imm b) b 3 False [10, 11, 12, 7, 8, 9]
    \<and> imm_bits (rvc_lw_imm b) b 2 False [6, 10, 11, 12, 5]
    \<and> imm_bits (rvc_ld_imm b) b 3 False [10, 11, 12, 5, 6]
    \<and> imm_bits (rvc_j_imm b) b 1 True [3, 4, 5, 11, 2, 7, 6, 9, 10, 8, 12]
    \<and> imm_bits (rvc_b_imm b) b 1 True [3, 4, 10, 11, 2, 5, 6, 12]
    \<and> int (insn_rd b) = fld b 7 5 \<and> int (insn_rs1 b) = fld b 15 5 \<and> int (insn_rs2 b) = fld b 20 5
    \<and> int (insn_rs3 b) = fld b 27 5 \<and> int (insn_rm b) = fld b 12 3 \<and> int (insn_csr b) = fld b 20 12
    \<and> int (rvc_rs2 b) = fld b 2 5 \<and> int (rvc_rs1s b) = 8 + fld b 7 3 \<and> int (rvc_rs2s b) = 8 + fld b 2 3
    \<and> imm_in (i_imm (scast w)) (- 2048) 2047 1 \<and> imm_in (u_imm (scast w)) (- (2 ^ 31)) (2 ^ 31 - 4096) 4096
    \<and> imm_in (s_imm b) (- 2048) 2047 1 \<and> imm_in (sb_imm b) (- 4096) 4094 2 \<and> imm_in (uj_imm b) (- 1048576) 1048574 2
    \<and> insn_rd b < 32 \<and> insn_rs1 b < 32 \<and> insn_rs2 b < 32 \<and> insn_rs3 b < 32 \<and> rvc_rs2 b < 32
    \<and> rvc_rs1s b \<in> {8..<16} \<and> rvc_rs2s b \<in> {8..<16}"
  using insn_fields_less[of b 7 5] insn_fields_less[of b 15 5] insn_fields_less[of b 20 5] insn_fields_less[of b 27 5]
    insn_fields_less[of b 7 3] insn_fields_less[of b 2 3] insn_fields_less[of b 2 5]
  by (intro conjI word_imm_layout shamt_layout imm_layout register_fields i_imm_in u_imm_in s_imm_in sb_imm_in uj_imm_in)
    (simp_all add: insn_rd_def insn_rs1_def insn_rs2_def insn_rs3_def rvc_rs1s_def rvc_rs2s_def rvc_rs2_def)

section \<open>The assembler of the debug module\<close>

definition enc_bits :: "uint32 \<Rightarrow> nat \<Rightarrow> nat \<Rightarrow> uint32" where
  "enc_bits val hi lo = drop_bit lo val AND (push_bit (hi + 1 - lo) 1 - 1)"

definition enc_bit :: "uint32 \<Rightarrow> nat \<Rightarrow> uint32" where
  "enc_bit val b = drop_bit b val AND 1"

definition enc_jal :: "uint32 \<Rightarrow> uint32 \<Rightarrow> uint32" where
  "enc_jal rd imm =
     push_bit 31 (enc_bit imm 20) OR push_bit 21 (enc_bits imm 10 1) OR push_bit 20 (enc_bit imm 11)
     OR push_bit 12 (enc_bits imm 19 12) OR push_bit 7 rd OR 0x6f"

definition enc_csrsi :: "uint32 \<Rightarrow> uint16 \<Rightarrow> uint32" where
  "enc_csrsi csr imm = push_bit 20 csr OR push_bit 15 (enc_bits (ucast imm) 4 0) OR 0x6073"

definition enc_sw :: "uint32 \<Rightarrow> uint32 \<Rightarrow> uint16 \<Rightarrow> uint32" where
  "enc_sw src base offset =
     push_bit 25 (enc_bits (ucast offset) 11 5) OR push_bit 20 src OR push_bit 15 base
     OR push_bit 7 (enc_bits (ucast offset) 4 0) OR 0x2023"

definition enc_sd :: "uint32 \<Rightarrow> uint32 \<Rightarrow> uint16 \<Rightarrow> uint32" where
  "enc_sd src base offset =
     push_bit 25 (enc_bits (ucast offset) 11 5) OR push_bit 20 src OR push_bit 15 base
     OR push_bit 7 (enc_bits (ucast offset) 4 0) OR 0x3023"

definition enc_sh :: "uint32 \<Rightarrow> uint32 \<Rightarrow> uint16 \<Rightarrow> uint32" where
  "enc_sh src base offset =
     push_bit 25 (enc_bits (ucast offset) 11 5) OR push_bit 20 src OR push_bit 15 base
     OR push_bit 7 (enc_bits (ucast offset) 4 0) OR 0x1023"

definition enc_sb :: "uint32 \<Rightarrow> uint32 \<Rightarrow> uint16 \<Rightarrow> uint32" where
  "enc_sb src base offset =
     push_bit 25 (enc_bits (ucast offset) 11 5) OR push_bit 20 src OR push_bit 15 base
     OR push_bit 7 (enc_bits (ucast offset) 4 0) OR 0x23"

definition enc_ld :: "uint32 \<Rightarrow> uint32 \<Rightarrow> uint16 \<Rightarrow> uint32" where
  "enc_ld rd base offset =
     push_bit 20 (enc_bits (ucast offset) 11 0) OR push_bit 15 base OR push_bit 7 (enc_bits rd 4 0) OR 0x3003"

definition enc_lw :: "uint32 \<Rightarrow> uint32 \<Rightarrow> uint16 \<Rightarrow> uint32" where
  "enc_lw rd base offset =
     push_bit 20 (enc_bits (ucast offset) 11 0) OR push_bit 15 base OR push_bit 7 (enc_bits rd 4 0) OR 0x2003"

definition enc_lh :: "uint32 \<Rightarrow> uint32 \<Rightarrow> uint16 \<Rightarrow> uint32" where
  "enc_lh rd base offset =
     push_bit 20 (enc_bits (ucast offset) 11 0) OR push_bit 15 base OR push_bit 7 (enc_bits rd 4 0) OR 0x1003"

definition enc_lb :: "uint32 \<Rightarrow> uint32 \<Rightarrow> uint16 \<Rightarrow> uint32" where
  "enc_lb rd base offset =
     push_bit 20 (enc_bits (ucast offset) 11 0) OR push_bit 15 base OR push_bit 7 (enc_bits rd 4 0) OR 0x3"

definition enc_csrw :: "uint32 \<Rightarrow> uint32 \<Rightarrow> uint32" where
  "enc_csrw source csr = push_bit 20 csr OR push_bit 15 source OR 0x1073"

definition enc_addi :: "uint32 \<Rightarrow> uint32 \<Rightarrow> uint16 \<Rightarrow> uint32" where
  "enc_addi dest src imm =
     push_bit 20 (enc_bits (ucast imm) 11 0) OR push_bit 15 src OR push_bit 7 dest OR 0x13"

definition enc_csrr :: "uint32 \<Rightarrow> uint32 \<Rightarrow> uint32" where
  "enc_csrr rd csr = push_bit 20 csr OR push_bit 7 rd OR 0x2073"

definition enc_csrrs :: "uint32 \<Rightarrow> uint32 \<Rightarrow> uint32 \<Rightarrow> uint32" where
  "enc_csrrs rd rs1 csr = push_bit 20 csr OR push_bit 15 rs1 OR push_bit 7 rd OR 0x2073"

definition enc_fsw :: "uint32 \<Rightarrow> uint32 \<Rightarrow> uint16 \<Rightarrow> uint32" where
  "enc_fsw src base offset =
     push_bit 25 (enc_bits (ucast offset) 11 5) OR push_bit 20 (enc_bits src 4 0) OR push_bit 15 base
     OR push_bit 7 (enc_bits (ucast offset) 4 0) OR 0x2027"

definition enc_fsd :: "uint32 \<Rightarrow> uint32 \<Rightarrow> uint16 \<Rightarrow> uint32" where
  "enc_fsd src base offset =
     push_bit 25 (enc_bits (ucast offset) 11 5) OR push_bit 20 (enc_bits src 4 0) OR push_bit 15 base
     OR push_bit 7 (enc_bits (ucast offset) 4 0) OR 0x3027"

definition enc_flw :: "uint32 \<Rightarrow> uint32 \<Rightarrow> uint16 \<Rightarrow> uint32" where
  "enc_flw dest base offset =
     push_bit 20 (enc_bits (ucast offset) 11 0) OR push_bit 15 base OR push_bit 7 (enc_bits dest 4 0) OR 0x2007"

definition enc_fld :: "uint32 \<Rightarrow> uint32 \<Rightarrow> uint16 \<Rightarrow> uint32" where
  "enc_fld dest base offset =
     push_bit 20 (enc_bits (ucast offset) 11 0) OR push_bit 15 base OR push_bit 7 (enc_bits dest 4 0) OR 0x3007"

definition enc_lui :: "uint32 \<Rightarrow> uint32 \<Rightarrow> uint32" where
  "enc_lui dest imm = push_bit 12 (enc_bits imm 19 0) OR push_bit 7 dest OR 0x37"

definition enc_xori :: "uint32 \<Rightarrow> uint32 \<Rightarrow> uint16 \<Rightarrow> uint32" where
  "enc_xori dest src imm =
     push_bit 20 (enc_bits (ucast imm) 11 0) OR push_bit 15 src OR push_bit 7 dest OR 0x4013"

definition enc_srli :: "uint32 \<Rightarrow> uint32 \<Rightarrow> uint8 \<Rightarrow> uint32" where
  "enc_srli dest src shamt =
     push_bit 20 (enc_bits (ucast shamt) 4 0) OR push_bit 15 src OR push_bit 7 dest OR 0x5013"

section \<open>What is assembled is decoded\<close>


lemma bit_enc:
  "bit (enc_bits v hi lo) n \<longleftrightarrow> n < hi + 1 - lo \<and> n < 32 \<and> bit v (lo + n)"
  "bit (enc_bit v k) n \<longleftrightarrow> n = 0 \<and> bit v k"
  by (auto simp: enc_bits_def enc_bit_def bit_simps push_bit_of_1 simp flip: mask_eq_exp_minus_1)

lemma bit_fetched: "bit (scast w :: insn_bits) n \<longleftrightarrow> n < 64 \<and> bit w (min n 31)" for w :: uint32
  by (auto simp: bit_simps min_def)

lemma insn_x_eqI:
  fixes w :: uint32 and v :: "'a::len word"
  assumes "\<And>k. k < len \<Longrightarrow> bit w (lo + k) \<longleftrightarrow> bit v k" and "LENGTH('a) = len" and "lo + len \<le> 32"
  shows "insn_x (scast w) lo len = ucast v"
proof (rule bit_word_eqI)
  fix n
  show "bit (insn_x (scast w) lo len) n \<longleftrightarrow> bit (ucast v :: reg_t) n"
  proof (cases "n < len")
    case True
    then have "min (n + lo) 31 = lo + n" "n < 64" "lo + n < 64"
      using assms(3) by simp_all
    then show ?thesis
      using assms(1)[OF True] True by (simp add: insn_x_take bit_simps bit_fetched)
  next
    case False
    then show ?thesis
      using assms(2) bit_imp_le_length[of v n] by (auto simp: insn_x_take bit_simps)
  qed
qed

lemma field_0:
  fixes c :: "'a::semiring_bit_operations"
  assumes "take_bit len (drop_bit lo c) = 0" and "k < len"
  shows "\<not> bit c (lo + k)"
proof -
  have "bit (take_bit len (drop_bit lo c)) k \<longleftrightarrow> bit c (lo + k)"
    using assms(2) by (simp add: bit_simps add.commute)
  then show ?thesis
    by (simp add: assms(1))
qed

lemmas no_bits = field_0[where lo = 7 and len = 5] field_0[where lo = 15 and len = 5]
  field_0[where lo = 20 and len = 5] field_0[where lo = 20 and len = 12] field_0[where lo = 25 and len = 7]

lemma i_imm_eqI:
  fixes w :: uint32 and v :: "12 word"
  assumes "\<And>k. k < 12 \<Longrightarrow> bit w (20 + k) \<longleftrightarrow> bit v k"
  shows "i_imm (scast w) = scast v"
proof (rule bit_word_eqI)
  fix n :: nat
  assume n: "n < LENGTH(64)"
  have "bit (i_imm (scast w)) n \<longleftrightarrow> bit w (20 + min n 11)"
    using n by (auto simp: i_imm_def bit_signed_drop_bit_iff bit_fetched min_def)
  also have "\<dots> \<longleftrightarrow> bit v (min n 11)"
    by (rule assms) simp
  also have "\<dots> \<longleftrightarrow> bit (scast v :: reg_t) n"
    using n by (auto simp: bit_simps min_def)
  finally show "bit (i_imm (scast w)) n \<longleftrightarrow> bit (scast v :: reg_t) n" .
qed

lemma s_imm_or: "s_imm b = insn_x b 7 5 OR push_bit 5 (insn_xs b 25 7)"
  unfolding s_imm_def
  by (rule disjunctive_add) (auto simp: insn_x_take bit_simps)

lemma s_imm_eqI:
  fixes w :: uint32 and v :: "12 word"
  assumes "\<And>k. k < 5 \<Longrightarrow> bit w (7 + k) \<longleftrightarrow> bit v k" and "\<And>k. k < 7 \<Longrightarrow> bit w (25 + k) \<longleftrightarrow> bit v (5 + k)"
  shows "s_imm (scast w) = scast v"
proof (rule bit_word_eqI)
  fix n :: nat
  assume n: "n < LENGTH(64)"
  show "bit (s_imm (scast w)) n \<longleftrightarrow> bit (scast v :: reg_t) n"
  proof (cases "n < 5")
    case True
    then show ?thesis
      using assms(1)[of n] by (simp add: s_imm_or insn_x_take bit_simps bit_fetched add.commute)
  next
    case False
    then have "bit (s_imm (scast w)) n \<longleftrightarrow> bit w (25 + min (n - 5) 6)"
      using n bit_insn_xs[of 7 25 "n - 5" "scast w"]
      by (simp add: s_imm_or insn_x_take bit_simps bit_fetched min_less_iff_disj)
    also have "\<dots> \<longleftrightarrow> bit v (5 + min (n - 5) 6)"
      by (rule assms(2)) simp
    also have "5 + min (n - 5) 6 = min n 11"
      using False by simp
    also have "bit v (min n 11) \<longleftrightarrow> bit (scast v :: reg_t) n"
      using n by (auto simp: bit_simps min_def)
    finally show ?thesis .
  qed
qed

text \<open>An assembled instruction of the immediate and of the store format, as the fetch delivers it.\<close>

definition i_format :: "uint32 \<Rightarrow> uint32 \<Rightarrow> 5 word \<Rightarrow> 5 word \<Rightarrow> 12 word \<Rightarrow> bool" where
  "i_format w match rd rs1 imm \<longleftrightarrow>
     w AND 0x707f = match \<and> insn_rd (scast w) = unat rd \<and> insn_rs1 (scast w) = unat rs1
     \<and> i_imm (scast w) = scast imm"

definition s_format :: "uint32 \<Rightarrow> uint32 \<Rightarrow> 5 word \<Rightarrow> 5 word \<Rightarrow> 12 word \<Rightarrow> bool" where
  "s_format w match rs2 rs1 imm \<longleftrightarrow>
     w AND 0x707f = match \<and> insn_rs2 (scast w) = unat rs2 \<and> insn_rs1 (scast w) = unat rs1
     \<and> s_imm (scast w) = scast imm"

lemma unat_insn_x_eqI:
  fixes w :: uint32 and v :: "5 word"
  assumes "\<And>k. k < 5 \<Longrightarrow> bit w (lo + k) \<longleftrightarrow> bit v k" and "lo + 5 \<le> 32"
  shows "unat (insn_x (scast w) lo 5) = unat v"
  by (subst insn_x_eqI[OF assms(1)]) (use assms(2) in \<open>simp_all add: unat_ucast_widen\<close>)

lemma opcode_bits:
  "push_bit 7 (ucast (r :: 5 word)) AND 0x707f = (0 :: uint32)" "push_bit 15 x AND 0x707f = (0 :: uint32)"
  "push_bit 20 x AND 0x707f = (0 :: uint32)" "push_bit 25 x AND 0x707f = (0 :: uint32)"
  "push_bit 7 (enc_bits y 4 0) AND 0x707f = (0 :: uint32)"
proof -
  have m: "(0x707f :: uint32) = mask 7 OR push_bit 12 (mask 3)"
    by (simp add: mask_numeral)
  show "push_bit 7 (ucast (r :: 5 word)) AND 0x707f = (0 :: uint32)" "push_bit 15 x AND 0x707f = (0 :: uint32)"
    "push_bit 20 x AND 0x707f = (0 :: uint32)" "push_bit 25 x AND 0x707f = (0 :: uint32)"
    "push_bit 7 (enc_bits y 4 0) AND 0x707f = (0 :: uint32)"
    unfolding m by (rule bit_word_eqI; auto simp: bit_simps bit_enc dest: bit_imp_le_length)+
qed

lemma enc_ld_format: "i_format (enc_ld (ucast rd) (ucast rs1) imm) 0x3003 rd rs1 (ucast imm)"
  unfolding i_format_def
proof (intro conjI)
  show "enc_ld (ucast rd) (ucast rs1) imm AND 0x707f = 0x3003"
    by (simp add: enc_ld_def bit.conj_disj_distrib2 opcode_bits)
qed (unfold insn_rd_def insn_rs1_def,
    (rule unat_insn_x_eqI i_imm_eqI; auto simp: enc_ld_def bit_simps bit_enc no_bits dest: bit_imp_le_length)+)

lemma enc_lw_format: "i_format (enc_lw (ucast rd) (ucast rs1) imm) 0x2003 rd rs1 (ucast imm)"
  unfolding i_format_def
proof (intro conjI)
  show "enc_lw (ucast rd) (ucast rs1) imm AND 0x707f = 0x2003"
    by (simp add: enc_lw_def bit.conj_disj_distrib2 opcode_bits)
qed (unfold insn_rd_def insn_rs1_def,
    (rule unat_insn_x_eqI i_imm_eqI; auto simp: enc_lw_def bit_simps bit_enc no_bits dest: bit_imp_le_length)+)

lemma enc_lh_format: "i_format (enc_lh (ucast rd) (ucast rs1) imm) 0x1003 rd rs1 (ucast imm)"
  unfolding i_format_def
proof (intro conjI)
  show "enc_lh (ucast rd) (ucast rs1) imm AND 0x707f = 0x1003"
    by (simp add: enc_lh_def bit.conj_disj_distrib2 opcode_bits)
qed (unfold insn_rd_def insn_rs1_def,
    (rule unat_insn_x_eqI i_imm_eqI; auto simp: enc_lh_def bit_simps bit_enc no_bits dest: bit_imp_le_length)+)

lemma enc_lb_format: "i_format (enc_lb (ucast rd) (ucast rs1) imm) 0x3 rd rs1 (ucast imm)"
  unfolding i_format_def
proof (intro conjI)
  show "enc_lb (ucast rd) (ucast rs1) imm AND 0x707f = 0x3"
    by (simp add: enc_lb_def bit.conj_disj_distrib2 opcode_bits)
qed (unfold insn_rd_def insn_rs1_def,
    (rule unat_insn_x_eqI i_imm_eqI; auto simp: enc_lb_def bit_simps bit_enc no_bits dest: bit_imp_le_length)+)

lemma enc_addi_format: "i_format (enc_addi (ucast rd) (ucast rs1) imm) 0x13 rd rs1 (ucast imm)"
  unfolding i_format_def
proof (intro conjI)
  show "enc_addi (ucast rd) (ucast rs1) imm AND 0x707f = 0x13"
    by (simp add: enc_addi_def bit.conj_disj_distrib2 opcode_bits)
qed (unfold insn_rd_def insn_rs1_def,
    (rule unat_insn_x_eqI i_imm_eqI; auto simp: enc_addi_def bit_simps bit_enc no_bits dest: bit_imp_le_length)+)

lemma enc_xori_format: "i_format (enc_xori (ucast rd) (ucast rs1) imm) 0x4013 rd rs1 (ucast imm)"
  unfolding i_format_def
proof (intro conjI)
  show "enc_xori (ucast rd) (ucast rs1) imm AND 0x707f = 0x4013"
    by (simp add: enc_xori_def bit.conj_disj_distrib2 opcode_bits)
qed (unfold insn_rd_def insn_rs1_def,
    (rule unat_insn_x_eqI i_imm_eqI; auto simp: enc_xori_def bit_simps bit_enc no_bits dest: bit_imp_le_length)+)

lemma enc_flw_format: "i_format (enc_flw (ucast rd) (ucast rs1) imm) 0x2007 rd rs1 (ucast imm)"
  unfolding i_format_def
proof (intro conjI)
  show "enc_flw (ucast rd) (ucast rs1) imm AND 0x707f = 0x2007"
    by (simp add: enc_flw_def bit.conj_disj_distrib2 opcode_bits)
qed (unfold insn_rd_def insn_rs1_def,
    (rule unat_insn_x_eqI i_imm_eqI; auto simp: enc_flw_def bit_simps bit_enc no_bits dest: bit_imp_le_length)+)

lemma enc_fld_format: "i_format (enc_fld (ucast rd) (ucast rs1) imm) 0x3007 rd rs1 (ucast imm)"
  unfolding i_format_def
proof (intro conjI)
  show "enc_fld (ucast rd) (ucast rs1) imm AND 0x707f = 0x3007"
    by (simp add: enc_fld_def bit.conj_disj_distrib2 opcode_bits)
qed (unfold insn_rd_def insn_rs1_def,
    (rule unat_insn_x_eqI i_imm_eqI; auto simp: enc_fld_def bit_simps bit_enc no_bits dest: bit_imp_le_length)+)

lemma enc_sw_format: "s_format (enc_sw (ucast rs2) (ucast rs1) imm) 0x2023 rs2 rs1 (ucast imm)"
  unfolding s_format_def
proof (intro conjI)
  show "enc_sw (ucast rs2) (ucast rs1) imm AND 0x707f = 0x2023"
    by (simp add: enc_sw_def bit.conj_disj_distrib2 opcode_bits)
qed (unfold insn_rs2_def insn_rs1_def,
    (rule unat_insn_x_eqI s_imm_eqI; auto simp: enc_sw_def bit_simps bit_enc no_bits dest: bit_imp_le_length)+)

lemma enc_sd_format: "s_format (enc_sd (ucast rs2) (ucast rs1) imm) 0x3023 rs2 rs1 (ucast imm)"
  unfolding s_format_def
proof (intro conjI)
  show "enc_sd (ucast rs2) (ucast rs1) imm AND 0x707f = 0x3023"
    by (simp add: enc_sd_def bit.conj_disj_distrib2 opcode_bits)
qed (unfold insn_rs2_def insn_rs1_def,
    (rule unat_insn_x_eqI s_imm_eqI; auto simp: enc_sd_def bit_simps bit_enc no_bits dest: bit_imp_le_length)+)

lemma enc_sh_format: "s_format (enc_sh (ucast rs2) (ucast rs1) imm) 0x1023 rs2 rs1 (ucast imm)"
  unfolding s_format_def
proof (intro conjI)
  show "enc_sh (ucast rs2) (ucast rs1) imm AND 0x707f = 0x1023"
    by (simp add: enc_sh_def bit.conj_disj_distrib2 opcode_bits)
qed (unfold insn_rs2_def insn_rs1_def,
    (rule unat_insn_x_eqI s_imm_eqI; auto simp: enc_sh_def bit_simps bit_enc no_bits dest: bit_imp_le_length)+)

lemma enc_sb_format: "s_format (enc_sb (ucast rs2) (ucast rs1) imm) 0x23 rs2 rs1 (ucast imm)"
  unfolding s_format_def
proof (intro conjI)
  show "enc_sb (ucast rs2) (ucast rs1) imm AND 0x707f = 0x23"
    by (simp add: enc_sb_def bit.conj_disj_distrib2 opcode_bits)
qed (unfold insn_rs2_def insn_rs1_def,
    (rule unat_insn_x_eqI s_imm_eqI; auto simp: enc_sb_def bit_simps bit_enc no_bits dest: bit_imp_le_length)+)

lemma enc_fsw_format: "s_format (enc_fsw (ucast rs2) (ucast rs1) imm) 0x2027 rs2 rs1 (ucast imm)"
  unfolding s_format_def
proof (intro conjI)
  show "enc_fsw (ucast rs2) (ucast rs1) imm AND 0x707f = 0x2027"
    by (simp add: enc_fsw_def bit.conj_disj_distrib2 opcode_bits)
qed (unfold insn_rs2_def insn_rs1_def,
    (rule unat_insn_x_eqI s_imm_eqI; auto simp: enc_fsw_def bit_simps bit_enc no_bits dest: bit_imp_le_length)+)

lemma enc_fsd_format: "s_format (enc_fsd (ucast rs2) (ucast rs1) imm) 0x3027 rs2 rs1 (ucast imm)"
  unfolding s_format_def
proof (intro conjI)
  show "enc_fsd (ucast rs2) (ucast rs1) imm AND 0x707f = 0x3027"
    by (simp add: enc_fsd_def bit.conj_disj_distrib2 opcode_bits)
qed (unfold insn_rs2_def insn_rs1_def,
    (rule unat_insn_x_eqI s_imm_eqI; auto simp: enc_fsd_def bit_simps bit_enc no_bits dest: bit_imp_le_length)+)

lemma times_2: "x * 2 = 2 * x" for x :: "'a::len word"
  by simp

lemma even_bit0: "even x \<longleftrightarrow> \<not> bit x 0" for x :: "'a::len word"
  by (simp add: bit_0)

lemma uj_imm_or:
  "uj_imm b = push_bit 1 (insn_x b 21 10) OR push_bit 11 (insn_x b 20 1) OR push_bit 12 (insn_x b 12 8)
     OR push_bit 20 (imm_sign b)"
proof -
  have 1: "push_bit 1 (insn_x b 21 10) + push_bit 11 (insn_x b 20 1) = push_bit 1 (insn_x b 21 10) OR push_bit 11 (insn_x b 20 1)"
    by (rule disjunctive_add) (auto simp: insn_x_take bit_simps bit_double_iff times_2)
  have 2: "(push_bit 1 (insn_x b 21 10) OR push_bit 11 (insn_x b 20 1)) + push_bit 12 (insn_x b 12 8) =
      push_bit 1 (insn_x b 21 10) OR push_bit 11 (insn_x b 20 1) OR push_bit 12 (insn_x b 12 8)"
    unfolding or.assoc[symmetric] by (rule disjunctive_add) (auto simp: insn_x_take bit_simps bit_double_iff times_2)
  have 3: "(push_bit 1 (insn_x b 21 10) OR push_bit 11 (insn_x b 20 1) OR push_bit 12 (insn_x b 12 8)) + push_bit 20 (imm_sign b) =
      push_bit 1 (insn_x b 21 10) OR push_bit 11 (insn_x b 20 1) OR push_bit 12 (insn_x b 12 8) OR push_bit 20 (imm_sign b)"
    unfolding or.assoc[symmetric] by (rule disjunctive_add) (auto simp: insn_x_take bit_simps bit_double_iff times_2)
  show ?thesis
    unfolding uj_imm_def 1 2 3 ..
qed

lemma bit_small: "7 \<le> m \<Longrightarrow> \<not> bit (111 :: int) m" "7 \<le> m \<Longrightarrow> \<not> bit (55 :: int) m"
  using bit_take_bit_iff[of 7 "111 :: int" m] bit_take_bit_iff[of 7 "55 :: int" m] by simp_all

text \<open>The jump offset: bit 20 of the immediate is the sign, bit 0 is dropped.\<close>

lemma enc_jal_imm: "uj_imm (scast (enc_jal (ucast rd) imm)) = scast (push_bit 1 (drop_bit 1 (ucast imm)) :: 21 word)"
  for rd :: "5 word"
proof (rule bit_word_eqI)
  fix n :: nat
  assume n: "n < LENGTH(64)"
  have s: "bit (imm_sign (scast (enc_jal (ucast rd) imm))) k \<longleftrightarrow> bit imm 20" if "k < 64" for k
    using that bit_insn_xs[of 1 63 k "scast (enc_jal (ucast rd) imm)"]
    by (auto simp: imm_sign_def bit_fetched enc_jal_def bit_simps bit_enc dest: bit_imp_le_length)
  show "bit (uj_imm (scast (enc_jal (ucast rd) imm))) n \<longleftrightarrow>
      bit (scast (push_bit 1 (drop_bit 1 (ucast imm)) :: 21 word) :: reg_t) n"
  proof (cases "n < 20")
    case True
    then consider "n = 0" | "1 \<le> n" "n < 11" | "n = 11" | "12 \<le> n" "n < 20"
      by linarith
    then show ?thesis
      by cases (auto simp: uj_imm_or insn_x_take bit_simps bit_double_iff times_2 even_bit0 bit_fetched bit_enc enc_jal_def bit_small dest: bit_imp_le_length)
  next
    case False
    then show ?thesis
      using n s[of "n - 20"] by (auto simp: uj_imm_or insn_x_take bit_simps bit_double_iff times_2 even_bit0 min_def)
  qed
qed

text \<open>A CSR instruction: the opcode, both register fields and the CSR number.\<close>

definition c_format :: "uint32 \<Rightarrow> uint32 \<Rightarrow> 5 word \<Rightarrow> 5 word \<Rightarrow> 12 word \<Rightarrow> bool" where
  "c_format w opcode rd rs1 csr \<longleftrightarrow>
     w AND 0x707f = opcode \<and> insn_rd (scast w) = unat rd \<and> insn_rs1 (scast w) = unat rs1 \<and> insn_csr (scast w) = unat csr"

lemma unat_csr_eqI:
  fixes w :: uint32 and csr :: "12 word"
  assumes "\<And>k. k < 12 \<Longrightarrow> bit w (20 + k) \<longleftrightarrow> bit csr k"
  shows "unat (insn_x (scast w) 20 12) = unat csr"
  by (subst insn_x_eqI[OF assms]) (simp_all add: unat_ucast_widen)

lemma enc_csrw_format: "c_format (enc_csrw (ucast rs1) (ucast csr)) 0x1073 0 rs1 csr"
  for rs1 :: "5 word" and csr :: "12 word"
  unfolding c_format_def insn_rd_def insn_rs1_def insn_csr_def
proof (intro conjI)
  show "enc_csrw (ucast rs1) (ucast csr) AND 0x707f = 0x1073"
    by (simp add: enc_csrw_def bit.conj_disj_distrib2 opcode_bits)
qed ((rule unat_insn_x_eqI unat_csr_eqI; auto simp: enc_csrw_def bit_simps bit_enc no_bits dest: bit_imp_le_length)+)

lemma enc_csrr_format: "c_format (enc_csrr (ucast rd) (ucast csr)) 0x2073 rd 0 csr"
  for rd :: "5 word" and csr :: "12 word"
  unfolding c_format_def insn_rd_def insn_rs1_def insn_csr_def
proof (intro conjI)
  show "enc_csrr (ucast rd) (ucast csr) AND 0x707f = 0x2073"
    by (simp add: enc_csrr_def bit.conj_disj_distrib2 opcode_bits)
qed ((rule unat_insn_x_eqI unat_csr_eqI; auto simp: enc_csrr_def bit_simps bit_enc no_bits dest: bit_imp_le_length)+)

lemma enc_csrrs_format: "c_format (enc_csrrs (ucast rd) (ucast rs1) (ucast csr)) 0x2073 rd rs1 csr"
  for rd rs1 :: "5 word" and csr :: "12 word"
  unfolding c_format_def insn_rd_def insn_rs1_def insn_csr_def
proof (intro conjI)
  show "enc_csrrs (ucast rd) (ucast rs1) (ucast csr) AND 0x707f = 0x2073"
    by (simp add: enc_csrrs_def bit.conj_disj_distrib2 opcode_bits)
qed ((rule unat_insn_x_eqI unat_csr_eqI; auto simp: enc_csrrs_def bit_simps bit_enc no_bits dest: bit_imp_le_length)+)

lemma enc_csrsi_format: "c_format (enc_csrsi (ucast csr) imm) 0x6073 0 (ucast imm) csr"
  for csr :: "12 word"
  unfolding c_format_def insn_rd_def insn_rs1_def insn_csr_def
proof (intro conjI)
  show "enc_csrsi (ucast csr) imm AND 0x707f = 0x6073"
    by (simp add: enc_csrsi_def bit.conj_disj_distrib2 opcode_bits)
qed ((rule unat_insn_x_eqI unat_csr_eqI; auto simp: enc_csrsi_def bit_simps bit_enc no_bits dest: bit_imp_le_length)+)

lemma low_opcode:
  fixes w c :: uint32
  assumes "\<And>k. k < 7 \<Longrightarrow> bit w k \<longleftrightarrow> bit c k" and "c < 0x80"
  shows "w AND 0x7f = c"
proof -
  have "(0x7f :: uint32) = mask 7"
    by (simp add: mask_numeral)
  moreover have "take_bit 7 c = c"
    using assms(2) unfolding word_unat_eq_iff unat_take_bit_mod by (simp add: word_less_nat_alt)
  moreover have "take_bit 7 w = take_bit 7 c"
    using assms(1) by (intro bit_word_eqI) (auto simp: bit_simps)
  ultimately show ?thesis
    by (simp add: take_bit_eq_mask)
qed

lemma enc_jal_rd: "enc_jal (ucast rd) imm AND 0x7f = 0x6f" "insn_rd (scast (enc_jal (ucast rd) imm)) = unat rd"
  for rd :: "5 word"
proof -
  show "enc_jal (ucast rd) imm AND 0x7f = 0x6f"
    by (rule low_opcode) (auto simp: enc_jal_def bit_simps)
  show "insn_rd (scast (enc_jal (ucast rd) imm)) = unat rd"
    unfolding insn_rd_def
    by (rule unat_insn_x_eqI; auto simp: enc_jal_def bit_simps bit_enc bit_small dest: bit_imp_le_length)
qed

lemma enc_lui_fields:
  "enc_lui (ucast rd) imm AND 0x7f = 0x37" "insn_rd (scast (enc_lui (ucast rd) imm)) = unat rd"
  "u_imm (scast (enc_lui (ucast rd) imm)) = scast (push_bit 12 imm)"
  for rd :: "5 word"
proof -
  show "enc_lui (ucast rd) imm AND 0x7f = 0x37"
    by (rule low_opcode) (auto simp: enc_lui_def bit_simps)
  show "insn_rd (scast (enc_lui (ucast rd) imm)) = unat rd"
    unfolding insn_rd_def
    by (rule unat_insn_x_eqI; auto simp: enc_lui_def bit_simps bit_enc bit_small dest: bit_imp_le_length)
  show "u_imm (scast (enc_lui (ucast rd) imm)) = scast (push_bit 12 imm)"
    by (rule bit_word_eqI) (auto simp: u_imm_def enc_lui_def bit_simps bit_signed_drop_bit_iff bit_fetched bit_enc
        bit_small min_def dest: bit_imp_le_length)
qed

lemma enc_srli_fields:
  "insn_rd (scast (enc_srli (ucast rd) (ucast rs1) sh)) = unat rd"
  "insn_rs1 (scast (enc_srli (ucast rd) (ucast rs1) sh)) = unat rs1"
  "insn_rs2 (scast (enc_srli (ucast rd) (ucast rs1) sh)) = unat (ucast sh :: 5 word)"
  "enc_srli (ucast rd) (ucast rs1) sh AND 0xfe00707f = 0x5013"
  for rd rs1 :: "5 word"
proof -
  have "enc_srli (ucast rd) (ucast rs1) sh AND 0x707f = 0x5013"
    by (simp add: enc_srli_def bit.conj_disj_distrib2 opcode_bits)
  moreover have "enc_srli (ucast rd) (ucast rs1) sh AND 0xfe000000 = 0"
  proof -
    have "\<not> bit (0x5013 :: int) n" if "25 \<le> n" for n
      using bit_take_bit_iff[of 15 "0x5013 :: int" n] that by simp
    then have "enc_srli (ucast rd) (ucast rs1) sh AND push_bit 25 (mask 7) = 0"
      by (intro bit_word_eqI) (auto simp: enc_srli_def bit_simps bit_enc no_bits dest: bit_imp_le_length)
    then show ?thesis
      by (simp add: mask_numeral)
  qed
  moreover have "w AND 0xfe00707f = (w AND 0x707f) OR (w AND 0xfe000000)" for w :: uint32
    by (simp add: bit.conj_disj_distrib[symmetric])
  ultimately show "enc_srli (ucast rd) (ucast rs1) sh AND 0xfe00707f = 0x5013"
    by simp
  show "insn_rd (scast (enc_srli (ucast rd) (ucast rs1) sh)) = unat rd"
    "insn_rs1 (scast (enc_srli (ucast rd) (ucast rs1) sh)) = unat rs1"
    "insn_rs2 (scast (enc_srli (ucast rd) (ucast rs1) sh)) = unat (ucast sh :: 5 word)"
    unfolding insn_rd_def insn_rs1_def insn_rs2_def
    by (rule unat_insn_x_eqI; auto simp: enc_srli_def bit_simps bit_enc no_bits dest: bit_imp_le_length)+
qed

text \<open>
  C37: the decoder inverts the debug module's assembler. For every register and every immediate, each
  of the 21 assembled instructions (loads, stores, immediate operations, the four CSR accesses, the shift, the jump and
  \<open>lui\<close>) has the opcode and function bits of its instruction, and the accessors return every operand it was
  built from: the registers (or zero where it has none), the CSR number and the immediate, sign-extended from the bits the format keeps.
  The shift amount keeps its low five bits, also where a 64-bit hart has six.
\<close>

theorem assembled_instructions_decode:
  fixes rd rs1 rs2 :: "5 word" and csr :: "12 word" and imm :: uint16 and off :: uint32 and sh :: uint8
  shows "i_format (enc_lb (ucast rd) (ucast rs1) imm) 0x3 rd rs1 (ucast imm)
    \<and> i_format (enc_lh (ucast rd) (ucast rs1) imm) 0x1003 rd rs1 (ucast imm)
    \<and> i_format (enc_lw (ucast rd) (ucast rs1) imm) 0x2003 rd rs1 (ucast imm)
    \<and> i_format (enc_ld (ucast rd) (ucast rs1) imm) 0x3003 rd rs1 (ucast imm)
    \<and> i_format (enc_flw (ucast rd) (ucast rs1) imm) 0x2007 rd rs1 (ucast imm)
    \<and> i_format (enc_fld (ucast rd) (ucast rs1) imm) 0x3007 rd rs1 (ucast imm)
    \<and> i_format (enc_addi (ucast rd) (ucast rs1) imm) 0x13 rd rs1 (ucast imm)
    \<and> i_format (enc_xori (ucast rd) (ucast rs1) imm) 0x4013 rd rs1 (ucast imm)
    \<and> s_format (enc_sb (ucast rs2) (ucast rs1) imm) 0x23 rs2 rs1 (ucast imm)
    \<and> s_format (enc_sh (ucast rs2) (ucast rs1) imm) 0x1023 rs2 rs1 (ucast imm)
    \<and> s_format (enc_sw (ucast rs2) (ucast rs1) imm) 0x2023 rs2 rs1 (ucast imm)
    \<and> s_format (enc_sd (ucast rs2) (ucast rs1) imm) 0x3023 rs2 rs1 (ucast imm)
    \<and> s_format (enc_fsw (ucast rs2) (ucast rs1) imm) 0x2027 rs2 rs1 (ucast imm)
    \<and> s_format (enc_fsd (ucast rs2) (ucast rs1) imm) 0x3027 rs2 rs1 (ucast imm)
    \<and> c_format (enc_csrw (ucast rs1) (ucast csr)) 0x1073 0 rs1 csr
    \<and> c_format (enc_csrr (ucast rd) (ucast csr)) 0x2073 rd 0 csr
    \<and> c_format (enc_csrrs (ucast rd) (ucast rs1) (ucast csr)) 0x2073 rd rs1 csr
    \<and> c_format (enc_csrsi (ucast csr) imm) 0x6073 0 (ucast imm) csr
    \<and> enc_srli (ucast rd) (ucast rs1) sh AND 0xfe00707f = 0x5013
    \<and> insn_rd (scast (enc_srli (ucast rd) (ucast rs1) sh)) = unat rd
    \<and> insn_rs1 (scast (enc_srli (ucast rd) (ucast rs1) sh)) = unat rs1
    \<and> insn_rs2 (scast (enc_srli (ucast rd) (ucast rs1) sh)) = unat (ucast sh :: 5 word)
    \<and> enc_jal (ucast rd) off AND 0x7f = 0x6f \<and> insn_rd (scast (enc_jal (ucast rd) off)) = unat rd
    \<and> uj_imm (scast (enc_jal (ucast rd) off)) = scast (push_bit 1 (drop_bit 1 (ucast off)) :: 21 word)
    \<and> enc_lui (ucast rd) off AND 0x7f = 0x37 \<and> insn_rd (scast (enc_lui (ucast rd) off)) = unat rd
    \<and> u_imm (scast (enc_lui (ucast rd) off)) = scast (push_bit 12 off)"
  by (intro conjI enc_lb_format enc_lh_format enc_lw_format enc_ld_format enc_flw_format enc_fld_format enc_addi_format
      enc_xori_format enc_sb_format enc_sh_format enc_sw_format enc_sd_format enc_fsw_format enc_fsd_format
      enc_csrw_format enc_csrr_format enc_csrrs_format enc_csrsi_format enc_jal_rd enc_jal_imm enc_lui_fields enc_srli_fields)

end
