(* ===== verification/RV_State.thy ===== *)
theory RV_State
  imports RV_Decode
begin

text \<open>
  The architectural state of a hart (\<open>struct state_t\<close>, \<open>class processor_t\<close> of
  \<open>riscv/processor.h\<close>), the caches of its MMU (\<open>riscv/mmu.h\<close>), the exceptions an instruction can
  raise (\<open>riscv/trap.h\<close>), the field macros (\<open>riscv/decode.h\<close>) and the constants of
  \<open>riscv/encoding.h\<close>. The record of the processor extends the record of the state, as the class
  contains the struct. The commit log, the histogram and the debug printing have no part in it:
  they are compiled out or only write to a log.
\<close>

section \<open>Constants\<close>

abbreviation (input) PRV_U :: reg_t where "PRV_U \<equiv> 0"
abbreviation (input) PRV_S :: reg_t where "PRV_S \<equiv> 1"
abbreviation (input) PRV_HS :: reg_t where "PRV_HS \<equiv> 2"
abbreviation (input) PRV_M :: reg_t where "PRV_M \<equiv> 3"

abbreviation (input) MSTATUS_SIE :: reg_t where "MSTATUS_SIE \<equiv> 0x2"
abbreviation (input) MSTATUS_MIE :: reg_t where "MSTATUS_MIE \<equiv> 0x8"
abbreviation (input) MSTATUS_SPIE :: reg_t where "MSTATUS_SPIE \<equiv> 0x20"
abbreviation (input) MSTATUS_MPIE :: reg_t where "MSTATUS_MPIE \<equiv> 0x80"
abbreviation (input) MSTATUS_SPP :: reg_t where "MSTATUS_SPP \<equiv> 0x100"
abbreviation (input) MSTATUS_VS :: reg_t where "MSTATUS_VS \<equiv> 0x600"
abbreviation (input) MSTATUS_MPP :: reg_t where "MSTATUS_MPP \<equiv> 0x1800"
abbreviation (input) MSTATUS_FS :: reg_t where "MSTATUS_FS \<equiv> 0x6000"
abbreviation (input) MSTATUS_XS :: reg_t where "MSTATUS_XS \<equiv> 0x18000"
abbreviation (input) MSTATUS_MPRV :: reg_t where "MSTATUS_MPRV \<equiv> 0x20000"
abbreviation (input) MSTATUS_SUM :: reg_t where "MSTATUS_SUM \<equiv> 0x40000"
abbreviation (input) MSTATUS_MXR :: reg_t where "MSTATUS_MXR \<equiv> 0x80000"
abbreviation (input) MSTATUS_TVM :: reg_t where "MSTATUS_TVM \<equiv> 0x100000"
abbreviation (input) MSTATUS_TW :: reg_t where "MSTATUS_TW \<equiv> 0x200000"
abbreviation (input) MSTATUS_TSR :: reg_t where "MSTATUS_TSR \<equiv> 0x400000"
abbreviation (input) MSTATUS32_SD :: reg_t where "MSTATUS32_SD \<equiv> 0x80000000"
abbreviation (input) MSTATUS_UXL :: reg_t where "MSTATUS_UXL \<equiv> 0x300000000"
abbreviation (input) MSTATUS_SXL :: reg_t where "MSTATUS_SXL \<equiv> 0xC00000000"
abbreviation (input) MSTATUS_GVA :: reg_t where "MSTATUS_GVA \<equiv> 0x4000000000"
abbreviation (input) MSTATUS_MPV :: reg_t where "MSTATUS_MPV \<equiv> 0x8000000000"
abbreviation (input) MSTATUS64_SD :: reg_t where "MSTATUS64_SD \<equiv> 0x8000000000000000"
abbreviation (input) SSTATUS_VS_MASK :: reg_t where "SSTATUS_VS_MASK \<equiv> 0x3000C0122"

abbreviation (input) HSTATUS_VTSR :: reg_t where "HSTATUS_VTSR \<equiv> 0x400000"
abbreviation (input) HSTATUS_VTW :: reg_t where "HSTATUS_VTW \<equiv> 0x200000"
abbreviation (input) HSTATUS_VTVM :: reg_t where "HSTATUS_VTVM \<equiv> 0x100000"
abbreviation (input) HSTATUS_HU :: reg_t where "HSTATUS_HU \<equiv> 0x200"
abbreviation (input) HSTATUS_SPVP :: reg_t where "HSTATUS_SPVP \<equiv> 0x100"
abbreviation (input) HSTATUS_SPV :: reg_t where "HSTATUS_SPV \<equiv> 0x80"
abbreviation (input) HSTATUS_GVA :: reg_t where "HSTATUS_GVA \<equiv> 0x40"

abbreviation (input) MIP_SSIP :: reg_t where "MIP_SSIP \<equiv> 0x2"
abbreviation (input) MIP_VSSIP :: reg_t where "MIP_VSSIP \<equiv> 0x4"
abbreviation (input) MIP_MSIP :: reg_t where "MIP_MSIP \<equiv> 0x8"
abbreviation (input) MIP_STIP :: reg_t where "MIP_STIP \<equiv> 0x20"
abbreviation (input) MIP_VSTIP :: reg_t where "MIP_VSTIP \<equiv> 0x40"
abbreviation (input) MIP_MTIP :: reg_t where "MIP_MTIP \<equiv> 0x80"
abbreviation (input) MIP_SEIP :: reg_t where "MIP_SEIP \<equiv> 0x200"
abbreviation (input) MIP_VSEIP :: reg_t where "MIP_VSEIP \<equiv> 0x400"
abbreviation (input) MIP_MEIP :: reg_t where "MIP_MEIP \<equiv> 0x800"
abbreviation (input) MIP_VS_MASK :: reg_t where "MIP_VS_MASK \<equiv> 0x444"
abbreviation (input) MIP_HS_MASK :: reg_t where "MIP_HS_MASK \<equiv> 0x1444"
abbreviation (input) MIDELEG_FORCED_MASK :: reg_t where "MIDELEG_FORCED_MASK \<equiv> 0x1444"
abbreviation (input) IRQ_COP_BIT :: reg_t where "IRQ_COP_BIT \<equiv> 0x1000"

abbreviation (input) PMP_R :: uint8 where "PMP_R \<equiv> 0x01"
abbreviation (input) PMP_W :: uint8 where "PMP_W \<equiv> 0x02"
abbreviation (input) PMP_X :: uint8 where "PMP_X \<equiv> 0x04"
abbreviation (input) PMP_A :: uint8 where "PMP_A \<equiv> 0x18"
abbreviation (input) PMP_L :: uint8 where "PMP_L \<equiv> 0x80"
abbreviation (input) PMP_TOR :: uint8 where "PMP_TOR \<equiv> 0x08"
abbreviation (input) PMP_NA4 :: uint8 where "PMP_NA4 \<equiv> 0x10"
abbreviation (input) PMP_NAPOT :: uint8 where "PMP_NAPOT \<equiv> 0x18"
abbreviation (input) PMP_SHIFT :: nat where "PMP_SHIFT \<equiv> 2"

abbreviation (input) CAUSE_MISALIGNED_FETCH :: reg_t where "CAUSE_MISALIGNED_FETCH \<equiv> 0"
abbreviation (input) CAUSE_FETCH_ACCESS :: reg_t where "CAUSE_FETCH_ACCESS \<equiv> 1"
abbreviation (input) CAUSE_ILLEGAL_INSTRUCTION :: reg_t where "CAUSE_ILLEGAL_INSTRUCTION \<equiv> 2"
abbreviation (input) CAUSE_BREAKPOINT :: reg_t where "CAUSE_BREAKPOINT \<equiv> 3"
abbreviation (input) CAUSE_MISALIGNED_LOAD :: reg_t where "CAUSE_MISALIGNED_LOAD \<equiv> 4"
abbreviation (input) CAUSE_LOAD_ACCESS :: reg_t where "CAUSE_LOAD_ACCESS \<equiv> 5"
abbreviation (input) CAUSE_MISALIGNED_STORE :: reg_t where "CAUSE_MISALIGNED_STORE \<equiv> 6"
abbreviation (input) CAUSE_STORE_ACCESS :: reg_t where "CAUSE_STORE_ACCESS \<equiv> 7"
abbreviation (input) CAUSE_USER_ECALL :: reg_t where "CAUSE_USER_ECALL \<equiv> 8"
abbreviation (input) CAUSE_SUPERVISOR_ECALL :: reg_t where "CAUSE_SUPERVISOR_ECALL \<equiv> 9"
abbreviation (input) CAUSE_VIRTUAL_SUPERVISOR_ECALL :: reg_t where "CAUSE_VIRTUAL_SUPERVISOR_ECALL \<equiv> 10"
abbreviation (input) CAUSE_MACHINE_ECALL :: reg_t where "CAUSE_MACHINE_ECALL \<equiv> 11"
abbreviation (input) CAUSE_FETCH_PAGE_FAULT :: reg_t where "CAUSE_FETCH_PAGE_FAULT \<equiv> 12"
abbreviation (input) CAUSE_LOAD_PAGE_FAULT :: reg_t where "CAUSE_LOAD_PAGE_FAULT \<equiv> 13"
abbreviation (input) CAUSE_STORE_PAGE_FAULT :: reg_t where "CAUSE_STORE_PAGE_FAULT \<equiv> 15"
abbreviation (input) CAUSE_FETCH_GUEST_PAGE_FAULT :: reg_t where "CAUSE_FETCH_GUEST_PAGE_FAULT \<equiv> 20"
abbreviation (input) CAUSE_LOAD_GUEST_PAGE_FAULT :: reg_t where "CAUSE_LOAD_GUEST_PAGE_FAULT \<equiv> 21"
abbreviation (input) CAUSE_VIRTUAL_INSTRUCTION :: reg_t where "CAUSE_VIRTUAL_INSTRUCTION \<equiv> 22"
abbreviation (input) CAUSE_STORE_GUEST_PAGE_FAULT :: reg_t where "CAUSE_STORE_GUEST_PAGE_FAULT \<equiv> 23"

section \<open>Fields of registers\<close>

text \<open>\<open>get_field\<close> and \<open>set_field\<close> find the place of a field by the lowest bit of its mask.\<close>

definition get_field :: "'a::len word \<Rightarrow> 'a word \<Rightarrow> 'a word" where
  "get_field reg msk = (reg AND msk) div (msk AND NOT (push_bit 1 msk))"

definition set_field :: "'a::len word \<Rightarrow> 'a word \<Rightarrow> 'a word \<Rightarrow> 'a word" where
  "set_field reg msk val = (reg AND NOT msk) OR ((val * (msk AND NOT (push_bit 1 msk))) AND msk)"

definition zext_xlen :: "nat \<Rightarrow> reg_t \<Rightarrow> reg_t" where
  "zext_xlen xl x = drop_bit (64 - xl) (push_bit (64 - xl) x)"

definition sext_xlen :: "nat \<Rightarrow> reg_t \<Rightarrow> reg_t" where
  "sext_xlen xl x = signed_drop_bit (64 - xl) (push_bit (64 - xl) x)"

section \<open>Exceptions\<close>

record trap_t =
  trap_cause :: reg_t
  trap_gva :: bool
  trap_tval :: reg_t
  trap_tval2 :: reg_t
  trap_tinst :: reg_t

definition plain_trap :: "reg_t \<Rightarrow> trap_t" where
  "plain_trap n = \<lparr>trap_cause = n, trap_gva = False, trap_tval = 0, trap_tval2 = 0, trap_tinst = 0\<rparr>"

definition insn_trap :: "reg_t \<Rightarrow> reg_t \<Rightarrow> trap_t" where
  "insn_trap n tval = (plain_trap n)\<lparr>trap_tval := tval\<rparr>"

definition mem_trap :: "reg_t \<Rightarrow> reg_t \<Rightarrow> reg_t \<Rightarrow> reg_t \<Rightarrow> trap_t" where
  "mem_trap n tval tval2 tinst =
     \<lparr>trap_cause = n, trap_gva = True, trap_tval = tval, trap_tval2 = tval2, trap_tinst = tinst\<rparr>"

datatype trigger_operation = OPERATION_EXECUTE | OPERATION_STORE | OPERATION_LOAD

text \<open>What can be thrown: a trap, a matched trigger, the wish to wait, and the end of the simulator.\<close>

datatype thrown = Trap trap_t | Trigger_matched nat trigger_operation reg_t reg_t | Wait_for_interrupt | Abort

definition trap_illegal_instruction :: "reg_t \<Rightarrow> thrown" where
  "trap_illegal_instruction tval = Trap (insn_trap CAUSE_ILLEGAL_INSTRUCTION tval)"

definition trap_virtual_instruction :: "reg_t \<Rightarrow> thrown" where
  "trap_virtual_instruction tval = Trap (insn_trap CAUSE_VIRTUAL_INSTRUCTION tval)"

section \<open>The state\<close>

record dcsr_t =
  dcsr_prv :: uint8
  dcsr_step :: bool
  dcsr_ebreakm :: bool
  dcsr_ebreakh :: bool
  dcsr_ebreaks :: bool
  dcsr_ebreaku :: bool
  dcsr_halt :: bool
  dcsr_cause :: uint8

record mcontrol_t =
  mc_type :: uint8
  mc_dmode :: bool
  mc_maskmax :: uint8
  mc_select :: bool
  mc_timing :: bool
  mc_action :: reg_t
  mc_chain :: bool
  mc_match :: reg_t
  mc_m :: bool
  mc_h :: bool
  mc_s :: bool
  mc_u :: bool
  mc_execute :: bool
  mc_store :: bool
  mc_load :: bool

datatype single_step_t = STEP_NONE | STEP_STEPPING | STEP_STEPPED

record state_t =
  pc :: reg_t
  XPR :: "reg_t list"
  FPR :: "(reg_t \<times> reg_t) list"
  prv :: reg_t
  virt :: bool
  misa :: reg_t
  mstatus :: reg_t
  mepc :: reg_t
  mtval :: reg_t
  mscratch :: reg_t
  mtvec :: reg_t
  mcause :: reg_t
  minstret :: reg_t
  mie :: reg_t
  mip :: reg_t
  medeleg :: reg_t
  mideleg :: reg_t
  mcounteren :: uint32
  scounteren :: uint32
  sepc :: reg_t
  stval :: reg_t
  sscratch :: reg_t
  stvec :: reg_t
  satp :: reg_t
  scause :: reg_t
  mtval2 :: reg_t
  mtinst :: reg_t
  hstatus :: reg_t
  hideleg :: reg_t
  hedeleg :: reg_t
  hcounteren :: uint32
  htval :: reg_t
  htinst :: reg_t
  hgatp :: reg_t
  vsstatus :: reg_t
  vstvec :: reg_t
  vsscratch :: reg_t
  vsepc :: reg_t
  vscause :: reg_t
  vstval :: reg_t
  vsatp :: reg_t
  dpc :: reg_t
  dscratch0 :: reg_t
  dscratch1 :: reg_t
  dcsr :: dcsr_t
  tselect :: reg_t
  mcontrol :: "mcontrol_t list"
  tdata2 :: "reg_t list"
  debug_mode :: bool
  pmpcfg :: "uint8 list"
  pmpaddr :: "reg_t list"
  fflags :: uint32
  frm :: uint32
  serialized :: bool
  single_step :: single_step_t

text \<open>
  The caches of the MMU. A TLB entry maps a virtual to a physical page by the difference of
  the addresses; host memory is addressed by physical address in this model.
\<close>

record mmu_t =
  tlb_insn_tag :: "reg_t list"
  tlb_load_tag :: "reg_t list"
  tlb_store_tag :: "reg_t list"
  tlb_data :: "reg_t list"
  icache_tag :: "reg_t list"
  load_reservation_address :: reg_t
  check_triggers_fetch :: bool
  check_triggers_load :: bool
  check_triggers_store :: bool

datatype halt_request_t = HR_NONE | HR_REGULAR | HR_GROUP

record processor_t = state_t +
  max_xlen :: nat
  xlen :: nat
  max_isa :: reg_t
  n_pmp :: nat
  lg_pmp_granularity :: nat
  ext_registered :: bool
  zfh_supported :: bool
  hart_id :: uint32
  halt_request :: halt_request_t
  halt_on_reset :: bool
  vu_vxsat :: reg_t
  vu_vxrm :: reg_t
  vu_vstart :: reg_t
  vu_vl :: reg_t
  vu_vtype :: reg_t
  vu_vlenb :: reg_t
  vu_VLEN :: reg_t
  mmu :: mmu_t

end
