(* ===== verification/RV_CSR.thy ===== *)
theory RV_CSR
  imports RV_State
begin

text \<open>
  The control and status registers: \<open>processor_t::set_csr\<close> and \<open>get_csr\<close> of
  \<open>riscv/processor.cc\<close> with the helpers they call, the reset functions, and \<open>mmu_t::flush_tlb\<close>.
  A write returns the new processor or the exception it throws (in which case nothing has
  changed); a read returns the value or the exception.
\<close>

section \<open>Helpers\<close>

definition supports_extension :: "char \<Rightarrow> processor_t \<Rightarrow> bool" where
  "supports_extension e p \<longleftrightarrow> drop_bit (of_char e - 65) (misa p) AND 1 \<noteq> 0"

definition pc_alignment_mask :: "processor_t \<Rightarrow> reg_t" where
  "pc_alignment_mask p = NOT (if supports_extension (CHR ''C'') p then 0 else 2)"

definition pmp_tor_mask :: "processor_t \<Rightarrow> reg_t" where
  "pmp_tor_mask p = - push_bit (lg_pmp_granularity p - PMP_SHIFT) 1"

definition legalize_privilege :: "processor_t \<Rightarrow> reg_t \<Rightarrow> reg_t" where
  "legalize_privilege p pr =
     (if \<not> supports_extension (CHR ''U'') p then PRV_M
      else if pr = PRV_HS \<and> \<not> supports_extension (CHR ''H'') p
              \<or> pr = PRV_S \<and> \<not> supports_extension (CHR ''S'') p then PRV_U
      else pr)"

definition xlen_to_uxl :: "nat \<Rightarrow> reg_t" where
  "xlen_to_uxl xl = (if xl = 32 then 1 else 2)"

abbreviation (input) TLB_ENTRIES :: nat where "TLB_ENTRIES \<equiv> 256"
abbreviation (input) ICACHE_ENTRIES :: nat where "ICACHE_ENTRIES \<equiv> 1024"
abbreviation (input) MAX_PADDR_BITS :: nat where "MAX_PADDR_BITS \<equiv> 32"
abbreviation (input) PGSHIFT :: nat where "PGSHIFT \<equiv> 12"
abbreviation (input) max_pmp :: nat where "max_pmp \<equiv> 16"
abbreviation (input) num_triggers :: nat where "num_triggers \<equiv> 4"

definition flush_icache :: "mmu_t \<Rightarrow> mmu_t" where
  "flush_icache m = m\<lparr>icache_tag := replicate ICACHE_ENTRIES (- 1)\<rparr>"

definition flush_tlb :: "mmu_t \<Rightarrow> mmu_t" where
  "flush_tlb m =
     flush_icache (m\<lparr>tlb_insn_tag := replicate TLB_ENTRIES (- 1),
                     tlb_load_tag := replicate TLB_ENTRIES (- 1),
                     tlb_store_tag := replicate TLB_ENTRIES (- 1)\<rparr>)"

definition p_flush_tlb :: "processor_t \<Rightarrow> processor_t" where
  "p_flush_tlb p = p\<lparr>mmu := flush_tlb (mmu p)\<rparr>"

definition dirty_fp_state :: "processor_t \<Rightarrow> processor_t" where
  "dirty_fp_state p =
     p\<lparr>mstatus := mstatus p OR (MSTATUS_FS OR (if xlen p = 64 then MSTATUS64_SD else MSTATUS32_SD))\<rparr>"

definition dirty_vs_state :: "processor_t \<Rightarrow> processor_t" where
  "dirty_vs_state p =
     p\<lparr>mstatus := mstatus p OR (MSTATUS_VS OR (if xlen p = 64 then MSTATUS64_SD else MSTATUS32_SD))\<rparr>"

definition trigger_updated :: "processor_t \<Rightarrow> processor_t" where
  "trigger_updated p =
     p\<lparr>mmu := (flush_tlb (mmu p))
        \<lparr>check_triggers_fetch := list_ex mc_execute (mcontrol p),
         check_triggers_load := list_ex mc_load (mcontrol p),
         check_triggers_store := list_ex mc_store (mcontrol p)\<rparr>\<rparr>"

text \<open>A masked write keeps the bits outside the mask.\<close>

definition masked :: "reg_t \<Rightarrow> reg_t \<Rightarrow> reg_t \<Rightarrow> reg_t" where
  "masked old msk val = (old AND NOT msk) OR (val AND msk)"

section \<open>Physical memory protection registers\<close>

definition set_pmpaddr :: "nat \<Rightarrow> reg_t \<Rightarrow> processor_t \<Rightarrow> processor_t" where
  "set_pmpaddr i val p =
     (let locked = (pmpcfg p ! i AND PMP_L \<noteq> 0);
          next_locked = (i + 1 < max_pmp \<and> pmpcfg p ! (i + 1) AND PMP_L \<noteq> 0);
          next_tor = (i + 1 < max_pmp \<and> pmpcfg p ! (i + 1) AND PMP_A = PMP_TOR);
          p = (if i < n_pmp p \<and> \<not> locked \<and> \<not> (next_locked \<and> next_tor)
               then p\<lparr>pmpaddr := (pmpaddr p)[i := val AND (push_bit (MAX_PADDR_BITS - PMP_SHIFT) 1 - 1)]\<rparr>
               else p)
      in p_flush_tlb p)"

definition legal_pmpcfg :: "nat \<Rightarrow> uint8 \<Rightarrow> uint8" where
  "legal_pmpcfg lg raw =
     (let cfg = raw AND (PMP_R OR PMP_W OR PMP_X OR PMP_A OR PMP_L);
          cfg = cfg AND (NOT PMP_W OR (if cfg AND PMP_R \<noteq> 0 then PMP_W else 0))
      in if lg \<noteq> PMP_SHIFT \<and> cfg AND PMP_A = PMP_NA4 then cfg OR PMP_NAPOT else cfg)"

fun set_pmpcfg_loop :: "nat \<Rightarrow> nat \<Rightarrow> nat \<Rightarrow> reg_t \<Rightarrow> processor_t \<Rightarrow> processor_t" where
  "set_pmpcfg_loop i0 i 0 val p = p"
| "set_pmpcfg_loop i0 i (Suc k) val p =
     (let p = (if i < n_pmp p \<and> pmpcfg p ! i AND PMP_L = 0
               then p\<lparr>pmpcfg := (pmpcfg p)[i := legal_pmpcfg (lg_pmp_granularity p)
                                                  (to_u8 (drop_bit (8 * (i - i0)) val))]\<rparr>
               else p)
      in set_pmpcfg_loop i0 (Suc i) k val p)"

definition set_pmpcfg :: "nat \<Rightarrow> reg_t \<Rightarrow> processor_t \<Rightarrow> processor_t" where
  "set_pmpcfg r val p = p_flush_tlb (set_pmpcfg_loop (r * 4) (r * 4) (xlen p div 8) val p)"

section \<open>Writes\<close>

definition set_mstatus :: "reg_t \<Rightarrow> processor_t \<Rightarrow> processor_t" where
  "set_mstatus val p =
     (let p = (if (val XOR mstatus p) AND (MSTATUS_MPP OR MSTATUS_MPRV OR MSTATUS_SUM OR MSTATUS_MXR) \<noteq> 0
               then p_flush_tlb p else p);
          ext = (\<lambda>e. supports_extension e p);
          has_fs = (ext (CHR ''S'') \<or> ext (CHR ''F'') \<or> ext (CHR ''V''));
          has_vs = ext (CHR ''V'');
          has_mpv = (ext (CHR ''S'') \<and> ext (CHR ''H''));
          has_gva = has_mpv;
          msk = MSTATUS_MIE OR MSTATUS_MPIE OR MSTATUS_MPRV
                OR (if ext (CHR ''S'') then MSTATUS_SUM OR MSTATUS_SIE OR MSTATUS_SPIE else 0)
                OR MSTATUS_MXR OR MSTATUS_TW OR MSTATUS_TVM OR MSTATUS_TSR
                OR (if has_fs then MSTATUS_FS else 0)
                OR (if has_vs then MSTATUS_VS else 0)
                OR (if ext_registered p then MSTATUS_XS else 0)
                OR (if has_gva then MSTATUS_GVA else 0)
                OR (if has_mpv then MSTATUS_MPV else 0);
          rocket_mask = (if val AND MSTATUS_FS \<noteq> 0 then MSTATUS_FS else 0);
          requested_mpp = legalize_privilege p (get_field val MSTATUS_MPP);
          ms = set_field (mstatus p) MSTATUS_MPP requested_mpp;
          msk = (if ext (CHR ''S'') then msk OR MSTATUS_SPP else msk);
          ms = (ms AND NOT msk) OR ((val AND msk) OR rocket_mask);
          dirty = (ms AND MSTATUS_FS = MSTATUS_FS \<or> ms AND MSTATUS_XS = MSTATUS_XS \<or> ms AND MSTATUS_VS = MSTATUS_VS);
          ms = (if max_xlen p = 32 then set_field ms MSTATUS32_SD (of_bool dirty)
                else set_field ms MSTATUS64_SD (of_bool dirty));
          ms = (if ext (CHR ''U'') then set_field ms MSTATUS_UXL (xlen_to_uxl (max_xlen p)) else ms);
          ms = (if ext (CHR ''S'') then set_field ms MSTATUS_SXL (xlen_to_uxl (max_xlen p)) else ms)
      in p\<lparr>mstatus := ms, xlen := max_xlen p\<rparr>)"

definition legal_atp :: "processor_t \<Rightarrow> reg_t \<Rightarrow> reg_t \<Rightarrow> reg_t" where
  "legal_atp p keep64 val =
     (if max_xlen p = 32 then val AND (0x003FFFFF OR 0x80000000)
      else if max_xlen p = 64
              \<and> (get_field val 0xF000000000000000 = 0 \<or> get_field val 0xF000000000000000 = 8
                 \<or> get_field val 0xF000000000000000 = 9)
      then val AND keep64
      else 0)"

abbreviation (input) rv64_ppn_mask :: reg_t where
  "rv64_ppn_mask \<equiv> push_bit (MAX_PADDR_BITS - PGSHIFT) 1 - 1"

text \<open>The exception program counters keep 40 bits, sign-extended.\<close>

definition rocket_epc :: "reg_t \<Rightarrow> reg_t" where
  "rocket_epc val =
     (let msk = push_bit 40 1 - 1;
          upper_mask = push_bit 39 (- (drop_bit 39 val AND 1))
      in upper_mask OR ((val AND NOT 1) AND msk))"

definition set_misa :: "reg_t \<Rightarrow> processor_t \<Rightarrow> processor_t" where
  "set_misa val p =
     (if val AND 0x4 = 0 \<and> pc p AND 2 \<noteq> 0 then p
      else
        let val = (if val AND 0x20 = 0 then val AND NOT 0x8 else val);
            msk = (0x1000 OR 0x1 OR 0x20 OR 0x8 OR 0x4 OR 0x80) AND max_isa p;
            p = p\<lparr>misa := (val AND msk) OR (misa p AND NOT msk)\<rparr>
        in p\<lparr>mideleg := (if supports_extension (CHR ''H'') p then mideleg p OR MIDELEG_FORCED_MASK
                          else mideleg p AND NOT MIDELEG_FORCED_MASK)\<rparr>)"

definition set_tdata1 :: "reg_t \<Rightarrow> processor_t \<Rightarrow> processor_t" where
  "set_tdata1 val p =
     (let i = unat (tselect p); mc = mcontrol p ! i
      in if mc_dmode mc \<and> \<not> debug_mode p then p
         else
           let ex = (get_field val 0x4 \<noteq> 0);
               mc = mc\<lparr>mc_dmode := get_field val (push_bit (xlen p - 5) 1) \<noteq> 0,
                       mc_select := get_field val 0x80000 \<noteq> 0,
                       mc_timing := (get_field val 0x40000 \<noteq> 0) \<and> \<not> ex,
                       mc_action := get_field val 0x3f000,
                       mc_chain := get_field val 0x800 \<noteq> 0,
                       mc_match := get_field val 0x780,
                       mc_m := get_field val 0x40 \<noteq> 0,
                       mc_h := get_field val 0x20 \<noteq> 0,
                       mc_s := get_field val 0x10 \<noteq> 0,
                       mc_u := get_field val 0x8 \<noteq> 0,
                       mc_execute := ex,
                       mc_store := get_field val 0x2 \<noteq> 0,
                       mc_load := get_field val 0x1 \<noteq> 0\<rparr>
           in trigger_updated (p\<lparr>mcontrol := (mcontrol p)[i := mc]\<rparr>))"

definition set_dcsr :: "reg_t \<Rightarrow> processor_t \<Rightarrow> processor_t" where
  "set_dcsr val p =
     p\<lparr>dcsr := (dcsr p)\<lparr>dcsr_prv := to_u8 (get_field val 0x3), dcsr_step := get_field val 0x4 \<noteq> 0,
                          dcsr_ebreakm := get_field val 0x8000 \<noteq> 0, dcsr_ebreakh := get_field val 0x4000 \<noteq> 0,
                          dcsr_ebreaks := get_field val 0x2000 \<noteq> 0, dcsr_ebreaku := get_field val 0x1000 \<noteq> 0,
                          dcsr_halt := get_field val 0x8 \<noteq> 0\<rparr>\<rparr>"

definition medeleg_mask :: reg_t where
  "medeleg_mask = 0x1 OR 0x4 OR 0x8 OR 0x10 OR 0x40 OR 0x100 OR 0x1000 OR 0x2000 OR 0x8000"

definition hedeleg_mask :: reg_t where
  "hedeleg_mask = 0x1 OR 0x8 OR 0x10 OR 0x20 OR 0x40 OR 0x80 OR 0x100 OR 0x1000 OR 0x2000 OR 0x8000"

definition vsstatus_mask :: "processor_t \<Rightarrow> reg_t" where
  "vsstatus_mask p =
     SSTATUS_VS_MASK OR (if supports_extension (CHR ''F'') p then MSTATUS_FS else 0)
     OR (if supports_extension (CHR ''V'') p then MSTATUS_VS else 0)
     OR (if xlen p = 64 then MSTATUS64_SD else MSTATUS32_SD)"

definition sstatus_write_mask :: "processor_t \<Rightarrow> reg_t" where
  "sstatus_write_mask p =
     MSTATUS_SIE OR MSTATUS_SPIE OR MSTATUS_SPP OR MSTATUS_FS OR MSTATUS_XS OR MSTATUS_SUM OR MSTATUS_MXR
     OR (if supports_extension (CHR ''V'') p then MSTATUS_VS else 0)"
definition set_csr_switch :: "nat \<Rightarrow> reg_t \<Rightarrow> processor_t \<Rightarrow> thrown + processor_t" where
  "set_csr_switch which val p =
     (let H = supports_extension (CHR ''H'') p;
          supervisor_ints = (if supports_extension (CHR ''S'') p then MIP_SSIP OR MIP_STIP OR MIP_SEIP else 0);
          vssip_int = (if H then MIP_VSSIP else 0);
          hypervisor_ints = (if H then MIP_HS_MASK else 0);
          coprocessor_ints = (if ext_registered p then IRQ_COP_BIT else 0);
          delegable_ints = supervisor_ints OR coprocessor_ints;
          all_ints = delegable_ints OR hypervisor_ints OR MIP_MSIP OR MIP_MTIP OR MIP_MEIP
      in if which = 0x001 then Inr ((dirty_fp_state p)\<lparr>fflags := to_u32 (val AND 0x1f)\<rparr>)
         else if which = 0x002 then Inr ((dirty_fp_state p)\<lparr>frm := to_u32 (val AND 0x7)\<rparr>)
         else if which = 0x003 then
           Inr ((dirty_fp_state p)\<lparr>fflags := to_u32 (val AND 0x1f), frm := to_u32 (drop_bit 5 (val AND 0xe0))\<rparr>)
         else if which = 0x00f then
           Inr ((dirty_vs_state p)\<lparr>vu_vxsat := val AND 0x1, vu_vxrm := drop_bit 1 (val AND 0x6)\<rparr>)
         else if which = 0x300 then Inr (set_mstatus val p)
         else if which = 0x344 then
           Inr (p\<lparr>mip := masked (mip p) ((supervisor_ints OR hypervisor_ints)
                                           AND (MIP_SSIP OR MIP_STIP OR vssip_int OR MIP_SEIP OR MIP_MEIP)) val\<rparr>)
         else if which = 0x304 then Inr (p\<lparr>mie := masked (mie p) all_ints val\<rparr>)
         else if which = 0x303 then Inr (p\<lparr>mideleg := masked (mideleg p) delegable_ints val\<rparr>)
         else if which = 0x302 then Inr (p\<lparr>medeleg := masked (medeleg p) medeleg_mask val\<rparr>)
         else if which = 0xb02 \<or> which = 0xb00 then
           Inr (p\<lparr>minstret := (if xlen p = 32 then push_bit 32 (drop_bit 32 (minstret p)) OR (val AND 0xffffffff)
                                else val) - 1\<rparr>)
         else if which = 0xb82 \<or> which = 0xb80 then
           Inr (p\<lparr>minstret := (push_bit 32 val OR drop_bit 32 (push_bit 32 (minstret p))) - 1\<rparr>)
         else if which = 0x106 then Inr (p\<lparr>scounteren := to_u32 val\<rparr>)
         else if which = 0x306 then Inr (p\<lparr>mcounteren := to_u32 val\<rparr>)
         else if which = 0x100 then
           Inr (set_mstatus (zext_xlen (xlen p) (masked (mstatus p) (sstatus_write_mask p) val)) p)
         else if which = 0x144 then
           Inr (p\<lparr>mip := (if virt p then masked (mip p) (hideleg p AND MIP_VSSIP) (push_bit 1 val)
                           else masked (mip p) (mideleg p AND MIP_SSIP) val)\<rparr>)
         else if which = 0x104 then
           Inr (p\<lparr>mie := (if virt p then masked (mie p) (hideleg p AND MIP_VS_MASK) (push_bit 1 val)
                           else masked (mie p) (mideleg p AND NOT MIP_HS_MASK) val)\<rparr>)
         else if which = 0x180 then
           (let r = legal_atp p ((0x00000FFFFFFFFFFF AND rv64_ppn_mask) OR 0xF000000000000000) val
            in Inr (if virt p then (p_flush_tlb p)\<lparr>vsatp := r\<rparr> else (p_flush_tlb p)\<lparr>satp := r\<rparr>))
         else if which = 0x141 then
           Inr (if virt p then p\<lparr>vsepc := val AND NOT 1\<rparr> else p\<lparr>sepc := rocket_epc val\<rparr>)
         else if which = 0x105 then
           Inr (if virt p then p\<lparr>vstvec := val AND NOT 2\<rparr> else p\<lparr>stvec := val AND NOT 2\<rparr>)
         else if which = 0x140 then Inr (if virt p then p\<lparr>vsscratch := val\<rparr> else p\<lparr>sscratch := val\<rparr>)
         else if which = 0x142 then
           Inr (if virt p then p\<lparr>vscause := val\<rparr>
                else p\<lparr>scause := masked (scause p) (push_bit (xlen p - 1) 1 + 31) val\<rparr>)
         else if which = 0x143 then Inr (if virt p then p\<lparr>vstval := val\<rparr> else p\<lparr>stval := val\<rparr>)
         else if which = 0x341 then Inr (p\<lparr>mepc := rocket_epc val\<rparr>)
         else if which = 0x305 then Inr (p\<lparr>mtvec := val AND NOT 2\<rparr>)
         else if which = 0x340 then Inr (p\<lparr>mscratch := val\<rparr>)
         else if which = 0x342 then
           Inr (p\<lparr>mcause := masked (mcause p) (push_bit (xlen p - 1) 1 + 15) val\<rparr>)
         else if which = 0x343 then Inr (p\<lparr>mtval := val\<rparr>)
         else if which = 0x34b then (if H then Inr (p\<lparr>mtval2 := val\<rparr>) else Inl (trap_illegal_instruction 0))
         else if which = 0x34a then (if H then Inr (p\<lparr>mtinst := val\<rparr>) else Inl (trap_illegal_instruction 0))
         else if which = 0x301 then Inr (set_misa val p)
         else if which = 0x600 then
           Inr (p\<lparr>hstatus := masked (hstatus p) (HSTATUS_VTSR OR HSTATUS_VTW OR HSTATUS_VTVM OR HSTATUS_HU
                                                  OR HSTATUS_SPVP OR HSTATUS_SPV OR HSTATUS_GVA) val\<rparr>)
         else if which = 0x602 then Inr (p\<lparr>hedeleg := masked (hedeleg p) hedeleg_mask val\<rparr>)
         else if which = 0x603 then Inr (p\<lparr>hideleg := masked (hideleg p) MIP_VS_MASK val\<rparr>)
         else if which = 0x604 then Inr (p\<lparr>mie := masked (mie p) MIP_HS_MASK val\<rparr>)
         else if which = 0x605 \<or> which = 0x615 then Inl (trap_illegal_instruction 0)
         else if which = 0x606 then Inr (p\<lparr>hcounteren := to_u32 val\<rparr>)
         else if which = 0x607 then Inr p
         else if which = 0x643 then Inr (p\<lparr>htinst := val\<rparr>)
         else if which = 0x644 then Inr (p\<lparr>mip := masked (mip p) MIP_VSSIP val\<rparr>)
         else if which = 0x645 then Inr (p\<lparr>mip := masked (mip p) MIP_VS_MASK val\<rparr>)
         else if which = 0x64a then Inr (p\<lparr>htinst := val\<rparr>)
         else if which = 0x680 then
           Inr ((p_flush_tlb p)\<lparr>hgatp := legal_atp p (0x00000FFFFFFFFFFF OR 0xF000000000000000 OR rv64_ppn_mask) val\<rparr>)
         else if which = 0x200 then Inr (p\<lparr>vsstatus := masked (vsstatus p) (vsstatus_mask p) val\<rparr>)
         else if which = 0x204 then
           Inr (p\<lparr>mie := masked (mie p) (hideleg p AND MIP_VS_MASK) (push_bit 1 val)\<rparr>)
         else if which = 0x205 then Inr (p\<lparr>vstvec := val AND NOT 2\<rparr>)
         else if which = 0x240 then Inr (p\<lparr>vsscratch := val\<rparr>)
         else if which = 0x241 then Inr (p\<lparr>vsepc := val AND NOT 1\<rparr>)
         else if which = 0x242 then Inr (p\<lparr>vscause := val\<rparr>)
         else if which = 0x243 then Inr (p\<lparr>vstval := val\<rparr>)
         else if which = 0x244 then
           Inr (p\<lparr>mip := masked (mip p) (hideleg p AND MIP_VSSIP) (push_bit 1 val)\<rparr>)
         else if which = 0x280 then
           Inr ((p_flush_tlb p)\<lparr>vsatp := legal_atp p (0x00000FFFFFFFFFFF OR 0xF000000000000000 OR rv64_ppn_mask) val\<rparr>)
         else if which = 0x7a0 then Inr (if val < of_nat num_triggers then p\<lparr>tselect := val\<rparr> else p)
         else if which = 0x7a1 then Inr (set_tdata1 val p)
         else if which = 0x7a2 then
           Inr (if mc_dmode (mcontrol p ! unat (tselect p)) \<and> \<not> debug_mode p then p
                else if tselect p < of_nat num_triggers then p\<lparr>tdata2 := (tdata2 p)[unat (tselect p) := val]\<rparr>
                else p)
         else if which = 0x7b0 then Inr (set_dcsr val p)
         else if which = 0x7b1 then Inr (p\<lparr>dpc := val AND NOT 1\<rparr>)
         else if which = 0x7b2 then Inr (p\<lparr>dscratch0 := val\<rparr>)
         else if which = 0x7b3 then Inr (p\<lparr>dscratch1 := val\<rparr>)
         else if which = 0x008 then Inr ((dirty_vs_state p)\<lparr>vu_vstart := val AND (vu_VLEN p - 1)\<rparr>)
         else if which = 0x009 then Inr ((dirty_vs_state p)\<lparr>vu_vxsat := val AND 0x1\<rparr>)
         else if which = 0x00a then Inr ((dirty_vs_state p)\<lparr>vu_vxrm := val AND 0x3\<rparr>)
         else Inr p)"

abbreviation is_pmpaddr :: "nat \<Rightarrow> bool" where
  "is_pmpaddr which \<equiv> 0x3b0 \<le> which \<and> which < 0x3b0 + max_pmp"

abbreviation is_pmpcfg :: "nat \<Rightarrow> bool" where
  "is_pmpcfg which \<equiv> 0x3a0 \<le> which \<and> which < 0x3a0 + max_pmp div 4"

definition set_csr :: "nat \<Rightarrow> reg_t \<Rightarrow> processor_t \<Rightarrow> thrown + processor_t" where
  "set_csr which val p =
     (let val = zext_xlen (xlen p) val
      in if is_pmpaddr which \<and> n_pmp p = 0 then Inr p
         else
           let p = (if is_pmpaddr which then set_pmpaddr (which - 0x3b0) val p else p)
           in if is_pmpcfg which \<and> n_pmp p = 0 then Inr p
              else
                let p = (if is_pmpcfg which then set_pmpcfg (which - 0x3a0) val p else p)
                in set_csr_switch which val p)"

section \<open>Reads\<close>

fun pmpcfg_bytes :: "nat \<Rightarrow> nat \<Rightarrow> nat \<Rightarrow> uint8 list \<Rightarrow> reg_t \<Rightarrow> reg_t" where
  "pmpcfg_bytes i0 i 0 cfg res = res"
| "pmpcfg_bytes i0 i (Suc k) cfg res =
     (if i < max_pmp then pmpcfg_bytes i0 (Suc i) k cfg (res OR push_bit (8 * (i - i0)) (to_u64 (cfg ! i)))
      else res)"

definition get_tdata1 :: "processor_t \<Rightarrow> reg_t" where
  "get_tdata1 p =
     (if tselect p < of_nat num_triggers then
        let mc = mcontrol p ! unat (tselect p);
            r = set_field 0 (push_bit (xlen p - 4) 0xf) (to_u64 (mc_type mc));
            r = set_field r (push_bit (xlen p - 5) 1) (of_bool (mc_dmode mc));
            r = set_field r (push_bit (xlen p - 11) 0x3f) (to_u64 (mc_maskmax mc));
            r = set_field r 0x80000 (of_bool (mc_select mc));
            r = set_field r 0x40000 (of_bool (mc_timing mc));
            r = set_field r 0x3f000 (mc_action mc);
            r = set_field r 0x800 (of_bool (mc_chain mc));
            r = set_field r 0x780 (mc_match mc);
            r = set_field r 0x40 (of_bool (mc_m mc));
            r = set_field r 0x20 (of_bool (mc_h mc));
            r = set_field r 0x10 (of_bool (mc_s mc));
            r = set_field r 0x8 (of_bool (mc_u mc));
            r = set_field r 0x4 (of_bool (mc_execute mc));
            r = set_field r 0x2 (of_bool (mc_store mc));
            r = set_field r 0x1 (of_bool (mc_load mc))
        in r
      else 0)"

definition get_dcsr :: "processor_t \<Rightarrow> reg_t" where
  "get_dcsr p =
     (let r = set_field (0 :: uint32) 0xC0000000 1;
          r = set_field r 0x8000 (of_bool (dcsr_ebreakm (dcsr p)));
          r = set_field r 0x4000 (of_bool (dcsr_ebreakh (dcsr p)));
          r = set_field r 0x2000 (of_bool (dcsr_ebreaks (dcsr p)));
          r = set_field r 0x1000 (of_bool (dcsr_ebreaku (dcsr p)));
          r = set_field r 0x400 0;
          r = set_field r 0x200 0;
          r = set_field r 0x1C0 (to_u32 (dcsr_cause (dcsr p)));
          r = set_field r 0x4 (of_bool (dcsr_step (dcsr p)));
          r = set_field r 0x3 (to_u32 (dcsr_prv (dcsr p)))
      in to_u64 r)"

text \<open>Whether the counter of a CSR is enabled for the current privilege mode.\<close>

definition ctr_ok :: "nat \<Rightarrow> processor_t \<Rightarrow> bool" where
  "ctr_ok which p =
     (let ctr_en = (- 1 :: uint32);
          ctr_en = (if prv p < PRV_M then ctr_en AND mcounteren p else ctr_en);
          ctr_en = (if virt p then ctr_en AND hcounteren p else ctr_en);
          ctr_en = (if prv p < PRV_S then ctr_en AND scounteren p else ctr_en)
      in drop_bit (which mod 32) ctr_en AND 1 \<noteq> 0)"

definition require :: "bool \<Rightarrow> insn_bits \<Rightarrow> thrown + 'a \<Rightarrow> thrown + 'a" where
  "require c insn r = (if c then r else Inl (trap_illegal_instruction (insn_bits insn)))"

definition sstatus_read :: "processor_t \<Rightarrow> reg_t" where
  "sstatus_read p =
     (let msk = MSTATUS_SIE OR MSTATUS_SPIE OR MSTATUS_SPP OR MSTATUS_FS
                OR (if supports_extension (CHR ''V'') p then MSTATUS_VS else 0)
                OR MSTATUS_XS OR MSTATUS_SUM OR MSTATUS_MXR OR MSTATUS_UXL;
          sstatus = mstatus p AND msk
      in if sstatus AND MSTATUS_FS = MSTATUS_FS \<or> sstatus AND MSTATUS_XS = MSTATUS_XS
         then sstatus OR (if xlen p = 32 then MSTATUS32_SD else MSTATUS64_SD) else sstatus)"

definition cause_read :: "processor_t \<Rightarrow> reg_t \<Rightarrow> reg_t" where
  "cause_read p c =
     (if xlen p < max_xlen p then c OR push_bit (xlen p - 1) (drop_bit (max_xlen p - 1) c) else c)"

definition get_csr_switch :: "nat \<Rightarrow> insn_bits \<Rightarrow> processor_t \<Rightarrow> thrown + reg_t" where
  "get_csr_switch which insn p =
     (let illegal = Inl (trap_illegal_instruction (insn_bits insn));
          virtual = Inl (trap_virtual_instruction (insn_bits insn));
          ext = (\<lambda>e r. if supports_extension e p then Inr r else illegal);
          fp = (\<lambda>r. require (mstatus p AND MSTATUS_FS \<noteq> 0) insn (ext (CHR ''F'') r));
          vec = (\<lambda>r. require (mstatus p AND MSTATUS_VS \<noteq> 0) insn (ext (CHR ''V'') r));
          dbg = (\<lambda>r. if debug_mode p then Inr r else illegal);
          hidden = (virt p \<and> drop_bit (which mod 32) (mcounteren p) AND 1 \<noteq> 0
                    \<and> drop_bit (which mod 32) (hcounteren p) AND 1 = 0)
      in if which = 0x001 then fp (to_u64 (fflags p))
         else if which = 0x002 then fp (to_u64 (frm p))
         else if which = 0x003 then fp (to_u64 (fflags p OR push_bit 5 (frm p)))
         else if which = 0x00f then vec (vu_vxsat p OR push_bit 1 (vu_vxrm p))
         else if which = 0xc02 \<or> which = 0xc00 then
           (if ctr_ok which p then Inr (minstret p) else if hidden then virtual else illegal)
         else if which = 0xb02 \<or> which = 0xb00 then Inr (minstret p)
         else if which = 0xc82 \<or> which = 0xc80 then
           (if ctr_ok which p \<and> xlen p = 32 then Inr (drop_bit 32 (minstret p))
            else if hidden then virtual else illegal)
         else if which = 0xb82 \<or> which = 0xb80 then
           (if xlen p = 32 then Inr (drop_bit 32 (minstret p)) else illegal)
         else if which = 0x106 then Inr (to_u64 (scounteren p))
         else if which = 0x306 then ext (CHR ''U'') (to_u64 (mcounteren p))
         else if which = 0x320 then Inr 0
         else if which = 0x100 then Inr (sstatus_read p)
         else if which = 0x144 then
           Inr (if virt p then drop_bit 1 (mip p AND hideleg p AND MIP_VS_MASK)
                else mip p AND mideleg p AND NOT MIP_HS_MASK)
         else if which = 0x104 then
           Inr (if virt p then drop_bit 1 (mie p AND hideleg p AND MIP_VS_MASK)
                else mie p AND mideleg p AND NOT MIP_HS_MASK)
         else if which = 0x141 then Inr ((if virt p then vsepc p else sepc p) AND pc_alignment_mask p)
         else if which = 0x143 then Inr (if virt p then vstval p else stval p)
         else if which = 0x105 then Inr (if virt p then vstvec p else stvec p)
         else if which = 0x142 then Inr (cause_read p (if virt p then vscause p else scause p))
         else if which = 0x180 then
           require (get_field (mstatus p) MSTATUS_TVM = 0 \<or> PRV_M \<le> prv p) insn
             (if virt p then (if get_field (hstatus p) HSTATUS_VTVM \<noteq> 0 then virtual else Inr (vsatp p))
              else Inr (satp p))
         else if which = 0x140 then Inr (if virt p then vsscratch p else sscratch p)
         else if which = 0x300 then Inr (mstatus p)
         else if which = 0x344 then Inr (mip p)
         else if which = 0x304 then Inr (mie p)
         else if which = 0x341 then Inr (mepc p AND pc_alignment_mask p)
         else if which = 0x340 then Inr (mscratch p)
         else if which = 0x342 then Inr (mcause p)
         else if which = 0x343 then Inr (mtval p)
         else if which = 0x34b then ext (CHR ''H'') (mtval2 p)
         else if which = 0x34a then ext (CHR ''H'') (mtinst p)
         else if which = 0x301 then Inr (misa p)
         else if which = 0xf12 then Inr 5
         else if which = 0xf13 then Inr 0
         else if which = 0xf11 then Inr 0
         else if which = 0xf14 then Inr (to_u64 (hart_id p))
         else if which = 0x305 then Inr (mtvec p)
         else if which = 0x302 then ext (CHR ''S'') (medeleg p)
         else if which = 0x303 then ext (CHR ''S'') (mideleg p)
         else if which = 0x600 then Inr (hstatus p)
         else if which = 0x602 then Inr (hedeleg p)
         else if which = 0x603 then Inr (hideleg p)
         else if which = 0x604 then Inr (mie p AND MIP_HS_MASK)
         else if which = 0x606 then Inr (to_u64 (hcounteren p))
         else if which = 0x607 then Inr 0
         else if which = 0x643 then Inr (htval p)
         else if which = 0x644 then Inr (mip p AND MIP_HS_MASK)
         else if which = 0x645 then Inr (mip p AND MIP_VS_MASK)
         else if which = 0x64a then Inr (htinst p)
         else if which = 0x680 then Inr (hgatp p)
         else if which = 0xe12 then Inr 0
         else if which = 0x200 then Inr (vsstatus p AND vsstatus_mask p)
         else if which = 0x204 then Inr (drop_bit 1 (mie p AND hideleg p AND MIP_VS_MASK))
         else if which = 0x205 then Inr (vstvec p)
         else if which = 0x240 then Inr (vsscratch p)
         else if which = 0x241 then Inr (vsepc p AND pc_alignment_mask p)
         else if which = 0x242 then Inr (vscause p)
         else if which = 0x243 then Inr (vstval p)
         else if which = 0x244 then Inr (drop_bit 1 (mip p AND hideleg p AND MIP_VS_MASK))
         else if which = 0x280 then Inr (vsatp p)
         else if which = 0x7a0 then Inr (tselect p)
         else if which = 0x7a1 then Inr (get_tdata1 p)
         else if which = 0x7a2 then
           Inr (if tselect p < of_nat num_triggers then tdata2 p ! unat (tselect p) else 0)
         else if which = 0x7a3 then Inr 0
         else if which = 0x7b0 then dbg (get_dcsr p)
         else if which = 0x7b1 then dbg (dpc p AND pc_alignment_mask p)
         else if which = 0x7b2 then dbg (dscratch0 p)
         else if which = 0x7b3 then dbg (dscratch1 p)
         else if which = 0x008 then vec (vu_vstart p)
         else if which = 0x009 then vec (vu_vxsat p)
         else if which = 0x00a then vec (vu_vxrm p)
         else if which = 0xc20 then vec (vu_vl p)
         else if which = 0xc21 then vec (vu_vtype p)
         else if which = 0xc22 then vec (vu_vlenb p)
         else illegal)"

definition get_csr :: "nat \<Rightarrow> insn_bits \<Rightarrow> processor_t \<Rightarrow> thrown + reg_t" where
  "get_csr which insn p =
     (if ctr_ok which p \<and> 0xc03 \<le> which \<and> which \<le> 0xc1f then Inr 0
      else if ctr_ok which p \<and> xlen p = 32 \<and> 0xc83 \<le> which \<and> which \<le> 0xc9f then Inr 0
      else if 0xb03 \<le> which \<and> which \<le> 0xb1f then Inr 0
      else if xlen p = 32 \<and> 0xb83 \<le> which \<and> which \<le> 0xb9f then Inr 0
      else if 0x323 \<le> which \<and> which \<le> 0x33f then Inr 0
      else if is_pmpaddr which then
        (let i = which - 0x3b0
         in if n_pmp p = 0 then Inl (trap_illegal_instruction (insn_bits insn))
            else if PMP_NAPOT \<le> pmpcfg p ! i AND PMP_A
            then Inr (pmpaddr p ! i OR drop_bit 1 (NOT (pmp_tor_mask p)))
            else Inr (pmpaddr p ! i AND pmp_tor_mask p))
      else if is_pmpcfg which then
        (let i0 = (which - 0x3a0) * 4
         in require (which mod (xlen p div 32) = 0) insn
              (Inr (pmpcfg_bytes i0 i0 (xlen p div 8) (pmpcfg p) 0)))
      else get_csr_switch which insn p)"
section \<open>Reset\<close>

definition state_reset :: "processor_t \<Rightarrow> processor_t" where
  "state_reset p =
     p\<lparr>pc := 0x00010000, XPR := replicate 32 0, FPR := replicate 32 (0, 0), prv := PRV_M, virt := False,
       misa := max_isa p, mstatus := 0, mepc := 0, mtval := 0, mscratch := 0, mtvec := 0, mcause := 0,
       minstret := 0, mie := 0, mip := 0, medeleg := 0, mideleg := 0, mcounteren := 0, scounteren := 0,
       sepc := 0, stval := 0, sscratch := 0, stvec := 0, satp := 0, scause := 0, mtval2 := 0, mtinst := 0,
       hstatus := 0, hideleg := 0, hedeleg := 0, hcounteren := 0, htval := 0, htinst := 0, hgatp := 0,
       vsstatus := 0, vstvec := 0, vsscratch := 0, vsepc := 0, vscause := 0, vstval := 0, vsatp := 0,
       dpc := 0, dscratch0 := 0, dscratch1 := 0,
       dcsr := \<lparr>dcsr_prv = 0, dcsr_step = False, dcsr_ebreakm = False, dcsr_ebreakh = False, dcsr_ebreaks = False,
                dcsr_ebreaku = False, dcsr_halt = False, dcsr_cause = 0\<rparr>,
       tselect := 0,
       mcontrol := replicate num_triggers
         \<lparr>mc_type = 2, mc_dmode = False, mc_maskmax = 0, mc_select = False, mc_timing = False, mc_action = 0,
          mc_chain = False, mc_match = 0, mc_m = False, mc_h = False, mc_s = False, mc_u = False,
          mc_execute = False, mc_store = False, mc_load = False\<rparr>,
       tdata2 := replicate num_triggers 0, debug_mode := False, single_step := STEP_NONE,
       pmpcfg := replicate max_pmp 0, pmpaddr := replicate max_pmp 0, fflags := 0, frm := 0, serialized := False\<rparr>"

text \<open>The vector unit is left in the illegal configuration.\<close>

definition vu_reset :: "processor_t \<Rightarrow> processor_t" where
  "vu_reset p = p\<lparr>vu_vtype := push_bit (xlen p - 1) (- 1), vu_vl := 0, vu_vstart := 0\<rparr>"

definition and_then :: "thrown + 'a \<Rightarrow> ('a \<Rightarrow> thrown + 'b) \<Rightarrow> thrown + 'b" where
  "and_then r f = (case r of Inl e \<Rightarrow> Inl e | Inr x \<Rightarrow> f x)"

text \<open>
  \<open>processor_t::reset\<close>, without the reset of a coprocessor extension and of the debug module,
  which are not part of the processor.
\<close>

definition processor_reset :: "processor_t \<Rightarrow> thrown + processor_t" where
  "processor_reset p =
     (let p = state_reset p;
          p = p\<lparr>mideleg := (if supports_extension (CHR ''H'') p then MIDELEG_FORCED_MASK else 0)\<rparr>;
          p = p\<lparr>dcsr := (dcsr p)\<lparr>dcsr_halt := halt_on_reset p\<rparr>, halt_on_reset := False\<rparr>
      in and_then (set_csr 0x300 (mstatus p) p)
           (\<lambda>p. let p = vu_reset p
                in if n_pmp p = 0 then Inr p
                   else and_then (set_csr 0x3b0 (NOT 0) p)
                          (set_csr 0x3a0 (to_u64 (PMP_R OR PMP_W OR PMP_X OR PMP_NAPOT)))))"

section \<open>The invariant\<close>

text \<open>
  What the registers satisfy at any time: the register files and tables have their sizes, \<open>x0\<close> is
  zero, the user-level interrupts are neither enabled nor delegated, addresses in program-counter registers are even and trap vectors have a clear mode bit 1,
  the fields that only take some values have one of them.
\<close>

definition legal_satp :: "nat \<Rightarrow> reg_t \<Rightarrow> bool" where
  "legal_satp xl a \<longleftrightarrow> (xl = 32 \<longrightarrow> a AND NOT 0x803FFFFF = 0) \<and> (xl = 64 \<longrightarrow> get_field a 0xF000000000000000 \<in> {0, 8, 9})"

definition wf_pmp :: "processor_t \<Rightarrow> bool" where
  "wf_pmp p \<longleftrightarrow>
     length (pmpcfg p) = max_pmp \<and> length (pmpaddr p) = max_pmp
     \<and> list_all (\<lambda>c. c AND PMP_W \<noteq> 0 \<longrightarrow> c AND PMP_R \<noteq> 0) (pmpcfg p)
     \<and> list_all (\<lambda>c. c AND 0x60 = 0) (pmpcfg p)
     \<and> list_all (\<lambda>a. a < 0x40000000) (pmpaddr p)"

text \<open>
  The privilege modes a configuration can be in. Mode 2 is only possible when the hypervisor
  extension is.
\<close>

definition legal_prv :: "processor_t \<Rightarrow> reg_t \<Rightarrow> bool" where
  "legal_prv p x \<longleftrightarrow>
     (if bit (max_isa p) 20 then x \<le> PRV_M \<and> (x = PRV_S \<longrightarrow> bit (max_isa p) 18) \<and> (x = PRV_HS \<longrightarrow> bit (max_isa p) 7)
      else x = PRV_M)"

definition wf_misa :: "processor_t \<Rightarrow> bool" where
  "wf_misa p \<longleftrightarrow>
     misa p AND NOT (max_isa p) = 0 \<and> (bit (misa p) 20 \<longleftrightarrow> bit (max_isa p) 20)
     \<and> (bit (misa p) 18 \<longleftrightarrow> bit (max_isa p) 18) \<and> (bit (max_isa p) 3 \<longrightarrow> bit (max_isa p) 5)
     \<and> (bit (misa p) 3 \<longrightarrow> bit (misa p) 5)"

definition wf_csr :: "processor_t \<Rightarrow> bool" where
  "wf_csr p \<longleftrightarrow>
     length (XPR p) = 32 \<and> XPR p ! 0 = 0 \<and> length (FPR p) = 32
     \<and> (max_xlen p = 32 \<or> max_xlen p = 64) \<and> xlen p = max_xlen p
     \<and> wf_misa p \<and> legal_prv p (prv p) \<and> legal_prv p (get_field (mstatus p) MSTATUS_MPP)
     \<and> tselect p < of_nat num_triggers \<and> length (mcontrol p) = num_triggers \<and> length (tdata2 p) = num_triggers
     \<and> medeleg p AND NOT medeleg_mask = 0 \<and> hedeleg p AND NOT hedeleg_mask = 0
     \<and> hideleg p AND NOT MIP_VS_MASK = 0 \<and> mie p AND 0x111 = 0 \<and> mideleg p AND 0x111 = 0
     \<and> even (mepc p) \<and> even (sepc p) \<and> even (vsepc p) \<and> even (dpc p) \<and> even (pc p)
     \<and> mtvec p AND 2 = 0 \<and> stvec p AND 2 = 0 \<and> vstvec p AND 2 = 0
     \<and> fflags p \<le> 0x1f \<and> frm p \<le> 7 \<and> dcsr_prv (dcsr p) \<le> 3
     \<and> legal_satp (max_xlen p) (satp p) \<and> legal_satp (max_xlen p) (vsatp p) \<and> legal_satp (max_xlen p) (hgatp p)
     \<and> wf_pmp p"

end
