(* ===== verification/RV_CSR_Props.thy ===== *)
theory RV_CSR_Props
  imports RV_CSR
begin

text \<open>
  Properties of the control and status registers: fields as bits, single writes in terms of them, and the invariant
  \<open>wf_csr\<close>, which every write keeps.
\<close>

section \<open>Extensions and fields as bits\<close>

lemma and_1_bit: "drop_bit n w AND 1 \<noteq> 0 \<longleftrightarrow> bit w n" for w :: "'a::len word"
  by (simp add: and_one_eq mod_2_eq_odd bit_iff_odd_drop_bit)

lemma supports_bit [simp]:
  "supports_extension (CHR ''C'') p = bit (misa p) 2" "supports_extension (CHR ''F'') p = bit (misa p) 5"
  "supports_extension (CHR ''H'') p = bit (misa p) 7" "supports_extension (CHR ''S'') p = bit (misa p) 18"
  "supports_extension (CHR ''U'') p = bit (misa p) 20" "supports_extension (CHR ''V'') p = bit (misa p) 21"
  "supports_extension (CHR ''M'') p = bit (misa p) 12" "supports_extension (CHR ''A'') p = bit (misa p) 0"
  "supports_extension (CHR ''D'') p = bit (misa p) 3" "supports_extension (CHR ''Q'') p = bit (misa p) 16"
  using and_1_bit[of 0 "misa p"] by (simp_all add: supports_extension_def and_1_bit)

text \<open>A field is the bits of its contiguous mask, moved to the bottom.\<close>

lemma field_mask:
  assumes "msk = push_bit k (mask n)" and "0 < n" and "k + n \<le> LENGTH('a)"
  shows "msk AND NOT (push_bit 1 msk) = (push_bit k 1 :: 'a::len word)"
proof (rule bit_word_eqI)
  fix i
  assume "i < LENGTH('a)"
  then show "bit (msk AND NOT (push_bit 1 msk)) i \<longleftrightarrow> bit (push_bit k 1 :: 'a word) i"
    using assms by (auto simp: bit_simps bit_double_iff times_2)
qed

lemma get_field_bits:
  assumes "msk = push_bit k (mask n)" and "0 < n" and "k + n \<le> LENGTH('a)"
  shows "get_field reg msk = (take_bit n (drop_bit k reg) :: 'a::len word)"
proof -
  have "get_field reg msk = drop_bit k (reg AND msk)"
    unfolding get_field_def field_mask[OF assms] by (simp add: drop_bit_eq_div push_bit_of_1)
  also have "\<dots> = take_bit n (drop_bit k reg)"
    by (rule bit_word_eqI) (use assms(3) in \<open>auto simp: assms(1) bit_simps dest: bit_imp_le_length\<close>)
  finally show ?thesis .
qed

lemma set_field_bits:
  assumes "msk = push_bit k (mask n)" and "0 < n" and "k + n \<le> LENGTH('a)"
  shows "set_field reg msk val = ((reg AND NOT msk) OR push_bit k (take_bit n val) :: 'a::len word)"
proof -
  have "val * push_bit k 1 AND msk = push_bit k (take_bit n val)"
    unfolding assms(1) by (rule bit_word_eqI) (auto simp: push_bit_eq_mult[symmetric] push_bit_of_1 bit_simps
        simp flip: push_bit_eq_mult)
  then show ?thesis
    unfolding set_field_def field_mask[OF assms] by simp
qed

section \<open>The invariant under single updates\<close>

lemma wf_csr_other [simp]:
  "wf_csr (p\<lparr>mtval := x_mtval\<rparr>) = wf_csr p"
  "wf_csr (p\<lparr>mscratch := x_mscratch\<rparr>) = wf_csr p"
  "wf_csr (p\<lparr>mcause := x_mcause\<rparr>) = wf_csr p"
  "wf_csr (p\<lparr>minstret := x_minstret\<rparr>) = wf_csr p"
  "wf_csr (p\<lparr>mip := x_mip\<rparr>) = wf_csr p"
  "wf_csr (p\<lparr>mcounteren := x_mcounteren\<rparr>) = wf_csr p"
  "wf_csr (p\<lparr>scounteren := x_scounteren\<rparr>) = wf_csr p"
  "wf_csr (p\<lparr>stval := x_stval\<rparr>) = wf_csr p"
  "wf_csr (p\<lparr>sscratch := x_sscratch\<rparr>) = wf_csr p"
  "wf_csr (p\<lparr>scause := x_scause\<rparr>) = wf_csr p"
  "wf_csr (p\<lparr>mtval2 := x_mtval2\<rparr>) = wf_csr p"
  "wf_csr (p\<lparr>mtinst := x_mtinst\<rparr>) = wf_csr p"
  "wf_csr (p\<lparr>hstatus := x_hstatus\<rparr>) = wf_csr p"
  "wf_csr (p\<lparr>hcounteren := x_hcounteren\<rparr>) = wf_csr p"
  "wf_csr (p\<lparr>htval := x_htval\<rparr>) = wf_csr p"
  "wf_csr (p\<lparr>htinst := x_htinst\<rparr>) = wf_csr p"
  "wf_csr (p\<lparr>vsstatus := x_vsstatus\<rparr>) = wf_csr p"
  "wf_csr (p\<lparr>vsscratch := x_vsscratch\<rparr>) = wf_csr p"
  "wf_csr (p\<lparr>vscause := x_vscause\<rparr>) = wf_csr p"
  "wf_csr (p\<lparr>vstval := x_vstval\<rparr>) = wf_csr p"
  "wf_csr (p\<lparr>dscratch0 := x_dscratch0\<rparr>) = wf_csr p"
  "wf_csr (p\<lparr>dscratch1 := x_dscratch1\<rparr>) = wf_csr p"
  "wf_csr (p\<lparr>debug_mode := x_debug_mode\<rparr>) = wf_csr p"
  "wf_csr (p\<lparr>serialized := x_serialized\<rparr>) = wf_csr p"
  "wf_csr (p\<lparr>single_step := x_single_step\<rparr>) = wf_csr p"
  "wf_csr (p\<lparr>virt := x_virt\<rparr>) = wf_csr p"
  "wf_csr (p\<lparr>n_pmp := x_n_pmp\<rparr>) = wf_csr p"
  "wf_csr (p\<lparr>vu_vxsat := x_vu_vxsat\<rparr>) = wf_csr p"
  "wf_csr (p\<lparr>vu_vxrm := x_vu_vxrm\<rparr>) = wf_csr p"
  "wf_csr (p\<lparr>vu_vstart := x_vu_vstart\<rparr>) = wf_csr p"
  "wf_csr (p\<lparr>vu_vl := x_vu_vl\<rparr>) = wf_csr p"
  "wf_csr (p\<lparr>vu_vtype := x_vu_vtype\<rparr>) = wf_csr p"
  "wf_csr (p\<lparr>mmu := x_mmu\<rparr>) = wf_csr p"
  "wf_csr (p\<lparr>halt_on_reset := x_halt_on_reset\<rparr>) = wf_csr p"
  "wf_csr (p\<lparr>halt_request := x_halt_request\<rparr>) = wf_csr p"
  by (simp_all add: wf_csr_def wf_pmp_def wf_misa_def legal_prv_def)

lemma wf_csr_flush [simp]: "wf_csr (p_flush_tlb p) = wf_csr p"
  by (simp add: p_flush_tlb_def)

text \<open>The other registers keep it when they get a legal value.\<close>

lemma wf_csr_upd:
  assumes "wf_csr p"
  shows "x AND NOT medeleg_mask = 0 \<Longrightarrow> wf_csr (p\<lparr>medeleg := x\<rparr>)"
    and "x AND NOT hedeleg_mask = 0 \<Longrightarrow> wf_csr (p\<lparr>hedeleg := x\<rparr>)"
    and "x AND NOT MIP_VS_MASK = 0 \<Longrightarrow> wf_csr (p\<lparr>hideleg := x\<rparr>)"
    and "even x \<Longrightarrow> wf_csr (p\<lparr>mepc := x\<rparr>)" and "even x \<Longrightarrow> wf_csr (p\<lparr>sepc := x\<rparr>)"
    and "even x \<Longrightarrow> wf_csr (p\<lparr>vsepc := x\<rparr>)" and "even x \<Longrightarrow> wf_csr (p\<lparr>dpc := x\<rparr>)"
    and "even x \<Longrightarrow> wf_csr (p\<lparr>pc := x\<rparr>)"
    and "x AND 2 = 0 \<Longrightarrow> wf_csr (p\<lparr>mtvec := x\<rparr>)" and "x AND 2 = 0 \<Longrightarrow> wf_csr (p\<lparr>stvec := x\<rparr>)"
    and "x AND 2 = 0 \<Longrightarrow> wf_csr (p\<lparr>vstvec := x\<rparr>)"
    and "y \<le> 0x1f \<Longrightarrow> wf_csr (p\<lparr>fflags := y\<rparr>)" and "y \<le> 7 \<Longrightarrow> wf_csr (p\<lparr>frm := y\<rparr>)"
    and "legal_satp (max_xlen p) x \<Longrightarrow> wf_csr (p\<lparr>satp := x\<rparr>)"
    and "legal_satp (max_xlen p) x \<Longrightarrow> wf_csr (p\<lparr>vsatp := x\<rparr>)"
    and "legal_satp (max_xlen p) x \<Longrightarrow> wf_csr (p\<lparr>hgatp := x\<rparr>)"
    and "x < of_nat num_triggers \<Longrightarrow> wf_csr (p\<lparr>tselect := x\<rparr>)"
    and "length ms = num_triggers \<Longrightarrow> wf_csr (p\<lparr>mcontrol := ms\<rparr>)"
    and "length ts = num_triggers \<Longrightarrow> wf_csr (p\<lparr>tdata2 := ts\<rparr>)"
    and "legal_prv p x \<Longrightarrow> wf_csr (p\<lparr>prv := x\<rparr>)"
    and "legal_prv p (get_field x MSTATUS_MPP) \<Longrightarrow> wf_csr (p\<lparr>mstatus := x\<rparr>)"
    and "dcsr_prv d \<le> 3 \<Longrightarrow> wf_csr (p\<lparr>dcsr := d\<rparr>)"
    and "x AND 0x111 = 0 \<Longrightarrow> wf_csr (p\<lparr>mie := x\<rparr>)" and "x AND 0x111 = 0 \<Longrightarrow> wf_csr (p\<lparr>mideleg := x\<rparr>)"
  using assms by (simp_all add: wf_csr_def wf_pmp_def wf_misa_def legal_prv_def)

lemma wf_csr_xlen: "wf_csr p \<Longrightarrow> wf_csr (p\<lparr>xlen := max_xlen p\<rparr>)"
  by (simp add: wf_csr_def wf_pmp_def wf_misa_def legal_prv_def)

lemma wf_csr_D:
  assumes "wf_csr p"
  shows "xlen p = max_xlen p" "wf_misa p" "legal_prv p (prv p)" "wf_pmp p"
    "legal_prv p (get_field (mstatus p) MSTATUS_MPP)"
    "length (mcontrol p) = num_triggers" "length (tdata2 p) = num_triggers" "tselect p < of_nat num_triggers"
    "medeleg p AND NOT medeleg_mask = 0" "hedeleg p AND NOT hedeleg_mask = 0" "hideleg p AND NOT MIP_VS_MASK = 0"
    "max_xlen p = 32 \<or> max_xlen p = 64" "mie p AND 0x111 = 0" "mideleg p AND 0x111 = 0"
  using assms by (simp_all add: wf_csr_def)

section \<open>Privilege modes and \<open>mstatus\<close>\<close>

lemma legalize_legal:
  assumes "wf_misa p" and "x \<le> PRV_M"
  shows "legal_prv p (legalize_privilege p x)"
proof -
  have "bit (misa p) 7 \<Longrightarrow> bit (max_isa p) 7"
  proof -
    assume "bit (misa p) 7"
    then have "bit (misa p AND NOT (max_isa p)) 7 \<or> bit (max_isa p) 7"
      by (simp add: bit_simps)
    then show ?thesis
      using assms(1) by (simp add: wf_misa_def)
  qed
  then show ?thesis
    using assms by (auto simp: legal_prv_def legalize_privilege_def wf_misa_def)
qed

lemma legalize_le: "x \<le> PRV_M \<Longrightarrow> legalize_privilege p x \<le> PRV_M"
  by (auto simp: legalize_privilege_def)

lemma get_MPP: "get_field x MSTATUS_MPP = take_bit 2 (drop_bit 11 x)" for x :: reg_t
  by (rule get_field_bits) (simp_all add: mask_numeral)

lemma get_MPP_le: "get_field x MSTATUS_MPP \<le> PRV_M" for x :: reg_t
proof -
  have "unat (take_bit 2 (drop_bit 11 x)) < 4"
    by (simp add: unat_take_bit_mod)
  then show ?thesis
    unfolding get_MPP by (simp add: word_le_nat_alt)
qed

lemma bit_if: "bit (if c then a else b) n = (if c then bit a n else bit b n)"
  by simp

lemma set_fields:
  "set_field x 0x1800 v = (x AND NOT 0x1800) OR push_bit 11 (take_bit 2 v)"
  "set_field x 0x80000000 v = (x AND NOT 0x80000000) OR push_bit 31 (take_bit 1 v)"
  "set_field x 0x8000000000000000 v = (x AND NOT 0x8000000000000000) OR push_bit 63 (take_bit 1 v)"
  "set_field x 0x300000000 v = (x AND NOT 0x300000000) OR push_bit 32 (take_bit 2 v)"
  "set_field x 0xC00000000 v = (x AND NOT 0xC00000000) OR push_bit 34 (take_bit 2 v)"
  for x v :: reg_t
  by (rule set_field_bits; simp add: mask_numeral)+

lemma two_bits_eqI:
  fixes x y :: reg_t
  assumes "bit x 11 \<longleftrightarrow> bit y 0" and "bit x 12 \<longleftrightarrow> bit y 1" and "y \<le> 3"
  shows "get_field x MSTATUS_MPP = y"
proof -
  have y: "take_bit 2 y = y"
    using assms(3) unfolding word_unat_eq_iff unat_take_bit_mod by (simp add: word_le_nat_alt)
  have "take_bit 2 (drop_bit 11 x) = take_bit 2 y"
  proof (rule bit_word_eqI)
    fix n
    show "bit (take_bit 2 (drop_bit 11 x)) n \<longleftrightarrow> bit (take_bit 2 y) n"
      using assms(1,2) by (cases "n = 0"; cases "n = 1") (auto simp: bit_simps less_2_cases_iff)
  qed
  then show ?thesis
    by (simp only: get_MPP y)
qed

lemma set_mstatus_MPP:
  "get_field (mstatus (set_mstatus val p)) MSTATUS_MPP = legalize_privilege p (get_field val MSTATUS_MPP)"
proof (rule two_bits_eqI)
  show "legalize_privilege p (get_field val MSTATUS_MPP) \<le> 3"
    by (rule legalize_le[OF get_MPP_le])
  have l: "legalize_privilege (p_flush_tlb p) = legalize_privilege p"
    by (simp add: fun_eq_iff legalize_privilege_def p_flush_tlb_def)
  show "bit (mstatus (set_mstatus val p)) 11 \<longleftrightarrow> bit (legalize_privilege p (get_field val MSTATUS_MPP)) 0"
    "bit (mstatus (set_mstatus val p)) 12 \<longleftrightarrow> bit (legalize_privilege p (get_field val MSTATUS_MPP)) 1"
    by (simp_all add: set_mstatus_def Let_def set_fields bit_simps bit_if if_distrib[of mstatus] if_distrib[of "\<lambda>q. legalize_privilege q _"] l)
qed

lemma set_mstatus_frame:
  "set_mstatus val p = (if (val XOR mstatus p) AND (MSTATUS_MPP OR MSTATUS_MPRV OR MSTATUS_SUM OR MSTATUS_MXR) \<noteq> 0
      then p_flush_tlb p else p)\<lparr>mstatus := mstatus (set_mstatus val p), xlen := max_xlen p\<rparr>"
  by (simp add: set_mstatus_def Let_def p_flush_tlb_def)

text \<open>The write of \<open>mstatus\<close> leaves every other register alone.\<close>

lemma set_mstatus_other [simp]:
  "pc (set_mstatus val p) = pc p" "XPR (set_mstatus val p) = XPR p" "FPR (set_mstatus val p) = FPR p"
  "prv (set_mstatus val p) = prv p" "virt (set_mstatus val p) = virt p" "misa (set_mstatus val p) = misa p"
  "mepc (set_mstatus val p) = mepc p" "mtval (set_mstatus val p) = mtval p"
  "mscratch (set_mstatus val p) = mscratch p" "mtvec (set_mstatus val p) = mtvec p"
  "mcause (set_mstatus val p) = mcause p" "minstret (set_mstatus val p) = minstret p"
  "mie (set_mstatus val p) = mie p" "mip (set_mstatus val p) = mip p" "medeleg (set_mstatus val p) = medeleg p"
  "mideleg (set_mstatus val p) = mideleg p" "mcounteren (set_mstatus val p) = mcounteren p"
  "scounteren (set_mstatus val p) = scounteren p" "sepc (set_mstatus val p) = sepc p"
  "stval (set_mstatus val p) = stval p" "sscratch (set_mstatus val p) = sscratch p"
  "stvec (set_mstatus val p) = stvec p" "satp (set_mstatus val p) = satp p" "scause (set_mstatus val p) = scause p"
  "mtval2 (set_mstatus val p) = mtval2 p" "mtinst (set_mstatus val p) = mtinst p"
  "hstatus (set_mstatus val p) = hstatus p" "hideleg (set_mstatus val p) = hideleg p"
  "hedeleg (set_mstatus val p) = hedeleg p" "hcounteren (set_mstatus val p) = hcounteren p"
  "htval (set_mstatus val p) = htval p" "htinst (set_mstatus val p) = htinst p" "hgatp (set_mstatus val p) = hgatp p"
  "vsstatus (set_mstatus val p) = vsstatus p" "vstvec (set_mstatus val p) = vstvec p"
  "vsscratch (set_mstatus val p) = vsscratch p" "vsepc (set_mstatus val p) = vsepc p"
  "vscause (set_mstatus val p) = vscause p" "vstval (set_mstatus val p) = vstval p"
  "vsatp (set_mstatus val p) = vsatp p" "dpc (set_mstatus val p) = dpc p"
  "dscratch0 (set_mstatus val p) = dscratch0 p" "dscratch1 (set_mstatus val p) = dscratch1 p"
  "dcsr (set_mstatus val p) = dcsr p" "tselect (set_mstatus val p) = tselect p"
  "mcontrol (set_mstatus val p) = mcontrol p" "tdata2 (set_mstatus val p) = tdata2 p"
  "debug_mode (set_mstatus val p) = debug_mode p" "pmpcfg (set_mstatus val p) = pmpcfg p"
  "pmpaddr (set_mstatus val p) = pmpaddr p" "fflags (set_mstatus val p) = fflags p" "frm (set_mstatus val p) = frm p"
  "serialized (set_mstatus val p) = serialized p" "single_step (set_mstatus val p) = single_step p"
  "max_xlen (set_mstatus val p) = max_xlen p" "max_isa (set_mstatus val p) = max_isa p"
  "n_pmp (set_mstatus val p) = n_pmp p" "lg_pmp_granularity (set_mstatus val p) = lg_pmp_granularity p"
  "ext_registered (set_mstatus val p) = ext_registered p" "zfh_supported (set_mstatus val p) = zfh_supported p"
  "hart_id (set_mstatus val p) = hart_id p" "halt_request (set_mstatus val p) = halt_request p"
  "halt_on_reset (set_mstatus val p) = halt_on_reset p" "vu_vxsat (set_mstatus val p) = vu_vxsat p"
  "vu_vxrm (set_mstatus val p) = vu_vxrm p" "vu_vstart (set_mstatus val p) = vu_vstart p"
  "vu_vl (set_mstatus val p) = vu_vl p" "vu_vtype (set_mstatus val p) = vu_vtype p"
  "vu_vlenb (set_mstatus val p) = vu_vlenb p" "vu_VLEN (set_mstatus val p) = vu_VLEN p"
  by (subst set_mstatus_frame, simp add: p_flush_tlb_def)+

lemma legal_prv_upd [simp]:
  "legal_prv (p\<lparr>xlen := n\<rparr>) x = legal_prv p x" "legal_prv (p_flush_tlb p) x = legal_prv p x"
  by (simp_all add: legal_prv_def p_flush_tlb_def)

lemma wf_set_mstatus:
  assumes "wf_csr p"
  shows "wf_csr (set_mstatus val p)"
proof -
  define q where "q = (if (val XOR mstatus p) AND (MSTATUS_MPP OR MSTATUS_MPRV OR MSTATUS_SUM OR MSTATUS_MXR) \<noteq> 0
      then p_flush_tlb p else p)"
  have q: "wf_csr q" "max_xlen q = max_xlen p" "legal_prv q = legal_prv p"
    using assms by (simp_all add: q_def p_flush_tlb_def legal_prv_def fun_eq_iff)
  have "legal_prv q (get_field (mstatus (set_mstatus val p)) MSTATUS_MPP)"
    unfolding q(3) set_mstatus_MPP by (rule legalize_legal[OF wf_csr_D(2)[OF assms] get_MPP_le])
  then have "wf_csr (q\<lparr>mstatus := mstatus (set_mstatus val p)\<rparr>)"
    by (rule wf_csr_upd(21)[OF q(1)])
  from wf_csr_xlen[OF this] have "wf_csr (q\<lparr>mstatus := mstatus (set_mstatus val p), xlen := max_xlen p\<rparr>)"
    using q(2) by simp
  then show ?thesis
    unfolding q_def by (subst set_mstatus_frame)
qed

lemma dirty_MPP:
  "get_field (mstatus (dirty_fp_state p)) MSTATUS_MPP = get_field (mstatus p) MSTATUS_MPP"
  "get_field (mstatus (dirty_vs_state p)) MSTATUS_MPP = get_field (mstatus p) MSTATUS_MPP"
  unfolding get_MPP by (rule bit_word_eqI; auto simp: dirty_fp_state_def dirty_vs_state_def bit_simps bit_if less_2_cases_iff
      numeral_2_eq_2 less_Suc_eq)+

lemma wf_dirty [simp]:
  assumes "wf_csr p"
  shows "wf_csr (dirty_fp_state p)" "wf_csr (dirty_vs_state p)"
proof -
  have "dirty_fp_state p = p\<lparr>mstatus := mstatus (dirty_fp_state p)\<rparr>" "dirty_vs_state p = p\<lparr>mstatus := mstatus (dirty_vs_state p)\<rparr>"
    by (simp_all add: dirty_fp_state_def dirty_vs_state_def)
  then show "wf_csr (dirty_fp_state p)" "wf_csr (dirty_vs_state p)"
    using wf_csr_upd(21)[OF assms] wf_csr_D(5)[OF assms] dirty_MPP[of p] by metis+
qed

section \<open>The protection registers\<close>

lemma wf_csr_pmp_upd:
  assumes "wf_csr p" and "wf_pmp (p\<lparr>pmpcfg := c, pmpaddr := a\<rparr>)"
  shows "wf_csr (p\<lparr>pmpcfg := c, pmpaddr := a\<rparr>)"
  using assms by (simp add: wf_csr_def wf_misa_def legal_prv_def)

lemma list_all_update: "list_all P xs \<Longrightarrow> P x \<Longrightarrow> list_all P (xs[i := x])"
  by (auto simp: list_all_iff dest!: set_update_subset_insert[THEN subsetD])

lemma wf_set_pmpaddr:
  assumes "wf_csr p"
  shows "wf_csr (set_pmpaddr i val p)"
proof -
  have "val AND (push_bit 30 1 - 1) < (0x40000000 :: reg_t)"
  proof -
    have "val AND (push_bit 30 1 - 1) = take_bit 30 val"
      by (simp add: take_bit_eq_mask mask_eq_exp_minus_1)
    moreover have "unat (take_bit 30 val) < 2 ^ 30"
      by (simp add: unat_take_bit_mod)
    ultimately show ?thesis
      by (simp add: word_less_nat_alt)
  qed
  then have "wf_pmp (p\<lparr>pmpcfg := pmpcfg p, pmpaddr := (pmpaddr p)[i := val AND (push_bit 30 1 - 1)]\<rparr>)"
    using wf_csr_D(4)[OF assms] by (simp add: wf_pmp_def list_all_update)
  from wf_csr_pmp_upd[OF assms this] show ?thesis
    using assms by (simp add: set_pmpaddr_def Let_def)
qed

lemma legal_pmpcfg_ok:
  "legal_pmpcfg lg raw AND PMP_W \<noteq> 0 \<longrightarrow> legal_pmpcfg lg raw AND PMP_R \<noteq> 0" "legal_pmpcfg lg raw AND 0x60 = 0"
proof -
  have m: "x AND 0x01 = 0 \<longleftrightarrow> \<not> bit x 0" "x AND 0x02 = 0 \<longleftrightarrow> \<not> bit x 1" for x :: uint8
    using and_exp_eq_0_iff_not_bit[of x 0] and_exp_eq_0_iff_not_bit[of x 1] by simp_all
  have b: "bit (legal_pmpcfg lg raw) 1 \<Longrightarrow> bit (legal_pmpcfg lg raw) 0"
    by (auto simp: legal_pmpcfg_def Let_def m bit_simps bit_if split: if_splits)
  then show "legal_pmpcfg lg raw AND PMP_W \<noteq> 0 \<longrightarrow> legal_pmpcfg lg raw AND PMP_R \<noteq> 0"
    by (simp add: m)
  have "\<not> bit (legal_pmpcfg lg raw) 5" "\<not> bit (legal_pmpcfg lg raw) 6"
    by (auto simp: legal_pmpcfg_def Let_def bit_simps bit_if)
  moreover have "(0x60 :: uint8) = 2 ^ 5 OR 2 ^ 6"
    by simp
  ultimately show "legal_pmpcfg lg raw AND 0x60 = 0"
    by (simp only: bit.conj_disj_distrib and_exp_eq_0_iff_not_bit or_eq_0_iff simp_thms)
qed

lemma wf_set_pmpcfg_loop: "wf_csr p \<Longrightarrow> wf_csr (set_pmpcfg_loop i0 i k val p)"
proof (induction i0 i k val p rule: set_pmpcfg_loop.induct)
  case (2 i0 i k val p)
  define c where "c = legal_pmpcfg (lg_pmp_granularity p) (to_u8 (drop_bit (8 * (i - i0)) val))"
  have "wf_pmp (p\<lparr>pmpcfg := (pmpcfg p)[i := c], pmpaddr := pmpaddr p\<rparr>)"
    using wf_csr_D(4)[OF 2(2)] legal_pmpcfg_ok unfolding c_def by (simp add: wf_pmp_def list_all_update)
  from wf_csr_pmp_upd[OF 2(2) this] show ?case
    using 2 by (simp add: Let_def c_def)
qed simp

lemma wf_set_pmpcfg: "wf_csr p \<Longrightarrow> wf_csr (set_pmpcfg r val p)"
  by (simp add: set_pmpcfg_def wf_set_pmpcfg_loop)

section \<open>Every write keeps the invariant\<close>

lemma masked_within: "x AND NOT m = 0 \<Longrightarrow> masked x m v AND NOT m = 0"
proof (rule bit_word_eqI)
  fix n
  assume x: "x AND NOT m = 0" and n: "n < LENGTH(64)"
  have "bit (x AND NOT m) n \<longleftrightarrow> bit (0 :: reg_t) n"
    by (simp add: x)
  then show "bit (masked x m v AND NOT m) n \<longleftrightarrow> bit (0 :: reg_t) n"
    using n by (auto simp: masked_def bit_simps)
qed

lemma and_mask_le: "unat (x AND mask n) < 2 ^ n" for x :: "'a::len word"
  by (simp add: unat_and_mask)

lemma fp_fields_le:
  "to_u32 (val AND 0x1f) \<le> (0x1f :: uint32)" "to_u32 (val AND 0x7) \<le> (0x7 :: uint32)"
  "to_u32 (drop_bit 5 (val AND 0xe0)) \<le> (0x7 :: uint32)" for val :: reg_t
proof -
  have m: "(0x1f :: reg_t) = mask 5" "(0x7 :: reg_t) = mask 3"
    by (simp_all add: mask_numeral)
  have u: "unat (to_u32 (x AND mask n)) < 2 ^ n" for x :: reg_t and n
    using and_mask_le[of x n] by (simp only: unat_ucast_mod) (meson mod_less_eq_dividend le_less_trans)
  show "to_u32 (val AND 0x1f) \<le> (0x1f :: uint32)" "to_u32 (val AND 0x7) \<le> (0x7 :: uint32)"
    using u[of val 5] u[of val 3] unfolding m by (simp_all add: word_le_nat_alt)
  have "drop_bit 5 (val AND 0xe0) = drop_bit 5 val AND mask 3"
    unfolding drop_bit_and by (simp add: mask_numeral)
  then show "to_u32 (drop_bit 5 (val AND 0xe0)) \<le> (0x7 :: uint32)"
    using u[of "drop_bit 5 val" 3] by (simp add: word_le_nat_alt)
qed

lemma even_and_not_1: "even (x AND NOT 1)" for x :: reg_t
  by (simp add: even_bit0 bit_simps)

lemma even_rocket_epc: "even (rocket_epc x)"
  by (simp add: rocket_epc_def Let_def even_bit0 bit_simps)

lemma and_not_2: "(x AND NOT 2) AND 2 = 0" for x :: reg_t
  by (simp add: and.assoc)

lemma legal_atp_legal:
  assumes "keep AND 0xF000000000000000 = 0xF000000000000000"
  shows "legal_satp (max_xlen p) (legal_atp p keep val)"
proof -
  have k: "get_field (val AND keep) 0xF000000000000000 = get_field val 0xF000000000000000"
    unfolding get_field_def and.assoc assms ..
  have 0: "get_field 0 (0xF000000000000000 :: reg_t) = 0"
    by (simp add: get_field_def)
  have "val AND 0x803FFFFF AND NOT 0x803FFFFF = 0"
    by (simp add: and.assoc)
  then show ?thesis
    using k 0 by (auto simp: legal_satp_def legal_atp_def and.assoc)
qed

lemma masked_zero:
  assumes "old AND z = 0" and "m AND z = 0"
  shows "masked old m v AND z = 0"
proof (rule bit_word_eqI)
  fix n
  show "bit (masked old m v AND z) n \<longleftrightarrow> bit 0 n"
    using arg_cong[OF assms(1), of "\<lambda>w. bit w n"] arg_cong[OF assms(2), of "\<lambda>w. bit w n"]
    by (auto simp: masked_def bit_simps)
qed

lemma and_zero_left: "y AND z = 0 \<Longrightarrow> (x AND y) AND z = 0" "x AND z = 0 \<Longrightarrow> (x AND y) AND z = 0" for x y z :: "'a::len word"
  by (simp_all add: and.assoc) (simp add: and.left_commute[of x y])

lemma or_zero: "x AND z = 0 \<Longrightarrow> y AND z = 0 \<Longrightarrow> (x OR y) AND z = 0" for x y z :: "'a::len word"
  by (simp add: bit.conj_disj_distrib2)

lemma if_zero: "x AND z = 0 \<Longrightarrow> y AND z = 0 \<Longrightarrow> (if c then x else y) AND z = 0" for x y z :: "'a::len word"
  by simp

lemma wf_set_misa:
  assumes "wf_csr p"
  shows "wf_csr (set_misa val p)"
proof -
  define v where "v = (if val AND 0x20 = 0 then val AND NOT 0x8 else val)"
  define m where "m = (0x1000 OR 0x1 OR 0x20 OR 0x8 OR 0x4 OR 0x80) AND max_isa p"
  define x where "x = (v AND m) OR (misa p AND NOT m)"
  have w: "misa p AND NOT (max_isa p) = 0" "bit (misa p) 20 \<longleftrightarrow> bit (max_isa p) 20"
      "bit (misa p) 18 \<longleftrightarrow> bit (max_isa p) 18" "bit (max_isa p) 3 \<longrightarrow> bit (max_isa p) 5"
      "bit (misa p) 3 \<longrightarrow> bit (misa p) 5"
    using wf_csr_D(2)[OF assms] by (simp_all add: wf_misa_def)
  have within: "x AND NOT (max_isa p) = 0"
  proof (rule bit_word_eqI)
    fix n
    assume "n < LENGTH(64)"
    moreover have "bit (misa p AND NOT (max_isa p)) n \<longleftrightarrow> bit (0 :: reg_t) n"
      by (simp add: w(1))
    ultimately show "bit (x AND NOT (max_isa p)) n \<longleftrightarrow> bit (0 :: reg_t) n"
      by (auto simp: x_def m_def bit_simps)
  qed
  have "bit v 3 \<Longrightarrow> bit v 5"
    using and_exp_eq_0_iff_not_bit[of val 5] by (auto simp: v_def bit_simps split: if_splits)
  moreover have "bit (misa p) 3 \<Longrightarrow> bit (max_isa p) 3"
    using arg_cong[OF w(1), of "\<lambda>a. bit a 3"] by (simp add: bit_simps)
  ultimately have "bit x 3 \<longrightarrow> bit x 5"
    using w(4,5) by (auto simp: x_def m_def bit_simps)
  then have "wf_misa (p\<lparr>misa := x\<rparr>)"
    using w within by (simp add: wf_misa_def) (simp add: x_def m_def bit_simps)
  then have "wf_csr (p\<lparr>misa := x\<rparr>)"
    using assms by (simp add: wf_csr_def wf_pmp_def legal_prv_def)
  then show ?thesis
    using assms wf_csr_upd(24)[of "p\<lparr>misa := x\<rparr>"] wf_csr_D(14)[OF assms]
    unfolding set_misa_def Let_def v_def[symmetric] m_def[symmetric] x_def[symmetric]
    by (simp add: or_zero and_zero_left)
qed

lemma wf_set_tdata1: "wf_csr p \<Longrightarrow> wf_csr (set_tdata1 val p)"
  using wf_csr_upd(18)[of p] wf_csr_D(6)[of p] by (simp add: set_tdata1_def Let_def trigger_updated_def)

lemma max_xlen_flush [simp]: "max_xlen (p_flush_tlb p) = max_xlen p"
  by (simp add: p_flush_tlb_def)

text \<open>What holds of the processor whenever a fallible operation returns one.\<close>

definition ensures :: "(processor_t \<Rightarrow> bool) \<Rightarrow> thrown + processor_t \<Rightarrow> bool" where
  "ensures Q r \<longleftrightarrow> (\<forall>q. r = Inr q \<longrightarrow> Q q)"

lemma ensures_intros:
  "ensures Q a \<Longrightarrow> ensures Q b \<Longrightarrow> ensures Q (if c then a else b)" "Q q \<Longrightarrow> ensures Q (Inr q)" "ensures Q (Inl e)"
  by (simp_all add: ensures_def)

lemma ensures_and_then:
  assumes "ensures R r" and "\<And>q. R q \<Longrightarrow> ensures Q (f q)"
  shows "ensures Q (and_then r f)"
  using assms by (auto simp: ensures_def and_then_def split: sum.splits)

lemma ensuresD: "ensures Q r \<Longrightarrow> r = Inr q \<Longrightarrow> Q q"
  by (simp add: ensures_def)

lemma wf_csr_if: "(c \<Longrightarrow> wf_csr a) \<Longrightarrow> (\<not> c \<Longrightarrow> wf_csr b) \<Longrightarrow> wf_csr (if c then a else b)"
  by simp

lemma max_xlen_dirty [simp]: "max_xlen (dirty_fp_state p) = max_xlen p" "max_xlen (dirty_vs_state p) = max_xlen p"
  by (simp_all add: dirty_fp_state_def dirty_vs_state_def)

lemma get_prv_le: "to_u8 (get_field x 0x3) \<le> (3 :: uint8)" for x :: reg_t
proof -
  have g: "get_field x 0x3 = take_bit 2 (drop_bit 0 x)"
    by (rule get_field_bits) (simp_all add: mask_numeral)
  have "unat (take_bit 2 x) < 4"
    by (simp add: unat_take_bit_mod)
  then show ?thesis
    unfolding g by (simp add: word_le_nat_alt unat_ucast_mod)
qed

lemma wf_set_dcsr: "wf_csr p \<Longrightarrow> wf_csr (set_dcsr val p)"
  using wf_csr_upd(22)[of p] get_prv_le by (simp add: set_dcsr_def)

lemmas wf_csr_writes = wf_csr_if wf_csr_other[THEN iffD2] wf_csr_flush[THEN iffD2] wf_dirty wf_csr_upd wf_set_mstatus
  wf_set_misa wf_set_tdata1 wf_set_dcsr fp_fields_le even_and_not_1 even_rocket_epc and_not_2

lemma wf_set_csr_switch:
  assumes w: "wf_csr p"
  shows "ensures wf_csr (set_csr_switch which val p)"
proof -
  have atp: "((0x00000FFFFFFFFFFF AND rv64_ppn_mask) OR 0xF000000000000000) AND 0xF000000000000000 = (0xF000000000000000 :: reg_t)"
      "(0x00000FFFFFFFFFFF OR 0xF000000000000000 OR rv64_ppn_mask) AND 0xF000000000000000 = (0xF000000000000000 :: reg_t)"
    by simp_all
  have m: "(mideleg p AND NOT MIP_HS_MASK) AND 0x111 = 0"
    by (rule and_zero_left(2)[OF wf_csr_D(14)[OF w]])
  have h: "(hideleg p AND MIP_VS_MASK) AND 0x111 = 0"
    by (rule and_zero_left(1)) simp
  have d: "((if s then MIP_SSIP OR MIP_STIP OR MIP_SEIP else 0) OR (if c then IRQ_COP_BIT else 0)) AND 0x111 = (0 :: reg_t)"
      "(((if s then MIP_SSIP OR MIP_STIP OR MIP_SEIP else 0) OR (if c then IRQ_COP_BIT else 0))
        OR (if h then MIP_HS_MASK else 0) OR MIP_MSIP OR MIP_MTIP OR MIP_MEIP) AND 0x111 = (0 :: reg_t)" for s c h
    by (cases s; cases c; cases h; simp)+
  have hs: "MIP_HS_MASK AND 0x111 = (0 :: reg_t)"
    by simp
  note atps = legal_atp_legal[OF atp(1), of p] legal_atp_legal[OF atp(2), of p]
  note D = masked_within[OF wf_csr_D(9)[OF w]] masked_within[OF wf_csr_D(10)[OF w]] masked_within[OF wf_csr_D(11)[OF w]]
  show ?thesis
    unfolding set_csr_switch_def Let_def
    by (intro ensures_intros wf_csr_writes w D masked_zero[where z = "0x111"] if_zero[where z = "0x111"] wf_csr_D(13,14)[OF w] m h d hs)
      (simp_all only: max_xlen_flush atps length_list_update wf_csr_D(7)[OF w])
qed

lemma set_csr_switch_pmp:
  "is_pmpaddr which \<Longrightarrow> set_csr_switch which v q = Inr q" "is_pmpcfg which \<Longrightarrow> set_csr_switch which v q = Inr q"
  by (simp_all add: set_csr_switch_def Let_def)

lemma set_csr_cases:
  assumes "\<And>v. Q p \<Longrightarrow> ensures Q (set_csr_switch which v p)" and "Q p"
    and "\<And>i v. which = 0x3b0 + i \<Longrightarrow> i < max_pmp \<Longrightarrow> Q (set_pmpaddr i v p)"
    and "\<And>i v. which = 0x3a0 + i \<Longrightarrow> i < 4 \<Longrightarrow> Q (set_pmpcfg i v p)"
  shows "ensures Q (set_csr which val p)"
proof (cases "is_pmpaddr which")
  case True
  then have n: "\<not> is_pmpcfg which" and i: "which = 0x3b0 + (which - 0x3b0)" "which - 0x3b0 < max_pmp"
    by auto
  show ?thesis
    unfolding set_csr_def Let_def using assms(3)[OF i] \<open>Q p\<close>
    by (simp only: True n set_csr_switch_pmp(1)[OF True] simp_thms if_False if_True ensures_def split: if_split) simp
next
  case not_addr: False
  show ?thesis
  proof (cases "is_pmpcfg which")
    case True
    then have i: "which = 0x3a0 + (which - 0x3a0)" "which - 0x3a0 < 4"
      by auto
    show ?thesis
      unfolding set_csr_def Let_def using assms(4)[OF i] \<open>Q p\<close>
      by (simp only: True not_addr set_csr_switch_pmp(2)[OF True] simp_thms if_False if_True ensures_def split: if_split) simp
  next
    case False
    show ?thesis
      using assms(1)[OF \<open>Q p\<close>] unfolding set_csr_def Let_def by (simp only: False not_addr simp_thms if_False)
  qed
qed

lemma wf_set_csr: "wf_csr p \<Longrightarrow> ensures wf_csr (set_csr which val p)"
  by (intro set_csr_cases wf_set_csr_switch wf_set_pmpaddr wf_set_pmpcfg)

end
