(* ===== verification/RV_CSR_Safety.thy ===== *)
theory RV_CSR_Safety
  imports RV_CSR_Props
begin

text \<open>
  Safety of CSR writes: a locked protection entry never changes, and a write that changes how
  addresses are translated leaves the translation caches empty, two fields of \<open>mstatus\<close> apart.
\<close>

section \<open>A hart to evaluate on\<close>

text \<open>A freshly reset RV64 hart with the extensions A, C, D, F, I, M, S and U.\<close>

definition example_hart :: processor_t where
  "example_hart =
     \<lparr>pc = 0x10000, XPR = replicate 32 0, FPR = replicate 32 (0, 0), prv = PRV_M, virt = False,
      misa = 0x800000000014112D, mstatus = 0, mepc = 0, mtval = 0, mscratch = 0, mtvec = 0,
      mcause = 0, minstret = 0, mie = 0, mip = 0, medeleg = 0, mideleg = 0, mcounteren = 0,
      scounteren = 0, sepc = 0, stval = 0, sscratch = 0, stvec = 0, satp = 0, scause = 0,
      mtval2 = 0, mtinst = 0, hstatus = 0, hideleg = 0, hedeleg = 0, hcounteren = 0, htval = 0,
      htinst = 0, hgatp = 0, vsstatus = 0, vstvec = 0, vsscratch = 0, vsepc = 0, vscause = 0,
      vstval = 0, vsatp = 0, dpc = 0, dscratch0 = 0, dscratch1 = 0,
      dcsr = \<lparr>dcsr_prv = 0, dcsr_step = False, dcsr_ebreakm = False, dcsr_ebreakh = False, dcsr_ebreaks = False,
              dcsr_ebreaku = False, dcsr_halt = False, dcsr_cause = 0\<rparr>,
      tselect = 0, mcontrol = replicate num_triggers
       \<lparr>mc_type = 2, mc_dmode = False, mc_maskmax = 0, mc_select = False, mc_timing = False, mc_action = 0,
        mc_chain = False, mc_match = 0, mc_m = False, mc_h = False, mc_s = False, mc_u = False,
        mc_execute = False, mc_store = False, mc_load = False\<rparr>,
      tdata2 = replicate num_triggers 0, debug_mode = False, pmpcfg = replicate max_pmp 0,
      pmpaddr = replicate max_pmp 0, fflags = 0, frm = 0, serialized = False,
      single_step = STEP_NONE, max_xlen = 64, xlen = 64, max_isa = 0x800000000014112D, n_pmp = 16,
      lg_pmp_granularity = 2, ext_registered = False, zfh_supported = False, hart_id = 0,
      halt_request = HR_NONE, halt_on_reset = False, vu_vxsat = 0, vu_vxrm = 0, vu_vstart = 0,
      vu_vl = 0, vu_vtype = 0, vu_vlenb = 16, vu_VLEN = 128,
      mmu = \<lparr>tlb_insn_tag = replicate TLB_ENTRIES (- 1), tlb_load_tag = replicate TLB_ENTRIES (- 1),
             tlb_store_tag = replicate TLB_ENTRIES (- 1), tlb_data = replicate TLB_ENTRIES 0,
             icache_tag = replicate ICACHE_ENTRIES (- 1), load_reservation_address = - 1,
             check_triggers_fetch = False, check_triggers_load = False, check_triggers_store = False\<rparr>\<rparr>"

lemma wf_example_hart: "wf_csr example_hart"
  by (simp add: wf_csr_def example_hart_def wf_misa_def legal_prv_def wf_pmp_def legal_satp_def get_field_def
      list_all_iff)

section \<open>Locked protection entries\<close>

definition pmp_locked :: "processor_t \<Rightarrow> nat \<Rightarrow> bool" where
  "pmp_locked p i \<longleftrightarrow> pmpcfg p ! i AND PMP_L \<noteq> 0"

text \<open>The entry itself, and the address below it when it is the top of a range.\<close>

definition pmp_entry_kept :: "nat \<Rightarrow> processor_t \<Rightarrow> processor_t \<Rightarrow> bool" where
  "pmp_entry_kept i p q \<longleftrightarrow>
     pmpcfg q ! i = pmpcfg p ! i \<and> pmpaddr q ! i = pmpaddr p ! i
     \<and> (pmpcfg p ! i AND PMP_A = PMP_TOR \<longrightarrow> 0 < i \<longrightarrow> pmpaddr q ! (i - 1) = pmpaddr p ! (i - 1))"

lemma set_pmpaddr_kept:
  assumes "i < max_pmp" and "pmp_locked p i"
  shows "pmp_entry_kept i p (set_pmpaddr j v p)"
proof -
  have same: "(pmpaddr p)[j := x] ! k = pmpaddr p ! k" if "j \<noteq> k" for k x
    using that by simp
  show ?thesis
  proof (cases "j = i \<or> 0 < i \<and> j = i - 1 \<and> pmpcfg p ! i AND PMP_A = PMP_TOR")
    case True
    then show ?thesis
      using assms by (auto simp: pmp_entry_kept_def pmp_locked_def set_pmpaddr_def p_flush_tlb_def)
  next
    case False
    then show ?thesis
      by (auto simp: pmp_entry_kept_def set_pmpaddr_def Let_def p_flush_tlb_def same)
  qed
qed

lemma set_pmpcfg_loop_kept:
  assumes "length (pmpcfg p) = max_pmp" and "i < max_pmp" and "pmp_locked p i"
  shows "pmpcfg (set_pmpcfg_loop i0 j k v p) ! i = pmpcfg p ! i \<and> pmpaddr (set_pmpcfg_loop i0 j k v p) = pmpaddr p"
  using assms
proof (induction i0 j k v p rule: set_pmpcfg_loop.induct)
  case (2 i0 j k v p)
  define q where "q = (if j < n_pmp p \<and> pmpcfg p ! j AND PMP_L = 0
               then p\<lparr>pmpcfg := (pmpcfg p)[j := legal_pmpcfg (lg_pmp_granularity p)
                                                  (to_u8 (drop_bit (8 * (j - i0)) v))]\<rparr>
               else p)"
  have q: "pmpcfg q ! i = pmpcfg p ! i" "pmpaddr q = pmpaddr p" "length (pmpcfg q) = max_pmp"
    using 2(2,4) by (auto simp: q_def pmp_locked_def intro!: nth_list_update_neq)
  then have "pmp_locked q i"
    using 2(4) by (simp add: pmp_locked_def)
  from 2(1)[OF q_def q(3) 2(3) this] show ?case
    using q by (simp add: q_def[symmetric])
qed simp

lemma set_csr_switch_pmp_same:
  "ensures (\<lambda>q. pmpcfg q = pmpcfg p \<and> pmpaddr q = pmpaddr p) (set_csr_switch which val p)"
  unfolding set_csr_switch_def Let_def
  by (intro ensures_intros)
    (simp_all add: set_mstatus_def set_misa_def set_tdata1_def set_dcsr_def trigger_updated_def dirty_fp_state_def
      dirty_vs_state_def p_flush_tlb_def Let_def)

text \<open>
  C16: a locked protection entry is immutable. Whatever CSR is written with whatever value, the
  configuration and the address of a locked entry stay as they were, and so does the address of
  the entry below a locked top-of-range entry, which is the bottom of its range.
\<close>

theorem locked_pmp_unchanged:
  assumes "wf_csr p" and "set_csr which val p = Inr q" and "i < max_pmp" and "pmp_locked p i"
  shows "pmp_entry_kept i p q"
proof -
  have len: "length (pmpcfg p) = max_pmp" "length (pmpaddr p) = max_pmp"
    using wf_csr_D(4)[OF assms(1)] by (simp_all add: wf_pmp_def)
  have "ensures (pmp_entry_kept i p) (set_csr which val p)"
  proof (rule set_csr_cases)
    show "ensures (pmp_entry_kept i p) (set_csr_switch which v p)" for v
      using set_csr_switch_pmp_same[of p which v] by (simp add: ensures_def pmp_entry_kept_def)
    show "pmp_entry_kept i p (set_pmpaddr j v p)" for j v
      by (rule set_pmpaddr_kept[OF assms(3,4)])
    show "pmp_entry_kept i p (set_pmpcfg j v p)" for j v
      using set_pmpcfg_loop_kept[OF len(1) assms(3,4)]
      by (simp add: pmp_entry_kept_def set_pmpcfg_def p_flush_tlb_def)
  qed (simp add: pmp_entry_kept_def)
  then show ?thesis
    using assms(2) by (rule ensuresD)
qed

lemma locked_pmp_unchanged_witness:
  "let p = example_hart\<lparr>pmpcfg := 0x9F # replicate 15 0\<rparr> in pmp_entry_kept 0 p (projr (set_csr 0x3b0 5 p))"
proof -
  define p where "p = example_hart\<lparr>pmpcfg := 0x9F # replicate 15 0\<rparr>"
  have "wf_pmp p"
    by (simp add: p_def wf_pmp_def example_hart_def list_all_iff)
  then have "wf_csr p"
    using wf_csr_pmp_upd[OF wf_example_hart, where c = "pmpcfg p" and a = "pmpaddr p"] by (simp add: p_def)
  moreover have "set_csr 0x3b0 5 p = Inr (projr (set_csr 0x3b0 5 p))"
    by (simp add: set_csr_def set_csr_switch_pmp Let_def)
  moreover have "pmp_locked p 0"
    by (simp add: pmp_locked_def p_def)
  ultimately show ?thesis
    using locked_pmp_unchanged[where p = p and which = "0x3b0" and val = 5 and i = 0] unfolding p_def[symmetric] Let_def by simp
qed

section \<open>The translation caches\<close>

definition tlb_empty :: "mmu_t \<Rightarrow> bool" where
  "tlb_empty m \<longleftrightarrow> list_all (\<lambda>t. t = - 1) (tlb_insn_tag m) \<and> list_all (\<lambda>t. t = - 1) (tlb_load_tag m)
     \<and> list_all (\<lambda>t. t = - 1) (tlb_store_tag m) \<and> list_all (\<lambda>t. t = - 1) (icache_tag m)"

lemma tlb_empty_flush [simp]: "tlb_empty (flush_tlb m)"
  by (simp add: tlb_empty_def flush_tlb_def flush_icache_def list_all_iff)

text \<open>
  What the translation of an address looks at, but for two fields of \<open>mstatus\<close>: \<open>MPP\<close>, which is
  treated apart because a write replaces a value the hart does not support, and \<open>MPV\<close>, for which
  the code does not flush.
\<close>

definition translation_context where
  "translation_context p =
     (satp p, vsatp p, hgatp p, pmpcfg p, pmpaddr p,
      mstatus p AND (MSTATUS_MPRV OR MSTATUS_SUM OR MSTATUS_MXR), prv p, virt p)"

definition MPP_of :: "processor_t \<Rightarrow> reg_t" where
  "MPP_of p = get_field (mstatus p) MSTATUS_MPP"

text \<open>The mode that a write of \<open>mstatus\<close> puts in place of the one in \<open>MPP\<close>.\<close>

definition legal_MPP :: "processor_t \<Rightarrow> reg_t" where
  "legal_MPP p = legalize_privilege p (MPP_of p)"

definition flushed_if_changed :: "processor_t \<Rightarrow> processor_t \<Rightarrow> bool" where
  "flushed_if_changed p q \<longleftrightarrow>
     translation_context q = translation_context p \<and> (MPP_of q = MPP_of p \<or> MPP_of q = legal_MPP p) \<or> tlb_empty (mmu q)"

lemma flushed_intros:
  "tlb_empty (mmu q) \<Longrightarrow> flushed_if_changed p q" "translation_context q = translation_context p \<Longrightarrow> MPP_of q = MPP_of p \<Longrightarrow> flushed_if_changed p q"
  by (simp_all add: flushed_if_changed_def)

lemma flush_empties [simp]: "tlb_empty (mmu (p_flush_tlb p))"
  by (simp add: p_flush_tlb_def)

text \<open>The write of \<open>mstatus\<close> flushes when one of the four fields changes.\<close>

lemma set_mstatus_bits:
  "bit (mstatus (set_mstatus val p)) 17 \<longleftrightarrow> bit val 17"
  "bit (mstatus (set_mstatus val p)) 19 \<longleftrightarrow> bit val 19"
  "bit (mstatus (set_mstatus val p)) 18 \<longleftrightarrow> (if bit (misa p) 18 then bit val 18 else bit (mstatus p) 18)"
  by (simp_all add: set_mstatus_def Let_def set_fields bit_simps bit_if if_distrib[of mstatus] p_flush_tlb_def)

abbreviation (input) CTX_MASK :: reg_t where
  "CTX_MASK \<equiv> MSTATUS_MPP OR MSTATUS_MPRV OR MSTATUS_SUM OR MSTATUS_MXR"

lemma bit_CTX: "bit (CTX_MASK) n \<longleftrightarrow> n = 11 \<or> n = 12 \<or> n = 17 \<or> n = 18 \<or> n = 19"
proof -
  have "CTX_MASK = push_bit 11 (mask 2) OR push_bit 17 (mask 3)"
    by (simp add: mask_numeral)
  then have "bit (CTX_MASK) n \<longleftrightarrow> 11 \<le> n \<and> n < 13 \<or> 17 \<le> n \<and> n < 20"
    by (auto simp only: bit_simps) auto
  then show ?thesis
    by auto
qed

lemma bit_context_mask: "bit (MSTATUS_MPRV OR MSTATUS_SUM OR MSTATUS_MXR :: reg_t) n \<longleftrightarrow> n = 17 \<or> n = 18 \<or> n = 19"
proof -
  have "(MSTATUS_MPRV OR MSTATUS_SUM OR MSTATUS_MXR :: reg_t) = push_bit 17 (mask 3)"
    by (simp add: mask_numeral)
  then show ?thesis
    by (auto simp only: bit_simps) auto
qed

lemma context_fields_eqI:
  fixes x y :: reg_t
  assumes "bit x 17 = bit y 17" and "bit x 18 = bit y 18" and "bit x 19 = bit y 19"
  shows "x AND (MSTATUS_MPRV OR MSTATUS_SUM OR MSTATUS_MXR) = y AND (MSTATUS_MPRV OR MSTATUS_SUM OR MSTATUS_MXR)"
  by (rule bit_word_eqI) (use assms in \<open>unfold bit_and_iff bit_context_mask, auto\<close>)

lemma ctx_eqD:
  assumes "(x XOR y) AND CTX_MASK = 0"
  shows "get_field x MSTATUS_MPP = get_field y MSTATUS_MPP" "bit x 17 = bit y 17" "bit x 18 = bit y 18" "bit x 19 = bit y 19"
proof -
  have b: "bit x n = bit y n" if "n = 11 \<or> n = 12 \<or> n = 17 \<or> n = 18 \<or> n = 19" for n
    using arg_cong[OF assms, of "\<lambda>w. bit w n"] that unfolding bit_and_iff bit_CTX by (auto simp: bit_simps)
  show "get_field x MSTATUS_MPP = get_field y MSTATUS_MPP"
    unfolding get_MPP using b[of 11] b[of 12] by (intro bit_word_eqI) (auto simp: bit_simps less_2_cases_iff numeral_2_eq_2 less_Suc_eq)
  show "bit x 17 = bit y 17" "bit x 18 = bit y 18" "bit x 19 = bit y 19"
    by (rule b; simp)+
qed

lemma set_mstatus_context:
  "translation_context (set_mstatus val p) =
     (satp p, vsatp p, hgatp p, pmpcfg p, pmpaddr p,
      mstatus (set_mstatus val p) AND (MSTATUS_MPRV OR MSTATUS_SUM OR MSTATUS_MXR), prv p, virt p)"
  by (subst (1) set_mstatus_frame) (simp add: translation_context_def p_flush_tlb_def)

text \<open>
  A write that keeps the four fields changes nothing that matters to the translation, a value of
  \<open>MPP\<close> the hart does not support apart: that is replaced even by the write of itself.
\<close>

lemma set_mstatus_flushed: "flushed_if_changed p (set_mstatus val p)"
proof (cases "(val XOR mstatus p) AND CTX_MASK = 0")
  case True
  note D = ctx_eqD[OF this]
  have "mstatus (set_mstatus val p) AND (MSTATUS_MPRV OR MSTATUS_SUM OR MSTATUS_MXR)
      = mstatus p AND (MSTATUS_MPRV OR MSTATUS_SUM OR MSTATUS_MXR)"
    by (rule context_fields_eqI) (use D in \<open>simp_all only: set_mstatus_bits if_cancel\<close>)
  then have "translation_context (set_mstatus val p) = translation_context p"
    by (simp only: set_mstatus_context, simp only: translation_context_def)
  moreover have "MPP_of (set_mstatus val p) = legal_MPP p"
    using D(1) by (simp add: MPP_of_def legal_MPP_def set_mstatus_MPP)
  ultimately show ?thesis
    by (simp add: flushed_if_changed_def)
next
  case False
  then show ?thesis
    by (intro flushed_intros(1)) (subst set_mstatus_frame, simp)
qed

lemma context_other [simp]:
  "translation_context (dirty_fp_state p) = translation_context p" "translation_context (dirty_vs_state p) = translation_context p"
  "MPP_of (dirty_fp_state p) = MPP_of p" "MPP_of (dirty_vs_state p) = MPP_of p"
  unfolding translation_context_def MPP_of_def dirty_MPP
  by (simp_all add: dirty_fp_state_def dirty_vs_state_def and.assoc bit.conj_disj_distrib2)

text \<open>Marking a unit's state dirty does not touch \<open>MPP\<close>.\<close>

lemma dirty_bits_MPP:
  "get_field (m OR 0x8000000000006000) MSTATUS_MPP = get_field m MSTATUS_MPP"
  "get_field (m OR 0x80006000) MSTATUS_MPP = get_field m MSTATUS_MPP"
  "get_field (m OR 0x8000000000000600) MSTATUS_MPP = get_field m MSTATUS_MPP"
  "get_field (m OR 0x80000600) MSTATUS_MPP = get_field m MSTATUS_MPP" for m :: reg_t
  unfolding get_MPP by (rule bit_word_eqI; auto simp: bit_simps less_2_cases_iff numeral_2_eq_2 less_Suc_eq)+

lemma set_csr_switch_flushed: "ensures (flushed_if_changed p) (set_csr_switch which val p)"
  unfolding set_csr_switch_def Let_def
  by (intro ensures_intros set_mstatus_flushed)
    (simp_all add: flushed_if_changed_def translation_context_def MPP_of_def set_misa_def set_tdata1_def set_dcsr_def
      trigger_updated_def p_flush_tlb_def dirty_bits_MPP dirty_fp_state_def dirty_vs_state_def Let_def
      bit.conj_disj_distrib2)

text \<open>
  C23: no CSR write leaves a stale translation behind. If the write changes a register that the
  translation of addresses depends on (a root page table, the protection entries, or one of the
  fields \<open>MPRV\<close>, \<open>SUM\<close>, \<open>MXR\<close> of \<open>mstatus\<close>), or gives the field \<open>MPP\<close> a value that is neither the
  old one nor the mode the hart legalizes the old one to, the TLBs and the instruction cache are empty
  afterwards. Two changes are exempt, and both are flaws of the code: that of \<open>MPV\<close>, and that of an
  \<open>MPP\<close> which the hart no longer supports to its legal form; on a hart whose \<open>MPP\<close> is supported
  every change of \<open>MPP\<close> is covered.
\<close>

theorem csr_write_flushes_tlb:
  assumes "set_csr which val p = Inr q"
    and "translation_context q \<noteq> translation_context p \<or> MPP_of q \<notin> {MPP_of p, legal_MPP p}"
  shows "tlb_empty (mmu q)"
proof -
  have "ensures (flushed_if_changed p) (set_csr which val p)"
  proof (rule set_csr_cases)
    show "ensures (flushed_if_changed p) (set_csr_switch which v p)" for v
      by (rule set_csr_switch_flushed)
  qed (simp_all add: flushed_if_changed_def set_pmpaddr_def set_pmpcfg_def Let_def)
  then have "flushed_if_changed p q"
    using assms(1) by (rule ensuresD)
  then show ?thesis
    using assms(2) by (auto simp: flushed_if_changed_def)
qed

lemma csr_write_flushes_tlb_witness:
  "let q = projr (set_csr 0x180 0x8000000000000123 example_hart)
   in tlb_empty (mmu q) \<and> satp q = 0x8000000000000123"
proof -
  define q where "q = projr (set_csr 0x180 0x8000000000000123 example_hart)"
  have q: "set_csr 0x180 0x8000000000000123 example_hart = Inr q" "satp q = 0x8000000000000123"
    by (simp_all add: q_def set_csr_def set_csr_switch_def Let_def example_hart_def p_flush_tlb_def legal_atp_def zext_xlen_def
        get_field_def)
  have "translation_context q \<noteq> translation_context example_hart"
    using q(2) by (simp add: translation_context_def example_hart_def)
  then have "tlb_empty (mmu q)"
    using q(1) by (intro csr_write_flushes_tlb disjI1)
  then show ?thesis
    using q(2) by (simp add: q_def Let_def)
qed

end
