(* ===== verification/RV_MMU.thy ===== *)
theory RV_MMU
  imports RV_CSR_Safety
begin

text \<open>
  Address translation and protection: \<open>decode_vm_info\<close> of \<open>riscv/mmu.h\<close>, \<open>pmp_ok\<close>,
  \<open>pmp_homogeneous\<close>, \<open>s2xlate\<close>, \<open>walk\<close>, \<open>translate\<close> and \<open>refill_tlb\<close> of \<open>riscv/mmu.cc\<close>. Main memory is a
  partial map of bytes by physical address (\<open>sim_t::addr_to_mem\<close> answers whether and where an
  address is in it); reading a byte outside it gives zero, which the code never does.
\<close>

section \<open>Memory\<close>

type_synonym memory = "reg_t \<Rightarrow> uint8 option"

datatype access_type = LOAD | STORE | FETCH

definition in_mem :: "memory \<Rightarrow> reg_t \<Rightarrow> bool" where
  "in_mem m a \<longleftrightarrow> m a \<noteq> None"

definition mem_byte :: "memory \<Rightarrow> reg_t \<Rightarrow> uint8" where
  "mem_byte m a = (case m a of None \<Rightarrow> 0 | Some b \<Rightarrow> b)"

definition mem_bytes :: "memory \<Rightarrow> reg_t \<Rightarrow> nat \<Rightarrow> uint8 list" where
  "mem_bytes m a n = map (\<lambda>i. mem_byte m (a + of_nat i)) [0..<n]"

fun from_le :: "uint8 list \<Rightarrow> reg_t" where
  "from_le [] = 0"
| "from_le (b # bs) = to_u64 b OR push_bit 8 (from_le bs)"

definition read_mem :: "memory \<Rightarrow> reg_t \<Rightarrow> nat \<Rightarrow> reg_t" where
  "read_mem m a n = from_le (mem_bytes m a n)"

definition throw_access_exception :: "reg_t \<Rightarrow> access_type \<Rightarrow> thrown + 'a" where
  "throw_access_exception a type =
     Inl (Trap (mem_trap (case type of FETCH \<Rightarrow> CAUSE_FETCH_ACCESS | LOAD \<Rightarrow> CAUSE_LOAD_ACCESS | STORE \<Rightarrow> CAUSE_STORE_ACCESS) a 0 0))"

section \<open>Physical memory protection\<close>

definition pmp_tor :: "processor_t \<Rightarrow> nat \<Rightarrow> reg_t" where
  "pmp_tor p i = push_bit PMP_SHIFT (pmpaddr p ! i AND pmp_tor_mask p)"

definition pmp_mask :: "processor_t \<Rightarrow> nat \<Rightarrow> reg_t" where
  "pmp_mask p i =
     (let is_na4 = (pmpcfg p ! i AND PMP_A = PMP_NA4);
          msk = (push_bit 1 (pmpaddr p ! i) OR (if is_na4 then 0 else 1)) OR NOT (pmp_tor_mask p)
      in push_bit PMP_SHIFT (NOT (msk AND NOT (msk + 1))))"

text \<open>The 4-byte sectors of an access.\<close>

definition sectors :: "reg_t \<Rightarrow> nat \<Rightarrow> reg_t list" where
  "sectors a len = map (\<lambda>k. a + of_nat (4 * k)) [0..<(len + 3) div 4]"

definition pmp_match :: "processor_t \<Rightarrow> nat \<Rightarrow> reg_t \<Rightarrow> reg_t \<Rightarrow> bool" where
  "pmp_match p i base cur =
     (if pmpcfg p ! i AND PMP_A = PMP_TOR then base \<le> cur \<and> cur < pmp_tor p i
      else (cur XOR pmp_tor p i) AND pmp_mask p i = 0)"

definition pmp_permits :: "uint8 \<Rightarrow> access_type \<Rightarrow> reg_t \<Rightarrow> bool" where
  "pmp_permits cfg type mode \<longleftrightarrow>
     mode = PRV_M \<and> cfg AND PMP_L = 0 \<or> type = LOAD \<and> cfg AND PMP_R \<noteq> 0 \<or> type = STORE \<and> cfg AND PMP_W \<noteq> 0
     \<or> type = FETCH \<and> cfg AND PMP_X \<noteq> 0"

fun pmp_loop :: "processor_t \<Rightarrow> reg_t \<Rightarrow> nat \<Rightarrow> access_type \<Rightarrow> reg_t \<Rightarrow> nat \<Rightarrow> nat \<Rightarrow> reg_t \<Rightarrow> bool" where
  "pmp_loop p a len type mode i 0 base = (mode = PRV_M)"
| "pmp_loop p a len type mode i (Suc k) base =
     (let cfg = pmpcfg p ! i;
          matches = map (pmp_match p i base) (sectors a len)
      in if cfg AND PMP_A \<noteq> 0 \<and> list_ex id matches then
           (if \<not> list_all id matches then False else pmp_permits cfg type mode)
         else pmp_loop p a len type mode (Suc i) k (pmp_tor p i))"

definition pmp_ok :: "processor_t \<Rightarrow> reg_t \<Rightarrow> nat \<Rightarrow> access_type \<Rightarrow> reg_t \<Rightarrow> bool" where
  "pmp_ok p a len type mode = (if n_pmp p = 0 then True else pmp_loop p a len type mode 0 (n_pmp p) 0)"

definition pmp_entry_homogeneous :: "processor_t \<Rightarrow> nat \<Rightarrow> reg_t \<Rightarrow> reg_t \<Rightarrow> reg_t \<Rightarrow> bool" where
  "pmp_entry_homogeneous p i base a len =
     (let tor = pmp_tor p i;
          begins_after_lower = (base \<le> a);
          begins_after_upper = (tor \<le> a);
          ends_before_lower = ((a AND - len) < (base AND - len));
          ends_before_upper = ((a AND - len) < (tor AND - len));
          tor_homogeneous = (ends_before_lower \<or> begins_after_upper \<or> begins_after_lower \<and> ends_before_upper);
          mask_homogeneous = (NOT (push_bit 1 (pmp_mask p i)) AND len \<noteq> 0);
          napot_homogeneous = (mask_homogeneous \<or> (a XOR tor) div len \<noteq> 0)
      in if pmpcfg p ! i AND PMP_A = PMP_TOR then tor_homogeneous else napot_homogeneous)"

fun pmp_homogeneous_loop :: "processor_t \<Rightarrow> reg_t \<Rightarrow> reg_t \<Rightarrow> nat \<Rightarrow> nat \<Rightarrow> reg_t \<Rightarrow> bool" where
  "pmp_homogeneous_loop p a len i 0 base = True"
| "pmp_homogeneous_loop p a len i (Suc k) base =
     (if pmpcfg p ! i AND PMP_A \<noteq> 0 \<and> \<not> pmp_entry_homogeneous p i base a len then False
      else pmp_homogeneous_loop p a len (Suc i) k (pmp_tor p i))"

text \<open>The code aborts on a range that is not naturally aligned.\<close>

definition pmp_homogeneous :: "processor_t \<Rightarrow> reg_t \<Rightarrow> reg_t \<Rightarrow> bool option" where
  "pmp_homogeneous p a len =
     (if (a OR len) AND (len - 1) \<noteq> 0 then None else Some (pmp_homogeneous_loop p a len 0 (n_pmp p) 0))"

section \<open>Page tables\<close>

record vm_info =
  vm_levels :: nat
  vm_idxbits :: nat
  vm_widenbits :: nat
  vm_ptesize :: nat
  vm_ptbase :: reg_t

definition vm_off :: vm_info where
  "vm_off = \<lparr>vm_levels = 0, vm_idxbits = 0, vm_widenbits = 0, vm_ptesize = 0, vm_ptbase = 0\<rparr>"

abbreviation (input) SATP32_PPN :: reg_t where "SATP32_PPN \<equiv> 0x003FFFFF"
abbreviation (input) SATP64_PPN :: reg_t where "SATP64_PPN \<equiv> 0x00000FFFFFFFFFFF"

definition vm_make :: "nat \<Rightarrow> nat \<Rightarrow> nat \<Rightarrow> nat \<Rightarrow> reg_t \<Rightarrow> vm_info" where
  "vm_make levels idxbits widenbits ptesize ppn =
     \<lparr>vm_levels = levels, vm_idxbits = idxbits, vm_widenbits = widenbits, vm_ptesize = ptesize, vm_ptbase = push_bit PGSHIFT ppn\<rparr>"

text \<open>\<open>None\<close> is an abort.\<close>

definition decode_vm_info :: "nat \<Rightarrow> bool \<Rightarrow> reg_t \<Rightarrow> reg_t \<Rightarrow> vm_info option" where
  "decode_vm_info xl stage2 pr atp =
     (if pr = PRV_M then Some vm_off
      else if \<not> stage2 \<and> pr \<le> PRV_S \<and> xl = 32 then
        (let md = get_field atp 0x80000000
         in if md = 0 then Some vm_off
            else if md = 1 then Some (vm_make 2 10 0 4 (atp AND SATP32_PPN))
            else None)
      else if \<not> stage2 \<and> pr \<le> PRV_S \<and> xl = 64 then
        (let md = get_field atp 0xF000000000000000
         in if md = 0 then Some vm_off
            else if md = 8 then Some (vm_make 3 9 0 8 (atp AND SATP64_PPN))
            else if md = 9 then Some (vm_make 4 9 0 8 (atp AND SATP64_PPN))
            else if md = 10 then Some (vm_make 5 9 0 8 (atp AND SATP64_PPN))
            else if md = 11 then Some (vm_make 6 9 0 8 (atp AND SATP64_PPN))
            else None)
      else if stage2 \<and> xl = 32 then
        (let md = get_field atp 0x80000000
         in if md = 0 then Some vm_off
            else if md = 1 then Some (vm_make 2 10 2 4 (atp AND SATP32_PPN))
            else None)
      else if stage2 \<and> xl = 64 then
        (let md = get_field atp 0xF000000000000000
         in if md = 0 then Some vm_off
            else if md = 8 then Some (vm_make 3 9 2 8 (atp AND SATP64_PPN))
            else if md = 9 then Some (vm_make 4 9 2 8 (atp AND SATP64_PPN))
            else None)
      else None)"

abbreviation (input) PTE_V :: reg_t where "PTE_V \<equiv> 0x1"
abbreviation (input) PTE_R :: reg_t where "PTE_R \<equiv> 0x2"
abbreviation (input) PTE_W :: reg_t where "PTE_W \<equiv> 0x4"
abbreviation (input) PTE_X :: reg_t where "PTE_X \<equiv> 0x8"
abbreviation (input) PTE_U :: reg_t where "PTE_U \<equiv> 0x10"
abbreviation (input) PTE_A :: reg_t where "PTE_A \<equiv> 0x40"
abbreviation (input) PTE_D :: reg_t where "PTE_D \<equiv> 0x80"

definition PTE_TABLE :: "reg_t \<Rightarrow> bool" where
  "PTE_TABLE pte \<longleftrightarrow> pte AND (PTE_V OR PTE_R OR PTE_W OR PTE_X) = PTE_V"

text \<open>The conditions that end a walk with a page fault, common to both stages.\<close>

definition pte_invalid :: "reg_t \<Rightarrow> bool" where
  "pte_invalid pte \<longleftrightarrow> pte AND PTE_V = 0 \<or> pte AND PTE_R = 0 \<and> pte AND PTE_W \<noteq> 0"

definition pte_denies :: "access_type \<Rightarrow> bool \<Rightarrow> reg_t \<Rightarrow> bool" where
  "pte_denies type mxr pte =
     (case type of
        FETCH \<Rightarrow> pte AND PTE_X = 0
      | LOAD \<Rightarrow> pte AND PTE_R = 0 \<and> \<not> (mxr \<and> pte AND PTE_X \<noteq> 0)
      | STORE \<Rightarrow> \<not> (pte AND PTE_R \<noteq> 0 \<and> pte AND PTE_W \<noteq> 0))"

definition low_bits :: "nat \<Rightarrow> reg_t" where
  "low_bits n = push_bit n 1 - 1"

definition pte_not_marked :: "access_type \<Rightarrow> reg_t \<Rightarrow> bool" where
  "pte_not_marked type pte = (let ad = PTE_A OR (if type = STORE then PTE_D else 0) in pte AND ad \<noteq> ad)"

definition page_of :: "reg_t \<Rightarrow> reg_t \<Rightarrow> nat \<Rightarrow> reg_t" where
  "page_of ppn a ptshift =
     push_bit PGSHIFT (ppn OR (drop_bit PGSHIFT a AND low_bits ptshift)) OR (a AND low_bits PGSHIFT)"

definition throw_guest_page_fault :: "reg_t \<Rightarrow> reg_t \<Rightarrow> access_type \<Rightarrow> thrown + reg_t" where
  "throw_guest_page_fault gva gpa type =
     Inl (Trap (mem_trap (case type of FETCH \<Rightarrow> CAUSE_FETCH_GUEST_PAGE_FAULT | LOAD \<Rightarrow> CAUSE_LOAD_GUEST_PAGE_FAULT
                          | STORE \<Rightarrow> CAUSE_STORE_GUEST_PAGE_FAULT) gva (drop_bit 2 gpa) 0))"

definition throw_page_fault :: "reg_t \<Rightarrow> access_type \<Rightarrow> thrown + reg_t" where
  "throw_page_fault a type =
     Inl (Trap (mem_trap (case type of FETCH \<Rightarrow> CAUSE_FETCH_PAGE_FAULT | LOAD \<Rightarrow> CAUSE_LOAD_PAGE_FAULT
                          | STORE \<Rightarrow> CAUSE_STORE_PAGE_FAULT) a 0 0))"

text \<open>The guest's second stage: the loop counts the levels left, the next is one less.\<close>

fun s2_loop :: "memory \<Rightarrow> processor_t \<Rightarrow> vm_info \<Rightarrow> reg_t \<Rightarrow> reg_t \<Rightarrow> access_type \<Rightarrow> bool \<Rightarrow> nat \<Rightarrow> reg_t \<Rightarrow> thrown + reg_t" where
  "s2_loop m p vm gva gpa type mxr 0 base = throw_guest_page_fault gva gpa type"
| "s2_loop m p vm gva gpa type mxr (Suc i) base =
     (let ptshift = i * vm_idxbits vm;
          idxbits = (if i = vm_levels vm - 1 then vm_idxbits vm + vm_widenbits vm else vm_idxbits vm);
          idx = drop_bit (PGSHIFT + ptshift) gpa AND low_bits idxbits;
          pte_paddr = base + idx * of_nat (vm_ptesize vm)
      in if \<not> in_mem m pte_paddr \<or> \<not> pmp_ok p pte_paddr (vm_ptesize vm) LOAD PRV_S then throw_access_exception gva type
         else
           let pte = read_mem m pte_paddr (vm_ptesize vm);
               ppn = drop_bit 10 pte
           in if PTE_TABLE pte then s2_loop m p vm gva gpa type mxr i (push_bit PGSHIFT ppn)
              else if pte_invalid pte \<or> pte AND PTE_U = 0 \<or> pte_denies type mxr pte \<or> ppn AND low_bits ptshift \<noteq> 0
                      \<or> pte_not_marked type pte
              then throw_guest_page_fault gva gpa type
              else Inr (page_of ppn gpa ptshift))"

definition s2xlate :: "memory \<Rightarrow> processor_t \<Rightarrow> reg_t \<Rightarrow> reg_t \<Rightarrow> access_type \<Rightarrow> bool \<Rightarrow> bool \<Rightarrow> thrown + reg_t" where
  "s2xlate m p gva gpa type vt mxr =
     (if \<not> vt then Inr gpa
      else
        case decode_vm_info (max_xlen p) True 0 (hgatp p) of
          None \<Rightarrow> Inl Abort
        | Some vm \<Rightarrow>
            (if vm_levels vm = 0 then Inr gpa
             else s2_loop m p vm gva gpa type mxr (vm_levels vm) (vm_ptbase vm)))"

definition pte_forbidden :: "bool \<Rightarrow> bool \<Rightarrow> access_type \<Rightarrow> reg_t \<Rightarrow> bool" where
  "pte_forbidden s_mode sm type pte =
     (if pte AND PTE_U \<noteq> 0 then s_mode \<and> (type = FETCH \<or> \<not> sm) else \<not> s_mode)"

fun walk_loop :: "memory \<Rightarrow> processor_t \<Rightarrow> vm_info \<Rightarrow> reg_t \<Rightarrow> access_type \<Rightarrow> reg_t \<Rightarrow> bool \<Rightarrow> bool \<Rightarrow> nat \<Rightarrow> reg_t \<Rightarrow> thrown + reg_t" where
  "walk_loop m p vm a type mode vt mxr 0 base = throw_page_fault a type"
| "walk_loop m p vm a type mode vt mxr (Suc i) base =
     (let ptshift = i * vm_idxbits vm;
          idx = drop_bit (PGSHIFT + ptshift) a AND low_bits (vm_idxbits vm)
      in case s2xlate m p a (base + idx * of_nat (vm_ptesize vm)) LOAD vt False of
           Inl e \<Rightarrow> Inl e
         | Inr pte_paddr \<Rightarrow>
             (if \<not> in_mem m pte_paddr \<or> \<not> pmp_ok p pte_paddr (vm_ptesize vm) LOAD PRV_S then throw_access_exception a type
              else
                let pte = read_mem m pte_paddr (vm_ptesize vm);
                    ppn = drop_bit 10 pte
                in if PTE_TABLE pte then walk_loop m p vm a type mode vt mxr i (push_bit PGSHIFT ppn)
                   else if pte_forbidden (mode = PRV_S) (get_field (mstatus p) MSTATUS_SUM \<noteq> 0) type pte
                           \<or> pte_invalid pte \<or> pte_denies type mxr pte \<or> ppn AND low_bits ptshift \<noteq> 0 \<or> pte_not_marked type pte
                   then throw_page_fault a type
                   else
                     (case s2xlate m p a (page_of ppn a ptshift) type vt mxr of
                        Inl e \<Rightarrow> Inl e
                      | Inr pa \<Rightarrow> Inr (pa AND NOT (low_bits PGSHIFT)))))"

definition walk :: "memory \<Rightarrow> processor_t \<Rightarrow> reg_t \<Rightarrow> access_type \<Rightarrow> reg_t \<Rightarrow> bool \<Rightarrow> bool \<Rightarrow> thrown + reg_t" where
  "walk m p a type mode vt mxr =
     (case decode_vm_info (max_xlen p) False mode (if vt then vsatp p else satp p) of
        None \<Rightarrow> Inl Abort
      | Some vm \<Rightarrow>
          (if vm_levels vm = 0 then
             (case s2xlate m p a (a AND (push_bit (xlen p - 1) 2 - 1)) type vt mxr of
                Inl e \<Rightarrow> Inl e
              | Inr pa \<Rightarrow> Inr (pa AND NOT (low_bits PGSHIFT)))
           else
             let va_bits = PGSHIFT + vm_levels vm * vm_idxbits vm;
                 msk = low_bits (xlen p - (va_bits - 1));
                 masked_msbs = drop_bit (va_bits - 1) a AND msk;
                 levels = (if masked_msbs \<noteq> 0 \<and> masked_msbs \<noteq> msk then 0 else vm_levels vm)
             in walk_loop m p vm a type mode vt mxr levels (vm_ptbase vm)))"

abbreviation (input) RISCV_XLATE_VIRT :: uint32 where "RISCV_XLATE_VIRT \<equiv> 1"
abbreviation (input) RISCV_XLATE_VIRT_MXR :: uint32 where "RISCV_XLATE_VIRT_MXR \<equiv> 2"

text \<open>The mode, the virtualization and the \<open>MXR\<close> bit an access is made with.\<close>

definition effective_mode :: "processor_t \<Rightarrow> access_type \<Rightarrow> uint32 \<Rightarrow> reg_t \<times> bool \<times> bool" where
  "effective_mode p type xlate_flags =
     (let mxr = (get_field (mstatus p) MSTATUS_MXR \<noteq> 0);
          vt = virt p;
          mode = prv p
      in if type = FETCH then (mode, vt, mxr)
         else
           let mprv = (\<not> debug_mode p \<and> get_field (mstatus p) MSTATUS_MPRV \<noteq> 0);
               mode = (if mprv then get_field (mstatus p) MSTATUS_MPP else mode);
               vt = (if mprv \<and> get_field (mstatus p) MSTATUS_MPV \<noteq> 0 then True else vt)
           in if \<not> debug_mode p \<and> xlate_flags AND RISCV_XLATE_VIRT \<noteq> 0
              then (get_field (hstatus p) HSTATUS_SPVP, True, mxr \<or> type = LOAD \<and> xlate_flags AND RISCV_XLATE_VIRT_MXR \<noteq> 0)
              else (mode, vt, mxr))"

definition translate :: "memory \<Rightarrow> processor_t \<Rightarrow> reg_t \<Rightarrow> nat \<Rightarrow> access_type \<Rightarrow> uint32 \<Rightarrow> thrown + reg_t" where
  "translate m p a len type xlate_flags =
     (case effective_mode p type xlate_flags of
        (mode, vt, mxr) \<Rightarrow>
          (case walk m p a type mode vt mxr of
             Inl e \<Rightarrow> Inl e
           | Inr pg \<Rightarrow>
               (let paddr = pg OR (a AND low_bits PGSHIFT)
                in if \<not> pmp_ok p paddr len type mode then throw_access_exception a type else Inr paddr)))"

end
