(* ===== verification/RV_Cache.thy ===== *)
theory RV_Cache
  imports RV_MMU
begin

text \<open>
  The cache model that traces the simulator's memory accesses (\<open>cachesim.cc\<close>,
  \<open>cachesim.h\<close>): a set-associative cache with pseudo-random replacement, and the
  fully-associative cache that overrides two of its methods, both of them in front of an
  optional next level.

  A class with virtual methods is a record of functions; the two classes are its two
  values. A pointer into the tag store is a \<open>tag_ref\<close>: an index of the array, or the key of
  a node of the map. The map of the fully-associative cache is a list of pairs in the
  order of the keys, the order in which \<open>std::advance\<close> counts. A miss handler is the next
  cache of a list. The two levels have no other way to reach one another, so their calls
  are made in the order of the code.
\<close>

section \<open>State\<close>

definition VALID :: uint64 where
  [model_defs]: "VALID = 0x8000000000000000"

definition DIRTY :: uint64 where
  [model_defs]: "DIRTY = 0x4000000000000000"

datatype tag_ref = Way nat | Node uint64

datatype cache_class = Cache_Sim | Fa_Cache_Sim

record cache_sim_t =
  cls :: cache_class
  lfsr :: uint32
  sets :: uint64
  ways :: uint64
  linesz :: uint64
  idx_shift :: nat
  tags :: "uint64 list"
  fa_tags :: "(uint64 \<times> uint64) list"
  read_accesses :: uint64
  read_misses :: uint64
  bytes_read :: uint64
  write_accesses :: uint64
  write_misses :: uint64
  bytes_written :: uint64
  writebacks :: uint64

text \<open>\<open>lfsr_t::next\<close> returns the new value of the register.\<close>

definition lfsr_next :: "uint32 \<Rightarrow> uint32" where
  [model_defs]: "lfsr_next reg = drop_bit 1 reg XOR (- (reg AND 1) AND 0xd0000001)"

text \<open>The loop of \<open>init\<close> that takes the logarithm of the line size.\<close>

function idx_shift_of :: "uint64 \<Rightarrow> nat" where
  "idx_shift_of x = (if 1 < x then Suc (idx_shift_of (drop_bit 1 x)) else 0)"
  by pat_completeness auto

termination idx_shift_of
proof (relation "measure unat")
  fix x :: uint64
  assume "1 < x"
  then have "1 < unat x"
    by (simp add: word_less_nat_alt)
  then show "(drop_bit 1 x, x) \<in> measure unat"
    by (simp add: unat_drop_bit_div)
qed simp

declare idx_shift_of.simps [simp del]

text \<open>A bad configuration prints the usage and exits: \<open>None\<close>.\<close>

definition init :: "cache_class \<Rightarrow> uint64 \<Rightarrow> uint64 \<Rightarrow> uint64 \<Rightarrow> cache_sim_t option" where
  "init k st wy lz =
    (if st = 0 \<or> st AND (st - 1) \<noteq> 0 then None
     else if lz < 8 \<or> lz AND (lz - 1) \<noteq> 0 then None
     else Some \<lparr>cls = k, lfsr = 1, sets = st, ways = wy, linesz = lz, idx_shift = idx_shift_of lz,
       tags = replicate (unat (st * wy)) 0, fa_tags = [],
       read_accesses = 0, read_misses = 0, bytes_read = 0,
       write_accesses = 0, write_misses = 0, bytes_written = 0, writebacks = 0\<rparr>)"

text \<open>\<open>construct\<close>, on the three numbers of the configuration string.\<close>

definition construct :: "uint64 \<Rightarrow> uint64 \<Rightarrow> uint64 \<Rightarrow> cache_sim_t option" where
  "construct st wy lz =
    (if 4 < wy \<and> st = 1 then init Fa_Cache_Sim 1 wy lz else init Cache_Sim st wy lz)"

section \<open>The methods a class overrides\<close>

record vtable =
  check_tag :: "cache_sim_t \<Rightarrow> uint64 \<Rightarrow> tag_ref option"
  victimize :: "cache_sim_t \<Rightarrow> uint64 \<Rightarrow> uint64 \<times> cache_sim_t"

definition set_index :: "cache_sim_t \<Rightarrow> uint64 \<Rightarrow> uint64" where
  "set_index c addr = drop_bit (idx_shift c) addr AND (sets c - 1)"

definition sa_check_tag :: "cache_sim_t \<Rightarrow> uint64 \<Rightarrow> tag_ref option" where
  "sa_check_tag c addr =
    (let idx = set_index c addr; tag = drop_bit (idx_shift c) addr OR VALID
     in map_option Way (find (\<lambda>n. tag = (tags c ! n) AND NOT DIRTY)
          (map (\<lambda>i. unat (idx * ways c) + i) [0..<unat (ways c)])))"

definition sa_victimize :: "cache_sim_t \<Rightarrow> uint64 \<Rightarrow> uint64 \<times> cache_sim_t" where
  "sa_victimize c addr =
    (let idx = set_index c addr;
         l = lfsr_next (lfsr c);
         way = to_u64 l mod ways c;
         n = unat (idx * ways c + way);
         victim = tags c ! n
     in (victim, c\<lparr>lfsr := l, tags := (tags c)[n := drop_bit (idx_shift c) addr OR VALID]\<rparr>))"

definition fa_check_tag :: "cache_sim_t \<Rightarrow> uint64 \<Rightarrow> tag_ref option" where
  "fa_check_tag c addr =
    (let k = drop_bit (idx_shift c) addr
     in if map_of (fa_tags c) k = None then None else Some (Node k))"

text \<open>\<open>tags[k] = v\<close> on a map: the node of the key is overwritten or inserted in order.\<close>

fun map_put :: "uint64 \<Rightarrow> 'a \<Rightarrow> (uint64 \<times> 'a) list \<Rightarrow> (uint64 \<times> 'a) list" where
  "map_put k v [] = [(k, v)]"
| "map_put k v ((j, w) # xs) =
    (if k < j then (k, v) # (j, w) # xs else if k = j then (k, v) # xs else (j, w) # map_put k v xs)"

definition erase_nth :: "nat \<Rightarrow> 'a list \<Rightarrow> 'a list" where
  "erase_nth n xs = take n xs @ drop (Suc n) xs"

definition fa_victimize :: "cache_sim_t \<Rightarrow> uint64 \<Rightarrow> uint64 \<times> cache_sim_t" where
  "fa_victimize c addr =
    (let k = drop_bit (idx_shift c) addr;
         full = of_nat (length (fa_tags c)) = ways c;
         l = (if full then lfsr_next (lfsr c) else lfsr c);
         n = unat (to_u64 l mod ways c);
         old_tag = (if full then snd (fa_tags c ! n) else 0);
         rest = (if full then erase_nth n (fa_tags c) else fa_tags c)
     in (old_tag, c\<lparr>lfsr := l, fa_tags := map_put k (k OR VALID) rest\<rparr>))"

definition cache_sim_vt :: vtable where
  "cache_sim_vt = \<lparr>check_tag = sa_check_tag, victimize = sa_victimize\<rparr>"

definition fa_cache_sim_vt :: vtable where
  "fa_cache_sim_vt = \<lparr>check_tag = fa_check_tag, victimize = fa_victimize\<rparr>"

fun vtable_of :: "cache_class \<Rightarrow> vtable" where
  "vtable_of Cache_Sim = cache_sim_vt"
| "vtable_of Fa_Cache_Sim = fa_cache_sim_vt"

section \<open>Accesses\<close>

text \<open>The tag a reference points to, and \<open>*ref |= DIRTY\<close>.\<close>

fun tag_at :: "cache_sim_t \<Rightarrow> tag_ref \<Rightarrow> uint64" where
  "tag_at c (Way n) = tags c ! n"
| "tag_at c (Node k) = the (map_of (fa_tags c) k)"

fun mark_dirty :: "cache_sim_t \<Rightarrow> tag_ref \<Rightarrow> cache_sim_t" where
  "mark_dirty c (Way n) = c\<lparr>tags := (tags c)[n := tags c ! n OR DIRTY]\<rparr>"
| "mark_dirty c (Node k) =
    c\<lparr>fa_tags := map_put k (the (map_of (fa_tags c) k) OR DIRTY) (fa_tags c)\<rparr>"

definition count_access :: "bool \<Rightarrow> uint64 \<Rightarrow> cache_sim_t \<Rightarrow> cache_sim_t" where
  "count_access store bytes c =
    (if store then c\<lparr>write_accesses := write_accesses c + 1, bytes_written := bytes_written c + bytes\<rparr>
     else c\<lparr>read_accesses := read_accesses c + 1, bytes_read := bytes_read c + bytes\<rparr>)"

definition count_miss :: "bool \<Rightarrow> cache_sim_t \<Rightarrow> cache_sim_t" where
  "count_miss store c =
    (if store then c\<lparr>write_misses := write_misses c + 1\<rparr> else c\<lparr>read_misses := read_misses c + 1\<rparr>)"

text \<open>
  \<open>access\<close> on a chain of caches, each of them the miss handler of the one before it. The
  last one has no miss handler. A null pointer after the refill (\<open>*check_tag(addr)\<close>) would
  be undefined; it is left as a cache that is not marked, and the theorems show that it
  does not happen.
\<close>

function access :: "cache_sim_t list \<Rightarrow> uint64 \<Rightarrow> uint64 \<Rightarrow> bool \<Rightarrow> cache_sim_t list" where
  "access [] addr bytes store = []"
| "access (c # mh) addr bytes store =
    (let vt = vtable_of (cls c);
         c = count_access store bytes c
     in case check_tag vt c addr of
       Some hit_way \<Rightarrow> (if store then mark_dirty c hit_way else c) # mh
     | None \<Rightarrow>
        let c = count_miss store c;
            (victim, c) = victimize vt c addr;
            wb = (victim AND (VALID OR DIRTY) = VALID OR DIRTY);
            mh = (if wb then access mh (push_bit (idx_shift c) (victim AND NOT (VALID OR DIRTY))) (linesz c) True
                  else mh);
            c = (if wb then c\<lparr>writebacks := writebacks c + 1\<rparr> else c);
            mh = access mh (addr AND NOT (linesz c - 1)) (linesz c) False
        in (if store then case check_tag vt c addr of Some r \<Rightarrow> mark_dirty c r | None \<Rightarrow> c else c) # mh)"
  by pat_completeness auto

lemma access_length_dom:
  "access_dom (cs, addr, bytes, store) \<Longrightarrow> length (access cs addr bytes store) = length cs"
proof (induction cs addr bytes store rule: access.pinduct)
  case (1 addr bytes store)
  then show ?case
    by (simp add: access.psimps)
next
  case (2 c mh addr bytes store)
  then show ?case
    by (auto simp: access.psimps Let_def split: option.splits prod.splits)
qed

termination access
proof (relation "measure (\<lambda>(cs, _). length cs)", goal_cases)
  case 1
  then show ?case
    by simp
next
  case 2
  then show ?case
    by simp
next
  case 3
  then show ?case
    by (auto dest!: access_length_dom split: if_splits)
qed

lemma access_length [simp]: "length (access cs addr bytes store) = length cs"
  by (induction cs addr bytes store rule: access.induct)
    (auto simp: access.simps Let_def split: option.splits prod.splits)

declare access.simps(2) [simp del]

text \<open>
  The memory tracers of \<open>cachesim.h\<close>: the instruction cache follows the fetches, the data
  cache the loads and the stores.
\<close>

definition icache_trace :: "cache_sim_t list \<Rightarrow> uint64 \<Rightarrow> uint64 \<Rightarrow> access_type \<Rightarrow> cache_sim_t list" where
  "icache_trace cs addr bytes type = (if type = FETCH then access cs addr bytes False else cs)"

definition dcache_trace :: "cache_sim_t list \<Rightarrow> uint64 \<Rightarrow> uint64 \<Rightarrow> access_type \<Rightarrow> cache_sim_t list" where
  "dcache_trace cs addr bytes type =
    (if type = LOAD \<or> type = STORE then access cs addr bytes (type = STORE) else cs)"

section \<open>The lines a cache holds\<close>

text \<open>
  What a cache promises: a partial map from line numbers (addresses without their offset)
  to the dirty bit. An access either hits, or it makes room for the line: it may give up
  one other line, which is written back exactly when it is dirty, and then reads the line
  from the next level.
\<close>

definition tag_line :: "uint64 \<Rightarrow> uint64" where
  "tag_line t = t AND NOT (VALID OR DIRTY)"

definition line_of :: "cache_sim_t \<Rightarrow> uint64 \<Rightarrow> uint64" where
  "line_of c addr = drop_bit (idx_shift c) addr"

definition sa_held :: "cache_sim_t \<Rightarrow> uint64 \<Rightarrow> uint64 option" where
  "sa_held c l = find (\<lambda>t. t AND VALID \<noteq> 0 \<and> tag_line t = l) (tags c)"

definition dirty_bits :: "(uint64 \<Rightarrow> uint64 option) \<Rightarrow> uint64 \<Rightarrow> bool option" where
  "dirty_bits H l = map_option (\<lambda>t. t AND DIRTY \<noteq> 0) (H l)"

definition lines :: "cache_sim_t \<Rightarrow> uint64 \<Rightarrow> bool option" where
  "lines c = dirty_bits (case cls c of Cache_Sim \<Rightarrow> sa_held c | Fa_Cache_Sim \<Rightarrow> map_of (fa_tags c))"

datatype request = Write_Back uint64 | Refill uint64

inductive cache_step :: "(uint64 \<Rightarrow> bool option) \<Rightarrow> uint64 \<Rightarrow> bool \<Rightarrow> request list
    \<Rightarrow> (uint64 \<Rightarrow> bool option) \<Rightarrow> bool" where
  hit: "L l = Some d \<Longrightarrow> cache_step L l st [] (L(l := Some (d \<or> st)))"
| fill: "L l = None \<Longrightarrow> cache_step L l st [Refill l] (L(l := Some st))"
| evict: "L l = None \<Longrightarrow> L v = Some d \<Longrightarrow>
    cache_step L l st ((if d then [Write_Back v] else []) @ [Refill l]) (L(v := None, l := Some st))"

fun serve :: "nat \<Rightarrow> uint64 \<Rightarrow> request list \<Rightarrow> cache_sim_t list \<Rightarrow> cache_sim_t list" where
  "serve s n [] cs = cs"
| "serve s n (Write_Back v # rs) cs = serve s n rs (access cs (push_bit s v) n True)"
| "serve s n (Refill v # rs) cs = serve s n rs (access cs (push_bit s v) n False)"

definition counted :: "uint64 \<Rightarrow> bool \<Rightarrow> request list \<Rightarrow> cache_sim_t \<Rightarrow> cache_sim_t \<Rightarrow> bool" where
  "counted n st rs c c' \<longleftrightarrow>
     (read_accesses c', bytes_read c', read_misses c') =
       (if st then (read_accesses c, bytes_read c, read_misses c)
        else (read_accesses c + 1, bytes_read c + n, read_misses c + of_bool (rs \<noteq> [])))
   \<and> (write_accesses c', bytes_written c', write_misses c') =
       (if st then (write_accesses c + 1, bytes_written c + n, write_misses c + of_bool (rs \<noteq> []))
        else (write_accesses c, bytes_written c, write_misses c))
   \<and> writebacks c' = writebacks c + of_nat (length rs - 1)"

section \<open>Bits of a tag\<close>

lemma bit_VALID [simp]: "bit VALID n \<longleftrightarrow> n = 63"
proof -
  have "VALID = push_bit 63 1"
    by (simp add: VALID_def)
  then have "bit VALID n \<longleftrightarrow> bit (push_bit 63 (1 :: uint64)) n"
    by (rule arg_cong)
  then show ?thesis
    by (simp only: bit_push_bit_iff bit_1_iff) auto
qed

lemma bit_DIRTY [simp]: "bit DIRTY n \<longleftrightarrow> n = 62"
proof -
  have "DIRTY = push_bit 62 1"
    by (simp add: DIRTY_def)
  then have "bit DIRTY n \<longleftrightarrow> bit (push_bit 62 (1 :: uint64)) n"
    by (rule arg_cong)
  then show ?thesis
    by (simp only: bit_push_bit_iff bit_1_iff) auto
qed

lemma and_single_bit:
  assumes "\<And>n. bit m n \<longleftrightarrow> n = k"
  shows "(t :: uint64) AND m = 0 \<longleftrightarrow> \<not> bit t k" "t AND m = m \<longleftrightarrow> bit t k"
proof -
  have 1: "bit (t AND m) n \<longleftrightarrow> bit t k \<and> n = k" for n
    using assms by (auto simp: bit_and_iff)
  show "t AND m = 0 \<longleftrightarrow> \<not> bit t k"
  proof
    assume "t AND m = 0"
    then show "\<not> bit t k"
      using 1[of k] by simp
  qed (auto intro: bit_word_eqI simp: 1)
  show "t AND m = m \<longleftrightarrow> bit t k"
  proof
    assume "t AND m = m"
    then show "bit t k"
      using 1[of k] assms by simp
  qed (auto intro: bit_word_eqI simp: 1 assms)
qed

lemmas and_VALID = and_single_bit(1)[of VALID 63, OF bit_VALID]
  and and_DIRTY = and_single_bit(1)[of DIRTY 62, OF bit_DIRTY]

lemma and_both: "t AND (VALID OR DIRTY) = VALID OR DIRTY \<longleftrightarrow> bit t 63 \<and> bit t 62"
proof
  assume e: "t AND (VALID OR DIRTY) = VALID OR DIRTY"
  have "bit (t AND (VALID OR DIRTY)) n" if "n \<in> {62, 63}" for n
    using that by (subst e) (auto simp: bit_or_iff)
  from this[of 63] this[of 62] show "bit t 63 \<and> bit t 62"
    by (simp add: bit_and_iff)
qed (intro bit_word_eqI, auto simp: bit_and_iff bit_or_iff)

lemma bit_line_of: "bit (line_of c a) n \<longleftrightarrow> bit a (idx_shift c + n)"
  by (simp add: line_of_def bit_simps)

lemma line_of_high: "3 \<le> idx_shift c \<Longrightarrow> 61 \<le> n \<Longrightarrow> \<not> bit (line_of c a) n"
  by (auto simp: bit_line_of dest: bit_imp_le_length)

lemma bit_tag_line: "bit (tag_line t) n \<longleftrightarrow> bit t n \<and> n < 62"
  by (auto simp: tag_line_def bit_simps dest: bit_imp_le_length)

text \<open>A tag matches a line when it is valid and names the line.\<close>

lemma tag_names_line:
  assumes "\<not> bit l 62" "\<not> bit l 63"
  shows "l OR VALID = t AND NOT DIRTY \<longleftrightarrow> bit t 63 \<and> tag_line t = l" (is "?A \<longleftrightarrow> ?B")
proof
  assume e: ?A
  have b: "bit l n \<or> n = 63 \<longleftrightarrow> bit t n \<and> n \<noteq> 62" if "n < 64" for n
    using arg_cong[OF e, of "\<lambda>x. bit x n"] that by (simp add: bit_simps)
  have "bit (tag_line t) n \<longleftrightarrow> bit l n" if n: "n < 64" for n
  proof (cases "n < 62")
    case False
    then have "n = 62 \<or> n = 63"
      using n by auto
    then show ?thesis
      using assms by (auto simp: bit_tag_line)
  qed (use b[of n] in \<open>auto simp: bit_tag_line\<close>)
  then show ?B
    using b[of 63] by (auto intro: bit_word_eqI)
next
  assume ?B
  then show ?A
    using assms by (intro bit_word_eqI) (auto simp: bit_and_iff bit_or_iff bit_not_iff bit_tag_line less_Suc_eq numeral_eq_Suc)
qed

section \<open>What the two classes share\<close>

text \<open>
  The laws a class has to keep for \<open>access\<close> to be a cache: \<open>ok\<close> is its invariant and
  \<open>held\<close> its tag store as a map from lines to tags.
\<close>

definition same_core :: "cache_sim_t \<Rightarrow> cache_sim_t \<Rightarrow> bool" where
  "same_core c c' \<longleftrightarrow> cls c' = cls c \<and> lfsr c' = lfsr c \<and> sets c' = sets c \<and> ways c' = ways c
     \<and> linesz c' = linesz c \<and> idx_shift c' = idx_shift c \<and> tags c' = tags c \<and> fa_tags c' = fa_tags c"

definition counters :: "cache_sim_t \<Rightarrow> uint64 list" where
  "counters c = [read_accesses c, read_misses c, bytes_read c, write_accesses c, write_misses c,
     bytes_written c, writebacks c]"

definition same_shape :: "cache_sim_t \<Rightarrow> cache_sim_t \<Rightarrow> bool" where
  "same_shape c c' \<longleftrightarrow> cls c' = cls c \<and> sets c' = sets c \<and> ways c' = ways c
     \<and> linesz c' = linesz c \<and> idx_shift c' = idx_shift c \<and> counters c' = counters c"

locale cache_methods =
  fixes vt :: vtable
    and ok :: "cache_sim_t \<Rightarrow> bool"
    and held :: "cache_sim_t \<Rightarrow> uint64 \<Rightarrow> uint64 option"
  assumes core: "same_core c c' \<Longrightarrow> ok c' = ok c \<and> held c' = held c
      \<and> check_tag vt c' a = check_tag vt c a"
    and miss: "ok c \<Longrightarrow> check_tag vt c a = None \<longleftrightarrow> held c (line_of c a) = None"
    and hit: "ok c \<Longrightarrow> check_tag vt c a = Some r \<Longrightarrow> held c (line_of c a) = Some (tag_at c r)"
    and mark: "ok c \<Longrightarrow> check_tag vt c a = Some r \<Longrightarrow>
      ok (mark_dirty c r) \<and> held (mark_dirty c r) = (held c)(line_of c a \<mapsto> tag_at c r OR DIRTY)"
    and victim: "ok c \<Longrightarrow> check_tag vt c a = None \<Longrightarrow> victimize vt c a = (v, c') \<Longrightarrow>
      ok c' \<and> same_shape c c' \<and>
      (if v AND VALID = 0 then held c' = (held c)(line_of c a \<mapsto> line_of c a OR VALID)
       else held c (tag_line v) = Some v
         \<and> held c' = (held c)(tag_line v := None, line_of c a \<mapsto> line_of c a OR VALID))"
    and geometry: "ok c \<Longrightarrow> 3 \<le> idx_shift c \<and> idx_shift c < 64 \<and> linesz c = 2 ^ idx_shift c"
begin

text \<open>The line that is filled has a clean tag, and a mark makes it dirty.\<close>

lemma fill_bits:
  assumes "ok c"
  shows "dirty_bits (H(line_of c a \<mapsto> line_of c a OR VALID)) = (dirty_bits H)(line_of c a \<mapsto> False)"
  using line_of_high[of c 62 a] geometry[OF assms]
  by (auto simp: dirty_bits_def and_DIRTY bit_simps)

lemma dirty_bits_upd: "dirty_bits (H(l := None)) = (dirty_bits H)(l := None)"
  by (auto simp: dirty_bits_def)

lemma mark_bits: "dirty_bits (H(l \<mapsto> t OR DIRTY)) = (dirty_bits H)(l \<mapsto> True)"
  by (auto simp: dirty_bits_def and_DIRTY bit_simps)

lemma line_start:
  assumes "ok c"
  shows "a AND NOT (linesz c - 1) = push_bit (idx_shift c) (line_of c a)"
proof -
  have "linesz c - 1 = mask (idx_shift c)"
    using geometry[OF assms] by (simp add: mask_eq_exp_minus_1)
  then show ?thesis
    using geometry[OF assms]
    by (intro bit_word_eqI) (auto simp: bit_and_iff bit_not_iff bit_mask_iff bit_push_bit_iff bit_line_of)
qed

lemma access_step:
  assumes c: "ok c" "vtable_of (cls c) = vt"
  shows "\<exists>c' rs. access (c # mh) a n st = c' # serve (idx_shift c) (linesz c) rs mh
    \<and> ok c' \<and> cls c' = cls c \<and> idx_shift c' = idx_shift c \<and> linesz c' = linesz c \<and> counted n st rs c c'
    \<and> cache_step (dirty_bits (held c)) (line_of c a) st rs (dirty_bits (held c'))"
proof -
  define c1 where "c1 = count_access st n c"
  have s1: "same_core c c1"
    by (simp add: c1_def count_access_def same_core_def)
  have k1: "ok c1" "held c1 = held c" "line_of c1 a = line_of c a" "cls c1 = cls c"
      "idx_shift c1 = idx_shift c" "linesz c1 = linesz c"
    using core[OF s1] c s1 by (simp_all add: same_core_def line_of_def)
  show ?thesis
  proof (cases "check_tag vt c1 a")
    case (Some r)
    note h = hit[OF k1(1) Some] and m = mark[OF k1(1) Some]
    define c' where "c' = (if st then mark_dirty c1 r else c1)"
    have e: "access (c # mh) a n st = c' # mh"
      using Some c by (simp add: access.simps(2) c1_def c'_def Let_def)
    have sh: "same_shape c1 (mark_dirty c1 r)"
      by (cases r) (simp_all add: same_shape_def counters_def)
    have "counted n st [] c c'" "cls c' = cls c" "idx_shift c' = idx_shift c" "linesz c' = linesz c"
      using sh by (auto simp: c'_def c1_def counted_def count_access_def same_shape_def counters_def split: if_splits)
    moreover have "cache_step (dirty_bits (held c)) (line_of c a) st [] (dirty_bits (held c'))"
    proof -
      define d where "d \<longleftrightarrow> tag_at c1 r AND DIRTY \<noteq> 0"
      have d: "dirty_bits (held c) (line_of c a) = Some d"
        using h k1 by (simp add: dirty_bits_def d_def)
      have "dirty_bits (held c') = (dirty_bits (held c))(line_of c a := Some (d \<or> st))"
        using m d k1 by (auto simp: c'_def mark_bits)
      then show ?thesis
        using cache_step.hit[where L = "dirty_bits (held c)", OF d, of st] by simp
    qed
    moreover have "ok c'"
      using m k1 by (simp add: c'_def)
    ultimately show ?thesis
      using e by (intro exI[of _ c'] exI[of _ "[]"]) simp
  next
    case None
    define c2 where "c2 = count_miss st c1"
    have s2: "same_core c1 c2"
      by (simp add: c2_def count_miss_def same_core_def)
    have k2: "ok c2" "held c2 = held c" "line_of c2 a = line_of c a" "cls c2 = cls c"
      "idx_shift c2 = idx_shift c" "linesz c2 = linesz c" "check_tag vt c2 a = None"
      using core[OF s2] k1 s2 None by (simp_all add: same_core_def line_of_def)
    obtain v c3 where v: "victimize vt c2 a = (v, c3)"
      by fastforce
    note V = victim[OF k2(1) k2(7) v]
    define L where "L = dirty_bits (held c)"
    let ?l = "line_of c a"
    define wb where "wb \<longleftrightarrow> v AND (VALID OR DIRTY) = VALID OR DIRTY"
    define c4 where "c4 = (if wb then c3\<lparr>writebacks := writebacks c3 + 1\<rparr> else c3)"
    define rs where "rs = (if wb then [Write_Back (tag_line v)] else []) @ [Refill ?l]"
    have s4: "same_core c3 c4"
      by (simp add: c4_def same_core_def)
    have sh: "same_shape c2 c3"
      using V by simp
    have k4: "ok c4" "held c4 = held c3" "line_of c4 a = ?l"
      using core[OF s4] V s4 sh k2 by (simp_all add: same_core_def same_shape_def line_of_def)
    have tag: "held c4 ?l = Some (?l OR VALID)"
      using V k4 k2 by (auto split: if_splits)
    then obtain r where r: "check_tag vt c4 a = Some r"
      using miss[OF k4(1), of a] k4 by fastforce
    have tr: "tag_at c4 r = ?l OR VALID"
      using hit[OF k4(1) r] tag k4 by simp
    define c' where "c' = (if st then mark_dirty c4 r else c4)"
    have "access (c # mh) a n st = c' # serve (idx_shift c) (linesz c) rs mh"
      using None c v sh s4 k1 k2 r line_start[OF k2(1), of a]
      by (auto simp: access.simps(2) Let_def c1_def[symmetric] c2_def[symmetric] c'_def rs_def wb_def
          c4_def tag_line_def same_shape_def same_core_def)
    moreover have sm: "same_shape c4 (mark_dirty c4 r)"
      by (cases r) (simp_all add: same_shape_def counters_def)
    have "cls c' = cls c" "idx_shift c' = idx_shift c" "linesz c' = linesz c" "counted n st rs c c'"
      using sm sh s4 k2
      by (auto simp: c'_def c4_def c2_def c1_def counted_def rs_def count_access_def count_miss_def
          same_shape_def same_core_def counters_def split: if_splits)
    moreover have "ok c'"
      using mark[OF k4(1) r] k4 by (simp add: c'_def)
    moreover have "cache_step L ?l st rs (dirty_bits (held c'))"
    proof -
      have none: "L ?l = None"
        using miss[OF k2(1), of a] k2 by (simp add: L_def dirty_bits_def)
      have new: "dirty_bits (held c') = (dirty_bits (held c3))(?l \<mapsto> st)"
        if "dirty_bits (held c3) ?l = Some False"
        using mark[OF k4(1) r] k4 that by (cases st) (auto simp: c'_def mark_bits)
      show ?thesis
      proof (cases "v AND VALID = 0")
        case True
        then have "dirty_bits (held c3) = L(?l \<mapsto> False)"
          using V k2 fill_bits[OF c(1)] by (simp add: L_def)
        then have "dirty_bits (held c') = L(?l \<mapsto> st)"
          using new by simp
        moreover have "rs = [Refill ?l]"
          using True by (simp add: rs_def wb_def and_both and_VALID)
        ultimately show ?thesis
          using cache_step.fill[where L = L, OF none, of st] by simp
      next
        case False
        have h: "L (tag_line v) = Some (v AND DIRTY \<noteq> 0)"
          using V k2 False by (simp add: L_def dirty_bits_def)
        have "dirty_bits (held c3) = L(tag_line v := None, ?l \<mapsto> False)"
          using V k2 False fill_bits[OF c(1), of "(held c)(tag_line v := None)"]
          by (simp add: L_def dirty_bits_upd)
        then have "dirty_bits (held c') = L(tag_line v := None, ?l \<mapsto> st)"
          using new by simp
        moreover have "wb \<longleftrightarrow> v AND DIRTY \<noteq> 0"
          using False by (simp add: wb_def and_both and_VALID and_DIRTY)
        ultimately show ?thesis
          using cache_step.evict[where L = L, OF none h, of st] by (simp add: rs_def)
      qed
    qed
    ultimately show ?thesis
      by (intro exI[of _ c'] exI[of _ rs]) (simp add: L_def)
  qed
qed

end

section \<open>The set-associative cache\<close>

definition valid_at :: "cache_sim_t \<Rightarrow> nat \<Rightarrow> bool" where
  "valid_at c n \<longleftrightarrow> n < length (tags c) \<and> bit (tags c ! n) 63"

definition sa_ok :: "cache_sim_t \<Rightarrow> bool" where
  "sa_ok c \<longleftrightarrow> cls c = Cache_Sim \<and> sets c \<noteq> 0
     \<and> 3 \<le> idx_shift c \<and> idx_shift c < 64 \<and> linesz c = 2 ^ idx_shift c
     \<and> ways c \<noteq> 0 \<and> unat (sets c) * unat (ways c) < 2 ^ 64
     \<and> length (tags c) = unat (sets c) * unat (ways c)
     \<and> (\<forall>n. valid_at c n \<longrightarrow> n div unat (ways c) = unat (tag_line (tags c ! n) AND (sets c - 1)))
     \<and> (\<forall>m n. valid_at c m \<longrightarrow> valid_at c n \<longrightarrow> tag_line (tags c ! m) = tag_line (tags c ! n) \<longrightarrow> m = n)"

lemma set_index_less:
  assumes "sets c \<noteq> 0"
  shows "unat (set_index c a) < unat (sets c)"
proof -
  have "set_index c a \<le> sets c - 1"
    by (simp add: set_index_def word_and_le2 word_and_le1)
  then show ?thesis
    using assms unat_gt_0[of "sets c"] by (simp add: word_le_nat_alt unat_minus_one)
qed

lemma set_base:
  assumes "sa_ok c"
  shows "unat (set_index c a * ways c) = unat (set_index c a) * unat (ways c)"
    "unat (set_index c a) * unat (ways c) + unat (ways c) \<le> length (tags c)"
proof -
  have "(unat (set_index c a) + 1) * unat (ways c) \<le> unat (sets c) * unat (ways c)"
    using set_index_less[of c a] assms by (intro mult_le_mono1) (simp add: sa_ok_def)
  then show l: "unat (set_index c a) * unat (ways c) + unat (ways c) \<le> length (tags c)"
    using assms by (simp add: sa_ok_def)
  then show "unat (set_index c a * ways c) = unat (set_index c a) * unat (ways c)"
    using assms by (intro unat_mult_no_wrap) (simp add: sa_ok_def)
qed

lemma way_div:
  assumes "0 < w"
  shows "n \<in> set (map ((+) (k * w)) [0..<w]) \<longleftrightarrow> n div w = k"
proof
  assume "n div w = k"
  then have "n = k * w + n mod w" "n mod w < w"
    using assms by auto
  then show "n \<in> set (map ((+) (k * w)) [0..<w])"
    by auto
qed (auto intro!: div_nat_eqI simp: mult.commute)

lemma sa_check_Some:
  assumes c: "sa_ok c"
  shows "sa_check_tag c a = Some r \<longleftrightarrow> (\<exists>n. r = Way n \<and> valid_at c n \<and> tag_line (tags c ! n) = line_of c a)"
proof -
  let ?w = "unat (ways c)" and ?k = "unat (set_index c a)"
  let ?P = "\<lambda>n. line_of c a OR VALID = tags c ! n AND NOT DIRTY"
  let ?xs = "map ((+) (?k * ?w)) [0..<?w]"
  have s: "3 \<le> idx_shift c" and w: "0 < ?w"
    using c by (auto simp: sa_ok_def unat_gt_0)
  have e: "sa_check_tag c a = map_option Way (find ?P ?xs)"
    by (simp add: sa_check_tag_def Let_def set_base[OF c] line_of_def)
  have P: "?P n \<longleftrightarrow> bit (tags c ! n) 63 \<and> tag_line (tags c ! n) = line_of c a" for n
    using s by (intro tag_names_line line_of_high) simp_all
  have xs: "n \<in> set ?xs \<Longrightarrow> n < length (tags c)" for n
    using set_base[OF c, of a] by auto
  have home: "n \<in> set ?xs" if "valid_at c n" "tag_line (tags c ! n) = line_of c a" for n
    using c that w unfolding way_div[OF w] by (auto simp: sa_ok_def set_index_def line_of_def)
  show ?thesis
  proof
    assume "sa_check_tag c a = Some r"
    then obtain n where "find ?P ?xs = Some n" "r = Way n"
      unfolding e by auto
    then show "\<exists>n. r = Way n \<and> valid_at c n \<and> tag_line (tags c ! n) = line_of c a"
      using P xs by (force simp: find_Some_iff valid_at_def)
  next
    assume "\<exists>n. r = Way n \<and> valid_at c n \<and> tag_line (tags c ! n) = line_of c a"
    then obtain n where n: "r = Way n" "valid_at c n" "tag_line (tags c ! n) = line_of c a"
      by blast
    then obtain m where m: "find ?P ?xs = Some m"
      using home[of n] P[of n] by (cases "find ?P ?xs") (auto simp: find_None_iff valid_at_def)
    then have "m \<in> set ?xs" "?P m"
      by (auto simp: find_Some_iff)
    then have "m = n"
      using c n xs P unfolding sa_ok_def by (metis valid_at_def)
    then show "sa_check_tag c a = Some r"
      using m n e by simp
  qed
qed

lemma sa_held_Some:
  assumes "sa_ok c"
  shows "sa_held c l = Some t \<longleftrightarrow> (\<exists>n. valid_at c n \<and> tags c ! n = t \<and> tag_line t = l)" (is "_ \<longleftrightarrow> ?R")
proof
  assume "sa_held c l = Some t"
  then show ?R
    by (auto simp: sa_held_def find_Some_iff valid_at_def and_VALID)
next
  assume ?R
  then obtain n where n: "valid_at c n" "tags c ! n = t" "tag_line t = l"
    by blast
  then obtain u where u: "sa_held c l = Some u"
    by (cases "sa_held c l") (auto simp: sa_held_def find_None_iff valid_at_def and_VALID in_set_conv_nth)
  then obtain m where "valid_at c m" "tags c ! m = u" "tag_line u = l"
    by (auto simp: sa_held_def find_Some_iff valid_at_def and_VALID)
  then have "m = n"
    using assms n unfolding sa_ok_def by metis
  then show "sa_held c l = Some t"
    using u n \<open>tags c ! m = u\<close> by simp
qed

text \<open>Writing a valid tag into a slot of its own set, when no other slot holds its line.\<close>

lemma sa_update:
  fixes c :: cache_sim_t and g :: uint32
  assumes c: "sa_ok c" and n: "n < length (tags c)" and x: "bit x 63"
    and home: "n div unat (ways c) = unat (tag_line x AND (sets c - 1))"
    and new: "\<And>m. valid_at c m \<Longrightarrow> tag_line (tags c ! m) = tag_line x \<Longrightarrow> m = n"
  defines "c' \<equiv> c\<lparr>lfsr := g, tags := (tags c)[n := x]\<rparr>"
  shows "sa_ok c'"
    and "sa_held c' = (if valid_at c n then (sa_held c)(tag_line (tags c ! n) := None) else sa_held c)
           (tag_line x \<mapsto> x)"
proof -
  have v: "valid_at c' m \<longleftrightarrow> m = n \<or> valid_at c m" for m
    using n x by (auto simp: valid_at_def c'_def nth_list_update)
  have t: "tags c' ! m = (if m = n then x else tags c ! m)" for m
    using n by (simp add: c'_def)
  show ok: "sa_ok c'"
    using c home unfolding sa_ok_def v t by (auto simp: c'_def dest: new new[OF _ sym])
  have "sa_held c' l = Some u \<longleftrightarrow>
      ((if valid_at c n then (sa_held c)(tag_line (tags c ! n) := None) else sa_held c)(tag_line x \<mapsto> x)) l = Some u"
    for l u
    using c unfolding sa_held_Some[OF ok] v t
    by (auto simp: sa_held_Some[OF c] sa_ok_def dest: new split: if_splits)
  then show "sa_held c' = (if valid_at c n then (sa_held c)(tag_line (tags c ! n) := None) else sa_held c)
      (tag_line x \<mapsto> x)"
    by (intro ext option.expand) (metis not_Some_eq option.sel option.distinct(1))+
qed

lemma tag_line_or: "tag_line (t OR DIRTY) = tag_line t" "3 \<le> idx_shift c \<Longrightarrow> tag_line (line_of c a OR VALID) = line_of c a"
proof -
  show "tag_line (t OR DIRTY) = tag_line t"
    by (intro bit_word_eqI) (auto simp: bit_tag_line bit_or_iff)
  show "tag_line (line_of c a OR VALID) = line_of c a" if s: "3 \<le> idx_shift c"
  proof (intro bit_word_eqI)
    fix n
    show "bit (tag_line (line_of c a OR VALID)) n \<longleftrightarrow> bit (line_of c a) n"
      using line_of_high[OF s, of n a] by (cases "61 \<le> n") (auto simp: bit_tag_line bit_or_iff)
  qed
qed

lemma sa_core: "same_core c c' \<Longrightarrow> sa_ok c' = sa_ok c \<and> sa_held c' = sa_held c \<and> sa_check_tag c' a = sa_check_tag c a"
  by (auto simp: same_core_def sa_ok_def sa_held_def sa_check_tag_def valid_at_def set_index_def fun_eq_iff)

lemma sa_miss:
  assumes "sa_ok c"
  shows "sa_check_tag c a = None \<longleftrightarrow> sa_held c (line_of c a) = None"
  using sa_check_Some[OF assms, of a] sa_held_Some[OF assms, of "line_of c a"]
  by (metis not_Some_eq)

lemma sa_hit: "sa_ok c \<Longrightarrow> sa_check_tag c a = Some r \<Longrightarrow> sa_held c (line_of c a) = Some (tag_at c r)"
  by (auto simp: sa_check_Some sa_held_Some)

lemma sa_mark:
  assumes c: "sa_ok c" and r: "sa_check_tag c a = Some r"
  shows "sa_ok (mark_dirty c r) \<and> sa_held (mark_dirty c r) = (sa_held c)(line_of c a \<mapsto> tag_at c r OR DIRTY)"
proof -
  obtain n where n: "r = Way n" "valid_at c n" "tag_line (tags c ! n) = line_of c a"
    using r c by (auto simp: sa_check_Some)
  have e: "mark_dirty c r = c\<lparr>lfsr := lfsr c, tags := (tags c)[n := tags c ! n OR DIRTY]\<rparr>"
    using n by simp
  have "n < length (tags c)" "bit (tags c ! n OR DIRTY) 63"
    "n div unat (ways c) = unat (tag_line (tags c ! n OR DIRTY) AND (sets c - 1))"
    "\<And>m. valid_at c m \<Longrightarrow> tag_line (tags c ! m) = tag_line (tags c ! n OR DIRTY) \<Longrightarrow> m = n"
    using n c by (auto simp: valid_at_def bit_or_iff tag_line_or sa_ok_def)
  from sa_update[OF c this, of "lfsr c"] show ?thesis
    unfolding e using n by (simp add: tag_line_or)
qed

lemma sa_victim:
  assumes c: "sa_ok c" and a: "sa_check_tag c a = None" and v: "sa_victimize c a = (v, c')"
  shows "sa_ok c' \<and> same_shape c c' \<and>
      (if v AND VALID = 0 then sa_held c' = (sa_held c)(line_of c a \<mapsto> line_of c a OR VALID)
       else sa_held c (tag_line v) = Some v
         \<and> sa_held c' = (sa_held c)(tag_line v := None, line_of c a \<mapsto> line_of c a OR VALID))"
proof -
  define g way n where "g = lfsr_next (lfsr c)" and "way = to_u64 g mod ways c"
    and "n = unat (set_index c a * ways c + way)"
  let ?x = "line_of c a OR VALID" and ?w = "unat (ways c)"
  have c': "c' = c\<lparr>lfsr := g, tags := (tags c)[n := ?x]\<rparr>" and vt: "v = tags c ! n"
    using v by (simp_all add: sa_victimize_def Let_def g_def way_def n_def line_of_def)
  have w: "unat way < ?w"
    using c by (simp add: way_def sa_ok_def unat_mod unat_gt_0)
  have n: "n = unat (set_index c a) * ?w + unat way"
    unfolding n_def using set_base[OF c, of a] w c
    by (subst unat_add_no_wrap) (simp_all add: sa_ok_def)
  have s: "3 \<le> idx_shift c"
    using c by (simp add: sa_ok_def)
  have len: "n < length (tags c)"
    using set_base(2)[OF c, of a] w n by simp
  have x: "bit ?x 63" and tx: "tag_line ?x = line_of c a"
    using s by (simp_all add: bit_or_iff tag_line_or)
  have home: "n div ?w = unat (tag_line ?x AND (sets c - 1))"
    using n w unfolding tx by (simp add: set_index_def line_of_def)
  have no: "\<not> (valid_at c m \<and> tag_line (tags c ! m) = line_of c a)" for m
    using a sa_check_Some[OF c, of a "Way m"] by auto
  note u = sa_update[OF c len x home, of g, folded c', unfolded tx]
  have "v AND VALID = 0 \<longleftrightarrow> \<not> valid_at c n"
    using len by (simp add: vt and_VALID valid_at_def)
  moreover have "valid_at c n \<Longrightarrow> sa_held c (tag_line v) = Some v"
    by (auto simp: sa_held_Some[OF c] vt)
  moreover have "same_shape c c'"
    by (simp add: c' same_shape_def counters_def)
  ultimately show ?thesis
    using u no vt by auto
qed

lemma sa_geometry: "sa_ok c \<Longrightarrow> 3 \<le> idx_shift c \<and> idx_shift c < 64 \<and> linesz c = 2 ^ idx_shift c"
  by (simp add: sa_ok_def)

lemma cache_sim_vt_simps [simp]:
  "check_tag cache_sim_vt = sa_check_tag" "victimize cache_sim_vt = sa_victimize"
  by (simp_all add: cache_sim_vt_def)

interpretation sa: cache_methods cache_sim_vt sa_ok sa_held
  by (unfold_locales; (unfold cache_sim_vt_simps)?; fact sa_core sa_miss sa_hit sa_mark sa_victim sa_geometry)

section \<open>The fully-associative cache\<close>

definition fa_ok :: "cache_sim_t \<Rightarrow> bool" where
  "fa_ok c \<longleftrightarrow> cls c = Fa_Cache_Sim
     \<and> 3 \<le> idx_shift c \<and> idx_shift c < 64 \<and> linesz c = 2 ^ idx_shift c
     \<and> ways c \<noteq> 0 \<and> length (fa_tags c) \<le> unat (ways c)
     \<and> sorted_wrt (<) (map fst (fa_tags c))
     \<and> (\<forall>(k, v) \<in> set (fa_tags c). bit v 63 \<and> tag_line v = k)"

definition fa_held :: "cache_sim_t \<Rightarrow> uint64 \<Rightarrow> uint64 option" where
  "fa_held c = map_of (fa_tags c)"

lemma set_map_put:
  "sorted_wrt (<) (map fst xs) \<Longrightarrow> set (map_put k v xs) = insert (k, v) {p \<in> set xs. fst p \<noteq> k}"
  by (induction xs rule: map_put.induct) auto

lemma sorted_map_put: "sorted_wrt (<) (map fst xs) \<Longrightarrow> sorted_wrt (<) (map fst (map_put k v xs))"
  by (induction k v xs rule: map_put.induct) (force simp: set_map_put)+

lemma map_of_put: "sorted_wrt (<) (map fst xs) \<Longrightarrow> map_of (map_put k v xs) = (map_of xs)(k \<mapsto> v)"
  by (induction k v xs rule: map_put.induct) (auto simp: fun_eq_iff)

lemma length_map_put:
  "sorted_wrt (<) (map fst xs) \<Longrightarrow>
    length (map_put k v xs) = (if map_of xs k = None then Suc (length xs) else length xs)"
  by (induction k v xs rule: map_put.induct) (auto simp: map_of_eq_None_iff)

lemma erase_nth_facts:
  assumes s: "sorted_wrt (<) (map fst (xs :: (uint64 \<times> uint64) list))" and n: "n < length xs"
  shows "sorted_wrt (<) (map fst (erase_nth n xs))"
    and "map_of (erase_nth n xs) = (map_of xs)(fst (xs ! n) := None)"
    and "length (erase_nth n xs) = length xs - 1" "set (erase_nth n xs) \<subseteq> set xs"
    and "map_of xs (fst (xs ! n)) = Some (snd (xs ! n))"
proof -
  define ys z zs where "ys = take n xs" and "z = xs ! n" and "zs = drop (Suc n) xs"
  have x: "xs = ys @ z # zs" and e: "erase_nth n xs = ys @ zs"
    using id_take_nth_drop[OF n] by (simp_all add: ys_def z_def zs_def erase_nth_def)
  have o: "sorted_wrt (<) (map fst (ys @ z # zs))"
    using s x by simp
  then have d: "fst z \<notin> fst ` set ys" "fst z \<notin> fst ` set zs"
    by (force simp: sorted_wrt_append)+
  then have m: "map_of ys (fst z) = None" "map_of zs (fst z) = None"
    by (simp_all add: map_of_eq_None_iff)
  show "sorted_wrt (<) (map fst (erase_nth n xs))"
    using o unfolding e by (auto simp: sorted_wrt_append)
  show "map_of (erase_nth n xs) = (map_of xs)(fst (xs ! n) := None)"
    unfolding e z_def[symmetric] unfolding x using m
    by (auto simp: fun_eq_iff map_add_def split: option.splits)
  show "length (erase_nth n xs) = length xs - 1" "set (erase_nth n xs) \<subseteq> set xs"
    unfolding e by (auto simp: x)
  show "map_of xs (fst (xs ! n)) = Some (snd (xs ! n))"
    unfolding z_def[symmetric] unfolding x using m
    by (auto simp: map_add_def)
qed

lemma fa_core: "same_core c c' \<Longrightarrow> fa_ok c' = fa_ok c \<and> fa_held c' = fa_held c \<and> fa_check_tag c' a = fa_check_tag c a"
  by (simp add: same_core_def fa_ok_def fa_held_def fa_check_tag_def)

lemma fa_miss: "fa_ok c \<Longrightarrow> fa_check_tag c a = None \<longleftrightarrow> fa_held c (line_of c a) = None"
  by (simp add: fa_check_tag_def fa_held_def line_of_def Let_def)

lemma fa_hit: "fa_ok c \<Longrightarrow> fa_check_tag c a = Some r \<Longrightarrow> fa_held c (line_of c a) = Some (tag_at c r)"
  by (auto simp: fa_check_tag_def fa_held_def line_of_def Let_def split: if_splits)

lemma fa_geometry: "fa_ok c \<Longrightarrow> 3 \<le> idx_shift c \<and> idx_shift c < 64 \<and> linesz c = 2 ^ idx_shift c"
  by (simp add: fa_ok_def)

text \<open>A tag put into the map under its own line, with room for it.\<close>

lemma fa_update:
  fixes c :: cache_sim_t and g :: uint32
  assumes c: "fa_ok c" and ts: "sorted_wrt (<) (map fst ts)" "set ts \<subseteq> set (fa_tags c)"
    and room: "map_of ts k = None \<Longrightarrow> length ts < unat (ways c)" "length ts \<le> unat (ways c)"
    and x: "bit x 63" "tag_line x = k"
  shows "fa_ok (c\<lparr>lfsr := g, fa_tags := map_put k x ts\<rparr>)"
    "fa_held (c\<lparr>lfsr := g, fa_tags := map_put k x ts\<rparr>) = (map_of ts)(k \<mapsto> x)"
  using c ts room x
  by (auto simp: fa_ok_def fa_held_def map_of_put sorted_map_put length_map_put set_map_put split: prod.splits)

lemma fa_mark:
  assumes c: "fa_ok c" and r: "fa_check_tag c a = Some r"
  shows "fa_ok (mark_dirty c r) \<and> fa_held (mark_dirty c r) = (fa_held c)(line_of c a \<mapsto> tag_at c r OR DIRTY)"
proof -
  let ?l = "line_of c a"
  obtain t where t: "map_of (fa_tags c) ?l = Some t" and r': "r = Node ?l"
    using r by (auto simp: fa_check_tag_def line_of_def Let_def split: if_splits)
  then have "bit t 63" "tag_line t = ?l"
    using c by (auto simp: fa_ok_def dest!: map_of_SomeD)
  then have x: "bit (t OR DIRTY) 63" "tag_line (t OR DIRTY) = ?l"
    by (simp_all add: bit_or_iff tag_line_or)
  have e: "mark_dirty c r = c\<lparr>lfsr := lfsr c, fa_tags := map_put ?l (t OR DIRTY) (fa_tags c)\<rparr>"
    using t r' by simp
  show ?thesis
    unfolding e using fa_update[OF c _ order_refl _ _ x, of "lfsr c"] c t r'
    by (simp add: fa_ok_def fa_held_def)
qed

lemma fa_victim:
  assumes c: "fa_ok c" and a: "fa_check_tag c a = None" and v: "fa_victimize c a = (v, c')"
  shows "fa_ok c' \<and> same_shape c c' \<and>
      (if v AND VALID = 0 then fa_held c' = (fa_held c)(line_of c a \<mapsto> line_of c a OR VALID)
       else fa_held c (tag_line v) = Some v
         \<and> fa_held c' = (fa_held c)(tag_line v := None, line_of c a \<mapsto> line_of c a OR VALID))"
proof -
  let ?l = "line_of c a" and ?ts = "fa_tags c"
  let ?x = "?l OR VALID"
  have ok: "3 \<le> idx_shift c" "sorted_wrt (<) (map fst ?ts)" "ways c \<noteq> 0" "length ?ts \<le> unat (ways c)"
    using c by (simp_all add: fa_ok_def)
  have x: "bit ?x 63" "tag_line ?x = ?l"
    using ok by (simp_all add: bit_or_iff tag_line_or)
  have len: "of_nat (length ?ts) = ways c \<longleftrightarrow> length ?ts = unat (ways c)"
    using ok(4) unat_lt[of "ways c"]
    by (auto simp: unsigned_of_nat take_bit_nat_eq_self word_unat_eq_iff)
  show ?thesis
  proof (cases "length ?ts = unat (ways c)")
    case True
    define g n where "g = lfsr_next (lfsr c)" and "n = unat (to_u64 g mod ways c)"
    have n: "n < length ?ts"
      using ok True by (simp add: n_def unat_mod unat_gt_0)
    note E = erase_nth_facts[OF ok(2) n]
    have c': "c' = c\<lparr>lfsr := g, fa_tags := map_put ?l ?x (erase_nth n ?ts)\<rparr>" and vt: "v = snd (?ts ! n)"
      using v len[THEN iffD2, OF True] by (simp_all add: fa_victimize_def Let_def g_def n_def line_of_def)
    have t: "bit v 63" "tag_line v = fst (?ts ! n)"
      using c n vt nth_mem[OF n] by (cases "?ts ! n"; fastforce simp: fa_ok_def)+
    have room: "length (erase_nth n ?ts) < unat (ways c)"
      using E(3) n True by simp
    show ?thesis
      unfolding c' using fa_update[OF c E(1) E(4) room less_imp_le[OF room] x, of g] E(2,5) t vt
      by (simp add: and_VALID fa_held_def same_shape_def counters_def)
  next
    case False
    have c': "c' = c\<lparr>lfsr := lfsr c, fa_tags := map_put ?l ?x ?ts\<rparr>" and vt: "v = 0"
      using v False by (simp_all add: fa_victimize_def Let_def len line_of_def)
    show ?thesis
      unfolding c' using fa_update[OF c ok(2) order_refl _ ok(4) x, of "lfsr c"] ok False vt
      by (simp add: fa_held_def same_shape_def counters_def)
  qed
qed

lemma fa_cache_sim_vt_simps [simp]:
  "check_tag fa_cache_sim_vt = fa_check_tag" "victimize fa_cache_sim_vt = fa_victimize"
  by (simp_all add: fa_cache_sim_vt_def)

interpretation fa: cache_methods fa_cache_sim_vt fa_ok fa_held
  by (unfold_locales; (unfold fa_cache_sim_vt_simps)?; fact fa_core fa_miss fa_hit fa_mark fa_victim fa_geometry)

section \<open>Chains of caches\<close>

text \<open>The caches \<open>construct\<close> builds, chained, and every state accesses lead to.\<close>

definition new_cache :: "cache_sim_t \<Rightarrow> bool" where
  "new_cache c \<longleftrightarrow> (\<exists>st wy lz. construct st wy lz = Some c \<and> wy \<noteq> 0 \<and> unat st * unat wy < 2 ^ 64)"

lemma new_cacheI:
  "construct st wy lz = Some c \<Longrightarrow> wy \<noteq> 0 \<Longrightarrow> unat st * unat wy < 2 ^ 64 \<Longrightarrow> new_cache c"
  unfolding new_cache_def by blast

inductive reachable_caches :: "cache_sim_t list \<Rightarrow> bool" where
  start: "\<forall>c \<in> set cs. new_cache c \<Longrightarrow> reachable_caches cs"
| access: "reachable_caches cs \<Longrightarrow> reachable_caches (access cs a n st)"

definition cache_ok :: "cache_sim_t \<Rightarrow> bool" where
  "cache_ok c \<longleftrightarrow> (case cls c of Cache_Sim \<Rightarrow> sa_ok c | Fa_Cache_Sim \<Rightarrow> fa_ok c)"

lemma unat_power_64: "m < 64 \<Longrightarrow> unat ((2::uint64) ^ m) = 2 ^ m"
  using unat_push_bit_mod[of m "1 :: uint64"] power_strict_increasing[of m 64 "2 :: nat"]
  by (simp add: push_bit_eq_mult)

lemma idx_shift_of_power: "n < 64 \<Longrightarrow> idx_shift_of (2 ^ n) = n"
proof (induction n)
  case (Suc n)
  let ?x = "(2::uint64) ^ Suc n"
  have x: "unat ?x = 2 ^ Suc n" "unat ((2::uint64) ^ n) = 2 ^ n"
    by (rule unat_power_64, use Suc.prems in simp)+
  have "1 < ?x"
    using one_less_power[of "2 :: nat" "Suc n"] unfolding word_less_nat_alt x by (simp del: power_Suc)
  moreover have "drop_bit 1 ?x = 2 ^ n"
    unfolding word_unat_eq_iff unat_drop_bit_div x by simp
  ultimately show ?case
    using Suc by (subst idx_shift_of.simps) simp
qed (simp add: idx_shift_of.simps)

lemma power_of_two_nat: "0 < n \<Longrightarrow> n AND (n - 1) = 0 \<Longrightarrow> \<exists>k. n = 2 ^ k" for n :: nat
proof (induction n rule: less_induct)
  case (less n)
  show ?case
  proof (cases "n = 1")
    case False
    define m where "m = n div 2"
    have e: "n AND (n - 1) = of_bool (odd n \<and> odd (n - 1)) + 2 * (n div 2 AND (n - 1) div 2)"
      by (rule and_rec)
    have "even n"
    proof (rule ccontr)
      assume "odd n"
      then have "(n - 1) div 2 = n div 2"
        by (elim oddE) simp
      then have "n div 2 AND (n - 1) div 2 = n div 2"
        by simp
      then show False
        using less.prems e False by simp
    qed
    then have n: "n = 2 * m" "(n - 1) div 2 = m - 1" "0 < m" "m < n"
      using less.prems by (auto simp: m_def)
    then have "m AND (m - 1) = 0"
      using e less.prems by (simp add: m_def)
    then obtain k where "m = 2 ^ k"
      using less.IH n by blast
    then show ?thesis
      using n by (intro exI[of _ "Suc k"]) simp
  qed (auto intro: exI[of _ 0])
qed

lemma power_of_two:
  fixes x :: uint64
  assumes "x \<noteq> 0" "x AND (x - 1) = 0"
  obtains k where "k < 64" "x = 2 ^ k"
proof -
  have "unat (x AND (x - 1)) = unat x AND (unat x - 1)"
    using assms(1) by (simp add: unsigned_and_eq unat_minus_one)
  then obtain k where k: "unat x = 2 ^ k"
    using power_of_two_nat[of "unat x"] assms by (auto simp: unat_gt_0)
  then have "(2::nat) ^ k < 2 ^ 64"
    using unat_lt[of x] by simp
  then have "k < 64"
    by (rule power_less_imp_less_exp[rotated]) simp
  moreover have "x = 2 ^ k"
    using k \<open>k < 64\<close> by (simp add: word_unat_eq_iff unat_power_64)
  ultimately show ?thesis
    by (rule that)
qed

lemma init_ok:
  assumes c: "init k st wy lz = Some c" and w: "wy \<noteq> 0" "unat st * unat wy < 2 ^ 64"
  shows "cache_ok c" "cls c = k" "lines c = Map.empty"
proof -
  have st: "st \<noteq> 0" and lz: "\<not> lz < 8" "lz AND (lz - 1) = 0"
    and e: "cls c = k" "sets c = st" "ways c = wy" "linesz c = lz" "idx_shift c = idx_shift_of lz"
      "tags c = replicate (unat (st * wy)) 0" "fa_tags c = []"
    using c by (auto simp: init_def split: if_splits)
  obtain n where n: "n < 64" "lz = 2 ^ n"
    using lz by (auto intro: power_of_two[of lz])
  have "3 \<le> n"
  proof (rule ccontr)
    assume "\<not> 3 \<le> n"
    then have "n \<in> {0, 1, 2}"
      by auto
    then show False
      using lz(1) n(2) by auto
  qed
  then have g: "3 \<le> idx_shift c" "idx_shift c < 64" "linesz c = 2 ^ idx_shift c"
    using n by (simp_all add: e idx_shift_of_power)
  have "\<not> valid_at c m" for m
    by (auto simp: valid_at_def e)
  moreover have "unat (st * wy) = unat st * unat wy"
    using w(2) by (intro unat_mult_no_wrap) simp
  ultimately show "cache_ok c"
    using g w st by (auto simp: cache_ok_def sa_ok_def fa_ok_def e split: cache_class.split)
  show "cls c = k"
    by (rule e)
  show "lines c = Map.empty"
    by (auto simp: lines_def dirty_bits_def sa_held_def e find_None_iff fun_eq_iff split: cache_class.split)
qed

lemma ok_access_step:
  assumes "cache_ok c"
  shows "\<exists>c' rs. access (c # mh) a n st = c' # serve (idx_shift c) (linesz c) rs mh
    \<and> cache_ok c' \<and> cls c' = cls c \<and> idx_shift c' = idx_shift c \<and> linesz c' = linesz c \<and> counted n st rs c c'
    \<and> cache_step (lines c) (line_of c a) st rs (lines c')"
proof (cases "cls c")
  case Cache_Sim
  then have "sa_ok c" "vtable_of (cls c) = cache_sim_vt"
    using assms by (simp_all add: cache_ok_def)
  from sa.access_step[OF this, of mh a n st] obtain c' rs where
    "access (c # mh) a n st = c' # serve (idx_shift c) (linesz c) rs mh" "sa_ok c'" "cls c' = cls c"
    "idx_shift c' = idx_shift c" "linesz c' = linesz c" "counted n st rs c c'"
    "cache_step (dirty_bits (sa_held c)) (line_of c a) st rs (dirty_bits (sa_held c'))"
    by blast
  then show ?thesis
    using Cache_Sim by (intro exI[of _ c'] exI[of _ rs]) (simp add: cache_ok_def lines_def)
next
  case Fa_Cache_Sim
  then have "fa_ok c" "vtable_of (cls c) = fa_cache_sim_vt"
    using assms by (simp_all add: cache_ok_def)
  from fa.access_step[OF this, of mh a n st] obtain c' rs where
    "access (c # mh) a n st = c' # serve (idx_shift c) (linesz c) rs mh" "fa_ok c'" "cls c' = cls c"
    "idx_shift c' = idx_shift c" "linesz c' = linesz c" "counted n st rs c c'"
    "cache_step (dirty_bits (fa_held c)) (line_of c a) st rs (dirty_bits (fa_held c'))"
    by blast
  then show ?thesis
    using Fa_Cache_Sim by (intro exI[of _ c'] exI[of _ rs]) (simp add: cache_ok_def lines_def fa_held_def)
qed

lemma access_ok: "list_all cache_ok cs \<Longrightarrow> list_all cache_ok (access cs a n st)"
proof (induction "length cs" arbitrary: cs a n st)
  case (Suc k)
  then obtain c mh where cs: "cs = c # mh" and ok: "cache_ok c" "list_all cache_ok mh" and k: "k = length mh"
    by (cases cs) auto
  have serve: "list_all cache_ok (serve s z rs ch)" if "list_all cache_ok ch" "length ch = k" for s z rs ch
    using that by (induction s z rs ch rule: serve.induct) (simp_all add: Suc.hyps(1))
  show ?case
    using ok_access_step[OF ok(1), of mh a n st] serve[OF ok(2)] k cs by auto
qed simp

lemma reachable_caches_ok: "reachable_caches cs \<Longrightarrow> list_all cache_ok cs"
proof (induction rule: reachable_caches.induct)
  case (start cs)
  have "cache_ok c" if "new_cache c" for c
    using that by (auto simp: new_cache_def construct_def split: if_splits intro: init_ok(1))
  then show ?case
    using start by (simp add: list_all_iff)
qed (rule access_ok)

text \<open>
  C7: In every chain of caches that \<open>construct\<close> and accesses lead to, an access does to the
  first cache what a cache promises, whichever class it is: a line that is present stays,
  and is dirty afterwards if it was or if the access stores; for a line that is absent at
  most one other line is given up, it is written back exactly when it is dirty, and then the
  line is read from the next level; every other line keeps its state. The next level
  receives exactly these requests, and the counters record them.
\<close>

theorem cache_access_refines:
  assumes "reachable_caches (c # mh)"
  shows "\<exists>c' rs. access (c # mh) a n st = c' # serve (idx_shift c) (linesz c) rs mh
    \<and> cache_step (lines c) (line_of c a) st rs (lines c')
    \<and> counted n st rs c c'"
  using ok_access_step[of c mh a n st] reachable_caches_ok[OF assms] by auto

text \<open>A direct-mapped cache of two lines in front of a fully-associative one of eight.\<close>

theorem cache_access_refines_witness:
  "\<exists>c d c0. construct 2 1 8 = Some c \<and> construct 1 8 64 = Some d
     \<and> access [c, d] 0x40 8 True = c0 # tl (access [c, d] 0x40 8 True)
     \<and> (\<exists>c' rs. access (access [c, d] 0x40 8 True) 0x1040 4 False
           = c' # serve (idx_shift c0) (linesz c0) rs (tl (access [c, d] 0x40 8 True))
         \<and> cache_step (lines c0) (line_of c0 0x1040) False rs (lines c')
         \<and> counted 4 False rs c0 c')"
proof -
  obtain c d where cd: "construct 2 1 8 = Some c" "construct 1 8 64 = Some d"
    by (simp add: construct_def init_def)
  then have "new_cache c" "new_cache d"
    by (auto intro: new_cacheI)
  then have r: "reachable_caches (access [c, d] 0x40 8 True)"
    by (intro reachable_caches.access reachable_caches.start) simp
  obtain c0 mh where e: "access [c, d] 0x40 8 True = c0 # mh"
    using access_length[of "[c, d]" "0x40" 8 True] by (cases "access [c, d] 0x40 8 True") auto
  show ?thesis
    using cd e cache_access_refines[of c0 mh "0x1040" 4 False] r
    by (intro exI[of _ c] exI[of _ d] exI[of _ c0]) simp
qed

end
