(* ===== verification/RV_InsnTable.thy ===== *)
theory RV_InsnTable
  imports RV_Dispatch
begin

text \<open>
  The instructions the processor registers (\<open>DECLARE_INSN\<close> of \<open>encoding.h\<close>, for the names of
  the instruction list in \<open>riscv.mk.in\<close>): fixed bits and mask, in the order of \<open>encoding.h\<close>.
\<close>

section \<open>Encodings\<close>

definition insns_1 :: "(uint64 \<times> uint64) list" where
  "insns_1 = [
    (0x63, 0x707f) \<comment> \<open>beq\<close>,
    (0x1063, 0x707f) \<comment> \<open>bne\<close>,
    (0x4063, 0x707f) \<comment> \<open>blt\<close>,
    (0x5063, 0x707f) \<comment> \<open>bge\<close>,
    (0x6063, 0x707f) \<comment> \<open>bltu\<close>,
    (0x7063, 0x707f) \<comment> \<open>bgeu\<close>,
    (0x67, 0x707f) \<comment> \<open>jalr\<close>,
    (0x6f, 0x7f) \<comment> \<open>jal\<close>,
    (0x37, 0x7f) \<comment> \<open>lui\<close>,
    (0x17, 0x7f) \<comment> \<open>auipc\<close>,
    (0x13, 0x707f) \<comment> \<open>addi\<close>,
    (0x1013, 0xfc00707f) \<comment> \<open>slli\<close>,
    (0x2013, 0x707f) \<comment> \<open>slti\<close>,
    (0x3013, 0x707f) \<comment> \<open>sltiu\<close>,
    (0x4013, 0x707f) \<comment> \<open>xori\<close>,
    (0x5013, 0xfc00707f) \<comment> \<open>srli\<close>,
    (0x40005013, 0xfc00707f) \<comment> \<open>srai\<close>,
    (0x6013, 0x707f) \<comment> \<open>ori\<close>,
    (0x7013, 0x707f) \<comment> \<open>andi\<close>,
    (0x33, 0xfe00707f) \<comment> \<open>add\<close>,
    (0x40000033, 0xfe00707f) \<comment> \<open>sub\<close>,
    (0x1033, 0xfe00707f) \<comment> \<open>sll\<close>,
    (0x2033, 0xfe00707f) \<comment> \<open>slt\<close>,
    (0x3033, 0xfe00707f) \<comment> \<open>sltu\<close>,
    (0x4033, 0xfe00707f) \<comment> \<open>xor\<close>,
    (0x5033, 0xfe00707f) \<comment> \<open>srl\<close>,
    (0x40005033, 0xfe00707f) \<comment> \<open>sra\<close>,
    (0x6033, 0xfe00707f) \<comment> \<open>or\<close>,
    (0x7033, 0xfe00707f) \<comment> \<open>and\<close>,
    (0x3, 0x707f) \<comment> \<open>lb\<close>,
    (0x1003, 0x707f) \<comment> \<open>lh\<close>,
    (0x2003, 0x707f) \<comment> \<open>lw\<close>,
    (0x4003, 0x707f) \<comment> \<open>lbu\<close>,
    (0x5003, 0x707f) \<comment> \<open>lhu\<close>,
    (0x23, 0x707f) \<comment> \<open>sb\<close>,
    (0x1023, 0x707f) \<comment> \<open>sh\<close>,
    (0x2023, 0x707f) \<comment> \<open>sw\<close>,
    (0xf, 0x707f) \<comment> \<open>fence\<close>,
    (0x100f, 0x707f) \<comment> \<open>fence_i\<close>,
    (0x1b, 0x707f) \<comment> \<open>addiw\<close>,
    (0x101b, 0xfe00707f) \<comment> \<open>slliw\<close>,
    (0x501b, 0xfe00707f) \<comment> \<open>srliw\<close>,
    (0x4000501b, 0xfe00707f) \<comment> \<open>sraiw\<close>,
    (0x3b, 0xfe00707f) \<comment> \<open>addw\<close>,
    (0x4000003b, 0xfe00707f) \<comment> \<open>subw\<close>,
    (0x103b, 0xfe00707f) \<comment> \<open>sllw\<close>,
    (0x503b, 0xfe00707f) \<comment> \<open>srlw\<close>,
    (0x4000503b, 0xfe00707f) \<comment> \<open>sraw\<close>,
    (0x3003, 0x707f) \<comment> \<open>ld\<close>,
    (0x6003, 0x707f) \<comment> \<open>lwu\<close>,
    (0x3023, 0x707f) \<comment> \<open>sd\<close>,
    (0x2000033, 0xfe00707f) \<comment> \<open>mul\<close>,
    (0x2001033, 0xfe00707f) \<comment> \<open>mulh\<close>,
    (0x2002033, 0xfe00707f) \<comment> \<open>mulhsu\<close>,
    (0x2003033, 0xfe00707f) \<comment> \<open>mulhu\<close>,
    (0x2004033, 0xfe00707f) \<comment> \<open>div\<close>,
    (0x2005033, 0xfe00707f) \<comment> \<open>divu\<close>,
    (0x2006033, 0xfe00707f) \<comment> \<open>rem\<close>,
    (0x2007033, 0xfe00707f) \<comment> \<open>remu\<close>,
    (0x200003b, 0xfe00707f) \<comment> \<open>mulw\<close>,
    (0x200403b, 0xfe00707f) \<comment> \<open>divw\<close>,
    (0x200503b, 0xfe00707f) \<comment> \<open>divuw\<close>,
    (0x200603b, 0xfe00707f) \<comment> \<open>remw\<close>,
    (0x200703b, 0xfe00707f) \<comment> \<open>remuw\<close>,
    (0x202f, 0xf800707f) \<comment> \<open>amoadd_w\<close>,
    (0x2000202f, 0xf800707f) \<comment> \<open>amoxor_w\<close>,
    (0x4000202f, 0xf800707f) \<comment> \<open>amoor_w\<close>,
    (0x6000202f, 0xf800707f) \<comment> \<open>amoand_w\<close>,
    (0x8000202f, 0xf800707f) \<comment> \<open>amomin_w\<close>,
    (0xa000202f, 0xf800707f) \<comment> \<open>amomax_w\<close>,
    (0xc000202f, 0xf800707f) \<comment> \<open>amominu_w\<close>,
    (0xe000202f, 0xf800707f) \<comment> \<open>amomaxu_w\<close>,
    (0x800202f, 0xf800707f) \<comment> \<open>amoswap_w\<close>,
    (0x1000202f, 0xf9f0707f) \<comment> \<open>lr_w\<close>,
    (0x1800202f, 0xf800707f) \<comment> \<open>sc_w\<close>,
    (0x302f, 0xf800707f) \<comment> \<open>amoadd_d\<close>,
    (0x2000302f, 0xf800707f) \<comment> \<open>amoxor_d\<close>,
    (0x4000302f, 0xf800707f) \<comment> \<open>amoor_d\<close>,
    (0x6000302f, 0xf800707f) \<comment> \<open>amoand_d\<close>,
    (0x8000302f, 0xf800707f) \<comment> \<open>amomin_d\<close>,
    (0xa000302f, 0xf800707f) \<comment> \<open>amomax_d\<close>,
    (0xc000302f, 0xf800707f) \<comment> \<open>amominu_d\<close>,
    (0xe000302f, 0xf800707f) \<comment> \<open>amomaxu_d\<close>,
    (0x800302f, 0xf800707f) \<comment> \<open>amoswap_d\<close>,
    (0x1000302f, 0xf9f0707f) \<comment> \<open>lr_d\<close>,
    (0x1800302f, 0xf800707f) \<comment> \<open>sc_d\<close>,
    (0x22000073, 0xfe007fff) \<comment> \<open>hfence_vvma\<close>,
    (0x62000073, 0xfe007fff) \<comment> \<open>hfence_gvma\<close>,
    (0x60004073, 0xfff0707f) \<comment> \<open>hlv_b\<close>,
    (0x60104073, 0xfff0707f) \<comment> \<open>hlv_bu\<close>,
    (0x64004073, 0xfff0707f) \<comment> \<open>hlv_h\<close>,
    (0x64104073, 0xfff0707f) \<comment> \<open>hlv_hu\<close>,
    (0x64304073, 0xfff0707f) \<comment> \<open>hlvx_hu\<close>,
    (0x68004073, 0xfff0707f) \<comment> \<open>hlv_w\<close>,
    (0x68304073, 0xfff0707f) \<comment> \<open>hlvx_wu\<close>,
    (0x62004073, 0xfe007fff) \<comment> \<open>hsv_b\<close>,
    (0x66004073, 0xfe007fff) \<comment> \<open>hsv_h\<close>,
    (0x6a004073, 0xfe007fff) \<comment> \<open>hsv_w\<close>,
    (0x68104073, 0xfff0707f) \<comment> \<open>hlv_wu\<close>,
    (0x6c004073, 0xfff0707f) \<comment> \<open>hlv_d\<close>,
    (0x6e004073, 0xfe007fff) \<comment> \<open>hsv_d\<close>,
    (0x53, 0xfe00007f) \<comment> \<open>fadd_s\<close>,
    (0x8000053, 0xfe00007f) \<comment> \<open>fsub_s\<close>,
    (0x10000053, 0xfe00007f) \<comment> \<open>fmul_s\<close>,
    (0x18000053, 0xfe00007f) \<comment> \<open>fdiv_s\<close>,
    (0x20000053, 0xfe00707f) \<comment> \<open>fsgnj_s\<close>,
    (0x20001053, 0xfe00707f) \<comment> \<open>fsgnjn_s\<close>,
    (0x20002053, 0xfe00707f) \<comment> \<open>fsgnjx_s\<close>,
    (0x28000053, 0xfe00707f) \<comment> \<open>fmin_s\<close>,
    (0x28001053, 0xfe00707f) \<comment> \<open>fmax_s\<close>,
    (0x58000053, 0xfff0007f) \<comment> \<open>fsqrt_s\<close>,
    (0xa0000053, 0xfe00707f) \<comment> \<open>fle_s\<close>,
    (0xa0001053, 0xfe00707f) \<comment> \<open>flt_s\<close>,
    (0xa0002053, 0xfe00707f) \<comment> \<open>feq_s\<close>]"

definition insns_2 :: "(uint64 \<times> uint64) list" where
  "insns_2 = [
    (0xc0000053, 0xfff0007f) \<comment> \<open>fcvt_w_s\<close>,
    (0xc0100053, 0xfff0007f) \<comment> \<open>fcvt_wu_s\<close>,
    (0xe0000053, 0xfff0707f) \<comment> \<open>fmv_x_w\<close>,
    (0xe0001053, 0xfff0707f) \<comment> \<open>fclass_s\<close>,
    (0xd0000053, 0xfff0007f) \<comment> \<open>fcvt_s_w\<close>,
    (0xd0100053, 0xfff0007f) \<comment> \<open>fcvt_s_wu\<close>,
    (0xf0000053, 0xfff0707f) \<comment> \<open>fmv_w_x\<close>,
    (0x2007, 0x707f) \<comment> \<open>flw\<close>,
    (0x2027, 0x707f) \<comment> \<open>fsw\<close>,
    (0x43, 0x600007f) \<comment> \<open>fmadd_s\<close>,
    (0x47, 0x600007f) \<comment> \<open>fmsub_s\<close>,
    (0x4b, 0x600007f) \<comment> \<open>fnmsub_s\<close>,
    (0x4f, 0x600007f) \<comment> \<open>fnmadd_s\<close>,
    (0xc0200053, 0xfff0007f) \<comment> \<open>fcvt_l_s\<close>,
    (0xc0300053, 0xfff0007f) \<comment> \<open>fcvt_lu_s\<close>,
    (0xd0200053, 0xfff0007f) \<comment> \<open>fcvt_s_l\<close>,
    (0xd0300053, 0xfff0007f) \<comment> \<open>fcvt_s_lu\<close>,
    (0x2000053, 0xfe00007f) \<comment> \<open>fadd_d\<close>,
    (0xa000053, 0xfe00007f) \<comment> \<open>fsub_d\<close>,
    (0x12000053, 0xfe00007f) \<comment> \<open>fmul_d\<close>,
    (0x1a000053, 0xfe00007f) \<comment> \<open>fdiv_d\<close>,
    (0x22000053, 0xfe00707f) \<comment> \<open>fsgnj_d\<close>,
    (0x22001053, 0xfe00707f) \<comment> \<open>fsgnjn_d\<close>,
    (0x22002053, 0xfe00707f) \<comment> \<open>fsgnjx_d\<close>,
    (0x2a000053, 0xfe00707f) \<comment> \<open>fmin_d\<close>,
    (0x2a001053, 0xfe00707f) \<comment> \<open>fmax_d\<close>,
    (0x40100053, 0xfff0007f) \<comment> \<open>fcvt_s_d\<close>,
    (0x42000053, 0xfff0007f) \<comment> \<open>fcvt_d_s\<close>,
    (0x5a000053, 0xfff0007f) \<comment> \<open>fsqrt_d\<close>,
    (0xa2000053, 0xfe00707f) \<comment> \<open>fle_d\<close>,
    (0xa2001053, 0xfe00707f) \<comment> \<open>flt_d\<close>,
    (0xa2002053, 0xfe00707f) \<comment> \<open>feq_d\<close>,
    (0xc2000053, 0xfff0007f) \<comment> \<open>fcvt_w_d\<close>,
    (0xc2100053, 0xfff0007f) \<comment> \<open>fcvt_wu_d\<close>,
    (0xe2001053, 0xfff0707f) \<comment> \<open>fclass_d\<close>,
    (0xd2000053, 0xfff0007f) \<comment> \<open>fcvt_d_w\<close>,
    (0xd2100053, 0xfff0007f) \<comment> \<open>fcvt_d_wu\<close>,
    (0x3007, 0x707f) \<comment> \<open>fld\<close>,
    (0x3027, 0x707f) \<comment> \<open>fsd\<close>,
    (0x2000043, 0x600007f) \<comment> \<open>fmadd_d\<close>,
    (0x2000047, 0x600007f) \<comment> \<open>fmsub_d\<close>,
    (0x200004b, 0x600007f) \<comment> \<open>fnmsub_d\<close>,
    (0x200004f, 0x600007f) \<comment> \<open>fnmadd_d\<close>,
    (0xc2200053, 0xfff0007f) \<comment> \<open>fcvt_l_d\<close>,
    (0xc2300053, 0xfff0007f) \<comment> \<open>fcvt_lu_d\<close>,
    (0xe2000053, 0xfff0707f) \<comment> \<open>fmv_x_d\<close>,
    (0xd2200053, 0xfff0007f) \<comment> \<open>fcvt_d_l\<close>,
    (0xd2300053, 0xfff0007f) \<comment> \<open>fcvt_d_lu\<close>,
    (0xf2000053, 0xfff0707f) \<comment> \<open>fmv_d_x\<close>,
    (0x6000053, 0xfe00007f) \<comment> \<open>fadd_q\<close>,
    (0xe000053, 0xfe00007f) \<comment> \<open>fsub_q\<close>,
    (0x16000053, 0xfe00007f) \<comment> \<open>fmul_q\<close>,
    (0x1e000053, 0xfe00007f) \<comment> \<open>fdiv_q\<close>,
    (0x26000053, 0xfe00707f) \<comment> \<open>fsgnj_q\<close>,
    (0x26001053, 0xfe00707f) \<comment> \<open>fsgnjn_q\<close>,
    (0x26002053, 0xfe00707f) \<comment> \<open>fsgnjx_q\<close>,
    (0x2e000053, 0xfe00707f) \<comment> \<open>fmin_q\<close>,
    (0x2e001053, 0xfe00707f) \<comment> \<open>fmax_q\<close>,
    (0x40300053, 0xfff0007f) \<comment> \<open>fcvt_s_q\<close>,
    (0x46000053, 0xfff0007f) \<comment> \<open>fcvt_q_s\<close>,
    (0x42300053, 0xfff0007f) \<comment> \<open>fcvt_d_q\<close>,
    (0x46100053, 0xfff0007f) \<comment> \<open>fcvt_q_d\<close>,
    (0x5e000053, 0xfff0007f) \<comment> \<open>fsqrt_q\<close>,
    (0xa6000053, 0xfe00707f) \<comment> \<open>fle_q\<close>,
    (0xa6001053, 0xfe00707f) \<comment> \<open>flt_q\<close>,
    (0xa6002053, 0xfe00707f) \<comment> \<open>feq_q\<close>,
    (0xc6000053, 0xfff0007f) \<comment> \<open>fcvt_w_q\<close>,
    (0xc6100053, 0xfff0007f) \<comment> \<open>fcvt_wu_q\<close>,
    (0xe6001053, 0xfff0707f) \<comment> \<open>fclass_q\<close>,
    (0xd6000053, 0xfff0007f) \<comment> \<open>fcvt_q_w\<close>,
    (0xd6100053, 0xfff0007f) \<comment> \<open>fcvt_q_wu\<close>,
    (0x4007, 0x707f) \<comment> \<open>flq\<close>,
    (0x4027, 0x707f) \<comment> \<open>fsq\<close>,
    (0x6000043, 0x600007f) \<comment> \<open>fmadd_q\<close>,
    (0x6000047, 0x600007f) \<comment> \<open>fmsub_q\<close>,
    (0x600004b, 0x600007f) \<comment> \<open>fnmsub_q\<close>,
    (0x600004f, 0x600007f) \<comment> \<open>fnmadd_q\<close>,
    (0xc6200053, 0xfff0007f) \<comment> \<open>fcvt_l_q\<close>,
    (0xc6300053, 0xfff0007f) \<comment> \<open>fcvt_lu_q\<close>,
    (0xd6200053, 0xfff0007f) \<comment> \<open>fcvt_q_l\<close>,
    (0xd6300053, 0xfff0007f) \<comment> \<open>fcvt_q_lu\<close>,
    (0x4000053, 0xfe00007f) \<comment> \<open>fadd_h\<close>,
    (0xc000053, 0xfe00007f) \<comment> \<open>fsub_h\<close>,
    (0x14000053, 0xfe00007f) \<comment> \<open>fmul_h\<close>,
    (0x1c000053, 0xfe00007f) \<comment> \<open>fdiv_h\<close>,
    (0x24000053, 0xfe00707f) \<comment> \<open>fsgnj_h\<close>,
    (0x24001053, 0xfe00707f) \<comment> \<open>fsgnjn_h\<close>,
    (0x24002053, 0xfe00707f) \<comment> \<open>fsgnjx_h\<close>,
    (0x2c000053, 0xfe00707f) \<comment> \<open>fmin_h\<close>,
    (0x2c001053, 0xfe00707f) \<comment> \<open>fmax_h\<close>,
    (0x44000053, 0xfff0007f) \<comment> \<open>fcvt_h_s\<close>,
    (0x40200053, 0xfff0007f) \<comment> \<open>fcvt_s_h\<close>,
    (0x5c000053, 0xfff0007f) \<comment> \<open>fsqrt_h\<close>,
    (0xa4000053, 0xfe00707f) \<comment> \<open>fle_h\<close>,
    (0xa4001053, 0xfe00707f) \<comment> \<open>flt_h\<close>,
    (0xa4002053, 0xfe00707f) \<comment> \<open>feq_h\<close>,
    (0xc4000053, 0xfff0007f) \<comment> \<open>fcvt_w_h\<close>,
    (0xc4100053, 0xfff0007f) \<comment> \<open>fcvt_wu_h\<close>,
    (0xe4000053, 0xfff0707f) \<comment> \<open>fmv_x_h\<close>,
    (0xe4001053, 0xfff0707f) \<comment> \<open>fclass_h\<close>,
    (0xd4000053, 0xfff0007f) \<comment> \<open>fcvt_h_w\<close>,
    (0xd4100053, 0xfff0007f) \<comment> \<open>fcvt_h_wu\<close>,
    (0xf4000053, 0xfff0707f) \<comment> \<open>fmv_h_x\<close>,
    (0x1007, 0x707f) \<comment> \<open>flh\<close>,
    (0x1027, 0x707f) \<comment> \<open>fsh\<close>,
    (0x4000043, 0x600007f) \<comment> \<open>fmadd_h\<close>,
    (0x4000047, 0x600007f) \<comment> \<open>fmsub_h\<close>,
    (0x400004b, 0x600007f) \<comment> \<open>fnmsub_h\<close>,
    (0x400004f, 0x600007f) \<comment> \<open>fnmadd_h\<close>,
    (0x44100053, 0xfff0007f) \<comment> \<open>fcvt_h_d\<close>,
    (0x42200053, 0xfff0007f) \<comment> \<open>fcvt_d_h\<close>,
    (0x44300053, 0xfff0007f) \<comment> \<open>fcvt_h_q\<close>,
    (0x46200053, 0xfff0007f) \<comment> \<open>fcvt_q_h\<close>,
    (0xc4200053, 0xfff0007f) \<comment> \<open>fcvt_l_h\<close>]"

definition insns_3 :: "(uint64 \<times> uint64) list" where
  "insns_3 = [
    (0xc4300053, 0xfff0007f) \<comment> \<open>fcvt_lu_h\<close>,
    (0xd4200053, 0xfff0007f) \<comment> \<open>fcvt_h_l\<close>,
    (0xd4300053, 0xfff0007f) \<comment> \<open>fcvt_h_lu\<close>,
    (0x73, 0xffffffff) \<comment> \<open>ecall\<close>,
    (0x100073, 0xffffffff) \<comment> \<open>ebreak\<close>,
    (0x10200073, 0xffffffff) \<comment> \<open>sret\<close>,
    (0x30200073, 0xffffffff) \<comment> \<open>mret\<close>,
    (0x7b200073, 0xffffffff) \<comment> \<open>dret\<close>,
    (0x12000073, 0xfe007fff) \<comment> \<open>sfence_vma\<close>,
    (0x10500073, 0xffffffff) \<comment> \<open>wfi\<close>,
    (0x1073, 0x707f) \<comment> \<open>csrrw\<close>,
    (0x2073, 0x707f) \<comment> \<open>csrrs\<close>,
    (0x3073, 0x707f) \<comment> \<open>csrrc\<close>,
    (0x5073, 0x707f) \<comment> \<open>csrrwi\<close>,
    (0x6073, 0x707f) \<comment> \<open>csrrsi\<close>,
    (0x7073, 0x707f) \<comment> \<open>csrrci\<close>,
    (0x8002, 0xf07f) \<comment> \<open>c_jr\<close>,
    (0x9002, 0xf07f) \<comment> \<open>c_jalr\<close>,
    (0x9002, 0xffff) \<comment> \<open>c_ebreak\<close>,
    (0x0, 0xe003) \<comment> \<open>c_addi4spn\<close>,
    (0x2000, 0xe003) \<comment> \<open>c_fld\<close>,
    (0x4000, 0xe003) \<comment> \<open>c_lw\<close>,
    (0x6000, 0xe003) \<comment> \<open>c_flw\<close>,
    (0xa000, 0xe003) \<comment> \<open>c_fsd\<close>,
    (0xc000, 0xe003) \<comment> \<open>c_sw\<close>,
    (0xe000, 0xe003) \<comment> \<open>c_fsw\<close>,
    (0x1, 0xe003) \<comment> \<open>c_addi\<close>,
    (0x2001, 0xe003) \<comment> \<open>c_jal\<close>,
    (0x4001, 0xe003) \<comment> \<open>c_li\<close>,
    (0x6001, 0xe003) \<comment> \<open>c_lui\<close>,
    (0x8001, 0xec03) \<comment> \<open>c_srli\<close>,
    (0x8401, 0xec03) \<comment> \<open>c_srai\<close>,
    (0x8801, 0xec03) \<comment> \<open>c_andi\<close>,
    (0x8c01, 0xfc63) \<comment> \<open>c_sub\<close>,
    (0x8c21, 0xfc63) \<comment> \<open>c_xor\<close>,
    (0x8c41, 0xfc63) \<comment> \<open>c_or\<close>,
    (0x8c61, 0xfc63) \<comment> \<open>c_and\<close>,
    (0xa001, 0xe003) \<comment> \<open>c_j\<close>,
    (0xc001, 0xe003) \<comment> \<open>c_beqz\<close>,
    (0xe001, 0xe003) \<comment> \<open>c_bnez\<close>,
    (0x2, 0xe003) \<comment> \<open>c_slli\<close>,
    (0x2002, 0xe003) \<comment> \<open>c_fldsp\<close>,
    (0x4002, 0xe003) \<comment> \<open>c_lwsp\<close>,
    (0x6002, 0xe003) \<comment> \<open>c_flwsp\<close>,
    (0x8002, 0xf003) \<comment> \<open>c_mv\<close>,
    (0x9002, 0xf003) \<comment> \<open>c_add\<close>,
    (0xa002, 0xe003) \<comment> \<open>c_fsdsp\<close>,
    (0xc002, 0xe003) \<comment> \<open>c_swsp\<close>,
    (0xe002, 0xe003) \<comment> \<open>c_fswsp\<close>,
    (0x9c01, 0xfc63) \<comment> \<open>c_subw\<close>,
    (0x9c21, 0xfc63) \<comment> \<open>c_addw\<close>,
    (0x7057, 0x8000707f) \<comment> \<open>vsetvli\<close>,
    (0x80007057, 0xfe00707f) \<comment> \<open>vsetvl\<close>,
    (0x7, 0x1df0707f) \<comment> \<open>vle8_v\<close>,
    (0x5007, 0x1df0707f) \<comment> \<open>vle16_v\<close>,
    (0x6007, 0x1df0707f) \<comment> \<open>vle32_v\<close>,
    (0x7007, 0x1df0707f) \<comment> \<open>vle64_v\<close>,
    (0x27, 0x1df0707f) \<comment> \<open>vse8_v\<close>,
    (0x5027, 0x1df0707f) \<comment> \<open>vse16_v\<close>,
    (0x6027, 0x1df0707f) \<comment> \<open>vse32_v\<close>,
    (0x7027, 0x1df0707f) \<comment> \<open>vse64_v\<close>,
    (0x8000007, 0x1c00707f) \<comment> \<open>vlse8_v\<close>,
    (0x8005007, 0x1c00707f) \<comment> \<open>vlse16_v\<close>,
    (0x8006007, 0x1c00707f) \<comment> \<open>vlse32_v\<close>,
    (0x8007007, 0x1c00707f) \<comment> \<open>vlse64_v\<close>,
    (0x8000027, 0x1c00707f) \<comment> \<open>vsse8_v\<close>,
    (0x8005027, 0x1c00707f) \<comment> \<open>vsse16_v\<close>,
    (0x8006027, 0x1c00707f) \<comment> \<open>vsse32_v\<close>,
    (0x8007027, 0x1c00707f) \<comment> \<open>vsse64_v\<close>,
    (0xc000007, 0x1c00707f) \<comment> \<open>vlxei8_v\<close>,
    (0xc005007, 0x1c00707f) \<comment> \<open>vlxei16_v\<close>,
    (0xc006007, 0x1c00707f) \<comment> \<open>vlxei32_v\<close>,
    (0xc007007, 0x1c00707f) \<comment> \<open>vlxei64_v\<close>,
    (0xc000027, 0x1c00707f) \<comment> \<open>vsxei8_v\<close>,
    (0xc005027, 0x1c00707f) \<comment> \<open>vsxei16_v\<close>,
    (0xc006027, 0x1c00707f) \<comment> \<open>vsxei32_v\<close>,
    (0xc007027, 0x1c00707f) \<comment> \<open>vsxei64_v\<close>,
    (0x4000027, 0x1c00707f) \<comment> \<open>vsuxei8_v\<close>,
    (0x4005027, 0x1c00707f) \<comment> \<open>vsuxei16_v\<close>,
    (0x4006027, 0x1c00707f) \<comment> \<open>vsuxei32_v\<close>,
    (0x4007027, 0x1c00707f) \<comment> \<open>vsuxei64_v\<close>,
    (0x1000007, 0x1df0707f) \<comment> \<open>vle8ff_v\<close>,
    (0x1005007, 0x1df0707f) \<comment> \<open>vle16ff_v\<close>,
    (0x1006007, 0x1df0707f) \<comment> \<open>vle32ff_v\<close>,
    (0x1007007, 0x1df0707f) \<comment> \<open>vle64ff_v\<close>,
    (0x2800007, 0xfff0707f) \<comment> \<open>vl1re8_v\<close>,
    (0x2805007, 0xfff0707f) \<comment> \<open>vl1re16_v\<close>,
    (0x2806007, 0xfff0707f) \<comment> \<open>vl1re32_v\<close>,
    (0x2807007, 0xfff0707f) \<comment> \<open>vl1re64_v\<close>,
    (0x22800007, 0xfff0707f) \<comment> \<open>vl2re8_v\<close>,
    (0x22805007, 0xfff0707f) \<comment> \<open>vl2re16_v\<close>,
    (0x22806007, 0xfff0707f) \<comment> \<open>vl2re32_v\<close>,
    (0x22807007, 0xfff0707f) \<comment> \<open>vl2re64_v\<close>,
    (0x62800007, 0xfff0707f) \<comment> \<open>vl4re8_v\<close>,
    (0x62805007, 0xfff0707f) \<comment> \<open>vl4re16_v\<close>,
    (0x62806007, 0xfff0707f) \<comment> \<open>vl4re32_v\<close>,
    (0x62807007, 0xfff0707f) \<comment> \<open>vl4re64_v\<close>,
    (0xe2800007, 0xfff0707f) \<comment> \<open>vl8re8_v\<close>,
    (0xe2805007, 0xfff0707f) \<comment> \<open>vl8re16_v\<close>,
    (0xe2806007, 0xfff0707f) \<comment> \<open>vl8re32_v\<close>,
    (0xe2807007, 0xfff0707f) \<comment> \<open>vl8re64_v\<close>,
    (0x2800027, 0xfff0707f) \<comment> \<open>vs1r_v\<close>,
    (0x22800027, 0xfff0707f) \<comment> \<open>vs2r_v\<close>,
    (0x62800027, 0xfff0707f) \<comment> \<open>vs4r_v\<close>,
    (0xe2800027, 0xfff0707f) \<comment> \<open>vs8r_v\<close>,
    (0x5057, 0xfc00707f) \<comment> \<open>vfadd_vf\<close>,
    (0x8005057, 0xfc00707f) \<comment> \<open>vfsub_vf\<close>,
    (0x10005057, 0xfc00707f) \<comment> \<open>vfmin_vf\<close>,
    (0x18005057, 0xfc00707f) \<comment> \<open>vfmax_vf\<close>,
    (0x20005057, 0xfc00707f) \<comment> \<open>vfsgnj_vf\<close>,
    (0x24005057, 0xfc00707f) \<comment> \<open>vfsgnjn_vf\<close>,
    (0x28005057, 0xfc00707f) \<comment> \<open>vfsgnjx_vf\<close>,
    (0x38005057, 0xfc00707f) \<comment> \<open>vfslide1up_vf\<close>,
    (0x3c005057, 0xfc00707f) \<comment> \<open>vfslide1down_vf\<close>]"

definition insns_4 :: "(uint64 \<times> uint64) list" where
  "insns_4 = [
    (0x42005057, 0xfff0707f) \<comment> \<open>vfmv_s_f\<close>,
    (0x5c005057, 0xfe00707f) \<comment> \<open>vfmerge_vfm\<close>,
    (0x5e005057, 0xfff0707f) \<comment> \<open>vfmv_v_f\<close>,
    (0x60005057, 0xfc00707f) \<comment> \<open>vmfeq_vf\<close>,
    (0x64005057, 0xfc00707f) \<comment> \<open>vmfle_vf\<close>,
    (0x6c005057, 0xfc00707f) \<comment> \<open>vmflt_vf\<close>,
    (0x70005057, 0xfc00707f) \<comment> \<open>vmfne_vf\<close>,
    (0x74005057, 0xfc00707f) \<comment> \<open>vmfgt_vf\<close>,
    (0x7c005057, 0xfc00707f) \<comment> \<open>vmfge_vf\<close>,
    (0x80005057, 0xfc00707f) \<comment> \<open>vfdiv_vf\<close>,
    (0x84005057, 0xfc00707f) \<comment> \<open>vfrdiv_vf\<close>,
    (0x90005057, 0xfc00707f) \<comment> \<open>vfmul_vf\<close>,
    (0x9c005057, 0xfc00707f) \<comment> \<open>vfrsub_vf\<close>,
    (0xa0005057, 0xfc00707f) \<comment> \<open>vfmadd_vf\<close>,
    (0xa4005057, 0xfc00707f) \<comment> \<open>vfnmadd_vf\<close>,
    (0xa8005057, 0xfc00707f) \<comment> \<open>vfmsub_vf\<close>,
    (0xac005057, 0xfc00707f) \<comment> \<open>vfnmsub_vf\<close>,
    (0xb0005057, 0xfc00707f) \<comment> \<open>vfmacc_vf\<close>,
    (0xb4005057, 0xfc00707f) \<comment> \<open>vfnmacc_vf\<close>,
    (0xb8005057, 0xfc00707f) \<comment> \<open>vfmsac_vf\<close>,
    (0xbc005057, 0xfc00707f) \<comment> \<open>vfnmsac_vf\<close>,
    (0xc0005057, 0xfc00707f) \<comment> \<open>vfwadd_vf\<close>,
    (0xc8005057, 0xfc00707f) \<comment> \<open>vfwsub_vf\<close>,
    (0xd0005057, 0xfc00707f) \<comment> \<open>vfwadd_wf\<close>,
    (0xd8005057, 0xfc00707f) \<comment> \<open>vfwsub_wf\<close>,
    (0xe0005057, 0xfc00707f) \<comment> \<open>vfwmul_vf\<close>,
    (0xf0005057, 0xfc00707f) \<comment> \<open>vfwmacc_vf\<close>,
    (0xf4005057, 0xfc00707f) \<comment> \<open>vfwnmacc_vf\<close>,
    (0xf8005057, 0xfc00707f) \<comment> \<open>vfwmsac_vf\<close>,
    (0xfc005057, 0xfc00707f) \<comment> \<open>vfwnmsac_vf\<close>,
    (0x1057, 0xfc00707f) \<comment> \<open>vfadd_vv\<close>,
    (0x4001057, 0xfc00707f) \<comment> \<open>vfredsum_vs\<close>,
    (0x8001057, 0xfc00707f) \<comment> \<open>vfsub_vv\<close>,
    (0xc001057, 0xfc00707f) \<comment> \<open>vfredosum_vs\<close>,
    (0x10001057, 0xfc00707f) \<comment> \<open>vfmin_vv\<close>,
    (0x14001057, 0xfc00707f) \<comment> \<open>vfredmin_vs\<close>,
    (0x18001057, 0xfc00707f) \<comment> \<open>vfmax_vv\<close>,
    (0x1c001057, 0xfc00707f) \<comment> \<open>vfredmax_vs\<close>,
    (0x20001057, 0xfc00707f) \<comment> \<open>vfsgnj_vv\<close>,
    (0x24001057, 0xfc00707f) \<comment> \<open>vfsgnjn_vv\<close>,
    (0x28001057, 0xfc00707f) \<comment> \<open>vfsgnjx_vv\<close>,
    (0x42001057, 0xfe0ff07f) \<comment> \<open>vfmv_f_s\<close>,
    (0x60001057, 0xfc00707f) \<comment> \<open>vmfeq_vv\<close>,
    (0x64001057, 0xfc00707f) \<comment> \<open>vmfle_vv\<close>,
    (0x6c001057, 0xfc00707f) \<comment> \<open>vmflt_vv\<close>,
    (0x70001057, 0xfc00707f) \<comment> \<open>vmfne_vv\<close>,
    (0x80001057, 0xfc00707f) \<comment> \<open>vfdiv_vv\<close>,
    (0x90001057, 0xfc00707f) \<comment> \<open>vfmul_vv\<close>,
    (0xa0001057, 0xfc00707f) \<comment> \<open>vfmadd_vv\<close>,
    (0xa4001057, 0xfc00707f) \<comment> \<open>vfnmadd_vv\<close>,
    (0xa8001057, 0xfc00707f) \<comment> \<open>vfmsub_vv\<close>,
    (0xac001057, 0xfc00707f) \<comment> \<open>vfnmsub_vv\<close>,
    (0xb0001057, 0xfc00707f) \<comment> \<open>vfmacc_vv\<close>,
    (0xb4001057, 0xfc00707f) \<comment> \<open>vfnmacc_vv\<close>,
    (0xb8001057, 0xfc00707f) \<comment> \<open>vfmsac_vv\<close>,
    (0xbc001057, 0xfc00707f) \<comment> \<open>vfnmsac_vv\<close>,
    (0x48001057, 0xfc0ff07f) \<comment> \<open>vfcvt_xu_f_v\<close>,
    (0x48009057, 0xfc0ff07f) \<comment> \<open>vfcvt_x_f_v\<close>,
    (0x48011057, 0xfc0ff07f) \<comment> \<open>vfcvt_f_xu_v\<close>,
    (0x48019057, 0xfc0ff07f) \<comment> \<open>vfcvt_f_x_v\<close>,
    (0x48031057, 0xfc0ff07f) \<comment> \<open>vfcvt_rtz_xu_f_v\<close>,
    (0x48039057, 0xfc0ff07f) \<comment> \<open>vfcvt_rtz_x_f_v\<close>,
    (0x48041057, 0xfc0ff07f) \<comment> \<open>vfwcvt_xu_f_v\<close>,
    (0x48049057, 0xfc0ff07f) \<comment> \<open>vfwcvt_x_f_v\<close>,
    (0x48051057, 0xfc0ff07f) \<comment> \<open>vfwcvt_f_xu_v\<close>,
    (0x48059057, 0xfc0ff07f) \<comment> \<open>vfwcvt_f_x_v\<close>,
    (0x48061057, 0xfc0ff07f) \<comment> \<open>vfwcvt_f_f_v\<close>,
    (0x48071057, 0xfc0ff07f) \<comment> \<open>vfwcvt_rtz_xu_f_v\<close>,
    (0x48079057, 0xfc0ff07f) \<comment> \<open>vfwcvt_rtz_x_f_v\<close>,
    (0x48081057, 0xfc0ff07f) \<comment> \<open>vfncvt_xu_f_w\<close>,
    (0x48089057, 0xfc0ff07f) \<comment> \<open>vfncvt_x_f_w\<close>,
    (0x48091057, 0xfc0ff07f) \<comment> \<open>vfncvt_f_xu_w\<close>,
    (0x48099057, 0xfc0ff07f) \<comment> \<open>vfncvt_f_x_w\<close>,
    (0x480a1057, 0xfc0ff07f) \<comment> \<open>vfncvt_f_f_w\<close>,
    (0x480a9057, 0xfc0ff07f) \<comment> \<open>vfncvt_rod_f_f_w\<close>,
    (0x480b1057, 0xfc0ff07f) \<comment> \<open>vfncvt_rtz_xu_f_w\<close>,
    (0x480b9057, 0xfc0ff07f) \<comment> \<open>vfncvt_rtz_x_f_w\<close>,
    (0x4c001057, 0xfc0ff07f) \<comment> \<open>vfsqrt_v\<close>,
    (0x4c021057, 0xfc0ff07f) \<comment> \<open>vfrsqrte7_v\<close>,
    (0x4c029057, 0xfc0ff07f) \<comment> \<open>vfrece7_v\<close>,
    (0x4c081057, 0xfc0ff07f) \<comment> \<open>vfclass_v\<close>,
    (0xc0001057, 0xfc00707f) \<comment> \<open>vfwadd_vv\<close>,
    (0xc4001057, 0xfc00707f) \<comment> \<open>vfwredsum_vs\<close>,
    (0xc8001057, 0xfc00707f) \<comment> \<open>vfwsub_vv\<close>,
    (0xcc001057, 0xfc00707f) \<comment> \<open>vfwredosum_vs\<close>,
    (0xd0001057, 0xfc00707f) \<comment> \<open>vfwadd_wv\<close>,
    (0xd8001057, 0xfc00707f) \<comment> \<open>vfwsub_wv\<close>,
    (0xe0001057, 0xfc00707f) \<comment> \<open>vfwmul_vv\<close>,
    (0xe4001057, 0xfc00707f) \<comment> \<open>vfdot_vv\<close>,
    (0xf0001057, 0xfc00707f) \<comment> \<open>vfwmacc_vv\<close>,
    (0xf4001057, 0xfc00707f) \<comment> \<open>vfwnmacc_vv\<close>,
    (0xf8001057, 0xfc00707f) \<comment> \<open>vfwmsac_vv\<close>,
    (0xfc001057, 0xfc00707f) \<comment> \<open>vfwnmsac_vv\<close>,
    (0x4057, 0xfc00707f) \<comment> \<open>vadd_vx\<close>,
    (0x8004057, 0xfc00707f) \<comment> \<open>vsub_vx\<close>,
    (0xc004057, 0xfc00707f) \<comment> \<open>vrsub_vx\<close>,
    (0x10004057, 0xfc00707f) \<comment> \<open>vminu_vx\<close>,
    (0x14004057, 0xfc00707f) \<comment> \<open>vmin_vx\<close>,
    (0x18004057, 0xfc00707f) \<comment> \<open>vmaxu_vx\<close>,
    (0x1c004057, 0xfc00707f) \<comment> \<open>vmax_vx\<close>,
    (0x24004057, 0xfc00707f) \<comment> \<open>vand_vx\<close>,
    (0x28004057, 0xfc00707f) \<comment> \<open>vor_vx\<close>,
    (0x2c004057, 0xfc00707f) \<comment> \<open>vxor_vx\<close>,
    (0x30004057, 0xfc00707f) \<comment> \<open>vrgather_vx\<close>,
    (0x38004057, 0xfc00707f) \<comment> \<open>vslideup_vx\<close>,
    (0x3c004057, 0xfc00707f) \<comment> \<open>vslidedown_vx\<close>,
    (0x40004057, 0xfe00707f) \<comment> \<open>vadc_vxm\<close>,
    (0x44004057, 0xfc00707f) \<comment> \<open>vmadc_vxm\<close>,
    (0x48004057, 0xfe00707f) \<comment> \<open>vsbc_vxm\<close>,
    (0x4c004057, 0xfc00707f) \<comment> \<open>vmsbc_vxm\<close>,
    (0x5c004057, 0xfe00707f) \<comment> \<open>vmerge_vxm\<close>,
    (0x5e004057, 0xfff0707f) \<comment> \<open>vmv_v_x\<close>,
    (0x60004057, 0xfc00707f) \<comment> \<open>vmseq_vx\<close>,
    (0x64004057, 0xfc00707f) \<comment> \<open>vmsne_vx\<close>]"

definition insns_5 :: "(uint64 \<times> uint64) list" where
  "insns_5 = [
    (0x68004057, 0xfc00707f) \<comment> \<open>vmsltu_vx\<close>,
    (0x6c004057, 0xfc00707f) \<comment> \<open>vmslt_vx\<close>,
    (0x70004057, 0xfc00707f) \<comment> \<open>vmsleu_vx\<close>,
    (0x74004057, 0xfc00707f) \<comment> \<open>vmsle_vx\<close>,
    (0x78004057, 0xfc00707f) \<comment> \<open>vmsgtu_vx\<close>,
    (0x7c004057, 0xfc00707f) \<comment> \<open>vmsgt_vx\<close>,
    (0x80004057, 0xfc00707f) \<comment> \<open>vsaddu_vx\<close>,
    (0x84004057, 0xfc00707f) \<comment> \<open>vsadd_vx\<close>,
    (0x88004057, 0xfc00707f) \<comment> \<open>vssubu_vx\<close>,
    (0x8c004057, 0xfc00707f) \<comment> \<open>vssub_vx\<close>,
    (0x94004057, 0xfc00707f) \<comment> \<open>vsll_vx\<close>,
    (0x9c004057, 0xfc00707f) \<comment> \<open>vsmul_vx\<close>,
    (0xa0004057, 0xfc00707f) \<comment> \<open>vsrl_vx\<close>,
    (0xa4004057, 0xfc00707f) \<comment> \<open>vsra_vx\<close>,
    (0xa8004057, 0xfc00707f) \<comment> \<open>vssrl_vx\<close>,
    (0xac004057, 0xfc00707f) \<comment> \<open>vssra_vx\<close>,
    (0xb0004057, 0xfc00707f) \<comment> \<open>vnsrl_wx\<close>,
    (0xb4004057, 0xfc00707f) \<comment> \<open>vnsra_wx\<close>,
    (0xb8004057, 0xfc00707f) \<comment> \<open>vnclipu_wx\<close>,
    (0xbc004057, 0xfc00707f) \<comment> \<open>vnclip_wx\<close>,
    (0x57, 0xfc00707f) \<comment> \<open>vadd_vv\<close>,
    (0x8000057, 0xfc00707f) \<comment> \<open>vsub_vv\<close>,
    (0x10000057, 0xfc00707f) \<comment> \<open>vminu_vv\<close>,
    (0x14000057, 0xfc00707f) \<comment> \<open>vmin_vv\<close>,
    (0x18000057, 0xfc00707f) \<comment> \<open>vmaxu_vv\<close>,
    (0x1c000057, 0xfc00707f) \<comment> \<open>vmax_vv\<close>,
    (0x24000057, 0xfc00707f) \<comment> \<open>vand_vv\<close>,
    (0x28000057, 0xfc00707f) \<comment> \<open>vor_vv\<close>,
    (0x2c000057, 0xfc00707f) \<comment> \<open>vxor_vv\<close>,
    (0x30000057, 0xfc00707f) \<comment> \<open>vrgather_vv\<close>,
    (0x38000057, 0xfc00707f) \<comment> \<open>vrgatherei16_vv\<close>,
    (0x40000057, 0xfe00707f) \<comment> \<open>vadc_vvm\<close>,
    (0x44000057, 0xfc00707f) \<comment> \<open>vmadc_vvm\<close>,
    (0x48000057, 0xfe00707f) \<comment> \<open>vsbc_vvm\<close>,
    (0x4c000057, 0xfc00707f) \<comment> \<open>vmsbc_vvm\<close>,
    (0x5c000057, 0xfe00707f) \<comment> \<open>vmerge_vvm\<close>,
    (0x5e000057, 0xfff0707f) \<comment> \<open>vmv_v_v\<close>,
    (0x60000057, 0xfc00707f) \<comment> \<open>vmseq_vv\<close>,
    (0x64000057, 0xfc00707f) \<comment> \<open>vmsne_vv\<close>,
    (0x68000057, 0xfc00707f) \<comment> \<open>vmsltu_vv\<close>,
    (0x6c000057, 0xfc00707f) \<comment> \<open>vmslt_vv\<close>,
    (0x70000057, 0xfc00707f) \<comment> \<open>vmsleu_vv\<close>,
    (0x74000057, 0xfc00707f) \<comment> \<open>vmsle_vv\<close>,
    (0x80000057, 0xfc00707f) \<comment> \<open>vsaddu_vv\<close>,
    (0x84000057, 0xfc00707f) \<comment> \<open>vsadd_vv\<close>,
    (0x88000057, 0xfc00707f) \<comment> \<open>vssubu_vv\<close>,
    (0x8c000057, 0xfc00707f) \<comment> \<open>vssub_vv\<close>,
    (0x94000057, 0xfc00707f) \<comment> \<open>vsll_vv\<close>,
    (0x9c000057, 0xfc00707f) \<comment> \<open>vsmul_vv\<close>,
    (0xa0000057, 0xfc00707f) \<comment> \<open>vsrl_vv\<close>,
    (0xa4000057, 0xfc00707f) \<comment> \<open>vsra_vv\<close>,
    (0xa8000057, 0xfc00707f) \<comment> \<open>vssrl_vv\<close>,
    (0xac000057, 0xfc00707f) \<comment> \<open>vssra_vv\<close>,
    (0xb0000057, 0xfc00707f) \<comment> \<open>vnsrl_wv\<close>,
    (0xb4000057, 0xfc00707f) \<comment> \<open>vnsra_wv\<close>,
    (0xb8000057, 0xfc00707f) \<comment> \<open>vnclipu_wv\<close>,
    (0xbc000057, 0xfc00707f) \<comment> \<open>vnclip_wv\<close>,
    (0xc0000057, 0xfc00707f) \<comment> \<open>vwredsumu_vs\<close>,
    (0xc4000057, 0xfc00707f) \<comment> \<open>vwredsum_vs\<close>,
    (0xe0000057, 0xfc00707f) \<comment> \<open>vdotu_vv\<close>,
    (0xe4000057, 0xfc00707f) \<comment> \<open>vdot_vv\<close>,
    (0x3057, 0xfc00707f) \<comment> \<open>vadd_vi\<close>,
    (0xc003057, 0xfc00707f) \<comment> \<open>vrsub_vi\<close>,
    (0x24003057, 0xfc00707f) \<comment> \<open>vand_vi\<close>,
    (0x28003057, 0xfc00707f) \<comment> \<open>vor_vi\<close>,
    (0x2c003057, 0xfc00707f) \<comment> \<open>vxor_vi\<close>,
    (0x30003057, 0xfc00707f) \<comment> \<open>vrgather_vi\<close>,
    (0x38003057, 0xfc00707f) \<comment> \<open>vslideup_vi\<close>,
    (0x3c003057, 0xfc00707f) \<comment> \<open>vslidedown_vi\<close>,
    (0x40003057, 0xfe00707f) \<comment> \<open>vadc_vim\<close>,
    (0x44003057, 0xfc00707f) \<comment> \<open>vmadc_vim\<close>,
    (0x5c003057, 0xfe00707f) \<comment> \<open>vmerge_vim\<close>,
    (0x5e003057, 0xfff0707f) \<comment> \<open>vmv_v_i\<close>,
    (0x60003057, 0xfc00707f) \<comment> \<open>vmseq_vi\<close>,
    (0x64003057, 0xfc00707f) \<comment> \<open>vmsne_vi\<close>,
    (0x70003057, 0xfc00707f) \<comment> \<open>vmsleu_vi\<close>,
    (0x74003057, 0xfc00707f) \<comment> \<open>vmsle_vi\<close>,
    (0x78003057, 0xfc00707f) \<comment> \<open>vmsgtu_vi\<close>,
    (0x7c003057, 0xfc00707f) \<comment> \<open>vmsgt_vi\<close>,
    (0x80003057, 0xfc00707f) \<comment> \<open>vsaddu_vi\<close>,
    (0x84003057, 0xfc00707f) \<comment> \<open>vsadd_vi\<close>,
    (0x94003057, 0xfc00707f) \<comment> \<open>vsll_vi\<close>,
    (0x9e003057, 0xfe0ff07f) \<comment> \<open>vmv1r_v\<close>,
    (0x9e00b057, 0xfe0ff07f) \<comment> \<open>vmv2r_v\<close>,
    (0x9e01b057, 0xfe0ff07f) \<comment> \<open>vmv4r_v\<close>,
    (0x9e03b057, 0xfe0ff07f) \<comment> \<open>vmv8r_v\<close>,
    (0xa0003057, 0xfc00707f) \<comment> \<open>vsrl_vi\<close>,
    (0xa4003057, 0xfc00707f) \<comment> \<open>vsra_vi\<close>,
    (0xa8003057, 0xfc00707f) \<comment> \<open>vssrl_vi\<close>,
    (0xac003057, 0xfc00707f) \<comment> \<open>vssra_vi\<close>,
    (0xb0003057, 0xfc00707f) \<comment> \<open>vnsrl_wi\<close>,
    (0xb4003057, 0xfc00707f) \<comment> \<open>vnsra_wi\<close>,
    (0xb8003057, 0xfc00707f) \<comment> \<open>vnclipu_wi\<close>,
    (0xbc003057, 0xfc00707f) \<comment> \<open>vnclip_wi\<close>,
    (0x2057, 0xfc00707f) \<comment> \<open>vredsum_vs\<close>,
    (0x4002057, 0xfc00707f) \<comment> \<open>vredand_vs\<close>,
    (0x8002057, 0xfc00707f) \<comment> \<open>vredor_vs\<close>,
    (0xc002057, 0xfc00707f) \<comment> \<open>vredxor_vs\<close>,
    (0x10002057, 0xfc00707f) \<comment> \<open>vredminu_vs\<close>,
    (0x14002057, 0xfc00707f) \<comment> \<open>vredmin_vs\<close>,
    (0x18002057, 0xfc00707f) \<comment> \<open>vredmaxu_vs\<close>,
    (0x1c002057, 0xfc00707f) \<comment> \<open>vredmax_vs\<close>,
    (0x20002057, 0xfc00707f) \<comment> \<open>vaaddu_vv\<close>,
    (0x24002057, 0xfc00707f) \<comment> \<open>vaadd_vv\<close>,
    (0x28002057, 0xfc00707f) \<comment> \<open>vasubu_vv\<close>,
    (0x2c002057, 0xfc00707f) \<comment> \<open>vasub_vv\<close>,
    (0x42002057, 0xfe0ff07f) \<comment> \<open>vmv_x_s\<close>,
    (0x48012057, 0xfc0ff07f) \<comment> \<open>vzext_vf8\<close>,
    (0x4801a057, 0xfc0ff07f) \<comment> \<open>vsext_vf8\<close>,
    (0x48022057, 0xfc0ff07f) \<comment> \<open>vzext_vf4\<close>,
    (0x4802a057, 0xfc0ff07f) \<comment> \<open>vsext_vf4\<close>,
    (0x48032057, 0xfc0ff07f) \<comment> \<open>vzext_vf2\<close>,
    (0x4803a057, 0xfc0ff07f) \<comment> \<open>vsext_vf2\<close>,
    (0x5e002057, 0xfe00707f) \<comment> \<open>vcompress_vm\<close>]"

definition insns_6 :: "(uint64 \<times> uint64) list" where
  "insns_6 = [
    (0x60002057, 0xfc00707f) \<comment> \<open>vmandnot_mm\<close>,
    (0x64002057, 0xfc00707f) \<comment> \<open>vmand_mm\<close>,
    (0x68002057, 0xfc00707f) \<comment> \<open>vmor_mm\<close>,
    (0x6c002057, 0xfc00707f) \<comment> \<open>vmxor_mm\<close>,
    (0x70002057, 0xfc00707f) \<comment> \<open>vmornot_mm\<close>,
    (0x74002057, 0xfc00707f) \<comment> \<open>vmnand_mm\<close>,
    (0x78002057, 0xfc00707f) \<comment> \<open>vmnor_mm\<close>,
    (0x7c002057, 0xfc00707f) \<comment> \<open>vmxnor_mm\<close>,
    (0x5000a057, 0xfc0ff07f) \<comment> \<open>vmsbf_m\<close>,
    (0x50012057, 0xfc0ff07f) \<comment> \<open>vmsof_m\<close>,
    (0x5001a057, 0xfc0ff07f) \<comment> \<open>vmsif_m\<close>,
    (0x50082057, 0xfc0ff07f) \<comment> \<open>viota_m\<close>,
    (0x5008a057, 0xfdfff07f) \<comment> \<open>vid_v\<close>,
    (0x40082057, 0xfc0ff07f) \<comment> \<open>vpopc_m\<close>,
    (0x4008a057, 0xfc0ff07f) \<comment> \<open>vfirst_m\<close>,
    (0x80002057, 0xfc00707f) \<comment> \<open>vdivu_vv\<close>,
    (0x84002057, 0xfc00707f) \<comment> \<open>vdiv_vv\<close>,
    (0x88002057, 0xfc00707f) \<comment> \<open>vremu_vv\<close>,
    (0x8c002057, 0xfc00707f) \<comment> \<open>vrem_vv\<close>,
    (0x90002057, 0xfc00707f) \<comment> \<open>vmulhu_vv\<close>,
    (0x94002057, 0xfc00707f) \<comment> \<open>vmul_vv\<close>,
    (0x98002057, 0xfc00707f) \<comment> \<open>vmulhsu_vv\<close>,
    (0x9c002057, 0xfc00707f) \<comment> \<open>vmulh_vv\<close>,
    (0xa4002057, 0xfc00707f) \<comment> \<open>vmadd_vv\<close>,
    (0xac002057, 0xfc00707f) \<comment> \<open>vnmsub_vv\<close>,
    (0xb4002057, 0xfc00707f) \<comment> \<open>vmacc_vv\<close>,
    (0xbc002057, 0xfc00707f) \<comment> \<open>vnmsac_vv\<close>,
    (0xc0002057, 0xfc00707f) \<comment> \<open>vwaddu_vv\<close>,
    (0xc4002057, 0xfc00707f) \<comment> \<open>vwadd_vv\<close>,
    (0xc8002057, 0xfc00707f) \<comment> \<open>vwsubu_vv\<close>,
    (0xcc002057, 0xfc00707f) \<comment> \<open>vwsub_vv\<close>,
    (0xd0002057, 0xfc00707f) \<comment> \<open>vwaddu_wv\<close>,
    (0xd4002057, 0xfc00707f) \<comment> \<open>vwadd_wv\<close>,
    (0xd8002057, 0xfc00707f) \<comment> \<open>vwsubu_wv\<close>,
    (0xdc002057, 0xfc00707f) \<comment> \<open>vwsub_wv\<close>,
    (0xe0002057, 0xfc00707f) \<comment> \<open>vwmulu_vv\<close>,
    (0xe8002057, 0xfc00707f) \<comment> \<open>vwmulsu_vv\<close>,
    (0xec002057, 0xfc00707f) \<comment> \<open>vwmul_vv\<close>,
    (0xf0002057, 0xfc00707f) \<comment> \<open>vwmaccu_vv\<close>,
    (0xf4002057, 0xfc00707f) \<comment> \<open>vwmacc_vv\<close>,
    (0xfc002057, 0xfc00707f) \<comment> \<open>vwmaccsu_vv\<close>,
    (0x20006057, 0xfc00707f) \<comment> \<open>vaaddu_vx\<close>,
    (0x24006057, 0xfc00707f) \<comment> \<open>vaadd_vx\<close>,
    (0x28006057, 0xfc00707f) \<comment> \<open>vasubu_vx\<close>,
    (0x2c006057, 0xfc00707f) \<comment> \<open>vasub_vx\<close>,
    (0x42006057, 0xfff0707f) \<comment> \<open>vmv_s_x\<close>,
    (0x38006057, 0xfc00707f) \<comment> \<open>vslide1up_vx\<close>,
    (0x3c006057, 0xfc00707f) \<comment> \<open>vslide1down_vx\<close>,
    (0x80006057, 0xfc00707f) \<comment> \<open>vdivu_vx\<close>,
    (0x84006057, 0xfc00707f) \<comment> \<open>vdiv_vx\<close>,
    (0x88006057, 0xfc00707f) \<comment> \<open>vremu_vx\<close>,
    (0x8c006057, 0xfc00707f) \<comment> \<open>vrem_vx\<close>,
    (0x90006057, 0xfc00707f) \<comment> \<open>vmulhu_vx\<close>,
    (0x94006057, 0xfc00707f) \<comment> \<open>vmul_vx\<close>,
    (0x98006057, 0xfc00707f) \<comment> \<open>vmulhsu_vx\<close>,
    (0x9c006057, 0xfc00707f) \<comment> \<open>vmulh_vx\<close>,
    (0xa4006057, 0xfc00707f) \<comment> \<open>vmadd_vx\<close>,
    (0xac006057, 0xfc00707f) \<comment> \<open>vnmsub_vx\<close>,
    (0xb4006057, 0xfc00707f) \<comment> \<open>vmacc_vx\<close>,
    (0xbc006057, 0xfc00707f) \<comment> \<open>vnmsac_vx\<close>,
    (0xc0006057, 0xfc00707f) \<comment> \<open>vwaddu_vx\<close>,
    (0xc4006057, 0xfc00707f) \<comment> \<open>vwadd_vx\<close>,
    (0xc8006057, 0xfc00707f) \<comment> \<open>vwsubu_vx\<close>,
    (0xcc006057, 0xfc00707f) \<comment> \<open>vwsub_vx\<close>,
    (0xd0006057, 0xfc00707f) \<comment> \<open>vwaddu_wx\<close>,
    (0xd4006057, 0xfc00707f) \<comment> \<open>vwadd_wx\<close>,
    (0xd8006057, 0xfc00707f) \<comment> \<open>vwsubu_wx\<close>,
    (0xdc006057, 0xfc00707f) \<comment> \<open>vwsub_wx\<close>,
    (0xe0006057, 0xfc00707f) \<comment> \<open>vwmulu_vx\<close>,
    (0xe8006057, 0xfc00707f) \<comment> \<open>vwmulsu_vx\<close>,
    (0xec006057, 0xfc00707f) \<comment> \<open>vwmul_vx\<close>,
    (0xf0006057, 0xfc00707f) \<comment> \<open>vwmaccu_vx\<close>,
    (0xf4006057, 0xfc00707f) \<comment> \<open>vwmacc_vx\<close>,
    (0xf8006057, 0xfc00707f) \<comment> \<open>vwmaccus_vx\<close>,
    (0xfc006057, 0xfc00707f) \<comment> \<open>vwmaccsu_vx\<close>,
    (0x800002f, 0xf800707f) \<comment> \<open>vamoswapei8_v\<close>,
    (0x2f, 0xf800707f) \<comment> \<open>vamoaddei8_v\<close>,
    (0x2000002f, 0xf800707f) \<comment> \<open>vamoxorei8_v\<close>,
    (0x6000002f, 0xf800707f) \<comment> \<open>vamoandei8_v\<close>,
    (0x4000002f, 0xf800707f) \<comment> \<open>vamoorei8_v\<close>,
    (0x8000002f, 0xf800707f) \<comment> \<open>vamominei8_v\<close>,
    (0xa000002f, 0xf800707f) \<comment> \<open>vamomaxei8_v\<close>,
    (0xc000002f, 0xf800707f) \<comment> \<open>vamominuei8_v\<close>,
    (0xe000002f, 0xf800707f) \<comment> \<open>vamomaxuei8_v\<close>,
    (0x800502f, 0xf800707f) \<comment> \<open>vamoswapei16_v\<close>,
    (0x502f, 0xf800707f) \<comment> \<open>vamoaddei16_v\<close>,
    (0x2000502f, 0xf800707f) \<comment> \<open>vamoxorei16_v\<close>,
    (0x6000502f, 0xf800707f) \<comment> \<open>vamoandei16_v\<close>,
    (0x4000502f, 0xf800707f) \<comment> \<open>vamoorei16_v\<close>,
    (0x8000502f, 0xf800707f) \<comment> \<open>vamominei16_v\<close>,
    (0xa000502f, 0xf800707f) \<comment> \<open>vamomaxei16_v\<close>,
    (0xc000502f, 0xf800707f) \<comment> \<open>vamominuei16_v\<close>,
    (0xe000502f, 0xf800707f) \<comment> \<open>vamomaxuei16_v\<close>,
    (0x800602f, 0xf800707f) \<comment> \<open>vamoswapei32_v\<close>,
    (0x602f, 0xf800707f) \<comment> \<open>vamoaddei32_v\<close>,
    (0x2000602f, 0xf800707f) \<comment> \<open>vamoxorei32_v\<close>,
    (0x6000602f, 0xf800707f) \<comment> \<open>vamoandei32_v\<close>,
    (0x4000602f, 0xf800707f) \<comment> \<open>vamoorei32_v\<close>,
    (0x8000602f, 0xf800707f) \<comment> \<open>vamominei32_v\<close>,
    (0xa000602f, 0xf800707f) \<comment> \<open>vamomaxei32_v\<close>,
    (0xc000602f, 0xf800707f) \<comment> \<open>vamominuei32_v\<close>,
    (0xe000602f, 0xf800707f) \<comment> \<open>vamomaxuei32_v\<close>,
    (0x800702f, 0xf800707f) \<comment> \<open>vamoswapei64_v\<close>,
    (0x702f, 0xf800707f) \<comment> \<open>vamoaddei64_v\<close>,
    (0x2000702f, 0xf800707f) \<comment> \<open>vamoxorei64_v\<close>,
    (0x6000702f, 0xf800707f) \<comment> \<open>vamoandei64_v\<close>,
    (0x4000702f, 0xf800707f) \<comment> \<open>vamoorei64_v\<close>,
    (0x8000702f, 0xf800707f) \<comment> \<open>vamominei64_v\<close>,
    (0xa000702f, 0xf800707f) \<comment> \<open>vamomaxei64_v\<close>,
    (0xc000702f, 0xf800707f) \<comment> \<open>vamominuei64_v\<close>,
    (0xe000702f, 0xf800707f) \<comment> \<open>vamomaxuei64_v\<close>]"

definition insn_list :: "(uint64 \<times> uint64) list" where
  "insn_list = insns_1 @ insns_2 @ insns_3 @ insns_4 @ insns_5 @ insns_6"

section \<open>The table has one answer for each word\<close>

lemmas insns_defs = insns_1_def insns_2_def insns_3_def insns_4_def insns_5_def insns_6_def

lemma insn_list_apart: "apart 32 (map row_of insn_list)"
  unfolding insn_list_def insns_defs by (simp add: row_eval, code_simp)

lemma insn_list_masks: "list_all (\<lambda>e. snd e \<noteq> 0) insn_list"
  unfolding insn_list_def insns_defs by (simp only: append.simps list.pred_inject snd_conv) simp

lemma insn_list_ok: "table_ok (map (desc_of f g) insn_list)"
  by (rule table_ok_of_rows[OF insn_list_apart insn_list_masks])

text \<open>The descriptions of the base instructions, for any functions that execute them.\<close>

definition base_instructions :: "(uint64 \<Rightarrow> uint64 \<Rightarrow> 'f) \<Rightarrow> (uint64 \<Rightarrow> uint64 \<Rightarrow> 'f) \<Rightarrow> 'f insn_desc_t list" where
  "base_instructions f g = map (desc_of f g) insn_list"

text \<open>
  C8: Whatever words have been decoded before, decoding a word ends within the list and
  yields the function of the registered instruction that the word matches with the largest
  mask, and the illegal instruction if it matches none; neither the cache of decoded words
  nor the moves to the front of the list have an effect. The word zero, which matches
  \<open>c.addi4spn\<close> and which the empty cache already answers, may also yield the illegal
  instruction (\<open>c.addi4spn\<close> throws it for this word).
\<close>

theorem decode_insn_most_specific:
  assumes "reachable_decoder ill (base_instructions f g) p"
  shows "\<exists>d p'. decode_insn xlen w p = Some (if xlen = 64 then rv64 d else rv32 d, p')
    \<and> reachable_decoder ill (base_instructions f g) p'
    \<and> (describes (base_instructions f g @ [illegal_desc ill]) w d \<or> w = 0 \<and> d = illegal_desc ill)"
proof -
  have "decoder_ok ill (base_instructions f g) p"
    using assms unfolding base_instructions_def by (rule reachable_decoder_ok[OF insn_list_ok])
  from decode_insn_ok[OF insn_list_ok[of f g, folded base_instructions_def] this, of xlen w]
  show ?thesis
    using reachable_decoder.decoded[OF assms] by metis
qed

text \<open>The decoder right after registration, with the fixed bits for functions.\<close>

theorem decode_insn_most_specific_witness:
  "let p = register_base_instructions 0 (base_instructions (\<lambda>m k. m) (\<lambda>m k. m))
         \<lparr>instructions = [], opcode_cache = (\<lambda>i. illegal_desc 0)\<rparr>
   in reachable_decoder 0 (base_instructions (\<lambda>m k. m) (\<lambda>m k. m)) p
      \<and> (\<exists>d p'. decode_insn 64 0x100093 p = Some (if (64::nat) = 64 then rv64 d else rv32 d, p')
          \<and> reachable_decoder 0 (base_instructions (\<lambda>m k. m) (\<lambda>m k. m)) p'
          \<and> (describes (base_instructions (\<lambda>m k. m) (\<lambda>m k. m) @ [illegal_desc 0]) 0x100093 d
             \<or> (0x100093 :: uint64) = 0 \<and> d = illegal_desc 0))"
proof -
  let ?T = "base_instructions (\<lambda>m k. m) (\<lambda>m k. m)"
  have "reachable_decoder 0 ?T (register_base_instructions 0 ?T \<lparr>instructions = [], opcode_cache = (\<lambda>i. illegal_desc 0)\<rparr>)"
    by (rule reachable_decoder.registered) simp
  then show ?thesis
    unfolding Let_def by (intro conjI decode_insn_most_specific)
qed

end
