(* ===== verification/Rounding.thy ===== *)
theory Rounding
  imports Prelude
begin

text \<open>
  What IEEE 754 asks of a rounding operation, stated on real numbers and independent of
  any code: rounding of a magnitude to an integer in a given mode (\<open>rnd\<close>), rounding to the
  numbers of a binary format (\<open>fp_round\<close>), and the magnitude a bit pattern stands for
  (\<open>fp_mag\<close>). The lemmas give the two facts the SoftFloat routines rest on: a value kept with
  a sticky lowest bit (\<open>jam\<close>) rounds like the exact value, and packing an exponent and a
  significand by addition gives the bit pattern of the rounded magnitude.
\<close>

section \<open>Rounding a magnitude to an integer\<close>

datatype rounding = RNE | RTZ | RDN | RUP | RMM | ROD

text \<open>
  Whether the magnitude with fractional part \<open>f\<close> between two integers goes to the upper one:
  \<open>neg\<close> is the sign of the number, \<open>od\<close> says that the lower integer is odd.
\<close>

fun round_up :: "rounding \<Rightarrow> bool \<Rightarrow> bool \<Rightarrow> real \<Rightarrow> bool" where
  "round_up RNE neg od f \<longleftrightarrow> 1 / 2 < f \<or> f = 1 / 2 \<and> od"
| "round_up RTZ neg od f \<longleftrightarrow> False"
| "round_up RDN neg od f \<longleftrightarrow> neg \<and> 0 < f"
| "round_up RUP neg od f \<longleftrightarrow> \<not> neg \<and> 0 < f"
| "round_up RMM neg od f \<longleftrightarrow> 1 / 2 \<le> f"
| "round_up ROD neg od f \<longleftrightarrow> \<not> od \<and> 0 < f"

definition rnd :: "rounding \<Rightarrow> bool \<Rightarrow> real \<Rightarrow> int" where
  "rnd m neg x = \<lfloor>x\<rfloor> + of_bool (round_up m neg (odd \<lfloor>x\<rfloor>) (frac x))"

text \<open>\<open>jam\<close> keeps the integer part and remembers in its lowest bit that something was cut off.\<close>

definition jam :: "real \<Rightarrow> int" where
  "jam x = rnd ROD False x"

lemma rnd_of_int [simp]: "rnd m neg (of_int n) = n"
  by (cases m) (simp_all add: rnd_def)

lemma rnd_bounds: "\<lfloor>x\<rfloor> \<le> rnd m neg x" "rnd m neg x \<le> \<lceil>x\<rceil>"
proof -
  have "round_up m neg od 0 = False" for od
    by (cases m) simp_all
  then show "\<lfloor>x\<rfloor> \<le> rnd m neg x" "rnd m neg x \<le> \<lceil>x\<rceil>"
    by (auto simp: rnd_def ceiling_altdef frac_def)
qed

lemma jam_alt: "jam x = (if x = of_int \<lfloor>x\<rfloor> then \<lfloor>x\<rfloor> else if even \<lfloor>x\<rfloor> then \<lfloor>x\<rfloor> + 1 else \<lfloor>x\<rfloor>)"
proof -
  have "of_int \<lfloor>x\<rfloor> < x \<longleftrightarrow> x \<noteq> of_int \<lfloor>x\<rfloor>"
    using of_int_floor_le[of x] by linarith
  then show ?thesis
    by (auto simp: jam_def rnd_def frac_def)
qed

lemma jam_of_int [simp]: "jam (of_int n) = n"
  by (simp add: jam_def)

lemma jam_of_nat [simp]: "jam (of_nat n) = int n"
  using jam_of_int[of "int n"] by simp

lemma floor_quot_pow2: "\<lfloor>x / 2 ^ k\<rfloor> = \<lfloor>x\<rfloor> div 2 ^ k" for x :: real
  using floor_divide_real_eq_div[of "2 ^ k" x] by simp

lemma real_div_mod_pow2:
  "real_of_int n = of_int (n div 2 ^ k) * 2 ^ k + of_int (n mod 2 ^ k)"
proof -
  have "real_of_int (n div 2 ^ k * 2 ^ k + n mod 2 ^ k) =
      of_int (n div 2 ^ k) * 2 ^ k + of_int (n mod 2 ^ k)"
    by (simp only: of_int_add of_int_mult of_int_power of_int_numeral)
  then show ?thesis
    by (simp only: div_mult_mod_eq)
qed

lemma frac_quot_pow2: "frac (x / 2 ^ k) = (of_int (\<lfloor>x\<rfloor> mod 2 ^ k) + frac x) / 2 ^ k" for x :: real
  using real_div_mod_pow2[of "\<lfloor>x\<rfloor>" k] by (simp add: frac_def floor_quot_pow2 field_simps)

lemma rnd_nat_quot_pow2:
  "rnd m neg (of_nat s / 2 ^ k) =
     int (s div 2 ^ k) + of_bool (round_up m neg (odd (s div 2 ^ k)) (of_nat (s mod 2 ^ k) / 2 ^ k))"
proof -
  have "\<lfloor>(of_nat s :: real) / 2 ^ k\<rfloor> = int (s div 2 ^ k)"
    by (simp add: floor_quot_pow2 zdiv_int)
  moreover have "frac ((of_nat s :: real) / 2 ^ k) = of_nat (s mod 2 ^ k) / 2 ^ k"
  proof -
    have "int s mod 2 ^ k = int (s mod 2 ^ k)"
      by (simp add: zmod_int)
    then show ?thesis
      by (simp add: frac_quot_pow2)
  qed
  ultimately show ?thesis
    by (simp add: rnd_def)
qed

text \<open>A sticky value added to or subtracted from an even integer stays sticky.\<close>

lemma jam_even_add:
  assumes "even e"
  shows "jam (of_int e + y) = e + jam y"
  using assms by (simp add: jam_alt)

lemma jam_even_minus:
  assumes "even e"
  shows "jam (of_int e - y) = e - jam y"
proof (cases "y = of_int \<lfloor>y\<rfloor>")
  case True
  then obtain n where "y = of_int n"
    by blast
  then show ?thesis
    using jam_of_int[of "e - n"] by simp
next
  case False
  then have fl: "\<lfloor>of_int e - y\<rfloor> = e - \<lfloor>y\<rfloor> - 1" and nz: "of_int e - y \<noteq> of_int (e - \<lfloor>y\<rfloor> - 1)"
    by (linarith, simp_all add: floor_eq_iff) linarith+
  show ?thesis
    using assms False nz by (auto simp: jam_alt fl)
qed

text \<open>
  The sticky bit is enough: rounding away two or more bits of the jammed value gives what
  rounding the exact value gives, in every mode.
\<close>

lemma div_mod_add_below:
  fixes n c M :: int
  assumes "0 < M" and "0 \<le> c" and "n mod M + c < M"
  shows "(n + c) div M = n div M" and "(n + c) mod M = n mod M + c"
proof -
  show md: "(n + c) mod M = n mod M + c"
    using assms by (subst mod_add_left_eq[symmetric]) (simp add: mod_pos_pos_trivial)
  have "(n + c) div M * M = n div M * M"
    using md div_mult_mod_eq[of "n + c" M] div_mult_mod_eq[of n M] by linarith
  then show "(n + c) div M = n div M"
    using assms(1) by simp
qed

lemma jam_div_mod:
  assumes "0 < k"
  shows "jam y div 2 ^ k = \<lfloor>y\<rfloor> div 2 ^ k"
    and "jam y mod 2 ^ k = \<lfloor>y\<rfloor> mod 2 ^ k + of_bool (0 < frac y \<and> even (\<lfloor>y\<rfloor> mod 2 ^ k))"
proof -
  define b where "b \<longleftrightarrow> 0 < frac y \<and> even \<lfloor>y\<rfloor>"
  have dv: "(2::int) dvd 2 ^ k"
    using assms by (cases k) simp_all
  have eq: "jam y = \<lfloor>y\<rfloor> + of_bool b"
    by (simp add: jam_def rnd_def b_def conj_commute)
  have ev: "even (\<lfloor>y\<rfloor> mod 2 ^ k) \<longleftrightarrow> even \<lfloor>y\<rfloor>"
    using dv by (simp add: dvd_mod_iff)
  have lt: "\<lfloor>y\<rfloor> mod 2 ^ k + of_bool b < 2 ^ k"
  proof (cases b)
    case True
    then have "\<lfloor>y\<rfloor> mod 2 ^ k + 1 \<noteq> 2 ^ k"
      using ev dv unfolding b_def by (metis even_plus_one_iff)
    moreover have "\<lfloor>y\<rfloor> mod 2 ^ k < 2 ^ k"
      by simp
    ultimately have "\<lfloor>y\<rfloor> mod 2 ^ k + 1 < 2 ^ k"
      by linarith
    then show ?thesis
      using True by simp
  qed simp
  show "jam y div 2 ^ k = \<lfloor>y\<rfloor> div 2 ^ k"
    unfolding eq by (rule div_mod_add_below(1)) (use lt in simp_all)
  show "jam y mod 2 ^ k = \<lfloor>y\<rfloor> mod 2 ^ k + of_bool (0 < frac y \<and> even (\<lfloor>y\<rfloor> mod 2 ^ k))"
    unfolding eq ev b_def[symmetric] by (rule div_mod_add_below(2)) (use lt in simp_all)
qed

lemma rnd_jam:
  assumes "2 \<le> k"
  shows "rnd m neg (of_int (jam y) / 2 ^ k) = rnd m neg (y / 2 ^ k)"
proof -
  define r where "r = \<lfloor>y\<rfloor> mod 2 ^ k"
  define f where "f = frac y"
  define h :: int where "h = 2 ^ (k - 1)"
  have k: "(2::int) ^ k = 2 * h" "even h" "(2::real) ^ k = 2 * of_int h" "0 < h"
    using assms by (simp_all add: h_def power_eq_if[of _ k] power_eq_if[of _ "k - 1"])
  have f: "0 \<le> f" "f < 1"
    by (simp_all add: f_def frac_lt_1)
  have q: "\<lfloor>of_int (jam y) / (2::real) ^ k\<rfloor> = \<lfloor>y / 2 ^ k\<rfloor>"
    using assms by (simp add: floor_quot_pow2 jam_div_mod(1))
  have fx: "frac (y / 2 ^ k) = (of_int r + f) / (2 * of_int h)"
    unfolding r_def f_def k(3)[symmetric] by (rule frac_quot_pow2)
  have fj: "frac (of_int (jam y) / (2::real) ^ k) = of_int (r + of_bool (0 < f \<and> even r)) / (2 * of_int h)"
    using assms frac_quot_pow2[of "of_int (jam y)" k]
    by (simp add: jam_div_mod(2) r_def f_def k(3))
  have r: "0 \<le> r"
    by (simp add: r_def)
  define r' where "r' = r + of_bool (0 < f \<and> even r)"
  have c: "0 < r' \<longleftrightarrow> 0 < of_int r + f" "h < r' \<longleftrightarrow> of_int h < of_int r + f"
      "h = r' \<longleftrightarrow> of_int h = of_int r + f"
  proof -
    show "0 < r' \<longleftrightarrow> 0 < of_int r + f"
      using f r unfolding r'_def by (cases "f = 0"; cases "even r") (auto, presburger+)
    show "h < r' \<longleftrightarrow> of_int h < of_int r + f"
    proof (cases "f = 0")
      case False
      then have "of_int h < of_int r + f \<longleftrightarrow> h \<le> r"
        using f by linarith
      then show ?thesis
        using False f k(2) by (cases "even r") (auto simp: r'_def, presburger+)
    qed (simp add: r'_def)
    show "h = r' \<longleftrightarrow> of_int h = of_int r + f"
    proof (cases "f = 0")
      case False
      have "of_int h \<noteq> of_int r + f"
      proof
        assume "real_of_int h = of_int r + f"
        then have "0 < h - r" "h - r < 1"
          using f False by linarith+
        then show False by simp
      qed
      then show ?thesis
        using False f k(2) by (cases "even r") (auto simp: r'_def)
    qed (simp add: r'_def)
  qed
  have "round_up m neg od (of_int r' / (2 * of_int h)) = round_up m neg od ((of_int r + f) / (2 * of_int h))"
    for od
    using c k(4) by (cases m) (auto simp: field_simps)
  then show ?thesis
    by (simp add: rnd_def q fx fj r'_def)
qed

section \<open>Rounding to a binary format\<close>

text \<open>
  A format is given by its number \<open>p\<close> of fraction bits and the exponent \<open>emin\<close> of its
  smallest positive number. \<open>quantum\<close> is the exponent of the unit in the last place at \<open>x\<close>.
\<close>

definition quantum :: "nat \<Rightarrow> int \<Rightarrow> real \<Rightarrow> int" where
  "quantum p emin x = max (\<lfloor>log 2 x\<rfloor> - int p) emin"

definition fp_round :: "nat \<Rightarrow> int \<Rightarrow> rounding \<Rightarrow> bool \<Rightarrow> real \<Rightarrow> real" where
  "fp_round p emin m neg x =
     of_int (rnd m neg (x / 2 powi quantum p emin x)) * 2 powi quantum p emin x"

text \<open>The magnitude that the lower bits \<open>b\<close> of a pattern (all but the sign) stand for.\<close>

definition fp_mag :: "nat \<Rightarrow> int \<Rightarrow> nat \<Rightarrow> real" where
  "fp_mag p emin b =
     (if b div 2 ^ p = 0 then of_nat (b mod 2 ^ p) * 2 powi emin
      else of_nat (2 ^ p + b mod 2 ^ p) * 2 powi (emin + int (b div 2 ^ p) - 1))"

lemma powi_plus: "(2::real) powi (u + v) = 2 powi u * 2 powi v"
  by (simp add: power_int_add)

lemma floor_log2_scaled:
  assumes "2 ^ n \<le> y" and "y < 2 ^ Suc n"
  shows "\<lfloor>log 2 (y * 2 powi u)\<rfloor> = int n + u"
proof -
  have y: "0 < y"
    using assms(1) by (meson less_le_trans zero_less_numeral zero_less_power)
  have "log 2 (y * 2 powi u) = log 2 y + of_int u"
    using y by (simp add: log_mult flip: powr_real_of_int')
  moreover have "\<lfloor>log 2 y\<rfloor> = int n"
    using assms y by (intro floor_unique)
      (auto simp: le_log_iff log_less_iff powr_realpow powr_add)
  ultimately show ?thesis
    by simp
qed

lemma quantum_scaled:
  assumes "2 ^ n \<le> y" and "y < 2 ^ Suc n"
  shows "quantum p emin (y * 2 powi u) = max (int n + u - int p) emin"
  using assms by (simp add: quantum_def floor_log2_scaled)

lemma powi_scale_diff: "u \<le> q \<Longrightarrow> y * 2 powi u / 2 powi q = y / 2 ^ nat (q - u)" for y :: real
  by (simp add: field_simps power_int_add[symmetric] flip: power_int_of_nat)

lemma fp_round_scaled:
  assumes "2 ^ n \<le> y" and "y < 2 ^ Suc n" and "q = max (int n + u - int p) emin" and "u \<le> q"
  shows "fp_round p emin m neg (y * 2 powi u) = of_int (rnd m neg (y / 2 ^ nat (q - u))) * 2 powi q"
proof -
  have "quantum p emin (y * 2 powi u) = q"
    using assms by (simp only: quantum_scaled)
  then show ?thesis
    using assms(4) by (simp add: fp_round_def powi_scale_diff)
qed

lemma jam_range:
  assumes "2 ^ n \<le> y" and "y < 2 ^ Suc n" and "0 < n"
  shows "2 ^ n \<le> jam y" and "jam y < 2 ^ Suc n"
proof -
  have lo: "2 ^ n \<le> \<lfloor>y\<rfloor>"
    using assms(1) by (simp add: le_floor_iff)
  have hi: "\<lfloor>y\<rfloor> < 2 ^ Suc n"
    using assms(2) by (simp add: floor_less_iff)
  show "2 ^ n \<le> jam y"
    using lo rnd_bounds(1)[of y ROD False] by (simp add: jam_def)
  have "even \<lfloor>y\<rfloor> \<Longrightarrow> \<lfloor>y\<rfloor> + 1 \<noteq> 2 ^ Suc n"
    by (metis even_plus_one_iff dvd_triv_left power_Suc)
  then show "jam y < 2 ^ Suc n"
    using hi by (auto simp: jam_alt)
qed

lemma fp_round_jam:
  assumes "2 ^ n \<le> y" and "y < 2 ^ Suc n" and "p + 2 \<le> n"
  shows "fp_round p emin m neg (of_int (jam y) * 2 powi u) = fp_round p emin m neg (y * 2 powi u)"
proof -
  define q where "q = max (int n + u - int p) emin"
  have q: "u + 2 \<le> q"
    using assms(3) by (simp add: q_def)
  have j: "2 ^ n \<le> real_of_int (jam y)" "real_of_int (jam y) < 2 ^ Suc n"
  proof -
    have n: "0 < n"
      using assms(3) by simp
    have "real_of_int (2 ^ n) \<le> of_int (jam y)" "of_int (jam y) < real_of_int (2 ^ Suc n)"
      using jam_range[OF assms(1,2) n] by (simp_all only: of_int_le_iff of_int_less_iff)
    then show "2 ^ n \<le> real_of_int (jam y)" "real_of_int (jam y) < 2 ^ Suc n"
      by (simp_all only: of_int_power of_int_numeral)
  qed
  show ?thesis
    using q fp_round_scaled[OF j q_def] fp_round_scaled[OF assms(1,2) q_def]
    by (simp add: rnd_jam)
qed

lemma fp_mag_pack:
  assumes "e = 0 \<or> 2 ^ p \<le> n" and "n \<le> 2 ^ Suc p"
  shows "fp_mag p emin (e * 2 ^ p + n) = of_nat n * 2 powi (emin + int e)"
proof -
  consider "n < 2 ^ p" | "2 ^ p \<le> n" "n < 2 ^ Suc p" | "n = 2 ^ Suc p"
    using assms(2) by linarith
  then show ?thesis
  proof cases
    case 1
    with assms(1) show ?thesis
      by (simp add: fp_mag_def)
  next
    case 2
    then have "n div 2 ^ p = 1" "n mod 2 ^ p = n - 2 ^ p"
      by (auto simp: div_nat_eqI mod_nat_eqI le_mod_geq)
    with 2 show ?thesis
      by (simp add: fp_mag_def)
  next
    case 3
    then have "n div 2 ^ p = 2" "n mod 2 ^ p = 0"
      by simp_all
    with 3 show ?thesis
      by (simp add: fp_mag_def power_int_add)
  qed
qed

section \<open>Rounding by adding an increment\<close>

text \<open>
  The routines round an integer by \<open>k\<close> bits by adding an increment that depends on the mode
  and cutting the bits off, with a correction for ties in the nearest-even mode and a sticky
  bit in the odd mode.
\<close>

definition rnd_incr :: "nat \<Rightarrow> rounding \<Rightarrow> bool \<Rightarrow> nat" where
  "rnd_incr k m neg =
     (case m of RNE \<Rightarrow> 2 ^ (k - 1) | RMM \<Rightarrow> 2 ^ (k - 1)
      | RDN \<Rightarrow> if neg then 2 ^ k - 1 else 0
      | RUP \<Rightarrow> if neg then 0 else 2 ^ k - 1
      | RTZ \<Rightarrow> 0 | ROD \<Rightarrow> 0)"

definition rnd_by_incr :: "nat \<Rightarrow> rounding \<Rightarrow> bool \<Rightarrow> nat \<Rightarrow> nat" where
  "rnd_by_incr k m neg s =
     (let n = (s + rnd_incr k m neg) div 2 ^ k
      in if m = ROD \<and> s mod 2 ^ k \<noteq> 0 then n OR 1
         else if m = RNE \<and> s mod 2 ^ k = 2 ^ (k - 1) \<and> odd n then n - 1 else n)"

lemma rnd_incr_less: "0 < k \<Longrightarrow> rnd_incr k m neg < 2 ^ k"
  by (cases m; cases k) (simp_all add: rnd_incr_def)

lemma div_add_incr:
  fixes s i :: nat
  assumes "i < 2 ^ k"
  shows "(s + i) div 2 ^ k = s div 2 ^ k + of_bool (2 ^ k \<le> s mod 2 ^ k + i)"
proof -
  have "s + i = s div 2 ^ k * 2 ^ k + (s mod 2 ^ k + i)"
    using div_mult_mod_eq[of s "2 ^ k"] by linarith
  then have "(s + i) div 2 ^ k = s div 2 ^ k + (s mod 2 ^ k + i) div 2 ^ k"
    by (metis div_mult_self3 power_eq_0_iff zero_neq_numeral add.commute)
  moreover have "(s mod 2 ^ k + i) div 2 ^ k = of_bool (2 ^ k \<le> s mod 2 ^ k + i)"
  proof (cases "2 ^ k \<le> s mod 2 ^ k + i")
    case True
    moreover have "s mod 2 ^ k < 2 ^ k"
      by simp
    ultimately have "(s mod 2 ^ k + i) div 2 ^ k = 1"
      using assms by (intro div_nat_eqI) (simp_all add: add_less_mono)
    with True show ?thesis
      by simp
  qed simp
  ultimately show ?thesis
    by simp
qed

lemma rnd_by_incr_correct:
  assumes "0 < k"
  shows "rnd m neg (of_nat s / 2 ^ k) = int (rnd_by_incr k m neg s)"
proof -
  define q r where "q = s div 2 ^ k" and "r = s mod 2 ^ k"
  define h :: nat where "h = 2 ^ (k - 1)"
  have k: "(2::nat) ^ k = 2 * h" "(2::real) ^ k = 2 * of_nat h" "0 < h"
    using assms by (cases k; simp add: h_def)+
  have h1: "2 ^ (k - Suc 0) = h"
    by (simp add: h_def)
  have r: "r < 2 * h"
    by (simp add: r_def flip: k(1))
  have n: "(s + rnd_incr k m neg) div 2 ^ k = q + of_bool (2 * h \<le> r + rnd_incr k m neg)"
    using div_add_incr[OF rnd_incr_less[OF assms]] by (simp add: q_def r_def k(1))
  have f: "of_nat r / (2 * of_nat h) = (1/2 :: real) \<longleftrightarrow> r = h"
      "(1/2 :: real) < of_nat r / (2 * of_nat h) \<longleftrightarrow> h < r"
      "(1/2 :: real) \<le> of_nat r / (2 * of_nat h) \<longleftrightarrow> h \<le> r"
      "(0 :: real) < of_nat r / (2 * of_nat h) \<longleftrightarrow> 0 < r"
    using k(3) by (auto simp: field_simps)
  have L: "rnd m neg (of_nat s / 2 ^ k) = int q + of_bool (round_up m neg (odd q) (of_nat r / (2 * of_nat h)))"
    by (simp only: rnd_nat_quot_pow2 q_def r_def k(2)[symmetric])
  show ?thesis
    unfolding L rnd_by_incr_def Let_def n r_def[symmetric] h_def[symmetric]
    using r k(3)
    by (cases m) (auto simp: f rnd_incr_def k(1) h1 or_Suc_0_eq)
qed

section \<open>Correct rounding in a format with \<open>p\<close> fraction and \<open>w\<close> exponent bits\<close>

definition fp_bias :: "nat \<Rightarrow> int" where
  "fp_bias w = 2 ^ (w - 1) - 1"

definition fp_emin :: "nat \<Rightarrow> nat \<Rightarrow> int" where
  "fp_emin p w = 1 - fp_bias w - int p"

definition fp_inf :: "nat \<Rightarrow> nat \<Rightarrow> nat" where
  "fp_inf p w = (2 ^ w - 1) * 2 ^ p"

text \<open>
  Whether a magnitude beyond the format's range goes to infinity (instead of to the largest
  finite number).
\<close>

fun overflow_to_inf :: "rounding \<Rightarrow> bool \<Rightarrow> bool" where
  "overflow_to_inf RNE neg \<longleftrightarrow> True"
| "overflow_to_inf RMM neg \<longleftrightarrow> True"
| "overflow_to_inf RDN neg \<longleftrightarrow> neg"
| "overflow_to_inf RUP neg \<longleftrightarrow> \<not> neg"
| "overflow_to_inf RTZ neg \<longleftrightarrow> False"
| "overflow_to_inf ROD neg \<longleftrightarrow> False"

text \<open>
  \<open>b\<close> is the pattern (without the sign) of the magnitude \<open>x\<close> rounded in mode \<open>m\<close>, overflow
  included.
\<close>

definition fp_is_round :: "nat \<Rightarrow> nat \<Rightarrow> rounding \<Rightarrow> bool \<Rightarrow> real \<Rightarrow> nat \<Rightarrow> bool" where
  "fp_is_round p w m neg x b \<longleftrightarrow>
     (let y = fp_round p (fp_emin p w) m neg x
      in if y < 2 powi (fp_bias w + 1)
         then b < fp_inf p w \<and> fp_mag p (fp_emin p w) b = y
         else b = (if overflow_to_inf m neg then fp_inf p w else fp_inf p w - 1))"

lemma overflow_to_inf_incr:
  assumes "0 < k"
  shows "overflow_to_inf m neg \<longleftrightarrow> rnd_incr k m neg \<noteq> 0"
proof -
  have "(1::nat) < 2 ^ k"
    using assms by (intro one_less_power) simp_all
  then show ?thesis
    by (cases m) (auto simp: rnd_incr_def)
qed

text \<open>
  A significand \<open>s\<close> of \<open>p + k + 1\<close> bits with exponent \<open>e\<close>: what is rounded away is \<open>k\<close> bits of
  the significand, shifted right first where the result is subnormal.
\<close>

definition rp_sig :: "int \<Rightarrow> nat \<Rightarrow> nat" where
  "rp_sig e s = (if e < 0 then nat (jam (of_nat s / 2 ^ nat (- e))) else s)"

lemma jam_nonneg:
  assumes "0 \<le> y"
  shows "0 \<le> jam y"
proof -
  have "0 \<le> \<lfloor>y\<rfloor>"
    using assms by simp
  then show ?thesis
    using rnd_bounds(1)[of y ROD False] unfolding jam_def by linarith
qed

lemma jam_pos:
  assumes "0 < y"
  shows "0 < jam y"
proof (cases "\<lfloor>y\<rfloor> = 0")
  case True
  then show ?thesis
    using assms by (simp add: jam_alt)
next
  case False
  then have "0 < \<lfloor>y\<rfloor>"
    using assms by linarith
  then show ?thesis
    using rnd_bounds(1)[of y ROD False] unfolding jam_def by linarith
qed

lemma rp_sig_round:
  assumes "2 \<le> k"
  shows "rnd m neg (of_nat (rp_sig e s) / 2 ^ k) =
    rnd m neg (of_nat s / 2 ^ nat (int k + max 0 (- e)))"
proof (cases "e < 0")
  case True
  then have n: "nat (int k - e) = nat (- e) + k"
    by simp
  have "0 \<le> jam (of_nat s / 2 ^ nat (- e))"
    by (simp add: jam_nonneg)
  with True show ?thesis
    using rnd_jam[OF assms, of m neg "of_nat s / 2 ^ nat (- e)"]
    by (simp add: rp_sig_def n power_add)
qed (simp add: rp_sig_def)

lemma rp_fp_round:
  assumes "2 ^ (p + k) \<le> s" and "s < 2 ^ (p + k + 1)" and "2 \<le> k"
  shows "fp_round p emin m neg (of_nat s * 2 powi (emin + e - int k)) =
    of_nat (rnd_by_incr k m neg (rp_sig e s)) * 2 powi (emin + max 0 e)"
proof -
  have s: "2 ^ (p + k) \<le> real s" "real s < 2 ^ Suc (p + k)"
    using assms(1,2) by (metis of_nat_le_iff of_nat_numeral of_nat_power,
        metis Suc_eq_plus1 of_nat_less_iff of_nat_numeral of_nat_power)
  have q: "emin + max 0 e = max (int (p + k) + (emin + e - int k) - int p) emin"
    by simp
  have d: "emin + max 0 e - (emin + e - int k) = int k + max 0 (- e)"
    by simp
  show ?thesis
    using fp_round_scaled[OF s q, of m neg] rp_sig_round[OF assms(3), of m neg e s]
      rnd_by_incr_correct[of k m neg "rp_sig e s"] assms(3)
    by (simp add: d)
qed

lemma rnd_by_incr_bounds:
  assumes "0 < k" and "a * 2 ^ k \<le> s" and "s < b * 2 ^ k"
  shows "a \<le> rnd_by_incr k m neg s" and "rnd_by_incr k m neg s \<le> b"
proof -
  have n: "int (rnd_by_incr k m neg s) = rnd m neg (of_nat s / 2 ^ k)"
    using rnd_by_incr_correct[OF assms(1)] by simp
  have "int (s div 2 ^ k) \<le> rnd m neg (of_nat s / 2 ^ k)" "rnd m neg (of_nat s / 2 ^ k) \<le> int (s div 2 ^ k) + 1"
    by (simp_all add: rnd_nat_quot_pow2)
  moreover have "a \<le> s div 2 ^ k" "s div 2 ^ k < b"
    using assms(2,3) by (simp_all add: less_eq_div_iff_mult_less_eq less_mult_imp_div_less)
  ultimately show "a \<le> rnd_by_incr k m neg s" "rnd_by_incr k m neg s \<le> b"
    unfolding n[symmetric] by linarith+
qed

text \<open>
  The pattern the routines build: exponent and rounded significand, added. It is the
  correctly rounded pattern as long as it stays below infinity, which is exactly when the
  exponent is small enough or the significand does not carry out of it.
\<close>

lemma scaled_pow2_bounds:
  "n \<le> 2 ^ j \<Longrightarrow> of_nat n * 2 powi z \<le> (2 powi (int j + z) :: real)"
  "n < 2 ^ j \<Longrightarrow> of_nat n * 2 powi z < (2 powi (int j + z) :: real)"
  "2 ^ j \<le> n \<Longrightarrow> (2 powi (int j + z) :: real) \<le> of_nat n * 2 powi z"
proof -
  have eq: "(2 powi (int j + z) :: real) = of_nat (2 ^ j) * 2 powi z"
    by (simp add: power_int_add)
  have pos: "(0::real) < 2 powi z"
    by simp
  show "n \<le> 2 ^ j \<Longrightarrow> of_nat n * 2 powi z \<le> (2 powi (int j + z) :: real)"
    unfolding eq using pos by (intro mult_right_mono) (simp_all only: of_nat_le_iff less_imp_le)
  show "n < 2 ^ j \<Longrightarrow> of_nat n * 2 powi z < (2 powi (int j + z) :: real)"
    unfolding eq using pos by (intro mult_strict_right_mono) (simp_all only: of_nat_less_iff)
  show "2 ^ j \<le> n \<Longrightarrow> (2 powi (int j + z) :: real) \<le> of_nat n * 2 powi z"
    unfolding eq using pos by (intro mult_right_mono) (simp_all only: of_nat_le_iff less_imp_le)
qed

lemma pow2_bias: "0 < w \<Longrightarrow> (2::int) ^ w = 2 * fp_bias w + 2"
  by (cases w) (simp_all add: fp_bias_def)

lemma rp_sig_bounds:
  assumes "2 ^ (p + k) \<le> s" and "s < 2 ^ (p + k + 1)"
  shows "rp_sig e s < 2 ^ (p + 1) * 2 ^ k" and "0 \<le> e \<Longrightarrow> 2 ^ p * 2 ^ k \<le> rp_sig e s"
proof -
  have "nat (jam (of_nat s / 2 ^ nat (- e))) \<le> s"
  proof -
    have "of_nat s / (2::real) ^ nat (- e) \<le> of_nat s"
      using mult_left_mono[of 1 "2 ^ nat (- e)" "real s"] by (simp add: divide_le_eq)
    then have "\<lceil>of_nat s / (2::real) ^ nat (- e)\<rceil> \<le> int s"
      by (simp add: ceiling_le_iff)
    then show ?thesis
      using rnd_bounds(2)[where x = "of_nat s / 2 ^ nat (- e)" and m = ROD and neg = False]
      unfolding jam_def by linarith
  qed
  then show "rp_sig e s < 2 ^ (p + 1) * 2 ^ k"
    using assms(2) by (simp add: rp_sig_def power_add)
  show "0 \<le> e \<Longrightarrow> 2 ^ p * 2 ^ k \<le> rp_sig e s"
    using assms(1) by (simp add: rp_sig_def power_add)
qed

lemma rp_sig_rounded_bounds:
  assumes "2 ^ (p + k) \<le> s" and "s < 2 ^ (p + k + 1)" and "0 < k"
  shows "rnd_by_incr k m neg (rp_sig e s) \<le> 2 ^ (p + 1)"
    and "0 \<le> e \<Longrightarrow> 2 ^ p \<le> rnd_by_incr k m neg (rp_sig e s)"
proof -
  note b = rp_sig_bounds[OF assms(1,2), of e]
  show "rnd_by_incr k m neg (rp_sig e s) \<le> 2 ^ (p + 1)"
    using rnd_by_incr_bounds(2)[OF assms(3), of 0] b(1) by simp
  show "2 ^ p \<le> rnd_by_incr k m neg (rp_sig e s)" if "0 \<le> e"
    using rnd_by_incr_bounds(1)[OF assms(3) b(2) b(1)] that .
qed

lemma rp_pack_correct:
  assumes s: "2 ^ (p + k) \<le> s" "s < 2 ^ (p + k + 1)" and k: "2 \<le> k" and w: "2 \<le> w"
    and n: "n = rnd_by_incr k m neg (rp_sig e s)"
    and fit: "max 0 e < 2 ^ w - 3 \<or> max 0 e = 2 ^ w - 3 \<and> n < 2 ^ (p + 1)"
  shows "fp_is_round p w m neg (of_nat s * 2 powi (fp_emin p w + e - int k)) (nat (max 0 e) * 2 ^ p + n)"
    and "nat (max 0 e) * 2 ^ p + n < fp_inf p w"
    and "fp_round p (fp_emin p w) m neg (of_nat s * 2 powi (fp_emin p w + e - int k)) < 2 powi (fp_bias w + 1)"
proof -
  define E where "E = nat (max 0 e)"
  have k0: "0 < k"
    using k by simp
  have nb: "n \<le> 2 ^ (p + 1)" "E = 0 \<or> 2 ^ p \<le> n"
  proof -
    show "n \<le> 2 ^ (p + 1)"
      using rp_sig_rounded_bounds(1)[OF s k0] n by simp
    show "E = 0 \<or> 2 ^ p \<le> n"
      using rp_sig_rounded_bounds(2)[OF s k0, of e] n by (cases "0 \<le> e") (simp_all add: E_def)
  qed
  have w2: "int (2 ^ w) = 2 * fp_bias w + 2"
    using pow2_bias[of w] w by simp
  show inf: "nat (max 0 e) * 2 ^ p + n < fp_inf p w"
  proof -
    have "E + 2 < 2 ^ w - 1 \<or> E + 2 = 2 ^ w - 1 \<and> n < 2 ^ (p + 1)"
    proof -
      have "int E + 3 < int (2 ^ w) \<or> int E + 3 = int (2 ^ w) \<and> n < 2 ^ (p + 1)"
        using fit by (auto simp: E_def)
      then show ?thesis
        by linarith
    qed
    then have "E * 2 ^ p + n < (2 ^ w - 1) * 2 ^ p"
    proof
      assume "E + 2 < 2 ^ w - 1"
      then have "(E + 2) * 2 ^ p < (2 ^ w - 1) * 2 ^ p"
        by (rule mult_less_mono1) simp
      then show ?thesis
        using nb(1) by (simp add: distrib_right)
    next
      assume *: "E + 2 = 2 ^ w - 1 \<and> n < 2 ^ (p + 1)"
      have "E * 2 ^ p + n < (E + 2) * 2 ^ p"
        using conjunct2[OF *] by (simp add: distrib_right)
      with * show ?thesis
        by (simp only:)
    qed
    then show ?thesis
      by (simp add: E_def fp_inf_def)
  qed
  have y: "fp_round p (fp_emin p w) m neg (of_nat s * 2 powi (fp_emin p w + e - int k)) =
      of_nat n * 2 powi (fp_emin p w + int E)"
    using rp_fp_round[OF s k] by (simp add: n E_def)
  have ey: "int (p + 1) + (fp_emin p w + int E) = 2 - fp_bias w + int E"
    by (simp add: fp_emin_def)
  have fin: "of_nat n * 2 powi (fp_emin p w + int E) < (2 powi (fp_bias w + 1) :: real)"
  proof (cases "max 0 e < 2 ^ w - 3")
    case True
    then have "2 - fp_bias w + int E < fp_bias w + 1"
      using w2 by (simp add: E_def max_def split: if_splits)
    then have "(2::real) powi (2 - fp_bias w + int E) < 2 powi (fp_bias w + 1)"
      by (intro power_int_strict_increasing) simp_all
    then show ?thesis
      using scaled_pow2_bounds(1)[OF nb(1), of "fp_emin p w + int E"] unfolding ey by linarith
  next
    case False
    then have "n < 2 ^ (p + 1)" "2 - fp_bias w + int E = fp_bias w + 1"
      using fit w2 by (auto simp: E_def)
    then show ?thesis
      using scaled_pow2_bounds(2)[of n "p + 1" "fp_emin p w + int E"] unfolding ey by (simp only:)
  qed
  then show "fp_round p (fp_emin p w) m neg (of_nat s * 2 powi (fp_emin p w + e - int k)) < 2 powi (fp_bias w + 1)"
    by (simp only: y)
  show "fp_is_round p w m neg (of_nat s * 2 powi (fp_emin p w + e - int k)) (nat (max 0 e) * 2 ^ p + n)"
    using fin inf fp_mag_pack[OF nb(2), of "fp_emin p w"] nb(1) by (simp add: fp_is_round_def y E_def)
qed

lemma rp_overflows:
  assumes s: "2 ^ (p + k) \<le> s" "s < 2 ^ (p + k + 1)" and k: "2 \<le> k" and w: "2 \<le> w"
    and ov: "2 ^ w - 3 < e \<or> e = 2 ^ w - 3 \<and> 2 ^ (p + 1) \<le> rnd_by_incr k m neg s"
  shows "2 powi (fp_bias w + 1) \<le> fp_round p (fp_emin p w) m neg (of_nat s * 2 powi (fp_emin p w + e - int k))"
proof -
  have w2: "(2::int) ^ w = 2 * fp_bias w + 2" "1 \<le> fp_bias w"
    using pow2_bias[of w] w self_le_power[of "2::int" "w - 1"] by (simp_all add: fp_bias_def)
  define n where "n = rnd_by_incr k m neg s"
  have e: "0 \<le> e" "rp_sig e s = s"
    using ov w2 by (auto simp: rp_sig_def)
  have y: "fp_round p (fp_emin p w) m neg (of_nat s * 2 powi (fp_emin p w + e - int k)) =
      of_nat n * 2 powi (fp_emin p w + e)"
    using rp_fp_round[OF s k] e by (simp add: n_def)
  have "(2 powi (fp_bias w + 1) :: real) \<le> of_nat n * 2 powi (fp_emin p w + e)"
  proof (cases "2 ^ w - 3 < e")
    case True
    then have "(2::real) powi (fp_bias w + 1) \<le> 2 powi (int p + (fp_emin p w + e))"
      using w2 by (intro power_int_increasing) (simp_all add: fp_emin_def)
    also have "\<dots> \<le> of_nat n * 2 powi (fp_emin p w + e)"
      using rp_sig_rounded_bounds(2)[OF s, of e m neg] e k
      by (intro scaled_pow2_bounds(3)) (simp add: n_def)
    finally show ?thesis .
  next
    case False
    then have "e = 2 ^ w - 3" "2 ^ (p + 1) \<le> n"
      using ov by (auto simp: n_def)
    then show ?thesis
      using scaled_pow2_bounds(3)[of "p + 1" n "fp_emin p w + e"] w2(1)
      by (simp add: fp_emin_def add.commute)
  qed
  then show ?thesis
    by (simp only: y)
qed

lemma rp_overflow:
  assumes "2 ^ (p + k) \<le> s" "s < 2 ^ (p + k + 1)" "2 \<le> k" "2 \<le> w"
    and "2 ^ w - 3 < e \<or> e = 2 ^ w - 3 \<and> 2 ^ (p + 1) \<le> rnd_by_incr k m neg s"
  shows "fp_is_round p w m neg (of_nat s * 2 powi (fp_emin p w + e - int k))
    (if overflow_to_inf m neg then fp_inf p w else fp_inf p w - 1)"
  using rp_overflows[OF assms] by (simp add: fp_is_round_def)

end
