(* ===== verification/SF_State.thy ===== *)
theory SF_State
  imports Prelude Rounding
begin

text \<open>
  The global state and the bit-level vocabulary of Berkeley SoftFloat as the simulator
  builds it (\<open>softfloat.h\<close>, \<open>softfloat_state.c\<close>, \<open>softfloat_raiseFlags.c\<close>, \<open>internals.h\<close>,
  \<open>primitiveTypes.h\<close>, \<open>specialize.h\<close> and the NaN routines). A routine of the library that
  reads the rounding mode or raises flags takes the state as its last argument and returns
  it with its result. A floating-point number is its bit pattern: the C structs and unions
  around the pattern have no other content.
\<close>

section \<open>Global state\<close>

record softfloat_state =
  softfloat_roundingMode :: uint_fast8
  softfloat_detectTininess :: uint_fast8
  softfloat_exceptionFlags :: uint_fast8

type_synonym float16 = "16 word"
type_synonym float32 = "32 word"
type_synonym float64 = "64 word"

abbreviation softfloat_tininess_beforeRounding :: uint_fast8 where
  "softfloat_tininess_beforeRounding \<equiv> 0"

abbreviation softfloat_tininess_afterRounding :: uint_fast8 where
  "softfloat_tininess_afterRounding \<equiv> 1"

abbreviation softfloat_round_near_even :: uint_fast8 where
  "softfloat_round_near_even \<equiv> 0"

abbreviation softfloat_round_minMag :: uint_fast8 where
  "softfloat_round_minMag \<equiv> 1"

abbreviation softfloat_round_min :: uint_fast8 where
  "softfloat_round_min \<equiv> 2"

abbreviation softfloat_round_max :: uint_fast8 where
  "softfloat_round_max \<equiv> 3"

abbreviation softfloat_round_near_maxMag :: uint_fast8 where
  "softfloat_round_near_maxMag \<equiv> 4"

abbreviation softfloat_round_odd :: uint_fast8 where
  "softfloat_round_odd \<equiv> 5"

abbreviation softfloat_flag_inexact :: uint_fast8 where
  "softfloat_flag_inexact \<equiv> 1"

abbreviation softfloat_flag_underflow :: uint_fast8 where
  "softfloat_flag_underflow \<equiv> 2"

abbreviation softfloat_flag_overflow :: uint_fast8 where
  "softfloat_flag_overflow \<equiv> 4"

abbreviation softfloat_flag_infinite :: uint_fast8 where
  "softfloat_flag_infinite \<equiv> 8"

abbreviation softfloat_flag_invalid :: uint_fast8 where
  "softfloat_flag_invalid \<equiv> 16"

text \<open>
  The rounding direction a mode number selects. The routines treat every number outside the
  enumeration like \<open>softfloat_round_minMag\<close>.
\<close>

definition round_mode :: "uint_fast8 \<Rightarrow> rounding" where
  "round_mode m =
     (if m = softfloat_round_near_even then RNE
      else if m = softfloat_round_min then RDN
      else if m = softfloat_round_max then RUP
      else if m = softfloat_round_near_maxMag then RMM
      else if m = softfloat_round_odd then ROD
      else RTZ)"

definition softfloat_initial_state :: softfloat_state where
  "softfloat_initial_state =
     \<lparr>softfloat_roundingMode = softfloat_round_near_even,
      softfloat_detectTininess = softfloat_tininess_afterRounding,
      softfloat_exceptionFlags = 0\<rparr>"

definition softfloat_raiseFlags :: "uint_fast8 \<Rightarrow> softfloat_state \<Rightarrow> softfloat_state" where
  "softfloat_raiseFlags flags s =
     s\<lparr>softfloat_exceptionFlags := softfloat_exceptionFlags s OR flags\<rparr>"

lemma raiseFlags_raiseFlags [simp]:
  "softfloat_raiseFlags f (softfloat_raiseFlags g s) = softfloat_raiseFlags (g OR f) s"
  by (simp add: softfloat_raiseFlags_def or.assoc)

lemma raiseFlags_0 [simp]: "softfloat_raiseFlags 0 s = s"
  by (simp add: softfloat_raiseFlags_def)

lemma raiseFlags_fields [simp]:
  "softfloat_roundingMode (softfloat_raiseFlags f s) = softfloat_roundingMode s"
  "softfloat_detectTininess (softfloat_raiseFlags f s) = softfloat_detectTininess s"
  by (simp_all add: softfloat_raiseFlags_def)

section \<open>Structures of the internal interfaces\<close>

record exp8_sig16 =
  es16_exp :: int
  es16_sig :: uint_fast16

record exp16_sig32 =
  es32_exp :: int
  es32_sig :: uint_fast32

record exp16_sig64 =
  es64_exp :: int
  es64_sig :: uint_fast64

record uint128 =
  u128_v64 :: uint64
  u128_v0 :: uint64

record uint64_extra =
  u64x_v :: uint64
  u64x_extra :: uint64

record uint128_extra =
  u128x_v :: uint128
  u128x_extra :: uint64

section \<open>Fields of the formats\<close>

definition signF16UI :: "uint_fast16 \<Rightarrow> bool" where
  "signF16UI a \<longleftrightarrow> drop_bit 15 (to_u16 a) \<noteq> 0"

definition expF16UI :: "uint_fast16 \<Rightarrow> int" where
  "expF16UI a = int (unat (drop_bit 10 a AND 0x1F))"

definition fracF16UI :: "uint_fast16 \<Rightarrow> uint_fast16" where
  "fracF16UI a = a AND 0x03FF"

text \<open>The 16-bit operands are promoted to \<open>int\<close> before they are shifted and added.\<close>

definition packToF16UI :: "bool \<Rightarrow> int \<Rightarrow> uint_fast16 \<Rightarrow> uint_fast16" where
  "packToF16UI sign expn sig =
     push_bit 15 (of_bool sign) + push_bit 10 (ucast (word_of_int expn :: uint16)) + sig"

definition isNaNF16UI :: "uint_fast16 \<Rightarrow> bool" where
  "isNaNF16UI a \<longleftrightarrow> NOT a AND 0x7C00 = 0 \<and> a AND 0x03FF \<noteq> 0"

definition signF32UI :: "uint_fast32 \<Rightarrow> bool" where
  "signF32UI a \<longleftrightarrow> drop_bit 31 (to_u32 a) \<noteq> 0"

definition expF32UI :: "uint_fast32 \<Rightarrow> int" where
  "expF32UI a = int (unat (drop_bit 23 a AND 0xFF))"

definition fracF32UI :: "uint_fast32 \<Rightarrow> uint_fast32" where
  "fracF32UI a = a AND 0x007FFFFF"

definition packToF32UI :: "bool \<Rightarrow> int \<Rightarrow> uint_fast32 \<Rightarrow> uint_fast32" where
  "packToF32UI sign expn sig =
     ucast (push_bit 31 (of_bool sign) + push_bit 23 (word_of_int expn) :: uint32) + sig"

definition isNaNF32UI :: "uint_fast32 \<Rightarrow> bool" where
  "isNaNF32UI a \<longleftrightarrow> NOT a AND 0x7F800000 = 0 \<and> a AND 0x007FFFFF \<noteq> 0"

definition signF64UI :: "uint_fast64 \<Rightarrow> bool" where
  "signF64UI a \<longleftrightarrow> drop_bit 63 a \<noteq> 0"

definition expF64UI :: "uint_fast64 \<Rightarrow> int" where
  "expF64UI a = int (unat (drop_bit 52 a AND 0x7FF))"

definition fracF64UI :: "uint_fast64 \<Rightarrow> uint_fast64" where
  "fracF64UI a = a AND 0x000FFFFFFFFFFFFF"

definition packToF64UI :: "bool \<Rightarrow> int \<Rightarrow> uint_fast64 \<Rightarrow> uint_fast64" where
  "packToF64UI sign expn sig =
     push_bit 63 (of_bool sign) + push_bit 52 (word_of_int expn) + sig"

definition isNaNF64UI :: "uint_fast64 \<Rightarrow> bool" where
  "isNaNF64UI a \<longleftrightarrow> NOT a AND 0x7FF0000000000000 = 0 \<and> a AND 0x000FFFFFFFFFFFFF \<noteq> 0"

section \<open>NaN conventions\<close>

abbreviation defaultNaNF16UI :: uint_fast16 where
  "defaultNaNF16UI \<equiv> 0x7E00"

abbreviation defaultNaNF32UI :: uint_fast32 where
  "defaultNaNF32UI \<equiv> 0x7FC00000"

abbreviation defaultNaNF64UI :: uint_fast64 where
  "defaultNaNF64UI \<equiv> 0x7FF8000000000000"

definition softfloat_isSigNaNF16UI :: "uint_fast16 \<Rightarrow> bool" where
  "softfloat_isSigNaNF16UI uiA \<longleftrightarrow> uiA AND 0x7E00 = 0x7C00 \<and> uiA AND 0x01FF \<noteq> 0"

definition softfloat_isSigNaNF32UI :: "uint_fast32 \<Rightarrow> bool" where
  "softfloat_isSigNaNF32UI uiA \<longleftrightarrow> uiA AND 0x7FC00000 = 0x7F800000 \<and> uiA AND 0x003FFFFF \<noteq> 0"

definition softfloat_isSigNaNF64UI :: "uint_fast64 \<Rightarrow> bool" where
  "softfloat_isSigNaNF64UI uiA \<longleftrightarrow>
     uiA AND 0x7FF8000000000000 = 0x7FF0000000000000 \<and> uiA AND 0x0007FFFFFFFFFFFF \<noteq> 0"

text \<open>
  The common NaN of this specialization carries nothing; only the flag survives the
  conversion of a signaling NaN.
\<close>

definition softfloat_f16UIToCommonNaN :: "uint_fast16 \<Rightarrow> softfloat_state \<Rightarrow> softfloat_state" where
  "softfloat_f16UIToCommonNaN uiA s =
     (if uiA AND 0x0200 = 0 then softfloat_raiseFlags softfloat_flag_invalid s else s)"

definition softfloat_f32UIToCommonNaN :: "uint_fast32 \<Rightarrow> softfloat_state \<Rightarrow> softfloat_state" where
  "softfloat_f32UIToCommonNaN uiA s =
     (if uiA AND 0x00400000 = 0 then softfloat_raiseFlags softfloat_flag_invalid s else s)"

definition softfloat_f64UIToCommonNaN :: "uint_fast64 \<Rightarrow> softfloat_state \<Rightarrow> softfloat_state" where
  "softfloat_f64UIToCommonNaN uiA s =
     (if uiA AND 0x0008000000000000 = 0 then softfloat_raiseFlags softfloat_flag_invalid s else s)"

definition softfloat_commonNaNToF16UI :: uint_fast16 where
  "softfloat_commonNaNToF16UI = defaultNaNF16UI"

definition softfloat_commonNaNToF32UI :: uint_fast32 where
  "softfloat_commonNaNToF32UI = defaultNaNF32UI"

definition softfloat_commonNaNToF64UI :: uint_fast64 where
  "softfloat_commonNaNToF64UI = defaultNaNF64UI"

definition softfloat_propagateNaNF16UI ::
  "uint_fast16 \<Rightarrow> uint_fast16 \<Rightarrow> softfloat_state \<Rightarrow> uint_fast16 \<times> softfloat_state" where
  "softfloat_propagateNaNF16UI uiA uiB s =
     (defaultNaNF16UI,
      if softfloat_isSigNaNF16UI uiA \<or> softfloat_isSigNaNF16UI uiB
      then softfloat_raiseFlags softfloat_flag_invalid s else s)"

definition softfloat_propagateNaNF32UI ::
  "uint_fast32 \<Rightarrow> uint_fast32 \<Rightarrow> softfloat_state \<Rightarrow> uint_fast32 \<times> softfloat_state" where
  "softfloat_propagateNaNF32UI uiA uiB s =
     (defaultNaNF32UI,
      if softfloat_isSigNaNF32UI uiA \<or> softfloat_isSigNaNF32UI uiB
      then softfloat_raiseFlags softfloat_flag_invalid s else s)"

definition softfloat_propagateNaNF64UI ::
  "uint_fast64 \<Rightarrow> uint_fast64 \<Rightarrow> softfloat_state \<Rightarrow> uint_fast64 \<times> softfloat_state" where
  "softfloat_propagateNaNF64UI uiA uiB s =
     (defaultNaNF64UI,
      if softfloat_isSigNaNF64UI uiA \<or> softfloat_isSigNaNF64UI uiB
      then softfloat_raiseFlags softfloat_flag_invalid s else s)"

end
