(* ===== verification/SF_Primitives.thy ===== *)
theory SF_Primitives
  imports SF_State
begin

text \<open>
  The integer primitives of SoftFloat (\<open>primitives.h\<close> and the \<open>s_*.c\<close> files with the same
  functions): counting leading zeros, shifting with a sticky lowest bit, 128-bit and 256-bit
  arithmetic on pairs and arrays of 64-bit words, and the reciprocal approximations. Arrays
  are lists with the least significant word first, the layout on a little-endian host.
\<close>

section \<open>Counting leading zeros\<close>

definition softfloat_countLeadingZeros8 :: "uint_fast8 list" where
  "softfloat_countLeadingZeros8 =
    [8, 7, 6, 6, 5, 5, 5, 5, 4, 4, 4, 4, 4, 4, 4, 4,
     3, 3, 3, 3, 3, 3, 3, 3, 3, 3, 3, 3, 3, 3, 3, 3,
     2, 2, 2, 2, 2, 2, 2, 2, 2, 2, 2, 2, 2, 2, 2, 2,
     2, 2, 2, 2, 2, 2, 2, 2, 2, 2, 2, 2, 2, 2, 2, 2,
     1, 1, 1, 1, 1, 1, 1, 1, 1, 1, 1, 1, 1, 1, 1, 1,
     1, 1, 1, 1, 1, 1, 1, 1, 1, 1, 1, 1, 1, 1, 1, 1,
     1, 1, 1, 1, 1, 1, 1, 1, 1, 1, 1, 1, 1, 1, 1, 1,
     1, 1, 1, 1, 1, 1, 1, 1, 1, 1, 1, 1, 1, 1, 1, 1,
     0, 0, 0, 0, 0, 0, 0, 0, 0, 0, 0, 0, 0, 0, 0, 0,
     0, 0, 0, 0, 0, 0, 0, 0, 0, 0, 0, 0, 0, 0, 0, 0,
     0, 0, 0, 0, 0, 0, 0, 0, 0, 0, 0, 0, 0, 0, 0, 0,
     0, 0, 0, 0, 0, 0, 0, 0, 0, 0, 0, 0, 0, 0, 0, 0,
     0, 0, 0, 0, 0, 0, 0, 0, 0, 0, 0, 0, 0, 0, 0, 0,
     0, 0, 0, 0, 0, 0, 0, 0, 0, 0, 0, 0, 0, 0, 0, 0,
     0, 0, 0, 0, 0, 0, 0, 0, 0, 0, 0, 0, 0, 0, 0, 0,
     0, 0, 0, 0, 0, 0, 0, 0, 0, 0, 0, 0, 0, 0, 0, 0]"

definition softfloat_countLeadingZeros16 :: "uint16 \<Rightarrow> uint_fast8" where
  "softfloat_countLeadingZeros16 a =
     (let (count, a) = (if 0x100 \<le> a then (0, drop_bit 8 a) else (8, a))
      in count + softfloat_countLeadingZeros8 ! unat a)"

definition softfloat_countLeadingZeros32 :: "uint32 \<Rightarrow> uint_fast8" where
  "softfloat_countLeadingZeros32 a =
     (let (count, a) = (if a < 0x10000 then (16, push_bit 16 a) else (0, a));
          (count, a) = (if a < 0x1000000 then (count + 8, push_bit 8 a) else (count, a))
      in count + softfloat_countLeadingZeros8 ! unat (drop_bit 24 a))"

definition softfloat_countLeadingZeros64 :: "uint64 \<Rightarrow> uint_fast8" where
  "softfloat_countLeadingZeros64 a =
     (let a32 = to_u32 (drop_bit 32 a);
          (count, a32) = (if a32 = 0 then (32, to_u32 a) else (0, a32));
          (count, a32) = (if a32 < 0x10000 then (count + 16, push_bit 16 a32) else (count, a32));
          (count, a32) = (if a32 < 0x1000000 then (count + 8, push_bit 8 a32) else (count, a32))
      in count + softfloat_countLeadingZeros8 ! unat (drop_bit 24 a32))"

section \<open>Shifts that keep a sticky bit\<close>

definition softfloat_shortShiftRightJam64 :: "uint64 \<Rightarrow> uint_fast8 \<Rightarrow> uint64" where
  "softfloat_shortShiftRightJam64 a distn =
     drop_bit (unat distn) a OR of_bool (a AND (push_bit (unat distn) 1 - 1) \<noteq> 0)"

definition softfloat_shiftRightJam32 :: "uint32 \<Rightarrow> uint_fast16 \<Rightarrow> uint32" where
  "softfloat_shiftRightJam32 a distn =
     (if distn < 31
      then drop_bit (unat distn) a OR of_bool (push_bit (unat (- distn AND 31)) a \<noteq> 0)
      else of_bool (a \<noteq> 0))"

definition softfloat_shiftRightJam64 :: "uint64 \<Rightarrow> uint_fast32 \<Rightarrow> uint64" where
  "softfloat_shiftRightJam64 a distn =
     (if distn < 63
      then drop_bit (unat distn) a OR of_bool (push_bit (unat (- distn AND 63)) a \<noteq> 0)
      else of_bool (a \<noteq> 0))"

definition softfloat_shortShiftRightJam64Extra ::
  "uint64 \<Rightarrow> uint64 \<Rightarrow> uint_fast8 \<Rightarrow> uint64_extra" where
  "softfloat_shortShiftRightJam64Extra a ext distn =
     \<lparr>u64x_v = drop_bit (unat distn) a,
      u64x_extra = push_bit (unat (- distn AND 63)) a OR of_bool (ext \<noteq> 0)\<rparr>"

definition softfloat_shiftRightJam64Extra ::
  "uint64 \<Rightarrow> uint64 \<Rightarrow> uint_fast32 \<Rightarrow> uint64_extra" where
  "softfloat_shiftRightJam64Extra a ext distn =
     (let (zv, ze) =
        (if distn < 64 then (drop_bit (unat distn) a, push_bit (unat (- distn AND 63)) a)
         else (0, if distn = 64 then a else of_bool (a \<noteq> 0)))
      in \<lparr>u64x_v = zv, u64x_extra = ze OR of_bool (ext \<noteq> 0)\<rparr>)"

definition softfloat_shortShiftLeft128 :: "uint64 \<Rightarrow> uint64 \<Rightarrow> uint_fast8 \<Rightarrow> uint128" where
  "softfloat_shortShiftLeft128 a64 a0 distn =
     \<lparr>u128_v64 = push_bit (unat distn) a64 OR drop_bit (unat (- distn AND 63)) a0,
      u128_v0 = push_bit (unat distn) a0\<rparr>"

definition softfloat_shortShiftRight128 :: "uint64 \<Rightarrow> uint64 \<Rightarrow> uint_fast8 \<Rightarrow> uint128" where
  "softfloat_shortShiftRight128 a64 a0 distn =
     \<lparr>u128_v64 = drop_bit (unat distn) a64,
      u128_v0 = push_bit (unat (- distn AND 63)) a64 OR drop_bit (unat distn) a0\<rparr>"

definition softfloat_shortShiftRightJam128 :: "uint64 \<Rightarrow> uint64 \<Rightarrow> uint_fast8 \<Rightarrow> uint128" where
  "softfloat_shortShiftRightJam128 a64 a0 distn =
     (let negDist = - distn
      in \<lparr>u128_v64 = drop_bit (unat distn) a64,
          u128_v0 = push_bit (unat (negDist AND 63)) a64 OR drop_bit (unat distn) a0
                      OR of_bool (push_bit (unat (negDist AND 63)) a0 \<noteq> 0)\<rparr>)"

definition softfloat_shortShiftRightJam128Extra ::
  "uint64 \<Rightarrow> uint64 \<Rightarrow> uint64 \<Rightarrow> uint_fast8 \<Rightarrow> uint128_extra" where
  "softfloat_shortShiftRightJam128Extra a64 a0 ext distn =
     (let negDist = - distn
      in \<lparr>u128x_v = \<lparr>u128_v64 = drop_bit (unat distn) a64,
                     u128_v0 = push_bit (unat (negDist AND 63)) a64 OR drop_bit (unat distn) a0\<rparr>,
          u128x_extra = push_bit (unat (negDist AND 63)) a0 OR of_bool (ext \<noteq> 0)\<rparr>)"

definition softfloat_shiftRightJam128 :: "uint64 \<Rightarrow> uint64 \<Rightarrow> uint_fast32 \<Rightarrow> uint128" where
  "softfloat_shiftRightJam128 a64 a0 distn =
     (if distn < 64 then
        (let u8NegDist = to_u8 (- distn)
         in \<lparr>u128_v64 = drop_bit (unat distn) a64,
             u128_v0 = push_bit (unat (u8NegDist AND 63)) a64 OR drop_bit (unat distn) a0
                         OR of_bool (push_bit (unat (u8NegDist AND 63)) a0 \<noteq> 0)\<rparr>)
      else
        \<lparr>u128_v64 = 0,
         u128_v0 =
           (if distn < 127
            then drop_bit (unat (distn AND 63)) a64
                   OR of_bool ((a64 AND (push_bit (unat (distn AND 63)) 1 - 1)) OR a0 \<noteq> 0)
            else of_bool (a64 OR a0 \<noteq> 0))\<rparr>)"

definition softfloat_shiftRightJam128Extra ::
  "uint64 \<Rightarrow> uint64 \<Rightarrow> uint64 \<Rightarrow> uint_fast32 \<Rightarrow> uint128_extra" where
  "softfloat_shiftRightJam128Extra a64 a0 ext distn =
     (let u8NegDist = to_u8 (- distn);
          (z64, z0, ze, ext) =
            (if distn < 64 then
               (drop_bit (unat distn) a64,
                push_bit (unat (u8NegDist AND 63)) a64 OR drop_bit (unat distn) a0,
                push_bit (unat (u8NegDist AND 63)) a0, ext)
             else if distn = 64 then (0, a64, a0, ext)
             else if distn < 128 then
               (0, drop_bit (unat (distn AND 63)) a64,
                push_bit (unat (u8NegDist AND 63)) a64, ext OR a0)
             else (0, 0, if distn = 128 then a64 else of_bool (a64 \<noteq> 0), ext OR a0))
      in \<lparr>u128x_v = \<lparr>u128_v64 = z64, u128_v0 = z0\<rparr>, u128x_extra = ze OR of_bool (ext \<noteq> 0)\<rparr>)"

section \<open>128-bit arithmetic\<close>

definition softfloat_eq128 :: "uint64 \<Rightarrow> uint64 \<Rightarrow> uint64 \<Rightarrow> uint64 \<Rightarrow> bool" where
  "softfloat_eq128 a64 a0 b64 b0 \<longleftrightarrow> a64 = b64 \<and> a0 = b0"

definition softfloat_le128 :: "uint64 \<Rightarrow> uint64 \<Rightarrow> uint64 \<Rightarrow> uint64 \<Rightarrow> bool" where
  "softfloat_le128 a64 a0 b64 b0 \<longleftrightarrow> a64 < b64 \<or> a64 = b64 \<and> a0 \<le> b0"

definition softfloat_lt128 :: "uint64 \<Rightarrow> uint64 \<Rightarrow> uint64 \<Rightarrow> uint64 \<Rightarrow> bool" where
  "softfloat_lt128 a64 a0 b64 b0 \<longleftrightarrow> a64 < b64 \<or> a64 = b64 \<and> a0 < b0"

definition softfloat_add128 :: "uint64 \<Rightarrow> uint64 \<Rightarrow> uint64 \<Rightarrow> uint64 \<Rightarrow> uint128" where
  "softfloat_add128 a64 a0 b64 b0 =
     (let z0 = a0 + b0 in \<lparr>u128_v64 = a64 + b64 + of_bool (z0 < a0), u128_v0 = z0\<rparr>)"

definition softfloat_sub128 :: "uint64 \<Rightarrow> uint64 \<Rightarrow> uint64 \<Rightarrow> uint64 \<Rightarrow> uint128" where
  "softfloat_sub128 a64 a0 b64 b0 =
     \<lparr>u128_v64 = a64 - b64 - of_bool (a0 < b0), u128_v0 = a0 - b0\<rparr>"

definition softfloat_mul64ByShifted32To128 :: "uint64 \<Rightarrow> uint32 \<Rightarrow> uint128" where
  "softfloat_mul64ByShifted32To128 a b =
     (let mid = to_u64 (to_u32 a) * to_u64 b
      in \<lparr>u128_v64 = to_u64 (to_u32 (drop_bit 32 a)) * to_u64 b + drop_bit 32 mid,
          u128_v0 = push_bit 32 mid\<rparr>)"

definition softfloat_mul64To128 :: "uint64 \<Rightarrow> uint64 \<Rightarrow> uint128" where
  "softfloat_mul64To128 a b =
     (let a32 = to_u32 (drop_bit 32 a);
          a0 = to_u32 a;
          b32 = to_u32 (drop_bit 32 b);
          b0 = to_u32 b;
          z0 = to_u64 a0 * to_u64 b0;
          mid1 = to_u64 a32 * to_u64 b0;
          mid = mid1 + to_u64 a0 * to_u64 b32;
          z64 = to_u64 a32 * to_u64 b32;
          z64 = z64 + (push_bit 32 (of_bool (mid < mid1)) OR drop_bit 32 mid);
          mid = push_bit 32 mid;
          z0 = z0 + mid;
          z64 = z64 + of_bool (z0 < mid)
      in \<lparr>u128_v64 = z64, u128_v0 = z0\<rparr>)"

definition softfloat_mul128By32 :: "uint64 \<Rightarrow> uint64 \<Rightarrow> uint32 \<Rightarrow> uint128" where
  "softfloat_mul128By32 a64 a0 b =
     (let z0 = a0 * to_u64 b;
          mid = to_u64 (to_u32 (drop_bit 32 a0)) * to_u64 b;
          carry = to_u64 (to_u32 (drop_bit 32 z0 - mid))
      in \<lparr>u128_v64 = a64 * to_u64 b + drop_bit 32 (mid + carry), u128_v0 = z0\<rparr>)"

section \<open>256-bit arithmetic on arrays of four words\<close>

text \<open>
  The loops walk both operands from the least significant word; the last word is written
  without updating the carry, as in the sources.
\<close>

fun softfloat_add256M_loop :: "uint64 list \<Rightarrow> uint64 list \<Rightarrow> uint_fast8 \<Rightarrow> uint64 list" where
  "softfloat_add256M_loop (wordA # a) (wordB # b) carry =
     (let wordZ = wordA + wordB + to_u64 carry
      in wordZ #
         (if a = [] then []
          else softfloat_add256M_loop a b (if wordZ \<noteq> wordA then of_bool (wordZ < wordA) else carry)))"
| "softfloat_add256M_loop _ _ carry = []"

definition softfloat_add256M :: "uint64 list \<Rightarrow> uint64 list \<Rightarrow> uint64 list" where
  "softfloat_add256M a b = softfloat_add256M_loop a b 0"

fun softfloat_sub256M_loop :: "uint64 list \<Rightarrow> uint64 list \<Rightarrow> bool \<Rightarrow> uint64 list" where
  "softfloat_sub256M_loop (wordA # a) (wordB # b) borrow =
     (wordA - wordB - of_bool borrow) #
        (if a = [] then []
         else softfloat_sub256M_loop a b (if borrow then wordA \<le> wordB else wordA < wordB))"
| "softfloat_sub256M_loop _ _ borrow = []"

definition softfloat_sub256M :: "uint64 list \<Rightarrow> uint64 list \<Rightarrow> uint64 list" where
  "softfloat_sub256M a b = softfloat_sub256M_loop a b False"

definition softfloat_mul128To256M ::
  "uint64 \<Rightarrow> uint64 \<Rightarrow> uint64 \<Rightarrow> uint64 \<Rightarrow> uint64 list" where
  "softfloat_mul128To256M a64 a0 b64 b0 =
     (let p0 = softfloat_mul64To128 a0 b0;
          p64 = softfloat_mul64To128 a64 b0;
          z64 = u128_v0 p64 + u128_v64 p0;
          z128 = u128_v64 p64 + of_bool (z64 < u128_v0 p64);
          p128 = softfloat_mul64To128 a64 b64;
          z128 = z128 + u128_v0 p128;
          z192 = u128_v64 p128 + of_bool (z128 < u128_v0 p128);
          p64 = softfloat_mul64To128 a0 b64;
          z64 = z64 + u128_v0 p64;
          p64_v64 = u128_v64 p64 + of_bool (z64 < u128_v0 p64);
          z128 = z128 + p64_v64
      in [u128_v0 p0, z64, z128, z192 + of_bool (z128 < p64_v64)])"

fun softfloat_shortShiftRightJamM_loop :: "uint64 list \<Rightarrow> uint_fast8 \<Rightarrow> uint64 \<Rightarrow> uint64 list" where
  "softfloat_shortShiftRightJamM_loop [] distn partWordZ = [partWordZ]"
| "softfloat_shortShiftRightJamM_loop (wordA # a) distn partWordZ =
     (push_bit (unat (- distn AND 63)) wordA OR partWordZ) #
       softfloat_shortShiftRightJamM_loop a distn (drop_bit (unat distn) wordA)"

definition softfloat_shortShiftRightJamM :: "uint64 list \<Rightarrow> uint_fast8 \<Rightarrow> uint64 list" where
  "softfloat_shortShiftRightJamM a distn =
     (case a of [] \<Rightarrow> []
      | wordA # a' \<Rightarrow>
          (let partWordZ = drop_bit (unat distn) wordA;
               partWordZ = (if push_bit (unat distn) partWordZ \<noteq> wordA then partWordZ OR 1
                            else partWordZ)
           in softfloat_shortShiftRightJamM_loop a' distn partWordZ))"

text \<open>The scan of the words shifted out completely: the first nonzero one, or the last.\<close>

fun softfloat_shiftRightJam256M_scan :: "uint64 list \<Rightarrow> uint64" where
  "softfloat_shiftRightJam256M_scan [] = 0"
| "softfloat_shiftRightJam256M_scan [w] = w"
| "softfloat_shiftRightJam256M_scan (w # ws) =
     (if w \<noteq> 0 then w else softfloat_shiftRightJam256M_scan ws)"

definition softfloat_shiftRightJam256M :: "uint64 list \<Rightarrow> uint_fast32 \<Rightarrow> uint64 list" where
  "softfloat_shiftRightJam256M a distn =
     (let wordDist = min 4 (unat (drop_bit 6 distn));
          wordJam = softfloat_shiftRightJam256M_scan (take wordDist a);
          innerDist = to_u8 (distn AND 63);
          rest = drop wordDist a;
          high = (if wordDist < 4 \<and> innerDist \<noteq> 0 then softfloat_shortShiftRightJamM rest innerDist
                  else rest);
          z = high @ replicate wordDist 0
      in if wordJam \<noteq> 0 then z[0 := z ! 0 OR 1] else z)"

section \<open>Reciprocal approximations\<close>

definition softfloat_approxRecip32_1 :: "uint32 \<Rightarrow> uint32" where
  "softfloat_approxRecip32_1 a = to_u32 ((0x7FFFFFFFFFFFFFFF :: uint64) div to_u64 a)"

definition softfloat_approxRecipSqrt_1k0s :: "uint16 list" where
  "softfloat_approxRecipSqrt_1k0s =
    [0xB4C9, 0xFFAB, 0xAA7D, 0xF11C, 0xA1C5, 0xE4C7, 0x9A43, 0xDA29,
     0x93B5, 0xD0E5, 0x8DED, 0xC8B7, 0x88C6, 0xC16D, 0x8424, 0xBAE1]"

definition softfloat_approxRecipSqrt_1k1s :: "uint16 list" where
  "softfloat_approxRecipSqrt_1k1s =
    [0xA5A5, 0xEA42, 0x8C21, 0xC62D, 0x788F, 0xAA7F, 0x6928, 0x94B6,
     0x5CC7, 0x8335, 0x52A6, 0x74E2, 0x4A3E, 0x68FE, 0x432B, 0x5EFD]"

definition softfloat_approxRecipSqrt32_1 :: "nat \<Rightarrow> uint32 \<Rightarrow> uint32" where
  "softfloat_approxRecipSqrt32_1 oddExpA a =
     (let index = unat (drop_bit 27 a AND 0xE) + oddExpA;
          eps = to_u16 (drop_bit 12 a);
          r0 = softfloat_approxRecipSqrt_1k0s ! index
                 - to_u16 (drop_bit 20 (to_u64 (softfloat_approxRecipSqrt_1k1s ! index) * to_u64 eps));
          ESqrR0 = to_u64 r0 * to_u64 r0;
          ESqrR0 = (if oddExpA = 0 then push_bit 1 ESqrR0 else ESqrR0);
          sigma0 = to_u32 (NOT (drop_bit 23 (to_u64 (to_u32 ESqrR0) * to_u64 a)));
          r = push_bit 16 (to_u64 r0) + drop_bit 25 (to_u64 r0 * to_u64 sigma0);
          sqrSigma0 = to_u32 (drop_bit 32 (to_u64 sigma0 * to_u64 sigma0));
          r = r + drop_bit 48
                    (to_u64 (to_u32 (drop_bit 1 r + drop_bit 3 r - push_bit 14 (to_u64 r0)))
                       * to_u64 sqrSigma0);
          r = (if r AND 0x80000000 = 0 then 0x80000000 else r)
      in to_u32 r)"

section \<open>Correctness of the primitives\<close>

text \<open>\<open>c\<close> is the number of leading zeros of \<open>a\<close> as an \<open>n\<close>-bit number.\<close>

definition leading_zeros :: "nat \<Rightarrow> nat \<Rightarrow> nat \<Rightarrow> bool" where
  "leading_zeros n a c \<longleftrightarrow>
     (if a = 0 then c = n else c < n \<and> 2 ^ (n - 1) \<le> a * 2 ^ c \<and> a * 2 ^ c < 2 ^ n)"

lemma clz8_table:
  "list_all (\<lambda>(x, c). leading_zeros 8 x (unat c)) (zip [0..<256] softfloat_countLeadingZeros8)"
  by code_simp

lemma clz8_correct:
  assumes "x < 256"
  shows "leading_zeros 8 x (unat (softfloat_countLeadingZeros8 ! x))"
proof -
  have "length softfloat_countLeadingZeros8 = 256"
    by (simp add: softfloat_countLeadingZeros8_def)
  then have "(x, softfloat_countLeadingZeros8 ! x) \<in> set (zip [0..<256] softfloat_countLeadingZeros8)"
    using assms by (auto simp: set_zip intro!: exI[of _ x])
  then show ?thesis
    using clz8_table by (auto simp: list_all_iff)
qed

text \<open>The leading zeros of a number are those of its upper part, if that is not zero.\<close>

lemma leading_zeros_top:
  assumes "leading_zeros n x c" and "x = a div 2 ^ k" and "2 ^ k \<le> a" and "0 < n"
  shows "leading_zeros (n + k) a c"
proof -
  have x: "x \<noteq> 0"
    using assms(2,3) by (simp add: div_greater_zero_iff)
  have a: "a \<noteq> 0"
    using assms(3) by (metis not_less zero_less_numeral zero_less_power)
  have c: "c < n" "2 ^ (n - 1) \<le> x * 2 ^ c" "x * 2 ^ c < 2 ^ n"
    using assms(1) x by (simp_all add: leading_zeros_def)
  have "x * 2 ^ c < 2 ^ (n - c) * 2 ^ c"
    using c(1,3) by (simp flip: power_add)
  then have "x + 1 \<le> 2 ^ (n - c)"
    by (simp only: mult_less_cancel2 Suc_eq_plus1[symmetric] Suc_le_eq)
  then have hi: "(x + 1) * 2 ^ c \<le> 2 ^ n"
    using c(1) mult_le_mono1[of "x + 1" "2 ^ (n - c)" "2 ^ c"] by (simp flip: power_add)
  have "2 ^ k * 2 ^ (n - 1) \<le> x * 2 ^ k * 2 ^ c"
    using mult_le_mono2[OF c(2), of "2 ^ k"] by (simp only: ac_simps)
  also have "\<dots> \<le> a * 2 ^ c"
    by (simp add: assms(2))
  finally have lo': "2 ^ (n + k - 1) \<le> a * 2 ^ c"
    using assms(4) by (simp add: add.commute flip: power_add)
  have "a < (x + 1) * 2 ^ k"
    using assms(2) dividend_less_div_times[of "2 ^ k" a] by simp
  then have "a * 2 ^ c < (x + 1) * 2 ^ k * 2 ^ c"
    by simp
  also have "\<dots> = 2 ^ k * ((x + 1) * 2 ^ c)"
    by (simp only: ac_simps)
  also have "\<dots> \<le> 2 ^ k * 2 ^ n"
    using hi by (rule mult_le_mono2)
  finally have "a * 2 ^ c < 2 ^ (n + k)"
    by (simp add: power_add ac_simps)
  with lo' c(1) a show ?thesis
    by (simp add: leading_zeros_def)
qed

lemma leading_zeros_shift:
  assumes "leading_zeros n (a * 2 ^ s) c" and "a * 2 ^ s < 2 ^ n" and "a \<noteq> 0"
  shows "leading_zeros n a (s + c)"
proof -
  have c: "c < n" "2 ^ (n - 1) \<le> a * 2 ^ s * 2 ^ c" "a * 2 ^ s * 2 ^ c < 2 ^ n"
    using assms(1,3) by (simp_all add: leading_zeros_def)
  have "2 ^ (s + c) \<le> a * 2 ^ (s + c)"
    using assms(3) by simp
  also have "\<dots> < 2 ^ n"
    using c(3) by (simp add: power_add mult.assoc)
  finally have "s + c < n"
    by (rule power_less_imp_less_exp[rotated]) simp
  with c assms(3) show ?thesis
    by (simp add: leading_zeros_def power_add mult.assoc)
qed

lemma clz_word32:
  fixes a :: uint32
  assumes "a \<noteq> 0"
    and "ca1 = (if a < 0x10000 then (16::uint_fast8, push_bit 16 a) else (0, a))"
    and "ca2 = (if snd ca1 < 0x1000000 then (fst ca1 + 8, push_bit 8 (snd ca1)) else ca1)"
    and "r = fst ca2 + softfloat_countLeadingZeros8 ! unat (drop_bit 24 (snd ca2))"
  shows "leading_zeros 32 (unat a) (unat r)"
proof -
  have a: "unat a \<noteq> 0" "unat a < 2 ^ 32"
    using assms(1) unsigned_less[of a] by (auto simp: unat_eq_0)
  obtain s where s: "s \<le> 24" "unat (fst ca2) = s" "unat (snd ca2) = unat a * 2 ^ s"
      "2 ^ 24 \<le> unat a * 2 ^ s" "unat a * 2 ^ s < 2 ^ 32"
  proof -
    consider "unat a < 2 ^ 8" | "2 ^ 8 \<le> unat a" "unat a < 2 ^ 16"
      | "2 ^ 16 \<le> unat a" "unat a < 2 ^ 24" | "2 ^ 24 \<le> unat a"
      by linarith
    then show ?thesis
    proof cases
      case 1
      then show ?thesis
        using a assms(2,3) by (intro that[of 24]) (simp_all add: word_less_nat_alt unat_push_bit_mult)
    next
      case 2
      then show ?thesis
        using a assms(2,3) by (intro that[of 16]) (simp_all add: word_less_nat_alt unat_push_bit_mult)
    next
      case 3
      then show ?thesis
        using a assms(2,3) by (intro that[of 8]) (simp_all add: word_less_nat_alt unat_push_bit_mult)
    next
      case 4
      then show ?thesis
        using a assms(2,3) by (intro that[of 0]) (simp_all add: word_less_nat_alt)
    qed
  qed
  let ?c = "softfloat_countLeadingZeros8 ! unat (drop_bit 24 (snd ca2))"
  have x: "unat (drop_bit 24 (snd ca2)) = unat a * 2 ^ s div 2 ^ 24"
    by (simp only: unat_drop_bit_div s(3))
  have "leading_zeros 8 (unat (drop_bit 24 (snd ca2))) (unat ?c)"
    using s(5) by (intro clz8_correct) (simp add: x less_mult_imp_div_less)
  then have "leading_zeros (8 + 24) (unat a * 2 ^ s) (unat ?c)"
    using x s(4) by (rule leading_zeros_top) simp
  then have z: "leading_zeros 32 (unat a) (s + unat ?c)" and "unat ?c < 32"
    using s a(1) leading_zeros_shift[of 32 "unat a" s] by (auto simp: leading_zeros_def)
  then have "unat r = s + unat ?c"
    using s(1,2) unfolding assms(4) by (subst unat_add_no_wrap) simp_all
  with z show ?thesis
    by simp
qed

lemma countLeadingZeros32_correct:
  "leading_zeros 32 (unat a) (unat (softfloat_countLeadingZeros32 a))"
proof (cases "a = 0")
  case True
  have "softfloat_countLeadingZeros32 0 = 32"
    by code_simp
  with True show ?thesis
    by (simp add: leading_zeros_def)
next
  case False
  then show ?thesis
    by (rule clz_word32[OF _ refl refl])
      (simp add: softfloat_countLeadingZeros32_def Let_def split: prod.splits)
qed

lemma countLeadingZeros64_correct:
  "leading_zeros 64 (unat a) (unat (softfloat_countLeadingZeros64 a))"
proof -
  define h where "h = to_u32 (drop_bit 32 a)"
  define l where "l = to_u32 a"
  have hl: "unat h = unat a div 2 ^ 32" "unat l = unat a mod 2 ^ 32"
    using unat_lt[of a]
    by (simp_all add: h_def l_def unat_ucast_mod unat_drop_bit_div less_mult_imp_div_less)
  define w where "w = (if h = 0 then l else h)"
  define k :: uint_fast8 where "k = (if h = 0 then 32 else 0)"
  have eq: "softfloat_countLeadingZeros64 a = k + softfloat_countLeadingZeros32 w"
    unfolding softfloat_countLeadingZeros64_def softfloat_countLeadingZeros32_def h_def[symmetric] l_def[symmetric]
    by (auto simp: Let_def w_def k_def)
  note z = countLeadingZeros32_correct[of w]
  show ?thesis
  proof (cases "h = 0")
    case False
    then have "2 ^ 32 \<le> unat a"
      using hl(1) by (metis div_less linorder_not_le unat_eq_0)
    then have "leading_zeros (32 + 32) (unat a) (unat (softfloat_countLeadingZeros32 w))"
      using z False hl(1) by (intro leading_zeros_top[of 32 "unat h"]) (simp_all add: w_def)
    with False show ?thesis
      by (simp add: eq k_def)
  next
    case True
    then have a: "unat a = unat w" "unat a < 2 ^ 32"
      using hl by (simp_all add: w_def div_eq_0_iff)
    have c: "unat (softfloat_countLeadingZeros32 w) \<le> 32"
      using z by (auto simp: leading_zeros_def split: if_splits)
    have r: "unat (softfloat_countLeadingZeros64 a) = 32 + unat (softfloat_countLeadingZeros32 w)"
      using c True unfolding eq k_def by (subst unat_add_no_wrap) simp_all
    show ?thesis
    proof (cases "unat a = 0")
      case False
      then show ?thesis
        using z a unfolding r by (simp add: leading_zeros_def power_add)
    qed (use z a in \<open>simp add: r leading_zeros_def\<close>)
  qed
qed

lemma countLeadingZeros16_correct:
  "leading_zeros 16 (unat a) (unat (softfloat_countLeadingZeros16 a))"
proof (cases "0x100 \<le> a")
  case True
  then have a: "2 ^ 8 \<le> unat a" "unat a < 2 ^ 16"
    using unat_lt[of a] by (simp_all add: word_le_nat_alt)
  then have "leading_zeros 8 (unat a div 2 ^ 8) (unat (softfloat_countLeadingZeros8 ! (unat a div 2 ^ 8)))"
    by (intro clz8_correct) (simp add: less_mult_imp_div_less)
  from leading_zeros_top[OF this refl a(1)] True show ?thesis
    by (simp add: softfloat_countLeadingZeros16_def unat_drop_bit_div)
next
  case False
  then have a: "unat a < 256"
    by (simp add: word_le_nat_alt)
  let ?c = "softfloat_countLeadingZeros8 ! unat a"
  have z: "leading_zeros 8 (unat a) (unat ?c)"
    using a by (rule clz8_correct)
  then have "unat ?c \<le> 8"
    by (auto simp: leading_zeros_def split: if_splits)
  then have "unat (softfloat_countLeadingZeros16 a) = 8 + unat ?c"
    using False unfolding softfloat_countLeadingZeros16_def by (simp add: unat_add_no_wrap)
  with z show ?thesis
    by (auto simp: leading_zeros_def power_add split: if_splits)
qed

lemma jam_nat_quot:
  "jam (of_nat a / 2 ^ d) = int (a div 2 ^ d + of_bool (a mod 2 ^ d \<noteq> 0 \<and> even (a div 2 ^ d)))"
  by (auto simp: jam_def rnd_nat_quot_pow2)

lemma jam_quot_le: "jam (of_nat a / 2 ^ d) \<le> int a"
proof -
  have "real a / 2 ^ d \<le> real a"
    using mult_left_mono[of 1 "2 ^ d" "real a"] by (simp add: divide_le_eq)
  then have "\<lceil>real a / 2 ^ d\<rceil> \<le> int a"
    by (simp add: ceiling_le_iff)
  then show ?thesis
    using rnd_bounds(2)[where x = "real a / 2 ^ d" and m = ROD and neg = False]
    unfolding jam_def by linarith
qed

lemma unat_neg_and:
  fixes d :: "'a::len word"
  assumes "0 < unat d" and "unat d < 2 ^ k" and "k \<le> LENGTH('a)"
  shows "unat (- d AND mask k) = 2 ^ k - unat d"
proof -
  have "unat (- d) = 2 ^ LENGTH('a) - unat d"
    using assms(1) by (intro unat_uminus) auto
  also have "\<dots> = (2 ^ (LENGTH('a) - k) - 1) * 2 ^ k + (2 ^ k - unat d)"
    using assms(2,3) by (simp add: diff_mult_distrib flip: power_add)
  finally show ?thesis
    using assms(1,2) by (simp only: unat_and_mask mod_mult_self3) simp
qed

lemma push_bit_eq_0_mod:
  fixes x :: "'a::len word"
  assumes "d \<le> LENGTH('a)"
  shows "push_bit (LENGTH('a) - d) x = 0 \<longleftrightarrow> unat x mod 2 ^ d = 0"
proof -
  have "unat (push_bit (LENGTH('a) - d) x) = (unat x * 2 ^ (LENGTH('a) - d)) mod (2 ^ d * 2 ^ (LENGTH('a) - d))"
    using assms by (simp add: unat_push_bit_mod flip: power_add)
  also have "\<dots> = (unat x mod 2 ^ d) * 2 ^ (LENGTH('a) - d)"
    by (simp add: mod_mult_mult2)
  finally show ?thesis
    by (simp add: word_eq_0_unat)
qed

lemma shortShiftRightJam64_correct:
  "unat d < 64 \<Longrightarrow>
     int (unat (softfloat_shortShiftRightJam64 a d)) = jam (of_nat (unat a) / 2 ^ unat d)"
proof -
  assume d: "unat d < 64"
  have "push_bit (unat d) 1 - 1 = (mask (unat d) :: uint64)"
    by (simp add: mask_eq_exp_minus_1 push_bit_of_1)
  then show ?thesis
    by (simp add: softfloat_shortShiftRightJam64_def jam_nat_quot unat_or_of_bool unat_drop_bit_div
        word_eq_0_unat[of "a AND _"] unat_and_mask)
qed

lemma jam_nat_quot_far:
  assumes "a < 2 ^ Suc d"
  shows "jam (of_nat a / 2 ^ d) = of_bool (a \<noteq> 0)"
proof -
  have "a div 2 ^ d = 0 \<or> a div 2 ^ d = 1"
    using assms less_mult_imp_div_less[of a 2 "2 ^ d"] by auto
  moreover have "a div 2 ^ d = 1 \<Longrightarrow> a \<noteq> 0"
    by (metis div_0 zero_neq_one)
  ultimately show ?thesis
    by (auto simp: jam_nat_quot mod_eq_self_iff_div_eq_0[THEN iffD2])
qed

lemma shiftRightJam64_correct:
  assumes "d \<noteq> 0"
  shows "int (unat (softfloat_shiftRightJam64 a d)) = jam (of_nat (unat a) / 2 ^ unat d)"
proof (cases "d < 63")
  case True
  then have d: "0 < unat d" "unat d < 63"
    using assms by (simp_all add: word_less_nat_alt unat_gt_0)
  then have "unat (- d AND 63) = 64 - unat d"
    using unat_neg_and[of d 6] by (simp add: mask_numeral)
  then show ?thesis
    using True d push_bit_eq_0_mod[of "unat d" a]
    by (simp add: softfloat_shiftRightJam64_def jam_nat_quot unat_or_of_bool unat_drop_bit_div)
next
  case False
  then have "63 \<le> unat d"
    by (simp add: word_less_nat_alt)
  then have "(2::nat) ^ 64 \<le> 2 ^ Suc (unat d)"
    by (intro power_increasing) simp_all
  then have "unat a < 2 ^ Suc (unat d)"
    using unat_lt[of a] by simp
  with False show ?thesis
    by (simp add: softfloat_shiftRightJam64_def jam_nat_quot_far word_eq_0_unat[of a])
qed

lemma shiftRightJam32_correct:
  assumes "d \<noteq> 0"
  shows "int (unat (softfloat_shiftRightJam32 a d)) = jam (of_nat (unat a) / 2 ^ unat d)"
proof (cases "d < 31")
  case True
  then have d: "0 < unat d" "unat d < 31"
    using assms by (simp_all add: word_less_nat_alt unat_gt_0)
  then have "unat (- d AND 31) = 32 - unat d"
    using unat_neg_and[of d 5] by (simp add: mask_numeral)
  then show ?thesis
    using True d push_bit_eq_0_mod[of "unat d" a]
    by (simp add: softfloat_shiftRightJam32_def jam_nat_quot unat_or_of_bool unat_drop_bit_div)
next
  case False
  then have "31 \<le> unat d"
    by (simp add: word_less_nat_alt)
  then have "(2::nat) ^ 32 \<le> 2 ^ Suc (unat d)"
    by (intro power_increasing) simp_all
  then have "unat a < 2 ^ Suc (unat d)"
    using unat_lt[of a] by simp
  with False show ?thesis
    by (simp add: softfloat_shiftRightJam32_def jam_nat_quot_far word_eq_0_unat[of a])
qed

section \<open>Wide products\<close>

lemma unat_add_carry:
  "unat (x + y) + 2 ^ LENGTH('a) * of_bool (x + y < x) = unat x + unat y"
  "unat (x + y) + 2 ^ LENGTH('a) * of_bool (x + y < y) = unat x + unat y"
  for x y :: "'a::len word"
proof -
  define N :: nat where "N = 2 ^ LENGTH('a)"
  have b: "unat x < N" "unat y < N"
    by (simp_all add: N_def unat_lt)
  have s: "unat (x + y) = (if unat x + unat y < N then unat x + unat y else unat x + unat y - N)"
    using b unfolding unat_word_ariths N_def[symmetric] by (simp add: le_mod_geq)
  show "unat (x + y) + 2 ^ LENGTH('a) * of_bool (x + y < x) = unat x + unat y"
      "unat (x + y) + 2 ^ LENGTH('a) * of_bool (x + y < y) = unat x + unat y"
    using b unfolding N_def[symmetric] word_less_nat_alt s by auto
qed

text \<open>The number a pair of words stands for.\<close>

definition u128_nat :: "uint128 \<Rightarrow> nat" where
  "u128_nat z = unat (u128_v64 z) * 2 ^ 64 + unat (u128_v0 z)"

lemma unat_halves:
  "unat a = unat (to_u32 (drop_bit 32 a)) * 2 ^ 32 + unat (to_u32 a)" for a :: uint64
  using unat_lt[of a] div_mult_mod_eq[of "unat a" "2 ^ 32"]
  by (simp add: unat_ucast_mod unat_drop_bit_div less_mult_imp_div_less)

lemma unat_mul_32: "unat (to_u64 x * to_u64 y) = unat x * unat y" for x y :: uint32
proof -
  have "unat x * unat y < 2 ^ 32 * 2 ^ 32"
    using unat_lt[of x] unat_lt[of y] by (intro mult_strict_mono) simp_all
  then show ?thesis
    by (subst unat_mult_no_wrap) (simp_all add: unat_ucast_widen)
qed

lemma unat_push_drop_32: "unat a * 2 ^ 32 = unat (drop_bit 32 a) * 2 ^ 64 + unat (push_bit 32 a)"
  for a :: uint64
proof -
  have "unat a * 2 ^ 32 mod 2 ^ 64 = unat a mod 2 ^ 32 * 2 ^ 32"
    using mod_mult_mult2[of "unat a" "2 ^ 32" "2 ^ 32"] by simp
  moreover have "a = q * b + r \<Longrightarrow> a * b = q * (b * b) + r * b" for a b q r :: nat
    by (simp add: algebra_simps)
  from this[OF div_mult_mod_eq[of "unat a" "2 ^ 32", symmetric]]
  have "unat a * 2 ^ 32 = unat a div 2 ^ 32 * 2 ^ 64 + unat a mod 2 ^ 32 * 2 ^ 32"
    by (simp only: power_add[symmetric]) simp
  ultimately show ?thesis
    by (simp add: unat_push_bit_mod unat_drop_bit_div)
qed

lemma carry_or_drop:
  "unat (push_bit 32 (of_bool c) OR drop_bit 32 x) = of_bool c * 2 ^ 32 + unat (drop_bit 32 x)"
  for x :: uint64
proof -
  have d: "unat (drop_bit 32 x) < 2 ^ 32"
    using unat_lt[of x] by (simp add: unat_drop_bit_div less_mult_imp_div_less)
  show ?thesis
  proof (cases c)
    case True
    have "unat (drop_bit 32 x OR (push_bit 32 1 :: uint64)) = 2 ^ 32 + unat (drop_bit 32 x) mod 2 ^ 32"
      using d by (intro unat_or_pow2) simp_all
    with True d show ?thesis
      by (simp add: or.commute)
  qed simp
qed

lemma mul64To128_correct: "u128_nat (softfloat_mul64To128 a b) = unat a * unat b"
proof -
  define a32 a0 b32 b0 where "a32 = to_u32 (drop_bit 32 a)" and "a0 = to_u32 a"
    and "b32 = to_u32 (drop_bit 32 b)" and "b0 = to_u32 b"
  define mid1 mid2 mid where "mid1 = to_u64 a32 * to_u64 b0" and "mid2 = to_u64 a0 * to_u64 b32"
    and "mid = mid1 + mid2"
  define z0 where "z0 = to_u64 a0 * to_u64 b0 + push_bit 32 mid"
  define h where "h = push_bit 32 (of_bool (mid < mid1)) OR drop_bit 32 mid"
  define c :: uint64 where "c = of_bool (z0 < push_bit 32 mid)"
  define Z where "Z = unat a32 * unat b32 + unat h + unat c"
  have z: "softfloat_mul64To128 a b = \<lparr>u128_v64 = to_u64 a32 * to_u64 b32 + h + c, u128_v0 = z0\<rparr>"
    by (simp add: softfloat_mul64To128_def Let_def a32_def a0_def b32_def b0_def mid1_def mid2_def
        mid_def z0_def h_def c_def)
  have m: "unat mid + 2 ^ 64 * of_bool (mid < mid1) = unat a32 * unat b0 + unat a0 * unat b32"
    using unat_add_carry(1)[of mid1 mid2] by (simp add: mid_def mid1_def mid2_def unat_mul_32)
  have l: "unat z0 + 2 ^ 64 * unat c = unat a0 * unat b0 + unat (push_bit 32 mid)"
    using unat_add_carry(2)[of "to_u64 a0 * to_u64 b0" "push_bit 32 mid"] by (simp add: z0_def c_def unat_mul_32)
  have h: "unat h = of_bool (mid < mid1) * 2 ^ 32 + unat (drop_bit 32 mid)"
    unfolding h_def by (rule carry_or_drop)
  have "unat a * unat b = unat a32 * unat b32 * 2 ^ 64 + (unat a32 * unat b0 + unat a0 * unat b32) * 2 ^ 32 + unat a0 * unat b0"
    by (simp add: unat_halves[of a] unat_halves[of b] a32_def a0_def b32_def b0_def algebra_simps)
  also have "\<dots> = Z * 2 ^ 64 + unat z0"
    using l unat_push_drop_32[of mid] unfolding m[symmetric] Z_def h by (simp add: algebra_simps)
  finally have t: "unat a * unat b = Z * 2 ^ 64 + unat z0" .
  have "unat a * unat b < 2 ^ 64 * 2 ^ 64"
    using unat_lt[of a] unat_lt[of b] by (intro mult_strict_mono) simp_all
  then have "Z < 2 ^ 64"
    using t by simp
  then have "unat (to_u64 a32 * to_u64 b32 + h + c) = Z"
    unfolding Z_def by (subst unat_add_no_wrap; (subst unat_add_no_wrap)?) (simp_all add: unat_mul_32)
  then show ?thesis
    by (simp add: z u128_nat_def t)
qed

text \<open>A pair with its low word folded into a sticky bit.\<close>

lemma u128_jam:
  "int (unat (u128_v64 z OR of_bool (u128_v0 z \<noteq> 0))) = jam (of_nat (u128_nat z) / 2 ^ 64)"
  using unat_lt[of "u128_v0 z"]
  unfolding jam_nat_quot by (auto simp: u128_nat_def unat_or_of_bool word_eq_0_unat)

text \<open>The same by hand, as the half-precision routines fold the low 16 bits of a product.\<close>

lemma fold16_jam:
  "int (unat (if x AND 0xFFFF \<noteq> 0 then drop_bit 16 x OR 1 else drop_bit 16 x)) = jam (of_nat (unat x) / 2 ^ 16)"
  for x :: uint64
proof -
  have "(if x AND 0xFFFF \<noteq> 0 then drop_bit 16 x OR 1 else drop_bit 16 x) =
      drop_bit 16 x OR of_bool (unat x mod 2 ^ 16 \<noteq> 0)"
    using unat_and_mask[of x 16] by (simp add: mask_numeral word_eq_0_unat)
  then show ?thesis
    unfolding jam_nat_quot by (simp add: unat_or_of_bool unat_drop_bit_div)
qed

end
