(* ===== verification/SF_RoundSpec.thy ===== *)
theory SF_RoundSpec
  imports SF_State
begin

text \<open>
  What a routine of SoftFloat owes its caller when the exact result of an operation is the
  real number of sign \<open>neg\<close> and magnitude \<open>x\<close>: the correctly rounded bit pattern and the
  exception flags that IEEE 754 asks for (\<open>fp_rounds_to\<close>). The theory states this contract for
  a format of \<open>p\<close> fraction and \<open>w\<close> exponent bits, and the interface \<open>round_pack\<close> that the
  three rounding routines of the library implement.
\<close>

section \<open>Exception flags of a rounded result\<close>

definition fp_overflows :: "nat \<Rightarrow> nat \<Rightarrow> rounding \<Rightarrow> bool \<Rightarrow> real \<Rightarrow> bool" where
  "fp_overflows p w m neg x \<longleftrightarrow> 2 powi (fp_bias w + 1) \<le> fp_round p (fp_emin p w) m neg x"

definition fp_inexact :: "nat \<Rightarrow> nat \<Rightarrow> rounding \<Rightarrow> bool \<Rightarrow> real \<Rightarrow> bool" where
  "fp_inexact p w m neg x \<longleftrightarrow>
     fp_overflows p w m neg x \<or> fp_round p (fp_emin p w) m neg x \<noteq> x"

text \<open>
  Tininess before rounding looks at the exact magnitude; tininess after rounding at the
  magnitude rounded to \<open>p\<close> fraction bits as if the exponent range were unbounded.
\<close>

definition fp_tiny :: "nat \<Rightarrow> nat \<Rightarrow> bool \<Rightarrow> rounding \<Rightarrow> bool \<Rightarrow> real \<Rightarrow> bool" where
  "fp_tiny p w before m neg x \<longleftrightarrow>
     (if before then x else fp_round p (\<lfloor>log 2 x\<rfloor> - int p) m neg x) < 2 powi (1 - fp_bias w)"

definition fp_flags :: "nat \<Rightarrow> nat \<Rightarrow> bool \<Rightarrow> rounding \<Rightarrow> bool \<Rightarrow> real \<Rightarrow> uint_fast8" where
  "fp_flags p w before m neg x =
     (if fp_overflows p w m neg x then softfloat_flag_overflow OR softfloat_flag_inexact
      else if fp_inexact p w m neg x
      then (if fp_tiny p w before m neg x then softfloat_flag_underflow OR softfloat_flag_inexact
            else softfloat_flag_inexact)
      else 0)"

text \<open>
  \<open>fp_rounds_to p w s neg x r s'\<close>: in state \<open>s\<close> an operation with exact result \<open>x\<close> (of sign
  \<open>neg\<close>) may return the pattern \<open>r\<close> and the state \<open>s'\<close>.
\<close>

definition tiny_before :: "softfloat_state \<Rightarrow> bool" where
  "tiny_before s \<longleftrightarrow> softfloat_detectTininess s = softfloat_tininess_beforeRounding"

definition fp_rounds_to ::
  "nat \<Rightarrow> nat \<Rightarrow> softfloat_state \<Rightarrow> bool \<Rightarrow> real \<Rightarrow> nat \<Rightarrow> softfloat_state \<Rightarrow> bool" where
  "fp_rounds_to p w s neg x r s' \<longleftrightarrow>
     (let m = round_mode (softfloat_roundingMode s)
      in r div 2 ^ (p + w) = of_bool neg
         \<and> fp_is_round p w m neg x (r mod 2 ^ (p + w))
         \<and> s' = softfloat_raiseFlags (fp_flags p w (tiny_before s) m neg x) s)"

section \<open>The flags in terms of the significand that is rounded\<close>

lemma rnd_eq_self_iff: "of_int (rnd m neg y) = y \<longleftrightarrow> y \<in> \<int>"
  by (metis Ints_cases Ints_of_int rnd_of_int)

lemma rnd_dirs: "rnd RTZ False y = \<lfloor>y\<rfloor>" "rnd RUP False y = \<lceil>y\<rceil>"
  by (auto simp: rnd_def ceiling_altdef frac_gt_0_iff frac_eq_0_iff Ints_def)

lemma Ints_rnd_dirs: "y \<in> \<int> \<longleftrightarrow> rnd RTZ False y = rnd RUP False y"
proof
  show "y \<in> \<int> \<Longrightarrow> rnd RTZ False y = rnd RUP False y"
    by (auto elim: Ints_cases)
  assume "rnd RTZ False y = rnd RUP False y"
  then have "\<lfloor>y\<rfloor> = \<lceil>y\<rceil>"
    by (simp only: rnd_dirs)
  then have "y = of_int \<lfloor>y\<rfloor>"
    using of_int_floor_le[of y] le_of_int_ceiling[of y] by linarith
  then show "y \<in> \<int>"
    by (metis Ints_of_int)
qed

lemma nat_quot_Ints: "real s / 2 ^ k \<in> \<int> \<longleftrightarrow> s mod 2 ^ k = 0"
proof
  show "s mod 2 ^ k = 0 \<Longrightarrow> real s / 2 ^ k \<in> \<int>"
    by (auto elim!: dvdE simp: mod_eq_0_iff_dvd)
  assume "real s / 2 ^ k \<in> \<int>"
  then obtain z where "real s / 2 ^ k = of_int z"
    by (auto elim: Ints_cases)
  then have "real_of_int (int s) = of_int (z * 2 ^ k)"
    by (simp add: field_simps)
  then have "int s = z * 2 ^ k"
    by (simp only: of_int_eq_iff)
  then have "int s mod 2 ^ k = 0"
    by simp
  then show "s mod 2 ^ k = 0"
    by (metis of_nat_0_eq_iff of_nat_mod of_nat_numeral of_nat_power)
qed

lemma rp_sig_exact:
  assumes "2 \<le> k"
  shows "rp_sig e s mod 2 ^ k = 0 \<longleftrightarrow> real s / 2 ^ nat (int k + max 0 (- e)) \<in> \<int>"
  using rp_sig_round[OF assms, of _ _ e s]
  by (simp add: nat_quot_Ints[symmetric] Ints_rnd_dirs)

text \<open>
  The largest significand before rounding that does not carry out of \<open>p + 1\<close> bits, by the
  comparison the code makes.
\<close>

lemma rnd_by_incr_carry:
  assumes "0 < k"
  shows "rnd_by_incr k m neg s < 2 ^ (p + 1) \<longleftrightarrow> s + rnd_incr k m neg < 2 ^ (p + k + 1)"
proof -
  define n where "n = (s + rnd_incr k m neg) div 2 ^ k"
  have n: "n < 2 ^ (p + 1) \<longleftrightarrow> s + rnd_incr k m neg < 2 ^ (p + k + 1)"
    by (simp add: n_def div_less_iff_less_mult power_add mult.commute mult.left_commute)
  have ev: "even ((2::nat) ^ (p + 1))"
    by simp
  have "n OR 1 < 2 ^ (p + 1) \<longleftrightarrow> n < 2 ^ (p + 1)"
  proof -
    have "even n \<Longrightarrow> n < 2 ^ (p + 1) \<Longrightarrow> n + 1 \<noteq> 2 ^ (p + 1)"
      using ev by (metis even_plus_one_iff)
    then show ?thesis
      unfolding nat_or_1 by (cases "even n") (auto intro: le_neq_implies_less)
  qed
  moreover have "odd n \<Longrightarrow> n - 1 < 2 ^ (p + 1) \<longleftrightarrow> n < 2 ^ (p + 1)"
  proof -
    assume o: "odd n"
    then have "n \<noteq> 2 ^ (p + 1)"
      using ev by metis
    then show ?thesis
      using o odd_pos[OF o] by linarith
  qed
  ultimately show ?thesis
    unfolding rnd_by_incr_def Let_def n_def[symmetric] n[symmetric] by auto
qed

text \<open>
  The input of a rounding routine: a significand \<open>s\<close> of \<open>p + k + 1\<close> bits, the lowest \<open>k\<close> of
  them to be rounded away, with exponent \<open>e\<close>.
\<close>

definition rp_input :: "nat \<Rightarrow> nat \<Rightarrow> nat \<Rightarrow> nat \<Rightarrow> bool" where
  "rp_input p w k s \<longleftrightarrow> 2 ^ (p + k) \<le> s \<and> s < 2 ^ (p + k + 1) \<and> 2 \<le> k \<and> 2 \<le> w"

definition rp_val :: "nat \<Rightarrow> nat \<Rightarrow> nat \<Rightarrow> int \<Rightarrow> nat \<Rightarrow> real" where
  "rp_val p w k e s = of_nat s * 2 powi (fp_emin p w + e - int k)"

lemma rp_inputD:
  assumes "rp_input p w k s"
  shows "2 ^ (p + k) \<le> s" "s < 2 ^ (p + k + 1)" "2 \<le> k" "2 \<le> w" "0 < k"
    "2 ^ (p + k) \<le> real s" "real s < 2 ^ Suc (p + k)"
proof -
  show a: "2 ^ (p + k) \<le> s" "s < 2 ^ (p + k + 1)" "2 \<le> k" "2 \<le> w" "0 < k"
    using assms by (auto simp: rp_input_def)
  have "real (2 ^ (p + k)) \<le> real s" "real s < real (2 ^ (p + k + 1))"
    using a(1,2) by (simp_all only: of_nat_le_iff of_nat_less_iff)
  then show "2 ^ (p + k) \<le> real s" "real s < 2 ^ Suc (p + k)"
    by simp_all
qed

lemma rp_round:
  assumes "rp_input p w k s"
  shows "fp_round p (fp_emin p w) m neg (rp_val p w k e s) =
     of_nat (rnd_by_incr k m neg (rp_sig e s)) * 2 powi (fp_emin p w + max 0 e)"
  unfolding rp_val_def by (rule rp_fp_round[OF rp_inputD(1-3)[OF assms]])

lemma rp_exact_iff:
  assumes "rp_input p w k s"
  shows "fp_round p (fp_emin p w) m neg (rp_val p w k e s) = rp_val p w k e s \<longleftrightarrow> rp_sig e s mod 2 ^ k = 0"
proof -
  note i = rp_inputD[OF assms]
  define q where "q = fp_emin p w + max 0 e"
  have q: "q = max (int (p + k) + (fp_emin p w + e - int k) - int p) (fp_emin p w)"
    by (simp add: q_def)
  have u: "fp_emin p w + e - int k \<le> q"
    by (simp add: q_def)
  have d: "q - (fp_emin p w + e - int k) = int k + max 0 (- e)"
    by (simp add: q_def)
  define y where "y = real s / 2 ^ nat (int k + max 0 (- e))"
  have x: "rp_val p w k e s = y * 2 powi q"
    using powi_scale_diff[OF u, of "real s"] unfolding rp_val_def y_def d
    by (simp add: nonzero_divide_eq_eq)
  have "fp_round p (fp_emin p w) m neg (rp_val p w k e s) = of_int (rnd m neg y) * 2 powi q"
    using fp_round_scaled[OF i(6,7) q u, of m neg] by (simp add: rp_val_def y_def d)
  then have "fp_round p (fp_emin p w) m neg (rp_val p w k e s) = rp_val p w k e s \<longleftrightarrow> of_int (rnd m neg y) = y"
    unfolding x by (simp only: mult_cancel_right) simp
  then show ?thesis
    by (simp only: rnd_eq_self_iff rp_sig_exact[OF i(3)] y_def)
qed

lemma rp_tiny_before_iff:
  assumes "rp_input p w k s"
  shows "rp_val p w k e s < 2 powi (1 - fp_bias w) \<longleftrightarrow> e < 0"
proof (cases "e < 0")
  case True
  note i = rp_inputD[OF assms]
  have "rp_val p w k e s < 2 powi (int (p + k + 1) + (fp_emin p w + e - int k))"
    unfolding rp_val_def by (rule scaled_pow2_bounds(2)[OF i(2)])
  also have "\<dots> \<le> 2 powi (1 - fp_bias w)"
    using True by (intro power_int_increasing) (simp_all add: fp_emin_def)
  finally show ?thesis
    using True by simp
next
  case False
  note i = rp_inputD[OF assms]
  have "(2::real) powi (1 - fp_bias w) \<le> 2 powi (int (p + k) + (fp_emin p w + e - int k))"
    using False by (intro power_int_increasing) (simp_all add: fp_emin_def)
  also have "\<dots> \<le> rp_val p w k e s"
    unfolding rp_val_def by (rule scaled_pow2_bounds(3)[OF i(1)])
  finally show ?thesis
    using False by simp
qed

lemma rp_unbounded_round:
  assumes "rp_input p w k s"
  shows "fp_round p (\<lfloor>log 2 (rp_val p w k e s)\<rfloor> - int p) m neg (rp_val p w k e s) =
     of_nat (rnd_by_incr k m neg s) * 2 powi (fp_emin p w + e)"
proof -
  note i = rp_inputD[OF assms]
  have l: "\<lfloor>log 2 (rp_val p w k e s)\<rfloor> - int p = fp_emin p w + e"
    unfolding rp_val_def floor_log2_scaled[OF i(6,7)] by simp
  have "fp_round p (fp_emin p w + e) m neg (rp_val p w k e s) =
      of_int (rnd m neg (real s / 2 ^ nat ((fp_emin p w + e) - (fp_emin p w + e - int k))))
        * 2 powi (fp_emin p w + e)"
    unfolding rp_val_def by (rule fp_round_scaled[OF i(6,7)]) simp_all
  then show ?thesis
    unfolding l using rnd_by_incr_correct[OF i(5), of m neg s] by simp
qed

lemma rp_tiny_after_iff:
  assumes "rp_input p w k s"
  shows "fp_round p (\<lfloor>log 2 (rp_val p w k e s)\<rfloor> - int p) m neg (rp_val p w k e s) < 2 powi (1 - fp_bias w) \<longleftrightarrow>
     e < -1 \<or> e = -1 \<and> s + rnd_incr k m neg < 2 ^ (p + k + 1)"
proof -
  note i = rp_inputD[OF assms]
  define n where "n = rnd_by_incr k m neg s"
  have nb: "2 ^ p \<le> n" "n \<le> 2 ^ (p + 1)"
  proof -
    have "2 ^ p * 2 ^ k \<le> s" "s < 2 ^ (p + 1) * 2 ^ k"
      using i(1) i(2) by (simp_all add: power_add)
    from rnd_by_incr_bounds[OF i(5) this] show "2 ^ p \<le> n" "n \<le> 2 ^ (p + 1)"
      unfolding n_def by blast+
  qed
  have E: "int p + (fp_emin p w + e) = 1 - fp_bias w + e"
      "int (p + 1) + (fp_emin p w + e) = 2 - fp_bias w + e"
    by (simp_all add: fp_emin_def)
  have lo: "2 powi (1 - fp_bias w + e) \<le> real n * 2 powi (fp_emin p w + e)"
    using scaled_pow2_bounds(3)[OF nb(1), of "fp_emin p w + e"] unfolding E .
  have hi: "real n * 2 powi (fp_emin p w + e) \<le> 2 powi (2 - fp_bias w + e)"
    using scaled_pow2_bounds(1)[OF nb(2), of "fp_emin p w + e"] unfolding E .
  have c: "n < 2 ^ (p + 1) \<longleftrightarrow> s + rnd_incr k m neg < 2 ^ (p + k + 1)"
    unfolding n_def by (rule rnd_by_incr_carry[OF i(5)])
  consider "e < -1" | "e = -1" | "-1 < e"
    by linarith
  then show ?thesis
  proof cases
    case 1
    then have "(2::real) powi (2 - fp_bias w + e) < 2 powi (1 - fp_bias w)"
      by (intro power_int_strict_increasing) simp_all
    with hi 1 show ?thesis
      unfolding rp_unbounded_round[OF assms] n_def[symmetric] by simp
  next
    case 2
    have "real n * 2 powi (fp_emin p w + e) < 2 powi (1 - fp_bias w) \<longleftrightarrow> n < 2 ^ (p + 1)"
    proof (cases "n < 2 ^ (p + 1)")
      case True
      then show ?thesis
        using scaled_pow2_bounds(2)[OF True, of "fp_emin p w + e"] 2 unfolding E by simp
    next
      case False
      then have "2 ^ (p + 1) \<le> n"
        by simp
      from scaled_pow2_bounds(3)[OF this, of "fp_emin p w + e"] False 2 show ?thesis
        unfolding E by simp
    qed
    with 2 show ?thesis
      unfolding rp_unbounded_round[OF assms] n_def[symmetric] c by simp
  next
    case 3
    then have "(2::real) powi (1 - fp_bias w) \<le> 2 powi (1 - fp_bias w + e)"
      by (intro power_int_increasing) simp_all
    with lo 3 show ?thesis
      unfolding rp_unbounded_round[OF assms] n_def[symmetric] by simp
  qed
qed

section \<open>The rounding step as an integer function\<close>

text \<open>
  What the rounding routines compute, on natural numbers: the pattern without the sign, and
  the flags. \<open>rp_overflow_cond\<close> is the comparison they make for overflow.
\<close>

definition rp_overflow_cond :: "nat \<Rightarrow> nat \<Rightarrow> nat \<Rightarrow> rounding \<Rightarrow> bool \<Rightarrow> int \<Rightarrow> nat \<Rightarrow> bool" where
  "rp_overflow_cond p w k m neg e s \<longleftrightarrow>
     2 ^ w - 3 < e \<or> e = 2 ^ w - 3 \<and> 2 ^ (p + k + 1) \<le> s + rnd_incr k m neg"

definition rp_bits :: "nat \<Rightarrow> nat \<Rightarrow> nat \<Rightarrow> rounding \<Rightarrow> bool \<Rightarrow> int \<Rightarrow> nat \<Rightarrow> nat" where
  "rp_bits p w k m neg e s =
     (if rp_overflow_cond p w k m neg e s
      then fp_inf p w - of_bool (rnd_incr k m neg = 0)
      else nat (max 0 e) * 2 ^ p + rnd_by_incr k m neg (rp_sig e s))"

definition rp_flags ::
  "nat \<Rightarrow> nat \<Rightarrow> nat \<Rightarrow> bool \<Rightarrow> rounding \<Rightarrow> bool \<Rightarrow> int \<Rightarrow> nat \<Rightarrow> uint_fast8" where
  "rp_flags p w k before m neg e s =
     (if rp_overflow_cond p w k m neg e s then softfloat_flag_overflow OR softfloat_flag_inexact
      else if rp_sig e s mod 2 ^ k \<noteq> 0
      then (if e < 0 \<and> (before \<or> e < -1 \<or> s + rnd_incr k m neg < 2 ^ (p + k + 1))
            then softfloat_flag_underflow OR softfloat_flag_inexact else softfloat_flag_inexact)
      else 0)"

lemma rp_overflow_cond_carry:
  assumes "rp_input p w k s"
  shows "rp_overflow_cond p w k m neg e s \<longleftrightarrow>
    2 ^ w - 3 < e \<or> e = 2 ^ w - 3 \<and> 2 ^ (p + 1) \<le> rnd_by_incr k m neg s"
  using rnd_by_incr_carry[OF rp_inputD(5)[OF assms], of m neg s p]
  by (auto simp: rp_overflow_cond_def not_less[symmetric])

lemma rp_fit:
  assumes "rp_input p w k s" and "\<not> rp_overflow_cond p w k m neg e s"
  shows "max 0 e < 2 ^ w - 3 \<or> max 0 e = 2 ^ w - 3 \<and> rnd_by_incr k m neg (rp_sig e s) < 2 ^ (p + 1)"
proof -
  have "(2::int) ^ 2 \<le> 2 ^ w"
    using rp_inputD(4)[OF assms(1)] by (intro power_increasing) simp_all
  then show ?thesis
    using assms(2) unfolding rp_overflow_cond_carry[OF assms(1)]
    by (cases "0 \<le> e") (auto simp: rp_sig_def)
qed

lemma rp_bits_correct:
  assumes "rp_input p w k s"
  shows "fp_is_round p w m neg (rp_val p w k e s) (rp_bits p w k m neg e s)"
    and "rp_bits p w k m neg e s < 2 ^ (p + w)"
    and "fp_overflows p w m neg (rp_val p w k e s) \<longleftrightarrow> rp_overflow_cond p w k m neg e s"
proof -
  note i = rp_inputD[OF assms]
  have inf: "fp_inf p w < 2 ^ (p + w)"
    by (simp add: fp_inf_def power_add algebra_simps)
  have mag: "fp_is_round p w m neg (rp_val p w k e s) (rp_bits p w k m neg e s) \<and>
      rp_bits p w k m neg e s < 2 ^ (p + w) \<and>
      (fp_overflows p w m neg (rp_val p w k e s) \<longleftrightarrow> rp_overflow_cond p w k m neg e s)"
  proof (cases "rp_overflow_cond p w k m neg e s")
    case True
    then have ov: "2 ^ w - 3 < e \<or> e = 2 ^ w - 3 \<and> 2 ^ (p + 1) \<le> rnd_by_incr k m neg s"
      by (simp only: rp_overflow_cond_carry[OF assms])
    have "rp_bits p w k m neg e s = (if overflow_to_inf m neg then fp_inf p w else fp_inf p w - 1)"
      using True by (simp add: rp_bits_def overflow_to_inf_incr[OF i(5)])
    with rp_overflow[OF i(1-4) ov] rp_overflows[OF i(1-4) ov] inf True show ?thesis
      by (auto simp: rp_val_def fp_overflows_def)
  next
    case False
    note fit = rp_fit[OF assms False]
    from rp_pack_correct[OF i(1-4) refl fit] inf False show ?thesis
      by (auto simp: rp_bits_def rp_val_def fp_overflows_def)
  qed
  then show "fp_is_round p w m neg (rp_val p w k e s) (rp_bits p w k m neg e s)"
      "rp_bits p w k m neg e s < 2 ^ (p + w)"
      "fp_overflows p w m neg (rp_val p w k e s) \<longleftrightarrow> rp_overflow_cond p w k m neg e s"
    by blast+
qed

lemma rp_flags_correct:
  assumes "rp_input p w k s"
  shows "rp_flags p w k before m neg e s = fp_flags p w before m neg (rp_val p w k e s)"
proof -
  have "fp_tiny p w before m neg (rp_val p w k e s) \<longleftrightarrow>
      e < 0 \<and> (before \<or> e < -1 \<or> s + rnd_incr k m neg < 2 ^ (p + k + 1))"
    using rp_tiny_before_iff[OF assms, of e] rp_tiny_after_iff[OF assms, of e m neg]
    by (auto simp: fp_tiny_def)
  then show ?thesis
    by (simp add: rp_flags_def fp_flags_def fp_inexact_def rp_bits_correct(3)[OF assms]
        rp_exact_iff[OF assms])
qed

lemma rp_val_shift: "rp_val p w k (e - int d) (a * 2 ^ d) = rp_val p w k e a"
proof -
  have "(2::real) powi (fp_emin p w + e - int k) = 2 powi (int d + (fp_emin p w + (e - int d) - int k))"
    by (rule arg_cong) simp
  also have "\<dots> = 2 ^ d * 2 powi (fp_emin p w + (e - int d) - int k)"
    by (subst power_int_add) simp_all
  finally show ?thesis
    by (simp add: rp_val_def)
qed

text \<open>
  What is proved of a value with a sticky bit holds of the exact value: it has the same
  rounded pattern and raises the same flags.
\<close>

lemma jam_real_range:
  assumes "2 ^ n \<le> y" and "y < 2 ^ Suc n" and "0 < n"
  shows "2 ^ n \<le> real_of_int (jam y)" and "real_of_int (jam y) < 2 ^ Suc n"
proof -
  have "real_of_int (2 ^ n) \<le> of_int (jam y)" "of_int (jam y) < real_of_int (2 ^ Suc n)"
    using jam_range[OF assms] by (simp_all only: of_int_le_iff of_int_less_iff)
  then show "2 ^ n \<le> real_of_int (jam y)" "real_of_int (jam y) < 2 ^ Suc n"
    by (simp_all only: of_int_power of_int_numeral)
qed

lemma binade_less_iff:
  assumes "2 ^ n \<le> y" and "y < 2 ^ Suc n"
  shows "y * 2 powi u < (2 powi v :: real) \<longleftrightarrow> int n + u < v"
proof (cases "int n + u < v")
  case True
  have "y * 2 powi u < 2 ^ Suc n * 2 powi u"
    using assms(2) by (intro mult_strict_right_mono) simp_all
  also have "\<dots> = 2 powi (int (Suc n) + u)"
    by (subst power_int_add) (simp_all only: power_int_of_nat, simp_all)
  also have "\<dots> \<le> 2 powi v"
    using True by (intro power_int_increasing) simp_all
  finally show ?thesis
    using True by simp
next
  case False
  then have "(2::real) powi v \<le> 2 powi (int n + u)"
    by (intro power_int_increasing) simp_all
  also have "\<dots> = 2 ^ n * 2 powi u"
    by (subst power_int_add) simp_all
  also have "\<dots> \<le> y * 2 powi u"
    using assms(1) by (intro mult_right_mono) simp_all
  finally show ?thesis
    using False by simp
qed

lemma jam_quot_Ints:
  assumes "0 < k"
  shows "real_of_int (jam y) / 2 ^ k \<in> \<int> \<longleftrightarrow> y / (2 ^ k :: real) \<in> \<int>"
proof -
  have "frac (of_int (jam y) / (2::real) ^ k) = of_int (jam y mod 2 ^ k) / 2 ^ k"
    using frac_quot_pow2[of "of_int (jam y)" k] by simp
  moreover have "frac (y / 2 ^ k) = (of_int (\<lfloor>y\<rfloor> mod 2 ^ k) + frac y) / 2 ^ k"
    by (rule frac_quot_pow2)
  moreover have "jam y mod 2 ^ k = 0 \<longleftrightarrow> \<lfloor>y\<rfloor> mod 2 ^ k = 0 \<and> frac y = 0"
  proof -
    have "0 \<le> \<lfloor>y\<rfloor> mod 2 ^ k"
      by simp
    then show ?thesis
      using frac_ge_0[of y] unfolding jam_div_mod(2)[OF assms]
      by (cases "\<lfloor>y\<rfloor> mod 2 ^ k = 0") auto
  qed
  moreover have "of_int (\<lfloor>y\<rfloor> mod 2 ^ k) + frac y = 0 \<longleftrightarrow> \<lfloor>y\<rfloor> mod 2 ^ k = 0 \<and> frac y = 0"
  proof -
    have "0 \<le> real_of_int (\<lfloor>y\<rfloor> mod 2 ^ k)"
      by simp
    then show ?thesis
      using frac_ge_0[of y] by (auto simp: add_nonneg_eq_0_iff)
  qed
  ultimately show ?thesis
    by (simp flip: frac_eq_0_iff)
qed

lemma fp_round_exact_iff:
  assumes "2 ^ n \<le> y" and "y < 2 ^ Suc n" and "q = max (int n + u - int p) emin" and "u \<le> q"
  shows "fp_round p emin m neg (y * 2 powi u) = y * 2 powi u \<longleftrightarrow> y / 2 ^ nat (q - u) \<in> \<int>"
proof -
  have "y * 2 powi u = y / 2 ^ nat (q - u) * 2 powi q"
    using powi_scale_diff[OF assms(4), of y] by (simp add: nonzero_divide_eq_eq)
  then have "fp_round p emin m neg (y * 2 powi u) = y * 2 powi u \<longleftrightarrow>
      of_int (rnd m neg (y / 2 ^ nat (q - u))) = y / 2 ^ nat (q - u)"
    unfolding fp_round_scaled[OF assms] by (simp only: mult_cancel_right) simp
  then show ?thesis
    by (simp only: rnd_eq_self_iff)
qed

lemma fp_flags_jam:
  assumes y: "2 ^ n \<le> y" "y < 2 ^ Suc n" and n: "p + 2 \<le> n"
  shows "fp_flags p w before m neg (of_int (jam y) * 2 powi u) = fp_flags p w before m neg (y * 2 powi u)"
proof -
  have n0: "0 < n"
    using n by simp
  note j = jam_real_range[OF y n0]
  define q where "q = max (int n + u - int p) (fp_emin p w)"
  have q: "u \<le> q" "0 < nat (q - u)"
    using n by (simp_all add: q_def)
  have "fp_round p (fp_emin p w) m neg (of_int (jam y) * 2 powi u) = of_int (jam y) * 2 powi u \<longleftrightarrow>
      fp_round p (fp_emin p w) m neg (y * 2 powi u) = y * 2 powi u"
    unfolding fp_round_exact_iff[OF j q_def q(1)] fp_round_exact_iff[OF y q_def q(1)]
    by (rule jam_quot_Ints[OF q(2)])
  moreover have "fp_tiny p w before m neg (of_int (jam y) * 2 powi u) \<longleftrightarrow> fp_tiny p w before m neg (y * 2 powi u)"
    unfolding fp_tiny_def floor_log2_scaled[OF y] floor_log2_scaled[OF j] fp_round_jam[OF y n]
    by (simp add: binade_less_iff[OF y] binade_less_iff[OF j])
  ultimately show ?thesis
    by (simp add: fp_flags_def fp_inexact_def fp_overflows_def fp_round_jam[OF y n])
qed

lemma fp_rounds_to_jam:
  assumes "2 ^ n \<le> y" "y < 2 ^ Suc n" and "p + 2 \<le> n"
  shows "fp_rounds_to p w s neg (of_int (jam y) * 2 powi u) r s' \<longleftrightarrow> fp_rounds_to p w s neg (y * 2 powi u) r s'"
  by (simp add: fp_rounds_to_def fp_is_round_def fp_round_jam[OF assms] fp_flags_jam[OF assms])

text \<open>Zero needs no rounding.\<close>

lemma fp_rounds_to_0:
  assumes "0 < w"
  shows "fp_rounds_to p w s neg 0 (of_bool neg * 2 ^ (p + w)) s"
proof -
  have r0: "fp_round p e m neg 0 = 0" for e m
    using rnd_of_int[of m neg 0] by (simp add: fp_round_def)
  have "(1::nat) < 2 ^ w"
    using assms by (intro one_less_power) simp_all
  then have "0 < fp_inf p w"
    by (simp add: fp_inf_def)
  moreover have "\<not> (2 powi (fp_bias w + 1) \<le> (0::real))"
    by (simp add: not_le)
  ultimately show ?thesis
    by (auto simp: fp_rounds_to_def fp_is_round_def r0 fp_mag_def fp_flags_def fp_overflows_def
        fp_inexact_def)
qed

section \<open>The interface of the rounding routines\<close>

text \<open>
  A rounding routine for a format takes a sign, an exponent, a normalized significand and
  the state. Its contract is that of \<open>rp_bits\<close> and \<open>rp_flags\<close>; what its callers use is that the
  result is correctly rounded.
\<close>

locale round_pack =
  fixes p w k :: nat
    and exp_range :: "int set"
    and roundPack :: "bool \<Rightarrow> int \<Rightarrow> uint_fast64 \<Rightarrow> softfloat_state \<Rightarrow> 'r::len word \<times> softfloat_state"
  assumes bits: "rp_input p w k (unat sig) \<Longrightarrow> e \<in> exp_range \<Longrightarrow>
      unat (fst (roundPack sign e sig s)) =
        of_bool sign * 2 ^ (p + w)
          + rp_bits p w k (round_mode (softfloat_roundingMode s)) sign e (unat sig)"
    and flags: "rp_input p w k (unat sig) \<Longrightarrow> e \<in> exp_range \<Longrightarrow>
      snd (roundPack sign e sig s) =
        softfloat_raiseFlags
          (rp_flags p w k (tiny_before s) (round_mode (softfloat_roundingMode s)) sign e (unat sig)) s"
begin

theorem rounds:
  assumes "rp_input p w k (unat sig)" and "e \<in> exp_range"
    and "roundPack sign e sig s = (r, s')"
  shows "fp_rounds_to p w s sign (rp_val p w k e (unat sig)) (unat r) s'"
proof -
  define m where "m = round_mode (softfloat_roundingMode s)"
  note c = rp_bits_correct[OF assms(1), of m sign e]
  have "unat r = rp_bits p w k m sign e (unat sig) + of_bool sign * 2 ^ (p + w)"
    using bits[OF assms(1,2), of sign s] assms(3) by (simp add: m_def)
  then have "unat r div 2 ^ (p + w) = of_bool sign" "unat r mod 2 ^ (p + w) = rp_bits p w k m sign e (unat sig)"
    using c(2) by simp_all
  moreover have "s' = softfloat_raiseFlags (fp_flags p w (tiny_before s) m sign (rp_val p w k e (unat sig))) s"
    using flags[OF assms(1,2), of sign s] assms(3) by (simp add: m_def rp_flags_correct[OF assms(1)])
  ultimately show ?thesis
    using c(1) by (simp add: fp_rounds_to_def m_def)
qed

text \<open>
  How the arithmetic routines call it: with a sticky value \<open>jam y\<close>, shifted left by \<open>d\<close> bits
  to normalize it, where \<open>y\<close> is the exact result in units of the rounding routine.
\<close>

theorem rounds_jam:
  assumes y: "2 ^ n \<le> y" "y < 2 ^ Suc n" and n: "p + 2 \<le> n" and d: "n + d = p + k"
    and sig: "unat sig = nat (jam y) * 2 ^ d" and w: "2 \<le> w"
    and e: "e - int d \<in> exp_range" and r: "roundPack sign (e - int d) sig s = (r, s')"
  shows "fp_rounds_to p w s sign (y * 2 powi (fp_emin p w + e - int k)) (unat r) s'"
proof -
  have n0: "0 < n" and k: "2 \<le> k"
    using n d by simp_all
  have j: "2 ^ n \<le> nat (jam y)" "nat (jam y) < 2 ^ Suc n" "0 \<le> jam y"
    using jam_range[OF y n0] by (simp_all add: le_nat_iff nat_less_iff order_trans[OF zero_le_power])
  have "2 ^ n * 2 ^ d \<le> unat sig" "unat sig < 2 ^ Suc n * 2 ^ d"
    using j by (simp_all add: sig)
  then have i: "rp_input p w k (unat sig)"
    using w k unfolding rp_input_def by (simp add: d mult.assoc flip: power_add)
  have "fp_rounds_to p w s sign (of_int (jam y) * 2 powi (fp_emin p w + e - int k)) (unat r) s'"
    using rounds[OF i e r] j(3) by (simp add: sig rp_val_shift) (simp add: rp_val_def)
  then show ?thesis
    by (simp only: fp_rounds_to_jam[OF y n])
qed

text \<open>A sticky value of one bit less than wanted is shifted into place.\<close>

lemma rounds_jam_norm:
  assumes y: "2 ^ (p + k - 1) \<le> y" "y < 2 ^ (p + k + 1)" and k: "3 \<le> k" and w: "2 \<le> w"
    and len: "p + k + 1 \<le> 64"
    and sig: "unat sig = nat (jam y)" and e: "e \<in> exp_range" "e - 1 \<in> exp_range"
    and half: "unat half = 2 ^ (p + k)"
    and r: "roundPack sign (if sig < half then e - 1 else e) (if sig < half then push_bit 1 sig else sig) s = (r, s')"
  shows "fp_rounds_to p w s sign (y * 2 powi (fp_emin p w + e - int k)) (unat r) s'"
proof -
  have k0: "0 < p + k" "0 < p + k - 1" "Suc (p + k - 1) = p + k"
    using k by simp_all
  show ?thesis
  proof (cases "y < 2 ^ (p + k)")
    case True
    then have y1: "2 ^ (p + k - 1) \<le> y" "y < 2 ^ Suc (p + k - 1)"
      using y(1) True by (simp_all only: k0(3))
    have "nat (jam y) < 2 ^ (p + k)"
      using jam_range[OF y1 k0(2), unfolded k0(3)] by (simp add: nat_less_iff)
    then have lt: "sig < half" and "unat sig * 2 ^ 1 < 2 ^ (p + k + 1)"
      by (simp_all add: word_less_nat_alt sig half)
    moreover have "(2::nat) ^ (p + k + 1) \<le> 2 ^ 64"
      using len by (intro power_increasing) simp_all
    ultimately have "unat (push_bit 1 sig) = nat (jam y) * 2 ^ 1"
      unfolding sig[symmetric] by (intro unat_push_bit_mult) simp
    then show ?thesis
      using rounds_jam[OF y1, of 1 "push_bit 1 sig"] lt w e(2) r k by simp
  next
    case False
    then have y1: "2 ^ (p + k) \<le> y" "y < 2 ^ Suc (p + k)"
      using y(2) by simp_all
    have "2 ^ (p + k) \<le> nat (jam y)"
      using jam_range[OF y1 k0(1)] by (simp add: le_nat_iff)
    then have "\<not> sig < half"
      by (simp add: word_less_nat_alt sig half)
    then show ?thesis
      using rounds_jam[OF y1, of 0 sig] w e(1) r k sig by simp
  qed
qed

end

text \<open>
  A normalizing rounding routine takes any nonzero significand of at most \<open>p + k + 1\<close> bits and
  behaves like the rounding routine on the normalized significand, whichever of its paths it
  takes.
\<close>

locale norm_round_pack = round_pack p w k exp_range roundPack
  for p w k :: nat and exp_range :: "int set"
    and roundPack :: "bool \<Rightarrow> int \<Rightarrow> uint_fast64 \<Rightarrow> softfloat_state \<Rightarrow> 'r::len word \<times> softfloat_state" +
  fixes norm_range :: "int set"
    and normRoundPack :: "bool \<Rightarrow> int \<Rightarrow> uint_fast64 \<Rightarrow> softfloat_state \<Rightarrow> 'r::len word \<times> softfloat_state"
  assumes norm: "0 < unat sig \<Longrightarrow> unat sig < 2 ^ (p + k + 1) \<Longrightarrow> e \<in> norm_range \<Longrightarrow>
      \<exists>d sig'. unat sig' = unat sig * 2 ^ d \<and> rp_input p w k (unat sig') \<and> e - int d \<in> exp_range
        \<and> normRoundPack sign e sig s = roundPack sign (e - int d) sig' s"
begin

theorem norm_rounds:
  assumes "0 < unat sig" and "unat sig < 2 ^ (p + k + 1)" and "e \<in> norm_range"
    and "normRoundPack sign e sig s = (r, s')"
  shows "fp_rounds_to p w s sign (rp_val p w k e (unat sig)) (unat r) s'"
proof -
  obtain d sig' where d: "unat sig' = unat sig * 2 ^ d" "rp_input p w k (unat sig')" "e - int d \<in> exp_range"
      "normRoundPack sign e sig s = roundPack sign (e - int d) sig' s"
    using norm[OF assms(1-3), of sign s] by blast
  from rounds[OF d(2,3), of sign s r s'] show ?thesis
    using d(4) assms(4) by (simp add: d(1) rp_val_shift)
qed

end

text \<open>The fast path: what is already rounded is only packed.\<close>

lemma rnd_by_incr_multiple:
  assumes "0 < k"
  shows "rnd_by_incr k m neg (t * 2 ^ k) = t"
proof -
  have "rnd m neg (real (t * 2 ^ k) / 2 ^ k) = int t"
    using rnd_of_int[of m neg "int t"] by simp
  then show ?thesis
    using rnd_by_incr_correct[OF assms, of m neg "t * 2 ^ k"] by simp
qed

lemma rp_exact_pack:
  assumes "rp_input p w k (t * 2 ^ k)" and "0 \<le> e" and "e < 2 ^ w - 3"
  shows "rp_bits p w k m neg e (t * 2 ^ k) = nat e * 2 ^ p + t"
    and "rp_flags p w k before m neg e (t * 2 ^ k) = 0"
  using assms rnd_by_incr_multiple[OF rp_inputD(5)[OF assms(1)]]
  by (simp_all add: rp_bits_def rp_flags_def rp_overflow_cond_def rp_sig_def)

end
