(* ===== verification/SF_RoundPack.thy ===== *)
theory SF_RoundPack
  imports SF_Primitives SF_RoundSpec
begin

text \<open>
  Rounding and packing (\<open>s_roundPackToF16/F32/F64.c\<close>, \<open>s_normRoundPackToF16/F32/F64.c\<close>,
  \<open>s_normSubnormalF16/F32/F64Sig.c\<close>): every arithmetic routine of SoftFloat ends here. The
  tail of each \<open>roundPack\<close> routine, from the addition of the increment on, is a definition of
  its own because two branches of the routine reach it.
\<close>

section \<open>Half precision\<close>

definition softfloat_roundPackToF16_round ::
  "bool \<Rightarrow> uint_fast8 \<Rightarrow> uint_fast8 \<Rightarrow> int \<Rightarrow> uint_fast16 \<Rightarrow> softfloat_state
     \<Rightarrow> float16 \<times> softfloat_state" where
  "softfloat_roundPackToF16_round sign roundIncrement roundBits expn sig s =
     (let roundingMode = softfloat_roundingMode s;
          roundNearEven = (roundingMode = softfloat_round_near_even);
          sig = drop_bit 4 (sig + to_u64 roundIncrement);
          s = (if roundBits \<noteq> 0 then softfloat_raiseFlags softfloat_flag_inexact s else s)
      in if roundBits \<noteq> 0 \<and> roundingMode = softfloat_round_odd
         then (to_u16 (packToF16UI sign expn (sig OR 1)), s)
         else
           (let sig = sig AND NOT (of_bool (roundBits XOR 8 = 0 \<and> roundNearEven));
                expn = (if sig = 0 then 0 else expn)
            in (to_u16 (packToF16UI sign expn sig), s)))"

definition softfloat_roundPackToF16 ::
  "bool \<Rightarrow> int \<Rightarrow> uint_fast16 \<Rightarrow> softfloat_state \<Rightarrow> float16 \<times> softfloat_state" where
  "softfloat_roundPackToF16 sign expn sig s =
     (let roundingMode = softfloat_roundingMode s;
          roundNearEven = (roundingMode = softfloat_round_near_even);
          roundIncrement =
            (if \<not> roundNearEven \<and> roundingMode \<noteq> softfloat_round_near_maxMag
             then (if roundingMode = (if sign then softfloat_round_min else softfloat_round_max)
                   then 0xF else 0)
             else 0x8);
          roundBits = to_u8 (sig AND 0xF)
      in if 0x1D \<le> (word_of_int expn :: uint32)
         then
           (if expn < 0
            then
              (let isTiny = (softfloat_detectTininess s = softfloat_tininess_beforeRounding
                             \<or> expn < -1 \<or> sig + to_u64 roundIncrement < 0x8000);
                   sig = to_u64 (softfloat_shiftRightJam32 (to_u32 sig) (word_of_int (- expn)));
                   roundBits = to_u8 (sig AND 0xF);
                   s = (if isTiny \<and> roundBits \<noteq> 0
                        then softfloat_raiseFlags softfloat_flag_underflow s else s)
               in softfloat_roundPackToF16_round sign roundIncrement roundBits 0 sig s)
            else if 0x1D < expn \<or> 0x8000 \<le> sig + to_u64 roundIncrement
            then
              (to_u16 (packToF16UI sign 0x1F 0 - of_bool (roundIncrement = 0)),
               softfloat_raiseFlags (softfloat_flag_overflow OR softfloat_flag_inexact) s)
            else softfloat_roundPackToF16_round sign roundIncrement roundBits expn sig s)
         else softfloat_roundPackToF16_round sign roundIncrement roundBits expn sig s)"

definition softfloat_normRoundPackToF16 ::
  "bool \<Rightarrow> int \<Rightarrow> uint_fast16 \<Rightarrow> softfloat_state \<Rightarrow> float16 \<times> softfloat_state" where
  "softfloat_normRoundPackToF16 sign expn sig s =
     (let shiftDist = int (unat (softfloat_countLeadingZeros16 (to_u16 sig))) - 1;
          expn = expn - shiftDist
      in if 4 \<le> shiftDist \<and> (word_of_int expn :: uint32) < 0x1D
         then (to_u16 (packToF16UI sign (if sig \<noteq> 0 then expn else 0) (shl sig (shiftDist - 4))), s)
         else softfloat_roundPackToF16 sign expn (shl sig shiftDist) s)"

definition softfloat_normSubnormalF16Sig :: "uint_fast16 \<Rightarrow> exp8_sig16" where
  "softfloat_normSubnormalF16Sig sig =
     (let shiftDist = int (unat (softfloat_countLeadingZeros16 (to_u16 sig))) - 5
      in \<lparr>es16_exp = 1 - shiftDist, es16_sig = shl sig shiftDist\<rparr>)"

section \<open>Single precision\<close>

definition softfloat_roundPackToF32_round ::
  "bool \<Rightarrow> uint_fast8 \<Rightarrow> uint_fast8 \<Rightarrow> int \<Rightarrow> uint_fast32 \<Rightarrow> softfloat_state
     \<Rightarrow> float32 \<times> softfloat_state" where
  "softfloat_roundPackToF32_round sign roundIncrement roundBits expn sig s =
     (let roundingMode = softfloat_roundingMode s;
          roundNearEven = (roundingMode = softfloat_round_near_even);
          sig = drop_bit 7 (sig + to_u64 roundIncrement);
          s = (if roundBits \<noteq> 0 then softfloat_raiseFlags softfloat_flag_inexact s else s)
      in if roundBits \<noteq> 0 \<and> roundingMode = softfloat_round_odd
         then (to_u32 (packToF32UI sign expn (sig OR 1)), s)
         else
           (let sig = sig AND NOT (of_bool (roundBits XOR 0x40 = 0 \<and> roundNearEven));
                expn = (if sig = 0 then 0 else expn)
            in (to_u32 (packToF32UI sign expn sig), s)))"

definition softfloat_roundPackToF32 ::
  "bool \<Rightarrow> int \<Rightarrow> uint_fast32 \<Rightarrow> softfloat_state \<Rightarrow> float32 \<times> softfloat_state" where
  "softfloat_roundPackToF32 sign expn sig s =
     (let roundingMode = softfloat_roundingMode s;
          roundNearEven = (roundingMode = softfloat_round_near_even);
          roundIncrement =
            (if \<not> roundNearEven \<and> roundingMode \<noteq> softfloat_round_near_maxMag
             then (if roundingMode = (if sign then softfloat_round_min else softfloat_round_max)
                   then 0x7F else 0)
             else 0x40);
          roundBits = to_u8 (sig AND 0x7F)
      in if 0xFD \<le> (word_of_int expn :: uint32)
         then
           (if expn < 0
            then
              (let isTiny = (softfloat_detectTininess s = softfloat_tininess_beforeRounding
                             \<or> expn < -1 \<or> sig + to_u64 roundIncrement < 0x80000000);
                   sig = to_u64 (softfloat_shiftRightJam32 (to_u32 sig) (word_of_int (- expn)));
                   roundBits = to_u8 (sig AND 0x7F);
                   s = (if isTiny \<and> roundBits \<noteq> 0
                        then softfloat_raiseFlags softfloat_flag_underflow s else s)
               in softfloat_roundPackToF32_round sign roundIncrement roundBits 0 sig s)
            else if 0xFD < expn \<or> 0x80000000 \<le> sig + to_u64 roundIncrement
            then
              (to_u32 (packToF32UI sign 0xFF 0 - of_bool (roundIncrement = 0)),
               softfloat_raiseFlags (softfloat_flag_overflow OR softfloat_flag_inexact) s)
            else softfloat_roundPackToF32_round sign roundIncrement roundBits expn sig s)
         else softfloat_roundPackToF32_round sign roundIncrement roundBits expn sig s)"

definition softfloat_normRoundPackToF32 ::
  "bool \<Rightarrow> int \<Rightarrow> uint_fast32 \<Rightarrow> softfloat_state \<Rightarrow> float32 \<times> softfloat_state" where
  "softfloat_normRoundPackToF32 sign expn sig s =
     (let shiftDist = int (unat (softfloat_countLeadingZeros32 (to_u32 sig))) - 1;
          expn = expn - shiftDist
      in if 7 \<le> shiftDist \<and> (word_of_int expn :: uint32) < 0xFD
         then (to_u32 (packToF32UI sign (if sig \<noteq> 0 then expn else 0) (shl sig (shiftDist - 7))), s)
         else softfloat_roundPackToF32 sign expn (shl sig shiftDist) s)"

definition softfloat_normSubnormalF32Sig :: "uint_fast32 \<Rightarrow> exp16_sig32" where
  "softfloat_normSubnormalF32Sig sig =
     (let shiftDist = int (unat (softfloat_countLeadingZeros32 (to_u32 sig))) - 8
      in \<lparr>es32_exp = 1 - shiftDist, es32_sig = shl sig shiftDist\<rparr>)"

section \<open>Double precision\<close>

definition softfloat_roundPackToF64_round ::
  "bool \<Rightarrow> uint_fast16 \<Rightarrow> uint_fast16 \<Rightarrow> int \<Rightarrow> uint_fast64 \<Rightarrow> softfloat_state
     \<Rightarrow> float64 \<times> softfloat_state" where
  "softfloat_roundPackToF64_round sign roundIncrement roundBits expn sig s =
     (let roundingMode = softfloat_roundingMode s;
          roundNearEven = (roundingMode = softfloat_round_near_even);
          sig = drop_bit 10 (sig + roundIncrement);
          s = (if roundBits \<noteq> 0 then softfloat_raiseFlags softfloat_flag_inexact s else s)
      in if roundBits \<noteq> 0 \<and> roundingMode = softfloat_round_odd
         then (packToF64UI sign expn (sig OR 1), s)
         else
           (let sig = sig AND NOT (of_bool (roundBits XOR 0x200 = 0 \<and> roundNearEven));
                expn = (if sig = 0 then 0 else expn)
            in (packToF64UI sign expn sig, s)))"

definition softfloat_roundPackToF64 ::
  "bool \<Rightarrow> int \<Rightarrow> uint_fast64 \<Rightarrow> softfloat_state \<Rightarrow> float64 \<times> softfloat_state" where
  "softfloat_roundPackToF64 sign expn sig s =
     (let roundingMode = softfloat_roundingMode s;
          roundNearEven = (roundingMode = softfloat_round_near_even);
          roundIncrement =
            (if \<not> roundNearEven \<and> roundingMode \<noteq> softfloat_round_near_maxMag
             then (if roundingMode = (if sign then softfloat_round_min else softfloat_round_max)
                   then 0x3FF else 0)
             else 0x200);
          roundBits = sig AND 0x3FF
      in if 0x7FD \<le> (word_of_int expn :: uint16)
         then
           (if expn < 0
            then
              (let isTiny = (softfloat_detectTininess s = softfloat_tininess_beforeRounding
                             \<or> expn < -1 \<or> sig + roundIncrement < 0x8000000000000000);
                   sig = softfloat_shiftRightJam64 sig (word_of_int (- expn));
                   roundBits = sig AND 0x3FF;
                   s = (if isTiny \<and> roundBits \<noteq> 0
                        then softfloat_raiseFlags softfloat_flag_underflow s else s)
               in softfloat_roundPackToF64_round sign roundIncrement roundBits 0 sig s)
            else if 0x7FD < expn \<or> 0x8000000000000000 \<le> sig + roundIncrement
            then
              (packToF64UI sign 0x7FF 0 - of_bool (roundIncrement = 0),
               softfloat_raiseFlags (softfloat_flag_overflow OR softfloat_flag_inexact) s)
            else softfloat_roundPackToF64_round sign roundIncrement roundBits expn sig s)
         else softfloat_roundPackToF64_round sign roundIncrement roundBits expn sig s)"

definition softfloat_normRoundPackToF64 ::
  "bool \<Rightarrow> int \<Rightarrow> uint_fast64 \<Rightarrow> softfloat_state \<Rightarrow> float64 \<times> softfloat_state" where
  "softfloat_normRoundPackToF64 sign expn sig s =
     (let shiftDist = int (unat (softfloat_countLeadingZeros64 sig)) - 1;
          expn = expn - shiftDist
      in if 10 \<le> shiftDist \<and> (word_of_int expn :: uint32) < 0x7FD
         then (packToF64UI sign (if sig \<noteq> 0 then expn else 0) (shl sig (shiftDist - 10)), s)
         else softfloat_roundPackToF64 sign expn (shl sig shiftDist) s)"

definition softfloat_normSubnormalF64Sig :: "uint_fast64 \<Rightarrow> exp16_sig64" where
  "softfloat_normSubnormalF64Sig sig =
     (let shiftDist = int (unat (softfloat_countLeadingZeros64 sig)) - 11
      in \<lparr>es64_exp = 1 - shiftDist, es64_sig = shl sig shiftDist\<rparr>)"

section \<open>The rounding step on words\<close>

lemma round_mode_iff:
  "round_mode md = RNE \<longleftrightarrow> md = softfloat_round_near_even"
  "round_mode md = ROD \<longleftrightarrow> md = softfloat_round_odd"
  by (auto simp: round_mode_def)

lemma round_increment:
  fixes half full :: "'a::len word"
  assumes "unat half = 2 ^ (k - 1)" and "unat full = 2 ^ k - 1"
  shows "unat (if md \<noteq> softfloat_round_near_even \<and> md \<noteq> softfloat_round_near_maxMag
      then (if md = (if sign then softfloat_round_min else softfloat_round_max) then full else 0)
      else half) = rnd_incr k (round_mode md) sign"
  using assms by (auto simp: round_mode_def rnd_incr_def)

lemma round_tail:
  fixes sig incr :: uint64
  assumes "0 < k" and "unat incr = rnd_incr k m neg" and "unat sig < 2 ^ 63" and "k < 63"
    and "rb \<longleftrightarrow> unat sig mod 2 ^ k \<noteq> 0" and "tie \<longleftrightarrow> unat sig mod 2 ^ k = 2 ^ (k - 1)"
  shows "unat (if rb \<and> m = ROD then drop_bit k (sig + incr) OR 1
      else drop_bit k (sig + incr) AND NOT (of_bool (tie \<and> m = RNE))) = rnd_by_incr k m neg (unat sig)"
proof -
  have "(2::nat) ^ k \<le> 2 ^ 63"
    using assms(4) by (intro power_increasing) simp_all
  then have "unat sig + unat incr < 2 ^ 64"
    using rnd_incr_less[OF assms(1), of m neg] assms(2,3) by simp
  then have z: "unat (drop_bit k (sig + incr)) = (unat sig + rnd_incr k m neg) div 2 ^ k"
    using assms(2) by (simp add: unat_drop_bit_div unat_add_no_wrap)
  have or1: "unat (drop_bit k (sig + incr) OR 1) = (unat sig + rnd_incr k m neg) div 2 ^ k OR 1"
    by (simp add: unsigned_or_eq z)
  show ?thesis
    unfolding rnd_by_incr_def Let_def if_distrib[of unat] unat_and_not_of_bool or1 z assms(5,6)
    by auto
qed

lemma rp_not_overflow:
  assumes "e < 2 ^ w - 3 \<or> e = 2 ^ w - 3 \<and> s + rnd_incr k m neg < 2 ^ (p + k + 1)"
  shows "\<not> rp_overflow_cond p w k m neg e s"
  using assms by (auto simp: rp_overflow_cond_def)

text \<open>The tail adds exponent and significand without running into the sign bit.\<close>

lemma rp_tail_fits:
  assumes "rp_input p w k s" and "\<not> rp_overflow_cond p w k m neg e s"
  shows "nat (max 0 e) * 2 ^ p + rnd_by_incr k m neg (rp_sig e s) < 2 ^ (p + w)"
    and "max 0 e = 0 \<or> rnd_by_incr k m neg (rp_sig e s) \<noteq> 0"
    and "rp_sig e s < 2 ^ (p + k + 1)"
proof -
  note i = rp_inputD[OF assms(1)]
  show "nat (max 0 e) * 2 ^ p + rnd_by_incr k m neg (rp_sig e s) < 2 ^ (p + w)"
    using rp_bits_correct(2)[OF assms(1), of m neg e] assms(2) by (simp add: rp_bits_def)
  have "0 \<le> e \<Longrightarrow> 0 < rnd_by_incr k m neg (rp_sig e s)"
    using rp_sig_rounded_bounds(2)[OF i(1,2,5), of e m neg] by (meson less_le_trans zero_less_numeral zero_less_power)
  then show "max 0 e = 0 \<or> rnd_by_incr k m neg (rp_sig e s) \<noteq> 0"
    by (cases "0 \<le> e") auto
  show "rp_sig e s < 2 ^ (p + k + 1)"
    using rp_sig_bounds(1)[OF i(1,2), of e] by (simp add: power_add)
qed

section \<open>Half precision: refinement\<close>

lemma unat_packToF16UI:
  assumes "0 \<le> e" and "nat e * 2 ^ 10 + unat sig < 2 ^ 15"
  shows "unat (to_u16 (packToF16UI sign e sig)) = of_bool sign * 2 ^ 15 + (nat e * 2 ^ 10 + unat sig)"
proof -
  have e: "nat e < 2 ^ 5"
    using assms(2) by simp
  then have w: "unat (word_of_int e :: uint16) = nat e"
    using assms(1) by (intro unat_word_of_int) simp_all
  have a: "unat (push_bit 15 (of_bool sign) :: uint64) = of_bool sign * 2 ^ 15"
    by (subst unat_push_bit_mult) simp_all
  have b: "unat (push_bit 10 (ucast (word_of_int e :: uint16)) :: uint64) = nat e * 2 ^ 10"
    using e by (subst unat_push_bit_mult) (simp_all add: w unat_ucast_widen)
  have "unat (push_bit 15 (of_bool sign) + push_bit 10 (ucast (word_of_int e :: uint16)) :: uint64) =
      of_bool sign * 2 ^ 15 + nat e * 2 ^ 10"
    using e by (subst unat_add_no_wrap) (cases sign; simp add: a b)+
  then have "unat (packToF16UI sign e sig) = of_bool sign * 2 ^ 15 + nat e * 2 ^ 10 + unat sig"
    using assms(2) unfolding packToF16UI_def
    by (subst unat_add_no_wrap) (cases sign; simp add: unat_ucast_widen)+
  then show ?thesis
    using assms(2) by (cases sign) (simp_all add: unat_ucast_mod)
qed

lemma round_bitsF16:
  "to_u8 (sig AND 0xF) \<noteq> 0 \<longleftrightarrow> unat sig mod 2 ^ 4 \<noteq> 0"
  "to_u8 (sig AND 0xF) XOR 0x8 = 0 \<longleftrightarrow> unat sig mod 2 ^ 4 = 2 ^ (4 - 1)"
proof -
  have u: "unat (to_u8 (sig AND 0xF)) = unat sig mod 2 ^ 4"
    using unat_and_mask[of sig 4] by (simp add: mask_numeral unat_ucast_mod)
  show "to_u8 (sig AND 0xF) \<noteq> 0 \<longleftrightarrow> unat sig mod 2 ^ 4 \<noteq> 0"
    by (simp only: word_eq_0_unat u)
  show "to_u8 (sig AND 0xF) XOR 0x8 = 0 \<longleftrightarrow> unat sig mod 2 ^ 4 = 2 ^ (4 - 1)"
    unfolding word_xor_eq_0_iff by (simp add: word_unat_eq_iff[of "to_u8 (sig AND 0xF)"] u)
qed

lemma roundPackToF16_round:
  assumes incr: "unat incr = rnd_incr 4 m sign" and m: "m = round_mode (softfloat_roundingMode s)"
    and sig: "unat sig < 2 ^ 15" and e: "0 \<le> e"
    and n: "n = rnd_by_incr 4 m sign (unat sig)" "nat e * 2 ^ 10 + n < 2 ^ 15" "e = 0 \<or> n \<noteq> 0"
    and r: "(r, s') = softfloat_roundPackToF16_round sign incr (to_u8 (sig AND 0xF)) e sig s"
  shows "unat r = of_bool sign * 2 ^ 15 + (nat e * 2 ^ 10 + n)"
    and "s' = (if unat sig mod 2 ^ 4 \<noteq> 0 then softfloat_raiseFlags softfloat_flag_inexact s else s)"
proof -
  define z where "z = (if to_u8 (sig AND 0xF) \<noteq> 0 \<and> m = ROD then drop_bit 4 (sig + to_u64 incr) OR 1
      else drop_bit 4 (sig + to_u64 incr) AND
        NOT (of_bool (to_u8 (sig AND 0xF) XOR 0x8 = 0 \<and> m = RNE)))"
  have z: "unat z = n"
    unfolding z_def n(1) using incr sig
    by (intro round_tail) (simp_all only: round_bitsF16, simp_all add: unat_ucast_widen)
  have "r = to_u16 (packToF16UI sign e z)"
  proof (cases "z = 0")
    case True
    then have "e = 0"
      using n(3) z by simp
    then show ?thesis
      using r by (simp add: softfloat_roundPackToF16_round_def z_def Let_def m round_mode_iff split: if_splits)
  next
    case False
    then show ?thesis
      using r by (auto simp: softfloat_roundPackToF16_round_def z_def Let_def m round_mode_iff split: if_splits)
  qed
  then show "unat r = of_bool sign * 2 ^ 15 + (nat e * 2 ^ 10 + n)"
    using e n(2) z by (simp add: unat_packToF16UI)
  show "s' = (if unat sig mod 2 ^ 4 \<noteq> 0 then softfloat_raiseFlags softfloat_flag_inexact s else s)"
    using r unfolding round_bitsF16[symmetric]
    by (auto simp: softfloat_roundPackToF16_round_def Let_def split: if_splits)
qed

lemma roundPackToF16_refines:
  assumes i: "rp_input 10 5 4 (unat sig)" and e: "e \<in> {-(2 ^ 31)..<2 ^ 31}"
    and m: "m = round_mode (softfloat_roundingMode s)"
    and r: "softfloat_roundPackToF16 sign e sig s = (r, s')"
  shows "unat r = of_bool sign * 2 ^ 15 + rp_bits 10 5 4 m sign e (unat sig)
    \<and> s' = softfloat_raiseFlags (rp_flags 10 5 4 (tiny_before s) m sign e (unat sig)) s"
proof -
  define md where "md = softfloat_roundingMode s"
  define incr :: uint_fast8 where "incr = (if md \<noteq> softfloat_round_near_even \<and> md \<noteq> softfloat_round_near_maxMag
      then (if md = (if sign then softfloat_round_min else softfloat_round_max) then 0xF else 0)
      else 0x8)"
  have incr: "unat incr = rnd_incr 4 m sign"
    unfolding incr_def m md_def[symmetric] by (rule round_increment) simp_all
  have sig: "2 ^ 14 \<le> unat sig" "unat sig < 2 ^ 15"
    using rp_inputD(1,2)[OF i] by simp_all
  have add: "unat (sig + to_u64 incr) = unat sig + rnd_incr 4 m sign"
    using sig(2) rnd_incr_less[of 4 m sign] incr by (subst unat_add_no_wrap) (simp_all add: unat_ucast_widen)
  have cmp: "0x1D \<le> (word_of_int e :: uint32) \<longleftrightarrow> e < 0 \<or> 0x1D \<le> e"
    using e by (subst word_of_int_ge) simp_all
  have eq: "softfloat_roundPackToF16 sign e sig s =
     (if e < 0
      then
        (let isTiny = (tiny_before s \<or> e < -1 \<or> sig + to_u64 incr < 0x8000);
             sig = to_u64 (softfloat_shiftRightJam32 (to_u32 sig) (word_of_int (- e)));
             s = (if isTiny \<and> to_u8 (sig AND 0xF) \<noteq> 0
                  then softfloat_raiseFlags softfloat_flag_underflow s else s)
         in softfloat_roundPackToF16_round sign incr (to_u8 (sig AND 0xF)) 0 sig s)
      else if 0x1D < e \<or> e = 0x1D \<and> 0x8000 \<le> sig + to_u64 incr
      then
        (to_u16 (packToF16UI sign 0x1F 0 - of_bool (incr = 0)),
         softfloat_raiseFlags (softfloat_flag_overflow OR softfloat_flag_inexact) s)
      else softfloat_roundPackToF16_round sign incr (to_u8 (sig AND 0xF)) e sig s)"
    unfolding softfloat_roundPackToF16_def Let_def cmp md_def[symmetric] incr_def[symmetric] tiny_before_def
    by auto
  consider "e < 0" | "0 \<le> e" "rp_overflow_cond 10 5 4 m sign e (unat sig)"
    | "0 \<le> e" "\<not> rp_overflow_cond 10 5 4 m sign e (unat sig)"
    by linarith
  then show ?thesis
  proof cases
    case 1
    define t where "t = to_u64 (softfloat_shiftRightJam32 (to_u32 sig) (word_of_int (- e)))"
    have "unat (word_of_int (- e) :: uint_fast16) = nat (- e)"
      using 1 e by (intro unat_word_of_int) simp_all
    then have "int (unat t) = jam (of_nat (unat sig) / 2 ^ nat (- e))"
      unfolding t_def using 1 sig(2)
      by (subst unat_ucast_widen, simp, subst shiftRightJam32_correct) (auto simp: word_eq_0_unat unat_ucast_mod)
    then have t: "unat t = rp_sig e (unat sig)"
      using 1 by (simp add: rp_sig_def flip: nat_int)
    have nov: "\<not> rp_overflow_cond 10 5 4 m sign e (unat sig)"
      using 1 by (intro rp_not_overflow) simp
    note fits = rp_tail_fits[OF i nov]
    define u where "u = (if (tiny_before s \<or> e < -1 \<or> sig + to_u64 incr < 0x8000) \<and> to_u8 (t AND 0xF) \<noteq> 0
        then softfloat_raiseFlags softfloat_flag_underflow s else s)"
    have ru: "(r, s') = softfloat_roundPackToF16_round sign incr (to_u8 (t AND 0xF)) 0 t u"
      using r 1 unfolding eq u_def t_def Let_def by simp
    have mu: "m = round_mode (softfloat_roundingMode u)"
      by (simp add: u_def m)
    show ?thesis
      using roundPackToF16_round[OF incr mu _ _ refl _ _ ru] fits 1 nov
      by (simp add: t rp_bits_def rp_flags_def u_def word_less_nat_alt add round_bitsF16)
  next
    case 2
    then have "0x1D < e \<or> e = 0x1D \<and> 0x8000 \<le> sig + to_u64 incr"
      by (auto simp: rp_overflow_cond_def word_le_nat_alt add)
    with r 2(1) have "r = to_u16 (packToF16UI sign 0x1F 0 - of_bool (incr = 0))"
        "s' = softfloat_raiseFlags (softfloat_flag_overflow OR softfloat_flag_inexact) s"
      unfolding eq by auto
    moreover have "unat (to_u16 (packToF16UI sign 0x1F 0 - of_bool (incr = 0))) =
        of_bool sign * 2 ^ 15 + (fp_inf 10 5 - of_bool (rnd_incr 4 m sign = 0))"
      unfolding incr[symmetric] unat_eq_0
      by (cases sign; cases "incr = 0") (simp_all add: packToF16UI_def fp_inf_def)
    ultimately show ?thesis
      using 2(2) by (simp add: rp_bits_def rp_flags_def)
  next
    case 3
    then have "\<not> (0x1D < e \<or> e = 0x1D \<and> 0x8000 \<le> sig + to_u64 incr)"
      by (auto simp: rp_overflow_cond_def word_le_nat_alt add)
    with r 3(1) have ru: "(r, s') = softfloat_roundPackToF16_round sign incr (to_u8 (sig AND 0xF)) e sig s"
      unfolding eq by auto
    have "rp_sig e (unat sig) = unat sig"
      using 3(1) by (simp add: rp_sig_def)
    then show ?thesis
      using roundPackToF16_round[OF incr m _ _ refl _ _ ru] rp_tail_fits[OF i 3(2)] 3
      by (simp add: rp_bits_def rp_flags_def)
  qed
qed

interpretation f16: round_pack 10 5 4 "{-(2 ^ 31)..<2 ^ 31}" softfloat_roundPackToF16
  using roundPackToF16_refines[OF _ _ refl prod.collapse[symmetric]]
  by unfold_locales simp_all

section \<open>Single precision: refinement\<close>

lemma unat_packToF32UI:
  assumes "0 \<le> e" and "nat e * 2 ^ 23 + unat sig < 2 ^ 31"
  shows "unat (to_u32 (packToF32UI sign e sig)) = of_bool sign * 2 ^ 31 + (nat e * 2 ^ 23 + unat sig)"
proof -
  have e: "nat e < 2 ^ 8"
    using assms(2) by simp
  then have w: "unat (word_of_int e :: uint32) = nat e"
    using assms(1) by (intro unat_word_of_int) simp_all
  have a: "unat (push_bit 31 (of_bool sign) :: uint32) = of_bool sign * 2 ^ 31"
    by (subst unat_push_bit_mult) simp_all
  have b: "unat (push_bit 23 (word_of_int e) :: uint32) = nat e * 2 ^ 23"
    using e by (subst unat_push_bit_mult) (simp_all add: w)
  have "unat (push_bit 31 (of_bool sign) + push_bit 23 (word_of_int e) :: uint32) =
      of_bool sign * 2 ^ 31 + nat e * 2 ^ 23"
    using e by (subst unat_add_no_wrap) (cases sign; simp add: a b)+
  then have "unat (packToF32UI sign e sig) = of_bool sign * 2 ^ 31 + nat e * 2 ^ 23 + unat sig"
    using assms(2) unfolding packToF32UI_def
    by (subst unat_add_no_wrap) (cases sign; simp add: unat_ucast_widen)+
  then show ?thesis
    using assms(2) by (cases sign) (simp_all add: unat_ucast_mod)
qed


lemma round_bitsF32:
  "to_u8 (sig AND 0x7F) \<noteq> 0 \<longleftrightarrow> unat sig mod 2 ^ 7 \<noteq> 0"
  "to_u8 (sig AND 0x7F) XOR 0x40 = 0 \<longleftrightarrow> unat sig mod 2 ^ 7 = 2 ^ (7 - 1)"
proof -
  have u: "unat (to_u8 (sig AND 0x7F)) = unat sig mod 2 ^ 7"
    using unat_and_mask[of sig 7] by (simp add: mask_numeral unat_ucast_mod)
  show "to_u8 (sig AND 0x7F) \<noteq> 0 \<longleftrightarrow> unat sig mod 2 ^ 7 \<noteq> 0"
    by (simp only: word_eq_0_unat u)
  show "to_u8 (sig AND 0x7F) XOR 0x40 = 0 \<longleftrightarrow> unat sig mod 2 ^ 7 = 2 ^ (7 - 1)"
    unfolding word_xor_eq_0_iff by (simp add: word_unat_eq_iff[of "to_u8 (sig AND 0x7F)"] u)
qed

lemma roundPackToF32_round:
  assumes incr: "unat incr = rnd_incr 7 m sign" and m: "m = round_mode (softfloat_roundingMode s)"
    and sig: "unat sig < 2 ^ 31" and e: "0 \<le> e"
    and n: "n = rnd_by_incr 7 m sign (unat sig)" "nat e * 2 ^ 23 + n < 2 ^ 31" "e = 0 \<or> n \<noteq> 0"
    and r: "(r, s') = softfloat_roundPackToF32_round sign incr (to_u8 (sig AND 0x7F)) e sig s"
  shows "unat r = of_bool sign * 2 ^ 31 + (nat e * 2 ^ 23 + n)"
    and "s' = (if unat sig mod 2 ^ 7 \<noteq> 0 then softfloat_raiseFlags softfloat_flag_inexact s else s)"
proof -
  define z where "z = (if to_u8 (sig AND 0x7F) \<noteq> 0 \<and> m = ROD then drop_bit 7 (sig + to_u64 incr) OR 1
      else drop_bit 7 (sig + to_u64 incr) AND
        NOT (of_bool (to_u8 (sig AND 0x7F) XOR 0x40 = 0 \<and> m = RNE)))"
  have z: "unat z = n"
    unfolding z_def n(1) using incr sig
    by (intro round_tail) (simp_all only: round_bitsF32, simp_all add: unat_ucast_widen)
  have "r = to_u32 (packToF32UI sign e z)"
  proof (cases "z = 0")
    case True
    then have "e = 0"
      using n(3) z by simp
    then show ?thesis
      using r by (simp add: softfloat_roundPackToF32_round_def z_def Let_def m round_mode_iff split: if_splits)
  next
    case False
    then show ?thesis
      using r by (auto simp: softfloat_roundPackToF32_round_def z_def Let_def m round_mode_iff split: if_splits)
  qed
  then show "unat r = of_bool sign * 2 ^ 31 + (nat e * 2 ^ 23 + n)"
    using e n(2) z by (simp add: unat_packToF32UI)
  show "s' = (if unat sig mod 2 ^ 7 \<noteq> 0 then softfloat_raiseFlags softfloat_flag_inexact s else s)"
    using r unfolding round_bitsF32[symmetric]
    by (auto simp: softfloat_roundPackToF32_round_def Let_def split: if_splits)
qed

lemma roundPackToF32_refines:
  assumes i: "rp_input 23 8 7 (unat sig)" and e: "e \<in> {-(2 ^ 31)..<2 ^ 31}"
    and m: "m = round_mode (softfloat_roundingMode s)"
    and r: "softfloat_roundPackToF32 sign e sig s = (r, s')"
  shows "unat r = of_bool sign * 2 ^ 31 + rp_bits 23 8 7 m sign e (unat sig)
    \<and> s' = softfloat_raiseFlags (rp_flags 23 8 7 (tiny_before s) m sign e (unat sig)) s"
proof -
  define md where "md = softfloat_roundingMode s"
  define incr :: uint_fast8 where "incr = (if md \<noteq> softfloat_round_near_even \<and> md \<noteq> softfloat_round_near_maxMag
      then (if md = (if sign then softfloat_round_min else softfloat_round_max) then 0x7F else 0)
      else 0x40)"
  have incr: "unat incr = rnd_incr 7 m sign"
    unfolding incr_def m md_def[symmetric] by (rule round_increment) simp_all
  have sig: "2 ^ 30 \<le> unat sig" "unat sig < 2 ^ 31"
    using rp_inputD(1,2)[OF i] by simp_all
  have add: "unat (sig + to_u64 incr) = unat sig + rnd_incr 7 m sign"
    using sig(2) rnd_incr_less[of 7 m sign] incr by (subst unat_add_no_wrap) (simp_all add: unat_ucast_widen)
  have cmp: "0xFD \<le> (word_of_int e :: uint32) \<longleftrightarrow> e < 0 \<or> 0xFD \<le> e"
    using e by (subst word_of_int_ge) simp_all
  have eq: "softfloat_roundPackToF32 sign e sig s =
     (if e < 0
      then
        (let isTiny = (tiny_before s \<or> e < -1 \<or> sig + to_u64 incr < 0x80000000);
             sig = to_u64 (softfloat_shiftRightJam32 (to_u32 sig) (word_of_int (- e)));
             s = (if isTiny \<and> to_u8 (sig AND 0x7F) \<noteq> 0
                  then softfloat_raiseFlags softfloat_flag_underflow s else s)
         in softfloat_roundPackToF32_round sign incr (to_u8 (sig AND 0x7F)) 0 sig s)
      else if 0xFD < e \<or> e = 0xFD \<and> 0x80000000 \<le> sig + to_u64 incr
      then
        (to_u32 (packToF32UI sign 0xFF 0 - of_bool (incr = 0)),
         softfloat_raiseFlags (softfloat_flag_overflow OR softfloat_flag_inexact) s)
      else softfloat_roundPackToF32_round sign incr (to_u8 (sig AND 0x7F)) e sig s)"
    unfolding softfloat_roundPackToF32_def Let_def cmp md_def[symmetric] incr_def[symmetric] tiny_before_def
    by auto
  consider "e < 0" | "0 \<le> e" "rp_overflow_cond 23 8 7 m sign e (unat sig)"
    | "0 \<le> e" "\<not> rp_overflow_cond 23 8 7 m sign e (unat sig)"
    by linarith
  then show ?thesis
  proof cases
    case 1
    define t where "t = to_u64 (softfloat_shiftRightJam32 (to_u32 sig) (word_of_int (- e)))"
    have "unat (word_of_int (- e) :: uint_fast16) = nat (- e)"
      using 1 e by (intro unat_word_of_int) simp_all
    then have "int (unat t) = jam (of_nat (unat sig) / 2 ^ nat (- e))"
      unfolding t_def using 1 sig(2)
      by (subst unat_ucast_widen, simp, subst shiftRightJam32_correct) (auto simp: word_eq_0_unat unat_ucast_mod)
    then have t: "unat t = rp_sig e (unat sig)"
      using 1 by (simp add: rp_sig_def flip: nat_int)
    have nov: "\<not> rp_overflow_cond 23 8 7 m sign e (unat sig)"
      using 1 by (intro rp_not_overflow) simp
    note fits = rp_tail_fits[OF i nov]
    define u where "u = (if (tiny_before s \<or> e < -1 \<or> sig + to_u64 incr < 0x80000000) \<and> to_u8 (t AND 0x7F) \<noteq> 0
        then softfloat_raiseFlags softfloat_flag_underflow s else s)"
    have ru: "(r, s') = softfloat_roundPackToF32_round sign incr (to_u8 (t AND 0x7F)) 0 t u"
      using r 1 unfolding eq u_def t_def Let_def by simp
    have mu: "m = round_mode (softfloat_roundingMode u)"
      by (simp add: u_def m)
    show ?thesis
      using roundPackToF32_round[OF incr mu _ _ refl _ _ ru] fits 1 nov
      by (simp add: t rp_bits_def rp_flags_def u_def word_less_nat_alt add round_bitsF32)
  next
    case 2
    then have "0xFD < e \<or> e = 0xFD \<and> 0x80000000 \<le> sig + to_u64 incr"
      by (auto simp: rp_overflow_cond_def word_le_nat_alt add)
    with r 2(1) have "r = to_u32 (packToF32UI sign 0xFF 0 - of_bool (incr = 0))"
        "s' = softfloat_raiseFlags (softfloat_flag_overflow OR softfloat_flag_inexact) s"
      unfolding eq by auto
    moreover have "unat (to_u32 (packToF32UI sign 0xFF 0 - of_bool (incr = 0))) =
        of_bool sign * 2 ^ 31 + (fp_inf 23 8 - of_bool (rnd_incr 7 m sign = 0))"
      unfolding incr[symmetric] unat_eq_0
      by (cases sign; cases "incr = 0") (simp_all add: packToF32UI_def fp_inf_def)
    ultimately show ?thesis
      using 2(2) by (simp add: rp_bits_def rp_flags_def)
  next
    case 3
    then have "\<not> (0xFD < e \<or> e = 0xFD \<and> 0x80000000 \<le> sig + to_u64 incr)"
      by (auto simp: rp_overflow_cond_def word_le_nat_alt add)
    with r 3(1) have ru: "(r, s') = softfloat_roundPackToF32_round sign incr (to_u8 (sig AND 0x7F)) e sig s"
      unfolding eq by auto
    have "rp_sig e (unat sig) = unat sig"
      using 3(1) by (simp add: rp_sig_def)
    then show ?thesis
      using roundPackToF32_round[OF incr m _ _ refl _ _ ru] rp_tail_fits[OF i 3(2)] 3
      by (simp add: rp_bits_def rp_flags_def)
  qed
qed

interpretation f32: round_pack 23 8 7 "{-(2 ^ 31)..<2 ^ 31}" softfloat_roundPackToF32
  using roundPackToF32_refines[OF _ _ refl prod.collapse[symmetric]]
  by unfold_locales simp_all

section \<open>Double precision: refinement\<close>

lemma unat_packToF64UI:
  assumes "0 \<le> e" and "nat e * 2 ^ 52 + unat sig < 2 ^ 63"
  shows "unat (packToF64UI sign e sig) = of_bool sign * 2 ^ 63 + (nat e * 2 ^ 52 + unat sig)"
proof -
  have e: "nat e < 2 ^ 11"
    using assms(2) by simp
  then have w: "unat (word_of_int e :: uint64) = nat e"
    using assms(1) by (intro unat_word_of_int) simp_all
  have a: "unat (push_bit 63 (of_bool sign) :: uint64) = of_bool sign * 2 ^ 63"
    by (subst unat_push_bit_mult) simp_all
  have b: "unat (push_bit 52 (word_of_int e) :: uint64) = nat e * 2 ^ 52"
    using e by (subst unat_push_bit_mult) (simp_all add: w)
  have "unat (push_bit 63 (of_bool sign) + push_bit 52 (word_of_int e) :: uint64) =
      of_bool sign * 2 ^ 63 + nat e * 2 ^ 52"
    using e by (subst unat_add_no_wrap) (cases sign; simp add: a b)+
  then show ?thesis
    using assms(2) unfolding packToF64UI_def
    by (subst unat_add_no_wrap) (cases sign; simp)+
qed

lemma round_bitsF64:
  "sig AND 0x3FF \<noteq> 0 \<longleftrightarrow> unat sig mod 2 ^ 10 \<noteq> 0"
  "(sig AND 0x3FF) XOR 0x200 = 0 \<longleftrightarrow> unat sig mod 2 ^ 10 = 2 ^ (10 - 1)" for sig :: uint64
proof -
  have u: "unat (sig AND 0x3FF) = unat sig mod 2 ^ 10"
    using unat_and_mask[of sig 10] by (simp add: mask_numeral)
  show "sig AND 0x3FF \<noteq> 0 \<longleftrightarrow> unat sig mod 2 ^ 10 \<noteq> 0"
    by (simp only: word_eq_0_unat u)
  show "(sig AND 0x3FF) XOR 0x200 = 0 \<longleftrightarrow> unat sig mod 2 ^ 10 = 2 ^ (10 - 1)"
    unfolding word_xor_eq_0_iff by (simp add: word_unat_eq_iff[of "sig AND 0x3FF"] u)
qed

lemma roundPackToF64_round:
  assumes incr: "unat incr = rnd_incr 10 m sign" and m: "m = round_mode (softfloat_roundingMode s)"
    and sig: "unat sig < 2 ^ 63" and e: "0 \<le> e"
    and n: "n = rnd_by_incr 10 m sign (unat sig)" "nat e * 2 ^ 52 + n < 2 ^ 63" "e = 0 \<or> n \<noteq> 0"
    and r: "(r, s') = softfloat_roundPackToF64_round sign incr ((sig AND 0x3FF)) e sig s"
  shows "unat r = of_bool sign * 2 ^ 63 + (nat e * 2 ^ 52 + n)"
    and "s' = (if unat sig mod 2 ^ 10 \<noteq> 0 then softfloat_raiseFlags softfloat_flag_inexact s else s)"
proof -
  define z where "z = (if (sig AND 0x3FF) \<noteq> 0 \<and> m = ROD then drop_bit 10 (sig + incr) OR 1
      else drop_bit 10 (sig + incr) AND
        NOT (of_bool ((sig AND 0x3FF) XOR 0x200 = 0 \<and> m = RNE)))"
  have z: "unat z = n"
    unfolding z_def n(1) using incr sig
    by (intro round_tail) (simp_all only: round_bitsF64)
  have "r = packToF64UI sign e z"
  proof (cases "z = 0")
    case True
    then have "e = 0"
      using n(3) z by simp
    then show ?thesis
      using r by (simp add: softfloat_roundPackToF64_round_def z_def Let_def m round_mode_iff split: if_splits)
  next
    case False
    then show ?thesis
      using r by (auto simp: softfloat_roundPackToF64_round_def z_def Let_def m round_mode_iff split: if_splits)
  qed
  then show "unat r = of_bool sign * 2 ^ 63 + (nat e * 2 ^ 52 + n)"
    using e n(2) z by (simp add: unat_packToF64UI)
  show "s' = (if unat sig mod 2 ^ 10 \<noteq> 0 then softfloat_raiseFlags softfloat_flag_inexact s else s)"
    using r unfolding round_bitsF64[symmetric]
    by (auto simp: softfloat_roundPackToF64_round_def Let_def split: if_splits)
qed

lemma roundPackToF64_refines:
  assumes i: "rp_input 52 11 10 (unat sig)" and e: "e \<in> {-(2 ^ 15)..<2 ^ 15}"
    and m: "m = round_mode (softfloat_roundingMode s)"
    and r: "softfloat_roundPackToF64 sign e sig s = (r, s')"
  shows "unat r = of_bool sign * 2 ^ 63 + rp_bits 52 11 10 m sign e (unat sig)
    \<and> s' = softfloat_raiseFlags (rp_flags 52 11 10 (tiny_before s) m sign e (unat sig)) s"
proof -
  define md where "md = softfloat_roundingMode s"
  define incr :: uint_fast16 where "incr = (if md \<noteq> softfloat_round_near_even \<and> md \<noteq> softfloat_round_near_maxMag
      then (if md = (if sign then softfloat_round_min else softfloat_round_max) then 0x3FF else 0)
      else 0x200)"
  have incr: "unat incr = rnd_incr 10 m sign"
    unfolding incr_def m md_def[symmetric] by (rule round_increment) simp_all
  have sig: "2 ^ 62 \<le> unat sig" "unat sig < 2 ^ 63"
    using rp_inputD(1,2)[OF i] by simp_all
  have add: "unat (sig + incr) = unat sig + rnd_incr 10 m sign"
    using sig(2) rnd_incr_less[of 10 m sign] incr by (subst unat_add_no_wrap) (simp_all add: unat_ucast_widen)
  have cmp: "0x7FD \<le> (word_of_int e :: uint16) \<longleftrightarrow> e < 0 \<or> 0x7FD \<le> e"
    using e by (subst word_of_int_ge) simp_all
  have eq: "softfloat_roundPackToF64 sign e sig s =
     (if e < 0
      then
        (let isTiny = (tiny_before s \<or> e < -1 \<or> sig + incr < 0x8000000000000000);
             sig = softfloat_shiftRightJam64 sig (word_of_int (- e));
             s = (if isTiny \<and> (sig AND 0x3FF) \<noteq> 0
                  then softfloat_raiseFlags softfloat_flag_underflow s else s)
         in softfloat_roundPackToF64_round sign incr ((sig AND 0x3FF)) 0 sig s)
      else if 0x7FD < e \<or> e = 0x7FD \<and> 0x8000000000000000 \<le> sig + incr
      then
        ((packToF64UI sign 0x7FF 0 - of_bool (incr = 0)),
         softfloat_raiseFlags (softfloat_flag_overflow OR softfloat_flag_inexact) s)
      else softfloat_roundPackToF64_round sign incr ((sig AND 0x3FF)) e sig s)"
    unfolding softfloat_roundPackToF64_def Let_def cmp md_def[symmetric] incr_def[symmetric] tiny_before_def
    by auto
  consider "e < 0" | "0 \<le> e" "rp_overflow_cond 52 11 10 m sign e (unat sig)"
    | "0 \<le> e" "\<not> rp_overflow_cond 52 11 10 m sign e (unat sig)"
    by linarith
  then show ?thesis
  proof cases
    case 1
    define t where "t = softfloat_shiftRightJam64 sig (word_of_int (- e))"
    have "unat (word_of_int (- e) :: uint_fast32) = nat (- e)"
      using 1 e by (intro unat_word_of_int) simp_all
    then have "int (unat t) = jam (of_nat (unat sig) / 2 ^ nat (- e))"
      unfolding t_def using 1 sig(2)
      by (subst shiftRightJam64_correct) (auto simp: word_eq_0_unat)
    then have t: "unat t = rp_sig e (unat sig)"
      using 1 by (simp add: rp_sig_def flip: nat_int)
    have nov: "\<not> rp_overflow_cond 52 11 10 m sign e (unat sig)"
      using 1 by (intro rp_not_overflow) simp
    note fits = rp_tail_fits[OF i nov]
    define u where "u = (if (tiny_before s \<or> e < -1 \<or> sig + incr < 0x8000000000000000) \<and> (t AND 0x3FF) \<noteq> 0
        then softfloat_raiseFlags softfloat_flag_underflow s else s)"
    have ru: "(r, s') = softfloat_roundPackToF64_round sign incr ((t AND 0x3FF)) 0 t u"
      using r 1 unfolding eq u_def t_def Let_def by simp
    have mu: "m = round_mode (softfloat_roundingMode u)"
      by (simp add: u_def m)
    show ?thesis
      using roundPackToF64_round[OF incr mu _ _ refl _ _ ru] fits 1 nov
      by (simp add: t rp_bits_def rp_flags_def u_def word_less_nat_alt add round_bitsF64)
  next
    case 2
    then have "0x7FD < e \<or> e = 0x7FD \<and> 0x8000000000000000 \<le> sig + incr"
      by (auto simp: rp_overflow_cond_def word_le_nat_alt add)
    with r 2(1) have "r = (packToF64UI sign 0x7FF 0 - of_bool (incr = 0))"
        "s' = softfloat_raiseFlags (softfloat_flag_overflow OR softfloat_flag_inexact) s"
      unfolding eq by auto
    moreover have "unat ((packToF64UI sign 0x7FF 0 - of_bool (incr = 0))) =
        of_bool sign * 2 ^ 63 + (fp_inf 52 11 - of_bool (rnd_incr 10 m sign = 0))"
      unfolding incr[symmetric] unat_eq_0
      by (cases sign; cases "incr = 0") (simp_all add: packToF64UI_def fp_inf_def)
    ultimately show ?thesis
      using 2(2) by (simp add: rp_bits_def rp_flags_def)
  next
    case 3
    then have "\<not> (0x7FD < e \<or> e = 0x7FD \<and> 0x8000000000000000 \<le> sig + incr)"
      by (auto simp: rp_overflow_cond_def word_le_nat_alt add)
    with r 3(1) have ru: "(r, s') = softfloat_roundPackToF64_round sign incr ((sig AND 0x3FF)) e sig s"
      unfolding eq by auto
    have "rp_sig e (unat sig) = unat sig"
      using 3(1) by (simp add: rp_sig_def)
    then show ?thesis
      using roundPackToF64_round[OF incr m _ _ refl _ _ ru] rp_tail_fits[OF i 3(2)] 3
      by (simp add: rp_bits_def rp_flags_def)
  qed
qed

interpretation f64: round_pack 52 11 10 "{-(2 ^ 15)..<2 ^ 15}" softfloat_roundPackToF64
  using roundPackToF64_refines[OF _ _ refl prod.collapse[symmetric]]
  by unfold_locales simp_all

end
