(* ===== verification/SF_NormRound.thy ===== *)
theory SF_NormRound
  imports SF_RoundPack
begin

text \<open>
  The normalizing variants (\<open>s_normRoundPackToF16/F32/F64.c\<close>) and the normalization of
  subnormal significands (\<open>s_normSubnormalF16/F32/F64Sig.c\<close>): both count leading zeros and
  shift, and both are shown to keep the value. The fast path of the rounding variants, which
  packs without rounding, gives what the rounding routine gives.
\<close>

section \<open>Normalizing rounding routines\<close>

lemma leading_zeros_norm:
  assumes "leading_zeros (Suc n) a c" and "0 < a" and "a < 2 ^ n" and "0 < n"
  shows "0 < c" and "c \<le> n" and "2 ^ (n - 1) \<le> a * 2 ^ (c - 1)" and "a * 2 ^ (c - 1) < 2 ^ n"
proof -
  have c: "c < Suc n" "2 ^ n \<le> a * 2 ^ c" "a * 2 ^ c < 2 ^ Suc n"
    using assms(1,2) by (simp_all add: leading_zeros_def)
  show "0 < c"
    using c(2) assms(3) by (cases c) simp_all
  then obtain d where d: "c = Suc d"
    by (cases c) simp_all
  obtain j where "n = Suc j"
    using assms(4) by (cases n) simp_all
  then show "c \<le> n" "2 ^ (n - 1) \<le> a * 2 ^ (c - 1)" "a * 2 ^ (c - 1) < 2 ^ n"
    using c d by simp_all
qed

lemma normRoundPackToF16_norm:
  assumes sig: "0 < unat sig" "unat sig < 2 ^ (10 + 4 + 1)" and e: "e \<in> {-(2 ^ 31) + 15..<2 ^ 31}"
  shows "\<exists>d sig'. unat sig' = unat sig * 2 ^ d \<and> rp_input 10 5 4 (unat sig') \<and> e - int d \<in> {-(2 ^ 31)..<2 ^ 31}
    \<and> softfloat_normRoundPackToF16 sign e sig s = softfloat_roundPackToF16 sign (e - int d) sig' s"
proof -
  define d where "d = unat (softfloat_countLeadingZeros16 (to_u16 sig)) - 1"
  have "leading_zeros 16 (unat sig) (unat (softfloat_countLeadingZeros16 (to_u16 sig)))"
    using countLeadingZeros16_correct[of "to_u16 sig"] sig(2) by (simp add: unat_ucast_mod)
  from leading_zeros_norm[of 15, simplified, OF this] sig
  have c: "int (unat (softfloat_countLeadingZeros16 (to_u16 sig))) - 1 = int d" "d < 15"
      and n: "2 ^ 14 \<le> unat sig * 2 ^ d" "unat sig * 2 ^ d < 2 ^ 15"
    by (simp_all add: d_def of_nat_diff)
  define sig' where "sig' = push_bit d sig"
  have s': "unat sig' = unat sig * 2 ^ d"
    unfolding sig'_def using n(2) by (intro unat_push_bit_mult) simp
  have i: "rp_input 10 5 4 (unat sig')"
    using n by (simp add: rp_input_def s')
  have r: "e - int d \<in> {-(2 ^ 31)..<2 ^ 31}"
    using e c(2) by simp
  have "softfloat_normRoundPackToF16 sign e sig s = softfloat_roundPackToF16 sign (e - int d) sig' s"
  proof (cases "4 \<le> d \<and> (word_of_int (e - int d) :: uint32) < 0x1D")
    case True
    then have e': "0 \<le> e - int d" "e - int d < 2 ^ 5 - 3"
      using word_of_int_ge[of "e - int d" "0x1D :: uint32"] r by (simp_all add: not_le[symmetric])
    define t where "t = unat sig * 2 ^ (d - 4)"
    have t: "unat sig' = t * 2 ^ 4"
      using True power_add[of "2::nat" "d - 4" 4] by (simp add: s' t_def)
    then have t_less: "t < 2 ^ 11"
      using n(2) s' by simp
    have u: "unat (push_bit (d - 4) sig) = t"
      unfolding t_def using t_less by (intro unat_push_bit_mult) (simp add: t_def)
    note x = rp_exact_pack[OF i[unfolded t] e']
    have "unat (fst (softfloat_roundPackToF16 sign (e - int d) sig' s)) =
        of_bool sign * 2 ^ 15 + (nat (e - int d) * 2 ^ 10 + t)"
      using f16.bits[OF i r, of sign s] unfolding t x by simp
    also have "\<dots> = unat (to_u16 (packToF16UI sign (e - int d) (push_bit (d - 4) sig)))"
      using e' t_less by (subst unat_packToF16UI) (simp_all add: u)
    finally have "fst (softfloat_roundPackToF16 sign (e - int d) sig' s) =
        to_u16 (packToF16UI sign (e - int d) (push_bit (d - 4) sig))"
      by (rule word_unat_eq_iff[THEN iffD2])
    moreover have "snd (softfloat_roundPackToF16 sign (e - int d) sig' s) = s"
      using f16.flags[OF i r, of sign s] unfolding t x by simp
    ultimately show ?thesis
      using True sig(1) unfolding softfloat_normRoundPackToF16_def Let_def c(1)
      by (auto simp: nat_diff_distrib' prod_eq_iff)
  next
    case False
    then show ?thesis
      unfolding softfloat_normRoundPackToF16_def Let_def c(1) sig'_def by auto
  qed
  then show ?thesis
    using s' i r by blast
qed

interpretation f16: norm_round_pack 10 5 4 "{-(2 ^ 31)..<2 ^ 31}" softfloat_roundPackToF16
    "{-(2 ^ 31) + 15..<2 ^ 31}" softfloat_normRoundPackToF16
  using normRoundPackToF16_norm by unfold_locales

lemma normRoundPackToF32_norm:
  assumes sig: "0 < unat sig" "unat sig < 2 ^ (23 + 7 + 1)" and e: "e \<in> {-(2 ^ 31) + 31..<2 ^ 31}"
  shows "\<exists>d sig'. unat sig' = unat sig * 2 ^ d \<and> rp_input 23 8 7 (unat sig') \<and> e - int d \<in> {-(2 ^ 31)..<2 ^ 31}
    \<and> softfloat_normRoundPackToF32 sign e sig s = softfloat_roundPackToF32 sign (e - int d) sig' s"
proof -
  define d where "d = unat (softfloat_countLeadingZeros32 (to_u32 sig)) - 1"
  have "leading_zeros 32 (unat sig) (unat (softfloat_countLeadingZeros32 (to_u32 sig)))"
    using countLeadingZeros32_correct[of "to_u32 sig"] sig(2) by (simp add: unat_ucast_mod)
  from leading_zeros_norm[of 31, simplified, OF this] sig
  have c: "int (unat (softfloat_countLeadingZeros32 (to_u32 sig))) - 1 = int d" "d < 31"
      and n: "2 ^ 30 \<le> unat sig * 2 ^ d" "unat sig * 2 ^ d < 2 ^ 31"
    by (simp_all add: d_def of_nat_diff)
  define sig' where "sig' = push_bit d sig"
  have s': "unat sig' = unat sig * 2 ^ d"
    unfolding sig'_def using n(2) by (intro unat_push_bit_mult) simp
  have i: "rp_input 23 8 7 (unat sig')"
    using n by (simp add: rp_input_def s')
  have r: "e - int d \<in> {-(2 ^ 31)..<2 ^ 31}"
    using e c(2) by simp
  have "softfloat_normRoundPackToF32 sign e sig s = softfloat_roundPackToF32 sign (e - int d) sig' s"
  proof (cases "7 \<le> d \<and> (word_of_int (e - int d) :: uint32) < 0xFD")
    case True
    then have e': "0 \<le> e - int d" "e - int d < 2 ^ 8 - 3"
      using word_of_int_ge[of "e - int d" "0xFD :: uint32"] r by (simp_all add: not_le[symmetric])
    define t where "t = unat sig * 2 ^ (d - 7)"
    have t: "unat sig' = t * 2 ^ 7"
      using True power_add[of "2::nat" "d - 7" 7] by (simp add: s' t_def)
    then have t_less: "t < 2 ^ 24"
      using n(2) s' by simp
    have u: "unat (push_bit (d - 7) sig) = t"
      unfolding t_def using t_less by (intro unat_push_bit_mult) (simp add: t_def)
    note x = rp_exact_pack[OF i[unfolded t] e']
    have "unat (fst (softfloat_roundPackToF32 sign (e - int d) sig' s)) =
        of_bool sign * 2 ^ 31 + (nat (e - int d) * 2 ^ 23 + t)"
      using f32.bits[OF i r, of sign s] unfolding t x by simp
    also have "\<dots> = unat (to_u32 (packToF32UI sign (e - int d) (push_bit (d - 7) sig)))"
      using e' t_less by (subst unat_packToF32UI) (simp_all add: u)
    finally have "fst (softfloat_roundPackToF32 sign (e - int d) sig' s) =
        to_u32 (packToF32UI sign (e - int d) (push_bit (d - 7) sig))"
      by (rule word_unat_eq_iff[THEN iffD2])
    moreover have "snd (softfloat_roundPackToF32 sign (e - int d) sig' s) = s"
      using f32.flags[OF i r, of sign s] unfolding t x by simp
    ultimately show ?thesis
      using True sig(1) unfolding softfloat_normRoundPackToF32_def Let_def c(1)
      by (auto simp: nat_diff_distrib' prod_eq_iff)
  next
    case False
    then show ?thesis
      unfolding softfloat_normRoundPackToF32_def Let_def c(1) sig'_def by auto
  qed
  then show ?thesis
    using s' i r by blast
qed

interpretation f32: norm_round_pack 23 8 7 "{-(2 ^ 31)..<2 ^ 31}" softfloat_roundPackToF32
    "{-(2 ^ 31) + 31..<2 ^ 31}" softfloat_normRoundPackToF32
  using normRoundPackToF32_norm by unfold_locales

lemma normRoundPackToF64_norm:
  assumes sig: "0 < unat sig" "unat sig < 2 ^ (52 + 10 + 1)" and e: "e \<in> {-(2 ^ 15) + 63..<2 ^ 15}"
  shows "\<exists>d sig'. unat sig' = unat sig * 2 ^ d \<and> rp_input 52 11 10 (unat sig') \<and> e - int d \<in> {-(2 ^ 15)..<2 ^ 15}
    \<and> softfloat_normRoundPackToF64 sign e sig s = softfloat_roundPackToF64 sign (e - int d) sig' s"
proof -
  define d where "d = unat (softfloat_countLeadingZeros64 sig) - 1"
  have "leading_zeros 64 (unat sig) (unat (softfloat_countLeadingZeros64 sig))"
    using countLeadingZeros64_correct[of sig] sig(2) by (simp add: unat_ucast_mod)
  from leading_zeros_norm[of 63, simplified, OF this] sig
  have c: "int (unat (softfloat_countLeadingZeros64 sig)) - 1 = int d" "d < 63"
      and n: "2 ^ 62 \<le> unat sig * 2 ^ d" "unat sig * 2 ^ d < 2 ^ 63"
    by (simp_all add: d_def of_nat_diff)
  define sig' where "sig' = push_bit d sig"
  have s': "unat sig' = unat sig * 2 ^ d"
    unfolding sig'_def using n(2) by (intro unat_push_bit_mult) simp
  have i: "rp_input 52 11 10 (unat sig')"
    using n by (simp add: rp_input_def s')
  have r: "e - int d \<in> {-(2 ^ 15)..<2 ^ 15}"
    using e c(2) by simp
  have "softfloat_normRoundPackToF64 sign e sig s = softfloat_roundPackToF64 sign (e - int d) sig' s"
  proof (cases "10 \<le> d \<and> (word_of_int (e - int d) :: uint32) < 0x7FD")
    case True
    then have e': "0 \<le> e - int d" "e - int d < 2 ^ 11 - 3"
      using word_of_int_ge[of "e - int d" "0x7FD :: uint32"] r by (simp_all add: not_le[symmetric])
    define t where "t = unat sig * 2 ^ (d - 10)"
    have t: "unat sig' = t * 2 ^ 10"
      using True power_add[of "2::nat" "d - 10" 10] by (simp add: s' t_def)
    then have t_less: "t < 2 ^ 53"
      using n(2) s' by simp
    have u: "unat (push_bit (d - 10) sig) = t"
      unfolding t_def using t_less by (intro unat_push_bit_mult) (simp add: t_def)
    note x = rp_exact_pack[OF i[unfolded t] e']
    have "unat (fst (softfloat_roundPackToF64 sign (e - int d) sig' s)) =
        of_bool sign * 2 ^ 63 + (nat (e - int d) * 2 ^ 52 + t)"
      using f64.bits[OF i r, of sign s] unfolding t x by simp
    also have "\<dots> = unat (packToF64UI sign (e - int d) (push_bit (d - 10) sig))"
      using e' t_less by (subst unat_packToF64UI) (simp_all add: u)
    finally have "fst (softfloat_roundPackToF64 sign (e - int d) sig' s) =
        packToF64UI sign (e - int d) (push_bit (d - 10) sig)"
      by (rule word_unat_eq_iff[THEN iffD2])
    moreover have "snd (softfloat_roundPackToF64 sign (e - int d) sig' s) = s"
      using f64.flags[OF i r, of sign s] unfolding t x by simp
    ultimately show ?thesis
      using True sig(1) unfolding softfloat_normRoundPackToF64_def Let_def c(1)
      by (auto simp: nat_diff_distrib' prod_eq_iff)
  next
    case False
    then show ?thesis
      unfolding softfloat_normRoundPackToF64_def Let_def c(1) sig'_def by auto
  qed
  then show ?thesis
    using s' i r by blast
qed

interpretation f64: norm_round_pack 52 11 10 "{-(2 ^ 15)..<2 ^ 15}" softfloat_roundPackToF64
    "{-(2 ^ 15) + 63..<2 ^ 15}" softfloat_normRoundPackToF64
  using normRoundPackToF64_norm by unfold_locales

section \<open>Normalization of subnormal significands\<close>

lemma leading_zeros_sub:
  assumes "leading_zeros n a c" and "0 < a" and "a < 2 ^ p" and "p + j + 1 = n"
  shows "j < c" and "c \<le> p + j" and "2 ^ p \<le> a * 2 ^ (c - j)" and "a * 2 ^ (c - j) < 2 ^ (p + 1)"
proof -
  have c: "c < n" "2 ^ (n - 1) \<le> a * 2 ^ c" "a * 2 ^ c < 2 ^ n"
    using assms(1,2) by (simp_all add: leading_zeros_def)
  have n: "n - 1 = p + j" "n = p + 1 + j"
    using assms(4) by simp_all
  have "(2::nat) ^ p * 2 ^ j < 2 ^ p * 2 ^ c"
  proof -
    have "2 ^ p * 2 ^ j \<le> a * 2 ^ c"
      using c(2) unfolding n(1) by (simp add: power_add)
    also have "\<dots> < 2 ^ p * 2 ^ c"
      using assms(3) by simp
    finally show ?thesis .
  qed
  then show j: "j < c"
    by simp
  then obtain d where d: "c = d + j"
    using le_iff_add[of j c] by (metis add.commute less_imp_le)
  show "c \<le> p + j"
    using c(1) n by simp
  have "2 ^ p * 2 ^ j \<le> a * 2 ^ d * 2 ^ j" "a * 2 ^ d * 2 ^ j < 2 ^ (p + 1) * 2 ^ j"
    using c(2,3) unfolding n(1) d by (simp_all add: power_add n(2) mult.assoc)
  then show "2 ^ p \<le> a * 2 ^ (c - j)" "a * 2 ^ (c - j) < 2 ^ (p + 1)"
    using d by (simp_all only: mult_le_cancel2 mult_less_cancel2 add_diff_cancel_right')
qed

text \<open>A subnormal significand \<open>a\<close> is shifted left by \<open>d\<close> into \<open>p + 1\<close> bits, and the exponent follows.\<close>

definition norm_subnormal :: "nat \<Rightarrow> nat \<Rightarrow> int \<Rightarrow> nat \<Rightarrow> bool" where
  "norm_subnormal p a e z \<longleftrightarrow>
     (\<exists>d. 0 < d \<and> d \<le> p \<and> e = 1 - int d \<and> z = a * 2 ^ d \<and> 2 ^ p \<le> z \<and> z < 2 ^ (p + 1))"

lemma normSubnormalF16Sig_correct:
  assumes "0 < unat sig" and "unat sig < 2 ^ 10"
  shows "norm_subnormal 10 (unat sig) (es16_exp (softfloat_normSubnormalF16Sig sig))
    (unat (es16_sig (softfloat_normSubnormalF16Sig sig)))"
proof -
  define c where "c = unat (softfloat_countLeadingZeros16 (to_u16 sig))"
  have "leading_zeros 16 (unat sig) c"
    using countLeadingZeros16_correct[of "to_u16 sig"] assms(2) by (simp add: c_def unat_ucast_mod)
  note z = leading_zeros_sub[OF this assms, of 5, simplified]
  have "unat (push_bit (c - 5) sig) = unat sig * 2 ^ (c - 5)"
    using z by (intro unat_push_bit_mult) simp
  then show ?thesis
    using z unfolding norm_subnormal_def softfloat_normSubnormalF16Sig_def Let_def c_def[symmetric]
    by (intro exI[of _ "c - 5"]) (simp add: nat_diff_distrib')
qed

lemma normSubnormalF32Sig_correct:
  assumes "0 < unat sig" and "unat sig < 2 ^ 23"
  shows "norm_subnormal 23 (unat sig) (es32_exp (softfloat_normSubnormalF32Sig sig))
    (unat (es32_sig (softfloat_normSubnormalF32Sig sig)))"
proof -
  define c where "c = unat (softfloat_countLeadingZeros32 (to_u32 sig))"
  have "leading_zeros 32 (unat sig) c"
    using countLeadingZeros32_correct[of "to_u32 sig"] assms(2) by (simp add: c_def unat_ucast_mod)
  note z = leading_zeros_sub[OF this assms, of 8, simplified]
  have "unat (push_bit (c - 8) sig) = unat sig * 2 ^ (c - 8)"
    using z by (intro unat_push_bit_mult) simp
  then show ?thesis
    using z unfolding norm_subnormal_def softfloat_normSubnormalF32Sig_def Let_def c_def[symmetric]
    by (intro exI[of _ "c - 8"]) (simp add: nat_diff_distrib')
qed

lemma normSubnormalF64Sig_correct:
  assumes "0 < unat sig" and "unat sig < 2 ^ 52"
  shows "norm_subnormal 52 (unat sig) (es64_exp (softfloat_normSubnormalF64Sig sig))
    (unat (es64_sig (softfloat_normSubnormalF64Sig sig)))"
proof -
  define c where "c = unat (softfloat_countLeadingZeros64 sig)"
  have "leading_zeros 64 (unat sig) c"
    using countLeadingZeros64_correct[of sig] assms(2) by (simp add: c_def unat_ucast_mod)
  note z = leading_zeros_sub[OF this assms, of 11, simplified]
  have "unat (push_bit (c - 11) sig) = unat sig * 2 ^ (c - 11)"
    using z by (intro unat_push_bit_mult) simp
  then show ?thesis
    using z unfolding norm_subnormal_def softfloat_normSubnormalF64Sig_def Let_def c_def[symmetric]
    by (intro exI[of _ "c - 11"]) (simp add: nat_diff_distrib')
qed

end
