(* ===== verification/SF_Value.thy ===== *)
theory SF_Value
  imports SF_NormRound
begin

text \<open>
  The number a bit pattern stands for, in a format of \<open>p\<close> fraction and \<open>w\<close> exponent bits,
  and how the field accessors and the normalization of an operand relate to it. Every
  arithmetic theory states its results over these definitions.
\<close>

section \<open>Patterns as numbers\<close>

definition fp_sign :: "nat \<Rightarrow> nat \<Rightarrow> nat \<Rightarrow> bool" where
  "fp_sign p w b \<longleftrightarrow> b div 2 ^ (p + w) \<noteq> 0"

definition fp_abs :: "nat \<Rightarrow> nat \<Rightarrow> nat \<Rightarrow> nat" where
  "fp_abs p w b = b mod 2 ^ (p + w)"

definition fp_finite :: "nat \<Rightarrow> nat \<Rightarrow> nat \<Rightarrow> bool" where
  "fp_finite p w b \<longleftrightarrow> fp_abs p w b < fp_inf p w"

definition fp_infinite :: "nat \<Rightarrow> nat \<Rightarrow> nat \<Rightarrow> bool" where
  "fp_infinite p w b \<longleftrightarrow> fp_abs p w b = fp_inf p w"

definition fp_nan :: "nat \<Rightarrow> nat \<Rightarrow> nat \<Rightarrow> bool" where
  "fp_nan p w b \<longleftrightarrow> fp_inf p w < fp_abs p w b"

text \<open>A signaling NaN has a zero as the highest bit of its fraction.\<close>

definition fp_snan :: "nat \<Rightarrow> nat \<Rightarrow> nat \<Rightarrow> bool" where
  "fp_snan p w b \<longleftrightarrow> fp_nan p w b \<and> b mod 2 ^ p < 2 ^ (p - 1)"

definition fp_magn :: "nat \<Rightarrow> nat \<Rightarrow> nat \<Rightarrow> real" where
  "fp_magn p w b = fp_mag p (fp_emin p w) (fp_abs p w b)"

definition fp_value :: "nat \<Rightarrow> nat \<Rightarrow> nat \<Rightarrow> real" where
  "fp_value p w b = (if fp_sign p w b then - fp_magn p w b else fp_magn p w b)"

text \<open>The exponent and the fraction field.\<close>

definition fp_exp :: "nat \<Rightarrow> nat \<Rightarrow> nat \<Rightarrow> nat" where
  "fp_exp p w b = b div 2 ^ p mod 2 ^ w"

definition fp_frac :: "nat \<Rightarrow> nat \<Rightarrow> nat" where
  "fp_frac p b = b mod 2 ^ p"

lemma fp_abs_fields: "fp_abs p w b = fp_exp p w b * 2 ^ p + fp_frac p b"
  by (simp add: fp_abs_def fp_exp_def fp_frac_def power_add mod_mult2_eq)

lemma fp_exp_less: "fp_exp p w b < 2 ^ w"
  by (simp add: fp_exp_def)

lemma fp_frac_less: "fp_frac p b < 2 ^ p"
  by (simp add: fp_frac_def)

lemma fp_abs_div_mod:
  "fp_abs p w b div 2 ^ p = fp_exp p w b" "fp_abs p w b mod 2 ^ p = fp_frac p b"
  using fp_frac_less[of p b] by (simp_all add: fp_abs_fields)

lemma fp_exp_max_cases:
  "fp_abs p w b < fp_inf p w \<longleftrightarrow> fp_exp p w b \<noteq> 2 ^ w - 1"
  "fp_abs p w b = fp_inf p w \<longleftrightarrow> fp_exp p w b = 2 ^ w - 1 \<and> fp_frac p b = 0"
  "fp_inf p w < fp_abs p w b \<longleftrightarrow> fp_exp p w b = 2 ^ w - 1 \<and> fp_frac p b \<noteq> 0"
proof -
  have c: "fp_exp p w b \<noteq> 2 ^ w - 1 \<Longrightarrow> fp_exp p w b * 2 ^ p + fp_frac p b < (2 ^ w - 1) * 2 ^ p"
  proof -
    assume "fp_exp p w b \<noteq> 2 ^ w - 1"
    then have "fp_exp p w b + 1 \<le> 2 ^ w - 1"
      using fp_exp_less[of p w b] by simp
    then have "(fp_exp p w b + 1) * 2 ^ p \<le> (2 ^ w - 1) * 2 ^ p"
      by (rule mult_le_mono1)
    then show ?thesis
      using fp_frac_less[of p b] by (simp only: distrib_right)
  qed
  show "fp_abs p w b < fp_inf p w \<longleftrightarrow> fp_exp p w b \<noteq> 2 ^ w - 1"
      "fp_abs p w b = fp_inf p w \<longleftrightarrow> fp_exp p w b = 2 ^ w - 1 \<and> fp_frac p b = 0"
      "fp_inf p w < fp_abs p w b \<longleftrightarrow> fp_exp p w b = 2 ^ w - 1 \<and> fp_frac p b \<noteq> 0"
    using c by (cases "fp_exp p w b = 2 ^ w - 1"; simp add: fp_abs_fields fp_inf_def)+
qed

lemmas fp_class_fields =
  fp_exp_max_cases[folded fp_finite_def fp_infinite_def fp_nan_def]

lemma fp_magn_fields:
  "fp_magn p w b =
     (if fp_exp p w b = 0 then of_nat (fp_frac p b) * 2 powi fp_emin p w
      else of_nat (2 ^ p + fp_frac p b) * 2 powi (fp_emin p w + int (fp_exp p w b) - 1))"
  by (simp add: fp_magn_def fp_mag_def fp_abs_div_mod)

lemma fp_magn_nonneg: "0 \<le> fp_magn p w b"
  by (simp add: fp_magn_fields)

lemma fp_magn_eq_0: "fp_magn p w b = 0 \<longleftrightarrow> fp_abs p w b = 0"
proof -
  have "(2::real) ^ p + real (fp_frac p b) \<noteq> 0"
    by (metis add_nonneg_eq_0_iff of_nat_0_le_iff power_eq_0_iff zero_le_numeral zero_le_power zero_neq_numeral)
  then show ?thesis
    by (simp add: fp_magn_fields fp_abs_fields)
qed

text \<open>The pattern of a signed number: its fields are what it was packed from.\<close>

lemma fp_pattern:
  assumes "m < 2 ^ (p + w)"
  shows "fp_sign p w (of_bool neg * 2 ^ (p + w) + m) = neg" "fp_abs p w (of_bool neg * 2 ^ (p + w) + m) = m"
  using assms by (simp_all add: fp_sign_def fp_abs_def div_mult_self3 div_add1_eq)

lemma fp_decomp:
  assumes "b < 2 ^ (p + w + 1)"
  shows "b = of_bool (fp_sign p w b) * 2 ^ (p + w) + (fp_exp p w b * 2 ^ p + fp_frac p b)"
proof -
  have "b div 2 ^ (p + w) < 2"
    using assms by (simp add: less_mult_imp_div_less mult.commute)
  then have "b div 2 ^ (p + w) = of_bool (fp_sign p w b)"
    by (auto simp: fp_sign_def less_2_cases_iff)
  then show ?thesis
    using div_mult_mod_eq[of b "2 ^ (p + w)"] fp_abs_fields[of p w b] by (simp add: fp_abs_def)
qed

section \<open>The accessors read the fields\<close>

lemma F16_fields:
  "signF16UI (to_u64 a) = fp_sign 10 5 (unat a)"
  "expF16UI (to_u64 a) = int (fp_exp 10 5 (unat a))"
  "unat (fracF16UI (to_u64 a)) = fp_frac 10 (unat a)"
  for a :: float16
  using unat_and_mask[of "drop_bit 10 (to_u64 a)" 5] unat_and_mask[of "to_u64 a" 10]
  by (simp_all add: signF16UI_def expF16UI_def fracF16UI_def fp_sign_def fp_exp_def fp_frac_def
      mask_numeral unat_drop_bit_div unat_ucast_widen ucast_widen_narrow word_eq_0_unat)

lemma F32_fields:
  "signF32UI (to_u64 a) = fp_sign 23 8 (unat a)"
  "expF32UI (to_u64 a) = int (fp_exp 23 8 (unat a))"
  "unat (fracF32UI (to_u64 a)) = fp_frac 23 (unat a)"
  for a :: float32
  using unat_and_mask[of "drop_bit 23 (to_u64 a)" 8] unat_and_mask[of "to_u64 a" 23]
  by (simp_all add: signF32UI_def expF32UI_def fracF32UI_def fp_sign_def fp_exp_def fp_frac_def
      mask_numeral unat_drop_bit_div unat_ucast_widen ucast_widen_narrow word_eq_0_unat)

lemma F64_fields:
  "signF64UI a = fp_sign 52 11 (unat a)"
  "expF64UI a = int (fp_exp 52 11 (unat a))"
  "unat (fracF64UI a) = fp_frac 52 (unat a)"
  for a :: float64
  using unat_and_mask[of "drop_bit 52 a" 11] unat_and_mask[of a 52]
  by (simp_all add: signF64UI_def expF64UI_def fracF64UI_def fp_sign_def fp_exp_def fp_frac_def
      mask_numeral unat_drop_bit_div word_eq_0_unat)

section \<open>Normalized operands\<close>

text \<open>
  \<open>norm_arg p w b e z\<close>: the finite nonzero pattern \<open>b\<close> stands for the magnitude with significand
  \<open>z\<close> of \<open>p + 1\<close> bits and (biased) exponent \<open>e\<close>.
\<close>

definition norm_arg :: "nat \<Rightarrow> nat \<Rightarrow> nat \<Rightarrow> int \<Rightarrow> nat \<Rightarrow> bool" where
  "norm_arg p w b e z \<longleftrightarrow>
     2 ^ p \<le> z \<and> z < 2 ^ (p + 1) \<and> 1 - int p \<le> e \<and> e < 2 ^ w - 1
     \<and> fp_magn p w b = of_nat z * 2 powi (fp_emin p w + e - 1)"

lemma norm_arg_normal:
  assumes "fp_finite p w b" and "fp_exp p w b \<noteq> 0"
  shows "norm_arg p w b (int (fp_exp p w b)) (2 ^ p + fp_frac p b)"
proof -
  have "fp_exp p w b + 1 < 2 ^ w"
    using assms(1) fp_exp_less[of p w b] by (simp add: fp_class_fields)
  then have "int (fp_exp p w b + 1) < int (2 ^ w)"
    by (simp only: of_nat_less_iff)
  then show ?thesis
    using assms fp_frac_less[of p b] by (simp add: norm_arg_def fp_magn_fields)
qed

lemma norm_arg_subnormal:
  assumes "fp_exp p w b = 0" and "norm_subnormal p (fp_frac p b) e z" and "0 < w"
  shows "norm_arg p w b e z"
proof -
  obtain d where d: "0 < d" "d \<le> p" "e = 1 - int d" "z = fp_frac p b * 2 ^ d" "2 ^ p \<le> z" "z < 2 ^ (p + 1)"
    using assms(2) unfolding norm_subnormal_def by blast
  have "(2::real) ^ d * 2 powi (fp_emin p w - int d) = 2 powi (int d + (fp_emin p w - int d))"
    by (subst power_int_add) simp_all
  then have "real z * 2 powi (fp_emin p w + e - 1) = fp_magn p w b"
    using assms(1) by (simp add: d(3,4) fp_magn_fields)
  moreover have "(2::int) ^ 1 \<le> 2 ^ w"
    using assms(3) by (intro power_increasing) simp_all
  ultimately show ?thesis
    using d by (simp add: norm_arg_def)
qed

text \<open>What the routines do to a finite nonzero operand: normalize it and set the implicit bit.\<close>

lemma norm_arg_or:
  fixes z i :: uint64
  assumes "norm_arg p w b e (unat z) \<and> unat z < 2 ^ Suc p" and "unat i = 2 ^ p"
  shows "norm_arg p w b e (unat (z OR i))"
proof -
  have "unat z div 2 ^ p = 1"
    using assms(1) by (intro div_nat_eqI) (simp_all add: norm_arg_def)
  then have "2 ^ p + unat z mod 2 ^ p = unat z"
    using div_mult_mod_eq[of "unat z" "2 ^ p"] by simp
  then show ?thesis
    using assms unat_or_pow2[of z p i] by simp
qed

lemma norm_argF32:
  fixes a :: float32
  assumes "fp_finite 23 8 (unat a)" and "fp_abs 23 8 (unat a) \<noteq> 0"
    and "(e, z) =
      (if expF32UI (to_u64 a) = 0
       then (es32_exp (softfloat_normSubnormalF32Sig (fracF32UI (to_u64 a))),
             es32_sig (softfloat_normSubnormalF32Sig (fracF32UI (to_u64 a))))
       else (expF32UI (to_u64 a), fracF32UI (to_u64 a)))"
  shows "norm_arg 23 8 (unat a) e (unat (z OR 0x00800000))"
proof (cases "fp_exp 23 8 (unat a) = 0")
  case True
  then have f: "0 < fp_frac 23 (unat a)"
    using assms(2) by (simp add: fp_abs_fields)
  have "norm_subnormal 23 (fp_frac 23 (unat a)) e (unat z)"
    using normSubnormalF32Sig_correct[of "fracF32UI (to_u64 a)"] f fp_frac_less[of 23 "unat a"] True assms(3)
    by (simp add: F32_fields)
  then have "norm_arg 23 8 (unat a) e (unat z) \<and> unat z < 2 ^ Suc 23"
    using norm_arg_subnormal[OF True] by (auto simp: norm_subnormal_def)
  then show ?thesis
    by (rule norm_arg_or) simp
next
  case False
  then have "e = int (fp_exp 23 8 (unat a))" "unat z = fp_frac 23 (unat a)"
    using assms(3) by (simp_all add: F32_fields)
  then show ?thesis
    using norm_arg_normal[OF assms(1) False] unat_or_pow2[of z 23 "0x00800000"] fp_frac_less[of 23 "unat a"]
    by (simp add: fp_frac_def)
qed

lemma norm_argF16:
  fixes a :: float16
  assumes "fp_finite 10 5 (unat a)" and "fp_abs 10 5 (unat a) \<noteq> 0"
    and "(e, z) =
      (if expF16UI (to_u64 a) = 0
       then (es16_exp (softfloat_normSubnormalF16Sig (fracF16UI (to_u64 a))),
             es16_sig (softfloat_normSubnormalF16Sig (fracF16UI (to_u64 a))))
       else (expF16UI (to_u64 a), fracF16UI (to_u64 a)))"
  shows "norm_arg 10 5 (unat a) e (unat (z OR 0x0400))"
proof (cases "fp_exp 10 5 (unat a) = 0")
  case True
  then have f: "0 < fp_frac 10 (unat a)"
    using assms(2) by (simp add: fp_abs_fields)
  have "norm_subnormal 10 (fp_frac 10 (unat a)) e (unat z)"
    using normSubnormalF16Sig_correct[of "fracF16UI (to_u64 a)"] f fp_frac_less[of 10 "unat a"] True assms(3)
    by (simp add: F16_fields)
  then have "norm_arg 10 5 (unat a) e (unat z) \<and> unat z < 2 ^ Suc 10"
    using norm_arg_subnormal[OF True] by (auto simp: norm_subnormal_def)
  then show ?thesis
    by (rule norm_arg_or) simp
next
  case False
  then have "e = int (fp_exp 10 5 (unat a))" "unat z = fp_frac 10 (unat a)"
    using assms(3) by (simp_all add: F16_fields)
  then show ?thesis
    using norm_arg_normal[OF assms(1) False] unat_or_pow2[of z 10 "0x0400"] fp_frac_less[of 10 "unat a"]
    by (simp add: fp_frac_def)
qed

lemma norm_argF64:
  fixes a :: float64
  assumes "fp_finite 52 11 (unat a)" and "fp_abs 52 11 (unat a) \<noteq> 0"
    and "(e, z) =
      (if expF64UI a = 0
       then (es64_exp (softfloat_normSubnormalF64Sig (fracF64UI a)),
             es64_sig (softfloat_normSubnormalF64Sig (fracF64UI a)))
       else (expF64UI a, fracF64UI a))"
  shows "norm_arg 52 11 (unat a) e (unat (z OR 0x0010000000000000))"
proof (cases "fp_exp 52 11 (unat a) = 0")
  case True
  then have f: "0 < fp_frac 52 (unat a)"
    using assms(2) by (simp add: fp_abs_fields)
  have "norm_subnormal 52 (fp_frac 52 (unat a)) e (unat z)"
    using normSubnormalF64Sig_correct[of "fracF64UI a"] f fp_frac_less[of 52 "unat a"] True assms(3)
    by (simp add: F64_fields)
  then have "norm_arg 52 11 (unat a) e (unat z) \<and> unat z < 2 ^ Suc 52"
    using norm_arg_subnormal[OF True] by (auto simp: norm_subnormal_def)
  then show ?thesis
    by (rule norm_arg_or) simp
next
  case False
  then have "e = int (fp_exp 52 11 (unat a))" "unat z = fp_frac 52 (unat a)"
    using assms(3) by (simp_all add: F64_fields)
  then show ?thesis
    using norm_arg_normal[OF assms(1) False] unat_or_pow2[of z 52 "0x0010000000000000"] fp_frac_less[of 52 "unat a"]
    by (simp add: fp_frac_def)
qed

section \<open>Exact results\<close>

lemma fp_mag_scaled:
  assumes "b \<noteq> 0"
  obtains n q where "fp_mag p emin b = of_nat n * 2 powi q" "0 < n" "n < 2 ^ Suc p" "emin \<le> q"
    "q = emin \<or> 2 ^ p \<le> n"
proof (cases "b div 2 ^ p = 0")
  case True
  have "b mod 2 ^ p \<noteq> 0"
    using True assms div_mult_mod_eq[of b "2 ^ p"] by (metis add_0 mult_0)
  moreover have "b mod 2 ^ p < 2 ^ p"
    by simp
  then have "b mod 2 ^ p < 2 ^ Suc p"
    unfolding power_Suc by linarith
  ultimately show ?thesis
    using True by (intro that[of "b mod 2 ^ p" emin]) (simp_all add: fp_mag_def)
next
  case False
  then show ?thesis
    by (intro that[of "2 ^ p + b mod 2 ^ p" "emin + int (b div 2 ^ p) - 1"])
      (simp_all add: fp_mag_def)
qed

lemma floor_log2_nat:
  assumes "0 < n" and "n < 2 ^ Suc p"
  obtains j where "j \<le> p" "2 ^ j \<le> real n" "real n < 2 ^ Suc j"
proof -
  define j where "j = nat \<lfloor>log 2 (real n)\<rfloor>"
  have "0 \<le> log 2 (real n)"
    using assms(1) by simp
  then have "of_nat j \<le> log 2 (real n)" "log 2 (real n) < of_nat j + 1"
    unfolding j_def by linarith+
  then have "2 powr of_nat j \<le> real n" "real n < 2 powr (of_nat j + 1)"
    using assms(1) by (simp_all add: le_log_iff log_less_iff)
  then have lo: "2 ^ j \<le> real n" and hi: "real n < 2 ^ Suc j"
    by (simp_all add: powr_realpow powr_add)
  have "(2::real) ^ j < 2 ^ Suc p"
    using lo assms(2) by (metis le_less_trans of_nat_less_iff of_nat_numeral of_nat_power)
  then have "j < Suc p"
    by (rule power_less_imp_less_exp[rotated]) simp
  with lo hi show ?thesis
    by (intro that[of j]) simp_all
qed

lemma fp_round_fp_mag: "fp_round p emin m neg (fp_mag p emin b) = fp_mag p emin b"
proof (cases "b = 0")
  case True
  then show ?thesis
    using rnd_of_int[of m neg 0] by (simp add: fp_mag_def fp_round_def)
next
  case False
  then obtain n q where x: "fp_mag p emin b = of_nat n * 2 powi q" "0 < n" "n < 2 ^ Suc p" "emin \<le> q"
      "q = emin \<or> 2 ^ p \<le> n"
    by (rule fp_mag_scaled)
  obtain j where j: "j \<le> p" "2 ^ j \<le> real n" "real n < 2 ^ Suc j"
    using floor_log2_nat[OF x(2,3)] .
  define t where "t = max (int j + q - int p) emin"
  have t: "quantum p emin (of_nat n * 2 powi q) = t" "t \<le> q"
    using j x(4) by (simp_all add: quantum_scaled[OF j(2,3)] t_def)
  have "(2::real) powi q = 2 powi (int (nat (q - t)) + t)"
    using t(2) by simp
  also have "\<dots> = of_nat (2 ^ nat (q - t)) * 2 powi t"
    by (simp only: powi_plus power_int_of_nat of_nat_power of_nat_numeral)
  finally have "of_nat n * 2 powi q / 2 powi t = real_of_int (int (n * 2 ^ nat (q - t)))"
    by simp
  then have "fp_round p emin m neg (of_nat n * 2 powi q) = of_nat n * 2 powi q"
    unfolding fp_round_def t(1) by (metis rnd_of_int nonzero_divide_eq_eq power_int_eq_0_iff zero_neq_numeral)
  then show ?thesis
    unfolding x(1) .
qed

lemma fp_mag_finite:
  assumes "b < fp_inf p w" and "2 \<le> w"
  shows "fp_mag p (fp_emin p w) b < 2 powi (fp_bias w + 1)"
proof -
  define E where "E = b div 2 ^ p"
  have "E < 2 ^ w - 1"
    using assms(1) by (simp add: E_def fp_inf_def less_mult_imp_div_less)
  then have "int E + 2 \<le> int (2 ^ w)"
    by linarith
  then have E: "int E \<le> 2 * fp_bias w"
    using pow2_bias[of w] assms(2) by simp
  have "b mod 2 ^ p < 2 ^ p"
    by simp
  then have n: "2 ^ p + b mod 2 ^ p < 2 ^ (p + 1)" "b mod 2 ^ p < 2 ^ (p + 1)"
    unfolding power_add power_one_right by linarith+
  have b: "1 \<le> fp_bias w"
    using assms(2) self_le_power[of "2::int" "w - 1"] by (simp add: fp_bias_def)
  show ?thesis
  proof (cases "E = 0")
    case True
    have "real (b mod 2 ^ p) * 2 powi fp_emin p w < 2 powi (int (p + 1) + fp_emin p w)"
      by (rule scaled_pow2_bounds(2)[OF n(2)])
    also have "\<dots> \<le> 2 powi (fp_bias w + 1)"
      using b by (intro power_int_increasing) (simp_all add: fp_emin_def)
    finally show ?thesis
      using True by (simp add: fp_mag_def E_def)
  next
    case False
    have "real (2 ^ p + b mod 2 ^ p) * 2 powi (fp_emin p w + int E - 1) <
        2 powi (int (p + 1) + (fp_emin p w + int E - 1))"
      by (rule scaled_pow2_bounds(2)[OF n(1)])
    also have "\<dots> \<le> 2 powi (fp_bias w + 1)"
      using E by (intro power_int_increasing) (simp_all add: fp_emin_def)
    finally show ?thesis
      using False by (simp add: fp_mag_def E_def)
  qed
qed

text \<open>A representable result is returned as it is, without flags.\<close>

lemma fp_rounds_to_exact:
  assumes "b < fp_inf p w" and "2 \<le> w" and "x = fp_mag p (fp_emin p w) b"
  shows "fp_rounds_to p w s neg x (of_bool neg * 2 ^ (p + w) + b) s"
proof -
  have "fp_inf p w < 2 ^ (p + w)"
    by (simp add: fp_inf_def power_add algebra_simps)
  then have "b < 2 ^ (p + w)"
    using assms(1) by simp
  then have "(of_bool neg * 2 ^ (p + w) + b) div 2 ^ (p + w) = of_bool neg"
      "(of_bool neg * 2 ^ (p + w) + b) mod 2 ^ (p + w) = b"
    by simp_all
  moreover have "\<not> fp_overflows p w m neg x" "\<not> fp_inexact p w m neg x" "fp_is_round p w m neg x b" for m
    using fp_mag_finite[OF assms(1,2)] assms(1) unfolding assms(3)
    by (auto simp: fp_is_round_def fp_round_fp_mag fp_overflows_def fp_inexact_def)
  ultimately show ?thesis
    by (simp add: fp_rounds_to_def fp_flags_def)
qed

section \<open>Patterns are ordered like magnitudes\<close>

lemma fp_mag_Suc: "fp_mag p emin b < fp_mag p emin (Suc b)"
proof -
  obtain e n where n: "b = e * 2 ^ p + n" "e = 0 \<or> 2 ^ p \<le> n" "n < 2 ^ Suc p"
  proof (cases "b div 2 ^ p")
    case 0
    then have "b < 2 ^ p"
      by (simp add: div_eq_0_iff)
    then show ?thesis
      by (intro that[of 0 b]) simp_all
  next
    case (Suc e)
    have "b mod 2 ^ p < 2 ^ p"
      by simp
    moreover have "b = e * 2 ^ p + (2 ^ p + b mod 2 ^ p)"
      using div_mult_mod_eq[of b "2 ^ p"] unfolding Suc by simp
    ultimately show ?thesis
      by (intro that[of e "2 ^ p + b mod 2 ^ p"]) simp_all
  qed
  have "fp_mag p emin b = of_nat n * 2 powi (emin + int e)"
    using fp_mag_pack[of e p n emin] n by simp
  moreover have "fp_mag p emin (Suc b) = of_nat (Suc n) * 2 powi (emin + int e)"
    using fp_mag_pack[of e p "Suc n" emin] n by auto
  ultimately show ?thesis
    by simp
qed

lemma fp_mag_less_iff: "fp_mag p emin a < fp_mag p emin b \<longleftrightarrow> a < b"
  using lift_Suc_mono_less[of "fp_mag p emin", OF fp_mag_Suc] by (metis less_asym not_less_iff_gr_or_eq)

lemma fp_mag_eq_iff: "fp_mag p emin a = fp_mag p emin b \<longleftrightarrow> a = b"
  using fp_mag_less_iff[of p emin a b] fp_mag_less_iff[of p emin b a] by linarith

lemma fp_magn_less_iff: "fp_magn p w a < fp_magn p w b \<longleftrightarrow> fp_abs p w a < fp_abs p w b"
  by (simp add: fp_magn_def fp_mag_less_iff)

lemma fp_magn_eq_iff: "fp_magn p w a = fp_magn p w b \<longleftrightarrow> fp_abs p w a = fp_abs p w b"
  by (simp add: fp_magn_def fp_mag_eq_iff)

text \<open>A correctly rounded result is unique, so the specifications determine the routines.\<close>

lemma fp_rounds_to_unique:
  assumes "fp_rounds_to p w s neg x r s'" and "fp_rounds_to p w s neg x q t"
  shows "r = q" and "s' = t"
proof -
  have "b = c" if "fp_is_round p w m neg x b" "fp_is_round p w m neg x c" for m b c
    using that fp_mag_eq_iff[of p "fp_emin p w" b c] by (auto simp: fp_is_round_def Let_def split: if_splits)
  then have "r mod 2 ^ (p + w) = q mod 2 ^ (p + w)" "r div 2 ^ (p + w) = q div 2 ^ (p + w)"
    using assms unfolding fp_rounds_to_def Let_def by metis+
  then show "r = q"
    by (metis div_mult_mod_eq)
  show "s' = t"
    using assms by (simp add: fp_rounds_to_def Let_def)
qed

end
