(* ===== verification/IEEE_Spec.thy ===== *)
theory IEEE_Spec
  imports SF_Value
begin

text \<open>
  What IEEE 754 (with the NaN conventions of RISC-V) asks of the operations, for a format of
  \<open>p\<close> fraction and \<open>w\<close> exponent bits: relations between the operands, the state before, the
  result and the state after. Nothing here mentions how an operation is computed.
\<close>

section \<open>Shared parts\<close>

definition fp_zero :: "nat \<Rightarrow> nat \<Rightarrow> nat \<Rightarrow> bool" where
  "fp_zero p w b \<longleftrightarrow> fp_abs p w b = 0"

text \<open>The canonical NaN, and an infinity and a zero of a given sign.\<close>

definition fp_qnan :: "nat \<Rightarrow> nat \<Rightarrow> nat" where
  "fp_qnan p w = fp_inf p w + 2 ^ (p - 1)"

definition fp_signed :: "nat \<Rightarrow> nat \<Rightarrow> bool \<Rightarrow> nat \<Rightarrow> nat" where
  "fp_signed p w neg m = of_bool neg * 2 ^ (p + w) + m"

definition raise_if :: "bool \<Rightarrow> uint_fast8 \<Rightarrow> softfloat_state \<Rightarrow> softfloat_state" where
  "raise_if c f s = (if c then softfloat_raiseFlags f s else s)"

text \<open>A NaN operand gives the canonical NaN, and a signaling one the invalid flag.\<close>

definition nan_result :: "nat \<Rightarrow> nat \<Rightarrow> softfloat_state \<Rightarrow> nat list \<Rightarrow> nat \<Rightarrow> softfloat_state \<Rightarrow> bool" where
  "nan_result p w s ops r s' \<longleftrightarrow>
     r = fp_qnan p w \<and> s' = raise_if (list_ex (fp_snan p w) ops) softfloat_flag_invalid s"

definition invalid_result :: "nat \<Rightarrow> nat \<Rightarrow> softfloat_state \<Rightarrow> nat \<Rightarrow> softfloat_state \<Rightarrow> bool" where
  "invalid_result p w s r s' \<longleftrightarrow>
     r = fp_qnan p w \<and> s' = softfloat_raiseFlags softfloat_flag_invalid s"

section \<open>Multiplication\<close>

definition mul_spec ::
  "nat \<Rightarrow> nat \<Rightarrow> softfloat_state \<Rightarrow> nat \<Rightarrow> nat \<Rightarrow> nat \<Rightarrow> softfloat_state \<Rightarrow> bool" where
  "mul_spec p w s a b r s' \<longleftrightarrow>
     (let neg = (fp_sign p w a \<noteq> fp_sign p w b)
      in if fp_nan p w a \<or> fp_nan p w b then nan_result p w s [a, b] r s'
         else if fp_infinite p w a \<or> fp_infinite p w b
         then (if fp_zero p w a \<or> fp_zero p w b then invalid_result p w s r s'
               else r = fp_signed p w neg (fp_inf p w) \<and> s' = s)
         else fp_rounds_to p w s neg (fp_magn p w a * fp_magn p w b) r s')"

section \<open>Addition\<close>

text \<open>
  \<open>negB\<close> is the sign the second operand counts with: its own for a sum, the opposite for a
  difference. An exact zero has the common sign of the addends, and otherwise is negative
  only when rounding down.
\<close>

definition add_spec ::
  "nat \<Rightarrow> nat \<Rightarrow> softfloat_state \<Rightarrow> nat \<Rightarrow> bool \<Rightarrow> nat \<Rightarrow> nat \<Rightarrow> softfloat_state \<Rightarrow> bool" where
  "add_spec p w s a negB b r s' \<longleftrightarrow>
     (let v = fp_value p w a + (if negB then - fp_magn p w b else fp_magn p w b);
          down = (round_mode (softfloat_roundingMode s) = RDN)
      in if fp_nan p w a \<or> fp_nan p w b then nan_result p w s [a, b] r s'
         else if fp_infinite p w a \<and> fp_infinite p w b \<and> fp_sign p w a \<noteq> negB
         then invalid_result p w s r s'
         else if fp_infinite p w a then r = fp_signed p w (fp_sign p w a) (fp_inf p w) \<and> s' = s
         else if fp_infinite p w b then r = fp_signed p w negB (fp_inf p w) \<and> s' = s
         else fp_rounds_to p w s
                (if v = 0 then (if fp_sign p w a = negB then negB else down) else v < 0) \<bar>v\<bar> r s')"

section \<open>Signaling NaNs of the three formats\<close>

lemma fp_snan_top:
  assumes "0 < p"
  shows "fp_snan p w b \<longleftrightarrow> b div 2 ^ (p - 1) mod 2 ^ (w + 1) = 2 * (2 ^ w - 1) \<and> b mod 2 ^ (p - 1) \<noteq> 0"
proof -
  define h where "h = (2::nat) ^ (p - 1)"
  have p: "2 ^ p = h * 2"
    using assms by (simp add: h_def flip: power_Suc2)
  define t where "t = b div h mod 2"
  have e: "b div h mod 2 ^ (w + 1) = t + 2 * fp_exp p w b"
    unfolding t_def fp_exp_def p div_mult2_eq by (simp add: mod_mult2_eq)
  have f: "fp_frac p b = h * t + b mod h"
    unfolding t_def fp_frac_def p by (simp add: mod_mult2_eq)
  have t: "t = 0 \<or> t = 1"
    unfolding t_def by (simp add: mod_2_eq_odd)
  have h: "b mod h < h" "0 < h"
    by (simp_all add: h_def)
  have "fp_snan p w b \<longleftrightarrow> fp_exp p w b = 2 ^ w - 1 \<and> t = 0 \<and> b mod h \<noteq> 0"
    using t h unfolding fp_snan_def fp_class_fields fp_frac_def[symmetric] f h_def[symmetric] by auto
  moreover have "t + 2 * x = 2 * y \<longleftrightarrow> x = y \<and> t = 0" for x y :: nat
    using t by presburger
  ultimately have "fp_snan p w b \<longleftrightarrow> t + 2 * fp_exp p w b = 2 * (2 ^ w - 1) \<and> b mod h \<noteq> 0"
    by simp
  then show ?thesis
    unfolding e[symmetric] h_def .
qed

lemma and_shifted_mask_eq:
  fixes x c :: "'a::len word"
  assumes "c = push_bit n c'" and "m + n \<le> LENGTH('a)" and "unat c' < 2 ^ m"
  shows "x AND push_bit n (mask m) = c \<longleftrightarrow> unat x div 2 ^ n mod 2 ^ m = unat c'"
proof -
  have "unat c' * 2 ^ n < 2 ^ (m + n)"
    using assms(3) by (simp add: power_add)
  also have "\<dots> \<le> 2 ^ LENGTH('a)"
    using assms(2) by (intro power_increasing) simp_all
  finally have c: "unat c = unat c' * 2 ^ n"
    unfolding assms(1) by (rule unat_push_bit_mult)
  have t: "unat (take_bit m (drop_bit n x)) = unat x div 2 ^ n mod 2 ^ m"
    by (simp add: unat_take_bit_mod unat_drop_bit_div)
  have "unat x div 2 ^ n mod 2 ^ m * 2 ^ n < 2 ^ (m + n)"
    by (simp add: power_add)
  also have "\<dots> \<le> 2 ^ LENGTH('a)"
    using assms(2) by (intro power_increasing) simp_all
  finally have "unat (x AND push_bit n (mask m)) = unat x div 2 ^ n mod 2 ^ m * 2 ^ n"
    unfolding and_shifted_mask by (subst unat_push_bit_mult) (simp_all add: t)
  then show ?thesis
    by (simp add: word_unat_eq_iff c)
qed

lemma isSigNaNF16UI_snan: "softfloat_isSigNaNF16UI (to_u64 a) \<longleftrightarrow> fp_snan 10 5 (unat a)"
  for a :: float16
  using and_shifted_mask_eq[of "0x7C00" 9 "0x3E" 6 "to_u64 a"] unat_and_mask[of "to_u64 a" 9]
  by (simp add: softfloat_isSigNaNF16UI_def fp_snan_top mask_numeral unat_ucast_widen
      word_eq_0_unat)

lemma isSigNaNF32UI_snan: "softfloat_isSigNaNF32UI (to_u64 a) \<longleftrightarrow> fp_snan 23 8 (unat a)"
  for a :: float32
  using and_shifted_mask_eq[of "0x7F800000" 22 "0x1FE" 9 "to_u64 a"] unat_and_mask[of "to_u64 a" 22]
  by (simp add: softfloat_isSigNaNF32UI_def fp_snan_top mask_numeral unat_ucast_widen
      word_eq_0_unat)

lemma isSigNaNF64UI_snan: "softfloat_isSigNaNF64UI a \<longleftrightarrow> fp_snan 52 11 (unat a)"
  for a :: float64
  using and_shifted_mask_eq[of "0x7FF0000000000000" 51 "0xFFE" 12 a] unat_and_mask[of a 51]
  by (simp add: softfloat_isSigNaNF64UI_def fp_snan_top mask_numeral word_eq_0_unat)

section \<open>Patterns the routines build\<close>

lemma pack_zeroF16: "unat (to_u16 (packToF16UI sign 0 0)) = of_bool sign * 2 ^ (10 + 5)"
  by (simp add: unat_packToF16UI)

lemma pack_zeroF32: "unat (to_u32 (packToF32UI sign 0 0)) = of_bool sign * 2 ^ (23 + 8)"
  by (simp add: unat_packToF32UI)

lemma pack_zeroF64: "unat (packToF64UI sign 0 0) = of_bool sign * 2 ^ (52 + 11)"
  by (simp add: unat_packToF64UI)

lemma fp_not_finite: "\<not> fp_finite p w b \<longleftrightarrow> fp_exp p w b = 2 ^ w - 1"
  by (simp add: fp_class_fields)

lemma fp_zero_fields: "fp_zero p w b \<longleftrightarrow> fp_exp p w b = 0 \<and> fp_frac p b = 0"
  by (simp add: fp_zero_def fp_abs_fields)

text \<open>The exponent and fraction fields or-ed together vanish only for a zero.\<close>

lemma mag_bits_0:
  fixes z :: uint64
  assumes "unat z = fp_frac p b" and "w \<le> 63"
  shows "word_of_int (int (fp_exp p w b)) OR z = 0 \<longleftrightarrow> fp_zero p w b"
proof -
  have "int (fp_exp p w b) < 2 ^ w"
    using fp_exp_less[of p w b] by (metis of_nat_less_iff of_nat_numeral of_nat_power)
  also have "(2::int) ^ w < 2 ^ 64"
    using assms(2) by (intro power_strict_increasing) simp_all
  finally have "int (fp_exp p w b) < 2 ^ 64" .
  then have "unat (word_of_int (int (fp_exp p w b)) :: uint64) = fp_exp p w b"
    by (subst unat_word_of_int) simp_all
  then show ?thesis
    unfolding or_eq_0_iff fp_zero_fields using assms(1) by (simp only: word_eq_0_unat)
qed

lemma fp_qnan_values:
  "fp_qnan 10 5 = 0x7E00" "fp_qnan 23 8 = 0x7FC00000" "fp_qnan 52 11 = 0x7FF8000000000000"
  by (simp_all add: fp_qnan_def fp_inf_def)

lemma mag_bitsF16: "word_of_int (expF16UI (to_u64 a)) OR fracF16UI (to_u64 a) = 0 \<longleftrightarrow> fp_zero 10 5 (unat a)"
  for a :: float16
  unfolding F16_fields(2) by (rule mag_bits_0[OF F16_fields(3)]) simp

lemma mag_bitsF32: "word_of_int (expF32UI (to_u64 a)) OR fracF32UI (to_u64 a) = 0 \<longleftrightarrow> fp_zero 23 8 (unat a)"
  for a :: float32
  unfolding F32_fields(2) by (rule mag_bits_0[OF F32_fields(3)]) simp

lemma mag_bitsF64: "word_of_int (expF64UI a) OR fracF64UI a = 0 \<longleftrightarrow> fp_zero 52 11 (unat a)"
  for a :: float64
  unfolding F64_fields(2) by (rule mag_bits_0[OF F64_fields(3)]) simp

lemma pack_infF16: "unat (to_u16 (packToF16UI sign 0x1F 0)) = fp_signed 10 5 sign (fp_inf 10 5)"
  by (cases sign) (simp_all add: packToF16UI_def fp_signed_def fp_inf_def)

lemma pack_infF32: "unat (to_u32 (packToF32UI sign 0xFF 0)) = fp_signed 23 8 sign (fp_inf 23 8)"
  by (cases sign) (simp_all add: packToF32UI_def fp_signed_def fp_inf_def)

lemma pack_infF64: "unat (packToF64UI sign 0x7FF 0) = fp_signed 52 11 sign (fp_inf 52 11)"
  by (cases sign) (simp_all add: packToF64UI_def fp_signed_def fp_inf_def)

lemma unat_infinite:
  assumes "b < 2 ^ (p + w + 1)" and "fp_infinite p w b"
  shows "b = fp_signed p w (fp_sign p w b) (fp_inf p w)"
  using fp_decomp[OF assms(1)] assms(2) by (simp add: fp_signed_def fp_infinite_def fp_abs_fields)

end
