(* ===== verification/SF_AddCore.thy ===== *)
theory SF_AddCore
  imports IEEE_Spec
begin

text \<open>
  The arithmetic behind sums and differences of magnitudes, independent of the word size: how
  the operands are aligned, when a difference is exact, and which real number the significand
  handed to the rounding routine stands for.
\<close>

section \<open>Aligned operands\<close>

text \<open>
  The significand of an operand with its implicit bit (\<open>arg_sig\<close>), and the significand the
  routines align by the difference of the exponent fields, doubled for a subnormal operand
  (\<open>far_sig\<close>).
\<close>

definition arg_sig :: "nat \<Rightarrow> nat \<Rightarrow> nat \<Rightarrow> nat" where
  "arg_sig p w b = (if fp_exp p w b = 0 then fp_frac p b else 2 ^ p + fp_frac p b)"

definition far_sig :: "nat \<Rightarrow> nat \<Rightarrow> nat \<Rightarrow> nat" where
  "far_sig p w b = (if fp_exp p w b = 0 then 2 * fp_frac p b else 2 ^ p + fp_frac p b)"

lemma arg_sig_bounds:
  "arg_sig p w b < 2 ^ (p + 1)" "far_sig p w b < 2 ^ (p + 1)"
  "fp_exp p w b \<noteq> 0 \<Longrightarrow> 2 ^ p \<le> arg_sig p w b"
  using fp_frac_less[of p b] by (auto simp: arg_sig_def far_sig_def)

lemma fp_magn_arg:
  "fp_magn p w b = of_nat (arg_sig p w b) * 2 powi (fp_emin p w + int (max 1 (fp_exp p w b)) - 1)"
  by (simp add: fp_magn_fields arg_sig_def max_def)

lemma fp_magn_far:
  "fp_magn p w b = of_nat (far_sig p w b) * 2 powi (fp_emin p w + int (fp_exp p w b) - 1)"
proof (cases "fp_exp p w b = 0")
  case True
  have "(2::real) powi fp_emin p w = 2 powi (1 + (fp_emin p w - 1))"
    by simp
  also have "\<dots> = 2 * 2 powi (fp_emin p w - 1)"
    by (simp only: powi_plus power_int_1_right)
  finally show ?thesis
    using True by (simp add: fp_magn_fields far_sig_def)
qed (simp add: fp_magn_fields far_sig_def)

text \<open>
  The larger operand \<open>a\<close> and the aligned smaller one \<open>b\<close>, both shifted left by \<open>j\<close> bits, in
  units of the exponent of \<open>a\<close>.
\<close>

lemma fp_magn_aligned:
  assumes "fp_exp p w b < fp_exp p w a" and "d = fp_exp p w a - fp_exp p w b"
  shows "fp_magn p w a = of_nat (arg_sig p w a * 2 ^ j) * 2 powi (fp_emin p w + int (fp_exp p w a) - 1 - int j)"
    and "fp_magn p w b = of_nat (far_sig p w b * 2 ^ j) / 2 ^ d * 2 powi (fp_emin p w + int (fp_exp p w a) - 1 - int j)"
proof -
  define u where "u = fp_emin p w + int (fp_exp p w a) - 1 - int j"
  have "(2::real) powi (fp_emin p w + int (fp_exp p w a) - 1) = 2 powi (int j + u)"
    by (rule arg_cong) (simp add: u_def)
  also have "\<dots> = 2 ^ j * 2 powi u"
    by (simp only: powi_plus power_int_of_nat)
  finally show "fp_magn p w a = of_nat (arg_sig p w a * 2 ^ j) * 2 powi u"
    using assms(1) by (simp add: fp_magn_arg max_def)
  have e: "int d + (fp_emin p w + int (fp_exp p w b) - 1) = int j + u"
    using assms by (simp add: u_def of_nat_diff)
  have "(2::real) ^ d * 2 powi (fp_emin p w + int (fp_exp p w b) - 1) = 2 ^ j * 2 powi u"
    using arg_cong[OF e, of "\<lambda>z. (2::real) powi z"] by (simp only: powi_plus power_int_of_nat)
  then have "2 powi (fp_emin p w + int (fp_exp p w b) - 1) = 2 ^ j * 2 powi u / (2::real) ^ d"
    by (simp add: field_simps)
  then show "fp_magn p w b = of_nat (far_sig p w b * 2 ^ j) / 2 ^ d * 2 powi u"
    by (simp add: fp_magn_far)
qed

section \<open>Equal exponents\<close>

text \<open>Sums that are representable, and differences, which always are.\<close>

lemma fp_pack_exact:
  assumes "e = 0 \<or> 2 ^ p \<le> n" and "n < 2 ^ (p + 1)" and "e + 2 < 2 ^ w" and "2 \<le> w"
    and "x = of_nat n * 2 powi (fp_emin p w + int e)"
  shows "fp_rounds_to p w s neg x (of_bool neg * 2 ^ (p + w) + (e * 2 ^ p + n)) s"
proof (rule fp_rounds_to_exact[OF _ assms(4)])
  have "e + 2 \<le> 2 ^ w - 1"
    using assms(3) by simp
  then have "(e + 2) * 2 ^ p \<le> (2 ^ w - 1) * 2 ^ p"
    by (rule mult_le_mono1)
  then show "e * 2 ^ p + n < fp_inf p w"
    using assms(2) unfolding fp_inf_def power_add power_one_right distrib_right by linarith
  show "x = fp_mag p (fp_emin p w) (e * 2 ^ p + n)"
    using fp_mag_pack[OF assms(1), of "fp_emin p w"] assms(2) by (simp add: assms(5))
qed

lemma sub_near_exact:
  assumes D: "0 < D" "D < 2 ^ p" and sh: "2 ^ p \<le> D * 2 ^ sh" "D * 2 ^ sh < 2 ^ (p + 1)"
    and e: "e0 + 2 < 2 ^ w" and w: "2 \<le> w"
    and z: "(sh', ez) = (if int e0 - int sh < 0 then (int e0, 0) else (int sh, int e0 - int sh))"
  shows "fp_rounds_to p w s neg (of_nat D * 2 powi (fp_emin p w + int e0))
    (of_bool neg * 2 ^ (p + w) + (nat ez * 2 ^ p + D * 2 ^ nat sh')) s"
    and "nat ez * 2 ^ p + D * 2 ^ nat sh' < 2 ^ (p + w)"
proof -
  define d where "d = min sh e0"
  have n: "D * 2 ^ d < 2 ^ (p + 1)" "e0 - d = 0 \<or> 2 ^ p \<le> D * 2 ^ d"
  proof -
    have "D * 2 ^ d \<le> D * 2 ^ sh"
      by (intro mult_le_mono2 power_increasing) (simp_all add: d_def)
    with sh(2) show "D * 2 ^ d < 2 ^ (p + 1)"
      by (rule le_less_trans[rotated])
    show "e0 - d = 0 \<or> 2 ^ p \<le> D * 2 ^ d"
      using sh(1) by (cases "sh \<le> e0") (simp_all add: d_def)
  qed
  have z': "nat ez = e0 - d" "nat sh' = d"
    using z by (simp_all add: d_def min_def split: if_splits)
  have "(2::real) powi (fp_emin p w + int e0) = 2 powi (int d + (fp_emin p w + int (e0 - d)))"
    by (simp add: d_def of_nat_diff)
  also have "\<dots> = 2 ^ d * 2 powi (fp_emin p w + int (e0 - d))"
    by (simp only: powi_plus power_int_of_nat)
  finally have x: "real D * 2 powi (fp_emin p w + int e0) = of_nat (D * 2 ^ d) * 2 powi (fp_emin p w + int (e0 - d))"
    by simp
  show r: "fp_rounds_to p w s neg (of_nat D * 2 powi (fp_emin p w + int e0))
      (of_bool neg * 2 ^ (p + w) + (nat ez * 2 ^ p + D * 2 ^ nat sh')) s"
    unfolding z' by (rule fp_pack_exact[OF n(2,1) _ w x]) (use e in simp)
  have "(e0 - d + 2) * 2 ^ p \<le> 2 ^ w * 2 ^ p"
    using e by (intro mult_le_mono1) simp
  then show "nat ez * 2 ^ p + D * 2 ^ nat sh' < 2 ^ (p + w)"
    using n(1) unfolding z' power_add power_one_right distrib_right by (simp add: mult.commute)
qed

lemma add_near_sum:
  assumes "fp_exp p w a = fp_exp p w b" and "fp_exp p w a \<noteq> 0" and "n = arg_sig p w a + arg_sig p w b"
  shows "fp_magn p w a + fp_magn p w b = real n * 2 powi (fp_emin p w + int (fp_exp p w a) - 1)"
    and "2 ^ (p + 1) \<le> n" and "n < 2 ^ (p + 2)"
proof -
  show "fp_magn p w a + fp_magn p w b = real n * 2 powi (fp_emin p w + int (fp_exp p w a) - 1)"
    using assms by (simp add: fp_magn_arg max_def algebra_simps)
  show "2 ^ (p + 1) \<le> n" "n < 2 ^ (p + 2)"
    using arg_sig_bounds(1,3)[of p w a] arg_sig_bounds(1,3)[of p w b] assms by (simp_all add: power_add)
qed

lemma add_near_exact:
  assumes "fp_exp p w a = fp_exp p w b" and "fp_exp p w a \<noteq> 0" and "n = arg_sig p w a + arg_sig p w b"
    and "even n" and "fp_exp p w a + 2 < 2 ^ w" and "2 \<le> w"
  shows "fp_rounds_to p w s neg (fp_magn p w a + fp_magn p w b)
    (of_bool neg * 2 ^ (p + w) + (fp_exp p w a * 2 ^ p + n div 2)) s"
proof (rule fp_pack_exact[OF _ _ assms(5,6)])
  note n = add_near_sum[OF assms(1-3)]
  show "fp_exp p w a = 0 \<or> 2 ^ p \<le> n div 2" "n div 2 < 2 ^ (p + 1)"
    using n(2,3) by (simp_all add: power_add less_mult_imp_div_less less_eq_div_iff_mult_less_eq mult.commute)
  have "(2::real) powi (fp_emin p w + int (fp_exp p w a)) = 2 powi (1 + (fp_emin p w + int (fp_exp p w a) - 1))"
    by (rule arg_cong) simp
  also have "\<dots> = 2 * 2 powi (fp_emin p w + int (fp_exp p w a) - 1)"
    by (simp only: powi_plus power_int_1_right)
  finally show "fp_magn p w a + fp_magn p w b = real (n div 2) * 2 powi (fp_emin p w + int (fp_exp p w a))"
    using n(1) assms(4) by (simp add: real_of_nat_div)
qed

lemma sub_near_diff:
  assumes "fp_exp p w a = fp_exp p w b"
  shows "fp_magn p w a - fp_magn p w b =
    (real (fp_frac p a) - real (fp_frac p b)) * 2 powi (fp_emin p w + int (fp_exp p w a - 1))"
  using assms by (cases "fp_exp p w a = 0") (simp_all add: fp_magn_fields of_nat_diff algebra_simps)

section \<open>Different exponents\<close>

context round_pack
begin

lemma add_near_rounds:
  assumes "fp_exp p w a = fp_exp p w b" and "fp_exp p w a \<noteq> 0" and "n = arg_sig p w a + arg_sig p w b"
    and k: "2 \<le> k" and w: "2 \<le> w" and sig: "unat sig = n * 2 ^ (k - 1)"
    and e: "int (fp_exp p w a) \<in> exp_range" and r: "roundPack neg (int (fp_exp p w a)) sig s = (r, s')"
  shows "fp_rounds_to p w s neg (fp_magn p w a + fp_magn p w b) (unat r) s'"
proof -
  note n = add_near_sum[OF assms(1-3)]
  have "2 ^ (p + 1) * 2 ^ (k - 1) \<le> n * 2 ^ (k - 1)" "n * 2 ^ (k - 1) < 2 ^ (p + 2) * 2 ^ (k - 1)"
    using n(2,3) by simp_all
  moreover have "p + 1 + (k - 1) = p + k" "p + 2 + (k - 1) = p + k + 1"
    using k by simp_all
  ultimately have i: "rp_input p w k (unat sig)"
    using k w unfolding rp_input_def sig by (simp only: power_add[symmetric])
  have z: "fp_emin p w + (int (fp_exp p w a) + int (k - 1)) - int k = fp_emin p w + int (fp_exp p w a) - 1"
    using k by (simp add: of_nat_diff)
  have "rp_val p w k (int (fp_exp p w a)) (unat sig) = rp_val p w k (int (fp_exp p w a) + int (k - 1)) n"
    using rp_val_shift[of p w k "int (fp_exp p w a) + int (k - 1)" "k - 1" n]
    by (simp only: sig add_diff_cancel_right')
  also have "\<dots> = fp_magn p w a + fp_magn p w b"
    by (simp only: rp_val_def z n(1))
  finally have "rp_val p w k (int (fp_exp p w a)) (unat sig) = fp_magn p w a + fp_magn p w b" .
  then show ?thesis
    using rounds[OF i e r] by simp
qed

lemma add_far_rounds:
  assumes ab: "fp_exp p w b < fp_exp p w a" "fp_finite p w a" and d: "d = fp_exp p w a - fp_exp p w b"
    and k: "3 \<le> k" and w: "2 \<le> w" and len: "p + k + 1 \<le> 64"
    and y: "y = of_nat (arg_sig p w a * 2 ^ (k - 1)) + of_nat (far_sig p w b * 2 ^ (k - 1)) / 2 ^ d"
  shows "2 ^ (p + k - 1) \<le> y" and "y < 2 ^ (p + k + 1)"
    and "fp_magn p w a + fp_magn p w b = y * 2 powi (fp_emin p w + int (fp_exp p w a) - int k)"
proof -
  have e: "fp_emin p w + int (fp_exp p w a) - 1 - int (k - 1) = fp_emin p w + int (fp_exp p w a) - int k"
    using k by (simp add: of_nat_diff)
  show "fp_magn p w a + fp_magn p w b = y * 2 powi (fp_emin p w + int (fp_exp p w a) - int k)"
    unfolding fp_magn_aligned[OF ab(1) d, of "k - 1"] e y by (simp add: algebra_simps)
  have a: "2 ^ p \<le> arg_sig p w a" "arg_sig p w a < 2 ^ (p + 1)"
    using arg_sig_bounds[of p w a] ab(1) by simp_all
  have kk: "p + k - 1 = p + (k - 1)" "p + k + 1 = (p + 1) + 1 + (k - 1)"
    using k by simp_all
  have "real (2 ^ p * 2 ^ (k - 1)) \<le> of_nat (arg_sig p w a * 2 ^ (k - 1))"
    using a(1) by (intro of_nat_mono mult_le_mono1)
  then show "2 ^ (p + k - 1) \<le> y"
    unfolding y kk(1) power_add by (simp add: add_increasing2)
  have "real (far_sig p w b * 2 ^ (k - 1)) * 1 \<le> real (far_sig p w b * 2 ^ (k - 1)) * 2 ^ d"
    by (intro mult_left_mono) simp_all
  then have "of_nat (far_sig p w b * 2 ^ (k - 1)) / 2 ^ d \<le> real (far_sig p w b * 2 ^ (k - 1))"
    by (simp add: divide_le_eq)
  then have "y \<le> real ((arg_sig p w a + far_sig p w b) * 2 ^ (k - 1))"
    by (simp add: y algebra_simps)
  also have "\<dots> < real (2 ^ (p + 1) * 2 * 2 ^ (k - 1))"
    using a(2) arg_sig_bounds(2)[of p w b] by (simp only: of_nat_less_iff) simp
  finally show "y < 2 ^ (p + k + 1)"
    unfolding kk(2) power_add by simp
qed

end

lemma sub_far_diff:
  assumes ab: "fp_exp p w b < fp_exp p w a" and d: "d = fp_exp p w a - fp_exp p w b"
    and A: "A = arg_sig p w a * 2 ^ k" and B: "B = far_sig p w b * 2 ^ k" and y: "y = of_nat A - of_nat B / 2 ^ d"
  shows "0 < y" and "y < 2 ^ (p + k + 1)" and "2 ^ (p + k) \<le> real A" and "real A < 2 ^ (p + k + 1)"
    and "real B < 2 ^ (p + k + 1)"
    and "fp_magn p w a - fp_magn p w b = y * 2 powi (fp_emin p w + int (fp_exp p w a) - 1 - int k)"
proof -
  show "fp_magn p w a - fp_magn p w b = y * 2 powi (fp_emin p w + int (fp_exp p w a) - 1 - int k)"
    unfolding fp_magn_aligned[OF ab d, of k] y A B by (simp add: algebra_simps)
  have a: "2 ^ p \<le> arg_sig p w a" "arg_sig p w a < 2 ^ (p + 1)"
    using arg_sig_bounds[of p w a] ab by simp_all
  show A': "2 ^ (p + k) \<le> real A" "real A < 2 ^ (p + k + 1)"
    using of_nat_mono[OF mult_le_mono1[OF a(1), of "2 ^ k"], where 'a = real]
      mult_strict_right_mono[OF a(2), of "2 ^ k"]
    by (simp_all add: A power_add flip: of_nat_less_iff[where 'a = real])
  show B': "real B < 2 ^ (p + k + 1)"
    using mult_strict_right_mono[OF arg_sig_bounds(2)[of p w b], of "2 ^ k"]
    by (simp add: B power_add flip: of_nat_less_iff[where 'a = real])
  have "(2::real) ^ 1 \<le> 2 ^ d"
    using ab d by (intro power_increasing) simp_all
  then have "real B / 2 ^ d \<le> real B / 2"
    by (intro divide_left_mono) simp_all
  also have "\<dots> < 2 ^ (p + k)"
    using B' by simp
  finally have Bd: "real B / 2 ^ d < 2 ^ (p + k)" .
  have "0 \<le> real B / 2 ^ d"
    by simp
  then show "0 < y" "y < 2 ^ (p + k + 1)"
    using A' Bd unfolding y by linarith+
qed

context norm_round_pack
begin

lemma sub_far_rounds:
  assumes ab: "fp_exp p w b < fp_exp p w a" and d: "d = fp_exp p w a - fp_exp p w b"
    and k: "3 \<le> k" and e: "int (fp_exp p w a) - 1 \<in> norm_range"
    and y: "y = of_nat (arg_sig p w a * 2 ^ k) - of_nat (far_sig p w b * 2 ^ k) / 2 ^ d"
    and sig: "unat sig = nat (jam y)"
    and r: "normRoundPack neg (int (fp_exp p w a) - 1) sig s = (r, s')"
  shows "fp_rounds_to p w s neg (fp_magn p w a - fp_magn p w b) (unat r) s'"
proof -
  define u where "u = fp_emin p w + int (fp_exp p w a) - 1 - int k"
  define A where "A = arg_sig p w a * 2 ^ k"
  define B where "B = far_sig p w b * 2 ^ k"
  have yAB: "y = real A - real B / 2 ^ d"
    by (simp add: y A_def B_def)
  note df = sub_far_diff[OF ab d A_def B_def yAB]
  have y0: "0 < y" and yhi: "y < 2 ^ (p + k + 1)" and A: "2 ^ (p + k) \<le> real A" "real A < 2 ^ (p + k + 1)"
    and B: "real B < 2 ^ (p + k + 1)"
    and x: "fp_magn p w a - fp_magn p w b = y * 2 powi u"
    using df by (simp_all only: u_def)
  have ev: "even (int A)"
    using k by (simp add: A_def)
  have j: "jam y = int A - jam (real B / 2 ^ d)"
    using jam_even_minus[OF ev, of "real B / 2 ^ d"] by (simp add: yAB)
  have jhi: "jam y < 2 ^ (p + k + 1)"
  proof -
    have "0 \<le> jam (real B / 2 ^ d)"
      by (simp add: jam_nonneg)
    moreover have "real_of_int (int A) < of_int (2 ^ (p + k + 1))"
      using A(2) by simp
    then have "int A < 2 ^ (p + k + 1)"
      by (simp only: of_int_less_iff)
    ultimately show ?thesis
      unfolding j by linarith
  qed
  have jlo: "0 < jam y"
    using y0 by (rule jam_pos)
  have s1: "0 < unat sig" "unat sig < 2 ^ (p + k + 1)"
    using jlo jhi by (simp_all add: sig nat_less_iff)
  have rv: "rp_val p w k (int (fp_exp p w a) - 1) (unat sig) = of_int (jam y) * 2 powi u"
    using jlo by (simp add: rp_val_def sig u_def algebra_simps)
  have R: "fp_rounds_to p w s neg (of_int (jam y) * 2 powi u) (unat r) s'"
    using norm_rounds[OF s1 e r] unfolding rv .
  show "fp_rounds_to p w s neg (fp_magn p w a - fp_magn p w b) (unat r) s'"
  proof (cases "y = of_int \<lfloor>y\<rfloor>")
    case True
    then have "of_int (jam y) = y"
      by (metis jam_of_int)
    then show ?thesis
      using R by (simp add: x)
  next
    case False
    have "k < d"
    proof (rule ccontr)
      assume "\<not> k < d"
      then have "(2::nat) ^ d dvd 2 ^ k"
        by (intro le_imp_power_dvd) simp
      then obtain q where "B = 2 ^ d * q"
        unfolding B_def by (metis dvd_def dvd_mult)
      then have "y = of_int (int A - int q)"
        by (simp add: yAB)
      with False show False
        by (metis floor_of_int)
    qed
    then have "(2::real) ^ 2 \<le> 2 ^ d"
      using k by (intro power_increasing) simp_all
    then have "real B / 2 ^ d \<le> real B / 4"
      by (intro divide_left_mono) simp_all
    also have "\<dots> < 2 ^ (p + k) / 2"
      using B by simp
    finally have "real B / 2 ^ d < 2 ^ (p + k) / 2" .
    moreover have "(2::real) ^ (p + k) = 2 * 2 ^ (p + k - 1)"
      using k by (simp flip: power_Suc)
    ultimately have lo: "2 ^ (p + k - 1) \<le> y"
      using A(1) unfolding yAB by linarith
    have S: "Suc (p + k - 1) = p + k"
      using k by simp
    consider "y < 2 ^ Suc (p + k - 1)" | "2 ^ (p + k) \<le> y"
      unfolding S by linarith
    then show ?thesis
    proof cases
      case 1
      from fp_rounds_to_jam[OF lo 1, of p w s neg u] R x k show ?thesis
        by simp
    next
      case 2
      have "y < 2 ^ Suc (p + k)"
        using yhi by simp
      from fp_rounds_to_jam[OF 2 this, of p w s neg u] R x k show ?thesis
        by simp
    qed
  qed
qed

end

section \<open>The interface of the magnitude routines\<close>

text \<open>
  What a routine that adds magnitudes owes its caller: the sum with the sign of the first
  operand. A routine that subtracts magnitudes gives the difference, with that sign or its
  opposite.
\<close>

definition add_mags_spec ::
  "nat \<Rightarrow> nat \<Rightarrow> softfloat_state \<Rightarrow> nat \<Rightarrow> nat \<Rightarrow> nat \<Rightarrow> softfloat_state \<Rightarrow> bool" where
  "add_mags_spec p w s a b r s' \<longleftrightarrow>
     (if fp_nan p w a \<or> fp_nan p w b then nan_result p w s [a, b] r s'
      else if fp_infinite p w a \<or> fp_infinite p w b
      then r = fp_signed p w (fp_sign p w a) (fp_inf p w) \<and> s' = s
      else fp_rounds_to p w s (fp_sign p w a) (fp_magn p w a + fp_magn p w b) r s')"

definition sub_mags_spec ::
  "nat \<Rightarrow> nat \<Rightarrow> softfloat_state \<Rightarrow> nat \<Rightarrow> nat \<Rightarrow> nat \<Rightarrow> softfloat_state \<Rightarrow> bool" where
  "sub_mags_spec p w s a b r s' \<longleftrightarrow>
     (let d = fp_magn p w a - fp_magn p w b
      in if fp_nan p w a \<or> fp_nan p w b then nan_result p w s [a, b] r s'
         else if fp_infinite p w a \<and> fp_infinite p w b then invalid_result p w s r s'
         else if fp_infinite p w a then r = fp_signed p w (fp_sign p w a) (fp_inf p w) \<and> s' = s
         else if fp_infinite p w b then r = fp_signed p w (\<not> fp_sign p w a) (fp_inf p w) \<and> s' = s
         else fp_rounds_to p w s
                (if d = 0 then round_mode (softfloat_roundingMode s) = RDN
                 else if 0 < d then fp_sign p w a else \<not> fp_sign p w a) \<bar>d\<bar> r s')"

locale mags =
  fixes p w :: nat and valid :: "softfloat_state \<Rightarrow> bool"
    and addMags subMags :: "'r::len word \<Rightarrow> 'r word \<Rightarrow> softfloat_state \<Rightarrow> 'r word \<times> softfloat_state"
  assumes add: "valid s \<Longrightarrow>
      add_mags_spec p w s (unat a) (unat b) (unat (fst (addMags a b s))) (snd (addMags a b s))"
    and sub: "valid s \<Longrightarrow>
      sub_mags_spec p w s (unat a) (unat b) (unat (fst (subMags a b s))) (snd (subMags a b s))"
begin

lemma same_sign:
  assumes "valid s" and "fp_sign p w (unat a) = negB"
  shows "add_spec p w s (unat a) negB (unat b) (unat (fst (addMags a b s))) (snd (addMags a b s))"
proof -
  define x y where "x = fp_magn p w (unat a)" and "y = fp_magn p w (unat b)"
  define v where "v = fp_value p w (unat a) + (if negB then - y else y)"
  have xy: "0 \<le> x" "0 \<le> y"
    by (simp_all add: x_def y_def fp_magn_nonneg)
  have "v = (if negB then - (x + y) else x + y)"
    using assms(2) by (simp add: v_def fp_value_def x_def)
  then have "\<bar>v\<bar> = x + y" "(if v = 0 then (if fp_sign p w (unat a) = negB then negB else dn) else v < 0) = negB" for dn
    using xy assms(2) by auto
  then show ?thesis
    using add[OF assms(1), of a b] assms(2)
    unfolding add_spec_def add_mags_spec_def Let_def y_def[symmetric] v_def[symmetric] x_def[symmetric]
    by auto
qed

lemma opposite_sign:
  assumes "valid s" and "fp_sign p w (unat a) \<noteq> negB"
  shows "add_spec p w s (unat a) negB (unat b) (unat (fst (subMags a b s))) (snd (subMags a b s))"
proof -
  define x y where "x = fp_magn p w (unat a)" and "y = fp_magn p w (unat b)"
  have "\<bar>y - x\<bar> = \<bar>x - y\<bar>" "- x + y = y - x" "y - x = 0 \<longleftrightarrow> x - y = 0" "y - x < 0 \<longleftrightarrow> 0 < x - y"
      "x + - y = x - y" "x - y < 0 \<longleftrightarrow> \<not> 0 < x - y \<and> x - y \<noteq> 0"
    by linarith+
  then show ?thesis
    using sub[OF assms(1), of a b] assms(2)
    unfolding add_spec_def sub_mags_spec_def fp_value_def Let_def x_def[symmetric] y_def[symmetric]
    by (auto split: if_splits)
qed

end

end
