(* ===== verification/SF_ToInt.thy ===== *)
theory SF_ToInt
  imports IEEE_Spec SF_AddCore
begin

text \<open>
  Conversions from floating point to integers: the four rounding routines
  (\<open>s_roundToI32.c\<close>, \<open>s_roundToUI32.c\<close>, \<open>s_roundToI64.c\<close>, \<open>s_roundToUI64.c\<close>) and the conversions
  \<open>f*_to_i*.c\<close> and \<open>f*_to_ui*.c\<close> that call them with the rounding mode of the caller. A signed
  result is the \<open>int\<close> its two's-complement word reads as. The values for overflow and NaN are
  those of \<open>specialize.h\<close> for RISC-V, where a NaN converts to the greatest integer.
\<close>

section \<open>The routines\<close>

definition softfloat_roundToI32 ::
  "bool \<Rightarrow> uint_fast64 \<Rightarrow> uint_fast8 \<Rightarrow> bool \<Rightarrow> softfloat_state \<Rightarrow> int \<times> softfloat_state" where
  "softfloat_roundToI32 sign sig roundingMode exact s =
     (let roundNearEven = (roundingMode = softfloat_round_near_even);
          roundIncrement =
            (if \<not> roundNearEven \<and> roundingMode \<noteq> softfloat_round_near_maxMag
             then (if roundingMode = (if sign then softfloat_round_min else softfloat_round_max) then 0xFFF else 0)
             else 0x800);
          invalid = (if sign then - 0x7FFFFFFF - 1 else 0x7FFFFFFF,
                     softfloat_raiseFlags softfloat_flag_invalid s);
          roundBits = sig AND 0xFFF;
          sig = sig + roundIncrement
      in if sig AND 0xFFFFF00000000000 \<noteq> 0 then invalid
         else
           let sig32 = drop_bit 12 sig;
               sig32 = sig32 AND NOT (of_bool (roundBits XOR 0x800 = 0 \<and> roundNearEven));
               z = sint (to_u32 (if sign then - sig32 else sig32))
           in if z \<noteq> 0 \<and> (z < 0) \<noteq> sign then invalid
              else (z, if exact \<and> roundBits \<noteq> 0
                       then softfloat_raiseFlags softfloat_flag_inexact s else s))"

definition softfloat_roundToUI32 ::
  "bool \<Rightarrow> uint_fast64 \<Rightarrow> uint_fast8 \<Rightarrow> bool \<Rightarrow> softfloat_state \<Rightarrow> uint_fast32 \<times> softfloat_state" where
  "softfloat_roundToUI32 sign sig roundingMode exact s =
     (let roundNearEven = (roundingMode = softfloat_round_near_even);
          roundIncrement =
            (if \<not> roundNearEven \<and> roundingMode \<noteq> softfloat_round_near_maxMag
             then (if roundingMode = (if sign then softfloat_round_min else softfloat_round_max) then 0xFFF else 0)
             else 0x800);
          invalid = (if sign then 0 else 0xFFFFFFFF,
                     softfloat_raiseFlags softfloat_flag_invalid s);
          roundBits = sig AND 0xFFF;
          sig = sig + roundIncrement
      in if sig AND 0xFFFFF00000000000 \<noteq> 0 then invalid
         else
           let z = drop_bit 12 sig;
               z = z AND NOT (of_bool (roundBits XOR 0x800 = 0 \<and> roundNearEven))
           in if sign \<and> z \<noteq> 0 then invalid
              else (z, if exact \<and> roundBits \<noteq> 0
                       then softfloat_raiseFlags softfloat_flag_inexact s else s))"

definition softfloat_roundToI64 ::
  "bool \<Rightarrow> uint_fast64 \<Rightarrow> uint_fast64 \<Rightarrow> uint_fast8 \<Rightarrow> bool \<Rightarrow> softfloat_state \<Rightarrow> int \<times> softfloat_state" where
  "softfloat_roundToI64 sign sig sigExtra roundingMode exact s =
     (let roundNearEven = (roundingMode = softfloat_round_near_even);
          doIncrement =
            (if \<not> roundNearEven \<and> roundingMode \<noteq> softfloat_round_near_maxMag
             then roundingMode = (if sign then softfloat_round_min else softfloat_round_max) \<and> sigExtra \<noteq> 0
             else 0x8000000000000000 \<le> sigExtra);
          invalid = (if sign then - 0x7FFFFFFFFFFFFFFF - 1 else 0x7FFFFFFFFFFFFFFF,
                     softfloat_raiseFlags softfloat_flag_invalid s)
      in if doIncrement \<and> sig + 1 = 0 then invalid
         else
           let sig = (if doIncrement
                      then (sig + 1) AND NOT (of_bool (sigExtra AND 0x7FFFFFFFFFFFFFFF = 0 \<and> roundNearEven))
                      else sig)
           in let z = sint (if sign then - sig else sig)
              in if z \<noteq> 0 \<and> (z < 0) \<noteq> sign then invalid
                 else (z, if exact \<and> sigExtra \<noteq> 0
                          then softfloat_raiseFlags softfloat_flag_inexact s else s))"

definition softfloat_roundToUI64 ::
  "bool \<Rightarrow> uint_fast64 \<Rightarrow> uint_fast64 \<Rightarrow> uint_fast8 \<Rightarrow> bool \<Rightarrow> softfloat_state \<Rightarrow> uint_fast64 \<times> softfloat_state" where
  "softfloat_roundToUI64 sign sig sigExtra roundingMode exact s =
     (let roundNearEven = (roundingMode = softfloat_round_near_even);
          doIncrement =
            (if \<not> roundNearEven \<and> roundingMode \<noteq> softfloat_round_near_maxMag
             then roundingMode = (if sign then softfloat_round_min else softfloat_round_max) \<and> sigExtra \<noteq> 0
             else 0x8000000000000000 \<le> sigExtra);
          invalid = (if sign then 0 else 0xFFFFFFFFFFFFFFFF,
                     softfloat_raiseFlags softfloat_flag_invalid s)
      in if doIncrement \<and> sig + 1 = 0 then invalid
         else
           let sig = (if doIncrement
                      then (sig + 1) AND NOT (of_bool (sigExtra AND 0x7FFFFFFFFFFFFFFF = 0 \<and> roundNearEven))
                      else sig)
           in if sign \<and> sig \<noteq> 0 then invalid
              else (sig, if exact \<and> sigExtra \<noteq> 0
                         then softfloat_raiseFlags softfloat_flag_inexact s else s))"

subsection \<open>Half precision\<close>

definition f16_to_i32 ::
  "float16 \<Rightarrow> uint_fast8 \<Rightarrow> bool \<Rightarrow> softfloat_state \<Rightarrow> int \<times> softfloat_state" where
  "f16_to_i32 a roundingMode exact s =
     (let uiA = to_u64 a;
          sign = signF16UI uiA;
          expn = expF16UI uiA;
          frac = fracF16UI uiA
      in if expn = 0x1F
         then (if frac \<noteq> 0 then 0x7FFFFFFF
               else if sign then - 0x7FFFFFFF - 1 else 0x7FFFFFFF,
               softfloat_raiseFlags softfloat_flag_invalid s)
         else if expn \<noteq> 0 then
           let sig32 = frac OR 0x0400
           in if 0 \<le> expn - 0x19
              then let sig32 = shl sig32 (expn - 0x19) in (sint (if sign then - sig32 else sig32), s)
              else let sig32 = (if 0 < expn - 0x0D then shl sig32 (expn - 0x0D) else sig32)
                   in softfloat_roundToI32 sign sig32 roundingMode exact s
         else softfloat_roundToI32 sign frac roundingMode exact s)"

definition f16_to_ui32 ::
  "float16 \<Rightarrow> uint_fast8 \<Rightarrow> bool \<Rightarrow> softfloat_state \<Rightarrow> uint_fast32 \<times> softfloat_state" where
  "f16_to_ui32 a roundingMode exact s =
     (let uiA = to_u64 a;
          sign = signF16UI uiA;
          expn = expF16UI uiA;
          frac = fracF16UI uiA
      in if expn = 0x1F
         then (if frac \<noteq> 0 then 0xFFFFFFFF
               else if sign then 0 else 0xFFFFFFFF,
               softfloat_raiseFlags softfloat_flag_invalid s)
         else if expn \<noteq> 0 then
           let sig32 = frac OR 0x0400
           in if 0 \<le> expn - 0x19 \<and> \<not> sign then (shl sig32 (expn - 0x19), s)
              else let sig32 = (if 0 < expn - 0x0D then shl sig32 (expn - 0x0D) else sig32)
                   in softfloat_roundToUI32 sign sig32 roundingMode exact s
         else softfloat_roundToUI32 sign frac roundingMode exact s)"

definition f16_to_i64 ::
  "float16 \<Rightarrow> uint_fast8 \<Rightarrow> bool \<Rightarrow> softfloat_state \<Rightarrow> int \<times> softfloat_state" where
  "f16_to_i64 a roundingMode exact s =
     (let uiA = to_u64 a;
          sign = signF16UI uiA;
          expn = expF16UI uiA;
          frac = fracF16UI uiA
      in if expn = 0x1F
         then (if frac \<noteq> 0 then 0x7FFFFFFFFFFFFFFF
               else if sign then - 0x7FFFFFFFFFFFFFFF - 1 else 0x7FFFFFFFFFFFFFFF,
               softfloat_raiseFlags softfloat_flag_invalid s)
         else if expn \<noteq> 0 then
           let sig32 = frac OR 0x0400
           in if 0 \<le> expn - 0x19
              then let sig32 = shl sig32 (expn - 0x19) in (sint (if sign then - sig32 else sig32), s)
              else let sig32 = (if 0 < expn - 0x0D then shl sig32 (expn - 0x0D) else sig32)
                   in softfloat_roundToI32 sign sig32 roundingMode exact s
         else softfloat_roundToI32 sign frac roundingMode exact s)"

definition f16_to_ui64 ::
  "float16 \<Rightarrow> uint_fast8 \<Rightarrow> bool \<Rightarrow> softfloat_state \<Rightarrow> uint_fast64 \<times> softfloat_state" where
  "f16_to_ui64 a roundingMode exact s =
     (let uiA = to_u64 a;
          sign = signF16UI uiA;
          expn = expF16UI uiA;
          frac = fracF16UI uiA
      in if expn = 0x1F
         then (if frac \<noteq> 0 then 0xFFFFFFFFFFFFFFFF
               else if sign then 0 else 0xFFFFFFFFFFFFFFFF,
               softfloat_raiseFlags softfloat_flag_invalid s)
         else if expn \<noteq> 0 then
           let sig32 = frac OR 0x0400
           in if 0 \<le> expn - 0x19 \<and> \<not> sign then (shl sig32 (expn - 0x19), s)
              else let sig32 = (if 0 < expn - 0x0D then shl sig32 (expn - 0x0D) else sig32)
                   in softfloat_roundToUI32 sign sig32 roundingMode exact s
         else softfloat_roundToUI32 sign frac roundingMode exact s)"

definition f16_to_i8 ::
  "float16 \<Rightarrow> uint_fast8 \<Rightarrow> bool \<Rightarrow> softfloat_state \<Rightarrow> int \<times> softfloat_state" where
  "f16_to_i8 a roundingMode exact s =
     (let old_flags = softfloat_exceptionFlags s;
          (sig32, s) = f16_to_i32 a roundingMode exact s
      in if 0x7F < sig32
         then (0x7F, s\<lparr>softfloat_exceptionFlags := old_flags OR softfloat_flag_invalid\<rparr>)
         else if sig32 < - 0x80
         then (- 0x80, s\<lparr>softfloat_exceptionFlags := old_flags OR softfloat_flag_invalid\<rparr>)
         else (sig32, s))"

definition f16_to_i16 ::
  "float16 \<Rightarrow> uint_fast8 \<Rightarrow> bool \<Rightarrow> softfloat_state \<Rightarrow> int \<times> softfloat_state" where
  "f16_to_i16 a roundingMode exact s =
     (let old_flags = softfloat_exceptionFlags s;
          (sig32, s) = f16_to_i32 a roundingMode exact s
      in if 0x7FFF < sig32
         then (0x7FFF, s\<lparr>softfloat_exceptionFlags := old_flags OR softfloat_flag_invalid\<rparr>)
         else if sig32 < - 0x8000
         then (- 0x8000, s\<lparr>softfloat_exceptionFlags := old_flags OR softfloat_flag_invalid\<rparr>)
         else (sig32, s))"

definition f16_to_ui8 ::
  "float16 \<Rightarrow> uint_fast8 \<Rightarrow> bool \<Rightarrow> softfloat_state \<Rightarrow> uint_fast8 \<times> softfloat_state" where
  "f16_to_ui8 a roundingMode exact s =
     (let old_flags = softfloat_exceptionFlags s;
          (sig32, s) = f16_to_ui32 a roundingMode exact s
      in if 0xFF < sig32
         then (0xFF, s\<lparr>softfloat_exceptionFlags := old_flags OR softfloat_flag_invalid\<rparr>)
         else (to_u8 sig32, s))"

definition f16_to_ui16 ::
  "float16 \<Rightarrow> uint_fast8 \<Rightarrow> bool \<Rightarrow> softfloat_state \<Rightarrow> uint_fast16 \<times> softfloat_state" where
  "f16_to_ui16 a roundingMode exact s =
     (let old_flags = softfloat_exceptionFlags s;
          (sig32, s) = f16_to_ui32 a roundingMode exact s
      in if 0xFFFF < sig32
         then (0xFFFF, s\<lparr>softfloat_exceptionFlags := old_flags OR softfloat_flag_invalid\<rparr>)
         else (sig32, s))"

subsection \<open>Single precision\<close>

definition f32_to_i32 ::
  "float32 \<Rightarrow> uint_fast8 \<Rightarrow> bool \<Rightarrow> softfloat_state \<Rightarrow> int \<times> softfloat_state" where
  "f32_to_i32 a roundingMode exact s =
     (let uiA = to_u64 a;
          sign = signF32UI uiA;
          expn = expF32UI uiA;
          sig = fracF32UI uiA;
          sign = (if expn = 0xFF \<and> sig \<noteq> 0 then False else sign);
          sig = (if expn \<noteq> 0 then sig OR 0x00800000 else sig);
          sig64 = push_bit 32 sig;
          shiftDist = 0xAA - expn;
          sig64 = (if 0 < shiftDist then softfloat_shiftRightJam64 sig64 (word_of_int shiftDist) else sig64)
      in softfloat_roundToI32 sign sig64 roundingMode exact s)"

definition f32_to_ui32 ::
  "float32 \<Rightarrow> uint_fast8 \<Rightarrow> bool \<Rightarrow> softfloat_state \<Rightarrow> uint_fast32 \<times> softfloat_state" where
  "f32_to_ui32 a roundingMode exact s =
     (let uiA = to_u64 a;
          sign = signF32UI uiA;
          expn = expF32UI uiA;
          sig = fracF32UI uiA;
          sign = (if expn = 0xFF \<and> sig \<noteq> 0 then False else sign);
          sig = (if expn \<noteq> 0 then sig OR 0x00800000 else sig);
          sig64 = push_bit 32 sig;
          shiftDist = 0xAA - expn;
          sig64 = (if 0 < shiftDist then softfloat_shiftRightJam64 sig64 (word_of_int shiftDist) else sig64)
      in softfloat_roundToUI32 sign sig64 roundingMode exact s)"

definition f32_to_i64 ::
  "float32 \<Rightarrow> uint_fast8 \<Rightarrow> bool \<Rightarrow> softfloat_state \<Rightarrow> int \<times> softfloat_state" where
  "f32_to_i64 a roundingMode exact s =
     (let uiA = to_u64 a;
          sign = signF32UI uiA;
          expn = expF32UI uiA;
          sig = fracF32UI uiA;
          shiftDist = 0xBE - expn
      in if shiftDist < 0
         then (if expn = 0xFF \<and> sig \<noteq> 0 then 0x7FFFFFFFFFFFFFFF
               else if sign then - 0x7FFFFFFFFFFFFFFF - 1 else 0x7FFFFFFFFFFFFFFF,
               softfloat_raiseFlags softfloat_flag_invalid s)
         else
           let sig = (if expn \<noteq> 0 then sig OR 0x00800000 else sig);
               sig64 = push_bit 40 sig;
               sig64Extra = (if shiftDist \<noteq> 0 then softfloat_shiftRightJam64Extra sig64 0 (word_of_int shiftDist)
                             else \<lparr>u64x_v = sig64, u64x_extra = 0\<rparr>)
           in softfloat_roundToI64 sign (u64x_v sig64Extra) (u64x_extra sig64Extra) roundingMode exact s)"

definition f32_to_ui64 ::
  "float32 \<Rightarrow> uint_fast8 \<Rightarrow> bool \<Rightarrow> softfloat_state \<Rightarrow> uint_fast64 \<times> softfloat_state" where
  "f32_to_ui64 a roundingMode exact s =
     (let uiA = to_u64 a;
          sign = signF32UI uiA;
          expn = expF32UI uiA;
          sig = fracF32UI uiA;
          shiftDist = 0xBE - expn
      in if shiftDist < 0
         then (if expn = 0xFF \<and> sig \<noteq> 0 then 0xFFFFFFFFFFFFFFFF
               else if sign then 0 else 0xFFFFFFFFFFFFFFFF,
               softfloat_raiseFlags softfloat_flag_invalid s)
         else
           let sig = (if expn \<noteq> 0 then sig OR 0x00800000 else sig);
               sig64 = push_bit 40 sig;
               sig64Extra = (if shiftDist \<noteq> 0 then softfloat_shiftRightJam64Extra sig64 0 (word_of_int shiftDist)
                             else \<lparr>u64x_v = sig64, u64x_extra = 0\<rparr>)
           in softfloat_roundToUI64 sign (u64x_v sig64Extra) (u64x_extra sig64Extra) roundingMode exact s)"

definition f32_to_i16 ::
  "float32 \<Rightarrow> uint_fast8 \<Rightarrow> bool \<Rightarrow> softfloat_state \<Rightarrow> int \<times> softfloat_state" where
  "f32_to_i16 a roundingMode exact s =
     (let old_flags = softfloat_exceptionFlags s;
          (sig32, s) = f32_to_i32 a roundingMode exact s
      in if 0x7FFF < sig32
         then (0x7FFF, s\<lparr>softfloat_exceptionFlags := old_flags OR softfloat_flag_invalid\<rparr>)
         else if sig32 < - 0x8000
         then (- 0x8000, s\<lparr>softfloat_exceptionFlags := old_flags OR softfloat_flag_invalid\<rparr>)
         else (sig32, s))"

definition f32_to_ui16 ::
  "float32 \<Rightarrow> uint_fast8 \<Rightarrow> bool \<Rightarrow> softfloat_state \<Rightarrow> uint_fast16 \<times> softfloat_state" where
  "f32_to_ui16 a roundingMode exact s =
     (let old_flags = softfloat_exceptionFlags s;
          (sig32, s) = f32_to_ui32 a roundingMode exact s
      in if 0xFFFF < sig32
         then (0xFFFF, s\<lparr>softfloat_exceptionFlags := old_flags OR softfloat_flag_invalid\<rparr>)
         else (sig32, s))"

subsection \<open>Double precision\<close>

definition f64_to_i32 ::
  "float64 \<Rightarrow> uint_fast8 \<Rightarrow> bool \<Rightarrow> softfloat_state \<Rightarrow> int \<times> softfloat_state" where
  "f64_to_i32 a roundingMode exact s =
     (let sign = signF64UI a;
          expn = expF64UI a;
          sig = fracF64UI a;
          sign = (if expn = 0x7FF \<and> sig \<noteq> 0 then False else sign);
          sig = (if expn \<noteq> 0 then sig OR 0x0010000000000000 else sig);
          shiftDist = 0x427 - expn;
          sig = (if 0 < shiftDist then softfloat_shiftRightJam64 sig (word_of_int shiftDist) else sig)
      in softfloat_roundToI32 sign sig roundingMode exact s)"

definition f64_to_ui32 ::
  "float64 \<Rightarrow> uint_fast8 \<Rightarrow> bool \<Rightarrow> softfloat_state \<Rightarrow> uint_fast32 \<times> softfloat_state" where
  "f64_to_ui32 a roundingMode exact s =
     (let sign = signF64UI a;
          expn = expF64UI a;
          sig = fracF64UI a;
          sign = (if expn = 0x7FF \<and> sig \<noteq> 0 then False else sign);
          sig = (if expn \<noteq> 0 then sig OR 0x0010000000000000 else sig);
          shiftDist = 0x427 - expn;
          sig = (if 0 < shiftDist then softfloat_shiftRightJam64 sig (word_of_int shiftDist) else sig)
      in softfloat_roundToUI32 sign sig roundingMode exact s)"

definition f64_to_i64 ::
  "float64 \<Rightarrow> uint_fast8 \<Rightarrow> bool \<Rightarrow> softfloat_state \<Rightarrow> int \<times> softfloat_state" where
  "f64_to_i64 a roundingMode exact s =
     (let sign = signF64UI a;
          expn = expF64UI a;
          sig = fracF64UI a;
          sig = (if expn \<noteq> 0 then sig OR 0x0010000000000000 else sig);
          shiftDist = 0x433 - expn
      in if shiftDist < - 11
         then (if expn = 0x7FF \<and> fracF64UI a \<noteq> 0 then 0x7FFFFFFFFFFFFFFF
               else if sign then - 0x7FFFFFFFFFFFFFFF - 1 else 0x7FFFFFFFFFFFFFFF,
               softfloat_raiseFlags softfloat_flag_invalid s)
         else
           let sigExtra = (if shiftDist \<le> 0 then \<lparr>u64x_v = shl sig (- shiftDist), u64x_extra = 0\<rparr>
                           else softfloat_shiftRightJam64Extra sig 0 (word_of_int shiftDist))
           in softfloat_roundToI64 sign (u64x_v sigExtra) (u64x_extra sigExtra) roundingMode exact s)"

definition f64_to_ui64 ::
  "float64 \<Rightarrow> uint_fast8 \<Rightarrow> bool \<Rightarrow> softfloat_state \<Rightarrow> uint_fast64 \<times> softfloat_state" where
  "f64_to_ui64 a roundingMode exact s =
     (let sign = signF64UI a;
          expn = expF64UI a;
          sig = fracF64UI a;
          sig = (if expn \<noteq> 0 then sig OR 0x0010000000000000 else sig);
          shiftDist = 0x433 - expn
      in if shiftDist < - 11
         then (if expn = 0x7FF \<and> fracF64UI a \<noteq> 0 then 0xFFFFFFFFFFFFFFFF
               else if sign then 0 else 0xFFFFFFFFFFFFFFFF,
               softfloat_raiseFlags softfloat_flag_invalid s)
         else
           let sigExtra = (if shiftDist \<le> 0 then \<lparr>u64x_v = shl sig (- shiftDist), u64x_extra = 0\<rparr>
                           else softfloat_shiftRightJam64Extra sig 0 (word_of_int shiftDist))
           in softfloat_roundToUI64 sign (u64x_v sigExtra) (u64x_extra sigExtra) roundingMode exact s)"

section \<open>What a conversion to an integer asks for\<close>

text \<open>
  The routines know the five rounding directions of IEEE 754; every other mode, round to odd
  included, truncates.
\<close>

definition int_mode :: "uint_fast8 \<Rightarrow> rounding" where
  "int_mode m = (if round_mode m = ROD then RTZ else round_mode m)"

text \<open>
  The conversion of \<open>x\<close>, negated where \<open>neg\<close> holds, to the integers from \<open>lo\<close> to \<open>hi\<close>: the rounded
  value, with the inexact flag on request, or the nearest bound and the invalid flag.
\<close>

definition int_result ::
  "int \<Rightarrow> int \<Rightarrow> softfloat_state \<Rightarrow> bool \<Rightarrow> int \<Rightarrow> bool \<Rightarrow> int \<times> softfloat_state" where
  "int_result lo hi s neg r inexact =
     (let z = (if neg then - r else r)
      in if lo \<le> z \<and> z \<le> hi then (z, raise_if inexact softfloat_flag_inexact s)
         else (if neg then lo else hi, softfloat_raiseFlags softfloat_flag_invalid s))"

definition int_conv ::
  "int \<Rightarrow> int \<Rightarrow> rounding \<Rightarrow> bool \<Rightarrow> softfloat_state \<Rightarrow> bool \<Rightarrow> real \<Rightarrow> int \<times> softfloat_state" where
  "int_conv lo hi m exact s neg x =
     int_result lo hi s neg (rnd m neg x) (exact \<and> of_int (rnd m neg x) \<noteq> x)"

definition to_int_spec ::
  "nat \<Rightarrow> nat \<Rightarrow> int \<Rightarrow> int \<Rightarrow> rounding \<Rightarrow> bool \<Rightarrow> softfloat_state \<Rightarrow> nat \<Rightarrow> int \<times> softfloat_state" where
  "to_int_spec p w lo hi m exact s b =
     (if fp_nan p w b then (hi, softfloat_raiseFlags softfloat_flag_invalid s)
      else if fp_infinite p w b
      then (if fp_sign p w b then lo else hi, softfloat_raiseFlags softfloat_flag_invalid s)
      else int_conv lo hi m exact s (fp_sign p w b) (fp_magn p w b))"

lemma int_conv_jam:
  assumes "2 \<le> k"
  shows "int_conv lo hi m exact s neg (of_int (jam y) / 2 ^ k) = int_conv lo hi m exact s neg (y / 2 ^ k)"
  using rnd_jam[OF assms, of m neg y] jam_quot_Ints[of k y] assms
  unfolding int_conv_def rnd_eq_self_iff by simp

lemma rnd_ge:
  assumes "of_int n \<le> x"
  shows "n \<le> rnd m neg x"
  using rnd_bounds(1)[of x m neg] assms by (meson le_floor_iff order_trans)

lemma int_conv_overflow:
  assumes "of_int n \<le> x" and "neg \<Longrightarrow> - n < lo" and "\<not> neg \<Longrightarrow> hi < n"
  shows "int_conv lo hi m exact s neg x = (if neg then lo else hi, softfloat_raiseFlags softfloat_flag_invalid s)"
  using rnd_ge[OF assms(1), of m neg] assms(2,3) by (auto simp: int_conv_def int_result_def)

lemma int_conv_of_int: "int_conv lo hi m exact s neg (of_int n) = int_result lo hi s neg n False"
  by (simp add: int_conv_def)

lemma int_conv_nat_quot:
  assumes "0 < k"
  shows "int_conv lo hi m exact s neg (of_nat N / 2 ^ k) =
     int_result lo hi s neg (int (rnd_by_incr k m neg N)) (exact \<and> N mod 2 ^ k \<noteq> 0)"
  unfolding int_conv_def rnd_eq_self_iff nat_quot_Ints by (simp only: rnd_by_incr_correct[OF assms])

section \<open>The rounding routines\<close>

lemma sint_sign:
  fixes v :: "'a::len word" and sign :: bool
  defines "z \<equiv> sint (if sign then - v else v)" and "x \<equiv> (if sign then - int (unat v) else int (unat v))"
  shows "z \<noteq> 0 \<and> (z < 0) \<noteq> sign \<longleftrightarrow> \<not> (- (2 ^ (LENGTH('a) - 1)) \<le> x \<and> x \<le> 2 ^ (LENGTH('a) - 1) - 1)"
    and "- (2 ^ (LENGTH('a) - 1)) \<le> x \<Longrightarrow> x \<le> 2 ^ (LENGTH('a) - 1) - 1 \<Longrightarrow> z = x"
proof -
  define h :: int where "h = 2 ^ (LENGTH('a) - 1)"
  have n: "2 ^ LENGTH('a) = 2 * h" and h: "0 < h"
    by (simp_all add: h_def flip: power_Suc)
  have h': "2 ^ (LENGTH('a) - Suc 0) = h"
    by (simp add: h_def)
  define V where "V = uint v"
  have V: "int (unat v) = V" "0 \<le> V" "V < 2 * h"
    using uint_lt2p[of v] by (simp_all add: V_def n uint_nat)
  have neg: "uint (- v) = (if V = 0 then 0 else 2 * h - V)"
    using V by (simp add: V_def uint_word_ariths n mod_if zmod_zminus1_eq_if)
  have z: "z = (if sign then if V = 0 then 0 else if 2 * h - V < h then 2 * h - V else - V
      else if V < h then V else V - 2 * h)"
  proof (cases sign)
    case True
    then show ?thesis
      unfolding z_def using h by (simp add: sint_cases[of "- v"] neg n h')
  next
    case False
    then show ?thesis
      unfolding z_def by (simp add: sint_cases[of v] n V_def h')
  qed
  show "z \<noteq> 0 \<and> (z < 0) \<noteq> sign \<longleftrightarrow> \<not> (- (2 ^ (LENGTH('a) - 1)) \<le> x \<and> x \<le> 2 ^ (LENGTH('a) - 1) - 1)"
    unfolding z x_def V(1) h_def[symmetric] using V h by auto
  show "- (2 ^ (LENGTH('a) - 1)) \<le> x \<Longrightarrow> x \<le> 2 ^ (LENGTH('a) - 1) - 1 \<Longrightarrow> z = x"
    unfolding z x_def V(1) h_def[symmetric] using V h by (auto split: if_splits)
qed

lemma int_result_sint:
  fixes v :: "'a::len word"
  assumes "lo = - (2 ^ (LENGTH('a) - 1))" and "hi = 2 ^ (LENGTH('a) - 1) - 1"
  shows "(if sint (if sign then - v else v) \<noteq> 0 \<and> (sint (if sign then - v else v) < 0) \<noteq> sign
      then (if sign then lo else hi, softfloat_raiseFlags softfloat_flag_invalid s)
      else (sint (if sign then - v else v), if ex then softfloat_raiseFlags softfloat_flag_inexact s else s)) =
    int_result lo hi s sign (int (unat v)) ex"
proof (cases "lo \<le> (if sign then - int (unat v) else int (unat v)) \<and> (if sign then - int (unat v) else int (unat v)) \<le> hi")
  case True
  then show ?thesis
    using sint_sign(1)[of sign v, folded assms] sint_sign(2)[of sign v, folded assms]
    unfolding int_result_def Let_def raise_if_def by (simp only: simp_thms if_True if_False)
next
  case False
  then show ?thesis
    using sint_sign(1)[of sign v, folded assms] unfolding int_result_def Let_def
    by (simp only: simp_thms if_True if_False)
qed

lemma int_mode_not_ROD [simp]: "int_mode md \<noteq> ROD"
  by (simp add: int_mode_def)

lemma int_increment:
  fixes half full :: "'a::len word"
  assumes "unat half = 2 ^ (k - 1)" and "unat full = 2 ^ k - 1"
  shows "unat (if md \<noteq> softfloat_round_near_even \<and> md \<noteq> softfloat_round_near_maxMag
      then (if md = (if sign then softfloat_round_min else softfloat_round_max) then full else 0)
      else half) = rnd_incr k (int_mode md) sign"
  using round_increment[OF assms, of md sign] by (simp add: int_mode_def rnd_incr_def split: rounding.splits)

lemma word_and_not_mask_eq_0: "x AND NOT (mask n) = 0 \<longleftrightarrow> unat x < 2 ^ n" for x :: "'a::len word"
proof -
  have "x AND NOT (mask n) = 0 \<longleftrightarrow> take_bit n x = x"
    by (auto simp: bit_eq_iff bit_simps)
  then show ?thesis
    by (simp add: word_unat_eq_iff unat_take_bit_mod mod_if[of "unat x"] not_less) (metis mod_less_divisor not_less zero_less_numeral zero_less_power)
qed

text \<open>What both routines for 32-bit results compute before they look at the sign.\<close>

lemma round32_word:
  fixes sig incr :: uint64 and md :: uint_fast8
  defines "w \<equiv> drop_bit 12 (sig + incr) AND NOT (of_bool (sig AND 0xFFF XOR 0x800 = 0 \<and> md = softfloat_round_near_even))"
  assumes "unat incr = rnd_incr 12 (int_mode md) sign" and "unat sig < 2 ^ 63"
  shows "sig AND 0xFFF = 0 \<longleftrightarrow> unat sig mod 2 ^ 12 = 0"
    and "(sig + incr) AND 0xFFFFF00000000000 = 0 \<longleftrightarrow> rnd_by_incr 12 (int_mode md) sign (unat sig) < 2 ^ 32"
    and "unat w = rnd_by_incr 12 (int_mode md) sign (unat sig)"
proof -
  have low: "unat (sig AND 0xFFF) = unat sig mod 2 ^ 12"
    using unat_and_mask[of sig 12] by (simp add: mask_numeral)
  then show "sig AND 0xFFF = 0 \<longleftrightarrow> unat sig mod 2 ^ 12 = 0"
    by (simp add: word_eq_0_unat)
  have tie: "sig AND 0xFFF XOR 0x800 = 0 \<longleftrightarrow> unat sig mod 2 ^ 12 = 2 ^ (12 - 1)"
    by (simp only: word_xor_eq_0_iff) (simp add: word_unat_eq_iff low)
  have m: "int_mode md = RNE \<longleftrightarrow> md = softfloat_round_near_even"
    by (auto simp: int_mode_def round_mode_iff)
  show R: "unat w = rnd_by_incr 12 (int_mode md) sign (unat sig)"
    using round_tail[where k = 12 and m = "int_mode md", OF _ assms(2,3) _ refl refl]
    by (simp add: w_def tie m)
  define n where "n = (unat sig + unat incr) div 2 ^ 12"
  have i: "unat incr < 2 ^ 12"
    using rnd_incr_less[of 12 "int_mode md" sign] assms(2) by simp
  then have "unat (sig + incr) = unat sig + unat incr"
    using assms(3) by (intro unat_add_no_wrap) simp
  then have a: "(sig + incr) AND 0xFFFFF00000000000 = 0 \<longleftrightarrow> n < 2 ^ 32"
  proof -
    have "NOT (mask 44 :: uint64) = 0xFFFFF00000000000"
      by (simp add: mask_numeral)
    then show ?thesis
      using word_and_not_mask_eq_0[of "sig + incr" 44] \<open>unat (sig + incr) = unat sig + unat incr\<close>
      by (simp only: n_def) (simp add: div_less_iff_less_mult)
  qed
  have "rnd_by_incr 12 (int_mode md) sign (unat sig) = (if int_mode md = RNE \<and> unat sig mod 2 ^ 12 = 2 ^ 11 \<and> odd n then n - 1 else n)"
    unfolding rnd_by_incr_def Let_def n_def assms(2) int_mode_not_ROD simp_thms if_False by simp
  moreover have "odd n \<Longrightarrow> n - 1 < 2 ^ 32 \<longleftrightarrow> n < 2 ^ 32"
    by simp presburger
  ultimately show "(sig + incr) AND 0xFFFFF00000000000 = 0 \<longleftrightarrow> rnd_by_incr 12 (int_mode md) sign (unat sig) < 2 ^ 32"
    unfolding a by simp
qed

lemma to_u32_uminus: "to_u32 (- x) = - to_u32 x" for x :: uint64
  by (rule word_uint_eqI) (simp add: uint_word_ariths unsigned_ucast_eq take_bit_eq_mod mod_simps mod_mod_cancel)

lemma roundToI32_conv:
  assumes "unat sig < 2 ^ 63"
  shows "softfloat_roundToI32 sign sig md exact s =
    int_conv (- (2 ^ 31)) (2 ^ 31 - 1) (int_mode md) exact s sign (of_nat (unat sig) / 2 ^ 12)"
proof -
  define incr :: uint64 where "incr = (if md \<noteq> softfloat_round_near_even \<and> md \<noteq> softfloat_round_near_maxMag
      then (if md = (if sign then softfloat_round_min else softfloat_round_max) then 0xFFF else 0) else 0x800)"
  have incr: "unat incr = rnd_incr 12 (int_mode md) sign"
    unfolding incr_def by (rule int_increment) simp_all
  note w = round32_word[OF incr assms]
  define v where "v = drop_bit 12 (sig + incr) AND NOT (of_bool (sig AND 0xFFF XOR 0x800 = 0 \<and> md = softfloat_round_near_even))"
  define R where "R = rnd_by_incr 12 (int_mode md) sign (unat sig)"
  note w = w[folded v_def R_def]
  have conv: "int_conv (- (2 ^ 31)) (2 ^ 31 - 1) (int_mode md) exact s sign (of_nat (unat sig) / 2 ^ 12) =
      int_result (- (2 ^ 31)) (2 ^ 31 - 1) s sign (int R) (exact \<and> sig AND 0xFFF \<noteq> 0)"
    unfolding w(1) R_def by (rule int_conv_nat_quot) simp
  show ?thesis
  proof (cases "R < 2 ^ 32")
    case True
    then have "unat (to_u32 v) = R"
      using w(3) by (simp add: unat_ucast_mod)
    then show ?thesis
      using True w(2)
      unfolding softfloat_roundToI32_def Let_def incr_def[symmetric] v_def[symmetric] conv to_u32_uminus if_distrib[of to_u32]
      by (simp only: not_True_eq_False if_False) (subst int_result_sint, simp_all)
  next
    case False
    then show ?thesis
      using w(2) unfolding softfloat_roundToI32_def Let_def incr_def[symmetric] conv int_result_def Let_def by simp
  qed
qed

lemma roundToUI32_conv:
  assumes "unat sig < 2 ^ 63"
  shows "map_prod uint id (softfloat_roundToUI32 sign sig md exact s) =
    int_conv 0 (2 ^ 32 - 1) (int_mode md) exact s sign (of_nat (unat sig) / 2 ^ 12)"
proof -
  define incr :: uint64 where "incr = (if md \<noteq> softfloat_round_near_even \<and> md \<noteq> softfloat_round_near_maxMag
      then (if md = (if sign then softfloat_round_min else softfloat_round_max) then 0xFFF else 0) else 0x800)"
  have incr: "unat incr = rnd_incr 12 (int_mode md) sign"
    unfolding incr_def by (rule int_increment) simp_all
  define v where "v = drop_bit 12 (sig + incr) AND NOT (of_bool (sig AND 0xFFF XOR 0x800 = 0 \<and> md = softfloat_round_near_even))"
  define R where "R = rnd_by_incr 12 (int_mode md) sign (unat sig)"
  note w = round32_word[OF incr assms, folded v_def R_def]
  have v: "uint v = int R" "v = 0 \<longleftrightarrow> R = 0"
    using w(3) by (simp_all add: word_eq_0_unat uint_nat)
  have conv: "int_conv 0 (2 ^ 32 - 1) (int_mode md) exact s sign (of_nat (unat sig) / 2 ^ 12) =
      int_result 0 (2 ^ 32 - 1) s sign (int R) (exact \<and> sig AND 0xFFF \<noteq> 0)"
    unfolding w(1) R_def by (rule int_conv_nat_quot) simp
  show ?thesis
    using w(2) v unfolding softfloat_roundToUI32_def Let_def incr_def[symmetric] v_def[symmetric] conv int_result_def Let_def raise_if_def
    by auto
qed

text \<open>The 64-bit routines keep the fraction in a word of its own.\<close>

definition round64_incr :: "bool \<Rightarrow> uint_fast8 \<Rightarrow> uint64 \<Rightarrow> bool" where
  "round64_incr sign md ext =
     (if md \<noteq> softfloat_round_near_even \<and> md \<noteq> softfloat_round_near_maxMag
      then md = (if sign then softfloat_round_min else softfloat_round_max) \<and> ext \<noteq> 0
      else 0x8000000000000000 \<le> ext)"

lemma round64_up:
  "round_up (int_mode md) sign od (of_nat (unat ext) / 2 ^ 64) \<longleftrightarrow>
     round64_incr sign md ext \<and> \<not> (ext AND 0x7FFFFFFFFFFFFFFF = 0 \<and> md = softfloat_round_near_even \<and> \<not> od)"
  for ext :: uint64
proof -
  define E where "E = unat ext"
  have E: "E < 2 ^ 64"
    using unat_lt[of ext] by (simp add: E_def)
  have le: "0x8000000000000000 \<le> ext \<longleftrightarrow> 2 ^ 63 \<le> E" and z: "ext = 0 \<longleftrightarrow> E = 0"
    by (simp_all add: E_def word_le_nat_alt word_eq_0_unat)
  have low: "ext AND 0x7FFFFFFFFFFFFFFF = 0 \<longleftrightarrow> E mod 2 ^ 63 = 0"
    using unat_and_mask[of ext 63] by (simp add: E_def mask_numeral word_eq_0_unat[of "ext AND _"])
  have f: "1 / 2 < real E / 2 ^ 64 \<longleftrightarrow> 2 ^ 63 < E" "real E / 2 ^ 64 = 1 / 2 \<longleftrightarrow> E = 2 ^ 63"
      "1 / 2 \<le> real E / 2 ^ 64 \<longleftrightarrow> 2 ^ 63 \<le> E" "0 < real E / 2 ^ 64 \<longleftrightarrow> 0 < E"
    by (simp_all add: field_simps)
  have t: "2 ^ 63 \<le> E \<Longrightarrow> E mod 2 ^ 63 = 0 \<longleftrightarrow> E = 2 ^ 63"
    using E by (simp add: le_mod_geq)
  consider "md = softfloat_round_near_even" | "md = softfloat_round_min" | "md = softfloat_round_max"
    | "md = softfloat_round_near_maxMag"
    | "md \<notin> {softfloat_round_near_even, softfloat_round_min, softfloat_round_max, softfloat_round_near_maxMag}"
    by blast
  then show ?thesis
    unfolding round64_incr_def le z low E_def[symmetric]
    by cases (use t in \<open>auto simp: int_mode_def round_mode_def f\<close>)
qed

lemma round64_word:
  fixes sig ext :: uint64 and md :: uint_fast8 and sign :: bool
  defines "R \<equiv> rnd (int_mode md) sign (of_nat (unat sig * 2 ^ 64 + unat ext) / 2 ^ 64)"
    and "v \<equiv> (if round64_incr sign md ext
        then (sig + 1) AND NOT (of_bool (ext AND 0x7FFFFFFFFFFFFFFF = 0 \<and> md = softfloat_round_near_even)) else sig)"
  shows "round64_incr sign md ext \<and> sig + 1 = 0 \<Longrightarrow> R = 2 ^ 64"
    and "\<not> (round64_incr sign md ext \<and> sig + 1 = 0) \<Longrightarrow> R = int (unat v)"
proof -
  have E: "unat ext < 2 ^ 64"
    using unat_lt[of ext] by simp
  define t where "t \<longleftrightarrow> ext AND 0x7FFFFFFFFFFFFFFF = 0 \<and> md = softfloat_round_near_even"
  have R: "R = int (unat sig) + of_bool (round64_incr sign md ext \<and> \<not> (t \<and> even (unat sig)))"
  proof -
    have "(unat sig * 2 ^ 64 + unat ext) div 2 ^ 64 = unat sig" "(unat sig * 2 ^ 64 + unat ext) mod 2 ^ 64 = unat ext"
      using E by simp_all
    then show ?thesis
      unfolding R_def t_def by (simp only: rnd_nat_quot_pow2 round64_up not_not conj_assoc)
  qed
  have suc: "sig + 1 = 0 \<longleftrightarrow> unat sig = 2 ^ 64 - 1"
  proof -
    have "sig + 1 = 0 \<longleftrightarrow> sig = - 1"
      by (simp only: eq_neg_iff_add_eq_0)
    also have "\<dots> \<longleftrightarrow> unat sig = unat (- 1 :: uint64)"
      by (rule word_unat_eq_iff)
    finally show ?thesis
      by (simp add: unsigned_minus_1_eq_mask mask_numeral)
  qed
  show "round64_incr sign md ext \<and> sig + 1 = 0 \<Longrightarrow> R = 2 ^ 64"
    unfolding R suc by simp
  have "unat (sig + 1) = unat sig + 1" if "sig + 1 \<noteq> 0"
    using that unat_lt[of sig] unat_add_no_wrap[of sig 1] by (simp add: suc)
  then show "\<not> (round64_incr sign md ext \<and> sig + 1 = 0) \<Longrightarrow> R = int (unat v)"
    unfolding R v_def t_def[symmetric] if_distrib[of unat] unat_and_not_of_bool by auto
qed

lemma int_conv_64:
  "int_conv lo hi m exact s neg (of_nat (unat sig * 2 ^ 64 + unat ext) / 2 ^ 64) =
     int_result lo hi s neg (rnd m neg (of_nat (unat sig * 2 ^ 64 + unat ext) / 2 ^ 64)) (exact \<and> ext \<noteq> 0)"
  for sig ext :: uint64
proof -
  have "unat ext < 2 ^ 64"
    using unat_lt[of ext] by simp
  then show ?thesis
    unfolding int_conv_def rnd_eq_self_iff nat_quot_Ints by (simp add: word_eq_0_unat)
qed

lemma roundToI64_conv:
  "softfloat_roundToI64 sign sig ext md exact s =
     int_conv (- (2 ^ 63)) (2 ^ 63 - 1) (int_mode md) exact s sign (of_nat (unat sig * 2 ^ 64 + unat ext) / 2 ^ 64)"
proof -
  define v where "v = (if round64_incr sign md ext
      then (sig + 1) AND NOT (of_bool (ext AND 0x7FFFFFFFFFFFFFFF = 0 \<and> md = softfloat_round_near_even)) else sig)"
  note w = round64_word[of sign md ext sig, folded v_def]
  show ?thesis
  proof (cases "round64_incr sign md ext \<and> sig + 1 = 0")
    case True
    then show ?thesis
      unfolding softfloat_roundToI64_def Let_def round64_incr_def[symmetric] int_conv_64 w(1)[OF True] int_result_def
      by simp
  next
    case False
    then show ?thesis
      unfolding softfloat_roundToI64_def Let_def round64_incr_def[symmetric] v_def[symmetric] int_conv_64 w(2)[OF False]
      by (simp only: if_False) (subst int_result_sint, simp_all)
  qed
qed

lemma roundToUI64_conv:
  "map_prod uint id (softfloat_roundToUI64 sign sig ext md exact s) =
     int_conv 0 (2 ^ 64 - 1) (int_mode md) exact s sign (of_nat (unat sig * 2 ^ 64 + unat ext) / 2 ^ 64)"
proof -
  define v where "v = (if round64_incr sign md ext
      then (sig + 1) AND NOT (of_bool (ext AND 0x7FFFFFFFFFFFFFFF = 0 \<and> md = softfloat_round_near_even)) else sig)"
  note w = round64_word[of sign md ext sig, folded v_def]
  show ?thesis
  proof (cases "round64_incr sign md ext \<and> sig + 1 = 0")
    case True
    then show ?thesis
      unfolding softfloat_roundToUI64_def Let_def round64_incr_def[symmetric] int_conv_64 w(1)[OF True] int_result_def
      by simp
  next
    case False
    have "uint v = int (unat v)" "v = 0 \<longleftrightarrow> unat v = 0" "unat v < 2 ^ 64"
      using unat_lt[of v] by (simp_all add: uint_nat word_eq_0_unat)
    then show ?thesis
      using False
      unfolding softfloat_roundToUI64_def Let_def round64_incr_def[symmetric] v_def[symmetric] int_conv_64 w(2)[OF False] int_result_def raise_if_def
      by auto
  qed
qed

section \<open>The value that is rounded\<close>

text \<open>Every fraction below one half rounds the same way.\<close>

lemma int_conv_small:
  assumes "0 < x" and "x < 1 / 2" and "0 < y" and "y < 1 / 2"
  shows "int_conv lo hi m exact s neg x = int_conv lo hi m exact s neg y"
proof -
  have f: "\<lfloor>z\<rfloor> = 0" "frac z = z" if "0 < z" "z < 1 / 2" for z :: real
    using that by (simp_all add: floor_eq_iff frac_eq)
  have r: "rnd m neg x = rnd m neg y"
    unfolding rnd_def f[OF assms(1,2)] f[OF assms(3,4)] using assms by (cases m) auto
  have "z \<notin> \<int>" if "0 < z" "z < 1 / 2" for z :: real
    using f[OF that] that by (metis frac_eq_0_iff less_irrefl)
  then show ?thesis
    unfolding int_conv_def rnd_eq_self_iff unfolding r using assms by simp
qed

lemma jam_quot_small:
  assumes "0 < y" and "y < 1" and "2 \<le> k"
  shows "0 < real_of_int (jam y) / 2 ^ k" and "real_of_int (jam y) / 2 ^ k < 1 / 2"
proof -
  have "\<lfloor>y\<rfloor> = 0"
    using assms by (simp add: floor_eq_iff)
  then have j: "jam y = 1"
    using assms(1) by (simp add: jam_alt)
  have "(2::real) ^ 2 \<le> 2 ^ k"
    using assms(3) by (intro power_increasing) simp_all
  then show "0 < real_of_int (jam y) / 2 ^ k" "real_of_int (jam y) / 2 ^ k < 1 / 2"
    unfolding j by (simp_all add: field_simps)
qed

lemma quot_powi: "x * 2 ^ c / 2 ^ d / 2 ^ k = x * 2 powi (int c - int d - int k)" for x :: real
  by (simp add: power_int_diff)

lemma fp_magn_exp:
  assumes "fp_exp p w b \<noteq> 0"
  shows "fp_magn p w b = of_nat (arg_sig p w b) * 2 powi (fp_emin p w + int (fp_exp p w b) - 1)"
  using assms by (simp add: fp_magn_arg max_def)

lemma fp_magn_small:
  assumes "fp_exp p w b = 0" and "int p + fp_emin p w \<le> - 1"
  shows "fp_magn p w b < 1 / 2" and "0 < fp_magn p w b \<longleftrightarrow> arg_sig p w b \<noteq> 0"
proof -
  have "fp_magn p w b = of_nat (arg_sig p w b) * 2 powi fp_emin p w"
    using assms(1) by (simp add: fp_magn_arg)
  moreover have "real (arg_sig p w b) < 2 ^ p"
  proof -
    have "arg_sig p w b < 2 ^ p"
      using fp_frac_less[of p b] assms(1) by (simp add: arg_sig_def)
    then have "real (arg_sig p w b) < real (2 ^ p)"
      by (simp only: of_nat_less_iff)
    then show ?thesis
      by simp
  qed
  moreover have "(2::real) ^ p * 2 powi fp_emin p w = 2 powi (int p + fp_emin p w)"
    by (simp add: powi_plus)
  moreover have "(2::real) powi (int p + fp_emin p w) \<le> 2 powi (- 1)"
    using assms(2) by (intro power_int_increasing) simp_all
  moreover have "(0::real) < 2 powi fp_emin p w"
    by simp
  ultimately show "fp_magn p w b < 1 / 2" "0 < fp_magn p w b \<longleftrightarrow> arg_sig p w b \<noteq> 0"
    using mult_strict_right_mono[of "real (arg_sig p w b)" "2 ^ p" "2 powi fp_emin p w"]
    by (simp_all add: zero_less_mult_iff power_int_minus)
qed

text \<open>
  The routines treat a subnormal as if its exponent field were used as it is, half of its
  value; both are far below one half.
\<close>

lemma int_conv_arg:
  assumes "x = of_nat (arg_sig p w b) * 2 powi (fp_emin p w + int (fp_exp p w b) - 1)"
    and "int p + fp_emin p w \<le> - 1"
  shows "int_conv lo hi m exact s neg x = int_conv lo hi m exact s neg (fp_magn p w b)"
proof (cases "fp_exp p w b = 0")
  case False
  then show ?thesis
    using assms(1) by (simp add: fp_magn_exp)
next
  case True
  have h: "fp_magn p w b = 2 * x"
    using True assms(1) powi_plus[of 1 "fp_emin p w - 1"] by (simp add: fp_magn_arg)
  then show ?thesis
    using fp_magn_small[OF True assms(2)] int_conv_small[of x "2 * x"] by (cases "arg_sig p w b = 0") (simp_all add: assms(1))
qed

lemma int_conv_jam_arg:
  assumes "2 \<le> k" and "int c - int d - int k = fp_emin p w + int (fp_exp p w b) - 1"
    and "int p + fp_emin p w \<le> - 1"
  shows "int_conv lo hi m exact s neg (of_int (jam (of_nat (arg_sig p w b * 2 ^ c) / 2 ^ d)) / 2 ^ k) =
    int_conv lo hi m exact s neg (fp_magn p w b)"
  unfolding int_conv_jam[OF assms(1)]
  by (rule int_conv_arg[OF _ assms(3)]) (simp only: of_nat_mult of_nat_power of_nat_numeral quot_powi assms(2))

lemma shiftRightJam64Extra_conv:
  fixes a d :: uint64
  assumes "d \<noteq> 0" and "z = softfloat_shiftRightJam64Extra a 0 d"
  shows "int_conv lo hi m exact s neg (of_nat (unat (u64x_v z) * 2 ^ 64 + unat (u64x_extra z)) / 2 ^ 64) =
    int_conv lo hi m exact s neg (of_nat (unat a) / 2 ^ unat d)"
proof -
  have small: "0 < real (unat a) / 2 ^ unat d" "real (unat a) / 2 ^ unat d < 1 / 2" if "64 < unat d" "a \<noteq> 0"
  proof -
    have "real (unat a) < real (2 ^ 64)"
      unfolding of_nat_less_iff using unat_lt[of a] by simp
    moreover have "(2::real) ^ 65 \<le> 2 ^ unat d"
      using that(1) by (intro power_increasing) simp_all
    ultimately show "real (unat a) / 2 ^ unat d < 1 / 2"
      by (simp add: divide_less_eq)
    show "0 < real (unat a) / 2 ^ unat d"
      using that(2) by (simp add: unat_gt_0)
  qed
  consider "unat d < 64" | "unat d = 64" | "64 < unat d"
    by linarith
  then show ?thesis
  proof cases
    case 1
    define X where "X = unat a * 2 ^ (64 - unat d)"
    have d: "0 < unat d" "d < 64"
      using assms(1) 1 by (simp_all add: unat_gt_0 word_less_nat_alt)
    have e: "unat (- d AND 63) = 64 - unat d"
      using unat_neg_and[of d 6] d 1 by (simp add: mask_numeral)
    have p: "(2::nat) ^ 64 = 2 ^ unat d * 2 ^ (64 - unat d)"
      using 1 by (simp only: power_add[symmetric] le_add_diff_inverse less_imp_le)
    have "unat (u64x_v z) = X div 2 ^ 64"
      unfolding X_def p by (simp add: assms(2) softfloat_shiftRightJam64Extra_def d(2) unat_drop_bit_div)
    moreover have "unat (u64x_extra z) = X mod 2 ^ 64"
      by (simp add: assms(2) softfloat_shiftRightJam64Extra_def d(2) e X_def unat_push_bit_mod)
    ultimately have n: "unat (u64x_v z) * 2 ^ 64 + unat (u64x_extra z) = X"
      by (simp only: div_mult_mod_eq)
    have q: "(2::real) ^ 64 = 2 ^ unat d * 2 ^ (64 - unat d)"
      using 1 by (simp only: power_add[symmetric] le_add_diff_inverse less_imp_le)
    have "real X / 2 ^ 64 = real (unat a) / 2 ^ unat d"
      unfolding q X_def by simp
    then show ?thesis
      unfolding n by (simp only:)
  next
    case 2
    then have "d = 64"
      by (simp add: word_unat_eq_iff)
    then show ?thesis
      by (simp add: assms(2) softfloat_shiftRightJam64Extra_def)
  next
    case 3
    then have d: "\<not> d < 64" "d \<noteq> 64"
      by (auto simp: word_less_nat_alt)
    show ?thesis
    proof (cases "a = 0")
      case False
      then show ?thesis
        using small[OF 3 False] by (intro int_conv_small) (simp_all add: assms(2) softfloat_shiftRightJam64Extra_def d)
    qed (simp add: assms(2) softfloat_shiftRightJam64Extra_def d)
  qed
qed

end
