(* ===== verification/SF_ToIntCorrect.thy ===== *)
theory SF_ToIntCorrect
  imports SF_ToInt
begin

text \<open>
  Correctness of the conversions of \<open>SF_ToInt\<close>: each rounds the number its operand stands for
  as \<open>to_int_spec\<close> says, with the overflow results and flags, for every operand and mode.
\<close>

lemma arg_sig_less: "arg_sig p w b < 2 ^ (p + 1)"
  using fp_frac_less[of p b] by (simp add: arg_sig_def)


text \<open>
  A significand that is not shifted right is beyond every integer type, and so is the number;
  the same holds of infinities and NaNs.
\<close>

definition over_result :: "int \<Rightarrow> int \<Rightarrow> softfloat_state \<Rightarrow> bool \<Rightarrow> int \<times> softfloat_state" where
  "over_result lo hi s neg = (if neg then lo else hi, softfloat_raiseFlags softfloat_flag_invalid s)"

lemma fp_magn_ge:
  assumes "fp_exp p w b \<noteq> 0" and "n \<le> int p + fp_emin p w + int (fp_exp p w b) - 1" and "0 \<le> n"
  shows "of_int (2 ^ nat n) \<le> fp_magn p w b"
proof -
  define t where "t = fp_emin p w + int (fp_exp p w b) - 1"
  have "of_int (2 ^ nat n) = (2::real) powi n"
    using assms(3) by (simp add: power_int_def)
  also have "\<dots> \<le> 2 powi (int p + t)"
    using assms(2) by (intro power_int_increasing) (simp_all add: t_def)
  also have "\<dots> = real (2 ^ p) * 2 powi t"
    by (simp add: powi_plus)
  also have "\<dots> \<le> real (arg_sig p w b) * 2 powi t"
    using arg_sig_bounds(3)[OF assms(1)] by (intro mult_right_mono) (simp_all only: of_nat_le_iff, simp)
  also have "\<dots> = fp_magn p w b"
    using fp_magn_exp[OF assms(1)] by (simp add: t_def)
  finally show ?thesis .
qed

lemma to_int_spec_over:
  assumes "fp_exp p w b \<noteq> 0" and "n \<le> int p + fp_emin p w + int (fp_exp p w b) - 1" and "0 \<le> n"
    and "- (2 ^ nat n) < lo" and "hi < 2 ^ nat n"
  shows "to_int_spec p w lo hi m exact s b = over_result lo hi s (fp_sign p w b \<and> \<not> fp_nan p w b)"
  using int_conv_overflow[OF fp_magn_ge[OF assms(1-3)], of "fp_sign p w b" lo hi] assms(4,5)
  by (auto simp: to_int_spec_def over_result_def)

lemma to_int_spec_finite:
  assumes "fp_exp p w b < 2 ^ w - 1"
  shows "to_int_spec p w lo hi m exact s b = int_conv lo hi m exact s (fp_sign p w b) (fp_magn p w b)"
    and "\<not> fp_nan p w b"
  using assms by (simp_all add: to_int_spec_def fp_class_fields)

lemma to_int32_core:
  fixes u :: uint64 and f :: "'r \<Rightarrow> int \<times> softfloat_state"
  assumes conv: "\<And>sign sig. unat sig < 2 ^ 63 \<Longrightarrow>
      f (rndw sign sig) = int_conv lo hi m exact s sign (of_nat (unat sig) / 2 ^ 12)"
    and u: "unat u = arg_sig p w b * 2 ^ c" and c: "p + c < 62" "44 \<le> p + c"
    and D: "fp_emin p w - 1 = int c - int D - 12" "D < 2 ^ 32" "D < 2 ^ w" "c + p < D"
    and lohi: "- (2 ^ 32) < lo" "hi < 2 ^ 32" and e: "e = fp_exp p w b"
  shows "f (rndw (fp_sign p w b \<and> \<not> fp_nan p w b)
      (if e < D then softfloat_shiftRightJam64 u (word_of_int (int D - int e)) else u)) = to_int_spec p w lo hi m exact s b"
proof -
  have "arg_sig p w b * 2 ^ c < 2 ^ (p + 1) * 2 ^ c"
    using arg_sig_less[of p w b] by simp
  also have "\<dots> \<le> 2 ^ 62"
    unfolding power_add[symmetric] using c(1) by (intro power_increasing) simp_all
  finally have u63: "unat u < 2 ^ 63"
    by (simp add: u)
  show ?thesis
  proof (cases "e < D")
    case True
    then have d: "unat (word_of_int (int D - int e) :: uint64) = D - e"
      using D(2) by (subst unat_word_of_int) (simp_all add: nat_diff_distrib)
    then have nz: "word_of_int (int D - int e) \<noteq> (0 :: uint64)"
      using True by (metis unat_0 zero_less_diff less_irrefl)
    have j: "int (unat (softfloat_shiftRightJam64 u (word_of_int (int D - int e)))) =
        jam (of_nat (arg_sig p w b * 2 ^ c) / 2 ^ (D - e))"
      using shiftRightJam64_correct[OF nz, of u] by (simp only: u d)
    have "int (unat (softfloat_shiftRightJam64 u (word_of_int (int D - int e)))) \<le> int (unat u)"
      using jam_quot_le[of "unat u" "D - e"] by (simp only: j u)
    then have l: "unat (softfloat_shiftRightJam64 u (word_of_int (int D - int e))) < 2 ^ 63"
      using u63 by (simp only: of_nat_le_iff)
    have r: "real (unat (softfloat_shiftRightJam64 u (word_of_int (int D - int e)))) =
        real_of_int (jam (of_nat (arg_sig p w b * 2 ^ c) / 2 ^ (D - e)))"
      using j by (metis of_int_of_nat_eq)
    have "int c - int (D - e) - int 12 = fp_emin p w + int (fp_exp p w b) - 1"
      using D(1) True e by simp
    moreover have "int p + fp_emin p w \<le> - 1"
      using D(1,4) by simp
    ultimately have "f (rndw sg (softfloat_shiftRightJam64 u (word_of_int (int D - int e)))) =
        int_conv lo hi m exact s sg (fp_magn p w b)" for sg
      unfolding conv[OF l] r by (intro int_conv_jam_arg) simp_all
    moreover have "fp_exp p w b < 2 ^ w - 1"
      using True D(3) e by simp
    ultimately show ?thesis
      using True by (simp only: if_True to_int_spec_finite not_False_eq_True simp_thms)
  next
    case False
    then have nz: "fp_exp p w b \<noteq> 0"
      using D(4) e by simp
    have "(2::nat) ^ 44 \<le> 2 ^ p * 2 ^ c"
      unfolding power_add[symmetric] using c(2) by (intro power_increasing) simp_all
    also have "\<dots> \<le> unat u"
      using arg_sig_bounds(3)[OF nz] by (simp add: u)
    finally have "real (2 ^ 44) \<le> real (unat u)"
      by (simp only: of_nat_le_iff)
    then have "real_of_int (2 ^ 32) \<le> of_nat (unat u) / 2 ^ 12"
      by (simp add: le_divide_eq)
    then have "f (rndw sign u) = over_result lo hi s sign" for sign
      unfolding conv[OF u63] over_result_def using lohi by (intro int_conv_overflow) simp_all
    moreover have "to_int_spec p w lo hi m exact s b = over_result lo hi s (fp_sign p w b \<and> \<not> fp_nan p w b)"
      using to_int_spec_over[OF nz, of 32 lo hi] False D(1) c(2) e lohi by simp
    ultimately show ?thesis
      using False by simp
  qed
qed

lemma to_int64_right:
  fixes u :: uint64 and f :: "'r \<Rightarrow> int \<times> softfloat_state"
  assumes conv: "\<And>sign sig ext. f (rndx sign sig ext) =
      int_conv lo hi m exact s sign (of_nat (unat sig * 2 ^ 64 + unat ext) / 2 ^ 64)"
    and u: "unat u = arg_sig p w b * 2 ^ c"
    and d: "0 < d" "d < 2 ^ 32" "int c - d = fp_emin p w + int (fp_exp p w b) - 1" "int p + fp_emin p w \<le> - 1"
    and e: "fp_exp p w b < 2 ^ w - 1" and z: "z = softfloat_shiftRightJam64Extra u 0 (word_of_int d)"
  shows "f (rndx (fp_sign p w b) (u64x_v z) (u64x_extra z)) = to_int_spec p w lo hi m exact s b"
proof -
  have w: "unat (word_of_int d :: uint64) = nat d"
    using d by (subst unat_word_of_int) simp_all
  then have nz: "word_of_int d \<noteq> (0 :: uint64)"
    using d(1) by (metis unat_0 zero_less_nat_eq less_irrefl)
  have "real (arg_sig p w b * 2 ^ c) / 2 ^ nat d = real (arg_sig p w b) * 2 powi (fp_emin p w + int (fp_exp p w b) - 1)"
    using quot_powi[of "real (arg_sig p w b)" c "nat d" 0] d(1,3) by simp
  then show ?thesis
    unfolding conv shiftRightJam64Extra_conv[OF nz z] to_int_spec_finite(1)[OF e] u w
    by (rule int_conv_arg) (rule d(4))
qed

lemma to_int64_left:
  fixes v :: uint64 and f :: "'r \<Rightarrow> int \<times> softfloat_state"
  assumes conv: "\<And>sign sig ext. f (rndx sign sig ext) =
      int_conv lo hi m exact s sign (of_nat (unat sig * 2 ^ 64 + unat ext) / 2 ^ 64)"
    and v: "unat v = arg_sig p w b * 2 ^ c" "int c = fp_emin p w + int (fp_exp p w b) - 1"
    and e: "0 < fp_exp p w b" "fp_exp p w b < 2 ^ w - 1"
  shows "f (rndx (fp_sign p w b) v 0) = to_int_spec p w lo hi m exact s b"
proof -
  have "fp_magn p w b = real (unat v)"
    using fp_magn_exp[of p w b] e(1) by (simp add: v flip: v(2))
  then show ?thesis
    unfolding conv to_int_spec_finite(1)[OF e(2)] by simp
qed

section \<open>The significand of an operand\<close>

lemma arg_sigF16:
  "unat (if expF16UI (to_u64 a) \<noteq> 0 then fracF16UI (to_u64 a) OR 0x0400 else fracF16UI (to_u64 a)) = arg_sig 10 5 (unat a)"
  for a :: float16
  using unat_or_pow2[of "fracF16UI (to_u64 a)" 10 "0x0400"] fp_frac_less[of 10 "unat a"]
  by (simp add: F16_fields arg_sig_def)

lemma nanF16_fields: "expF16UI (to_u64 a) = 0x1F \<and> fracF16UI (to_u64 a) \<noteq> 0 \<longleftrightarrow> fp_nan 10 5 (unat a)" for a :: float16
proof -
  have "expF16UI (to_u64 a) = 0x1F \<longleftrightarrow> fp_exp 10 5 (unat a) = 0x1F"
    unfolding F16_fields by linarith
  then show ?thesis
    by (simp add: fp_class_fields word_eq_0_unat[of "fracF16UI _"] F16_fields)
qed

lemma arg_sigF32:
  "unat (if expF32UI (to_u64 a) \<noteq> 0 then fracF32UI (to_u64 a) OR 0x00800000 else fracF32UI (to_u64 a)) = arg_sig 23 8 (unat a)"
  for a :: float32
  using unat_or_pow2[of "fracF32UI (to_u64 a)" 23 "0x00800000"] fp_frac_less[of 23 "unat a"]
  by (simp add: F32_fields arg_sig_def)

lemma nanF32_fields: "expF32UI (to_u64 a) = 0xFF \<and> fracF32UI (to_u64 a) \<noteq> 0 \<longleftrightarrow> fp_nan 23 8 (unat a)" for a :: float32
proof -
  have "expF32UI (to_u64 a) = 0xFF \<longleftrightarrow> fp_exp 23 8 (unat a) = 0xFF"
    unfolding F32_fields by linarith
  then show ?thesis
    by (simp add: fp_class_fields word_eq_0_unat[of "fracF32UI _"] F32_fields)
qed

lemma arg_sigF64:
  "unat (if expF64UI a \<noteq> 0 then fracF64UI a OR 0x0010000000000000 else fracF64UI a) = arg_sig 52 11 (unat a)"
  for a :: float64
  using unat_or_pow2[of "fracF64UI a" 52 "0x0010000000000000"] fp_frac_less[of 52 "unat a"]
  by (simp add: F64_fields arg_sig_def)

lemma nanF64_fields: "expF64UI a = 0x7FF \<and> fracF64UI a \<noteq> 0 \<longleftrightarrow> fp_nan 52 11 (unat a)" for a :: float64
proof -
  have "expF64UI a = 0x7FF \<longleftrightarrow> fp_exp 52 11 (unat a) = 0x7FF"
    unfolding F64_fields by linarith
  then show ?thesis
    by (simp add: fp_class_fields word_eq_0_unat[of "fracF64UI _"] F64_fields)
qed

section \<open>Conversions with the rounding mode of the caller\<close>

lemma f32_to_i32_conv:
  "f32_to_i32 a md exact s = to_int_spec 23 8 (- (2 ^ 31)) (2 ^ 31 - 1) (int_mode md) exact s (unat a)"
proof -
  define e where "e = fp_exp 23 8 (unat a)"
  define sg where "sg = (if expF32UI (to_u64 a) \<noteq> 0 then fracF32UI (to_u64 a) OR 0x00800000 else fracF32UI (to_u64 a))"
  have e: "expF32UI (to_u64 a) = int e"
    by (simp add: F32_fields e_def)
  have sg: "unat (push_bit 32 sg) = arg_sig 23 8 (unat a) * 2 ^ 32"
    using arg_sigF32[of a, folded sg_def] arg_sig_less[of 23 8 "unat a"] by (subst unat_push_bit_mult) simp_all
  have "f32_to_i32 a md exact s = softfloat_roundToI32 (fp_sign 23 8 (unat a) \<and> \<not> fp_nan 23 8 (unat a))
      (if e < 0xAA then softfloat_shiftRightJam64 (push_bit 32 sg) (word_of_int (int 0xAA - int e)) else push_bit 32 sg) md exact s"
    unfolding f32_to_i32_def Let_def sg_def[symmetric] nanF32_fields unfolding e F32_fields(1) by simp
  then show ?thesis
    using to_int32_core[where rndw = "\<lambda>sign sig. softfloat_roundToI32 sign sig md exact s" and f = "(\<lambda>r. r)" and D = "0xAA", OF _ sg _ _ _ _ _ _ _ _ e_def]
      roundToI32_conv
    by (simp add: fp_emin_def fp_bias_def)
qed

lemma f32_to_ui32_conv:
  "map_prod uint id (f32_to_ui32 a md exact s) = to_int_spec 23 8 0 (2 ^ 32 - 1) (int_mode md) exact s (unat a)"
proof -
  define e where "e = fp_exp 23 8 (unat a)"
  define sg where "sg = (if expF32UI (to_u64 a) \<noteq> 0 then fracF32UI (to_u64 a) OR 0x00800000 else fracF32UI (to_u64 a))"
  have e: "expF32UI (to_u64 a) = int e"
    by (simp add: F32_fields e_def)
  have sg: "unat (push_bit 32 sg) = arg_sig 23 8 (unat a) * 2 ^ 32"
    using arg_sigF32[of a, folded sg_def] arg_sig_less[of 23 8 "unat a"] by (subst unat_push_bit_mult) simp_all
  have "f32_to_ui32 a md exact s = softfloat_roundToUI32 (fp_sign 23 8 (unat a) \<and> \<not> fp_nan 23 8 (unat a))
      (if e < 0xAA then softfloat_shiftRightJam64 (push_bit 32 sg) (word_of_int (int 0xAA - int e)) else push_bit 32 sg) md exact s"
    unfolding f32_to_ui32_def Let_def sg_def[symmetric] nanF32_fields unfolding e F32_fields(1) by simp
  then show ?thesis
    using to_int32_core[where rndw = "\<lambda>sign sig. softfloat_roundToUI32 sign sig md exact s" and f = "(map_prod uint id)" and D = "0xAA", OF _ sg _ _ _ _ _ _ _ _ e_def]
      roundToUI32_conv
    by (simp add: fp_emin_def fp_bias_def)
qed

lemma f32_to_i64_conv:
  "f32_to_i64 a md exact s = to_int_spec 23 8 (- (2 ^ 63)) (2 ^ 63 - 1) (int_mode md) exact s (unat a)"
proof -
  define e where "e = fp_exp 23 8 (unat a)"
  define sg where "sg = (if expF32UI (to_u64 a) \<noteq> 0 then fracF32UI (to_u64 a) OR 0x00800000 else fracF32UI (to_u64 a))"
  have e: "expF32UI (to_u64 a) = int e"
    by (simp add: F32_fields e_def)
  have sg: "unat (push_bit 40 sg) = arg_sig 23 8 (unat a) * 2 ^ 40"
    using arg_sigF32[of a, folded sg_def] arg_sig_less[of 23 8 "unat a"] by (subst unat_push_bit_mult) simp_all
  note core = to_int64_right[where rndx = "\<lambda>sign sig ext. softfloat_roundToI64 sign sig ext md exact s" and f = "(\<lambda>r. r)", OF roundToI64_conv sg]
    to_int64_left[where rndx = "\<lambda>sign sig ext. softfloat_roundToI64 sign sig ext md exact s" and f = "(\<lambda>r. r)", OF roundToI64_conv]
  have em: "fp_emin 23 8 = -149"
    by (simp add: fp_emin_def fp_bias_def)
  consider "0xBE < e" | "e = 0xBE" | "e < 0xBE"
    by linarith
  then show ?thesis
  proof cases
    case 1
    then have "to_int_spec 23 8 (- (2 ^ 63)) (2 ^ 63 - 1) (int_mode md) exact s (unat a) =
        over_result (- (2 ^ 63)) (2 ^ 63 - 1) s (fp_sign 23 8 (unat a) \<and> \<not> fp_nan 23 8 (unat a))"
      by (intro to_int_spec_over[where n = 64]) (simp_all add: e_def em)
    then show ?thesis
      using 1 unfolding f32_to_i64_def Let_def nanF32_fields unfolding e F32_fields(1) over_result_def by simp
  next
    case 2
    have "f32_to_i64 a md exact s = (\<lambda>r. r) (softfloat_roundToI64 (fp_sign 23 8 (unat a)) (push_bit 40 sg) 0 md exact s)"
      unfolding f32_to_i64_def Let_def sg_def[symmetric] nanF32_fields unfolding e F32_fields(1) using 2 by simp
    then show ?thesis
      using core(2)[OF sg] 2 by (simp add: e_def em)
  next
    case 3
    have "f32_to_i64 a md exact s = (\<lambda>r. r) (let z = softfloat_shiftRightJam64Extra (push_bit 40 sg) 0 (word_of_int (0xBE - int e))
        in softfloat_roundToI64 (fp_sign 23 8 (unat a)) (u64x_v z) (u64x_extra z) md exact s)"
      unfolding f32_to_i64_def Let_def sg_def[symmetric] nanF32_fields unfolding e F32_fields(1) using 3 by simp
    then show ?thesis
      using core(1)[OF _ _ _ _ _ refl, of "0xBE - int e"] 3 by (simp add: e_def em Let_def)
  qed
qed

lemma f32_to_ui64_conv:
  "map_prod uint id (f32_to_ui64 a md exact s) = to_int_spec 23 8 0 (2 ^ 64 - 1) (int_mode md) exact s (unat a)"
proof -
  define e where "e = fp_exp 23 8 (unat a)"
  define sg where "sg = (if expF32UI (to_u64 a) \<noteq> 0 then fracF32UI (to_u64 a) OR 0x00800000 else fracF32UI (to_u64 a))"
  have e: "expF32UI (to_u64 a) = int e"
    by (simp add: F32_fields e_def)
  have sg: "unat (push_bit 40 sg) = arg_sig 23 8 (unat a) * 2 ^ 40"
    using arg_sigF32[of a, folded sg_def] arg_sig_less[of 23 8 "unat a"] by (subst unat_push_bit_mult) simp_all
  note core = to_int64_right[where rndx = "\<lambda>sign sig ext. softfloat_roundToUI64 sign sig ext md exact s" and f = "(map_prod uint id)", OF roundToUI64_conv sg]
    to_int64_left[where rndx = "\<lambda>sign sig ext. softfloat_roundToUI64 sign sig ext md exact s" and f = "(map_prod uint id)", OF roundToUI64_conv]
  have em: "fp_emin 23 8 = -149"
    by (simp add: fp_emin_def fp_bias_def)
  consider "0xBE < e" | "e = 0xBE" | "e < 0xBE"
    by linarith
  then show ?thesis
  proof cases
    case 1
    then have "to_int_spec 23 8 0 (2 ^ 64 - 1) (int_mode md) exact s (unat a) =
        over_result 0 (2 ^ 64 - 1) s (fp_sign 23 8 (unat a) \<and> \<not> fp_nan 23 8 (unat a))"
      by (intro to_int_spec_over[where n = 64]) (simp_all add: e_def em)
    then show ?thesis
      using 1 unfolding f32_to_ui64_def Let_def nanF32_fields unfolding e F32_fields(1) over_result_def by simp
  next
    case 2
    have "map_prod uint id (f32_to_ui64 a md exact s) = (map_prod uint id) (softfloat_roundToUI64 (fp_sign 23 8 (unat a)) (push_bit 40 sg) 0 md exact s)"
      unfolding f32_to_ui64_def Let_def sg_def[symmetric] nanF32_fields unfolding e F32_fields(1) using 2 by simp
    then show ?thesis
      using core(2)[OF sg] 2 by (simp add: e_def em)
  next
    case 3
    have "map_prod uint id (f32_to_ui64 a md exact s) = (map_prod uint id) (let z = softfloat_shiftRightJam64Extra (push_bit 40 sg) 0 (word_of_int (0xBE - int e))
        in softfloat_roundToUI64 (fp_sign 23 8 (unat a)) (u64x_v z) (u64x_extra z) md exact s)"
      unfolding f32_to_ui64_def Let_def sg_def[symmetric] nanF32_fields unfolding e F32_fields(1) using 3 by simp
    then show ?thesis
      using core(1)[OF _ _ _ _ _ refl, of "0xBE - int e"] 3 by (simp add: e_def em Let_def)
  qed
qed

lemma f64_to_i32_conv:
  "f64_to_i32 a md exact s = to_int_spec 52 11 (- (2 ^ 31)) (2 ^ 31 - 1) (int_mode md) exact s (unat a)"
proof -
  define e where "e = fp_exp 52 11 (unat a)"
  define sg where "sg = (if expF64UI a \<noteq> 0 then fracF64UI a OR 0x0010000000000000 else fracF64UI a)"
  have e: "expF64UI a = int e"
    by (simp add: F64_fields e_def)
  have sg: "unat (sg) = arg_sig 52 11 (unat a) * 2 ^ 0"
    using arg_sigF64[of a, folded sg_def] by simp
  have "f64_to_i32 a md exact s = softfloat_roundToI32 (fp_sign 52 11 (unat a) \<and> \<not> fp_nan 52 11 (unat a))
      (if e < 0x427 then softfloat_shiftRightJam64 (sg) (word_of_int (int 0x427 - int e)) else sg) md exact s"
    unfolding f64_to_i32_def Let_def sg_def[symmetric] nanF64_fields unfolding e F64_fields(1) by simp
  then show ?thesis
    using to_int32_core[where rndw = "\<lambda>sign sig. softfloat_roundToI32 sign sig md exact s" and f = "(\<lambda>r. r)" and D = "0x427", OF _ sg _ _ _ _ _ _ _ _ e_def]
      roundToI32_conv
    by (simp add: fp_emin_def fp_bias_def)
qed

lemma f64_to_ui32_conv:
  "map_prod uint id (f64_to_ui32 a md exact s) = to_int_spec 52 11 0 (2 ^ 32 - 1) (int_mode md) exact s (unat a)"
proof -
  define e where "e = fp_exp 52 11 (unat a)"
  define sg where "sg = (if expF64UI a \<noteq> 0 then fracF64UI a OR 0x0010000000000000 else fracF64UI a)"
  have e: "expF64UI a = int e"
    by (simp add: F64_fields e_def)
  have sg: "unat (sg) = arg_sig 52 11 (unat a) * 2 ^ 0"
    using arg_sigF64[of a, folded sg_def] by simp
  have "f64_to_ui32 a md exact s = softfloat_roundToUI32 (fp_sign 52 11 (unat a) \<and> \<not> fp_nan 52 11 (unat a))
      (if e < 0x427 then softfloat_shiftRightJam64 (sg) (word_of_int (int 0x427 - int e)) else sg) md exact s"
    unfolding f64_to_ui32_def Let_def sg_def[symmetric] nanF64_fields unfolding e F64_fields(1) by simp
  then show ?thesis
    using to_int32_core[where rndw = "\<lambda>sign sig. softfloat_roundToUI32 sign sig md exact s" and f = "(map_prod uint id)" and D = "0x427", OF _ sg _ _ _ _ _ _ _ _ e_def]
      roundToUI32_conv
    by (simp add: fp_emin_def fp_bias_def)
qed

lemma f64_to_i64_conv:
  "f64_to_i64 a md exact s = to_int_spec 52 11 (- (2 ^ 63)) (2 ^ 63 - 1) (int_mode md) exact s (unat a)"
proof -
  define e where "e = fp_exp 52 11 (unat a)"
  define sg where "sg = (if expF64UI a \<noteq> 0 then fracF64UI a OR 0x0010000000000000 else fracF64UI a)"
  have e: "expF64UI a = int e"
    by (simp add: F64_fields e_def)
  have sg: "unat (sg) = arg_sig 52 11 (unat a) * 2 ^ 0"
    using arg_sigF64[of a, folded sg_def] by simp
  note core = to_int64_right[where rndx = "\<lambda>sign sig ext. softfloat_roundToI64 sign sig ext md exact s" and f = "(\<lambda>r. r)", OF roundToI64_conv sg]
    to_int64_left[where rndx = "\<lambda>sign sig ext. softfloat_roundToI64 sign sig ext md exact s" and f = "(\<lambda>r. r)", OF roundToI64_conv]
  have em: "fp_emin 52 11 = -1074"
    by (simp add: fp_emin_def fp_bias_def)
  consider "0x43E < e" | "e = 0x433" | "0x433 < e" "e \<le> 0x43E" | "e < 0x433"
    by linarith
  then show ?thesis
  proof cases
    case 1
    then have "to_int_spec 52 11 (- (2 ^ 63)) (2 ^ 63 - 1) (int_mode md) exact s (unat a) =
        over_result (- (2 ^ 63)) (2 ^ 63 - 1) s (fp_sign 52 11 (unat a) \<and> \<not> fp_nan 52 11 (unat a))"
      by (intro to_int_spec_over[where n = 64]) (simp_all add: e_def em)
    then show ?thesis
      using 1 unfolding f64_to_i64_def Let_def nanF64_fields unfolding e F64_fields(1) over_result_def by simp
  next
    case 2
    have "f64_to_i64 a md exact s = (\<lambda>r. r) (softfloat_roundToI64 (fp_sign 52 11 (unat a)) (sg) 0 md exact s)"
      unfolding f64_to_i64_def Let_def sg_def[symmetric] nanF64_fields unfolding e F64_fields(1) using 2 by simp
    then show ?thesis
      using core(2)[OF sg] 2 by (simp add: e_def em)
  next
    case 3
    have l: "unat (shl sg (int e - 0x433)) = arg_sig 52 11 (unat a) * 2 ^ (e - 0x433)"
    proof -
      have "arg_sig 52 11 (unat a) * 2 ^ (e - 0x433) < 2 ^ 53 * 2 ^ (e - 0x433)"
        using arg_sig_less[of 52 11 "unat a"] by simp
      also have "\<dots> \<le> 2 ^ 53 * 2 ^ 11"
        using 3 by (intro mult_left_mono power_increasing) simp_all
      finally show ?thesis
        using sg 3 by (subst unat_push_bit_mult) (simp_all add: nat_diff_distrib)
    qed
    have "f64_to_i64 a md exact s = (\<lambda>r. r) (softfloat_roundToI64 (fp_sign 52 11 (unat a)) (shl sg (int e - 0x433)) 0 md exact s)"
      unfolding f64_to_i64_def Let_def sg_def[symmetric] nanF64_fields unfolding e F64_fields(1) using 3 by simp
    then show ?thesis
      using core(2)[OF l] 3 by (simp add: e_def em)
  next
    case 4
    have "f64_to_i64 a md exact s = (\<lambda>r. r) (let z = softfloat_shiftRightJam64Extra (sg) 0 (word_of_int (0x433 - int e))
        in softfloat_roundToI64 (fp_sign 52 11 (unat a)) (u64x_v z) (u64x_extra z) md exact s)"
      unfolding f64_to_i64_def Let_def sg_def[symmetric] nanF64_fields unfolding e F64_fields(1) using 4 by simp
    then show ?thesis
      using core(1)[OF _ _ _ _ _ refl, of "0x433 - int e"] 4 by (simp add: e_def em Let_def)
  qed
qed

lemma f64_to_ui64_conv:
  "map_prod uint id (f64_to_ui64 a md exact s) = to_int_spec 52 11 0 (2 ^ 64 - 1) (int_mode md) exact s (unat a)"
proof -
  define e where "e = fp_exp 52 11 (unat a)"
  define sg where "sg = (if expF64UI a \<noteq> 0 then fracF64UI a OR 0x0010000000000000 else fracF64UI a)"
  have e: "expF64UI a = int e"
    by (simp add: F64_fields e_def)
  have sg: "unat (sg) = arg_sig 52 11 (unat a) * 2 ^ 0"
    using arg_sigF64[of a, folded sg_def] by simp
  note core = to_int64_right[where rndx = "\<lambda>sign sig ext. softfloat_roundToUI64 sign sig ext md exact s" and f = "(map_prod uint id)", OF roundToUI64_conv sg]
    to_int64_left[where rndx = "\<lambda>sign sig ext. softfloat_roundToUI64 sign sig ext md exact s" and f = "(map_prod uint id)", OF roundToUI64_conv]
  have em: "fp_emin 52 11 = -1074"
    by (simp add: fp_emin_def fp_bias_def)
  consider "0x43E < e" | "e = 0x433" | "0x433 < e" "e \<le> 0x43E" | "e < 0x433"
    by linarith
  then show ?thesis
  proof cases
    case 1
    then have "to_int_spec 52 11 0 (2 ^ 64 - 1) (int_mode md) exact s (unat a) =
        over_result 0 (2 ^ 64 - 1) s (fp_sign 52 11 (unat a) \<and> \<not> fp_nan 52 11 (unat a))"
      by (intro to_int_spec_over[where n = 64]) (simp_all add: e_def em)
    then show ?thesis
      using 1 unfolding f64_to_ui64_def Let_def nanF64_fields unfolding e F64_fields(1) over_result_def by simp
  next
    case 2
    have "map_prod uint id (f64_to_ui64 a md exact s) = (map_prod uint id) (softfloat_roundToUI64 (fp_sign 52 11 (unat a)) (sg) 0 md exact s)"
      unfolding f64_to_ui64_def Let_def sg_def[symmetric] nanF64_fields unfolding e F64_fields(1) using 2 by simp
    then show ?thesis
      using core(2)[OF sg] 2 by (simp add: e_def em)
  next
    case 3
    have l: "unat (shl sg (int e - 0x433)) = arg_sig 52 11 (unat a) * 2 ^ (e - 0x433)"
    proof -
      have "arg_sig 52 11 (unat a) * 2 ^ (e - 0x433) < 2 ^ 53 * 2 ^ (e - 0x433)"
        using arg_sig_less[of 52 11 "unat a"] by simp
      also have "\<dots> \<le> 2 ^ 53 * 2 ^ 11"
        using 3 by (intro mult_left_mono power_increasing) simp_all
      finally show ?thesis
        using sg 3 by (subst unat_push_bit_mult) (simp_all add: nat_diff_distrib)
    qed
    have "map_prod uint id (f64_to_ui64 a md exact s) = (map_prod uint id) (softfloat_roundToUI64 (fp_sign 52 11 (unat a)) (shl sg (int e - 0x433)) 0 md exact s)"
      unfolding f64_to_ui64_def Let_def sg_def[symmetric] nanF64_fields unfolding e F64_fields(1) using 3 by simp
    then show ?thesis
      using core(2)[OF l] 3 by (simp add: e_def em)
  next
    case 4
    have "map_prod uint id (f64_to_ui64 a md exact s) = (map_prod uint id) (let z = softfloat_shiftRightJam64Extra (sg) 0 (word_of_int (0x433 - int e))
        in softfloat_roundToUI64 (fp_sign 52 11 (unat a)) (u64x_v z) (u64x_extra z) md exact s)"
      unfolding f64_to_ui64_def Let_def sg_def[symmetric] nanF64_fields unfolding e F64_fields(1) using 4 by simp
    then show ?thesis
      using core(1)[OF _ _ _ _ _ refl, of "0x433 - int e"] 4 by (simp add: e_def em Let_def)
  qed
qed

text \<open>
  Half precision needs no sticky shift: the significand is moved left so that the binary
  point is below bit 12, or is below one half without it.
\<close>

lemma int_conv_f16:
  fixes a :: float16 and u :: uint64
  assumes "e = fp_exp 10 5 (unat a)" and "e < 0x19"
    and "unat u = arg_sig 10 5 (unat a) * 2 ^ (e - 0x0D)"
  shows "int_conv lo hi m exact s neg (of_nat (unat u) / 2 ^ 12) = int_conv lo hi m exact s neg (fp_magn 10 5 (unat a))"
proof -
  have em: "fp_emin 10 5 = - 24"
    by (simp add: fp_emin_def fp_bias_def)
  show ?thesis
  proof (cases "0x0D \<le> e")
    case True
    then have "real (unat u) / 2 ^ 12 = real (arg_sig 10 5 (unat a)) * 2 powi (fp_emin 10 5 + int (fp_exp 10 5 (unat a)) - 1)"
      using quot_powi[of "real (arg_sig 10 5 (unat a))" "e - 0x0D" 0 12] assms(1,3) by (simp add: em)
    then show ?thesis
      by (rule int_conv_arg) (simp add: em)
  next
    case False
    have "int_conv lo hi m exact s neg (real (arg_sig 10 5 (unat a)) * 2 powi (fp_emin 10 5 + int (fp_exp 10 5 (unat a)) - 1)) =
        int_conv lo hi m exact s neg (fp_magn 10 5 (unat a))"
      by (rule int_conv_arg) (simp_all add: em)
    moreover have "int_conv lo hi m exact s neg (of_nat (unat u) / 2 ^ 12) =
        int_conv lo hi m exact s neg (real (arg_sig 10 5 (unat a)) * 2 powi (int e - 25))"
    proof (cases "arg_sig 10 5 (unat a) = 0")
      case nz: False
      have l: "real (arg_sig 10 5 (unat a)) < 2 ^ 11"
        using arg_sig_less[of 10 5 "unat a"] by simp
      have "(2::real) powi (int e - 25) \<le> 2 powi (- 13)"
        using False by (intro power_int_increasing) simp_all
      then have "real (arg_sig 10 5 (unat a)) * 2 powi (int e - 25) < 2 ^ 11 * 2 powi (- 13)"
        using l by (intro mult_less_le_imp_less) simp_all
      then show ?thesis
        using nz l False by (intro int_conv_small) (simp_all add: assms(3) power_int_minus)
    qed (use False in \<open>simp add: assms(3)\<close>)
    ultimately show ?thesis
      using assms(1) by (simp add: em)
  qed
qed

lemma int_conv_of_nat: "int_conv lo hi m exact s neg (of_nat n) = int_result lo hi s neg (int n) False"
  using int_conv_of_int[where n = "int n"] by simp

lemma int_conv_bounds:
  assumes "0 \<le> x" and "x \<le> 2 ^ 16" and "2 ^ 16 \<le> hi" and "2 ^ 16 \<le> hi'" and "lo = lo' \<and> lo \<le> 0 \<or> lo \<le> - (2 ^ 16) \<and> lo' \<le> - (2 ^ 16)"
  shows "int_conv lo hi m exact s neg x = int_conv lo' hi' m exact s neg x"
proof -
  have "0 \<le> rnd m neg x"
    using rnd_ge[of 0 x m neg] assms(1) by simp
  moreover have "\<lceil>x\<rceil> \<le> 2 ^ 16"
    using assms(2) by (simp add: ceiling_le_iff)
  then have "rnd m neg x \<le> 2 ^ 16"
    using rnd_bounds(2)[where x = x and m = m and neg = neg] by (rule order_trans[rotated])
  ultimately show ?thesis
    using assms(3-5) by (auto simp: int_conv_def int_result_def)
qed

lemma fp_magn_f16_less: "fp_exp 10 5 b < 0x1F \<Longrightarrow> fp_magn 10 5 b \<le> 2 ^ 16"
proof -
  assume "fp_exp 10 5 b < 0x1F"
  then have "(2::real) powi (fp_emin 10 5 + int (max 1 (fp_exp 10 5 b)) - 1) \<le> 2 powi 5"
    by (intro power_int_increasing) (simp_all add: fp_emin_def fp_bias_def max_def)
  moreover have "real (arg_sig 10 5 b) \<le> 2 ^ 11"
    using arg_sig_less[of 10 5 b] by simp
  ultimately have "real (arg_sig 10 5 b) * 2 powi (fp_emin 10 5 + int (max 1 (fp_exp 10 5 b)) - 1) \<le> 2 ^ 11 * 2 powi 5"
    by (intro mult_mono) simp_all
  then show ?thesis
    by (simp add: fp_magn_arg)
qed

lemma shl_sigF16:
  fixes a :: float16
  assumes "fp_exp 10 5 (unat a) \<noteq> 0" and "d \<le> 20"
  shows "unat (push_bit d (fracF16UI (to_u64 a) OR 0x0400)) = arg_sig 10 5 (unat a) * 2 ^ d"
proof -
  have u: "unat (fracF16UI (to_u64 a) OR 0x0400) = arg_sig 10 5 (unat a)"
    using arg_sigF16[of a] assms(1) by (simp add: F16_fields)
  have "arg_sig 10 5 (unat a) * 2 ^ d < 2 ^ 11 * 2 ^ d"
    using arg_sig_less[of 10 5 "unat a"] by simp
  also have "\<dots> \<le> 2 ^ 11 * 2 ^ 20"
    using assms(2) by (intro mult_left_mono power_increasing) simp_all
  finally show ?thesis
    by (subst unat_push_bit_mult) (simp_all add: u)
qed

lemma f16_to_i32_conv:
  "f16_to_i32 a md exact s = to_int_spec 10 5 (- (2 ^ 31)) (2 ^ 31 - 1) (int_mode md) exact s (unat a)"
proof -
  define e where "e = fp_exp 10 5 (unat a)"
  have e: "expF16UI (to_u64 a) = int e" "e \<le> 0x1F"
    using fp_exp_less[of 10 5 "unat a"] by (simp_all add: F16_fields e_def)
  define v where "v = push_bit (e - 0x19) (fracF16UI (to_u64 a) OR 0x0400)"
  define u where "u = (if e \<noteq> 0 then push_bit (e - 0x0D) (fracF16UI (to_u64 a) OR 0x0400) else fracF16UI (to_u64 a))"
  have u: "unat u = arg_sig 10 5 (unat a) * 2 ^ (e - 0x0D)"
    using shl_sigF16[of a "e - 0x0D"] e(2) arg_sigF16[of a] by (auto simp: u_def e(1) simp flip: e_def)
  have u63: "unat u < 2 ^ 63"
  proof -
    have "arg_sig 10 5 (unat a) * 2 ^ (e - 0x0D) \<le> 2 ^ 11 * 2 ^ 20"
      using arg_sig_less[of 10 5 "unat a"] e(2) by (intro mult_mono power_increasing) simp_all
    then show ?thesis
      by (simp add: u)
  qed
  have nan: "fracF16UI (to_u64 a) \<noteq> 0 \<longleftrightarrow> fp_nan 10 5 (unat a)" if "e = 0x1F"
    using nanF16_fields[of a] that by (simp add: e(1))
  consider "e = 0x1F" | "0x19 \<le> e" "e < 0x1F" | "\<not> (0x19 \<le> e)" "e < 0x1F"
    using e(2) by fastforce
  then show ?thesis
  proof cases
    case 1
    then have "fp_nan 10 5 (unat a) \<or> fp_infinite 10 5 (unat a)"
      by (auto simp: fp_class_fields e_def)
    then show ?thesis
      using 1 nan unfolding f16_to_i32_def Let_def F16_fields(1) by (auto simp: e(1) to_int_spec_def)
  next
    case 2
    have v: "unat v = arg_sig 10 5 (unat a) * 2 ^ (e - 0x19)"
      using shl_sigF16[of a "e - 0x19"] 2 by (simp add: v_def e_def)
    have d: "f16_to_i32 a md exact s = (sint (if fp_sign 10 5 (unat a) then - v else v), s)"
      unfolding f16_to_i32_def Let_def F16_fields(1) using 2 by (simp add: e(1) v_def nat_diff_distrib)
    have m: "fp_magn 10 5 (unat a) = real (unat v)"
      using quot_powi[of "real (arg_sig 10 5 (unat a))" "e - 0x19" 0 0] fp_magn_exp[of 10 5 "unat a"] 2
      by (simp add: v fp_emin_def fp_bias_def e_def power_int_def nat_diff_distrib)
    have "real (unat v) \<le> 2 ^ 16"
      using fp_magn_f16_less[of "unat a"] 2(2) by (simp add: m[symmetric] e_def)
    then have "unat v \<le> 2 ^ 16"
      by simp
    moreover have "fp_exp 10 5 (unat a) < 2 ^ 5 - 1"
      using 2 by (simp add: e_def)
    ultimately show ?thesis
      using 2 sint_sign(2)[of "fp_sign 10 5 (unat a)" v]
      by (simp only: to_int_spec_finite(1) d m int_conv_of_nat int_result_def Let_def raise_if_def)
        (auto simp: uint_nat split: if_splits)
  next
    case 3
    have d: "f16_to_i32 a md exact s = softfloat_roundToI32 (fp_sign 10 5 (unat a)) u md exact s"
      unfolding f16_to_i32_def Let_def F16_fields(1) u_def using 3 by (auto simp: e(1) nat_diff_distrib)
    have q: "int_conv (- (2 ^ 31)) (2 ^ 31 - 1) (int_mode md) exact s (fp_sign 10 5 (unat a)) (of_nat (unat u) / 2 ^ 12) =
        int_conv (- (2 ^ 31)) (2 ^ 31 - 1) (int_mode md) exact s (fp_sign 10 5 (unat a)) (fp_magn 10 5 (unat a))"
      using 3 by (intro int_conv_f16[OF e_def _ u]) simp
    have "int_conv (- (2 ^ 31)) (2 ^ 31 - 1) (int_mode md) exact s (fp_sign 10 5 (unat a)) (fp_magn 10 5 (unat a)) =
        int_conv (- (2 ^ 31)) (2 ^ 31 - 1) (int_mode md) exact s (fp_sign 10 5 (unat a)) (fp_magn 10 5 (unat a))"
      using fp_magn_f16_less[of "unat a"] 3(2) fp_magn_nonneg[of 10 5 "unat a"] by (intro int_conv_bounds) (simp_all add: e_def)
    then show ?thesis
      using to_int_spec_finite[of 10 5 "unat a"] 3(2) q unfolding d roundToI32_conv[OF u63] by (simp add: e_def)
  qed
qed

lemma f16_to_ui32_conv:
  "map_prod uint id (f16_to_ui32 a md exact s) = to_int_spec 10 5 0 (2 ^ 32 - 1) (int_mode md) exact s (unat a)"
proof -
  define e where "e = fp_exp 10 5 (unat a)"
  have e: "expF16UI (to_u64 a) = int e" "e \<le> 0x1F"
    using fp_exp_less[of 10 5 "unat a"] by (simp_all add: F16_fields e_def)
  define v where "v = push_bit (e - 0x19) (fracF16UI (to_u64 a) OR 0x0400)"
  define u where "u = (if e \<noteq> 0 then push_bit (e - 0x0D) (fracF16UI (to_u64 a) OR 0x0400) else fracF16UI (to_u64 a))"
  have u: "unat u = arg_sig 10 5 (unat a) * 2 ^ (e - 0x0D)"
    using shl_sigF16[of a "e - 0x0D"] e(2) arg_sigF16[of a] by (auto simp: u_def e(1) simp flip: e_def)
  have u63: "unat u < 2 ^ 63"
  proof -
    have "arg_sig 10 5 (unat a) * 2 ^ (e - 0x0D) \<le> 2 ^ 11 * 2 ^ 20"
      using arg_sig_less[of 10 5 "unat a"] e(2) by (intro mult_mono power_increasing) simp_all
    then show ?thesis
      by (simp add: u)
  qed
  have nan: "fracF16UI (to_u64 a) \<noteq> 0 \<longleftrightarrow> fp_nan 10 5 (unat a)" if "e = 0x1F"
    using nanF16_fields[of a] that by (simp add: e(1))
  consider "e = 0x1F" | "0x19 \<le> e \<and> \<not> fp_sign 10 5 (unat a)" "e < 0x1F" | "\<not> (0x19 \<le> e \<and> \<not> fp_sign 10 5 (unat a))" "e < 0x1F"
    using e(2) by fastforce
  then show ?thesis
  proof cases
    case 1
    then have "fp_nan 10 5 (unat a) \<or> fp_infinite 10 5 (unat a)"
      by (auto simp: fp_class_fields e_def)
    then show ?thesis
      using 1 nan unfolding f16_to_ui32_def Let_def F16_fields(1) by (auto simp: e(1) to_int_spec_def)
  next
    case 2
    have v: "unat v = arg_sig 10 5 (unat a) * 2 ^ (e - 0x19)"
      using shl_sigF16[of a "e - 0x19"] 2 by (simp add: v_def e_def)
    have d: "f16_to_ui32 a md exact s = (v, s)"
      unfolding f16_to_ui32_def Let_def F16_fields(1) using 2 by (simp add: e(1) v_def nat_diff_distrib)
    have m: "fp_magn 10 5 (unat a) = real (unat v)"
      using quot_powi[of "real (arg_sig 10 5 (unat a))" "e - 0x19" 0 0] fp_magn_exp[of 10 5 "unat a"] 2
      by (simp add: v fp_emin_def fp_bias_def e_def power_int_def nat_diff_distrib)
    have "real (unat v) \<le> 2 ^ 16"
      using fp_magn_f16_less[of "unat a"] 2(2) by (simp add: m[symmetric] e_def)
    then have "unat v \<le> 2 ^ 16"
      by simp
    moreover have "fp_exp 10 5 (unat a) < 2 ^ 5 - 1"
      using 2 by (simp add: e_def)
    ultimately show ?thesis
      using 2 
      by (simp only: to_int_spec_finite(1) d m int_conv_of_nat int_result_def Let_def raise_if_def)
        (auto simp: uint_nat split: if_splits)
  next
    case 3
    have d: "f16_to_ui32 a md exact s = softfloat_roundToUI32 (fp_sign 10 5 (unat a)) u md exact s"
      unfolding f16_to_ui32_def Let_def F16_fields(1) u_def using 3 by (auto simp: e(1) nat_diff_distrib)
    have q: "int_conv 0 (2 ^ 32 - 1) (int_mode md) exact s (fp_sign 10 5 (unat a)) (of_nat (unat u) / 2 ^ 12) =
        int_conv 0 (2 ^ 32 - 1) (int_mode md) exact s (fp_sign 10 5 (unat a)) (fp_magn 10 5 (unat a))"
    proof (cases "e < 0x19")
      case True
      then show ?thesis
        by (rule int_conv_f16[OF e_def _ u])
    next
      case False
      then have "real (unat u) / 2 ^ 12 = fp_magn 10 5 (unat a)"
        using quot_powi[of "real (arg_sig 10 5 (unat a))" "e - 0x0D" 0 12] fp_magn_exp[of 10 5 "unat a"]
        by (simp add: u fp_emin_def fp_bias_def e_def)
      then show ?thesis
        by (simp only:)
    qed
    have "int_conv 0 (2 ^ 32 - 1) (int_mode md) exact s (fp_sign 10 5 (unat a)) (fp_magn 10 5 (unat a)) =
        int_conv 0 (2 ^ 32 - 1) (int_mode md) exact s (fp_sign 10 5 (unat a)) (fp_magn 10 5 (unat a))"
      using fp_magn_f16_less[of "unat a"] 3(2) fp_magn_nonneg[of 10 5 "unat a"] by (intro int_conv_bounds) (simp_all add: e_def)
    then show ?thesis
      using to_int_spec_finite[of 10 5 "unat a"] 3(2) q unfolding d roundToUI32_conv[OF u63] by (simp add: e_def)
  qed
qed

lemma f16_to_i64_conv:
  "f16_to_i64 a md exact s = to_int_spec 10 5 (- (2 ^ 63)) (2 ^ 63 - 1) (int_mode md) exact s (unat a)"
proof -
  define e where "e = fp_exp 10 5 (unat a)"
  have e: "expF16UI (to_u64 a) = int e" "e \<le> 0x1F"
    using fp_exp_less[of 10 5 "unat a"] by (simp_all add: F16_fields e_def)
  define v where "v = push_bit (e - 0x19) (fracF16UI (to_u64 a) OR 0x0400)"
  define u where "u = (if e \<noteq> 0 then push_bit (e - 0x0D) (fracF16UI (to_u64 a) OR 0x0400) else fracF16UI (to_u64 a))"
  have u: "unat u = arg_sig 10 5 (unat a) * 2 ^ (e - 0x0D)"
    using shl_sigF16[of a "e - 0x0D"] e(2) arg_sigF16[of a] by (auto simp: u_def e(1) simp flip: e_def)
  have u63: "unat u < 2 ^ 63"
  proof -
    have "arg_sig 10 5 (unat a) * 2 ^ (e - 0x0D) \<le> 2 ^ 11 * 2 ^ 20"
      using arg_sig_less[of 10 5 "unat a"] e(2) by (intro mult_mono power_increasing) simp_all
    then show ?thesis
      by (simp add: u)
  qed
  have nan: "fracF16UI (to_u64 a) \<noteq> 0 \<longleftrightarrow> fp_nan 10 5 (unat a)" if "e = 0x1F"
    using nanF16_fields[of a] that by (simp add: e(1))
  consider "e = 0x1F" | "0x19 \<le> e" "e < 0x1F" | "\<not> (0x19 \<le> e)" "e < 0x1F"
    using e(2) by fastforce
  then show ?thesis
  proof cases
    case 1
    then have "fp_nan 10 5 (unat a) \<or> fp_infinite 10 5 (unat a)"
      by (auto simp: fp_class_fields e_def)
    then show ?thesis
      using 1 nan unfolding f16_to_i64_def Let_def F16_fields(1) by (auto simp: e(1) to_int_spec_def)
  next
    case 2
    have v: "unat v = arg_sig 10 5 (unat a) * 2 ^ (e - 0x19)"
      using shl_sigF16[of a "e - 0x19"] 2 by (simp add: v_def e_def)
    have d: "f16_to_i64 a md exact s = (sint (if fp_sign 10 5 (unat a) then - v else v), s)"
      unfolding f16_to_i64_def Let_def F16_fields(1) using 2 by (simp add: e(1) v_def nat_diff_distrib)
    have m: "fp_magn 10 5 (unat a) = real (unat v)"
      using quot_powi[of "real (arg_sig 10 5 (unat a))" "e - 0x19" 0 0] fp_magn_exp[of 10 5 "unat a"] 2
      by (simp add: v fp_emin_def fp_bias_def e_def power_int_def nat_diff_distrib)
    have "real (unat v) \<le> 2 ^ 16"
      using fp_magn_f16_less[of "unat a"] 2(2) by (simp add: m[symmetric] e_def)
    then have "unat v \<le> 2 ^ 16"
      by simp
    moreover have "fp_exp 10 5 (unat a) < 2 ^ 5 - 1"
      using 2 by (simp add: e_def)
    ultimately show ?thesis
      using 2 sint_sign(2)[of "fp_sign 10 5 (unat a)" v]
      by (simp only: to_int_spec_finite(1) d m int_conv_of_nat int_result_def Let_def raise_if_def)
        (auto simp: uint_nat split: if_splits)
  next
    case 3
    have d: "f16_to_i64 a md exact s = softfloat_roundToI32 (fp_sign 10 5 (unat a)) u md exact s"
      unfolding f16_to_i64_def Let_def F16_fields(1) u_def using 3 by (auto simp: e(1) nat_diff_distrib)
    have q: "int_conv (- (2 ^ 31)) (2 ^ 31 - 1) (int_mode md) exact s (fp_sign 10 5 (unat a)) (of_nat (unat u) / 2 ^ 12) =
        int_conv (- (2 ^ 31)) (2 ^ 31 - 1) (int_mode md) exact s (fp_sign 10 5 (unat a)) (fp_magn 10 5 (unat a))"
      using 3 by (intro int_conv_f16[OF e_def _ u]) simp
    have "int_conv (- (2 ^ 31)) (2 ^ 31 - 1) (int_mode md) exact s (fp_sign 10 5 (unat a)) (fp_magn 10 5 (unat a)) =
        int_conv (- (2 ^ 63)) (2 ^ 63 - 1) (int_mode md) exact s (fp_sign 10 5 (unat a)) (fp_magn 10 5 (unat a))"
      using fp_magn_f16_less[of "unat a"] 3(2) fp_magn_nonneg[of 10 5 "unat a"] by (intro int_conv_bounds) (simp_all add: e_def)
    then show ?thesis
      using to_int_spec_finite[of 10 5 "unat a"] 3(2) q unfolding d roundToI32_conv[OF u63] by (simp add: e_def)
  qed
qed

lemma f16_to_ui64_conv:
  "map_prod uint id (f16_to_ui64 a md exact s) = to_int_spec 10 5 0 (2 ^ 64 - 1) (int_mode md) exact s (unat a)"
proof -
  define e where "e = fp_exp 10 5 (unat a)"
  have e: "expF16UI (to_u64 a) = int e" "e \<le> 0x1F"
    using fp_exp_less[of 10 5 "unat a"] by (simp_all add: F16_fields e_def)
  define v where "v = push_bit (e - 0x19) (fracF16UI (to_u64 a) OR 0x0400)"
  define u where "u = (if e \<noteq> 0 then push_bit (e - 0x0D) (fracF16UI (to_u64 a) OR 0x0400) else fracF16UI (to_u64 a))"
  have u: "unat u = arg_sig 10 5 (unat a) * 2 ^ (e - 0x0D)"
    using shl_sigF16[of a "e - 0x0D"] e(2) arg_sigF16[of a] by (auto simp: u_def e(1) simp flip: e_def)
  have u63: "unat u < 2 ^ 63"
  proof -
    have "arg_sig 10 5 (unat a) * 2 ^ (e - 0x0D) \<le> 2 ^ 11 * 2 ^ 20"
      using arg_sig_less[of 10 5 "unat a"] e(2) by (intro mult_mono power_increasing) simp_all
    then show ?thesis
      by (simp add: u)
  qed
  have nan: "fracF16UI (to_u64 a) \<noteq> 0 \<longleftrightarrow> fp_nan 10 5 (unat a)" if "e = 0x1F"
    using nanF16_fields[of a] that by (simp add: e(1))
  consider "e = 0x1F" | "0x19 \<le> e \<and> \<not> fp_sign 10 5 (unat a)" "e < 0x1F" | "\<not> (0x19 \<le> e \<and> \<not> fp_sign 10 5 (unat a))" "e < 0x1F"
    using e(2) by fastforce
  then show ?thesis
  proof cases
    case 1
    then have "fp_nan 10 5 (unat a) \<or> fp_infinite 10 5 (unat a)"
      by (auto simp: fp_class_fields e_def)
    then show ?thesis
      using 1 nan unfolding f16_to_ui64_def Let_def F16_fields(1) by (auto simp: e(1) to_int_spec_def)
  next
    case 2
    have v: "unat v = arg_sig 10 5 (unat a) * 2 ^ (e - 0x19)"
      using shl_sigF16[of a "e - 0x19"] 2 by (simp add: v_def e_def)
    have d: "f16_to_ui64 a md exact s = (v, s)"
      unfolding f16_to_ui64_def Let_def F16_fields(1) using 2 by (simp add: e(1) v_def nat_diff_distrib)
    have m: "fp_magn 10 5 (unat a) = real (unat v)"
      using quot_powi[of "real (arg_sig 10 5 (unat a))" "e - 0x19" 0 0] fp_magn_exp[of 10 5 "unat a"] 2
      by (simp add: v fp_emin_def fp_bias_def e_def power_int_def nat_diff_distrib)
    have "real (unat v) \<le> 2 ^ 16"
      using fp_magn_f16_less[of "unat a"] 2(2) by (simp add: m[symmetric] e_def)
    then have "unat v \<le> 2 ^ 16"
      by simp
    moreover have "fp_exp 10 5 (unat a) < 2 ^ 5 - 1"
      using 2 by (simp add: e_def)
    ultimately show ?thesis
      using 2 
      by (simp only: to_int_spec_finite(1) d m int_conv_of_nat int_result_def Let_def raise_if_def)
        (auto simp: uint_nat split: if_splits)
  next
    case 3
    have d: "f16_to_ui64 a md exact s = softfloat_roundToUI32 (fp_sign 10 5 (unat a)) u md exact s"
      unfolding f16_to_ui64_def Let_def F16_fields(1) u_def using 3 by (auto simp: e(1) nat_diff_distrib)
    have q: "int_conv 0 (2 ^ 32 - 1) (int_mode md) exact s (fp_sign 10 5 (unat a)) (of_nat (unat u) / 2 ^ 12) =
        int_conv 0 (2 ^ 32 - 1) (int_mode md) exact s (fp_sign 10 5 (unat a)) (fp_magn 10 5 (unat a))"
    proof (cases "e < 0x19")
      case True
      then show ?thesis
        by (rule int_conv_f16[OF e_def _ u])
    next
      case False
      then have "real (unat u) / 2 ^ 12 = fp_magn 10 5 (unat a)"
        using quot_powi[of "real (arg_sig 10 5 (unat a))" "e - 0x0D" 0 12] fp_magn_exp[of 10 5 "unat a"]
        by (simp add: u fp_emin_def fp_bias_def e_def)
      then show ?thesis
        by (simp only:)
    qed
    have "int_conv 0 (2 ^ 32 - 1) (int_mode md) exact s (fp_sign 10 5 (unat a)) (fp_magn 10 5 (unat a)) =
        int_conv 0 (2 ^ 64 - 1) (int_mode md) exact s (fp_sign 10 5 (unat a)) (fp_magn 10 5 (unat a))"
      using fp_magn_f16_less[of "unat a"] 3(2) fp_magn_nonneg[of 10 5 "unat a"] by (intro int_conv_bounds) (simp_all add: e_def)
    then show ?thesis
      using to_int_spec_finite[of 10 5 "unat a"] 3(2) q unfolding d roundToUI32_conv[OF u63] by (simp add: e_def)
  qed
qed

section \<open>Conversions to narrower integers\<close>

definition narrow_result :: "int \<Rightarrow> int \<Rightarrow> softfloat_state \<Rightarrow> int \<times> softfloat_state \<Rightarrow> int \<times> softfloat_state" where
  "narrow_result lo hi s rs =
     (if hi < fst rs
      then (hi, (snd rs)\<lparr>softfloat_exceptionFlags := softfloat_exceptionFlags s OR softfloat_flag_invalid\<rparr>)
      else if fst rs < lo
      then (lo, (snd rs)\<lparr>softfloat_exceptionFlags := softfloat_exceptionFlags s OR softfloat_flag_invalid\<rparr>)
      else rs)"

lemma narrow_int_result:
  assumes "LO \<le> lo" and "lo \<le> 0" and "0 \<le> hi" and "hi \<le> HI" and "0 \<le> r"
  shows "narrow_result lo hi s (int_result LO HI s neg r inex) = int_result lo hi s neg r inex"
  using assms by (cases neg) (auto simp: narrow_result_def int_result_def Let_def raise_if_def softfloat_raiseFlags_def)

lemma narrow_to_int_spec:
  assumes "LO \<le> lo" and "lo \<le> 0" and "0 \<le> hi" and "hi \<le> HI"
  shows "narrow_result lo hi s (to_int_spec p w LO HI m exact s b) = to_int_spec p w lo hi m exact s b"
proof (cases "fp_nan p w b \<or> fp_infinite p w b")
  case True
  then show ?thesis
    using assms by (auto simp: to_int_spec_def narrow_result_def softfloat_raiseFlags_def)
next
  case False
  have "0 \<le> rnd m (fp_sign p w b) (fp_magn p w b)"
    using fp_magn_nonneg[of p w b] by (intro rnd_ge) simp
  then show ?thesis
    using False narrow_int_result[OF assms] by (simp add: to_int_spec_def int_conv_def)
qed

lemma f16_to_i8_conv:
  "f16_to_i8 a md exact s = to_int_spec 10 5 (- (2 ^ 7)) (2 ^ 7 - 1) (int_mode md) exact s (unat a)"
proof -
  have "f16_to_i8 a md exact s = narrow_result (- (2 ^ 7)) (2 ^ 7 - 1) s (f16_to_i32 a md exact s)"
    by (simp add: f16_to_i8_def narrow_result_def case_prod_beta')
  then show ?thesis
    by (simp only: f16_to_i32_conv) (rule narrow_to_int_spec; simp)
qed

lemma f16_to_i16_conv:
  "f16_to_i16 a md exact s = to_int_spec 10 5 (- (2 ^ 15)) (2 ^ 15 - 1) (int_mode md) exact s (unat a)"
proof -
  have "f16_to_i16 a md exact s = narrow_result (- (2 ^ 15)) (2 ^ 15 - 1) s (f16_to_i32 a md exact s)"
    by (simp add: f16_to_i16_def narrow_result_def case_prod_beta')
  then show ?thesis
    by (simp only: f16_to_i32_conv) (rule narrow_to_int_spec; simp)
qed

lemma f32_to_i16_conv:
  "f32_to_i16 a md exact s = to_int_spec 23 8 (- (2 ^ 15)) (2 ^ 15 - 1) (int_mode md) exact s (unat a)"
proof -
  have "f32_to_i16 a md exact s = narrow_result (- (2 ^ 15)) (2 ^ 15 - 1) s (f32_to_i32 a md exact s)"
    by (simp add: f32_to_i16_def narrow_result_def case_prod_beta')
  then show ?thesis
    by (simp only: f32_to_i32_conv) (rule narrow_to_int_spec; simp)
qed

lemma f16_to_ui8_conv:
  "map_prod uint id (f16_to_ui8 a md exact s) = to_int_spec 10 5 0 (2 ^ 8 - 1) (int_mode md) exact s (unat a)"
proof -
  define r where "r = f16_to_ui32 a md exact s"
  have lt: "0xff < fst r \<longleftrightarrow> 2 ^ 8 - 1 < uint (fst r)"
    by (simp add: word_less_def)
  have "map_prod uint id (f16_to_ui8 a md exact s) = narrow_result 0 (2 ^ 8 - 1) s (map_prod uint id r)"
    unfolding f16_to_ui8_def r_def[symmetric]
    using lt by (cases r) (auto simp: narrow_result_def uint_nat unat_ucast_mod word_less_nat_alt)
  then show ?thesis
    unfolding r_def by (simp only: f16_to_ui32_conv) (rule narrow_to_int_spec; simp)
qed

lemma f16_to_ui16_conv:
  "map_prod uint id (f16_to_ui16 a md exact s) = to_int_spec 10 5 0 (2 ^ 16 - 1) (int_mode md) exact s (unat a)"
proof -
  define r where "r = f16_to_ui32 a md exact s"
  have lt: "0xffff < fst r \<longleftrightarrow> 2 ^ 16 - 1 < uint (fst r)"
    by (simp add: word_less_def)
  have "map_prod uint id (f16_to_ui16 a md exact s) = narrow_result 0 (2 ^ 16 - 1) s (map_prod uint id r)"
    unfolding f16_to_ui16_def r_def[symmetric]
    using lt by (cases r) (auto simp: narrow_result_def uint_nat unat_ucast_mod word_less_nat_alt)
  then show ?thesis
    unfolding r_def by (simp only: f16_to_ui32_conv) (rule narrow_to_int_spec; simp)
qed

lemma f32_to_ui16_conv:
  "map_prod uint id (f32_to_ui16 a md exact s) = to_int_spec 23 8 0 (2 ^ 16 - 1) (int_mode md) exact s (unat a)"
proof -
  define r where "r = f32_to_ui32 a md exact s"
  have lt: "0xffff < fst r \<longleftrightarrow> 2 ^ 16 - 1 < uint (fst r)"
    by (simp add: word_less_def)
  have "map_prod uint id (f32_to_ui16 a md exact s) = narrow_result 0 (2 ^ 16 - 1) s (map_prod uint id r)"
    unfolding f32_to_ui16_def r_def[symmetric]
    using lt by (cases r) (auto simp: narrow_result_def uint_nat unat_ucast_mod word_less_nat_alt)
  then show ?thesis
    unfolding r_def by (simp only: f32_to_ui32_conv) (rule narrow_to_int_spec; simp)
qed

section \<open>The theorems\<close>

text \<open>
  For every operand, rounding mode, \<open>exact\<close> flag and state, the single-precision
  conversions to integers of 32, 64 and 16 bits, signed and unsigned, return the number rounded
  in the given direction, raising inexact only on request; for a rounded value outside the type
  they return the bound on its side, and for a NaN the greatest integer, raising invalid and
  nothing else.
\<close>

lemma f32_to_integers_correct:
  "f32_to_i32 a md exact s = to_int_spec 23 8 (- (2 ^ 31)) (2 ^ 31 - 1) (int_mode md) exact s (unat a)
   \<and> map_prod uint id (f32_to_ui32 a md exact s) = to_int_spec 23 8 0 (2 ^ 32 - 1) (int_mode md) exact s (unat a)
   \<and> f32_to_i64 a md exact s = to_int_spec 23 8 (- (2 ^ 63)) (2 ^ 63 - 1) (int_mode md) exact s (unat a)
   \<and> map_prod uint id (f32_to_ui64 a md exact s) = to_int_spec 23 8 0 (2 ^ 64 - 1) (int_mode md) exact s (unat a)
   \<and> f32_to_i16 a md exact s = to_int_spec 23 8 (- (2 ^ 15)) (2 ^ 15 - 1) (int_mode md) exact s (unat a)
   \<and> map_prod uint id (f32_to_ui16 a md exact s) = to_int_spec 23 8 0 (2 ^ 16 - 1) (int_mode md) exact s (unat a)"
  by (intro conjI f32_to_i32_conv f32_to_ui32_conv f32_to_i64_conv f32_to_ui64_conv f32_to_i16_conv f32_to_ui16_conv)

text \<open>
  The same for the double-precision conversions to 32 and 64 bits.
\<close>

lemma f64_to_integers_correct:
  "f64_to_i32 a md exact s = to_int_spec 52 11 (- (2 ^ 31)) (2 ^ 31 - 1) (int_mode md) exact s (unat a)
   \<and> map_prod uint id (f64_to_ui32 a md exact s) = to_int_spec 52 11 0 (2 ^ 32 - 1) (int_mode md) exact s (unat a)
   \<and> f64_to_i64 a md exact s = to_int_spec 52 11 (- (2 ^ 63)) (2 ^ 63 - 1) (int_mode md) exact s (unat a)
   \<and> map_prod uint id (f64_to_ui64 a md exact s) = to_int_spec 52 11 0 (2 ^ 64 - 1) (int_mode md) exact s (unat a)"
  by (intro conjI f64_to_i32_conv f64_to_ui32_conv f64_to_i64_conv f64_to_ui64_conv)

text \<open>
  The same for the half-precision conversions to 8, 16, 32 and 64 bits.
\<close>

lemma f16_to_integers_correct:
  "f16_to_i32 a md exact s = to_int_spec 10 5 (- (2 ^ 31)) (2 ^ 31 - 1) (int_mode md) exact s (unat a)
   \<and> map_prod uint id (f16_to_ui32 a md exact s) = to_int_spec 10 5 0 (2 ^ 32 - 1) (int_mode md) exact s (unat a)
   \<and> f16_to_i64 a md exact s = to_int_spec 10 5 (- (2 ^ 63)) (2 ^ 63 - 1) (int_mode md) exact s (unat a)
   \<and> map_prod uint id (f16_to_ui64 a md exact s) = to_int_spec 10 5 0 (2 ^ 64 - 1) (int_mode md) exact s (unat a)
   \<and> f16_to_i16 a md exact s = to_int_spec 10 5 (- (2 ^ 15)) (2 ^ 15 - 1) (int_mode md) exact s (unat a)
   \<and> map_prod uint id (f16_to_ui16 a md exact s) = to_int_spec 10 5 0 (2 ^ 16 - 1) (int_mode md) exact s (unat a)
   \<and> f16_to_i8 a md exact s = to_int_spec 10 5 (- (2 ^ 7)) (2 ^ 7 - 1) (int_mode md) exact s (unat a)
   \<and> map_prod uint id (f16_to_ui8 a md exact s) = to_int_spec 10 5 0 (2 ^ 8 - 1) (int_mode md) exact s (unat a)"
  by (intro conjI f16_to_i32_conv f16_to_ui32_conv f16_to_i64_conv f16_to_ui64_conv f16_to_i16_conv f16_to_ui16_conv
      f16_to_i8_conv f16_to_ui8_conv)

text \<open>
  C18: every conversion of a half, single or double to a signed or unsigned integer of 8 to 64 bits
  returns the value rounded in the given direction when it fits in the type, raising the inexact
  flag exactly when asked for and due; otherwise it returns the result RISC-V prescribes and raises
  the invalid flag only.
\<close>

theorem to_integers_correct:
  "f32_to_i32 a32 md exact s = to_int_spec 23 8 (- (2 ^ 31)) (2 ^ 31 - 1) (int_mode md) exact s (unat a32)
   \<and> map_prod uint id (f32_to_ui32 a32 md exact s) = to_int_spec 23 8 0 (2 ^ 32 - 1) (int_mode md) exact s (unat a32)
   \<and> f32_to_i64 a32 md exact s = to_int_spec 23 8 (- (2 ^ 63)) (2 ^ 63 - 1) (int_mode md) exact s (unat a32)
   \<and> map_prod uint id (f32_to_ui64 a32 md exact s) = to_int_spec 23 8 0 (2 ^ 64 - 1) (int_mode md) exact s (unat a32)
   \<and> f32_to_i16 a32 md exact s = to_int_spec 23 8 (- (2 ^ 15)) (2 ^ 15 - 1) (int_mode md) exact s (unat a32)
   \<and> map_prod uint id (f32_to_ui16 a32 md exact s) = to_int_spec 23 8 0 (2 ^ 16 - 1) (int_mode md) exact s (unat a32)
   \<and> f64_to_i32 a64 md exact s = to_int_spec 52 11 (- (2 ^ 31)) (2 ^ 31 - 1) (int_mode md) exact s (unat a64)
   \<and> map_prod uint id (f64_to_ui32 a64 md exact s) = to_int_spec 52 11 0 (2 ^ 32 - 1) (int_mode md) exact s (unat a64)
   \<and> f64_to_i64 a64 md exact s = to_int_spec 52 11 (- (2 ^ 63)) (2 ^ 63 - 1) (int_mode md) exact s (unat a64)
   \<and> map_prod uint id (f64_to_ui64 a64 md exact s) = to_int_spec 52 11 0 (2 ^ 64 - 1) (int_mode md) exact s (unat a64)
   \<and> f16_to_i32 a16 md exact s = to_int_spec 10 5 (- (2 ^ 31)) (2 ^ 31 - 1) (int_mode md) exact s (unat a16)
   \<and> map_prod uint id (f16_to_ui32 a16 md exact s) = to_int_spec 10 5 0 (2 ^ 32 - 1) (int_mode md) exact s (unat a16)
   \<and> f16_to_i64 a16 md exact s = to_int_spec 10 5 (- (2 ^ 63)) (2 ^ 63 - 1) (int_mode md) exact s (unat a16)
   \<and> map_prod uint id (f16_to_ui64 a16 md exact s) = to_int_spec 10 5 0 (2 ^ 64 - 1) (int_mode md) exact s (unat a16)
   \<and> f16_to_i16 a16 md exact s = to_int_spec 10 5 (- (2 ^ 15)) (2 ^ 15 - 1) (int_mode md) exact s (unat a16)
   \<and> map_prod uint id (f16_to_ui16 a16 md exact s) = to_int_spec 10 5 0 (2 ^ 16 - 1) (int_mode md) exact s (unat a16)
   \<and> f16_to_i8 a16 md exact s = to_int_spec 10 5 (- (2 ^ 7)) (2 ^ 7 - 1) (int_mode md) exact s (unat a16)
   \<and> map_prod uint id (f16_to_ui8 a16 md exact s) = to_int_spec 10 5 0 (2 ^ 8 - 1) (int_mode md) exact s (unat a16)"
  using f32_to_integers_correct[of a32 md exact s] f64_to_integers_correct[of a64 md exact s] f16_to_integers_correct[of a16 md exact s]
  by (elim conjE) (intro conjI; assumption)

end
