(* ===== verification/SF_ToIntMin.thy ===== *)
theory SF_ToIntMin
  imports SF_ToIntCorrect
begin

text \<open>
  The conversions to integers that always round toward zero, \<open>f*_to_*_r_minMag.c\<close>. They are
  the optimised forms of the conversions of \<open>SF_ToInt\<close> for that direction: the theorems show
  that they agree with them.
\<close>

section \<open>The routines\<close>

subsection \<open>Half precision\<close>

definition f16_to_i32_r_minMag :: "float16 \<Rightarrow> bool \<Rightarrow> softfloat_state \<Rightarrow> int \<times> softfloat_state" where
  "f16_to_i32_r_minMag a exact s =
     (let uiA = to_u64 a;
          expn = expF16UI uiA;
          frac = fracF16UI uiA;
          shiftDist = expn - 0x0F
      in if shiftDist < 0
         then (0, if exact \<and> word_of_int expn OR frac \<noteq> 0 then softfloat_raiseFlags softfloat_flag_inexact s else s)
         else
           let sign = signF16UI uiA
           in if expn = 0x1F
              then (if expn = 0x1F \<and> frac \<noteq> 0 then 0x7FFFFFFF
                 else if sign then - 0x7FFFFFFF - 1 else 0x7FFFFFFF,
                 softfloat_raiseFlags softfloat_flag_invalid s)
              else
                let alignedSig = shl (frac OR 0x0400) shiftDist;
                    s = (if exact \<and> alignedSig AND 0x3FF \<noteq> 0 then softfloat_raiseFlags softfloat_flag_inexact s else s);
                    alignedSig = drop_bit 10 alignedSig
                in (sint (if sign then - alignedSig else alignedSig), s))"

definition f16_to_ui32_r_minMag :: "float16 \<Rightarrow> bool \<Rightarrow> softfloat_state \<Rightarrow> uint_fast32 \<times> softfloat_state" where
  "f16_to_ui32_r_minMag a exact s =
     (let uiA = to_u64 a;
          expn = expF16UI uiA;
          frac = fracF16UI uiA;
          shiftDist = expn - 0x0F
      in if shiftDist < 0
         then (0, if exact \<and> word_of_int expn OR frac \<noteq> 0 then softfloat_raiseFlags softfloat_flag_inexact s else s)
         else
           let sign = signF16UI uiA
           in if sign \<or> expn = 0x1F
              then (if expn = 0x1F \<and> frac \<noteq> 0 then 0xFFFFFFFF
                 else if sign then 0 else 0xFFFFFFFF,
                 softfloat_raiseFlags softfloat_flag_invalid s)
              else
                let alignedSig = shl (frac OR 0x0400) shiftDist;
                    s = (if exact \<and> alignedSig AND 0x3FF \<noteq> 0 then softfloat_raiseFlags softfloat_flag_inexact s else s);
                    alignedSig = drop_bit 10 alignedSig
                in (alignedSig, s))"

definition f16_to_i64_r_minMag :: "float16 \<Rightarrow> bool \<Rightarrow> softfloat_state \<Rightarrow> int \<times> softfloat_state" where
  "f16_to_i64_r_minMag a exact s =
     (let uiA = to_u64 a;
          expn = expF16UI uiA;
          frac = fracF16UI uiA;
          shiftDist = expn - 0x0F
      in if shiftDist < 0
         then (0, if exact \<and> word_of_int expn OR frac \<noteq> 0 then softfloat_raiseFlags softfloat_flag_inexact s else s)
         else
           let sign = signF16UI uiA
           in if expn = 0x1F
              then (if expn = 0x1F \<and> frac \<noteq> 0 then 0x7FFFFFFFFFFFFFFF
                 else if sign then - 0x7FFFFFFFFFFFFFFF - 1 else 0x7FFFFFFFFFFFFFFF,
                 softfloat_raiseFlags softfloat_flag_invalid s)
              else
                let alignedSig = shl (frac OR 0x0400) shiftDist;
                    s = (if exact \<and> alignedSig AND 0x3FF \<noteq> 0 then softfloat_raiseFlags softfloat_flag_inexact s else s);
                    alignedSig = drop_bit 10 alignedSig
                in (sint (if sign then - alignedSig else alignedSig), s))"

definition f16_to_ui64_r_minMag :: "float16 \<Rightarrow> bool \<Rightarrow> softfloat_state \<Rightarrow> uint_fast64 \<times> softfloat_state" where
  "f16_to_ui64_r_minMag a exact s =
     (let uiA = to_u64 a;
          expn = expF16UI uiA;
          frac = fracF16UI uiA;
          shiftDist = expn - 0x0F
      in if shiftDist < 0
         then (0, if exact \<and> word_of_int expn OR frac \<noteq> 0 then softfloat_raiseFlags softfloat_flag_inexact s else s)
         else
           let sign = signF16UI uiA
           in if sign \<or> expn = 0x1F
              then (if expn = 0x1F \<and> frac \<noteq> 0 then 0xFFFFFFFFFFFFFFFF
                 else if sign then 0 else 0xFFFFFFFFFFFFFFFF,
                 softfloat_raiseFlags softfloat_flag_invalid s)
              else
                let alignedSig = shl (frac OR 0x0400) shiftDist;
                    s = (if exact \<and> alignedSig AND 0x3FF \<noteq> 0 then softfloat_raiseFlags softfloat_flag_inexact s else s);
                    alignedSig = drop_bit 10 alignedSig
                in (alignedSig, s))"

subsection \<open>Single precision\<close>

definition f32_to_i32_r_minMag :: "float32 \<Rightarrow> bool \<Rightarrow> softfloat_state \<Rightarrow> int \<times> softfloat_state" where
  "f32_to_i32_r_minMag a exact s =
     (let uiA = to_u64 a;
          expn = expF32UI uiA;
          sig = fracF32UI uiA;
          shiftDist = 0x9E - expn
      in if 32 \<le> shiftDist
         then (0, if exact \<and> word_of_int expn OR sig \<noteq> 0 then softfloat_raiseFlags softfloat_flag_inexact s else s)
         else
           let sign = signF32UI uiA
           in if shiftDist \<le> 0
              then if uiA = packToF32UI True 0x9E 0 then (- 0x7FFFFFFF - 1, s)
                   else (if expn = 0xFF \<and> sig \<noteq> 0 then 0x7FFFFFFF
                 else if sign then - 0x7FFFFFFF - 1 else 0x7FFFFFFF,
                 softfloat_raiseFlags softfloat_flag_invalid s)
              else
                let sig = push_bit 8 (sig OR 0x00800000);
                    absZ = shr sig shiftDist
                in (sint (if sign then - absZ else absZ),
                    if exact \<and> shl absZ shiftDist \<noteq> sig then softfloat_raiseFlags softfloat_flag_inexact s else s))"

definition f32_to_ui32_r_minMag :: "float32 \<Rightarrow> bool \<Rightarrow> softfloat_state \<Rightarrow> uint_fast32 \<times> softfloat_state" where
  "f32_to_ui32_r_minMag a exact s =
     (let uiA = to_u64 a;
          expn = expF32UI uiA;
          sig = fracF32UI uiA;
          shiftDist = 0x9E - expn
      in if 32 \<le> shiftDist
         then (0, if exact \<and> word_of_int expn OR sig \<noteq> 0 then softfloat_raiseFlags softfloat_flag_inexact s else s)
         else
           let sign = signF32UI uiA
           in if sign \<or> shiftDist < 0
              then (if expn = 0xFF \<and> sig \<noteq> 0 then 0xFFFFFFFF
                 else if sign then 0 else 0xFFFFFFFF,
                 softfloat_raiseFlags softfloat_flag_invalid s)
              else
                let sig = push_bit 8 (sig OR 0x00800000);
                    z = shr sig shiftDist
                in (z,
                    if exact \<and> shl z shiftDist \<noteq> sig then softfloat_raiseFlags softfloat_flag_inexact s else s))"

definition f32_to_i64_r_minMag :: "float32 \<Rightarrow> bool \<Rightarrow> softfloat_state \<Rightarrow> int \<times> softfloat_state" where
  "f32_to_i64_r_minMag a exact s =
     (let uiA = to_u64 a;
          expn = expF32UI uiA;
          sig = fracF32UI uiA;
          shiftDist = 0xBE - expn
      in if 64 \<le> shiftDist
         then (0, if exact \<and> word_of_int expn OR sig \<noteq> 0 then softfloat_raiseFlags softfloat_flag_inexact s else s)
         else
           let sign = signF32UI uiA
           in if shiftDist \<le> 0
              then if uiA = packToF32UI True 0xBE 0 then (- 0x7FFFFFFFFFFFFFFF - 1, s)
                   else (if expn = 0xFF \<and> sig \<noteq> 0 then 0x7FFFFFFFFFFFFFFF
                 else if sign then - 0x7FFFFFFFFFFFFFFF - 1 else 0x7FFFFFFFFFFFFFFF,
                 softfloat_raiseFlags softfloat_flag_invalid s)
              else
                let sig = sig OR 0x00800000;
                    sig64 = push_bit 40 sig;
                    absZ = shr sig64 shiftDist;
                    shiftDist = 40 - shiftDist
                in (sint (if sign then - absZ else absZ),
                    if exact \<and> shiftDist < 0 \<and> to_u32 (shl sig (shiftDist AND 31)) \<noteq> 0
                    then softfloat_raiseFlags softfloat_flag_inexact s else s))"

definition f32_to_ui64_r_minMag :: "float32 \<Rightarrow> bool \<Rightarrow> softfloat_state \<Rightarrow> uint_fast64 \<times> softfloat_state" where
  "f32_to_ui64_r_minMag a exact s =
     (let uiA = to_u64 a;
          expn = expF32UI uiA;
          sig = fracF32UI uiA;
          shiftDist = 0xBE - expn
      in if 64 \<le> shiftDist
         then (0, if exact \<and> word_of_int expn OR sig \<noteq> 0 then softfloat_raiseFlags softfloat_flag_inexact s else s)
         else
           let sign = signF32UI uiA
           in if sign \<or> shiftDist < 0
              then (if expn = 0xFF \<and> sig \<noteq> 0 then 0xFFFFFFFFFFFFFFFF
                 else if sign then 0 else 0xFFFFFFFFFFFFFFFF,
                 softfloat_raiseFlags softfloat_flag_invalid s)
              else
                let sig = sig OR 0x00800000;
                    sig64 = push_bit 40 sig;
                    z = shr sig64 shiftDist;
                    shiftDist = 40 - shiftDist
                in (z,
                    if exact \<and> shiftDist < 0 \<and> to_u32 (shl sig (shiftDist AND 31)) \<noteq> 0
                    then softfloat_raiseFlags softfloat_flag_inexact s else s))"

subsection \<open>Double precision\<close>

definition f64_to_i32_r_minMag :: "float64 \<Rightarrow> bool \<Rightarrow> softfloat_state \<Rightarrow> int \<times> softfloat_state" where
  "f64_to_i32_r_minMag a exact s =
     (let expn = expF64UI a;
          sig = fracF64UI a;
          shiftDist = 0x433 - expn
      in if 53 \<le> shiftDist
         then (0, if exact \<and> word_of_int expn OR sig \<noteq> 0 then softfloat_raiseFlags softfloat_flag_inexact s else s)
         else
           let sign = signF64UI a
           in if shiftDist < 22
              then if sign \<and> expn = 0x41E \<and> sig < 0x0000000000200000
                   then (- 0x7FFFFFFF - 1, if exact \<and> sig \<noteq> 0 then softfloat_raiseFlags softfloat_flag_inexact s else s)
                   else (if expn = 0x7FF \<and> sig \<noteq> 0 then 0x7FFFFFFF
                 else if sign then - 0x7FFFFFFF - 1 else 0x7FFFFFFF,
                 softfloat_raiseFlags softfloat_flag_invalid s)
              else
                let sig = sig OR 0x0010000000000000;
                    absZ = shr sig shiftDist
                in (sint (if sign then - absZ else absZ),
                    if exact \<and> shl absZ shiftDist \<noteq> sig then softfloat_raiseFlags softfloat_flag_inexact s else s))"

definition f64_to_ui32_r_minMag :: "float64 \<Rightarrow> bool \<Rightarrow> softfloat_state \<Rightarrow> uint_fast32 \<times> softfloat_state" where
  "f64_to_ui32_r_minMag a exact s =
     (let expn = expF64UI a;
          sig = fracF64UI a;
          shiftDist = 0x433 - expn
      in if 53 \<le> shiftDist
         then (0, if exact \<and> word_of_int expn OR sig \<noteq> 0 then softfloat_raiseFlags softfloat_flag_inexact s else s)
         else
           let sign = signF64UI a
           in if sign \<or> shiftDist < 21
              then (if expn = 0x7FF \<and> sig \<noteq> 0 then 0xFFFFFFFF
                 else if sign then 0 else 0xFFFFFFFF,
                 softfloat_raiseFlags softfloat_flag_invalid s)
              else
                let sig = sig OR 0x0010000000000000;
                    z = shr sig shiftDist
                in (z, if exact \<and> shl z shiftDist \<noteq> sig then softfloat_raiseFlags softfloat_flag_inexact s else s))"

definition f64_to_i64_r_minMag :: "float64 \<Rightarrow> bool \<Rightarrow> softfloat_state \<Rightarrow> int \<times> softfloat_state" where
  "f64_to_i64_r_minMag a exact s =
     (let sign = signF64UI a;
          expn = expF64UI a;
          sig = fracF64UI a;
          shiftDist = 0x433 - expn
      in if shiftDist \<le> 0
         then if shiftDist < - 10
              then if a = packToF64UI True 0x43E 0 then (- 0x7FFFFFFFFFFFFFFF - 1, s)
                   else (if expn = 0x7FF \<and> sig \<noteq> 0 then 0x7FFFFFFFFFFFFFFF
                 else if sign then - 0x7FFFFFFFFFFFFFFF - 1 else 0x7FFFFFFFFFFFFFFF,
                 softfloat_raiseFlags softfloat_flag_invalid s)
              else
                let sig = sig OR 0x0010000000000000;
                    absZ = shl sig (- shiftDist)
                in (sint (if sign then - absZ else absZ), s)
         else if 53 \<le> shiftDist
         then (0, if exact \<and> word_of_int expn OR sig \<noteq> 0 then softfloat_raiseFlags softfloat_flag_inexact s else s)
         else
           let sig = sig OR 0x0010000000000000;
               absZ = shr sig shiftDist
           in (sint (if sign then - absZ else absZ),
               if exact \<and> shl absZ shiftDist \<noteq> sig then softfloat_raiseFlags softfloat_flag_inexact s else s))"

definition f64_to_ui64_r_minMag :: "float64 \<Rightarrow> bool \<Rightarrow> softfloat_state \<Rightarrow> uint_fast64 \<times> softfloat_state" where
  "f64_to_ui64_r_minMag a exact s =
     (let expn = expF64UI a;
          sig = fracF64UI a;
          shiftDist = 0x433 - expn
      in if 53 \<le> shiftDist
         then (0, if exact \<and> word_of_int expn OR sig \<noteq> 0 then softfloat_raiseFlags softfloat_flag_inexact s else s)
         else
           let sign = signF64UI a
           in if sign \<or> shiftDist < - 11
              then (if expn = 0x7FF \<and> sig \<noteq> 0 then 0xFFFFFFFFFFFFFFFF
                 else if sign then 0 else 0xFFFFFFFFFFFFFFFF,
                 softfloat_raiseFlags softfloat_flag_invalid s)
              else if shiftDist \<le> 0
              then (shl (sig OR 0x0010000000000000) (- shiftDist), s)
              else
                let sig = sig OR 0x0010000000000000;
                    z = shr sig shiftDist
                in (z, if exact \<and> shl sig (- shiftDist AND 63) \<noteq> 0 then softfloat_raiseFlags softfloat_flag_inexact s else s))"

section \<open>Truncation\<close>

lemma int_conv_trunc:
  "int_conv lo hi RTZ exact s neg (of_nat N / 2 ^ d) = int_result lo hi s neg (int (N div 2 ^ d)) (exact \<and> N mod 2 ^ d \<noteq> 0)"
  unfolding int_conv_def rnd_eq_self_iff nat_quot_Ints by (simp add: rnd_nat_quot_pow2)

lemma to_int_trunc_small:
  assumes "int p + fp_emin p w + int (max 1 (fp_exp p w b)) \<le> 0" and "fp_exp p w b < 2 ^ w - 1"
    and "lo \<le> 0" and "0 \<le> hi"
  shows "to_int_spec p w lo hi RTZ exact s b = (0, raise_if (exact \<and> \<not> fp_zero p w b) softfloat_flag_inexact s)"
proof -
  define t where "t = fp_emin p w + int (max 1 (fp_exp p w b)) - 1"
  have "arg_sig p w b < 2 ^ (p + 1)"
    by (rule arg_sig_less)
  then have "real (arg_sig p w b) < real (2 ^ (p + 1))"
    by (simp only: of_nat_less_iff)
  then have "fp_magn p w b < real (2 ^ (p + 1)) * 2 powi t"
    unfolding fp_magn_arg t_def by (intro mult_strict_right_mono) simp_all
  also have "\<dots> = 2 powi (int (p + 1) + t)"
    by (simp add: powi_plus)
  also have "\<dots> \<le> 2 powi 0"
    using assms(1) by (intro power_int_increasing) (simp_all add: t_def)
  finally have f: "\<lfloor>fp_magn p w b\<rfloor> = 0"
    using fp_magn_nonneg[of p w b] by (simp add: floor_eq_iff)
  then have "rnd RTZ neg (fp_magn p w b) = 0" for neg
    by (simp add: rnd_def)
  moreover have "0 \<noteq> fp_magn p w b \<longleftrightarrow> \<not> fp_zero p w b"
    using fp_magn_eq_0[of p w b] by (auto simp: fp_zero_def)
  ultimately show ?thesis
    unfolding to_int_spec_finite(1)[OF assms(2)] int_conv_def int_result_def using assms(3,4) by simp
qed

lemma to_int_trunc_shift:
  assumes "0 < fp_exp p w b" and "fp_exp p w b < 2 ^ w - 1" and "N = arg_sig p w b * 2 ^ c"
    and "int c - int d = fp_emin p w + int (fp_exp p w b) - 1"
  shows "to_int_spec p w lo hi RTZ exact s b =
    int_result lo hi s (fp_sign p w b) (int (N div 2 ^ d)) (exact \<and> N mod 2 ^ d \<noteq> 0)"
proof -
  have "fp_magn p w b = real N / 2 ^ d"
    using fp_magn_exp[of p w b] assms(1) quot_powi[of "real (arg_sig p w b)" c d 0] assms(3,4) by simp
  then show ?thesis
    unfolding to_int_spec_finite(1)[OF assms(2)] int_conv_trunc[symmetric] by (simp only:)
qed

text \<open>The three tests for a fraction that is cut off.\<close>

lemma shift_back_iff:
  fixes u :: uint64
  assumes "d < 64"
  shows "push_bit d (drop_bit d u) = u \<longleftrightarrow> unat u mod 2 ^ d = 0"
proof -
  have "push_bit d (drop_bit d u) = u \<longleftrightarrow> take_bit d u = 0"
    using assms by (auto simp: bit_eq_iff bit_simps)
  then show ?thesis
    by (simp only: word_eq_0_unat unat_take_bit_mod)
qed

lemma trunc_signed:
  fixes v :: uint64
  assumes "unat v < 2 ^ n" and "2 ^ n - 1 \<le> hi" and "lo \<le> - (2 ^ n - 1)" and "n \<le> 63"
  shows "int_result lo hi s sign (int (unat v)) ex = (sint (if sign then - v else v), raise_if ex softfloat_flag_inexact s)"
proof -
  define x where "x = (if sign then - int (unat v) else int (unat v))"
  have n: "(2::int) ^ n \<le> 2 ^ 63"
    using assms(4) by (intro power_increasing) simp_all
  have v: "int (unat v) < 2 ^ n"
    using assms(1) by (metis of_nat_less_iff of_nat_numeral of_nat_power)
  moreover have "(0::int) < 2 ^ n" "0 \<le> int (unat v)"
    by simp_all
  ultimately have "- (2 ^ n) < - int (unat v)" "- (2 ^ n) < int (unat v)" "- int (unat v) < 2 ^ n"
    by linarith+
  then have x: "- (2 ^ n) < x \<and> x < 2 ^ n"
    using v by (simp only: x_def split: if_split) blast
  moreover have "sint (if sign then - v else v) = x"
    unfolding x_def by (rule sint_sign(2)) (use x n in \<open>simp_all add: x_def\<close>)
  ultimately show ?thesis
    using assms(2,3) unfolding int_result_def x_def[symmetric] Let_def by simp
qed

lemma trunc_unsigned:
  fixes v :: uint64
  assumes "int (unat v) \<le> hi"
  shows "int_result 0 hi s False (int (unat v)) ex = (uint v, raise_if ex softfloat_flag_inexact s)"
  using assms by (simp add: int_result_def uint_nat)

lemma trunc_negative:
  assumes "0 < r"
  shows "int_result 0 hi s True r ex = over_result 0 hi s True"
  using assms by (simp add: int_result_def over_result_def)

lemma fp_fields_iff:
  assumes "b < 2 ^ (p + w + 1)" and "e * 2 ^ p < 2 ^ (p + w)"
  shows "b = of_bool sg * 2 ^ (p + w) + e * 2 ^ p \<longleftrightarrow> fp_sign p w b = sg \<and> fp_exp p w b = e \<and> fp_frac p b = 0"
proof
  assume b: "b = of_bool sg * 2 ^ (p + w) + e * 2 ^ p"
  have "fp_sign p w b = sg" "fp_abs p w b = e * 2 ^ p"
    unfolding b using fp_pattern[OF assms(2)] by blast+
  then show "fp_sign p w b = sg \<and> fp_exp p w b = e \<and> fp_frac p b = 0"
    using fp_abs_div_mod[of p w b] by simp
next
  assume "fp_sign p w b = sg \<and> fp_exp p w b = e \<and> fp_frac p b = 0"
  then show "b = of_bool sg * 2 ^ (p + w) + e * 2 ^ p"
    using fp_decomp[OF assms(1)] by simp
qed

section \<open>Correctness\<close>

lemma hidden_sigF16: "expF16UI (to_u64 a) \<noteq> 0 \<Longrightarrow> unat (fracF16UI (to_u64 a) OR 0x0400) = arg_sig 10 5 (unat a)" for a :: float16
  using arg_sigF16[of a] by simp

lemma hidden_sigF32: "expF32UI (to_u64 a) \<noteq> 0 \<Longrightarrow> unat (fracF32UI (to_u64 a) OR 0x00800000) = arg_sig 23 8 (unat a)" for a :: float32
  using arg_sigF32[of a] by simp

lemma hidden_sigF64: "expF64UI a \<noteq> 0 \<Longrightarrow> unat (fracF64UI a OR 0x0010000000000000) = arg_sig 52 11 (unat a)" for a :: float64
  using arg_sigF64[of a] by simp

lemma int_and_31: "k AND 31 = k mod 32" for k :: int
  using take_bit_eq_mask[of 5 k] by (simp add: mask_numeral take_bit_eq_mod)

lemma int_and_63: "k AND 63 = k mod 64" for k :: int
  using take_bit_eq_mask[of 6 k] by (simp add: mask_numeral take_bit_eq_mod)

lemma cut_offF32:
  fixes g :: uint64
  assumes "0x7E < e" and "e \<le> 0xBE" and "unat g < 2 ^ 24"
  shows "40 - (0xBE - int e) < 0 \<and> to_u32 (shl g ((40 - (0xBE - int e)) AND 31)) \<noteq> 0 \<longleftrightarrow> unat g * 2 ^ 40 mod 2 ^ (0xBE - e) \<noteq> 0"
proof (cases "e < 0x96")
  case True
  define k where "k = 0x96 - e"
  have k: "0 < k" "k \<le> 24" "0xBE - e = 40 + k"
    using True assms(1) by (simp_all add: k_def)
  have "(40 - (0xBE - int e)) AND 31 = (- int k) mod 32"
    using True by (simp add: int_and_31 k_def of_nat_diff)
  also have "\<dots> = (- int k + 32) mod 32"
    by (simp only: mod_add_self2)
  also have "\<dots> = 32 - int k"
    using k by (subst mod_pos_pos_trivial) simp_all
  finally have n: "nat ((40 - (0xBE - int e)) AND 31) = 32 - k"
    using k by simp
  have "to_u32 (push_bit (32 - k) g) = push_bit (32 - k) (to_u32 g)"
    by (rule bit_word_eqI) (auto simp: bit_simps)
  moreover have "unat (to_u32 g) = unat g"
    using assms(3) by (simp add: unat_ucast_mod)
  ultimately have "to_u32 (push_bit (32 - k) g) = 0 \<longleftrightarrow> unat g mod 2 ^ k = 0"
    using push_bit_eq_0_mod[of k "to_u32 g"] k by simp
  moreover have "unat g * 2 ^ 40 mod 2 ^ (40 + k) = unat g mod 2 ^ k * 2 ^ 40"
    by (simp only: power_add mult.commute[of "2 ^ 40"] mult_mod_left)
  ultimately show ?thesis
    unfolding n k(3) using True by simp
next
  case False
  then have "(2::nat) ^ (0xBE - e) dvd unat g * 2 ^ 40"
    by (intro dvd_mult le_imp_power_dvd) simp
  then show ?thesis
    using False by (simp add: dvd_eq_mod_eq_0)
qed

lemma cut_offF64:
  fixes u :: uint64
  assumes "0x3FE < e" and "e < 0x433"
  shows "shl u (- (0x433 - int e) AND 63) = 0 \<longleftrightarrow> unat u mod 2 ^ (0x433 - e) = 0"
proof -
  define k where "k = 0x433 - e"
  have k: "0 < k" "k \<le> 52"
    using assms by (simp_all add: k_def)
  have "- (0x433 - int e) AND 63 = (- int k) mod 64"
    using assms by (simp add: int_and_63 k_def of_nat_diff)
  also have "\<dots> = (- int k + 64) mod 64"
    by (simp only: mod_add_self2)
  also have "\<dots> = 64 - int k"
    using k by (subst mod_pos_pos_trivial) simp_all
  finally have "nat (- (0x433 - int e) AND 63) = 64 - k"
    using k by simp
  then show ?thesis
    using push_bit_eq_0_mod[of k u] k by (simp add: k_def)
qed

lemma min_patternF32_i32:
  "to_u64 a = packToF32UI True 0x9E 0 \<longleftrightarrow> fp_sign 23 8 (unat a) \<and> fp_exp 23 8 (unat a) = 0x9E \<and> fp_frac 23 (unat a) = 0"
  for a :: float32
proof -
  have "to_u64 a = packToF32UI True 0x9E 0 \<longleftrightarrow> unat a = of_bool True * 2 ^ (23 + 8) + 0x9E * 2 ^ 23"
    by (simp add: word_unat_eq_iff packToF32UI_def unat_ucast_widen)
  then show ?thesis
    using fp_fields_iff[of "unat a" 23 8 "0x9E" True] unat_lt[of a] by simp
qed

lemma f32_to_i32_r_minMag_conv:
  "f32_to_i32_r_minMag a exact s = to_int_spec 23 8 (- (2 ^ 31)) (2 ^ 31 - 1) RTZ exact s (unat a)"
proof -
  define e where "e = fp_exp 23 8 (unat a)"
  have e: "expF32UI (to_u64 a) = int e"
    by (simp add: F32_fields e_def)
  have em: "fp_emin 23 8 = - 149"
    by (simp add: fp_emin_def fp_bias_def)
  define u where "u = push_bit 8 (fracF32UI (to_u64 a) OR 0x00800000)"
  have u: "unat u = arg_sig 23 8 (unat a) * 2 ^ 8" "unat u < 2 ^ 32" if "e \<noteq> 0"
  proof -
    show N: "unat u = arg_sig 23 8 (unat a) * 2 ^ 8"
      unfolding u_def using hidden_sigF32[of a] that arg_sig_less[of 23 8 "unat a"] by (subst unat_push_bit_mult) (simp_all add: e)
    show "unat u < 2 ^ 32"
      using arg_sig_less[of 23 8 "unat a"] by (simp add: N)
  qed
  note D = f32_to_i32_r_minMag_def[of a exact s, unfolded Let_def F32_fields(1) mag_bitsF32 nanF32_fields, unfolded e, folded u_def]
  consider "e \<le> 0x7E" | "0x7E < e" "e < 0x9E" | "e = 0x9E" | "0x9E < e"
    by linarith
  then show ?thesis
  proof cases
    case 1
    then show ?thesis
      unfolding D using to_int_trunc_small[of 23 8 "unat a" "- (2 ^ 31)" "2 ^ 31 - 1" exact s]
      by (simp add: em e_def raise_if_def max_def)
  next
    case 2
    define v where "v = drop_bit (0x9E - e) u"
    have v: "unat v = unat u div 2 ^ (0x9E - e)"
      by (simp add: v_def unat_drop_bit_div)
    have "(2::nat) ^ 1 \<le> 2 ^ (0x9E - e)"
      using 2 by (intro power_increasing) simp_all
    then have "unat v < 2 ^ 31"
      using u(2) 2 unfolding v by (simp add: div_less_iff_less_mult)
    then have *: "to_int_spec 23 8 (- (2 ^ 31)) (2 ^ 31 - 1) RTZ exact s (unat a) =
        (sint (if fp_sign 23 8 (unat a) then - v else v), raise_if (exact \<and> unat u mod 2 ^ (0x9E - e) \<noteq> 0) softfloat_flag_inexact s)"
      using to_int_trunc_shift[of 23 8 "unat a" "unat u" 8 "0x9E - e"] u(1) 2 trunc_signed[of v 31 "2 ^ 31 - 1" "- (2 ^ 31)"]
      by (simp add: e_def[symmetric] em v of_nat_diff)
    show ?thesis
      unfolding D using 2 * shift_back_iff[of "0x9E - e" u] by (simp add: v_def raise_if_def nat_diff_distrib)
  next
    case 3
    have N: "arg_sig 23 8 (unat a) = 2 ^ 23 + fp_frac 23 (unat a)"
      using 3 by (simp add: arg_sig_def e_def)
    have "to_int_spec 23 8 (- (2 ^ 31)) (2 ^ 31 - 1) RTZ exact s (unat a) =
        int_result (- (2 ^ 31)) (2 ^ 31 - 1) s (fp_sign 23 8 (unat a)) (int (arg_sig 23 8 (unat a) * 2 ^ 8)) False"
      using to_int_trunc_shift[of 23 8 "unat a" _ 8 0, OF _ _ refl] 3 by (simp add: e_def[symmetric] em)
    then show ?thesis
      unfolding D min_patternF32_i32 int_result_def raise_if_def N e_def[symmetric] using 3
      by (simp add: fp_class_fields flip: e_def)
  next
    case 4
    then have "to_int_spec 23 8 (- (2 ^ 31)) (2 ^ 31 - 1) RTZ exact s (unat a) =
        over_result (- (2 ^ 31)) (2 ^ 31 - 1) s (fp_sign 23 8 (unat a) \<and> \<not> fp_nan 23 8 (unat a))"
      by (intro to_int_spec_over[where n = 32]) (simp_all add: e_def em)
    then show ?thesis
      unfolding D min_patternF32_i32 over_result_def using 4 by (simp flip: e_def)
  qed
qed

lemma min_patternF32_i64:
  "to_u64 a = packToF32UI True 0xBE 0 \<longleftrightarrow> fp_sign 23 8 (unat a) \<and> fp_exp 23 8 (unat a) = 0xBE \<and> fp_frac 23 (unat a) = 0"
  for a :: float32
proof -
  have "to_u64 a = packToF32UI True 0xBE 0 \<longleftrightarrow> unat a = of_bool True * 2 ^ (23 + 8) + 0xBE * 2 ^ 23"
    by (simp add: word_unat_eq_iff packToF32UI_def unat_ucast_widen)
  then show ?thesis
    using fp_fields_iff[of "unat a" 23 8 "0xBE" True] unat_lt[of a] by simp
qed

lemma f32_to_i64_r_minMag_conv:
  "f32_to_i64_r_minMag a exact s = to_int_spec 23 8 (- (2 ^ 63)) (2 ^ 63 - 1) RTZ exact s (unat a)"
proof -
  define e where "e = fp_exp 23 8 (unat a)"
  have e: "expF32UI (to_u64 a) = int e"
    by (simp add: F32_fields e_def)
  have em: "fp_emin 23 8 = - 149"
    by (simp add: fp_emin_def fp_bias_def)
  define u where "u = push_bit 40 (fracF32UI (to_u64 a) OR 0x00800000)"
  have u: "unat u = arg_sig 23 8 (unat a) * 2 ^ 40" "unat u < 2 ^ 64" if "e \<noteq> 0"
  proof -
    show N: "unat u = arg_sig 23 8 (unat a) * 2 ^ 40"
      unfolding u_def using hidden_sigF32[of a] that arg_sig_less[of 23 8 "unat a"] by (subst unat_push_bit_mult) (simp_all add: e)
    show "unat u < 2 ^ 64"
      using arg_sig_less[of 23 8 "unat a"] by (simp add: N)
  qed
  note D = f32_to_i64_r_minMag_def[of a exact s, unfolded Let_def F32_fields(1) mag_bitsF32 nanF32_fields, unfolded e, folded u_def]
  consider "e \<le> 0x7E" | "0x7E < e" "e < 0xBE" | "e = 0xBE" | "0xBE < e"
    by linarith
  then show ?thesis
  proof cases
    case 1
    then show ?thesis
      unfolding D using to_int_trunc_small[of 23 8 "unat a" "- (2 ^ 63)" "2 ^ 63 - 1" exact s]
      by (simp add: em e_def raise_if_def max_def)
  next
    case 2
    define v where "v = drop_bit (0xBE - e) u"
    have v: "unat v = unat u div 2 ^ (0xBE - e)"
      by (simp add: v_def unat_drop_bit_div)
    have "(2::nat) ^ 1 \<le> 2 ^ (0xBE - e)"
      using 2 by (intro power_increasing) simp_all
    then have "unat v < 2 ^ 63"
      using u(2) 2 unfolding v by (simp add: div_less_iff_less_mult)
    then have *: "to_int_spec 23 8 (- (2 ^ 63)) (2 ^ 63 - 1) RTZ exact s (unat a) =
        (sint (if fp_sign 23 8 (unat a) then - v else v), raise_if (exact \<and> unat u mod 2 ^ (0xBE - e) \<noteq> 0) softfloat_flag_inexact s)"
      using to_int_trunc_shift[of 23 8 "unat a" "unat u" 40 "0xBE - e"] u(1) 2 trunc_signed[of v 63 "2 ^ 63 - 1" "- (2 ^ 63)"]
      by (simp add: e_def[symmetric] em v of_nat_diff)
    have "exact \<and> 40 - (0xBE - int e) < 0 \<and> to_u32 (shl (fracF32UI (to_u64 a) OR 0x00800000) ((40 - (0xBE - int e)) AND 31)) \<noteq> 0
        \<longleftrightarrow> exact \<and> unat u mod 2 ^ (0xBE - e) \<noteq> 0"
      using cut_offF32[of e "fracF32UI (to_u64 a) OR 0x00800000"] u(1) hidden_sigF32[of a] arg_sig_less[of 23 8 "unat a"] 2 by (simp add: e)
    then show ?thesis
      unfolding D using 2 * by (simp add: v_def raise_if_def nat_diff_distrib)
  next
    case 3
    have N: "arg_sig 23 8 (unat a) = 2 ^ 23 + fp_frac 23 (unat a)"
      using 3 by (simp add: arg_sig_def e_def)
    have "to_int_spec 23 8 (- (2 ^ 63)) (2 ^ 63 - 1) RTZ exact s (unat a) =
        int_result (- (2 ^ 63)) (2 ^ 63 - 1) s (fp_sign 23 8 (unat a)) (int (arg_sig 23 8 (unat a) * 2 ^ 40)) False"
      using to_int_trunc_shift[of 23 8 "unat a" _ 40 0, OF _ _ refl] 3 by (simp add: e_def[symmetric] em)
    then show ?thesis
      unfolding D min_patternF32_i64 int_result_def raise_if_def N e_def[symmetric] using 3
      by (simp add: fp_class_fields flip: e_def)
  next
    case 4
    then have "to_int_spec 23 8 (- (2 ^ 63)) (2 ^ 63 - 1) RTZ exact s (unat a) =
        over_result (- (2 ^ 63)) (2 ^ 63 - 1) s (fp_sign 23 8 (unat a) \<and> \<not> fp_nan 23 8 (unat a))"
      by (intro to_int_spec_over[where n = 64]) (simp_all add: e_def em)
    then show ?thesis
      unfolding D min_patternF32_i64 over_result_def using 4 by (simp flip: e_def)
  qed
qed

lemma f32_to_ui32_r_minMag_conv:
  "map_prod uint id (f32_to_ui32_r_minMag a exact s) = to_int_spec 23 8 0 (2 ^ 32 - 1) RTZ exact s (unat a)"
proof -
  define e where "e = fp_exp 23 8 (unat a)"
  have e: "expF32UI (to_u64 a) = int e"
    by (simp add: F32_fields e_def)
  have em: "fp_emin 23 8 = - 149"
    by (simp add: fp_emin_def fp_bias_def)
  define u where "u = push_bit 8 (fracF32UI (to_u64 a) OR 0x00800000)"
  have u: "unat u = arg_sig 23 8 (unat a) * 2 ^ 8" "unat u < 2 ^ 32" if "e \<noteq> 0"
  proof -
    show N: "unat u = arg_sig 23 8 (unat a) * 2 ^ 8"
      unfolding u_def using hidden_sigF32[of a] that arg_sig_less[of 23 8 "unat a"] by (subst unat_push_bit_mult) (simp_all add: e)
    show "unat u < 2 ^ 32"
      using arg_sig_less[of 23 8 "unat a"] by (simp add: N)
  qed
  note D = f32_to_ui32_r_minMag_def[of a exact s, unfolded Let_def F32_fields(1) mag_bitsF32 nanF32_fields, unfolded e, folded u_def]
  consider "e \<le> 0x7E" | "0x7E < e" "e \<le> 0x9E" "fp_sign 23 8 (unat a)" | "0x7E < e" "e \<le> 0x9E" "\<not> fp_sign 23 8 (unat a)" | "0x9E < e"
    by linarith
  then show ?thesis
  proof cases
    case 1
    then show ?thesis
      unfolding D using to_int_trunc_small[of 23 8 "unat a" "0" "2 ^ 32 - 1" exact s]
      by (simp add: em e_def raise_if_def max_def)
  next
    case 2
    have "(2::nat) ^ (0x9E - e) \<le> 2 ^ 31"
      using 2 by (intro power_increasing) simp_all
    also have "\<dots> \<le> unat u"
      using u(1) 2 arg_sig_bounds(3)[of 23 8 "unat a"] by (simp add: e_def)
    finally have "0 < unat u div 2 ^ (0x9E - e)"
      by (simp add: div_greater_zero_iff)
    then have "to_int_spec 23 8 0 (2 ^ 32 - 1) RTZ exact s (unat a) = over_result 0 (2 ^ 32 - 1) s True"
      using to_int_trunc_shift[of 23 8 "unat a" "unat u" 8 "0x9E - e"] u(1) 2 trunc_negative
      by (simp add: e_def[symmetric] em of_nat_diff)
    then show ?thesis
      unfolding D over_result_def using 2 by (simp add: fp_class_fields flip: e_def)
  next
    case 3
    define v where "v = drop_bit (0x9E - e) u"
    have v: "unat v = unat u div 2 ^ (0x9E - e)"
      by (simp add: v_def unat_drop_bit_div)
    have "unat v \<le> unat u"
      unfolding v by (rule div_le_dividend)
    then have "unat v < 2 ^ 32"
      using u(2) 3 by simp
    then have *: "to_int_spec 23 8 0 (2 ^ 32 - 1) RTZ exact s (unat a) =
        (uint v, raise_if (exact \<and> unat u mod 2 ^ (0x9E - e) \<noteq> 0) softfloat_flag_inexact s)"
      using to_int_trunc_shift[of 23 8 "unat a" "unat u" 8 "0x9E - e"] u(1) 3 trunc_unsigned[of v "2 ^ 32 - 1"]
      by (simp add: e_def[symmetric] em v of_nat_diff)
    show ?thesis
      unfolding D using 3 * shift_back_iff[of "0x9E - e" u] by (simp add: v_def raise_if_def nat_diff_distrib)
  next
    case 4
    then have "to_int_spec 23 8 0 (2 ^ 32 - 1) RTZ exact s (unat a) =
        over_result 0 (2 ^ 32 - 1) s (fp_sign 23 8 (unat a) \<and> \<not> fp_nan 23 8 (unat a))"
      by (intro to_int_spec_over[where n = 32]) (simp_all add: e_def em)
    then show ?thesis
      unfolding D over_result_def using 4 by (simp flip: e_def)
  qed
qed

lemma f32_to_ui64_r_minMag_conv:
  "map_prod uint id (f32_to_ui64_r_minMag a exact s) = to_int_spec 23 8 0 (2 ^ 64 - 1) RTZ exact s (unat a)"
proof -
  define e where "e = fp_exp 23 8 (unat a)"
  have e: "expF32UI (to_u64 a) = int e"
    by (simp add: F32_fields e_def)
  have em: "fp_emin 23 8 = - 149"
    by (simp add: fp_emin_def fp_bias_def)
  define u where "u = push_bit 40 (fracF32UI (to_u64 a) OR 0x00800000)"
  have u: "unat u = arg_sig 23 8 (unat a) * 2 ^ 40" "unat u < 2 ^ 64" if "e \<noteq> 0"
  proof -
    show N: "unat u = arg_sig 23 8 (unat a) * 2 ^ 40"
      unfolding u_def using hidden_sigF32[of a] that arg_sig_less[of 23 8 "unat a"] by (subst unat_push_bit_mult) (simp_all add: e)
    show "unat u < 2 ^ 64"
      using arg_sig_less[of 23 8 "unat a"] by (simp add: N)
  qed
  note D = f32_to_ui64_r_minMag_def[of a exact s, unfolded Let_def F32_fields(1) mag_bitsF32 nanF32_fields, unfolded e, folded u_def]
  consider "e \<le> 0x7E" | "0x7E < e" "e \<le> 0xBE" "fp_sign 23 8 (unat a)" | "0x7E < e" "e \<le> 0xBE" "\<not> fp_sign 23 8 (unat a)" | "0xBE < e"
    by linarith
  then show ?thesis
  proof cases
    case 1
    then show ?thesis
      unfolding D using to_int_trunc_small[of 23 8 "unat a" "0" "2 ^ 64 - 1" exact s]
      by (simp add: em e_def raise_if_def max_def)
  next
    case 2
    have "(2::nat) ^ (0xBE - e) \<le> 2 ^ 63"
      using 2 by (intro power_increasing) simp_all
    also have "\<dots> \<le> unat u"
      using u(1) 2 arg_sig_bounds(3)[of 23 8 "unat a"] by (simp add: e_def)
    finally have "0 < unat u div 2 ^ (0xBE - e)"
      by (simp add: div_greater_zero_iff)
    then have "to_int_spec 23 8 0 (2 ^ 64 - 1) RTZ exact s (unat a) = over_result 0 (2 ^ 64 - 1) s True"
      using to_int_trunc_shift[of 23 8 "unat a" "unat u" 40 "0xBE - e"] u(1) 2 trunc_negative
      by (simp add: e_def[symmetric] em of_nat_diff)
    then show ?thesis
      unfolding D over_result_def using 2 by (simp add: fp_class_fields flip: e_def)
  next
    case 3
    define v where "v = drop_bit (0xBE - e) u"
    have v: "unat v = unat u div 2 ^ (0xBE - e)"
      by (simp add: v_def unat_drop_bit_div)
    have "unat v \<le> unat u"
      unfolding v by (rule div_le_dividend)
    then have "unat v < 2 ^ 64"
      using u(2) 3 by simp
    then have *: "to_int_spec 23 8 0 (2 ^ 64 - 1) RTZ exact s (unat a) =
        (uint v, raise_if (exact \<and> unat u mod 2 ^ (0xBE - e) \<noteq> 0) softfloat_flag_inexact s)"
      using to_int_trunc_shift[of 23 8 "unat a" "unat u" 40 "0xBE - e"] u(1) 3 trunc_unsigned[of v "2 ^ 64 - 1"]
      by (simp add: e_def[symmetric] em v of_nat_diff)
    have "exact \<and> 40 - (0xBE - int e) < 0 \<and> to_u32 (shl (fracF32UI (to_u64 a) OR 0x00800000) ((40 - (0xBE - int e)) AND 31)) \<noteq> 0
        \<longleftrightarrow> exact \<and> unat u mod 2 ^ (0xBE - e) \<noteq> 0"
      using cut_offF32[of e "fracF32UI (to_u64 a) OR 0x00800000"] u(1) hidden_sigF32[of a] arg_sig_less[of 23 8 "unat a"] 3 by (simp add: e)
    then show ?thesis
      unfolding D using 3 * by (simp add: v_def raise_if_def nat_diff_distrib)
  next
    case 4
    then have "to_int_spec 23 8 0 (2 ^ 64 - 1) RTZ exact s (unat a) =
        over_result 0 (2 ^ 64 - 1) s (fp_sign 23 8 (unat a) \<and> \<not> fp_nan 23 8 (unat a))"
      by (intro to_int_spec_over[where n = 64]) (simp_all add: e_def em)
    then show ?thesis
      unfolding D over_result_def using 4 by (simp flip: e_def)
  qed
qed

lemma f64_to_i32_r_minMag_conv:
  "f64_to_i32_r_minMag a exact s = to_int_spec 52 11 (- (2 ^ 31)) (2 ^ 31 - 1) RTZ exact s (unat a)"
proof -
  define e where "e = fp_exp 52 11 (unat a)"
  have e: "expF64UI a = int e"
    by (simp add: F64_fields e_def)
  have em: "fp_emin 52 11 = - 1074"
    by (simp add: fp_emin_def fp_bias_def)
  define u where "u = fracF64UI a OR 0x0010000000000000"
  have u: "unat u = arg_sig 52 11 (unat a) * 2 ^ 0" "unat u < 2 ^ 53" if "e \<noteq> 0"
  proof -
    show N: "unat u = arg_sig 52 11 (unat a) * 2 ^ 0"
      unfolding u_def using hidden_sigF64[of a] that arg_sig_less[of 52 11 "unat a"] by (simp add: e)
    show "unat u < 2 ^ 53"
      using arg_sig_less[of 52 11 "unat a"] by (simp add: N)
  qed
  note D = f64_to_i32_r_minMag_def[of a exact s, unfolded Let_def F64_fields(1) mag_bitsF64 nanF64_fields, unfolded e, folded u_def]
  consider "e \<le> 0x3FE" | "0x3FE < e" "e < 0x41E" | "e = 0x41E" | "0x41E < e"
    by linarith
  then show ?thesis
  proof cases
    case 1
    then show ?thesis
      unfolding D using to_int_trunc_small[of 52 11 "unat a" "- (2 ^ 31)" "2 ^ 31 - 1" exact s]
      by (simp add: em e_def raise_if_def max_def)
  next
    case 2
    define v where "v = drop_bit (0x433 - e) u"
    have v: "unat v = unat u div 2 ^ (0x433 - e)"
      by (simp add: v_def unat_drop_bit_div)
    have "(2::nat) ^ 22 \<le> 2 ^ (0x433 - e)"
      using 2 by (intro power_increasing) simp_all
    then have "unat v < 2 ^ 31"
      using u(2) 2 unfolding v by (simp add: div_less_iff_less_mult)
    then have *: "to_int_spec 52 11 (- (2 ^ 31)) (2 ^ 31 - 1) RTZ exact s (unat a) =
        (sint (if fp_sign 52 11 (unat a) then - v else v), raise_if (exact \<and> unat u mod 2 ^ (0x433 - e) \<noteq> 0) softfloat_flag_inexact s)"
      using to_int_trunc_shift[of 52 11 "unat a" "unat u" 0 "0x433 - e"] u(1) 2 trunc_signed[of v 31 "2 ^ 31 - 1" "- (2 ^ 31)"]
      by (simp add: e_def[symmetric] em v of_nat_diff)
    show ?thesis
      unfolding D using 2 * shift_back_iff[of "0x433 - e" u] by (simp add: v_def raise_if_def nat_diff_distrib)
  next
    case 3
    have N: "arg_sig 52 11 (unat a) = 2 ^ 52 + fp_frac 52 (unat a)"
      using 3 by (simp add: arg_sig_def e_def)
    have l: "fracF64UI a < 0x0000000000200000 \<longleftrightarrow> fp_frac 52 (unat a) < 2 ^ 21" "fracF64UI a = 0 \<longleftrightarrow> fp_frac 52 (unat a) = 0"
      using F64_fields(3)[of a] by (simp_all add: word_less_nat_alt word_eq_0_unat[of "fracF64UI a"])
    have "to_int_spec 52 11 (- (2 ^ 31)) (2 ^ 31 - 1) RTZ exact s (unat a) =
        int_result (- (2 ^ 31)) (2 ^ 31 - 1) s (fp_sign 52 11 (unat a))
          (int (arg_sig 52 11 (unat a) div 2 ^ 21)) (exact \<and> arg_sig 52 11 (unat a) mod 2 ^ 21 \<noteq> 0)"
      using to_int_trunc_shift[of 52 11 "unat a" _ 0 21, OF _ _ refl] 3 by (simp add: e_def[symmetric] em)
    moreover have "arg_sig 52 11 (unat a) div 2 ^ 21 = 2 ^ 31 + fp_frac 52 (unat a) div 2 ^ 21"
        "arg_sig 52 11 (unat a) mod 2 ^ 21 = fp_frac 52 (unat a) mod 2 ^ 21"
    proof -
      have "(2::nat) ^ 52 = 2 ^ 31 * 2 ^ 21"
        by simp
      then show "arg_sig 52 11 (unat a) div 2 ^ 21 = 2 ^ 31 + fp_frac 52 (unat a) div 2 ^ 21"
          "arg_sig 52 11 (unat a) mod 2 ^ 21 = fp_frac 52 (unat a) mod 2 ^ 21"
        unfolding N by (simp_all only: div_mult_self3 mod_mult_self3 power_not_zero zero_neq_numeral not_False_eq_True simp_thms)
    qed
    moreover have "fp_frac 52 (unat a) div 2 ^ 21 = 0 \<longleftrightarrow> fp_frac 52 (unat a) < 2 ^ 21"
      by (simp add: div_eq_0_iff)
    ultimately show ?thesis
      unfolding D int_result_def raise_if_def l using 3 by (auto simp: fp_class_fields e_def)
  next
    case 4
    then have "to_int_spec 52 11 (- (2 ^ 31)) (2 ^ 31 - 1) RTZ exact s (unat a) =
        over_result (- (2 ^ 31)) (2 ^ 31 - 1) s (fp_sign 52 11 (unat a) \<and> \<not> fp_nan 52 11 (unat a))"
      by (intro to_int_spec_over[where n = 32]) (simp_all add: e_def em)
    then show ?thesis
      unfolding D over_result_def using 4 by (simp flip: e_def)
  qed
qed

lemma f64_to_ui32_r_minMag_conv:
  "map_prod uint id (f64_to_ui32_r_minMag a exact s) = to_int_spec 52 11 0 (2 ^ 32 - 1) RTZ exact s (unat a)"
proof -
  define e where "e = fp_exp 52 11 (unat a)"
  have e: "expF64UI a = int e"
    by (simp add: F64_fields e_def)
  have em: "fp_emin 52 11 = - 1074"
    by (simp add: fp_emin_def fp_bias_def)
  define u where "u = fracF64UI a OR 0x0010000000000000"
  have u: "unat u = arg_sig 52 11 (unat a) * 2 ^ 0" "unat u < 2 ^ 53" if "e \<noteq> 0"
  proof -
    show N: "unat u = arg_sig 52 11 (unat a) * 2 ^ 0"
      unfolding u_def using hidden_sigF64[of a] that arg_sig_less[of 52 11 "unat a"] by (simp add: e)
    show "unat u < 2 ^ 53"
      using arg_sig_less[of 52 11 "unat a"] by (simp add: N)
  qed
  note D = f64_to_ui32_r_minMag_def[of a exact s, unfolded Let_def F64_fields(1) mag_bitsF64 nanF64_fields, unfolded e, folded u_def]
  consider "e \<le> 0x3FE" | "0x3FE < e" "e \<le> 0x41E" "fp_sign 52 11 (unat a)" | "0x3FE < e" "e \<le> 0x41E" "\<not> fp_sign 52 11 (unat a)" | "0x41E < e"
    by linarith
  then show ?thesis
  proof cases
    case 1
    then show ?thesis
      unfolding D using to_int_trunc_small[of 52 11 "unat a" "0" "2 ^ 32 - 1" exact s]
      by (simp add: em e_def raise_if_def max_def)
  next
    case 2
    have "(2::nat) ^ (0x433 - e) \<le> 2 ^ 52"
      using 2 by (intro power_increasing) simp_all
    also have "\<dots> \<le> unat u"
      using u(1) 2 arg_sig_bounds(3)[of 52 11 "unat a"] by (simp add: e_def)
    finally have "0 < unat u div 2 ^ (0x433 - e)"
      by (simp add: div_greater_zero_iff)
    then have "to_int_spec 52 11 0 (2 ^ 32 - 1) RTZ exact s (unat a) = over_result 0 (2 ^ 32 - 1) s True"
      using to_int_trunc_shift[of 52 11 "unat a" "unat u" 0 "0x433 - e"] u(1) 2 trunc_negative
      by (simp add: e_def[symmetric] em of_nat_diff)
    then show ?thesis
      unfolding D over_result_def using 2 by (simp add: fp_class_fields flip: e_def)
  next
    case 3
    define v where "v = drop_bit (0x433 - e) u"
    have v: "unat v = unat u div 2 ^ (0x433 - e)"
      by (simp add: v_def unat_drop_bit_div)
    have "(2::nat) ^ 21 \<le> 2 ^ (0x433 - e)"
      using 3 by (intro power_increasing) simp_all
    then have "unat v < 2 ^ 32"
      using u(2) 3 unfolding v by (simp add: div_less_iff_less_mult)
    then have *: "to_int_spec 52 11 0 (2 ^ 32 - 1) RTZ exact s (unat a) =
        (uint v, raise_if (exact \<and> unat u mod 2 ^ (0x433 - e) \<noteq> 0) softfloat_flag_inexact s)"
      using to_int_trunc_shift[of 52 11 "unat a" "unat u" 0 "0x433 - e"] u(1) 3 trunc_unsigned[of v "2 ^ 32 - 1"]
      by (simp add: e_def[symmetric] em v of_nat_diff)
    show ?thesis
      unfolding D using 3 * shift_back_iff[of "0x433 - e" u] by (simp add: v_def raise_if_def nat_diff_distrib)
  next
    case 4
    then have "to_int_spec 52 11 0 (2 ^ 32 - 1) RTZ exact s (unat a) =
        over_result 0 (2 ^ 32 - 1) s (fp_sign 52 11 (unat a) \<and> \<not> fp_nan 52 11 (unat a))"
      by (intro to_int_spec_over[where n = 32]) (simp_all add: e_def em)
    then show ?thesis
      unfolding D over_result_def using 4 by (simp flip: e_def)
  qed
qed

lemma left_sigF64:
  fixes u :: uint64
  assumes "unat u < 2 ^ 53" and "k \<le> 11"
  shows "unat (push_bit k u) = unat u * 2 ^ k"
proof -
  have "unat u * 2 ^ k < 2 ^ 53 * 2 ^ k"
    using assms(1) by simp
  also have "\<dots> \<le> 2 ^ 53 * 2 ^ 11"
    using assms(2) by (intro mult_left_mono power_increasing) simp_all
  finally show ?thesis
    by (subst unat_push_bit_mult) simp_all
qed

lemma min_patternF64_i64:
  "a = packToF64UI True 0x43E 0 \<longleftrightarrow> fp_sign 52 11 (unat a) \<and> fp_exp 52 11 (unat a) = 0x43E \<and> fp_frac 52 (unat a) = 0"
  for a :: float64
proof -
  have "a = packToF64UI True 0x43E 0 \<longleftrightarrow> unat a = of_bool True * 2 ^ (52 + 11) + 0x43E * 2 ^ 52"
    by (simp add: word_unat_eq_iff packToF64UI_def)
  then show ?thesis
    using fp_fields_iff[of "unat a" 52 11 "0x43E" True] unat_lt[of a] by simp
qed

lemma f64_to_i64_r_minMag_conv:
  "f64_to_i64_r_minMag a exact s = to_int_spec 52 11 (- (2 ^ 63)) (2 ^ 63 - 1) RTZ exact s (unat a)"
proof -
  define e where "e = fp_exp 52 11 (unat a)"
  have e: "expF64UI a = int e"
    by (simp add: F64_fields e_def)
  have em: "fp_emin 52 11 = - 1074"
    by (simp add: fp_emin_def fp_bias_def)
  define u where "u = fracF64UI a OR 0x0010000000000000"
  have u: "unat u = arg_sig 52 11 (unat a) * 2 ^ 0" "unat u < 2 ^ 53" if "e \<noteq> 0"
  proof -
    show N: "unat u = arg_sig 52 11 (unat a) * 2 ^ 0"
      unfolding u_def using hidden_sigF64[of a] that arg_sig_less[of 52 11 "unat a"] by (simp add: e)
    show "unat u < 2 ^ 53"
      using arg_sig_less[of 52 11 "unat a"] by (simp add: N)
  qed
  note D = f64_to_i64_r_minMag_def[of a exact s, unfolded Let_def F64_fields(1) mag_bitsF64 nanF64_fields, unfolded e, folded u_def]
  consider "e \<le> 0x3FE" | "0x3FE < e" "e < 0x433" | "0x433 \<le> e" "e < 0x43E" | "e = 0x43E" | "0x43E < e"
    by linarith
  then show ?thesis
  proof cases
    case 1
    then show ?thesis
      unfolding D using to_int_trunc_small[of 52 11 "unat a" "- (2 ^ 63)" "2 ^ 63 - 1" exact s]
      by (simp add: em e_def raise_if_def max_def)
  next
    case 2
    define v where "v = drop_bit (0x433 - e) u"
    have v: "unat v = unat u div 2 ^ (0x433 - e)"
      by (simp add: v_def unat_drop_bit_div)
    have "unat v \<le> unat u"
      unfolding v by (rule div_le_dividend)
    then have "unat v < 2 ^ 53"
      using u(2) 2 by simp
    then have *: "to_int_spec 52 11 (- (2 ^ 63)) (2 ^ 63 - 1) RTZ exact s (unat a) =
        (sint (if fp_sign 52 11 (unat a) then - v else v), raise_if (exact \<and> unat u mod 2 ^ (0x433 - e) \<noteq> 0) softfloat_flag_inexact s)"
      using to_int_trunc_shift[of 52 11 "unat a" "unat u" 0 "0x433 - e"] u(1) 2 trunc_signed[of v 53 "2 ^ 63 - 1" "- (2 ^ 63)"]
      by (simp add: e_def[symmetric] em v of_nat_diff)
    show ?thesis
      unfolding D using 2 * shift_back_iff[of "0x433 - e" u] by (simp add: v_def raise_if_def nat_diff_distrib)
  next
    case 3
    define v where "v = push_bit (e - 0x433) u"
    have v: "unat v = unat u * 2 ^ (e - 0x433)"
      unfolding v_def using u(2) 3 by (intro left_sigF64) simp_all
    have "unat u * 2 ^ (e - 0x433) < 2 ^ 53 * 2 ^ (e - 0x433)"
      using u(2) 3 by simp
    also have "\<dots> \<le> 2 ^ 53 * 2 ^ 10"
      using 3 by (intro mult_left_mono power_increasing) simp_all
    finally have "unat v < 2 ^ 63"
      by (simp add: v)
    then have *: "to_int_spec 52 11 (- (2 ^ 63)) (2 ^ 63 - 1) RTZ exact s (unat a) = (sint (if fp_sign 52 11 (unat a) then - v else v), s)"
      using to_int_trunc_shift[of 52 11 "unat a" "unat v" "e - 0x433" 0] u(1) 3 trunc_signed[of v 63 "2 ^ 63 - 1" "- (2 ^ 63)"]
      by (simp add: e_def[symmetric] em v of_nat_diff raise_if_def)
    show ?thesis
      unfolding D using 3 * by (simp add: v_def nat_diff_distrib)
  next
    case 4
    have N: "arg_sig 52 11 (unat a) = 2 ^ 52 + fp_frac 52 (unat a)"
      using 4 by (simp add: arg_sig_def e_def)
    have "to_int_spec 52 11 (- (2 ^ 63)) (2 ^ 63 - 1) RTZ exact s (unat a) =
        int_result (- (2 ^ 63)) (2 ^ 63 - 1) s (fp_sign 52 11 (unat a)) (int (arg_sig 52 11 (unat a) * 2 ^ 11)) False"
      using to_int_trunc_shift[of 52 11 "unat a" _ 11 0, OF _ _ refl] 4 by (simp add: e_def[symmetric] em)
    then show ?thesis
      unfolding D min_patternF64_i64 int_result_def raise_if_def N e_def[symmetric] using 4
      by (simp add: fp_class_fields flip: e_def)
  next
    case 5
    then have "to_int_spec 52 11 (- (2 ^ 63)) (2 ^ 63 - 1) RTZ exact s (unat a) =
        over_result (- (2 ^ 63)) (2 ^ 63 - 1) s (fp_sign 52 11 (unat a) \<and> \<not> fp_nan 52 11 (unat a))"
      by (intro to_int_spec_over[where n = 64]) (simp_all add: e_def em)
    then show ?thesis
      unfolding D min_patternF64_i64 over_result_def using 5 by (simp flip: e_def)
  qed
qed

lemma f64_to_ui64_r_minMag_conv:
  "map_prod uint id (f64_to_ui64_r_minMag a exact s) = to_int_spec 52 11 0 (2 ^ 64 - 1) RTZ exact s (unat a)"
proof -
  define e where "e = fp_exp 52 11 (unat a)"
  have e: "expF64UI a = int e"
    by (simp add: F64_fields e_def)
  have em: "fp_emin 52 11 = - 1074"
    by (simp add: fp_emin_def fp_bias_def)
  define u where "u = fracF64UI a OR 0x0010000000000000"
  have u: "unat u = arg_sig 52 11 (unat a) * 2 ^ 0" "unat u < 2 ^ 53" if "e \<noteq> 0"
  proof -
    show N: "unat u = arg_sig 52 11 (unat a) * 2 ^ 0"
      unfolding u_def using hidden_sigF64[of a] that arg_sig_less[of 52 11 "unat a"] by (simp add: e)
    show "unat u < 2 ^ 53"
      using arg_sig_less[of 52 11 "unat a"] by (simp add: N)
  qed
  note D = f64_to_ui64_r_minMag_def[of a exact s, unfolded Let_def F64_fields(1) mag_bitsF64 nanF64_fields, unfolded e, folded u_def]
  consider "e \<le> 0x3FE" | "0x3FE < e" "e \<le> 0x43E" "fp_sign 52 11 (unat a)" | "0x3FE < e" "e < 0x433" "\<not> fp_sign 52 11 (unat a)"
    | "0x433 \<le> e" "e \<le> 0x43E" "\<not> fp_sign 52 11 (unat a)" | "0x43E < e"
    by linarith
  then show ?thesis
  proof cases
    case 1
    then show ?thesis
      unfolding D using to_int_trunc_small[of 52 11 "unat a" "0" "2 ^ 64 - 1" exact s]
      by (simp add: em e_def raise_if_def max_def)
  next
    case 2
    then have "1 \<le> fp_magn 52 11 (unat a)"
      using fp_magn_ge[of 52 11 "unat a" 0] by (simp add: em e_def)
    then have "to_int_spec 52 11 0 (2 ^ 64 - 1) RTZ exact s (unat a) = over_result 0 (2 ^ 64 - 1) s True"
      using to_int_spec_finite(1)[of 52 11 "unat a"] int_conv_overflow[of 1 "fp_magn 52 11 (unat a)" True 0] 2
      by (simp add: e_def over_result_def)
    then show ?thesis
      unfolding D over_result_def using 2 by (simp add: fp_class_fields flip: e_def)
  next
    case 3
    define v where "v = drop_bit (0x433 - e) u"
    have v: "unat v = unat u div 2 ^ (0x433 - e)"
      by (simp add: v_def unat_drop_bit_div)
    have "unat v \<le> unat u"
      unfolding v by (rule div_le_dividend)
    then have "unat v < 2 ^ 53"
      using u(2) 3 by simp
    then have *: "to_int_spec 52 11 0 (2 ^ 64 - 1) RTZ exact s (unat a) =
        (uint v, raise_if (exact \<and> unat u mod 2 ^ (0x433 - e) \<noteq> 0) softfloat_flag_inexact s)"
      using to_int_trunc_shift[of 52 11 "unat a" "unat u" 0 "0x433 - e"] u(1) 3 trunc_unsigned[of v "2 ^ 64 - 1"]
      by (simp add: e_def[symmetric] em v of_nat_diff)
    show ?thesis
      unfolding D using 3 * cut_offF64[of e u] by (simp add: v_def raise_if_def nat_diff_distrib)
  next
    case 4
    define v where "v = push_bit (e - 0x433) u"
    have v: "unat v = unat u * 2 ^ (e - 0x433)"
      unfolding v_def using u(2) 4 by (intro left_sigF64) simp_all
    have *: "to_int_spec 52 11 0 (2 ^ 64 - 1) RTZ exact s (unat a) = (uint v, s)"
    proof -
      have "int (unat v) \<le> 2 ^ 64 - 1"
        using unat_lt[of v] by simp
      then have "int_result 0 (2 ^ 64 - 1) s False (int (unat v)) False = (uint v, s)"
        using trunc_unsigned[of v "2 ^ 64 - 1" s False] by (simp add: raise_if_def)
      moreover have "to_int_spec 52 11 0 (2 ^ 64 - 1) RTZ exact s (unat a) = int_result 0 (2 ^ 64 - 1) s False (int (unat v)) False"
        using to_int_trunc_shift[of 52 11 "unat a" "unat v" "e - 0x433" 0] u(1) 4 v by (simp add: e_def[symmetric] em of_nat_diff)
      ultimately show ?thesis
        by simp
    qed
    show ?thesis
      unfolding D using 4 * by (simp add: v_def nat_diff_distrib)
  next
    case 5
    then have "to_int_spec 52 11 0 (2 ^ 64 - 1) RTZ exact s (unat a) =
        over_result 0 (2 ^ 64 - 1) s (fp_sign 52 11 (unat a) \<and> \<not> fp_nan 52 11 (unat a))"
      by (intro to_int_spec_over[where n = 64]) (simp_all add: e_def em)
    then show ?thesis
      unfolding D over_result_def using 5 by (simp flip: e_def)
  qed
qed

lemma f16_to_i32_r_minMag_conv:
  "f16_to_i32_r_minMag a exact s = to_int_spec 10 5 (- (2 ^ 31)) (2 ^ 31 - 1) RTZ exact s (unat a)"
proof -
  define e where "e = fp_exp 10 5 (unat a)"
  have e: "expF16UI (to_u64 a) = int e" "e \<le> 0x1F"
    using fp_exp_less[of 10 5 "unat a"] by (simp_all add: F16_fields e_def)
  have em: "fp_emin 10 5 = - 24"
    by (simp add: fp_emin_def fp_bias_def)
  note D = f16_to_i32_r_minMag_def[of a exact s, unfolded Let_def F16_fields(1) mag_bitsF16 nanF16_fields, unfolded e(1)]
  consider "e \<le> 0x0E" | "e = 0x1F" | "0x0E < e" "e < 0x1F"
    using e(2) by linarith
  then show ?thesis
  proof cases
    case 1
    then show ?thesis
      unfolding D using to_int_trunc_small[of 10 5 "unat a" "- (2 ^ 31)" "2 ^ 31 - 1" exact s]
      by (simp add: em e_def raise_if_def max_def)
  next
    case 2
    then have "fp_nan 10 5 (unat a) \<or> fp_infinite 10 5 (unat a)"
      by (auto simp: fp_class_fields e_def)
    then show ?thesis
      unfolding D to_int_spec_def using 2 by auto
  next
    case 3
    define u where "u = push_bit (e - 0x0F) (fracF16UI (to_u64 a) OR 0x0400)"
    have u: "unat u = arg_sig 10 5 (unat a) * 2 ^ (e - 0x0F)"
      using shl_sigF16[of a "e - 0x0F"] 3 by (simp add: u_def e_def)
    have "arg_sig 10 5 (unat a) * 2 ^ (e - 0x0F) \<le> 2 ^ 11 * 2 ^ 15"
      using arg_sig_less[of 10 5 "unat a"] 3 by (intro mult_mono power_increasing) simp_all
    then have "unat u \<le> 2 ^ 26"
      by (simp add: u)
    then have "unat u div 2 ^ 10 \<le> 2 ^ 26 div 2 ^ 10"
      by (rule div_le_mono)
    define v where "v = drop_bit 10 u"
    have v: "unat v = unat u div 2 ^ 10" "unat v \<le> 2 ^ 16"
      using \<open>unat u div 2 ^ 10 \<le> 2 ^ 26 div 2 ^ 10\<close> by (simp_all add: v_def unat_drop_bit_div)
    have low: "u AND 0x3FF = 0 \<longleftrightarrow> unat u mod 2 ^ 10 = 0"
      using unat_and_mask[of u 10] by (simp add: mask_numeral word_eq_0_unat[of "u AND _"])
    have nd: "nat (int e - 0x0F) = e - 0x0F"
      using 3 by simp
    have *: "to_int_spec 10 5 (- (2 ^ 31)) (2 ^ 31 - 1) RTZ exact s (unat a) =
        int_result (- (2 ^ 31)) (2 ^ 31 - 1) s (fp_sign 10 5 (unat a)) (int (unat v)) (exact \<and> u AND 0x3FF \<noteq> 0)"
      using to_int_trunc_shift[of 10 5 "unat a" "unat u" "e - 0x0F" 10] u 3
      by (simp add: e_def[symmetric] em v(1) low of_nat_diff)
    show ?thesis
      unfolding * D nd u_def[symmetric] v_def[symmetric] using 3 v(2) trunc_signed[of v 17 "2 ^ 31 - 1" "- (2 ^ 31)"]
      by (simp add: raise_if_def)
  qed
qed

lemma f16_to_ui32_r_minMag_conv:
  "map_prod uint id (f16_to_ui32_r_minMag a exact s) = to_int_spec 10 5 0 (2 ^ 32 - 1) RTZ exact s (unat a)"
proof -
  define e where "e = fp_exp 10 5 (unat a)"
  have e: "expF16UI (to_u64 a) = int e" "e \<le> 0x1F"
    using fp_exp_less[of 10 5 "unat a"] by (simp_all add: F16_fields e_def)
  have em: "fp_emin 10 5 = - 24"
    by (simp add: fp_emin_def fp_bias_def)
  note D = f16_to_ui32_r_minMag_def[of a exact s, unfolded Let_def F16_fields(1) mag_bitsF16 nanF16_fields, unfolded e(1)]
  consider "e \<le> 0x0E" | "e = 0x1F" | "0x0E < e" "e < 0x1F"
    using e(2) by linarith
  then show ?thesis
  proof cases
    case 1
    then show ?thesis
      unfolding D using to_int_trunc_small[of 10 5 "unat a" "0" "2 ^ 32 - 1" exact s]
      by (simp add: em e_def raise_if_def max_def)
  next
    case 2
    then have "fp_nan 10 5 (unat a) \<or> fp_infinite 10 5 (unat a)"
      by (auto simp: fp_class_fields e_def)
    then show ?thesis
      unfolding D to_int_spec_def using 2 by auto
  next
    case 3
    define u where "u = push_bit (e - 0x0F) (fracF16UI (to_u64 a) OR 0x0400)"
    have u: "unat u = arg_sig 10 5 (unat a) * 2 ^ (e - 0x0F)"
      using shl_sigF16[of a "e - 0x0F"] 3 by (simp add: u_def e_def)
    have "arg_sig 10 5 (unat a) * 2 ^ (e - 0x0F) \<le> 2 ^ 11 * 2 ^ 15"
      using arg_sig_less[of 10 5 "unat a"] 3 by (intro mult_mono power_increasing) simp_all
    then have "unat u \<le> 2 ^ 26"
      by (simp add: u)
    then have "unat u div 2 ^ 10 \<le> 2 ^ 26 div 2 ^ 10"
      by (rule div_le_mono)
    define v where "v = drop_bit 10 u"
    have v: "unat v = unat u div 2 ^ 10" "unat v \<le> 2 ^ 16"
      using \<open>unat u div 2 ^ 10 \<le> 2 ^ 26 div 2 ^ 10\<close> by (simp_all add: v_def unat_drop_bit_div)
    have low: "u AND 0x3FF = 0 \<longleftrightarrow> unat u mod 2 ^ 10 = 0"
      using unat_and_mask[of u 10] by (simp add: mask_numeral word_eq_0_unat[of "u AND _"])
    have nd: "nat (int e - 0x0F) = e - 0x0F"
      using 3 by simp
    have *: "to_int_spec 10 5 0 (2 ^ 32 - 1) RTZ exact s (unat a) =
        int_result 0 (2 ^ 32 - 1) s (fp_sign 10 5 (unat a)) (int (unat v)) (exact \<and> u AND 0x3FF \<noteq> 0)"
      using to_int_trunc_shift[of 10 5 "unat a" "unat u" "e - 0x0F" 10] u 3
      by (simp add: e_def[symmetric] em v(1) low of_nat_diff)
    show ?thesis
    proof (cases "fp_sign 10 5 (unat a)")
      case True
      have "(2::nat) ^ 10 \<le> unat u"
        using arg_sig_bounds(3)[of 10 5 "unat a"] 3 mult_le_mono[of "2 ^ 10" "arg_sig 10 5 (unat a)" 1 "2 ^ (e - 0x0F)"] by (simp add: u e_def)
      then have "0 < int (unat v)"
        by (simp add: v(1) div_greater_zero_iff)
      then show ?thesis
        unfolding * using True 3 trunc_negative by (simp add: D over_result_def fp_class_fields flip: e_def)
    next
      case False
      then show ?thesis
        unfolding * D nd u_def[symmetric] v_def[symmetric] using 3 v(2) trunc_unsigned[of v "2 ^ 32 - 1"]
        by (simp add: raise_if_def)
    qed
  qed
qed

lemma f16_to_i64_r_minMag_conv:
  "f16_to_i64_r_minMag a exact s = to_int_spec 10 5 (- (2 ^ 63)) (2 ^ 63 - 1) RTZ exact s (unat a)"
proof -
  define e where "e = fp_exp 10 5 (unat a)"
  have e: "expF16UI (to_u64 a) = int e" "e \<le> 0x1F"
    using fp_exp_less[of 10 5 "unat a"] by (simp_all add: F16_fields e_def)
  have em: "fp_emin 10 5 = - 24"
    by (simp add: fp_emin_def fp_bias_def)
  note D = f16_to_i64_r_minMag_def[of a exact s, unfolded Let_def F16_fields(1) mag_bitsF16 nanF16_fields, unfolded e(1)]
  consider "e \<le> 0x0E" | "e = 0x1F" | "0x0E < e" "e < 0x1F"
    using e(2) by linarith
  then show ?thesis
  proof cases
    case 1
    then show ?thesis
      unfolding D using to_int_trunc_small[of 10 5 "unat a" "- (2 ^ 63)" "2 ^ 63 - 1" exact s]
      by (simp add: em e_def raise_if_def max_def)
  next
    case 2
    then have "fp_nan 10 5 (unat a) \<or> fp_infinite 10 5 (unat a)"
      by (auto simp: fp_class_fields e_def)
    then show ?thesis
      unfolding D to_int_spec_def using 2 by auto
  next
    case 3
    define u where "u = push_bit (e - 0x0F) (fracF16UI (to_u64 a) OR 0x0400)"
    have u: "unat u = arg_sig 10 5 (unat a) * 2 ^ (e - 0x0F)"
      using shl_sigF16[of a "e - 0x0F"] 3 by (simp add: u_def e_def)
    have "arg_sig 10 5 (unat a) * 2 ^ (e - 0x0F) \<le> 2 ^ 11 * 2 ^ 15"
      using arg_sig_less[of 10 5 "unat a"] 3 by (intro mult_mono power_increasing) simp_all
    then have "unat u \<le> 2 ^ 26"
      by (simp add: u)
    then have "unat u div 2 ^ 10 \<le> 2 ^ 26 div 2 ^ 10"
      by (rule div_le_mono)
    define v where "v = drop_bit 10 u"
    have v: "unat v = unat u div 2 ^ 10" "unat v \<le> 2 ^ 16"
      using \<open>unat u div 2 ^ 10 \<le> 2 ^ 26 div 2 ^ 10\<close> by (simp_all add: v_def unat_drop_bit_div)
    have low: "u AND 0x3FF = 0 \<longleftrightarrow> unat u mod 2 ^ 10 = 0"
      using unat_and_mask[of u 10] by (simp add: mask_numeral word_eq_0_unat[of "u AND _"])
    have nd: "nat (int e - 0x0F) = e - 0x0F"
      using 3 by simp
    have *: "to_int_spec 10 5 (- (2 ^ 63)) (2 ^ 63 - 1) RTZ exact s (unat a) =
        int_result (- (2 ^ 63)) (2 ^ 63 - 1) s (fp_sign 10 5 (unat a)) (int (unat v)) (exact \<and> u AND 0x3FF \<noteq> 0)"
      using to_int_trunc_shift[of 10 5 "unat a" "unat u" "e - 0x0F" 10] u 3
      by (simp add: e_def[symmetric] em v(1) low of_nat_diff)
    show ?thesis
      unfolding * D nd u_def[symmetric] v_def[symmetric] using 3 v(2) trunc_signed[of v 17 "2 ^ 63 - 1" "- (2 ^ 63)"]
      by (simp add: raise_if_def)
  qed
qed

lemma f16_to_ui64_r_minMag_conv:
  "map_prod uint id (f16_to_ui64_r_minMag a exact s) = to_int_spec 10 5 0 (2 ^ 64 - 1) RTZ exact s (unat a)"
proof -
  define e where "e = fp_exp 10 5 (unat a)"
  have e: "expF16UI (to_u64 a) = int e" "e \<le> 0x1F"
    using fp_exp_less[of 10 5 "unat a"] by (simp_all add: F16_fields e_def)
  have em: "fp_emin 10 5 = - 24"
    by (simp add: fp_emin_def fp_bias_def)
  note D = f16_to_ui64_r_minMag_def[of a exact s, unfolded Let_def F16_fields(1) mag_bitsF16 nanF16_fields, unfolded e(1)]
  consider "e \<le> 0x0E" | "e = 0x1F" | "0x0E < e" "e < 0x1F"
    using e(2) by linarith
  then show ?thesis
  proof cases
    case 1
    then show ?thesis
      unfolding D using to_int_trunc_small[of 10 5 "unat a" "0" "2 ^ 64 - 1" exact s]
      by (simp add: em e_def raise_if_def max_def)
  next
    case 2
    then have "fp_nan 10 5 (unat a) \<or> fp_infinite 10 5 (unat a)"
      by (auto simp: fp_class_fields e_def)
    then show ?thesis
      unfolding D to_int_spec_def using 2 by auto
  next
    case 3
    define u where "u = push_bit (e - 0x0F) (fracF16UI (to_u64 a) OR 0x0400)"
    have u: "unat u = arg_sig 10 5 (unat a) * 2 ^ (e - 0x0F)"
      using shl_sigF16[of a "e - 0x0F"] 3 by (simp add: u_def e_def)
    have "arg_sig 10 5 (unat a) * 2 ^ (e - 0x0F) \<le> 2 ^ 11 * 2 ^ 15"
      using arg_sig_less[of 10 5 "unat a"] 3 by (intro mult_mono power_increasing) simp_all
    then have "unat u \<le> 2 ^ 26"
      by (simp add: u)
    then have "unat u div 2 ^ 10 \<le> 2 ^ 26 div 2 ^ 10"
      by (rule div_le_mono)
    define v where "v = drop_bit 10 u"
    have v: "unat v = unat u div 2 ^ 10" "unat v \<le> 2 ^ 16"
      using \<open>unat u div 2 ^ 10 \<le> 2 ^ 26 div 2 ^ 10\<close> by (simp_all add: v_def unat_drop_bit_div)
    have low: "u AND 0x3FF = 0 \<longleftrightarrow> unat u mod 2 ^ 10 = 0"
      using unat_and_mask[of u 10] by (simp add: mask_numeral word_eq_0_unat[of "u AND _"])
    have nd: "nat (int e - 0x0F) = e - 0x0F"
      using 3 by simp
    have *: "to_int_spec 10 5 0 (2 ^ 64 - 1) RTZ exact s (unat a) =
        int_result 0 (2 ^ 64 - 1) s (fp_sign 10 5 (unat a)) (int (unat v)) (exact \<and> u AND 0x3FF \<noteq> 0)"
      using to_int_trunc_shift[of 10 5 "unat a" "unat u" "e - 0x0F" 10] u 3
      by (simp add: e_def[symmetric] em v(1) low of_nat_diff)
    show ?thesis
    proof (cases "fp_sign 10 5 (unat a)")
      case True
      have "(2::nat) ^ 10 \<le> unat u"
        using arg_sig_bounds(3)[of 10 5 "unat a"] 3 mult_le_mono[of "2 ^ 10" "arg_sig 10 5 (unat a)" 1 "2 ^ (e - 0x0F)"] by (simp add: u e_def)
      then have "0 < int (unat v)"
        by (simp add: v(1) div_greater_zero_iff)
      then show ?thesis
        unfolding * using True 3 trunc_negative by (simp add: D over_result_def fp_class_fields flip: e_def)
    next
      case False
      then show ?thesis
        unfolding * D nd u_def[symmetric] v_def[symmetric] using 3 v(2) trunc_unsigned[of v "2 ^ 64 - 1"]
        by (simp add: raise_if_def)
    qed
  qed
qed

section \<open>The theorem\<close>

lemma int_mode_minMag: "int_mode softfloat_round_minMag = RTZ"
  by (simp add: int_mode_def round_mode_def)

lemma map_prod_uint_inj: "map_prod uint id x = map_prod uint id y \<Longrightarrow> x = y" for x y :: "'a::len word \<times> 'b"
  by (cases x; cases y) (auto intro: word_uint_eqI)

text \<open>
  C31: each of the twelve truncating conversions returns, for every operand, the result and
  the state of the general conversion called with the rounding mode toward zero.
\<close>

theorem r_minMag_equivalent:
  "f16_to_i32_r_minMag a16 exact s = f16_to_i32 a16 softfloat_round_minMag exact s
   \<and> f16_to_ui32_r_minMag a16 exact s = f16_to_ui32 a16 softfloat_round_minMag exact s
   \<and> f16_to_i64_r_minMag a16 exact s = f16_to_i64 a16 softfloat_round_minMag exact s
   \<and> f16_to_ui64_r_minMag a16 exact s = f16_to_ui64 a16 softfloat_round_minMag exact s
   \<and> f32_to_i32_r_minMag a32 exact s = f32_to_i32 a32 softfloat_round_minMag exact s
   \<and> f32_to_ui32_r_minMag a32 exact s = f32_to_ui32 a32 softfloat_round_minMag exact s
   \<and> f32_to_i64_r_minMag a32 exact s = f32_to_i64 a32 softfloat_round_minMag exact s
   \<and> f32_to_ui64_r_minMag a32 exact s = f32_to_ui64 a32 softfloat_round_minMag exact s
   \<and> f64_to_i32_r_minMag a64 exact s = f64_to_i32 a64 softfloat_round_minMag exact s
   \<and> f64_to_ui32_r_minMag a64 exact s = f64_to_ui32 a64 softfloat_round_minMag exact s
   \<and> f64_to_i64_r_minMag a64 exact s = f64_to_i64 a64 softfloat_round_minMag exact s
   \<and> f64_to_ui64_r_minMag a64 exact s = f64_to_ui64 a64 softfloat_round_minMag exact s"
  by (intro conjI; (rule map_prod_uint_inj)?;
      simp only: int_mode_minMag f16_to_i32_r_minMag_conv f16_to_i32_conv
        f16_to_i64_r_minMag_conv f16_to_i64_conv
        f32_to_i32_r_minMag_conv f32_to_i32_conv
        f32_to_i64_r_minMag_conv f32_to_i64_conv
        f64_to_i32_r_minMag_conv f64_to_i32_conv
        f64_to_i64_r_minMag_conv f64_to_i64_conv
        f16_to_ui32_r_minMag_conv f16_to_ui32_conv
        f16_to_ui64_r_minMag_conv f16_to_ui64_conv
        f32_to_ui32_r_minMag_conv f32_to_ui32_conv
        f32_to_ui64_r_minMag_conv f32_to_ui64_conv
        f64_to_ui32_r_minMag_conv f64_to_ui32_conv
        f64_to_ui64_r_minMag_conv f64_to_ui64_conv)

end
