(* ===== verification/RV_CSR_Views.thy ===== *)
theory RV_CSR_Views
  imports RV_CSR_Safety
begin

text \<open>
  What a CSR write can reach: the registers of machine mode are out of reach of the user- and
  supervisor-level CSRs (up to the legal form of \<open>MPP\<close>), and reads return the legal form of what was written.
\<close>

section \<open>Machine-level state\<close>

text \<open>
  The fields of \<open>mstatus\<close> that belong to machine mode alone, \<open>MPP\<close> apart, which is treated by itself.
  \<open>GVA\<close> and \<open>MPV\<close> lie above the 32-bit register of RV32.
\<close>

definition machine_fields :: "nat \<Rightarrow> reg_t" where
  "machine_fields xl =
     MSTATUS_MIE OR MSTATUS_MPIE OR MSTATUS_MPRV OR MSTATUS_TVM OR MSTATUS_TW OR MSTATUS_TSR
     OR (if xl = 64 then MSTATUS_GVA OR MSTATUS_MPV else 0)"

definition machine_view where
  "machine_view p =
     (mstatus p AND machine_fields (max_xlen p), mepc p, mtvec p, mcause p, mtval p, mscratch p, mtval2 p, mtinst p,
      medeleg p, mideleg p, mie p AND NOT (mideleg p OR hideleg p), mip p AND NOT (mideleg p OR hideleg p), mcounteren p,
      minstret p, misa p, pmpcfg p, pmpaddr p, prv p, virt p,
      (tselect p, mcontrol p, tdata2 p, dcsr p, dpc p, dscratch0 p, dscratch1 p, debug_mode p))"

lemma zext_xlen_bit: "xl \<le> 64 \<Longrightarrow> bit (zext_xlen xl x) n \<longleftrightarrow> n < xl \<and> bit x n"
  by (auto simp: zext_xlen_def bit_simps dest: bit_imp_le_length)

lemma bit_ones: "bit (push_bit k (mask m) :: reg_t) n \<longleftrightarrow> k \<le> n \<and> n < k + m \<and> n < 64"
  by (auto simp: bit_simps)

lemma bit_machine_fields:
  "bit (machine_fields xl) n \<longleftrightarrow> n \<in> {3, 7, 17, 20, 21, 22} \<or> xl = 64 \<and> n \<in> {38, 39}"
proof -
  have "machine_fields xl = push_bit 3 (mask 1) OR push_bit 7 (mask 1) OR push_bit 17 (mask 1) OR push_bit 20 (mask 3)
      OR (if xl = 64 then push_bit 38 (mask 2) else 0)"
    by (simp add: machine_fields_def mask_numeral)
  then have "bit (machine_fields xl) n \<longleftrightarrow> n = 3 \<or> n = 7 \<or> n = 17 \<or> (20 \<le> n \<and> n < 23) \<or> xl = 64 \<and> 38 \<le> n \<and> n < 40"
    by (simp only: bit_or_iff bit_ones bit_if bit_0_eq bot_apply) (cases "xl = 64"; simp; linarith)
  also have "\<dots> \<longleftrightarrow> n \<in> {3, 7, 17, 20, 21, 22} \<or> xl = 64 \<and> n \<in> {38, 39}"
    unfolding insert_iff empty_iff by presburger
  finally show ?thesis .
qed

lemma machine_fields_eqI:
  assumes "\<And>n. n \<in> {3, 7, 17, 20, 21, 22} \<or> xl = 64 \<and> n \<in> {38, 39} \<Longrightarrow> bit x n = bit y n"
  shows "x AND machine_fields xl = y AND machine_fields xl"
  by (rule bit_word_eqI) (use assms in \<open>unfold bit_and_iff bit_machine_fields, blast\<close>)

lemma set_mstatus_machine_bits:
  "bit (mstatus (set_mstatus val p)) 3 \<longleftrightarrow> bit val 3" "bit (mstatus (set_mstatus val p)) 7 \<longleftrightarrow> bit val 7"
  "bit (mstatus (set_mstatus val p)) 20 \<longleftrightarrow> bit val 20" "bit (mstatus (set_mstatus val p)) 21 \<longleftrightarrow> bit val 21"
  "bit (mstatus (set_mstatus val p)) 22 \<longleftrightarrow> bit val 22"
  "bit (mstatus (set_mstatus val p)) 38 \<longleftrightarrow> (if bit (misa p) 18 \<and> bit (misa p) 7 then bit val 38 else bit (mstatus p) 38)"
  "bit (mstatus (set_mstatus val p)) 39 \<longleftrightarrow> (if bit (misa p) 18 \<and> bit (misa p) 7 then bit val 39 else bit (mstatus p) 39)"
  by (simp_all add: set_mstatus_def Let_def set_fields bit_simps bit_if if_distrib[of mstatus] p_flush_tlb_def)

text \<open>A write of \<open>sstatus\<close> is one of \<open>mstatus\<close> with the bits outside \<open>sstatus\<close> as they are.\<close>

lemma sstatus_value:
  assumes "v = zext_xlen xl (masked m (sstatus_write_mask p) val)" and "xl = 32 \<or> xl = 64"
    and "n \<in> {3, 7, 11, 12, 17, 20, 21, 22} \<or> xl = 64 \<and> n \<in> {38, 39}"
  shows "bit v n = bit m n"
proof -
  have "\<not> bit (sstatus_write_mask p) n"
    using assms(3) unfolding sstatus_write_mask_def by (elim disjE conjE insertE emptyE; simp add: bit_simps bit_if)
  then show ?thesis
    using assms(2,3) unfolding assms(1) by (subst zext_xlen_bit) (auto simp: masked_def bit_simps)
qed

lemma sstatus_write_machine:
  assumes "xlen p = 32 \<or> xlen p = 64" and "max_xlen p = xlen p"
    and "v = zext_xlen (xlen p) (masked (mstatus p) (sstatus_write_mask p) val)"
  shows "mstatus (set_mstatus v p) AND machine_fields (max_xlen p) = mstatus p AND machine_fields (max_xlen p)"
    and "MPP_of (set_mstatus v p) = legal_MPP p"
proof -
  note v = sstatus_value[OF assms(3,1)]
  have "get_field v MSTATUS_MPP = MPP_of p"
    unfolding get_MPP MPP_of_def using v[of 11] v[of 12]
    by (intro bit_word_eqI) (auto simp: bit_simps less_2_cases_iff numeral_2_eq_2 less_Suc_eq)
  then show "MPP_of (set_mstatus v p) = legal_MPP p"
    by (simp add: MPP_of_def legal_MPP_def set_mstatus_MPP)
  show "mstatus (set_mstatus v p) AND machine_fields (max_xlen p) = mstatus p AND machine_fields (max_xlen p)"
  proof (rule machine_fields_eqI)
    fix n :: nat
    assume "n \<in> {3, 7, 17, 20, 21, 22} \<or> max_xlen p = 64 \<and> n \<in> {38, 39}"
    then have n: "n \<in> {3, 7, 11, 12, 17, 20, 21, 22} \<or> xlen p = 64 \<and> n \<in> {38, 39}"
        "n \<in> {3, 7, 17, 20, 21, 22, 38, 39}"
      unfolding assms(2) by auto
    show "bit (mstatus (set_mstatus v p)) n = bit (mstatus p) n"
      using n(2) v[OF n(1)] by (elim insertE emptyE) (simp_all add: set_mstatus_machine_bits set_mstatus_bits)
  qed
qed

lemma masked_outside_delegated:
  "masked x (d AND k) v AND NOT d AND NOT e = x AND NOT d AND NOT e"
  "masked x (e AND k) v AND NOT d AND NOT e = x AND NOT d AND NOT e" for x d e k v :: reg_t
  by (rule bit_word_eqI; auto simp: masked_def bit_simps)+

lemma ensures_if: "(c \<Longrightarrow> ensures Q a) \<Longrightarrow> ensures Q b \<Longrightarrow> ensures Q (if c then a else b)"
  by simp

definition user_or_supervisor_csr :: "nat \<Rightarrow> bool" where
  "user_or_supervisor_csr which \<longleftrightarrow> which < 0x1000 \<and> which div 0x100 mod 4 \<le> 1"

text \<open>The registers that do not belong to machine mode.\<close>

lemma machine_view_other [simp]:
  "machine_view (p\<lparr>fflags := x_fflags\<rparr>) = machine_view p" "MPP_of (p\<lparr>fflags := x_fflags\<rparr>) = MPP_of p"
  "machine_view (p\<lparr>frm := x_frm\<rparr>) = machine_view p" "MPP_of (p\<lparr>frm := x_frm\<rparr>) = MPP_of p"
  "machine_view (p\<lparr>vu_vxsat := x_vu_vxsat\<rparr>) = machine_view p" "MPP_of (p\<lparr>vu_vxsat := x_vu_vxsat\<rparr>) = MPP_of p"
  "machine_view (p\<lparr>vu_vxrm := x_vu_vxrm\<rparr>) = machine_view p" "MPP_of (p\<lparr>vu_vxrm := x_vu_vxrm\<rparr>) = MPP_of p"
  "machine_view (p\<lparr>vu_vstart := x_vu_vstart\<rparr>) = machine_view p" "MPP_of (p\<lparr>vu_vstart := x_vu_vstart\<rparr>) = MPP_of p"
  "machine_view (p\<lparr>scounteren := x_scounteren\<rparr>) = machine_view p" "MPP_of (p\<lparr>scounteren := x_scounteren\<rparr>) = MPP_of p"
  "machine_view (p\<lparr>satp := x_satp\<rparr>) = machine_view p" "MPP_of (p\<lparr>satp := x_satp\<rparr>) = MPP_of p"
  "machine_view (p\<lparr>vsatp := x_vsatp\<rparr>) = machine_view p" "MPP_of (p\<lparr>vsatp := x_vsatp\<rparr>) = MPP_of p"
  "machine_view (p\<lparr>sepc := x_sepc\<rparr>) = machine_view p" "MPP_of (p\<lparr>sepc := x_sepc\<rparr>) = MPP_of p"
  "machine_view (p\<lparr>vsepc := x_vsepc\<rparr>) = machine_view p" "MPP_of (p\<lparr>vsepc := x_vsepc\<rparr>) = MPP_of p"
  "machine_view (p\<lparr>stvec := x_stvec\<rparr>) = machine_view p" "MPP_of (p\<lparr>stvec := x_stvec\<rparr>) = MPP_of p"
  "machine_view (p\<lparr>vstvec := x_vstvec\<rparr>) = machine_view p" "MPP_of (p\<lparr>vstvec := x_vstvec\<rparr>) = MPP_of p"
  "machine_view (p\<lparr>sscratch := x_sscratch\<rparr>) = machine_view p" "MPP_of (p\<lparr>sscratch := x_sscratch\<rparr>) = MPP_of p"
  "machine_view (p\<lparr>vsscratch := x_vsscratch\<rparr>) = machine_view p" "MPP_of (p\<lparr>vsscratch := x_vsscratch\<rparr>) = MPP_of p"
  "machine_view (p\<lparr>scause := x_scause\<rparr>) = machine_view p" "MPP_of (p\<lparr>scause := x_scause\<rparr>) = MPP_of p"
  "machine_view (p\<lparr>vscause := x_vscause\<rparr>) = machine_view p" "MPP_of (p\<lparr>vscause := x_vscause\<rparr>) = MPP_of p"
  "machine_view (p\<lparr>stval := x_stval\<rparr>) = machine_view p" "MPP_of (p\<lparr>stval := x_stval\<rparr>) = MPP_of p"
  "machine_view (p\<lparr>vstval := x_vstval\<rparr>) = machine_view p" "MPP_of (p\<lparr>vstval := x_vstval\<rparr>) = MPP_of p"
  "machine_view (p\<lparr>vsstatus := x_vsstatus\<rparr>) = machine_view p" "MPP_of (p\<lparr>vsstatus := x_vsstatus\<rparr>) = MPP_of p"
  "machine_view (p\<lparr>hstatus := x_hstatus\<rparr>) = machine_view p" "MPP_of (p\<lparr>hstatus := x_hstatus\<rparr>) = MPP_of p"
  "machine_view (p\<lparr>xlen := x_xlen\<rparr>) = machine_view p" "MPP_of (p\<lparr>xlen := x_xlen\<rparr>) = MPP_of p"
  "machine_view (p\<lparr>mmu := x_mmu\<rparr>) = machine_view p" "MPP_of (p\<lparr>mmu := x_mmu\<rparr>) = MPP_of p"
  "machine_view (p\<lparr>serialized := x_serialized\<rparr>) = machine_view p" "MPP_of (p\<lparr>serialized := x_serialized\<rparr>) = MPP_of p"
  "MPP_of (p\<lparr>mie := x_mie\<rparr>) = MPP_of p" "MPP_of (p\<lparr>mip := x_mip\<rparr>) = MPP_of p" "MPP_of (p_flush_tlb p) = MPP_of p"
  "machine_view (p_flush_tlb p) = machine_view p"
  by (simp_all add: machine_view_def MPP_of_def p_flush_tlb_def)

lemma machine_view_interrupts:
  "mie' AND NOT (mideleg p) AND NOT (hideleg p) = mie p AND NOT (mideleg p) AND NOT (hideleg p) \<Longrightarrow>
    machine_view (p\<lparr>mie := mie'\<rparr>) = machine_view p"
  "mip' AND NOT (mideleg p) AND NOT (hideleg p) = mip p AND NOT (mideleg p) AND NOT (hideleg p) \<Longrightarrow>
    machine_view (p\<lparr>mip := mip'\<rparr>) = machine_view p"
  by (simp_all add: machine_view_def)

lemma machine_view_dirty [simp]: "machine_view (dirty_fp_state p) = machine_view p" "machine_view (dirty_vs_state p) = machine_view p"
proof -
  have "(m OR (c OR (if b then 0x8000000000000000 else 0x80000000))) AND machine_fields xl = m AND machine_fields xl"
    if "c = MSTATUS_FS \<or> c = MSTATUS_VS" for m c :: reg_t and b xl
    using that by (intro machine_fields_eqI) (elim disjE conjE insertE emptyE; simp add: bit_simps bit_if)
  then show "machine_view (dirty_fp_state p) = machine_view p" "machine_view (dirty_vs_state p) = machine_view p"
    by (simp_all add: machine_view_def dirty_fp_state_def dirty_vs_state_def)
qed

text \<open>What a write of the CSR makes of \<open>MPP\<close>.\<close>

definition written_MPP :: "nat \<Rightarrow> processor_t \<Rightarrow> reg_t" where
  "written_MPP which p = (if which = 0x100 then legal_MPP p else MPP_of p)"

lemma set_csr_switch_machine:
  assumes "wf_csr p" and "user_or_supervisor_csr which"
  shows "ensures (\<lambda>q. machine_view q = machine_view p \<and> MPP_of q = written_MPP which p) (set_csr_switch which val p)"
proof (cases "which = 0x100")
  case True
  have x: "xlen p = 32 \<or> xlen p = 64" "max_xlen p = xlen p"
    using wf_csr_D(1,12)[OF assms(1)] by simp_all
  define v where "v = zext_xlen (xlen p) (masked (mstatus p) (sstatus_write_mask p) val)"
  have "set_csr_switch which val p = Inr (set_mstatus v p)"
    by (simp add: set_csr_switch_def True v_def)
  then show ?thesis
    using sstatus_write_machine[OF x v_def] by (simp add: ensures_def machine_view_def written_MPP_def True)
next
  case False
  have w: "which div 0x100 mod 4 \<le> 1"
    using assms(2) by (simp add: user_or_supervisor_csr_def)
  show ?thesis
    unfolding set_csr_switch_def Let_def if_not_P[OF False]
    by (intro ensures_if ensures_intros(2,3); insert w False; (elim disjE)?)
      (simp_all add: masked_outside_delegated machine_view_interrupts written_MPP_def)
qed

lemma supervisor_csrs_write:
  assumes "wf_csr p" and "user_or_supervisor_csr which" and "set_csr which val p = Inr q"
  shows "machine_view q = machine_view p" and "MPP_of q = written_MPP which p"
proof -
  have "ensures (\<lambda>q. machine_view q = machine_view p \<and> MPP_of q = written_MPP which p) (set_csr_switch which v p)" for v
    by (rule set_csr_switch_machine[OF assms(1,2)])
  moreover have "\<not> is_pmpaddr which" "\<not> is_pmpcfg which"
    using assms(2) by (auto simp: user_or_supervisor_csr_def)
  ultimately have "ensures (\<lambda>q. machine_view q = machine_view p \<and> MPP_of q = written_MPP which p) (set_csr which val p)"
    unfolding set_csr_def Let_def by (simp only: simp_thms if_False)
  from ensuresD[OF this assms(3)] show "machine_view q = machine_view p" and "MPP_of q = written_MPP which p"
    by simp_all
qed

text \<open>
  C21: user- and supervisor-level CSRs are confined. Whatever is written to a CSR whose number has
  user or supervisor level, the machine-level registers stay as they are: the machine fields of
  \<open>mstatus\<close> (through its view \<open>sstatus\<close>), the trap registers, the delegation registers, the
  interrupt bits that are not delegated (through \<open>sie\<close> and \<open>sip\<close>), the protection entries, \<open>misa\<close>,
  the triggers and debug registers, and the privilege mode itself. The field \<open>MPP\<close> is the one exception: a
  write of \<open>sstatus\<close> puts it into its legal form, which changes it if the hart no longer supports
  the mode it holds; a write of any other such CSR keeps it. \<open>GVA\<close> and \<open>MPV\<close> count on RV64 only.
\<close>

theorem supervisor_csrs_confined:
  assumes "wf_csr p" and "user_or_supervisor_csr which" and "set_csr which val p = Inr q"
  shows "machine_view q = machine_view p \<and> MPP_of q = (if which = 0x100 then legal_MPP p else MPP_of p)"
  using supervisor_csrs_write[OF assms] by (simp add: written_MPP_def)

lemma supervisor_csrs_confined_witness:
  "let p = example_hart\<lparr>mideleg := 0x222\<rparr>; q = projr (set_csr 0x104 0xfff p)
   in machine_view q = machine_view p \<and> MPP_of q = MPP_of p \<and> mie q = 0x222"
proof -
  define p where "p = example_hart\<lparr>mideleg := 0x222\<rparr>"
  define q where "q = projr (set_csr 0x104 0xfff p)"
  have "set_csr 0x104 0xfff p = Inr q" "mie q = 0x222"
    by (simp_all add: q_def set_csr_def set_csr_switch_def Let_def p_def example_hart_def masked_def zext_xlen_def)
  moreover have "wf_csr p"
    using wf_csr_upd(24)[OF wf_example_hart] by (simp add: p_def)
  ultimately show ?thesis
    using supervisor_csrs_confined[where p = p and which = "0x104" and val = "0xfff" and q = q]
    unfolding p_def[symmetric] q_def[symmetric] Let_def by (simp add: user_or_supervisor_csr_def)
qed

text \<open>
  The exception is reachable. Machine software of a hart with the hypervisor extension writes the
  reserved mode 2 to \<open>MPP\<close>, then switches the extension off in \<open>misa\<close>. A write of \<open>sstatus\<close> then
  clears \<open>MPP\<close>, and a translation cached under the old value survives.
\<close>

definition hypervisor_hart :: processor_t where
  "hypervisor_hart = example_hart\<lparr>misa := 0x80000000001411AD, max_isa := 0x80000000001411AD, mideleg := MIDELEG_FORCED_MASK\<rparr>"

lemma unsupported_MPP_dropped:
  "let p = projr (set_csr 0x301 0x800000000014112D (projr (set_csr 0x300 0x1000 hypervisor_hart)));
       p = p\<lparr>mmu := (mmu p)\<lparr>tlb_load_tag := (tlb_load_tag (mmu p))[0 := 0x80000]\<rparr>\<rparr>;
       q = projr (set_csr 0x100 0 p)
   in MPP_of p = 2 \<and> MPP_of q = 0 \<and> \<not> tlb_empty (mmu q)"
proof -
  define p0 where "p0 = projr (set_csr 0x300 0x1000 hypervisor_hart)"
  define p1 where "p1 = projr (set_csr 0x301 0x800000000014112D p0)"
  define p where "p = p1\<lparr>mmu := (mmu p1)\<lparr>tlb_load_tag := (tlb_load_tag (mmu p1))[0 := 0x80000]\<rparr>\<rparr>"
  have p0: "p0 = set_mstatus 0x1000 hypervisor_hart"
    by (simp add: p0_def set_csr_def set_csr_switch_def zext_xlen_def hypervisor_hart_def example_hart_def)
  have "mstatus p0 = 0xA00001000"
    unfolding p0 by (simp add: set_mstatus_def Let_def set_fields legalize_privilege_def get_field_def xlen_to_uxl_def
        p_flush_tlb_def hypervisor_hart_def example_hart_def)
  moreover have "length (tlb_load_tag (mmu p0)) = 256"
    unfolding p0 by (subst set_mstatus_frame) (simp add: p_flush_tlb_def flush_tlb_def flush_icache_def hypervisor_hart_def example_hart_def)
  moreover have "misa p0 = 0x80000000001411AD" "max_isa p0 = 0x80000000001411AD" "pc p0 = 0x10000" "max_xlen p0 = 64"
      "xlen p0 = 64" "\<not> ext_registered p0"
    unfolding p0 by (simp_all add: hypervisor_hart_def example_hart_def) (subst set_mstatus_frame, simp)
  ultimately have p: "mstatus p = 0xA00001000" "misa p = 0x800000000014112D" "xlen p = 64" "max_xlen p = 64"
      "tlb_load_tag (mmu p) ! 0 = 0x80000" "length (tlb_load_tag (mmu p)) = 256"
    by (simp_all add: p_def p1_def set_csr_def set_csr_switch_def zext_xlen_def set_misa_def Let_def)
  define q where "q = projr (set_csr 0x100 0 p)"
  have q: "q = set_mstatus (mstatus p) p"
    using p by (simp add: q_def set_csr_def set_csr_switch_def sstatus_write_mask_def masked_def zext_xlen_def)
  have "mmu q = mmu p"
    unfolding q by (subst set_mstatus_frame) simp
  then have "\<not> tlb_empty (mmu q)"
    using p(5,6) by (auto simp: tlb_empty_def list_all_length intro!: exI[of _ 0])
  moreover have "MPP_of p = 2"
    using p(1) by (simp add: MPP_of_def get_field_def)
  moreover have "MPP_of q = 0"
    using calculation(2) p(2) unfolding q
    by (simp add: MPP_of_def set_mstatus_MPP legalize_privilege_def bit_simps)
  ultimately show ?thesis
    unfolding p0_def[symmetric] p1_def[symmetric] Let_def p_def[symmetric] q_def[symmetric] by simp
qed

section \<open>Reading back\<close>

definition read_back :: "nat \<Rightarrow> reg_t \<Rightarrow> insn_bits \<Rightarrow> processor_t \<Rightarrow> thrown + reg_t" where
  "read_back which val insn p = and_then (set_csr which val p) (get_csr which insn)"

lemmas read_back_eval = read_back_def set_csr_def get_csr_def set_csr_switch_def get_csr_switch_def and_then_def
  require_def Let_def

lemma dirty_FS: "mstatus (dirty_fp_state p) AND MSTATUS_FS \<noteq> 0"
proof -
  have "bit (mstatus (dirty_fp_state p) AND MSTATUS_FS) 13"
    by (simp add: dirty_fp_state_def bit_simps)
  then show ?thesis
    by auto
qed

lemma fcsr_join:
  "to_u64 (to_u32 (w AND 0x1f) OR push_bit 5 (to_u32 (drop_bit 5 (w AND 0xe0)))) = w AND 0xff" for w :: reg_t
proof -
  have m: "(0x1f :: reg_t) = mask 5" "(0xe0 :: reg_t) = push_bit 5 (mask 3)" "(0xff :: reg_t) = mask 8"
    by (simp_all add: mask_numeral)
  show ?thesis
    unfolding m by (rule bit_word_eqI) (auto simp: bit_simps)
qed

lemma ucast_small: "to_u64 (to_u32 (w AND mask n)) = w AND mask n" if "n \<le> 32" for w :: reg_t
  using that by (intro bit_word_eqI) (auto simp: bit_simps)


lemma read_back_fp:
  fixes val :: reg_t
  assumes "w = zext_xlen (xlen p) val" and "bit (misa p) 5"
  shows "read_back 0x001 val insn p = Inr (w AND 0x1f)" "read_back 0x002 val insn p = Inr (w AND 0x7)"
    "read_back 0x003 val insn p = Inr (w AND 0xff)"
proof -
  have m: "misa (dirty_fp_state p) = misa p"
    by (simp add: dirty_fp_state_def)
  note e = dirty_FS[of p] m assms
  have "to_u64 (to_u32 (w AND 0x1f)) = w AND 0x1f" "to_u64 (to_u32 (w AND 0x7)) = w AND 0x7"
    using ucast_small[of 5 w] ucast_small[of 3 w] by (simp_all add: mask_numeral)
  then show "read_back 0x001 val insn p = Inr (w AND 0x1f)" "read_back 0x002 val insn p = Inr (w AND 0x7)"
    using e by (simp_all add: read_back_eval)
  show "read_back 0x003 val insn p = Inr (w AND 0xff)"
    using e fcsr_join[of w] by (simp add: read_back_eval)
qed

text \<open>
  The registers that are a word of which some bits can be written: those bits and the value the
  others read as. A register is absent where reading it traps.
\<close>

definition csr_format :: "nat \<Rightarrow> processor_t \<Rightarrow> (reg_t \<times> reg_t) option" where
  "csr_format which p =
     (let S = bit (misa p) 18; H = bit (misa p) 7;
          supervisor = (if S then MIP_SSIP OR MIP_STIP OR MIP_SEIP else 0);
          hypervisor = (if H then MIP_HS_MASK else 0);
          coprocessor = (if ext_registered p then IRQ_COP_BIT else 0);
          guest = hideleg p AND MIP_VS_MASK;
          when = (\<lambda>c f. if c then Some f else None)
      in if which \<in> {0x340, 0x343, 0x140, 0x143, 0x240, 0x242, 0x243, 0x64a} then Some (- 1, 0)
         else if which \<in> {0x34a, 0x34b} then when H (- 1, 0)
         else if which \<in> {0x305, 0x105, 0x205} then Some (NOT 2, 0)
         else if which \<in> {0x106, 0x606} then Some (0xffffffff, 0)
         else if which = 0x306 then when (bit (misa p) 20) (0xffffffff, 0)
         else if which = 0x342 then Some (push_bit (xlen p - 1) 1 + 15, mcause p)
         else if which = 0x142 then Some (if virt p then (- 1, 0) else (push_bit (xlen p - 1) 1 + 31, scause p))
         else if which = 0x304 then Some (supervisor OR coprocessor OR hypervisor OR MIP_MSIP OR MIP_MTIP OR MIP_MEIP, mie p)
         else if which = 0x344 then
           Some ((supervisor OR hypervisor) AND (MIP_SSIP OR MIP_STIP OR (if H then MIP_VSSIP else 0) OR MIP_SEIP OR MIP_MEIP), mip p)
         else if which = 0x303 then when S (supervisor OR coprocessor, mideleg p)
         else if which = 0x302 then when S (medeleg_mask, medeleg p)
         else if which = 0x104 then Some (if virt p then drop_bit 1 guest else mideleg p AND NOT MIP_HS_MASK, 0)
         else if which = 0x144 then
           Some (if virt p then (drop_bit 1 (hideleg p AND MIP_VSSIP), drop_bit 1 (mip p AND guest))
                 else (mideleg p AND MIP_SSIP, mip p AND mideleg p AND NOT MIP_HS_MASK))
         else if which = 0x600 then
           Some (HSTATUS_VTSR OR HSTATUS_VTW OR HSTATUS_VTVM OR HSTATUS_HU OR HSTATUS_SPVP OR HSTATUS_SPV OR HSTATUS_GVA, hstatus p)
         else if which = 0x602 then Some (hedeleg_mask, hedeleg p)
         else if which = 0x603 then Some (MIP_VS_MASK, hideleg p)
         else if which = 0x604 then Some (MIP_HS_MASK, 0)
         else if which = 0x607 then Some (0, 0)
         else if which = 0x644 then Some (MIP_VSSIP, mip p AND MIP_HS_MASK)
         else if which = 0x645 then Some (MIP_VS_MASK, 0)
         else if which = 0x200 then Some (vsstatus_mask p, 0)
         else if which = 0x204 then Some (drop_bit 1 guest, 0)
         else if which = 0x244 then Some (drop_bit 1 (hideleg p AND MIP_VSSIP), drop_bit 1 (mip p AND guest))
         else if which = 0x001 then when (bit (misa p) 5) (0x1f, 0)
         else if which = 0x002 then when (bit (misa p) 5) (0x7, 0)
         else if which = 0x003 then when (bit (misa p) 5) (0xff, 0)
         else if which = 0x00f then when (bit (misa p) 21) (0x7, 0)
         else if which = 0x008 then when (bit (misa p) 21) (vu_VLEN p - 1, 0)
         else if which = 0x009 then when (bit (misa p) 21) (0x1, 0)
         else if which = 0x00a then when (bit (misa p) 21) (0x3, 0)
         else if which \<in> {0x7b2, 0x7b3} then when (debug_mode p) (- 1, 0)
         else if which = 0x7a2 then
           Some (if mc_dmode (mcontrol p ! unat (tselect p)) \<and> \<not> debug_mode p then (0, tdata2 p ! unat (tselect p)) else (- 1, 0))
         else None)"


lemma masked_simps [simp]: "masked 0 k w = w AND k" "masked x 0 w = x" "masked x (- 1) w = w"
  by (simp_all add: masked_def)

lemma masked_and: "masked x k w AND m = masked (x AND m) (k AND m) w" for x k w m :: reg_t
  by (rule bit_word_eqI) (auto simp: masked_def bit_simps)

lemma masked_shifted: "drop_bit 1 (masked x k (push_bit 1 w)) = masked (drop_bit 1 x) (drop_bit 1 k) w" for x k w :: reg_t
  by (rule bit_word_eqI) (auto simp: masked_def bit_simps bit_double_iff times_2 dest: bit_imp_le_length)

lemma masked_sub: "k AND m = k \<Longrightarrow> masked x k w AND m = masked (x AND m) k w" for x k w m :: reg_t
  by (simp add: masked_and)


lemma read_back_words:
  fixes val :: reg_t
  assumes "w = zext_xlen (xlen p) val"
  shows
    "read_back 0x340 val insn p = Inr w" "read_back 0x343 val insn p = Inr w" "read_back 0x140 val insn p = Inr w"
    "read_back 0x143 val insn p = Inr w" "read_back 0x240 val insn p = Inr w" "read_back 0x242 val insn p = Inr w"
    "read_back 0x243 val insn p = Inr w" "read_back 0x64a val insn p = Inr w"
    "bit (misa p) 7 \<Longrightarrow> read_back 0x34a val insn p = Inr w"
    "bit (misa p) 7 \<Longrightarrow> read_back 0x34b val insn p = Inr w" "read_back 0x305 val insn p = Inr (w AND NOT 2)"
    "read_back 0x105 val insn p = Inr (w AND NOT 2)" "read_back 0x205 val insn p = Inr (w AND NOT 2)"
    "debug_mode p \<Longrightarrow> read_back 0x7b2 val insn p = Inr w"
    "debug_mode p \<Longrightarrow> read_back 0x7b3 val insn p = Inr w" "read_back 0x607 val insn p = Inr 0"
  by (simp_all add: read_back_eval assms)

lemma ucast_counter: "to_u64 (to_u32 w) = w AND 0xffffffff" for w :: reg_t
proof -
  have "to_u64 (to_u32 w) = w AND mask 32"
    by (rule bit_word_eqI) (auto simp: bit_simps dest: bit_imp_le_length)
  then show ?thesis
    by (simp add: mask_numeral)
qed

lemma read_back_counters:
  fixes val :: reg_t
  assumes "w = zext_xlen (xlen p) val"
  shows "read_back 0x106 val insn p = Inr (w AND 0xffffffff)" "read_back 0x606 val insn p = Inr (w AND 0xffffffff)"
    "bit (misa p) 20 \<Longrightarrow> read_back 0x306 val insn p = Inr (w AND 0xffffffff)"
  by (simp_all add: read_back_eval assms ucast_counter)

lemma read_back_causes:
  fixes val :: reg_t
  assumes "w = zext_xlen (xlen p) val" and "xlen p = max_xlen p"
  shows "read_back 0x342 val insn p = Inr (masked (mcause p) (push_bit (xlen p - 1) 1 + 15) w)"
    "read_back 0x142 val insn p = Inr (if virt p then w else masked (scause p) (push_bit (xlen p - 1) 1 + 31) w)"
  by (simp_all add: read_back_eval assms cause_read_def)

lemma read_back_interrupts:
  fixes val :: reg_t
  assumes "w = zext_xlen (xlen p) val"
  shows "csr_format 0x304 p = Some (k, d) \<Longrightarrow> read_back 0x304 val insn p = Inr (masked d k w)"
    "csr_format 0x344 p = Some (k, d) \<Longrightarrow> read_back 0x344 val insn p = Inr (masked d k w)"
    "csr_format 0x303 p = Some (k, d) \<Longrightarrow> read_back 0x303 val insn p = Inr (masked d k w)"
    "csr_format 0x302 p = Some (k, d) \<Longrightarrow> read_back 0x302 val insn p = Inr (masked d k w)"
    "csr_format 0x600 p = Some (k, d) \<Longrightarrow> read_back 0x600 val insn p = Inr (masked d k w)"
    "csr_format 0x602 p = Some (k, d) \<Longrightarrow> read_back 0x602 val insn p = Inr (masked d k w)"
    "csr_format 0x603 p = Some (k, d) \<Longrightarrow> read_back 0x603 val insn p = Inr (masked d k w)"
  by (auto simp: read_back_eval assms csr_format_def split: if_splits)

lemma bit_sub: "v AND g = v \<Longrightarrow> bit v n \<Longrightarrow> bit g n" for v g :: reg_t
  by (metis bit_and_iff)

lemma masked_selected:
  fixes x h d w k v g :: reg_t
  shows "masked x k w AND k = w AND k"
    "drop_bit 1 (masked x (h AND g) (push_bit 1 w) AND h AND g) = w AND drop_bit 1 (h AND g)"
    "v AND g = v \<Longrightarrow> drop_bit 1 (masked x (h AND v) (push_bit 1 w) AND h AND g)
      = masked (drop_bit 1 (x AND h AND g)) (drop_bit 1 (h AND v)) w"
    "masked x (d AND g) w AND d AND g = w AND (d AND g)"
    "v AND g = v \<Longrightarrow> masked x (d AND v) w AND d AND g = masked (x AND d AND g) (d AND v) w"
    "v AND g = v \<Longrightarrow> masked x v w AND g = masked (x AND g) v w"
  by (rule bit_word_eqI; auto simp: masked_def bit_simps bit_double_iff times_2 dest: bit_sub bit_imp_le_length)+

lemma read_back_selected:
  fixes val :: reg_t
  assumes "w = zext_xlen (xlen p) val"
  shows "csr_format 0x104 p = Some (k, d) \<Longrightarrow> read_back 0x104 val insn p = Inr (masked d k w)"
    "csr_format 0x144 p = Some (k, d) \<Longrightarrow> read_back 0x144 val insn p = Inr (masked d k w)"
    "csr_format 0x604 p = Some (k, d) \<Longrightarrow> read_back 0x604 val insn p = Inr (masked d k w)"
    "csr_format 0x644 p = Some (k, d) \<Longrightarrow> read_back 0x644 val insn p = Inr (masked d k w)"
    "csr_format 0x645 p = Some (k, d) \<Longrightarrow> read_back 0x645 val insn p = Inr (masked d k w)"
    "csr_format 0x204 p = Some (k, d) \<Longrightarrow> read_back 0x204 val insn p = Inr (masked d k w)"
    "csr_format 0x244 p = Some (k, d) \<Longrightarrow> read_back 0x244 val insn p = Inr (masked d k w)"
  unfolding assms using masked_selected(1)[of _ MIP_HS_MASK] masked_selected(1)[of _ MIP_VS_MASK] masked_selected(2)[of _ _ MIP_VS_MASK]
    masked_selected(3)[of MIP_VSSIP MIP_VS_MASK]  masked_selected(4)[of _ _ "NOT MIP_HS_MASK"]
    masked_selected(5)[of MIP_SSIP "NOT MIP_HS_MASK"] masked_selected(6)[of MIP_VSSIP MIP_HS_MASK]
  by (auto simp: read_back_eval csr_format_def)
lemma dirty_VS: "mstatus (dirty_vs_state p) AND MSTATUS_VS \<noteq> 0"
proof -
  have "bit (mstatus (dirty_vs_state p) AND MSTATUS_VS) 10"
    by (simp add: dirty_vs_state_def bit_simps)
  then show ?thesis
    by auto
qed

lemma vcsr_join: "(w AND 1) OR push_bit 1 (drop_bit 1 (w AND 6)) = w AND 7" for w :: reg_t
proof -
  have "(w AND mask 1) OR push_bit 1 (drop_bit 1 (w AND push_bit 1 (mask 2))) = w AND mask 3"
    by (rule bit_word_eqI) (auto simp: bit_simps bit_double_iff times_2)
  then show ?thesis
    by (simp add: mask_numeral)
qed

lemma read_back_vector:
  fixes val :: reg_t
  assumes "w = zext_xlen (xlen p) val" and "bit (misa p) 21"
  shows "read_back 0x00f val insn p = Inr (w AND 0x7)" "read_back 0x008 val insn p = Inr (w AND (vu_VLEN p - 1))"
    "read_back 0x009 val insn p = Inr (w AND 0x1)" "read_back 0x00a val insn p = Inr (w AND 0x3)"
proof -
  have m: "misa (dirty_vs_state p) = misa p" "vu_VLEN (dirty_vs_state p) = vu_VLEN p"
    by (simp_all add: dirty_vs_state_def)
  note e = dirty_VS[of p] m assms
  show "read_back 0x00f val insn p = Inr (w AND 0x7)" 
    using e vcsr_join[of w] by (simp add: read_back_eval)
  show "read_back 0x008 val insn p = Inr (w AND (vu_VLEN p - 1))"
    "read_back 0x009 val insn p = Inr (w AND 0x1)" "read_back 0x00a val insn p = Inr (w AND 0x3)"
    using e by (simp_all add: read_back_eval)
qed

lemma read_back_tdata2:
  fixes val :: reg_t
  assumes "w = zext_xlen (xlen p) val" and "tselect p < 4" "length (tdata2 p) = 4"
  shows "read_back 0x7a2 val insn p = Inr (if mc_dmode (mcontrol p ! unat (tselect p)) \<and> \<not> debug_mode p then tdata2 p ! unat (tselect p) else w)"
proof -
  have "unat (tselect p) < 4" using assms(2) by (simp add: word_less_nat_alt)
  then show ?thesis using assms by (simp add: read_back_eval)
qed

lemma vsstatus_mask_upd [simp]: "vsstatus_mask (p\<lparr>vsstatus := x\<rparr>) = vsstatus_mask p"
  by (simp add: vsstatus_mask_def supports_extension_def)

lemma read_back_vsstatus: "read_back 0x200 val insn p = Inr (zext_xlen (xlen p) val AND vsstatus_mask p)"
  by (simp add: read_back_eval masked_selected(1))

text \<open>The other formats: addresses, page-table roots, counters, the extensions and the status registers.\<close>

lemma read_back_addresses:
  fixes val :: reg_t
  assumes "w = zext_xlen (xlen p) val"
  shows "read_back 0x341 val insn p = Inr (rocket_epc w AND pc_alignment_mask p)"
    "read_back 0x141 val insn p = Inr ((if virt p then w AND NOT 1 else rocket_epc w) AND pc_alignment_mask p)"
    "read_back 0x241 val insn p = Inr ((w AND NOT 1) AND pc_alignment_mask p)"
    "debug_mode p \<Longrightarrow> read_back 0x7b1 val insn p = Inr ((w AND NOT 1) AND pc_alignment_mask p)"
  by (simp_all add: read_back_eval assms pc_alignment_mask_def)

lemma read_back_roots:
  fixes val :: reg_t
  assumes "w = zext_xlen (xlen p) val"
  shows "get_field (mstatus p) MSTATUS_TVM = 0 \<Longrightarrow> get_field (hstatus p) HSTATUS_VTVM = 0 \<Longrightarrow>
      read_back 0x180 val insn p = Inr (legal_atp p ((0x00000FFFFFFFFFFF AND rv64_ppn_mask) OR 0xF000000000000000) w)"
    "read_back 0x680 val insn p = Inr (legal_atp p 0xF0000FFFFFFFFFFF w)"
    "read_back 0x280 val insn p = Inr (legal_atp p 0xF0000FFFFFFFFFFF w)"
  by (simp_all add: read_back_eval assms p_flush_tlb_def)

lemma read_back_misa:
  fixes val :: reg_t
  assumes "w = zext_xlen (xlen p) val"
  shows "read_back 0x301 val insn p = Inr
    (if w AND 0x4 = 0 \<and> pc p AND 2 \<noteq> 0 then misa p
     else masked (misa p) (0x10AD AND max_isa p) (if w AND 0x20 = 0 then w AND NOT 0x8 else w))"
  by (simp add: read_back_eval assms set_misa_def masked_def or.commute if_distrib[of misa] cong: if_cong)

lemma read_back_counters64:
  assumes "xlen p = 64" "tselect p < 4"
  shows "read_back 0xb02 val insn p = Inr (val - 1)" "read_back 0xb00 val insn p = Inr (val - 1)"
    "read_back 0x7a0 val insn p = Inr (if val < 4 then val else tselect p)"
  using assms by (simp_all add: read_back_eval zext_xlen_def)

definition pmpaddr_writable :: "nat \<Rightarrow> processor_t \<Rightarrow> bool" where
  "pmpaddr_writable i p \<longleftrightarrow>
     i < max_pmp \<and> i < n_pmp p \<and> \<not> pmp_locked p i
     \<and> \<not> (i + 1 < max_pmp \<and> pmp_locked p (i + 1) \<and> pmpcfg p ! (i + 1) AND PMP_A = PMP_TOR)"

lemma read_back_pmpaddr:
  fixes val :: reg_t
  assumes "w = zext_xlen (xlen p) val" and "pmpaddr_writable i p" and "length (pmpaddr p) = max_pmp"
  shows "read_back (0x3b0 + i) val insn p = Inr
    (if PMP_NAPOT \<le> pmpcfg p ! i AND PMP_A then (w AND 0x3fffffff) OR drop_bit 1 (NOT (pmp_tor_mask p))
     else (w AND 0x3fffffff) AND pmp_tor_mask p)"
proof -
  have n: "i < 16" "0 < n_pmp p"
    using assms(2) by (auto simp: pmpaddr_writable_def)
  have "set_csr (0x3b0 + i) val p = Inr (p_flush_tlb (p\<lparr>pmpaddr := (pmpaddr p)[i := w AND 0x3fffffff]\<rparr>))"
    using assms n by (auto simp: set_csr_def set_csr_switch_pmp set_pmpaddr_def pmpaddr_writable_def pmp_locked_def Let_def)
  then show ?thesis
    using n assms(3) by (simp add: read_back_def and_then_def get_csr_def Let_def p_flush_tlb_def pmp_tor_mask_def)
qed

text \<open>The bits of the status registers that are stored as they are written.\<close>

lemma set_mstatus_supervisor_bits:
  "bit (misa p) 18 \<Longrightarrow> bit (mstatus (set_mstatus val p)) 1 \<longleftrightarrow> bit val 1"
  "bit (misa p) 18 \<Longrightarrow> bit (mstatus (set_mstatus val p)) 5 \<longleftrightarrow> bit val 5"
  "bit (misa p) 18 \<Longrightarrow> bit (mstatus (set_mstatus val p)) 8 \<longleftrightarrow> bit val 8"
  by (simp_all add: set_mstatus_def Let_def set_fields bit_simps bit_if if_distrib[of mstatus] p_flush_tlb_def)

lemma set_mstatus_FS:
  assumes "bit (misa p) 5" and "n = 13 \<or> n = 14"
  shows "bit (mstatus (set_mstatus val p)) n \<longleftrightarrow> bit val 13 \<or> bit val 14"
proof -
  have f: "val AND MSTATUS_FS \<noteq> 0 \<longleftrightarrow> bit val 13 \<or> bit val 14"
  proof -
    have "MSTATUS_FS = push_bit 13 (mask 2 :: reg_t)"
      by (simp add: mask_numeral)
    then have "bit (val AND MSTATUS_FS) k \<longleftrightarrow> (k = 13 \<or> k = 14) \<and> bit val k" for k
      by (simp only: bit_and_iff bit_ones) auto
    then show ?thesis
      unfolding bit_eq_iff[of "val AND MSTATUS_FS" 0] by (auto intro: exI[of _ 13] exI[of _ 14])
  qed
  show ?thesis
    using assms by (elim disjE) (simp_all add: set_mstatus_def Let_def set_fields bit_simps bit_if if_distrib[of mstatus] p_flush_tlb_def f)
qed

lemma read_back_mstatus:
  fixes val :: reg_t
  assumes "w = zext_xlen (xlen p) val"
  shows "\<exists>s. read_back 0x300 val insn p = Inr s
    \<and> get_field s MSTATUS_MPP = legalize_privilege p (get_field w MSTATUS_MPP)
    \<and> list_all (\<lambda>n. bit s n = bit w n) [3, 7, 17, 19, 20, 21, 22]
    \<and> (bit (misa p) 18 \<longrightarrow> list_all (\<lambda>n. bit s n = bit w n) [1, 5, 8, 18])
    \<and> (bit (misa p) 5 \<longrightarrow> list_all (\<lambda>n. bit s n = (bit w 13 \<or> bit w 14)) [13, 14])
    \<and> (bit (misa p) 7 \<and> bit (misa p) 18 \<longrightarrow> list_all (\<lambda>n. bit s n = bit w n) [38, 39])"
proof -
  have "read_back 0x300 val insn p = Inr (mstatus (set_mstatus w p))"
    by (simp add: read_back_eval assms)
  then show ?thesis
    by (simp add: set_mstatus_MPP set_mstatus_bits set_mstatus_machine_bits set_mstatus_supervisor_bits
        set_mstatus_supervisor_bits(1)[simplified] set_mstatus_FS)
qed

lemma read_back_sstatus:
  fixes val :: reg_t
  assumes "w = zext_xlen (xlen p) val" and "bit (misa p) 18" and "xlen p = 32 \<or> xlen p = 64"
  shows "\<exists>s. read_back 0x100 val insn p = Inr s \<and> list_all (\<lambda>n. bit s n = bit w n) [1, 5, 8, 18, 19]
    \<and> list_all (\<lambda>n. \<not> bit s n) [3, 7, 11, 12, 17, 20, 21, 22]"
proof -
  define v where "v = zext_xlen (xlen p) (masked (mstatus p) (sstatus_write_mask p) w)"
  have "read_back 0x100 val insn p = Inr (sstatus_read (set_mstatus v p))"
    by (simp add: read_back_eval assms(1) v_def)
  moreover have v: "bit v n = bit w n" if "n \<in> {1, 5, 8, 18, 19}" for n
  proof -
    have "bit (sstatus_write_mask p) n"
      using that unfolding sstatus_write_mask_def by (elim insertE emptyE; simp add: bit_simps bit_if)
    then show ?thesis
      using that assms(3) unfolding v_def by (subst zext_xlen_bit) (auto simp: masked_def bit_simps assms(1) zext_xlen_bit)
  qed
  moreover have "bit (sstatus_read q) n = bit (mstatus q) n" if "n \<in> {1, 5, 8, 18, 19}" for n q
    using that unfolding sstatus_read_def Let_def by (elim insertE emptyE; simp add: bit_simps bit_if)
  moreover have "\<not> bit (sstatus_read q) n" if "n \<in> {3, 7, 11, 12, 17, 20, 21, 22}" for n q
    using that unfolding sstatus_read_def Let_def by (elim insertE emptyE; simp add: bit_simps bit_if)
  ultimately show ?thesis
    using assms(2) by (simp add: set_mstatus_bits set_mstatus_supervisor_bits set_mstatus_supervisor_bits(1)[simplified])
qed

lemma csr_format_cases:
  "csr_format which p = Some f \<Longrightarrow> which \<in>
     {0x340, 0x343, 0x140, 0x143, 0x240, 0x242, 0x243, 0x64a, 0x34a, 0x34b, 0x305, 0x105, 0x205, 0x106, 0x606, 0x306, 0x342,
      0x142, 0x304, 0x344, 0x303, 0x302, 0x104, 0x144, 0x600, 0x602, 0x603, 0x604, 0x607, 0x644, 0x645, 0x200, 0x204, 0x244,
      0x001, 0x002, 0x003, 0x00f, 0x008, 0x009, 0x00a, 0x7b2, 0x7b3, 0x7a2}"
  by (rule ccontr) (simp add: csr_format_def)

lemma format_words:
  fixes val :: reg_t
  assumes "w = zext_xlen (xlen p) val"
  shows "csr_format 0x340 p = Some (k, d) \<Longrightarrow> read_back 0x340 val insn p = Inr (masked d k w)"
    "csr_format 0x343 p = Some (k, d) \<Longrightarrow> read_back 0x343 val insn p = Inr (masked d k w)"
    "csr_format 0x140 p = Some (k, d) \<Longrightarrow> read_back 0x140 val insn p = Inr (masked d k w)"
    "csr_format 0x143 p = Some (k, d) \<Longrightarrow> read_back 0x143 val insn p = Inr (masked d k w)"
    "csr_format 0x240 p = Some (k, d) \<Longrightarrow> read_back 0x240 val insn p = Inr (masked d k w)"
    "csr_format 0x242 p = Some (k, d) \<Longrightarrow> read_back 0x242 val insn p = Inr (masked d k w)"
    "csr_format 0x243 p = Some (k, d) \<Longrightarrow> read_back 0x243 val insn p = Inr (masked d k w)"
    "csr_format 0x64a p = Some (k, d) \<Longrightarrow> read_back 0x64a val insn p = Inr (masked d k w)"
    "csr_format 0x34a p = Some (k, d) \<Longrightarrow> read_back 0x34a val insn p = Inr (masked d k w)"
    "csr_format 0x34b p = Some (k, d) \<Longrightarrow> read_back 0x34b val insn p = Inr (masked d k w)"
    "csr_format 0x305 p = Some (k, d) \<Longrightarrow> read_back 0x305 val insn p = Inr (masked d k w)"
    "csr_format 0x105 p = Some (k, d) \<Longrightarrow> read_back 0x105 val insn p = Inr (masked d k w)"
    "csr_format 0x205 p = Some (k, d) \<Longrightarrow> read_back 0x205 val insn p = Inr (masked d k w)"
    "csr_format 0x7b2 p = Some (k, d) \<Longrightarrow> read_back 0x7b2 val insn p = Inr (masked d k w)"
    "csr_format 0x7b3 p = Some (k, d) \<Longrightarrow> read_back 0x7b3 val insn p = Inr (masked d k w)"
    "csr_format 0x607 p = Some (k, d) \<Longrightarrow> read_back 0x607 val insn p = Inr (masked d k w)"
  by (auto simp: csr_format_def read_back_words[OF assms] split: if_splits)

lemma format_counters:
  fixes val :: reg_t
  assumes "w = zext_xlen (xlen p) val" and "xlen p = max_xlen p"
  shows "csr_format 0x106 p = Some (k, d) \<Longrightarrow> read_back 0x106 val insn p = Inr (masked d k w)"
    "csr_format 0x606 p = Some (k, d) \<Longrightarrow> read_back 0x606 val insn p = Inr (masked d k w)"
    "csr_format 0x306 p = Some (k, d) \<Longrightarrow> read_back 0x306 val insn p = Inr (masked d k w)"
    "csr_format 0x342 p = Some (k, d) \<Longrightarrow> read_back 0x342 val insn p = Inr (masked d k w)"
    "csr_format 0x142 p = Some (k, d) \<Longrightarrow> read_back 0x142 val insn p = Inr (masked d k w)"
  by (auto simp: csr_format_def read_back_counters[OF assms(1)] read_back_causes[OF assms] split: if_splits)

lemma format_units:
  fixes val :: reg_t
  assumes "w = zext_xlen (xlen p) val"
  shows "csr_format 0x001 p = Some (k, d) \<Longrightarrow> read_back 0x001 val insn p = Inr (masked d k w)"
    "csr_format 0x002 p = Some (k, d) \<Longrightarrow> read_back 0x002 val insn p = Inr (masked d k w)"
    "csr_format 0x003 p = Some (k, d) \<Longrightarrow> read_back 0x003 val insn p = Inr (masked d k w)"
    "csr_format 0x00f p = Some (k, d) \<Longrightarrow> read_back 0x00f val insn p = Inr (masked d k w)"
    "csr_format 0x008 p = Some (k, d) \<Longrightarrow> read_back 0x008 val insn p = Inr (masked d k w)"
    "csr_format 0x009 p = Some (k, d) \<Longrightarrow> read_back 0x009 val insn p = Inr (masked d k w)"
    "csr_format 0x00a p = Some (k, d) \<Longrightarrow> read_back 0x00a val insn p = Inr (masked d k w)"
    "csr_format 0x200 p = Some (k, d) \<Longrightarrow> read_back 0x200 val insn p = Inr (masked d k w)"
  using read_back_fp[OF assms] read_back_vector[OF assms] read_back_vsstatus[of val insn p, folded assms]
  by (auto simp: csr_format_def split: if_splits)

lemma format_tdata2:
  fixes val :: reg_t
  assumes "w = zext_xlen (xlen p) val" and "tselect p < 4" and "length (tdata2 p) = 4"
  shows "csr_format 0x7a2 p = Some (k, d) \<Longrightarrow> read_back 0x7a2 val insn p = Inr (masked d k w)"
  by (auto simp: csr_format_def read_back_tdata2[OF assms] split: if_splits)

lemma read_back_format:
  fixes val :: reg_t
  assumes "wf_csr p" and "w = zext_xlen (xlen p) val" and "csr_format which p = Some (k, d)"
  shows "read_back which val insn p = Inr (masked d k w)"
proof -
  have wf: "xlen p = max_xlen p" "tselect p < 4" "length (tdata2 p) = 4"
    using assms(1) by (simp_all add: wf_csr_def)
  note R = format_words[OF assms(2)] format_counters[OF assms(2) wf(1)] format_units[OF assms(2)]
    format_tdata2[OF assms(2) wf(2,3)] read_back_interrupts[OF assms(2)] read_back_selected[OF assms(2)]
  show ?thesis
    using csr_format_cases[OF assms(3)] assms(3) by (elim insertE emptyE) (hypsubst, erule R)+
qed

text \<open>
  C28: what is written to a CSR is read back in its legal form. A register of \<open>csr_format\<close> (scratch, value, cause, vector, counter-enable,
  delegation, interrupt, floating-point, vector, hypervisor and guest registers, the debug scratch registers and the trigger data)
  reads as the written word (truncated to the register width) in its writable bits and as before in the
  others; the exception program counters read sign-extended from 40 bits and aligned; a translation
  root keeps only supported modes; the retired-instruction counters of RV64 are one behind, which the
  retirement of the writing instruction makes up for; \<open>misa\<close> keeps its fixed extensions and drops D
  without F; an unlocked protection address reads at the granularity; \<open>mstatus\<close> and \<open>sstatus\<close> store the
  named bits, \<open>MPP\<close> legalized and \<open>FS\<close> off or dirty. Not stated are \<open>tdata1\<close>, \<open>dcsr\<close>, \<open>pmpcfg\<close>, the counters of
  RV32 and the summary and width fields of the status registers; the guest page-fault address
  \<open>htval\<close> is not a register of this kind, its write goes to another one.
\<close>

theorem csr_read_back:
  fixes val :: reg_t
  assumes "wf_csr p" and "w = zext_xlen (xlen p) val"
  shows "(csr_format which p = Some (k, d) \<longrightarrow> read_back which val insn p = Inr (masked d k w))
    \<and> read_back 0x341 val insn p = Inr (rocket_epc w AND pc_alignment_mask p)
    \<and> read_back 0x141 val insn p = Inr ((if virt p then w AND NOT 1 else rocket_epc w) AND pc_alignment_mask p)
    \<and> read_back 0x241 val insn p = Inr ((w AND NOT 1) AND pc_alignment_mask p)
    \<and> (debug_mode p \<longrightarrow> read_back 0x7b1 val insn p = Inr ((w AND NOT 1) AND pc_alignment_mask p))
    \<and> (get_field (mstatus p) MSTATUS_TVM = 0 \<longrightarrow> get_field (hstatus p) HSTATUS_VTVM = 0 \<longrightarrow>
        read_back 0x180 val insn p = Inr (legal_atp p ((0x00000FFFFFFFFFFF AND rv64_ppn_mask) OR 0xF000000000000000) w))
    \<and> read_back 0x680 val insn p = Inr (legal_atp p 0xF0000FFFFFFFFFFF w)
    \<and> read_back 0x280 val insn p = Inr (legal_atp p 0xF0000FFFFFFFFFFF w)
    \<and> read_back 0x301 val insn p = Inr
        (if w AND 0x4 = 0 \<and> pc p AND 2 \<noteq> 0 then misa p
         else masked (misa p) (0x10AD AND max_isa p) (if w AND 0x20 = 0 then w AND NOT 0x8 else w))
    \<and> (xlen p = 64 \<longrightarrow> read_back 0xb02 val insn p = Inr (val - 1) \<and> read_back 0xb00 val insn p = Inr (val - 1)
        \<and> read_back 0x7a0 val insn p = Inr (if val < 4 then val else tselect p))
    \<and> (pmpaddr_writable i p \<longrightarrow> read_back (0x3b0 + i) val insn p = Inr
        (if PMP_NAPOT \<le> pmpcfg p ! i AND PMP_A then (w AND 0x3fffffff) OR drop_bit 1 (NOT (pmp_tor_mask p))
         else (w AND 0x3fffffff) AND pmp_tor_mask p))
    \<and> (\<exists>s. read_back 0x300 val insn p = Inr s
        \<and> get_field s MSTATUS_MPP = legalize_privilege p (get_field w MSTATUS_MPP)
        \<and> list_all (\<lambda>n. bit s n = bit w n) [3, 7, 17, 19, 20, 21, 22]
        \<and> (bit (misa p) 18 \<longrightarrow> list_all (\<lambda>n. bit s n = bit w n) [1, 5, 8, 18])
        \<and> (bit (misa p) 5 \<longrightarrow> list_all (\<lambda>n. bit s n = (bit w 13 \<or> bit w 14)) [13, 14])
        \<and> (bit (misa p) 7 \<and> bit (misa p) 18 \<longrightarrow> list_all (\<lambda>n. bit s n = bit w n) [38, 39]))
    \<and> (bit (misa p) 18 \<longrightarrow>
        (\<exists>s. read_back 0x100 val insn p = Inr s \<and> list_all (\<lambda>n. bit s n = bit w n) [1, 5, 8, 18, 19]
          \<and> list_all (\<lambda>n. \<not> bit s n) [3, 7, 11, 12, 17, 20, 21, 22]))"
proof -
  have wf: "tselect p < 4" "length (pmpaddr p) = max_pmp" "xlen p = 32 \<or> xlen p = 64"
    using wf_csr_D(1,4,12)[OF assms(1)] assms(1) by (simp_all add: wf_csr_def wf_pmp_def)
  show ?thesis
    using wf(1)
    by (intro conjI impI read_back_format[OF assms] read_back_addresses[OF assms(2)] read_back_roots[OF assms(2)]
        read_back_misa[OF assms(2)] read_back_counters64 read_back_pmpaddr[OF assms(2) _ wf(2)] read_back_mstatus[OF assms(2)]
        read_back_sstatus[OF assms(2) _ wf(3)])
qed

lemma csr_read_back_witness:
  "read_back 0x003 0x1ff 0 example_hart = Inr 0xff
   \<and> read_back 0x180 0x8000000000000123 0 example_hart = Inr 0x8000000000000123
   \<and> read_back 0x304 0xffff 0 example_hart = Inr 0xaaa
   \<and> read_back 0x3b1 0x1234 0 example_hart = Inr 0x1234"
proof -
  note R = csr_read_back[OF wf_example_hart refl]
  have x: "zext_xlen (xlen example_hart) v = v" for v
    by (simp add: example_hart_def zext_xlen_def)
  have "csr_format 0x003 example_hart = Some (0xff, 0)" "csr_format 0x304 example_hart = Some (0xaaa, 0)"
    by (simp_all add: csr_format_def example_hart_def)
  moreover have "pmpaddr_writable 1 example_hart"
    by (simp add: pmpaddr_writable_def example_hart_def pmp_locked_def)
  ultimately show ?thesis
    using R[where which = "0x003" and k = "0xff" and d = 0 and val = "0x1ff" and insn = 0]
      R[where which = "0x304" and k = "0xaaa" and d = 0 and val = "0xffff" and insn = 0]
      R[where val = "0x8000000000000123" and insn = 0] R[where val = "0x1234" and insn = 0 and i = 1]
    unfolding x by (simp add: legal_atp_def get_field_def example_hart_def pmp_tor_mask_def masked_def)
qed

text \<open>The guest page-fault address register is the exception: its write goes to another register.\<close>

lemma htval_write_lost: "read_back 0x643 val insn p = Inr (htval p)"
  by (simp add: read_back_eval)

end
