(* ===== verification/RV_Trap.thy ===== *)
theory RV_Trap
  imports RV_CSR_Views
begin

text \<open>
  Traps, interrupts and changes of privilege: \<open>set_privilege\<close>, \<open>set_virt\<close>, \<open>enter_debug_mode\<close>,
  \<open>take_trap\<close>, \<open>take_interrupt\<close> of \<open>riscv/processor.cc\<close>, the check of a CSR access
  (\<open>validate_csr\<close> of \<open>riscv/decode.h\<close>) and the privileged and CSR instructions of
  \<open>riscv/insns\<close>. An instruction either returns the next program counter (or a sentinel) and the
  processor, or throws, with the changes it has made by then.
\<close>

section \<open>Privilege modes\<close>

definition set_privilege :: "reg_t \<Rightarrow> processor_t \<Rightarrow> thrown + processor_t" where
  "set_privilege pr p =
     (let p = p_flush_tlb p
      in if PRV_M < pr then Inl Abort else Inr (p\<lparr>prv := legalize_privilege p pr\<rparr>))"

abbreviation (input) SSTATUS_SD :: "processor_t \<Rightarrow> reg_t" where
  "SSTATUS_SD p \<equiv> (if xlen p = 64 then MSTATUS64_SD else MSTATUS32_SD)"

definition vs_sync :: "reg_t \<Rightarrow> processor_t \<Rightarrow> processor_t" where
  "vs_sync f p = (if mstatus p AND f = f then p\<lparr>vsstatus := (vsstatus p OR f) OR SSTATUS_SD p\<rparr> else p)"

definition set_virt :: "bool \<Rightarrow> processor_t \<Rightarrow> processor_t" where
  "set_virt v p =
     (if prv p = PRV_M then p
      else if virt p \<noteq> v then
        let p = (if virt p \<and> \<not> v then vs_sync MSTATUS_XS (vs_sync MSTATUS_VS (vs_sync MSTATUS_FS p)) else p);
            msk = vsstatus_mask p;
            tmp = mstatus p AND msk
        in p\<lparr>mstatus := (mstatus p AND NOT msk) OR (vsstatus p AND msk), vsstatus := tmp, virt := v\<rparr>
      else p)"

abbreviation (input) DEBUG_ROM_ENTRY :: reg_t where "DEBUG_ROM_ENTRY \<equiv> 0x800"
abbreviation (input) DEBUG_ROM_TVEC :: reg_t where "DEBUG_ROM_TVEC \<equiv> 0x808"

definition enter_debug_mode :: "uint8 \<Rightarrow> processor_t \<Rightarrow> thrown + processor_t" where
  "enter_debug_mode cause p =
     and_then (set_privilege PRV_M (p\<lparr>debug_mode := True, dcsr := (dcsr p)\<lparr>dcsr_cause := cause, dcsr_prv := to_u8 (prv p)\<rparr>\<rparr>))
       (\<lambda>p. Inr (p\<lparr>dpc := pc p, pc := DEBUG_ROM_ENTRY\<rparr>))"

section \<open>Traps\<close>

definition trap_vector :: "reg_t \<Rightarrow> bool \<Rightarrow> reg_t \<Rightarrow> reg_t" where
  "trap_vector tvec interrupt n = (tvec AND NOT 1) + (if tvec AND 1 \<noteq> 0 \<and> interrupt then 4 * n else 0)"

text \<open>The trap value keeps 40 bits; bit 39 is derived from whether the upper bits extend bit 38.\<close>

definition rocket_tval :: "reg_t \<Rightarrow> reg_t" where
  "rocket_tval tval =
     (let upper_tval = drop_bit 39 tval AND 0x1ffffff;
          b38 = (drop_bit 38 tval AND 1 \<noteq> 0);
          tval = (if b38 \<and> upper_tval = 0x1ffffff then tval OR push_bit 39 1
                  else if \<not> b38 \<and> upper_tval \<noteq> 0 then tval OR push_bit 39 1
                  else tval AND 0xffffff7fffffffff);
          upper_mask = (if drop_bit 39 tval AND 1 \<noteq> 0 then 0xffffff else 0)
      in push_bit 40 upper_mask OR (tval AND 0xffffffffff))"

definition trap_to_vs :: "trap_t \<Rightarrow> reg_t \<Rightarrow> bool \<Rightarrow> reg_t \<Rightarrow> processor_t \<Rightarrow> thrown + processor_t" where
  "trap_to_vs t n interrupt epc p =
     (let p = p\<lparr>pc := trap_vector (vstvec p) interrupt n,
                vscause := (if interrupt then trap_cause t - 1 else trap_cause t),
                vsepc := epc, vstval := trap_tval t\<rparr>;
          s = mstatus p;
          s = set_field s MSTATUS_SPIE (get_field s MSTATUS_SIE);
          s = set_field s MSTATUS_SPP (prv p);
          s = set_field s MSTATUS_SIE 0
      in and_then (set_csr 0x300 s p) (set_privilege PRV_S))"

definition trap_to_hs :: "trap_t \<Rightarrow> reg_t \<Rightarrow> bool \<Rightarrow> reg_t \<Rightarrow> processor_t \<Rightarrow> thrown + processor_t" where
  "trap_to_hs t n interrupt epc p =
     (let curr_virt = virt p;
          p = set_virt False p;
          p = p\<lparr>pc := trap_vector (stvec p) interrupt n, scause := trap_cause t, sepc := epc,
                stval := trap_tval t, htval := trap_tval2 t, htinst := trap_tinst t\<rparr>;
          s = mstatus p;
          s = set_field s MSTATUS_SPIE (get_field s MSTATUS_SIE);
          s = set_field s MSTATUS_SPP (prv p);
          s = set_field s MSTATUS_SIE 0
      in and_then (set_csr 0x300 s p)
           (\<lambda>p. let s = hstatus p;
                    s = set_field s HSTATUS_SPVP (prv p);
                    s = set_field s HSTATUS_SPV (of_bool curr_virt);
                    s = set_field s HSTATUS_GVA (of_bool (trap_gva t))
                in and_then (set_csr 0x600 s p) (set_privilege PRV_S)))"

definition trap_to_m :: "trap_t \<Rightarrow> reg_t \<Rightarrow> bool \<Rightarrow> reg_t \<Rightarrow> processor_t \<Rightarrow> thrown + processor_t" where
  "trap_to_m t n interrupt epc p =
     (let curr_virt = virt p;
          p = set_virt False p;
          p = p\<lparr>pc := trap_vector (mtvec p) interrupt n, mepc := epc, mcause := trap_cause t,
                mtval := rocket_tval (trap_tval t), mtval2 := trap_tval2 t, mtinst := trap_tinst t\<rparr>;
          s = mstatus p;
          s = set_field s MSTATUS_MPIE (get_field s MSTATUS_MIE);
          s = set_field s MSTATUS_MPP (prv p);
          s = set_field s MSTATUS_MIE 0;
          s = set_field s MSTATUS_MPV (of_bool curr_virt);
          s = set_field s MSTATUS_GVA (of_bool (trap_gva t))
      in and_then (set_csr 0x300 s p) (set_privilege PRV_M))"

text \<open>Where a trap goes: the delegation registers of the machine and of the hypervisor.\<close>

definition vs_delegated :: "trap_t \<Rightarrow> processor_t \<Rightarrow> reg_t" where
  "vs_delegated t p =
     (if virt p \<and> prv p \<le> PRV_S then
        if trap_cause t AND push_bit (max_xlen p - 1) 1 \<noteq> 0 then mideleg p AND hideleg p else medeleg p AND hedeleg p
      else 0)"

definition hs_delegated :: "trap_t \<Rightarrow> processor_t \<Rightarrow> reg_t" where
  "hs_delegated t p =
     (if prv p \<le> PRV_S then
        if trap_cause t AND push_bit (max_xlen p - 1) 1 \<noteq> 0 then mideleg p else medeleg p
      else 0)"

definition take_trap :: "trap_t \<Rightarrow> reg_t \<Rightarrow> processor_t \<Rightarrow> thrown + processor_t" where
  "take_trap t epc p =
     (if debug_mode p then
        Inr (p\<lparr>pc := (if trap_cause t = CAUSE_BREAKPOINT then DEBUG_ROM_ENTRY else DEBUG_ROM_TVEC)\<rparr>)
      else if trap_cause t = CAUSE_BREAKPOINT \<and>
              (prv p = PRV_M \<and> dcsr_ebreakm (dcsr p) \<or> prv p = PRV_S \<and> dcsr_ebreaks (dcsr p)
               \<or> prv p = PRV_U \<and> dcsr_ebreaku (dcsr p))
      then enter_debug_mode 1 p
      else
        let interrupt = (trap_cause t AND push_bit (max_xlen p - 1) 1 \<noteq> 0);
            n = (if interrupt then trap_cause t AND NOT (push_bit (max_xlen p - 1) 1) else trap_cause t)
        in if prv p \<le> PRV_S \<and> n < of_nat (max_xlen p) \<and> drop_bit (unat n) (vs_delegated t p) AND 1 \<noteq> 0
           then trap_to_vs t n interrupt epc p
           else if prv p \<le> PRV_S \<and> n < of_nat (max_xlen p) \<and> drop_bit (unat n) (hs_delegated t p) AND 1 \<noteq> 0
           then trap_to_hs t n interrupt epc p
           else trap_to_m t n interrupt epc p)"

section \<open>Interrupts\<close>

text \<open>The number of zero bits below the lowest set bit; a word has at most 64.\<close>

fun ctz_loop :: "nat \<Rightarrow> reg_t \<Rightarrow> nat \<Rightarrow> nat" where
  "ctz_loop 0 val res = res"
| "ctz_loop (Suc fuel) val res = (if val AND 1 = 0 then ctz_loop fuel (drop_bit 1 val) (res + 1) else res)"

definition ctz :: "reg_t \<Rightarrow> nat" where
  "ctz val = (if val \<noteq> 0 then ctz_loop 64 val 0 else 0)"

definition enabled_interrupts :: "reg_t \<Rightarrow> processor_t \<Rightarrow> reg_t" where
  "enabled_interrupts pending p =
     (let m_enabled = (prv p < PRV_M \<or> prv p = PRV_M \<and> get_field (mstatus p) MSTATUS_MIE \<noteq> 0);
          enabled = (pending AND NOT (mideleg p)) AND (- of_bool m_enabled)
      in if enabled = 0 then
           let status = (if virt p then vsstatus p else mstatus p);
               hs_enabled = (prv p < PRV_S \<or> prv p = PRV_S \<and> get_field status MSTATUS_SIE \<noteq> 0);
               enabled = (pending AND (mideleg p AND NOT MIP_VS_MASK)) AND (- of_bool hs_enabled)
           in if virt p \<and> enabled = 0 then
                let vs_enabled = (prv p < PRV_S \<or> prv p = PRV_S \<and> get_field (mstatus p) MSTATUS_SIE \<noteq> 0)
                in (pending AND (mideleg p AND hideleg p)) AND (- of_bool vs_enabled)
              else enabled
         else enabled)"

definition select_interrupt :: "reg_t \<Rightarrow> reg_t option" where
  "select_interrupt e =
     (if drop_bit 11 e \<noteq> 0 then Some (push_bit 11 (drop_bit 11 e))
      else if e AND MIP_MEIP \<noteq> 0 then Some MIP_MEIP
      else if e AND MIP_MSIP \<noteq> 0 then Some MIP_MSIP
      else if e AND MIP_MTIP \<noteq> 0 then Some MIP_MTIP
      else if e AND MIP_SEIP \<noteq> 0 then Some MIP_SEIP
      else if e AND MIP_SSIP \<noteq> 0 then Some MIP_SSIP
      else if e AND MIP_STIP \<noteq> 0 then Some MIP_STIP
      else if e AND MIP_VSEIP \<noteq> 0 then Some MIP_VSEIP
      else if e AND MIP_VSSIP \<noteq> 0 then Some MIP_VSSIP
      else if e AND MIP_VSTIP \<noteq> 0 then Some MIP_VSTIP
      else None)"

definition take_interrupt :: "reg_t \<Rightarrow> processor_t \<Rightarrow> thrown option" where
  "take_interrupt pending p =
     (if pending = 0 then None
      else
        let e = enabled_interrupts pending p
        in if \<not> debug_mode p \<and> e \<noteq> 0 then
             (case select_interrupt e of
                None \<Rightarrow> Some Abort
              | Some sel \<Rightarrow> Some (Trap (plain_trap (push_bit (max_xlen p - 1) 1 OR of_nat (ctz sel)))))
           else None)"

definition take_pending_interrupt :: "processor_t \<Rightarrow> thrown option" where
  "take_pending_interrupt p = take_interrupt (mip p AND mie p) p"

text \<open>The interrupts the fuzzer asks for when a program counter is reached (\<open>psint.cc\<close>).\<close>

definition assert_int :: "(reg_t \<Rightarrow> reg_t option) \<Rightarrow> reg_t \<Rightarrow> processor_t \<Rightarrow> processor_t \<times> thrown option" where
  "assert_int intrs npc p =
     (case intrs npc of
        None \<Rightarrow> (p, None)
      | Some val \<Rightarrow>
          let assert_mip = push_bit 11 (drop_bit 2 val AND 1) OR push_bit 9 (drop_bit 3 val AND 1)
                           OR push_bit 7 (val AND 1) OR push_bit 3 (drop_bit 1 val AND 1);
              p = p\<lparr>mip := mip p OR assert_mip\<rparr>
          in (p, take_pending_interrupt p))"

end
