(* ===== verification/RV_Priv.thy ===== *)
theory RV_Priv
  imports RV_Trap
begin

text \<open>
  The privileged and CSR instructions of \<open>riscv/insns\<close>. An instruction takes its bits and its
  program counter; it returns the next program counter, or a sentinel that tells the main loop
  that the instruction has set the program counter itself, or it throws. Either way the
  processor it leaves is part of the result.
\<close>

section \<open>The frame of an instruction\<close>

datatype exec = Done reg_t processor_t | Raise thrown processor_t

abbreviation (input) PC_SERIALIZE_BEFORE :: reg_t where "PC_SERIALIZE_BEFORE \<equiv> 3"
abbreviation (input) PC_SERIALIZE_AFTER :: reg_t where "PC_SERIALIZE_AFTER \<equiv> 5"
abbreviation (input) PC_SERIALIZE_WFI :: reg_t where "PC_SERIALIZE_WFI \<equiv> 7"

definition next_pc :: "reg_t \<Rightarrow> insn_bits \<Rightarrow> processor_t \<Rightarrow> reg_t" where
  "next_pc npc insn p = sext_xlen (xlen p) (npc + of_nat (insn_length insn))"

definition run :: "thrown + processor_t \<Rightarrow> processor_t \<Rightarrow> (processor_t \<Rightarrow> exec) \<Rightarrow> exec" where
  "run r p k = (case r of Inl e \<Rightarrow> Raise e p | Inr q \<Rightarrow> k q)"

definition illegal :: "insn_bits \<Rightarrow> processor_t \<Rightarrow> exec" where
  "illegal insn p = Raise (trap_illegal_instruction (insn_bits insn)) p"

definition virtual_insn :: "insn_bits \<Rightarrow> processor_t \<Rightarrow> exec" where
  "virtual_insn insn p = Raise (trap_virtual_instruction (insn_bits insn)) p"

definition set_pc_serialize :: "reg_t \<Rightarrow> processor_t \<Rightarrow> processor_t" where
  "set_pc_serialize x p = p\<lparr>pc := x AND pc_alignment_mask p\<rparr>"

definition write_reg :: "nat \<Rightarrow> reg_t \<Rightarrow> processor_t \<Rightarrow> processor_t" where
  "write_reg r v p = (if r \<noteq> 0 then p\<lparr>XPR := (XPR p)[r := v]\<rparr> else p)"

section \<open>CSR instructions\<close>

definition validate_csr :: "nat \<Rightarrow> bool \<Rightarrow> insn_bits \<Rightarrow> processor_t \<Rightarrow> exec + processor_t" where
  "validate_csr which write insn p =
     (if \<not> serialized p then Inl (Done PC_SERIALIZE_BEFORE p)
      else
        let p = p\<lparr>serialized := False\<rparr>;
            csr_priv = which div 0x100 mod 4;
            mode_unsupported = (csr_priv = 1 \<and> \<not> supports_extension (CHR ''S'') p
                                \<or> csr_priv = 2 \<and> \<not> supports_extension (CHR ''H'') p);
            state_prv = (if prv p = PRV_S \<and> \<not> virt p then 2 else unat (prv p));
            csr_read_only = (which div 0x400 mod 4 = 3)
        in if mode_unsupported then Inl (illegal insn p)
           else if write \<and> csr_read_only \<or> state_prv < csr_priv then
             (if csr_priv = 2 then Inl (virtual_insn insn p) else Inl (illegal insn p))
           else Inr p)"

text \<open>
  Validate, read, maybe write, write the old value to the destination register, and continue
  after serialization with the next instruction.
\<close>

definition csr_access :: "bool \<Rightarrow> (reg_t \<Rightarrow> processor_t \<Rightarrow> reg_t) \<Rightarrow> insn_bits \<Rightarrow> reg_t \<Rightarrow> processor_t \<Rightarrow> exec" where
  "csr_access write new insn at_pc p =
     (let which = insn_csr insn; npc = next_pc at_pc insn p; xl = xlen p
      in case validate_csr which write insn p of
           Inl r \<Rightarrow> r
         | Inr p \<Rightarrow>
             (case get_csr which insn p of
                Inl e \<Rightarrow> Raise e p
              | Inr old \<Rightarrow>
                  run (if write then set_csr which (new old p) p else Inr p) p
                    (\<lambda>p. Done PC_SERIALIZE_AFTER
                           (set_pc_serialize npc (write_reg (insn_rd insn) (sext_xlen xl old) p)))))"

definition RS1 :: "insn_bits \<Rightarrow> processor_t \<Rightarrow> reg_t" where
  "RS1 insn p = XPR p ! insn_rs1 insn"

definition RS2 :: "insn_bits \<Rightarrow> processor_t \<Rightarrow> reg_t" where
  "RS2 insn p = XPR p ! insn_rs2 insn"

definition csrrw :: "insn_bits \<Rightarrow> reg_t \<Rightarrow> processor_t \<Rightarrow> exec" where
  "csrrw insn = csr_access True (\<lambda>old p. RS1 insn p) insn"

definition csrrs :: "insn_bits \<Rightarrow> reg_t \<Rightarrow> processor_t \<Rightarrow> exec" where
  "csrrs insn = csr_access (insn_rs1 insn \<noteq> 0) (\<lambda>old p. old OR RS1 insn p) insn"

definition csrrc :: "insn_bits \<Rightarrow> reg_t \<Rightarrow> processor_t \<Rightarrow> exec" where
  "csrrc insn = csr_access (insn_rs1 insn \<noteq> 0) (\<lambda>old p. old AND NOT (RS1 insn p)) insn"

definition csrrwi :: "insn_bits \<Rightarrow> reg_t \<Rightarrow> processor_t \<Rightarrow> exec" where
  "csrrwi insn = csr_access True (\<lambda>old p. of_nat (insn_rs1 insn)) insn"

definition csrrsi :: "insn_bits \<Rightarrow> reg_t \<Rightarrow> processor_t \<Rightarrow> exec" where
  "csrrsi insn = csr_access (insn_rs1 insn \<noteq> 0) (\<lambda>old p. old OR of_nat (insn_rs1 insn)) insn"

definition csrrci :: "insn_bits \<Rightarrow> reg_t \<Rightarrow> processor_t \<Rightarrow> exec" where
  "csrrci insn = csr_access (insn_rs1 insn \<noteq> 0) (\<lambda>old p. old AND NOT (of_nat (insn_rs1 insn))) insn"

section \<open>Returns from traps, calls and fences\<close>

definition mret :: "insn_bits \<Rightarrow> reg_t \<Rightarrow> processor_t \<Rightarrow> exec" where
  "mret insn at_pc p =
     (if prv p < PRV_M then illegal insn p
      else
        let p = set_pc_serialize (mepc p) p;
            s = mstatus p;
            prev_prv = get_field s MSTATUS_MPP;
            prev_virt = get_field s MSTATUS_MPV;
            s = set_field s MSTATUS_MIE (get_field s MSTATUS_MPIE);
            s = set_field s MSTATUS_MPIE 1;
            s = set_field s MSTATUS_MPP PRV_U
        in run (set_csr 0x300 s p) p
             (\<lambda>p. run (set_privilege prev_prv p) p
                (\<lambda>p. Done PC_SERIALIZE_AFTER (set_virt (prev_virt \<noteq> 0) p))))"

definition sret :: "insn_bits \<Rightarrow> reg_t \<Rightarrow> processor_t \<Rightarrow> exec" where
  "sret insn at_pc p =
     (if \<not> supports_extension (CHR ''S'') p then illegal insn p
      else if prv p < (if get_field (mstatus p) MSTATUS_TSR \<noteq> 0 then PRV_M else PRV_S) then illegal insn p
      else if virt p \<and> get_field (hstatus p) HSTATUS_VTSR \<noteq> 0 then virtual_insn insn p
      else
        let p = set_pc_serialize (if virt p then vsepc p else sepc p) p;
            s = mstatus p;
            prev_prv = get_field s MSTATUS_SPP;
            s = set_field s MSTATUS_SIE (get_field s MSTATUS_SPIE);
            s = set_field s MSTATUS_SPIE 1;
            s = set_field s MSTATUS_SPP PRV_U
        in run (set_csr 0x300 s p) p
             (\<lambda>p. run (set_privilege prev_prv p) p
                (\<lambda>p. Done PC_SERIALIZE_AFTER
                       (if \<not> virt p then set_virt (get_field (hstatus p) HSTATUS_SPV \<noteq> 0) p else p))))"

definition dret :: "insn_bits \<Rightarrow> reg_t \<Rightarrow> processor_t \<Rightarrow> exec" where
  "dret insn at_pc p =
     (if \<not> debug_mode p then illegal insn p
      else
        let p = set_pc_serialize (dpc p) p
        in run (set_privilege (to_u64 (dcsr_prv (dcsr p))) p) p
             (\<lambda>p. let p = p\<lparr>debug_mode := False\<rparr>
                  in Done PC_SERIALIZE_AFTER (if dcsr_step (dcsr p) then p\<lparr>single_step := STEP_STEPPING\<rparr> else p)))"

definition ecall :: "insn_bits \<Rightarrow> reg_t \<Rightarrow> processor_t \<Rightarrow> exec" where
  "ecall insn at_pc p =
     (if prv p = PRV_U then Raise (Trap (plain_trap CAUSE_USER_ECALL)) p
      else if prv p = PRV_S then
        (if virt p then Raise (Trap (plain_trap CAUSE_VIRTUAL_SUPERVISOR_ECALL)) p
         else Raise (Trap (plain_trap CAUSE_SUPERVISOR_ECALL)) p)
      else if prv p = PRV_M then Raise (Trap (plain_trap CAUSE_MACHINE_ECALL)) p
      else Raise Abort p)"

definition ebreak :: "insn_bits \<Rightarrow> reg_t \<Rightarrow> processor_t \<Rightarrow> exec" where
  "ebreak insn at_pc p = Raise (Trap (insn_trap CAUSE_BREAKPOINT 0)) p"

definition c_ebreak :: "insn_bits \<Rightarrow> reg_t \<Rightarrow> processor_t \<Rightarrow> exec" where
  "c_ebreak insn at_pc p =
     (if \<not> supports_extension (CHR ''C'') p then illegal insn p else Raise (Trap (insn_trap CAUSE_BREAKPOINT 0)) p)"

definition wfi :: "insn_bits \<Rightarrow> reg_t \<Rightarrow> processor_t \<Rightarrow> exec" where
  "wfi insn at_pc p =
     (if prv p < (if get_field (mstatus p) MSTATUS_TW \<noteq> 0 then PRV_M else PRV_S) then illegal insn p
      else if virt p \<and> get_field (hstatus p) HSTATUS_VTW \<noteq> 0 then virtual_insn insn p
      else Raise Wait_for_interrupt (set_pc_serialize (next_pc at_pc insn p) p))"

definition sfence_vma :: "insn_bits \<Rightarrow> reg_t \<Rightarrow> processor_t \<Rightarrow> exec" where
  "sfence_vma insn at_pc p =
     (if \<not> supports_extension (CHR ''S'') p then illegal insn p
      else if prv p < (if get_field (mstatus p) MSTATUS_TVM \<noteq> 0 then PRV_M else PRV_S) then illegal insn p
      else Done (next_pc at_pc insn p) (p_flush_tlb p))"

definition hfence :: "insn_bits \<Rightarrow> reg_t \<Rightarrow> processor_t \<Rightarrow> exec" where
  "hfence insn at_pc p =
     (if \<not> supports_extension (CHR ''H'') p then illegal insn p
      else if prv p < PRV_S then illegal insn p
      else if virt p then virtual_insn insn p
      else Done (next_pc at_pc insn p) (p_flush_tlb p))"

definition hfence_vvma :: "insn_bits \<Rightarrow> reg_t \<Rightarrow> processor_t \<Rightarrow> exec" where
  "hfence_vvma = hfence"

definition hfence_gvma :: "insn_bits \<Rightarrow> reg_t \<Rightarrow> processor_t \<Rightarrow> exec" where
  "hfence_gvma = hfence"

definition fence :: "insn_bits \<Rightarrow> reg_t \<Rightarrow> processor_t \<Rightarrow> exec" where
  "fence insn at_pc p = Done (next_pc at_pc insn p) p"

definition fence_i :: "insn_bits \<Rightarrow> reg_t \<Rightarrow> processor_t \<Rightarrow> exec" where
  "fence_i insn at_pc p = Done (next_pc at_pc insn p) (p\<lparr>mmu := flush_icache (mmu p)\<rparr>)"

end
