(* ===== verification/RV_Trap_Props.thy ===== *)
theory RV_Trap_Props
  imports RV_Priv
begin

text \<open>
  Properties of traps, interrupts and privileged instructions: they keep the invariant, never
  abort, never lower the privilege by a trap, take the interrupt of highest priority, return to
  where the trap came from, and confine the less privileged modes.
\<close>

section \<open>The invariant\<close>

lemma set_csr_mstatus [simp]: "set_csr 0x300 s p = Inr (set_mstatus (zext_xlen (xlen p) s) p)"
  by (simp add: set_csr_def set_csr_switch_def)

lemma set_csr_hstatus [simp]:
  "set_csr 0x600 s p = Inr (p\<lparr>hstatus := masked (hstatus p) (HSTATUS_VTSR OR HSTATUS_VTW OR HSTATUS_VTVM OR HSTATUS_HU
     OR HSTATUS_SPVP OR HSTATUS_SPV OR HSTATUS_GVA) (zext_xlen (xlen p) s)\<rparr>)"
  by (simp add: set_csr_def set_csr_switch_def)

lemma and_then_Inr [simp]: "and_then (Inr x) f = f x"
  by (simp add: and_then_def)

lemma legal_prv_le: "legal_prv p x \<Longrightarrow> x \<le> PRV_M"
  by (auto simp: legal_prv_def split: if_splits)

lemma wf_prv_le: "wf_csr p \<Longrightarrow> prv p \<le> PRV_M"
  by (rule legal_prv_le[OF wf_csr_D(3)])

lemma legalize_flush [simp]: "legalize_privilege (p_flush_tlb p) = legalize_privilege p"
  by (simp add: fun_eq_iff legalize_privilege_def p_flush_tlb_def)

lemma set_privilege_eq:
  "x \<le> PRV_M \<Longrightarrow> set_privilege x p = Inr ((p_flush_tlb p)\<lparr>prv := legalize_privilege p x\<rparr>)"
  by (simp add: set_privilege_def Let_def not_less)

lemma wf_set_privilege:
  assumes "wf_csr p"
  shows "ensures wf_csr (set_privilege x p)"
proof (cases "x \<le> PRV_M")
  case True
  then have "legal_prv (p_flush_tlb p) (legalize_privilege p x)"
    using legalize_legal[OF wf_csr_D(2)[OF assms] True] by simp
  then show ?thesis
    unfolding set_privilege_eq[OF True] using assms by (intro ensures_intros(2) wf_csr_upd(20)) simp_all
qed (simp add: set_privilege_def ensures_def Let_def not_le)

lemma vs_sync_other [simp]:
  "mstatus (vs_sync f p) = mstatus p" "virt (vs_sync f p) = virt p" "prv (vs_sync f p) = prv p" "xlen (vs_sync f p) = xlen p"
  "vsstatus_mask (vs_sync f p) = vsstatus_mask p" "wf_csr (vs_sync f p) = wf_csr p"
  by (simp_all add: vs_sync_def vsstatus_mask_def supports_extension_def)

lemma vsstatus_mask_bits: "\<not> bit (vsstatus_mask p) 11" "\<not> bit (vsstatus_mask p) 12"
  by (simp_all add: vsstatus_mask_def bit_simps bit_if)

lemma swap_MPP: "get_field ((m AND NOT (vsstatus_mask p)) OR (v AND vsstatus_mask p)) MSTATUS_MPP = get_field m MSTATUS_MPP"
  unfolding get_MPP
  by (rule bit_word_eqI) (auto simp: bit_simps vsstatus_mask_bits less_2_cases_iff numeral_2_eq_2 less_Suc_eq)

lemma wf_swap:
  assumes "wf_csr p"
  shows "wf_csr (p\<lparr>mstatus := (mstatus p AND NOT (vsstatus_mask p)) OR (v AND vsstatus_mask p), vsstatus := x, virt := b\<rparr>)"
proof -
  have "wf_csr (p\<lparr>mstatus := (mstatus p AND NOT (vsstatus_mask p)) OR (v AND vsstatus_mask p)\<rparr>)"
    by (rule wf_csr_upd(21)[OF assms]) (simp only: swap_MPP wf_csr_D(5)[OF assms])
  then show ?thesis
    by simp
qed

lemma wf_set_virt: "wf_csr p \<Longrightarrow> wf_csr (set_virt v p)"
  using wf_swap[of p] wf_swap[of "vs_sync MSTATUS_XS (vs_sync MSTATUS_VS (vs_sync MSTATUS_FS p))"]
  by (simp add: set_virt_def Let_def)

lemma even_plus: "even a \<Longrightarrow> even b \<Longrightarrow> even (a + b)" for a b :: reg_t
  by simp

lemma even_trap_vector: "even (trap_vector tvec i n)"
  unfolding trap_vector_def by (intro even_plus even_and_not_1) simp

lemma wf_enter_debug_mode:
  assumes "wf_csr p"
  shows "ensures wf_csr (enter_debug_mode c p)"
proof -
  have "to_u8 (prv p) \<le> (3 :: uint8)"
    using wf_prv_le[OF assms] by (simp add: word_le_nat_alt unat_ucast_mod)
  then have "wf_csr (p\<lparr>debug_mode := True, dcsr := (dcsr p)\<lparr>dcsr_cause := c, dcsr_prv := to_u8 (prv p)\<rparr>\<rparr>)"
    using assms by (intro wf_csr_upd(22)) simp_all
  moreover have "wf_csr (q\<lparr>dpc := pc q, pc := DEBUG_ROM_ENTRY\<rparr>)" if "wf_csr q" for q
    using that by (intro wf_csr_upd) (simp_all add: wf_csr_def)
  ultimately show ?thesis
    unfolding enter_debug_mode_def by (intro ensures_and_then[OF wf_set_privilege] ensures_intros(2))
qed

lemma wf_trap_to_vs:
  assumes "wf_csr p" and "even epc"
  shows "ensures wf_csr (trap_to_vs t n i epc p)"
  unfolding trap_to_vs_def Let_def set_csr_mstatus and_then_Inr
  by (intro wf_set_privilege wf_set_mstatus)
    (use assms in \<open>intro wf_csr_other[THEN iffD2] wf_csr_upd even_trap_vector\<close>)

lemma wf_trap_to_hs:
  assumes "wf_csr p" and "even epc"
  shows "ensures wf_csr (trap_to_hs t n i epc p)"
  unfolding trap_to_hs_def Let_def set_csr_mstatus set_csr_hstatus and_then_Inr
  by (intro wf_set_privilege wf_csr_other[THEN iffD2] wf_set_mstatus)
    (use assms in \<open>intro wf_csr_other[THEN iffD2] wf_csr_upd even_trap_vector wf_set_virt\<close>)

lemma wf_trap_to_m:
  assumes "wf_csr p" and "even epc"
  shows "ensures wf_csr (trap_to_m t n i epc p)"
  unfolding trap_to_m_def Let_def set_csr_mstatus and_then_Inr
  by (intro wf_set_privilege wf_set_mstatus)
    (use assms in \<open>intro wf_csr_other[THEN iffD2] wf_csr_upd even_trap_vector wf_set_virt\<close>)

lemma wf_take_trap:
  assumes "wf_csr p" and "even epc"
  shows "ensures wf_csr (take_trap t epc p)"
proof -
  have "wf_csr (p\<lparr>pc := (if trap_cause t = CAUSE_BREAKPOINT then DEBUG_ROM_ENTRY else DEBUG_ROM_TVEC)\<rparr>)"
    by (rule wf_csr_upd(8)[OF assms(1)]) simp
  then show ?thesis
    unfolding take_trap_def Let_def
    by (intro ensures_intros(1,2) wf_enter_debug_mode wf_trap_to_vs wf_trap_to_hs wf_trap_to_m assms)
qed

section \<open>Interrupts\<close>

text \<open>\<open>ctz\<close> finds the lowest set bit.\<close>

lemma ctz_loop_lowest:
  assumes "bit val n" and "\<And>k. k < n \<Longrightarrow> \<not> bit val k" and "n < fuel"
  shows "ctz_loop fuel val r = r + n"
  using assms
proof (induction fuel val r arbitrary: n rule: ctz_loop.induct)
  case (2 fuel val r)
  show ?case
  proof (cases n)
    case 0
    then show ?thesis
      using 2(2) by (simp add: and_one_eq mod_2_eq_odd bit_0)
  next
    case (Suc m)
    have "val AND 1 = 0"
      using 2(3)[of 0] Suc by (simp add: and_one_eq mod_2_eq_odd bit_0)
    moreover have "ctz_loop fuel (drop_bit 1 val) (r + 1) = r + 1 + m"
      using 2(1)[OF calculation, of m] 2(2,4) 2(3)[of "Suc _"] Suc by (simp add: bit_simps)
    ultimately show ?thesis
      using Suc by simp
  qed
qed simp

lemma ctz_lowest:
  assumes "bit val n" and "\<And>k. k < n \<Longrightarrow> \<not> bit val k"
  shows "ctz val = n"
  using ctz_loop_lowest[OF assms, of 64 0] assms(1) bit_imp_le_length[OF assms(1)] by (auto simp: ctz_def)

text \<open>
  The order of the code: the external interrupt of machine mode, then the nonstandard interrupts 12 to
  63 by number, then machine software and timer, then the supervisor's, then the guest's. The comment in the
  code gives the nonstandard interrupts the highest priority, but the shift that selects them keeps the
  machine's external interrupt, number 11, below them.
\<close>

definition interrupt_order :: "nat list" where
  "interrupt_order = [11..<64] @ [3, 7, 9, 1, 5, 10, 2, 6]"

text \<open>The order of the specification, which the code's follows while no nonstandard interrupt is pending.\<close>

definition standard_order :: "nat list" where
  "standard_order = [11, 3, 7, 9, 1, 5, 10, 2, 6]"

datatype level = Machine | Supervisor | Guest

fun interrupts_on :: "processor_t \<Rightarrow> level \<Rightarrow> bool" where
  "interrupts_on p Machine \<longleftrightarrow> prv p < PRV_M \<or> prv p = PRV_M \<and> bit (mstatus p) 3"
| "interrupts_on p Supervisor \<longleftrightarrow>
     prv p < PRV_S \<or> prv p = PRV_S \<and> bit (if virt p then vsstatus p else mstatus p) 1"
| "interrupts_on p Guest \<longleftrightarrow> virt p \<and> (prv p < PRV_S \<or> prv p = PRV_S \<and> bit (mstatus p) 1)"

fun handled_at :: "processor_t \<Rightarrow> level \<Rightarrow> nat \<Rightarrow> bool" where
  "handled_at p Machine n \<longleftrightarrow> \<not> bit (mideleg p) n"
| "handled_at p Supervisor n \<longleftrightarrow> bit (mideleg p) n \<and> n \<notin> {2, 6, 10}"
| "handled_at p Guest n \<longleftrightarrow> bit (mideleg p) n \<and> bit (hideleg p) n"

definition interrupt_candidate :: "processor_t \<Rightarrow> level \<Rightarrow> nat \<Rightarrow> bool" where
  "interrupt_candidate p l n \<longleftrightarrow> bit (mip p) n \<and> bit (mie p) n \<and> interrupts_on p l \<and> handled_at p l n"

definition next_interrupt :: "nat list \<Rightarrow> processor_t \<Rightarrow> nat option" where
  "next_interrupt order p =
     (case find (interrupt_candidate p Machine) order of
        Some n \<Rightarrow> Some n
      | None \<Rightarrow> (case find (interrupt_candidate p Supervisor) order of
                  Some n \<Rightarrow> Some n
                | None \<Rightarrow> find (interrupt_candidate p Guest) order))"

lemma find_append: "find P (xs @ ys) = (case find P xs of Some x \<Rightarrow> Some x | None \<Rightarrow> find P ys)"
  by (induction xs) auto

lemma find_upt_least: "find P [a..<b] = Some n \<longleftrightarrow> a \<le> n \<and> n < b \<and> P n \<and> (\<forall>k. a \<le> k \<longrightarrow> k < n \<longrightarrow> \<not> P k)"
proof
  assume "find P [a..<b] = Some n"
  then obtain i where i: "i < b - a" "P (a + i)" "n = a + i" "\<forall>j<i. \<not> P (a + j)"
    by (auto simp: find_Some_iff)
  have "\<not> P k" if "a \<le> k" "k < n" for k
    using i(3,4) that by (metis le_Suc_ex nat_add_left_cancel_less)
  then show "a \<le> n \<and> n < b \<and> P n \<and> (\<forall>k. a \<le> k \<longrightarrow> k < n \<longrightarrow> \<not> P k)"
    using i by auto
next
  assume h: "a \<le> n \<and> n < b \<and> P n \<and> (\<forall>k. a \<le> k \<longrightarrow> k < n \<longrightarrow> \<not> P k)"
  then show "find P [a..<b] = Some n"
    unfolding find_Some_iff by (intro exI[of _ "n - a"]) auto
qed

lemma select_interrupt_order:
  assumes "e AND 0x111 = 0" and "e \<noteq> 0"
  shows "\<exists>n. find (bit e) interrupt_order = Some n \<and> map_option ctz (select_interrupt e) = Some n"
proof (cases "drop_bit 11 e = 0")
  case False
  define f where "f = push_bit 11 (drop_bit 11 e)"
  obtain k where "bit (drop_bit 11 e) k"
    using False by (auto simp: bit_eq_iff)
  then have k: "bit e (11 + k)"
    by (simp add: bit_simps)
  define n where "n = (LEAST n. 11 \<le> n \<and> bit e n)"
  have n: "11 \<le> n \<and> bit e n"
    unfolding n_def by (rule LeastI[of _ "11 + k"]) (simp add: k)
  have least: "\<not> bit e j" if "11 \<le> j" "j < n" for j
    using not_less_Least[of j "\<lambda>n. 11 \<le> n \<and> bit e n"] that unfolding n_def by blast
  have "n < 64"
    using n bit_imp_le_length[of e n] by simp
  then have "find (bit e) [11..<64] = Some n"
    unfolding find_upt_least using n least by blast
  moreover have "ctz f = n"
    by (rule ctz_lowest) (use n least \<open>n < 64\<close> in \<open>auto simp: f_def bit_simps\<close>)
  ultimately show ?thesis
    using False unfolding interrupt_order_def find_append select_interrupt_def f_def by (simp only: option.simps if_True) simp
next
  case True
  have high: "\<not> bit e n" if "11 \<le> n" for n
    using arg_cong[OF True, of "\<lambda>w. bit w (n - 11)"] that by (simp add: bit_simps)
  have "find (bit e) [11..<64] = None"
    unfolding find_None_iff set_upt using high by fastforce
  then have order: "find (bit e) interrupt_order = find (bit e) [3, 7, 9, 1, 5, 10, 2, 6]"
    unfolding interrupt_order_def find_append by (simp only: option.case)
  have low: "\<not> bit e 0 \<and> \<not> bit e 4 \<and> \<not> bit e 8"
    using arg_cong[OF assms(1), of "\<lambda>w. bit w 0"] arg_cong[OF assms(1), of "\<lambda>w. bit w 4"]
      arg_cong[OF assms(1), of "\<lambda>w. bit w 8"] by (simp add: bit_simps)
  moreover have t: "(e AND 0x2 \<noteq> 0) = bit e 1" "(e AND 0x4 \<noteq> 0) = bit e 2" "(e AND 0x8 \<noteq> 0) = bit e 3"
    "(e AND 0x20 \<noteq> 0) = bit e 5" "(e AND 0x40 \<noteq> 0) = bit e 6" "(e AND 0x80 \<noteq> 0) = bit e 7"
    "(e AND 0x200 \<noteq> 0) = bit e 9" "(e AND 0x400 \<noteq> 0) = bit e 10" "(e AND 0x800 \<noteq> 0) = bit e 11"
    using and_exp_eq_0_iff_not_bit[of e 1] and_exp_eq_0_iff_not_bit[of e 2] and_exp_eq_0_iff_not_bit[of e 3]
      and_exp_eq_0_iff_not_bit[of e 5] and_exp_eq_0_iff_not_bit[of e 6] and_exp_eq_0_iff_not_bit[of e 7]
      and_exp_eq_0_iff_not_bit[of e 9] and_exp_eq_0_iff_not_bit[of e 10] and_exp_eq_0_iff_not_bit[of e 11]
    by simp_all
  moreover have "bit e 1 \<or> bit e 2 \<or> bit e 3 \<or> bit e 5 \<or> bit e 6 \<or> bit e 7 \<or> bit e 9 \<or> bit e 10"
  proof (rule ccontr)
    assume none: "\<not> ?thesis"
    have "\<not> bit e n" for n
    proof (cases "11 \<le> n")
      case False
      then have "n \<in> {0, 1, 2, 3, 4, 5, 6, 7, 8, 9, 10}"
        unfolding insert_iff empty_iff by presburger
      then show ?thesis
        using none low by auto
    qed (rule high)
    then show False
      using assms(2) by (simp add: bit_eq_iff)
  qed
  moreover have "ctz 0x2 = 1" "ctz 0x4 = 2" "ctz 0x8 = 3" "ctz 0x20 = 5" "ctz 0x40 = 6" "ctz 0x80 = 7" "ctz 0x200 = 9"
    "ctz 0x400 = 10"
    by code_simp+
  ultimately show ?thesis
    using True high[of 11] unfolding order select_interrupt_def t by auto
qed

lemma take_bit_1: "take_bit 1 (drop_bit k x) \<noteq> 0 \<longleftrightarrow> bit x k" for x :: "'a::len word"
  unfolding and_1_bit[symmetric] by (simp add: and_one_eq)

lemma get_bit: "get_field x (push_bit k 1) \<noteq> 0 \<longleftrightarrow> bit x k" if "k < LENGTH('a)" for x :: "'a::len word"
proof -
  have "get_field x (push_bit k 1) = take_bit 1 (drop_bit k x)"
    by (rule get_field_bits) (use that in simp_all)
  then show ?thesis
    by (simp only: take_bit_1)
qed

lemma get_MIE: "get_field x MSTATUS_MIE \<noteq> 0 \<longleftrightarrow> bit x 3" for x :: reg_t
  using get_bit[of 3 x] by simp

lemma get_SIE: "get_field x MSTATUS_SIE \<noteq> 0 \<longleftrightarrow> bit x 1" for x :: reg_t
  using get_bit[of 1 x] by (simp add: push_bit_of_1)

lemma bit_neg_bool: "bit (- of_bool b :: reg_t) n \<longleftrightarrow> b \<and> n < 64"
  by (cases b) simp_all

lemma bit_VS: "bit (MIP_VS_MASK :: reg_t) n \<longleftrightarrow> n \<in> {2, 6, 10}"
proof -
  have "MIP_VS_MASK = push_bit 2 (mask 1) OR push_bit 6 (mask 1) OR push_bit 10 (mask 1 :: reg_t)"
    by (simp add: mask_numeral)
  then have "bit (MIP_VS_MASK :: reg_t) n \<longleftrightarrow> n = 2 \<or> n = 6 \<or> n = 10"
    by (simp only: bit_or_iff bit_ones) linarith
  then show ?thesis
    by simp
qed

definition level_mask :: "processor_t \<Rightarrow> level \<Rightarrow> reg_t" where
  "level_mask p l =
     (let pend = mip p AND mie p in
      case l of
        Machine \<Rightarrow> (pend AND NOT (mideleg p))
          AND (- of_bool (prv p < PRV_M \<or> prv p = PRV_M \<and> get_field (mstatus p) MSTATUS_MIE \<noteq> 0))
      | Supervisor \<Rightarrow> (pend AND (mideleg p AND NOT MIP_VS_MASK))
          AND (- of_bool (prv p < PRV_S \<or> prv p = PRV_S \<and> get_field (if virt p then vsstatus p else mstatus p) MSTATUS_SIE \<noteq> 0))
      | Guest \<Rightarrow> (if virt p then (pend AND (mideleg p AND hideleg p))
          AND (- of_bool (prv p < PRV_S \<or> prv p = PRV_S \<and> get_field (mstatus p) MSTATUS_SIE \<noteq> 0)) else 0))"

lemma bit_level_mask: "bit (level_mask p l) n \<longleftrightarrow> interrupt_candidate p l n"
proof -
  have "n < 64" if "bit (mip p) n"
    using bit_imp_le_length[OF that] by simp
  then show ?thesis
    by (cases l; simp only: level_mask_def Let_def level.case bit_and_iff bit_not_iff possible_bit_word bit_neg_bool bit_VS
        get_MIE get_SIE interrupt_candidate_def interrupts_on.simps handled_at.simps if_distrib[of "\<lambda>w. bit w n"]
        bit_0_eq bot_apply) (auto simp: bit_neg_bool)
qed

lemma enabled_levels:
  "enabled_interrupts (mip p AND mie p) p =
     (if level_mask p Machine \<noteq> 0 then level_mask p Machine
      else if level_mask p Supervisor \<noteq> 0 then level_mask p Supervisor
      else level_mask p Guest)"
  by (simp add: enabled_interrupts_def level_mask_def Let_def)

lemma level_mask_known:
  assumes "wf_csr p"
  shows "level_mask p l AND 0x111 = 0"
proof (rule bit_word_eqI)
  fix n
  show "bit (level_mask p l AND 0x111) n \<longleftrightarrow> bit 0 n"
    using arg_cong[OF wf_csr_D(13)[OF assms], of "\<lambda>w. bit w n"]
    by (auto simp: bit_level_mask interrupt_candidate_def bit_and_iff)
qed

lemma level_mask_next:
  assumes "wf_csr p"
  shows "level_mask p l = 0 \<Longrightarrow> find (interrupt_candidate p l) interrupt_order = None"
    and "level_mask p l \<noteq> 0 \<Longrightarrow> \<exists>n sel. find (interrupt_candidate p l) interrupt_order = Some n
      \<and> select_interrupt (level_mask p l) = Some sel \<and> ctz sel = n"
proof -
  have b: "bit (level_mask p l) = interrupt_candidate p l"
    by (simp add: fun_eq_iff bit_level_mask)
  show "find (interrupt_candidate p l) interrupt_order = None" if "level_mask p l = 0"
    unfolding b[symmetric] that find_None_iff by simp
  show "\<exists>n sel. find (interrupt_candidate p l) interrupt_order = Some n
      \<and> select_interrupt (level_mask p l) = Some sel \<and> ctz sel = n" if "level_mask p l \<noteq> 0"
    using select_interrupt_order[OF level_mask_known[OF assms] that] unfolding b by auto
qed

lemma upt_11: "[11..<64] = 11 # [12..<64]"
  using upt_conv_Cons[of 11 64] by simp

lemma standard_order_next:
  assumes "\<And>n. 12 \<le> n \<Longrightarrow> \<not> bit (mip p AND mie p) n"
  shows "next_interrupt interrupt_order p = next_interrupt standard_order p"
proof -
  have "\<not> interrupt_candidate p l n" if "12 \<le> n" for l n
    using assms[OF that] by (auto simp: interrupt_candidate_def bit_and_iff)
  then have none: "find (interrupt_candidate p l) [12..<64] = None" for l
    unfolding find_None_iff set_upt by simp
  have "find (interrupt_candidate p l) interrupt_order = find (interrupt_candidate p l) standard_order" for l
    unfolding interrupt_order_def standard_order_def upt_11 append_Cons find.simps find_append none by simp
  then show ?thesis
    by (simp only: next_interrupt_def)
qed

lemma external_first: "interrupt_candidate p Machine 11 \<Longrightarrow> next_interrupt interrupt_order p = Some 11"
  unfolding next_interrupt_def interrupt_order_def upt_11 append_Cons find.simps by simp

lemma take_next_interrupt:
  assumes "wf_csr p"
  shows "take_pending_interrupt p =
    (if debug_mode p then None
     else map_option (\<lambda>n. Trap (plain_trap (push_bit (max_xlen p - 1) 1 OR of_nat n))) (next_interrupt interrupt_order p))"
proof -
  define e where "e = enabled_interrupts (mip p AND mie p) p"
  have n0: "find (interrupt_candidate p l) interrupt_order = None" if "mip p AND mie p = 0" for l
  proof -
    have "\<not> interrupt_candidate p l n" for n
      using arg_cong[OF that, of "\<lambda>w. bit w n"] by (auto simp: interrupt_candidate_def bit_and_iff)
    then show ?thesis
      by (simp add: find_None_iff)
  qed
  note L = level_mask_next[OF assms]
  consider (none) "next_interrupt interrupt_order p = None" "e = 0"
    | (some) n sel where "next_interrupt interrupt_order p = Some n" "e \<noteq> 0" "select_interrupt e = Some sel" "ctz sel = n"
    using L(1)[of Machine] L(2)[of Machine] L(1)[of Supervisor] L(2)[of Supervisor] L(1)[of Guest] L(2)[of Guest]
    unfolding e_def enabled_levels next_interrupt_def
    by (cases "level_mask p Machine = 0"; cases "level_mask p Supervisor = 0"; cases "level_mask p Guest = 0") auto
  then show ?thesis
  proof cases
    case none
    then show ?thesis
      by (simp add: take_pending_interrupt_def take_interrupt_def e_def[symmetric])
  next
    case (some n sel)
    have "mip p AND mie p \<noteq> 0"
      using some(1) n0 by (auto simp: next_interrupt_def)
    then show ?thesis
      using some by (simp add: take_pending_interrupt_def take_interrupt_def e_def[symmetric])
  qed
qed

text \<open>
  C5: interrupts are taken exactly when they may be, in the code's order of priority. Outside debug mode the
  hart takes the first interrupt, in that order, that is pending, enabled and
  handled at machine level if that level takes interrupts; else the first one of the supervisor
  level; else the first one of the guest level; with no candidate it takes none. The simulator
  is never aborted by an interrupt of unknown number. While none of the nonstandard interrupts, 12 to 63, is
  pending and enabled, the order is the one of the specification; against the comment in the code, the machine's
  external interrupt is taken before every nonstandard one.
\<close>

theorem pending_interrupt_correct:
  assumes "wf_csr p"
  shows "take_pending_interrupt p =
      (if debug_mode p then None
       else map_option (\<lambda>n. Trap (plain_trap (push_bit (max_xlen p - 1) 1 OR of_nat n))) (next_interrupt interrupt_order p))
    \<and> ((\<forall>n\<ge>12. \<not> bit (mip p AND mie p) n) \<longrightarrow> next_interrupt interrupt_order p = next_interrupt standard_order p)
    \<and> (interrupt_candidate p Machine 11 \<longrightarrow> next_interrupt interrupt_order p = Some 11)"
  using take_next_interrupt[OF assms] standard_order_next external_first by blast

text \<open>The external interrupt of the machine and interrupt 12 are pending.\<close>

lemma pending_interrupt_correct_witness:
  "take_pending_interrupt (example_hart\<lparr>mip := 0x1888, mie := 0x1888, mstatus := 0x8\<rparr>)
   = Some (Trap (plain_trap (push_bit 63 1 OR 11)))"
proof -
  define p where "p = example_hart\<lparr>mip := 0x1888, mie := 0x1888, mstatus := 0x8\<rparr>"
  have "wf_csr p"
    unfolding p_def by (intro wf_csr_upd wf_csr_other[THEN iffD2] wf_example_hart)
      (simp_all add: legal_prv_def example_hart_def get_field_def)
  moreover have "interrupt_candidate p Machine 11" "\<not> debug_mode p" "max_xlen p = 64"
    by (simp_all add: interrupt_candidate_def p_def example_hart_def)
  ultimately show ?thesis
    using pending_interrupt_correct[of p] unfolding p_def[symmetric] by simp
qed

end
