(* ===== verification/RV_Priv_Props.thy ===== *)
theory RV_Priv_Props
  imports RV_Trap_Props
begin

text \<open>
  Properties of traps and of the privileged instructions: a trap never aborts and never lowers
  the privilege, only a trap raises it, \<open>mret\<close> returns to where a trap came from, and the CSR
  instructions of the less privileged modes cannot change machine-level state.
\<close>

section \<open>Traps\<close>

text \<open>The operation returns a processor with a property.\<close>

definition returns :: "(processor_t \<Rightarrow> bool) \<Rightarrow> thrown + processor_t \<Rightarrow> bool" where
  "returns Q r \<longleftrightarrow> (\<exists>q. r = Inr q \<and> Q q)"

lemma returns_if: "(c \<Longrightarrow> returns Q a) \<Longrightarrow> (\<not> c \<Longrightarrow> returns Q b) \<Longrightarrow> returns Q (if c then a else b)"
  by simp

lemma returns_Inr: "Q q \<Longrightarrow> returns Q (Inr q)"
  by (simp add: returns_def)

lemma returns_mono: "returns R r \<Longrightarrow> (\<And>q. R q \<Longrightarrow> Q q) \<Longrightarrow> returns Q r"
  by (auto simp: returns_def)

lemma legalize_M [simp]: "legalize_privilege p 3 = 3"
  by (simp add: legalize_privilege_def)

lemma legalize_S: "bit (misa p) 20 \<longrightarrow> bit (misa p) 18 \<Longrightarrow> 1 \<le> legalize_privilege p 1"
  by (auto simp: legalize_privilege_def)

lemma misa_vs_sync [simp]: "misa (vs_sync f p) = misa p"
  by (simp add: vs_sync_def)

lemma misa_set_virt [simp]: "misa (set_virt v p) = misa p"
  by (simp add: set_virt_def Let_def)

lemma trap_to_prv:
  "returns (\<lambda>q. prv q = legalize_privilege p 1) (trap_to_vs t n i epc p)"
  "returns (\<lambda>q. prv q = legalize_privilege p 1) (trap_to_hs t n i epc p)"
  "returns (\<lambda>q. prv q = 3) (trap_to_m t n i epc p)"
  by (simp_all add: returns_def trap_to_vs_def trap_to_hs_def trap_to_m_def Let_def set_privilege_eq legalize_privilege_def)

lemma enter_debug_mode_prv: "returns (\<lambda>q. prv q = 3) (enter_debug_mode c p)"
  by (simp add: returns_def enter_debug_mode_def set_privilege_eq)

text \<open>
  C15: a trap always succeeds and never lowers the privilege. On a hart whose user mode comes with a
  supervisor mode, whatever the trap and wherever the delegation registers send it, the simulator does not abort, the invariant is kept, and the
  mode it is handled in is at least as privileged as the mode it came from.
\<close>

theorem traps_never_lower_privilege:
  assumes "wf_csr p" and "even epc" and "bit (misa p) 20 \<longrightarrow> bit (misa p) 18"
  shows "\<exists>q. take_trap t epc p = Inr q \<and> wf_csr q \<and> prv p \<le> prv q"
proof -
  have le3: "prv p \<le> 3"
    by (rule wf_prv_le[OF assms(1)])
  have "returns (\<lambda>q. prv p \<le> prv q) (take_trap t epc p)"
    unfolding take_trap_def Let_def
  proof (intro returns_if)
    show "returns (\<lambda>q. prv p \<le> prv q) (Inr (p\<lparr>pc := x\<rparr>))" for x
      by (simp add: returns_def)
    show "returns (\<lambda>q. prv p \<le> prv q) (enter_debug_mode 1 p)"
      by (rule returns_mono[OF enter_debug_mode_prv]) (simp add: le3)
    show "returns (\<lambda>q. prv p \<le> prv q) (trap_to_m t n i epc p)" for n i
      by (rule returns_mono[OF trap_to_prv(3)]) (simp add: le3)
    show "returns (\<lambda>q. prv p \<le> prv q) (trap_to_vs t n i epc p)" if "prv p \<le> 1 \<and> c" for n i c
      by (rule returns_mono[OF trap_to_prv(1)]) (use that legalize_S[OF assms(3)] in auto)
    show "returns (\<lambda>q. prv p \<le> prv q) (trap_to_hs t n i epc p)" if "prv p \<le> 1 \<and> c" for n i c
      by (rule returns_mono[OF trap_to_prv(2)]) (use that legalize_S[OF assms(3)] in auto)
  qed
  then show ?thesis
    using ensuresD[OF wf_take_trap[OF assms(1,2)]] unfolding returns_def by blast
qed

lemma traps_never_lower_privilege_witness:
  "\<exists>q. take_trap (plain_trap CAUSE_USER_ECALL) 0x1000 (example_hart\<lparr>prv := 0, medeleg := 0x100\<rparr>) = Inr q \<and> wf_csr q
     \<and> prv (example_hart\<lparr>prv := 0, medeleg := 0x100\<rparr>) \<le> prv q"
proof -
  have "wf_csr (example_hart\<lparr>prv := 0, medeleg := 0x100\<rparr>)"
    by (intro wf_csr_upd wf_example_hart) (simp_all add: medeleg_mask_def legal_prv_def example_hart_def)
  then show ?thesis
    by (rule traps_never_lower_privilege) (simp_all add: example_hart_def)
qed

section \<open>Instructions\<close>

fun left :: "exec \<Rightarrow> processor_t" where
  "left (Done npc p) = p"
| "left (Raise e p) = p"

definition leaves :: "(processor_t \<Rightarrow> bool) \<Rightarrow> exec \<Rightarrow> bool" where
  "leaves Q r \<longleftrightarrow> Q (left r)"

lemma leaves_intros:
  "(c \<Longrightarrow> leaves Q a) \<Longrightarrow> (\<not> c \<Longrightarrow> leaves Q b) \<Longrightarrow> leaves Q (if c then a else b)"
  "Q p \<Longrightarrow> leaves Q (Done npc p)" "Q p \<Longrightarrow> leaves Q (Raise e p)"
  "Q p \<Longrightarrow> leaves Q (illegal insn p)" "Q p \<Longrightarrow> leaves Q (virtual_insn insn p)"
  by (simp_all add: leaves_def illegal_def virtual_insn_def)

lemma leaves_run:
  assumes "ensures R r" and "Q p" and "\<And>q. R q \<Longrightarrow> leaves Q (k q)"
  shows "leaves Q (run r p k)"
  using assms by (auto simp: run_def leaves_def ensures_def split: sum.splits)

lemma wf_set_pc_serialize: "wf_csr p \<Longrightarrow> even x \<Longrightarrow> wf_csr (set_pc_serialize x p)"
  unfolding set_pc_serialize_def by (rule wf_csr_upd(8)) (auto simp: even_bit0 bit_simps)

lemma wf_write_reg: "wf_csr p \<Longrightarrow> wf_csr (write_reg r v p)"
  by (auto simp: write_reg_def wf_csr_def wf_pmp_def wf_misa_def legal_prv_def nth_list_update)

lemma even_next_pc:
  assumes "even a" and "xlen p = 32 \<or> xlen p = 64"
  shows "even (next_pc a insn p)"
proof -
  have "even (a + of_nat (insn_length insn))"
    using assms(1) by (simp add: insn_length_def)
  then show ?thesis
    using assms(2) unfolding next_pc_def sext_xlen_def even_bit0 by (auto simp: bit_simps)
qed

lemma validate_csr_cases:
  assumes "Q p" and "Q (p\<lparr>serialized := False\<rparr>)"
  shows "case validate_csr which wr insn p of Inl r \<Rightarrow> leaves Q r | Inr q \<Rightarrow> q = p\<lparr>serialized := False\<rparr>"
  using assms by (auto simp: validate_csr_def Let_def leaves_def illegal_def virtual_insn_def)

lemma leaves_csr_access:
  assumes "Q p" and "Q (p\<lparr>serialized := False\<rparr>)"
    and "validate_csr (insn_csr insn) wr insn p = Inr (p\<lparr>serialized := False\<rparr>) \<Longrightarrow>
      (\<And>v. ensures Q (set_csr (insn_csr insn) v (p\<lparr>serialized := False\<rparr>)))"
    and "\<And>q v. Q q \<Longrightarrow> Q (set_pc_serialize (next_pc a insn p) (write_reg (insn_rd insn) v q))"
  shows "leaves Q (csr_access wr new insn a p)"
proof (cases "validate_csr (insn_csr insn) wr insn p")
  case (Inl r)
  then show ?thesis
    using validate_csr_cases[OF assms(1,2), of "insn_csr insn" wr insn] by (simp add: csr_access_def)
next
  case (Inr q)
  then have q: "q = p\<lparr>serialized := False\<rparr>"
    using validate_csr_cases[OF assms(1,2), of "insn_csr insn" wr insn] by simp
  have "ensures Q (if wr then set_csr (insn_csr insn) v q else Inr q)" for v
    using assms(2) assms(3)[OF Inr[unfolded q]] unfolding q by (intro ensures_intros) simp_all
  then show ?thesis
    unfolding csr_access_def Let_def Inr sum.case
    by (auto split: sum.splits intro!: leaves_run[where R = Q] leaves_intros(2,3) assms(4) simp: q assms(2))
qed

lemma wf_csr_access:
  assumes "wf_csr p" and "even a"
  shows "leaves wf_csr (csr_access wr new insn a p)"
proof (rule leaves_csr_access)
  have "xlen p = 32 \<or> xlen p = 64"
    using wf_csr_D(1,12)[OF assms(1)] by simp
  then show "wf_csr (set_pc_serialize (next_pc a insn p) (write_reg (insn_rd insn) v q))" if "wf_csr q" for q v
    by (intro wf_set_pc_serialize wf_write_reg that even_next_pc assms(2))
qed (use assms wf_set_csr[of "p\<lparr>serialized := False\<rparr>"] in simp_all)

lemmas csr_instructions = csrrw_def csrrs_def csrrc_def csrrwi_def csrrsi_def csrrci_def

definition priv_instructions :: "(insn_bits \<Rightarrow> reg_t \<Rightarrow> processor_t \<Rightarrow> exec) list" where
  "priv_instructions = [csrrw, csrrs, csrrc, csrrwi, csrrsi, csrrci, mret, sret, dret, ecall, ebreak, c_ebreak, wfi,
     sfence_vma, hfence_vvma, hfence_gvma, fence, fence_i]"

lemma ensures_Inr: "wf_csr q \<Longrightarrow> ensures wf_csr (Inr q)"
  by (simp add: ensures_def)

lemma wf_csr_even:
  assumes "wf_csr p"
  shows "even (mepc p)" "even (sepc p)" "even (vsepc p)" "even (dpc p)"
  using assms by (simp_all add: wf_csr_def)

lemma wf_mret: "wf_csr p \<Longrightarrow> leaves wf_csr (mret insn a p)"
  unfolding mret_def Let_def set_csr_mstatus
  by (intro leaves_intros(1,2,4) leaves_run[where R = wf_csr] ensures_Inr wf_set_mstatus wf_set_privilege wf_set_virt
      wf_set_pc_serialize wf_csr_even)

lemma wf_sret: "wf_csr p \<Longrightarrow> leaves wf_csr (sret insn a p)"
  unfolding sret_def Let_def set_csr_mstatus
  by (intro leaves_intros(1,2,4,5) leaves_run[where R = wf_csr] ensures_Inr wf_set_mstatus wf_set_privilege wf_set_virt
      wf_set_pc_serialize wf_csr_if) (simp_all add: wf_csr_even)

lemma wf_dret: "wf_csr p \<Longrightarrow> leaves wf_csr (dret insn a p)"
  unfolding dret_def Let_def
  by (intro leaves_intros(1,2,4) leaves_run[where R = wf_csr] wf_set_privilege wf_set_pc_serialize wf_csr_even wf_csr_if)
    simp_all

lemma wf_fences:
  assumes "wf_csr p"
  shows "leaves wf_csr (sfence_vma insn a p)" "leaves wf_csr (hfence insn a p)" "leaves wf_csr (fence insn a p)"
    "leaves wf_csr (fence_i insn a p)" "leaves wf_csr (ecall insn a p)" "leaves wf_csr (ebreak insn a p)"
    "leaves wf_csr (c_ebreak insn a p)"
  unfolding sfence_vma_def hfence_def fence_def fence_i_def ecall_def ebreak_def c_ebreak_def
  by (intro leaves_intros; simp add: assms)+

lemma wf_wfi: "wf_csr p \<Longrightarrow> even a \<Longrightarrow> leaves wf_csr (wfi insn a p)"
  unfolding wfi_def using wf_csr_D(1,12)[of p]
  by (intro leaves_intros wf_set_pc_serialize even_next_pc) simp_all

lemma wf_priv_instructions:
  assumes "f \<in> set priv_instructions" and "wf_csr p" and "even a"
  shows "wf_csr (left (f insn a p))"
  using assms(1) wf_csr_access[OF assms(2,3)] wf_mret[OF assms(2)] wf_sret[OF assms(2)] wf_dret[OF assms(2)]
    wf_fences[OF assms(2)] wf_wfi[OF assms(2,3)]
  by (auto simp: priv_instructions_def leaves_def csr_instructions hfence_vvma_def hfence_gvma_def)

section \<open>Less privileged modes\<close>

lemma machine_view_serialized [simp]: "machine_view (p\<lparr>serialized := b\<rparr>) = machine_view p"
  by (simp add: machine_view_def)

lemma MPP_serialized [simp]: "legal_MPP (p\<lparr>serialized := b\<rparr>) = legal_MPP p"
  by (simp add: legal_MPP_def legalize_privilege_def)

lemma machine_view_continue [simp]:
  "machine_view (set_pc_serialize x (write_reg r v q)) = machine_view q" "MPP_of (set_pc_serialize x (write_reg r v q)) = MPP_of q"
  by (simp_all add: machine_view_def MPP_of_def set_pc_serialize_def write_reg_def)

lemma validated_level:
  assumes "validate_csr which wr insn p = Inr q" and "which < 0x1000" and "prv p < PRV_M" and "\<not> bit (misa p) 7"
  shows "user_or_supervisor_csr which"
proof -
  have "which div 0x100 mod 4 < 4"
    by simp
  moreover have "unat (prv p) < 3"
    using assms(3) by (simp add: word_less_nat_alt)
  ultimately show ?thesis
    using assms by (auto simp: validate_csr_def Let_def user_or_supervisor_csr_def split: if_splits)
qed

lemma insn_csr_less: "insn_csr insn < 0x1000"
  using insn_fields_less[of insn 20 12] by (simp add: insn_csr_def)

text \<open>What an access may leave of the machine-level state.\<close>

definition confined_to :: "nat \<Rightarrow> processor_t \<Rightarrow> processor_t \<Rightarrow> bool" where
  "confined_to which p q \<longleftrightarrow>
     machine_view q = machine_view p \<and> (MPP_of q = MPP_of p \<or> which = 0x100 \<and> MPP_of q = legal_MPP p)"

lemma csr_access_confined:
  assumes "wf_csr p" and "prv p < PRV_M" and "\<not> bit (misa p) 7"
  shows "confined_to (insn_csr insn) p (left (csr_access wr new insn a p))"
proof -
  have "leaves (confined_to (insn_csr insn) p) (csr_access wr new insn a p)"
  proof (rule leaves_csr_access)
    fix v
    assume val: "validate_csr (insn_csr insn) wr insn p = Inr (p\<lparr>serialized := False\<rparr>)"
    have q: "wf_csr (p\<lparr>serialized := False\<rparr>)"
      using assms(1) by simp
    show "ensures (confined_to (insn_csr insn) p) (set_csr (insn_csr insn) v (p\<lparr>serialized := False\<rparr>))"
      unfolding ensures_def confined_to_def
      using supervisor_csrs_write[OF q validated_level[OF val insn_csr_less assms(2,3)]] by (auto simp: written_MPP_def)
  qed (simp_all add: confined_to_def)
  then show ?thesis
    by (simp add: leaves_def)
qed

text \<open>
  The accesses that are refused: to a level that does not exist or is above the hart's (a
  supervisor counts as hypervisor level), and a write to a register with a read-only number.
\<close>

definition csr_denied :: "nat \<Rightarrow> bool \<Rightarrow> processor_t \<Rightarrow> bool" where
  "csr_denied which wr p \<longleftrightarrow>
     (let level = which div 0x100 mod 4
      in level = 1 \<and> \<not> bit (misa p) 18 \<or> level = 2 \<and> \<not> bit (misa p) 7
         \<or> (if prv p = PRV_S \<and> \<not> virt p then 2 else unat (prv p)) < level
         \<or> wr \<and> which div 0x400 mod 4 = 3)"

definition denial :: "nat \<Rightarrow> insn_bits \<Rightarrow> processor_t \<Rightarrow> thrown" where
  "denial which insn p =
     (if which div 0x100 mod 4 = 2 \<and> bit (misa p) 7 then trap_virtual_instruction (insn_bits insn)
      else trap_illegal_instruction (insn_bits insn))"

lemma csr_access_checked:
  "\<not> serialized p \<Longrightarrow> csr_access wr new insn a p = Done PC_SERIALIZE_BEFORE p"
  "serialized p \<Longrightarrow> csr_denied (insn_csr insn) wr p \<Longrightarrow>
     csr_access wr new insn a p = Raise (denial (insn_csr insn) insn p) (p\<lparr>serialized := False\<rparr>)"
  by (auto simp: csr_access_def validate_csr_def Let_def csr_denied_def denial_def illegal_def virtual_insn_def)

text \<open>Each CSR instruction with the condition under which it writes.\<close>

definition csr_instruction_list :: "((insn_bits \<Rightarrow> reg_t \<Rightarrow> processor_t \<Rightarrow> exec) \<times> (insn_bits \<Rightarrow> bool)) list" where
  "csr_instruction_list =
     [(csrrw, \<lambda>i. True), (csrrs, \<lambda>i. insn_rs1 i \<noteq> 0), (csrrc, \<lambda>i. insn_rs1 i \<noteq> 0),
      (csrrwi, \<lambda>i. True), (csrrsi, \<lambda>i. insn_rs1 i \<noteq> 0), (csrrci, \<lambda>i. insn_rs1 i \<noteq> 0)]"

lemma csr_instruction_access:
  assumes "(f, wr) \<in> set csr_instruction_list"
  shows "\<exists>new. f insn a p = csr_access (wr insn) new insn a p"
  using assms unfolding csr_instruction_list_def csr_instructions by auto

text \<open>
  C22: a CSR instruction cannot reach past its privilege. Whichever of the six it is: on a hart whose
  pipeline is not yet serialized it asks for that and changes nothing; an access to a register above the
  hart's privilege or of a level it does not have, or a write to a read-only register, traps as an
  illegal (or, for the hypervisor's registers, virtual) instruction and changes nothing but the
  serialization flag; and below machine mode, on a hart without the hypervisor extension, any other
  access, whether it succeeds or traps, leaves the machine-level registers and the privilege mode as
  they were, except that a write of \<open>sstatus\<close> puts \<open>MPP\<close> into its legal form.
\<close>

theorem csr_instructions_confined:
  assumes "wf_csr p" and "(f, wr) \<in> set csr_instruction_list"
  shows "(\<not> serialized p \<longrightarrow> f insn a p = Done PC_SERIALIZE_BEFORE p)
    \<and> (serialized p \<and> csr_denied (insn_csr insn) (wr insn) p \<longrightarrow>
        f insn a p = Raise (denial (insn_csr insn) insn p) (p\<lparr>serialized := False\<rparr>))
    \<and> (prv p < PRV_M \<and> \<not> bit (misa p) 7 \<longrightarrow> confined_to (insn_csr insn) p (left (f insn a p)))"
  using csr_instruction_access[OF assms(2), of insn a p] csr_access_checked csr_access_confined[OF assms(1)] by metis

lemma csr_instructions_confined_witness:
  "let p = example_hart\<lparr>prv := 0, serialized := True\<rparr>
   in csrrw 0x30051073 0 p = Raise (trap_illegal_instruction 0x30051073) (p\<lparr>serialized := False\<rparr>)
    \<and> confined_to 0x300 p (left (csrrw 0x30051073 0 p))"
proof -
  define p where "p = example_hart\<lparr>prv := 0, serialized := True\<rparr>"
  have "wf_csr (example_hart\<lparr>prv := 0\<rparr>)"
    by (rule wf_csr_upd(20)[OF wf_example_hart]) (simp add: legal_prv_def example_hart_def)
  then have w: "wf_csr p"
    by (simp add: p_def)
  have f: "(csrrw, \<lambda>i. True) \<in> set csr_instruction_list"
    by (simp add: csr_instruction_list_def)
  have i: "insn_csr 0x30051073 = 0x300" "insn_bits 0x30051073 = 0x30051073"
    by code_simp+
  have "serialized p" "csr_denied 0x300 True p" "denial 0x300 0x30051073 p = trap_illegal_instruction 0x30051073" "prv p < PRV_M"
      "\<not> bit (misa p) 7"
    by (simp_all add: p_def example_hart_def csr_denied_def denial_def i)
  then show ?thesis
    using csr_instructions_confined[OF w f, of "0x30051073" 0] unfolding p_def[symmetric] Let_def i by metis
qed

lemma set_csr_prv: "ensures (\<lambda>q. prv q = prv p) (set_csr which v p)"
proof (rule set_csr_cases)
  show "ensures (\<lambda>q. prv q = prv p) (set_csr_switch which v p)" for v
    unfolding set_csr_switch_def Let_def
    by (intro ensures_intros) (simp_all add: set_misa_def set_tdata1_def set_dcsr_def trigger_updated_def p_flush_tlb_def
        dirty_fp_state_def dirty_vs_state_def Let_def)
  have "prv (set_pmpcfg_loop i0 i k v p) = prv p" for i0 i k v and p :: processor_t
    by (induction i0 i k v p rule: set_pmpcfg_loop.induct) (simp_all add: Let_def)
  then show "prv (set_pmpcfg i v p) = prv p" for i v
    by (simp add: set_pmpcfg_def p_flush_tlb_def)
qed (simp_all add: set_pmpaddr_def p_flush_tlb_def Let_def)

lemma prv_set_virt [simp]: "prv (set_virt v p) = prv p"
  by (simp add: set_virt_def vs_sync_def Let_def)

lemma prv_set_pc [simp]: "prv (set_pc_serialize x p) = prv p"
  by (simp add: set_pc_serialize_def)

lemma prv_csr_access: "prv (left (csr_access wr new insn a p)) = prv p"
proof -
  have "leaves (\<lambda>q. prv q = prv p) (csr_access wr new insn a p)"
    by (rule leaves_csr_access) (use set_csr_prv[of "p\<lparr>serialized := False\<rparr>"] in \<open>simp_all add: write_reg_def\<close>)
  then show ?thesis
    by (simp add: leaves_def)
qed

lemma run_privilege:
  "x \<le> PRV_M \<Longrightarrow> run (set_privilege x p) q k = k ((p_flush_tlb p)\<lparr>prv := legalize_privilege p x\<rparr>)"
  by (simp add: run_def set_privilege_eq)

lemma run_Inr [simp]: "run (Inr q) p k = k q"
  by (simp add: run_def)

lemma left_Done_if [simp]: "left (Done n (if c then a else b)) = (if c then a else b)"
  by simp

lemma get_SPP: "get_field x MSTATUS_SPP \<le> 1" for x :: reg_t
proof -
  have "get_field x MSTATUS_SPP = take_bit 1 (drop_bit 8 x)"
    by (rule get_field_bits) simp_all
  moreover have "unat (take_bit 1 (drop_bit 8 x)) < 2"
    by (simp only: unat_take_bit_mod) simp
  ultimately show ?thesis
    by (simp add: word_le_nat_alt)
qed

lemma prv_mret:
  assumes "wf_csr p"
  shows "prv (left (mret insn a p)) \<le> prv p"
proof (cases "prv p < 3")
  case True
  then show ?thesis
    by (simp add: mret_def illegal_def)
next
  case False
  then have "prv p = 3"
    using wf_prv_le[OF assms] by simp
  moreover have "legalize_privilege q (get_field m MSTATUS_MPP) \<le> 3" for q m
    by (rule legalize_le[OF get_MPP_le])
  ultimately show ?thesis
    unfolding mret_def Let_def by (simp add: run_privilege get_MPP_le)
qed

lemma legalize_at_most:
  assumes "wf_csr p" and "misa q = misa p" and "x \<le> 1" and "1 \<le> prv p"
  shows "legalize_privilege q x \<le> prv p"
proof (cases "bit (misa p) 20")
  case True
  then have "legalize_privilege q x \<le> x"
    using assms(2) by (simp add: legalize_privilege_def)
  then show ?thesis
    using assms(3,4) by order
next
  case False
  then have "prv p = 3"
    using wf_csr_D(2,3)[OF assms(1)] by (simp add: legal_prv_def wf_misa_def)
  then show ?thesis
    by (intro order_trans[OF legalize_le]) (use order_trans[OF assms(3), of 3] in simp_all)
qed

lemma prv_sret:
  assumes "wf_csr p"
  shows "prv (left (sret insn a p)) \<le> prv p"
proof -
  have s: "get_field x 0x100 \<le> (3 :: reg_t)" for x
    by (rule order_trans[OF get_SPP]) simp
  have m: "misa (set_pc_serialize x p) = misa p" for x
    by (simp add: set_pc_serialize_def)
  have "leaves (\<lambda>q. prv q \<le> prv p) (sret insn a p)"
    unfolding sret_def Let_def set_csr_mstatus run_Inr
  proof (intro leaves_intros(1,4,5) leaves_run[where R = "\<lambda>q. prv q \<le> prv p"])
    assume "\<not> prv p < (if get_field (mstatus p) MSTATUS_TSR \<noteq> 0 then PRV_M else PRV_S)"
    then have "1 \<le> prv p"
      using order_trans[of "1 :: reg_t" 3 "prv p"] by (simp add: not_less split: if_splits)
    then show "ensures (\<lambda>q. prv q \<le> prv p) (set_privilege (get_field x 0x100) (set_mstatus v (set_pc_serialize y p)))" for x v y
      unfolding set_privilege_eq[OF s] by (intro ensures_intros(2)) (simp add: legalize_at_most[OF assms _ get_SPP] m)
  qed (simp_all add: leaves_def)
  then show ?thesis
    by (simp add: leaves_def)
qed

text \<open>
  C14: only a trap raises the privilege. Outside debug mode, every privileged and CSR instruction,
  the returns from traps included, leaves the hart in a mode no more privileged than it was in;
  what machine software can be entered by is a trap alone.
\<close>

theorem instructions_never_raise_privilege:
  assumes "wf_csr p" and "\<not> debug_mode p" and "f \<in> set priv_instructions"
  shows "prv (left (f insn a p)) \<le> prv p"
proof -
  have "prv (left (dret insn a p)) = prv p"
    using assms(2) by (simp add: dret_def illegal_def)
  moreover have "prv (left (g insn a p)) = prv p"
    if "g = ecall \<or> g = ebreak \<or> g = c_ebreak \<or> g = wfi \<or> g = sfence_vma \<or> g = hfence \<or> g = fence \<or> g = fence_i" for g
    using that by (auto simp: ecall_def ebreak_def c_ebreak_def wfi_def sfence_vma_def hfence_def fence_def fence_i_def
        illegal_def virtual_insn_def p_flush_tlb_def)
  ultimately show ?thesis
    using assms(3) prv_mret[OF assms(1), of insn a] prv_sret[OF assms(1), of insn a]
    unfolding priv_instructions_def csr_instructions hfence_vvma_def hfence_gvma_def list.set insert_iff empty_iff
    by (elim disjE) (simp_all add: prv_csr_access)
qed

lemma instructions_never_raise_privilege_witness:
  "prv (left (mret 0x30200073 0 example_hart)) \<le> prv example_hart"
proof (rule instructions_never_raise_privilege[OF wf_example_hart])
  show "\<not> debug_mode example_hart"
    by (simp add: example_hart_def)
qed (simp add: priv_instructions_def)

section \<open>Returning from a trap\<close>

lemma bit_set_field:
  fixes x v :: reg_t
  assumes "k < 64"
  shows "bit (set_field x (push_bit k 1) v) n \<longleftrightarrow> (if n = k then bit v 0 else bit x n)"
proof -
  have "set_field x (push_bit k 1) v = (x AND NOT (push_bit k 1)) OR push_bit k (take_bit 1 v)"
    by (rule set_field_bits) (use assms in simp_all)
  then show ?thesis
    using assms by (auto simp: bit_simps bit_0 dest: bit_imp_le_length)
qed

lemma bit_set_fields:
  "bit (set_field x 0x8 v) n \<longleftrightarrow> (if n = 3 then bit v 0 else bit x n)"
  "bit (set_field x 0x80 v) n \<longleftrightarrow> (if n = 7 then bit v 0 else bit x n)"
  "bit (set_field x 0x4000000000 v) n \<longleftrightarrow> (if n = 38 then bit v 0 else bit x n)"
  "bit (set_field x 0x8000000000 v) n \<longleftrightarrow> (if n = 39 then bit v 0 else bit x n)" for x v :: reg_t
  using bit_set_field[of 3 x v n] bit_set_field[of 7 x v n] bit_set_field[of 38 x v n] bit_set_field[of 39 x v n]
  by (simp_all add: push_bit_of_1)

lemma bit_set_MPP: "bit (set_field x 0x1800 v) n \<longleftrightarrow> (if n = 11 \<or> n = 12 then bit v (n - 11) else bit x n)" for x v :: reg_t
proof -
  have "bit (x AND NOT 0x1800) n \<longleftrightarrow> bit x n \<and> \<not> (11 \<le> n \<and> n < 13 \<and> n < 64)"
    using bit_ones[of 11 2 n] by (auto simp: bit_simps mask_numeral dest: bit_imp_le_length)
  then show ?thesis
    unfolding set_fields by (auto simp: bit_or_iff bit_push_bit_iff bit_take_bit_iff less_Suc_eq numeral_2_eq_2 dest: bit_imp_le_length)
qed

lemma bit_get_bit: "bit (get_field x 0x8) 0 \<longleftrightarrow> bit x 3" "bit (get_field x 0x80) 0 \<longleftrightarrow> bit x 7"
  "get_field x 0x8000000000 \<noteq> 0 \<longleftrightarrow> bit x 39" for x :: reg_t
  using get_field_bits[of "0x8" 3 1 x] get_field_bits[of "0x80" 7 1 x] get_bit[of 39 x]
  by (simp_all add: bit_simps push_bit_of_1 bit_0 bit_iff_odd_drop_bit)

text \<open>
  Switching virtualization swaps fields of \<open>mstatus\<close> and \<open>vsstatus\<close>, but none of machine mode.
\<close>

lemma set_virt_other [simp]:
  "XPR (set_virt v p) = XPR p" "pc (set_virt v p) = pc p" "xlen (set_virt v p) = xlen p"
  "max_xlen (set_virt v p) = max_xlen p" "mtvec (set_virt v p) = mtvec p"
  by (simp_all add: set_virt_def vs_sync_def Let_def)

lemma virt_set_virt: "virt (set_virt v p) = (if prv p = PRV_M then virt p else v)"
  by (simp add: set_virt_def vs_sync_def Let_def)

lemma set_virt_machine_bits: "n \<in> {3, 7, 11, 12, 39} \<Longrightarrow> bit (mstatus (set_virt v p)) n = bit (mstatus p) n"
proof -
  assume "n \<in> {3, 7, 11, 12, 39}"
  then have "\<not> bit (vsstatus_mask p) n" "n < 64"
    unfolding vsstatus_mask_def by (auto simp: bit_simps bit_if)
  then show ?thesis
    by (simp add: set_virt_def Let_def bit_simps)
qed

text \<open>The machine's trap frame: the interrupt enable, the mode, the virtualization and the return address are stacked.\<close>

lemma trap_to_m_frame:
  assumes "trap_to_m t n i epc p = Inr q" and "xlen p = 32 \<or> xlen p = 64" and "prv p \<le> 3" and "virt p \<longrightarrow> prv p \<noteq> PRV_M"
  shows "mepc q = epc" "prv q = 3" "misa q = misa p" "XPR q = XPR p" "xlen q = max_xlen p" "max_xlen q = max_xlen p"
    "\<not> virt q"
    and "get_field (mstatus q) MSTATUS_MPP = legalize_privilege p (prv p)"
    and "bit (mstatus q) 7 \<longleftrightarrow> bit (mstatus p) 3"
    and "bit (mstatus q) 39 \<longleftrightarrow> (if bit (misa p) 18 \<and> bit (misa p) 7 then xlen p = 64 \<and> virt p else bit (mstatus p) 39)"
proof -
  define p0 where "p0 = set_virt False p"
  define p1 where "p1 = p0\<lparr>pc := trap_vector (mtvec p0) i n, mepc := epc, mcause := trap_cause t,
      mtval := rocket_tval (trap_tval t), mtval2 := trap_tval2 t, mtinst := trap_tinst t\<rparr>"
  define s where "s = set_field (set_field (set_field (set_field (set_field (mstatus p1) 0x80 (get_field (mstatus p1) 0x8))
      0x1800 (prv p1)) 0x8 0) 0x8000000000 (of_bool (virt p))) 0x4000000000 (of_bool (trap_gva t))"
  define v where "v = zext_xlen (xlen p1) s"
  have p0: "XPR p0 = XPR p" "misa p0 = misa p" "xlen p0 = xlen p" "max_xlen p0 = max_xlen p" "prv p0 = prv p" "\<not> virt p0"
      "bit (mstatus p0) 3 = bit (mstatus p) 3" "bit (mstatus p0) 39 = bit (mstatus p) 39"
    using assms(4) by (auto simp: p0_def virt_set_virt set_virt_machine_bits)
  have p1: "misa p1 = misa p" "mstatus p1 = mstatus p0" "legalize_privilege p1 = legalize_privilege p" "prv p1 = prv p"
      "xlen p1 = xlen p"
    by (simp_all add: p1_def p0 fun_eq_iff legalize_privilege_def)
  have "trap_to_m t n i epc p = set_privilege PRV_M (set_mstatus v p1)"
    unfolding trap_to_m_def Let_def p0_def[symmetric] p1_def[symmetric] s_def[symmetric] set_csr_mstatus and_then_Inr v_def ..
  then have q: "q = (p_flush_tlb (set_mstatus v p1))\<lparr>prv := 3\<rparr>"
    using assms(1) by (simp add: set_privilege_eq)
  show "mepc q = epc" "prv q = 3" "misa q = misa p" "XPR q = XPR p" "max_xlen q = max_xlen p" "\<not> virt q"
    using p0 by (simp_all add: q p_flush_tlb_def p1_def)
  show "xlen q = max_xlen p"
    unfolding q by (subst set_mstatus_frame) (simp add: p_flush_tlb_def p1_def p0)
  have m: "mstatus q = mstatus (set_mstatus v p1)"
    by (simp add: q p_flush_tlb_def)
  have v: "bit v k \<longleftrightarrow> k < xlen p \<and> bit s k" for k
    unfolding v_def p1(5) by (rule zext_xlen_bit) (use assms(2) in auto)
  have "get_field v MSTATUS_MPP = prv p"
    by (rule two_bits_eqI) (use assms(2,3) in \<open>auto simp: v s_def bit_set_fields bit_set_MPP p1\<close>)
  then show "get_field (mstatus q) MSTATUS_MPP = legalize_privilege p (prv p)"
    unfolding m set_mstatus_MPP p1(3) by simp
  show "bit (mstatus q) 7 \<longleftrightarrow> bit (mstatus p) 3"
    unfolding m set_mstatus_machine_bits v using assms(2) by (auto simp: s_def bit_set_fields bit_set_MPP bit_get_bit p0 p1)
  show "bit (mstatus q) 39 \<longleftrightarrow> (if bit (misa p) 18 \<and> bit (misa p) 7 then xlen p = 64 \<and> virt p else bit (mstatus p) 39)"
    unfolding m set_mstatus_machine_bits p1 v using assms(2) by (auto simp: s_def bit_set_fields p0 p1)
qed

lemma mret_frame:
  fixes insn a
  assumes "prv q = 3" and "\<not> virt q" and "xlen q = 32 \<or> xlen q = 64"
  defines "r \<equiv> left (mret insn a q)" and "l \<equiv> legalize_privilege q (get_field (mstatus q) MSTATUS_MPP)"
  shows "mret insn a q = Done PC_SERIALIZE_AFTER r" "pc r = mepc q AND pc_alignment_mask q" "XPR r = XPR q"
    "prv r = l" "virt r \<longleftrightarrow> l \<noteq> PRV_M \<and> bit (mstatus q) 39"
    "bit (mstatus r) 3 \<longleftrightarrow> bit (mstatus q) 7"
proof -
  define q1 where "q1 = set_pc_serialize (mepc q) q"
  define s where "s = set_field (set_field (set_field (mstatus q) 0x8 (get_field (mstatus q) 0x80)) 0x80 1) 0x1800 0"
  define v where "v = zext_xlen (xlen q) s"
  define q2 where "q2 = set_mstatus v q1"
  have q1: "misa q1 = misa q" "virt q1 = virt q" "mstatus q1 = mstatus q" "XPR q1 = XPR q" "xlen q1 = xlen q"
      "pc q1 = mepc q AND pc_alignment_mask q" "prv q1 = prv q"
    by (simp_all add: q1_def set_pc_serialize_def)
  have leg: "legalize_privilege q2 = legalize_privilege q"
    by (simp add: q2_def fun_eq_iff legalize_privilege_def q1)
  have e: "mret insn a q = Done 5 (set_virt (bit (mstatus q) 39) ((p_flush_tlb q2)\<lparr>prv := l\<rparr>))"
    unfolding mret_def Let_def q1_def[symmetric] set_csr_mstatus run_Inr run_privilege[OF get_MPP_le] l_def
    using assms(1) by (simp add: q1 s_def[symmetric] v_def[symmetric] q2_def[symmetric] bit_get_bit leg)
  have r: "r = set_virt (bit (mstatus q) 39) ((p_flush_tlb q2)\<lparr>prv := l\<rparr>)"
    by (simp add: r_def e)
  have v: "bit v k \<longleftrightarrow> k < xlen q \<and> bit s k" for k
    unfolding v_def by (rule zext_xlen_bit) (use assms(3) in auto)
  show "mret insn a q = Done 5 r"
    by (simp add: r e)
  show "pc r = mepc q AND pc_alignment_mask q" "XPR r = XPR q" "prv r = l" "virt r \<longleftrightarrow> l \<noteq> PRV_M \<and> bit (mstatus q) 39"
    using assms(2) by (simp_all add: r virt_set_virt p_flush_tlb_def q2_def q1)
  have "bit (mstatus r) 3 = bit (mstatus (set_mstatus v q1)) 3"
    by (simp add: r set_virt_machine_bits p_flush_tlb_def q2_def)
  then show "bit (mstatus r) 3 \<longleftrightarrow> bit (mstatus q) 7"
    unfolding set_mstatus_machine_bits using v[of 3] assms(3) by (auto simp: s_def bit_set_fields bit_set_MPP bit_get_bit)
qed

text \<open>
  A trap is the machine's unless the hart is in debug mode, or the trap is a breakpoint that enters debug
  mode, or it is delegated.
\<close>

definition machine_trap :: "trap_t \<Rightarrow> processor_t \<Rightarrow> bool" where
  "machine_trap t p \<longleftrightarrow>
     \<not> debug_mode p
     \<and> \<not> (trap_cause t = CAUSE_BREAKPOINT
          \<and> (prv p = PRV_M \<and> dcsr_ebreakm (dcsr p) \<or> prv p = PRV_S \<and> dcsr_ebreaks (dcsr p)
             \<or> prv p = PRV_U \<and> dcsr_ebreaku (dcsr p)))
     \<and> \<not> bit (hs_delegated t p) (unat (trap_cause t AND NOT (push_bit (max_xlen p - 1) 1)))"

lemma vs_within_hs: "bit (vs_delegated t p) n \<Longrightarrow> bit (hs_delegated t p) n"
  by (auto simp: vs_delegated_def hs_delegated_def bit_simps split: if_splits)

lemma take_trap_to_m:
  assumes "machine_trap t p"
  shows "\<exists>n i. take_trap t epc p = trap_to_m t n i epc p"
proof -
  define b :: reg_t where "b = push_bit (max_xlen p - 1) 1"
  define n where "n = (if trap_cause t AND b \<noteq> 0 then trap_cause t AND NOT b else trap_cause t)"
  have "trap_cause t AND NOT b = trap_cause t" if "trap_cause t AND b = 0"
  proof (rule bit_word_eqI)
    fix k
    show "bit (trap_cause t AND NOT b) k = bit (trap_cause t) k" if "k < LENGTH(64)"
      using arg_cong[OF \<open>trap_cause t AND b = 0\<close>, of "\<lambda>w. bit w k"] that by (auto simp: bit_and_iff bit_not_iff)
  qed
  then have "n = trap_cause t AND NOT b"
    by (simp add: n_def)
  then have d: "\<not> bit (hs_delegated t p) (unat n)" "\<not> bit (vs_delegated t p) (unat n)"
    using assms vs_within_hs unfolding machine_trap_def b_def by blast+
  show ?thesis
    using assms d unfolding take_trap_def Let_def machine_trap_def and_1_bit b_def[symmetric] n_def[symmetric] by auto
qed

text \<open>
  C24: \<open>mret\<close> undoes a trap to machine mode. After any trap that neither is delegated nor enters debug
  mode, the return resumes at the saved address (aligned for the instruction set), in the privilege and the
  virtualization mode the trap came from, with the machine interrupt enable as it was and the integer registers
  untouched. The mode must be one the hart supports. The virtualization mode is kept in \<open>MPV\<close>, which
  needs the hypervisor extension and a 64-bit hart: a guest must run on such a hart and below machine mode, and
  on a hart without the extension \<open>MPV\<close> must be clear.
\<close>

theorem mret_returns_from_trap:
  assumes "wf_csr p" and "machine_trap t p" and "legalize_privilege p (prv p) = prv p"
    and "if bit (misa p) 18 \<and> bit (misa p) 7 then virt p \<longrightarrow> xlen p = 64 \<and> prv p \<noteq> PRV_M
         else \<not> virt p \<and> \<not> bit (mstatus p) 39"
    and "take_trap t epc p = Inr q"
  shows "\<exists>r. mret insn a q = Done PC_SERIALIZE_AFTER r \<and> pc r = epc AND pc_alignment_mask p \<and> prv r = prv p
    \<and> virt r = virt p \<and> (bit (mstatus r) 3 \<longleftrightarrow> bit (mstatus p) 3) \<and> XPR r = XPR p"
proof -
  obtain n i where q: "trap_to_m t n i epc p = Inr q"
    using take_trap_to_m[OF assms(2), of epc] assms(5) by auto
  have x: "xlen p = 32 \<or> xlen p = 64" "max_xlen p = xlen p"
    using wf_csr_D(1,12)[OF assms(1)] by auto
  have "virt p \<longrightarrow> prv p \<noteq> PRV_M"
    using assms(4) by (auto split: if_splits)
  note t = trap_to_m_frame[OF q x(1) wf_prv_le[OF assms(1)] this]
  have l: "legalize_privilege q = legalize_privilege p" "pc_alignment_mask q = pc_alignment_mask p"
    using t(3) by (simp_all add: fun_eq_iff legalize_privilege_def pc_alignment_mask_def)
  have xq: "xlen q = 32 \<or> xlen q = 64"
    using t(5) x by simp
  note r = mret_frame[OF t(2,7) xq, of insn a, unfolded l t(1,4,8,9,10) assms(3)]
  have "prv p \<noteq> PRV_M \<and> (if bit (misa p) 18 \<and> bit (misa p) 7 then xlen p = 64 \<and> virt p else bit (mstatus p) 39) \<longleftrightarrow> virt p"
    using assms(4) by (auto split: if_splits)
  with r show ?thesis
    by blast
qed

text \<open>A guest's system call to the machine and back.\<close>

lemma mret_returns_from_trap_witness:
  "let p = hypervisor_hart\<lparr>prv := 0, virt := True\<rparr>; q = projr (take_trap (plain_trap CAUSE_USER_ECALL) 0x1234 p)
   in \<not> virt q \<and> (\<exists>r. mret 0x30200073 0x4000 q = Done PC_SERIALIZE_AFTER r \<and> pc r = 0x1234 AND pc_alignment_mask p \<and> prv r = prv p
    \<and> virt r = virt p \<and> (bit (mstatus r) 3 \<longleftrightarrow> bit (mstatus p) 3) \<and> XPR r = XPR p)"
proof -
  define p where "p = hypervisor_hart\<lparr>prv := 0, virt := True\<rparr>"
  have w: "wf_csr p"
    using wf_example_hart by (simp add: wf_csr_def p_def hypervisor_hart_def example_hart_def wf_misa_def legal_prv_def wf_pmp_def)
  have c: "machine_trap (plain_trap CAUSE_USER_ECALL) p" "legalize_privilege p (prv p) = prv p" "bit (misa p) 18" "bit (misa p) 7"
      "virt p" "xlen p = 64" "prv p \<noteq> PRV_M" "prv p \<le> 3"
    by (simp_all add: p_def hypervisor_hart_def example_hart_def plain_trap_def machine_trap_def hs_delegated_def legalize_privilege_def)
  obtain n i where t: "take_trap (plain_trap CAUSE_USER_ECALL) 0x1234 p = trap_to_m (plain_trap CAUSE_USER_ECALL) n i 0x1234 p"
    using take_trap_to_m[OF c(1)] by blast
  then have q: "take_trap (plain_trap CAUSE_USER_ECALL) 0x1234 p
      = Inr (projr (take_trap (plain_trap CAUSE_USER_ECALL) 0x1234 p))"
    using trap_to_prv(3)[of "plain_trap CAUSE_USER_ECALL" n i "0x1234" p] by (auto simp: returns_def)
  have "\<not> virt (projr (take_trap (plain_trap CAUSE_USER_ECALL) 0x1234 p))"
    using trap_to_m_frame(7)[of "plain_trap CAUSE_USER_ECALL" n i "0x1234" p] q c(6-8) unfolding t by blast
  moreover have "if bit (misa p) 18 \<and> bit (misa p) 7 then virt p \<longrightarrow> xlen p = 64 \<and> prv p \<noteq> PRV_M else \<not> virt p \<and> \<not> bit (mstatus p) 39"
    using c by simp
  ultimately show ?thesis
    using mret_returns_from_trap[OF w c(1,2) _ q, of "0x30200073" "0x4000"] unfolding p_def[symmetric] Let_def by blast
qed

end
