(* ===== verification/RV_FPR.thy ===== *)
theory RV_FPR
  imports RV_Priv_Props
begin

text \<open>
  The floating-point registers of \<open>riscv/decode.h\<close>: 128 bits each, a pair of words, of which the
  first holds a half, single or double. A number of a narrower format is boxed in ones;
  reading a register that is not boxed yields the format's default NaN.
\<close>

definition fp_on :: "processor_t \<Rightarrow> bool" where
  "fp_on p \<longleftrightarrow> mstatus p AND MSTATUS_FS \<noteq> 0"

definition write_freg :: "nat \<Rightarrow> reg_t \<times> reg_t \<Rightarrow> processor_t \<Rightarrow> processor_t" where
  "write_freg r v p = dirty_fp_state (p\<lparr>FPR := (FPR p)[r := v]\<rparr>)"

definition box16 :: "16 word \<Rightarrow> reg_t \<times> reg_t" where
  "box16 v = (push_bit 16 (- 1) OR ucast v, - 1)"

definition box32 :: "32 word \<Rightarrow> reg_t \<times> reg_t" where
  "box32 v = (push_bit 32 (- 1) OR ucast v, - 1)"

definition box64 :: "64 word \<Rightarrow> reg_t \<times> reg_t" where
  "box64 v = (v, - 1)"

definition isBoxedF64 :: "reg_t \<times> reg_t \<Rightarrow> bool" where
  "isBoxedF64 r \<longleftrightarrow> snd r + 1 = 0"

definition isBoxedF32 :: "reg_t \<times> reg_t \<Rightarrow> bool" where
  "isBoxedF32 r \<longleftrightarrow> isBoxedF64 r \<and> (ucast (drop_bit 32 (fst r) + 1) :: 32 word) = 0"

definition isBoxedF16 :: "reg_t \<times> reg_t \<Rightarrow> bool" where
  "isBoxedF16 r \<longleftrightarrow> isBoxedF32 r \<and> drop_bit 16 (fst r) + 1 = push_bit 48 1"

definition unbox16 :: "reg_t \<times> reg_t \<Rightarrow> 16 word" where
  "unbox16 r = (if isBoxedF16 r then ucast (fst r) else 0x7E00)"

definition unbox32 :: "reg_t \<times> reg_t \<Rightarrow> 32 word" where
  "unbox32 r = (if isBoxedF32 r then ucast (fst r) else 0x7FC00000)"

definition unbox64 :: "reg_t \<times> reg_t \<Rightarrow> 64 word" where
  "unbox64 r = (if isBoxedF64 r then fst r else 0x7FF8000000000000)"

lemma mask_above:
  assumes "j \<le> k"
  shows "drop_bit k (NOT (mask j) OR x) = (drop_bit k (- 1) :: reg_t)"
  by (rule bit_word_eqI) (use assms in \<open>auto simp: bit_drop_bit_eq bit_or_iff bit_not_iff bit_mask_iff dest: bit_imp_le_length\<close>)

lemma push_ones: "push_bit k (- 1) = (NOT (mask k) :: reg_t)"
  by (rule bit_word_eqI) (auto simp: bit_push_bit_iff bit_not_iff bit_mask_iff)

text \<open>A boxed number reads back; a half, boxed, is also a boxed single and a boxed double.\<close>

lemma unbox_box [simp]: "unbox16 (box16 a) = a" "unbox32 (box32 b) = b" "unbox64 (box64 c) = c"
proof -
  have t16: "ucast (NOT (mask 16) OR ucast a :: reg_t) = a"
    by (rule bit_word_eqI) (simp add: bit_or_iff bit_not_iff bit_mask_iff bit_unsigned_iff)
  have t32: "ucast (NOT (mask 32) OR ucast b :: reg_t) = b"
    by (rule bit_word_eqI) (simp add: bit_or_iff bit_not_iff bit_mask_iff bit_unsigned_iff)
  have m: "drop_bit 32 (- 1) + 1 = (0x100000000 :: reg_t)" "drop_bit 16 (- 1) + 1 = (push_bit 48 1 :: reg_t)"
    by (simp_all add: mask_numeral)
  have h: "drop_bit 32 (NOT (mask 16) OR x) = drop_bit 32 (- 1)" "drop_bit 32 (NOT (mask 32) OR x) = drop_bit 32 (- 1)"
    "drop_bit 16 (NOT (mask 16) OR x) = drop_bit 16 (- 1)" for x :: reg_t
    by (rule mask_above, simp)+
  have b32: "isBoxedF32 (NOT (mask 16) OR x, - 1)" "isBoxedF32 (NOT (mask 32) OR x, - 1)" for x
    unfolding isBoxedF32_def isBoxedF64_def fst_conv snd_conv h m by simp_all
  have b16: "isBoxedF16 (NOT (mask 16) OR x, - 1)" for x
    unfolding isBoxedF16_def fst_conv h m using b32(1) by simp
  show "unbox16 (box16 a) = a" "unbox32 (box32 b) = b" "unbox64 (box64 c) = c"
    unfolding unbox16_def unbox32_def unbox64_def box16_def box32_def box64_def push_ones if_P[OF b16] if_P[OF b32(2)] fst_conv t16 t32
    by (simp_all add: isBoxedF64_def)
qed

end
