(* ===== verification/RV_Insns.thy ===== *)
theory RV_Insns
  imports RV_Priv_Props "HOL-Library.Signed_Division"
begin

text \<open>
  The integer instructions of \<open>riscv/insns\<close> that do not access memory: the base set, the
  multiplication and division extension and their compressed forms. As in \<open>RV_Priv\<close> an
  instruction takes its bits and its program counter and returns the next program counter or
  the trap it throws, with the processor it leaves. The checks that precede the computation are
  the first argument of \<open>compute\<close>; shift amounts beyond the operand's width, undefined in C, are
  excluded by the instructions' masks.
\<close>

abbreviation (input) X_RA :: nat where "X_RA \<equiv> 1"
abbreviation (input) X_SP :: nat where "X_SP \<equiv> 2"

definition sext32 :: "reg_t \<Rightarrow> reg_t" where
  "sext32 x = scast (ucast x :: 32 word)"

definition zext32 :: "reg_t \<Rightarrow> reg_t" where
  "zext32 x = ucast (ucast x :: 32 word)"

definition SHAMT :: "insn_bits \<Rightarrow> reg_t" where
  "SHAMT insn = i_imm insn AND 0x3F"

definition compute :: "bool \<Rightarrow> nat \<Rightarrow> reg_t \<Rightarrow> insn_bits \<Rightarrow> reg_t \<Rightarrow> processor_t \<Rightarrow> exec" where
  "compute ok rd v insn at_pc p =
     (if ok then Done (next_pc at_pc insn p) (write_reg rd v p) else illegal insn p)"

text \<open>A jump checks the alignment of its target before it links.\<close>

definition set_pc :: "reg_t \<Rightarrow> (processor_t \<Rightarrow> processor_t) \<Rightarrow> insn_bits \<Rightarrow> processor_t \<Rightarrow> exec" where
  "set_pc x link insn p =
     (if x AND NOT (pc_alignment_mask p) \<noteq> 0 then Raise (Trap (mem_trap CAUSE_MISALIGNED_FETCH x 0 0)) p
      else Done (sext_xlen (xlen p) x) (link p))"

section \<open>Arithmetic and logic\<close>

definition rv_add :: "insn_bits \<Rightarrow> reg_t \<Rightarrow> processor_t \<Rightarrow> exec" where
  "rv_add insn at_pc p =
     compute (True) (insn_rd insn)
       (sext_xlen (xlen p) (RS1 insn p + RS2 insn p)) insn at_pc p"

definition rv_addi :: "insn_bits \<Rightarrow> reg_t \<Rightarrow> processor_t \<Rightarrow> exec" where
  "rv_addi insn at_pc p =
     compute (True) (insn_rd insn)
       (sext_xlen (xlen p) (RS1 insn p + i_imm insn)) insn at_pc p"

definition rv_addiw :: "insn_bits \<Rightarrow> reg_t \<Rightarrow> processor_t \<Rightarrow> exec" where
  "rv_addiw insn at_pc p =
     compute (xlen p = 64) (insn_rd insn)
       (sext32 (i_imm insn + RS1 insn p)) insn at_pc p"

definition rv_addw :: "insn_bits \<Rightarrow> reg_t \<Rightarrow> processor_t \<Rightarrow> exec" where
  "rv_addw insn at_pc p =
     compute (xlen p = 64) (insn_rd insn)
       (sext32 (RS1 insn p + RS2 insn p)) insn at_pc p"

definition rv_and :: "insn_bits \<Rightarrow> reg_t \<Rightarrow> processor_t \<Rightarrow> exec" where
  "rv_and insn at_pc p =
     compute (True) (insn_rd insn)
       (RS1 insn p AND RS2 insn p) insn at_pc p"

definition rv_andi :: "insn_bits \<Rightarrow> reg_t \<Rightarrow> processor_t \<Rightarrow> exec" where
  "rv_andi insn at_pc p =
     compute (True) (insn_rd insn)
       (i_imm insn AND RS1 insn p) insn at_pc p"

definition rv_auipc :: "insn_bits \<Rightarrow> reg_t \<Rightarrow> processor_t \<Rightarrow> exec" where
  "rv_auipc insn at_pc p =
     compute (True) (insn_rd insn)
       (sext_xlen (xlen p) (u_imm insn + at_pc)) insn at_pc p"

definition rv_lui :: "insn_bits \<Rightarrow> reg_t \<Rightarrow> processor_t \<Rightarrow> exec" where
  "rv_lui insn at_pc p =
     compute (True) (insn_rd insn)
       (u_imm insn) insn at_pc p"

definition rv_or :: "insn_bits \<Rightarrow> reg_t \<Rightarrow> processor_t \<Rightarrow> exec" where
  "rv_or insn at_pc p =
     compute (True) (insn_rd insn)
       (RS1 insn p OR RS2 insn p) insn at_pc p"

definition rv_ori :: "insn_bits \<Rightarrow> reg_t \<Rightarrow> processor_t \<Rightarrow> exec" where
  "rv_ori insn at_pc p =
     compute (True) (insn_rd insn)
       (i_imm insn OR RS1 insn p) insn at_pc p"

definition rv_sll :: "insn_bits \<Rightarrow> reg_t \<Rightarrow> processor_t \<Rightarrow> exec" where
  "rv_sll insn at_pc p =
     compute (True) (insn_rd insn)
       (sext_xlen (xlen p) (push_bit (unat (RS2 insn p AND of_nat (xlen p - 1))) (RS1 insn p))) insn at_pc p"

definition rv_slli :: "insn_bits \<Rightarrow> reg_t \<Rightarrow> processor_t \<Rightarrow> exec" where
  "rv_slli insn at_pc p =
     compute (unat (SHAMT insn) < xlen p) (insn_rd insn)
       (sext_xlen (xlen p) (push_bit (unat (SHAMT insn)) (RS1 insn p))) insn at_pc p"

definition rv_slliw :: "insn_bits \<Rightarrow> reg_t \<Rightarrow> processor_t \<Rightarrow> exec" where
  "rv_slliw insn at_pc p =
     compute (xlen p = 64) (insn_rd insn)
       (sext32 (push_bit (unat (SHAMT insn)) (RS1 insn p))) insn at_pc p"

definition rv_sllw :: "insn_bits \<Rightarrow> reg_t \<Rightarrow> processor_t \<Rightarrow> exec" where
  "rv_sllw insn at_pc p =
     compute (xlen p = 64) (insn_rd insn)
       (sext32 (push_bit (unat (RS2 insn p AND 0x1F)) (RS1 insn p))) insn at_pc p"

definition rv_slt :: "insn_bits \<Rightarrow> reg_t \<Rightarrow> processor_t \<Rightarrow> exec" where
  "rv_slt insn at_pc p =
     compute (True) (insn_rd insn)
       (of_bool (RS1 insn p <s RS2 insn p)) insn at_pc p"

definition rv_slti :: "insn_bits \<Rightarrow> reg_t \<Rightarrow> processor_t \<Rightarrow> exec" where
  "rv_slti insn at_pc p =
     compute (True) (insn_rd insn)
       (of_bool (RS1 insn p <s i_imm insn)) insn at_pc p"

definition rv_sltiu :: "insn_bits \<Rightarrow> reg_t \<Rightarrow> processor_t \<Rightarrow> exec" where
  "rv_sltiu insn at_pc p =
     compute (True) (insn_rd insn)
       (of_bool (RS1 insn p < i_imm insn)) insn at_pc p"

definition rv_sltu :: "insn_bits \<Rightarrow> reg_t \<Rightarrow> processor_t \<Rightarrow> exec" where
  "rv_sltu insn at_pc p =
     compute (True) (insn_rd insn)
       (of_bool (RS1 insn p < RS2 insn p)) insn at_pc p"

definition rv_sra :: "insn_bits \<Rightarrow> reg_t \<Rightarrow> processor_t \<Rightarrow> exec" where
  "rv_sra insn at_pc p =
     compute (True) (insn_rd insn)
       (sext_xlen (xlen p) (signed_drop_bit (unat (RS2 insn p AND of_nat (xlen p - 1))) (sext_xlen (xlen p) (RS1 insn p)))) insn at_pc p"

definition rv_srai :: "insn_bits \<Rightarrow> reg_t \<Rightarrow> processor_t \<Rightarrow> exec" where
  "rv_srai insn at_pc p =
     compute (unat (SHAMT insn) < xlen p) (insn_rd insn)
       (sext_xlen (xlen p) (signed_drop_bit (unat (SHAMT insn)) (sext_xlen (xlen p) (RS1 insn p)))) insn at_pc p"

definition rv_sraiw :: "insn_bits \<Rightarrow> reg_t \<Rightarrow> processor_t \<Rightarrow> exec" where
  "rv_sraiw insn at_pc p =
     compute (xlen p = 64) (insn_rd insn)
       (sext32 (scast (signed_drop_bit (unat (SHAMT insn)) (ucast (RS1 insn p) :: 32 word)))) insn at_pc p"

definition rv_sraw :: "insn_bits \<Rightarrow> reg_t \<Rightarrow> processor_t \<Rightarrow> exec" where
  "rv_sraw insn at_pc p =
     compute (xlen p = 64) (insn_rd insn)
       (sext32 (scast (signed_drop_bit (unat (RS2 insn p AND 0x1F)) (ucast (RS1 insn p) :: 32 word)))) insn at_pc p"

definition rv_srl :: "insn_bits \<Rightarrow> reg_t \<Rightarrow> processor_t \<Rightarrow> exec" where
  "rv_srl insn at_pc p =
     compute (True) (insn_rd insn)
       (sext_xlen (xlen p) (drop_bit (unat (RS2 insn p AND of_nat (xlen p - 1))) (zext_xlen (xlen p) (RS1 insn p)))) insn at_pc p"

definition rv_srli :: "insn_bits \<Rightarrow> reg_t \<Rightarrow> processor_t \<Rightarrow> exec" where
  "rv_srli insn at_pc p =
     compute (unat (SHAMT insn) < xlen p) (insn_rd insn)
       (sext_xlen (xlen p) (drop_bit (unat (SHAMT insn)) (zext_xlen (xlen p) (RS1 insn p)))) insn at_pc p"

definition rv_srliw :: "insn_bits \<Rightarrow> reg_t \<Rightarrow> processor_t \<Rightarrow> exec" where
  "rv_srliw insn at_pc p =
     compute (xlen p = 64) (insn_rd insn)
       (sext32 (ucast (drop_bit (unat (SHAMT insn)) (ucast (RS1 insn p) :: 32 word)))) insn at_pc p"

definition rv_srlw :: "insn_bits \<Rightarrow> reg_t \<Rightarrow> processor_t \<Rightarrow> exec" where
  "rv_srlw insn at_pc p =
     compute (xlen p = 64) (insn_rd insn)
       (sext32 (ucast (drop_bit (unat (RS2 insn p AND 0x1F)) (ucast (RS1 insn p) :: 32 word)))) insn at_pc p"

definition rv_sub :: "insn_bits \<Rightarrow> reg_t \<Rightarrow> processor_t \<Rightarrow> exec" where
  "rv_sub insn at_pc p =
     compute (True) (insn_rd insn)
       (sext_xlen (xlen p) (RS1 insn p - RS2 insn p)) insn at_pc p"

definition rv_subw :: "insn_bits \<Rightarrow> reg_t \<Rightarrow> processor_t \<Rightarrow> exec" where
  "rv_subw insn at_pc p =
     compute (xlen p = 64) (insn_rd insn)
       (sext32 (RS1 insn p - RS2 insn p)) insn at_pc p"

definition rv_xor :: "insn_bits \<Rightarrow> reg_t \<Rightarrow> processor_t \<Rightarrow> exec" where
  "rv_xor insn at_pc p =
     compute (True) (insn_rd insn)
       (RS1 insn p XOR RS2 insn p) insn at_pc p"

definition rv_xori :: "insn_bits \<Rightarrow> reg_t \<Rightarrow> processor_t \<Rightarrow> exec" where
  "rv_xori insn at_pc p =
     compute (True) (insn_rd insn)
       (i_imm insn XOR RS1 insn p) insn at_pc p"

section \<open>Multiplication and division\<close>

definition rv_mul :: "insn_bits \<Rightarrow> reg_t \<Rightarrow> processor_t \<Rightarrow> exec" where
  "rv_mul insn at_pc p =
     compute (supports_extension (CHR ''M'') p) (insn_rd insn)
       (sext_xlen (xlen p) (RS1 insn p * RS2 insn p)) insn at_pc p"

definition rv_mulw :: "insn_bits \<Rightarrow> reg_t \<Rightarrow> processor_t \<Rightarrow> exec" where
  "rv_mulw insn at_pc p =
     compute (supports_extension (CHR ''M'') p \<and> xlen p = 64) (insn_rd insn)
       (sext32 (RS1 insn p * RS2 insn p)) insn at_pc p"

definition rv_mulh :: "insn_bits \<Rightarrow> reg_t \<Rightarrow> processor_t \<Rightarrow> exec" where
  "rv_mulh insn at_pc p =
     compute (supports_extension (CHR ''M'') p) (insn_rd insn)
       (if xlen p = 64 then mulh (RS1 insn p) (RS2 insn p) else sext32 (signed_drop_bit 32 (sext32 (RS1 insn p) * sext32 (RS2 insn p)))) insn at_pc p"

definition rv_mulhsu :: "insn_bits \<Rightarrow> reg_t \<Rightarrow> processor_t \<Rightarrow> exec" where
  "rv_mulhsu insn at_pc p =
     compute (supports_extension (CHR ''M'') p) (insn_rd insn)
       (if xlen p = 64 then mulhsu (RS1 insn p) (RS2 insn p) else sext32 (drop_bit 32 (sext32 (RS1 insn p) * zext32 (RS2 insn p)))) insn at_pc p"

definition rv_mulhu :: "insn_bits \<Rightarrow> reg_t \<Rightarrow> processor_t \<Rightarrow> exec" where
  "rv_mulhu insn at_pc p =
     compute (supports_extension (CHR ''M'') p) (insn_rd insn)
       (if xlen p = 64 then mulhu (RS1 insn p) (RS2 insn p) else sext32 (drop_bit 32 (zext32 (RS1 insn p) * zext32 (RS2 insn p)))) insn at_pc p"

definition rv_div :: "insn_bits \<Rightarrow> reg_t \<Rightarrow> processor_t \<Rightarrow> exec" where
  "rv_div insn at_pc p =
     compute (supports_extension (CHR ''M'') p) (insn_rd insn)
       (let lhs = sext_xlen (xlen p) (RS1 insn p); rhs = sext_xlen (xlen p) (RS2 insn p) in
        if rhs = 0 then - 1 else if lhs = 0x8000000000000000 \<and> rhs = - 1 then lhs else sext_xlen (xlen p) (word_of_int (sint lhs sdiv sint rhs))) insn at_pc p"

definition rv_divu :: "insn_bits \<Rightarrow> reg_t \<Rightarrow> processor_t \<Rightarrow> exec" where
  "rv_divu insn at_pc p =
     compute (supports_extension (CHR ''M'') p) (insn_rd insn)
       (let lhs = zext_xlen (xlen p) (RS1 insn p); rhs = zext_xlen (xlen p) (RS2 insn p) in if rhs = 0 then - 1 else sext_xlen (xlen p) (lhs div rhs)) insn at_pc p"

definition rv_divuw :: "insn_bits \<Rightarrow> reg_t \<Rightarrow> processor_t \<Rightarrow> exec" where
  "rv_divuw insn at_pc p =
     compute (supports_extension (CHR ''M'') p \<and> xlen p = 64) (insn_rd insn)
       (let lhs = zext32 (RS1 insn p); rhs = zext32 (RS2 insn p) in if rhs = 0 then - 1 else sext32 (lhs div rhs)) insn at_pc p"

definition rv_divw :: "insn_bits \<Rightarrow> reg_t \<Rightarrow> processor_t \<Rightarrow> exec" where
  "rv_divw insn at_pc p =
     compute (supports_extension (CHR ''M'') p \<and> xlen p = 64) (insn_rd insn)
       (let lhs = sext32 (RS1 insn p); rhs = sext32 (RS2 insn p) in if rhs = 0 then - 1 else sext32 (word_of_int (sint lhs sdiv sint rhs))) insn at_pc p"

definition rv_rem :: "insn_bits \<Rightarrow> reg_t \<Rightarrow> processor_t \<Rightarrow> exec" where
  "rv_rem insn at_pc p =
     compute (supports_extension (CHR ''M'') p) (insn_rd insn)
       (let lhs = sext_xlen (xlen p) (RS1 insn p); rhs = sext_xlen (xlen p) (RS2 insn p) in
        if rhs = 0 then lhs else if lhs = 0x8000000000000000 \<and> rhs = - 1 then 0 else sext_xlen (xlen p) (word_of_int (sint lhs smod sint rhs))) insn at_pc p"

definition rv_remu :: "insn_bits \<Rightarrow> reg_t \<Rightarrow> processor_t \<Rightarrow> exec" where
  "rv_remu insn at_pc p =
     compute (supports_extension (CHR ''M'') p) (insn_rd insn)
       (let lhs = zext_xlen (xlen p) (RS1 insn p); rhs = zext_xlen (xlen p) (RS2 insn p) in if rhs = 0 then sext_xlen (xlen p) (RS1 insn p) else sext_xlen (xlen p) (lhs mod rhs)) insn at_pc p"

definition rv_remuw :: "insn_bits \<Rightarrow> reg_t \<Rightarrow> processor_t \<Rightarrow> exec" where
  "rv_remuw insn at_pc p =
     compute (supports_extension (CHR ''M'') p \<and> xlen p = 64) (insn_rd insn)
       (let lhs = zext32 (RS1 insn p); rhs = zext32 (RS2 insn p) in if rhs = 0 then sext32 lhs else sext32 (lhs mod rhs)) insn at_pc p"

definition rv_remw :: "insn_bits \<Rightarrow> reg_t \<Rightarrow> processor_t \<Rightarrow> exec" where
  "rv_remw insn at_pc p =
     compute (supports_extension (CHR ''M'') p \<and> xlen p = 64) (insn_rd insn)
       (let lhs = sext32 (RS1 insn p); rhs = sext32 (RS2 insn p) in if rhs = 0 then lhs else sext32 (word_of_int (sint lhs smod sint rhs))) insn at_pc p"

section \<open>Jumps and branches\<close>

definition rv_beq :: "insn_bits \<Rightarrow> reg_t \<Rightarrow> processor_t \<Rightarrow> exec" where
  "rv_beq insn at_pc p =
     (if RS1 insn p = RS2 insn p then set_pc (at_pc + sb_imm insn) id insn p else Done (next_pc at_pc insn p) p)"

definition rv_bge :: "insn_bits \<Rightarrow> reg_t \<Rightarrow> processor_t \<Rightarrow> exec" where
  "rv_bge insn at_pc p =
     (if RS2 insn p \<le>s RS1 insn p then set_pc (at_pc + sb_imm insn) id insn p else Done (next_pc at_pc insn p) p)"

definition rv_bgeu :: "insn_bits \<Rightarrow> reg_t \<Rightarrow> processor_t \<Rightarrow> exec" where
  "rv_bgeu insn at_pc p =
     (if RS2 insn p \<le> RS1 insn p then set_pc (at_pc + sb_imm insn) id insn p else Done (next_pc at_pc insn p) p)"

definition rv_blt :: "insn_bits \<Rightarrow> reg_t \<Rightarrow> processor_t \<Rightarrow> exec" where
  "rv_blt insn at_pc p =
     (if RS1 insn p <s RS2 insn p then set_pc (at_pc + sb_imm insn) id insn p else Done (next_pc at_pc insn p) p)"

definition rv_bltu :: "insn_bits \<Rightarrow> reg_t \<Rightarrow> processor_t \<Rightarrow> exec" where
  "rv_bltu insn at_pc p =
     (if RS1 insn p < RS2 insn p then set_pc (at_pc + sb_imm insn) id insn p else Done (next_pc at_pc insn p) p)"

definition rv_bne :: "insn_bits \<Rightarrow> reg_t \<Rightarrow> processor_t \<Rightarrow> exec" where
  "rv_bne insn at_pc p =
     (if RS1 insn p \<noteq> RS2 insn p then set_pc (at_pc + sb_imm insn) id insn p else Done (next_pc at_pc insn p) p)"

definition rv_jal :: "insn_bits \<Rightarrow> reg_t \<Rightarrow> processor_t \<Rightarrow> exec" where
  "rv_jal insn at_pc p =
     set_pc (at_pc + uj_imm insn) (write_reg (insn_rd insn) (next_pc at_pc insn p)) insn p"

definition rv_jalr :: "insn_bits \<Rightarrow> reg_t \<Rightarrow> processor_t \<Rightarrow> exec" where
  "rv_jalr insn at_pc p =
     set_pc ((RS1 insn p + i_imm insn) AND NOT 1) (write_reg (insn_rd insn) (next_pc at_pc insn p)) insn p"

section \<open>Compressed instructions\<close>

definition rv_c_add :: "insn_bits \<Rightarrow> reg_t \<Rightarrow> processor_t \<Rightarrow> exec" where
  "rv_c_add insn at_pc p =
     compute (supports_extension (CHR ''C'') p \<and> rvc_rs2 insn \<noteq> 0) (insn_rd insn)
       (sext_xlen (xlen p) (XPR p ! insn_rd insn + XPR p ! rvc_rs2 insn)) insn at_pc p"

definition rv_c_addi :: "insn_bits \<Rightarrow> reg_t \<Rightarrow> processor_t \<Rightarrow> exec" where
  "rv_c_addi insn at_pc p =
     compute (supports_extension (CHR ''C'') p) (insn_rd insn)
       (sext_xlen (xlen p) (XPR p ! insn_rd insn + rvc_imm insn)) insn at_pc p"

definition rv_c_addi4spn :: "insn_bits \<Rightarrow> reg_t \<Rightarrow> processor_t \<Rightarrow> exec" where
  "rv_c_addi4spn insn at_pc p =
     compute (supports_extension (CHR ''C'') p \<and> rvc_addi4spn_imm insn \<noteq> 0) (rvc_rs2s insn)
       (sext_xlen (xlen p) (XPR p ! X_SP + rvc_addi4spn_imm insn)) insn at_pc p"

definition rv_c_addw :: "insn_bits \<Rightarrow> reg_t \<Rightarrow> processor_t \<Rightarrow> exec" where
  "rv_c_addw insn at_pc p =
     compute (supports_extension (CHR ''C'') p \<and> xlen p = 64) (rvc_rs1s insn)
       (sext32 (XPR p ! rvc_rs1s insn + XPR p ! rvc_rs2s insn)) insn at_pc p"

definition rv_c_and :: "insn_bits \<Rightarrow> reg_t \<Rightarrow> processor_t \<Rightarrow> exec" where
  "rv_c_and insn at_pc p =
     compute (supports_extension (CHR ''C'') p) (rvc_rs1s insn)
       (XPR p ! rvc_rs1s insn AND XPR p ! rvc_rs2s insn) insn at_pc p"

definition rv_c_andi :: "insn_bits \<Rightarrow> reg_t \<Rightarrow> processor_t \<Rightarrow> exec" where
  "rv_c_andi insn at_pc p =
     compute (supports_extension (CHR ''C'') p) (rvc_rs1s insn)
       (XPR p ! rvc_rs1s insn AND rvc_imm insn) insn at_pc p"

definition rv_c_li :: "insn_bits \<Rightarrow> reg_t \<Rightarrow> processor_t \<Rightarrow> exec" where
  "rv_c_li insn at_pc p =
     compute (supports_extension (CHR ''C'') p) (insn_rd insn)
       (rvc_imm insn) insn at_pc p"

definition rv_c_mv :: "insn_bits \<Rightarrow> reg_t \<Rightarrow> processor_t \<Rightarrow> exec" where
  "rv_c_mv insn at_pc p =
     compute (supports_extension (CHR ''C'') p \<and> rvc_rs2 insn \<noteq> 0) (insn_rd insn)
       (XPR p ! rvc_rs2 insn) insn at_pc p"

definition rv_c_or :: "insn_bits \<Rightarrow> reg_t \<Rightarrow> processor_t \<Rightarrow> exec" where
  "rv_c_or insn at_pc p =
     compute (supports_extension (CHR ''C'') p) (rvc_rs1s insn)
       (XPR p ! rvc_rs1s insn OR XPR p ! rvc_rs2s insn) insn at_pc p"

definition rv_c_slli :: "insn_bits \<Rightarrow> reg_t \<Rightarrow> processor_t \<Rightarrow> exec" where
  "rv_c_slli insn at_pc p =
     compute (supports_extension (CHR ''C'') p \<and> unat (rvc_zimm insn) < xlen p) (insn_rd insn)
       (sext_xlen (xlen p) (push_bit (unat (rvc_zimm insn)) (XPR p ! insn_rd insn))) insn at_pc p"

definition rv_c_srai :: "insn_bits \<Rightarrow> reg_t \<Rightarrow> processor_t \<Rightarrow> exec" where
  "rv_c_srai insn at_pc p =
     compute (supports_extension (CHR ''C'') p \<and> unat (rvc_zimm insn) < xlen p) (rvc_rs1s insn)
       (sext_xlen (xlen p) (signed_drop_bit (unat (rvc_zimm insn)) (sext_xlen (xlen p) (XPR p ! rvc_rs1s insn)))) insn at_pc p"

definition rv_c_srli :: "insn_bits \<Rightarrow> reg_t \<Rightarrow> processor_t \<Rightarrow> exec" where
  "rv_c_srli insn at_pc p =
     compute (supports_extension (CHR ''C'') p \<and> unat (rvc_zimm insn) < xlen p) (rvc_rs1s insn)
       (sext_xlen (xlen p) (drop_bit (unat (rvc_zimm insn)) (zext_xlen (xlen p) (XPR p ! rvc_rs1s insn)))) insn at_pc p"

definition rv_c_sub :: "insn_bits \<Rightarrow> reg_t \<Rightarrow> processor_t \<Rightarrow> exec" where
  "rv_c_sub insn at_pc p =
     compute (supports_extension (CHR ''C'') p) (rvc_rs1s insn)
       (sext_xlen (xlen p) (XPR p ! rvc_rs1s insn - XPR p ! rvc_rs2s insn)) insn at_pc p"

definition rv_c_subw :: "insn_bits \<Rightarrow> reg_t \<Rightarrow> processor_t \<Rightarrow> exec" where
  "rv_c_subw insn at_pc p =
     compute (supports_extension (CHR ''C'') p \<and> xlen p = 64) (rvc_rs1s insn)
       (sext32 (XPR p ! rvc_rs1s insn - XPR p ! rvc_rs2s insn)) insn at_pc p"

definition rv_c_xor :: "insn_bits \<Rightarrow> reg_t \<Rightarrow> processor_t \<Rightarrow> exec" where
  "rv_c_xor insn at_pc p =
     compute (supports_extension (CHR ''C'') p) (rvc_rs1s insn)
       (XPR p ! rvc_rs1s insn XOR XPR p ! rvc_rs2s insn) insn at_pc p"

definition rv_c_beqz :: "insn_bits \<Rightarrow> reg_t \<Rightarrow> processor_t \<Rightarrow> exec" where
  "rv_c_beqz insn at_pc p =
     (if supports_extension (CHR ''C'') p then
        if XPR p ! rvc_rs1s insn = 0 then set_pc (at_pc + rvc_b_imm insn) id insn p else Done (next_pc at_pc insn p) p
      else illegal insn p)"

definition rv_c_bnez :: "insn_bits \<Rightarrow> reg_t \<Rightarrow> processor_t \<Rightarrow> exec" where
  "rv_c_bnez insn at_pc p =
     (if supports_extension (CHR ''C'') p then
        if XPR p ! rvc_rs1s insn \<noteq> 0 then set_pc (at_pc + rvc_b_imm insn) id insn p else Done (next_pc at_pc insn p) p
      else illegal insn p)"

definition rv_c_j :: "insn_bits \<Rightarrow> reg_t \<Rightarrow> processor_t \<Rightarrow> exec" where
  "rv_c_j insn at_pc p =
     (if supports_extension (CHR ''C'') p then set_pc (at_pc + rvc_j_imm insn) id insn p else illegal insn p)"

definition rv_c_jal :: "insn_bits \<Rightarrow> reg_t \<Rightarrow> processor_t \<Rightarrow> exec" where
  "rv_c_jal insn at_pc p =
     (if supports_extension (CHR ''C'') p then
        if xlen p = 32 then set_pc (at_pc + rvc_j_imm insn) (write_reg X_RA (next_pc at_pc insn p)) insn p
        else compute (insn_rd insn \<noteq> 0) (insn_rd insn) (sext32 (XPR p ! insn_rd insn + rvc_imm insn)) insn at_pc p
      else illegal insn p)"

definition rv_c_jalr :: "insn_bits \<Rightarrow> reg_t \<Rightarrow> processor_t \<Rightarrow> exec" where
  "rv_c_jalr insn at_pc p =
     (if supports_extension (CHR ''C'') p \<and> insn_rd insn \<noteq> 0
      then set_pc ((XPR p ! insn_rd insn) AND NOT 1) (write_reg X_RA (next_pc at_pc insn p)) insn p
      else illegal insn p)"

definition rv_c_jr :: "insn_bits \<Rightarrow> reg_t \<Rightarrow> processor_t \<Rightarrow> exec" where
  "rv_c_jr insn at_pc p =
     (if supports_extension (CHR ''C'') p \<and> insn_rd insn \<noteq> 0 then set_pc ((XPR p ! insn_rd insn) AND NOT 1) id insn p else illegal insn p)"

definition rv_c_lui :: "insn_bits \<Rightarrow> reg_t \<Rightarrow> processor_t \<Rightarrow> exec" where
  "rv_c_lui insn at_pc p =
     (if supports_extension (CHR ''C'') p then
        if insn_rd insn = 2
        then compute (rvc_addi16sp_imm insn \<noteq> 0) X_SP (sext_xlen (xlen p) (XPR p ! X_SP + rvc_addi16sp_imm insn)) insn at_pc p
        else compute (rvc_imm insn \<noteq> 0) (insn_rd insn) (push_bit 12 (rvc_imm insn)) insn at_pc p
      else illegal insn p)"

end
