(* ===== verification/SF_Mul.thy ===== *)
theory SF_Mul
  imports IEEE_Spec
begin

text \<open>
  Multiplication (\<open>f16_mul.c\<close>, \<open>f32_mul.c\<close>, \<open>f64_mul.c\<close>). The labels of the sources are
  local definitions here. A finite product is correctly rounded in every mode, with the flags
  of IEEE 754; the special cases follow the table of the standard.
\<close>

section \<open>The routines\<close>

definition f16_mul :: "float16 \<Rightarrow> float16 \<Rightarrow> softfloat_state \<Rightarrow> float16 \<times> softfloat_state" where
  "f16_mul a b s =
     (let uiA = to_u64 a;
          signA = signF16UI uiA;
          expA = expF16UI uiA;
          sigA = fracF16UI uiA;
          uiB = to_u64 b;
          signB = signF16UI uiB;
          expB = expF16UI uiB;
          sigB = fracF16UI uiB;
          signZ = (signA \<noteq> signB);
          propagateNaN = (let (uiZ, s) = softfloat_propagateNaNF16UI uiA uiB s in (to_u16 uiZ, s));
          infArg = (\<lambda>magBits.
            if magBits = 0
            then (to_u16 defaultNaNF16UI, softfloat_raiseFlags softfloat_flag_invalid s)
            else (to_u16 (packToF16UI signZ 0x1F 0), s));
          zero = (to_u16 (packToF16UI signZ 0 0), s)
      in if expA = 0x1F then
           (if sigA \<noteq> 0 \<or> (expB = 0x1F \<and> sigB \<noteq> 0) then propagateNaN
            else infArg (word_of_int expB OR sigB))
         else if expB = 0x1F then
           (if sigB \<noteq> 0 then propagateNaN else infArg (word_of_int expA OR sigA))
         else if expA = 0 \<and> sigA = 0 then zero
         else if expB = 0 \<and> sigB = 0 then zero
         else
           (let (expA, sigA) =
                  (if expA = 0 then (es16_exp (softfloat_normSubnormalF16Sig sigA),
                                     es16_sig (softfloat_normSubnormalF16Sig sigA))
                   else (expA, sigA));
                (expB, sigB) =
                  (if expB = 0 then (es16_exp (softfloat_normSubnormalF16Sig sigB),
                                     es16_sig (softfloat_normSubnormalF16Sig sigB))
                   else (expB, sigB));
                expZ = expA + expB - 0xF;
                sigA = push_bit 4 (sigA OR 0x0400);
                sigB = push_bit 5 (sigB OR 0x0400);
                sig32Z = sigA * sigB;
                sigZ = drop_bit 16 sig32Z;
                sigZ = (if sig32Z AND 0xFFFF \<noteq> 0 then sigZ OR 1 else sigZ);
                (expZ, sigZ) = (if sigZ < 0x4000 then (expZ - 1, push_bit 1 sigZ) else (expZ, sigZ))
            in softfloat_roundPackToF16 signZ expZ sigZ s))"

definition f32_mul :: "float32 \<Rightarrow> float32 \<Rightarrow> softfloat_state \<Rightarrow> float32 \<times> softfloat_state" where
  "f32_mul a b s =
     (let uiA = to_u64 a;
          signA = signF32UI uiA;
          expA = expF32UI uiA;
          sigA = fracF32UI uiA;
          uiB = to_u64 b;
          signB = signF32UI uiB;
          expB = expF32UI uiB;
          sigB = fracF32UI uiB;
          signZ = (signA \<noteq> signB);
          propagateNaN = (let (uiZ, s) = softfloat_propagateNaNF32UI uiA uiB s in (to_u32 uiZ, s));
          infArg = (\<lambda>magBits.
            if magBits = 0
            then (to_u32 defaultNaNF32UI, softfloat_raiseFlags softfloat_flag_invalid s)
            else (to_u32 (packToF32UI signZ 0xFF 0), s));
          zero = (to_u32 (packToF32UI signZ 0 0), s)
      in if expA = 0xFF then
           (if sigA \<noteq> 0 \<or> (expB = 0xFF \<and> sigB \<noteq> 0) then propagateNaN
            else infArg (word_of_int expB OR sigB))
         else if expB = 0xFF then
           (if sigB \<noteq> 0 then propagateNaN else infArg (word_of_int expA OR sigA))
         else if expA = 0 \<and> sigA = 0 then zero
         else if expB = 0 \<and> sigB = 0 then zero
         else
           (let (expA, sigA) =
                  (if expA = 0 then (es32_exp (softfloat_normSubnormalF32Sig sigA),
                                     es32_sig (softfloat_normSubnormalF32Sig sigA))
                   else (expA, sigA));
                (expB, sigB) =
                  (if expB = 0 then (es32_exp (softfloat_normSubnormalF32Sig sigB),
                                     es32_sig (softfloat_normSubnormalF32Sig sigB))
                   else (expB, sigB));
                expZ = expA + expB - 0x7F;
                sigA = push_bit 7 (sigA OR 0x00800000);
                sigB = push_bit 8 (sigB OR 0x00800000);
                sigZ = softfloat_shortShiftRightJam64 (sigA * sigB) 32;
                (expZ, sigZ) = (if sigZ < 0x40000000 then (expZ - 1, push_bit 1 sigZ) else (expZ, sigZ))
            in softfloat_roundPackToF32 signZ expZ sigZ s))"

definition f64_mul :: "float64 \<Rightarrow> float64 \<Rightarrow> softfloat_state \<Rightarrow> float64 \<times> softfloat_state" where
  "f64_mul a b s =
     (let uiA = a;
          signA = signF64UI uiA;
          expA = expF64UI uiA;
          sigA = fracF64UI uiA;
          uiB = b;
          signB = signF64UI uiB;
          expB = expF64UI uiB;
          sigB = fracF64UI uiB;
          signZ = (signA \<noteq> signB);
          propagateNaN = (let (uiZ, s) = softfloat_propagateNaNF64UI uiA uiB s in (uiZ, s));
          infArg = (\<lambda>magBits.
            if magBits = 0
            then (defaultNaNF64UI, softfloat_raiseFlags softfloat_flag_invalid s)
            else ((packToF64UI signZ 0x7FF 0), s));
          zero = ((packToF64UI signZ 0 0), s)
      in if expA = 0x7FF then
           (if sigA \<noteq> 0 \<or> (expB = 0x7FF \<and> sigB \<noteq> 0) then propagateNaN
            else infArg (word_of_int expB OR sigB))
         else if expB = 0x7FF then
           (if sigB \<noteq> 0 then propagateNaN else infArg (word_of_int expA OR sigA))
         else if expA = 0 \<and> sigA = 0 then zero
         else if expB = 0 \<and> sigB = 0 then zero
         else
           (let (expA, sigA) =
                  (if expA = 0 then (es64_exp (softfloat_normSubnormalF64Sig sigA),
                                     es64_sig (softfloat_normSubnormalF64Sig sigA))
                   else (expA, sigA));
                (expB, sigB) =
                  (if expB = 0 then (es64_exp (softfloat_normSubnormalF64Sig sigB),
                                     es64_sig (softfloat_normSubnormalF64Sig sigB))
                   else (expB, sigB));
                expZ = expA + expB - 0x3FF;
                sigA = push_bit 10 (sigA OR 0x0010000000000000);
                sigB = push_bit 11 (sigB OR 0x0010000000000000);
                sig128Z = softfloat_mul64To128 sigA sigB;
                sigZ = u128_v64 sig128Z OR of_bool (u128_v0 sig128Z \<noteq> 0);
                (expZ, sigZ) = (if sigZ < 0x4000000000000000 then (expZ - 1, push_bit 1 sigZ) else (expZ, sigZ))
            in softfloat_roundPackToF64 signZ expZ sigZ s))"

section \<open>The rounding of a product\<close>

context round_pack
begin

lemma mul_rounds:
  assumes a: "norm_arg p w A eA SA" and b: "norm_arg p w B eB SB"
    and k: "3 \<le> k" "k \<le> p + 1" and w: "2 \<le> w" and len: "p + k + 1 \<le> 64"
    and sig: "unat sig = nat (jam (of_nat (SA * SB) / 2 ^ (p + 1 - k)))"
    and e: "eA + eB - fp_bias w \<in> exp_range" "eA + eB - fp_bias w - 1 \<in> exp_range"
    and half: "unat half = 2 ^ (p + k)"
    and r: "roundPack sign (if sig < half then eA + eB - fp_bias w - 1 else eA + eB - fp_bias w)
      (if sig < half then push_bit 1 sig else sig) s = (r, s')"
  shows "fp_rounds_to p w s sign (fp_magn p w A * fp_magn p w B) (unat r) s'"
proof -
  define j where "j = p + 1 - k"
  have sa: "2 ^ p \<le> SA" "SA < 2 ^ (p + 1)" and sb: "2 ^ p \<le> SB" "SB < 2 ^ (p + 1)"
    using a b by (simp_all add: norm_arg_def)
  have "2 ^ p * 2 ^ p \<le> SA * SB" "SA * SB < 2 ^ (p + 1) * 2 ^ (p + 1)"
    using mult_le_mono[OF sa(1) sb(1)] mult_strict_mono[OF sa(2) sb(2)] by simp_all
  then have "real (2 ^ p * 2 ^ p) \<le> real (SA * SB)" "real (SA * SB) < real (2 ^ (p + 1) * 2 ^ (p + 1))"
    by (simp_all only: of_nat_le_iff of_nat_less_iff)
  moreover have "p + p = p + k - 1 + j" "(p + 1) + (p + 1) = p + k + 1 + j"
    using k by (simp_all add: j_def)
  then have "(2::real) ^ p * 2 ^ p = 2 ^ (p + k - 1) * 2 ^ j" "(2::real) ^ (p + 1) * 2 ^ (p + 1) = 2 ^ (p + k + 1) * 2 ^ j"
    by (simp_all only: power_add[symmetric])
  ultimately have "2 ^ (p + k - 1) * 2 ^ j \<le> real (SA * SB)" "real (SA * SB) < 2 ^ (p + k + 1) * 2 ^ j"
    by (simp_all only: of_nat_mult of_nat_power of_nat_numeral)
  then have y: "2 ^ (p + k - 1) \<le> real (SA * SB) / 2 ^ j" "real (SA * SB) / 2 ^ j < 2 ^ (p + k + 1)"
    by (simp_all add: le_divide_eq divide_less_eq)
  have "fp_magn p w A * fp_magn p w B =
      real (SA * SB) * (2 powi (fp_emin p w + eA - 1) * 2 powi (fp_emin p w + eB - 1))"
    using a b by (simp add: norm_arg_def)
  also have "\<dots> = real (SA * SB) / 2 ^ j * (2 powi int j * (2 powi (fp_emin p w + eA - 1) * 2 powi (fp_emin p w + eB - 1)))"
    by simp
  also have "2 powi int j * (2 powi (fp_emin p w + eA - 1) * 2 powi (fp_emin p w + eB - 1)) =
      (2 powi (int j + ((fp_emin p w + eA - 1) + (fp_emin p w + eB - 1))) :: real)"
    by (simp only: powi_plus)
  also have "int j + ((fp_emin p w + eA - 1) + (fp_emin p w + eB - 1)) = fp_emin p w + (eA + eB - fp_bias w) - int k"
    using k by (simp add: j_def fp_emin_def of_nat_diff)
  finally show ?thesis
    using rounds_jam_norm[OF y k(1) w len sig[folded j_def] e half r] by simp
qed

end

section \<open>Products of finite numbers\<close>

lemma f16_mul_rounds:
  assumes fin: "fp_finite 10 5 (unat a)" "fp_finite 10 5 (unat b)" and r: "f16_mul a b s = (r, s')"
  shows "fp_rounds_to 10 5 s (fp_sign 10 5 (unat a) \<noteq> fp_sign 10 5 (unat b))
    (fp_magn 10 5 (unat a) * fp_magn 10 5 (unat b)) (unat r) s'"
proof (cases "fp_abs 10 5 (unat a) = 0 \<or> fp_abs 10 5 (unat b) = 0")
  case True
  then have z: "fp_magn 10 5 (unat a) * fp_magn 10 5 (unat b) = 0"
    by (auto simp: fp_magn_eq_0)
  have "r = to_u16 (packToF16UI (fp_sign 10 5 (unat a) \<noteq> fp_sign 10 5 (unat b)) 0 0)" "s' = s"
    using True fin r unfolding f16_mul_def Let_def F16_fields word_eq_0_unat[of "fracF16UI _"]
    by (auto simp: fp_class_fields fp_abs_fields split: if_splits prod.splits)
  then show ?thesis
    unfolding z by (simp only: pack_zeroF16 fp_rounds_to_0[of 5, simplified])
next
  case False
  define signZ where "signZ \<longleftrightarrow> fp_sign 10 5 (unat a) \<noteq> fp_sign 10 5 (unat b)"
  obtain eA zA where A: "(eA, zA) =
      (if expF16UI (to_u64 a) = 0
       then (es16_exp (softfloat_normSubnormalF16Sig (fracF16UI (to_u64 a))),
             es16_sig (softfloat_normSubnormalF16Sig (fracF16UI (to_u64 a))))
       else (expF16UI (to_u64 a), fracF16UI (to_u64 a)))"
    by (metis surj_pair)
  obtain eB zB where B: "(eB, zB) =
      (if expF16UI (to_u64 b) = 0
       then (es16_exp (softfloat_normSubnormalF16Sig (fracF16UI (to_u64 b))),
             es16_sig (softfloat_normSubnormalF16Sig (fracF16UI (to_u64 b))))
       else (expF16UI (to_u64 b), fracF16UI (to_u64 b)))"
    by (metis surj_pair)
  define sA sB where "sA = zA OR 0x0400" and "sB = zB OR 0x0400"
  have a: "norm_arg 10 5 (unat a) eA (unat sA)" and b: "norm_arg 10 5 (unat b) eB (unat sB)"
    using norm_argF16[OF fin(1) _ A] norm_argF16[OF fin(2) _ B] False by (simp_all add: sA_def sB_def)
  then have bd: "unat sA < 2 ^ 11" "unat sB < 2 ^ 11" "- 9 \<le> eA" "eA < 31" "- 9 \<le> eB" "eB < 31"
    by (simp_all add: norm_arg_def)
  have nz: "\<not> (expF16UI (to_u64 a) = 0 \<and> fracF16UI (to_u64 a) = 0)" "\<not> (expF16UI (to_u64 b) = 0 \<and> fracF16UI (to_u64 b) = 0)"
      "expF16UI (to_u64 a) \<noteq> 0x1F" "expF16UI (to_u64 b) \<noteq> 0x1F"
    using False fin unfolding F16_fields word_eq_0_unat[of "fracF16UI _"] by (simp_all add: fp_abs_fields fp_class_fields)
  define prd where "prd = push_bit 4 sA * push_bit 5 sB"
  define sig where "sig = (if prd AND 0xFFFF \<noteq> 0 then drop_bit 16 prd OR 1 else drop_bit 16 prd)"
  have "unat (push_bit 4 sA) = unat sA * 2 ^ 4" "unat (push_bit 5 sB) = unat sB * 2 ^ 5"
    using bd(1,2) by (intro unat_push_bit_mult, simp)+
  moreover have "unat sA * unat sB < 2 ^ 11 * 2 ^ 11"
    using bd by (intro mult_strict_mono) simp_all
  ultimately have "unat prd = unat sA * unat sB * 2 ^ 9"
    unfolding prd_def by (subst unat_mult_no_wrap) simp_all
  then have "int (unat sig) = jam (of_nat (unat sA * unat sB) / 2 ^ 7)"
    unfolding sig_def fold16_jam by simp
  then have sig: "unat sig = nat (jam (of_nat (unat sA * unat sB) / 2 ^ (10 + 1 - 4)))"
    by simp
  have call: "softfloat_roundPackToF16 signZ
      (if sig < 0x4000 then eA + eB - fp_bias 5 - 1 else eA + eB - fp_bias 5)
      (if sig < 0x4000 then push_bit 1 sig else sig) s = (r, s')"
    using r nz unfolding f16_mul_def Let_def A[symmetric] B[symmetric] F16_fields(1) signZ_def[symmetric] sA_def[symmetric] sB_def[symmetric] prod.case prd_def[symmetric] sig_def[symmetric]
    by (auto simp: fp_bias_def split: if_splits)
  show ?thesis
    unfolding signZ_def[symmetric]
    by (rule f16.mul_rounds[OF a b _ _ _ _ sig _ _ _ call]) (use bd in \<open>simp_all add: fp_bias_def\<close>)
qed

lemma f32_mul_rounds:
  assumes fin: "fp_finite 23 8 (unat a)" "fp_finite 23 8 (unat b)" and r: "f32_mul a b s = (r, s')"
  shows "fp_rounds_to 23 8 s (fp_sign 23 8 (unat a) \<noteq> fp_sign 23 8 (unat b))
    (fp_magn 23 8 (unat a) * fp_magn 23 8 (unat b)) (unat r) s'"
proof (cases "fp_abs 23 8 (unat a) = 0 \<or> fp_abs 23 8 (unat b) = 0")
  case True
  then have z: "fp_magn 23 8 (unat a) * fp_magn 23 8 (unat b) = 0"
    by (auto simp: fp_magn_eq_0)
  have "r = to_u32 (packToF32UI (fp_sign 23 8 (unat a) \<noteq> fp_sign 23 8 (unat b)) 0 0)" "s' = s"
    using True fin r unfolding f32_mul_def Let_def F32_fields word_eq_0_unat[of "fracF32UI _"]
    by (auto simp: fp_class_fields fp_abs_fields split: if_splits prod.splits)
  then show ?thesis
    unfolding z by (simp only: pack_zeroF32 fp_rounds_to_0[of 8, simplified])
next
  case False
  define signZ where "signZ \<longleftrightarrow> fp_sign 23 8 (unat a) \<noteq> fp_sign 23 8 (unat b)"
  obtain eA zA where A: "(eA, zA) =
      (if expF32UI (to_u64 a) = 0
       then (es32_exp (softfloat_normSubnormalF32Sig (fracF32UI (to_u64 a))),
             es32_sig (softfloat_normSubnormalF32Sig (fracF32UI (to_u64 a))))
       else (expF32UI (to_u64 a), fracF32UI (to_u64 a)))"
    by (metis surj_pair)
  obtain eB zB where B: "(eB, zB) =
      (if expF32UI (to_u64 b) = 0
       then (es32_exp (softfloat_normSubnormalF32Sig (fracF32UI (to_u64 b))),
             es32_sig (softfloat_normSubnormalF32Sig (fracF32UI (to_u64 b))))
       else (expF32UI (to_u64 b), fracF32UI (to_u64 b)))"
    by (metis surj_pair)
  define sA sB where "sA = zA OR 0x00800000" and "sB = zB OR 0x00800000"
  have a: "norm_arg 23 8 (unat a) eA (unat sA)" and b: "norm_arg 23 8 (unat b) eB (unat sB)"
    using norm_argF32[OF fin(1) _ A] norm_argF32[OF fin(2) _ B] False by (simp_all add: sA_def sB_def)
  then have bd: "unat sA < 2 ^ 24" "unat sB < 2 ^ 24" "- 22 \<le> eA" "eA < 255" "- 22 \<le> eB" "eB < 255"
    by (simp_all add: norm_arg_def)
  have nz: "\<not> (expF32UI (to_u64 a) = 0 \<and> fracF32UI (to_u64 a) = 0)" "\<not> (expF32UI (to_u64 b) = 0 \<and> fracF32UI (to_u64 b) = 0)"
      "expF32UI (to_u64 a) \<noteq> 0xFF" "expF32UI (to_u64 b) \<noteq> 0xFF"
    using False fin unfolding F32_fields word_eq_0_unat[of "fracF32UI _"] by (simp_all add: fp_abs_fields fp_class_fields)
  define sig where "sig = softfloat_shortShiftRightJam64 (push_bit 7 sA * push_bit 8 sB) 32"
  have "unat (push_bit 7 sA) = unat sA * 2 ^ 7" "unat (push_bit 8 sB) = unat sB * 2 ^ 8"
    using bd(1,2) by (intro unat_push_bit_mult, simp)+
  moreover have "unat sA * unat sB < 2 ^ 24 * 2 ^ 24"
    using bd by (intro mult_strict_mono) simp_all
  ultimately have "unat (push_bit 7 sA * push_bit 8 sB) = unat sA * unat sB * 2 ^ 15"
    by (subst unat_mult_no_wrap) simp_all
  then have "int (unat sig) = jam (of_nat (unat sA * unat sB) / 2 ^ 17)"
    unfolding sig_def by (subst shortShiftRightJam64_correct) simp_all
  then have sig: "unat sig = nat (jam (of_nat (unat sA * unat sB) / 2 ^ (23 + 1 - 7)))"
    by simp
  have call: "softfloat_roundPackToF32 signZ
      (if sig < 0x40000000 then eA + eB - fp_bias 8 - 1 else eA + eB - fp_bias 8)
      (if sig < 0x40000000 then push_bit 1 sig else sig) s = (r, s')"
    using r nz unfolding f32_mul_def Let_def A[symmetric] B[symmetric] F32_fields(1) signZ_def[symmetric] sA_def[symmetric] sB_def[symmetric] prod.case sig_def[symmetric]
    by (auto simp: fp_bias_def split: if_splits)
  show ?thesis
    unfolding signZ_def[symmetric]
    by (rule f32.mul_rounds[OF a b _ _ _ _ sig _ _ _ call]) (use bd in \<open>simp_all add: fp_bias_def\<close>)
qed

lemma f64_mul_rounds:
  assumes fin: "fp_finite 52 11 (unat a)" "fp_finite 52 11 (unat b)" and r: "f64_mul a b s = (r, s')"
  shows "fp_rounds_to 52 11 s (fp_sign 52 11 (unat a) \<noteq> fp_sign 52 11 (unat b))
    (fp_magn 52 11 (unat a) * fp_magn 52 11 (unat b)) (unat r) s'"
proof (cases "fp_abs 52 11 (unat a) = 0 \<or> fp_abs 52 11 (unat b) = 0")
  case True
  then have z: "fp_magn 52 11 (unat a) * fp_magn 52 11 (unat b) = 0"
    by (auto simp: fp_magn_eq_0)
  have "r = (packToF64UI (fp_sign 52 11 (unat a) \<noteq> fp_sign 52 11 (unat b)) 0 0)" "s' = s"
    using True fin r unfolding f64_mul_def Let_def F64_fields word_eq_0_unat[of "fracF64UI _"]
    by (auto simp: fp_class_fields fp_abs_fields split: if_splits prod.splits)
  then show ?thesis
    unfolding z by (simp only: pack_zeroF64 fp_rounds_to_0[of 11, simplified])
next
  case False
  define signZ where "signZ \<longleftrightarrow> fp_sign 52 11 (unat a) \<noteq> fp_sign 52 11 (unat b)"
  obtain eA zA where A: "(eA, zA) =
      (if expF64UI a = 0
       then (es64_exp (softfloat_normSubnormalF64Sig (fracF64UI a)),
             es64_sig (softfloat_normSubnormalF64Sig (fracF64UI a)))
       else (expF64UI a, fracF64UI a))"
    by (metis surj_pair)
  obtain eB zB where B: "(eB, zB) =
      (if expF64UI b = 0
       then (es64_exp (softfloat_normSubnormalF64Sig (fracF64UI b)),
             es64_sig (softfloat_normSubnormalF64Sig (fracF64UI b)))
       else (expF64UI b, fracF64UI b))"
    by (metis surj_pair)
  define sA sB where "sA = zA OR 0x0010000000000000" and "sB = zB OR 0x0010000000000000"
  have a: "norm_arg 52 11 (unat a) eA (unat sA)" and b: "norm_arg 52 11 (unat b) eB (unat sB)"
    using norm_argF64[OF fin(1) _ A] norm_argF64[OF fin(2) _ B] False by (simp_all add: sA_def sB_def)
  then have bd: "unat sA < 2 ^ 53" "unat sB < 2 ^ 53" "- 51 \<le> eA" "eA < 2047" "- 51 \<le> eB" "eB < 2047"
    by (simp_all add: norm_arg_def)
  have nz: "\<not> (expF64UI a = 0 \<and> fracF64UI a = 0)" "\<not> (expF64UI b = 0 \<and> fracF64UI b = 0)"
      "expF64UI a \<noteq> 0x7FF" "expF64UI b \<noteq> 0x7FF"
    using False fin unfolding F64_fields word_eq_0_unat[of "fracF64UI _"] by (simp_all add: fp_abs_fields fp_class_fields)
  define prd where "prd = softfloat_mul64To128 (push_bit 10 sA) (push_bit 11 sB)"
  define sig where "sig = u128_v64 prd OR of_bool (u128_v0 prd \<noteq> 0)"
  have "unat (push_bit 10 sA) = unat sA * 2 ^ 10" "unat (push_bit 11 sB) = unat sB * 2 ^ 11"
    using bd(1,2) by (intro unat_push_bit_mult, simp)+
  then have "u128_nat prd = unat sA * unat sB * 2 ^ 21"
    by (simp add: prd_def mul64To128_correct)
  then have "int (unat sig) = jam (of_nat (unat sA * unat sB) / 2 ^ 43)"
    unfolding sig_def u128_jam by simp
  then have sig: "unat sig = nat (jam (of_nat (unat sA * unat sB) / 2 ^ (52 + 1 - 10)))"
    by simp
  have call: "softfloat_roundPackToF64 signZ
      (if sig < 0x4000000000000000 then eA + eB - fp_bias 11 - 1 else eA + eB - fp_bias 11)
      (if sig < 0x4000000000000000 then push_bit 1 sig else sig) s = (r, s')"
    using r nz unfolding f64_mul_def Let_def A[symmetric] B[symmetric] F64_fields(1) signZ_def[symmetric] sA_def[symmetric] sB_def[symmetric] prod.case prd_def[symmetric] sig_def[symmetric]
    by (auto simp: fp_bias_def split: if_splits)
  show ?thesis
    unfolding signZ_def[symmetric]
    by (rule f64.mul_rounds[OF a b _ _ _ _ sig _ _ _ call]) (use bd in \<open>simp_all add: fp_bias_def\<close>)
qed

section \<open>All operands\<close>

text \<open>
  For all operands, rounding modes and tininess settings, \<open>f16_mul\<close> returns what IEEE 754
  asks of a half-precision product: the correctly rounded pattern and the overflow, underflow
  and inexact flags where both operands are finite; an infinity of the product's sign for
  infinity times nonzero; the canonical NaN and the invalid flag for infinity times zero; the
  canonical NaN, with the invalid flag for signaling operands, where an operand is a NaN.
\<close>

lemma f16_mul_correct:
  "mul_spec 10 5 s (unat a) (unat b) (unat (fst (f16_mul a b s))) (snd (f16_mul a b s))"
proof (cases "fp_finite 10 5 (unat a) \<and> fp_finite 10 5 (unat b)")
  case True
  then show ?thesis
    using f16_mul_rounds[OF _ _ prod.collapse[symmetric]]
    by (simp add: mul_spec_def fp_class_fields)
next
  case False
  then have "fp_exp 10 5 (unat a) = 31 \<or> fp_exp 10 5 (unat b) = 31"
    by (auto simp: fp_class_fields)
  then show ?thesis
    unfolding f16_mul_def Let_def
    unfolding mag_bitsF16
    unfolding F16_fields(1,2) word_eq_0_unat[of "fracF16UI _"] F16_fields(3)
    by (cases "fp_exp 10 5 (unat a) = 31"; cases "fp_exp 10 5 (unat b) = 31";
        cases "fp_frac 10 (unat a) = 0"; cases "fp_frac 10 (unat b) = 0")
      (simp_all add: mul_spec_def nan_result_def invalid_result_def raise_if_def fp_class_fields
        softfloat_propagateNaNF16UI_def isSigNaNF16UI_snan fp_qnan_values pack_infF16 fp_zero_fields)
qed

text \<open>
  For all operands, rounding modes and tininess settings, \<open>f32_mul\<close> returns what IEEE 754
  asks of a single-precision product: the correctly rounded pattern and the overflow, underflow
  and inexact flags where both operands are finite; an infinity of the product's sign for
  infinity times nonzero; the canonical NaN and the invalid flag for infinity times zero; the
  canonical NaN, with the invalid flag for signaling operands, where an operand is a NaN.
\<close>

lemma f32_mul_correct:
  "mul_spec 23 8 s (unat a) (unat b) (unat (fst (f32_mul a b s))) (snd (f32_mul a b s))"
proof (cases "fp_finite 23 8 (unat a) \<and> fp_finite 23 8 (unat b)")
  case True
  then show ?thesis
    using f32_mul_rounds[OF _ _ prod.collapse[symmetric]]
    by (simp add: mul_spec_def fp_class_fields)
next
  case False
  then have "fp_exp 23 8 (unat a) = 255 \<or> fp_exp 23 8 (unat b) = 255"
    by (auto simp: fp_class_fields)
  then show ?thesis
    unfolding f32_mul_def Let_def
    unfolding mag_bitsF32
    unfolding F32_fields(1,2) word_eq_0_unat[of "fracF32UI _"] F32_fields(3)
    by (cases "fp_exp 23 8 (unat a) = 255"; cases "fp_exp 23 8 (unat b) = 255";
        cases "fp_frac 23 (unat a) = 0"; cases "fp_frac 23 (unat b) = 0")
      (simp_all add: mul_spec_def nan_result_def invalid_result_def raise_if_def fp_class_fields
        softfloat_propagateNaNF32UI_def isSigNaNF32UI_snan fp_qnan_values pack_infF32 fp_zero_fields)
qed

text \<open>
  For all operands, rounding modes and tininess settings, \<open>f64_mul\<close> returns what IEEE 754
  asks of a double-precision product: the correctly rounded pattern and the overflow, underflow
  and inexact flags where both operands are finite; an infinity of the product's sign for
  infinity times nonzero; the canonical NaN and the invalid flag for infinity times zero; the
  canonical NaN, with the invalid flag for signaling operands, where an operand is a NaN.
\<close>

lemma f64_mul_correct:
  "mul_spec 52 11 s (unat a) (unat b) (unat (fst (f64_mul a b s))) (snd (f64_mul a b s))"
proof (cases "fp_finite 52 11 (unat a) \<and> fp_finite 52 11 (unat b)")
  case True
  then show ?thesis
    using f64_mul_rounds[OF _ _ prod.collapse[symmetric]]
    by (simp add: mul_spec_def fp_class_fields)
next
  case False
  then have "fp_exp 52 11 (unat a) = 2047 \<or> fp_exp 52 11 (unat b) = 2047"
    by (auto simp: fp_class_fields)
  then show ?thesis
    unfolding f64_mul_def Let_def
    unfolding mag_bitsF64
    unfolding F64_fields(1,2) word_eq_0_unat[of "fracF64UI _"] F64_fields(3)
    by (cases "fp_exp 52 11 (unat a) = 2047"; cases "fp_exp 52 11 (unat b) = 2047";
        cases "fp_frac 52 (unat a) = 0"; cases "fp_frac 52 (unat b) = 0")
      (simp_all add: mul_spec_def nan_result_def invalid_result_def raise_if_def fp_class_fields
        softfloat_propagateNaNF64UI_def isSigNaNF64UI_snan fp_qnan_values pack_infF64 fp_zero_fields)
qed

text \<open>
  C1: for all operands, rounding modes and tininess settings, \<open>f16_mul\<close>, \<open>f32_mul\<close> and \<open>f64_mul\<close>
  return what IEEE 754 asks of a product: the correctly rounded pattern and the overflow,
  underflow and inexact flags where both operands are finite; an infinity of the product's sign
  for infinity times nonzero; the canonical NaN and the invalid flag for infinity times zero; the
  canonical NaN, with the invalid flag for signaling operands, where an operand is a NaN.
\<close>

theorem multiplication_correct:
  "mul_spec 10 5 s (unat a16) (unat b16) (unat (fst (f16_mul a16 b16 s))) (snd (f16_mul a16 b16 s))
   \<and> mul_spec 23 8 s (unat a32) (unat b32) (unat (fst (f32_mul a32 b32 s))) (snd (f32_mul a32 b32 s))
   \<and> mul_spec 52 11 s (unat a64) (unat b64) (unat (fst (f64_mul a64 b64 s))) (snd (f64_mul a64 b64 s))"
  by (intro conjI f16_mul_correct f32_mul_correct f64_mul_correct)

end
