(* ===== verification/SF_Add.thy ===== *)
theory SF_Add
  imports SF_AddCore
begin

text \<open>
  Addition and subtraction (\<open>s_addMagsF16/F32/F64.c\<close>, \<open>s_subMagsF16/F32/F64.c\<close>,
  \<open>f16_add.c\<close>, \<open>f16_sub.c\<close> and their kin). The magnitude routines hold the arithmetic; the
  exported ones choose between them by the signs. A difference of two significands is a
  signed 64-bit integer in the sources, here an \<open>int\<close>.
\<close>

section \<open>Half precision\<close>

definition softfloat_addMagsF16 ::
  "uint_fast16 \<Rightarrow> uint_fast16 \<Rightarrow> softfloat_state \<Rightarrow> float16 \<times> softfloat_state" where
  "softfloat_addMagsF16 uiA uiB s =
     (let expA = expF16UI uiA;
          sigA = fracF16UI uiA;
          expB = expF16UI uiB;
          sigB = fracF16UI uiB;
          expDiff = expA - expB;
          propagateNaN = (let (uiZ, s) = softfloat_propagateNaNF16UI uiA uiB s in (to_u16 uiZ, s));
          addEpsilon = (\<lambda>uiZ.
            let roundingMode = softfloat_roundingMode s;
                (uiZ, s) =
                  (if roundingMode \<noteq> softfloat_round_near_even
                   then if roundingMode =
                             (if signF16UI uiZ then softfloat_round_min else softfloat_round_max)
                        then (uiZ + 1,
                              if to_u16 (push_bit 1 (uiZ + 1)) = 0xF800
                              then softfloat_raiseFlags
                                     (softfloat_flag_overflow OR softfloat_flag_inexact) s
                              else s)
                        else if roundingMode = softfloat_round_odd then (uiZ OR 1, s)
                        else (uiZ, s)
                   else (uiZ, s))
            in (to_u16 uiZ, softfloat_raiseFlags softfloat_flag_inexact s));
          farSum = (\<lambda>signZ expZ sigX sigY shiftDist.
            let sig32Z = push_bit 19 sigX + shl sigY shiftDist;
                (expZ, sig32Z) =
                  (if sig32Z < 0x40000000 then (expZ - 1, push_bit 1 sig32Z) else (expZ, sig32Z));
                sigZ = drop_bit 16 sig32Z
            in if sig32Z AND 0xFFFF \<noteq> 0 then softfloat_roundPackToF16 signZ expZ (sigZ OR 1) s
               else if sigZ AND 0xF = 0 \<and> expZ < 0x1E
               then (to_u16 (packToF16UI signZ expZ (drop_bit 4 sigZ)), s)
               else softfloat_roundPackToF16 signZ expZ sigZ s)
      in if expDiff = 0 then
           (if expA = 0 then (to_u16 (uiA + sigB), s)
            else if expA = 0x1F then
              (if sigA OR sigB \<noteq> 0 then propagateNaN else (to_u16 uiA, s))
            else
              (let signZ = signF16UI uiA;
                   sigZ = 0x0800 + sigA + sigB
               in if sigZ AND 1 = 0 \<and> expA < 0x1E
                  then (to_u16 (packToF16UI signZ expA (drop_bit 1 sigZ)), s)
                  else softfloat_roundPackToF16 signZ expA (push_bit 3 sigZ) s))
         else
           (let signZ = signF16UI uiA
            in if expDiff < 0 then
                 (if expB = 0x1F then
                    (if sigB \<noteq> 0 then propagateNaN else (to_u16 (packToF16UI signZ 0x1F 0), s))
                  else if expDiff \<le> -13 then
                    (let uiZ = packToF16UI signZ expB sigB
                     in if word_of_int expA OR sigA \<noteq> 0 then addEpsilon uiZ else (to_u16 uiZ, s))
                  else farSum signZ expB (sigB OR 0x0400) (sigA + (if expA \<noteq> 0 then 0x0400 else sigA))
                         (19 + expDiff))
               else
                 (if expA = 0x1F then (if sigA \<noteq> 0 then propagateNaN else (to_u16 uiA, s))
                  else if 13 \<le> expDiff then
                    (if word_of_int expB OR sigB \<noteq> 0 then addEpsilon uiA else (to_u16 uiA, s))
                  else farSum signZ expA (sigA OR 0x0400) (sigB + (if expB \<noteq> 0 then 0x0400 else sigB))
                         (19 - expDiff))))"

definition softfloat_subMagsF16 ::
  "uint_fast16 \<Rightarrow> uint_fast16 \<Rightarrow> softfloat_state \<Rightarrow> float16 \<times> softfloat_state" where
  "softfloat_subMagsF16 uiA uiB s =
     (let expA = expF16UI uiA;
          sigA = fracF16UI uiA;
          expB = expF16UI uiB;
          sigB = fracF16UI uiB;
          expDiff = expA - expB;
          propagateNaN = (let (uiZ, s) = softfloat_propagateNaNF16UI uiA uiB s in (to_u16 uiZ, s));
          subEpsilon = (\<lambda>uiZ.
            let roundingMode = softfloat_roundingMode s;
                uiZ =
                  (if roundingMode \<noteq> softfloat_round_near_even
                   then if roundingMode = softfloat_round_minMag
                             \<or> roundingMode =
                                 (if signF16UI uiZ then softfloat_round_max else softfloat_round_min)
                        then uiZ - 1
                        else if roundingMode = softfloat_round_odd then (uiZ - 1) OR 1
                        else uiZ
                   else uiZ)
            in (to_u16 uiZ, softfloat_raiseFlags softfloat_flag_inexact s));
          farDiff = (\<lambda>signZ expZ sigX sigY expDiff.
            let sig32Z = shl sigX expDiff - sigY;
                shiftDist = int (unat (softfloat_countLeadingZeros32 (to_u32 sig32Z))) - 1;
                sig32Z = shl sig32Z shiftDist;
                expZ = expZ - shiftDist;
                sigZ = drop_bit 16 sig32Z
            in if sig32Z AND 0xFFFF \<noteq> 0 then softfloat_roundPackToF16 signZ expZ (sigZ OR 1) s
               else if sigZ AND 0xF = 0 \<and> (word_of_int expZ :: uint32) < 0x1E
               then (to_u16 (packToF16UI signZ expZ (drop_bit 4 sigZ)), s)
               else softfloat_roundPackToF16 signZ expZ sigZ s)
      in if expDiff = 0 then
           (if expA = 0x1F then
              (if sigA OR sigB \<noteq> 0 then propagateNaN
               else (to_u16 defaultNaNF16UI, softfloat_raiseFlags softfloat_flag_invalid s))
            else
              (let sigDiff = int (unat sigA) - int (unat sigB)
               in if sigDiff = 0
                  then (to_u16 (packToF16UI (softfloat_roundingMode s = softfloat_round_min) 0 0), s)
                  else
                    (let expA = (if expA \<noteq> 0 then expA - 1 else expA);
                         signZ = signF16UI uiA;
                         (signZ, sigDiff) =
                           (if sigDiff < 0 then (\<not> signZ, - sigDiff) else (signZ, sigDiff));
                         shiftDist =
                           int (unat (softfloat_countLeadingZeros16 (word_of_int sigDiff))) - 5;
                         expZ = expA - shiftDist;
                         (shiftDist, expZ) = (if expZ < 0 then (expA, 0) else (shiftDist, expZ))
                     in (to_u16 (packToF16UI signZ expZ (shl (word_of_int sigDiff) shiftDist)), s))))
         else
           (let signZ = signF16UI uiA
            in if expDiff < 0 then
                 (let signZ = (\<not> signZ)
                  in if expB = 0x1F then
                       (if sigB \<noteq> 0 then propagateNaN else (to_u16 (packToF16UI signZ 0x1F 0), s))
                     else if expDiff \<le> -13 then
                       (let uiZ = packToF16UI signZ expB sigB
                        in if word_of_int expA OR sigA \<noteq> 0 then subEpsilon uiZ else (to_u16 uiZ, s))
                     else farDiff signZ (expA + 19) (sigB OR 0x0400)
                            (sigA + (if expA \<noteq> 0 then 0x0400 else sigA)) (- expDiff))
               else
                 (if expA = 0x1F then (if sigA \<noteq> 0 then propagateNaN else (to_u16 uiA, s))
                  else if 13 \<le> expDiff then
                    (if word_of_int expB OR sigB \<noteq> 0 then subEpsilon uiA else (to_u16 uiA, s))
                  else farDiff signZ (expB + 19) (sigA OR 0x0400)
                         (sigB + (if expB \<noteq> 0 then 0x0400 else sigB)) expDiff)))"

definition f16_add :: "float16 \<Rightarrow> float16 \<Rightarrow> softfloat_state \<Rightarrow> float16 \<times> softfloat_state" where
  "f16_add a b s =
     (if signF16UI (to_u64 a XOR to_u64 b) then softfloat_subMagsF16 (to_u64 a) (to_u64 b) s
      else softfloat_addMagsF16 (to_u64 a) (to_u64 b) s)"

definition f16_sub :: "float16 \<Rightarrow> float16 \<Rightarrow> softfloat_state \<Rightarrow> float16 \<times> softfloat_state" where
  "f16_sub a b s =
     (if signF16UI (to_u64 a XOR to_u64 b) then softfloat_addMagsF16 (to_u64 a) (to_u64 b) s
      else softfloat_subMagsF16 (to_u64 a) (to_u64 b) s)"

section \<open>Single precision\<close>

definition softfloat_addMagsF32 ::
  "uint_fast32 \<Rightarrow> uint_fast32 \<Rightarrow> softfloat_state \<Rightarrow> float32 \<times> softfloat_state" where
  "softfloat_addMagsF32 uiA uiB s =
     (let expA = expF32UI uiA;
          sigA = fracF32UI uiA;
          expB = expF32UI uiB;
          sigB = fracF32UI uiB;
          expDiff = expA - expB;
          propagateNaN = (let (uiZ, s) = softfloat_propagateNaNF32UI uiA uiB s in (to_u32 uiZ, s));
          farSum = (\<lambda>signZ expZ sigA sigB.
            let sigZ = 0x20000000 + sigA + sigB;
                (expZ, sigZ) = (if sigZ < 0x40000000 then (expZ - 1, push_bit 1 sigZ) else (expZ, sigZ))
            in softfloat_roundPackToF32 signZ expZ sigZ s)
      in if expDiff = 0 then
           (if expA = 0 then (to_u32 (uiA + sigB), s)
            else if expA = 0xFF then
              (if sigA OR sigB \<noteq> 0 then propagateNaN else (to_u32 uiA, s))
            else
              (let signZ = signF32UI uiA;
                   sigZ = 0x01000000 + sigA + sigB
               in if sigZ AND 1 = 0 \<and> expA < 0xFE
                  then (to_u32 (packToF32UI signZ expA (drop_bit 1 sigZ)), s)
                  else softfloat_roundPackToF32 signZ expA (push_bit 6 sigZ) s))
         else
           (let signZ = signF32UI uiA;
                sigA = push_bit 6 sigA;
                sigB = push_bit 6 sigB
            in if expDiff < 0 then
                 (if expB = 0xFF then
                    (if sigB \<noteq> 0 then propagateNaN else (to_u32 (packToF32UI signZ 0xFF 0), s))
                  else
                    (let sigA = sigA + (if expA \<noteq> 0 then 0x20000000 else sigA);
                         sigA = to_u64 (softfloat_shiftRightJam32 (to_u32 sigA) (word_of_int (- expDiff)))
                     in farSum signZ expB sigA sigB))
               else
                 (if expA = 0xFF then (if sigA \<noteq> 0 then propagateNaN else (to_u32 uiA, s))
                  else
                    (let sigB = sigB + (if expB \<noteq> 0 then 0x20000000 else sigB);
                         sigB = to_u64 (softfloat_shiftRightJam32 (to_u32 sigB) (word_of_int expDiff))
                     in farSum signZ expA sigA sigB))))"

definition softfloat_subMagsF32 ::
  "uint_fast32 \<Rightarrow> uint_fast32 \<Rightarrow> softfloat_state \<Rightarrow> float32 \<times> softfloat_state" where
  "softfloat_subMagsF32 uiA uiB s =
     (let expA = expF32UI uiA;
          sigA = fracF32UI uiA;
          expB = expF32UI uiB;
          sigB = fracF32UI uiB;
          expDiff = expA - expB;
          propagateNaN = (let (uiZ, s) = softfloat_propagateNaNF32UI uiA uiB s in (to_u32 uiZ, s));
          farDiff = (\<lambda>signZ expZ sigX sigY expDiff.
            softfloat_normRoundPackToF32 signZ expZ
              (sigX - to_u64 (softfloat_shiftRightJam32 (to_u32 sigY) (word_of_int expDiff))) s)
      in if expDiff = 0 then
           (if expA = 0xFF then
              (if sigA OR sigB \<noteq> 0 then propagateNaN
               else (to_u32 defaultNaNF32UI, softfloat_raiseFlags softfloat_flag_invalid s))
            else
              (let sigDiff = int (unat sigA) - int (unat sigB)
               in if sigDiff = 0
                  then (to_u32 (packToF32UI (softfloat_roundingMode s = softfloat_round_min) 0 0), s)
                  else
                    (let expA = (if expA \<noteq> 0 then expA - 1 else expA);
                         signZ = signF32UI uiA;
                         (signZ, sigDiff) =
                           (if sigDiff < 0 then (\<not> signZ, - sigDiff) else (signZ, sigDiff));
                         shiftDist =
                           int (unat (softfloat_countLeadingZeros32 (word_of_int sigDiff))) - 8;
                         expZ = expA - shiftDist;
                         (shiftDist, expZ) = (if expZ < 0 then (expA, 0) else (shiftDist, expZ))
                     in (to_u32 (packToF32UI signZ expZ (shl (word_of_int sigDiff) shiftDist)), s))))
         else
           (let signZ = signF32UI uiA;
                sigA = push_bit 7 sigA;
                sigB = push_bit 7 sigB
            in if expDiff < 0 then
                 (let signZ = (\<not> signZ)
                  in if expB = 0xFF then
                       (if sigB \<noteq> 0 then propagateNaN else (to_u32 (packToF32UI signZ 0xFF 0), s))
                     else farDiff signZ (expB - 1) (sigB OR 0x40000000)
                            (sigA + (if expA \<noteq> 0 then 0x40000000 else sigA)) (- expDiff))
               else
                 (if expA = 0xFF then (if sigA \<noteq> 0 then propagateNaN else (to_u32 uiA, s))
                  else farDiff signZ (expA - 1) (sigA OR 0x40000000)
                         (sigB + (if expB \<noteq> 0 then 0x40000000 else sigB)) expDiff)))"

definition f32_add :: "float32 \<Rightarrow> float32 \<Rightarrow> softfloat_state \<Rightarrow> float32 \<times> softfloat_state" where
  "f32_add a b s =
     (if signF32UI (to_u64 a XOR to_u64 b) then softfloat_subMagsF32 (to_u64 a) (to_u64 b) s
      else softfloat_addMagsF32 (to_u64 a) (to_u64 b) s)"

definition f32_sub :: "float32 \<Rightarrow> float32 \<Rightarrow> softfloat_state \<Rightarrow> float32 \<times> softfloat_state" where
  "f32_sub a b s =
     (if signF32UI (to_u64 a XOR to_u64 b) then softfloat_addMagsF32 (to_u64 a) (to_u64 b) s
      else softfloat_subMagsF32 (to_u64 a) (to_u64 b) s)"

section \<open>Double precision\<close>

definition softfloat_addMagsF64 ::
  "uint_fast64 \<Rightarrow> uint_fast64 \<Rightarrow> bool \<Rightarrow> softfloat_state \<Rightarrow> float64 \<times> softfloat_state" where
  "softfloat_addMagsF64 uiA uiB signZ s =
     (let expA = expF64UI uiA;
          sigA = fracF64UI uiA;
          expB = expF64UI uiB;
          sigB = fracF64UI uiB;
          expDiff = expA - expB;
          propagateNaN = softfloat_propagateNaNF64UI uiA uiB s;
          farSum = (\<lambda>expZ sigA sigB.
            let sigZ = 0x2000000000000000 + sigA + sigB;
                (expZ, sigZ) =
                  (if sigZ < 0x4000000000000000 then (expZ - 1, push_bit 1 sigZ) else (expZ, sigZ))
            in softfloat_roundPackToF64 signZ expZ sigZ s)
      in if expDiff = 0 then
           (if expA = 0 then (uiA + sigB, s)
            else if expA = 0x7FF then (if sigA OR sigB \<noteq> 0 then propagateNaN else (uiA, s))
            else softfloat_roundPackToF64 signZ expA (push_bit 9 (0x0020000000000000 + sigA + sigB)) s)
         else
           (let sigA = push_bit 9 sigA;
                sigB = push_bit 9 sigB
            in if expDiff < 0 then
                 (if expB = 0x7FF then
                    (if sigB \<noteq> 0 then propagateNaN else (packToF64UI signZ 0x7FF 0, s))
                  else
                    (let sigA = (if expA \<noteq> 0 then sigA + 0x2000000000000000 else push_bit 1 sigA);
                         sigA = softfloat_shiftRightJam64 sigA (word_of_int (- expDiff))
                     in farSum expB sigA sigB))
               else
                 (if expA = 0x7FF then (if sigA \<noteq> 0 then propagateNaN else (uiA, s))
                  else
                    (let sigB = (if expB \<noteq> 0 then sigB + 0x2000000000000000 else push_bit 1 sigB);
                         sigB = softfloat_shiftRightJam64 sigB (word_of_int expDiff)
                     in farSum expA sigA sigB))))"

definition softfloat_subMagsF64 ::
  "uint_fast64 \<Rightarrow> uint_fast64 \<Rightarrow> bool \<Rightarrow> softfloat_state \<Rightarrow> float64 \<times> softfloat_state" where
  "softfloat_subMagsF64 uiA uiB signZ s =
     (let expA = expF64UI uiA;
          sigA = fracF64UI uiA;
          expB = expF64UI uiB;
          sigB = fracF64UI uiB;
          expDiff = expA - expB;
          propagateNaN = softfloat_propagateNaNF64UI uiA uiB s
      in if expDiff = 0 then
           (if expA = 0x7FF then
              (if sigA OR sigB \<noteq> 0 then propagateNaN
               else (defaultNaNF64UI, softfloat_raiseFlags softfloat_flag_invalid s))
            else
              (let sigDiff = int (unat sigA) - int (unat sigB)
               in if sigDiff = 0
                  then (packToF64UI (softfloat_roundingMode s = softfloat_round_min) 0 0, s)
                  else
                    (let expA = (if expA \<noteq> 0 then expA - 1 else expA);
                         (signZ, sigDiff) =
                           (if sigDiff < 0 then (\<not> signZ, - sigDiff) else (signZ, sigDiff));
                         shiftDist =
                           int (unat (softfloat_countLeadingZeros64 (word_of_int sigDiff))) - 11;
                         expZ = expA - shiftDist;
                         (shiftDist, expZ) = (if expZ < 0 then (expA, 0) else (shiftDist, expZ))
                     in (packToF64UI signZ expZ (shl (word_of_int sigDiff) shiftDist), s))))
         else
           (let sigA = push_bit 10 sigA;
                sigB = push_bit 10 sigB
            in if expDiff < 0 then
                 (let signZ = (\<not> signZ)
                  in if expB = 0x7FF then
                       (if sigB \<noteq> 0 then propagateNaN else (packToF64UI signZ 0x7FF 0, s))
                     else
                       (let sigA = sigA + (if expA \<noteq> 0 then 0x4000000000000000 else sigA);
                            sigA = softfloat_shiftRightJam64 sigA (word_of_int (- expDiff));
                            sigB = sigB OR 0x4000000000000000
                        in softfloat_normRoundPackToF64 signZ (expB - 1) (sigB - sigA) s))
               else
                 (if expA = 0x7FF then (if sigA \<noteq> 0 then propagateNaN else (uiA, s))
                  else
                    (let sigB = sigB + (if expB \<noteq> 0 then 0x4000000000000000 else sigB);
                         sigB = softfloat_shiftRightJam64 sigB (word_of_int expDiff);
                         sigA = sigA OR 0x4000000000000000
                     in softfloat_normRoundPackToF64 signZ (expA - 1) (sigA - sigB) s))))"

definition f64_add :: "float64 \<Rightarrow> float64 \<Rightarrow> softfloat_state \<Rightarrow> float64 \<times> softfloat_state" where
  "f64_add a b s =
     (let signA = signF64UI a; signB = signF64UI b
      in if signA = signB then softfloat_addMagsF64 a b signA s
         else softfloat_subMagsF64 a b signA s)"

definition f64_sub :: "float64 \<Rightarrow> float64 \<Rightarrow> softfloat_state \<Rightarrow> float64 \<times> softfloat_state" where
  "f64_sub a b s =
     (let signA = signF64UI a; signB = signF64UI b
      in if signA = signB then softfloat_subMagsF64 a b signA s
         else softfloat_addMagsF64 a b signA s)"

section \<open>Single precision: correctness\<close>

lemma far_sigF32:
  fixes sb i :: uint64
  assumes "unat sb = fp_frac 23 B" and "d \<noteq> 0" and "d < 2 ^ 32" and that: "unat i = 2 ^ (23 + j)" "j \<le> 7"
  shows "int (unat (to_u64 (softfloat_shiftRightJam32
      (to_u32 (push_bit j sb + (if fp_exp 23 8 B \<noteq> 0 then i else push_bit j sb))) (word_of_int (int d))))) =
    jam (real (far_sig 23 8 B * 2 ^ j) / 2 ^ d)"
proof -
  have f: "fp_frac 23 B < 2 ^ 23"
    by (rule fp_frac_less)
  have j: "(2::nat) ^ j \<le> 2 ^ 7"
    using that(2) by (intro power_increasing) simp_all
  have fj: "fp_frac 23 B * 2 ^ j < 2 ^ 23 * 2 ^ 7"
    using f j by (intro mult_less_le_imp_less) simp_all
  then have u: "unat (push_bit j sb) = fp_frac 23 B * 2 ^ j"
    by (subst unat_push_bit_mult) (simp_all add: assms(1))
  have "unat (push_bit j sb + (if fp_exp 23 8 B \<noteq> 0 then i else push_bit j sb)) = far_sig 23 8 B * 2 ^ j"
  proof (cases "fp_exp 23 8 B = 0")
    case True
    then show ?thesis
      using fj u unat_add_no_wrap[of "push_bit j sb" "push_bit j sb"] by (simp add: far_sig_def)
  next
    case False
    have "unat i = 2 ^ 23 * 2 ^ j"
      by (simp only: that(1) power_add)
    then have "unat (push_bit j sb + i) = fp_frac 23 B * 2 ^ j + 2 ^ 23 * 2 ^ j"
      using fj u j by (subst unat_add_no_wrap) simp_all
    then show ?thesis
      using False by (simp add: far_sig_def distrib_right)
  qed
  moreover have "far_sig 23 8 B * 2 ^ j < 2 ^ (23 + 1) * 2 ^ 7"
    using arg_sig_bounds(2)[of 23 8 B] j by (intro mult_less_le_imp_less) simp_all
  then have "far_sig 23 8 B * 2 ^ j < 2 ^ 32"
    by simp
  ultimately have "unat (to_u32 (push_bit j sb + (if fp_exp 23 8 B \<noteq> 0 then i else push_bit j sb))) = far_sig 23 8 B * 2 ^ j"
    by (simp add: unat_ucast_mod)
  moreover have "unat (word_of_int (int d) :: uint64) = d"
    using assms(3) by (subst unat_word_of_int) simp_all
  ultimately show ?thesis
    using assms(2) by (subst unat_ucast_widen, simp, subst shiftRightJam32_correct) (simp_all add: word_eq_0_unat)
qed

lemma far_sumF32:
  fixes sa sb :: uint64
  assumes sa: "unat sa = fp_frac 23 A" and sb: "unat sb = fp_frac 23 B"
    and ab: "fp_exp 23 8 B < fp_exp 23 8 A" and d: "d = fp_exp 23 8 A - fp_exp 23 8 B"
  shows "unat (0x20000000 + push_bit 6 sa + to_u64 (softfloat_shiftRightJam32
      (to_u32 (push_bit 6 sb + (if fp_exp 23 8 B \<noteq> 0 then 0x20000000 else push_bit 6 sb))) (word_of_int (int d)))) =
    nat (jam (real (arg_sig 23 8 A * 2 ^ (7 - 1)) + real (far_sig 23 8 B * 2 ^ (7 - 1)) / 2 ^ d))"
proof -
  define t where "t = to_u64 (softfloat_shiftRightJam32
      (to_u32 (push_bit 6 sb + (if fp_exp 23 8 B \<noteq> 0 then 0x20000000 else push_bit 6 sb))) (word_of_int (int d)))"
  have dd: "d \<noteq> 0" "d < 2 ^ 32"
    using ab d fp_exp_less[of 23 8 A] by simp_all
  have t: "int (unat t) = jam (real (far_sig 23 8 B * 2 ^ 6) / 2 ^ d)"
    unfolding t_def by (rule far_sigF32[OF sb dd]) simp_all
  have tb: "unat t < 2 ^ 32"
    unfolding t_def by (subst unat_ucast_widen) (simp_all add: unat_lt[of "_ :: 32 word", simplified])
  have f: "fp_frac 23 A < 2 ^ 23"
    by (rule fp_frac_less)
  have "unat (0x20000000 + push_bit 6 sa :: uint64) = arg_sig 23 8 A * 2 ^ 6"
    using f ab by (subst unat_add_no_wrap; subst unat_push_bit_mult) (simp_all add: sa arg_sig_def)
  moreover have "arg_sig 23 8 A < 2 ^ (23 + 1)"
    by (rule arg_sig_bounds)
  ultimately have "unat (0x20000000 + push_bit 6 sa + t) = arg_sig 23 8 A * 2 ^ 6 + unat t"
    using tb by (subst unat_add_no_wrap) simp_all
  moreover have "jam (real (arg_sig 23 8 A * 2 ^ 6) + real (far_sig 23 8 B * 2 ^ 6) / 2 ^ d) = int (arg_sig 23 8 A * 2 ^ 6) + int (unat t)"
    using jam_even_add[of "int (arg_sig 23 8 A * 2 ^ 6)" "real (far_sig 23 8 B * 2 ^ 6) / 2 ^ d"] by (simp add: t)
  ultimately show ?thesis
    by (simp add: t_def)
qed


lemma far_addF32:
  fixes fx fy :: uint64
  assumes f: "unat fx = fp_frac 23 X" "unat fy = fp_frac 23 Y" and xy: "fp_exp 23 8 Y < fp_exp 23 8 X"
    and fin: "fp_finite 23 8 X" and d: "d = fp_exp 23 8 X - fp_exp 23 8 Y"
    and sZ: "sZ = 0x20000000 + push_bit 6 fx + to_u64 (softfloat_shiftRightJam32
      (to_u32 (push_bit 6 fy + (if fp_exp 23 8 Y \<noteq> 0 then 0x20000000 else push_bit 6 fy))) (word_of_int (int d)))"
    and call: "softfloat_roundPackToF32 sign (if sZ < 0x40000000 then int (fp_exp 23 8 X) - 1 else int (fp_exp 23 8 X))
        (if sZ < 0x40000000 then push_bit 1 sZ else sZ) s = (r, s')"
  shows "fp_rounds_to 23 8 s sign (fp_magn 23 8 X + fp_magn 23 8 Y) (unat r) s'"
proof -
  define y where "y = real (arg_sig 23 8 X * 2 ^ (7 - 1)) + real (far_sig 23 8 Y * 2 ^ (7 - 1)) / 2 ^ d"
  note fs = far_sumF32[OF f xy d, folded y_def sZ]
  note far = f32.add_far_rounds[OF xy fin d _ _ _ y_def]
  have "fp_exp 23 8 X < 2 ^ 8"
    by (rule fp_exp_less)
  then have "fp_rounds_to 23 8 s sign (y * 2 powi (fp_emin 23 8 + int (fp_exp 23 8 X) - int 7)) (unat r) s'"
    by (intro f32.rounds_jam_norm[OF _ _ _ _ _ fs _ _ _ call]) (use far in simp_all)
  then show ?thesis
    using far by simp
qed

lemma addMagsF32_rounds:
  fixes a b :: float32
  assumes fin: "fp_finite 23 8 (unat a)" "fp_finite 23 8 (unat b)"
    and r: "softfloat_addMagsF32 (to_u64 a) (to_u64 b) s = (r, s')"
  shows "fp_rounds_to 23 8 s (fp_sign 23 8 (unat a)) (fp_magn 23 8 (unat a) + fp_magn 23 8 (unat b)) (unat r) s'"
proof -
  define A B where "A = unat a" and "B = unat b"
  define fA fB where "fA = fracF32UI (to_u64 a)" and "fB = fracF32UI (to_u64 b)"
  have f: "unat fA = fp_frac 23 A" "unat fB = fp_frac 23 B" "fp_frac 23 A < 2 ^ 23" "fp_frac 23 B < 2 ^ 23"
    by (simp_all only: fA_def fB_def A_def B_def F32_fields fp_frac_less)
  have e: "expF32UI (to_u64 a) = int (fp_exp 23 8 A)" "expF32UI (to_u64 b) = int (fp_exp 23 8 B)"
      "signF32UI (to_u64 a) = fp_sign 23 8 A"
    by (simp_all only: A_def B_def F32_fields)
  have eb: "fp_exp 23 8 A < 255" "fp_exp 23 8 B < 255"
    using fin fp_exp_less[of 23 8 A] fp_exp_less[of 23 8 B] by (simp_all add: fp_class_fields A_def B_def)
  note r' = r[unfolded softfloat_addMagsF32_def Let_def fA_def[symmetric] fB_def[symmetric] e]
  consider "fp_exp 23 8 A = 0" "fp_exp 23 8 B = 0" | "fp_exp 23 8 A = fp_exp 23 8 B" "fp_exp 23 8 A \<noteq> 0"
    | "fp_exp 23 8 A < fp_exp 23 8 B" | "fp_exp 23 8 B < fp_exp 23 8 A"
    by linarith
  then have "fp_rounds_to 23 8 s (fp_sign 23 8 A) (fp_magn 23 8 A + fp_magn 23 8 B) (unat r) s'"
  proof cases
    case 1
    then have "r = to_u32 (to_u64 a + fB)" and s: "s' = s"
      using r' by simp_all
    moreover have A: "A = of_bool (fp_sign 23 8 A) * 2 ^ (23 + 8) + fp_frac 23 A"
      using fp_decomp[of A 23 8] unat_lt[of a] 1 by (simp add: A_def)
    then have "unat (to_u64 a + fB) = A + fp_frac 23 B"
      using f by (subst unat_add_no_wrap) (cases "fp_sign 23 8 A"; simp add: unat_ucast_widen A_def)+
    ultimately have u: "unat r = of_bool (fp_sign 23 8 A) * 2 ^ (23 + 8) + (0 * 2 ^ 23 + (fp_frac 23 A + fp_frac 23 B))"
      using A f by (cases "fp_sign 23 8 A") (simp_all add: unat_ucast_mod)
    show ?thesis
      unfolding u s by (rule fp_pack_exact) (use 1 f in \<open>simp_all add: fp_magn_fields algebra_simps\<close>)
  next
    case 2
    define n where "n = arg_sig 23 8 A + arg_sig 23 8 B"
    have "unat (0x01000000 + fA + fB) = n"
      using 2 f by (subst unat_add_no_wrap; (subst unat_add_no_wrap)?; simp add: n_def arg_sig_def)
    moreover have "n < 2 ^ 25"
      using add_near_sum(3)[OF 2 n_def] by simp
    ultimately have n: "unat (0x01000000 + fA + fB) = n" "n < 2 ^ 25" .
    note r2 = r'[unfolded word_and_1_eq_0 n(1)]
    show ?thesis
    proof (cases "even n \<and> fp_exp 23 8 A < 0xFE")
      case True
      then have "r = to_u32 (packToF32UI (fp_sign 23 8 A) (int (fp_exp 23 8 A)) (drop_bit 1 (0x01000000 + fA + fB)))" and s: "s' = s"
        using r2 2 eb by simp_all
      moreover have dr: "unat (drop_bit 1 (0x01000000 + fA + fB)) = n div 2"
        by (simp add: unat_drop_bit_div n(1))
      moreover have "n div 2 < 2 ^ 24"
        using n(2) by (simp add: less_mult_imp_div_less)
      then have "fp_exp 23 8 A * 2 ^ 23 + n div 2 < 2 ^ 31"
        using True by simp
      ultimately have u: "unat r = of_bool (fp_sign 23 8 A) * 2 ^ (23 + 8) + (fp_exp 23 8 A * 2 ^ 23 + n div 2)"
        using unat_packToF32UI[of "int (fp_exp 23 8 A)" "drop_bit 1 (0x01000000 + fA + fB)" "fp_sign 23 8 A"]
        unfolding dr by simp
      show ?thesis
        unfolding u s by (rule add_near_exact[OF 2 n_def]) (use True in simp_all)
    next
      case False
      then have c: "softfloat_roundPackToF32 (fp_sign 23 8 A) (int (fp_exp 23 8 A)) (push_bit 6 (0x01000000 + fA + fB)) s = (r, s')"
        using r2 2 eb by auto
      have "unat (push_bit 6 (0x01000000 + fA + fB)) = n * 2 ^ (7 - 1)"
        using n by (subst unat_push_bit_mult) simp_all
      from f32.add_near_rounds[OF 2 n_def _ _ this _ c] eb show ?thesis
        by simp
    qed
  next
    case 3
    define d where "d = fp_exp 23 8 B - fp_exp 23 8 A"
    have d': "int (fp_exp 23 8 A) - int (fp_exp 23 8 B) = - int d"
      using 3 by (simp add: d_def)
    define sZ where "sZ = 0x20000000 + push_bit 6 fB + to_u64 (softfloat_shiftRightJam32
      (to_u32 (push_bit 6 fA + (if fp_exp 23 8 A \<noteq> 0 then 0x20000000 else push_bit 6 fA))) (word_of_int (int d)))"
    have sZ: "0x20000000 + to_u64 (softfloat_shiftRightJam32
      (to_u32 (push_bit 6 fA + (if fp_exp 23 8 A \<noteq> 0 then 0x20000000 else push_bit 6 fA))) (word_of_int (int d))) + push_bit 6 fB = sZ"
      by (simp only: sZ_def add.assoc add.commute add.left_commute)
    have "softfloat_roundPackToF32 (fp_sign 23 8 A)
        (if sZ < 0x40000000 then int (fp_exp 23 8 B) - 1 else int (fp_exp 23 8 B))
        (if sZ < 0x40000000 then push_bit 1 sZ else sZ) s = (r, s')"
      using r'[unfolded d' of_nat_eq_0_iff minus_minus sZ] 3 eb
      by (cases "sZ < 0x40000000") (simp_all add: d_def)
    from far_addF32[OF f(2,1) 3 fin(2)[folded B_def] d_def sZ_def this] show ?thesis
      by (simp add: add.commute)
  next
    case 4
    define d where "d = fp_exp 23 8 A - fp_exp 23 8 B"
    have d': "int (fp_exp 23 8 A) - int (fp_exp 23 8 B) = int d"
      using 4 by (simp add: d_def)
    define sZ where "sZ = 0x20000000 + push_bit 6 fA + to_u64 (softfloat_shiftRightJam32
      (to_u32 (push_bit 6 fB + (if fp_exp 23 8 B \<noteq> 0 then 0x20000000 else push_bit 6 fB))) (word_of_int (int d)))"
    have "softfloat_roundPackToF32 (fp_sign 23 8 A)
        (if sZ < 0x40000000 then int (fp_exp 23 8 A) - 1 else int (fp_exp 23 8 A))
        (if sZ < 0x40000000 then push_bit 1 sZ else sZ) s = (r, s')"
      using r'[unfolded d' of_nat_eq_0_iff sZ_def[symmetric]] 4 eb
      by (cases "sZ < 0x40000000") (simp_all add: d_def)
    from far_addF32[OF f(1,2) 4 fin(1)[folded A_def] d_def sZ_def this] show ?thesis .
  qed
  then show ?thesis
    by (simp only: A_def B_def)
qed

lemma far_diffF32:
  fixes fx fy :: uint64
  assumes f: "unat fx = fp_frac 23 X" "unat fy = fp_frac 23 Y" and xy: "fp_exp 23 8 Y < fp_exp 23 8 X"
    and d: "d = fp_exp 23 8 X - fp_exp 23 8 Y"
    and call: "softfloat_normRoundPackToF32 sign (int (fp_exp 23 8 X) - 1)
      ((push_bit 7 fx OR 0x40000000) - to_u64 (softfloat_shiftRightJam32
        (to_u32 (push_bit 7 fy + (if fp_exp 23 8 Y \<noteq> 0 then 0x40000000 else push_bit 7 fy))) (word_of_int (int d)))) s = (r, s')"
  shows "0 < fp_magn 23 8 X - fp_magn 23 8 Y"
    and "fp_rounds_to 23 8 s sign (fp_magn 23 8 X - fp_magn 23 8 Y) (unat r) s'"
proof -
  define t where "t = to_u64 (softfloat_shiftRightJam32
      (to_u32 (push_bit 7 fy + (if fp_exp 23 8 Y \<noteq> 0 then 0x40000000 else push_bit 7 fy))) (word_of_int (int d)))"
  define y where "y = real (arg_sig 23 8 X * 2 ^ 7) - real (far_sig 23 8 Y * 2 ^ 7) / 2 ^ d"
  have eX: "fp_exp 23 8 X < 2 ^ 8"
    by (rule fp_exp_less)
  have dd: "d \<noteq> 0" "d < 2 ^ 32"
    using xy d eX by simp_all
  have t: "int (unat t) = jam (real (far_sig 23 8 Y * 2 ^ 7) / 2 ^ d)"
    unfolding t_def by (rule far_sigF32[OF f(2) dd]) simp_all
  have fX: "fp_frac 23 X < 2 ^ 23"
    by (rule fp_frac_less)
  have "unat (push_bit 7 fx) = fp_frac 23 X * 2 ^ 7"
    using fX f(1) by (subst unat_push_bit_mult) simp_all
  then have x: "unat (push_bit 7 fx OR 0x40000000) = arg_sig 23 8 X * 2 ^ 7"
    using fX xy unat_or_pow2[of "push_bit 7 fx" 30 "0x40000000"] by (simp add: arg_sig_def)
  have j: "jam y = int (arg_sig 23 8 X * 2 ^ 7) - int (unat t)"
    using jam_even_minus[of "int (arg_sig 23 8 X * 2 ^ 7)" "real (far_sig 23 8 Y * 2 ^ 7) / 2 ^ d"]
    by (simp add: t y_def)
  note df = sub_far_diff[OF xy d refl refl y_def]
  show "0 < fp_magn 23 8 X - fp_magn 23 8 Y"
    using df(1,6) by simp
  have "unat ((push_bit 7 fx OR 0x40000000) - t) = nat (jam y)"
    using jam_pos[OF df(1)] unfolding j by (subst unat_sub_le) (simp_all add: x)
  then show "fp_rounds_to 23 8 s sign (fp_magn 23 8 X - fp_magn 23 8 Y) (unat r) s'"
    by (intro f32.sub_far_rounds[OF xy d _ _ y_def _ call[folded t_def]]) (use eX in simp_all)
qed

lemma subMagsF32_near:
  fixes a b :: float32
  assumes e: "fp_exp 23 8 (unat a) = fp_exp 23 8 (unat b)" "fp_exp 23 8 (unat a) \<noteq> 255"
    and r: "softfloat_subMagsF32 (to_u64 a) (to_u64 b) s = (r, s')"
    and D: "D = fp_magn 23 8 (unat a) - fp_magn 23 8 (unat b)"
  shows "fp_rounds_to 23 8 s
    (if D = 0 then round_mode (softfloat_roundingMode s) = RDN
     else if 0 < D then fp_sign 23 8 (unat a) else \<not> fp_sign 23 8 (unat a)) \<bar>D\<bar> (unat r) s'"
proof -
  define A B where "A = unat a" and "B = unat b"
  have fld: "expF32UI (to_u64 a) = int (fp_exp 23 8 A)" "expF32UI (to_u64 b) = int (fp_exp 23 8 A)"
      "signF32UI (to_u64 a) = fp_sign 23 8 A"
      "unat (fracF32UI (to_u64 a)) = fp_frac 23 A" "unat (fracF32UI (to_u64 b)) = fp_frac 23 B"
    using e by (simp_all only: A_def B_def F32_fields)
  have fb: "fp_frac 23 A < 2 ^ 23" "fp_frac 23 B < 2 ^ 23" "fp_exp 23 8 A < 2 ^ 8"
    by (simp_all only: fp_frac_less fp_exp_less)
  define e0 where "e0 = fp_exp 23 8 A - 1"
  have e0: "(if int (fp_exp 23 8 A) \<noteq> 0 then int (fp_exp 23 8 A) - 1 else int (fp_exp 23 8 A)) = int e0"
      "e0 + 2 < 2 ^ 8"
    using fb(3) e(2) by (auto simp: e0_def of_nat_diff A_def)
  define n where "n = int (fp_frac 23 A) - int (fp_frac 23 B)"
  have D': "D = of_int n * 2 powi (fp_emin 23 8 + int e0)"
    using sub_near_diff[of 23 8 A B] e(1) by (simp add: D A_def B_def n_def e0_def)
  note r' = r[unfolded softfloat_subMagsF32_def Let_def fld e0(1), folded n_def]
  have ne: "\<not> int (fp_exp 23 8 A) = 255"
    using e(2) by (simp add: A_def)
  show ?thesis
  proof (cases "n = 0")
    case True
    then have "r = to_u32 (packToF32UI (softfloat_roundingMode s = softfloat_round_min) 0 0)" "s' = s"
      using r' ne by auto
    moreover have "round_mode (softfloat_roundingMode s) = RDN \<longleftrightarrow> softfloat_roundingMode s = softfloat_round_min"
      by (auto simp: round_mode_def)
    ultimately show ?thesis
      using True D' fp_rounds_to_0[of 8 23 s "softfloat_roundingMode s = softfloat_round_min"]
      by (simp only: pack_zeroF32) simp
  next
    case False
    define m where "m = nat \<bar>n\<bar>"
    define sg where "sg \<longleftrightarrow> (if n < 0 then \<not> fp_sign 23 8 A else fp_sign 23 8 A)"
    have m: "0 < m" "m < 2 ^ 23"
      using False fb by (simp_all add: m_def n_def)
    have um: "unat (word_of_int (int m) :: uint32) = m" "unat (word_of_int (int m) :: uint64) = m"
      using m by (simp_all only: word_of_int_nat) simp_all
    define c where "c = unat (softfloat_countLeadingZeros32 (word_of_int (int m)))"
    have lz0: "leading_zeros 32 m c"
      using countLeadingZeros32_correct[of "word_of_int (int m)"] by (simp only: c_def um)
    have lz: "8 < c" "c \<le> 31" "2 ^ 23 \<le> m * 2 ^ (c - 8)" "m * 2 ^ (c - 8) < 2 ^ (23 + 1)"
      using leading_zeros_sub[OF lz0 m, of 8] by simp_all
    obtain sh' ez where z: "(sh', ez) = (if int e0 - int (c - 8) < 0 then (int e0, 0) else (int (c - 8), int e0 - int (c - 8)))"
      by (metis surj_pair)
    note ex = sub_near_exact[OF m lz(3,4) e0(2) _ z]
    have sd: "(if n < 0 then (\<not> fp_sign 23 8 A, - n) else (fp_sign 23 8 A, n)) = (sg, int m)"
      by (simp add: sg_def m_def)
    have "r = to_u32 (packToF32UI sg ez (shl (word_of_int (int m)) sh'))" and s: "s' = s"
      using r' ne False z lz(1) unfolding sd prod.case c_def[symmetric] by (auto simp: of_nat_diff split: if_splits)
    moreover have "unat (shl (word_of_int (int m)) sh' :: uint64) = m * 2 ^ nat sh'"
    proof (intro unat_push_bit_mult[of "word_of_int (int m) :: uint64", unfolded um])
      have "m * 2 ^ nat sh' \<le> m * 2 ^ (c - 8)"
        using z by (intro mult_le_mono2 power_increasing) (auto split: if_splits)
      also note lz(4)
      finally show "m * 2 ^ nat sh' < 2 ^ LENGTH(64)"
        by simp
    qed
    ultimately have u: "unat r = of_bool sg * 2 ^ (23 + 8) + (nat ez * 2 ^ 23 + m * 2 ^ nat sh')"
      using ex(2) lz z by (simp add: unat_packToF32UI split: if_splits)
    have x: "\<bar>D\<bar> = real m * 2 powi (fp_emin 23 8 + int e0)" "D \<noteq> 0" "0 < D \<longleftrightarrow> \<not> n < 0"
    proof -
      have p: "\<not> (2::real) powi (fp_emin 23 8 + int e0) < 0"
        by (simp add: not_less)
      show "\<bar>D\<bar> = real m * 2 powi (fp_emin 23 8 + int e0)" "D \<noteq> 0"
        using False unfolding D' by (simp_all add: abs_mult m_def)
      show "0 < D \<longleftrightarrow> \<not> n < 0"
        using False p unfolding D' zero_less_mult_iff by auto
    qed
    show ?thesis
      using ex(1) lz x by (simp add: u s sg_def A_def)
  qed
qed

lemma subMagsF32_rounds:
  fixes a b :: float32
  assumes fin: "fp_finite 23 8 (unat a)" "fp_finite 23 8 (unat b)"
    and r: "softfloat_subMagsF32 (to_u64 a) (to_u64 b) s = (r, s')"
    and D: "D = fp_magn 23 8 (unat a) - fp_magn 23 8 (unat b)"
  shows "fp_rounds_to 23 8 s
    (if D = 0 then round_mode (softfloat_roundingMode s) = RDN
     else if 0 < D then fp_sign 23 8 (unat a) else \<not> fp_sign 23 8 (unat a)) \<bar>D\<bar> (unat r) s'"
proof -
  define A B where "A = unat a" and "B = unat b"
  define fA fB where "fA = fracF32UI (to_u64 a)" and "fB = fracF32UI (to_u64 b)"
  have f: "unat fA = fp_frac 23 A" "unat fB = fp_frac 23 B"
    by (simp_all only: fA_def fB_def A_def B_def F32_fields)
  have e: "expF32UI (to_u64 a) = int (fp_exp 23 8 A)" "expF32UI (to_u64 b) = int (fp_exp 23 8 B)"
      "signF32UI (to_u64 a) = fp_sign 23 8 A"
    by (simp_all only: A_def B_def F32_fields)
  have eb: "fp_exp 23 8 A < 255" "fp_exp 23 8 B < 255"
    using fin fp_exp_less[of 23 8 A] fp_exp_less[of 23 8 B] by (simp_all add: fp_class_fields A_def B_def)
  note r' = r[unfolded softfloat_subMagsF32_def Let_def fA_def[symmetric] fB_def[symmetric] e]
  consider "fp_exp 23 8 A = fp_exp 23 8 B" | "fp_exp 23 8 A < fp_exp 23 8 B" | "fp_exp 23 8 B < fp_exp 23 8 A"
    by linarith
  then show ?thesis
  proof cases
    case 1
    show ?thesis
      by (rule subMagsF32_near[OF _ _ r D]) (use 1 eb in \<open>simp_all add: A_def B_def\<close>)
  next
    case 2
    define d where "d = fp_exp 23 8 B - fp_exp 23 8 A"
    have d': "int (fp_exp 23 8 A) - int (fp_exp 23 8 B) = - int d"
      using 2 by (simp add: d_def)
    have "softfloat_normRoundPackToF32 (\<not> fp_sign 23 8 A) (int (fp_exp 23 8 B) - 1)
      ((push_bit 7 fB OR 0x40000000) - to_u64 (softfloat_shiftRightJam32
        (to_u32 (push_bit 7 fA + (if fp_exp 23 8 A \<noteq> 0 then 0x40000000 else push_bit 7 fA))) (word_of_int (int d)))) s = (r, s')"
      using r'[unfolded d' of_nat_eq_0_iff minus_minus] 2 eb by (simp add: d_def)
    from far_diffF32[OF f(2,1) 2 d_def this] show ?thesis
      by (simp add: D A_def B_def)
  next
    case 3
    define d where "d = fp_exp 23 8 A - fp_exp 23 8 B"
    have d': "int (fp_exp 23 8 A) - int (fp_exp 23 8 B) = int d"
      using 3 by (simp add: d_def)
    have "softfloat_normRoundPackToF32 (fp_sign 23 8 A) (int (fp_exp 23 8 A) - 1)
      ((push_bit 7 fA OR 0x40000000) - to_u64 (softfloat_shiftRightJam32
        (to_u32 (push_bit 7 fB + (if fp_exp 23 8 B \<noteq> 0 then 0x40000000 else push_bit 7 fB))) (word_of_int (int d)))) s = (r, s')"
      using r'[unfolded d' of_nat_eq_0_iff] 3 eb by (simp add: d_def)
    from far_diffF32[OF f 3 d_def this] show ?thesis
      by (simp add: D A_def B_def)
  qed
qed

lemma sign_xorF32: "signF32UI (to_u64 a XOR to_u64 b) \<longleftrightarrow> fp_sign 23 8 (unat a) \<noteq> fp_sign 23 8 (unat b)"
  for a b :: float32
proof -
  have "to_u32 (to_u64 a XOR to_u64 b) = a XOR b"
    by (rule bit_word_eqI) (simp add: bit_simps)
  then have "signF32UI (to_u64 a XOR to_u64 b) \<longleftrightarrow> bit (a XOR b) 31"
    using drop_bit_top[of "a XOR b"] by (simp only: signF32UI_def) simp
  moreover have "fp_sign 23 8 (unat x) \<longleftrightarrow> bit x 31" for x :: float32
    using top_bit_div[of x] by (simp add: fp_sign_def)
  ultimately show ?thesis
    by (simp add: bit_xor_iff)
qed

lemma shifted_fracF32:
  "push_bit 6 (fracF32UI (to_u64 a)) = 0 \<longleftrightarrow> fracF32UI (to_u64 a) = 0"
  "push_bit 7 (fracF32UI (to_u64 a)) = 0 \<longleftrightarrow> fracF32UI (to_u64 a) = 0" for a :: float32
  using fp_frac_less[of 23 "unat a"] by (simp_all add: push_bit_eq_0_iff' F32_fields)

lemma addMagsF32_correct:
  "add_mags_spec 23 8 s (unat a) (unat b) (unat (fst (softfloat_addMagsF32 (to_u64 a) (to_u64 b) s)))
    (snd (softfloat_addMagsF32 (to_u64 a) (to_u64 b) s))" for a b :: float32
proof (cases "fp_finite 23 8 (unat a) \<and> fp_finite 23 8 (unat b)")
  case True
  then show ?thesis
    using addMagsF32_rounds[OF _ _ prod.collapse[symmetric]] by (simp add: add_mags_spec_def fp_class_fields)
next
  case False
  then have "fp_exp 23 8 (unat a) = 255 \<or> fp_exp 23 8 (unat b) = 255"
    by (auto simp: fp_class_fields)
  moreover have "fp_exp 23 8 (unat a) \<le> 255" "fp_exp 23 8 (unat b) \<le> 255"
    using fp_exp_less[of 23 8 "unat a"] fp_exp_less[of 23 8 "unat b"] by simp_all
  moreover have "fp_exp 23 8 (unat a) = 255 \<Longrightarrow> fp_frac 23 (unat a) = 0 \<Longrightarrow> fp_signed 23 8 (fp_sign 23 8 (unat a)) (fp_inf 23 8) = unat a"
    using unat_lt[of a] by (intro unat_infinite[symmetric]) (simp_all add: fp_class_fields)
  ultimately show ?thesis
    unfolding softfloat_addMagsF32_def Let_def or_eq_0_iff F32_fields(1,2) shifted_fracF32 word_eq_0_unat[of "fracF32UI _"] F32_fields(3)
    by (cases "fp_exp 23 8 (unat a) = 255"; cases "fp_exp 23 8 (unat b) = 255";
        cases "fp_frac 23 (unat a) = 0"; cases "fp_frac 23 (unat b) = 0")
      (simp_all add: add_mags_spec_def nan_result_def raise_if_def fp_class_fields
        softfloat_propagateNaNF32UI_def isSigNaNF32UI_snan fp_qnan_values pack_infF32 ucast_widen_narrow)
qed

lemma subMagsF32_correct:
  "sub_mags_spec 23 8 s (unat a) (unat b) (unat (fst (softfloat_subMagsF32 (to_u64 a) (to_u64 b) s)))
    (snd (softfloat_subMagsF32 (to_u64 a) (to_u64 b) s))" for a b :: float32
proof (cases "fp_finite 23 8 (unat a) \<and> fp_finite 23 8 (unat b)")
  case True
  then show ?thesis
    using subMagsF32_rounds[OF _ _ prod.collapse[symmetric] refl] by (simp add: sub_mags_spec_def fp_class_fields)
next
  case False
  then have "fp_exp 23 8 (unat a) = 255 \<or> fp_exp 23 8 (unat b) = 255"
    by (auto simp: fp_class_fields)
  moreover have "fp_exp 23 8 (unat a) \<le> 255" "fp_exp 23 8 (unat b) \<le> 255"
    using fp_exp_less[of 23 8 "unat a"] fp_exp_less[of 23 8 "unat b"] by simp_all
  moreover have "fp_exp 23 8 (unat a) = 255 \<Longrightarrow> fp_frac 23 (unat a) = 0 \<Longrightarrow> fp_signed 23 8 (fp_sign 23 8 (unat a)) (fp_inf 23 8) = unat a"
    using unat_lt[of a] by (intro unat_infinite[symmetric]) (simp_all add: fp_class_fields)
  ultimately show ?thesis
    unfolding softfloat_subMagsF32_def Let_def or_eq_0_iff F32_fields(1,2) shifted_fracF32 word_eq_0_unat[of "fracF32UI _"] F32_fields(3)
    by (cases "fp_exp 23 8 (unat a) = 255"; cases "fp_exp 23 8 (unat b) = 255";
        cases "fp_frac 23 (unat a) = 0"; cases "fp_frac 23 (unat b) = 0")
      (simp_all add: sub_mags_spec_def nan_result_def invalid_result_def raise_if_def fp_class_fields
        softfloat_propagateNaNF32UI_def isSigNaNF32UI_snan fp_qnan_values pack_infF32 ucast_widen_narrow)
qed

interpretation f32: mags 23 8 "\<lambda>s. True" "\<lambda>a b. softfloat_addMagsF32 (to_u64 a) (to_u64 b)"
    "\<lambda>a b. softfloat_subMagsF32 (to_u64 a) (to_u64 b)"
  by unfold_locales (rule addMagsF32_correct, rule subMagsF32_correct)

text \<open>
  For all operands, rounding modes and tininess settings, \<open>f32_add\<close> returns the
  correctly rounded single-precision sum and the flags IEEE 754 asks for, with the prescribed sign of
  an exact zero; the infinity of an infinite operand, the canonical NaN and the invalid flag for the
  sum of opposite infinities; and the canonical NaN, with the invalid flag for a signaling
  operand, where an operand is a NaN.
\<close>

lemma f32_add_correct:
  "add_spec 23 8 s (unat a) (fp_sign 23 8 (unat b)) (unat b) (unat (fst (f32_add a b s))) (snd (f32_add a b s))"
  using f32.same_sign f32.opposite_sign by (simp add: f32_add_def sign_xorF32)

text \<open>
  The same for \<open>f32_sub\<close>, with the sign of the second operand reversed.
\<close>

lemma f32_sub_correct:
  "add_spec 23 8 s (unat a) (\<not> fp_sign 23 8 (unat b)) (unat b) (unat (fst (f32_sub a b s))) (snd (f32_sub a b s))"
  using f32.same_sign f32.opposite_sign by (simp add: f32_sub_def sign_xorF32)

text \<open>
  C13: for all operands, rounding modes and tininess settings, \<open>f32_add\<close> and \<open>f32_sub\<close> return the
  correctly rounded single-precision sum and difference and the flags IEEE 754 asks for, with the
  prescribed sign of an exact zero; the infinity of an infinite operand, the canonical NaN and the
  invalid flag for opposite infinities; and the canonical NaN, with the invalid flag for a
  signaling operand, where an operand is a NaN.
\<close>

theorem f32_addition_correct:
  "add_spec 23 8 s (unat a) (fp_sign 23 8 (unat b)) (unat b) (unat (fst (f32_add a b s))) (snd (f32_add a b s))
   \<and> add_spec 23 8 s (unat a) (\<not> fp_sign 23 8 (unat b)) (unat b) (unat (fst (f32_sub a b s))) (snd (f32_sub a b s))"
  by (intro conjI f32_add_correct f32_sub_correct)

end
