(* ===== verification/SF_Compare.thy ===== *)
theory SF_Compare
  imports IEEE_Spec
begin

text \<open>
  Comparisons (\<open>f*_eq.c\<close>, \<open>f*_le.c\<close>, \<open>f*_lt.c\<close> with their quiet and signaling variants),
  classification (\<open>f*_classify.c\<close>, \<open>f*_isSignalingNaN.c\<close>), and minimum and maximum
  (\<open>fall_maxmin.c\<close>). The routines compare bit patterns as unsigned integers; what they are
  compared with is the order of the numbers the patterns stand for. The source compares two
  patterns after zero extension to \<open>uint_fast*_t\<close>; the model compares them at their own
  width, since zero extension keeps equality and order.
\<close>

section \<open>The routines\<close>

subsection \<open>Half precision\<close>

definition f16_eq :: "float16 \<Rightarrow> float16 \<Rightarrow> softfloat_state \<Rightarrow> bool \<times> softfloat_state" where
  "f16_eq a b s =
     (if isNaNF16UI (to_u64 a) \<or> isNaNF16UI (to_u64 b) then (False, if softfloat_isSigNaNF16UI (to_u64 a) \<or> softfloat_isSigNaNF16UI (to_u64 b)
                  then softfloat_raiseFlags softfloat_flag_invalid s else s)
      else (a = b \<or> to_u16 (push_bit 1 (to_u64 a OR to_u64 b)) = 0, s))"

definition f16_eq_signaling :: "float16 \<Rightarrow> float16 \<Rightarrow> softfloat_state \<Rightarrow> bool \<times> softfloat_state" where
  "f16_eq_signaling a b s =
     (if isNaNF16UI (to_u64 a) \<or> isNaNF16UI (to_u64 b) then (False, softfloat_raiseFlags softfloat_flag_invalid s)
      else (a = b \<or> to_u16 (push_bit 1 (to_u64 a OR to_u64 b)) = 0, s))"

definition f16_le :: "float16 \<Rightarrow> float16 \<Rightarrow> softfloat_state \<Rightarrow> bool \<times> softfloat_state" where
  "f16_le a b s =
     (if isNaNF16UI (to_u64 a) \<or> isNaNF16UI (to_u64 b) then (False, softfloat_raiseFlags softfloat_flag_invalid s)
      else (let signA = signF16UI (to_u64 a); signB = signF16UI (to_u64 b)
            in (if signA \<noteq> signB then signA \<or> to_u16 (push_bit 1 (to_u64 a OR to_u64 b)) = 0
                else a = b \<or> (signA \<noteq> (a < b)), s)))"

definition f16_le_quiet :: "float16 \<Rightarrow> float16 \<Rightarrow> softfloat_state \<Rightarrow> bool \<times> softfloat_state" where
  "f16_le_quiet a b s =
     (if isNaNF16UI (to_u64 a) \<or> isNaNF16UI (to_u64 b) then (False, if softfloat_isSigNaNF16UI (to_u64 a) \<or> softfloat_isSigNaNF16UI (to_u64 b)
                  then softfloat_raiseFlags softfloat_flag_invalid s else s)
      else (let signA = signF16UI (to_u64 a); signB = signF16UI (to_u64 b)
            in (if signA \<noteq> signB then signA \<or> to_u16 (push_bit 1 (to_u64 a OR to_u64 b)) = 0
                else a = b \<or> (signA \<noteq> (a < b)), s)))"

definition f16_lt :: "float16 \<Rightarrow> float16 \<Rightarrow> softfloat_state \<Rightarrow> bool \<times> softfloat_state" where
  "f16_lt a b s =
     (if isNaNF16UI (to_u64 a) \<or> isNaNF16UI (to_u64 b) then (False, softfloat_raiseFlags softfloat_flag_invalid s)
      else (let signA = signF16UI (to_u64 a); signB = signF16UI (to_u64 b)
            in (if signA \<noteq> signB then signA \<and> \<not> (to_u16 (push_bit 1 (to_u64 a OR to_u64 b)) = 0)
                else a \<noteq> b \<and> (signA \<noteq> (a < b)), s)))"

definition f16_lt_quiet :: "float16 \<Rightarrow> float16 \<Rightarrow> softfloat_state \<Rightarrow> bool \<times> softfloat_state" where
  "f16_lt_quiet a b s =
     (if isNaNF16UI (to_u64 a) \<or> isNaNF16UI (to_u64 b) then (False, if softfloat_isSigNaNF16UI (to_u64 a) \<or> softfloat_isSigNaNF16UI (to_u64 b)
                  then softfloat_raiseFlags softfloat_flag_invalid s else s)
      else (let signA = signF16UI (to_u64 a); signB = signF16UI (to_u64 b)
            in (if signA \<noteq> signB then signA \<and> \<not> (to_u16 (push_bit 1 (to_u64 a OR to_u64 b)) = 0)
                else a \<noteq> b \<and> (signA \<noteq> (a < b)), s)))"

definition f16_isSignalingNaN :: "float16 \<Rightarrow> bool" where
  "f16_isSignalingNaN a = softfloat_isSigNaNF16UI (to_u64 a)"

definition f16_classify :: "float16 \<Rightarrow> uint_fast16" where
  "f16_classify a =
     (let infOrNaN = (expF16UI (to_u64 a) = 0x1F);
          subnormalOrZero = (expF16UI (to_u64 a) = 0);
          sign = signF16UI (to_u64 a);
          fracZero = (fracF16UI (to_u64 a) = 0);
          isNaN = isNaNF16UI (to_u64 a);
          isSNaN = softfloat_isSigNaNF16UI (to_u64 a)
      in of_bool (sign \<and> infOrNaN \<and> fracZero)
         OR push_bit 1 (of_bool (sign \<and> \<not> infOrNaN \<and> \<not> subnormalOrZero))
         OR push_bit 2 (of_bool (sign \<and> subnormalOrZero \<and> \<not> fracZero))
         OR push_bit 3 (of_bool (sign \<and> subnormalOrZero \<and> fracZero))
         OR push_bit 7 (of_bool (\<not> sign \<and> infOrNaN \<and> fracZero))
         OR push_bit 6 (of_bool (\<not> sign \<and> \<not> infOrNaN \<and> \<not> subnormalOrZero))
         OR push_bit 5 (of_bool (\<not> sign \<and> subnormalOrZero \<and> \<not> fracZero))
         OR push_bit 4 (of_bool (\<not> sign \<and> subnormalOrZero \<and> fracZero))
         OR push_bit 8 (of_bool (isNaN \<and> isSNaN))
         OR push_bit 9 (of_bool (isNaN \<and> \<not> isSNaN)))"

definition f16_max :: "float16 \<Rightarrow> float16 \<Rightarrow> softfloat_state \<Rightarrow> float16 \<times> softfloat_state" where
  "f16_max a b s =
     (let (lt, s) = f16_lt_quiet b a s;
          (greater, s) =
            (if lt then (True, s)
             else let (eq, s) = f16_eq b a s in (eq \<and> signF16UI (to_u64 b), s))
      in (if isNaNF16UI (to_u64 a) \<and> isNaNF16UI (to_u64 b) then to_u16 defaultNaNF16UI
          else if greater \<or> isNaNF16UI (to_u64 b) then a else b, s))"

definition f16_min :: "float16 \<Rightarrow> float16 \<Rightarrow> softfloat_state \<Rightarrow> float16 \<times> softfloat_state" where
  "f16_min a b s =
     (let (lt, s) = f16_lt_quiet a b s;
          (less, s) =
            (if lt then (True, s)
             else let (eq, s) = f16_eq a b s in (eq \<and> signF16UI (to_u64 a), s))
      in (if isNaNF16UI (to_u64 a) \<and> isNaNF16UI (to_u64 b) then to_u16 defaultNaNF16UI
          else if less \<or> isNaNF16UI (to_u64 b) then a else b, s))"

subsection \<open>Single precision\<close>

definition f32_eq :: "float32 \<Rightarrow> float32 \<Rightarrow> softfloat_state \<Rightarrow> bool \<times> softfloat_state" where
  "f32_eq a b s =
     (if isNaNF32UI (to_u64 a) \<or> isNaNF32UI (to_u64 b) then (False, if softfloat_isSigNaNF32UI (to_u64 a) \<or> softfloat_isSigNaNF32UI (to_u64 b)
                  then softfloat_raiseFlags softfloat_flag_invalid s else s)
      else (a = b \<or> to_u32 (push_bit 1 (to_u64 a OR to_u64 b)) = 0, s))"

definition f32_eq_signaling :: "float32 \<Rightarrow> float32 \<Rightarrow> softfloat_state \<Rightarrow> bool \<times> softfloat_state" where
  "f32_eq_signaling a b s =
     (if isNaNF32UI (to_u64 a) \<or> isNaNF32UI (to_u64 b) then (False, softfloat_raiseFlags softfloat_flag_invalid s)
      else (a = b \<or> to_u32 (push_bit 1 (to_u64 a OR to_u64 b)) = 0, s))"

definition f32_le :: "float32 \<Rightarrow> float32 \<Rightarrow> softfloat_state \<Rightarrow> bool \<times> softfloat_state" where
  "f32_le a b s =
     (if isNaNF32UI (to_u64 a) \<or> isNaNF32UI (to_u64 b) then (False, softfloat_raiseFlags softfloat_flag_invalid s)
      else (let signA = signF32UI (to_u64 a); signB = signF32UI (to_u64 b)
            in (if signA \<noteq> signB then signA \<or> to_u32 (push_bit 1 (to_u64 a OR to_u64 b)) = 0
                else a = b \<or> (signA \<noteq> (a < b)), s)))"

definition f32_le_quiet :: "float32 \<Rightarrow> float32 \<Rightarrow> softfloat_state \<Rightarrow> bool \<times> softfloat_state" where
  "f32_le_quiet a b s =
     (if isNaNF32UI (to_u64 a) \<or> isNaNF32UI (to_u64 b) then (False, if softfloat_isSigNaNF32UI (to_u64 a) \<or> softfloat_isSigNaNF32UI (to_u64 b)
                  then softfloat_raiseFlags softfloat_flag_invalid s else s)
      else (let signA = signF32UI (to_u64 a); signB = signF32UI (to_u64 b)
            in (if signA \<noteq> signB then signA \<or> to_u32 (push_bit 1 (to_u64 a OR to_u64 b)) = 0
                else a = b \<or> (signA \<noteq> (a < b)), s)))"

definition f32_lt :: "float32 \<Rightarrow> float32 \<Rightarrow> softfloat_state \<Rightarrow> bool \<times> softfloat_state" where
  "f32_lt a b s =
     (if isNaNF32UI (to_u64 a) \<or> isNaNF32UI (to_u64 b) then (False, softfloat_raiseFlags softfloat_flag_invalid s)
      else (let signA = signF32UI (to_u64 a); signB = signF32UI (to_u64 b)
            in (if signA \<noteq> signB then signA \<and> \<not> (to_u32 (push_bit 1 (to_u64 a OR to_u64 b)) = 0)
                else a \<noteq> b \<and> (signA \<noteq> (a < b)), s)))"

definition f32_lt_quiet :: "float32 \<Rightarrow> float32 \<Rightarrow> softfloat_state \<Rightarrow> bool \<times> softfloat_state" where
  "f32_lt_quiet a b s =
     (if isNaNF32UI (to_u64 a) \<or> isNaNF32UI (to_u64 b) then (False, if softfloat_isSigNaNF32UI (to_u64 a) \<or> softfloat_isSigNaNF32UI (to_u64 b)
                  then softfloat_raiseFlags softfloat_flag_invalid s else s)
      else (let signA = signF32UI (to_u64 a); signB = signF32UI (to_u64 b)
            in (if signA \<noteq> signB then signA \<and> \<not> (to_u32 (push_bit 1 (to_u64 a OR to_u64 b)) = 0)
                else a \<noteq> b \<and> (signA \<noteq> (a < b)), s)))"

definition f32_isSignalingNaN :: "float32 \<Rightarrow> bool" where
  "f32_isSignalingNaN a = softfloat_isSigNaNF32UI (to_u64 a)"

definition f32_classify :: "float32 \<Rightarrow> uint_fast16" where
  "f32_classify a =
     (let infOrNaN = (expF32UI (to_u64 a) = 0xFF);
          subnormalOrZero = (expF32UI (to_u64 a) = 0);
          sign = signF32UI (to_u64 a);
          fracZero = (fracF32UI (to_u64 a) = 0);
          isNaN = isNaNF32UI (to_u64 a);
          isSNaN = softfloat_isSigNaNF32UI (to_u64 a)
      in of_bool (sign \<and> infOrNaN \<and> fracZero)
         OR push_bit 1 (of_bool (sign \<and> \<not> infOrNaN \<and> \<not> subnormalOrZero))
         OR push_bit 2 (of_bool (sign \<and> subnormalOrZero \<and> \<not> fracZero))
         OR push_bit 3 (of_bool (sign \<and> subnormalOrZero \<and> fracZero))
         OR push_bit 7 (of_bool (\<not> sign \<and> infOrNaN \<and> fracZero))
         OR push_bit 6 (of_bool (\<not> sign \<and> \<not> infOrNaN \<and> \<not> subnormalOrZero))
         OR push_bit 5 (of_bool (\<not> sign \<and> subnormalOrZero \<and> \<not> fracZero))
         OR push_bit 4 (of_bool (\<not> sign \<and> subnormalOrZero \<and> fracZero))
         OR push_bit 8 (of_bool (isNaN \<and> isSNaN))
         OR push_bit 9 (of_bool (isNaN \<and> \<not> isSNaN)))"

definition f32_max :: "float32 \<Rightarrow> float32 \<Rightarrow> softfloat_state \<Rightarrow> float32 \<times> softfloat_state" where
  "f32_max a b s =
     (let (lt, s) = f32_lt_quiet b a s;
          (greater, s) =
            (if lt then (True, s)
             else let (eq, s) = f32_eq b a s in (eq \<and> signF32UI (to_u64 b), s))
      in (if isNaNF32UI (to_u64 a) \<and> isNaNF32UI (to_u64 b) then to_u32 defaultNaNF32UI
          else if greater \<or> isNaNF32UI (to_u64 b) then a else b, s))"

definition f32_min :: "float32 \<Rightarrow> float32 \<Rightarrow> softfloat_state \<Rightarrow> float32 \<times> softfloat_state" where
  "f32_min a b s =
     (let (lt, s) = f32_lt_quiet a b s;
          (less, s) =
            (if lt then (True, s)
             else let (eq, s) = f32_eq a b s in (eq \<and> signF32UI (to_u64 a), s))
      in (if isNaNF32UI (to_u64 a) \<and> isNaNF32UI (to_u64 b) then to_u32 defaultNaNF32UI
          else if less \<or> isNaNF32UI (to_u64 b) then a else b, s))"

subsection \<open>Double precision\<close>

definition f64_eq :: "float64 \<Rightarrow> float64 \<Rightarrow> softfloat_state \<Rightarrow> bool \<times> softfloat_state" where
  "f64_eq a b s =
     (if isNaNF64UI a \<or> isNaNF64UI b then (False, if softfloat_isSigNaNF64UI a \<or> softfloat_isSigNaNF64UI b
                  then softfloat_raiseFlags softfloat_flag_invalid s else s)
      else (a = b \<or> (a OR b) AND 0x7FFFFFFFFFFFFFFF = 0, s))"

definition f64_eq_signaling :: "float64 \<Rightarrow> float64 \<Rightarrow> softfloat_state \<Rightarrow> bool \<times> softfloat_state" where
  "f64_eq_signaling a b s =
     (if isNaNF64UI a \<or> isNaNF64UI b then (False, softfloat_raiseFlags softfloat_flag_invalid s)
      else (a = b \<or> (a OR b) AND 0x7FFFFFFFFFFFFFFF = 0, s))"

definition f64_le :: "float64 \<Rightarrow> float64 \<Rightarrow> softfloat_state \<Rightarrow> bool \<times> softfloat_state" where
  "f64_le a b s =
     (if isNaNF64UI a \<or> isNaNF64UI b then (False, softfloat_raiseFlags softfloat_flag_invalid s)
      else (let signA = signF64UI a; signB = signF64UI b
            in (if signA \<noteq> signB then signA \<or> (a OR b) AND 0x7FFFFFFFFFFFFFFF = 0
                else a = b \<or> (signA \<noteq> (a < b)), s)))"

definition f64_le_quiet :: "float64 \<Rightarrow> float64 \<Rightarrow> softfloat_state \<Rightarrow> bool \<times> softfloat_state" where
  "f64_le_quiet a b s =
     (if isNaNF64UI a \<or> isNaNF64UI b then (False, if softfloat_isSigNaNF64UI a \<or> softfloat_isSigNaNF64UI b
                  then softfloat_raiseFlags softfloat_flag_invalid s else s)
      else (let signA = signF64UI a; signB = signF64UI b
            in (if signA \<noteq> signB then signA \<or> (a OR b) AND 0x7FFFFFFFFFFFFFFF = 0
                else a = b \<or> (signA \<noteq> (a < b)), s)))"

definition f64_lt :: "float64 \<Rightarrow> float64 \<Rightarrow> softfloat_state \<Rightarrow> bool \<times> softfloat_state" where
  "f64_lt a b s =
     (if isNaNF64UI a \<or> isNaNF64UI b then (False, softfloat_raiseFlags softfloat_flag_invalid s)
      else (let signA = signF64UI a; signB = signF64UI b
            in (if signA \<noteq> signB then signA \<and> \<not> ((a OR b) AND 0x7FFFFFFFFFFFFFFF = 0)
                else a \<noteq> b \<and> (signA \<noteq> (a < b)), s)))"

definition f64_lt_quiet :: "float64 \<Rightarrow> float64 \<Rightarrow> softfloat_state \<Rightarrow> bool \<times> softfloat_state" where
  "f64_lt_quiet a b s =
     (if isNaNF64UI a \<or> isNaNF64UI b then (False, if softfloat_isSigNaNF64UI a \<or> softfloat_isSigNaNF64UI b
                  then softfloat_raiseFlags softfloat_flag_invalid s else s)
      else (let signA = signF64UI a; signB = signF64UI b
            in (if signA \<noteq> signB then signA \<and> \<not> ((a OR b) AND 0x7FFFFFFFFFFFFFFF = 0)
                else a \<noteq> b \<and> (signA \<noteq> (a < b)), s)))"

definition f64_isSignalingNaN :: "float64 \<Rightarrow> bool" where
  "f64_isSignalingNaN a = softfloat_isSigNaNF64UI a"

definition f64_classify :: "float64 \<Rightarrow> uint_fast16" where
  "f64_classify a =
     (let infOrNaN = (expF64UI a = 0x7FF);
          subnormalOrZero = (expF64UI a = 0);
          sign = signF64UI a;
          fracZero = (fracF64UI a = 0);
          isNaN = isNaNF64UI a;
          isSNaN = softfloat_isSigNaNF64UI a
      in of_bool (sign \<and> infOrNaN \<and> fracZero)
         OR push_bit 1 (of_bool (sign \<and> \<not> infOrNaN \<and> \<not> subnormalOrZero))
         OR push_bit 2 (of_bool (sign \<and> subnormalOrZero \<and> \<not> fracZero))
         OR push_bit 3 (of_bool (sign \<and> subnormalOrZero \<and> fracZero))
         OR push_bit 7 (of_bool (\<not> sign \<and> infOrNaN \<and> fracZero))
         OR push_bit 6 (of_bool (\<not> sign \<and> \<not> infOrNaN \<and> \<not> subnormalOrZero))
         OR push_bit 5 (of_bool (\<not> sign \<and> subnormalOrZero \<and> \<not> fracZero))
         OR push_bit 4 (of_bool (\<not> sign \<and> subnormalOrZero \<and> fracZero))
         OR push_bit 8 (of_bool (isNaN \<and> isSNaN))
         OR push_bit 9 (of_bool (isNaN \<and> \<not> isSNaN)))"

definition f64_max :: "float64 \<Rightarrow> float64 \<Rightarrow> softfloat_state \<Rightarrow> float64 \<times> softfloat_state" where
  "f64_max a b s =
     (let (lt, s) = f64_lt_quiet b a s;
          (greater, s) =
            (if lt then (True, s)
             else let (eq, s) = f64_eq b a s in (eq \<and> signF64UI b, s))
      in (if isNaNF64UI a \<and> isNaNF64UI b then defaultNaNF64UI
          else if greater \<or> isNaNF64UI b then a else b, s))"

definition f64_min :: "float64 \<Rightarrow> float64 \<Rightarrow> softfloat_state \<Rightarrow> float64 \<times> softfloat_state" where
  "f64_min a b s =
     (let (lt, s) = f64_lt_quiet a b s;
          (less, s) =
            (if lt then (True, s)
             else let (eq, s) = f64_eq a b s in (eq \<and> signF64UI a, s))
      in (if isNaNF64UI a \<and> isNaNF64UI b then defaultNaNF64UI
          else if less \<or> isNaNF64UI b then a else b, s))"

section \<open>The order of the numbers\<close>

text \<open>
  On patterns that are not NaNs: infinities are beyond every finite number, finite patterns
  compare by their values (so the two zeros are equal).
\<close>

definition fp_eq :: "nat \<Rightarrow> nat \<Rightarrow> nat \<Rightarrow> nat \<Rightarrow> bool" where
  "fp_eq p w a b \<longleftrightarrow>
     (if fp_infinite p w a \<or> fp_infinite p w b
      then fp_infinite p w a \<and> fp_infinite p w b \<and> fp_sign p w a = fp_sign p w b
      else fp_value p w a = fp_value p w b)"

definition fp_lt :: "nat \<Rightarrow> nat \<Rightarrow> nat \<Rightarrow> nat \<Rightarrow> bool" where
  "fp_lt p w a b \<longleftrightarrow>
     (if fp_infinite p w a then fp_sign p w a \<and> \<not> (fp_infinite p w b \<and> fp_sign p w b)
      else if fp_infinite p w b then \<not> fp_sign p w b
      else fp_value p w a < fp_value p w b)"

definition fp_le :: "nat \<Rightarrow> nat \<Rightarrow> nat \<Rightarrow> nat \<Rightarrow> bool" where
  "fp_le p w a b \<longleftrightarrow> fp_lt p w a b \<or> fp_eq p w a b"

text \<open>
  A comparison of NaNs is false; a quiet one raises the invalid flag for signaling NaNs
  only, a signaling one for every NaN.
\<close>

definition compare_spec ::
  "nat \<Rightarrow> nat \<Rightarrow> bool \<Rightarrow> (nat \<Rightarrow> nat \<Rightarrow> nat \<Rightarrow> nat \<Rightarrow> bool) \<Rightarrow> softfloat_state \<Rightarrow> nat \<Rightarrow> nat
     \<Rightarrow> bool \<times> softfloat_state \<Rightarrow> bool" where
  "compare_spec p w quiet rel s a b rs \<longleftrightarrow>
     rs = (if fp_nan p w a \<or> fp_nan p w b
           then (False, raise_if (\<not> quiet \<or> fp_snan p w a \<or> fp_snan p w b) softfloat_flag_invalid s)
           else (rel p w a b, s))"

text \<open>In terms of the sign and the rest of the pattern.\<close>

lemma fp_value_cmp:
  "fp_value p w a < fp_value p w b \<longleftrightarrow>
     (if fp_sign p w a \<noteq> fp_sign p w b
      then fp_sign p w a \<and> \<not> (fp_abs p w a = 0 \<and> fp_abs p w b = 0)
      else if fp_sign p w a then fp_abs p w b < fp_abs p w a else fp_abs p w a < fp_abs p w b)"
  "fp_value p w a = fp_value p w b \<longleftrightarrow>
     fp_abs p w a = 0 \<and> fp_abs p w b = 0
       \<or> fp_sign p w a = fp_sign p w b \<and> fp_abs p w a = fp_abs p w b"
proof -
  define x y where "x = fp_magn p w a" and "y = fp_magn p w b"
  have xy: "0 \<le> x" "0 \<le> y" "x = 0 \<longleftrightarrow> fp_abs p w a = 0" "y = 0 \<longleftrightarrow> fp_abs p w b = 0"
      "x < y \<longleftrightarrow> fp_abs p w a < fp_abs p w b" "y < x \<longleftrightarrow> fp_abs p w b < fp_abs p w a"
      "x = y \<longleftrightarrow> fp_abs p w a = fp_abs p w b"
    by (simp_all add: x_def y_def fp_magn_nonneg fp_magn_eq_0 fp_magn_less_iff fp_magn_eq_iff)
  show "fp_value p w a < fp_value p w b \<longleftrightarrow>
     (if fp_sign p w a \<noteq> fp_sign p w b
      then fp_sign p w a \<and> \<not> (fp_abs p w a = 0 \<and> fp_abs p w b = 0)
      else if fp_sign p w a then fp_abs p w b < fp_abs p w a else fp_abs p w a < fp_abs p w b)"
    unfolding fp_value_def x_def[symmetric] y_def[symmetric] xy(3-6)[symmetric] using xy(1,2) by auto
  show "fp_value p w a = fp_value p w b \<longleftrightarrow>
     fp_abs p w a = 0 \<and> fp_abs p w b = 0
       \<or> fp_sign p w a = fp_sign p w b \<and> fp_abs p w a = fp_abs p w b"
    unfolding fp_value_def x_def[symmetric] y_def[symmetric] xy(3,4,7)[symmetric] using xy(1,2) by auto
qed

lemma fp_cmp_patterns:
  assumes "\<not> fp_nan p w a" and "\<not> fp_nan p w b" and "0 < w"
  shows "fp_lt p w a b \<longleftrightarrow>
     (if fp_sign p w a \<noteq> fp_sign p w b
      then fp_sign p w a \<and> \<not> (fp_abs p w a = 0 \<and> fp_abs p w b = 0)
      else if fp_sign p w a then fp_abs p w b < fp_abs p w a else fp_abs p w a < fp_abs p w b)"
    and "fp_eq p w a b \<longleftrightarrow>
     fp_abs p w a = 0 \<and> fp_abs p w b = 0
       \<or> fp_sign p w a = fp_sign p w b \<and> fp_abs p w a = fp_abs p w b"
proof -
  have "(1::nat) < 2 ^ w"
    using assms(3) by (intro one_less_power) simp_all
  then have i: "0 < fp_inf p w"
    by (simp add: fp_inf_def)
  have le: "fp_abs p w a \<le> fp_inf p w" "fp_abs p w b \<le> fp_inf p w"
    using assms by (simp_all add: fp_nan_def)
  show "fp_lt p w a b \<longleftrightarrow>
     (if fp_sign p w a \<noteq> fp_sign p w b
      then fp_sign p w a \<and> \<not> (fp_abs p w a = 0 \<and> fp_abs p w b = 0)
      else if fp_sign p w a then fp_abs p w b < fp_abs p w a else fp_abs p w a < fp_abs p w b)"
    using i le unfolding fp_lt_def fp_infinite_def fp_value_cmp by auto
  show "fp_eq p w a b \<longleftrightarrow>
     fp_abs p w a = 0 \<and> fp_abs p w b = 0
       \<or> fp_sign p w a = fp_sign p w b \<and> fp_abs p w a = fp_abs p w b"
    using i le unfolding fp_eq_def fp_infinite_def fp_value_cmp by auto
qed

section \<open>The interface of the comparisons\<close>

text \<open>
  What the comparison routines promise, and what follows for every client: the order laws
  and the correctness of a minimum and a maximum computed from them.
\<close>

definition fp_max_spec :: "nat \<Rightarrow> nat \<Rightarrow> nat \<Rightarrow> nat \<Rightarrow> nat \<Rightarrow> bool" where
  "fp_max_spec p w a b r \<longleftrightarrow>
     (if fp_nan p w a \<and> fp_nan p w b then r = fp_qnan p w
      else if fp_nan p w a then r = b
      else if fp_nan p w b then r = a
      else (r = a \<or> r = b) \<and> fp_le p w a r \<and> fp_le p w b r
           \<and> (fp_eq p w a b \<and> \<not> (fp_sign p w a \<and> fp_sign p w b) \<longrightarrow> \<not> fp_sign p w r))"

definition fp_min_spec :: "nat \<Rightarrow> nat \<Rightarrow> nat \<Rightarrow> nat \<Rightarrow> nat \<Rightarrow> bool" where
  "fp_min_spec p w a b r \<longleftrightarrow>
     (if fp_nan p w a \<and> fp_nan p w b then r = fp_qnan p w
      else if fp_nan p w a then r = b
      else if fp_nan p w b then r = a
      else (r = a \<or> r = b) \<and> fp_le p w r a \<and> fp_le p w r b
           \<and> (fp_eq p w a b \<and> (fp_sign p w a \<or> fp_sign p w b) \<longrightarrow> fp_sign p w r))"

locale fp_compare =
  fixes p w :: nat
    and eq lt_quiet :: "'r::len word \<Rightarrow> 'r word \<Rightarrow> softfloat_state \<Rightarrow> bool \<times> softfloat_state"
  assumes w_pos: "0 < w"
    and eq: "compare_spec p w True fp_eq s (unat a) (unat b) (eq a b s)"
    and lt: "compare_spec p w True fp_lt s (unat a) (unat b) (lt_quiet a b s)"
begin

lemma lt_irrefl: "\<not> fst (lt_quiet a a s)"
  using lt[of s a a] fp_cmp_patterns(1)[OF _ _ w_pos, of p "unat a" "unat a"]
  by (auto simp: compare_spec_def)

lemma lt_trans:
  assumes "fst (lt_quiet a b s)" and "fst (lt_quiet b c s)"
  shows "fst (lt_quiet a c s)"
proof -
  have n: "\<not> fp_nan p w (unat a)" "\<not> fp_nan p w (unat b)" "\<not> fp_nan p w (unat c)"
    using lt[of s a b] lt[of s b c] assms by (auto simp: compare_spec_def split: if_splits)
  then have "fp_lt p w (unat a) (unat b)" "fp_lt p w (unat b) (unat c)"
    using lt[of s a b] lt[of s b c] assms by (simp_all add: compare_spec_def)
  then have "fp_lt p w (unat a) (unat c)"
    using n by (auto simp: fp_cmp_patterns w_pos split: if_splits)
  then show ?thesis
    using lt[of s a c] n by (simp add: compare_spec_def)
qed

lemma trichotomy:
  assumes "\<not> fp_nan p w (unat a)" and "\<not> fp_nan p w (unat b)"
  shows "fst (lt_quiet a b s) \<or> fst (eq a b s) \<or> fst (lt_quiet b a s)"
  using lt[of s a b] lt[of s b a] eq[of s a b] assms
  by (auto simp: compare_spec_def fp_cmp_patterns w_pos)

text \<open>
  The choice \<open>fall_maxmin.c\<close> makes, with the calls in its order: the second comparison runs
  only where the first is false.
\<close>

lemma choose_flags:
  "snd (let (l, s) = lt_quiet a b s
        in if l then (True, s) else let (e, s) = eq a b s in (e \<and> c, s)) =
     raise_if (fp_snan p w (unat a) \<or> fp_snan p w (unat b)) softfloat_flag_invalid s"
proof -
  have sn: "fp_snan p w x \<Longrightarrow> fp_nan p w x" for x
    by (simp add: fp_snan_def)
  show ?thesis
    using lt[of s a b] eq[of "snd (lt_quiet a b s)" a b] sn
    by (auto simp: compare_spec_def raise_if_def)
qed

lemma choose_fst:
  "fst (let (l, s) = lt_quiet a b s
        in if l then (True, s) else let (e, s) = eq a b s in (e \<and> c, s)) \<longleftrightarrow>
     \<not> fp_nan p w (unat a) \<and> \<not> fp_nan p w (unat b)
       \<and> (fp_lt p w (unat a) (unat b) \<or> fp_eq p w (unat a) (unat b) \<and> c)"
  using lt[of s a b] eq[of "snd (lt_quiet a b s)" a b] by (auto simp: compare_spec_def)

end

lemma fp_max_choice:
  assumes "0 < w" and "g \<longleftrightarrow> \<not> fp_nan p w a \<and> \<not> fp_nan p w b \<and> (fp_lt p w b a \<or> fp_eq p w b a \<and> fp_sign p w b)"
  shows "fp_max_spec p w a b
    (if fp_nan p w a \<and> fp_nan p w b then fp_qnan p w else if g \<or> fp_nan p w b then a else b)"
proof (cases "fp_nan p w a \<or> fp_nan p w b")
  case False
  then show ?thesis
    using fp_cmp_patterns[of p w a b] fp_cmp_patterns[of p w b a] fp_cmp_patterns[of p w a a]
      fp_cmp_patterns[of p w b b] assms
    unfolding fp_max_spec_def fp_le_def by (auto split: if_splits)
qed (auto simp: fp_max_spec_def assms)

lemma fp_min_choice:
  assumes "0 < w" and "g \<longleftrightarrow> \<not> fp_nan p w a \<and> \<not> fp_nan p w b \<and> (fp_lt p w a b \<or> fp_eq p w a b \<and> fp_sign p w a)"
  shows "fp_min_spec p w a b
    (if fp_nan p w a \<and> fp_nan p w b then fp_qnan p w else if g \<or> fp_nan p w b then a else b)"
proof (cases "fp_nan p w a \<or> fp_nan p w b")
  case False
  then show ?thesis
    using fp_cmp_patterns[of p w a b] fp_cmp_patterns[of p w b a] fp_cmp_patterns[of p w a a]
      fp_cmp_patterns[of p w b b] assms
    unfolding fp_min_spec_def fp_le_def by (auto split: if_splits)
qed (auto simp: fp_min_spec_def assms)


section \<open>The three formats\<close>

lemma word_not_and_eq_0: "NOT x AND m = 0 \<longleftrightarrow> x AND m = m" for x m :: "'a::len word"
  by (auto simp: bit_eq_iff bit_simps)

lemma fp_nan_top:
  "fp_nan p w b \<longleftrightarrow> b div 2 ^ p mod 2 ^ w = 2 ^ w - 1 \<and> b mod 2 ^ p \<noteq> 0"
  unfolding fp_class_fields fp_exp_def fp_frac_def ..

lemma pattern_eq_iff:
  assumes "a < 2 ^ (p + w + 1)" and "b < 2 ^ (p + w + 1)"
  shows "a = b \<longleftrightarrow> fp_sign p w a = fp_sign p w b \<and> fp_abs p w a = fp_abs p w b"
  using fp_decomp[OF assms(1)] fp_decomp[OF assms(2)] unfolding fp_abs_fields[symmetric] by auto

lemma pattern_less_iff:
  assumes "a < 2 ^ (p + w + 1)" and "b < 2 ^ (p + w + 1)" and "fp_sign p w a = fp_sign p w b"
  shows "a < b \<longleftrightarrow> fp_abs p w a < fp_abs p w b"
  using fp_decomp[OF assms(1)] fp_decomp[OF assms(2)] unfolding fp_abs_fields[symmetric] assms(3)
  by (metis add_less_cancel_left)

lemma isNaNF16UI_nan: "isNaNF16UI (to_u64 a) \<longleftrightarrow> fp_nan 10 5 (unat a)" for a :: float16
  using and_shifted_mask_eq[of "0x7C00" 10 "0x1F" 5 "to_u64 a"] unat_and_mask[of "to_u64 a" 10]
  unfolding isNaNF16UI_def word_not_and_eq_0
  by (simp add: fp_nan_top mask_numeral unat_ucast_widen word_eq_0_unat[of "_ AND _"])

lemma both_zeroF16: "to_u16 (push_bit 1 (to_u64 a OR to_u64 b)) = 0 \<longleftrightarrow> fp_abs 10 5 (unat a) = 0 \<and> fp_abs 10 5 (unat b) = 0"
  for a b :: float16
proof -
  have "to_u16 (push_bit 1 (to_u64 x)) = 0 \<longleftrightarrow> fp_abs 10 5 (unat x) = 0" for x :: float16
  proof -
    have sh: "to_u16 (push_bit n (to_u64 x)) = push_bit n x" for n
      by (rule bit_word_eqI) (auto simp: bit_simps)
    show ?thesis
      unfolding sh[of 1] using push_bit_eq_0_mod[of 15 x] by (simp add: fp_abs_def)
  qed
  moreover have "to_u16 (push_bit n (to_u64 a OR to_u64 b)) = to_u16 (push_bit n (to_u64 a)) OR to_u16 (push_bit n (to_u64 b))" for n
    by (rule bit_word_eqI) (auto simp: bit_simps)
  ultimately show ?thesis
    by (simp only: or_eq_0_iff)
qed

lemma patternF16:
  "a = b \<longleftrightarrow> fp_sign 10 5 (unat a) = fp_sign 10 5 (unat b) \<and> fp_abs 10 5 (unat a) = fp_abs 10 5 (unat b)"
  "fp_sign 10 5 (unat a) = fp_sign 10 5 (unat b) \<Longrightarrow> a < b \<longleftrightarrow> fp_abs 10 5 (unat a) < fp_abs 10 5 (unat b)"
  for a b :: float16
  using pattern_eq_iff[of "unat a" 10 5 "unat b"] pattern_less_iff[of "unat a" 10 5 "unat b"] unat_lt[of a] unat_lt[of b]
  by (simp_all add: word_unat_eq_iff word_less_nat_alt)

lemmas cmpF16 = isNaNF16UI_nan isSigNaNF16UI_snan F16_fields(1) both_zeroF16

lemma f16_eq_correct: "compare_spec 10 5 True fp_eq s (unat a) (unat b) (f16_eq a b s)"
  unfolding compare_spec_def f16_eq_def Let_def cmpF16 raise_if_def fp_le_def
  using patternF16[of a b] by (auto simp: fp_cmp_patterns)

lemma f16_eq_signaling_correct: "compare_spec 10 5 False fp_eq s (unat a) (unat b) (f16_eq_signaling a b s)"
  unfolding compare_spec_def f16_eq_signaling_def Let_def cmpF16 raise_if_def fp_le_def
  using patternF16[of a b] by (auto simp: fp_cmp_patterns)

lemma f16_lt_correct: "compare_spec 10 5 False fp_lt s (unat a) (unat b) (f16_lt a b s)"
  unfolding compare_spec_def f16_lt_def Let_def cmpF16 raise_if_def fp_le_def
  using patternF16[of a b] by (auto simp: fp_cmp_patterns)

lemma f16_lt_quiet_correct: "compare_spec 10 5 True fp_lt s (unat a) (unat b) (f16_lt_quiet a b s)"
  unfolding compare_spec_def f16_lt_quiet_def Let_def cmpF16 raise_if_def fp_le_def
  using patternF16[of a b] by (auto simp: fp_cmp_patterns)

lemma f16_le_correct: "compare_spec 10 5 False fp_le s (unat a) (unat b) (f16_le a b s)"
  unfolding compare_spec_def f16_le_def Let_def cmpF16 raise_if_def fp_le_def
  using patternF16[of a b] by (auto simp: fp_cmp_patterns)

lemma f16_le_quiet_correct: "compare_spec 10 5 True fp_le s (unat a) (unat b) (f16_le_quiet a b s)"
  unfolding compare_spec_def f16_le_quiet_def Let_def cmpF16 raise_if_def fp_le_def
  using patternF16[of a b] by (auto simp: fp_cmp_patterns)

interpretation f16: fp_compare 10 5 f16_eq f16_lt_quiet
  by unfold_locales (simp, rule f16_eq_correct, rule f16_lt_quiet_correct)

lemma f16_max_correct:
  "fp_max_spec 10 5 (unat a) (unat b) (unat (fst (f16_max a b s)))"
  "snd (f16_max a b s) = raise_if (fp_snan 10 5 (unat a) \<or> fp_snan 10 5 (unat b)) softfloat_flag_invalid s"
proof -
  let ?g = "let (l, s) = f16_lt_quiet b a s
    in if l then (True, s) else let (e, s) = f16_eq b a s in (e \<and> fp_sign 10 5 (unat b), s)"
  have r: "f16_max a b s =
      (if fp_nan 10 5 (unat a) \<and> fp_nan 10 5 (unat b) then to_u16 defaultNaNF16UI
       else if fst ?g \<or> fp_nan 10 5 (unat b) then a else b, snd ?g)"
    unfolding f16_max_def cmpF16 by (simp add: case_prod_beta' Let_def)
  have "unat (fst (f16_max a b s)) =
      (if fp_nan 10 5 (unat a) \<and> fp_nan 10 5 (unat b) then fp_qnan 10 5
       else if fst ?g \<or> fp_nan 10 5 (unat b) then unat a else unat b)"
    unfolding r by (simp add: fp_qnan_values)
  moreover have "fst ?g \<longleftrightarrow> \<not> fp_nan 10 5 (unat a) \<and> \<not> fp_nan 10 5 (unat b)
      \<and> (fp_lt 10 5 (unat b) (unat a) \<or> fp_eq 10 5 (unat b) (unat a) \<and> fp_sign 10 5 (unat b))"
    unfolding f16.choose_fst by blast
  ultimately show "fp_max_spec 10 5 (unat a) (unat b) (unat (fst (f16_max a b s)))"
    using fp_max_choice[of 5 "fst ?g" 10 "unat a" "unat b"] by (simp only: zero_less_numeral)
  show "snd (f16_max a b s) = raise_if (fp_snan 10 5 (unat a) \<or> fp_snan 10 5 (unat b)) softfloat_flag_invalid s"
    unfolding r snd_conv f16.choose_flags by (simp add: disj_commute)
qed

lemma f16_min_correct:
  "fp_min_spec 10 5 (unat a) (unat b) (unat (fst (f16_min a b s)))"
  "snd (f16_min a b s) = raise_if (fp_snan 10 5 (unat a) \<or> fp_snan 10 5 (unat b)) softfloat_flag_invalid s"
proof -
  let ?g = "let (l, s) = f16_lt_quiet a b s
    in if l then (True, s) else let (e, s) = f16_eq a b s in (e \<and> fp_sign 10 5 (unat a), s)"
  have r: "f16_min a b s =
      (if fp_nan 10 5 (unat a) \<and> fp_nan 10 5 (unat b) then to_u16 defaultNaNF16UI
       else if fst ?g \<or> fp_nan 10 5 (unat b) then a else b, snd ?g)"
    unfolding f16_min_def cmpF16 by (simp add: case_prod_beta' Let_def)
  have "unat (fst (f16_min a b s)) =
      (if fp_nan 10 5 (unat a) \<and> fp_nan 10 5 (unat b) then fp_qnan 10 5
       else if fst ?g \<or> fp_nan 10 5 (unat b) then unat a else unat b)"
    unfolding r by (simp add: fp_qnan_values)
  moreover have "fst ?g \<longleftrightarrow> \<not> fp_nan 10 5 (unat a) \<and> \<not> fp_nan 10 5 (unat b)
      \<and> (fp_lt 10 5 (unat a) (unat b) \<or> fp_eq 10 5 (unat a) (unat b) \<and> fp_sign 10 5 (unat a))"
    unfolding f16.choose_fst by blast
  ultimately show "fp_min_spec 10 5 (unat a) (unat b) (unat (fst (f16_min a b s)))"
    using fp_min_choice[of 5 "fst ?g" 10 "unat a" "unat b"] by (simp only: zero_less_numeral)
  show "snd (f16_min a b s) = raise_if (fp_snan 10 5 (unat a) \<or> fp_snan 10 5 (unat b)) softfloat_flag_invalid s"
    unfolding r snd_conv f16.choose_flags ..
qed

lemma isNaNF32UI_nan: "isNaNF32UI (to_u64 a) \<longleftrightarrow> fp_nan 23 8 (unat a)" for a :: float32
  using and_shifted_mask_eq[of "0x7F800000" 23 "0xFF" 8 "to_u64 a"] unat_and_mask[of "to_u64 a" 23]
  unfolding isNaNF32UI_def word_not_and_eq_0
  by (simp add: fp_nan_top mask_numeral unat_ucast_widen word_eq_0_unat[of "_ AND _"])

lemma both_zeroF32: "to_u32 (push_bit 1 (to_u64 a OR to_u64 b)) = 0 \<longleftrightarrow> fp_abs 23 8 (unat a) = 0 \<and> fp_abs 23 8 (unat b) = 0"
  for a b :: float32
proof -
  have "to_u32 (push_bit 1 (to_u64 x)) = 0 \<longleftrightarrow> fp_abs 23 8 (unat x) = 0" for x :: float32
  proof -
    have sh: "to_u32 (push_bit n (to_u64 x)) = push_bit n x" for n
      by (rule bit_word_eqI) (auto simp: bit_simps)
    show ?thesis
      unfolding sh[of 1] using push_bit_eq_0_mod[of 31 x] by (simp add: fp_abs_def)
  qed
  moreover have "to_u32 (push_bit n (to_u64 a OR to_u64 b)) = to_u32 (push_bit n (to_u64 a)) OR to_u32 (push_bit n (to_u64 b))" for n
    by (rule bit_word_eqI) (auto simp: bit_simps)
  ultimately show ?thesis
    by (simp only: or_eq_0_iff)
qed

lemma patternF32:
  "a = b \<longleftrightarrow> fp_sign 23 8 (unat a) = fp_sign 23 8 (unat b) \<and> fp_abs 23 8 (unat a) = fp_abs 23 8 (unat b)"
  "fp_sign 23 8 (unat a) = fp_sign 23 8 (unat b) \<Longrightarrow> a < b \<longleftrightarrow> fp_abs 23 8 (unat a) < fp_abs 23 8 (unat b)"
  for a b :: float32
  using pattern_eq_iff[of "unat a" 23 8 "unat b"] pattern_less_iff[of "unat a" 23 8 "unat b"] unat_lt[of a] unat_lt[of b]
  by (simp_all add: word_unat_eq_iff word_less_nat_alt)

lemmas cmpF32 = isNaNF32UI_nan isSigNaNF32UI_snan F32_fields(1) both_zeroF32

lemma f32_eq_correct: "compare_spec 23 8 True fp_eq s (unat a) (unat b) (f32_eq a b s)"
  unfolding compare_spec_def f32_eq_def Let_def cmpF32 raise_if_def fp_le_def
  using patternF32[of a b] by (auto simp: fp_cmp_patterns)

lemma f32_eq_signaling_correct: "compare_spec 23 8 False fp_eq s (unat a) (unat b) (f32_eq_signaling a b s)"
  unfolding compare_spec_def f32_eq_signaling_def Let_def cmpF32 raise_if_def fp_le_def
  using patternF32[of a b] by (auto simp: fp_cmp_patterns)

lemma f32_lt_correct: "compare_spec 23 8 False fp_lt s (unat a) (unat b) (f32_lt a b s)"
  unfolding compare_spec_def f32_lt_def Let_def cmpF32 raise_if_def fp_le_def
  using patternF32[of a b] by (auto simp: fp_cmp_patterns)

lemma f32_lt_quiet_correct: "compare_spec 23 8 True fp_lt s (unat a) (unat b) (f32_lt_quiet a b s)"
  unfolding compare_spec_def f32_lt_quiet_def Let_def cmpF32 raise_if_def fp_le_def
  using patternF32[of a b] by (auto simp: fp_cmp_patterns)

lemma f32_le_correct: "compare_spec 23 8 False fp_le s (unat a) (unat b) (f32_le a b s)"
  unfolding compare_spec_def f32_le_def Let_def cmpF32 raise_if_def fp_le_def
  using patternF32[of a b] by (auto simp: fp_cmp_patterns)

lemma f32_le_quiet_correct: "compare_spec 23 8 True fp_le s (unat a) (unat b) (f32_le_quiet a b s)"
  unfolding compare_spec_def f32_le_quiet_def Let_def cmpF32 raise_if_def fp_le_def
  using patternF32[of a b] by (auto simp: fp_cmp_patterns)

interpretation f32: fp_compare 23 8 f32_eq f32_lt_quiet
  by unfold_locales (simp, rule f32_eq_correct, rule f32_lt_quiet_correct)

lemma f32_max_correct:
  "fp_max_spec 23 8 (unat a) (unat b) (unat (fst (f32_max a b s)))"
  "snd (f32_max a b s) = raise_if (fp_snan 23 8 (unat a) \<or> fp_snan 23 8 (unat b)) softfloat_flag_invalid s"
proof -
  let ?g = "let (l, s) = f32_lt_quiet b a s
    in if l then (True, s) else let (e, s) = f32_eq b a s in (e \<and> fp_sign 23 8 (unat b), s)"
  have r: "f32_max a b s =
      (if fp_nan 23 8 (unat a) \<and> fp_nan 23 8 (unat b) then to_u32 defaultNaNF32UI
       else if fst ?g \<or> fp_nan 23 8 (unat b) then a else b, snd ?g)"
    unfolding f32_max_def cmpF32 by (simp add: case_prod_beta' Let_def)
  have "unat (fst (f32_max a b s)) =
      (if fp_nan 23 8 (unat a) \<and> fp_nan 23 8 (unat b) then fp_qnan 23 8
       else if fst ?g \<or> fp_nan 23 8 (unat b) then unat a else unat b)"
    unfolding r by (simp add: fp_qnan_values)
  moreover have "fst ?g \<longleftrightarrow> \<not> fp_nan 23 8 (unat a) \<and> \<not> fp_nan 23 8 (unat b)
      \<and> (fp_lt 23 8 (unat b) (unat a) \<or> fp_eq 23 8 (unat b) (unat a) \<and> fp_sign 23 8 (unat b))"
    unfolding f32.choose_fst by blast
  ultimately show "fp_max_spec 23 8 (unat a) (unat b) (unat (fst (f32_max a b s)))"
    using fp_max_choice[of 8 "fst ?g" 23 "unat a" "unat b"] by (simp only: zero_less_numeral)
  show "snd (f32_max a b s) = raise_if (fp_snan 23 8 (unat a) \<or> fp_snan 23 8 (unat b)) softfloat_flag_invalid s"
    unfolding r snd_conv f32.choose_flags by (simp add: disj_commute)
qed

lemma f32_min_correct:
  "fp_min_spec 23 8 (unat a) (unat b) (unat (fst (f32_min a b s)))"
  "snd (f32_min a b s) = raise_if (fp_snan 23 8 (unat a) \<or> fp_snan 23 8 (unat b)) softfloat_flag_invalid s"
proof -
  let ?g = "let (l, s) = f32_lt_quiet a b s
    in if l then (True, s) else let (e, s) = f32_eq a b s in (e \<and> fp_sign 23 8 (unat a), s)"
  have r: "f32_min a b s =
      (if fp_nan 23 8 (unat a) \<and> fp_nan 23 8 (unat b) then to_u32 defaultNaNF32UI
       else if fst ?g \<or> fp_nan 23 8 (unat b) then a else b, snd ?g)"
    unfolding f32_min_def cmpF32 by (simp add: case_prod_beta' Let_def)
  have "unat (fst (f32_min a b s)) =
      (if fp_nan 23 8 (unat a) \<and> fp_nan 23 8 (unat b) then fp_qnan 23 8
       else if fst ?g \<or> fp_nan 23 8 (unat b) then unat a else unat b)"
    unfolding r by (simp add: fp_qnan_values)
  moreover have "fst ?g \<longleftrightarrow> \<not> fp_nan 23 8 (unat a) \<and> \<not> fp_nan 23 8 (unat b)
      \<and> (fp_lt 23 8 (unat a) (unat b) \<or> fp_eq 23 8 (unat a) (unat b) \<and> fp_sign 23 8 (unat a))"
    unfolding f32.choose_fst by blast
  ultimately show "fp_min_spec 23 8 (unat a) (unat b) (unat (fst (f32_min a b s)))"
    using fp_min_choice[of 8 "fst ?g" 23 "unat a" "unat b"] by (simp only: zero_less_numeral)
  show "snd (f32_min a b s) = raise_if (fp_snan 23 8 (unat a) \<or> fp_snan 23 8 (unat b)) softfloat_flag_invalid s"
    unfolding r snd_conv f32.choose_flags ..
qed

lemma isNaNF64UI_nan: "isNaNF64UI a \<longleftrightarrow> fp_nan 52 11 (unat a)" for a :: float64
  using and_shifted_mask_eq[of "0x7FF0000000000000" 52 "0x7FF" 11 a] unat_and_mask[of a 52]
  unfolding isNaNF64UI_def word_not_and_eq_0
  by (simp add: fp_nan_top mask_numeral word_eq_0_unat[of "_ AND _"])

lemma both_zeroF64: "(a OR b) AND 0x7FFFFFFFFFFFFFFF = 0 \<longleftrightarrow> fp_abs 52 11 (unat a) = 0 \<and> fp_abs 52 11 (unat b) = 0"
  for a b :: float64
proof -
  have "x AND 0x7FFFFFFFFFFFFFFF = 0 \<longleftrightarrow> fp_abs 52 11 (unat x) = 0" for x :: float64
    using unat_and_mask[of x 63] by (simp add: mask_numeral word_eq_0_unat[of "x AND _"] fp_abs_def)
  then show ?thesis
    by (simp add: bit.conj_disj_distrib2 or_eq_0_iff)
qed

lemma patternF64:
  "a = b \<longleftrightarrow> fp_sign 52 11 (unat a) = fp_sign 52 11 (unat b) \<and> fp_abs 52 11 (unat a) = fp_abs 52 11 (unat b)"
  "fp_sign 52 11 (unat a) = fp_sign 52 11 (unat b) \<Longrightarrow> a < b \<longleftrightarrow> fp_abs 52 11 (unat a) < fp_abs 52 11 (unat b)"
  for a b :: float64
  using pattern_eq_iff[of "unat a" 52 11 "unat b"] pattern_less_iff[of "unat a" 52 11 "unat b"] unat_lt[of a] unat_lt[of b]
  by (simp_all add: word_unat_eq_iff word_less_nat_alt)

lemmas cmpF64 = isNaNF64UI_nan isSigNaNF64UI_snan F64_fields(1) both_zeroF64

lemma f64_eq_correct: "compare_spec 52 11 True fp_eq s (unat a) (unat b) (f64_eq a b s)"
  unfolding compare_spec_def f64_eq_def Let_def cmpF64 raise_if_def fp_le_def
  using patternF64[of a b] by (auto simp: fp_cmp_patterns)

lemma f64_eq_signaling_correct: "compare_spec 52 11 False fp_eq s (unat a) (unat b) (f64_eq_signaling a b s)"
  unfolding compare_spec_def f64_eq_signaling_def Let_def cmpF64 raise_if_def fp_le_def
  using patternF64[of a b] by (auto simp: fp_cmp_patterns)

lemma f64_lt_correct: "compare_spec 52 11 False fp_lt s (unat a) (unat b) (f64_lt a b s)"
  unfolding compare_spec_def f64_lt_def Let_def cmpF64 raise_if_def fp_le_def
  using patternF64[of a b] by (auto simp: fp_cmp_patterns)

lemma f64_lt_quiet_correct: "compare_spec 52 11 True fp_lt s (unat a) (unat b) (f64_lt_quiet a b s)"
  unfolding compare_spec_def f64_lt_quiet_def Let_def cmpF64 raise_if_def fp_le_def
  using patternF64[of a b] by (auto simp: fp_cmp_patterns)

lemma f64_le_correct: "compare_spec 52 11 False fp_le s (unat a) (unat b) (f64_le a b s)"
  unfolding compare_spec_def f64_le_def Let_def cmpF64 raise_if_def fp_le_def
  using patternF64[of a b] by (auto simp: fp_cmp_patterns)

lemma f64_le_quiet_correct: "compare_spec 52 11 True fp_le s (unat a) (unat b) (f64_le_quiet a b s)"
  unfolding compare_spec_def f64_le_quiet_def Let_def cmpF64 raise_if_def fp_le_def
  using patternF64[of a b] by (auto simp: fp_cmp_patterns)

interpretation f64: fp_compare 52 11 f64_eq f64_lt_quiet
  by unfold_locales (simp, rule f64_eq_correct, rule f64_lt_quiet_correct)

lemma f64_max_correct:
  "fp_max_spec 52 11 (unat a) (unat b) (unat (fst (f64_max a b s)))"
  "snd (f64_max a b s) = raise_if (fp_snan 52 11 (unat a) \<or> fp_snan 52 11 (unat b)) softfloat_flag_invalid s"
proof -
  let ?g = "let (l, s) = f64_lt_quiet b a s
    in if l then (True, s) else let (e, s) = f64_eq b a s in (e \<and> fp_sign 52 11 (unat b), s)"
  have r: "f64_max a b s =
      (if fp_nan 52 11 (unat a) \<and> fp_nan 52 11 (unat b) then defaultNaNF64UI
       else if fst ?g \<or> fp_nan 52 11 (unat b) then a else b, snd ?g)"
    unfolding f64_max_def cmpF64 by (simp add: case_prod_beta' Let_def)
  have "unat (fst (f64_max a b s)) =
      (if fp_nan 52 11 (unat a) \<and> fp_nan 52 11 (unat b) then fp_qnan 52 11
       else if fst ?g \<or> fp_nan 52 11 (unat b) then unat a else unat b)"
    unfolding r by (simp add: fp_qnan_values)
  moreover have "fst ?g \<longleftrightarrow> \<not> fp_nan 52 11 (unat a) \<and> \<not> fp_nan 52 11 (unat b)
      \<and> (fp_lt 52 11 (unat b) (unat a) \<or> fp_eq 52 11 (unat b) (unat a) \<and> fp_sign 52 11 (unat b))"
    unfolding f64.choose_fst by blast
  ultimately show "fp_max_spec 52 11 (unat a) (unat b) (unat (fst (f64_max a b s)))"
    using fp_max_choice[of 11 "fst ?g" 52 "unat a" "unat b"] by (simp only: zero_less_numeral)
  show "snd (f64_max a b s) = raise_if (fp_snan 52 11 (unat a) \<or> fp_snan 52 11 (unat b)) softfloat_flag_invalid s"
    unfolding r snd_conv f64.choose_flags by (simp add: disj_commute)
qed

lemma f64_min_correct:
  "fp_min_spec 52 11 (unat a) (unat b) (unat (fst (f64_min a b s)))"
  "snd (f64_min a b s) = raise_if (fp_snan 52 11 (unat a) \<or> fp_snan 52 11 (unat b)) softfloat_flag_invalid s"
proof -
  let ?g = "let (l, s) = f64_lt_quiet a b s
    in if l then (True, s) else let (e, s) = f64_eq a b s in (e \<and> fp_sign 52 11 (unat a), s)"
  have r: "f64_min a b s =
      (if fp_nan 52 11 (unat a) \<and> fp_nan 52 11 (unat b) then defaultNaNF64UI
       else if fst ?g \<or> fp_nan 52 11 (unat b) then a else b, snd ?g)"
    unfolding f64_min_def cmpF64 by (simp add: case_prod_beta' Let_def)
  have "unat (fst (f64_min a b s)) =
      (if fp_nan 52 11 (unat a) \<and> fp_nan 52 11 (unat b) then fp_qnan 52 11
       else if fst ?g \<or> fp_nan 52 11 (unat b) then unat a else unat b)"
    unfolding r by (simp add: fp_qnan_values)
  moreover have "fst ?g \<longleftrightarrow> \<not> fp_nan 52 11 (unat a) \<and> \<not> fp_nan 52 11 (unat b)
      \<and> (fp_lt 52 11 (unat a) (unat b) \<or> fp_eq 52 11 (unat a) (unat b) \<and> fp_sign 52 11 (unat a))"
    unfolding f64.choose_fst by blast
  ultimately show "fp_min_spec 52 11 (unat a) (unat b) (unat (fst (f64_min a b s)))"
    using fp_min_choice[of 11 "fst ?g" 52 "unat a" "unat b"] by (simp only: zero_less_numeral)
  show "snd (f64_min a b s) = raise_if (fp_snan 52 11 (unat a) \<or> fp_snan 52 11 (unat b)) softfloat_flag_invalid s"
    unfolding r snd_conv f64.choose_flags ..
qed

section \<open>Classification\<close>

text \<open>
  The ten classes of the \<open>FCLASS\<close> instructions, by number: minus infinity, negative normal,
  negative subnormal, minus zero, plus zero, positive subnormal, positive normal, plus
  infinity, signaling NaN, quiet NaN.
\<close>

definition fp_class :: "nat \<Rightarrow> nat \<Rightarrow> nat \<Rightarrow> nat" where
  "fp_class p w b =
     (if fp_nan p w b then if fp_snan p w b then 8 else 9
      else if fp_sign p w b
      then if fp_infinite p w b then 0 else if fp_abs p w b = 0 then 3
           else if fp_abs p w b < 2 ^ p then 2 else 1
      else if fp_infinite p w b then 7 else if fp_abs p w b = 0 then 4
           else if fp_abs p w b < 2 ^ p then 5 else 6)"

lemma fp_abs_subnormal:
  "fp_abs p w b = 0 \<longleftrightarrow> fp_exp p w b = 0 \<and> fp_frac p b = 0"
  "fp_abs p w b < 2 ^ p \<longleftrightarrow> fp_exp p w b = 0"
proof -
  show "fp_abs p w b = 0 \<longleftrightarrow> fp_exp p w b = 0 \<and> fp_frac p b = 0"
    by (simp add: fp_abs_fields)
  have "fp_frac p b < 2 ^ p"
    by (simp add: fp_frac_def)
  moreover have "2 ^ p \<le> fp_exp p w b * 2 ^ p" if "fp_exp p w b \<noteq> 0"
    using that by simp
  ultimately show "fp_abs p w b < 2 ^ p \<longleftrightarrow> fp_exp p w b = 0"
    unfolding fp_abs_fields by (cases "fp_exp p w b = 0") (simp, linarith)
qed

lemma f16_classify_class: "f16_classify a = 2 ^ fp_class 10 5 (unat a)"
proof -
  have z: "fracF16UI (to_u64 a) = 0 \<longleftrightarrow> fp_frac 10 (unat a) = 0"
    using F16_fields(3)[of a] by (simp only: word_eq_0_unat)
  have e: "int (fp_exp 10 5 (unat a)) = 0x1F \<longleftrightarrow> fp_exp 10 5 (unat a) = 0x1F"
      "int (fp_exp 10 5 (unat a)) = 0 \<longleftrightarrow> fp_exp 10 5 (unat a) = 0"
    by linarith+
  show ?thesis
    unfolding f16_classify_def fp_class_def Let_def cmpF16 F16_fields(2) z e fp_abs_subnormal fp_snan_def
    by (cases "fp_exp 10 5 (unat a) = 0x1F"; cases "fp_exp 10 5 (unat a) = 0"; cases "fp_frac 10 (unat a) = 0";
        cases "fp_sign 10 5 (unat a)") (simp_all add: fp_class_fields)
qed

lemma f32_classify_class: "f32_classify a = 2 ^ fp_class 23 8 (unat a)"
proof -
  have z: "fracF32UI (to_u64 a) = 0 \<longleftrightarrow> fp_frac 23 (unat a) = 0"
    using F32_fields(3)[of a] by (simp only: word_eq_0_unat)
  have e: "int (fp_exp 23 8 (unat a)) = 0xFF \<longleftrightarrow> fp_exp 23 8 (unat a) = 0xFF"
      "int (fp_exp 23 8 (unat a)) = 0 \<longleftrightarrow> fp_exp 23 8 (unat a) = 0"
    by linarith+
  show ?thesis
    unfolding f32_classify_def fp_class_def Let_def cmpF32 F32_fields(2) z e fp_abs_subnormal fp_snan_def
    by (cases "fp_exp 23 8 (unat a) = 0xFF"; cases "fp_exp 23 8 (unat a) = 0"; cases "fp_frac 23 (unat a) = 0";
        cases "fp_sign 23 8 (unat a)") (simp_all add: fp_class_fields)
qed

lemma f64_classify_class: "f64_classify a = 2 ^ fp_class 52 11 (unat a)"
proof -
  have z: "fracF64UI a = 0 \<longleftrightarrow> fp_frac 52 (unat a) = 0"
    using F64_fields(3)[of a] by (simp only: word_eq_0_unat)
  have e: "int (fp_exp 52 11 (unat a)) = 0x7FF \<longleftrightarrow> fp_exp 52 11 (unat a) = 0x7FF"
      "int (fp_exp 52 11 (unat a)) = 0 \<longleftrightarrow> fp_exp 52 11 (unat a) = 0"
    by linarith+
  show ?thesis
    unfolding f64_classify_def fp_class_def Let_def cmpF64 F64_fields(2) z e fp_abs_subnormal fp_snan_def
    by (cases "fp_exp 52 11 (unat a) = 0x7FF"; cases "fp_exp 52 11 (unat a) = 0"; cases "fp_frac 52 (unat a) = 0";
        cases "fp_sign 52 11 (unat a)") (simp_all add: fp_class_fields)
qed

section \<open>The theorems\<close>

text \<open>
  The six comparisons of single precision decide equality, less and less-or-equal of the
  numbers their operands stand for (infinities beyond all finite numbers, the zeros equal), answer
  false when an operand is a NaN, and raise the invalid flag exactly for the NaNs of their
  kind: the quiet ones for signaling NaNs, the others for every NaN.
\<close>

lemma f32_comparisons_correct:
  "compare_spec 23 8 True fp_eq s (unat a) (unat b) (f32_eq a b s)
   \<and> compare_spec 23 8 False fp_eq s (unat a) (unat b) (f32_eq_signaling a b s)
   \<and> compare_spec 23 8 False fp_lt s (unat a) (unat b) (f32_lt a b s)
   \<and> compare_spec 23 8 True fp_lt s (unat a) (unat b) (f32_lt_quiet a b s)
   \<and> compare_spec 23 8 False fp_le s (unat a) (unat b) (f32_le a b s)
   \<and> compare_spec 23 8 True fp_le s (unat a) (unat b) (f32_le_quiet a b s)"
  by (intro conjI f32_eq_correct f32_eq_signaling_correct f32_lt_correct f32_lt_quiet_correct
      f32_le_correct f32_le_quiet_correct)

text \<open>
  The six comparisons of double precision decide equality, less and less-or-equal of the
  numbers their operands stand for (infinities beyond all finite numbers, the zeros equal), answer
  false when an operand is a NaN, and raise the invalid flag exactly for the NaNs of their
  kind: the quiet ones for signaling NaNs, the others for every NaN.
\<close>

lemma f64_comparisons_correct:
  "compare_spec 52 11 True fp_eq s (unat a) (unat b) (f64_eq a b s)
   \<and> compare_spec 52 11 False fp_eq s (unat a) (unat b) (f64_eq_signaling a b s)
   \<and> compare_spec 52 11 False fp_lt s (unat a) (unat b) (f64_lt a b s)
   \<and> compare_spec 52 11 True fp_lt s (unat a) (unat b) (f64_lt_quiet a b s)
   \<and> compare_spec 52 11 False fp_le s (unat a) (unat b) (f64_le a b s)
   \<and> compare_spec 52 11 True fp_le s (unat a) (unat b) (f64_le_quiet a b s)"
  by (intro conjI f64_eq_correct f64_eq_signaling_correct f64_lt_correct f64_lt_quiet_correct
      f64_le_correct f64_le_quiet_correct)

text \<open>
  The six comparisons of half precision decide equality, less and less-or-equal of the
  numbers their operands stand for (infinities beyond all finite numbers, the zeros equal), answer
  false when an operand is a NaN, and raise the invalid flag exactly for the NaNs of their
  kind: the quiet ones for signaling NaNs, the others for every NaN.
\<close>

lemma f16_comparisons_correct:
  "compare_spec 10 5 True fp_eq s (unat a) (unat b) (f16_eq a b s)
   \<and> compare_spec 10 5 False fp_eq s (unat a) (unat b) (f16_eq_signaling a b s)
   \<and> compare_spec 10 5 False fp_lt s (unat a) (unat b) (f16_lt a b s)
   \<and> compare_spec 10 5 True fp_lt s (unat a) (unat b) (f16_lt_quiet a b s)
   \<and> compare_spec 10 5 False fp_le s (unat a) (unat b) (f16_le a b s)
   \<and> compare_spec 10 5 True fp_le s (unat a) (unat b) (f16_le_quiet a b s)"
  by (intro conjI f16_eq_correct f16_eq_signaling_correct f16_lt_correct f16_lt_quiet_correct
      f16_le_correct f16_le_quiet_correct)

text \<open>
  C29: maximum and minimum of the three formats return one of their operands, the greatest
  respectively the least of them, the zero of the right sign where both are zeros, the other
  operand where one is a NaN and the default NaN where both are; the invalid flag is raised
  exactly when an operand is a signaling NaN.
\<close>

theorem max_min_correct:
  "fp_max_spec 10 5 (unat a16) (unat b16) (unat (fst (f16_max a16 b16 s)))
   \<and> snd (f16_max a16 b16 s)
       = raise_if (fp_snan 10 5 (unat a16) \<or> fp_snan 10 5 (unat b16)) softfloat_flag_invalid s
   \<and> fp_min_spec 10 5 (unat a16) (unat b16) (unat (fst (f16_min a16 b16 s)))
   \<and> snd (f16_min a16 b16 s)
       = raise_if (fp_snan 10 5 (unat a16) \<or> fp_snan 10 5 (unat b16)) softfloat_flag_invalid s
   \<and> fp_max_spec 23 8 (unat a32) (unat b32) (unat (fst (f32_max a32 b32 s)))
   \<and> snd (f32_max a32 b32 s)
       = raise_if (fp_snan 23 8 (unat a32) \<or> fp_snan 23 8 (unat b32)) softfloat_flag_invalid s
   \<and> fp_min_spec 23 8 (unat a32) (unat b32) (unat (fst (f32_min a32 b32 s)))
   \<and> snd (f32_min a32 b32 s)
       = raise_if (fp_snan 23 8 (unat a32) \<or> fp_snan 23 8 (unat b32)) softfloat_flag_invalid s
   \<and> fp_max_spec 52 11 (unat a64) (unat b64) (unat (fst (f64_max a64 b64 s)))
   \<and> snd (f64_max a64 b64 s)
       = raise_if (fp_snan 52 11 (unat a64) \<or> fp_snan 52 11 (unat b64)) softfloat_flag_invalid s
   \<and> fp_min_spec 52 11 (unat a64) (unat b64) (unat (fst (f64_min a64 b64 s)))
   \<and> snd (f64_min a64 b64 s)
       = raise_if (fp_snan 52 11 (unat a64) \<or> fp_snan 52 11 (unat b64)) softfloat_flag_invalid s"
  by (intro conjI f16_max_correct f16_min_correct f32_max_correct f32_min_correct f64_max_correct f64_min_correct)

text \<open>
  C30: the classification of the three formats sets exactly one bit, the one of the
  class of its operand, and the signaling-NaN test decides that class.
\<close>

theorem classify_correct:
  "f16_classify a16 = 2 ^ fp_class 10 5 (unat a16)
   \<and> f32_classify a32 = 2 ^ fp_class 23 8 (unat a32)
   \<and> f64_classify a64 = 2 ^ fp_class 52 11 (unat a64)
   \<and> (f16_isSignalingNaN a16 \<longleftrightarrow> fp_snan 10 5 (unat a16))
   \<and> (f32_isSignalingNaN a32 \<longleftrightarrow> fp_snan 23 8 (unat a32))
   \<and> (f64_isSignalingNaN a64 \<longleftrightarrow> fp_snan 52 11 (unat a64))"
  by (simp only: f16_classify_class f32_classify_class f64_classify_class f16_isSignalingNaN_def
      f32_isSignalingNaN_def f64_isSignalingNaN_def isSigNaNF16UI_snan isSigNaNF32UI_snan isSigNaNF64UI_snan simp_thms)

text \<open>
  C20: the six comparisons of half, single and double precision decide equality, less and
  less-or-equal of the numbers their operands stand for (infinities beyond all finite numbers, the
  zeros equal), answer false when an operand is a NaN, and raise the invalid flag exactly for the
  NaNs of their kind: the quiet ones for signaling NaNs, the others for every NaN.
\<close>

theorem comparisons_correct:
  "compare_spec 10 5 True fp_eq s (unat a16) (unat b16) (f16_eq a16 b16 s)
   \<and> compare_spec 10 5 False fp_eq s (unat a16) (unat b16) (f16_eq_signaling a16 b16 s)
   \<and> compare_spec 10 5 False fp_lt s (unat a16) (unat b16) (f16_lt a16 b16 s)
   \<and> compare_spec 10 5 True fp_lt s (unat a16) (unat b16) (f16_lt_quiet a16 b16 s)
   \<and> compare_spec 10 5 False fp_le s (unat a16) (unat b16) (f16_le a16 b16 s)
   \<and> compare_spec 10 5 True fp_le s (unat a16) (unat b16) (f16_le_quiet a16 b16 s)
   \<and> compare_spec 23 8 True fp_eq s (unat a32) (unat b32) (f32_eq a32 b32 s)
   \<and> compare_spec 23 8 False fp_eq s (unat a32) (unat b32) (f32_eq_signaling a32 b32 s)
   \<and> compare_spec 23 8 False fp_lt s (unat a32) (unat b32) (f32_lt a32 b32 s)
   \<and> compare_spec 23 8 True fp_lt s (unat a32) (unat b32) (f32_lt_quiet a32 b32 s)
   \<and> compare_spec 23 8 False fp_le s (unat a32) (unat b32) (f32_le a32 b32 s)
   \<and> compare_spec 23 8 True fp_le s (unat a32) (unat b32) (f32_le_quiet a32 b32 s)
   \<and> compare_spec 52 11 True fp_eq s (unat a64) (unat b64) (f64_eq a64 b64 s)
   \<and> compare_spec 52 11 False fp_eq s (unat a64) (unat b64) (f64_eq_signaling a64 b64 s)
   \<and> compare_spec 52 11 False fp_lt s (unat a64) (unat b64) (f64_lt a64 b64 s)
   \<and> compare_spec 52 11 True fp_lt s (unat a64) (unat b64) (f64_lt_quiet a64 b64 s)
   \<and> compare_spec 52 11 False fp_le s (unat a64) (unat b64) (f64_le a64 b64 s)
   \<and> compare_spec 52 11 True fp_le s (unat a64) (unat b64) (f64_le_quiet a64 b64 s)"
  using f16_comparisons_correct[of s a16 b16] f32_comparisons_correct[of s a32 b32] f64_comparisons_correct[of s a64 b64]
  by (elim conjE) (intro conjI; assumption)

end
