(* ===== verification/SF_FromInt.thy ===== *)
theory SF_FromInt
  imports IEEE_Spec SF_AddCore SF_ToInt
begin

text \<open>
  Conversions from integers to floating point, \<open>i*_to_f*.c\<close> and \<open>ui*_to_f*.c\<close>. A signed argument
  is a word read by \<open>sint\<close>; \<open>(uint_fast32_t) a\<close> of an \<open>int32_t\<close> is its sign extension. The
  conversions from 32 bits to double precision are exact and do not touch the state.
\<close>

section \<open>The routines\<close>

subsection \<open>Half precision\<close>

definition i32_to_f16 :: "uint32 \<Rightarrow> softfloat_state \<Rightarrow> float16 \<times> softfloat_state" where
  "i32_to_f16 a s =
     (let sign = (sint a < 0);
          absA = (if sign then - scast a else scast a) :: uint64;
          shiftDist = int (unat (softfloat_countLeadingZeros32 (to_u32 absA))) - 21
      in if 0 \<le> shiftDist
         then (if a \<noteq> 0 then to_u16 (packToF16UI sign (0x18 - shiftDist) (shl absA shiftDist)) else 0, s)
         else
           let shiftDist = shiftDist + 4;
               sig = (if shiftDist < 0
                      then shr absA (- shiftDist) OR of_bool (to_u32 (shl absA (shiftDist AND 31)) \<noteq> 0)
                      else shl absA shiftDist)
           in softfloat_roundPackToF16 sign (0x1C - shiftDist) sig s)"

definition ui32_to_f16 :: "uint32 \<Rightarrow> softfloat_state \<Rightarrow> float16 \<times> softfloat_state" where
  "ui32_to_f16 a s =
     (let shiftDist = int (unat (softfloat_countLeadingZeros32 a)) - 21
      in if 0 \<le> shiftDist
         then (if a \<noteq> 0 then to_u16 (packToF16UI False (0x18 - shiftDist) (shl (to_u64 a) shiftDist)) else 0, s)
         else
           let shiftDist = shiftDist + 4;
               sig = (if shiftDist < 0
                      then shr (to_u64 a) (- shiftDist) OR of_bool (to_u32 (shl (to_u64 a) (shiftDist AND 31)) \<noteq> 0)
                      else shl (to_u64 a) shiftDist)
           in softfloat_roundPackToF16 False (0x1C - shiftDist) sig s)"

definition i64_to_f16 :: "uint64 \<Rightarrow> softfloat_state \<Rightarrow> float16 \<times> softfloat_state" where
  "i64_to_f16 a s =
     (let sign = (sint a < 0);
          absA = (if sign then - a else a) :: uint64;
          shiftDist = int (unat (softfloat_countLeadingZeros64 absA)) - 53
      in if 0 \<le> shiftDist
         then (if a \<noteq> 0 then to_u16 (packToF16UI sign (0x18 - shiftDist) (shl absA shiftDist)) else 0, s)
         else
           let shiftDist = shiftDist + 4;
               sig = (if shiftDist < 0 then softfloat_shortShiftRightJam64 absA (word_of_int (- shiftDist))
                      else shl absA shiftDist)
           in softfloat_roundPackToF16 sign (0x1C - shiftDist) sig s)"

definition ui64_to_f16 :: "uint64 \<Rightarrow> softfloat_state \<Rightarrow> float16 \<times> softfloat_state" where
  "ui64_to_f16 a s =
     (let shiftDist = int (unat (softfloat_countLeadingZeros64 a)) - 53
      in if 0 \<le> shiftDist
         then (if a \<noteq> 0 then to_u16 (packToF16UI False (0x18 - shiftDist) (shl a shiftDist)) else 0, s)
         else
           let shiftDist = shiftDist + 4;
               sig = (if shiftDist < 0 then softfloat_shortShiftRightJam64 a (word_of_int (- shiftDist))
                      else shl a shiftDist)
           in softfloat_roundPackToF16 False (0x1C - shiftDist) sig s)"

subsection \<open>Single precision\<close>

definition i32_to_f32 :: "uint32 \<Rightarrow> softfloat_state \<Rightarrow> float32 \<times> softfloat_state" where
  "i32_to_f32 a s =
     (let sign = (sint a < 0)
      in if a AND 0x7FFFFFFF = 0
         then (if sign then to_u32 (packToF32UI True 0x9E 0) else 0, s)
         else
           let absA = (if sign then - scast a else scast a) :: uint64
           in softfloat_normRoundPackToF32 sign 0x9C absA s)"

definition ui32_to_f32 :: "uint32 \<Rightarrow> softfloat_state \<Rightarrow> float32 \<times> softfloat_state" where
  "ui32_to_f32 a s =
     (if a = 0 then (0, s)
      else if a AND 0x80000000 \<noteq> 0
      then softfloat_roundPackToF32 False 0x9D (to_u64 (drop_bit 1 a OR a AND 1)) s
      else softfloat_normRoundPackToF32 False 0x9C (to_u64 a) s)"

definition i64_to_f32 :: "uint64 \<Rightarrow> softfloat_state \<Rightarrow> float32 \<times> softfloat_state" where
  "i64_to_f32 a s =
     (let sign = (sint a < 0);
          absA = (if sign then - a else a);
          shiftDist = int (unat (softfloat_countLeadingZeros64 absA)) - 40
      in if 0 \<le> shiftDist
         then (if a \<noteq> 0 then to_u32 (packToF32UI sign (0x95 - shiftDist) (shl absA shiftDist)) else 0, s)
         else
           let shiftDist = shiftDist + 7;
               sig = (if shiftDist < 0 then softfloat_shortShiftRightJam64 absA (word_of_int (- shiftDist))
                      else shl absA shiftDist)
           in softfloat_roundPackToF32 sign (0x9C - shiftDist) sig s)"

definition ui64_to_f32 :: "uint64 \<Rightarrow> softfloat_state \<Rightarrow> float32 \<times> softfloat_state" where
  "ui64_to_f32 a s =
     (let shiftDist = int (unat (softfloat_countLeadingZeros64 a)) - 40
      in if 0 \<le> shiftDist
         then (if a \<noteq> 0 then to_u32 (packToF32UI False (0x95 - shiftDist) (shl a shiftDist)) else 0, s)
         else
           let shiftDist = shiftDist + 7;
               sig = (if shiftDist < 0 then softfloat_shortShiftRightJam64 a (word_of_int (- shiftDist))
                      else shl a shiftDist)
           in softfloat_roundPackToF32 False (0x9C - shiftDist) sig s)"

subsection \<open>Double precision\<close>

definition i32_to_f64 :: "uint32 \<Rightarrow> float64" where
  "i32_to_f64 a =
     (if a = 0 then 0
      else
        let sign = (sint a < 0);
            absA = (if sign then - scast a else scast a) :: uint64;
            shiftDist = int (unat (softfloat_countLeadingZeros32 (to_u32 absA))) + 21
        in packToF64UI sign (0x432 - shiftDist) (shl absA shiftDist))"

definition ui32_to_f64 :: "uint32 \<Rightarrow> float64" where
  "ui32_to_f64 a =
     (if a = 0 then 0
      else
        let shiftDist = int (unat (softfloat_countLeadingZeros32 a)) + 21
        in packToF64UI False (0x432 - shiftDist) (shl (to_u64 a) shiftDist))"

definition i64_to_f64 :: "uint64 \<Rightarrow> softfloat_state \<Rightarrow> float64 \<times> softfloat_state" where
  "i64_to_f64 a s =
     (let sign = (sint a < 0)
      in if a AND 0x7FFFFFFFFFFFFFFF = 0
         then (if sign then packToF64UI True 0x43E 0 else 0, s)
         else
           let absA = (if sign then - a else a)
           in softfloat_normRoundPackToF64 sign 0x43C absA s)"

definition ui64_to_f64 :: "uint64 \<Rightarrow> softfloat_state \<Rightarrow> float64 \<times> softfloat_state" where
  "ui64_to_f64 a s =
     (if a = 0 then (0, s)
      else if a AND 0x8000000000000000 \<noteq> 0
      then softfloat_roundPackToF64 False 0x43D (softfloat_shortShiftRightJam64 a 1) s
      else softfloat_normRoundPackToF64 False 0x43C a s)"

section \<open>Integers are rounded correctly\<close>

lemma int_pack:
  assumes "2 ^ p \<le> N * 2 ^ d" and "N * 2 ^ d < 2 ^ (p + 1)" and "e + 2 < 2 ^ w" and "2 \<le> w"
    and "fp_emin p w + int e = - int d"
  shows "fp_rounds_to p w s neg (of_nat N) (of_bool neg * 2 ^ (p + w) + (e * 2 ^ p + N * 2 ^ d)) s"
proof (rule fp_pack_exact)
  show "real N = real (N * 2 ^ d) * 2 powi (fp_emin p w + int e)"
    by (simp add: assms(5) power_int_minus)
qed (use assms in simp_all)

lemma leading_zeros_scaled:
  assumes "leading_zeros 64 N z" and "N \<noteq> 0" and "n \<le> 63"
  shows "z \<le> 63" and "2 ^ n \<le> real N * 2 powi (int z - (63 - int n))" and "real N * 2 powi (int z - (63 - int n)) < 2 ^ Suc n"
proof -
  show "z \<le> 63"
    using assms(1,2) by (simp add: leading_zeros_def)
  define y where "y = real N * 2 powi (int z - (63 - int n))"
  have "real (2 ^ 63) \<le> real (N * 2 ^ z)" "real (N * 2 ^ z) < real (2 ^ 64)"
    unfolding of_nat_le_iff of_nat_less_iff using assms(1,2) by (simp_all add: leading_zeros_def)
  moreover have "real (N * 2 ^ z) = y * 2 ^ (63 - n)"
  proof -
    have "(2::real) powi (63 - int n) = 2 ^ (63 - n)"
      using assms(3) by (simp add: power_int_def nat_diff_distrib)
    then show ?thesis
      using powi_plus[of "int z - (63 - int n)" "63 - int n"] by (simp add: y_def)
  qed
  moreover have "real (2 ^ 63) = 2 ^ n * 2 ^ (63 - n)" "real (2 ^ 64) = 2 ^ Suc n * 2 ^ (63 - n)"
    using assms(3) by (simp_all only: of_nat_power of_nat_numeral power_add[symmetric] le_add_diff_inverse power_Suc mult.assoc)
      simp_all
  ultimately have "2 ^ n * 2 ^ (63 - n) \<le> y * 2 ^ (63 - n)" "y * 2 ^ (63 - n) < 2 ^ Suc n * 2 ^ (63 - n)"
    by (simp_all only:)
  then show "2 ^ n \<le> real N * 2 powi (int z - (63 - int n))" "real N * 2 powi (int z - (63 - int n)) < 2 ^ Suc n"
    unfolding y_def[symmetric] by simp_all
qed

context round_pack
begin

lemma int_rounds:
  assumes y: "2 ^ (p + k) \<le> y" "y < 2 ^ Suc (p + k)" and N: "y = of_nat N * 2 powi d" and "2 \<le> k" and "2 \<le> w"
    and sig: "int (unat sig) = jam y" and E: "fp_emin p w + e - int k = - d" "e \<in> exp_range"
    and r: "roundPack sign e sig s = (r, s')"
  shows "fp_rounds_to p w s sign (of_nat N) (unat r) s'"
proof -
  have "y * 2 powi (fp_emin p w + e - int k) = of_nat N"
    by (simp add: N E(1) power_int_minus)
  moreover have "unat sig = nat (jam y) * 2 ^ 0"
    by (simp flip: sig)
  ultimately show ?thesis
    using rounds_jam[OF y, of 0 sig e sign s r s'] assms(4,5) E(2) r by simp
qed

text \<open>
  The conversions to the two narrow formats: a value of at most \<open>p + 1\<close> bits is packed, others
  are brought to \<open>p + k + 1\<close> bits, by a sticky shift where they are longer, and rounded.
\<close>

lemma from_u64:
  assumes lz: "leading_zeros 64 (unat A) z" "A \<noteq> 0"
    and sd: "sd = int z - (63 - int p)" and pk: "p + k \<le> 62" "2 \<le> k" "2 \<le> w" "int p \<le> E" "E + 2 < 2 ^ w" "fp_emin p w + E = 0"
    and range: "{0..E + int k + 64} \<subseteq> exp_range"
    and pack: "0 \<le> sd \<Longrightarrow> s' = s \<and> unat r = of_bool sign * 2 ^ (p + w) + (nat (E - sd) * 2 ^ p + unat (shl A sd))"
    and rp: "sd < 0 \<Longrightarrow> roundPack sign (E + int k - (sd + int k))
        (if sd + int k < 0 then softfloat_shortShiftRightJam64 A (word_of_int (- (sd + int k))) else shl A (sd + int k)) s = (r, s')"
  shows "fp_rounds_to p w s sign (of_nat (unat A)) (unat r) s'"
proof -
  define N where "N = unat A"
  have N: "leading_zeros 64 N z" "N \<noteq> 0"
    using lz by (simp_all add: N_def word_eq_0_unat)
  show ?thesis
  proof (cases "0 \<le> sd")
    case True
    define d where "d = nat sd"
    have d: "sd = int d" "d \<le> p"
      using True leading_zeros_scaled(1)[OF N, of p] pk(1) by (simp_all add: d_def sd)
    have b: "2 ^ p \<le> N * 2 ^ d" "N * 2 ^ d < 2 ^ (p + 1)"
    proof -
      have "int z - (63 - int p) = int d"
        using d(1) sd by simp
      then have "real (2 ^ p) \<le> real (N * 2 ^ d)" "real (N * 2 ^ d) < real (2 ^ (p + 1))"
        using leading_zeros_scaled(2,3)[OF N, of p] pk(1) by simp_all
      then show "2 ^ p \<le> N * 2 ^ d" "N * 2 ^ d < 2 ^ (p + 1)"
        by (simp_all only: of_nat_le_iff of_nat_less_iff)
    qed
    have "(2::nat) ^ (p + 1) \<le> 2 ^ 63"
      using pk(1) by (intro power_increasing) simp_all
    then have "unat (shl A sd) = N * 2 ^ d"
      using b(2) unfolding d(1) N_def by (subst unat_push_bit_mult) simp_all
    moreover have "fp_rounds_to p w s sign (of_nat N) (of_bool sign * 2 ^ (p + w) + (nat (E - sd) * 2 ^ p + N * 2 ^ d)) s"
    proof (rule int_pack[OF b _ pk(3)])
      have "int (nat (E - sd) + 2) < int (2 ^ w)"
        using pk(4,5) d by simp
      then show "nat (E - sd) + 2 < 2 ^ w"
        by (simp only: of_nat_less_iff)
      show "fp_emin p w + int (nat (E - sd)) = - int d"
        using pk(4,6) d by simp
    qed
    ultimately show ?thesis
      using pack[OF True] by (simp add: N_def)
  next
    case False
    define y where "y = real N * 2 powi (sd + int k)"
    have y: "2 ^ (p + k) \<le> y" "y < 2 ^ Suc (p + k)"
      using leading_zeros_scaled(2,3)[OF N, of "p + k"] pk(1) by (simp_all add: y_def sd algebra_simps)
    have z: "z \<le> 63"
      using leading_zeros_scaled(1)[OF N, of p] pk(1) by simp
    have "int (unat (if sd + int k < 0 then softfloat_shortShiftRightJam64 A (word_of_int (- (sd + int k))) else shl A (sd + int k))) = jam y"
    proof (cases "sd + int k < 0")
      case True
      then have u: "unat (word_of_int (- (sd + int k)) :: uint_fast8) = nat (- (sd + int k))"
        using pk(1) by (subst unat_word_of_int) (simp_all add: sd)
      then have "unat (word_of_int (- (sd + int k)) :: uint_fast8) < 64"
        using pk(1) by (simp add: sd nat_less_iff)
      moreover have "real N / 2 ^ nat (- (sd + int k)) = y"
      proof -
        have "sd + int k = - int (nat (- (sd + int k)))"
          using True by simp
        then show ?thesis
          unfolding y_def by (metis divide_inverse power_int_minus power_int_of_nat)
      qed
      ultimately show ?thesis
        using shortShiftRightJam64_correct[of "word_of_int (- (sd + int k))" A] True by (simp only: u N_def[symmetric] if_True)
    next
      case nn: False
      define d where "d = nat (sd + int k)"
      have d: "y = real (N * 2 ^ d)"
        using nn by (simp add: y_def d_def power_int_def)
      have "N * 2 ^ d < 2 ^ Suc (p + k)"
        using y(2) unfolding d by (metis of_nat_less_iff of_nat_numeral of_nat_power)
      moreover have "(2::nat) ^ Suc (p + k) \<le> 2 ^ 63"
        using pk(1) by (intro power_increasing) simp_all
      ultimately have "unat (shl A (sd + int k)) = N * 2 ^ d"
        unfolding d_def[symmetric] N_def by (subst unat_push_bit_mult) simp_all
      then show ?thesis
        using nn by (simp only: if_False d jam_of_nat)
    qed
    moreover have "E + int k - (sd + int k) \<in> exp_range"
      using range False pk(1,4) z by (intro subsetD[OF range]) (simp add: sd)
    ultimately show ?thesis
      using int_rounds[OF y y_def pk(2,3) _ _ _ rp] False pk(6) by (simp add: N_def)
  qed
qed

end

lemma from_u64F32:
  assumes "A \<noteq> 0" and "leading_zeros 64 (unat A) z" and "sd = int z - 40"
    and "(if 0 \<le> sd then (to_u32 (packToF32UI sign (0x95 - sd) (shl A sd)), s)
         else softfloat_roundPackToF32 sign (0x9C - (sd + 7))
           (if sd + 7 < 0 then softfloat_shortShiftRightJam64 A (word_of_int (- (sd + 7))) else shl A (sd + 7)) s) = (r, s')"
  shows "fp_rounds_to 23 8 s sign (of_nat (unat A)) (unat r) s'"
proof (rule f32.from_u64[where A = A and z = z and sd = sd and E = "0x95"])
  assume sd: "0 \<le> sd"
  define d where "d = nat sd"
  have N: "unat A \<noteq> 0"
    using assms(1) by (simp add: word_eq_0_unat)
  have d: "sd = int d" "d \<le> 23" "int z - (63 - int 23) = int d"
    using sd leading_zeros_scaled(1)[OF assms(2) N, of 23] assms(3) by (simp_all add: d_def)
  have "real (unat A * 2 ^ d) < real (2 ^ 24)"
    using leading_zeros_scaled(3)[OF assms(2) N, of 23] unfolding d(3) by simp
  then have l: "unat A * 2 ^ d < 2 ^ 24"
    by (simp only: of_nat_less_iff)
  then have u: "unat (shl A sd) = unat A * 2 ^ d"
    unfolding d(1) by (subst unat_push_bit_mult) simp_all
  have "nat (0x95 - sd) * 2 ^ 23 \<le> 0x95 * 2 ^ 23"
    using sd by (intro mult_right_mono) simp_all
  then have "nat (0x95 - sd) * 2 ^ 23 + unat (shl A sd) < 2 ^ 31"
    using l by (simp add: u)
  then have "unat (to_u32 (packToF32UI sign (0x95 - sd) (shl A sd))) = of_bool sign * 2 ^ 31 + (nat (0x95 - sd) * 2 ^ 23 + unat (shl A sd))"
    using d by (intro unat_packToF32UI) simp_all
  then show "s' = s \<and> unat r = of_bool sign * 2 ^ (23 + 8) + (nat (0x95 - sd) * 2 ^ 23 + unat (shl A sd))"
    using assms(4) sd by auto
qed (use assms in \<open>auto simp: fp_emin_def fp_bias_def\<close>)

lemma from_u64F16:
  assumes "A \<noteq> 0" and "leading_zeros 64 (unat A) z" and "sd = int z - 53"
    and "(if 0 \<le> sd then (to_u16 (packToF16UI sign (0x18 - sd) (shl A sd)), s)
         else softfloat_roundPackToF16 sign (0x1C - (sd + 4))
           (if sd + 4 < 0 then softfloat_shortShiftRightJam64 A (word_of_int (- (sd + 4))) else shl A (sd + 4)) s) = (r, s')"
  shows "fp_rounds_to 10 5 s sign (of_nat (unat A)) (unat r) s'"
proof (rule f16.from_u64[where A = A and z = z and sd = sd and E = "0x18"])
  assume sd: "0 \<le> sd"
  define d where "d = nat sd"
  have N: "unat A \<noteq> 0"
    using assms(1) by (simp add: word_eq_0_unat)
  have d: "sd = int d" "d \<le> 10" "int z - (63 - int 10) = int d"
    using sd leading_zeros_scaled(1)[OF assms(2) N, of 10] assms(3) by (simp_all add: d_def)
  have "real (unat A * 2 ^ d) < real (2 ^ 11)"
    using leading_zeros_scaled(3)[OF assms(2) N, of 10] unfolding d(3) by simp
  then have l: "unat A * 2 ^ d < 2 ^ 11"
    by (simp only: of_nat_less_iff)
  then have u: "unat (shl A sd) = unat A * 2 ^ d"
    unfolding d(1) by (subst unat_push_bit_mult) simp_all
  have "nat (0x18 - sd) * 2 ^ 10 \<le> 0x18 * 2 ^ 10"
    using sd by (intro mult_right_mono) simp_all
  then have "nat (0x18 - sd) * 2 ^ 10 + unat (shl A sd) < 2 ^ 15"
    using l by (simp add: u)
  then have "unat (to_u16 (packToF16UI sign (0x18 - sd) (shl A sd))) = of_bool sign * 2 ^ 15 + (nat (0x18 - sd) * 2 ^ 10 + unat (shl A sd))"
    using d by (intro unat_packToF16UI) simp_all
  then show "s' = s \<and> unat r = of_bool sign * 2 ^ (10 + 5) + (nat (0x18 - sd) * 2 ^ 10 + unat (shl A sd))"
    using assms(4) sd by auto
qed (use assms in \<open>auto simp: fp_emin_def fp_bias_def\<close>)

lemma unat_abs32: "unat (if sint a < 0 then - scast a else scast a :: uint64) = nat \<bar>sint a\<bar>" for a :: uint32
  using unat_abs[of "scast a :: uint64"] by (simp only: sint_scast32)

lemma clz_0: "unat (softfloat_countLeadingZeros64 0) = 64" "unat (softfloat_countLeadingZeros32 0) = 32"
  using countLeadingZeros64_correct[of 0] countLeadingZeros32_correct[of 0] by (simp_all add: leading_zeros_def)

text \<open>The zero count of a 32-bit value, seen as a 64-bit one.\<close>

lemma leading_zeros_widen:
  assumes "leading_zeros 32 N z" and "N \<noteq> 0"
  shows "leading_zeros 64 N (z + 32)"
  using assms by (auto simp: leading_zeros_def power_add)

lemma jam32:
  fixes A :: uint64
  assumes "unat A < 2 ^ 32" and "0 < d" and "d \<le> 17"
  shows "shr A d OR of_bool (to_u32 (shl A (- d AND 31)) \<noteq> 0) = softfloat_shortShiftRightJam64 A (word_of_int d)"
proof -
  define n where "n = nat d"
  have n: "d = int n" "0 < n" "n \<le> 17"
    using assms by (simp_all add: n_def)
  have "- d AND 31 = (- int n) mod 32"
    using take_bit_eq_mask[of 5 "- d"] by (simp add: mask_numeral take_bit_eq_mod n(1))
  also have "\<dots> = (- int n + 32) mod 32"
    by (simp only: mod_add_self2)
  also have "\<dots> = 32 - int n"
    using n by (subst mod_pos_pos_trivial) simp_all
  finally have e: "nat (- d AND 31) = 32 - n"
    using n by simp
  have "to_u32 (push_bit (32 - n) A) = push_bit (32 - n) (to_u32 A)"
    by (rule bit_word_eqI) (auto simp: bit_simps)
  moreover have "unat (to_u32 A) = unat A"
    using assms(1) by (simp add: unat_ucast_mod)
  ultimately have "to_u32 (push_bit (32 - n) A) = 0 \<longleftrightarrow> unat A mod 2 ^ n = 0"
    using push_bit_eq_0_mod[of n "to_u32 A"] n by simp
  moreover have "A AND (push_bit n 1 - 1) = 0 \<longleftrightarrow> unat A mod 2 ^ n = 0"
    using unat_and_mask[of A n] n by (simp add: word_eq_0_unat[of "A AND _"] mask_eq_exp_minus_1)
  moreover have "unat (word_of_int d :: uint_fast8) = n"
    using n by (subst unat_word_of_int) simp_all
  ultimately show ?thesis
    unfolding softfloat_shortShiftRightJam64_def e by (simp add: n(1))
qed

text \<open>The statements cover zero, where the sign is that of the value.\<close>

lemma int_value: "of_nat (nat \<bar>i\<bar>) = (of_int \<bar>i\<bar> :: real)"
  by simp

lemma i64_to_f32_rounds: "fp_rounds_to 23 8 s (sint a < 0) (of_int \<bar>sint a\<bar>) (unat (fst (i64_to_f32 a s))) (snd (i64_to_f32 a s))"
proof (cases "a = 0")
  case True
  then show ?thesis
    using fp_rounds_to_0[of 8 23 s False] by (simp add: i64_to_f32_def clz_0)
next
  case False
  define A where "A = (if sint a < 0 then - a else a)"
  have A: "A \<noteq> 0" "unat A = nat \<bar>sint a\<bar>"
    using False unat_abs[of a] by (simp_all add: A_def)
  show ?thesis
    using from_u64F32[OF A(1) countLeadingZeros64_correct refl, of "sint a < 0" s "fst (i64_to_f32 a s)" "snd (i64_to_f32 a s)"] False
    unfolding A(2) int_value i64_to_f32_def Let_def A_def[symmetric] by simp
qed

lemma ui64_to_f32_rounds: "fp_rounds_to 23 8 s False (of_nat (unat a)) (unat (fst (ui64_to_f32 a s))) (snd (ui64_to_f32 a s))"
proof (cases "a = 0")
  case True
  then show ?thesis
    using fp_rounds_to_0[of 8 23 s False] by (simp add: ui64_to_f32_def clz_0)
next
  case False
  then show ?thesis
    using from_u64F32[OF False countLeadingZeros64_correct refl, of False s "fst (ui64_to_f32 a s)" "snd (ui64_to_f32 a s)"]
    unfolding ui64_to_f32_def Let_def by simp
qed

lemma i64_to_f16_rounds: "fp_rounds_to 10 5 s (sint a < 0) (of_int \<bar>sint a\<bar>) (unat (fst (i64_to_f16 a s))) (snd (i64_to_f16 a s))"
proof (cases "a = 0")
  case True
  then show ?thesis
    using fp_rounds_to_0[of 5 10 s False] by (simp add: i64_to_f16_def clz_0)
next
  case False
  define A where "A = (if sint a < 0 then - a else a)"
  have A: "A \<noteq> 0" "unat A = nat \<bar>sint a\<bar>"
    using False unat_abs[of a] by (simp_all add: A_def)
  show ?thesis
    using from_u64F16[OF A(1) countLeadingZeros64_correct refl, of "sint a < 0" s "fst (i64_to_f16 a s)" "snd (i64_to_f16 a s)"] False
    unfolding A(2) int_value i64_to_f16_def Let_def A_def[symmetric] by simp
qed

lemma ui64_to_f16_rounds: "fp_rounds_to 10 5 s False (of_nat (unat a)) (unat (fst (ui64_to_f16 a s))) (snd (ui64_to_f16 a s))"
proof (cases "a = 0")
  case True
  then show ?thesis
    using fp_rounds_to_0[of 5 10 s False] by (simp add: ui64_to_f16_def clz_0)
next
  case False
  then show ?thesis
    using from_u64F16[OF False countLeadingZeros64_correct refl, of False s "fst (ui64_to_f16 a s)" "snd (ui64_to_f16 a s)"]
    unfolding ui64_to_f16_def Let_def by simp
qed

text \<open>The 32-bit conversions to half precision compute the same sticky value with 32-bit shifts.\<close>

lemma from_u32F16:
  fixes A :: uint64
  assumes "A \<noteq> 0" and "unat A < 2 ^ 32" and "sd = int (unat (softfloat_countLeadingZeros32 (to_u32 A))) - 21"
    and "(if 0 \<le> sd then (to_u16 (packToF16UI sign (0x18 - sd) (shl A sd)), s)
         else softfloat_roundPackToF16 sign (0x1C - (sd + 4))
           (if sd + 4 < 0 then shr A (- (sd + 4)) OR of_bool (to_u32 (shl A ((sd + 4) AND 31)) \<noteq> 0) else shl A (sd + 4)) s) = (r, s')"
  shows "fp_rounds_to 10 5 s sign (of_nat (unat A)) (unat r) s'"
proof -
  have N: "unat (to_u32 A) = unat A" "unat A \<noteq> 0"
    using assms(1,2) by (simp_all add: unat_ucast_mod word_eq_0_unat)
  define z where "z = unat (softfloat_countLeadingZeros32 (to_u32 A))"
  have "leading_zeros 64 (unat A) (z + 32)"
    using leading_zeros_widen[of "unat A" z] countLeadingZeros32_correct[of "to_u32 A"] N by (simp add: z_def)
  moreover have "sd = int (z + 32) - 53"
    using assms(3) by (simp add: z_def)
  moreover have "sd + 4 < 0 \<Longrightarrow> shr A (- (sd + 4)) OR of_bool (to_u32 (shl A ((sd + 4) AND 31)) \<noteq> 0) =
      softfloat_shortShiftRightJam64 A (word_of_int (- (sd + 4)))"
    using jam32[OF assms(2), of "- (sd + 4)"] assms(3) by simp
  ultimately show ?thesis
    using from_u64F16[OF assms(1), of "z + 32" sd sign s r s'] assms(4) by (simp split: if_splits)
qed

lemma i32_to_f16_rounds: "fp_rounds_to 10 5 s (sint a < 0) (of_int \<bar>sint a\<bar>) (unat (fst (i32_to_f16 a s))) (snd (i32_to_f16 a s))"
proof (cases "a = 0")
  case True
  then show ?thesis
    using fp_rounds_to_0[of 5 10 s False] by (simp add: i32_to_f16_def clz_0)
next
  case False
  define A where "A = (if sint a < 0 then - scast a else scast a :: uint64)"
  have A: "unat A = nat \<bar>sint a\<bar>"
    using unat_abs32[of a] by (simp add: A_def)
  have b: "unat A < 2 ^ 32"
    using sint_ge[of a] sint_lt[of a] unfolding A by simp
  have "unat A \<noteq> 0"
    using False unfolding A by (simp add: signed_eq_0_iff)
  then have "A \<noteq> 0"
    by auto
  then show ?thesis
    using from_u32F16[OF _ b refl, of "sint a < 0" s "fst (i32_to_f16 a s)" "snd (i32_to_f16 a s)"] False
    unfolding A int_value i32_to_f16_def Let_def A_def[symmetric] by simp
qed

lemma ui32_to_f16_rounds: "fp_rounds_to 10 5 s False (of_nat (unat a)) (unat (fst (ui32_to_f16 a s))) (snd (ui32_to_f16 a s))"
proof (cases "a = 0")
  case True
  then show ?thesis
    using fp_rounds_to_0[of 5 10 s False] by (simp add: ui32_to_f16_def clz_0)
next
  case False
  have A: "unat (to_u64 a) = unat a" "to_u64 a \<noteq> 0" "to_u32 (to_u64 a) = a"
    using False by (simp_all add: unat_ucast_widen word_eq_0_unat ucast_widen_narrow)
  then have b: "unat (to_u64 a) < 2 ^ 32"
    using unat_lt[of a] by simp
  show ?thesis
    using from_u32F16[OF A(2) b refl, of False s "fst (ui32_to_f16 a s)" "snd (ui32_to_f16 a s)"] False
    unfolding A(1,3) ui32_to_f16_def Let_def by simp
qed

lemma top_bit_set32: "a AND 0x80000000 = 0 \<longleftrightarrow> unat a < 2 ^ 31" for a :: uint32
proof -
  have "NOT (mask 31 :: uint32) = 0x80000000"
    by (simp add: mask_numeral)
  then show ?thesis
    using word_and_not_mask_eq_0[of a 31] by (simp only:)
qed

lemma top_bit_set64: "a AND 0x8000000000000000 = 0 \<longleftrightarrow> unat a < 2 ^ 63" for a :: uint64
proof -
  have "NOT (mask 63 :: uint64) = 0x8000000000000000"
    by (simp add: mask_numeral)
  then show ?thesis
    using word_and_not_mask_eq_0[of a 63] by (simp only:)
qed

lemma half_jam32: "int (unat (to_u64 (drop_bit 1 a OR a AND 1))) = jam (of_nat (unat a) / 2)" for a :: uint32
proof -
  have o: "a AND 1 = of_bool (odd (unat a))"
    using word_and_1_eq_0[of a] by (auto simp: and_one_eq)
  have "unat (drop_bit n a OR a AND 1) = unat a div 2 ^ n + of_bool (odd (unat a) \<and> even (unat a div 2 ^ n))" for n
    unfolding o by (simp add: unat_or_of_bool unat_drop_bit_div)
  then have "unat (drop_bit 1 a OR a AND 1) = unat a div 2 ^ 1 + of_bool (odd (unat a) \<and> even (unat a div 2 ^ 1))" .
  moreover have "jam (of_nat (unat a) / 2) = int (unat a div 2 ^ 1 + of_bool (odd (unat a) \<and> even (unat a div 2 ^ 1)))"
    using jam_nat_quot[of "unat a" 1] by (simp add: odd_iff_mod_2_eq_one)
  ultimately show ?thesis
    by (simp only: unat_ucast_widen) (simp add: unat_ucast_widen)
qed

lemma i32_to_f32_rounds: "fp_rounds_to 23 8 s (sint a < 0) (of_int \<bar>sint a\<bar>) (unat (fst (i32_to_f32 a s))) (snd (i32_to_f32 a s))"
proof (cases "a AND 0x7fffffff = 0")
  case True
  have "unat a mod 2 ^ 31 = 0"
    using unat_and_mask[of a 31] True by (simp add: mask_numeral)
  moreover have "unat a < 2 * 2 ^ 31"
    using unat_lt[of a] by simp
  ultimately have "unat a = 0 \<or> unat a = 2 ^ 31"
    by (cases "unat a < 2 ^ 31") (simp_all add: le_mod_geq)
  then have "sint a = 0 \<or> sint a = - (2 ^ 31)"
    using sint_cases[of a] by (auto simp: uint_nat)
  then show ?thesis
  proof
    assume "sint a = 0"
    then show ?thesis
      using fp_rounds_to_0[of 8 23 s False] True by (simp add: i32_to_f32_def)
  next
    assume v: "sint a = - (2 ^ 31)"
    have "unat (to_u32 (packToF32UI True 0x9E 0)) = of_bool True * 2 ^ 31 + ((0x9D) * 2 ^ 23 + 2 ^ 23)"
      by (simp add: packToF32UI_def unat_ucast_mod)
    moreover have "fp_rounds_to 23 8 s True (2 ^ 31) (of_bool True * 2 ^ (23 + 8) + ((0x9D) * 2 ^ 23 + 2 ^ 23)) s"
      by (rule fp_pack_exact) (simp_all add: fp_emin_def fp_bias_def)
    ultimately show ?thesis
      using True by (simp add: i32_to_f32_def v)
  qed
next
  case False
  define A where "A = (if sint a < 0 then - scast a else scast a :: uint64)"
  have A: "unat A = nat \<bar>sint a\<bar>"
    using unat_abs32[of a] by (simp add: A_def)
  have "unat a \<noteq> 2 ^ 31" "unat a \<noteq> 0"
    using False unat_and_mask[of a 31] by (auto simp: mask_numeral word_eq_0_unat[of "a AND _"])
  then have "sint a \<noteq> - (2 ^ 31)"
    using sint_cases[of a] by (auto simp: uint_nat split: if_splits)
  moreover have "sint a \<noteq> 0"
    using False by (auto simp: signed_eq_0_iff)
  ultimately have b: "unat A < 2 ^ 31" "0 < unat A"
    using sint_ge[of a] sint_lt[of a] unfolding A by auto
  have "rp_val 23 8 7 0x9C (unat A) = of_nat (unat A)"
    by (simp add: rp_val_def fp_emin_def fp_bias_def)
  then show ?thesis
    using f32.norm_rounds[of A "0x9C" "sint a < 0" s "fst (i32_to_f32 a s)" "snd (i32_to_f32 a s)"] b False
    unfolding i32_to_f32_def Let_def A_def[symmetric] by (simp add: A)
qed

lemma ui32_to_f32_rounds: "fp_rounds_to 23 8 s False (of_nat (unat a)) (unat (fst (ui32_to_f32 a s))) (snd (ui32_to_f32 a s))"
proof -
  consider "a = 0" | "a \<noteq> 0" "unat a < 2 ^ 31" | "2 ^ 31 \<le> unat a"
    by linarith
  then show ?thesis
  proof cases
    case 1
    then show ?thesis
      using fp_rounds_to_0[of 8 23 s False] by (simp add: ui32_to_f32_def)
  next
    case 2
    have "rp_val 23 8 7 0x9C (unat a) = of_nat (unat a)"
      by (simp add: rp_val_def fp_emin_def fp_bias_def)
    then show ?thesis
      using f32.norm_rounds[of "to_u64 a" "0x9C" False s "fst (ui32_to_f32 a s)" "snd (ui32_to_f32 a s)"] 2 top_bit_set32[of a]
      by (simp add: ui32_to_f32_def unat_ucast_widen unat_gt_0)
  next
    case 3
    define y where "y = real (unat a) * 2 powi (- 1)"
    have "2 ^ 31 \<le> real (unat a)" "real (unat a) < 2 ^ 32"
      using 3 unat_lt[of a] by simp_all
    then have y: "2 ^ (23 + 7) \<le> y" "y < 2 ^ Suc (23 + 7)"
      by (simp_all add: y_def power_int_minus)
    have "int (unat (to_u64 (drop_bit 1 a OR a AND 1))) = jam y"
      using half_jam32[of a] by (simp add: y_def power_int_minus)
    then show ?thesis
      using f32.int_rounds[OF y y_def, of "to_u64 (drop_bit 1 a OR a AND 1)" "0x9D" False s "fst (ui32_to_f32 a s)" "snd (ui32_to_f32 a s)"] 3 top_bit_set32[of a]
      by (auto simp: ui32_to_f32_def fp_emin_def fp_bias_def)
  qed
qed

lemma i64_to_f64_rounds: "fp_rounds_to 52 11 s (sint a < 0) (of_int \<bar>sint a\<bar>) (unat (fst (i64_to_f64 a s))) (snd (i64_to_f64 a s))"
proof (cases "a AND 0x7fffffffffffffff = 0")
  case True
  have "unat a mod 2 ^ 63 = 0"
    using unat_and_mask[of a 63] True by (simp add: mask_numeral)
  moreover have "unat a < 2 * 2 ^ 63"
    using unat_lt[of a] by simp
  ultimately have "unat a = 0 \<or> unat a = 2 ^ 63"
    by (cases "unat a < 2 ^ 63") (simp_all add: le_mod_geq)
  then have "sint a = 0 \<or> sint a = - (2 ^ 63)"
    using sint_cases[of a] by (auto simp: uint_nat)
  then show ?thesis
  proof
    assume "sint a = 0"
    then show ?thesis
      using fp_rounds_to_0[of 11 52 s False] True by (simp add: i64_to_f64_def)
  next
    assume v: "sint a = - (2 ^ 63)"
    have "unat (packToF64UI True 0x43E 0) = of_bool True * 2 ^ 63 + ((0x43D) * 2 ^ 52 + 2 ^ 52)"
      by (simp add: packToF64UI_def)
    moreover have "fp_rounds_to 52 11 s True (2 ^ 63) (of_bool True * 2 ^ (52 + 11) + ((0x43D) * 2 ^ 52 + 2 ^ 52)) s"
      by (rule fp_pack_exact) (simp_all add: fp_emin_def fp_bias_def)
    ultimately show ?thesis
      using True by (simp add: i64_to_f64_def v)
  qed
next
  case False
  define A where "A = (if sint a < 0 then - a else a)"
  have A: "unat A = nat \<bar>sint a\<bar>"
    using unat_abs[of a] by (simp add: A_def)
  have "unat a \<noteq> 2 ^ 63" "unat a \<noteq> 0"
    using False unat_and_mask[of a 63] by (auto simp: mask_numeral word_eq_0_unat[of "a AND _"])
  then have "sint a \<noteq> - (2 ^ 63)"
    using sint_cases[of a] by (auto simp: uint_nat split: if_splits)
  moreover have "sint a \<noteq> 0"
    using False by (auto simp: signed_eq_0_iff)
  ultimately have b: "unat A < 2 ^ 63" "0 < unat A"
    using sint_ge[of a] sint_lt[of a] unfolding A by auto
  have "rp_val 52 11 10 0x43C (unat A) = of_nat (unat A)"
    by (simp add: rp_val_def fp_emin_def fp_bias_def)
  then show ?thesis
    using f64.norm_rounds[of A "0x43C" "sint a < 0" s "fst (i64_to_f64 a s)" "snd (i64_to_f64 a s)"] b False
    unfolding i64_to_f64_def Let_def A_def[symmetric] by (simp add: A)
qed

lemma ui64_to_f64_rounds: "fp_rounds_to 52 11 s False (of_nat (unat a)) (unat (fst (ui64_to_f64 a s))) (snd (ui64_to_f64 a s))"
proof -
  consider "a = 0" | "a \<noteq> 0" "unat a < 2 ^ 63" | "2 ^ 63 \<le> unat a"
    by linarith
  then show ?thesis
  proof cases
    case 1
    then show ?thesis
      using fp_rounds_to_0[of 11 52 s False] by (simp add: ui64_to_f64_def)
  next
    case 2
    have "rp_val 52 11 10 0x43C (unat a) = of_nat (unat a)"
      by (simp add: rp_val_def fp_emin_def fp_bias_def)
    then show ?thesis
      using f64.norm_rounds[of "a" "0x43C" False s "fst (ui64_to_f64 a s)" "snd (ui64_to_f64 a s)"] 2 top_bit_set64[of a]
      by (simp add: ui64_to_f64_def unat_gt_0)
  next
    case 3
    define y where "y = real (unat a) * 2 powi (- 1)"
    have "2 ^ 63 \<le> real (unat a)" "real (unat a) < 2 ^ 64"
      using 3 unat_lt[of a] by simp_all
    then have y: "2 ^ (52 + 10) \<le> y" "y < 2 ^ Suc (52 + 10)"
      by (simp_all add: y_def power_int_minus)
    have "int (unat (softfloat_shortShiftRightJam64 a 1)) = jam y"
      using shortShiftRightJam64_correct[of 1 a] by (simp add: y_def power_int_minus)
    then show ?thesis
      using f64.int_rounds[OF y y_def, of "softfloat_shortShiftRightJam64 a 1" "0x43D" False s "fst (ui64_to_f64 a s)" "snd (ui64_to_f64 a s)"] 3 top_bit_set64[of a]
      by (auto simp: ui64_to_f64_def fp_emin_def fp_bias_def)
  qed
qed

lemma i32_to_f64_rounds: "fp_rounds_to 52 11 s (sint a < 0) (of_int \<bar>sint a\<bar>) (unat (i32_to_f64 a)) s"
proof (cases "a = 0")
  case True
  then show ?thesis
    using fp_rounds_to_0[of 11 52 s False] by (simp add: i32_to_f64_def)
next
  case False
  define A where "A = (if sint a < 0 then - scast a else scast a :: uint64)"
  have A: "unat A = nat \<bar>sint a\<bar>"
    using unat_abs32[of a] by (simp add: A_def)
  have b: "unat A < 2 ^ 32" "unat A \<noteq> 0"
    using sint_ge[of a] sint_lt[of a] False unfolding A by (auto simp: signed_eq_0_iff)
  have t: "to_u32 A = to_u32 A"
    by (simp)
  have t2: "unat (to_u32 A) = unat A"
    using b(1) by (simp add: unat_ucast_mod)
  define z where "z = unat (softfloat_countLeadingZeros32 (to_u32 A))"
  have lz: "leading_zeros 64 (unat A) (z + 32)"
    using leading_zeros_widen[of "unat A" z] countLeadingZeros32_correct[of "to_u32 A"] t2 b by (simp add: z_def)
  define d where "d = z + 21"
  have z: "z \<le> 31"
    using leading_zeros_scaled(1)[OF lz b(2), of 0] by simp
  have "real (2 ^ 52) \<le> real (unat A * 2 ^ d)" "real (unat A * 2 ^ d) < real (2 ^ (52 + 1))"
  proof -
    have "int (z + 32) - (63 - int 52) = int d"
      by (simp add: d_def)
    then show "real (2 ^ 52) \<le> real (unat A * 2 ^ d)" "real (unat A * 2 ^ d) < real (2 ^ (52 + 1))"
      using leading_zeros_scaled(2,3)[OF lz b(2), of 52] by simp_all
  qed
  then have N: "2 ^ 52 \<le> unat A * 2 ^ d" "unat A * 2 ^ d < 2 ^ (52 + 1)"
    by (simp_all only: of_nat_le_iff of_nat_less_iff)
  then have u: "unat (push_bit d A) = unat A * 2 ^ d"
    by (subst unat_push_bit_mult) simp_all
  have "(0x432 - d) * 2 ^ 52 \<le> 0x432 * 2 ^ 52"
    by (intro mult_right_mono) simp_all
  then have "(0x432 - d) * 2 ^ 52 + unat (push_bit d A) < 2 ^ 63"
    using N(2) by (simp add: u)
  then have "unat (packToF64UI (sint a < 0) (int (0x432 - d)) (push_bit d A)) =
      of_bool (sint a < 0) * 2 ^ 63 + ((0x432 - d) * 2 ^ 52 + unat (push_bit d A))"
    using unat_packToF64UI[of "int (0x432 - d)" "push_bit d A" "sint a < 0"] by simp
  moreover have "fp_rounds_to 52 11 s (sint a < 0) (of_nat (unat A)) (of_bool (sint a < 0) * 2 ^ (52 + 11) + ((0x432 - d) * 2 ^ 52 + unat A * 2 ^ d)) s"
    using z by (intro int_pack[OF N]) (simp_all add: fp_emin_def fp_bias_def d_def of_nat_diff)
  moreover have "i32_to_f64 a = packToF64UI (sint a < 0) (int (0x432 - d)) (push_bit d A)"
    using False z by (simp add: i32_to_f64_def Let_def d_def z_def of_nat_diff nat_add_distrib flip: A_def)
  ultimately show ?thesis
    by (simp add: u A)
qed

lemma ui32_to_f64_rounds: "fp_rounds_to 52 11 s False (of_nat (unat a)) (unat (ui32_to_f64 a)) s"
proof (cases "a = 0")
  case True
  then show ?thesis
    using fp_rounds_to_0[of 11 52 s False] by (simp add: ui32_to_f64_def)
next
  case False
  define A where "A = to_u64 a"
  have A: "unat A = unat a"
    by (simp add: A_def unat_ucast_widen)
  have b: "unat A < 2 ^ 32" "unat A \<noteq> 0"
    using unat_lt[of a] False by (simp_all add: A word_eq_0_unat)
  have t: "to_u32 A = a"
    by (simp add: A_def ucast_widen_narrow)
  have t2: "unat (to_u32 A) = unat A"
    using b(1) by (simp add: unat_ucast_mod)
  define z where "z = unat (softfloat_countLeadingZeros32 (to_u32 A))"
  have lz: "leading_zeros 64 (unat A) (z + 32)"
    using leading_zeros_widen[of "unat A" z] countLeadingZeros32_correct[of "to_u32 A"] t2 b by (simp add: z_def)
  define d where "d = z + 21"
  have z: "z \<le> 31"
    using leading_zeros_scaled(1)[OF lz b(2), of 0] by simp
  have "real (2 ^ 52) \<le> real (unat A * 2 ^ d)" "real (unat A * 2 ^ d) < real (2 ^ (52 + 1))"
  proof -
    have "int (z + 32) - (63 - int 52) = int d"
      by (simp add: d_def)
    then show "real (2 ^ 52) \<le> real (unat A * 2 ^ d)" "real (unat A * 2 ^ d) < real (2 ^ (52 + 1))"
      using leading_zeros_scaled(2,3)[OF lz b(2), of 52] by simp_all
  qed
  then have N: "2 ^ 52 \<le> unat A * 2 ^ d" "unat A * 2 ^ d < 2 ^ (52 + 1)"
    by (simp_all only: of_nat_le_iff of_nat_less_iff)
  then have u: "unat (push_bit d A) = unat A * 2 ^ d"
    by (subst unat_push_bit_mult) simp_all
  have "(0x432 - d) * 2 ^ 52 \<le> 0x432 * 2 ^ 52"
    by (intro mult_right_mono) simp_all
  then have "(0x432 - d) * 2 ^ 52 + unat (push_bit d A) < 2 ^ 63"
    using N(2) by (simp add: u)
  then have "unat (packToF64UI False (int (0x432 - d)) (push_bit d A)) =
      of_bool False * 2 ^ 63 + ((0x432 - d) * 2 ^ 52 + unat (push_bit d A))"
    using unat_packToF64UI[of "int (0x432 - d)" "push_bit d A" False] by simp
  moreover have "fp_rounds_to 52 11 s False (of_nat (unat A)) (of_bool False * 2 ^ (52 + 11) + ((0x432 - d) * 2 ^ 52 + unat A * 2 ^ d)) s"
    using z by (intro int_pack[OF N]) (simp_all add: fp_emin_def fp_bias_def d_def of_nat_diff)
  moreover have "ui32_to_f64 a = packToF64UI False (int (0x432 - d)) (push_bit d A)"
    using False z by (simp add: ui32_to_f64_def Let_def d_def z_def t of_nat_diff nat_add_distrib flip: A_def)
  ultimately show ?thesis
    by (simp add: u A)
qed

section \<open>The theorems\<close>

text \<open>
  C32: the conversions of signed and unsigned integers of 32 and 64 bits to single, double
  and half precision return the correctly rounded number, with the overflow and inexact flags
  of the rounding mode in force; zero converts to plus zero, and the conversions of 32-bit
  integers to double precision leave the state as it is.
\<close>

theorem integers_to_float_correct:
  "fp_rounds_to 23 8 s (sint a < 0) (of_int \<bar>sint a\<bar>) (unat (fst (i32_to_f32 a s))) (snd (i32_to_f32 a s))
   \<and> fp_rounds_to 23 8 s False (of_nat (unat a)) (unat (fst (ui32_to_f32 a s))) (snd (ui32_to_f32 a s))
   \<and> fp_rounds_to 23 8 s (sint b < 0) (of_int \<bar>sint b\<bar>) (unat (fst (i64_to_f32 b s))) (snd (i64_to_f32 b s))
   \<and> fp_rounds_to 23 8 s False (of_nat (unat b)) (unat (fst (ui64_to_f32 b s))) (snd (ui64_to_f32 b s))
   \<and> fp_rounds_to 52 11 s (sint a < 0) (of_int \<bar>sint a\<bar>) (unat (i32_to_f64 a)) s
   \<and> fp_rounds_to 52 11 s False (of_nat (unat a)) (unat (ui32_to_f64 a)) s
   \<and> fp_rounds_to 52 11 s (sint b < 0) (of_int \<bar>sint b\<bar>) (unat (fst (i64_to_f64 b s))) (snd (i64_to_f64 b s))
   \<and> fp_rounds_to 52 11 s False (of_nat (unat b)) (unat (fst (ui64_to_f64 b s))) (snd (ui64_to_f64 b s))
   \<and> fp_rounds_to 10 5 s (sint a < 0) (of_int \<bar>sint a\<bar>) (unat (fst (i32_to_f16 a s))) (snd (i32_to_f16 a s))
   \<and> fp_rounds_to 10 5 s False (of_nat (unat a)) (unat (fst (ui32_to_f16 a s))) (snd (ui32_to_f16 a s))
   \<and> fp_rounds_to 10 5 s (sint b < 0) (of_int \<bar>sint b\<bar>) (unat (fst (i64_to_f16 b s))) (snd (i64_to_f16 b s))
   \<and> fp_rounds_to 10 5 s False (of_nat (unat b)) (unat (fst (ui64_to_f16 b s))) (snd (ui64_to_f16 b s))"
  by (intro conjI i32_to_f32_rounds ui32_to_f32_rounds i64_to_f32_rounds ui64_to_f32_rounds i32_to_f64_rounds ui32_to_f64_rounds
      i64_to_f64_rounds ui64_to_f64_rounds i32_to_f16_rounds ui32_to_f16_rounds i64_to_f16_rounds ui64_to_f16_rounds)

end
