(* ===== verification/SF_FloatConv.thy ===== *)
theory SF_FloatConv
  imports SF_FromInt SF_ToIntCorrect
begin

text \<open>
  Conversions between the floating-point formats: the exact widening ones \<open>f16_to_f32.c\<close>,
  \<open>f16_to_f64.c\<close>, \<open>f32_to_f64.c\<close> and the rounding ones \<open>f32_to_f16.c\<close>, \<open>f64_to_f16.c\<close>,
  \<open>f64_to_f32.c\<close>.
\<close>

section \<open>The routines\<close>

definition f16_to_f32 :: "float16 \<Rightarrow> softfloat_state \<Rightarrow> float32 \<times> softfloat_state" where
  "f16_to_f32 a s =
     (let uiA = to_u64 a;
          sign = signF16UI uiA;
          expn = expF16UI uiA;
          frac = fracF16UI uiA
      in if expn = 0x1F then
           (if frac \<noteq> 0 then (to_u32 (softfloat_commonNaNToF32UI), softfloat_f16UIToCommonNaN uiA s)
            else (to_u32 (packToF32UI sign 0xFF 0), s))
         else if expn = 0 \<and> frac = 0 then (to_u32 (packToF32UI sign 0 0), s)
         else
           let (expn, frac) =
                 (if expn = 0 then (es16_exp (softfloat_normSubnormalF16Sig frac) - 1,
                                    es16_sig (softfloat_normSubnormalF16Sig frac))
                  else (expn, frac))
           in (to_u32 (packToF32UI sign (expn + 0x70) (push_bit 13 frac)), s))"

definition f16_to_f64 :: "float16 \<Rightarrow> softfloat_state \<Rightarrow> float64 \<times> softfloat_state" where
  "f16_to_f64 a s =
     (let uiA = to_u64 a;
          sign = signF16UI uiA;
          expn = expF16UI uiA;
          frac = fracF16UI uiA
      in if expn = 0x1F then
           (if frac \<noteq> 0 then (softfloat_commonNaNToF64UI, softfloat_f16UIToCommonNaN uiA s)
            else (packToF64UI sign 0x7FF 0, s))
         else if expn = 0 \<and> frac = 0 then (packToF64UI sign 0 0, s)
         else
           let (expn, frac) =
                 (if expn = 0 then (es16_exp (softfloat_normSubnormalF16Sig frac) - 1,
                                    es16_sig (softfloat_normSubnormalF16Sig frac))
                  else (expn, frac))
           in (packToF64UI sign (expn + 0x3F0) (push_bit 42 frac), s))"

definition f32_to_f64 :: "float32 \<Rightarrow> softfloat_state \<Rightarrow> float64 \<times> softfloat_state" where
  "f32_to_f64 a s =
     (let uiA = to_u64 a;
          sign = signF32UI uiA;
          expn = expF32UI uiA;
          frac = fracF32UI uiA
      in if expn = 0xFF then
           (if frac \<noteq> 0 then (softfloat_commonNaNToF64UI, softfloat_f32UIToCommonNaN uiA s)
            else (packToF64UI sign 0x7FF 0, s))
         else if expn = 0 \<and> frac = 0 then (packToF64UI sign 0 0, s)
         else
           let (expn, frac) =
                 (if expn = 0 then (es32_exp (softfloat_normSubnormalF32Sig frac) - 1,
                                    es32_sig (softfloat_normSubnormalF32Sig frac))
                  else (expn, frac))
           in (packToF64UI sign (expn + 0x380) (push_bit 29 frac), s))"

definition f32_to_f16 :: "float32 \<Rightarrow> softfloat_state \<Rightarrow> float16 \<times> softfloat_state" where
  "f32_to_f16 a s =
     (let uiA = to_u64 a;
          sign = signF32UI uiA;
          expn = expF32UI uiA;
          frac = fracF32UI uiA
      in if expn = 0xFF then
           (if frac \<noteq> 0 then (to_u16 (softfloat_commonNaNToF16UI), softfloat_f32UIToCommonNaN uiA s)
            else (to_u16 (packToF16UI sign 0x1F 0), s))
         else
           let frac16 = drop_bit 9 frac OR of_bool (frac AND 0x1FF \<noteq> 0)
           in if word_of_int expn OR frac16 = 0 then (to_u16 (packToF16UI sign 0 0), s)
              else softfloat_roundPackToF16 sign (expn - 0x71) (frac16 OR 0x4000) s)"

definition f64_to_f16 :: "float64 \<Rightarrow> softfloat_state \<Rightarrow> float16 \<times> softfloat_state" where
  "f64_to_f16 a s =
     (let uiA = a;
          sign = signF64UI uiA;
          expn = expF64UI uiA;
          frac = fracF64UI uiA
      in if expn = 0x7FF then
           (if frac \<noteq> 0 then (to_u16 (softfloat_commonNaNToF16UI), softfloat_f64UIToCommonNaN uiA s)
            else (to_u16 (packToF16UI sign 0x1F 0), s))
         else
           let frac16 = softfloat_shortShiftRightJam64 frac 38
           in if word_of_int expn OR frac16 = 0 then (to_u16 (packToF16UI sign 0 0), s)
              else softfloat_roundPackToF16 sign (expn - 0x3F1) (frac16 OR 0x4000) s)"

definition f64_to_f32 :: "float64 \<Rightarrow> softfloat_state \<Rightarrow> float32 \<times> softfloat_state" where
  "f64_to_f32 a s =
     (let uiA = a;
          sign = signF64UI uiA;
          expn = expF64UI uiA;
          frac = fracF64UI uiA
      in if expn = 0x7FF then
           (if frac \<noteq> 0 then (to_u32 (softfloat_commonNaNToF32UI), softfloat_f64UIToCommonNaN uiA s)
            else (to_u32 (packToF32UI sign 0xFF 0), s))
         else
           let frac32 = softfloat_shortShiftRightJam64 frac 22
           in if word_of_int expn OR frac32 = 0 then (to_u32 (packToF32UI sign 0 0), s)
              else softfloat_roundPackToF32 sign (expn - 0x381) (frac32 OR 0x40000000) s)"

section \<open>The specification\<close>

text \<open>
  A NaN becomes the canonical NaN (raising invalid when it was signaling), an infinity the
  infinity of its sign, and any other number is rounded to the target format.
\<close>

definition conv_spec ::
  "nat \<Rightarrow> nat \<Rightarrow> nat \<Rightarrow> nat \<Rightarrow> softfloat_state \<Rightarrow> nat \<Rightarrow> nat \<Rightarrow> softfloat_state \<Rightarrow> bool" where
  "conv_spec p w p' w' s b r s' \<longleftrightarrow>
     (if fp_nan p w b then r = fp_qnan p' w' \<and> s' = raise_if (fp_snan p w b) softfloat_flag_invalid s
      else if fp_infinite p w b then r = fp_signed p' w' (fp_sign p w b) (fp_inf p' w') \<and> s' = s
      else fp_rounds_to p' w' s (fp_sign p w b) (fp_magn p w b) r s')"

section \<open>Widening is exact\<close>

definition widened :: "nat \<Rightarrow> nat \<Rightarrow> nat \<Rightarrow> nat \<Rightarrow> nat \<Rightarrow> nat \<Rightarrow> bool" where
  "widened p w p' w' b r \<longleftrightarrow>
     fp_sign p' w' r = fp_sign p w b \<and> fp_finite p' w' r \<and> fp_magn p' w' r = fp_magn p w b"

lemma widened_pack:
  assumes "norm_arg p w b e z" and "0 \<le> e - 1 + (fp_bias w' - fp_bias w)"
    and "E = nat (e - 1 + (fp_bias w' - fp_bias w))" and "E + 2 < 2 ^ w'" and "p' = p + h"
    and "r = of_bool (fp_sign p w b) * 2 ^ (p' + w') + (E * 2 ^ p' + z * 2 ^ h)"
  shows "widened p w p' w' b r"
proof -
  have n: "2 ^ p' \<le> z * 2 ^ h" "z * 2 ^ h < 2 ^ (p' + 1)"
    using assms(1) by (simp_all add: norm_arg_def assms(5) power_add)
  have "(E + 2) * 2 ^ p' \<le> (2 ^ w' - 1) * 2 ^ p'"
    using assms(4) by (intro mult_le_mono1) simp
  then have fin: "E * 2 ^ p' + z * 2 ^ h < fp_inf p' w'"
    using n(2) unfolding fp_inf_def power_add power_one_right distrib_right by linarith
  moreover have "fp_inf p' w' < 2 ^ (p' + w')"
    by (simp add: fp_inf_def power_add algebra_simps)
  ultimately have ab: "fp_abs p' w' r = E * 2 ^ p' + z * 2 ^ h" "fp_sign p' w' r = fp_sign p w b"
    using fp_pattern[of "E * 2 ^ p' + z * 2 ^ h" p' w' "fp_sign p w b"] by (simp_all add: assms(6))
  have "fp_emin p w + e - 1 = int h + (fp_emin p' w' + int E)"
    using assms(2) by (simp add: assms(3,5) fp_emin_def)
  then have "(2::real) powi (fp_emin p w + e - 1) = 2 ^ h * 2 powi (fp_emin p' w' + int E)"
    by (simp only: powi_plus power_int_of_nat)
  then have "fp_magn p w b = real (z * 2 ^ h) * 2 powi (fp_emin p' w' + int E)"
    using assms(1) by (simp add: norm_arg_def)
  then show ?thesis
    using fin n fp_mag_pack[of E p' "z * 2 ^ h" "fp_emin p' w'"]
    by (simp add: widened_def ab fp_finite_def fp_magn_def)
qed

lemma widened_zero:
  assumes "fp_zero p w b" and "r = of_bool (fp_sign p w b) * 2 ^ (p' + w')" and "0 < w'"
  shows "widened p w p' w' b r"
proof -
  have "fp_abs p' w' r = 0" "fp_sign p' w' r = fp_sign p w b"
    using fp_pattern[of 0 p' w' "fp_sign p w b"] by (simp_all add: assms(2))
  moreover have "(1::nat) < 2 ^ w'"
    using assms(3) by (intro one_less_power) simp_all
  ultimately show ?thesis
    using assms(1) fp_magn_eq_0[of p w b] fp_magn_eq_0[of p' w' r]
    by (simp add: widened_def fp_zero_def fp_finite_def fp_inf_def)
qed

lemma widened_rounds:
  assumes "widened p w p' w' b r" and "2 \<le> w'" and "r < 2 ^ (p' + w' + 1)"
  shows "fp_rounds_to p' w' s (fp_sign p w b) (fp_magn p w b) r s"
proof -
  have "r = of_bool (fp_sign p' w' r) * 2 ^ (p' + w') + fp_abs p' w' r"
    using fp_decomp[OF assms(3)] by (simp add: fp_abs_fields)
  then show ?thesis
    using fp_rounds_to_exact[OF _ assms(2) refl, of "fp_abs p' w' r" p' s "fp_sign p' w' r"] assms(1)
    by (simp add: widened_def fp_finite_def fp_magn_def)
qed

section \<open>Magnitudes below half of the least subnormal round alike\<close>

lemma tiny_log:
  assumes "0 < x" and "x < 2 powi t"
  shows "\<lfloor>log 2 x\<rfloor> < t"
proof -
  have "x < 2 powr of_int t"
    using assms by (simp add: powr_real_of_int')
  then have "log 2 x < of_int t"
    using assms(1) by (simp add: log_less_iff)
  then show ?thesis
    by (simp add: floor_less_iff)
qed

lemma fp_round_tiny:
  assumes "0 < x" and "x < 2 powi (emin - 1)"
  shows "fp_round p emin m neg x = of_bool (round_up m neg False (1 / 4)) * 2 powi emin"
proof -
  have q: "quantum p emin x = emin"
    using tiny_log[OF assms] by (simp add: quantum_def)
  define y where "y = x / 2 powi emin"
  have y: "0 < y" "y < 1 / 2"
    using assms by (simp_all add: y_def field_simps power_int_diff)
  have "\<lfloor>y\<rfloor> = 0"
    using y by (intro floor_unique) simp_all
  moreover have "frac y = y"
    using y by (simp add: frac_eq)
  moreover have "round_up m neg False y = round_up m neg False (1 / 4)"
    using y by (cases m) simp_all
  ultimately have "rnd m neg y = of_bool (round_up m neg False (1 / 4))"
    by (simp add: rnd_def)
  then show ?thesis
    by (simp add: fp_round_def q y_def)
qed

lemma fp_flags_tiny:
  assumes "0 < x" and "x < 2 powi (fp_emin p w - 1)" and "2 \<le> w"
  shows "fp_flags p w before m neg x = softfloat_flag_underflow OR softfloat_flag_inexact"
proof -
  note r = fp_round_tiny[OF assms(1,2), of p m neg]
  have b: "1 \<le> fp_bias w"
    using assms(3) self_le_power[of "2::int" "w - 1"] by (simp add: fp_bias_def)
  then have "(2::real) powi fp_emin p w < 2 powi (fp_bias w + 1)"
    by (intro power_int_strict_increasing) (simp_all add: fp_emin_def)
  then have ov: "\<not> fp_overflows p w m neg x"
    by (cases "round_up m neg False (1 / 4)") (simp_all add: fp_overflows_def r not_le)
  have "x < 2 powi fp_emin p w"
    using assms(2) by (rule less_trans) (intro power_int_strict_increasing, simp_all)
  then have ne: "fp_round p (fp_emin p w) m neg x \<noteq> x"
    using assms(1) by (simp add: r)
  define l where "l = \<lfloor>log 2 x\<rfloor>"
  have l: "l < fp_emin p w - 1"
    using tiny_log[OF assms(1,2)] by (simp add: l_def)
  have l1: "(2::real) powi (l + 1) = 2 ^ (p + 1) * 2 powi (l - int p)"
  proof -
    have "l + 1 = int (p + 1) + (l - int p)"
      by simp
    then show ?thesis
      by (simp only: powi_plus power_int_of_nat)
  qed
  have "x < 2 powi (l + 1)"
  proof -
    have "log 2 x < of_int (l + 1)"
      unfolding l_def by linarith
    then have "x < 2 powr of_int (l + 1)"
      using assms(1) by (simp only: log_less_iff)
    then show ?thesis
      using powr_real_of_int'[of 2 "l + 1"] by simp
  qed
  then have "x / 2 powi (l - int p) < 2 powi (l + 1) / 2 powi (l - int p)"
    by (intro divide_strict_right_mono) simp_all
  also have "\<dots> = 2 ^ (p + 1)"
    using l1 by (simp add: nonzero_divide_eq_eq)
  finally have "\<lceil>x / 2 powi (l - int p)\<rceil> \<le> 2 ^ (p + 1)"
    by (simp add: ceiling_le_iff)
  then have "rnd m neg (x / 2 powi (l - int p)) \<le> 2 ^ (p + 1)"
    using rnd_bounds(2) order_trans by blast
  then have "of_int (rnd m neg (x / 2 powi (l - int p))) \<le> (2::real) ^ (p + 1)"
    by (metis of_int_le_iff of_int_numeral of_int_power)
  then have "fp_round p (l - int p) m neg x \<le> 2 ^ (p + 1) * 2 powi (l - int p)"
    unfolding fp_round_def quantum_def l_def[symmetric] max.idem by (intro mult_right_mono) simp_all
  also have "\<dots> = 2 powi (l + 1)"
    by (rule l1[symmetric])
  also have "\<dots> < 2 powi (1 - fp_bias w)"
    using l by (intro power_int_strict_increasing) (simp_all add: fp_emin_def)
  finally have "fp_round p (l - int p) m neg x < 2 powi (1 - fp_bias w)" .
  moreover have "x < 2 powi (1 - fp_bias w)"
    using assms(2) by (rule less_le_trans) (intro power_int_increasing, simp_all add: fp_emin_def)
  ultimately have "fp_tiny p w before m neg x"
    by (simp add: fp_tiny_def l_def)
  with ov ne show ?thesis
    by (simp add: fp_flags_def fp_inexact_def)
qed

lemma fp_rounds_to_tiny:
  assumes "0 < x" "x < 2 powi (fp_emin p w - 1)" "0 < y" "y < 2 powi (fp_emin p w - 1)" and "2 \<le> w"
  shows "fp_rounds_to p w s neg x r s' \<longleftrightarrow> fp_rounds_to p w s neg y r s'"
  by (simp add: fp_rounds_to_def fp_is_round_def fp_round_tiny[OF assms(1,2)] fp_round_tiny[OF assms(3,4)]
      fp_flags_tiny[OF assms(1,2,5)] fp_flags_tiny[OF assms(3,4,5)])

section \<open>Narrowing rounds\<close>

text \<open>
  The routines cut the fraction to \<open>p' + k\<close> bits with a sticky bit and set the implicit bit,
  also for a subnormal operand, which is far below the target's range.
\<close>

context round_pack
begin

lemma narrow_rounds:
  assumes p: "pa = p + k + h" and k: "2 \<le> k" and w: "2 \<le> w" and len: "p + k < 64"
    and fin: "fp_finite pa wa b" and nz: "\<not> fp_zero pa wa b"
    and sig: "int (unat sig) = jam (of_nat (fp_frac pa b) / 2 ^ h)" and i: "unat i = 2 ^ (p + k)"
    and off: "off = fp_bias wa - fp_bias w + 1" and big: "int p + 2 \<le> off"
    and e: "int (fp_exp pa wa b) - off \<in> exp_range"
    and r: "roundPack sign (int (fp_exp pa wa b) - off) (sig OR i) s = (r, s')"
  shows "fp_rounds_to p w s sign (fp_magn pa wa b) (unat r) s'"
proof -
  define f where "f = real (fp_frac pa b) / 2 ^ h"
  define u where "u = fp_emin p w + (int (fp_exp pa wa b) - off) - int k"
  have f: "0 \<le> f" "f < 2 ^ (p + k)"
  proof -
    have "real (fp_frac pa b) < real (2 ^ pa)"
      using fp_frac_less[of pa b] by (simp only: of_nat_less_iff)
    then show "f < 2 ^ (p + k)"
      by (simp add: f_def p power_add field_simps)
  qed (simp add: f_def)
  define y where "y = 2 ^ (p + k) + f"
  have y: "2 ^ (p + k) \<le> y" "y < 2 ^ Suc (p + k)"
    using f by (simp_all add: y_def)
  have k0: "0 < p + k"
    using k by simp
  have jy: "jam y = 2 ^ (p + k) + jam f"
    using jam_even_add[of "2 ^ (p + k)" f] k0 by (simp add: y_def)
  have "jam f < 2 ^ (p + k)"
    using jam_range(2)[OF y k0] by (simp add: jy)
  then have "unat sig < 2 ^ (p + k)"
    using sig unfolding f_def[symmetric] by (simp add: nat_less_iff flip: of_nat_less_iff[where 'a = int])
  then have "unat (sig OR i) = 2 ^ (p + k) + unat sig"
    using unat_or_pow2[of sig "p + k" i] i by simp
  moreover have "0 \<le> jam f"
    using sig unfolding f_def[symmetric] by (metis of_nat_0_le_iff)
  ultimately have su: "unat (sig OR i) = nat (jam y) * 2 ^ 0"
    using sig unfolding f_def[symmetric] by (simp add: jy nat_add_distrib nat_power_eq flip: sig)
  have R: "fp_rounds_to p w s sign (y * 2 powi u) (unat r) s'"
    using rounds_jam[OF y, of 0 "sig OR i" "int (fp_exp pa wa b) - off" sign s r s'] k w su e r
    by (simp add: u_def)
  have h: "(2::real) ^ h * 2 powi (fp_emin pa wa + int (fp_exp pa wa b) - 1) = 2 powi u"
  proof -
    have "u = int h + (fp_emin pa wa + int (fp_exp pa wa b) - 1)"
      by (simp add: u_def off p fp_emin_def)
    then show ?thesis
      by (simp only: powi_plus power_int_of_nat)
  qed
  show ?thesis
  proof (cases "fp_exp pa wa b = 0")
    case False
    have "fp_magn pa wa b = y * 2 ^ h * 2 powi (fp_emin pa wa + int (fp_exp pa wa b) - 1)"
      using False by (simp add: fp_magn_fields y_def f_def p power_add field_simps)
    then have "fp_magn pa wa b = y * 2 powi u"
      using h by (simp add: mult.assoc)
    then show ?thesis
      using R by simp
  next
    case True
    have "y * 2 powi u < 2 ^ Suc (p + k) * 2 powi u"
      using y(2) by (intro mult_strict_right_mono) simp_all
    also have "\<dots> = 2 powi (int (Suc (p + k)) + u)"
      by (simp only: powi_plus power_int_of_nat)
    also have "\<dots> \<le> 2 powi (fp_emin p w - 1)"
      using big True by (intro power_int_increasing) (simp_all add: u_def)
    finally have 1: "y * 2 powi u < 2 powi (fp_emin p w - 1)" .
    have "fp_magn pa wa b < 2 powi (int pa + fp_emin pa wa)"
      using scaled_pow2_bounds(2)[OF fp_frac_less[of pa b]] True by (simp add: fp_magn_fields)
    also have "\<dots> \<le> 2 powi (fp_emin p w - 1)"
      using big by (intro power_int_increasing) (simp_all add: off fp_emin_def)
    finally have 2: "fp_magn pa wa b < 2 powi (fp_emin p w - 1)" .
    have "0 < fp_magn pa wa b"
      using nz fp_magn_eq_0[of pa wa b] fp_magn_nonneg[of pa wa b] by (simp add: fp_zero_def)
    moreover have "0 < y * 2 powi u"
      using f(1) by (intro mult_pos_pos) (simp_all add: y_def add_pos_nonneg)
    ultimately show ?thesis
      using fp_rounds_to_tiny[OF _ 1 _ 2 w] R by blast
  qed
qed

end

section \<open>NaN operands\<close>

lemma quiet_bit:
  fixes x :: uint64
  assumes "i = push_bit n 1" and "n < 64" and "fp_nan (Suc n) w (unat x)"
  shows "x AND i = 0 \<longleftrightarrow> fp_snan (Suc n) w (unat x)"
proof -
  define b where "b = unat x"
  have "x AND i = 0 \<longleftrightarrow> b div 2 ^ n mod 2 = 0"
    using and_shifted_mask_eq[of 0 n 0 1 x] assms(1,2) by (simp add: b_def)
  moreover have "b mod 2 ^ Suc n = 2 ^ n * (b div 2 ^ n mod 2) + b mod 2 ^ n"
    by (simp only: power_Suc2 mod_mult2_eq)
  then have "b mod 2 ^ Suc n < 2 ^ n \<longleftrightarrow> b div 2 ^ n mod 2 = 0"
    by (cases "b div 2 ^ n mod 2 = 0") simp_all
  ultimately show ?thesis
    using assms(3) by (simp add: fp_snan_def b_def)
qed

lemma f16UIToCommonNaN_snan:
  fixes a :: float16
  assumes "fp_nan 10 5 (unat a)"
  shows "softfloat_f16UIToCommonNaN (to_u64 a) s = raise_if (fp_snan 10 5 (unat a)) softfloat_flag_invalid s"
  using quiet_bit[of "0x0200" 9 5 "to_u64 a"] assms
  by (simp add: softfloat_f16UIToCommonNaN_def raise_if_def unat_ucast_widen )

lemma f32UIToCommonNaN_snan:
  fixes a :: float32
  assumes "fp_nan 23 8 (unat a)"
  shows "softfloat_f32UIToCommonNaN (to_u64 a) s = raise_if (fp_snan 23 8 (unat a)) softfloat_flag_invalid s"
  using quiet_bit[of "0x00400000" 22 8 "to_u64 a"] assms
  by (simp add: softfloat_f32UIToCommonNaN_def raise_if_def unat_ucast_widen )

lemma f64UIToCommonNaN_snan:
  fixes a :: float64
  assumes "fp_nan 52 11 (unat a)"
  shows "softfloat_f64UIToCommonNaN (a) s = raise_if (fp_snan 52 11 (unat a)) softfloat_flag_invalid s"
  using quiet_bit[of "0x0008000000000000" 51 11 "a"] assms
  by (simp add: softfloat_f64UIToCommonNaN_def raise_if_def )

section \<open>The six routines\<close>

lemma f16_to_f32_widened:
  fixes a :: float16
  assumes "fp_finite 10 5 (unat a)"
  shows "widened 10 5 23 8 (unat a) (unat (fst (f16_to_f32 a s)))" "snd (f16_to_f32 a s) = s"
proof -
  note fin = fp_not_finite[of 10 5 "unat a"]
  show "snd (f16_to_f32 a s) = s"
    using assms fin unfolding f16_to_f32_def Let_def F16_fields by (simp add: case_prod_unfold)
  show "widened 10 5 23 8 (unat a) (unat (fst (f16_to_f32 a s)))"
  proof (cases "fp_zero 10 5 (unat a)")
    case True
    then show ?thesis
      by (intro widened_zero) (simp_all add: f16_to_f32_def F16_fields fp_zero_fields word_eq_0_unat pack_zeroF32)
  next
    case nz: False
    show ?thesis
    proof (cases "fp_exp 10 5 (unat a) = 0")
      case True
      define e z where "e = es16_exp (softfloat_normSubnormalF16Sig (fracF16UI (to_u64 a)))"
        and "z = es16_sig (softfloat_normSubnormalF16Sig (fracF16UI (to_u64 a)))"
      have ns: "norm_subnormal 10 (fp_frac 10 (unat a)) e (unat z)"
        using normSubnormalF16Sig_correct[of "fracF16UI (to_u64 a)"] nz True fp_frac_less[of 10 "unat a"]
        by (simp add: e_def z_def F16_fields fp_zero_fields)
      then have na: "norm_arg 10 5 (unat a) e (unat z)"
        using norm_arg_subnormal[OF True] by simp
      have b: "- 9 \<le> e" "e \<le> 0" "unat z < 2 ^ 11"
        using ns by (auto simp: norm_subnormal_def)
      have z: "unat (push_bit 13 z) = unat z * 2 ^ 13"
        using b(3) by (subst unat_push_bit_mult) simp_all
      have r: "fst (f16_to_f32 a s) = to_u32 (packToF32UI (fp_sign 10 5 (unat a)) (e - 1 + 112) (push_bit 13 z))"
        using nz True unfolding f16_to_f32_def Let_def F16_fields fp_zero_fields
        by (simp add: e_def z_def word_eq_0_unat F16_fields)
      have R: "unat (fst (f16_to_f32 a s)) =
          of_bool (fp_sign 10 5 (unat a)) * 2 ^ (23 + 8) + (nat (e - 1 + 112) * 2 ^ 23 + unat z * 2 ^ 13)"
        using b unfolding r by (subst unat_packToF32UI) (simp_all add: z nat_less_iff)
      show ?thesis
        by (rule widened_pack[OF na _ _ _ _ R]) (use b in \<open>simp_all add: fp_bias_def\<close>)
    next
      case False
      define e z where "e = fp_exp 10 5 (unat a)" and "z = fracF16UI (to_u64 a)"
      have na: "norm_arg 10 5 (unat a) (int e) (2 ^ 10 + unat z)"
        using norm_arg_normal[OF assms False] by (simp add: e_def z_def F16_fields)
      have b: "0 < e" "e < 2 ^ 5" "unat z < 2 ^ 10"
        using False fp_exp_less[of 10 5 "unat a"] fp_frac_less[of 10 "unat a"] by (simp_all add: e_def z_def F16_fields)
      have z: "unat (push_bit 13 z) = unat z * 2 ^ 13"
        using b(3) by (subst unat_push_bit_mult) simp_all
      have r: "fst (f16_to_f32 a s) = to_u32 (packToF32UI (fp_sign 10 5 (unat a)) (int e + 112) (push_bit 13 z))"
        using False assms fin unfolding f16_to_f32_def Let_def F16_fields
        by (simp add: e_def z_def)
      have R: "unat (fst (f16_to_f32 a s)) =
          of_bool (fp_sign 10 5 (unat a)) * 2 ^ (23 + 8) + (nat (int e - 1 + 112) * 2 ^ 23 + (2 ^ 10 + unat z) * 2 ^ 13)"
        using b unfolding r by (subst unat_packToF32UI) (simp_all add: z nat_add_distrib nat_diff_distrib)
      show ?thesis
        by (rule widened_pack[OF na _ _ _ _ R]) (use b in \<open>simp_all add: fp_bias_def\<close>)
    qed
  qed
qed

lemma f16_to_f32_conv:
  "conv_spec 10 5 23 8 s (unat a) (unat (fst (f16_to_f32 a s))) (snd (f16_to_f32 a s))"
  for a :: float16
proof (cases "fp_finite 10 5 (unat a)")
  case True
  then show ?thesis
    using widened_rounds[OF f16_to_f32_widened(1)[OF True, of s]] unat_lt[of "fst (f16_to_f32 a s)"]
    by (simp add: conv_spec_def f16_to_f32_widened(2) fp_nan_def fp_infinite_def fp_finite_def)
next
  case False
  then show ?thesis
    using f16UIToCommonNaN_snan[of a s]
    by (auto simp: conv_spec_def f16_to_f32_def F16_fields fp_class_fields word_eq_0_unat
        softfloat_commonNaNToF32UI_def fp_qnan_values pack_infF32)
qed

lemma f16_to_f64_widened:
  fixes a :: float16
  assumes "fp_finite 10 5 (unat a)"
  shows "widened 10 5 52 11 (unat a) (unat (fst (f16_to_f64 a s)))" "snd (f16_to_f64 a s) = s"
proof -
  note fin = fp_not_finite[of 10 5 "unat a"]
  show "snd (f16_to_f64 a s) = s"
    using assms fin unfolding f16_to_f64_def Let_def F16_fields by (simp add: case_prod_unfold)
  show "widened 10 5 52 11 (unat a) (unat (fst (f16_to_f64 a s)))"
  proof (cases "fp_zero 10 5 (unat a)")
    case True
    then show ?thesis
      by (intro widened_zero) (simp_all add: f16_to_f64_def F16_fields fp_zero_fields word_eq_0_unat pack_zeroF64)
  next
    case nz: False
    show ?thesis
    proof (cases "fp_exp 10 5 (unat a) = 0")
      case True
      define e z where "e = es16_exp (softfloat_normSubnormalF16Sig (fracF16UI (to_u64 a)))"
        and "z = es16_sig (softfloat_normSubnormalF16Sig (fracF16UI (to_u64 a)))"
      have ns: "norm_subnormal 10 (fp_frac 10 (unat a)) e (unat z)"
        using normSubnormalF16Sig_correct[of "fracF16UI (to_u64 a)"] nz True fp_frac_less[of 10 "unat a"]
        by (simp add: e_def z_def F16_fields fp_zero_fields)
      then have na: "norm_arg 10 5 (unat a) e (unat z)"
        using norm_arg_subnormal[OF True] by simp
      have b: "- 9 \<le> e" "e \<le> 0" "unat z < 2 ^ 11"
        using ns by (auto simp: norm_subnormal_def)
      have z: "unat (push_bit 42 z) = unat z * 2 ^ 42"
        using b(3) by (subst unat_push_bit_mult) simp_all
      have r: "fst (f16_to_f64 a s) = packToF64UI (fp_sign 10 5 (unat a)) (e - 1 + 1008) (push_bit 42 z)"
        using nz True unfolding f16_to_f64_def Let_def F16_fields fp_zero_fields
        by (simp add: e_def z_def word_eq_0_unat F16_fields)
      have R: "unat (fst (f16_to_f64 a s)) =
          of_bool (fp_sign 10 5 (unat a)) * 2 ^ (52 + 11) + (nat (e - 1 + 1008) * 2 ^ 52 + unat z * 2 ^ 42)"
        using b unfolding r by (subst unat_packToF64UI) (simp_all add: z nat_less_iff)
      show ?thesis
        by (rule widened_pack[OF na _ _ _ _ R]) (use b in \<open>simp_all add: fp_bias_def\<close>)
    next
      case False
      define e z where "e = fp_exp 10 5 (unat a)" and "z = fracF16UI (to_u64 a)"
      have na: "norm_arg 10 5 (unat a) (int e) (2 ^ 10 + unat z)"
        using norm_arg_normal[OF assms False] by (simp add: e_def z_def F16_fields)
      have b: "0 < e" "e < 2 ^ 5" "unat z < 2 ^ 10"
        using False fp_exp_less[of 10 5 "unat a"] fp_frac_less[of 10 "unat a"] by (simp_all add: e_def z_def F16_fields)
      have z: "unat (push_bit 42 z) = unat z * 2 ^ 42"
        using b(3) by (subst unat_push_bit_mult) simp_all
      have r: "fst (f16_to_f64 a s) = packToF64UI (fp_sign 10 5 (unat a)) (int e + 1008) (push_bit 42 z)"
        using False assms fin unfolding f16_to_f64_def Let_def F16_fields
        by (simp add: e_def z_def)
      have R: "unat (fst (f16_to_f64 a s)) =
          of_bool (fp_sign 10 5 (unat a)) * 2 ^ (52 + 11) + (nat (int e - 1 + 1008) * 2 ^ 52 + (2 ^ 10 + unat z) * 2 ^ 42)"
        using b unfolding r by (subst unat_packToF64UI) (simp_all add: z nat_add_distrib nat_diff_distrib)
      show ?thesis
        by (rule widened_pack[OF na _ _ _ _ R]) (use b in \<open>simp_all add: fp_bias_def\<close>)
    qed
  qed
qed

lemma f16_to_f64_conv:
  "conv_spec 10 5 52 11 s (unat a) (unat (fst (f16_to_f64 a s))) (snd (f16_to_f64 a s))"
  for a :: float16
proof (cases "fp_finite 10 5 (unat a)")
  case True
  then show ?thesis
    using widened_rounds[OF f16_to_f64_widened(1)[OF True, of s]] unat_lt[of "fst (f16_to_f64 a s)"]
    by (simp add: conv_spec_def f16_to_f64_widened(2) fp_nan_def fp_infinite_def fp_finite_def)
next
  case False
  then show ?thesis
    using f16UIToCommonNaN_snan[of a s]
    by (auto simp: conv_spec_def f16_to_f64_def F16_fields fp_class_fields word_eq_0_unat
        softfloat_commonNaNToF64UI_def fp_qnan_values pack_infF64)
qed

lemma f32_to_f64_widened:
  fixes a :: float32
  assumes "fp_finite 23 8 (unat a)"
  shows "widened 23 8 52 11 (unat a) (unat (fst (f32_to_f64 a s)))" "snd (f32_to_f64 a s) = s"
proof -
  note fin = fp_not_finite[of 23 8 "unat a"]
  show "snd (f32_to_f64 a s) = s"
    using assms fin unfolding f32_to_f64_def Let_def F32_fields by (simp add: case_prod_unfold)
  show "widened 23 8 52 11 (unat a) (unat (fst (f32_to_f64 a s)))"
  proof (cases "fp_zero 23 8 (unat a)")
    case True
    then show ?thesis
      by (intro widened_zero) (simp_all add: f32_to_f64_def F32_fields fp_zero_fields word_eq_0_unat pack_zeroF64)
  next
    case nz: False
    show ?thesis
    proof (cases "fp_exp 23 8 (unat a) = 0")
      case True
      define e z where "e = es32_exp (softfloat_normSubnormalF32Sig (fracF32UI (to_u64 a)))"
        and "z = es32_sig (softfloat_normSubnormalF32Sig (fracF32UI (to_u64 a)))"
      have ns: "norm_subnormal 23 (fp_frac 23 (unat a)) e (unat z)"
        using normSubnormalF32Sig_correct[of "fracF32UI (to_u64 a)"] nz True fp_frac_less[of 23 "unat a"]
        by (simp add: e_def z_def F32_fields fp_zero_fields)
      then have na: "norm_arg 23 8 (unat a) e (unat z)"
        using norm_arg_subnormal[OF True] by simp
      have b: "- 22 \<le> e" "e \<le> 0" "unat z < 2 ^ 24"
        using ns by (auto simp: norm_subnormal_def)
      have z: "unat (push_bit 29 z) = unat z * 2 ^ 29"
        using b(3) by (subst unat_push_bit_mult) simp_all
      have r: "fst (f32_to_f64 a s) = packToF64UI (fp_sign 23 8 (unat a)) (e - 1 + 896) (push_bit 29 z)"
        using nz True unfolding f32_to_f64_def Let_def F32_fields fp_zero_fields
        by (simp add: e_def z_def word_eq_0_unat F32_fields)
      have R: "unat (fst (f32_to_f64 a s)) =
          of_bool (fp_sign 23 8 (unat a)) * 2 ^ (52 + 11) + (nat (e - 1 + 896) * 2 ^ 52 + unat z * 2 ^ 29)"
        using b unfolding r by (subst unat_packToF64UI) (simp_all add: z nat_less_iff)
      show ?thesis
        by (rule widened_pack[OF na _ _ _ _ R]) (use b in \<open>simp_all add: fp_bias_def\<close>)
    next
      case False
      define e z where "e = fp_exp 23 8 (unat a)" and "z = fracF32UI (to_u64 a)"
      have na: "norm_arg 23 8 (unat a) (int e) (2 ^ 23 + unat z)"
        using norm_arg_normal[OF assms False] by (simp add: e_def z_def F32_fields)
      have b: "0 < e" "e < 2 ^ 8" "unat z < 2 ^ 23"
        using False fp_exp_less[of 23 8 "unat a"] fp_frac_less[of 23 "unat a"] by (simp_all add: e_def z_def F32_fields)
      have z: "unat (push_bit 29 z) = unat z * 2 ^ 29"
        using b(3) by (subst unat_push_bit_mult) simp_all
      have r: "fst (f32_to_f64 a s) = packToF64UI (fp_sign 23 8 (unat a)) (int e + 896) (push_bit 29 z)"
        using False assms fin unfolding f32_to_f64_def Let_def F32_fields
        by (simp add: e_def z_def)
      have R: "unat (fst (f32_to_f64 a s)) =
          of_bool (fp_sign 23 8 (unat a)) * 2 ^ (52 + 11) + (nat (int e - 1 + 896) * 2 ^ 52 + (2 ^ 23 + unat z) * 2 ^ 29)"
        using b unfolding r by (subst unat_packToF64UI) (simp_all add: z nat_add_distrib nat_diff_distrib)
      show ?thesis
        by (rule widened_pack[OF na _ _ _ _ R]) (use b in \<open>simp_all add: fp_bias_def\<close>)
    qed
  qed
qed

lemma f32_to_f64_conv:
  "conv_spec 23 8 52 11 s (unat a) (unat (fst (f32_to_f64 a s))) (snd (f32_to_f64 a s))"
  for a :: float32
proof (cases "fp_finite 23 8 (unat a)")
  case True
  then show ?thesis
    using widened_rounds[OF f32_to_f64_widened(1)[OF True, of s]] unat_lt[of "fst (f32_to_f64 a s)"]
    by (simp add: conv_spec_def f32_to_f64_widened(2) fp_nan_def fp_infinite_def fp_finite_def)
next
  case False
  then show ?thesis
    using f32UIToCommonNaN_snan[of a s]
    by (auto simp: conv_spec_def f32_to_f64_def F32_fields fp_class_fields word_eq_0_unat
        softfloat_commonNaNToF64UI_def fp_qnan_values pack_infF64)
qed

lemma mag_bits_jam:
  fixes z :: uint64
  assumes "int (unat z) = jam (of_nat (fp_frac p b) / 2 ^ h)" and "w \<le> 63"
  shows "word_of_int (int (fp_exp p w b)) OR z = 0 \<longleftrightarrow> fp_zero p w b"
proof -
  have "int (fp_exp p w b) < 2 ^ w"
    using fp_exp_less[of p w b] by (metis of_nat_less_iff of_nat_numeral of_nat_power)
  also have "(2::int) ^ w < 2 ^ 64"
    using assms(2) by (intro power_strict_increasing) simp_all
  finally have "unat (word_of_int (int (fp_exp p w b)) :: uint64) = fp_exp p w b"
    by (subst unat_word_of_int) simp_all
  moreover have "0 < fp_frac p b \<Longrightarrow> 0 < jam (of_nat (fp_frac p b) / 2 ^ h)"
    by (rule jam_pos) simp
  then have "unat z = 0 \<longleftrightarrow> fp_frac p b = 0"
    using assms(1) by (cases "fp_frac p b = 0") (use jam_of_int[of 0] in auto)
  ultimately show ?thesis
    unfolding or_eq_0_iff fp_zero_fields by (simp only: word_eq_0_unat)
qed

lemma f32_to_f16_jam:
  "int (unat (drop_bit 9 (fracF32UI (to_u64 a)) OR of_bool (fracF32UI (to_u64 a) AND 0x1FF \<noteq> 0))) = jam (of_nat (fp_frac 23 (unat a)) / 2 ^ 9)"
  for a :: float32
    using unat_and_mask[of "fracF32UI (to_u64 a)" 9]
    by (simp only: jam_nat_quot unat_or_of_bool unat_drop_bit_div word_eq_0_unat[of "_ AND _"] F32_fields) (simp add: mask_numeral)

lemma f32_to_f16_conv:
  "conv_spec 23 8 10 5 s (unat a) (unat (fst (f32_to_f16 a s))) (snd (f32_to_f16 a s))"
  for a :: float32
proof (cases "fp_finite 23 8 (unat a)")
  case True
  define sig where "sig = drop_bit 9 (fracF32UI (to_u64 a)) OR of_bool (fracF32UI (to_u64 a) AND 0x1FF \<noteq> 0)"
  note sg = f32_to_f16_jam[of a, folded sig_def]
  have z: "word_of_int (int (fp_exp 23 8 (unat a))) OR sig = 0 \<longleftrightarrow> fp_zero 23 8 (unat a)"
    by (rule mag_bits_jam[OF sg]) simp
  have r: "f32_to_f16 a s =
      (if fp_zero 23 8 (unat a) then (to_u16 (packToF16UI (fp_sign 23 8 (unat a)) 0 0), s)
       else softfloat_roundPackToF16 (fp_sign 23 8 (unat a)) (int (fp_exp 23 8 (unat a)) - 113) (sig OR 0x4000) s)"
    using True fp_not_finite[of 23 8 "unat a"]
    unfolding f32_to_f16_def Let_def F32_fields sig_def[symmetric] z by simp
  have "fp_rounds_to 10 5 s (fp_sign 23 8 (unat a)) (fp_magn 23 8 (unat a))
      (unat (fst (f32_to_f16 a s))) (snd (f32_to_f16 a s))"
  proof (cases "fp_zero 23 8 (unat a)")
    case True
    then show ?thesis
      using fp_rounds_to_0[of 5 10 s "fp_sign 23 8 (unat a)"] fp_magn_eq_0[of 23 8 "unat a"]
      by (simp add: r pack_zeroF16 fp_zero_def)
  next
    case False
    show ?thesis
    proof (rule f16.narrow_rounds[OF _ _ _ _ True False sg, of "0x4000" 113])
      show "int (fp_exp 23 8 (unat a)) - 113 \<in> {- (2 ^ 31)..<2 ^ 31}"
        using fp_exp_less[of 23 8 "unat a"] by simp
      show "softfloat_roundPackToF16 (fp_sign 23 8 (unat a)) (int (fp_exp 23 8 (unat a)) - 113) (sig OR 0x4000) s =
          (fst (f32_to_f16 a s), snd (f32_to_f16 a s))"
        using False by (simp add: r)
    qed (simp_all add: fp_bias_def)
  qed
  then show ?thesis
    using True by (simp add: conv_spec_def fp_nan_def fp_infinite_def fp_finite_def)
next
  case False
  then show ?thesis
    using f32UIToCommonNaN_snan[of a s]
    by (auto simp: conv_spec_def f32_to_f16_def F32_fields fp_class_fields word_eq_0_unat
        softfloat_commonNaNToF16UI_def fp_qnan_values pack_infF16)
qed

lemma f64_to_f16_jam:
  "int (unat (softfloat_shortShiftRightJam64 (fracF64UI a) 38)) = jam (of_nat (fp_frac 52 (unat a)) / 2 ^ 38)"
  for a :: float64
    using shortShiftRightJam64_correct[of 38 "fracF64UI a"] by (simp add: F64_fields)

lemma f64_to_f16_conv:
  "conv_spec 52 11 10 5 s (unat a) (unat (fst (f64_to_f16 a s))) (snd (f64_to_f16 a s))"
  for a :: float64
proof (cases "fp_finite 52 11 (unat a)")
  case True
  define sig where "sig = softfloat_shortShiftRightJam64 (fracF64UI a) 38"
  note sg = f64_to_f16_jam[of a, folded sig_def]
  have z: "word_of_int (int (fp_exp 52 11 (unat a))) OR sig = 0 \<longleftrightarrow> fp_zero 52 11 (unat a)"
    by (rule mag_bits_jam[OF sg]) simp
  have r: "f64_to_f16 a s =
      (if fp_zero 52 11 (unat a) then (to_u16 (packToF16UI (fp_sign 52 11 (unat a)) 0 0), s)
       else softfloat_roundPackToF16 (fp_sign 52 11 (unat a)) (int (fp_exp 52 11 (unat a)) - 1009) (sig OR 0x4000) s)"
    using True fp_not_finite[of 52 11 "unat a"]
    unfolding f64_to_f16_def Let_def F64_fields sig_def[symmetric] z by simp
  have "fp_rounds_to 10 5 s (fp_sign 52 11 (unat a)) (fp_magn 52 11 (unat a))
      (unat (fst (f64_to_f16 a s))) (snd (f64_to_f16 a s))"
  proof (cases "fp_zero 52 11 (unat a)")
    case True
    then show ?thesis
      using fp_rounds_to_0[of 5 10 s "fp_sign 52 11 (unat a)"] fp_magn_eq_0[of 52 11 "unat a"]
      by (simp add: r pack_zeroF16 fp_zero_def)
  next
    case False
    show ?thesis
    proof (rule f16.narrow_rounds[OF _ _ _ _ True False sg, of "0x4000" 1009])
      show "int (fp_exp 52 11 (unat a)) - 1009 \<in> {- (2 ^ 31)..<2 ^ 31}"
        using fp_exp_less[of 52 11 "unat a"] by simp
      show "softfloat_roundPackToF16 (fp_sign 52 11 (unat a)) (int (fp_exp 52 11 (unat a)) - 1009) (sig OR 0x4000) s =
          (fst (f64_to_f16 a s), snd (f64_to_f16 a s))"
        using False by (simp add: r)
    qed (simp_all add: fp_bias_def)
  qed
  then show ?thesis
    using True by (simp add: conv_spec_def fp_nan_def fp_infinite_def fp_finite_def)
next
  case False
  then show ?thesis
    using f64UIToCommonNaN_snan[of a s]
    by (auto simp: conv_spec_def f64_to_f16_def F64_fields fp_class_fields word_eq_0_unat
        softfloat_commonNaNToF16UI_def fp_qnan_values pack_infF16)
qed

lemma f64_to_f32_jam:
  "int (unat (softfloat_shortShiftRightJam64 (fracF64UI a) 22)) = jam (of_nat (fp_frac 52 (unat a)) / 2 ^ 22)"
  for a :: float64
    using shortShiftRightJam64_correct[of 22 "fracF64UI a"] by (simp add: F64_fields)

lemma f64_to_f32_conv:
  "conv_spec 52 11 23 8 s (unat a) (unat (fst (f64_to_f32 a s))) (snd (f64_to_f32 a s))"
  for a :: float64
proof (cases "fp_finite 52 11 (unat a)")
  case True
  define sig where "sig = softfloat_shortShiftRightJam64 (fracF64UI a) 22"
  note sg = f64_to_f32_jam[of a, folded sig_def]
  have z: "word_of_int (int (fp_exp 52 11 (unat a))) OR sig = 0 \<longleftrightarrow> fp_zero 52 11 (unat a)"
    by (rule mag_bits_jam[OF sg]) simp
  have r: "f64_to_f32 a s =
      (if fp_zero 52 11 (unat a) then (to_u32 (packToF32UI (fp_sign 52 11 (unat a)) 0 0), s)
       else softfloat_roundPackToF32 (fp_sign 52 11 (unat a)) (int (fp_exp 52 11 (unat a)) - 897) (sig OR 0x40000000) s)"
    using True fp_not_finite[of 52 11 "unat a"]
    unfolding f64_to_f32_def Let_def F64_fields sig_def[symmetric] z by simp
  have "fp_rounds_to 23 8 s (fp_sign 52 11 (unat a)) (fp_magn 52 11 (unat a))
      (unat (fst (f64_to_f32 a s))) (snd (f64_to_f32 a s))"
  proof (cases "fp_zero 52 11 (unat a)")
    case True
    then show ?thesis
      using fp_rounds_to_0[of 8 23 s "fp_sign 52 11 (unat a)"] fp_magn_eq_0[of 52 11 "unat a"]
      by (simp add: r pack_zeroF32 fp_zero_def)
  next
    case False
    show ?thesis
    proof (rule f32.narrow_rounds[OF _ _ _ _ True False sg, of "0x40000000" 897])
      show "int (fp_exp 52 11 (unat a)) - 897 \<in> {- (2 ^ 31)..<2 ^ 31}"
        using fp_exp_less[of 52 11 "unat a"] by simp
      show "softfloat_roundPackToF32 (fp_sign 52 11 (unat a)) (int (fp_exp 52 11 (unat a)) - 897) (sig OR 0x40000000) s =
          (fst (f64_to_f32 a s), snd (f64_to_f32 a s))"
        using False by (simp add: r)
    qed (simp_all add: fp_bias_def)
  qed
  then show ?thesis
    using True by (simp add: conv_spec_def fp_nan_def fp_infinite_def fp_finite_def)
next
  case False
  then show ?thesis
    using f64UIToCommonNaN_snan[of a s]
    by (auto simp: conv_spec_def f64_to_f32_def F64_fields fp_class_fields word_eq_0_unat
        softfloat_commonNaNToF32UI_def fp_qnan_values pack_infF32)
qed

section \<open>Round trips\<close>

lemma narrow_widened:
  assumes "widened p w p' w' b r" and "b < 2 ^ (p + w + 1)" and "2 \<le> w"
    and "fp_finite p w b" and "conv_spec p' w' p w t r q t'"
  shows "q = b" and "t' = t"
proof -
  have "fp_rounds_to p w t (fp_sign p w b) (fp_magn p w b) q t'"
    using assms(1,5) by (simp add: widened_def conv_spec_def fp_finite_def fp_nan_def fp_infinite_def)
  moreover have "fp_rounds_to p w t (fp_sign p w b) (fp_magn p w b) b t"
    using assms(2-4) by (intro widened_rounds) (simp_all add: widened_def)
  ultimately show "q = b" "t' = t"
    by (rule fp_rounds_to_unique)+
qed

lemma exact_if_no_flags:
  assumes "fp_rounds_to p w s neg x r s" and "softfloat_exceptionFlags s = 0"
  shows "fp_sign p w r = neg" and "fp_finite p w r" and "fp_magn p w r = x"
proof -
  define m where "m = round_mode (softfloat_roundingMode s)"
  have r: "fp_is_round p w m neg x (r mod 2 ^ (p + w))" "r div 2 ^ (p + w) = of_bool neg"
    using assms(1) by (simp_all add: fp_rounds_to_def Let_def m_def)
  have "s = softfloat_raiseFlags (fp_flags p w (tiny_before s) m neg x) s"
    using assms(1) by (simp add: fp_rounds_to_def Let_def m_def)
  then have "softfloat_exceptionFlags s = softfloat_exceptionFlags s OR fp_flags p w (tiny_before s) m neg x"
    by (metis softfloat_raiseFlags_def softfloat_state.select_convs(3) softfloat_state.surjective softfloat_state.update_convs(3))
  then have "fp_flags p w (tiny_before s) m neg x = 0"
    using assms(2) by simp
  then have "\<not> fp_overflows p w m neg x" "\<not> fp_inexact p w m neg x"
    by (simp_all add: fp_flags_def split: if_splits)
  then show "fp_finite p w r" "fp_magn p w r = x"
    using r(1) by (simp_all add: fp_inexact_def fp_overflows_def fp_is_round_def fp_finite_def fp_magn_def fp_abs_def not_le)
  show "fp_sign p w r = neg"
    using r(2) by (simp add: fp_sign_def)
qed

lemma int_round_trip:
  assumes "\<And>s. fp_rounds_to p w s (i < 0) (of_int \<bar>i\<bar>) r s" and "lo \<le> i" and "i \<le> hi"
  shows "to_int_spec p w lo hi m ex s r = (i, s)"
proof -
  note e = exact_if_no_flags[OF assms(1)[of softfloat_initial_state]]
  have "fp_magn p w r = of_int \<bar>i\<bar>" "fp_sign p w r = (i < 0)" "fp_finite p w r"
    by (rule e; simp add: softfloat_initial_state_def)+
  then show ?thesis
    using assms(2,3) int_conv_of_int[of lo hi m ex s "i < 0" "\<bar>i\<bar>"]
    by (simp add: to_int_spec_def fp_finite_def fp_nan_def fp_infinite_def int_result_def raise_if_def)
qed

section \<open>The theorems\<close>

text \<open>
  C19: every conversion between the half, single and double formats, in both directions, returns
  for every operand and state the correctly rounded number with exactly the flags IEEE 754 asks
  for, keeps the sign of zeros and infinities, and turns a NaN into the canonical one, raising
  invalid exactly for a signaling NaN.
\<close>

theorem conversions_correct:
  "conv_spec 10 5 23 8 s (unat h) (unat (fst (f16_to_f32 h s))) (snd (f16_to_f32 h s))
   \<and> conv_spec 10 5 52 11 s (unat h) (unat (fst (f16_to_f64 h s))) (snd (f16_to_f64 h s))
   \<and> conv_spec 23 8 52 11 s (unat f) (unat (fst (f32_to_f64 f s))) (snd (f32_to_f64 f s))
   \<and> conv_spec 23 8 10 5 s (unat f) (unat (fst (f32_to_f16 f s))) (snd (f32_to_f16 f s))
   \<and> conv_spec 52 11 10 5 s (unat d) (unat (fst (f64_to_f16 d s))) (snd (f64_to_f16 d s))
   \<and> conv_spec 52 11 23 8 s (unat d) (unat (fst (f64_to_f32 d s))) (snd (f64_to_f32 d s))"
  by (intro conjI f16_to_f32_conv f16_to_f64_conv f32_to_f64_conv f32_to_f16_conv f64_to_f16_conv f64_to_f32_conv)

lemma f16_f32_round_trip:
  "f32_to_f16 (fst (f16_to_f32 a s)) t = (if fp_nan 10 5 (unat a) then (0x7E00, t) else (a, t))"
proof -
  consider "fp_finite 10 5 (unat a)" | "fp_infinite 10 5 (unat a)" | "fp_nan 10 5 (unat a)"
    unfolding fp_finite_def fp_infinite_def fp_nan_def by linarith
  then show ?thesis
  proof cases
    case 1
    then have "\<not> fp_nan 10 5 (unat a)"
      by (simp add: fp_finite_def fp_nan_def)
    then show ?thesis
      using narrow_widened[OF f16_to_f32_widened(1)[OF 1, of s] _ _ 1 f32_to_f16_conv[of t "fst (f16_to_f32 a s)"]]
        unat_lt[of a] by (simp add: prod_eq_iff word_unat_eq_iff)
  next
    case 2
    define neg where "neg = fp_sign 10 5 (unat a)"
    have r: "fst (f16_to_f32 a s) = to_u32 (packToF32UI neg 0xFF 0)"
      using 2 by (simp add: neg_def f16_to_f32_def F16_fields fp_class_fields word_eq_0_unat)
    have "unat a = fp_signed 10 5 neg (fp_inf 10 5)"
      using 2 unat_lt[of a] unfolding neg_def by (intro unat_infinite) simp_all
    then have "of_nat (unat a) = (of_nat (fp_signed 10 5 neg (fp_inf 10 5)) :: float16)"
      by (rule arg_cong)
    then have "a = of_nat (fp_signed 10 5 neg (fp_inf 10 5))"
      by (simp only: of_nat_unat ucast_id)
    then show ?thesis
      using 2 unfolding r
      by (cases neg)
        (simp_all add: f32_to_f16_def packToF32UI_def packToF16UI_def expF32UI_def signF32UI_def fracF32UI_def fp_signed_def fp_inf_def fp_class_fields)
  next
    case 3
    then have r: "fst (f16_to_f32 a s) = 0x7FC00000"
      by (simp add: f16_to_f32_def F16_fields fp_class_fields word_eq_0_unat softfloat_commonNaNToF32UI_def)
    have "f32_to_f16 0x7FC00000 t = (0x7E00, t)"
      by (simp add: f32_to_f16_def expF32UI_def fracF32UI_def softfloat_commonNaNToF16UI_def softfloat_f32UIToCommonNaN_def)
    then show ?thesis
      using 3 r by simp
  qed
qed

lemma f16_f64_round_trip:
  "f64_to_f16 (fst (f16_to_f64 a s)) t = (if fp_nan 10 5 (unat a) then (0x7E00, t) else (a, t))"
proof -
  consider "fp_finite 10 5 (unat a)" | "fp_infinite 10 5 (unat a)" | "fp_nan 10 5 (unat a)"
    unfolding fp_finite_def fp_infinite_def fp_nan_def by linarith
  then show ?thesis
  proof cases
    case 1
    then have "\<not> fp_nan 10 5 (unat a)"
      by (simp add: fp_finite_def fp_nan_def)
    then show ?thesis
      using narrow_widened[OF f16_to_f64_widened(1)[OF 1, of s] _ _ 1 f64_to_f16_conv[of t "fst (f16_to_f64 a s)"]]
        unat_lt[of a] by (simp add: prod_eq_iff word_unat_eq_iff)
  next
    case 2
    define neg where "neg = fp_sign 10 5 (unat a)"
    have r: "fst (f16_to_f64 a s) = (packToF64UI neg 0x7FF 0)"
      using 2 by (simp add: neg_def f16_to_f64_def F16_fields fp_class_fields word_eq_0_unat)
    have "unat a = fp_signed 10 5 neg (fp_inf 10 5)"
      using 2 unat_lt[of a] unfolding neg_def by (intro unat_infinite) simp_all
    then have "of_nat (unat a) = (of_nat (fp_signed 10 5 neg (fp_inf 10 5)) :: float16)"
      by (rule arg_cong)
    then have "a = of_nat (fp_signed 10 5 neg (fp_inf 10 5))"
      by (simp only: of_nat_unat ucast_id)
    then show ?thesis
      using 2 unfolding r
      by (cases neg)
        (simp_all add: f64_to_f16_def packToF64UI_def packToF16UI_def expF64UI_def signF64UI_def fracF64UI_def fp_signed_def fp_inf_def fp_class_fields)
  next
    case 3
    then have r: "fst (f16_to_f64 a s) = 0x7FF8000000000000"
      by (simp add: f16_to_f64_def F16_fields fp_class_fields word_eq_0_unat softfloat_commonNaNToF64UI_def)
    have "f64_to_f16 0x7FF8000000000000 t = (0x7E00, t)"
      by (simp add: f64_to_f16_def expF64UI_def fracF64UI_def softfloat_commonNaNToF16UI_def softfloat_f64UIToCommonNaN_def)
    then show ?thesis
      using 3 r by simp
  qed
qed

lemma f32_f64_round_trip:
  "f64_to_f32 (fst (f32_to_f64 a s)) t = (if fp_nan 23 8 (unat a) then (0x7FC00000, t) else (a, t))"
proof -
  consider "fp_finite 23 8 (unat a)" | "fp_infinite 23 8 (unat a)" | "fp_nan 23 8 (unat a)"
    unfolding fp_finite_def fp_infinite_def fp_nan_def by linarith
  then show ?thesis
  proof cases
    case 1
    then have "\<not> fp_nan 23 8 (unat a)"
      by (simp add: fp_finite_def fp_nan_def)
    then show ?thesis
      using narrow_widened[OF f32_to_f64_widened(1)[OF 1, of s] _ _ 1 f64_to_f32_conv[of t "fst (f32_to_f64 a s)"]]
        unat_lt[of a] by (simp add: prod_eq_iff word_unat_eq_iff)
  next
    case 2
    define neg where "neg = fp_sign 23 8 (unat a)"
    have r: "fst (f32_to_f64 a s) = (packToF64UI neg 0x7FF 0)"
      using 2 by (simp add: neg_def f32_to_f64_def F32_fields fp_class_fields word_eq_0_unat)
    have "unat a = fp_signed 23 8 neg (fp_inf 23 8)"
      using 2 unat_lt[of a] unfolding neg_def by (intro unat_infinite) simp_all
    then have "of_nat (unat a) = (of_nat (fp_signed 23 8 neg (fp_inf 23 8)) :: float32)"
      by (rule arg_cong)
    then have "a = of_nat (fp_signed 23 8 neg (fp_inf 23 8))"
      by (simp only: of_nat_unat ucast_id)
    then show ?thesis
      using 2 unfolding r
      by (cases neg)
        (simp_all add: f64_to_f32_def packToF64UI_def packToF32UI_def expF64UI_def signF64UI_def fracF64UI_def fp_signed_def fp_inf_def fp_class_fields)
  next
    case 3
    then have r: "fst (f32_to_f64 a s) = 0x7FF8000000000000"
      by (simp add: f32_to_f64_def F32_fields fp_class_fields word_eq_0_unat softfloat_commonNaNToF64UI_def)
    have "f64_to_f32 0x7FF8000000000000 t = (0x7FC00000, t)"
      by (simp add: f64_to_f32_def expF64UI_def fracF64UI_def softfloat_commonNaNToF32UI_def softfloat_f64UIToCommonNaN_def)
    then show ?thesis
      using 3 r by simp
  qed
qed

text \<open>
  C33: widening a number and narrowing it again gives it back, for all three pairs of formats, in
  every rounding mode and without raising a flag on the way back; a NaN comes back as the
  canonical NaN.
\<close>

theorem widen_narrow_round_trip:
  "f32_to_f16 (fst (f16_to_f32 h s)) t = (if fp_nan 10 5 (unat h) then (0x7E00, t) else (h, t))
   \<and> f64_to_f16 (fst (f16_to_f64 h s)) t = (if fp_nan 10 5 (unat h) then (0x7E00, t) else (h, t))
   \<and> f64_to_f32 (fst (f32_to_f64 f s)) t = (if fp_nan 23 8 (unat f) then (0x7FC00000, t) else (f, t))"
  by (intro conjI f16_f32_round_trip f16_f64_round_trip f32_f64_round_trip)

text \<open>
  A 32-bit integer, signed or unsigned, survives the way to double precision and back, in
  every rounding mode, with no flag raised.
\<close>

theorem i32_f64_round_trip:
  "f64_to_i32 (i32_to_f64 a) md ex s = (sint a, s) \<and> f64_to_ui32 (ui32_to_f64 a) md ex s = (to_u64 a, s)"
proof
  show "f64_to_i32 (i32_to_f64 a) md ex s = (sint a, s)"
    unfolding f64_to_i32_conv
    using sint_greater_eq[of a] sint_less[of a]
    by (intro int_round_trip[OF i32_to_f64_rounds]) simp_all
  have "map_prod uint id (f64_to_ui32 (ui32_to_f64 a) md ex s) = (uint a, s)"
    unfolding f64_to_ui32_conv
    using uint_lt2p[of a] ui32_to_f64_rounds[of _ a]
    by (intro int_round_trip) (simp_all add: not_less uint_nat)
  then show "f64_to_ui32 (ui32_to_f64 a) md ex s = (to_u64 a, s)"
    by (cases "f64_to_ui32 (ui32_to_f64 a) md ex s") (simp add: word_uint_eq_iff uint_nat unat_ucast_widen)
qed

end
