(* ===== verification/RV_FInsns.thy ===== *)
theory RV_FInsns
  imports RV_FPR RV_Insns SF_Mul SF_Add SF_Compare SF_ToInt SF_FromInt SF_FloatConv
begin

text \<open>
  The floating-point instructions of \<open>riscv/insns\<close> for half, single and double precision, over
  the routines of Berkeley SoftFloat: arithmetic but division, square root and fused operations,
  comparison, classification, conversion, sign injection and moves. An instruction also takes and
  returns the state of SoftFloat, whose flags it collects and clears.
\<close>

definition FRS1 :: "insn_bits \<Rightarrow> processor_t \<Rightarrow> reg_t \<times> reg_t" where
  "FRS1 insn p = FPR p ! insn_rs1 insn"

definition FRS2 :: "insn_bits \<Rightarrow> processor_t \<Rightarrow> reg_t \<times> reg_t" where
  "FRS2 insn p = FPR p ! insn_rs2 insn"

text \<open>The rounding mode of the instruction or, for 7, of \<open>frm\<close>; the modes above 4 are illegal.\<close>

definition RM :: "insn_bits \<Rightarrow> processor_t \<Rightarrow> uint_fast8 option" where
  "RM insn p =
     (let rm = insn_rm insn; rm = (if rm = 7 then unat (frm p) else rm)
      in if 4 < rm then None else Some (of_nat rm))"

definition set_fp_exceptions :: "processor_t \<Rightarrow> softfloat_state \<Rightarrow> processor_t \<times> softfloat_state" where
  "set_fp_exceptions p s =
     (let flags = softfloat_exceptionFlags s
      in (if flags \<noteq> 0 then (dirty_fp_state p)\<lparr>fflags := fflags p OR ucast flags\<rparr> else p,
          s\<lparr>softfloat_exceptionFlags := 0\<rparr>))"

definition fwrite :: "insn_bits \<Rightarrow> ('a \<Rightarrow> reg_t \<times> reg_t) \<Rightarrow> 'a \<Rightarrow> processor_t \<Rightarrow> processor_t" where
  "fwrite insn conv v = write_freg (insn_rd insn) (conv v)"

definition iwrite :: "insn_bits \<Rightarrow> ('a \<Rightarrow> reg_t) \<Rightarrow> 'a \<Rightarrow> processor_t \<Rightarrow> processor_t" where
  "iwrite insn conv v = write_reg (insn_rd insn) (conv v)"

text \<open>
  The checks, the rounding mode if the instruction sets it, the operation, the destination and
  the flags.
\<close>

definition exec_fp :: "bool \<Rightarrow> bool \<Rightarrow> ('a \<Rightarrow> processor_t \<Rightarrow> processor_t) \<Rightarrow> (softfloat_state \<Rightarrow> 'a \<times> softfloat_state)
    \<Rightarrow> insn_bits \<Rightarrow> reg_t \<Rightarrow> processor_t \<Rightarrow> softfloat_state \<Rightarrow> exec \<times> softfloat_state" where
  "exec_fp ok rounds wr f insn at_pc p s =
     (if \<not> ok then (illegal insn p, s)
      else
        case (if rounds then RM insn p else Some (softfloat_roundingMode s)) of
          None \<Rightarrow> (illegal insn p, s)
        | Some rm \<Rightarrow>
            (let (v, s) = f (s\<lparr>softfloat_roundingMode := rm\<rparr>);
                 (q, s) = set_fp_exceptions (wr v p) s
             in (Done (next_pc at_pc insn p) q, s)))"

definition exec_fmove :: "bool \<Rightarrow> (processor_t \<Rightarrow> processor_t) \<Rightarrow> insn_bits \<Rightarrow> reg_t \<Rightarrow> processor_t \<Rightarrow> softfloat_state \<Rightarrow> exec \<times> softfloat_state" where
  "exec_fmove ok upd insn at_pc p s = (if ok then Done (next_pc at_pc insn p) (upd p) else illegal insn p, s)"

definition fsgnj16 :: "reg_t \<times> reg_t \<Rightarrow> reg_t \<times> reg_t \<Rightarrow> bool \<Rightarrow> bool \<Rightarrow> 16 word" where
  "fsgnj16 a b n x =
     (unbox16 a AND NOT 0x8000) OR (((if x then unbox16 a else if n then 0x8000 else 0) XOR unbox16 b) AND 0x8000)"

definition fsgnj32 :: "reg_t \<times> reg_t \<Rightarrow> reg_t \<times> reg_t \<Rightarrow> bool \<Rightarrow> bool \<Rightarrow> 32 word" where
  "fsgnj32 a b n x =
     (unbox32 a AND NOT 0x80000000) OR (((if x then unbox32 a else if n then 0x80000000 else 0) XOR unbox32 b) AND 0x80000000)"

definition fsgnj64 :: "reg_t \<times> reg_t \<Rightarrow> reg_t \<times> reg_t \<Rightarrow> bool \<Rightarrow> bool \<Rightarrow> 64 word" where
  "fsgnj64 a b n x =
     (unbox64 a AND NOT 0x8000000000000000)
     OR (((if x then unbox64 a else if n then 0x8000000000000000 else 0) XOR unbox64 b) AND 0x8000000000000000)"

text \<open>
  The choice of minimum and maximum of singles and doubles: \<open>a\<close> is the operand tested to be
  less, and one of the registers as it is becomes the result.
\<close>

definition fselect32 :: "float32 \<Rightarrow> float32 \<Rightarrow> reg_t \<times> reg_t \<Rightarrow> reg_t \<times> reg_t \<Rightarrow> softfloat_state \<Rightarrow> (reg_t \<times> reg_t) \<times> softfloat_state" where
  "fselect32 a b r1 r2 s =
     (let (lt, s) = f32_lt_quiet a b s;
          (less, s) = (if lt then (True, s) else let (eq, s) = f32_eq a b s in (eq \<and> a AND 0x80000000 \<noteq> 0, s))
      in (if isNaNF32UI (to_u64 (unbox32 r1)) \<and> isNaNF32UI (to_u64 (unbox32 r2)) then box32 (to_u32 defaultNaNF32UI)
          else if less \<or> isNaNF32UI (to_u64 (unbox32 r2)) then r1 else r2, s))"

definition fselect64 :: "float64 \<Rightarrow> float64 \<Rightarrow> reg_t \<times> reg_t \<Rightarrow> reg_t \<times> reg_t \<Rightarrow> softfloat_state \<Rightarrow> (reg_t \<times> reg_t) \<times> softfloat_state" where
  "fselect64 a b r1 r2 s =
     (let (lt, s) = f64_lt_quiet a b s;
          (less, s) = (if lt then (True, s) else let (eq, s) = f64_eq a b s in (eq \<and> a AND 0x8000000000000000 \<noteq> 0, s))
      in (if isNaNF64UI (unbox64 r1) \<and> isNaNF64UI (unbox64 r2) then box64 defaultNaNF64UI
          else if less \<or> isNaNF64UI (unbox64 r2) then r1 else r2, s))"

section \<open>Arithmetic\<close>

definition rv_fadd_d :: "insn_bits \<Rightarrow> reg_t \<Rightarrow> processor_t \<Rightarrow> softfloat_state \<Rightarrow> exec \<times> softfloat_state" where
  "rv_fadd_d insn at_pc p s =
     exec_fp (supports_extension (CHR ''D'') p \<and> fp_on p) True (fwrite insn box64)
       (f64_add (unbox64 (FRS1 insn p)) (unbox64 (FRS2 insn p))) insn at_pc p s"

definition rv_fadd_h :: "insn_bits \<Rightarrow> reg_t \<Rightarrow> processor_t \<Rightarrow> softfloat_state \<Rightarrow> exec \<times> softfloat_state" where
  "rv_fadd_h insn at_pc p s =
     exec_fp (zfh_supported p \<and> fp_on p) True (fwrite insn box16)
       (f16_add (unbox16 (FRS1 insn p)) (unbox16 (FRS2 insn p))) insn at_pc p s"

definition rv_fadd_s :: "insn_bits \<Rightarrow> reg_t \<Rightarrow> processor_t \<Rightarrow> softfloat_state \<Rightarrow> exec \<times> softfloat_state" where
  "rv_fadd_s insn at_pc p s =
     exec_fp (supports_extension (CHR ''F'') p \<and> fp_on p) True (fwrite insn box32)
       (f32_add (unbox32 (FRS1 insn p)) (unbox32 (FRS2 insn p))) insn at_pc p s"

definition rv_fmul_d :: "insn_bits \<Rightarrow> reg_t \<Rightarrow> processor_t \<Rightarrow> softfloat_state \<Rightarrow> exec \<times> softfloat_state" where
  "rv_fmul_d insn at_pc p s =
     exec_fp (supports_extension (CHR ''D'') p \<and> fp_on p) True (fwrite insn box64)
       (f64_mul (unbox64 (FRS1 insn p)) (unbox64 (FRS2 insn p))) insn at_pc p s"

definition rv_fmul_h :: "insn_bits \<Rightarrow> reg_t \<Rightarrow> processor_t \<Rightarrow> softfloat_state \<Rightarrow> exec \<times> softfloat_state" where
  "rv_fmul_h insn at_pc p s =
     exec_fp (zfh_supported p \<and> fp_on p) True (fwrite insn box16)
       (f16_mul (unbox16 (FRS1 insn p)) (unbox16 (FRS2 insn p))) insn at_pc p s"

definition rv_fmul_s :: "insn_bits \<Rightarrow> reg_t \<Rightarrow> processor_t \<Rightarrow> softfloat_state \<Rightarrow> exec \<times> softfloat_state" where
  "rv_fmul_s insn at_pc p s =
     exec_fp (supports_extension (CHR ''F'') p \<and> fp_on p) True (fwrite insn box32)
       (f32_mul (unbox32 (FRS1 insn p)) (unbox32 (FRS2 insn p))) insn at_pc p s"

definition rv_fsub_d :: "insn_bits \<Rightarrow> reg_t \<Rightarrow> processor_t \<Rightarrow> softfloat_state \<Rightarrow> exec \<times> softfloat_state" where
  "rv_fsub_d insn at_pc p s =
     exec_fp (supports_extension (CHR ''D'') p \<and> fp_on p) True (fwrite insn box64)
       (f64_sub (unbox64 (FRS1 insn p)) (unbox64 (FRS2 insn p))) insn at_pc p s"

definition rv_fsub_h :: "insn_bits \<Rightarrow> reg_t \<Rightarrow> processor_t \<Rightarrow> softfloat_state \<Rightarrow> exec \<times> softfloat_state" where
  "rv_fsub_h insn at_pc p s =
     exec_fp (zfh_supported p \<and> fp_on p) True (fwrite insn box16)
       (f16_sub (unbox16 (FRS1 insn p)) (unbox16 (FRS2 insn p))) insn at_pc p s"

definition rv_fsub_s :: "insn_bits \<Rightarrow> reg_t \<Rightarrow> processor_t \<Rightarrow> softfloat_state \<Rightarrow> exec \<times> softfloat_state" where
  "rv_fsub_s insn at_pc p s =
     exec_fp (supports_extension (CHR ''F'') p \<and> fp_on p) True (fwrite insn box32)
       (f32_sub (unbox32 (FRS1 insn p)) (unbox32 (FRS2 insn p))) insn at_pc p s"

section \<open>Minimum and maximum\<close>

definition rv_fmax_d :: "insn_bits \<Rightarrow> reg_t \<Rightarrow> processor_t \<Rightarrow> softfloat_state \<Rightarrow> exec \<times> softfloat_state" where
  "rv_fmax_d insn at_pc p s =
     exec_fp (supports_extension (CHR ''D'') p \<and> fp_on p) False (fwrite insn id)
       (fselect64 (unbox64 (FRS2 insn p)) (unbox64 (FRS1 insn p)) (FRS1 insn p) (FRS2 insn p)) insn at_pc p s"

definition rv_fmax_h :: "insn_bits \<Rightarrow> reg_t \<Rightarrow> processor_t \<Rightarrow> softfloat_state \<Rightarrow> exec \<times> softfloat_state" where
  "rv_fmax_h insn at_pc p s =
     exec_fp (zfh_supported p \<and> fp_on p) False (fwrite insn box16)
       (f16_max (unbox16 (FRS1 insn p)) (unbox16 (FRS2 insn p))) insn at_pc p s"

definition rv_fmax_s :: "insn_bits \<Rightarrow> reg_t \<Rightarrow> processor_t \<Rightarrow> softfloat_state \<Rightarrow> exec \<times> softfloat_state" where
  "rv_fmax_s insn at_pc p s =
     exec_fp (supports_extension (CHR ''F'') p \<and> fp_on p) False (fwrite insn id)
       (fselect32 (unbox32 (FRS2 insn p)) (unbox32 (FRS1 insn p)) (FRS1 insn p) (FRS2 insn p)) insn at_pc p s"

definition rv_fmin_d :: "insn_bits \<Rightarrow> reg_t \<Rightarrow> processor_t \<Rightarrow> softfloat_state \<Rightarrow> exec \<times> softfloat_state" where
  "rv_fmin_d insn at_pc p s =
     exec_fp (supports_extension (CHR ''D'') p \<and> fp_on p) False (fwrite insn id)
       (fselect64 (unbox64 (FRS1 insn p)) (unbox64 (FRS2 insn p)) (FRS1 insn p) (FRS2 insn p)) insn at_pc p s"

definition rv_fmin_h :: "insn_bits \<Rightarrow> reg_t \<Rightarrow> processor_t \<Rightarrow> softfloat_state \<Rightarrow> exec \<times> softfloat_state" where
  "rv_fmin_h insn at_pc p s =
     exec_fp (zfh_supported p \<and> fp_on p) False (fwrite insn box16)
       (f16_min (unbox16 (FRS1 insn p)) (unbox16 (FRS2 insn p))) insn at_pc p s"

definition rv_fmin_s :: "insn_bits \<Rightarrow> reg_t \<Rightarrow> processor_t \<Rightarrow> softfloat_state \<Rightarrow> exec \<times> softfloat_state" where
  "rv_fmin_s insn at_pc p s =
     exec_fp (supports_extension (CHR ''F'') p \<and> fp_on p) False (fwrite insn id)
       (fselect32 (unbox32 (FRS1 insn p)) (unbox32 (FRS2 insn p)) (FRS1 insn p) (FRS2 insn p)) insn at_pc p s"

section \<open>Comparison and classification\<close>

definition rv_fclass_d :: "insn_bits \<Rightarrow> reg_t \<Rightarrow> processor_t \<Rightarrow> softfloat_state \<Rightarrow> exec \<times> softfloat_state" where
  "rv_fclass_d insn at_pc p s =
     exec_fmove (supports_extension (CHR ''D'') p \<and> fp_on p) (iwrite insn ucast (f64_classify (unbox64 (FRS1 insn p)))) insn at_pc p s"

definition rv_fclass_h :: "insn_bits \<Rightarrow> reg_t \<Rightarrow> processor_t \<Rightarrow> softfloat_state \<Rightarrow> exec \<times> softfloat_state" where
  "rv_fclass_h insn at_pc p s =
     exec_fmove (zfh_supported p \<and> fp_on p) (iwrite insn ucast (f16_classify (unbox16 (FRS1 insn p)))) insn at_pc p s"

definition rv_fclass_s :: "insn_bits \<Rightarrow> reg_t \<Rightarrow> processor_t \<Rightarrow> softfloat_state \<Rightarrow> exec \<times> softfloat_state" where
  "rv_fclass_s insn at_pc p s =
     exec_fmove (supports_extension (CHR ''F'') p \<and> fp_on p) (iwrite insn ucast (f32_classify (unbox32 (FRS1 insn p)))) insn at_pc p s"

definition rv_feq_d :: "insn_bits \<Rightarrow> reg_t \<Rightarrow> processor_t \<Rightarrow> softfloat_state \<Rightarrow> exec \<times> softfloat_state" where
  "rv_feq_d insn at_pc p s =
     exec_fp (supports_extension (CHR ''D'') p \<and> fp_on p) False (iwrite insn of_bool)
       (f64_eq (unbox64 (FRS1 insn p)) (unbox64 (FRS2 insn p))) insn at_pc p s"

definition rv_feq_h :: "insn_bits \<Rightarrow> reg_t \<Rightarrow> processor_t \<Rightarrow> softfloat_state \<Rightarrow> exec \<times> softfloat_state" where
  "rv_feq_h insn at_pc p s =
     exec_fp (zfh_supported p \<and> fp_on p) False (iwrite insn of_bool)
       (f16_eq (unbox16 (FRS1 insn p)) (unbox16 (FRS2 insn p))) insn at_pc p s"

definition rv_feq_s :: "insn_bits \<Rightarrow> reg_t \<Rightarrow> processor_t \<Rightarrow> softfloat_state \<Rightarrow> exec \<times> softfloat_state" where
  "rv_feq_s insn at_pc p s =
     exec_fp (supports_extension (CHR ''F'') p \<and> fp_on p) False (iwrite insn of_bool)
       (f32_eq (unbox32 (FRS1 insn p)) (unbox32 (FRS2 insn p))) insn at_pc p s"

definition rv_fle_d :: "insn_bits \<Rightarrow> reg_t \<Rightarrow> processor_t \<Rightarrow> softfloat_state \<Rightarrow> exec \<times> softfloat_state" where
  "rv_fle_d insn at_pc p s =
     exec_fp (supports_extension (CHR ''D'') p \<and> fp_on p) False (iwrite insn of_bool)
       (f64_le (unbox64 (FRS1 insn p)) (unbox64 (FRS2 insn p))) insn at_pc p s"

definition rv_fle_h :: "insn_bits \<Rightarrow> reg_t \<Rightarrow> processor_t \<Rightarrow> softfloat_state \<Rightarrow> exec \<times> softfloat_state" where
  "rv_fle_h insn at_pc p s =
     exec_fp (zfh_supported p \<and> fp_on p) False (iwrite insn of_bool)
       (f16_le (unbox16 (FRS1 insn p)) (unbox16 (FRS2 insn p))) insn at_pc p s"

definition rv_fle_s :: "insn_bits \<Rightarrow> reg_t \<Rightarrow> processor_t \<Rightarrow> softfloat_state \<Rightarrow> exec \<times> softfloat_state" where
  "rv_fle_s insn at_pc p s =
     exec_fp (supports_extension (CHR ''F'') p \<and> fp_on p) False (iwrite insn of_bool)
       (f32_le (unbox32 (FRS1 insn p)) (unbox32 (FRS2 insn p))) insn at_pc p s"

definition rv_flt_d :: "insn_bits \<Rightarrow> reg_t \<Rightarrow> processor_t \<Rightarrow> softfloat_state \<Rightarrow> exec \<times> softfloat_state" where
  "rv_flt_d insn at_pc p s =
     exec_fp (supports_extension (CHR ''D'') p \<and> fp_on p) False (iwrite insn of_bool)
       (f64_lt (unbox64 (FRS1 insn p)) (unbox64 (FRS2 insn p))) insn at_pc p s"

definition rv_flt_h :: "insn_bits \<Rightarrow> reg_t \<Rightarrow> processor_t \<Rightarrow> softfloat_state \<Rightarrow> exec \<times> softfloat_state" where
  "rv_flt_h insn at_pc p s =
     exec_fp (zfh_supported p \<and> fp_on p) False (iwrite insn of_bool)
       (f16_lt (unbox16 (FRS1 insn p)) (unbox16 (FRS2 insn p))) insn at_pc p s"

definition rv_flt_s :: "insn_bits \<Rightarrow> reg_t \<Rightarrow> processor_t \<Rightarrow> softfloat_state \<Rightarrow> exec \<times> softfloat_state" where
  "rv_flt_s insn at_pc p s =
     exec_fp (supports_extension (CHR ''F'') p \<and> fp_on p) False (iwrite insn of_bool)
       (f32_lt (unbox32 (FRS1 insn p)) (unbox32 (FRS2 insn p))) insn at_pc p s"

section \<open>Conversion\<close>

definition rv_fcvt_d_h :: "insn_bits \<Rightarrow> reg_t \<Rightarrow> processor_t \<Rightarrow> softfloat_state \<Rightarrow> exec \<times> softfloat_state" where
  "rv_fcvt_d_h insn at_pc p s =
     exec_fp (zfh_supported p \<and> supports_extension (CHR ''D'') p \<and> fp_on p) True (fwrite insn box64)
       (f16_to_f64 (unbox16 (FRS1 insn p))) insn at_pc p s"

definition rv_fcvt_d_l :: "insn_bits \<Rightarrow> reg_t \<Rightarrow> processor_t \<Rightarrow> softfloat_state \<Rightarrow> exec \<times> softfloat_state" where
  "rv_fcvt_d_l insn at_pc p s =
     exec_fp (supports_extension (CHR ''D'') p \<and> xlen p = 64 \<and> fp_on p) True (fwrite insn box64)
       (i64_to_f64 (RS1 insn p)) insn at_pc p s"

definition rv_fcvt_d_lu :: "insn_bits \<Rightarrow> reg_t \<Rightarrow> processor_t \<Rightarrow> softfloat_state \<Rightarrow> exec \<times> softfloat_state" where
  "rv_fcvt_d_lu insn at_pc p s =
     exec_fp (supports_extension (CHR ''D'') p \<and> xlen p = 64 \<and> fp_on p) True (fwrite insn box64)
       (ui64_to_f64 (RS1 insn p)) insn at_pc p s"

definition rv_fcvt_d_s :: "insn_bits \<Rightarrow> reg_t \<Rightarrow> processor_t \<Rightarrow> softfloat_state \<Rightarrow> exec \<times> softfloat_state" where
  "rv_fcvt_d_s insn at_pc p s =
     exec_fp (supports_extension (CHR ''D'') p \<and> fp_on p) True (fwrite insn box64)
       (f32_to_f64 (unbox32 (FRS1 insn p))) insn at_pc p s"

definition rv_fcvt_d_w :: "insn_bits \<Rightarrow> reg_t \<Rightarrow> processor_t \<Rightarrow> softfloat_state \<Rightarrow> exec \<times> softfloat_state" where
  "rv_fcvt_d_w insn at_pc p s =
     exec_fp (supports_extension (CHR ''D'') p \<and> fp_on p) True (fwrite insn box64)
       (\<lambda>s. (i32_to_f64 (ucast (RS1 insn p)), s)) insn at_pc p s"

definition rv_fcvt_d_wu :: "insn_bits \<Rightarrow> reg_t \<Rightarrow> processor_t \<Rightarrow> softfloat_state \<Rightarrow> exec \<times> softfloat_state" where
  "rv_fcvt_d_wu insn at_pc p s =
     exec_fp (supports_extension (CHR ''D'') p \<and> fp_on p) True (fwrite insn box64)
       (\<lambda>s. (ui32_to_f64 (ucast (RS1 insn p)), s)) insn at_pc p s"

definition rv_fcvt_h_d :: "insn_bits \<Rightarrow> reg_t \<Rightarrow> processor_t \<Rightarrow> softfloat_state \<Rightarrow> exec \<times> softfloat_state" where
  "rv_fcvt_h_d insn at_pc p s =
     exec_fp (zfh_supported p \<and> supports_extension (CHR ''D'') p \<and> fp_on p) True (fwrite insn box16)
       (f64_to_f16 (unbox64 (FRS1 insn p))) insn at_pc p s"

definition rv_fcvt_h_l :: "insn_bits \<Rightarrow> reg_t \<Rightarrow> processor_t \<Rightarrow> softfloat_state \<Rightarrow> exec \<times> softfloat_state" where
  "rv_fcvt_h_l insn at_pc p s =
     exec_fp (zfh_supported p \<and> xlen p = 64 \<and> fp_on p) True (fwrite insn box16)
       (i64_to_f16 (RS1 insn p)) insn at_pc p s"

definition rv_fcvt_h_lu :: "insn_bits \<Rightarrow> reg_t \<Rightarrow> processor_t \<Rightarrow> softfloat_state \<Rightarrow> exec \<times> softfloat_state" where
  "rv_fcvt_h_lu insn at_pc p s =
     exec_fp (zfh_supported p \<and> xlen p = 64 \<and> fp_on p) True (fwrite insn box16)
       (ui64_to_f16 (RS1 insn p)) insn at_pc p s"

definition rv_fcvt_h_s :: "insn_bits \<Rightarrow> reg_t \<Rightarrow> processor_t \<Rightarrow> softfloat_state \<Rightarrow> exec \<times> softfloat_state" where
  "rv_fcvt_h_s insn at_pc p s =
     exec_fp (zfh_supported p \<and> fp_on p) True (fwrite insn box16)
       (f32_to_f16 (unbox32 (FRS1 insn p))) insn at_pc p s"

definition rv_fcvt_h_w :: "insn_bits \<Rightarrow> reg_t \<Rightarrow> processor_t \<Rightarrow> softfloat_state \<Rightarrow> exec \<times> softfloat_state" where
  "rv_fcvt_h_w insn at_pc p s =
     exec_fp (zfh_supported p \<and> fp_on p) True (fwrite insn box16)
       (i32_to_f16 (ucast (RS1 insn p))) insn at_pc p s"

definition rv_fcvt_h_wu :: "insn_bits \<Rightarrow> reg_t \<Rightarrow> processor_t \<Rightarrow> softfloat_state \<Rightarrow> exec \<times> softfloat_state" where
  "rv_fcvt_h_wu insn at_pc p s =
     exec_fp (zfh_supported p \<and> fp_on p) True (fwrite insn box16)
       (ui32_to_f16 (ucast (RS1 insn p))) insn at_pc p s"

definition rv_fcvt_l_d :: "insn_bits \<Rightarrow> reg_t \<Rightarrow> processor_t \<Rightarrow> softfloat_state \<Rightarrow> exec \<times> softfloat_state" where
  "rv_fcvt_l_d insn at_pc p s =
     exec_fp (supports_extension (CHR ''D'') p \<and> xlen p = 64 \<and> fp_on p) True (iwrite insn word_of_int)
       (\<lambda>s. f64_to_i64 (unbox64 (FRS1 insn p)) (softfloat_roundingMode s) True s) insn at_pc p s"

definition rv_fcvt_l_h :: "insn_bits \<Rightarrow> reg_t \<Rightarrow> processor_t \<Rightarrow> softfloat_state \<Rightarrow> exec \<times> softfloat_state" where
  "rv_fcvt_l_h insn at_pc p s =
     exec_fp (zfh_supported p \<and> xlen p = 64 \<and> fp_on p) True (iwrite insn word_of_int)
       (\<lambda>s. f16_to_i64 (unbox16 (FRS1 insn p)) (softfloat_roundingMode s) True s) insn at_pc p s"

definition rv_fcvt_l_s :: "insn_bits \<Rightarrow> reg_t \<Rightarrow> processor_t \<Rightarrow> softfloat_state \<Rightarrow> exec \<times> softfloat_state" where
  "rv_fcvt_l_s insn at_pc p s =
     exec_fp (supports_extension (CHR ''F'') p \<and> xlen p = 64 \<and> fp_on p) True (iwrite insn word_of_int)
       (\<lambda>s. f32_to_i64 (unbox32 (FRS1 insn p)) (softfloat_roundingMode s) True s) insn at_pc p s"

definition rv_fcvt_lu_d :: "insn_bits \<Rightarrow> reg_t \<Rightarrow> processor_t \<Rightarrow> softfloat_state \<Rightarrow> exec \<times> softfloat_state" where
  "rv_fcvt_lu_d insn at_pc p s =
     exec_fp (supports_extension (CHR ''D'') p \<and> xlen p = 64 \<and> fp_on p) True (iwrite insn id)
       (\<lambda>s. f64_to_ui64 (unbox64 (FRS1 insn p)) (softfloat_roundingMode s) True s) insn at_pc p s"

definition rv_fcvt_lu_h :: "insn_bits \<Rightarrow> reg_t \<Rightarrow> processor_t \<Rightarrow> softfloat_state \<Rightarrow> exec \<times> softfloat_state" where
  "rv_fcvt_lu_h insn at_pc p s =
     exec_fp (zfh_supported p \<and> xlen p = 64 \<and> fp_on p) True (iwrite insn id)
       (\<lambda>s. f16_to_ui64 (unbox16 (FRS1 insn p)) (softfloat_roundingMode s) True s) insn at_pc p s"

definition rv_fcvt_lu_s :: "insn_bits \<Rightarrow> reg_t \<Rightarrow> processor_t \<Rightarrow> softfloat_state \<Rightarrow> exec \<times> softfloat_state" where
  "rv_fcvt_lu_s insn at_pc p s =
     exec_fp (supports_extension (CHR ''F'') p \<and> xlen p = 64 \<and> fp_on p) True (iwrite insn id)
       (\<lambda>s. f32_to_ui64 (unbox32 (FRS1 insn p)) (softfloat_roundingMode s) True s) insn at_pc p s"

definition rv_fcvt_s_d :: "insn_bits \<Rightarrow> reg_t \<Rightarrow> processor_t \<Rightarrow> softfloat_state \<Rightarrow> exec \<times> softfloat_state" where
  "rv_fcvt_s_d insn at_pc p s =
     exec_fp (supports_extension (CHR ''D'') p \<and> fp_on p) True (fwrite insn box32)
       (f64_to_f32 (unbox64 (FRS1 insn p))) insn at_pc p s"

definition rv_fcvt_s_h :: "insn_bits \<Rightarrow> reg_t \<Rightarrow> processor_t \<Rightarrow> softfloat_state \<Rightarrow> exec \<times> softfloat_state" where
  "rv_fcvt_s_h insn at_pc p s =
     exec_fp (zfh_supported p \<and> fp_on p) True (fwrite insn box32)
       (f16_to_f32 (unbox16 (FRS1 insn p))) insn at_pc p s"

definition rv_fcvt_s_l :: "insn_bits \<Rightarrow> reg_t \<Rightarrow> processor_t \<Rightarrow> softfloat_state \<Rightarrow> exec \<times> softfloat_state" where
  "rv_fcvt_s_l insn at_pc p s =
     exec_fp (supports_extension (CHR ''F'') p \<and> xlen p = 64 \<and> fp_on p) True (fwrite insn box32)
       (i64_to_f32 (RS1 insn p)) insn at_pc p s"

definition rv_fcvt_s_lu :: "insn_bits \<Rightarrow> reg_t \<Rightarrow> processor_t \<Rightarrow> softfloat_state \<Rightarrow> exec \<times> softfloat_state" where
  "rv_fcvt_s_lu insn at_pc p s =
     exec_fp (supports_extension (CHR ''F'') p \<and> xlen p = 64 \<and> fp_on p) True (fwrite insn box32)
       (ui64_to_f32 (RS1 insn p)) insn at_pc p s"

definition rv_fcvt_s_w :: "insn_bits \<Rightarrow> reg_t \<Rightarrow> processor_t \<Rightarrow> softfloat_state \<Rightarrow> exec \<times> softfloat_state" where
  "rv_fcvt_s_w insn at_pc p s =
     exec_fp (supports_extension (CHR ''F'') p \<and> fp_on p) True (fwrite insn box32)
       (i32_to_f32 (ucast (RS1 insn p))) insn at_pc p s"

definition rv_fcvt_s_wu :: "insn_bits \<Rightarrow> reg_t \<Rightarrow> processor_t \<Rightarrow> softfloat_state \<Rightarrow> exec \<times> softfloat_state" where
  "rv_fcvt_s_wu insn at_pc p s =
     exec_fp (supports_extension (CHR ''F'') p \<and> fp_on p) True (fwrite insn box32)
       (ui32_to_f32 (ucast (RS1 insn p))) insn at_pc p s"

definition rv_fcvt_w_d :: "insn_bits \<Rightarrow> reg_t \<Rightarrow> processor_t \<Rightarrow> softfloat_state \<Rightarrow> exec \<times> softfloat_state" where
  "rv_fcvt_w_d insn at_pc p s =
     exec_fp (supports_extension (CHR ''D'') p \<and> fp_on p) True (iwrite insn (\<lambda>v. sext32 (word_of_int v)))
       (\<lambda>s. f64_to_i32 (unbox64 (FRS1 insn p)) (softfloat_roundingMode s) True s) insn at_pc p s"

definition rv_fcvt_w_h :: "insn_bits \<Rightarrow> reg_t \<Rightarrow> processor_t \<Rightarrow> softfloat_state \<Rightarrow> exec \<times> softfloat_state" where
  "rv_fcvt_w_h insn at_pc p s =
     exec_fp (zfh_supported p \<and> fp_on p) True (iwrite insn (\<lambda>v. sext32 (word_of_int v)))
       (\<lambda>s. f16_to_i32 (unbox16 (FRS1 insn p)) (softfloat_roundingMode s) True s) insn at_pc p s"

definition rv_fcvt_w_s :: "insn_bits \<Rightarrow> reg_t \<Rightarrow> processor_t \<Rightarrow> softfloat_state \<Rightarrow> exec \<times> softfloat_state" where
  "rv_fcvt_w_s insn at_pc p s =
     exec_fp (supports_extension (CHR ''F'') p \<and> fp_on p) True (iwrite insn (\<lambda>v. sext32 (word_of_int v)))
       (\<lambda>s. f32_to_i32 (unbox32 (FRS1 insn p)) (softfloat_roundingMode s) True s) insn at_pc p s"

definition rv_fcvt_wu_d :: "insn_bits \<Rightarrow> reg_t \<Rightarrow> processor_t \<Rightarrow> softfloat_state \<Rightarrow> exec \<times> softfloat_state" where
  "rv_fcvt_wu_d insn at_pc p s =
     exec_fp (supports_extension (CHR ''D'') p \<and> fp_on p) True (iwrite insn sext32)
       (\<lambda>s. f64_to_ui32 (unbox64 (FRS1 insn p)) (softfloat_roundingMode s) True s) insn at_pc p s"

definition rv_fcvt_wu_h :: "insn_bits \<Rightarrow> reg_t \<Rightarrow> processor_t \<Rightarrow> softfloat_state \<Rightarrow> exec \<times> softfloat_state" where
  "rv_fcvt_wu_h insn at_pc p s =
     exec_fp (zfh_supported p \<and> fp_on p) True (iwrite insn sext32)
       (\<lambda>s. f16_to_ui32 (unbox16 (FRS1 insn p)) (softfloat_roundingMode s) True s) insn at_pc p s"

definition rv_fcvt_wu_s :: "insn_bits \<Rightarrow> reg_t \<Rightarrow> processor_t \<Rightarrow> softfloat_state \<Rightarrow> exec \<times> softfloat_state" where
  "rv_fcvt_wu_s insn at_pc p s =
     exec_fp (supports_extension (CHR ''F'') p \<and> fp_on p) True (iwrite insn sext32)
       (\<lambda>s. f32_to_ui32 (unbox32 (FRS1 insn p)) (softfloat_roundingMode s) True s) insn at_pc p s"

section \<open>Signs and moves\<close>

definition rv_fmv_d_x :: "insn_bits \<Rightarrow> reg_t \<Rightarrow> processor_t \<Rightarrow> softfloat_state \<Rightarrow> exec \<times> softfloat_state" where
  "rv_fmv_d_x insn at_pc p s =
     exec_fmove (supports_extension (CHR ''D'') p \<and> xlen p = 64 \<and> fp_on p) (fwrite insn box64 (ucast (RS1 insn p))) insn at_pc p s"

definition rv_fmv_h_x :: "insn_bits \<Rightarrow> reg_t \<Rightarrow> processor_t \<Rightarrow> softfloat_state \<Rightarrow> exec \<times> softfloat_state" where
  "rv_fmv_h_x insn at_pc p s =
     exec_fmove (zfh_supported p \<and> fp_on p) (fwrite insn box16 (ucast (RS1 insn p))) insn at_pc p s"

definition rv_fmv_w_x :: "insn_bits \<Rightarrow> reg_t \<Rightarrow> processor_t \<Rightarrow> softfloat_state \<Rightarrow> exec \<times> softfloat_state" where
  "rv_fmv_w_x insn at_pc p s =
     exec_fmove (supports_extension (CHR ''F'') p \<and> fp_on p) (fwrite insn box32 (ucast (RS1 insn p))) insn at_pc p s"

definition rv_fmv_x_d :: "insn_bits \<Rightarrow> reg_t \<Rightarrow> processor_t \<Rightarrow> softfloat_state \<Rightarrow> exec \<times> softfloat_state" where
  "rv_fmv_x_d insn at_pc p s =
     exec_fmove (supports_extension (CHR ''D'') p \<and> xlen p = 64 \<and> fp_on p) (iwrite insn id (fst (FRS1 insn p))) insn at_pc p s"

definition rv_fmv_x_h :: "insn_bits \<Rightarrow> reg_t \<Rightarrow> processor_t \<Rightarrow> softfloat_state \<Rightarrow> exec \<times> softfloat_state" where
  "rv_fmv_x_h insn at_pc p s =
     exec_fmove (zfh_supported p \<and> fp_on p) (iwrite insn (\<lambda>v. scast (ucast v :: 16 word)) (fst (FRS1 insn p))) insn at_pc p s"

definition rv_fmv_x_w :: "insn_bits \<Rightarrow> reg_t \<Rightarrow> processor_t \<Rightarrow> softfloat_state \<Rightarrow> exec \<times> softfloat_state" where
  "rv_fmv_x_w insn at_pc p s =
     exec_fmove (supports_extension (CHR ''F'') p \<and> fp_on p) (iwrite insn sext32 (fst (FRS1 insn p))) insn at_pc p s"

definition rv_fsgnj_d :: "insn_bits \<Rightarrow> reg_t \<Rightarrow> processor_t \<Rightarrow> softfloat_state \<Rightarrow> exec \<times> softfloat_state" where
  "rv_fsgnj_d insn at_pc p s =
     exec_fmove (supports_extension (CHR ''D'') p \<and> fp_on p) (fwrite insn box64 (fsgnj64 (FRS1 insn p) (FRS2 insn p) False False)) insn at_pc p s"

definition rv_fsgnj_h :: "insn_bits \<Rightarrow> reg_t \<Rightarrow> processor_t \<Rightarrow> softfloat_state \<Rightarrow> exec \<times> softfloat_state" where
  "rv_fsgnj_h insn at_pc p s =
     exec_fmove (zfh_supported p \<and> fp_on p) (fwrite insn box16 (fsgnj16 (FRS1 insn p) (FRS2 insn p) False False)) insn at_pc p s"

definition rv_fsgnj_s :: "insn_bits \<Rightarrow> reg_t \<Rightarrow> processor_t \<Rightarrow> softfloat_state \<Rightarrow> exec \<times> softfloat_state" where
  "rv_fsgnj_s insn at_pc p s =
     exec_fmove (supports_extension (CHR ''F'') p \<and> fp_on p) (fwrite insn box32 (fsgnj32 (FRS1 insn p) (FRS2 insn p) False False)) insn at_pc p s"

definition rv_fsgnjn_d :: "insn_bits \<Rightarrow> reg_t \<Rightarrow> processor_t \<Rightarrow> softfloat_state \<Rightarrow> exec \<times> softfloat_state" where
  "rv_fsgnjn_d insn at_pc p s =
     exec_fmove (supports_extension (CHR ''D'') p \<and> fp_on p) (fwrite insn box64 (fsgnj64 (FRS1 insn p) (FRS2 insn p) True False)) insn at_pc p s"

definition rv_fsgnjn_h :: "insn_bits \<Rightarrow> reg_t \<Rightarrow> processor_t \<Rightarrow> softfloat_state \<Rightarrow> exec \<times> softfloat_state" where
  "rv_fsgnjn_h insn at_pc p s =
     exec_fmove (zfh_supported p \<and> fp_on p) (fwrite insn box16 (fsgnj16 (FRS1 insn p) (FRS2 insn p) True False)) insn at_pc p s"

definition rv_fsgnjn_s :: "insn_bits \<Rightarrow> reg_t \<Rightarrow> processor_t \<Rightarrow> softfloat_state \<Rightarrow> exec \<times> softfloat_state" where
  "rv_fsgnjn_s insn at_pc p s =
     exec_fmove (supports_extension (CHR ''F'') p \<and> fp_on p) (fwrite insn box32 (fsgnj32 (FRS1 insn p) (FRS2 insn p) True False)) insn at_pc p s"

definition rv_fsgnjx_d :: "insn_bits \<Rightarrow> reg_t \<Rightarrow> processor_t \<Rightarrow> softfloat_state \<Rightarrow> exec \<times> softfloat_state" where
  "rv_fsgnjx_d insn at_pc p s =
     exec_fmove (supports_extension (CHR ''D'') p \<and> fp_on p) (fwrite insn box64 (fsgnj64 (FRS1 insn p) (FRS2 insn p) False True)) insn at_pc p s"

definition rv_fsgnjx_h :: "insn_bits \<Rightarrow> reg_t \<Rightarrow> processor_t \<Rightarrow> softfloat_state \<Rightarrow> exec \<times> softfloat_state" where
  "rv_fsgnjx_h insn at_pc p s =
     exec_fmove (zfh_supported p \<and> fp_on p) (fwrite insn box16 (fsgnj16 (FRS1 insn p) (FRS2 insn p) False True)) insn at_pc p s"

definition rv_fsgnjx_s :: "insn_bits \<Rightarrow> reg_t \<Rightarrow> processor_t \<Rightarrow> softfloat_state \<Rightarrow> exec \<times> softfloat_state" where
  "rv_fsgnjx_s insn at_pc p s =
     exec_fmove (supports_extension (CHR ''F'') p \<and> fp_on p) (fwrite insn box32 (fsgnj32 (FRS1 insn p) (FRS2 insn p) False True)) insn at_pc p s"

end
