(* ===== verification/SF_Add64.thy ===== *)
theory SF_Add64
  imports SF_Add
begin

text \<open>
  Correctness of the double-precision sum and difference. The argument is that of single
  precision; the significands fill the 64-bit words, so the shifts and sums stay just below
  their width.
\<close>

lemma far_sigF64:
  fixes sb i :: uint64
  assumes "unat sb = fp_frac 52 B" and "d \<noteq> 0" and "d < 2 ^ 32" and that: "unat i = 2 ^ (52 + j)" "j \<le> 10"
  shows "int (unat (softfloat_shiftRightJam64
      (push_bit j sb + (if fp_exp 52 11 B \<noteq> 0 then i else push_bit j sb)) (word_of_int (int d)))) =
    jam (real (far_sig 52 11 B * 2 ^ j) / 2 ^ d)"
proof -
  have j: "(2::nat) ^ j \<le> 2 ^ 10"
    using that(2) by (intro power_increasing) simp_all
  have fj: "fp_frac 52 B * 2 ^ j < 2 ^ 52 * 2 ^ 10"
    using fp_frac_less[of 52 B] j by (intro mult_less_le_imp_less) simp_all
  then have u: "unat (push_bit j sb) = fp_frac 52 B * 2 ^ j"
    by (subst unat_push_bit_mult) (simp_all add: assms(1))
  have "unat (push_bit j sb + (if fp_exp 52 11 B \<noteq> 0 then i else push_bit j sb)) = far_sig 52 11 B * 2 ^ j"
  proof (cases "fp_exp 52 11 B = 0")
    case True
    then show ?thesis
      using fj u unat_add_no_wrap[of "push_bit j sb" "push_bit j sb"] by (simp add: far_sig_def)
  next
    case False
    have "unat i = 2 ^ 52 * 2 ^ j"
      by (simp only: that(1) power_add)
    then have "unat (push_bit j sb + i) = fp_frac 52 B * 2 ^ j + 2 ^ 52 * 2 ^ j"
      using fj u j by (subst unat_add_no_wrap) simp_all
    then show ?thesis
      using False by (simp add: far_sig_def distrib_right)
  qed
  moreover have "unat (word_of_int (int d) :: uint64) = d"
    using assms(3) by (subst unat_word_of_int) simp_all
  ultimately show ?thesis
    using assms(2) by (subst shiftRightJam64_correct) (simp_all add: word_eq_0_unat)
qed

text \<open>The sum routine doubles a subnormal significand by a shift, which is the same.\<close>

lemma double_sigF64:
  "(if c then push_bit j x + i else push_bit 1 (push_bit j x)) = push_bit j x + (if c then i else push_bit j x)"
  for x i :: uint64
  by (simp add: push_bit_eq_mult ac_simps)

lemma far_sumF64:
  fixes sa sb :: uint64
  assumes sa: "unat sa = fp_frac 52 A" and sb: "unat sb = fp_frac 52 B"
    and ab: "fp_exp 52 11 B < fp_exp 52 11 A" and d: "d = fp_exp 52 11 A - fp_exp 52 11 B"
  shows "unat (0x2000000000000000 + push_bit 9 sa + softfloat_shiftRightJam64
      (push_bit 9 sb + (if fp_exp 52 11 B \<noteq> 0 then 0x2000000000000000 else push_bit 9 sb)) (word_of_int (int d))) =
    nat (jam (real (arg_sig 52 11 A * 2 ^ (10 - 1)) + real (far_sig 52 11 B * 2 ^ (10 - 1)) / 2 ^ d))"
proof -
  define t where "t = softfloat_shiftRightJam64
      (push_bit 9 sb + (if fp_exp 52 11 B \<noteq> 0 then 0x2000000000000000 else push_bit 9 sb)) (word_of_int (int d))"
  have dd: "d \<noteq> 0" "d < 2 ^ 32"
    using ab d fp_exp_less[of 52 11 A] by simp_all
  have t: "int (unat t) = jam (real (far_sig 52 11 B * 2 ^ 9) / 2 ^ d)"
    unfolding t_def by (rule far_sigF64[OF sb dd]) simp_all
  have tb: "unat t < 2 ^ 63"
  proof -
    have "far_sig 52 11 B < 2 ^ 53"
      using arg_sig_bounds(2)[of 52 11 B] by simp
    moreover have "int (unat t) \<le> int (far_sig 52 11 B * 2 ^ 9)"
      unfolding t by (rule jam_quot_le)
    ultimately show ?thesis
      by simp
  qed
  have f: "fp_frac 52 A < 2 ^ 52"
    by (rule fp_frac_less)
  have "unat (0x2000000000000000 + push_bit 9 sa :: uint64) = arg_sig 52 11 A * 2 ^ 9"
    using f ab by (subst unat_add_no_wrap; subst unat_push_bit_mult) (simp_all add: sa arg_sig_def)
  moreover have "arg_sig 52 11 A < 2 ^ (52 + 1)"
    by (rule arg_sig_bounds)
  ultimately have "unat (0x2000000000000000 + push_bit 9 sa + t) = arg_sig 52 11 A * 2 ^ 9 + unat t"
    using tb by (subst unat_add_no_wrap) simp_all
  moreover have "jam (real (arg_sig 52 11 A * 2 ^ 9) + real (far_sig 52 11 B * 2 ^ 9) / 2 ^ d) = int (arg_sig 52 11 A * 2 ^ 9) + int (unat t)"
    using jam_even_add[of "int (arg_sig 52 11 A * 2 ^ 9)" "real (far_sig 52 11 B * 2 ^ 9) / 2 ^ d"] by (simp add: t)
  ultimately show ?thesis
    by (simp add: t_def)
qed

lemma far_addF64:
  fixes fx fy :: uint64
  assumes f: "unat fx = fp_frac 52 X" "unat fy = fp_frac 52 Y" and xy: "fp_exp 52 11 Y < fp_exp 52 11 X"
    and fin: "fp_finite 52 11 X" and d: "d = fp_exp 52 11 X - fp_exp 52 11 Y"
    and sZ: "sZ = 0x2000000000000000 + push_bit 9 fx + softfloat_shiftRightJam64
      (push_bit 9 fy + (if fp_exp 52 11 Y \<noteq> 0 then 0x2000000000000000 else push_bit 9 fy)) (word_of_int (int d))"
    and call: "softfloat_roundPackToF64 sign (if sZ < 0x4000000000000000 then int (fp_exp 52 11 X) - 1 else int (fp_exp 52 11 X))
        (if sZ < 0x4000000000000000 then push_bit 1 sZ else sZ) s = (r, s')"
  shows "fp_rounds_to 52 11 s sign (fp_magn 52 11 X + fp_magn 52 11 Y) (unat r) s'"
proof -
  define y where "y = real (arg_sig 52 11 X * 2 ^ (10 - 1)) + real (far_sig 52 11 Y * 2 ^ (10 - 1)) / 2 ^ d"
  note fs = far_sumF64[OF f xy d, folded y_def sZ]
  note far = f64.add_far_rounds[OF xy fin d _ _ _ y_def]
  have "fp_exp 52 11 X < 2 ^ 11"
    by (rule fp_exp_less)
  then have "fp_rounds_to 52 11 s sign (y * 2 powi (fp_emin 52 11 + int (fp_exp 52 11 X) - int 10)) (unat r) s'"
    by (intro f64.rounds_jam_norm[OF _ _ _ _ _ fs _ _ _ call]) (use far in simp_all)
  then show ?thesis
    using far by simp
qed

lemma addMagsF64_rounds:
  fixes a b :: float64
  assumes fin: "fp_finite 52 11 (unat a)" "fp_finite 52 11 (unat b)"
    and r: "softfloat_addMagsF64 a b (signF64UI a) s = (r, s')"
  shows "fp_rounds_to 52 11 s (fp_sign 52 11 (unat a)) (fp_magn 52 11 (unat a) + fp_magn 52 11 (unat b)) (unat r) s'"
proof -
  define A B where "A = unat a" and "B = unat b"
  define fA fB where "fA = fracF64UI a" and "fB = fracF64UI b"
  have f: "unat fA = fp_frac 52 A" "unat fB = fp_frac 52 B" "fp_frac 52 A < 2 ^ 52" "fp_frac 52 B < 2 ^ 52"
    by (simp_all only: fA_def fB_def A_def B_def F64_fields fp_frac_less)
  have e: "expF64UI a = int (fp_exp 52 11 A)" "expF64UI b = int (fp_exp 52 11 B)"
      "signF64UI a = fp_sign 52 11 A"
    by (simp_all only: A_def B_def F64_fields)
  have eb: "fp_exp 52 11 A < 2047" "fp_exp 52 11 B < 2047"
    using fin fp_exp_less[of 52 11 A] fp_exp_less[of 52 11 B] by (simp_all add: fp_class_fields A_def B_def)
  note r' = r[unfolded softfloat_addMagsF64_def Let_def fA_def[symmetric] fB_def[symmetric] e]
  consider "fp_exp 52 11 A = 0" "fp_exp 52 11 B = 0" | "fp_exp 52 11 A = fp_exp 52 11 B" "fp_exp 52 11 A \<noteq> 0"
    | "fp_exp 52 11 A < fp_exp 52 11 B" | "fp_exp 52 11 B < fp_exp 52 11 A"
    by linarith
  then have "fp_rounds_to 52 11 s (fp_sign 52 11 A) (fp_magn 52 11 A + fp_magn 52 11 B) (unat r) s'"
  proof cases
    case 1
    then have "r = a + fB" and s: "s' = s"
      using r' by simp_all
    moreover have A: "A = of_bool (fp_sign 52 11 A) * 2 ^ (52 + 11) + fp_frac 52 A"
      using fp_decomp[of A 52 11] unat_lt[of a] 1 by (simp add: A_def)
    then have "unat (a + fB) = A + fp_frac 52 B"
      using f by (subst unat_add_no_wrap) (cases "fp_sign 52 11 A"; simp add: unat_ucast_widen A_def)+
    ultimately have u: "unat r = of_bool (fp_sign 52 11 A) * 2 ^ (52 + 11) + (0 * 2 ^ 52 + (fp_frac 52 A + fp_frac 52 B))"
      using A f by (cases "fp_sign 52 11 A") (simp_all add: unat_ucast_mod)
    show ?thesis
      unfolding u s by (rule fp_pack_exact) (use 1 f in \<open>simp_all add: fp_magn_fields algebra_simps\<close>)
  next
    case 2
    define n where "n = arg_sig 52 11 A + arg_sig 52 11 B"
    have "unat (0x0020000000000000 + fA + fB) = n"
      using 2 f by (subst unat_add_no_wrap; (subst unat_add_no_wrap)?; simp add: n_def arg_sig_def)
    then have u: "unat (push_bit 9 (0x0020000000000000 + fA + fB)) = n * 2 ^ (10 - 1)"
      using add_near_sum(3)[OF 2 n_def] by (subst unat_push_bit_mult) simp_all
    have c: "softfloat_roundPackToF64 (fp_sign 52 11 A) (int (fp_exp 52 11 A)) (push_bit 9 (0x0020000000000000 + fA + fB)) s = (r, s')"
      using r' 2 eb by simp
    from f64.add_near_rounds[OF 2 n_def _ _ u _ c] eb show ?thesis
      by simp
  next
    case 3
    define d where "d = fp_exp 52 11 B - fp_exp 52 11 A"
    have d': "int (fp_exp 52 11 A) - int (fp_exp 52 11 B) = - int d"
      using 3 by (simp add: d_def)
    define sZ where "sZ = 0x2000000000000000 + push_bit 9 fB + softfloat_shiftRightJam64
      (push_bit 9 fA + (if fp_exp 52 11 A \<noteq> 0 then 0x2000000000000000 else push_bit 9 fA)) (word_of_int (int d))"
    have sZ: "0x2000000000000000 + softfloat_shiftRightJam64
      (push_bit 9 fA + (if fp_exp 52 11 A \<noteq> 0 then 0x2000000000000000 else push_bit 9 fA)) (word_of_int (int d)) + push_bit 9 fB = sZ"
      by (simp only: sZ_def add.assoc add.commute add.left_commute)
    have "softfloat_roundPackToF64 (fp_sign 52 11 A)
        (if sZ < 0x4000000000000000 then int (fp_exp 52 11 B) - 1 else int (fp_exp 52 11 B))
        (if sZ < 0x4000000000000000 then push_bit 1 sZ else sZ) s = (r, s')"
      using r'[unfolded d' of_nat_eq_0_iff minus_minus double_sigF64 sZ] 3 eb
      by (cases "sZ < 0x4000000000000000") (simp_all add: d_def)
    from far_addF64[OF f(2,1) 3 fin(2)[folded B_def] d_def sZ_def this] show ?thesis
      by (simp add: add.commute)
  next
    case 4
    define d where "d = fp_exp 52 11 A - fp_exp 52 11 B"
    have d': "int (fp_exp 52 11 A) - int (fp_exp 52 11 B) = int d"
      using 4 by (simp add: d_def)
    define sZ where "sZ = 0x2000000000000000 + push_bit 9 fA + softfloat_shiftRightJam64
      (push_bit 9 fB + (if fp_exp 52 11 B \<noteq> 0 then 0x2000000000000000 else push_bit 9 fB)) (word_of_int (int d))"
    have "softfloat_roundPackToF64 (fp_sign 52 11 A)
        (if sZ < 0x4000000000000000 then int (fp_exp 52 11 A) - 1 else int (fp_exp 52 11 A))
        (if sZ < 0x4000000000000000 then push_bit 1 sZ else sZ) s = (r, s')"
      using r'[unfolded d' of_nat_eq_0_iff double_sigF64 sZ_def[symmetric]] 4 eb
      by (cases "sZ < 0x4000000000000000") (simp_all add: d_def)
    from far_addF64[OF f(1,2) 4 fin(1)[folded A_def] d_def sZ_def this] show ?thesis .
  qed
  then show ?thesis
    by (simp only: A_def B_def)
qed

lemma far_diffF64:
  fixes fx fy :: uint64
  assumes f: "unat fx = fp_frac 52 X" "unat fy = fp_frac 52 Y" and xy: "fp_exp 52 11 Y < fp_exp 52 11 X"
    and d: "d = fp_exp 52 11 X - fp_exp 52 11 Y"
    and call: "softfloat_normRoundPackToF64 sign (int (fp_exp 52 11 X) - 1)
      ((push_bit 10 fx OR 0x4000000000000000) - softfloat_shiftRightJam64
        (push_bit 10 fy + (if fp_exp 52 11 Y \<noteq> 0 then 0x4000000000000000 else push_bit 10 fy)) (word_of_int (int d))) s = (r, s')"
  shows "0 < fp_magn 52 11 X - fp_magn 52 11 Y"
    and "fp_rounds_to 52 11 s sign (fp_magn 52 11 X - fp_magn 52 11 Y) (unat r) s'"
proof -
  define t where "t = softfloat_shiftRightJam64
      (push_bit 10 fy + (if fp_exp 52 11 Y \<noteq> 0 then 0x4000000000000000 else push_bit 10 fy)) (word_of_int (int d))"
  define y where "y = real (arg_sig 52 11 X * 2 ^ 10) - real (far_sig 52 11 Y * 2 ^ 10) / 2 ^ d"
  have eX: "fp_exp 52 11 X < 2 ^ 11"
    by (rule fp_exp_less)
  have dd: "d \<noteq> 0" "d < 2 ^ 32"
    using xy d eX by simp_all
  have t: "int (unat t) = jam (real (far_sig 52 11 Y * 2 ^ 10) / 2 ^ d)"
    unfolding t_def by (rule far_sigF64[OF f(2) dd]) simp_all
  have fX: "fp_frac 52 X < 2 ^ 52"
    by (rule fp_frac_less)
  have "unat (push_bit 10 fx) = fp_frac 52 X * 2 ^ 10"
    using fX f(1) by (subst unat_push_bit_mult) simp_all
  then have x: "unat (push_bit 10 fx OR 0x4000000000000000) = arg_sig 52 11 X * 2 ^ 10"
    using fX xy unat_or_pow2[of "push_bit 10 fx" 62 "0x4000000000000000"] by (simp add: arg_sig_def)
  have j: "jam y = int (arg_sig 52 11 X * 2 ^ 10) - int (unat t)"
    using jam_even_minus[of "int (arg_sig 52 11 X * 2 ^ 10)" "real (far_sig 52 11 Y * 2 ^ 10) / 2 ^ d"]
    by (simp add: t y_def)
  note df = sub_far_diff[OF xy d refl refl y_def]
  show "0 < fp_magn 52 11 X - fp_magn 52 11 Y"
    using df(1,6) by simp
  have "unat ((push_bit 10 fx OR 0x4000000000000000) - t) = nat (jam y)"
    using jam_pos[OF df(1)] unfolding j by (subst unat_sub_le) (simp_all add: x)
  then show "fp_rounds_to 52 11 s sign (fp_magn 52 11 X - fp_magn 52 11 Y) (unat r) s'"
    by (intro f64.sub_far_rounds[OF xy d _ _ y_def _ call[folded t_def]]) (use eX in simp_all)
qed

lemma subMagsF64_near:
  fixes a b :: float64
  assumes e: "fp_exp 52 11 (unat a) = fp_exp 52 11 (unat b)" "fp_exp 52 11 (unat a) \<noteq> 2047"
    and r: "softfloat_subMagsF64 a b (signF64UI a) s = (r, s')"
    and D: "D = fp_magn 52 11 (unat a) - fp_magn 52 11 (unat b)"
  shows "fp_rounds_to 52 11 s
    (if D = 0 then round_mode (softfloat_roundingMode s) = RDN
     else if 0 < D then fp_sign 52 11 (unat a) else \<not> fp_sign 52 11 (unat a)) \<bar>D\<bar> (unat r) s'"
proof -
  define A B where "A = unat a" and "B = unat b"
  have fld: "expF64UI a = int (fp_exp 52 11 A)" "expF64UI b = int (fp_exp 52 11 A)"
      "signF64UI a = fp_sign 52 11 A"
      "unat (fracF64UI a) = fp_frac 52 A" "unat (fracF64UI b) = fp_frac 52 B"
    using e by (simp_all only: A_def B_def F64_fields)
  have fb: "fp_frac 52 A < 2 ^ 52" "fp_frac 52 B < 2 ^ 52" "fp_exp 52 11 A < 2 ^ 11"
    by (simp_all only: fp_frac_less fp_exp_less)
  define e0 where "e0 = fp_exp 52 11 A - 1"
  have e0: "(if int (fp_exp 52 11 A) \<noteq> 0 then int (fp_exp 52 11 A) - 1 else int (fp_exp 52 11 A)) = int e0"
      "e0 + 2 < 2 ^ 11"
    using fb(3) e(2) by (auto simp: e0_def of_nat_diff A_def)
  define n where "n = int (fp_frac 52 A) - int (fp_frac 52 B)"
  have D': "D = of_int n * 2 powi (fp_emin 52 11 + int e0)"
    using sub_near_diff[of 52 11 A B] e(1) by (simp add: D A_def B_def n_def e0_def)
  note r' = r[unfolded softfloat_subMagsF64_def Let_def fld e0(1), folded n_def]
  have ne: "\<not> int (fp_exp 52 11 A) = 2047"
    using e(2) by (simp add: A_def)
  show ?thesis
  proof (cases "n = 0")
    case True
    then have "r = (packToF64UI (softfloat_roundingMode s = softfloat_round_min) 0 0)" "s' = s"
      using r' ne by auto
    moreover have "round_mode (softfloat_roundingMode s) = RDN \<longleftrightarrow> softfloat_roundingMode s = softfloat_round_min"
      by (auto simp: round_mode_def)
    ultimately show ?thesis
      using True D' fp_rounds_to_0[of 11 52 s "softfloat_roundingMode s = softfloat_round_min"]
      by (simp only: pack_zeroF64) simp
  next
    case False
    define m where "m = nat \<bar>n\<bar>"
    define sg where "sg \<longleftrightarrow> (if n < 0 then \<not> fp_sign 52 11 A else fp_sign 52 11 A)"
    have m: "0 < m" "m < 2 ^ 52"
      using False fb by (simp_all add: m_def n_def)
    have um: "unat (word_of_int (int m) :: uint64) = m"
      using m by (simp only: word_of_int_nat) simp
    define c where "c = unat (softfloat_countLeadingZeros64 (word_of_int (int m)))"
    have lz0: "leading_zeros 64 m c"
      using countLeadingZeros64_correct[of "word_of_int (int m)"] by (simp only: c_def um)
    have lz: "11 < c" "c \<le> 63" "2 ^ 52 \<le> m * 2 ^ (c - 11)" "m * 2 ^ (c - 11) < 2 ^ (52 + 1)"
      using leading_zeros_sub[OF lz0 m, of 11] by simp_all
    obtain sh' ez where z: "(sh', ez) = (if int e0 - int (c - 11) < 0 then (int e0, 0) else (int (c - 11), int e0 - int (c - 11)))"
      by (metis surj_pair)
    note ex = sub_near_exact[OF m lz(3,4) e0(2) _ z]
    have sd: "(if n < 0 then (\<not> fp_sign 52 11 A, - n) else (fp_sign 52 11 A, n)) = (sg, int m)"
      by (simp add: sg_def m_def)
    have "r = (packToF64UI sg ez (shl (word_of_int (int m)) sh'))" and s: "s' = s"
      using r' ne False z lz(1) unfolding sd prod.case c_def[symmetric] by (auto simp: of_nat_diff split: if_splits)
    moreover have "unat (shl (word_of_int (int m)) sh' :: uint64) = m * 2 ^ nat sh'"
    proof (intro unat_push_bit_mult[of "word_of_int (int m) :: uint64", unfolded um])
      have "m * 2 ^ nat sh' \<le> m * 2 ^ (c - 11)"
        using z by (intro mult_le_mono2 power_increasing) (auto split: if_splits)
      also note lz(4)
      finally show "m * 2 ^ nat sh' < 2 ^ LENGTH(64)"
        by simp
    qed
    ultimately have u: "unat r = of_bool sg * 2 ^ (52 + 11) + (nat ez * 2 ^ 52 + m * 2 ^ nat sh')"
      using ex(2) lz z by (simp add: unat_packToF64UI split: if_splits)
    have x: "\<bar>D\<bar> = real m * 2 powi (fp_emin 52 11 + int e0)" "D \<noteq> 0" "0 < D \<longleftrightarrow> \<not> n < 0"
    proof -
      have p: "\<not> (2::real) powi (fp_emin 52 11 + int e0) < 0"
        by (simp add: not_less)
      show "\<bar>D\<bar> = real m * 2 powi (fp_emin 52 11 + int e0)" "D \<noteq> 0"
        using False unfolding D' by (simp_all add: abs_mult m_def)
      show "0 < D \<longleftrightarrow> \<not> n < 0"
        using False p unfolding D' zero_less_mult_iff by auto
    qed
    show ?thesis
      using ex(1) lz x by (simp add: u s sg_def A_def)
  qed
qed

lemma subMagsF64_rounds:
  fixes a b :: float64
  assumes fin: "fp_finite 52 11 (unat a)" "fp_finite 52 11 (unat b)"
    and r: "softfloat_subMagsF64 a b (signF64UI a) s = (r, s')"
    and D: "D = fp_magn 52 11 (unat a) - fp_magn 52 11 (unat b)"
  shows "fp_rounds_to 52 11 s
    (if D = 0 then round_mode (softfloat_roundingMode s) = RDN
     else if 0 < D then fp_sign 52 11 (unat a) else \<not> fp_sign 52 11 (unat a)) \<bar>D\<bar> (unat r) s'"
proof -
  define A B where "A = unat a" and "B = unat b"
  define fA fB where "fA = fracF64UI a" and "fB = fracF64UI b"
  have f: "unat fA = fp_frac 52 A" "unat fB = fp_frac 52 B"
    by (simp_all only: fA_def fB_def A_def B_def F64_fields)
  have e: "expF64UI a = int (fp_exp 52 11 A)" "expF64UI b = int (fp_exp 52 11 B)"
      "signF64UI a = fp_sign 52 11 A"
    by (simp_all only: A_def B_def F64_fields)
  have eb: "fp_exp 52 11 A < 2047" "fp_exp 52 11 B < 2047"
    using fin fp_exp_less[of 52 11 A] fp_exp_less[of 52 11 B] by (simp_all add: fp_class_fields A_def B_def)
  note r' = r[unfolded softfloat_subMagsF64_def Let_def fA_def[symmetric] fB_def[symmetric] e]
  consider "fp_exp 52 11 A = fp_exp 52 11 B" | "fp_exp 52 11 A < fp_exp 52 11 B" | "fp_exp 52 11 B < fp_exp 52 11 A"
    by linarith
  then show ?thesis
  proof cases
    case 1
    show ?thesis
      by (rule subMagsF64_near[OF _ _ r D]) (use 1 eb in \<open>simp_all add: A_def B_def\<close>)
  next
    case 2
    define d where "d = fp_exp 52 11 B - fp_exp 52 11 A"
    have d': "int (fp_exp 52 11 A) - int (fp_exp 52 11 B) = - int d"
      using 2 by (simp add: d_def)
    have "softfloat_normRoundPackToF64 (\<not> fp_sign 52 11 A) (int (fp_exp 52 11 B) - 1)
      ((push_bit 10 fB OR 0x4000000000000000) - softfloat_shiftRightJam64
        (push_bit 10 fA + (if fp_exp 52 11 A \<noteq> 0 then 0x4000000000000000 else push_bit 10 fA)) (word_of_int (int d))) s = (r, s')"
      using r'[unfolded d' of_nat_eq_0_iff minus_minus] 2 eb by (simp add: d_def)
    from far_diffF64[OF f(2,1) 2 d_def this] show ?thesis
      by (simp add: D A_def B_def)
  next
    case 3
    define d where "d = fp_exp 52 11 A - fp_exp 52 11 B"
    have d': "int (fp_exp 52 11 A) - int (fp_exp 52 11 B) = int d"
      using 3 by (simp add: d_def)
    have "softfloat_normRoundPackToF64 (fp_sign 52 11 A) (int (fp_exp 52 11 A) - 1)
      ((push_bit 10 fA OR 0x4000000000000000) - softfloat_shiftRightJam64
        (push_bit 10 fB + (if fp_exp 52 11 B \<noteq> 0 then 0x4000000000000000 else push_bit 10 fB)) (word_of_int (int d))) s = (r, s')"
      using r'[unfolded d' of_nat_eq_0_iff] 3 eb by (simp add: d_def)
    from far_diffF64[OF f 3 d_def this] show ?thesis
      by (simp add: D A_def B_def)
  qed
qed

lemma shifted_fracF64:
  "push_bit 9 (fracF64UI a) = 0 \<longleftrightarrow> fracF64UI a = 0"
  "push_bit 10 (fracF64UI a) = 0 \<longleftrightarrow> fracF64UI a = 0" for a :: float64
  using fp_frac_less[of 52 "unat a"] by (simp_all add: push_bit_eq_0_iff' F64_fields)

lemma addMagsF64_correct:
  "add_mags_spec 52 11 s (unat a) (unat b) (unat (fst (softfloat_addMagsF64 a b (signF64UI a) s)))
    (snd (softfloat_addMagsF64 a b (signF64UI a) s))" for a b :: float64
proof (cases "fp_finite 52 11 (unat a) \<and> fp_finite 52 11 (unat b)")
  case True
  then show ?thesis
    using addMagsF64_rounds[OF _ _ prod.collapse[symmetric]] by (simp add: add_mags_spec_def fp_class_fields)
next
  case False
  then have "fp_exp 52 11 (unat a) = 2047 \<or> fp_exp 52 11 (unat b) = 2047"
    by (auto simp: fp_class_fields)
  moreover have "fp_exp 52 11 (unat a) \<le> 2047" "fp_exp 52 11 (unat b) \<le> 2047"
    using fp_exp_less[of 52 11 "unat a"] fp_exp_less[of 52 11 "unat b"] by simp_all
  moreover have "fp_exp 52 11 (unat a) = 2047 \<Longrightarrow> fp_frac 52 (unat a) = 0 \<Longrightarrow> fp_signed 52 11 (fp_sign 52 11 (unat a)) (fp_inf 52 11) = unat a"
    using unat_lt[of a] by (intro unat_infinite[symmetric]) (simp_all add: fp_class_fields)
  ultimately show ?thesis
    unfolding softfloat_addMagsF64_def Let_def or_eq_0_iff F64_fields(1,2) shifted_fracF64 word_eq_0_unat[of "fracF64UI _"] F64_fields(3)
    by (cases "fp_exp 52 11 (unat a) = 2047"; cases "fp_exp 52 11 (unat b) = 2047";
        cases "fp_frac 52 (unat a) = 0"; cases "fp_frac 52 (unat b) = 0")
      (simp_all add: add_mags_spec_def nan_result_def raise_if_def fp_class_fields
        softfloat_propagateNaNF64UI_def isSigNaNF64UI_snan fp_qnan_values pack_infF64)
qed

lemma subMagsF64_correct:
  "sub_mags_spec 52 11 s (unat a) (unat b) (unat (fst (softfloat_subMagsF64 a b (signF64UI a) s)))
    (snd (softfloat_subMagsF64 a b (signF64UI a) s))" for a b :: float64
proof (cases "fp_finite 52 11 (unat a) \<and> fp_finite 52 11 (unat b)")
  case True
  then show ?thesis
    using subMagsF64_rounds[OF _ _ prod.collapse[symmetric] refl] by (simp add: sub_mags_spec_def fp_class_fields)
next
  case False
  then have "fp_exp 52 11 (unat a) = 2047 \<or> fp_exp 52 11 (unat b) = 2047"
    by (auto simp: fp_class_fields)
  moreover have "fp_exp 52 11 (unat a) \<le> 2047" "fp_exp 52 11 (unat b) \<le> 2047"
    using fp_exp_less[of 52 11 "unat a"] fp_exp_less[of 52 11 "unat b"] by simp_all
  moreover have "fp_exp 52 11 (unat a) = 2047 \<Longrightarrow> fp_frac 52 (unat a) = 0 \<Longrightarrow> fp_signed 52 11 (fp_sign 52 11 (unat a)) (fp_inf 52 11) = unat a"
    using unat_lt[of a] by (intro unat_infinite[symmetric]) (simp_all add: fp_class_fields)
  ultimately show ?thesis
    unfolding softfloat_subMagsF64_def Let_def or_eq_0_iff F64_fields(1,2) shifted_fracF64 word_eq_0_unat[of "fracF64UI _"] F64_fields(3)
    by (cases "fp_exp 52 11 (unat a) = 2047"; cases "fp_exp 52 11 (unat b) = 2047";
        cases "fp_frac 52 (unat a) = 0"; cases "fp_frac 52 (unat b) = 0")
      (simp_all add: sub_mags_spec_def nan_result_def invalid_result_def raise_if_def fp_class_fields
        softfloat_propagateNaNF64UI_def isSigNaNF64UI_snan fp_qnan_values pack_infF64)
qed

interpretation f64: mags 52 11 "\<lambda>s. True" "\<lambda>a b. softfloat_addMagsF64 a b (signF64UI a)"
    "\<lambda>a b. softfloat_subMagsF64 a b (signF64UI a)"
  by unfold_locales (rule addMagsF64_correct, rule subMagsF64_correct)

text \<open>
  For all operands, rounding modes and tininess settings, \<open>f64_add\<close> returns the
  correctly rounded double-precision sum and the flags IEEE 754 asks for, with the prescribed sign of
  an exact zero; the infinity of an infinite operand, the canonical NaN and the invalid flag for the
  sum of opposite infinities; and the canonical NaN, with the invalid flag for a signaling
  operand, where an operand is a NaN.
\<close>

lemma f64_add_correct:
  "add_spec 52 11 s (unat a) (fp_sign 52 11 (unat b)) (unat b) (unat (fst (f64_add a b s))) (snd (f64_add a b s))"
  using f64.same_sign[of a "fp_sign 52 11 (unat b)" s b] f64.opposite_sign[of a "fp_sign 52 11 (unat b)" s b]
  by (cases "fp_sign 52 11 (unat a) = fp_sign 52 11 (unat b)") (simp_all add: f64_add_def F64_fields)

text \<open>
  The same for \<open>f64_sub\<close>, with the sign of the second operand reversed.
\<close>

lemma f64_sub_correct:
  "add_spec 52 11 s (unat a) (\<not> fp_sign 52 11 (unat b)) (unat b) (unat (fst (f64_sub a b s))) (snd (f64_sub a b s))"
  using f64.same_sign[of a "\<not> fp_sign 52 11 (unat b)" s b] f64.opposite_sign[of a "\<not> fp_sign 52 11 (unat b)" s b]
  by (cases "fp_sign 52 11 (unat a) = fp_sign 52 11 (unat b)") (simp_all add: f64_sub_def F64_fields)

text \<open>
  C4: the same in double precision, for \<open>f64_add\<close> and \<open>f64_sub\<close>.
\<close>

theorem f64_addition_correct:
  "add_spec 52 11 s (unat a) (fp_sign 52 11 (unat b)) (unat b) (unat (fst (f64_add a b s))) (snd (f64_add a b s))
   \<and> add_spec 52 11 s (unat a) (\<not> fp_sign 52 11 (unat b)) (unat b) (unat (fst (f64_sub a b s))) (snd (f64_sub a b s))"
  by (intro conjI f64_add_correct f64_sub_correct)

end
