(* ===== verification/RV_FInsns_Props.thy ===== *)
theory RV_FInsns_Props
  imports RV_FInsns SF_Add64
begin

text \<open>
  The floating-point instructions compose the routines of SoftFloat with the registers: boxing,
  the rounding mode of the instruction or of \<open>frm\<close>, and the accrued flags.
\<close>

text \<open>
  The instruction retires with a number the specification allows, boxed in its destination, and
  adds the flags of the operation to those accrued; nothing else of the hart changes but the
  mark that the floating-point state is dirty.
\<close>

definition fp_computes :: "exec \<times> softfloat_state \<Rightarrow> insn_bits \<Rightarrow> reg_t \<Rightarrow> processor_t \<Rightarrow> softfloat_state \<Rightarrow> ('a \<Rightarrow> reg_t \<times> reg_t)
    \<Rightarrow> (softfloat_state \<Rightarrow> 'a \<Rightarrow> softfloat_state \<Rightarrow> bool) \<Rightarrow> bool" where
  "fp_computes r insn at_pc p s bx spec \<longleftrightarrow>
     (case RM insn p of
        None \<Rightarrow> r = (illegal insn p, s)
      | Some rm \<Rightarrow>
          \<exists>v s'. spec (s\<lparr>softfloat_roundingMode := rm\<rparr>) v s'
            \<and> r = (Done (next_pc at_pc insn p)
                    ((dirty_fp_state p)\<lparr>FPR := (FPR p)[insn_rd insn := bx v], fflags := fflags p OR ucast (softfloat_exceptionFlags s')\<rparr>),
                   s'\<lparr>softfloat_exceptionFlags := 0\<rparr>))"

lemma dirty_twice: "dirty_fp_state (dirty_fp_state p) = dirty_fp_state p"
  by (simp add: dirty_fp_state_def ac_simps)

lemma dirty_commute:
  "dirty_fp_state (p\<lparr>FPR := x\<rparr>) = (dirty_fp_state p)\<lparr>FPR := x\<rparr>"
  by (simp add: dirty_fp_state_def)

lemma exec_fp_computes:
  assumes "\<And>s. spec s (fst (f s)) (snd (f s))"
  shows "fp_computes (exec_fp True True (fwrite insn bx) f insn at_pc p s) insn at_pc p s bx spec"
proof (cases "RM insn p")
  case None
  then show ?thesis
    by (simp add: fp_computes_def exec_fp_def)
next
  case (Some rm)
  obtain v s' where f: "f (s\<lparr>softfloat_roundingMode := rm\<rparr>) = (v, s')"
    by (cases "f (s\<lparr>softfloat_roundingMode := rm\<rparr>)")
  have "spec (s\<lparr>softfloat_roundingMode := rm\<rparr>) v s'"
    using assms[of "s\<lparr>softfloat_roundingMode := rm\<rparr>"] by (simp add: f)
  moreover have "fst (set_fp_exceptions (fwrite insn bx v p) s') =
      (dirty_fp_state p)\<lparr>FPR := (FPR p)[insn_rd insn := bx v], fflags := fflags p OR ucast (softfloat_exceptionFlags s')\<rparr>"
    by (simp add: set_fp_exceptions_def Let_def fwrite_def write_freg_def dirty_commute dirty_twice)
      (simp add: dirty_fp_state_def)
  moreover have "snd (set_fp_exceptions (fwrite insn bx v p) s') = s'\<lparr>softfloat_exceptionFlags := 0\<rparr>"
    by (simp add: set_fp_exceptions_def Let_def)
  ultimately show ?thesis
    by (auto simp: fp_computes_def exec_fp_def Some f Let_def split_beta)
qed

text \<open>
  C9: the arithmetic instructions are IEEE arithmetic on boxed registers. With the floating-point
  unit on, addition, subtraction and multiplication of singles and doubles (and multiplication of
  halves) take their operands out of their boxes, an operand that is not boxed being the
  default NaN, and retire with the correctly rounded result of the specification, in the mode
  the instruction names or in the dynamic one; the result is boxed, the flags of the operation are added to the
  accrued ones, and SoftFloat's flags are cleared. A reserved rounding mode is an illegal instruction
  and changes nothing, and so is the instruction with the floating-point unit off.
\<close>

theorem fp_arithmetic_instructions_correct:
  "let a16 = unat (unbox16 (FRS1 insn p)); b16 = unat (unbox16 (FRS2 insn p)); a32 = unat (unbox32 (FRS1 insn p));
       b32 = unat (unbox32 (FRS2 insn p)); a64 = unat (unbox64 (FRS1 insn p)); b64 = unat (unbox64 (FRS2 insn p))
   in (if supports_extension (CHR ''F'') p \<and> fp_on p then
        fp_computes (rv_fadd_s insn at_pc p s) insn at_pc p s box32
          (\<lambda>s v s'. add_spec 23 8 s a32 (fp_sign 23 8 b32) b32 (unat v) s')
        \<and> fp_computes (rv_fsub_s insn at_pc p s) insn at_pc p s box32
          (\<lambda>s v s'. add_spec 23 8 s a32 (\<not> fp_sign 23 8 b32) b32 (unat v) s')
        \<and> fp_computes (rv_fmul_s insn at_pc p s) insn at_pc p s box32 (\<lambda>s v s'. mul_spec 23 8 s a32 b32 (unat v) s')
      else rv_fadd_s insn at_pc p s = (illegal insn p, s) \<and> rv_fsub_s insn at_pc p s = (illegal insn p, s)
        \<and> rv_fmul_s insn at_pc p s = (illegal insn p, s))
    \<and> (if supports_extension (CHR ''D'') p \<and> fp_on p then
        fp_computes (rv_fadd_d insn at_pc p s) insn at_pc p s box64
          (\<lambda>s v s'. add_spec 52 11 s a64 (fp_sign 52 11 b64) b64 (unat v) s')
        \<and> fp_computes (rv_fsub_d insn at_pc p s) insn at_pc p s box64
          (\<lambda>s v s'. add_spec 52 11 s a64 (\<not> fp_sign 52 11 b64) b64 (unat v) s')
        \<and> fp_computes (rv_fmul_d insn at_pc p s) insn at_pc p s box64 (\<lambda>s v s'. mul_spec 52 11 s a64 b64 (unat v) s')
      else rv_fadd_d insn at_pc p s = (illegal insn p, s) \<and> rv_fsub_d insn at_pc p s = (illegal insn p, s)
        \<and> rv_fmul_d insn at_pc p s = (illegal insn p, s))
    \<and> (if zfh_supported p \<and> fp_on p then
        fp_computes (rv_fmul_h insn at_pc p s) insn at_pc p s box16 (\<lambda>s v s'. mul_spec 10 5 s a16 b16 (unat v) s')
      else rv_fmul_h insn at_pc p s = (illegal insn p, s))"
proof -
  have off: "exec_fp False r w f insn at_pc p s = (illegal insn p, s)" for r :: bool and w :: "'b \<Rightarrow> processor_t \<Rightarrow> processor_t" and f
    by (simp add: exec_fp_def)
  show ?thesis
    unfolding rv_fadd_s_def rv_fsub_s_def rv_fmul_s_def rv_fadd_d_def rv_fsub_d_def rv_fmul_d_def rv_fmul_h_def Let_def
    by (auto simp: off intro!: exec_fp_computes f32_add_correct f32_sub_correct f32_mul_correct f64_add_correct f64_sub_correct
        f64_mul_correct f16_mul_correct)
qed

end
