(* ===== verification/RV_MMU_Props.thy ===== *)
theory RV_MMU_Props
  imports RV_MMU RV_CSR_Views
begin

text \<open>
  Address translation against its specification: a page-table walk as a relation between an
  address and the leaf entry it reaches, the permission of an access by the bits of that entry,
  and the protection of physical memory by regions.
\<close>

section \<open>Bits of page-table entries\<close>

lemma low_bits_mask: "low_bits n = mask n"
  by (simp add: low_bits_def mask_eq_exp_minus_1)

lemma and_low_bits: "x AND low_bits n = take_bit n x"
  by (simp add: low_bits_mask take_bit_eq_mask)

lemma pte_bits:
  "pte AND PTE_V = 0 \<longleftrightarrow> \<not> bit pte 0" "pte AND PTE_R = 0 \<longleftrightarrow> \<not> bit pte 1" "pte AND PTE_W = 0 \<longleftrightarrow> \<not> bit pte 2"
  "pte AND PTE_X = 0 \<longleftrightarrow> \<not> bit pte 3" "pte AND PTE_U = 0 \<longleftrightarrow> \<not> bit pte 4" for pte :: reg_t
  using and_exp_eq_0_iff_not_bit[of pte 0] and_exp_eq_0_iff_not_bit[of pte 1] and_exp_eq_0_iff_not_bit[of pte 2]
    and_exp_eq_0_iff_not_bit[of pte 3] and_exp_eq_0_iff_not_bit[of pte 4] by simp_all

lemma masked_eq_iff: "x AND m = m \<longleftrightarrow> (\<forall>n. bit m n \<longrightarrow> bit x n)" for x m :: "'a::len word"
  by (auto simp: bit_eq_iff bit_and_iff dest: bit_imp_le_length)

lemma bit_PTE_AD: "bit (0x40 OR (if st then 0x80 else 0) :: reg_t) n \<longleftrightarrow> n = 6 \<or> st \<and> n = 7"
proof -
  have "(0x40 :: reg_t) = push_bit 6 (mask 1)" "(0x80 :: reg_t) = push_bit 7 (mask 1)"
    by (simp_all add: mask_numeral)
  then have "bit (0x40 :: reg_t) n \<longleftrightarrow> n = 6" "bit (0x80 :: reg_t) n \<longleftrightarrow> n = 7"
    by (simp_all only: bit_ones) linarith+
  then show ?thesis
    by (simp add: bit_or_iff)
qed

lemma pte_not_marked_bits: "pte_not_marked type pte \<longleftrightarrow> \<not> (bit pte 6 \<and> (type = STORE \<longrightarrow> bit pte 7))"
proof -
  have "pte AND (0x40 OR (if type = STORE then 0x80 else 0)) = 0x40 OR (if type = STORE then 0x80 else 0)
      \<longleftrightarrow> bit pte 6 \<and> (type = STORE \<longrightarrow> bit pte 7)"
    unfolding masked_eq_iff bit_PTE_AD by auto
  then show ?thesis
    by (simp only: pte_not_marked_def Let_def)
qed

section \<open>The specification\<close>

definition pte_address :: "vm_info \<Rightarrow> reg_t \<Rightarrow> nat \<Rightarrow> reg_t \<Rightarrow> reg_t" where
  "pte_address vm a i base = base + take_bit (vm_idxbits vm) (drop_bit (12 + i * vm_idxbits vm) a) * of_nat (vm_ptesize vm)"

definition pte_readable :: "memory \<Rightarrow> processor_t \<Rightarrow> vm_info \<Rightarrow> reg_t \<Rightarrow> bool" where
  "pte_readable m p vm at_pa \<longleftrightarrow> in_mem m at_pa \<and> pmp_ok p at_pa (vm_ptesize vm) LOAD PRV_S"

text \<open>
  The leaf an address reaches from a table, with its level: through readable entries, as long as
  they point to a next table.
\<close>

inductive leaf_entry :: "memory \<Rightarrow> processor_t \<Rightarrow> vm_info \<Rightarrow> reg_t \<Rightarrow> nat \<Rightarrow> reg_t \<Rightarrow> nat \<Rightarrow> reg_t \<Rightarrow> bool"
  for m p vm a where
  leaf: "pte_readable m p vm (pte_address vm a i base) \<Longrightarrow>
    pte = read_mem m (pte_address vm a i base) (vm_ptesize vm) \<Longrightarrow> \<not> PTE_TABLE pte \<Longrightarrow>
    leaf_entry m p vm a (Suc i) base i pte"
| table: "pte_readable m p vm (pte_address vm a i base) \<Longrightarrow>
    pte = read_mem m (pte_address vm a i base) (vm_ptesize vm) \<Longrightarrow> PTE_TABLE pte \<Longrightarrow>
    leaf_entry m p vm a i (push_bit 12 (drop_bit 10 pte)) j pte' \<Longrightarrow>
    leaf_entry m p vm a (Suc i) base j pte'"

inductive_cases leaf_entry_0: "leaf_entry m p vm a 0 base j pte"
inductive_cases leaf_entry_Suc: "leaf_entry m p vm a (Suc i) base j pte"

text \<open>What a leaf grants: valid, the right kind of access, the right mode, accessed and dirty.\<close>

definition leaf_grants :: "access_type \<Rightarrow> reg_t \<Rightarrow> bool \<Rightarrow> bool \<Rightarrow> reg_t \<Rightarrow> bool" where
  "leaf_grants type mode sm mxr pte \<longleftrightarrow>
     bit pte 0 \<and> (bit pte 2 \<longrightarrow> bit pte 1)
     \<and> (case type of FETCH \<Rightarrow> bit pte 3 | LOAD \<Rightarrow> bit pte 1 \<or> mxr \<and> bit pte 3 | STORE \<Rightarrow> bit pte 2)
     \<and> (if bit pte 4 then mode = PRV_S \<longrightarrow> sm \<and> type \<noteq> FETCH else mode = PRV_S)
     \<and> bit pte 6 \<and> (type = STORE \<longrightarrow> bit pte 7)"

lemma leaf_grants_iff:
  "leaf_grants type mode sm mxr pte \<longleftrightarrow>
     \<not> (pte_forbidden (mode = PRV_S) sm type pte \<or> pte_invalid pte \<or> pte_denies type mxr pte \<or> pte_not_marked type pte)"
  unfolding leaf_grants_def pte_forbidden_def pte_invalid_def pte_denies_def pte_not_marked_bits pte_bits
  by (cases type) auto

text \<open>An aligned superpage of level \<open>j\<close> maps its offsets one to one.\<close>

definition superpage_aligned :: "vm_info \<Rightarrow> nat \<Rightarrow> reg_t \<Rightarrow> bool" where
  "superpage_aligned vm j pte \<longleftrightarrow> take_bit (j * vm_idxbits vm) (drop_bit 10 pte) = 0"

definition leaf_target :: "vm_info \<Rightarrow> reg_t \<Rightarrow> nat \<Rightarrow> reg_t \<Rightarrow> reg_t" where
  "leaf_target vm a j pte = push_bit 12 (drop_bit 10 pte) + take_bit (12 + j * vm_idxbits vm) a"

lemma page_of_target:
  assumes "take_bit s ppn = 0"
  shows "page_of ppn a s = push_bit 12 ppn + take_bit (12 + s) a"
proof -
  have ppn: "\<not> bit ppn (n - 12)" if "12 \<le> n" "n < 12 + s" for n
    using arg_cong[OF assms, of "\<lambda>w. bit w (n - 12)"] that by (auto simp: bit_take_bit_iff)
  have "page_of ppn a s = push_bit 12 ppn OR take_bit (12 + s) a"
    unfolding page_of_def low_bits_mask
    by (rule bit_word_eqI) (auto simp: bit_or_iff bit_push_bit_iff bit_and_iff bit_take_bit_iff bit_mask_iff bit_drop_bit_eq)
  also have "\<dots> = push_bit 12 ppn + take_bit (12 + s) a"
    by (rule disjunctive_add[symmetric]) (auto simp: bit_push_bit_iff bit_take_bit_iff dest: ppn)
  finally show ?thesis .
qed

lemma page_and_offset: "(page_of ppn a s AND NOT (low_bits 12)) OR (a AND low_bits 12) = page_of ppn a s"
  unfolding page_of_def low_bits_mask
  by (rule bit_word_eqI) (auto simp: bit_or_iff bit_push_bit_iff bit_and_iff bit_mask_iff bit_not_iff)

section \<open>The walk\<close>

lemma walk_loop_spec:
  "walk_loop m p vm a type mode False mxr i base = Inr pg \<longleftrightarrow>
     (\<exists>j pte. leaf_entry m p vm a i base j pte
        \<and> leaf_grants type mode (get_field (mstatus p) MSTATUS_SUM \<noteq> 0) mxr pte \<and> superpage_aligned vm j pte
        \<and> pg = page_of (drop_bit 10 pte) a (j * vm_idxbits vm) AND NOT (low_bits 12))"
proof (induction i arbitrary: base)
  case 0
  then show ?case
    by (auto simp: throw_page_fault_def elim: leaf_entry_0)
next
  case (Suc i)
  define ad where "ad = pte_address vm a i base"
  define pte where "pte = read_mem m ad (vm_ptesize vm)"
  have ad: "base + (drop_bit (12 + i * vm_idxbits vm) a AND low_bits (vm_idxbits vm)) * of_nat (vm_ptesize vm) = ad"
    by (simp add: ad_def pte_address_def and_low_bits)
  have L: "leaf_entry m p vm a (Suc i) base j pte' \<longleftrightarrow>
      pte_readable m p vm ad \<and> (if PTE_TABLE pte then leaf_entry m p vm a i (push_bit 12 (drop_bit 10 pte)) j pte'
        else j = i \<and> pte' = pte)" for j pte'
    by (auto simp: ad_def pte_def elim: leaf_entry_Suc intro: leaf_entry.intros)
  show ?case
    unfolding walk_loop.simps Let_def s2xlate_def ad by (auto simp: pte_def[symmetric] L Suc.IH throw_access_exception_def
        throw_page_fault_def pte_readable_def leaf_grants_iff superpage_aligned_def and_low_bits)
qed

definition canonical :: "nat \<Rightarrow> vm_info \<Rightarrow> reg_t \<Rightarrow> bool" where
  "canonical xl vm a \<longleftrightarrow>
     (let k = 11 + vm_levels vm * vm_idxbits vm in \<forall>n\<in>{k..<xl}. bit a n = bit a k)"

lemma canonical_msbs:
  fixes a :: reg_t
  assumes "k < xl" and "xl \<le> 64"
  shows "(drop_bit k a AND low_bits (xl - k) \<noteq> 0 \<and> drop_bit k a AND low_bits (xl - k) \<noteq> low_bits (xl - k))
    \<longleftrightarrow> \<not> (\<forall>n\<in>{k..<xl}. bit a n = bit a k)"
proof -
  have z: "take_bit (xl - k) (drop_bit k a) = 0 \<longleftrightarrow> (\<forall>n\<in>{k..<xl}. \<not> bit a n)"
  proof
    assume z: "take_bit (xl - k) (drop_bit k a) = 0"
    show "\<forall>n\<in>{k..<xl}. \<not> bit a n"
    proof
      fix n
      assume "n \<in> {k..<xl}"
      then show "\<not> bit a n"
        using arg_cong[OF z, of "\<lambda>w. bit w (n - k)"] by (auto simp: bit_take_bit_iff bit_drop_bit_eq)
    qed
  qed (rule bit_word_eqI, auto simp: bit_take_bit_iff bit_drop_bit_eq)
  have o: "take_bit (xl - k) (drop_bit k a) = mask (xl - k) \<longleftrightarrow> (\<forall>n\<in>{k..<xl}. bit a n)"
  proof
    assume o: "take_bit (xl - k) (drop_bit k a) = mask (xl - k)"
    show "\<forall>n\<in>{k..<xl}. bit a n"
    proof
      fix n
      assume "n \<in> {k..<xl}"
      then show "bit a n"
        using arg_cong[OF o, of "\<lambda>w. bit w (n - k)"] assms(2) by (auto simp: bit_take_bit_iff bit_drop_bit_eq bit_mask_iff)
    qed
  qed (rule bit_word_eqI, use assms(2) in \<open>auto simp: bit_take_bit_iff bit_drop_bit_eq bit_mask_iff\<close>)
  show ?thesis
    unfolding and_low_bits z o[folded low_bits_mask] using assms(1) by auto
qed

lemma vm_make_simps [simp]:
  "vm_levels (vm_make l i w s ppn) = l" "vm_idxbits (vm_make l i w s ppn) = i" "vm_levels vm_off = 0"
  by (simp_all add: vm_make_def vm_off_def)

lemma legal_satp_D:
  assumes "legal_satp 64 atp"
  shows "get_field atp 0xF000000000000000 = 0 \<or> get_field atp 0xF000000000000000 = 8 \<or> get_field atp 0xF000000000000000 = 9"
  using assms by (auto simp: legal_satp_def)

lemma get_bit31: "get_field atp 0x80000000 = 0 \<or> get_field atp 0x80000000 = 1" for atp :: reg_t
proof -
  have "get_field atp 0x80000000 = take_bit 1 (drop_bit 31 atp)"
    by (rule get_field_bits) simp_all
  moreover have "take_bit 1 x = 0 \<or> take_bit 1 x = 1" for x :: reg_t
    by (cases "even x") (simp_all add: take_bit_Suc mod_2_eq_odd)
  ultimately show ?thesis
    by simp
qed

text \<open>With a legal root register the decoder never aborts, and the address space fits the registers.\<close>

lemma decode_legal:
  assumes "xl = 32 \<or> xl = 64" and "legal_satp xl atp" and "pr \<le> PRV_S \<or> pr = PRV_M"
  shows "\<exists>vm. decode_vm_info xl False pr atp = Some vm \<and> (0 < vm_levels vm \<longrightarrow> 11 + vm_levels vm * vm_idxbits vm < xl)"
  using assms legal_satp_D[of atp] get_bit31[of atp] by (auto simp: decode_vm_info_def Let_def)

lemma wf_legal_satp:
  assumes "wf_csr p"
  shows "legal_satp (max_xlen p) (satp p)" "legal_satp (max_xlen p) (vsatp p)" "legal_satp (max_xlen p) (hgatp p)"
  using assms by (simp_all add: wf_csr_def)

lemma bare_address:
  assumes "xl = 32 \<or> xl = 64"
  shows "((a AND (push_bit (xl - 1) 2 - 1)) AND NOT (low_bits 12)) OR (a AND low_bits 12) = (take_bit xl a :: reg_t)"
proof -
  have "(push_bit (xl - 1) 2 - 1 :: reg_t) = mask xl"
    using assms by (auto simp: mask_numeral)
  then show ?thesis
    unfolding low_bits_mask using assms
    by (intro bit_word_eqI) (auto simp: bit_or_iff bit_and_iff bit_not_iff bit_mask_iff bit_take_bit_iff)
qed

lemma target_page:
  assumes "superpage_aligned vm j pte"
  shows "(page_of (drop_bit 10 pte) a (j * vm_idxbits vm) AND NOT (low_bits 12)) OR (a AND low_bits 12) = leaf_target vm a j pte"
  unfolding page_and_offset leaf_target_def by (rule page_of_target) (use assms in \<open>simp add: superpage_aligned_def\<close>)

lemma translate_iff:
  assumes "effective_mode p type flags = (mode, vt, mxr)"
  shows "translate m p a len type flags = Inr pa \<longleftrightarrow>
    (\<exists>pg. walk m p a type mode vt mxr = Inr pg \<and> pa = pg OR (a AND low_bits 12)) \<and> pmp_ok p pa len type mode"
  unfolding translate_def assms prod.case Let_def by (auto simp: throw_access_exception_def split: sum.splits)

text \<open>A walk with translation on begins at the root if the address is canonical and faults otherwise.\<close>

lemma walk_canonical:
  assumes "wf_csr p" and "decode_vm_info (max_xlen p) False mode (if vt then vsatp p else satp p) = Some vm"
    and "mode \<le> PRV_S \<or> mode = PRV_M" and "vm_levels vm \<noteq> 0"
  shows "walk m p a type mode vt mxr =
    (if canonical (xlen p) vm a then walk_loop m p vm a type mode vt mxr (vm_levels vm) (vm_ptbase vm)
     else throw_page_fault a type)"
proof -
  define k where "k = 11 + vm_levels vm * vm_idxbits vm"
  have x: "xlen p = 32 \<or> xlen p = 64" "max_xlen p = xlen p"
    using wf_csr_D(1,12)[OF assms(1)] by auto
  have "legal_satp (max_xlen p) (if vt then vsatp p else satp p)"
    using wf_legal_satp[OF assms(1)] by simp
  then have k: "k < xlen p"
    using decode_legal[OF x(1), of "if vt then vsatp p else satp p" mode] assms(2-4) x(2) by (auto simp: k_def)
  have x64: "xlen p \<le> 64"
    using x(1) by auto
  have k': "12 + vm_levels vm * vm_idxbits vm - 1 = k"
    by (simp add: k_def)
  have c: "canonical (xlen p) vm a \<longleftrightarrow>
      \<not> (drop_bit k a AND low_bits (xlen p - k) \<noteq> 0 \<and> drop_bit k a AND low_bits (xlen p - k) \<noteq> low_bits (xlen p - k))"
    unfolding canonical_def Let_def k_def[symmetric] canonical_msbs[OF k x64] not_not ..
  show ?thesis
    unfolding walk_def assms(2) option.case Let_def k' c using assms(4) by simp
qed

text \<open>The address a leaf gives, when it grants the access.\<close>

lemma granted_target:
  "(\<exists>pg. walk_loop m p vm a type mode False mxr i base = Inr pg \<and> pa = pg OR (a AND low_bits 12)) \<longleftrightarrow>
    (\<exists>j pte. leaf_entry m p vm a i base j pte
      \<and> leaf_grants type mode (get_field (mstatus p) MSTATUS_SUM \<noteq> 0) mxr pte \<and> superpage_aligned vm j pte
      \<and> pa = leaf_target vm a j pte)"
proof -
  define F where "F j pte = page_of (drop_bit 10 pte) a (j * vm_idxbits vm) AND NOT (low_bits 12)" for j pte
  have t: "F j pte OR (a AND low_bits 12) = leaf_target vm a j pte" if "superpage_aligned vm j pte" for j pte
    unfolding F_def by (rule target_page[OF that])
  then show ?thesis
    unfolding walk_loop_spec F_def[symmetric] by metis
qed

text \<open>
  C2: address translation refines the page-table specification. When translation is on and the
  access is not a guest's, it succeeds exactly if the address is canonical, the tables lead it
  through readable entries to a leaf that grants the access and is aligned for its level, and the
  protection of physical memory allows the result; the result is the offset within the (super)page
  added to the base the leaf points to. When translation is off, the address (of the width of the
  registers) is its own translation, under the same protection.
\<close>

theorem translate_refines_specification:
  assumes "wf_csr p" and "effective_mode p type flags = (mode, False, mxr)" and "mode \<le> PRV_S \<or> mode = PRV_M"
    and "decode_vm_info (max_xlen p) False mode (satp p) = Some vm"
  shows "translate m p a len type flags = Inr pa \<longleftrightarrow>
    (if vm_levels vm = 0 then pa = take_bit (xlen p) a
     else canonical (xlen p) vm a
       \<and> (\<exists>j pte. leaf_entry m p vm a (vm_levels vm) (vm_ptbase vm) j pte
            \<and> leaf_grants type mode (get_field (mstatus p) MSTATUS_SUM \<noteq> 0) mxr pte \<and> superpage_aligned vm j pte
            \<and> pa = leaf_target vm a j pte))
    \<and> pmp_ok p pa len type mode"
proof -
  have x: "xlen p = 32 \<or> xlen p = 64" "max_xlen p = xlen p"
    using wf_csr_D(1,12)[OF assms(1)] by auto
  show ?thesis
  proof (cases "vm_levels vm = 0")
    case True
    then show ?thesis
      unfolding translate_iff[OF assms(2)] walk_def if_False assms(4) option.case s2xlate_def Let_def
      using bare_address[OF x(1), of a] by auto
  next
    case False
    have "walk m p a type mode False mxr =
        (if canonical (xlen p) vm a then walk_loop m p vm a type mode False mxr (vm_levels vm) (vm_ptbase vm)
         else throw_page_fault a type)"
      by (rule walk_canonical[OF assms(1) _ assms(3) False]) (simp add: assms(4))
    then show ?thesis
      unfolding translate_iff[OF assms(2)] if_not_P[OF False] granted_target[symmetric]
      by (auto simp: throw_page_fault_def)
  qed
qed

text \<open>A supervisor load through a gigapage that maps the bottom of the address space to the memory.\<close>

definition example_supervisor :: processor_t where
  "example_supervisor = example_hart\<lparr>prv := 1, satp := 0x8000000000080000, pmpcfg := 0x1F # replicate 15 0,
     pmpaddr := 0x3FFFFFFF # replicate 15 0\<rparr>"

definition example_page_table :: memory where
  "example_page_table = map_of (zip (map (\<lambda>i. 0x80000000 + of_nat i) [0..<8]) [0x43, 0, 0, 0x20, 0, 0, 0, 0])"

lemma example_pmp:
  "pmp_ok example_supervisor 0x80000000 8 LOAD 1" "pmp_ok example_supervisor 0x80001234 4 LOAD 1"
proof -
  have "n_pmp example_supervisor = Suc 15" "pmpcfg example_supervisor ! 0 = 0x1F"
    by (simp_all add: example_supervisor_def example_hart_def)
  moreover have "pmp_mask example_supervisor 0 = 0xFFFFFFFE00000000" "pmp_tor example_supervisor 0 = 0xFFFFFFFC"
    by (simp_all add: pmp_mask_def pmp_tor_def pmp_tor_mask_def example_supervisor_def example_hart_def Let_def)
  ultimately show "pmp_ok example_supervisor 0x80000000 8 LOAD 1" "pmp_ok example_supervisor 0x80001234 4 LOAD 1"
    unfolding pmp_ok_def by (simp_all only: pmp_loop.simps nat.distinct if_False)
      (simp_all add: sectors_def pmp_match_def pmp_permits_def Let_def upt_rec)
qed

lemma translate_refines_specification_witness:
  "translate example_page_table example_supervisor 0x1234 4 LOAD 0 = Inr 0x80001234"
proof -
  have "wf_csr (example_hart\<lparr>prv := 1, satp := 0x8000000000080000\<rparr>)"
    by (intro wf_csr_upd wf_example_hart) (simp_all add: legal_prv_def legal_satp_def get_field_def example_hart_def)
  from wf_csr_pmp_upd[OF this, where c = "0x1F # replicate 15 0" and a = "0x3FFFFFFF # replicate 15 0"]
  have w: "wf_csr example_supervisor"
    by (simp add: example_supervisor_def wf_pmp_def list_all_iff)
  have e: "effective_mode example_supervisor LOAD 0 = (1, False, False)"
    by (simp add: effective_mode_def example_supervisor_def example_hart_def get_field_def Let_def)
  have d: "decode_vm_info (max_xlen example_supervisor) False 1 (satp example_supervisor) = Some (vm_make 3 9 0 8 0x80000)"
    by (simp add: decode_vm_info_def example_supervisor_def example_hart_def get_field_def Let_def)
  have b: "vm_ptbase (vm_make 3 9 0 8 0x80000) = 0x80000000" "vm_ptesize (vm_make 3 9 0 8 0x80000) = 8"
      "get_field (mstatus example_supervisor) MSTATUS_SUM \<noteq> 0 \<longleftrightarrow> False"
    by (simp_all add: vm_make_def example_supervisor_def example_hart_def get_field_def)
  have ad: "pte_address (vm_make 3 9 0 8 0x80000) 0x1234 2 0x80000000 = 0x80000000"
    by (simp add: pte_address_def b)
  have "leaf_entry example_page_table example_supervisor (vm_make 3 9 0 8 0x80000) 0x1234 (Suc 2) 0x80000000 2 0x20000043"
    by (rule leaf) (simp_all add: ad pte_readable_def b example_pmp in_mem_def example_page_table_def read_mem_def mem_bytes_def
        mem_byte_def PTE_TABLE_def upt_rec)
  moreover have "leaf_grants LOAD 1 False False 0x20000043"
    by (simp add: leaf_grants_def bit_0)
  moreover have "superpage_aligned (vm_make 3 9 0 8 0x80000) 2 0x20000043"
    "leaf_target (vm_make 3 9 0 8 0x80000) 0x1234 2 0x20000043 = 0x80001234"
    by (simp_all add: superpage_aligned_def leaf_target_def)
  moreover have "canonical (xlen example_supervisor) (vm_make 3 9 0 8 0x80000) 0x1234"
  proof -
    have "\<not> bit (0x1234 :: reg_t) n" if "38 \<le> n" for n
      using that bit_take_bit_iff[of 13 "0x1234 :: reg_t" n] by simp
    then show ?thesis
      by (simp add: canonical_def)
  qed
  ultimately show ?thesis
    using translate_refines_specification[OF w e _ d, of example_page_table "0x1234" 4 "0x80001234"]
    by (simp add: b example_pmp) blast
qed

end
