(* ===== verification/RV_PMP.thy ===== *)
theory RV_PMP
  imports RV_MMU_Props
begin

text \<open>
  The protection of physical memory: every entry covers a set of addresses, and the first entry
  that covers part of an access decides it. The check against this specification, and the
  condition under which the MMU may cache a translation of a whole page.
\<close>

section \<open>Trailing ones\<close>

definition trailing_ones :: "reg_t \<Rightarrow> nat" where
  "trailing_ones x = length (takeWhile (bit x) [0..<64])"

lemma trailing_ones:
  "trailing_ones x \<le> 64" "i < trailing_ones x \<Longrightarrow> bit x i" "trailing_ones x < 64 \<Longrightarrow> \<not> bit x (trailing_ones x)"
proof -
  show "trailing_ones x \<le> 64"
    using length_takeWhile_le[of "bit x" "[0..<64]"] by (simp add: trailing_ones_def)
  show "bit x i" if "i < trailing_ones x"
    using that nth_mem[of i "takeWhile (bit x) [0..<64]"] takeWhile_nth[of i "bit x" "[0..<64]"]
      length_takeWhile_le[of "bit x" "[0..<64]"]
    by (auto simp: trailing_ones_def dest: set_takeWhileD simp del: upt_rec_numeral)
  show "\<not> bit x (trailing_ones x)" if "trailing_ones x < 64"
    using that nth_length_takeWhile[of "bit x" "[0..<64]"] by (simp add: trailing_ones_def del: upt_rec_numeral)
qed

lemma trailing_ones_mask: "x AND NOT (x + 1) = mask (trailing_ones x)"
proof (cases "trailing_ones x = 64")
  case True
  then have "x = - 1"
    using trailing_ones(2)[where x = x] by (intro bit_word_eqI) simp
  then show ?thesis
    unfolding True by (simp add: mask_eq_exp_minus_1)
next
  case False
  define t where "t = trailing_ones x"
  define h where "h = push_bit (Suc t) (drop_bit (Suc t) x)"
  have t: "t < 64" "\<And>i. i < t \<Longrightarrow> bit x i" "\<not> bit x t"
    using False trailing_ones[where x = x] by (simp_all add: t_def)
  have hx: "bit h n \<longleftrightarrow> t < n \<and> bit x n" for n
  proof -
    have "bit h n \<longleftrightarrow> Suc t \<le> n \<and> n < 64 \<and> bit x (Suc t + (n - Suc t))"
      unfolding h_def bit_push_bit_iff bit_drop_bit_eq comp_def by simp
    then show ?thesis
      using bit_imp_le_length[of x n] by auto
  qed
  have bx: "bit x n \<longleftrightarrow> bit h n \<or> n < t" for n
    using t hx by (cases "n = t") auto
  have hb: "\<not> bit h n" if "n \<le> t" for n
    using that by (simp add: hx)
  have "x = h OR mask t"
    by (rule bit_word_eqI) (auto simp: bx bit_or_iff bit_mask_iff)
  also have "\<dots> = h + mask t"
    by (rule disjunctive_add[symmetric]) (auto simp: bit_mask_iff hb)
  finally have "x + 1 = h + (mask t + 1)"
    by simp
  also have "\<dots> = h + push_bit t 1"
    by (simp add: mask_eq_exp_minus_1)
  also have "\<dots> = h OR push_bit t 1"
    by (rule disjunctive_add) (auto simp: bit_exp_iff hb)
  finally have b1: "bit (x + 1) n \<longleftrightarrow> bit h n \<or> n = t" for n
    using t(1) by (auto simp: bit_or_iff bit_exp_iff)
  show ?thesis
    unfolding t_def[symmetric] by (rule bit_word_eqI) (auto simp: bit_and_iff bit_not_iff b1 bx bit_mask_iff hb)
qed

section \<open>Regions\<close>

definition pmp_active :: "processor_t \<Rightarrow> nat \<Rightarrow> bool" where
  "pmp_active p i \<longleftrightarrow> pmpcfg p ! i AND PMP_A \<noteq> 0"

definition pmp_base :: "processor_t \<Rightarrow> nat \<Rightarrow> reg_t" where
  "pmp_base p i = (case i of 0 \<Rightarrow> 0 | Suc j \<Rightarrow> pmp_tor p j)"

text \<open>The logarithm of the size of a naturally aligned region.\<close>

definition pmp_order :: "processor_t \<Rightarrow> nat \<Rightarrow> nat" where
  "pmp_order p i =
     2 + trailing_ones ((push_bit 1 (pmpaddr p ! i) OR (if pmpcfg p ! i AND PMP_A = PMP_NA4 then 0 else 1))
                        OR NOT (pmp_tor_mask p))"

definition pmp_region :: "processor_t \<Rightarrow> nat \<Rightarrow> reg_t set" where
  "pmp_region p i =
     (if pmpcfg p ! i AND PMP_A = PMP_TOR then {pmp_base p i ..< pmp_tor p i}
      else {c. drop_bit (pmp_order p i) c = drop_bit (pmp_order p i) (pmp_tor p i)})"

lemma pmp_mask_order: "pmp_mask p i = NOT (mask (pmp_order p i))"
proof -
  define x where "x = (push_bit 1 (pmpaddr p ! i) OR (if pmpcfg p ! i AND PMP_A = PMP_NA4 then 0 else 1)) OR NOT (pmp_tor_mask p)"
  have m: "pmp_mask p i = push_bit 2 (NOT (mask (trailing_ones x)))"
    unfolding pmp_mask_def Let_def x_def[symmetric] trailing_ones_mask ..
  show ?thesis
    unfolding m pmp_order_def x_def[symmetric]
    by (rule bit_word_eqI) (auto simp: bit_push_bit_iff bit_not_iff bit_mask_iff)
qed

lemma xor_masked: "(c XOR t) AND NOT (mask k) = 0 \<longleftrightarrow> drop_bit k c = drop_bit k t" for c t :: reg_t
proof
  assume z: "(c XOR t) AND NOT (mask k) = 0"
  show "drop_bit k c = drop_bit k t"
  proof (rule bit_word_eqI)
    fix n
    show "bit (drop_bit k c) n = bit (drop_bit k t) n"
      using arg_cong[OF z, of "\<lambda>w. bit w (k + n)"] bit_imp_le_length[of c "k + n"] bit_imp_le_length[of t "k + n"]
      by (auto simp: bit_and_iff bit_xor_iff bit_not_iff bit_mask_iff bit_drop_bit_eq)
  qed
next
  assume d: "drop_bit k c = drop_bit k t"
  show "(c XOR t) AND NOT (mask k) = 0"
  proof (rule bit_word_eqI)
    fix n
    show "bit ((c XOR t) AND NOT (mask k)) n = bit 0 n"
      using arg_cong[OF d, of "\<lambda>w. bit w (n - k)"] by (auto simp: bit_and_iff bit_xor_iff bit_not_iff bit_mask_iff bit_drop_bit_eq not_less)
  qed
qed

lemma pmp_match_region: "pmp_match p i (pmp_base p i) c \<longleftrightarrow> c \<in> pmp_region p i"
  unfolding pmp_match_def pmp_region_def pmp_mask_order xor_masked by auto

section \<open>The check\<close>

definition pmp_covers :: "processor_t \<Rightarrow> reg_t \<Rightarrow> nat \<Rightarrow> nat \<Rightarrow> bool" where
  "pmp_covers p a len i \<longleftrightarrow> pmp_active p i \<and> (\<exists>c\<in>set (sectors a len). c \<in> pmp_region p i)"

definition pmp_decision :: "processor_t \<Rightarrow> reg_t \<Rightarrow> nat \<Rightarrow> access_type \<Rightarrow> reg_t \<Rightarrow> nat option \<Rightarrow> bool" where
  "pmp_decision p a len type mode r =
     (case r of
        None \<Rightarrow> mode = PRV_M
      | Some i \<Rightarrow> set (sectors a len) \<subseteq> pmp_region p i \<and> pmp_permits (pmpcfg p ! i) type mode)"

lemma pmp_loop_spec:
  "pmp_loop p a len type mode i k (pmp_base p i) = pmp_decision p a len type mode (find (pmp_covers p a len) [i..<i + k])"
proof (induction k arbitrary: i)
  case 0
  then show ?case
    by (simp add: pmp_decision_def)
next
  case (Suc k)
  have b: "pmp_tor p i = pmp_base p (Suc i)"
    by (simp add: pmp_base_def)
  have l: "[i..<i + Suc k] = i # [Suc i..<Suc i + k]"
    by (simp add: upt_rec)
  have c: "pmpcfg p ! i AND PMP_A \<noteq> 0 \<and> list_ex id (map (pmp_match p i (pmp_base p i)) (sectors a len)) \<longleftrightarrow> pmp_covers p a len i"
    by (auto simp: pmp_covers_def pmp_active_def list_ex_iff pmp_match_region)
  have al: "list_all id (map (pmp_match p i (pmp_base p i)) (sectors a len)) \<longleftrightarrow> set (sectors a len) \<subseteq> pmp_region p i"
    by (auto simp: list_all_iff pmp_match_region)
  show ?case
    unfolding pmp_loop.simps Let_def c al b Suc.IH l by (simp add: pmp_decision_def)
qed

lemma pmp_ok_spec:
  "pmp_ok p a len type mode \<longleftrightarrow>
     n_pmp p = 0 \<or> pmp_decision p a len type mode (find (pmp_covers p a len) [0..<n_pmp p])"
  using pmp_loop_spec[of p a len type mode 0 "n_pmp p"] by (simp add: pmp_ok_def pmp_base_def)

text \<open>
  C12: physical memory protection is the first-match rule. With entries configured, the lowest
  active entry whose region meets the access decides it: the access must lie in the region
  entirely and be permitted by the entry (machine mode passes an unlocked entry); without such an
  entry only machine mode passes. A region is the range below the entry's address, or the
  naturally aligned power of two its trailing ones encode.
\<close>

theorem pmp_ok_first_match:
  "pmp_ok p a len type mode \<longleftrightarrow>
     n_pmp p = 0 \<or> pmp_decision p a len type mode (find (pmp_covers p a len) [0..<n_pmp p])"
  by (rule pmp_ok_spec)

section \<open>Homogeneous pages\<close>

definition page :: "reg_t \<Rightarrow> reg_t set" where
  "page a = {c. drop_bit 12 c = drop_bit 12 a}"

lemma drop_12_unat: "unat (drop_bit 12 c) = unat c div 4096" for c :: reg_t
  by (simp add: drop_bit_eq_div unat_div)

lemma minus_page: "(- 4096 :: reg_t) = NOT (mask 12)"
  by (simp add: mask_numeral)

lemma unat_page_start: "unat (c AND - 4096) = unat c div 4096 * 4096" for c :: reg_t
proof -
  have "c AND - 4096 = push_bit 12 (drop_bit 12 c)"
    unfolding minus_page by (rule bit_word_eqI) (auto simp: bit_and_iff bit_not_iff bit_mask_iff bit_push_bit_iff bit_drop_bit_eq)
  moreover have "unat (push_bit 12 (drop_bit 12 c)) = unat (drop_bit 12 c) * 4096"
  proof -
    have "unat c < 2 ^ 64"
      using unsigned_less[where ?'b = 64 and ?'a = nat and w = c] by simp
    moreover have "unat c div 4096 * 4096 \<le> unat c"
      by simp
    ultimately have "unat (drop_bit 12 c) * unat (4096 :: reg_t) < 2 ^ 64"
      unfolding drop_12_unat by simp
    then show ?thesis
      using unat_mult_lem[of "drop_bit 12 c" "4096 :: reg_t"] unfolding push_bit_eq_mult by simp
  qed
  ultimately show ?thesis
    by (simp add: drop_12_unat)
qed

lemma page_less: "(a AND - 4096) < (b AND - 4096) \<longleftrightarrow> unat a div 4096 < unat b div 4096" for a b :: reg_t
  by (simp add: word_less_nat_alt unat_page_start)

lemma page_arith:
  fixes q r B T :: nat
  assumes "r < 4096" and "q < B div 4096 \<or> T \<le> 4096 * q \<or> B \<le> 4096 * q \<and> q < T div 4096"
  shows "B \<le> 4096 * q + r \<and> 4096 * q + r < T \<longleftrightarrow> B \<le> 4096 * q \<and> 4096 * q < T"
proof -
  have "4096 * (q + 1) \<le> X" if "q < X div 4096" for X
    using that by (simp add: less_eq_div_iff_mult_less_eq Suc_le_eq[symmetric] algebra_simps)
  from this[of B] this[of T] show ?thesis
    using assms by auto
qed

lemma tor_entry_homogeneous:
  assumes "take_bit 12 a = 0"
    and "(a AND - 4096) < (base AND - 4096) \<or> tor \<le> a \<or> base \<le> a \<and> (a AND - 4096) < (tor AND - 4096)"
    and "c \<in> page a"
  shows "c \<in> {base..<tor} \<longleftrightarrow> a \<in> {base..<tor}"
proof -
  have c: "unat c div 4096 = unat a div 4096"
    using assms(3) arg_cong[of _ _ unat] by (fastforce simp: page_def drop_12_unat[symmetric])
  have a: "unat a mod 4096 = 0"
    using arg_cong[OF assms(1), of unat] by (simp add: unat_take_bit_mod)
  have "unat a div 4096 < unat base div 4096 \<or> unat tor \<le> unat a \<or> unat base \<le> unat a \<and> unat a div 4096 < unat tor div 4096"
    using assms(2) by (simp add: page_less word_le_nat_alt)
  moreover have "unat a = 4096 * (unat a div 4096)" "unat c = 4096 * (unat a div 4096) + unat c mod 4096"
    using a c mult_div_mod_eq[of 4096 "unat a"] mult_div_mod_eq[of 4096 "unat c"] by simp_all
  ultimately show ?thesis
    unfolding atLeastLessThan_iff word_le_nat_alt word_less_nat_alt
    using page_arith[of "unat c mod 4096" "unat a div 4096" "unat base" "unat tor"] by simp
qed

lemma napot_entry_homogeneous:
  assumes "NOT (push_bit 1 (NOT (mask k))) AND 4096 \<noteq> (0 :: reg_t) \<or> (a XOR tor) div 4096 \<noteq> 0" and "2 \<le> k"
    and "c \<in> page a"
  shows "drop_bit k c = drop_bit k tor \<longleftrightarrow> drop_bit k a = drop_bit k (tor :: reg_t)"
proof (cases "12 \<le> k")
  case True
  then have "drop_bit k x = drop_bit (k - 12) (drop_bit 12 x)" for x :: reg_t
    by simp
  then show ?thesis
    using assms(3) by (simp add: page_def del: drop_bit_drop_bit)
next
  case False
  have "bit (NOT (push_bit 1 (NOT (mask k))) :: reg_t) 12 \<longleftrightarrow> 12 \<le> k"
    unfolding bit_not_iff bit_push_bit_iff bit_mask_iff by simp linarith
  then have "NOT (push_bit 1 (NOT (mask k))) AND 4096 = (0 :: reg_t)"
    using False and_exp_eq_0_iff_not_bit[of "NOT (push_bit 1 (NOT (mask k))) :: reg_t" 12] by simp
  then have "(a XOR tor) div 4096 \<noteq> 0"
    using assms(1) by simp
  then have "drop_bit 12 (a XOR tor) \<noteq> 0"
    by (simp add: drop_bit_eq_div)
  then have pages: "drop_bit 12 a \<noteq> drop_bit 12 tor"
    by (auto simp: drop_bit_xor)
  have up: "drop_bit 12 x = drop_bit 12 tor" if "drop_bit k x = drop_bit k tor" for x :: reg_t
  proof -
    have "drop_bit 12 y = drop_bit (12 - k) (drop_bit k y)" for y :: reg_t
      using False by simp
    then show ?thesis
      using that by (simp del: drop_bit_drop_bit)
  qed
  show ?thesis
    using up[of c] up[of a] pages assms(3) by (auto simp: page_def)
qed

lemma entry_homogeneous:
  assumes "pmp_entry_homogeneous p i (pmp_base p i) a 4096" and "take_bit 12 a = 0" and "c \<in> page a"
  shows "c \<in> pmp_region p i \<longleftrightarrow> a \<in> pmp_region p i"
proof (cases "pmpcfg p ! i AND PMP_A = PMP_TOR")
  case True
  then show ?thesis
    using assms(1) tor_entry_homogeneous[OF assms(2) _ assms(3), of "pmp_base p i" "pmp_tor p i"]
    by (simp add: pmp_entry_homogeneous_def Let_def pmp_region_def)
next
  case False
  have "2 \<le> pmp_order p i"
    by (simp add: pmp_order_def)
  from napot_entry_homogeneous[OF _ this assms(3), of "pmp_tor p i"] show ?thesis
    using assms(1) False unfolding pmp_entry_homogeneous_def Let_def pmp_region_def pmp_mask_order by simp
qed

lemma homogeneous_loop_entry:
  assumes "pmp_homogeneous_loop p a len i k (pmp_base p i)" and "i \<le> j" and "j < i + k" and "pmp_active p j"
  shows "pmp_entry_homogeneous p j (pmp_base p j) a len"
  using assms
proof (induction k arbitrary: i)
  case (Suc k)
  have b: "pmp_tor p i = pmp_base p (Suc i)"
    by (simp add: pmp_base_def)
  show ?case
  proof (cases "j = i")
    case True
    then show ?thesis
      using Suc(2,5) by (auto simp: pmp_active_def split: if_splits)
  next
    case False
    then show ?thesis
      using Suc(1)[of "Suc i"] Suc(2-5) by (auto simp: b split: if_splits)
  qed
qed simp

lemma pmp_ok_uniform:
  assumes "pmp_homogeneous p a 4096 = Some True" and "set (sectors b n) \<subseteq> page a" and "set (sectors b' n') \<subseteq> page a"
    and "sectors b n \<noteq> []" and "sectors b' n' \<noteq> []"
  shows "pmp_ok p b n type mode = pmp_ok p b' n' type mode"
proof -
  have hom: "pmp_homogeneous_loop p a 4096 0 (n_pmp p) (pmp_base p 0)" and al: "(a OR 4096) AND 4095 = 0"
    using assms(1) by (auto simp: pmp_homogeneous_def pmp_base_def split: if_splits)
  have a: "take_bit 12 a = 0"
    using al by (simp add: bit.conj_disj_distrib2 take_bit_eq_mask mask_numeral)
  have e: "c \<in> pmp_region p i \<longleftrightarrow> a \<in> pmp_region p i" if "i < n_pmp p" "pmp_active p i" "c \<in> page a" for i c
    using entry_homogeneous[OF homogeneous_loop_entry[OF hom] a that(3)] that by simp
  have cover: "pmp_covers p x l i \<longleftrightarrow> pmp_active p i \<and> a \<in> pmp_region p i"
    if "i < n_pmp p" "set (sectors x l) \<subseteq> page a" "sectors x l \<noteq> []" for x l i
    using that e[OF that(1)] unfolding pmp_covers_def by (metis subsetD list.set_sel(1))
  have "find (pmp_covers p b n) [0..<n_pmp p] = find (pmp_covers p b' n') [0..<n_pmp p]"
    by (rule find_cong) (use cover assms(2-5) in auto)
  moreover have "set (sectors b n) \<subseteq> pmp_region p i \<longleftrightarrow> set (sectors b' n') \<subseteq> pmp_region p i"
    if "find (pmp_covers p b n) [0..<n_pmp p] = Some i" for i
  proof -
    have "i < n_pmp p" "pmp_active p i"
      using that by (auto simp: find_Some_iff pmp_covers_def)
    then show ?thesis
      using e assms(2-5) by (metis subsetD subsetI list.set_sel(1))
  qed
  ultimately show ?thesis
    unfolding pmp_ok_spec pmp_decision_def by (cases "find (pmp_covers p b' n') [0..<n_pmp p]") simp_all
qed

text \<open>
  C26: the MMU caches a page only when the protection cannot tell its addresses apart. If the page
  is homogeneous, any two accesses inside it, wherever they are and however long, get the same
  answer for the same kind of access and mode.
\<close>

theorem homogeneous_page_uniform:
  assumes "pmp_homogeneous p a 4096 = Some True" and "set (sectors b n) \<subseteq> page a" and "set (sectors b' n') \<subseteq> page a"
    and "sectors b n \<noteq> []" and "sectors b' n' \<noteq> []"
  shows "pmp_ok p b n type mode = pmp_ok p b' n' type mode"
  by (rule pmp_ok_uniform[OF assms])

lemma homogeneous_page_uniform_witness:
  "let p = example_supervisor\<lparr>n_pmp := 1\<rparr> in pmp_ok p 0x80000010 4 LOAD 1 = pmp_ok p 0x80000ff8 8 LOAD 1"
proof -
  define p where "p = example_supervisor\<lparr>n_pmp := 1\<rparr>"
  have "pmp_mask p 0 = 0xFFFFFFFE00000000" "n_pmp p = Suc 0" "pmpcfg p ! 0 = 0x1F" "pmp_tor p 0 = 0xFFFFFFFC"
    by (simp_all add: pmp_mask_def pmp_tor_def pmp_tor_mask_def p_def example_supervisor_def example_hart_def Let_def)
  then have "pmp_homogeneous p 0x80000000 4096 = Some True"
    by (simp add: pmp_homogeneous_def pmp_entry_homogeneous_def Let_def)
  then show ?thesis
    unfolding p_def[symmetric] Let_def by (rule homogeneous_page_uniform) (simp_all add: sectors_def page_def upt_rec)
qed

end
