(* ===== verification/RV_Faults.thy ===== *)
theory RV_Faults
  imports RV_PMP
begin

text \<open>
  How a translation can end: with an address that the protection allows, or with a fault that
  names the address and the kind of access; never with an abort of the simulator.
\<close>

section \<open>Faults\<close>






























end
