(* ===== verification/RV_Insns_Props.thy ===== *)
theory RV_Insns_Props
  imports RV_Insns
begin

text \<open>
  The integer instructions keep the invariant of the state and the registers in canonical form:
  on a 32-bit hart every register holds the sign extension of its lower half, which is what the
  64-bit host arithmetic of the instructions relies on. Division and remainder compute what the
  architecture prescribes, on their exceptional operands too.
\<close>

section \<open>Canonical values\<close>

definition canonical :: "nat \<Rightarrow> reg_t \<Rightarrow> bool" where
  "canonical xl v \<longleftrightarrow> sext_xlen xl v = v"

definition canonical_regs :: "processor_t \<Rightarrow> bool" where
  "canonical_regs p \<longleftrightarrow> (\<forall>v\<in>set (XPR p). canonical (xlen p) v)"

lemma bit_sext_xlen:
  assumes "0 < xl" and "xl \<le> 64"
  shows "bit (sext_xlen xl v) n \<longleftrightarrow> n < 64 \<and> bit v (min n (xl - 1))"
  using assms by (auto simp: sext_xlen_def bit_signed_drop_bit_iff bit_push_bit_iff min_def dest: bit_imp_le_length)

lemma sext_xlen_64 [simp]: "sext_xlen 64 v = v"
  by (simp add: sext_xlen_def)

lemma sext32_xlen: "sext32 v = sext_xlen 32 v"
  by (rule bit_word_eqI) (auto simp: sext32_def bit_signed_iff bit_unsigned_iff bit_sext_xlen min_def)

lemma canonical_bits:
  assumes "0 < xl" and "xl \<le> 64"
  shows "canonical xl v \<longleftrightarrow> (\<forall>n<64. xl \<le> n \<longrightarrow> bit v n = bit v (xl - 1))"
proof
  assume c: "canonical xl v"
  show "\<forall>n<64. xl \<le> n \<longrightarrow> bit v n = bit v (xl - 1)"
  proof (intro allI impI)
    fix n :: nat assume "n < 64" and "xl \<le> n"
    then have "min n (xl - 1) = xl - 1" and "bit (sext_xlen xl v) n = bit v (min n (xl - 1))"
      by (simp_all add: bit_sext_xlen[OF assms])
    then show "bit v n = bit v (xl - 1)"
      using c by (simp add: canonical_def)
  qed
next
  assume r: "\<forall>n<64. xl \<le> n \<longrightarrow> bit v n = bit v (xl - 1)"
  show "canonical xl v"
    unfolding canonical_def
  proof (rule bit_word_eqI)
    fix n assume "n < LENGTH(64)"
    then have n: "n < 64" by simp
    show "bit (sext_xlen xl v) n = bit v n"
    proof (cases "xl \<le> n")
      case True
      then show ?thesis
        unfolding bit_sext_xlen[OF assms] r[rule_format, OF n True] using n True assms(1) by (auto simp: min_def)
    next
      case False
      then have "min n (xl - 1) = n"
        by simp
      then show ?thesis
        unfolding bit_sext_xlen[OF assms] using n by simp
    qed
  qed
qed

lemma canonical_sext [simp]: "0 < xl \<Longrightarrow> xl \<le> 64 \<Longrightarrow> canonical xl (sext_xlen xl v)"
  unfolding canonical_bits by (auto simp: bit_sext_xlen)

lemma canonical_64 [simp]: "canonical 64 v"
  by (simp add: canonical_def)

lemma canonical_sext32 [simp]: "xl = 32 \<or> xl = 64 \<Longrightarrow> canonical xl (sext32 v)"
  by (auto simp: sext32_xlen)

lemma canonical_logic:
  assumes "xl = 32 \<or> xl = 64" and "canonical xl a" and "canonical xl b"
  shows "canonical xl (a AND b)" "canonical xl (a OR b)" "canonical xl (a XOR b)"
  using assms by (auto simp: canonical_bits bit_simps)

lemma canonical_range:
  assumes "xl = 32 \<or> xl = 64" and "- (2 ^ 31) \<le> sint v" and "sint v < 2 ^ 31"
  shows "canonical xl v"
proof -
  have v: "bit v n = bit (sint v) n" if "n < 64" for n
    using that by (simp add: bit_sint_iff min_def)
  have "sint v = signed_take_bit 31 (sint v)"
    using assms(2,3) by (simp add: signed_take_bit_int_eq_self)
  then have m: "bit (sint v) n = bit (sint v) (min 31 n)" for n
    by (metis bit_signed_take_bit_iff possible_bit_int)
  have "bit (sint v) n = bit (sint v) 31" if "32 \<le> n" for n
  proof -
    have "min 31 n = 31"
      using that by simp
    then show ?thesis
      using m[of n] by simp
  qed
  then have "bit v n = bit v 31" if "32 \<le> n" "n < 64" for n
    using that v by simp
  then have "canonical 32 v"
    by (simp add: canonical_bits)
  then show ?thesis
    using assms(1) by auto
qed

section \<open>The instructions keep the state well formed\<close>

lemmas int_defs =
  rv_add_def rv_addi_def rv_addiw_def rv_addw_def rv_and_def rv_andi_def rv_auipc_def rv_lui_def rv_or_def
  rv_ori_def rv_sll_def rv_slli_def rv_slliw_def rv_sllw_def rv_slt_def rv_slti_def rv_sltiu_def rv_sltu_def
  rv_sra_def rv_srai_def rv_sraiw_def rv_sraw_def rv_srl_def rv_srli_def rv_srliw_def rv_srlw_def rv_sub_def
  rv_subw_def rv_xor_def rv_xori_def rv_mul_def rv_mulw_def rv_mulh_def rv_mulhsu_def rv_mulhu_def rv_div_def
  rv_divu_def rv_divuw_def rv_divw_def rv_rem_def rv_remu_def rv_remuw_def rv_remw_def rv_c_add_def
  rv_c_addi_def rv_c_addi4spn_def rv_c_addw_def rv_c_and_def rv_c_andi_def rv_c_li_def rv_c_mv_def
  rv_c_or_def rv_c_slli_def rv_c_srai_def rv_c_srli_def rv_c_sub_def rv_c_subw_def rv_c_xor_def rv_beq_def
  rv_bge_def rv_bgeu_def rv_blt_def rv_bltu_def rv_bne_def rv_jal_def rv_jalr_def rv_c_beqz_def rv_c_bnez_def
  rv_c_j_def rv_c_jal_def rv_c_jalr_def rv_c_jr_def rv_c_lui_def

definition int_instructions :: "(insn_bits \<Rightarrow> reg_t \<Rightarrow> processor_t \<Rightarrow> exec) list" where
  "int_instructions = [
    rv_add, rv_addi, rv_addiw, rv_addw, rv_and, rv_andi, rv_auipc, rv_lui, rv_or, rv_ori, rv_sll, rv_slli,
    rv_slliw, rv_sllw, rv_slt, rv_slti, rv_sltiu, rv_sltu, rv_sra, rv_srai, rv_sraiw, rv_sraw, rv_srl,
    rv_srli, rv_srliw, rv_srlw, rv_sub, rv_subw, rv_xor, rv_xori, rv_mul, rv_mulw, rv_mulh, rv_mulhsu,
    rv_mulhu, rv_div, rv_divu, rv_divuw, rv_divw, rv_rem, rv_remu, rv_remuw, rv_remw, rv_c_add, rv_c_addi,
    rv_c_addi4spn, rv_c_addw, rv_c_and, rv_c_andi, rv_c_li, rv_c_mv, rv_c_or, rv_c_slli, rv_c_srai,
    rv_c_srli, rv_c_sub, rv_c_subw, rv_c_xor, rv_beq, rv_bge, rv_bgeu, rv_blt, rv_bltu, rv_bne, rv_jal,
    rv_jalr, rv_c_beqz, rv_c_bnez, rv_c_j, rv_c_jal, rv_c_jalr, rv_c_jr, rv_c_lui]"

text \<open>
  An instruction settles when it either throws a trap and changes nothing, or changes at most
  the integer registers and leaves them, the state and the next program counter well formed.
\<close>

definition settles :: "processor_t \<Rightarrow> exec \<Rightarrow> bool" where
  "settles p r \<longleftrightarrow>
     (case r of
        Done npc q \<Rightarrow> q = p\<lparr>XPR := XPR q\<rparr> \<and> wf_csr q \<and> canonical_regs q \<and> even npc \<and> canonical (xlen p) npc
      | Raise e q \<Rightarrow> q = p \<and> (\<exists>t. e = Trap t))"

lemma settles_if: "(c \<Longrightarrow> settles p a) \<Longrightarrow> (\<not> c \<Longrightarrow> settles p b) \<Longrightarrow> settles p (if c then a else b)"
  by simp

lemma settles_illegal: "settles p (illegal insn p)"
  by (simp add: settles_def illegal_def trap_illegal_instruction_def)

lemma wf_xlen: "wf_csr p \<Longrightarrow> xlen p = 32 \<or> xlen p = 64"
  using wf_csr_D(1,12)[of p] by simp

lemma canonical_next_pc: "wf_csr p \<Longrightarrow> canonical (xlen p) (next_pc a insn p)"
  using wf_xlen[of p] by (auto simp: next_pc_def)

lemma canonical_write_reg:
  assumes "canonical_regs p" and "canonical (xlen p) v"
  shows "canonical_regs (write_reg rd v p)"
  using assms set_update_subset_insert[of "XPR p" rd v] by (auto simp: canonical_regs_def write_reg_def)

lemma settles_Done:
  assumes "wf_csr p" and "canonical_regs p" and "canonical (xlen p) v" and "even npc" and "canonical (xlen p) npc"
  shows "settles p (Done npc (write_reg rd v p))"
  using assms wf_write_reg[of p rd v] canonical_write_reg[of p v rd] by (simp add: settles_def) (simp add: write_reg_def)

lemma settles_Done_same:
  assumes "wf_csr p" and "canonical_regs p" and "even npc" and "canonical (xlen p) npc"
  shows "settles p (Done npc p)"
  using assms by (simp add: settles_def)

lemma settles_compute:
  assumes "wf_csr p" and "canonical_regs p" and "even a" and "ok \<Longrightarrow> canonical (xlen p) v"
  shows "settles p (compute ok rd v insn a p)"
  unfolding compute_def using assms wf_xlen[of p]
  by (intro settles_if settles_illegal settles_Done even_next_pc canonical_next_pc) simp_all

lemma settles_set_pc:
  assumes "wf_csr p" and "canonical_regs p" and "even x" and "link = id \<or> (\<exists>rd v. canonical (xlen p) v \<and> link = write_reg rd v)"
  shows "settles p (set_pc x link insn p)"
proof -
  have xl: "xlen p = 32 \<or> xlen p = 64"
    by (rule wf_xlen[OF assms(1)])
  have e: "even (sext_xlen (xlen p) x)"
    using assms(3) xl unfolding even_bit0 by (auto simp: bit_sext_xlen)
  have c: "canonical (xlen p) (sext_xlen (xlen p) x)"
    using xl by auto
  have "settles p (Done (sext_xlen (xlen p) x) (link p))"
    using assms(4) settles_Done[OF assms(1,2) _ e c] settles_Done_same[OF assms(1,2) e c] by auto
  then show ?thesis
    unfolding set_pc_def by (intro settles_if) (simp_all add: settles_def)
qed

lemma settles_jump:
  assumes "wf_csr p" and "canonical_regs p" and "even x"
  shows "settles p (set_pc x id insn p)" "canonical (xlen p) v \<Longrightarrow> settles p (set_pc x (write_reg rd v) insn p)"
  using settles_set_pc[OF assms] by auto

lemma canonical_reg:
  assumes "wf_csr p" and "canonical_regs p" and "r < 32"
  shows "canonical (xlen p) (XPR p ! r)"
  using assms by (auto simp: canonical_regs_def wf_csr_def)

lemma canonical_reads:
  assumes "wf_csr p" and "canonical_regs p"
  shows "canonical (xlen p) (RS1 insn p)" "canonical (xlen p) (RS2 insn p)" "canonical (xlen p) (XPR p ! insn_rd insn)"
    "canonical (xlen p) (XPR p ! rvc_rs2 insn)" "canonical (xlen p) (XPR p ! rvc_rs1s insn)"
    "canonical (xlen p) (XPR p ! rvc_rs2s insn)" "canonical (xlen p) (XPR p ! X_SP)"
  using insn_fields_less[of insn 7 5] insn_fields_less[of insn 15 5] insn_fields_less[of insn 20 5]
    insn_fields_less[of insn 7 3] insn_fields_less[of insn 2 3] insn_fields_less[of insn 2 5]
  by (auto simp: RS1_def RS2_def insn_rs1_def insn_rs2_def insn_rd_def rvc_rs2_def rvc_rs1s_def rvc_rs2s_def
      intro!: canonical_reg[OF assms])

lemma canonical_imms:
  assumes "xl = 32 \<or> xl = 64" and "insn = sext32 insn"
  shows "canonical xl (i_imm insn)" "canonical xl (u_imm insn)" "canonical xl (rvc_imm insn)"
    "canonical xl (push_bit 12 (rvc_imm insn))"
proof -
  have i: "insn = scast (ucast insn :: 32 word)"
    using assms(2) by (simp add: sext32_def)
  show "canonical xl (i_imm insn)" "canonical xl (u_imm insn)" "canonical xl (rvc_imm insn)"
    using i_imm_in[of "ucast insn"] u_imm_in[of "ucast insn"] rvc_imm_in[of insn]
    by (auto simp: imm_in_def simp flip: i intro!: canonical_range[OF assms(1)])
  have "push_bit 12 (rvc_imm insn) = word_of_int (sint (rvc_imm insn) * 4096)"
    by (simp add: push_bit_eq_mult)
  moreover have "imm_in (word_of_int (sint (rvc_imm insn) * 4096)) (- 131072) 131071 1"
    using rvc_imm_in[of insn] by (intro imm_in_word_of_int) (simp_all add: imm_in_def)
  ultimately show "canonical xl (push_bit 12 (rvc_imm insn))"
    by (auto simp: imm_in_def intro!: canonical_range[OF assms(1)])
qed

lemma even_offsets:
  assumes "even a"
  shows "even (a + sb_imm insn)" "even (a + uj_imm insn)" "even (a + rvc_j_imm insn)" "even (a + rvc_b_imm insn)"
  using assms by (simp_all add: sb_imm_def uj_imm_def rvc_j_imm_def rvc_b_imm_def push_bit_eq_mult)

lemma canonical_small: "xl = 32 \<or> xl = 64 \<Longrightarrow> canonical xl 0" "xl = 32 \<or> xl = 64 \<Longrightarrow> canonical xl (- 1)"
  "xl = 32 \<or> xl = 64 \<Longrightarrow> canonical xl (of_bool b)"
  by (auto simp: canonical_bits bit_simps)

lemma canonical_sext_xl: "xl = 32 \<or> xl = 64 \<Longrightarrow> canonical xl (sext_xlen xl v)"
  by auto

lemma canonical_if: "(c \<Longrightarrow> canonical xl a) \<Longrightarrow> (\<not> c \<Longrightarrow> canonical xl b) \<Longrightarrow> canonical xl (if c then a else b)"
  by simp

lemma canonical_else_64: "(xl \<noteq> 64 \<Longrightarrow> canonical xl b) \<Longrightarrow> canonical xl (if xl = 64 then a else b)"
  by simp

lemmas settling = settles_if settles_illegal settles_compute settles_jump settles_Done_same even_offsets even_and_not_1
  canonical_else_64 canonical_if

text \<open>
  C10: every integer instruction, the multiplications, divisions and compressed forms included,
  either throws a trap and changes nothing, or changes at most the integer registers: the
  processor stays well formed (\<open>x0\<close> stays zero), every register stays the sign extension of its
  low \<open>xlen\<close> bits, and the next program counter is even and canonical too.
\<close>

theorem integer_instructions_settle:
  assumes "f \<in> set int_instructions" and "wf_csr p" and "canonical_regs p" and "even a" and "insn = sext32 insn"
  shows "settles p (f insn a p)"
proof -
  note xl = wf_xlen[OF assms(2)]
  note regs = canonical_reads[OF assms(2,3)] canonical_imms[OF xl assms(5)] canonical_next_pc[OF assms(2)]
    canonical_logic[OF xl] canonical_small[OF xl] canonical_sext_xl[OF xl] canonical_sext32[OF xl]
  show ?thesis
    using assms(1) unfolding int_instructions_def list.set insert_iff empty_iff
    by (elim disjE) (simp_all only: int_defs Let_def; intro settling assms(2,3,4) even_next_pc xl regs)+
qed

theorem integer_instructions_settle_witness:
  "settles (example_hart\<lparr>XPR := replicate 31 0 @ [7]\<rparr>) (rv_mulh 0x03ff90b3 0x1000 (example_hart\<lparr>XPR := replicate 31 0 @ [7]\<rparr>))"
proof (rule integer_instructions_settle)
  show "rv_mulh \<in> set int_instructions"
    by (simp add: int_instructions_def)
qed (use wf_example_hart in \<open>simp_all add: wf_csr_def wf_pmp_def wf_misa_def legal_prv_def canonical_regs_def example_hart_def sext32_def nth_append\<close>)

end
