(* ===== verification/RV_MulDiv.thy ===== *)
theory RV_MulDiv
  imports RV_Insns_Props
begin

text \<open>
  The multiplication and division instructions compute what the architecture prescribes, over
  the integers, for both register widths and for the exceptional operands.
\<close>

definition signed_of :: "nat \<Rightarrow> reg_t \<Rightarrow> int" where
  "signed_of w x = sint (sext_xlen w x)"

definition unsigned_of :: "nat \<Rightarrow> reg_t \<Rightarrow> int" where
  "unsigned_of w x = uint (zext_xlen w x)"

text \<open>
  Division truncates; by zero it gives the all-ones value, and the remainder the dividend. The
  quotient of the most negative number by minus one wraps around.
\<close>

definition quotient :: "int \<Rightarrow> int \<Rightarrow> int" where
  "quotient a b = (if b = 0 then - 1 else a sdiv b)"

definition remainder :: "int \<Rightarrow> int \<Rightarrow> int" where
  "remainder a b = (if b = 0 then a else a smod b)"

text \<open>The result of an instruction is an integer, reduced to the width and sign-extended.\<close>

definition yields :: "nat \<Rightarrow> int \<Rightarrow> insn_bits \<Rightarrow> reg_t \<Rightarrow> processor_t \<Rightarrow> exec" where
  "yields w z insn a p = Done (next_pc a insn p) (write_reg (insn_rd insn) (sext_xlen w (word_of_int z)) p)"

section \<open>Words of a width\<close>

lemma sext_xlen_cong:
  assumes "w = 32 \<or> w = 64" and "z mod 2 ^ w = z' mod 2 ^ w"
  shows "sext_xlen w (word_of_int z) = sext_xlen w (word_of_int z')"
proof (rule bit_word_eqI)
  fix n assume "n < LENGTH(64)"
  have b: "bit z k = bit z' k" if "k < w" for k
    using that arg_cong[OF assms(2), of "\<lambda>x. bit x k"] by (simp add: bit_take_bit_iff flip: take_bit_eq_mod)
  show "bit (sext_xlen w (word_of_int z)) n = bit (sext_xlen w (word_of_int z')) n"
    using assms(1) b[of "min n (w - 1)"] by (auto simp: bit_sext_xlen bit_word_of_int_iff min_def)
qed

lemma sext_xlen_word:
  assumes "w = 32 \<or> w = 64"
  shows "sext_xlen w x = sext_xlen w (word_of_int (sint (sext_xlen w x)))"
    "sint (sext_xlen w x) mod 2 ^ w = uint x mod 2 ^ w" "uint (zext_xlen w x) = uint x mod 2 ^ w"
proof -
  show "sext_xlen w x = sext_xlen w (word_of_int (sint (sext_xlen w x)))"
    using assms canonical_sext_xl[of w x] by (auto simp: canonical_def)
  have t: "take_bit w (sint (sext_xlen w x)) = take_bit w (uint x)"
  proof (rule bit_eqI)
    fix n
    show "bit (take_bit w (sint (sext_xlen w x))) n = bit (take_bit w (uint x)) n"
      using assms by (auto simp: bit_take_bit_iff bit_sint_iff bit_uint_iff bit_sext_xlen min_def)
  qed
  then show "sint (sext_xlen w x) mod 2 ^ w = uint x mod 2 ^ w"
    by (simp add: take_bit_eq_mod)
  have "uint (zext_xlen w x) = take_bit w (uint x)"
  proof (rule bit_eqI)
    fix n
    show "bit (uint (zext_xlen w x)) n = bit (take_bit w (uint x)) n"
      using assms zext_xlen_bit[of w x n] by (auto simp: bit_take_bit_iff bit_uint_iff)
  qed
  then show "uint (zext_xlen w x) = uint x mod 2 ^ w"
    by (simp add: take_bit_eq_mod)
qed

lemma width_mods:
  assumes "w = 32 \<or> w = 64"
  shows "signed_of w x mod 2 ^ w = uint x mod 2 ^ w" "unsigned_of w x mod 2 ^ w = uint x mod 2 ^ w"
  using sext_xlen_word[OF assms] by (simp_all add: signed_of_def unsigned_of_def)

lemma zext32_xlen: "zext32 x = zext_xlen 32 x"
  by (rule bit_word_eqI) (auto simp: zext32_def bit_unsigned_iff zext_xlen_bit bit_simps)

lemma signed_words: "sext_xlen w x = word_of_int (signed_of w x)" "zext_xlen w x = word_of_int (unsigned_of w x)"
  by (simp_all add: signed_of_def unsigned_of_def)

section \<open>The computations\<close>

lemma product_low:
  assumes "w = 32 \<or> w = 64"
  shows "sext_xlen w (x * y) = sext_xlen w (word_of_int (signed_of w x * signed_of w y))"
proof -
  have "x * y = word_of_int (uint x * uint y)"
    by simp
  also have "sext_xlen w (word_of_int (uint x * uint y)) = sext_xlen w (word_of_int (signed_of w x * signed_of w y))"
    by (intro sext_xlen_cong[OF assms] mod_mult_cong width_mods(1)[OF assms, symmetric])
  finally show ?thesis .
qed

lemma product_high_32:
  "sext_xlen 32 (drop_bit 32 (word_of_int z)) = sext_xlen 32 (word_of_int (z div 2 ^ 32))"
  "sext_xlen 32 (signed_drop_bit 32 (word_of_int z)) = sext_xlen 32 (word_of_int (z div 2 ^ 32))"
  unfolding drop_bit_eq_div[symmetric]
  by (rule bit_word_eqI; auto simp: bit_sext_xlen bit_drop_bit_eq bit_signed_drop_bit_iff bit_word_of_int_iff min_def)+

lemma of_64: "signed_of 64 x = sint x" "unsigned_of 64 x = uint x"
  by (simp_all add: signed_of_def unsigned_of_def zext_xlen_def)

lemma product_high:
  assumes "w = 32 \<or> w = 64"
  shows "(if w = 64 then mulh x y else sext32 (signed_drop_bit 32 (sext32 x * sext32 y)))
      = sext_xlen w (word_of_int (signed_of w x * signed_of w y div 2 ^ w))"
    "(if w = 64 then mulhsu x y else sext32 (drop_bit 32 (sext32 x * zext32 y)))
      = sext_xlen w (word_of_int (signed_of w x * unsigned_of w y div 2 ^ w))"
    "(if w = 64 then mulhu x y else sext32 (drop_bit 32 (zext32 x * zext32 y)))
      = sext_xlen w (word_of_int (unsigned_of w x * unsigned_of w y div 2 ^ w))"
proof -
  have u: "mulhu x y = word_of_int (uint x * uint y div 2 ^ 64)"
    using mulhu_int[of x y] by (metis word_of_int_uint)
  have p: "sext32 x * sext32 y = word_of_int (signed_of 32 x * signed_of 32 y)"
    "sext32 x * zext32 y = word_of_int (signed_of 32 x * unsigned_of 32 y)"
    "zext32 x * zext32 y = word_of_int (unsigned_of 32 x * unsigned_of 32 y)"
    by (simp_all only: sext32_xlen zext32_xlen signed_words wi_hom_mult)
  have s: "sext32 (drop_bit 32 (word_of_int z)) = sext_xlen 32 (word_of_int (z div 2 ^ 32))"
    "sext32 (signed_drop_bit 32 (word_of_int z)) = sext_xlen 32 (word_of_int (z div 2 ^ 32))" for z
    by (simp_all only: sext32_xlen product_high_32)
  consider "w = 64" | "w = 32"
    using assms by blast
  note c = this
  show "(if w = 64 then mulh x y else sext32 (signed_drop_bit 32 (sext32 x * sext32 y)))
      = sext_xlen w (word_of_int (signed_of w x * signed_of w y div 2 ^ w))"
    by (cases rule: c) (simp_all only: if_True if_False refl sext_xlen_64 of_64 mulh_int p s simp_thms numeral_eq_iff semiring_norm)
  show "(if w = 64 then mulhsu x y else sext32 (drop_bit 32 (sext32 x * zext32 y)))
      = sext_xlen w (word_of_int (signed_of w x * unsigned_of w y div 2 ^ w))"
    by (cases rule: c) (simp_all only: if_True if_False refl sext_xlen_64 of_64 mulhsu_int p s simp_thms numeral_eq_iff semiring_norm)
  show "(if w = 64 then mulhu x y else sext32 (drop_bit 32 (zext32 x * zext32 y)))
      = sext_xlen w (word_of_int (unsigned_of w x * unsigned_of w y div 2 ^ w))"
    by (cases rule: c) (simp_all only: if_True if_False refl sext_xlen_64 of_64 u p s simp_thms numeral_eq_iff semiring_norm)
qed

lemma signed_quotient:
  assumes "w = 32 \<or> w = 64"
  shows "(let lhs = sext_xlen w x; rhs = sext_xlen w y in
          if rhs = 0 then - 1 else if lhs = 0x8000000000000000 \<and> rhs = - 1 then lhs
          else sext_xlen w (word_of_int (sint lhs sdiv sint rhs)))
        = sext_xlen w (word_of_int (quotient (signed_of w x) (signed_of w y)))"
proof (cases "sext_xlen w y = 0")
  case True
  then show ?thesis
    using assms canonical_small(2)[of w] by (simp add: quotient_def signed_of_def canonical_def)
next
  case False
  then have n: "signed_of w y \<noteq> 0"
    by (simp add: signed_of_def signed_eq_0_iff)
  show ?thesis
  proof (cases "sext_xlen w x = 0x8000000000000000 \<and> sext_xlen w y = - 1")
    case True
    then have "signed_of w x = - (2 ^ 63)" and "signed_of w y = - 1"
      by (simp_all add: signed_of_def)
    moreover have "sext_xlen w (word_of_int (2 ^ 63)) = sext_xlen w x"
    proof -
      have "sext_xlen w x = sext_xlen w (word_of_int (signed_of w x))"
        unfolding signed_of_def by (rule sext_xlen_word(1)[OF assms])
      also have "\<dots> = sext_xlen w (word_of_int (- (2 ^ 63)))"
        using \<open>signed_of w x = - (2 ^ 63)\<close> by simp
      also have "(word_of_int (- (2 ^ 63)) :: reg_t) = word_of_int (2 ^ 63)"
        by simp
      finally show ?thesis ..
    qed
    ultimately show ?thesis
      using True False n by (simp add: quotient_def Let_def)
  next
    case False
    with \<open>sext_xlen w y \<noteq> 0\<close> n show ?thesis
      unfolding Let_def signed_of_def[symmetric] by (simp only: if_False quotient_def)
  qed
qed

lemma signed_remainder:
  assumes "w = 32 \<or> w = 64"
  shows "(let lhs = sext_xlen w x; rhs = sext_xlen w y in
          if rhs = 0 then lhs else if lhs = 0x8000000000000000 \<and> rhs = - 1 then 0
          else sext_xlen w (word_of_int (sint lhs smod sint rhs)))
        = sext_xlen w (word_of_int (remainder (signed_of w x) (signed_of w y)))"
proof -
  have x: "sext_xlen w x = sext_xlen w (word_of_int (signed_of w x))"
    unfolding signed_of_def by (rule sext_xlen_word(1)[OF assms])
  show ?thesis
  proof (cases "sext_xlen w y = 0")
    case True
    then show ?thesis
      using x by (simp add: remainder_def) (simp add: signed_of_def)
  next
    case False
    then have n: "signed_of w y \<noteq> 0"
      by (simp add: signed_of_def signed_eq_0_iff)
    have z: "sext_xlen w (word_of_int (a smod - 1)) = 0" for a
      using canonical_small(1)[OF assms] by (simp add: signed_modulo_int_def canonical_def)
    have "sext_xlen w y = - 1 \<Longrightarrow> signed_of w y = - 1"
      by (simp add: signed_of_def)
    then show ?thesis
      using False n z unfolding Let_def signed_of_def[symmetric] remainder_def by simp
  qed
qed

lemma nonnegative_division:
  fixes k l :: int
  assumes "0 \<le> k" and "0 \<le> l"
  shows "k sdiv l = k div l" "k smod l = k mod l"
  using assms by (auto simp: signed_divide_int_def signed_modulo_int_def sgn_if)

lemma unsigned_quotient:
  assumes "w = 32 \<or> w = 64"
  shows "(let lhs = zext_xlen w x; rhs = zext_xlen w y in if rhs = 0 then - 1 else sext_xlen w (lhs div rhs))
        = sext_xlen w (word_of_int (quotient (unsigned_of w x) (unsigned_of w y)))"
proof (cases "zext_xlen w y = 0")
  case True
  then show ?thesis
    using assms canonical_small(2)[of w] by (simp add: quotient_def unsigned_of_def canonical_def)
next
  case False
  then have "unsigned_of w y \<noteq> 0"
    by (simp add: unsigned_of_def unsigned_eq_0_iff)
  moreover have "zext_xlen w x div zext_xlen w y = word_of_int (unsigned_of w x sdiv unsigned_of w y)"
    by (simp add: word_div_def unsigned_of_def nonnegative_division)
  ultimately show ?thesis
    using False by (simp add: quotient_def)
qed

lemma unsigned_remainder:
  assumes "w = 32 \<or> w = 64" and "sext_xlen w z = sext_xlen w x"
  shows "(let lhs = zext_xlen w x; rhs = zext_xlen w y in if rhs = 0 then sext_xlen w z else sext_xlen w (lhs mod rhs))
        = sext_xlen w (word_of_int (remainder (unsigned_of w x) (unsigned_of w y)))"
proof (cases "zext_xlen w y = 0")
  case True
  have "sext_xlen w z = sext_xlen w (word_of_int (uint x))"
    using assms(2) by simp
  also have "\<dots> = sext_xlen w (word_of_int (unsigned_of w x))"
    by (rule sext_xlen_cong[OF assms(1) width_mods(2)[OF assms(1), symmetric]])
  finally show ?thesis
    using True by (simp add: remainder_def unsigned_of_def)
next
  case False
  then have "unsigned_of w y \<noteq> 0"
    by (simp add: unsigned_of_def unsigned_eq_0_iff)
  moreover have "zext_xlen w x mod zext_xlen w y = word_of_int (unsigned_of w x smod unsigned_of w y)"
    by (simp add: word_mod_def unsigned_of_def nonnegative_division)
  ultimately show ?thesis
    using False by (simp add: remainder_def)
qed

lemma sext_zext: "sext_xlen 32 (zext_xlen 32 x) = sext_xlen 32 x"
  by (rule bit_word_eqI) (auto simp: bit_sext_xlen zext_xlen_bit min_def)

text \<open>The word variants omit the test for overflow: their operands are too small for it.\<close>

lemma word_not_min: "sext_xlen 32 x \<noteq> 0x8000000000000000"
proof
  assume m: "sext_xlen 32 x = 0x8000000000000000"
  have "bit (sext_xlen 32 x) 62 = bit (sext_xlen 32 x) 63"
    by (simp add: bit_sext_xlen min_def)
  then show False
    unfolding m by simp
qed

lemma signed_word_division:
  "(let lhs = sext_xlen 32 x; rhs = sext_xlen 32 y in
    if rhs = 0 then - 1 else sext_xlen 32 (word_of_int (sint lhs sdiv sint rhs)))
   = sext_xlen 32 (word_of_int (quotient (signed_of 32 x) (signed_of 32 y)))"
  "(let lhs = sext_xlen 32 x; rhs = sext_xlen 32 y in
    if rhs = 0 then lhs else sext_xlen 32 (word_of_int (sint lhs smod sint rhs)))
   = sext_xlen 32 (word_of_int (remainder (signed_of 32 x) (signed_of 32 y)))"
  using signed_quotient[of 32 x y] signed_remainder[of 32 x y] word_not_min[of x]
  by (simp_all only: Let_def refl disj_not1 simp_thms if_False)

section \<open>The instructions\<close>

text \<open>
  C17: with the extension enabled, the multiplication instructions return the low or the high half
  of the exact product of their operands taken as signed or unsigned numbers of the register
  width, and the division instructions the truncated quotient and the remainder with the sign
  of the dividend; division by zero and the overflow of the signed quotient give the results the
  architecture prescribes without a trap. The word variants do the same on 32 bits.
\<close>

theorem multiplication_division_correct:
  fixes p :: processor_t and insn :: insn_bits and a :: reg_t
  assumes "supports_extension (CHR ''M'') p" and "xlen p = 32 \<or> xlen p = 64"
  defines "w \<equiv> xlen p" and "x \<equiv> RS1 insn p" and "y \<equiv> RS2 insn p"
  shows "rv_mul insn a p = yields w (signed_of w x * signed_of w y) insn a p
    \<and> rv_mulh insn a p = yields w (signed_of w x * signed_of w y div 2 ^ w) insn a p
    \<and> rv_mulhsu insn a p = yields w (signed_of w x * unsigned_of w y div 2 ^ w) insn a p
    \<and> rv_mulhu insn a p = yields w (unsigned_of w x * unsigned_of w y div 2 ^ w) insn a p
    \<and> rv_div insn a p = yields w (quotient (signed_of w x) (signed_of w y)) insn a p
    \<and> rv_divu insn a p = yields w (quotient (unsigned_of w x) (unsigned_of w y)) insn a p
    \<and> rv_rem insn a p = yields w (remainder (signed_of w x) (signed_of w y)) insn a p
    \<and> rv_remu insn a p = yields w (remainder (unsigned_of w x) (unsigned_of w y)) insn a p
    \<and> (w = 64 \<longrightarrow>
        rv_mulw insn a p = yields 32 (signed_of 32 x * signed_of 32 y) insn a p
        \<and> rv_divw insn a p = yields 32 (quotient (signed_of 32 x) (signed_of 32 y)) insn a p
        \<and> rv_divuw insn a p = yields 32 (quotient (unsigned_of 32 x) (unsigned_of 32 y)) insn a p
        \<and> rv_remw insn a p = yields 32 (remainder (signed_of 32 x) (signed_of 32 y)) insn a p
        \<and> rv_remuw insn a p = yields 32 (remainder (unsigned_of 32 x) (unsigned_of 32 y)) insn a p)"
proof (intro conjI impI)
  have w: "w = 32 \<or> w = 64"
    using assms(2) by (simp add: w_def)
  have eq: "r = sext_xlen v (word_of_int z) \<Longrightarrow> compute True (insn_rd insn) r insn a p = yields v z insn a p" for r v z
    by (simp add: compute_def yields_def)
  have zx: "zext_xlen 64 v = v" for v
    by (simp add: zext_xlen_def)
  note defs = int_defs assms(1)[THEN eqTrueI] simp_thms if_True w_def[symmetric] x_def[symmetric] y_def[symmetric]
  show "rv_mul insn a p = yields w (signed_of w x * signed_of w y) insn a p"
    unfolding defs by (intro eq product_low[OF w])
  show "rv_mulh insn a p = yields w (signed_of w x * signed_of w y div 2 ^ w) insn a p"
    unfolding defs by (intro eq product_high(1)[OF w])
  show "rv_mulhsu insn a p = yields w (signed_of w x * unsigned_of w y div 2 ^ w) insn a p"
    unfolding defs by (intro eq product_high(2)[OF w])
  show "rv_mulhu insn a p = yields w (unsigned_of w x * unsigned_of w y div 2 ^ w) insn a p"
    unfolding defs by (intro eq product_high(3)[OF w])
  show "rv_div insn a p = yields w (quotient (signed_of w x) (signed_of w y)) insn a p"
    unfolding defs by (intro eq signed_quotient[OF w])
  show "rv_divu insn a p = yields w (quotient (unsigned_of w x) (unsigned_of w y)) insn a p"
    unfolding defs by (intro eq unsigned_quotient[OF w])
  show "rv_rem insn a p = yields w (remainder (signed_of w x) (signed_of w y)) insn a p"
    unfolding defs by (intro eq signed_remainder[OF w])
  show "rv_remu insn a p = yields w (remainder (unsigned_of w x) (unsigned_of w y)) insn a p"
    unfolding defs by (intro eq unsigned_remainder[OF w refl])
  assume w64: "w = 64"
  note defs = defs w64 sext32_xlen zext32_xlen
  show "rv_mulw insn a p = yields 32 (signed_of 32 x * signed_of 32 y) insn a p"
    unfolding defs by (intro eq product_low) simp
  show "rv_divw insn a p = yields 32 (quotient (signed_of 32 x) (signed_of 32 y)) insn a p"
    unfolding defs by (intro eq signed_word_division(1))
  show "rv_divuw insn a p = yields 32 (quotient (unsigned_of 32 x) (unsigned_of 32 y)) insn a p"
    unfolding defs by (intro eq unsigned_quotient) simp
  show "rv_remw insn a p = yields 32 (remainder (signed_of 32 x) (signed_of 32 y)) insn a p"
    unfolding defs by (intro eq signed_word_division(2))
  show "rv_remuw insn a p = yields 32 (remainder (unsigned_of 32 x) (unsigned_of 32 y)) insn a p"
    unfolding defs using unsigned_remainder[of 32 "zext_xlen 32 x" x y] by (intro eq) (simp only: Let_def sext_zext disj_not1 simp_thms)
qed

text \<open>The quotient of the most negative number by minus one, in a 32-bit hart.\<close>

definition rv32_hart :: processor_t where
  "rv32_hart = example_hart\<lparr>max_xlen := 32, xlen := 32, XPR := 0 # 0x80000000 # - 1 # replicate 29 0,
     misa := 0x40141101, max_isa := 0x40141101\<rparr>"

theorem multiplication_division_correct_witness:
  "rv_div 0x0220c1b3 0x1000 rv32_hart
     = yields 32 (quotient (signed_of 32 (RS1 0x0220c1b3 rv32_hart)) (signed_of 32 (RS2 0x0220c1b3 rv32_hart))) 0x0220c1b3 0x1000 rv32_hart
   \<and> quotient (signed_of 32 (RS1 0x0220c1b3 rv32_hart)) (signed_of 32 (RS2 0x0220c1b3 rv32_hart)) = 2 ^ 31"
proof
  have x: "xlen rv32_hart = 32"
    by (simp add: rv32_hart_def)
  have m: "supports_extension (CHR ''M'') rv32_hart"
    by (simp add: rv32_hart_def supports_extension_def)
  show "rv_div 0x0220c1b3 0x1000 rv32_hart
     = yields 32 (quotient (signed_of 32 (RS1 0x0220c1b3 rv32_hart)) (signed_of 32 (RS2 0x0220c1b3 rv32_hart))) 0x0220c1b3 0x1000 rv32_hart"
    using multiplication_division_correct[OF m disjI1[OF x], where insn = "0x0220c1b3" and a = "0x1000"] unfolding x by (elim conjE)
  have v: "RS1 0x0220c1b3 rv32_hart = 0x80000000" "RS2 0x0220c1b3 rv32_hart = - 1"
    by (simp_all add: RS1_def RS2_def insn_rs1_def insn_rs2_def insn_x_def rv32_hart_def)
  have "signed_of 32 0x80000000 = - (2 ^ 31)" and "signed_of 32 (- 1) = - 1"
    using canonical_small(2)[of 32] by (simp_all add: signed_of_def canonical_def) (simp add: sext_xlen_def)
  then show "quotient (signed_of 32 (RS1 0x0220c1b3 rv32_hart)) (signed_of 32 (RS2 0x0220c1b3 rv32_hart)) = 2 ^ 31"
    by (simp add: v quotient_def signed_divide_int_def)
qed

end
