(* ===== verification/RV_Devices.thy ===== *)
theory RV_Devices
  imports RV_MMU
begin

text \<open>
  The devices on the bus: \<open>bus_t\<close> and \<open>mem_t\<close> of \<open>riscv/devices.cc\<close> and \<open>devices.h\<close>, the boot ROM
  of \<open>riscv/rom.cc\<close> and the core-local interruptor of \<open>riscv/clint.cc\<close>. A load answers the bytes
  or nothing, where the code returns false; main memory answers nothing here since the
  processor reaches it through \<open>addr_to_mem\<close>.
\<close>

section \<open>Bytes of words\<close>

fun to_le :: "nat \<Rightarrow> reg_t \<Rightarrow> uint8 list" where
  "to_le 0 x = []"
| "to_le (Suc n) x = to_u8 x # to_le n (drop_bit 8 x)"

text \<open>\<open>memcpy\<close> into the middle of a buffer.\<close>

definition overlay :: "'a list \<Rightarrow> nat \<Rightarrow> 'a list \<Rightarrow> 'a list" where
  "overlay buf at_off new = take at_off buf @ new @ drop (at_off + length new) buf"

definition words_of :: "nat \<Rightarrow> uint8 list \<Rightarrow> reg_t list" where
  "words_of n bs = map (\<lambda>i. from_le (take n (drop (n * i) bs))) [0..<length bs div n]"

section \<open>The boot ROM\<close>

definition rom_load :: "uint8 list \<Rightarrow> reg_t \<Rightarrow> nat \<Rightarrow> uint8 list option" where
  "rom_load data a len = (if a + of_nat len > of_nat (length data) then None else Some (take len (drop (unat a) data)))"

section \<open>The core-local interruptor\<close>

text \<open>
  Its timer and the timer compare registers, one per hart. It reads and writes the software and
  timer interrupt bits of the harts' pending interrupts, which are an argument and a result. In
  real-time mode the timer follows the host's clock, the microseconds since the start.
\<close>

record clint_t =
  real_time :: bool
  freq_hz :: uint64
  mtime :: uint64
  mtimecmp :: "uint64 list"

abbreviation (input) MTIMECMP_BASE :: reg_t where "MTIMECMP_BASE \<equiv> 0x4000"
abbreviation (input) MTIME_BASE :: reg_t where "MTIME_BASE \<equiv> 0xbff8"

definition set_mtip :: "uint64 \<Rightarrow> reg_t \<Rightarrow> uint64 \<Rightarrow> reg_t" where
  "set_mtip now pend cmp = (let pend = pend AND NOT MIP_MTIP in if cmp \<le> now then pend OR MIP_MTIP else pend)"

definition clint_increment :: "uint64 \<Rightarrow> reg_t \<Rightarrow> clint_t \<Rightarrow> reg_t list \<Rightarrow> clint_t \<times> reg_t list" where
  "clint_increment diff_usecs inc c pends =
     (let c = c\<lparr>mtime := (if real_time c then diff_usecs * freq_hz c div 1000000 else mtime c + inc)\<rparr>
      in (c, map2 (set_mtip (mtime c)) pends (mtimecmp c)))"

definition in_window :: "reg_t \<Rightarrow> nat \<Rightarrow> reg_t \<Rightarrow> nat \<Rightarrow> bool" where
  "in_window a len base sz \<longleftrightarrow> base \<le> a \<and> a + of_nat len \<le> base + of_nat sz"

definition clint_load :: "uint64 \<Rightarrow> reg_t \<Rightarrow> nat \<Rightarrow> clint_t \<Rightarrow> reg_t list \<Rightarrow> uint8 list option \<times> clint_t \<times> reg_t list" where
  "clint_load diff_usecs a len c pends =
     (let (c, pends) = clint_increment diff_usecs 0 c pends;
          n = length pends;
          copy = (\<lambda>buf base. Some (take len (drop (unat (a - base)) buf)))
      in if in_window a len 0 (n * 4) then
           (copy (concat (map (\<lambda>pend. to_le 4 (of_bool (pend AND MIP_MSIP \<noteq> 0))) pends)) 0, c, pends)
         else if in_window a len MTIMECMP_BASE (n * 8) then (copy (concat (map (to_le 8) (mtimecmp c))) MTIMECMP_BASE, c, pends)
         else if in_window a len MTIME_BASE 8 then (copy (to_le 8 (mtime c)) MTIME_BASE, c, pends)
         else (None, c, pends))"

text \<open>A software interrupt is written when the lowest byte of its register is.\<close>

definition set_msip :: "reg_t \<Rightarrow> uint8 \<Rightarrow> reg_t \<Rightarrow> reg_t" where
  "set_msip pend msk msip =
     (if msk = 0 then pend
      else let pend = pend AND NOT MIP_MSIP in if msip AND 1 \<noteq> 0 then pend OR MIP_MSIP else pend)"

definition clint_store :: "uint64 \<Rightarrow> reg_t \<Rightarrow> uint8 list \<Rightarrow> clint_t \<Rightarrow> reg_t list \<Rightarrow> (clint_t \<times> reg_t list) option" where
  "clint_store diff_usecs a bytes c pends =
     (let n = length pends; len = length bytes
      in if in_window a len 0 (n * 4) then
           let msip = overlay (replicate (n * 4) 0) (unat a) bytes;
               msk = overlay (replicate (n * 4) 0) (unat a) (replicate len (0xff :: uint8))
           in Some (clint_increment diff_usecs 0 c
                (map (\<lambda>i. set_msip (pends ! i) (msk ! (4 * i)) (words_of 4 msip ! i)) [0..<n]))
         else if in_window a len MTIMECMP_BASE (n * 8) then
           let c = c\<lparr>mtimecmp := words_of 8 (overlay (concat (map (to_le 8) (mtimecmp c))) (unat (a - MTIMECMP_BASE)) bytes)\<rparr>
           in Some (clint_increment diff_usecs 0 c pends)
         else if in_window a len MTIME_BASE 8 then
           let c = c\<lparr>mtime := from_le (overlay (to_le 8 (mtime c)) (unat (a - MTIME_BASE)) bytes)\<rparr>
           in Some (clint_increment diff_usecs 0 c pends)
         else None)"

section \<open>The bus\<close>

datatype device = Mem_dev nat | Rom_dev "uint8 list" | Clint_dev

type_synonym bus_t = "(reg_t \<times> device) list"

text \<open>The map of devices in ascending order of their base addresses.\<close>

fun add_device :: "reg_t \<Rightarrow> device \<Rightarrow> bus_t \<Rightarrow> bus_t" where
  "add_device a d [] = [(a, d)]"
| "add_device a d ((b, e) # bs) =
     (if a < b then (a, d) # (b, e) # bs else if a = b then (a, d) # bs else (b, e) # add_device a d bs)"

text \<open>The first device above the address, and the one before it.\<close>

fun upper_bound :: "reg_t \<Rightarrow> bus_t \<Rightarrow> nat" where
  "upper_bound a [] = 0"
| "upper_bound a ((b, e) # bs) = (if a < b then 0 else Suc (upper_bound a bs))"

definition find_device :: "reg_t \<Rightarrow> bus_t \<Rightarrow> (reg_t \<times> device) option" where
  "find_device a bs = (let it = upper_bound a bs in if bs = [] \<or> it = 0 then None else Some (bs ! (it - 1)))"

definition paddr_ok :: "reg_t \<Rightarrow> bool" where
  "paddr_ok a \<longleftrightarrow> drop_bit MAX_PADDR_BITS a = 0"

definition addr_to_mem :: "bus_t \<Rightarrow> reg_t \<Rightarrow> bool" where
  "addr_to_mem bs a \<longleftrightarrow>
     paddr_ok a \<and>
     (case find_device a bs of
        Some (b, Mem_dev sz) \<Rightarrow> a - b < of_nat sz
      | _ \<Rightarrow> False)"

definition bus_load :: "bus_t \<Rightarrow> uint64 \<Rightarrow> reg_t \<Rightarrow> nat \<Rightarrow> clint_t \<Rightarrow> reg_t list \<Rightarrow> uint8 list option \<times> clint_t \<times> reg_t list" where
  "bus_load bs diff_usecs a len c pends =
     (case find_device a bs of
        None \<Rightarrow> (None, c, pends)
      | Some (b, Mem_dev sz) \<Rightarrow> (None, c, pends)
      | Some (b, Rom_dev data) \<Rightarrow> (rom_load data (a - b) len, c, pends)
      | Some (b, Clint_dev) \<Rightarrow> clint_load diff_usecs (a - b) len c pends)"

definition bus_store :: "bus_t \<Rightarrow> uint64 \<Rightarrow> reg_t \<Rightarrow> uint8 list \<Rightarrow> clint_t \<Rightarrow> reg_t list \<Rightarrow> (clint_t \<times> reg_t list) option" where
  "bus_store bs diff_usecs a bytes c pends =
     (case find_device a bs of
        None \<Rightarrow> None
      | Some (b, Mem_dev sz) \<Rightarrow> None
      | Some (b, Rom_dev data) \<Rightarrow> None
      | Some (b, Clint_dev) \<Rightarrow> clint_store diff_usecs (a - b) bytes c pends)"

text \<open>\<open>sim_t::mmio_load\<close> and \<open>mmio_store\<close> of \<open>riscv/sim.cc\<close>.\<close>

definition mmio_range_ok :: "reg_t \<Rightarrow> nat \<Rightarrow> bool" where
  "mmio_range_ok a len \<longleftrightarrow> \<not> (a + of_nat len < a \<or> \<not> paddr_ok (a + of_nat len - 1))"

definition sim_mmio_load :: "bus_t \<Rightarrow> uint64 \<Rightarrow> reg_t \<Rightarrow> nat \<Rightarrow> clint_t \<Rightarrow> reg_t list \<Rightarrow> uint8 list option \<times> clint_t \<times> reg_t list" where
  "sim_mmio_load bs diff_usecs a len c pends =
     (if \<not> mmio_range_ok a len then (None, c, pends) else bus_load bs diff_usecs a len c pends)"

definition sim_mmio_store :: "bus_t \<Rightarrow> uint64 \<Rightarrow> reg_t \<Rightarrow> uint8 list \<Rightarrow> clint_t \<Rightarrow> reg_t list \<Rightarrow> (clint_t \<times> reg_t list) option" where
  "sim_mmio_store bs diff_usecs a bytes c pends =
     (if \<not> mmio_range_ok a (length bytes) then None else bus_store bs diff_usecs a bytes c pends)"

section \<open>The bus dispatches to the closest device below\<close>

definition sorted_bus :: "bus_t \<Rightarrow> bool" where
  "sorted_bus bs \<longleftrightarrow> sorted_wrt (<) (map fst bs)"

lemma fst_add_device: "fst ` set (add_device a d bs) = insert a (fst ` set bs)"
  by (induction a d bs rule: add_device.induct) auto

lemma sorted_add_device:
  assumes "sorted_bus bs"
  shows "sorted_bus (add_device a d bs)"
  using assms
proof (induction a d bs rule: add_device.induct)
  case (2 a d b e bs)
  have "\<forall>x\<in>set (add_device a d bs). b < fst x" if "b < a" "\<forall>x\<in>set bs. b < fst x"
    using that fst_add_device[of a d bs] by (metis (no_types, lifting) image_iff insert_iff)
  with 2 show ?case
    by (auto simp: sorted_bus_def not_less dest: less_trans)
qed (simp add: sorted_bus_def)

lemma map_of_add_device:
  assumes "sorted_bus bs"
  shows "map_of (add_device a d bs) = (map_of bs)(a \<mapsto> d)"
  using assms
proof (induction a d bs rule: add_device.induct)
  case (2 a d b e bs)
  have "map_of bs a = None" if "a < b"
    using that 2(2) by (auto simp: map_of_eq_None_iff sorted_bus_def)
  with 2 show ?case
    by (auto simp: sorted_bus_def fun_eq_iff)
qed simp

lemma upper_bound_split:
  assumes "sorted_bus bs"
  shows "upper_bound a bs \<le> length bs \<and> (\<forall>x\<in>set (take (upper_bound a bs) bs). fst x \<le> a)
    \<and> (\<forall>x\<in>set (drop (upper_bound a bs) bs). a < fst x)"
  using assms by (induction a bs rule: upper_bound.induct) (auto simp: sorted_bus_def not_less)

lemma find_device_iff:
  assumes "sorted_bus bs"
  shows "find_device a bs = Some (b, d) \<longleftrightarrow>
    (b, d) \<in> set bs \<and> b \<le> a \<and> (\<forall>(b', d')\<in>set bs. b' \<le> a \<longrightarrow> b' \<le> b)"
proof -
  define n where "n = upper_bound a bs"
  note u = upper_bound_split[OF assms, of a, folded n_def]
  have s: "sorted_wrt (\<lambda>x y. fst x < fst y) bs"
    using assms by (simp add: sorted_bus_def sorted_wrt_map)
  have mx: "fst (bs ! j) \<le> fst (bs ! (n - 1))" if "j < length bs" "fst (bs ! j) \<le> a" "0 < n" for j
  proof -
    have "j < n"
    proof (rule ccontr)
      assume "\<not> j < n"
      then have "drop n bs ! (j - n) = bs ! j" and "j - n < length (drop n bs)"
        using that(1) by simp_all
      then have "bs ! j \<in> set (drop n bs)"
        by (metis nth_mem)
      then show False
        using u that(2) by auto
    qed
    then show ?thesis
      using s that(1,3) u by (cases "j = n - 1") (auto simp: sorted_wrt_iff_nth_less less_imp_le)
  qed
  have le: "fst (bs ! (n - 1)) \<le> a" if "0 < n"
  proof -
    have "bs ! (n - 1) \<in> set (take n bs)"
      using u that by (metis One_nat_def Suc_pred diff_less in_set_conv_nth length_take less_eq_Suc_le min.absorb2 nth_take zero_less_one)
    then show ?thesis
      using u by auto
  qed
  show ?thesis
  proof (cases "n = 0")
    case True
    then have "\<forall>x\<in>set bs. a < fst x"
      using u by simp
    with True show ?thesis
      by (auto simp: find_device_def Let_def simp flip: n_def)
  next
    case False
    then have n: "0 < n" "n - 1 < length bs" "bs \<noteq> []"
      using u by auto
    have f: "find_device a bs = Some (bs ! (n - 1))"
      using n by (simp add: find_device_def Let_def flip: n_def)
    have uniq: "bs ! (n - 1) = (b, d)" if "(b, d) \<in> set bs" "b \<le> a" "fst (bs ! (n - 1)) \<le> b"
    proof -
      obtain j where j: "j < length bs" "bs ! j = (b, d)"
        using \<open>(b, d) \<in> set bs\<close> by (auto simp: in_set_conv_nth)
      have "fst (bs ! j) = fst (bs ! (n - 1))"
        using mx[of j] that j n(1) by auto
      then have "j = n - 1"
        using s j(1) n(2) by (metis nat_neq_iff order_less_irrefl sorted_wrt_iff_nth_less)
      then show ?thesis
        using j by simp
    qed
    show ?thesis
    proof
      assume "find_device a bs = Some (b, d)"
      then have b: "bs ! (n - 1) = (b, d)"
        using f by simp
      then have "(b, d) \<in> set bs"
        using n(2) by (metis nth_mem)
      moreover have "b' \<le> b" if el: "(b', d') \<in> set bs" "b' \<le> a" for b' d'
      proof -
        obtain j where "j < length bs" "bs ! j = (b', d')"
          using el(1) by (auto simp: in_set_conv_nth)
        then show ?thesis
          using mx[of j] el(2) n(1) b by simp
      qed
      ultimately show "(b, d) \<in> set bs \<and> b \<le> a \<and> (\<forall>(b', d')\<in>set bs. b' \<le> a \<longrightarrow> b' \<le> b)"
        using le[OF n(1)] b by auto
    next
      assume r: "(b, d) \<in> set bs \<and> b \<le> a \<and> (\<forall>(b', d')\<in>set bs. b' \<le> a \<longrightarrow> b' \<le> b)"
      have "bs ! (n - 1) \<in> set bs"
        using n(2) by simp
      then have "fst (bs ! (n - 1)) \<le> b"
        using r le[OF n(1)] by (auto simp: split_beta)
      then show "find_device a bs = Some (b, d)"
        using uniq r f by simp
    qed
  qed
qed

text \<open>
  C38: the bus keeps its devices sorted by base address, one per address; it dispatches an access
  to the device with the greatest base address not above it, and to none when there is none.
\<close>

theorem bus_dispatches_to_closest:
  assumes "sorted_bus bs"
  shows "sorted_bus (add_device a d bs) \<and> map_of (add_device a d bs) = (map_of bs)(a \<mapsto> d)
    \<and> (find_device x bs = Some (b, e) \<longleftrightarrow> (b, e) \<in> set bs \<and> b \<le> x \<and> (\<forall>(b', d')\<in>set bs. b' \<le> x \<longrightarrow> b' \<le> b))
    \<and> (find_device x bs = None \<longleftrightarrow> (\<forall>(b', d')\<in>set bs. x < b'))"
proof -
  have "find_device x bs = None \<longleftrightarrow> upper_bound x bs = 0"
    by (cases bs) (auto simp: find_device_def Let_def)
  also have "\<dots> \<longleftrightarrow> (\<forall>y\<in>set bs. x < fst y)"
    using upper_bound_split[OF assms, of x] by (cases bs) auto
  finally show ?thesis
    using sorted_add_device[OF assms] map_of_add_device[OF assms] find_device_iff[OF assms]
    by (simp add: split_beta)
qed

definition example_bus :: bus_t where
  "example_bus = add_device 0x80000000 (Mem_dev 0x10000) (add_device 0x1000 (Rom_dev [1, 2, 3, 4])
     (add_device 0x2000000 Clint_dev []))"

theorem bus_dispatches_to_closest_witness:
  "find_device 0x2004000 example_bus = Some (0x2000000, Clint_dev)"
proof -
  have "sorted_bus example_bus"
    by (simp add: sorted_bus_def example_bus_def)
  from bus_dispatches_to_closest[OF this, of 0 Clint_dev "0x2004000" "0x2000000" Clint_dev]
  show ?thesis
    by (elim conjE) (simp add: example_bus_def)
qed

section \<open>The timer interrupt follows the timer\<close>

lemma set_mtip_spec:
  "set_mtip now pend cmp AND MIP_MTIP \<noteq> 0 \<longleftrightarrow> cmp \<le> now"
  "set_mtip now pend cmp AND NOT MIP_MTIP = pend AND NOT MIP_MTIP"
proof -
  show "set_mtip now pend cmp AND MIP_MTIP \<noteq> 0 \<longleftrightarrow> cmp \<le> now"
    by (simp add: set_mtip_def Let_def and_exp_eq_0_iff_not_bit[of _ 7, simplified] bit_simps)
  show "set_mtip now pend cmp AND NOT MIP_MTIP = pend AND NOT MIP_MTIP"
    by (rule bit_word_eqI) (auto simp: set_mtip_def Let_def bit_simps)
qed

lemma in_window_nat:
  assumes "unat a + len < 2 ^ 64" and "unat base + sz < 2 ^ 64"
  shows "in_window a len base sz \<longleftrightarrow> unat base \<le> unat a \<and> unat a + len \<le> unat base + sz"
proof -
  have "unat (a + of_nat len) = unat a + len" and "unat (base + of_nat sz) = unat base + sz"
    using assms by (simp_all add: unat_word_ariths unat_of_nat)
  then show ?thesis
    by (simp add: in_window_def word_le_nat_alt)
qed

lemma length_overlay: "off + length new \<le> length buf \<Longrightarrow> length (overlay buf off new) = length buf"
  by (simp add: overlay_def)

lemma nth_overlay:
  assumes "off + length new \<le> length buf" and "i < length buf"
  shows "overlay buf off new ! i = (if off \<le> i \<and> i < off + length new then new ! (i - off) else buf ! i)"
  using assms by (auto simp: overlay_def nth_append)

lemma take_drop_overlay: "off + length new \<le> length buf \<Longrightarrow> take (length new) (drop off (overlay buf off new)) = new"
  by (simp add: overlay_def)

lemma length_to_le [simp]: "length (to_le n x) = n"
  by (induction n arbitrary: x) simp_all

lemma bit_from_le:
  "bit (from_le bs) n \<longleftrightarrow> n < 64 \<and> n < 8 * length bs \<and> bit (bs ! (n div 8)) (n mod 8)"
proof (induction bs arbitrary: n)
  case (Cons b bs)
  show ?case
  proof (cases "n < 8")
    case True
    then show ?thesis
      by (auto simp: bit_simps)
  next
    case False
    then have "n div 8 = Suc ((n - 8) div 8)" and "n mod 8 = (n - 8) mod 8"
      by (simp_all add: le_div_geq le_mod_geq)
    with False show ?thesis
      by (auto simp: bit_simps Cons.IH dest: bit_imp_le_length)
  qed
qed simp

lemma to_le_from_le: "length bs \<le> 8 \<Longrightarrow> to_le (length bs) (from_le bs) = bs"
proof (induction bs)
  case (Cons b bs)
  have "to_u8 (from_le (b # bs)) = b"
    by (rule bit_word_eqI) (auto simp: bit_simps)
  moreover have "drop_bit 8 (from_le (b # bs)) = take_bit 56 (from_le bs)"
    by (rule bit_word_eqI) (auto simp: bit_simps dest: bit_imp_le_length)
  moreover have "take_bit 56 (from_le bs) = from_le bs"
    by (rule bit_word_eqI) (use Cons.prems in \<open>auto simp: bit_take_bit_iff bit_from_le\<close>)
  ultimately show ?case
    using Cons by simp
qed simp

lemma from_le_to_le: "n \<le> 8 \<Longrightarrow> from_le (to_le n x) = take_bit (8 * n) x"
proof (induction n arbitrary: x)
  case (Suc n)
  then have "from_le (to_le (Suc n) x) = to_u64 (to_u8 x) OR push_bit 8 (take_bit (8 * n) (drop_bit 8 x))"
    by simp
  also have "\<dots> = take_bit (8 * Suc n) x"
    by (rule bit_word_eqI) (auto simp: bit_simps)
  finally show ?case .
qed simp

lemma concat_words:
  assumes "length bs = 8 * n"
  shows "concat (map (to_le 8) (words_of 8 bs)) = bs"
  using assms
proof (induction n arbitrary: bs)
  case (Suc n)
  have "to_le 8 (from_le (take 8 bs)) = take 8 bs"
    using to_le_from_le[of "take 8 bs"] Suc.prems by simp
  moreover have "words_of 8 bs = from_le (take 8 bs) # words_of 8 (drop 8 bs)"
  proof -
    have "length bs div 8 = Suc (length (drop 8 bs) div 8)"
      using Suc.prems by simp
    then show ?thesis
      by (simp add: words_of_def upt_conv_Cons map_Suc_upt[symmetric] del: upt_Suc) (simp add: add.commute)
  qed
  moreover have "concat (map (to_le 8) (words_of 8 (drop 8 bs))) = drop 8 bs"
    using Suc by simp
  ultimately show ?case
    by simp
qed (simp add: words_of_def)

lemma length_words: "length (concat (map (to_le 8) ws)) = 8 * length ws"
  by (induction ws) simp_all

text \<open>
  The interruptor is consistent when there is a compare register for every hart and a hart's
  timer interrupt is pending exactly when the timer has reached it.
\<close>

definition timer_level :: "clint_t \<Rightarrow> reg_t list \<Rightarrow> bool" where
  "timer_level c pends \<longleftrightarrow>
     length (mtimecmp c) = length pends
     \<and> (\<forall>i<length pends. pends ! i AND MIP_MTIP \<noteq> 0 \<longleftrightarrow> mtimecmp c ! i \<le> mtime c)"

definition same_but :: "reg_t \<Rightarrow> reg_t list \<Rightarrow> reg_t list \<Rightarrow> bool" where
  "same_but msk ps qs \<longleftrightarrow> length qs = length ps \<and> (\<forall>i<length ps. qs ! i AND NOT msk = ps ! i AND NOT msk)"

lemma increment_spec:
  assumes "length (mtimecmp c) = length pends" and "clint_increment t inc c pends = (c', pends')"
  shows "timer_level c' pends'" "same_but MIP_MTIP pends pends'" "mtimecmp c' = mtimecmp c"
    "\<not> real_time c \<Longrightarrow> mtime c' = mtime c + inc" "real_time c' = real_time c"
proof -
  define c1 where "c1 = c\<lparr>mtime := (if real_time c then t * freq_hz c div 1000000 else mtime c + inc)\<rparr>"
  have e: "c' = c1" "pends' = map2 (set_mtip (mtime c1)) pends (mtimecmp c1)"
    using assms(2) by (auto simp: clint_increment_def Let_def c1_def)
  have cmp: "mtimecmp c1 = mtimecmp c"
    by (simp add: c1_def)
  have n: "pends' ! i = set_mtip (mtime c1) (pends ! i) (mtimecmp c ! i)" if "i < length pends" for i
    using that assms(1) by (simp add: e cmp)
  show "timer_level c' pends'"
    using assms(1) n set_mtip_spec(1) by (simp add: timer_level_def e cmp)
  show "same_but MIP_MTIP pends pends'"
    using assms(1) n set_mtip_spec(2) by (simp add: same_but_def e cmp)
  show "mtimecmp c' = mtimecmp c" "\<not> real_time c \<Longrightarrow> mtime c' = mtime c + inc" "real_time c' = real_time c"
    by (simp_all add: e c1_def)
qed

lemma same_but_trans:
  assumes "same_but a ps qs" and "same_but b qs rs"
  shows "same_but (a OR b) ps rs"
proof -
  have split: "x AND NOT (a OR b) = (x AND NOT a) AND NOT b" "x AND NOT (a OR b) = (x AND NOT b) AND NOT a" for x :: reg_t
    by (rule bit_word_eqI; auto simp: bit_simps)+
  have "rs ! i AND NOT (a OR b) = ps ! i AND NOT (a OR b)" if "i < length ps" for i
  proof -
    have "rs ! i AND NOT (a OR b) = qs ! i AND NOT (a OR b)"
      unfolding split(2) using assms that by (simp add: same_but_def)
    also have "\<dots> = ps ! i AND NOT (a OR b)"
      unfolding split(1) using assms that by (simp add: same_but_def)
    finally show ?thesis .
  qed
  then show ?thesis
    using assms by (simp add: same_but_def)
qed

lemma set_msip_same: "set_msip pend m v AND NOT MIP_MSIP = pend AND NOT MIP_MSIP"
  by (rule bit_word_eqI) (auto simp: set_msip_def Let_def bit_simps)

text \<open>
  C27: whatever is read from or written to the core-local interruptor, afterwards the timer
  interrupt of every hart is pending exactly when the timer has reached the hart's compare
  register. Reads change no other interrupt; writes at most the software interrupts.
\<close>

theorem timer_interrupt_level:
  assumes "length (mtimecmp c) = length pends" and "length pends < 2 ^ 12" and "a < 0x100000000"
    and "length bytes \<le> 8" and "len = length bytes"
  shows "(case clint_load t a len c pends of
        (r, c', pends') \<Rightarrow> timer_level c' pends' \<and> same_but MIP_MTIP pends pends' \<and> mtimecmp c' = mtimecmp c)
    \<and> (case clint_store t a bytes c pends of
        None \<Rightarrow> True
      | Some (c', pends') \<Rightarrow> timer_level c' pends' \<and> same_but (MIP_MSIP OR MIP_MTIP) pends pends')"
proof
  show "case clint_load t a len c pends of
      (r, c', pends') \<Rightarrow> timer_level c' pends' \<and> same_but MIP_MTIP pends pends' \<and> mtimecmp c' = mtimecmp c"
  proof -
    obtain c1 p1 where e: "clint_increment t 0 c pends = (c1, p1)"
      by fastforce
    show ?thesis
      using increment_spec(1-3)[OF assms(1) e] unfolding clint_load_def Let_def e prod.case by simp
  qed
  define n where "n = length pends"
  have msip: "same_but MIP_MSIP pends (map (\<lambda>i. set_msip (pends ! i) (f i) (g i)) [0..<n])" for f g
    using set_msip_same by (simp add: same_but_def n_def)
  have refl: "same_but MIP_MSIP pends pends"
    by (simp add: same_but_def)
  have fin: "timer_level c' pends' \<and> same_but (MIP_MSIP OR MIP_MTIP) pends pends'"
    if "clint_increment t 0 d qs = (c', pends')" "length (mtimecmp d) = n" "same_but MIP_MSIP pends qs" for d qs c' pends'
  proof -
    have i: "timer_level c' pends'" "same_but MIP_MTIP qs pends'"
      using increment_spec(1,2)[OF _ that(1)] that(2,3) by (simp_all add: same_but_def n_def)
    then show ?thesis
      using same_but_trans[OF that(3) i(2)] by blast
  qed
  have len: "length (words_of 8 (overlay (concat (map (to_le 8) (mtimecmp c))) (unat (a - MTIMECMP_BASE)) bytes)) = n"
    if "in_window a len MTIMECMP_BASE (n * 8)"
  proof -
    have "unat MTIMECMP_BASE \<le> unat a" "unat a + len \<le> unat MTIMECMP_BASE + n * 8"
      using that assms in_window_nat[of a len MTIMECMP_BASE "n * 8"] by (simp_all add: n_def word_less_nat_alt)
    then have "unat (a - MTIMECMP_BASE) + length bytes \<le> 8 * length (mtimecmp c)"
      using assms(1,5) by (simp add: unat_sub word_le_nat_alt n_def)
    then show ?thesis
      using assms(1) by (simp add: words_of_def length_overlay length_words n_def)
  qed
  show "case clint_store t a bytes c pends of
      None \<Rightarrow> True
    | Some (c', pends') \<Rightarrow> timer_level c' pends' \<and> same_but (MIP_MSIP OR MIP_MTIP) pends pends'"
  proof (cases "clint_store t a bytes c pends")
    case (Some r)
    obtain c' pends' where r: "r = (c', pends')"
      by (cases r)
    note st = Some[unfolded r clint_store_def Let_def n_def[symmetric] assms(5)[symmetric]]
    have "\<exists>d qs. clint_increment t 0 d qs = (c', pends') \<and> length (mtimecmp d) = n \<and> same_but MIP_MSIP pends qs"
    proof (cases "in_window a len 0 (n * 4)")
      case True
      show ?thesis
        using assms(1) by (intro exI conjI) (rule st[unfolded if_P[OF True] option.inject], simp only: n_def, rule msip)
    next
      case F: False
      show ?thesis
      proof (cases "in_window a len MTIMECMP_BASE (n * 8)")
        case True
        have "length (mtimecmp (c\<lparr>mtimecmp := words_of 8 (overlay (concat (map (to_le 8) (mtimecmp c))) (unat (a - MTIMECMP_BASE)) bytes)\<rparr>)) = n"
          using len[OF True] by simp
        then show ?thesis
          using st[unfolded if_not_P[OF F] if_P[OF True] option.inject] refl by blast
      next
        case False
        then have "in_window a len MTIME_BASE 8"
          using st[unfolded if_not_P[OF F] if_not_P[OF False]] by (simp only: split: if_splits) simp
        moreover have "length (mtimecmp (c\<lparr>mtime := x\<rparr>)) = n" for x
          using assms(1) by (simp add: n_def)
        ultimately show ?thesis
          using st[unfolded if_not_P[OF F] if_not_P[OF False]] refl by (simp only: if_True option.inject) blast
      qed
    qed
    then show ?thesis
      using fin unfolding Some r option.case prod.case by blast
  qed simp
qed

theorem timer_interrupt_level_witness:
  "case clint_store 0 0x4000 [5, 0, 0, 0, 0, 0, 0, 0] \<lparr>real_time = False, freq_hz = 1, mtime = 5, mtimecmp = [9]\<rparr> [0x808] of
     None \<Rightarrow> False | Some (c', pends') \<Rightarrow> timer_level c' pends' \<and> pends' = [0x888]"
proof -
  let ?c = "\<lparr>real_time = False, freq_hz = 1, mtime = 5, mtimecmp = [9]\<rparr>"
  have l: "(0x4000 :: reg_t) < 0x100000000"
    by simp
  have s: "clint_store 0 0x4000 [5, 0, 0, 0, 0, 0, 0, 0] ?c [0x808] = Some (\<lparr>real_time = False, freq_hz = 1, mtime = 5, mtimecmp = [5]\<rparr>, [0x888])"
    by code_simp
  then show ?thesis
    using timer_interrupt_level[of ?c "[0x808]" "0x4000" "[5, 0, 0, 0, 0, 0, 0, 0]" 8 0, OF _ _ l] by (simp add: s)
qed

section \<open>What is written to the timer is read back\<close>

text \<open>
  C39: a value stored in the compare registers or, when the timer does not follow the host's
  clock, in the timer is what a load of the same bytes returns.
\<close>

theorem clint_reads_back:
  assumes "length (mtimecmp c) = length pends" and "length pends < 2 ^ 12" and "0x4000 \<le> a" and "a < 0x100000000"
    and "length bytes \<le> 8"
    and "clint_store t a bytes c pends = Some (c', pends')" and "\<not> real_time c"
  shows "fst (clint_load u a (length bytes) c' pends') = Some bytes"
proof -
  define n where "n = length pends"
  define len where "len = length bytes"
  have a: "0x4000 \<le> unat a" "unat a + len < 2 ^ 64"
    using assms(3,4,5) by (simp_all add: len_def word_le_nat_alt word_less_nat_alt)
  then have nm: "\<not> in_window a len 0 (n * 4)"
    using assms(2) in_window_nat[of a len 0 "n * 4"] by (simp add: n_def len_def)
  have upd: "mtimecmp d = mtimecmp c'" "mtime d = mtime c'" "length qs = n"
    if "clint_increment u 0 c' pends' = (d, qs)" "length pends' = n" "\<not> real_time c'" "length (mtimecmp c') = n" for d qs
    using increment_spec[OF _ that(1)] that(2-) by (auto simp: same_but_def)
  have st: "length pends' = n \<and> mtimecmp c' = mtimecmp d \<and> mtime c' = mtime d \<and> \<not> real_time c'"
    if "clint_increment t 0 d pends = (c', pends')" "length (mtimecmp d) = n" "\<not> real_time d" for d
    using increment_spec[OF _ that(1)] that(2-) by (auto simp: same_but_def n_def)
  obtain d qs where e: "clint_increment u 0 c' pends' = (d, qs)"
    by fastforce
  show ?thesis
  proof (cases "in_window a len MTIMECMP_BASE (n * 8)")
    case True
    define off where "off = unat (a - MTIMECMP_BASE)"
    define buf where "buf = overlay (concat (map (to_le 8) (mtimecmp c))) off bytes"
    have "unat a + len \<le> unat MTIMECMP_BASE + n * 8"
      using True a assms(2) in_window_nat[of a len MTIMECMP_BASE "n * 8"] by (simp add: n_def)
    then have o: "off + length bytes \<le> 8 * length (mtimecmp c)"
      using assms(1) a(1) by (simp add: unat_sub word_le_nat_alt n_def off_def len_def)
    then have bl: "length buf = 8 * n"
      using assms(1) by (simp add: buf_def length_overlay length_words n_def)
    have "clint_increment t 0 (c\<lparr>mtimecmp := words_of 8 buf\<rparr>) pends = (c', pends')"
      using assms(6) nm True by (simp add: clint_store_def Let_def buf_def off_def flip: n_def len_def)
    from st[OF this] have c': "length pends' = n" "mtimecmp c' = words_of 8 buf" "\<not> real_time c'"
      using assms(7) bl by (simp_all add: words_of_def)
    have "concat (map (to_le 8) (mtimecmp d)) = buf"
      using upd[OF e c'(1,3)] c'(2) concat_words[OF bl] bl by (simp add: words_of_def)
    then show ?thesis
      using nm True upd[OF e c'(1,3)] c'(2) bl take_drop_overlay[of off bytes "concat (map (to_le 8) (mtimecmp c))"] o
      by (simp add: clint_load_def Let_def e length_words off_def[symmetric] buf_def words_of_def flip: len_def n_def)
  next
    case False
    have w: "in_window a len MTIME_BASE 8"
      using assms(6) nm False by (simp add: clint_store_def Let_def flip: n_def len_def split: if_splits)
    define off where "off = unat (a - MTIME_BASE)"
    define buf where "buf = overlay (to_le 8 (mtime c)) off bytes"
    have "unat MTIME_BASE \<le> unat a" "unat a + len \<le> unat MTIME_BASE + 8"
      using w a in_window_nat[of a len MTIME_BASE 8] by simp_all
    then have o: "off + length bytes \<le> length (to_le 8 (mtime c))"
      by (simp add: unat_sub word_le_nat_alt off_def len_def)
    then have bl: "length buf = 8"
      by (simp add: buf_def length_overlay)
    have "clint_increment t 0 (c\<lparr>mtime := from_le buf\<rparr>) pends = (c', pends')"
      using assms(6) nm False w by (simp add: clint_store_def Let_def buf_def off_def flip: n_def len_def)
    from st[OF this] have c': "length pends' = n" "mtime c' = from_le buf" "mtimecmp c' = mtimecmp c" "\<not> real_time c'"
      using assms(1,7) by (simp_all add: n_def)
    have "to_le 8 (mtime d) = buf"
      using upd[OF e c'(1,4)] c' assms(1) to_le_from_le[of buf] bl by (simp add: n_def)
    then show ?thesis
      using nm False w upd[OF e c'(1,4)] c' assms(1) take_drop_overlay[OF o]
      by (simp add: clint_load_def Let_def e off_def[symmetric] buf_def flip: len_def n_def)
  qed
qed

theorem clint_reads_back_witness:
  "fst (clint_load 0 0x4004 4 \<lparr>real_time = False, freq_hz = 1, mtime = 5, mtimecmp = [0x0403020100000009]\<rparr> [0x808])
     = Some [1, 2, 3, 4]"
proof -
  let ?c = "\<lparr>real_time = False, freq_hz = 1, mtime = 5, mtimecmp = [9]\<rparr>"
  have l: "(0x4000 :: reg_t) \<le> 0x4004" "(0x4004 :: reg_t) < 0x100000000"
    by simp_all
  have s: "clint_store 0 0x4004 [1, 2, 3, 4] ?c [0x808]
      = Some (\<lparr>real_time = False, freq_hz = 1, mtime = 5, mtimecmp = [0x0403020100000009]\<rparr>, [0x808])"
    by code_simp
  have p: "length (mtimecmp ?c) = length [0x808 :: reg_t]" "length [0x808 :: reg_t] < 2 ^ 12"
    "length [1, 2, 3, 4 :: uint8] \<le> 8" "\<not> real_time ?c"
    by simp_all
  have len: "length [1, 2, 3, 4 :: uint8] = 4"
    by simp
  show ?thesis
    using clint_reads_back[OF p(1,2) l p(3) s p(4), of 0] unfolding len .
qed

end
