(* ===== verification/RV_Access.thy ===== *)
theory RV_Access
  imports RV_Devices RV_PMP
begin

text \<open>
  The processor's port into memory (\<open>riscv/mmu.h\<close>, \<open>riscv/mmu.cc\<close>): loads, stores, atomic
  operations, reservations and instruction fetches through the TLB, with the debug triggers of
  \<open>riscv/processor.h\<close>. The machine is one hart, main memory by physical address, the bus with
  its devices and the trigger that interrupted an access. No memory tracer is registered, and
  misaligned accesses are not enabled, as in the configuration the fuzzer builds.
\<close>

record machine =
  hart :: processor_t
  ram :: "reg_t \<Rightarrow> uint8"
  devices :: bus_t
  clint :: clint_t
  matched_trigger :: "(nat \<times> trigger_operation \<times> reg_t \<times> reg_t) option"

definition phys :: "machine \<Rightarrow> memory" where
  "phys m = (\<lambda>a. if addr_to_mem (devices m) a then Some (ram m a) else None)"

definition ram_bytes :: "machine \<Rightarrow> reg_t \<Rightarrow> nat \<Rightarrow> uint8 list" where
  "ram_bytes m a n = map (\<lambda>i. ram m (a + of_nat i)) [0..<n]"

definition set_ram :: "reg_t \<Rightarrow> uint8 list \<Rightarrow> (reg_t \<Rightarrow> uint8) \<Rightarrow> reg_t \<Rightarrow> uint8" where
  "set_ram a bytes f = (\<lambda>x. if unat (x - a) < length bytes then bytes ! unat (x - a) else f x)"

section \<open>Debug triggers\<close>

text \<open>The number of one bits below the lowest zero bit; a word has at most 64.\<close>

fun cto_loop :: "nat \<Rightarrow> reg_t \<Rightarrow> nat \<Rightarrow> nat" where
  "cto_loop 0 val res = res"
| "cto_loop (Suc fuel) val res = (if val AND 1 = 1 then cto_loop fuel (drop_bit 1 val) (res + 1) else res)"

definition cto :: "reg_t \<Rightarrow> nat" where
  "cto val = cto_loop 64 val 0"

definition trigger_applies :: "trigger_operation \<Rightarrow> mcontrol_t \<Rightarrow> processor_t \<Rightarrow> bool" where
  "trigger_applies op mc p \<longleftrightarrow>
     \<not> (op = OPERATION_EXECUTE \<and> \<not> mc_execute mc \<or> op = OPERATION_STORE \<and> \<not> mc_store mc
        \<or> op = OPERATION_LOAD \<and> \<not> mc_load mc
        \<or> prv p = PRV_M \<and> \<not> mc_m mc \<or> prv p = PRV_S \<and> \<not> mc_s mc \<or> prv p = PRV_U \<and> \<not> mc_u mc)"

text \<open>
  The mask of a naturally aligned range is computed in a 32-bit integer and sign-extended; a shift
  beyond its width, undefined in C, takes the amount modulo the width as the host processor does.
\<close>

definition napot_mask :: "reg_t \<Rightarrow> reg_t" where
  "napot_mask tdata = scast (NOT (push_bit ((cto tdata + 1) mod 32) (1 :: 32 word) - 1))"

text \<open>A match type the code does not list matches anything.\<close>

definition trigger_value_matches :: "nat \<Rightarrow> mcontrol_t \<Rightarrow> reg_t \<Rightarrow> reg_t \<Rightarrow> bool" where
  "trigger_value_matches xl mc tdata value =
     (if mc_match mc = 0 then value = tdata
      else if mc_match mc = 1 then
        (let msk = napot_mask tdata in value AND msk = tdata AND msk)
      else if mc_match mc = 2 then tdata \<le> value
      else if mc_match mc = 3 then value < tdata
      else if mc_match mc = 4 then
        (let msk = drop_bit (xl div 2) tdata in value AND msk = tdata AND msk)
      else if mc_match mc = 5 then
        (let msk = drop_bit (xl div 2) tdata in drop_bit (xl div 2) value AND msk = tdata AND msk)
      else True)"

fun trigger_loop :: "trigger_operation \<Rightarrow> reg_t \<Rightarrow> reg_t \<Rightarrow> processor_t \<Rightarrow> nat \<Rightarrow> nat \<Rightarrow> bool \<Rightarrow> nat option" where
  "trigger_loop op a data p i 0 chain_ok = None"
| "trigger_loop op a data p i (Suc k) chain_ok =
     (let mc = mcontrol p ! i
      in if \<not> chain_ok then trigger_loop op a data p (Suc i) k (chain_ok \<or> \<not> mc_chain mc)
         else if \<not> trigger_applies op mc p then trigger_loop op a data p (Suc i) k chain_ok
         else
           let value = (if mc_select mc then data else a);
               value = (if xlen p = 32 then value AND 0xffffffff else value)
           in if \<not> trigger_value_matches (xlen p) mc (tdata2 p ! i) value
              then trigger_loop op a data p (Suc i) k chain_ok
              else if \<not> mc_chain mc then Some i
              else trigger_loop op a data p (Suc i) k True)"

definition trigger_match :: "trigger_operation \<Rightarrow> reg_t \<Rightarrow> reg_t \<Rightarrow> processor_t \<Rightarrow> nat option" where
  "trigger_match op a data p = (if debug_mode p then None else trigger_loop op a data p 0 num_triggers True)"

text \<open>
  The check made around an access: a trigger that fires before the access throws at once, one
  that fires after it is remembered, so that the access is not interrupted again when the
  instruction is restarted.
\<close>

definition check_trigger :: "trigger_operation \<Rightarrow> reg_t \<Rightarrow> reg_t \<Rightarrow> machine \<Rightarrow> thrown option \<times> machine" where
  "check_trigger op a data m =
     (if matched_trigger m \<noteq> None then (None, m)
      else
        case trigger_match op a data (hart m) of
          None \<Rightarrow> (None, m)
        | Some i \<Rightarrow>
            (Some (Trigger_matched i op a data),
             if \<not> mc_timing (mcontrol (hart m) ! i) then m else m\<lparr>matched_trigger := Some (i, op, a, data)\<rparr>))"

section \<open>The TLB\<close>

abbreviation (input) TLB_CHECK_TRIGGERS :: reg_t where "TLB_CHECK_TRIGGERS \<equiv> 0x8000000000000000"

definition vpn_of :: "reg_t \<Rightarrow> reg_t" where
  "vpn_of a = drop_bit PGSHIFT a"

definition tlb_index :: "reg_t \<Rightarrow> nat" where
  "tlb_index a = unat (vpn_of a mod 256)"

fun tlb_tag :: "access_type \<Rightarrow> mmu_t \<Rightarrow> reg_t list" where
  "tlb_tag FETCH u = tlb_insn_tag u"
| "tlb_tag LOAD u = tlb_load_tag u"
| "tlb_tag STORE u = tlb_store_tag u"

fun check_triggers :: "access_type \<Rightarrow> mmu_t \<Rightarrow> bool" where
  "check_triggers FETCH u = check_triggers_fetch u"
| "check_triggers LOAD u = check_triggers_load u"
| "check_triggers STORE u = check_triggers_store u"

text \<open>A tag of another page is invalidated.\<close>

definition keep_tag :: "nat \<Rightarrow> reg_t \<Rightarrow> reg_t list \<Rightarrow> reg_t list" where
  "keep_tag idx expected tags =
     (if (tags ! idx) AND NOT TLB_CHECK_TRIGGERS \<noteq> expected then tags[idx := - 1] else tags)"

definition refill_tags :: "bool \<Rightarrow> bool \<Rightarrow> nat \<Rightarrow> reg_t \<Rightarrow> reg_t \<Rightarrow> reg_t list \<Rightarrow> reg_t list" where
  "refill_tags this homogeneous idx expected marked tags =
     (let tags = keep_tag idx expected tags in if this \<and> homogeneous then tags[idx := marked] else tags)"

text \<open>
  The code's entry holds the differences of the host and of the physical address to the virtual
  one; host memory is addressed by physical address here.
\<close>

definition refill_tlb :: "reg_t \<Rightarrow> reg_t \<Rightarrow> access_type \<Rightarrow> processor_t \<Rightarrow> processor_t" where
  "refill_tlb vaddr paddr type p =
     (let idx = tlb_index vaddr;
          expected = vpn_of vaddr;
          marked = (if check_triggers type (mmu p) then expected OR TLB_CHECK_TRIGGERS else expected);
          homogeneous = (pmp_homogeneous p (paddr AND NOT 0xFFF) 0x1000 = Some True);
          u = mmu p
      in p\<lparr>mmu := u
           \<lparr>tlb_load_tag := refill_tags (type = LOAD) homogeneous idx expected marked (tlb_load_tag u),
            tlb_store_tag := refill_tags (type = STORE) homogeneous idx expected marked (tlb_store_tag u),
            tlb_insn_tag := refill_tags (type = FETCH) homogeneous idx expected marked (tlb_insn_tag u),
            tlb_data := (tlb_data u)[idx := paddr - vaddr]\<rparr>\<rparr>)"

definition m_refill :: "reg_t \<Rightarrow> reg_t \<Rightarrow> access_type \<Rightarrow> machine \<Rightarrow> machine" where
  "m_refill vaddr paddr type m = m\<lparr>hart := refill_tlb vaddr paddr type (hart m)\<rparr>"

definition m_flush :: "machine \<Rightarrow> machine" where
  "m_flush m = m\<lparr>hart := p_flush_tlb (hart m)\<rparr>"

section \<open>Memory-mapped input and output\<close>

text \<open>The debug region cannot be accessed outside of debug mode.\<close>

definition mmio_ok :: "reg_t \<Rightarrow> processor_t \<Rightarrow> bool" where
  "mmio_ok a p \<longleftrightarrow> \<not> (a \<le> 0xFFF \<and> \<not> debug_mode p)"

definition mmio_load :: "reg_t \<Rightarrow> nat \<Rightarrow> machine \<Rightarrow> uint8 list option \<times> machine" where
  "mmio_load a len m =
     (if \<not> mmio_ok a (hart m) then (None, m)
      else
        case sim_mmio_load (devices m) 0 a len (clint m) [mip (hart m)] of
          (r, c, pends) \<Rightarrow> (r, m\<lparr>clint := c, hart := (hart m)\<lparr>mip := hd pends\<rparr>\<rparr>))"

definition mmio_store :: "reg_t \<Rightarrow> uint8 list \<Rightarrow> machine \<Rightarrow> machine option" where
  "mmio_store a bytes m =
     (if \<not> mmio_ok a (hart m) then None
      else
        case sim_mmio_store (devices m) 0 a bytes (clint m) [mip (hart m)] of
          None \<Rightarrow> None
        | Some (c, pends) \<Rightarrow> Some (m\<lparr>clint := c, hart := (hart m)\<lparr>mip := hd pends\<rparr>\<rparr>))"

section \<open>Loads\<close>

definition load_access_fault :: "reg_t \<Rightarrow> thrown" where
  "load_access_fault a = Trap (mem_trap CAUSE_LOAD_ACCESS a 0 0)"

text \<open>Continue after a check for triggers.\<close>

definition after_check :: "thrown option \<times> machine \<Rightarrow> (machine \<Rightarrow> (thrown + 'a) \<times> machine) \<Rightarrow> (thrown + 'a) \<times> machine" where
  "after_check r k = (case r of (Some e, m) \<Rightarrow> (Inl e, m) | (None, m) \<Rightarrow> k m)"

definition load_slow_path :: "reg_t \<Rightarrow> nat \<Rightarrow> uint32 \<Rightarrow> machine \<Rightarrow> (thrown + reg_t) \<times> machine" where
  "load_slow_path a len xlate_flags m =
     (case translate (phys m) (hart m) a len LOAD xlate_flags of
        Inl e \<Rightarrow> (Inl e, m)
      | Inr paddr \<Rightarrow>
          if addr_to_mem (devices m) paddr then
            let data = from_le (ram_bytes m paddr len)
            in after_check (check_trigger OPERATION_LOAD a data (m_refill a paddr LOAD m)) (\<lambda>m. (Inr data, m))
          else
            case mmio_load paddr len m of
              (None, m) \<Rightarrow> (Inl (load_access_fault a), m)
            | (Some bytes, m) \<Rightarrow>
                after_check (check_trigger OPERATION_LOAD a (from_le bytes) m) (\<lambda>m. (Inr (from_le bytes), m)))"

text \<open>
  The load of 1, 2, 4 or 8 bytes into an unsigned or a signed integer, extended to the width of a
  register. The alignment is only checked when the TLB misses. A hit hands the extended
  datum to the triggers, a miss the bare bytes.
\<close>

definition extend :: "bool \<Rightarrow> nat \<Rightarrow> reg_t \<Rightarrow> reg_t" where
  "extend sg sz x = (if sg then signed_take_bit (8 * sz - 1) x else x)"

definition load_func :: "bool \<Rightarrow> nat \<Rightarrow> uint32 \<Rightarrow> reg_t \<Rightarrow> machine \<Rightarrow> (thrown + reg_t) \<times> machine" where
  "load_func sg sz xlate_flags a m =
     (let m = (if xlate_flags \<noteq> 0 then m_flush m else m);
          vpn = vpn_of a;
          tag = tlb_load_tag (mmu (hart m)) ! tlb_index a;
          data = extend sg sz (from_le (ram_bytes m (tlb_data (mmu (hart m)) ! tlb_index a + a) sz))
      in if tag = vpn then (Inr data, m)
         else if tag = vpn OR TLB_CHECK_TRIGGERS then
           after_check (check_trigger OPERATION_LOAD a data m) (\<lambda>m. (Inr data, m))
         else
           case load_slow_path a sz xlate_flags m of
             (Inl e, m) \<Rightarrow> (Inl e, m)
           | (Inr res, m) \<Rightarrow>
               if a AND (of_nat sz - 1) \<noteq> 0 then (Inl (Trap (mem_trap CAUSE_MISALIGNED_LOAD a 0 0)), m)
               else (Inr (extend sg sz res), if xlate_flags \<noteq> 0 then m_flush m else m))"

section \<open>Stores\<close>

definition store_slow_path :: "reg_t \<Rightarrow> uint8 list \<Rightarrow> uint32 \<Rightarrow> machine \<Rightarrow> (thrown + unit) \<times> machine" where
  "store_slow_path a bytes xlate_flags m =
     (case translate (phys m) (hart m) a (length bytes) STORE xlate_flags of
        Inl e \<Rightarrow> (Inl e, m)
      | Inr paddr \<Rightarrow>
          after_check (check_trigger OPERATION_STORE a (from_le bytes) m)
            (\<lambda>m. if addr_to_mem (devices m) paddr then (Inr (), m_refill a paddr STORE (m\<lparr>ram := set_ram paddr bytes (ram m)\<rparr>))
                 else
                   case mmio_store paddr bytes m of
                     None \<Rightarrow> (Inl (Trap (mem_trap CAUSE_STORE_ACCESS a 0 0)), m)
                   | Some m \<Rightarrow> (Inr (), m)))"

text \<open>The store comes before the check of the alignment.\<close>

definition store_func :: "nat \<Rightarrow> uint32 \<Rightarrow> reg_t \<Rightarrow> reg_t \<Rightarrow> machine \<Rightarrow> (thrown + unit) \<times> machine" where
  "store_func sz xlate_flags a val m =
     (let m = (if xlate_flags \<noteq> 0 then m_flush m else m);
          vpn = vpn_of a;
          tag = tlb_store_tag (mmu (hart m)) ! tlb_index a;
          host = tlb_data (mmu (hart m)) ! tlb_index a + a;
          val = take_bit (8 * sz) val;
          bytes = to_le sz val;
          stored = (if tag = vpn then (Inr (), m\<lparr>ram := set_ram host bytes (ram m)\<rparr>)
                    else if tag = vpn OR TLB_CHECK_TRIGGERS then
                      after_check (check_trigger OPERATION_STORE a val m) (\<lambda>m. (Inr (), m\<lparr>ram := set_ram host bytes (ram m)\<rparr>))
                    else store_slow_path a bytes xlate_flags m)
      in case stored of
           (Inl e, m) \<Rightarrow> (Inl e, m)
         | (Inr _, m) \<Rightarrow>
             if a AND (of_nat sz - 1) \<noteq> 0 then (Inl (Trap (mem_trap CAUSE_MISALIGNED_STORE a 0 0)), m)
             else (Inr (), if xlate_flags \<noteq> 0 then m_flush m else m))"

section \<open>Atomic operations and reservations\<close>

text \<open>The faults of the load are reported as faults of the store.\<close>

definition amo_fault :: "thrown \<Rightarrow> thrown" where
  "amo_fault e =
     (case e of
        Trap t \<Rightarrow>
          if trap_cause t = CAUSE_LOAD_PAGE_FAULT then
            Trap (mem_trap CAUSE_STORE_PAGE_FAULT (trap_tval t) (trap_tval2 t) (trap_tinst t))
          else if trap_cause t = CAUSE_LOAD_ACCESS then
            Trap (mem_trap CAUSE_STORE_ACCESS (trap_tval t) (trap_tval2 t) (trap_tinst t))
          else e
      | _ \<Rightarrow> e)"

definition amo_func :: "nat \<Rightarrow> reg_t \<Rightarrow> (reg_t \<Rightarrow> reg_t) \<Rightarrow> machine \<Rightarrow> (thrown + reg_t) \<times> machine" where
  "amo_func sz a f m =
     (if a AND (of_nat sz - 1) \<noteq> 0 then (Inl (Trap (mem_trap CAUSE_MISALIGNED_STORE a 0 0)), m)
      else
        case load_func False sz 0 a m of
          (Inl e, m) \<Rightarrow> (Inl (amo_fault e), m)
        | (Inr lhs, m) \<Rightarrow>
            (case store_func sz 0 a (f lhs) m of
               (Inl e, m) \<Rightarrow> (Inl (amo_fault e), m)
             | (Inr _, m) \<Rightarrow> (Inr lhs, m)))"

definition set_reservation :: "reg_t \<Rightarrow> machine \<Rightarrow> machine" where
  "set_reservation r m = m\<lparr>hart := (hart m)\<lparr>mmu := (mmu (hart m))\<lparr>load_reservation_address := r\<rparr>\<rparr>\<rparr>"

definition yield_load_reservation :: "machine \<Rightarrow> machine" where
  "yield_load_reservation m = set_reservation (- 1) m"

definition acquire_load_reservation :: "reg_t \<Rightarrow> machine \<Rightarrow> (thrown + unit) \<times> machine" where
  "acquire_load_reservation vaddr m =
     (case translate (phys m) (hart m) vaddr 1 LOAD 0 of
        Inl e \<Rightarrow> (Inl e, m)
      | Inr paddr \<Rightarrow>
          if addr_to_mem (devices m) paddr
          then (Inr (), set_reservation (paddr - vaddr + vaddr) (m_refill vaddr paddr LOAD m))
          else (Inl (load_access_fault vaddr), m))"

definition check_load_reservation :: "reg_t \<Rightarrow> nat \<Rightarrow> machine \<Rightarrow> (thrown + bool) \<times> machine" where
  "check_load_reservation vaddr sz m =
     (if vaddr AND (of_nat sz - 1) \<noteq> 0 then (Inl (Trap (mem_trap CAUSE_MISALIGNED_STORE vaddr 0 0)), m)
      else
        case translate (phys m) (hart m) vaddr 1 STORE 0 of
          Inl e \<Rightarrow> (Inl e, m)
        | Inr paddr \<Rightarrow>
            if addr_to_mem (devices m) paddr
            then (Inr (load_reservation_address (mmu (hart m)) = paddr - vaddr + vaddr), m_refill vaddr paddr STORE m)
            else (Inl (Trap (mem_trap CAUSE_STORE_ACCESS vaddr 0 0)), m))"

section \<open>Instruction fetch\<close>

text \<open>
  A fetch of two bytes: from memory by the TLB's entry, or from a device, which is read into a
  temporary on every access.
\<close>

definition fetch_slow_path :: "reg_t \<Rightarrow> machine \<Rightarrow> (thrown + (reg_t + uint8 list)) \<times> machine" where
  "fetch_slow_path vaddr m =
     (case translate (phys m) (hart m) vaddr 2 FETCH 0 of
        Inl e \<Rightarrow> (Inl e, m)
      | Inr paddr \<Rightarrow>
          if addr_to_mem (devices m) paddr then (Inr (Inl (paddr - vaddr)), m_refill vaddr paddr FETCH m)
          else
            case mmio_load paddr 2 m of
              (None, m) \<Rightarrow> (Inl (Trap (mem_trap CAUSE_FETCH_ACCESS vaddr 0 0)), m)
            | (Some bytes, m) \<Rightarrow> (Inr (Inr bytes), m))"

definition fetch_half :: "reg_t \<Rightarrow> machine \<Rightarrow> (thrown + reg_t) \<times> machine" where
  "fetch_half a m =
     (let vpn = vpn_of a;
          idx = tlb_index a;
          tag = (\<lambda>m. tlb_insn_tag (mmu (hart m)) ! idx);
          entry = (\<lambda>m. tlb_data (mmu (hart m)) ! idx);
          half = (\<lambda>d m. from_le (ram_bytes m (d + a) 2))
      in if tag m = vpn then (Inr (half (entry m) m), m)
         else
           case (if tag m \<noteq> vpn OR TLB_CHECK_TRIGGERS then fetch_slow_path a m else (Inr (Inl (entry m)), m)) of
             (Inl e, m) \<Rightarrow> (Inl e, m)
           | (Inr result, m) \<Rightarrow>
               let insn = (case result of Inl d \<Rightarrow> half d m | Inr bytes \<Rightarrow> from_le bytes)
               in if tag m = vpn OR TLB_CHECK_TRIGGERS then
                    let data = half (entry m) m
                    in (case trigger_match OPERATION_EXECUTE a data (hart m) of
                          Some i \<Rightarrow> (Inl (Trigger_matched i OPERATION_EXECUTE a data), m)
                        | None \<Rightarrow> (Inr insn, m))
                  else (Inr insn, m))"

end
