(* ===== verification/RV_MemInsns.thy ===== *)
theory RV_MemInsns
  imports RV_Access RV_FPR RV_Insns
begin

text \<open>
  The instructions of \<open>riscv/insns\<close> that access memory: integer and floating-point loads and
  stores with their compressed forms, the hypervisor's guest accesses, the atomic operations and
  load-reserved and store-conditional. An instruction takes its bits, its program counter and the machine and
  returns the next program counter or what it throws, with the machine it leaves. The
  checks before the access are the first argument of the frames below.
\<close>

type_synonym mexec = "(thrown + reg_t) \<times> machine"

definition m_illegal :: "insn_bits \<Rightarrow> machine \<Rightarrow> mexec" where
  "m_illegal insn m = (Inl (trap_illegal_instruction (insn_bits insn)), m)"

definition m_done :: "reg_t \<Rightarrow> insn_bits \<Rightarrow> (processor_t \<Rightarrow> processor_t) \<Rightarrow> machine \<Rightarrow> mexec" where
  "m_done at_pc insn upd m = (Inr (next_pc at_pc insn (hart m)), m\<lparr>hart := upd (hart m)\<rparr>)"

definition exec_load :: "bool \<Rightarrow> bool \<Rightarrow> nat \<Rightarrow> uint32 \<Rightarrow> reg_t \<Rightarrow> (reg_t \<Rightarrow> processor_t \<Rightarrow> processor_t) \<Rightarrow> insn_bits \<Rightarrow> reg_t \<Rightarrow> machine \<Rightarrow> mexec" where
  "exec_load ok sg sz xlate_flags a wr insn at_pc m =
     (if \<not> ok then m_illegal insn m
      else case load_func sg sz xlate_flags a m of (Inl e, m) \<Rightarrow> (Inl e, m) | (Inr v, m) \<Rightarrow> m_done at_pc insn (wr v) m)"

definition exec_store :: "bool \<Rightarrow> nat \<Rightarrow> uint32 \<Rightarrow> reg_t \<Rightarrow> reg_t \<Rightarrow> insn_bits \<Rightarrow> reg_t \<Rightarrow> machine \<Rightarrow> mexec" where
  "exec_store ok sz xlate_flags a v insn at_pc m =
     (if \<not> ok then m_illegal insn m
      else case store_func sz xlate_flags a v m of (Inl e, m) \<Rightarrow> (Inl e, m) | (Inr _, m) \<Rightarrow> m_done at_pc insn id m)"

text \<open>The second operand is read when the update is computed, before the destination is written.\<close>

definition exec_amo :: "bool \<Rightarrow> nat \<Rightarrow> (reg_t \<Rightarrow> reg_t) \<Rightarrow> (reg_t \<Rightarrow> reg_t) \<Rightarrow> insn_bits \<Rightarrow> reg_t \<Rightarrow> machine \<Rightarrow> mexec" where
  "exec_amo ok sz f ext insn at_pc m =
     (if \<not> ok then m_illegal insn m
      else
        case amo_func sz (RS1 insn (hart m)) f m of
          (Inl e, m) \<Rightarrow> (Inl e, m)
        | (Inr lhs, m) \<Rightarrow> m_done at_pc insn (write_reg (insn_rd insn) (ext lhs)) m)"

text \<open>The load is made before the reservation is acquired.\<close>

definition exec_lr :: "bool \<Rightarrow> nat \<Rightarrow> insn_bits \<Rightarrow> reg_t \<Rightarrow> machine \<Rightarrow> mexec" where
  "exec_lr ok sz insn at_pc m =
     (if \<not> ok then m_illegal insn m
      else
        let a = RS1 insn (hart m)
        in case load_func True sz 0 a m of
             (Inl e, m) \<Rightarrow> (Inl e, m)
           | (Inr res, m) \<Rightarrow>
               (case acquire_load_reservation a m of
                  (Inl e, m) \<Rightarrow> (Inl e, m)
                | (Inr _, m) \<Rightarrow> m_done at_pc insn (write_reg (insn_rd insn) res) m))"

definition exec_sc :: "bool \<Rightarrow> nat \<Rightarrow> insn_bits \<Rightarrow> reg_t \<Rightarrow> machine \<Rightarrow> mexec" where
  "exec_sc ok sz insn at_pc m =
     (if \<not> ok then m_illegal insn m
      else
        let a = RS1 insn (hart m); v = RS2 insn (hart m);
            finish = (\<lambda>have_reservation m. m_done at_pc insn (write_reg (insn_rd insn) (of_bool (\<not> have_reservation))) (yield_load_reservation m))
        in case check_load_reservation a sz m of
             (Inl e, m) \<Rightarrow> (Inl e, m)
           | (Inr have_reservation, m) \<Rightarrow>
               if have_reservation then
                 (case store_func sz 0 a v m of (Inl e, m) \<Rightarrow> (Inl e, m) | (Inr _, m) \<Rightarrow> finish True m)
               else finish False m)"

text \<open>The checks of the hypervisor's accesses, whose privilege test reads \<open>HU\<close> the wrong way round.\<close>

definition guest_access :: "bool \<Rightarrow> insn_bits \<Rightarrow> machine \<Rightarrow> mexec \<Rightarrow> mexec" where
  "guest_access ok insn m k =
     (let p = hart m
      in if \<not> ok \<or> prv p < (if get_field (hstatus p) HSTATUS_HU \<noteq> 0 then PRV_S else PRV_U) then m_illegal insn m
         else if virt p then (Inl (trap_virtual_instruction (insn_bits insn)), m)
         else k)"

section \<open>Integer loads and stores\<close>

definition rv_lb :: "insn_bits \<Rightarrow> reg_t \<Rightarrow> machine \<Rightarrow> mexec" where
  "rv_lb insn at_pc m =
     (let p = hart m in
        exec_load (True) True 1 0 (RS1 insn p + i_imm insn) (write_reg (insn_rd insn)) insn at_pc m)"

definition rv_lbu :: "insn_bits \<Rightarrow> reg_t \<Rightarrow> machine \<Rightarrow> mexec" where
  "rv_lbu insn at_pc m =
     (let p = hart m in
        exec_load (True) False 1 0 (RS1 insn p + i_imm insn) (write_reg (insn_rd insn)) insn at_pc m)"

definition rv_lh :: "insn_bits \<Rightarrow> reg_t \<Rightarrow> machine \<Rightarrow> mexec" where
  "rv_lh insn at_pc m =
     (let p = hart m in
        exec_load (True) True 2 0 (RS1 insn p + i_imm insn) (write_reg (insn_rd insn)) insn at_pc m)"

definition rv_lhu :: "insn_bits \<Rightarrow> reg_t \<Rightarrow> machine \<Rightarrow> mexec" where
  "rv_lhu insn at_pc m =
     (let p = hart m in
        exec_load (True) False 2 0 (RS1 insn p + i_imm insn) (write_reg (insn_rd insn)) insn at_pc m)"

definition rv_lw :: "insn_bits \<Rightarrow> reg_t \<Rightarrow> machine \<Rightarrow> mexec" where
  "rv_lw insn at_pc m =
     (let p = hart m in
        exec_load (True) True 4 0 (RS1 insn p + i_imm insn) (write_reg (insn_rd insn)) insn at_pc m)"

definition rv_lwu :: "insn_bits \<Rightarrow> reg_t \<Rightarrow> machine \<Rightarrow> mexec" where
  "rv_lwu insn at_pc m =
     (let p = hart m in
        exec_load (xlen p = 64) False 4 0 (RS1 insn p + i_imm insn) (write_reg (insn_rd insn)) insn at_pc m)"

definition rv_ld :: "insn_bits \<Rightarrow> reg_t \<Rightarrow> machine \<Rightarrow> mexec" where
  "rv_ld insn at_pc m =
     (let p = hart m in
        exec_load (xlen p = 64) True 8 0 (RS1 insn p + i_imm insn) (write_reg (insn_rd insn)) insn at_pc m)"

definition rv_sb :: "insn_bits \<Rightarrow> reg_t \<Rightarrow> machine \<Rightarrow> mexec" where
  "rv_sb insn at_pc m =
     (let p = hart m in
        exec_store (True) 1 0 (RS1 insn p + s_imm insn) (RS2 insn p) insn at_pc m)"

definition rv_sh :: "insn_bits \<Rightarrow> reg_t \<Rightarrow> machine \<Rightarrow> mexec" where
  "rv_sh insn at_pc m =
     (let p = hart m in
        exec_store (True) 2 0 (RS1 insn p + s_imm insn) (RS2 insn p) insn at_pc m)"

definition rv_sw :: "insn_bits \<Rightarrow> reg_t \<Rightarrow> machine \<Rightarrow> mexec" where
  "rv_sw insn at_pc m =
     (let p = hart m in
        exec_store (True) 4 0 (RS1 insn p + s_imm insn) (RS2 insn p) insn at_pc m)"

definition rv_sd :: "insn_bits \<Rightarrow> reg_t \<Rightarrow> machine \<Rightarrow> mexec" where
  "rv_sd insn at_pc m =
     (let p = hart m in
        exec_store (xlen p = 64) 8 0 (RS1 insn p + s_imm insn) (RS2 insn p) insn at_pc m)"

section \<open>Floating-point loads and stores\<close>

definition rv_flh :: "insn_bits \<Rightarrow> reg_t \<Rightarrow> machine \<Rightarrow> mexec" where
  "rv_flh insn at_pc m =
     (let p = hart m in
        exec_load (zfh_supported p \<and> fp_on p) False 2 0 (RS1 insn p + i_imm insn) (\<lambda>v. write_freg (insn_rd insn) (box16 (ucast v))) insn at_pc m)"

definition rv_flw :: "insn_bits \<Rightarrow> reg_t \<Rightarrow> machine \<Rightarrow> mexec" where
  "rv_flw insn at_pc m =
     (let p = hart m in
        exec_load (supports_extension (CHR ''F'') p \<and> fp_on p) False 4 0 (RS1 insn p + i_imm insn) (\<lambda>v. write_freg (insn_rd insn) (box32 (ucast v))) insn at_pc m)"

definition rv_fld :: "insn_bits \<Rightarrow> reg_t \<Rightarrow> machine \<Rightarrow> mexec" where
  "rv_fld insn at_pc m =
     (let p = hart m in
        exec_load (supports_extension (CHR ''D'') p \<and> fp_on p) False 8 0 (RS1 insn p + i_imm insn) (\<lambda>v. write_freg (insn_rd insn) (box64 (ucast v))) insn at_pc m)"

definition rv_fsh :: "insn_bits \<Rightarrow> reg_t \<Rightarrow> machine \<Rightarrow> mexec" where
  "rv_fsh insn at_pc m =
     (let p = hart m in
        exec_store (zfh_supported p \<and> fp_on p) 2 0 (RS1 insn p + s_imm insn) (fst (FPR p ! insn_rs2 insn)) insn at_pc m)"

definition rv_fsw :: "insn_bits \<Rightarrow> reg_t \<Rightarrow> machine \<Rightarrow> mexec" where
  "rv_fsw insn at_pc m =
     (let p = hart m in
        exec_store (supports_extension (CHR ''F'') p \<and> fp_on p) 4 0 (RS1 insn p + s_imm insn) (fst (FPR p ! insn_rs2 insn)) insn at_pc m)"

definition rv_fsd :: "insn_bits \<Rightarrow> reg_t \<Rightarrow> machine \<Rightarrow> mexec" where
  "rv_fsd insn at_pc m =
     (let p = hart m in
        exec_store (supports_extension (CHR ''D'') p \<and> fp_on p) 8 0 (RS1 insn p + s_imm insn) (fst (FPR p ! insn_rs2 insn)) insn at_pc m)"

section \<open>Compressed loads and stores\<close>

definition rv_c_lw :: "insn_bits \<Rightarrow> reg_t \<Rightarrow> machine \<Rightarrow> mexec" where
  "rv_c_lw insn at_pc m =
     (let p = hart m in
        exec_load (supports_extension (CHR ''C'') p) True 4 0 (XPR p ! rvc_rs1s insn + rvc_lw_imm insn) (write_reg (rvc_rs2s insn)) insn at_pc m)"

definition rv_c_sw :: "insn_bits \<Rightarrow> reg_t \<Rightarrow> machine \<Rightarrow> mexec" where
  "rv_c_sw insn at_pc m =
     (let p = hart m in
        exec_store (supports_extension (CHR ''C'') p) 4 0 (XPR p ! rvc_rs1s insn + rvc_lw_imm insn) (XPR p ! rvc_rs2s insn) insn at_pc m)"

definition rv_c_lwsp :: "insn_bits \<Rightarrow> reg_t \<Rightarrow> machine \<Rightarrow> mexec" where
  "rv_c_lwsp insn at_pc m =
     (let p = hart m in
        exec_load (supports_extension (CHR ''C'') p \<and> insn_rd insn \<noteq> 0) True 4 0 (XPR p ! X_SP + rvc_lwsp_imm insn) (write_reg (insn_rd insn)) insn at_pc m)"

definition rv_c_swsp :: "insn_bits \<Rightarrow> reg_t \<Rightarrow> machine \<Rightarrow> mexec" where
  "rv_c_swsp insn at_pc m =
     (let p = hart m in
        exec_store (supports_extension (CHR ''C'') p) 4 0 (XPR p ! X_SP + rvc_swsp_imm insn) (XPR p ! rvc_rs2 insn) insn at_pc m)"

definition rv_c_fld :: "insn_bits \<Rightarrow> reg_t \<Rightarrow> machine \<Rightarrow> mexec" where
  "rv_c_fld insn at_pc m =
     (let p = hart m in
        exec_load (supports_extension (CHR ''C'') p \<and> supports_extension (CHR ''D'') p \<and> fp_on p) False 8 0 (XPR p ! rvc_rs1s insn + rvc_ld_imm insn) (\<lambda>v. write_freg (rvc_rs2s insn) (box64 (ucast v))) insn at_pc m)"

definition rv_c_fsd :: "insn_bits \<Rightarrow> reg_t \<Rightarrow> machine \<Rightarrow> mexec" where
  "rv_c_fsd insn at_pc m =
     (let p = hart m in
        exec_store (supports_extension (CHR ''C'') p \<and> supports_extension (CHR ''D'') p \<and> fp_on p) 8 0 (XPR p ! rvc_rs1s insn + rvc_ld_imm insn) (fst (FPR p ! rvc_rs2s insn)) insn at_pc m)"

definition rv_c_fldsp :: "insn_bits \<Rightarrow> reg_t \<Rightarrow> machine \<Rightarrow> mexec" where
  "rv_c_fldsp insn at_pc m =
     (let p = hart m in
        exec_load (supports_extension (CHR ''C'') p \<and> supports_extension (CHR ''D'') p \<and> fp_on p) False 8 0 (XPR p ! X_SP + rvc_ldsp_imm insn) (\<lambda>v. write_freg (insn_rd insn) (box64 (ucast v))) insn at_pc m)"

definition rv_c_fsdsp :: "insn_bits \<Rightarrow> reg_t \<Rightarrow> machine \<Rightarrow> mexec" where
  "rv_c_fsdsp insn at_pc m =
     (let p = hart m in
        exec_store (supports_extension (CHR ''C'') p \<and> supports_extension (CHR ''D'') p \<and> fp_on p) 8 0 (XPR p ! X_SP + rvc_sdsp_imm insn) (fst (FPR p ! rvc_rs2 insn)) insn at_pc m)"

definition rv_c_flw :: "insn_bits \<Rightarrow> reg_t \<Rightarrow> machine \<Rightarrow> mexec" where
  "rv_c_flw insn at_pc m =
     (let p = hart m in
        (if xlen p = 32 then exec_load (supports_extension (CHR ''C'') p \<and> supports_extension (CHR ''F'') p \<and> fp_on p) False 4 0 (XPR p ! rvc_rs1s insn + rvc_lw_imm insn) (\<lambda>v. write_freg (rvc_rs2s insn) (box32 (ucast v))) insn at_pc m
        else exec_load (supports_extension (CHR ''C'') p) True 8 0 (XPR p ! rvc_rs1s insn + rvc_ld_imm insn) (write_reg (rvc_rs2s insn)) insn at_pc m))"

definition rv_c_fsw :: "insn_bits \<Rightarrow> reg_t \<Rightarrow> machine \<Rightarrow> mexec" where
  "rv_c_fsw insn at_pc m =
     (let p = hart m in
        (if xlen p = 32 then exec_store (supports_extension (CHR ''C'') p \<and> supports_extension (CHR ''F'') p \<and> fp_on p) 4 0 (XPR p ! rvc_rs1s insn + rvc_lw_imm insn) (fst (FPR p ! rvc_rs2s insn)) insn at_pc m
        else exec_store (supports_extension (CHR ''C'') p) 8 0 (XPR p ! rvc_rs1s insn + rvc_ld_imm insn) (XPR p ! rvc_rs2s insn) insn at_pc m))"

definition rv_c_flwsp :: "insn_bits \<Rightarrow> reg_t \<Rightarrow> machine \<Rightarrow> mexec" where
  "rv_c_flwsp insn at_pc m =
     (let p = hart m in
        (if xlen p = 32 then exec_load (supports_extension (CHR ''C'') p \<and> supports_extension (CHR ''F'') p \<and> fp_on p) False 4 0 (XPR p ! X_SP + rvc_lwsp_imm insn) (\<lambda>v. write_freg (insn_rd insn) (box32 (ucast v))) insn at_pc m
        else exec_load (supports_extension (CHR ''C'') p \<and> insn_rd insn \<noteq> 0) True 8 0 (XPR p ! X_SP + rvc_ldsp_imm insn) (write_reg (insn_rd insn)) insn at_pc m))"

definition rv_c_fswsp :: "insn_bits \<Rightarrow> reg_t \<Rightarrow> machine \<Rightarrow> mexec" where
  "rv_c_fswsp insn at_pc m =
     (let p = hart m in
        (if xlen p = 32 then exec_store (supports_extension (CHR ''C'') p \<and> supports_extension (CHR ''F'') p \<and> fp_on p) 4 0 (XPR p ! X_SP + rvc_swsp_imm insn) (fst (FPR p ! rvc_rs2 insn)) insn at_pc m
        else exec_store (supports_extension (CHR ''C'') p) 8 0 (XPR p ! X_SP + rvc_sdsp_imm insn) (XPR p ! rvc_rs2 insn) insn at_pc m))"

section \<open>A hypervisor's accesses to guest memory\<close>

definition rv_hlv_b :: "insn_bits \<Rightarrow> reg_t \<Rightarrow> machine \<Rightarrow> mexec" where
  "rv_hlv_b insn at_pc m =
     (let p = hart m in
        guest_access (supports_extension (CHR ''H'') p) insn m
        (exec_load True True 1 RISCV_XLATE_VIRT (RS1 insn p) (write_reg (insn_rd insn)) insn at_pc m))"

definition rv_hlv_bu :: "insn_bits \<Rightarrow> reg_t \<Rightarrow> machine \<Rightarrow> mexec" where
  "rv_hlv_bu insn at_pc m =
     (let p = hart m in
        guest_access (supports_extension (CHR ''H'') p) insn m
        (exec_load True False 1 RISCV_XLATE_VIRT (RS1 insn p) (write_reg (insn_rd insn)) insn at_pc m))"

definition rv_hlv_h :: "insn_bits \<Rightarrow> reg_t \<Rightarrow> machine \<Rightarrow> mexec" where
  "rv_hlv_h insn at_pc m =
     (let p = hart m in
        guest_access (supports_extension (CHR ''H'') p) insn m
        (exec_load True True 2 RISCV_XLATE_VIRT (RS1 insn p) (write_reg (insn_rd insn)) insn at_pc m))"

definition rv_hlv_hu :: "insn_bits \<Rightarrow> reg_t \<Rightarrow> machine \<Rightarrow> mexec" where
  "rv_hlv_hu insn at_pc m =
     (let p = hart m in
        guest_access (supports_extension (CHR ''H'') p) insn m
        (exec_load True False 2 RISCV_XLATE_VIRT (RS1 insn p) (write_reg (insn_rd insn)) insn at_pc m))"

definition rv_hlv_w :: "insn_bits \<Rightarrow> reg_t \<Rightarrow> machine \<Rightarrow> mexec" where
  "rv_hlv_w insn at_pc m =
     (let p = hart m in
        guest_access (supports_extension (CHR ''H'') p) insn m
        (exec_load True True 4 RISCV_XLATE_VIRT (RS1 insn p) (write_reg (insn_rd insn)) insn at_pc m))"

definition rv_hlv_wu :: "insn_bits \<Rightarrow> reg_t \<Rightarrow> machine \<Rightarrow> mexec" where
  "rv_hlv_wu insn at_pc m =
     (let p = hart m in
        guest_access (supports_extension (CHR ''H'') p \<and> xlen p = 64) insn m
        (exec_load True False 4 RISCV_XLATE_VIRT (RS1 insn p) (write_reg (insn_rd insn)) insn at_pc m))"

definition rv_hlv_d :: "insn_bits \<Rightarrow> reg_t \<Rightarrow> machine \<Rightarrow> mexec" where
  "rv_hlv_d insn at_pc m =
     (let p = hart m in
        guest_access (supports_extension (CHR ''H'') p \<and> xlen p = 64) insn m
        (exec_load True True 8 RISCV_XLATE_VIRT (RS1 insn p) (write_reg (insn_rd insn)) insn at_pc m))"

definition rv_hlvx_hu :: "insn_bits \<Rightarrow> reg_t \<Rightarrow> machine \<Rightarrow> mexec" where
  "rv_hlvx_hu insn at_pc m =
     (let p = hart m in
        guest_access (supports_extension (CHR ''H'') p) insn m
        (exec_load True False 2 (RISCV_XLATE_VIRT OR RISCV_XLATE_VIRT_MXR) (RS1 insn p) (write_reg (insn_rd insn)) insn at_pc m))"

definition rv_hlvx_wu :: "insn_bits \<Rightarrow> reg_t \<Rightarrow> machine \<Rightarrow> mexec" where
  "rv_hlvx_wu insn at_pc m =
     (let p = hart m in
        guest_access (supports_extension (CHR ''H'') p) insn m
        (exec_load True False 4 (RISCV_XLATE_VIRT OR RISCV_XLATE_VIRT_MXR) (RS1 insn p) (write_reg (insn_rd insn)) insn at_pc m))"

definition rv_hsv_b :: "insn_bits \<Rightarrow> reg_t \<Rightarrow> machine \<Rightarrow> mexec" where
  "rv_hsv_b insn at_pc m =
     (let p = hart m in
        guest_access (supports_extension (CHR ''H'') p) insn m
        (exec_store True 1 RISCV_XLATE_VIRT (RS1 insn p) (RS2 insn p) insn at_pc m))"

definition rv_hsv_h :: "insn_bits \<Rightarrow> reg_t \<Rightarrow> machine \<Rightarrow> mexec" where
  "rv_hsv_h insn at_pc m =
     (let p = hart m in
        guest_access (supports_extension (CHR ''H'') p) insn m
        (exec_store True 2 RISCV_XLATE_VIRT (RS1 insn p) (RS2 insn p) insn at_pc m))"

definition rv_hsv_w :: "insn_bits \<Rightarrow> reg_t \<Rightarrow> machine \<Rightarrow> mexec" where
  "rv_hsv_w insn at_pc m =
     (let p = hart m in
        guest_access (supports_extension (CHR ''H'') p) insn m
        (exec_store True 4 RISCV_XLATE_VIRT (RS1 insn p) (RS2 insn p) insn at_pc m))"

definition rv_hsv_d :: "insn_bits \<Rightarrow> reg_t \<Rightarrow> machine \<Rightarrow> mexec" where
  "rv_hsv_d insn at_pc m =
     (let p = hart m in
        guest_access (supports_extension (CHR ''H'') p \<and> xlen p = 64) insn m
        (exec_store True 8 RISCV_XLATE_VIRT (RS1 insn p) (RS2 insn p) insn at_pc m))"

section \<open>Atomic memory operations\<close>

definition rv_amoadd_w :: "insn_bits \<Rightarrow> reg_t \<Rightarrow> machine \<Rightarrow> mexec" where
  "rv_amoadd_w insn at_pc m =
     (let p = hart m in
        exec_amo (supports_extension (CHR ''A'') p) 4 (\<lambda>lhs. lhs + RS2 insn p) sext32 insn at_pc m)"

definition rv_amoadd_d :: "insn_bits \<Rightarrow> reg_t \<Rightarrow> machine \<Rightarrow> mexec" where
  "rv_amoadd_d insn at_pc m =
     (let p = hart m in
        exec_amo (supports_extension (CHR ''A'') p \<and> xlen p = 64) 8 (\<lambda>lhs. lhs + RS2 insn p) id insn at_pc m)"

definition rv_amoand_w :: "insn_bits \<Rightarrow> reg_t \<Rightarrow> machine \<Rightarrow> mexec" where
  "rv_amoand_w insn at_pc m =
     (let p = hart m in
        exec_amo (supports_extension (CHR ''A'') p) 4 (\<lambda>lhs. lhs AND RS2 insn p) sext32 insn at_pc m)"

definition rv_amoand_d :: "insn_bits \<Rightarrow> reg_t \<Rightarrow> machine \<Rightarrow> mexec" where
  "rv_amoand_d insn at_pc m =
     (let p = hart m in
        exec_amo (supports_extension (CHR ''A'') p \<and> xlen p = 64) 8 (\<lambda>lhs. lhs AND RS2 insn p) id insn at_pc m)"

definition rv_amoor_w :: "insn_bits \<Rightarrow> reg_t \<Rightarrow> machine \<Rightarrow> mexec" where
  "rv_amoor_w insn at_pc m =
     (let p = hart m in
        exec_amo (supports_extension (CHR ''A'') p) 4 (\<lambda>lhs. lhs OR RS2 insn p) sext32 insn at_pc m)"

definition rv_amoor_d :: "insn_bits \<Rightarrow> reg_t \<Rightarrow> machine \<Rightarrow> mexec" where
  "rv_amoor_d insn at_pc m =
     (let p = hart m in
        exec_amo (supports_extension (CHR ''A'') p \<and> xlen p = 64) 8 (\<lambda>lhs. lhs OR RS2 insn p) id insn at_pc m)"

definition rv_amoxor_w :: "insn_bits \<Rightarrow> reg_t \<Rightarrow> machine \<Rightarrow> mexec" where
  "rv_amoxor_w insn at_pc m =
     (let p = hart m in
        exec_amo (supports_extension (CHR ''A'') p) 4 (\<lambda>lhs. lhs XOR RS2 insn p) sext32 insn at_pc m)"

definition rv_amoxor_d :: "insn_bits \<Rightarrow> reg_t \<Rightarrow> machine \<Rightarrow> mexec" where
  "rv_amoxor_d insn at_pc m =
     (let p = hart m in
        exec_amo (supports_extension (CHR ''A'') p \<and> xlen p = 64) 8 (\<lambda>lhs. lhs XOR RS2 insn p) id insn at_pc m)"

definition rv_amoswap_w :: "insn_bits \<Rightarrow> reg_t \<Rightarrow> machine \<Rightarrow> mexec" where
  "rv_amoswap_w insn at_pc m =
     (let p = hart m in
        exec_amo (supports_extension (CHR ''A'') p) 4 (\<lambda>lhs. RS2 insn p) sext32 insn at_pc m)"

definition rv_amoswap_d :: "insn_bits \<Rightarrow> reg_t \<Rightarrow> machine \<Rightarrow> mexec" where
  "rv_amoswap_d insn at_pc m =
     (let p = hart m in
        exec_amo (supports_extension (CHR ''A'') p \<and> xlen p = 64) 8 (\<lambda>lhs. RS2 insn p) id insn at_pc m)"

definition rv_amomax_w :: "insn_bits \<Rightarrow> reg_t \<Rightarrow> machine \<Rightarrow> mexec" where
  "rv_amomax_w insn at_pc m =
     (let p = hart m in
        exec_amo (supports_extension (CHR ''A'') p) 4 (\<lambda>lhs. if (ucast lhs :: 32 word) <s ucast (RS2 insn p) then RS2 insn p else lhs) sext32 insn at_pc m)"

definition rv_amomax_d :: "insn_bits \<Rightarrow> reg_t \<Rightarrow> machine \<Rightarrow> mexec" where
  "rv_amomax_d insn at_pc m =
     (let p = hart m in
        exec_amo (supports_extension (CHR ''A'') p \<and> xlen p = 64) 8 (\<lambda>lhs. if lhs <s RS2 insn p then RS2 insn p else lhs) id insn at_pc m)"

definition rv_amomin_w :: "insn_bits \<Rightarrow> reg_t \<Rightarrow> machine \<Rightarrow> mexec" where
  "rv_amomin_w insn at_pc m =
     (let p = hart m in
        exec_amo (supports_extension (CHR ''A'') p) 4 (\<lambda>lhs. if ucast (RS2 insn p) <s (ucast lhs :: 32 word) then RS2 insn p else lhs) sext32 insn at_pc m)"

definition rv_amomin_d :: "insn_bits \<Rightarrow> reg_t \<Rightarrow> machine \<Rightarrow> mexec" where
  "rv_amomin_d insn at_pc m =
     (let p = hart m in
        exec_amo (supports_extension (CHR ''A'') p \<and> xlen p = 64) 8 (\<lambda>lhs. if RS2 insn p <s lhs then RS2 insn p else lhs) id insn at_pc m)"

definition rv_amomaxu_w :: "insn_bits \<Rightarrow> reg_t \<Rightarrow> machine \<Rightarrow> mexec" where
  "rv_amomaxu_w insn at_pc m =
     (let p = hart m in
        exec_amo (supports_extension (CHR ''A'') p) 4 (\<lambda>lhs. if (ucast lhs :: 32 word) < ucast (RS2 insn p) then RS2 insn p else lhs) sext32 insn at_pc m)"

definition rv_amomaxu_d :: "insn_bits \<Rightarrow> reg_t \<Rightarrow> machine \<Rightarrow> mexec" where
  "rv_amomaxu_d insn at_pc m =
     (let p = hart m in
        exec_amo (supports_extension (CHR ''A'') p \<and> xlen p = 64) 8 (\<lambda>lhs. if lhs < RS2 insn p then RS2 insn p else lhs) id insn at_pc m)"

definition rv_amominu_w :: "insn_bits \<Rightarrow> reg_t \<Rightarrow> machine \<Rightarrow> mexec" where
  "rv_amominu_w insn at_pc m =
     (let p = hart m in
        exec_amo (supports_extension (CHR ''A'') p) 4 (\<lambda>lhs. if ucast (RS2 insn p) < (ucast lhs :: 32 word) then RS2 insn p else lhs) sext32 insn at_pc m)"

definition rv_amominu_d :: "insn_bits \<Rightarrow> reg_t \<Rightarrow> machine \<Rightarrow> mexec" where
  "rv_amominu_d insn at_pc m =
     (let p = hart m in
        exec_amo (supports_extension (CHR ''A'') p \<and> xlen p = 64) 8 (\<lambda>lhs. if RS2 insn p < lhs then RS2 insn p else lhs) id insn at_pc m)"

section \<open>Load-reserved and store-conditional\<close>

definition rv_lr_w :: "insn_bits \<Rightarrow> reg_t \<Rightarrow> machine \<Rightarrow> mexec" where
  "rv_lr_w insn at_pc m =
     (let p = hart m in
        exec_lr (supports_extension (CHR ''A'') p) 4 insn at_pc m)"

definition rv_lr_d :: "insn_bits \<Rightarrow> reg_t \<Rightarrow> machine \<Rightarrow> mexec" where
  "rv_lr_d insn at_pc m =
     (let p = hart m in
        exec_lr (supports_extension (CHR ''A'') p \<and> xlen p = 64) 8 insn at_pc m)"

definition rv_sc_w :: "insn_bits \<Rightarrow> reg_t \<Rightarrow> machine \<Rightarrow> mexec" where
  "rv_sc_w insn at_pc m =
     (let p = hart m in
        exec_sc (supports_extension (CHR ''A'') p) 4 insn at_pc m)"

definition rv_sc_d :: "insn_bits \<Rightarrow> reg_t \<Rightarrow> machine \<Rightarrow> mexec" where
  "rv_sc_d insn at_pc m =
     (let p = hart m in
        exec_sc (supports_extension (CHR ''A'') p \<and> xlen p = 64) 8 insn at_pc m)"

end
