(* ===== verification/RV_TLB.thy ===== *)
theory RV_TLB
  imports RV_Access
begin

text \<open>
  The translation cache of \<open>riscv/mmu.cc\<close> and \<open>riscv/mmu.h\<close> is transparent: what an aligned
  access answers does not depend on what the cache holds. A translation is a function of the
  page and, where it succeeds, the same for every kind of access; the cache's entries agree with
  the translation, and loads, fetches, refills and flushes keep it so.
\<close>

section \<open>What a translation reads\<close>

definition same_view :: "processor_t \<Rightarrow> processor_t \<Rightarrow> bool" where
  "same_view p q \<longleftrightarrow>
     prv p = prv q \<and> virt p = virt q \<and> mstatus p = mstatus q \<and> hstatus p = hstatus q \<and> satp p = satp q \<and> vsatp p = vsatp q
     \<and> hgatp p = hgatp q \<and> debug_mode p = debug_mode q \<and> pmpcfg p = pmpcfg q \<and> pmpaddr p = pmpaddr q \<and> n_pmp p = n_pmp q
     \<and> lg_pmp_granularity p = lg_pmp_granularity q \<and> xlen p = xlen q \<and> max_xlen p = max_xlen q"

lemma same_view_simps [simp]:
  "same_view (p\<lparr>mmu := u\<rparr>) p" "same_view (p\<lparr>mip := i\<rparr>) p" "same_view p p"
  by (simp_all add: same_view_def)

lemma pmp_ok_view:
  assumes "same_view p q"
  shows "pmp_ok p a n t mode = pmp_ok q a n t mode"
proof -
  have "pmp_loop p a n t mode i k base = pmp_loop q a n t mode i k base" for i k base
    using assms by (induction k arbitrary: i base)
      (simp_all add: same_view_def pmp_match_def[abs_def] pmp_tor_def pmp_tor_mask_def pmp_mask_def Let_def)
  then show ?thesis
    using assms by (simp add: pmp_ok_def same_view_def)
qed

lemma pmp_homogeneous_view:
  assumes "same_view p q"
  shows "pmp_homogeneous p a n = pmp_homogeneous q a n"
proof -
  have "pmp_homogeneous_loop p a n i k base = pmp_homogeneous_loop q a n i k base" for i k base
    using assms by (induction k arbitrary: i base)
      (simp_all add: same_view_def pmp_entry_homogeneous_def pmp_tor_def pmp_tor_mask_def pmp_mask_def Let_def)
  then show ?thesis
    using assms by (simp add: pmp_homogeneous_def same_view_def)
qed

lemma s2xlate_view:
  assumes "same_view p q"
  shows "s2xlate m p gva gpa t vt mxr = s2xlate m q gva gpa t vt mxr"
proof -
  have "s2_loop m p vm gva gpa t mxr i base = s2_loop m q vm gva gpa t mxr i base" for vm i base
    by (induction i arbitrary: base) (simp_all add: pmp_ok_view[OF assms] Let_def)
  then show ?thesis
    using assms by (simp add: s2xlate_def same_view_def split: option.split)
qed

lemma walk_view:
  assumes "same_view p q"
  shows "walk m p a t mode vt mxr = walk m q a t mode vt mxr"
proof -
  have wl: "walk_loop m p vm a t mode vt mxr i base = walk_loop m q vm a t mode vt mxr i base" for vm i base
    by (induction i arbitrary: base)
      (use assms in \<open>simp_all add: pmp_ok_view[OF assms] s2xlate_view[OF assms] Let_def same_view_def split: sum.split\<close>)
  have f: "max_xlen p = max_xlen q" "vsatp p = vsatp q" "satp p = satp q" "xlen p = xlen q"
    using assms by (simp_all add: same_view_def)
  show ?thesis
    unfolding walk_def s2xlate_view[OF assms] wl f ..
qed

lemma effective_mode_view: "same_view p q \<Longrightarrow> effective_mode p t flags = effective_mode q t flags"
  by (simp add: effective_mode_def same_view_def Let_def)

lemma translate_view: "same_view p q \<Longrightarrow> translate m p a n t flags = translate m q a n t flags"
  unfolding translate_def by (simp only: walk_view pmp_ok_view effective_mode_view)

section \<open>A translation is a function of the page\<close>

definition res_page :: "thrown + reg_t \<Rightarrow> reg_t option" where
  "res_page r = (case r of Inl _ \<Rightarrow> None | Inr x \<Rightarrow> Some (vpn_of x))"

definition res_val :: "thrown + reg_t \<Rightarrow> reg_t option" where
  "res_val r = (case r of Inl _ \<Rightarrow> None | Inr x \<Rightarrow> Some x)"

lemma res_simps [simp]:
  "res_page (Inl e) = None" "res_page (Inr x) = Some (vpn_of x)" "res_val (Inl e) = None" "res_val (Inr x) = Some x"
  "res_val (throw_access_exception a t) = None" "res_val (throw_page_fault a t) = None" "res_val (throw_guest_page_fault a g t) = None"
  "res_page (throw_access_exception a t) = None" "res_page (throw_guest_page_fault a g t) = None"
  by (simp_all add: res_page_def res_val_def throw_access_exception_def throw_page_fault_def throw_guest_page_fault_def)

lemma res_val_Some [simp]: "res_val r = Some x \<longleftrightarrow> r = Inr x"
  by (auto simp: res_val_def split: sum.splits)

lemma drop_vpn:
  assumes "vpn_of a = vpn_of b" and "12 \<le> n"
  shows "drop_bit n a = drop_bit n b"
proof -
  have "drop_bit n x = drop_bit (n - 12) (vpn_of x)" for x
    using assms(2) by (simp add: vpn_of_def)
  then show ?thesis
    using assms(1) by simp
qed

lemma page_of_vpn:
  assumes "vpn_of a = vpn_of b"
  shows "vpn_of (page_of ppn a s) = vpn_of (page_of ppn b s)"
proof -
  have "vpn_of (page_of ppn x s) = take_bit 52 (ppn OR (vpn_of x AND low_bits s))" for x
    unfolding vpn_of_def page_of_def low_bits_mask
    by (rule bit_word_eqI) (auto simp: bit_drop_bit_eq bit_or_iff bit_push_bit_iff bit_and_iff bit_mask_iff bit_take_bit_iff)
  then show ?thesis
    using assms by simp
qed

lemma page_base_vpn: "x AND NOT (low_bits 12) = push_bit 12 (vpn_of x)"
  unfolding vpn_of_def low_bits_mask
  by (rule bit_word_eqI) (auto simp: bit_drop_bit_eq bit_push_bit_iff bit_and_iff bit_mask_iff bit_not_iff)

lemma s2_loop_page:
  assumes "vpn_of g = vpn_of g'"
  shows "res_page (s2_loop m p vm gva g t mxr i base) = res_page (s2_loop m p vm gva' g' t mxr i base)"
proof (induction i arbitrary: base)
  case (Suc i)
  show ?case
    by (simp add: Let_def drop_vpn[OF assms] page_of_vpn[OF assms] Suc.IH)
qed simp

lemma s2_loop_value: "res_val (s2_loop m p vm gva g t mxr i base) = res_val (s2_loop m p vm gva' g t mxr i base)"
  by (induction i arbitrary: base) (simp_all add: Let_def)

lemma s2_loop_type:
  "s2_loop m p vm gva g t mxr i base = Inr x \<Longrightarrow> s2_loop m p vm gva' g t' mxr' i base = Inr x' \<Longrightarrow> x = x'"
proof (induction i arbitrary: base)
  case (Suc i)
  then show ?case
    by (simp add: Let_def throw_access_exception_def throw_guest_page_fault_def split: if_splits)
qed (simp add: throw_guest_page_fault_def)

lemma s2xlate_page:
  assumes "vpn_of g = vpn_of g'"
  shows "res_page (s2xlate m p gva g t vt mxr) = res_page (s2xlate m p gva' g' t vt mxr)"
  using s2_loop_page[OF assms] assms by (simp add: s2xlate_def split: option.split)

lemma s2xlate_value: "res_val (s2xlate m p gva g t vt mxr) = res_val (s2xlate m p gva' g t vt mxr)"
  using s2_loop_value by (auto simp add: s2xlate_def split: option.split)

lemma s2xlate_type:
  "s2xlate m p gva g t vt mxr = Inr x \<Longrightarrow> s2xlate m p gva' g t' vt mxr' = Inr x' \<Longrightarrow> x = x'"
  by (auto simp: s2xlate_def split: option.splits if_splits dest: s2_loop_type)

lemma walk_loop_page:
  assumes "vpn_of a = vpn_of b"
  shows "res_val (walk_loop m p vm a t mode vt mxr i base) = res_val (walk_loop m p vm b t mode vt mxr i base)"
proof (induction i arbitrary: base)
  case (Suc i)
  define g where "g = base + (drop_bit (12 + i * vm_idxbits vm) a AND low_bits (vm_idxbits vm)) * of_nat (vm_ptesize vm)"
  have g: "g = base + (drop_bit (12 + i * vm_idxbits vm) b AND low_bits (vm_idxbits vm)) * of_nat (vm_ptesize vm)"
    by (simp add: g_def drop_vpn[OF assms])
  have fin: "res_val (case s2xlate m p a (page_of q a s) t vt mxr of Inl e \<Rightarrow> Inl e | Inr pa \<Rightarrow> Inr (pa AND NOT (low_bits 12)))
      = res_val (case s2xlate m p b (page_of q b s) t vt mxr of Inl e \<Rightarrow> Inl e | Inr pa \<Rightarrow> Inr (pa AND NOT (low_bits 12)))" for q s
    using s2xlate_page[OF page_of_vpn[OF assms], of m p a q s t vt mxr b]
    by (auto simp: page_base_vpn split: sum.splits)
  show ?case
  proof (cases "s2xlate m p a g LOAD vt False")
    case (Inr x)
    then have y: "s2xlate m p b g LOAD vt False = Inr x"
      using s2xlate_value[of m p a g LOAD vt False b] by (cases "s2xlate m p b g LOAD vt False") simp_all
    show ?thesis
      unfolding walk_loop.simps Let_def g_def[symmetric] g[symmetric] Inr y sum.case
      by (simp add: Suc.IH fin)
  next
    case (Inl e)
    then obtain e' where y: "s2xlate m p b g LOAD vt False = Inl e'"
      using s2xlate_value[of m p a g LOAD vt False b] by (cases "s2xlate m p b g LOAD vt False") auto
    show ?thesis
      unfolding walk_loop.simps Let_def g_def[symmetric] g[symmetric] Inl y sum.case by simp
  qed
qed simp

lemma walk_loop_type:
  "walk_loop m p vm a t mode vt mxr i base = Inr x \<Longrightarrow> walk_loop m p vm a t' mode vt mxr' i base = Inr x' \<Longrightarrow> x = x'"
proof (induction i arbitrary: base)
  case (Suc i)
  then show ?case
    by (auto simp: Let_def throw_access_exception_def throw_page_fault_def split: if_splits sum.splits dest: s2xlate_type)
qed (simp add: throw_page_fault_def)

lemma decode_idxbits:
  assumes "decode_vm_info xl s2 mode atp = Some vm"
  shows "vm_levels vm = 0 \<or> 0 < vm_levels vm * vm_idxbits vm"
  using assms by (auto simp: decode_vm_info_def Let_def split: if_splits)

lemma bare_vpn: "vpn_of a = vpn_of b \<Longrightarrow> vpn_of (a AND m) = vpn_of (b AND m)"
  by (simp add: vpn_of_def)

lemma walk_page:
  assumes "vpn_of a = vpn_of b"
  shows "res_val (walk m p a t mode vt mxr) = res_val (walk m p b t mode vt mxr)"
proof (cases "decode_vm_info (max_xlen p) False mode (if vt then vsatp p else satp p)")
  case (Some vm)
  have fin: "res_val (case s2xlate m p a (a AND k) t vt mxr of Inl e \<Rightarrow> Inl e | Inr pa \<Rightarrow> Inr (pa AND NOT (low_bits 12)))
      = res_val (case s2xlate m p b (b AND k) t vt mxr of Inl e \<Rightarrow> Inl e | Inr pa \<Rightarrow> Inr (pa AND NOT (low_bits 12)))" for k
    using s2xlate_page[OF bare_vpn[OF assms], of m p a k t vt mxr b]
    by (auto simp: page_base_vpn split: sum.splits)
  show ?thesis
  proof (cases "vm_levels vm = 0")
    case True
    then show ?thesis
      unfolding walk_def Some option.case if_P[OF True] using fin by simp
  next
    case False
    then have "12 \<le> 12 + vm_levels vm * vm_idxbits vm - 1"
      using decode_idxbits[OF Some] by linarith
    from drop_vpn[OF assms this] show ?thesis
      unfolding walk_def Some option.case if_not_P[OF False] Let_def by (simp add: walk_loop_page[OF assms])
  qed
qed (simp add: walk_def)

lemma walk_type:
  assumes "walk m p a t mode vt mxr = Inr x" and "walk m p a t' mode vt mxr' = Inr x'"
  shows "x = x'"
  using assms by (auto simp: walk_def Let_def throw_page_fault_def split: option.splits if_splits sum.splits dest: s2xlate_type walk_loop_type)

lemma walk_loop_base:
  "walk_loop m p vm a t mode vt mxr i base = Inr x \<Longrightarrow> x AND low_bits 12 = 0"
proof (induction i arbitrary: base)
  case (Suc i)
  then show ?case
    by (auto simp: Let_def throw_access_exception_def throw_page_fault_def and.assoc split: if_splits sum.splits)
qed (simp add: throw_page_fault_def)

lemma walk_base: "walk m p a t mode vt mxr = Inr x \<Longrightarrow> x AND low_bits 12 = 0"
  by (auto simp: walk_def Let_def and.assoc throw_page_fault_def split: option.splits if_splits sum.splits dest: walk_loop_base)

section \<open>Aligned accesses of a page\<close>

definition aligned :: "reg_t \<Rightarrow> nat \<Rightarrow> bool" where
  "aligned a n \<longleftrightarrow> n \<in> {1, 2, 4, 8} \<and> a AND (of_nat n - 1) = 0"

lemma aligned_bits: "aligned a n \<longleftrightarrow> (\<exists>k\<le>3. n = 2 ^ k \<and> take_bit k a = 0)"
proof -
  have "n \<in> {1, 2, 4, 8} \<longleftrightarrow> (\<exists>k\<le>3. n = 2 ^ k)"
  proof
    assume "n \<in> {1, 2, 4, 8}"
    then have "n = 2 ^ 0 \<or> n = 2 ^ 1 \<or> n = 2 ^ 2 \<or> n = 2 ^ 3"
      by auto
    then show "\<exists>k\<le>3. n = 2 ^ k"
      by (elim disjE) (rule exI, rule conjI[rotated], assumption, simp)+
  next
    assume "\<exists>k\<le>3. n = 2 ^ k"
    then obtain k where "k = 0 \<or> k = 1 \<or> k = 2 \<or> k = 3" "n = 2 ^ k"
      by (metis One_nat_def Suc_1 le_0_eq le_Suc_eq numeral_3_eq_3)
    then show "n \<in> {1, 2, 4, 8}"
      by auto
  qed
  moreover have "a AND (of_nat (2 ^ k) - 1) = take_bit k a" for k
    by (simp add: take_bit_eq_mask mask_eq_exp_minus_1)
  ultimately show ?thesis
    unfolding aligned_def by metis
qed

lemma aligned_sectors:
  assumes "aligned a n"
  shows "set (sectors a n) \<subseteq> page a" and "sectors a n \<noteq> []"
proof -
  obtain k where k: "k \<le> 3" "n = 2 ^ k" "take_bit k a = 0"
    using assms by (auto simp: aligned_bits)
  have "a + 4 \<in> page a" if "k = 3"
  proof -
    have "\<not> bit a 2"
      using arg_cong[OF k(3), of "\<lambda>w. bit w 2"] that by (simp add: bit_take_bit_iff)
    moreover have b4: "bit (4 :: reg_t) i \<longleftrightarrow> i = 2" for i
      using bit_exp_iff[where 'a = "64 word", of 2 i] by auto
    ultimately have "a + 4 = a OR 4"
      by (intro disjunctive_add) auto
    moreover have "drop_bit 12 (a OR 4) = drop_bit 12 a"
      by (rule bit_word_eqI) (auto simp: bit_drop_bit_eq bit_or_iff b4)
    ultimately show ?thesis
      by (simp add: page_def)
  qed
  moreover have sec: "sectors a 1 = [a]" "sectors a 2 = [a]" "sectors a 4 = [a]" "sectors a 8 = [a, a + 4]"
    by (simp_all add: sectors_def upt_rec)
  moreover have "k = 0 \<or> k = 1 \<or> k = 2 \<or> k = 3"
    using k(1) by linarith
  ultimately show "set (sectors a n) \<subseteq> page a" and "sectors a n \<noteq> []"
    unfolding k(2) by (elim disjE; simp add: page_def)+
qed

text \<open>The address within a page the walk found.\<close>

lemma offset_in_page:
  fixes pg :: reg_t
  assumes "pg AND low_bits 12 = 0"
  shows "vpn_of (pg OR (a AND low_bits 12)) = vpn_of pg"
    and "vpn_of a = vpn_of b \<Longrightarrow> pg OR (b AND low_bits 12) = (pg OR (a AND low_bits 12)) - a + b"
    and "aligned (pg OR (a AND low_bits 12)) n \<longleftrightarrow> aligned a n"
proof -
  have pg: "\<not> bit pg i" if "i < 12" for i
    using arg_cong[OF assms, of "\<lambda>w. bit w i"] that by (simp add: low_bits_mask bit_and_iff bit_mask_iff)
  show "vpn_of (pg OR (a AND low_bits 12)) = vpn_of pg"
    unfolding vpn_of_def low_bits_mask
    by (rule bit_word_eqI) (auto simp: bit_drop_bit_eq bit_or_iff bit_and_iff bit_mask_iff)
  have s: "pg OR (x AND low_bits 12) = pg + (x AND low_bits 12)" for x
    by (rule disjunctive_add[symmetric]) (auto simp: low_bits_mask bit_and_iff bit_mask_iff pg)
  have d: "x - (x AND low_bits 12) = push_bit 12 (vpn_of x)" for x
  proof -
    have "x = push_bit 12 (vpn_of x) OR (x AND low_bits 12)"
      unfolding vpn_of_def low_bits_mask
      by (rule bit_word_eqI) (auto simp: bit_drop_bit_eq bit_or_iff bit_and_iff bit_mask_iff bit_push_bit_iff)
    also have "\<dots> = push_bit 12 (vpn_of x) + (x AND low_bits 12)"
      by (rule disjunctive_add[symmetric]) (auto simp: low_bits_mask bit_and_iff bit_mask_iff bit_push_bit_iff)
    finally show ?thesis
      by (simp add: algebra_simps)
  qed
  show "pg OR (b AND low_bits 12) = (pg OR (a AND low_bits 12)) - a + b" if "vpn_of a = vpn_of b"
  proof -
    have "pg + (a AND low_bits 12) - a + b = pg - (a - (a AND low_bits 12)) + b"
      by simp
    also have "\<dots> = pg - (b - (b AND low_bits 12)) + b"
      unfolding d that ..
    finally show ?thesis
      unfolding s by simp
  qed
  have "take_bit k (pg OR (a AND low_bits 12)) = take_bit k a" if "k \<le> 3" for k
    by (rule bit_word_eqI) (use that pg in \<open>auto simp: bit_take_bit_iff bit_or_iff bit_and_iff bit_mask_iff low_bits_mask\<close>)
  then show "aligned (pg OR (a AND low_bits 12)) n \<longleftrightarrow> aligned a n"
    unfolding aligned_bits by metis
qed

lemma page_vpn: "page a = {c. vpn_of c = vpn_of a}"
  by (simp add: page_def vpn_of_def)

lemma page_of_base: "page (a AND NOT 0xFFF) = page a"
proof -
  have "NOT 0xFFF = NOT (mask 12 :: reg_t)"
    by (simp add: mask_numeral)
  then have "drop_bit 12 (a AND NOT 0xFFF) = drop_bit 12 (a AND NOT (mask 12))"
    by (simp only:)
  also have "\<dots> = drop_bit 12 a"
    by (rule bit_word_eqI) (auto simp: bit_drop_bit_eq bit_and_iff bit_not_iff bit_mask_iff dest: bit_imp_le_length)
  finally show ?thesis
    by (simp add: page_def)
qed

lemma translate_same_page:
  assumes "translate m p a n t flags = Inr pa" and "aligned a n"
    and "pmp_homogeneous p (pa AND NOT 0xFFF) 0x1000 = Some True" and "vpn_of b = vpn_of a" and "aligned b n'"
  shows "translate m p b n' t flags = Inr (pa - a + b)" and "vpn_of (pa - a + b) = vpn_of pa"
proof -
  obtain mode vt mxr where e: "effective_mode p t flags = (mode, vt, mxr)"
    by (cases "effective_mode p t flags")
  obtain pg where w: "walk m p a t mode vt mxr = Inr pg" and pa: "pa = pg OR (a AND low_bits 12)" and ok: "pmp_ok p pa n t mode"
    using assms(1) by (auto simp: translate_iff[OF e])
  note o = offset_in_page[OF walk_base[OF w]]
  have pb: "pa - a + b = pg OR (b AND low_bits 12)"
    unfolding pa o(2)[OF assms(4)[symmetric]] ..
  then show v: "vpn_of (pa - a + b) = vpn_of pa"
    unfolding pa by (simp add: o(1))
  have "walk m p b t mode vt mxr = Inr pg"
    using walk_page[OF assms(4), of m p t mode vt mxr] w by (metis res_val_Some)
  moreover have "pmp_ok p (pa - a + b) n' t mode"
    using ok pmp_ok_uniform[OF assms(3), unfolded page_of_base, of pa n "pa - a + b" n' t mode]
      aligned_sectors[of pa n] aligned_sectors[of "pa - a + b" n'] assms(2,5) o(3)[of a n] o(3)[of b n'] v
    by (simp add: page_vpn pa[symmetric] pb[symmetric])
  ultimately show "translate m p b n' t flags = Inr (pa - a + b)"
    unfolding translate_iff[OF e] using pb by simp
qed

lemma translate_same_type:
  assumes "translate m p a n t flags = Inr pa" and "translate m p a n' t' flags' = Inr pa'"
    and "effective_mode p t flags = (mode, vt, mxr)" and "effective_mode p t' flags' = (mode, vt, mxr')"
  shows "pa = pa'"
  using assms(1,2) unfolding translate_iff[OF assms(3)] translate_iff[OF assms(4)] by (metis walk_type)

section \<open>Tags\<close>

lemma bit_check:
  "bit (0x8000000000000000 :: nat) i \<longleftrightarrow> i = 63" "bit (0x8000000000000000 :: int) i \<longleftrightarrow> i = 63"
  "bit (- 9223372036854775809 :: int) i \<longleftrightarrow> i \<noteq> 63"
proof -
  show "bit (0x8000000000000000 :: nat) i \<longleftrightarrow> i = 63" and b: "bit (0x8000000000000000 :: int) i \<longleftrightarrow> i = 63"
    using bit_exp_iff[where 'a = nat, of 63 i] bit_exp_iff[where 'a = int, of 63 i] by auto
  have "(- 9223372036854775809 :: int) = NOT 0x8000000000000000"
    by simp
  then show "bit (- 9223372036854775809 :: int) i \<longleftrightarrow> i \<noteq> 63"
    using b by (simp only: bit_not_iff possible_bit_int simp_thms)
qed

lemma bit_vpn: "bit (vpn_of a) i \<Longrightarrow> i < 52"
  by (auto simp: vpn_of_def bit_drop_bit_eq dest: bit_imp_le_length)

lemma tag_simps [simp]:
  "vpn_of a AND - 9223372036854775809 = vpn_of a"
  "(vpn_of a OR 0x8000000000000000) AND - 9223372036854775809 = vpn_of a"
  "vpn_of a \<noteq> vpn_of b OR 0x8000000000000000" "vpn_of b OR 0x8000000000000000 \<noteq> vpn_of a" "vpn_of a OR 0x8000000000000000 = vpn_of b OR 0x8000000000000000 \<longleftrightarrow> vpn_of a = vpn_of b"
  "- 1 \<noteq> vpn_of a" "- 1 \<noteq> vpn_of a OR 0x8000000000000000"
proof -
  show m: "vpn_of a AND - 9223372036854775809 = vpn_of a" for a
    by (rule bit_word_eqI) (auto simp: bit_and_iff bit_check dest: bit_vpn)
  show n: "(vpn_of a OR 0x8000000000000000) AND - 9223372036854775809 = vpn_of a" for a
    by (rule bit_word_eqI) (auto simp: bit_and_iff bit_or_iff bit_check dest: bit_vpn)
  show c: "vpn_of a \<noteq> vpn_of b OR 0x8000000000000000"
  proof
    assume "vpn_of a = vpn_of b OR 0x8000000000000000"
    from arg_cong[OF this, of "\<lambda>w. bit w 63"] show False
      using bit_vpn[of a 63] by (simp add: bit_or_iff bit_check)
  qed
  show "vpn_of a OR 0x8000000000000000 = vpn_of b OR 0x8000000000000000 \<longleftrightarrow> vpn_of a = vpn_of b"
    using n by metis
  show "vpn_of b OR 0x8000000000000000 \<noteq> vpn_of a"
    using c by metis
  show "- 1 \<noteq> vpn_of a"
    using bit_vpn[of a 60] by (auto dest: arg_cong[of _ _ "\<lambda>w. bit w 60"])
  show "- 1 \<noteq> vpn_of a OR 0x8000000000000000"
  proof
    assume "- 1 = vpn_of a OR 0x8000000000000000"
    from arg_cong[OF this, of "\<lambda>w. bit w 60"] show False
      using bit_vpn[of a 60] by (simp add: bit_or_iff bit_check)
  qed
qed

lemma tag_match:
  assumes "t AND - 9223372036854775809 = vpn_of a"
  shows "t = vpn_of a \<or> t = vpn_of a OR 0x8000000000000000"
proof (cases "bit t 63")
  case True
  have "t = (t AND - 9223372036854775809) OR 0x8000000000000000"
    by (rule bit_word_eqI) (use True in \<open>auto simp: bit_and_iff bit_or_iff bit_check\<close>)
  then show ?thesis
    unfolding assms by simp
next
  case False
  have "t = t AND - 9223372036854775809"
    by (rule bit_word_eqI) (use False in \<open>auto simp: bit_and_iff bit_check\<close>)
  then show ?thesis
    unfolding assms by simp
qed

lemma tlb_index_less: "tlb_index a < 256"
proof -
  have "unat (vpn_of a mod 256) = unat (vpn_of a) mod 256"
    by (simp add: unat_mod)
  then show ?thesis
    by (simp add: tlb_index_def)
qed

lemma tlb_index_vpn: "vpn_of a = vpn_of b \<Longrightarrow> tlb_index a = tlb_index b"
  by (simp add: tlb_index_def)

section \<open>Coherence\<close>

definition tlb_hit :: "access_type \<Rightarrow> mmu_t \<Rightarrow> reg_t \<Rightarrow> bool" where
  "tlb_hit t u a \<longleftrightarrow> (let tag = tlb_tag t u ! tlb_index a in tag = vpn_of a \<or> tag = vpn_of a OR TLB_CHECK_TRIGGERS)"

definition tlb_target :: "mmu_t \<Rightarrow> reg_t \<Rightarrow> reg_t" where
  "tlb_target u a = tlb_data u ! tlb_index a + a"

definition wf_tlb :: "mmu_t \<Rightarrow> bool" where
  "wf_tlb u \<longleftrightarrow> length (tlb_insn_tag u) = 256 \<and> length (tlb_load_tag u) = 256 \<and> length (tlb_store_tag u) = 256 \<and> length (tlb_data u) = 256"

definition entry_ok :: "machine \<Rightarrow> access_type \<Rightarrow> reg_t \<Rightarrow> nat \<Rightarrow> bool" where
  "entry_ok m t a n \<longleftrightarrow>
     (let u = mmu (hart m); pa = tlb_target u a
      in translate (phys m) (hart m) a n t 0 = Inr pa \<and> addr_to_mem (devices m) pa
         \<and> pmp_homogeneous (hart m) (pa AND NOT 0xFFF) 0x1000 = Some True
         \<and> (tlb_tag t u ! tlb_index a = vpn_of a OR TLB_CHECK_TRIGGERS \<longleftrightarrow> check_triggers t u))"

text \<open>
  Every aligned access that hits has the entry's address as its translation, in main memory, in a
  page the protection does not split; it is marked for the triggers if they watch its kind.
\<close>

definition coherent :: "machine \<Rightarrow> bool" where
  "coherent m \<longleftrightarrow> wf_tlb (mmu (hart m)) \<and> (\<forall>t a n. tlb_hit t (mmu (hart m)) a \<longrightarrow> aligned a n \<longrightarrow> entry_ok m t a n)"

text \<open>Fetches and data accesses are translated alike: the privilege of data accesses is not modified.\<close>

definition uniform_mode :: "processor_t \<Rightarrow> bool" where
  "uniform_mode p \<longleftrightarrow> effective_mode p LOAD 0 = effective_mode p FETCH 0"

definition paged_bus :: "bus_t \<Rightarrow> bool" where
  "paged_bus bs \<longleftrightarrow> (\<forall>a b. vpn_of a = vpn_of b \<longrightarrow> addr_to_mem bs a = addr_to_mem bs b)"

definition triggers_known :: "processor_t \<Rightarrow> bool" where
  "triggers_known p \<longleftrightarrow>
     length (mcontrol p) = num_triggers \<and>
     (\<forall>mc\<in>set (mcontrol p). (mc_execute mc \<longrightarrow> check_triggers_fetch (mmu p)) \<and> (mc_load mc \<longrightarrow> check_triggers_load (mmu p))
        \<and> (mc_store mc \<longrightarrow> check_triggers_store (mmu p)))"

definition tlb_ready :: "machine \<Rightarrow> bool" where
  "tlb_ready m \<longleftrightarrow> uniform_mode (hart m) \<and> paged_bus (devices m) \<and> triggers_known (hart m)"

lemma uniform_modes:
  assumes "uniform_mode p"
  shows "effective_mode p t 0 = effective_mode p LOAD 0"
  using assms by (cases t) (simp_all add: uniform_mode_def effective_mode_def Let_def)

lemma refill_view [simp]: "same_view (refill_tlb a pa t p) p"
  by (simp add: refill_tlb_def Let_def)

lemma m_refill_simps [simp]:
  "ram (m_refill a pa t m) = ram m" "devices (m_refill a pa t m) = devices m" "phys (m_refill a pa t m) = phys m"
  "clint (m_refill a pa t m) = clint m" "matched_trigger (m_refill a pa t m) = matched_trigger m"
  by (simp_all add: m_refill_def phys_def fun_eq_iff)

lemma tag_refill:
  "tlb_tag t' (mmu (refill_tlb a pa t p)) =
     refill_tags (t = t') (pmp_homogeneous p (pa AND NOT 0xFFF) 0x1000 = Some True) (tlb_index a) (vpn_of a)
       (if check_triggers t (mmu p) then vpn_of a OR TLB_CHECK_TRIGGERS else vpn_of a) (tlb_tag t' (mmu p))"
  by (cases t') (simp_all add: refill_tlb_def Let_def)

lemma data_refill: "tlb_data (mmu (refill_tlb a pa t p)) = (tlb_data (mmu p))[tlb_index a := pa - a]"
  by (simp add: refill_tlb_def Let_def)

lemma check_refill [simp]: "check_triggers t' (mmu (refill_tlb a pa t p)) = check_triggers t' (mmu p)"
  by (cases t') (simp_all add: refill_tlb_def Let_def)

lemma wf_refill: "wf_tlb (mmu p) \<Longrightarrow> wf_tlb (mmu (refill_tlb a pa t p))"
  by (simp add: wf_tlb_def refill_tlb_def refill_tags_def keep_tag_def Let_def)

lemma wf_tags: "wf_tlb u \<Longrightarrow> length (tlb_tag t u) = 256"
  by (cases t) (simp_all add: wf_tlb_def)

text \<open>The tag of an entry after a refill.\<close>

lemma refilled_tag:
  assumes "wf_tlb (mmu p)"
  shows "tlb_tag t' (mmu (refill_tlb a pa t p)) ! i =
    (if i \<noteq> tlb_index a then tlb_tag t' (mmu p) ! i
     else if t = t' \<and> pmp_homogeneous p (pa AND NOT 0xFFF) 0x1000 = Some True
       then if check_triggers t (mmu p) then vpn_of a OR TLB_CHECK_TRIGGERS else vpn_of a
     else if tlb_hit t' (mmu p) a then tlb_tag t' (mmu p) ! i else - 1)"
  using wf_tags[OF assms, of t'] tlb_index_less[of a] tag_match[of "tlb_tag t' (mmu p) ! tlb_index a" a]
  by (auto simp: tag_refill refill_tags_def keep_tag_def Let_def tlb_hit_def)

text \<open>A refill with the translation of an access keeps the TLB coherent.\<close>

lemma refill_hits:
  assumes "wf_tlb (mmu p)" and "tlb_hit t' (mmu (refill_tlb a pa t p)) b" and "tlb_index b = tlb_index a"
  shows "vpn_of b = vpn_of a"
    and "t = t' \<and> pmp_homogeneous p (pa AND NOT 0xFFF) 0x1000 = Some True \<or> tlb_hit t' (mmu p) a"
  using assms(2) unfolding tlb_hit_def[of t' "mmu (refill_tlb a pa t p)"] refilled_tag[OF assms(1)] assms(3)
  by (auto simp: tlb_hit_def Let_def split: if_splits)

lemma target_refill:
  assumes "wf_tlb (mmu p)"
  shows "tlb_target (mmu (refill_tlb a pa t p)) b = (if tlb_index b = tlb_index a then pa - a + b else tlb_target (mmu p) b)"
  using assms tlb_index_less[of a] by (simp add: tlb_target_def data_refill wf_tlb_def)

section \<open>Coherence is kept\<close>

definition same_tlb :: "mmu_t \<Rightarrow> mmu_t \<Rightarrow> bool" where
  "same_tlb u v \<longleftrightarrow> (\<forall>t. tlb_tag t u = tlb_tag t v \<and> check_triggers t u = check_triggers t v) \<and> tlb_data u = tlb_data v"

lemma same_tlb_hit:
  assumes "same_tlb u v"
  shows "tlb_hit t u a = tlb_hit t v a" and "tlb_target u a = tlb_target v a" and "wf_tlb u = wf_tlb v"
proof -
  show "tlb_hit t u a = tlb_hit t v a" and "tlb_target u a = tlb_target v a"
    using assms by (simp_all add: same_tlb_def tlb_hit_def tlb_target_def)
  show "wf_tlb u = wf_tlb v"
    using assms unfolding wf_tlb_def same_tlb_def by (metis tlb_tag.simps)
qed

lemma entry_ok_cong:
  assumes "phys m' = phys m" and "devices m' = devices m" and "same_view (hart m') (hart m)" and "same_tlb (mmu (hart m')) (mmu (hart m))"
  shows "entry_ok m' t a n = entry_ok m t a n"
proof -
  have "tlb_tag t (mmu (hart m')) = tlb_tag t (mmu (hart m))" "check_triggers t (mmu (hart m')) = check_triggers t (mmu (hart m))"
    using assms(4) by (simp_all add: same_tlb_def)
  then show ?thesis
    unfolding entry_ok_def translate_view[OF assms(3)] pmp_homogeneous_view[OF assms(3)] assms(1,2) same_tlb_hit(2)[OF assms(4)] Let_def by simp
qed

lemma coherent_cong:
  assumes "phys m' = phys m" and "devices m' = devices m" and "same_view (hart m') (hart m)" and "same_tlb (mmu (hart m')) (mmu (hart m))"
  shows "coherent m' = coherent m"
  unfolding coherent_def entry_ok_cong[OF assms] same_tlb_hit[OF assms(4)] ..

lemma tlb_hit_vpn: "vpn_of a = vpn_of b \<Longrightarrow> tlb_hit t u a = tlb_hit t u b"
  by (simp add: tlb_hit_def tlb_index_def)

lemma coherent_refill:
  assumes "coherent m" and "tlb_ready m" and "translate (phys m) (hart m) a n t 0 = Inr pa" and "aligned a n"
    and "addr_to_mem (devices m) pa"
  shows "coherent (m_refill a pa t m)"
proof -
  define p where "p = hart m"
  define q where "q = refill_tlb a pa t p"
  have h: "hart (m_refill a pa t m) = q"
    by (simp add: m_refill_def q_def p_def)
  have wf: "wf_tlb (mmu p)" and ok: "tlb_hit t' (mmu p) x \<Longrightarrow> aligned x k \<Longrightarrow> entry_ok m t' x k" for t' x k
    using assms(1) by (simp_all add: coherent_def p_def)
  have v: "same_view q p"
    by (simp add: q_def)
  have E: "entry_ok (m_refill a pa t m) t' b k \<longleftrightarrow>
      (let pb = tlb_target (mmu q) b
       in translate (phys m) p b k t' 0 = Inr pb \<and> addr_to_mem (devices m) pb \<and> pmp_homogeneous p (pb AND NOT 0xFFF) 0x1000 = Some True
        \<and> (tlb_tag t' (mmu q) ! tlb_index b = vpn_of b OR TLB_CHECK_TRIGGERS \<longleftrightarrow> check_triggers t' (mmu p)))" for t' b k
    using translate_view[OF v] pmp_homogeneous_view[OF v] by (simp add: entry_ok_def h Let_def q_def)
  have "entry_ok (m_refill a pa t m) t' b k" if "tlb_hit t' (mmu q) b" and "aligned b k" for t' b k
  proof (cases "tlb_index b = tlb_index a")
    case False
    then have "tlb_target (mmu q) b = tlb_target (mmu p) b" "tlb_tag t' (mmu q) ! tlb_index b = tlb_tag t' (mmu p) ! tlb_index b"
      by (simp_all add: q_def target_refill[OF wf] refilled_tag[OF wf])
    then show ?thesis
      using ok[of t' b k] that unfolding E by (simp add: tlb_hit_def entry_ok_def Let_def p_def)
  next
    case True
    note r = refill_hits[OF wf that(1)[unfolded q_def] True]
    have tb: "tlb_target (mmu q) b = pa - a + b"
      using True by (simp add: q_def target_refill[OF wf])
    show ?thesis
    proof (cases "t = t' \<and> pmp_homogeneous p (pa AND NOT 0xFFF) 0x1000 = Some True")
      case hom: True
      note s = translate_same_page[OF assms(3)[folded p_def] assms(4) conjunct2[OF hom] r(1) that(2)]
      have "addr_to_mem (devices m) (pa - a + b)"
        using assms(2,5) s(2) unfolding tlb_ready_def paged_bus_def by metis
      moreover have "pmp_homogeneous p ((pa - a + b) AND NOT 0xFFF) 0x1000 = Some True"
      proof -
        have n: "NOT 0xFFF = NOT (low_bits 12)"
          by (simp add: low_bits_def)
        show ?thesis
          using conjunct2[OF hom] unfolding n page_base_vpn s(2) .
      qed
      moreover have "tlb_tag t' (mmu q) ! tlb_index b = vpn_of b OR TLB_CHECK_TRIGGERS \<longleftrightarrow> check_triggers t' (mmu p)"
        unfolding q_def refilled_tag[OF wf] if_P[OF hom] using hom True r(1) by simp
      ultimately show ?thesis
        unfolding E tb Let_def using s(1) hom by (intro conjI) simp_all
    next
      case False
      then have hit: "tlb_hit t' (mmu p) a"
        using r(2) by blast
      obtain mode vt mxr where e: "effective_mode p LOAD 0 = (mode, vt, mxr)"
        by (cases "effective_mode p LOAD 0")
      have "uniform_mode p"
        using assms(2) by (simp add: tlb_ready_def p_def)
      then have em: "effective_mode p x 0 = (mode, vt, mxr)" for x
        using uniform_modes[of p x] e by simp
      have "translate (phys m) p a n t' 0 = Inr (tlb_target (mmu p) a)"
        using ok[OF hit assms(4)] by (simp add: entry_ok_def Let_def p_def)
      then have "pa = tlb_target (mmu p) a"
        by (rule translate_same_type[OF assms(3)[folded p_def] _ em em])
      moreover have "tlb_hit t' (mmu p) b"
        using hit tlb_hit_vpn[OF r(1)] by simp
      ultimately show ?thesis
        using ok[of t' b k] that(2) False hit True r(1) unfolding E tb
        by (simp add: entry_ok_def Let_def p_def[symmetric] tlb_target_def q_def refilled_tag[OF wf])
    qed
  qed
  then show ?thesis
    using wf_refill[OF wf] by (simp add: coherent_def h q_def)
qed

lemma coherent_flush: "wf_tlb (mmu (hart m)) \<Longrightarrow> coherent (m_flush m)"
proof -
  assume "wf_tlb (mmu (hart m))"
  moreover have "\<not> tlb_hit t (mmu (hart (m_flush m))) a" for t a
    using tlb_index_less[of a]
    by (cases t) (simp_all add: tlb_hit_def m_flush_def p_flush_tlb_def flush_tlb_def flush_icache_def Let_def)
  ultimately show ?thesis
    by (simp add: coherent_def wf_tlb_def m_flush_def p_flush_tlb_def flush_tlb_def flush_icache_def)
qed

section \<open>Triggers\<close>

fun op_of :: "access_type \<Rightarrow> trigger_operation" where
  "op_of FETCH = OPERATION_EXECUTE"
| "op_of LOAD = OPERATION_LOAD"
| "op_of STORE = OPERATION_STORE"

lemma trigger_match_mmu [simp]:
  "trigger_match op a d (p\<lparr>mmu := u\<rparr>) = trigger_match op a d p" "trigger_match op a d (p\<lparr>mip := i\<rparr>) = trigger_match op a d p"
proof -
  have "trigger_loop op a d (p\<lparr>mmu := u\<rparr>) i k c = trigger_loop op a d p i k c" "trigger_loop op a d (p\<lparr>mip := x\<rparr>) i k c = trigger_loop op a d p i k c" for i k c x
    by (induction k arbitrary: i c) (simp_all add: Let_def trigger_applies_def)
  then show "trigger_match op a d (p\<lparr>mmu := u\<rparr>) = trigger_match op a d p" "trigger_match op a d (p\<lparr>mip := i\<rparr>) = trigger_match op a d p"
    by (simp_all add: trigger_match_def)
qed

lemma no_trigger:
  assumes "triggers_known p" and "\<not> check_triggers t (mmu p)"
  shows "trigger_match (op_of t) a d p = None"
proof -
  have "trigger_loop (op_of t) a d p i k c = None" if "i + k \<le> num_triggers" for i k c
    using that
  proof (induction k arbitrary: i c)
    case (Suc k)
    then have "mcontrol p ! i \<in> set (mcontrol p)"
      using assms(1) by (simp add: triggers_known_def)
    then have "\<not> trigger_applies (op_of t) (mcontrol p ! i) p"
      using assms by (cases t) (auto simp: triggers_known_def trigger_applies_def)
    then show ?case
      using Suc by (simp add: Let_def)
  qed simp
  then show ?thesis
    by (simp add: trigger_match_def)
qed

lemma no_check:
  assumes "triggers_known (hart m)" and "\<not> check_triggers t (mmu (hart m))"
  shows "check_trigger (op_of t) a d m = (None, m)"
  using no_trigger[OF assms] by (simp add: check_trigger_def)

section \<open>Accesses without a TLB\<close>

text \<open>The machine up to the contents of the caches.\<close>

definition forget_mmu :: "mmu_t \<Rightarrow> mmu_t" where
  "forget_mmu u = u\<lparr>tlb_insn_tag := [], tlb_load_tag := [], tlb_store_tag := [], tlb_data := [], icache_tag := []\<rparr>"

definition forget :: "machine \<Rightarrow> machine" where
  "forget m = m\<lparr>hart := (hart m)\<lparr>mmu := forget_mmu (mmu (hart m))\<rparr>\<rparr>"

definition same_answer :: "'a \<times> machine \<Rightarrow> 'a \<times> machine \<Rightarrow> bool" where
  "same_answer r r' \<longleftrightarrow> fst r = fst r' \<and> forget (snd r) = forget (snd r')"

lemma same_answer_refl [simp]: "same_answer r r"
  by (simp add: same_answer_def)

lemma same_answer_sym: "same_answer r r' \<Longrightarrow> same_answer r' r"
  by (simp add: same_answer_def)

lemma same_answer_trans: "same_answer r r' \<Longrightarrow> same_answer r' r'' \<Longrightarrow> same_answer r r''"
  by (simp add: same_answer_def)

lemma forget_refill [simp]: "forget (m_refill a pa t m) = forget m"
  by (simp add: forget_def forget_mmu_def m_refill_def refill_tlb_def Let_def)

lemma forget_flush [simp]: "forget (m_flush m) = forget m"
  by (simp add: forget_def forget_mmu_def m_flush_def p_flush_tlb_def flush_tlb_def flush_icache_def)

text \<open>Machines that agree but for the caches answer alike where the caches are not asked.\<close>

lemma forget_mmu_eq:
  assumes "forget_mmu u = forget_mmu (mmu (hart m))"
  shows "forget (m\<lparr>hart := (hart m)\<lparr>mmu := u\<rparr>\<rparr>) = forget m"
  using assms by (simp add: forget_def)

lemma forgetE:
  assumes "forget m = forget m'"
  obtains u where "m = m'\<lparr>hart := (hart m')\<lparr>mmu := u\<rparr>\<rparr>" and "forget_mmu u = forget_mmu (mmu (hart m'))"
proof
  have "m = (forget m)\<lparr>hart := (hart (forget m))\<lparr>mmu := mmu (hart m)\<rparr>\<rparr>"
    by (simp add: forget_def)
  then show "m = m'\<lparr>hart := (hart m')\<lparr>mmu := mmu (hart m)\<rparr>\<rparr>"
    unfolding assms by (simp add: forget_def)
  show "forget_mmu (mmu (hart m)) = forget_mmu (mmu (hart m'))"
    using arg_cong[OF assms, of "\<lambda>m. mmu (hart m)"] by (simp add: forget_def)
qed

lemma mmu_commute:
  "(m\<lparr>hart := (hart m)\<lparr>mmu := u\<rparr>\<rparr>)\<lparr>matched_trigger := x\<rparr> = (m\<lparr>matched_trigger := x\<rparr>)\<lparr>hart := (hart m)\<lparr>mmu := u\<rparr>\<rparr>"
  "(m\<lparr>hart := (hart m)\<lparr>mmu := u\<rparr>\<rparr>)\<lparr>ram := r\<rparr> = (m\<lparr>ram := r\<rparr>)\<lparr>hart := (hart m)\<lparr>mmu := u\<rparr>\<rparr>"
  "p\<lparr>mmu := u, mip := i\<rparr> = p\<lparr>mip := i, mmu := u\<rparr>"
  by simp_all

lemma phys_mmu [simp]: "phys (m\<lparr>hart := h\<rparr>) = phys m"
  by (simp add: phys_def fun_eq_iff)

lemma check_trigger_forget:
  assumes "forget m = forget m'"
  shows "same_answer (check_trigger op a d m) (check_trigger op a d m')"
  using assms
proof (rule forgetE)
  fix u
  assume m: "m = m'\<lparr>hart := (hart m')\<lparr>mmu := u\<rparr>\<rparr>" and u: "forget_mmu u = forget_mmu (mmu (hart m'))"
  have "forget (m'\<lparr>hart := (hart m')\<lparr>mmu := u\<rparr>, matched_trigger := x\<rparr>) = forget (m'\<lparr>matched_trigger := x\<rparr>)" for x
    unfolding mmu_commute using forget_mmu_eq[of u "m'\<lparr>matched_trigger := x\<rparr>"] u by simp
  then show ?thesis
    using assms unfolding m by (auto simp: check_trigger_def same_answer_def split: option.split)
qed

lemma after_check_forget:
  assumes "same_answer r r'" and "\<And>m m'. forget m = forget m' \<Longrightarrow> same_answer (k m) (k' m')"
  shows "same_answer (after_check r k) (after_check r' k')"
  using assms by (cases r; cases r') (auto simp: after_check_def same_answer_def split: option.split)

lemma mip_forget:
  assumes "forget_mmu u = forget_mmu (mmu (hart m))"
  shows "forget (m\<lparr>clint := c, hart := (hart m)\<lparr>mmu := u, mip := i\<rparr>\<rparr>) = forget (m\<lparr>clint := c, hart := (hart m)\<lparr>mip := i\<rparr>\<rparr>)"
  using forget_mmu_eq[of u "m\<lparr>clint := c, hart := (hart m)\<lparr>mip := i\<rparr>\<rparr>"] assms unfolding mmu_commute by simp

lemma mmio_load_forget:
  assumes "forget m = forget m'"
  shows "same_answer (mmio_load a n m) (mmio_load a n m')"
  using assms
proof (rule forgetE)
  fix u
  assume m: "m = m'\<lparr>hart := (hart m')\<lparr>mmu := u\<rparr>\<rparr>" and u: "forget_mmu u = forget_mmu (mmu (hart m'))"
  show ?thesis
    using assms mip_forget[OF u] unfolding m by (auto simp: mmio_load_def same_answer_def mmio_ok_def split: prod.split)
qed

lemma mmio_store_forget:
  assumes "forget m = forget m'"
  shows "map_option forget (mmio_store a bs m) = map_option forget (mmio_store a bs m')"
  using assms
proof (rule forgetE)
  fix u
  assume m: "m = m'\<lparr>hart := (hart m')\<lparr>mmu := u\<rparr>\<rparr>" and u: "forget_mmu u = forget_mmu (mmu (hart m'))"
  show ?thesis
    using assms mip_forget[OF u] unfolding m by (auto simp: mmio_store_def mmio_ok_def split: prod.split option.split)
qed

section \<open>Accesses that miss and accesses that hit\<close>

definition ref_load :: "bool \<Rightarrow> nat \<Rightarrow> reg_t \<Rightarrow> machine \<Rightarrow> (thrown + reg_t) \<times> machine" where
  "ref_load sg n a m =
     (case translate (phys m) (hart m) a n LOAD 0 of
        Inl e \<Rightarrow> (Inl e, m)
      | Inr pa \<Rightarrow>
          if addr_to_mem (devices m) pa then
            let data = from_le (ram_bytes m pa n)
            in after_check (check_trigger OPERATION_LOAD a data m) (\<lambda>m. (Inr (extend sg n data), m))
          else
            case mmio_load pa n m of
              (None, m) \<Rightarrow> (Inl (load_access_fault a), m)
            | (Some bytes, m) \<Rightarrow>
                after_check (check_trigger OPERATION_LOAD a (from_le bytes) m) (\<lambda>m. (Inr (extend sg n (from_le bytes)), m)))"

definition ref_store :: "nat \<Rightarrow> reg_t \<Rightarrow> reg_t \<Rightarrow> machine \<Rightarrow> (thrown + unit) \<times> machine" where
  "ref_store n a val m =
     (case translate (phys m) (hart m) a n STORE 0 of
        Inl e \<Rightarrow> (Inl e, m)
      | Inr pa \<Rightarrow>
          after_check (check_trigger OPERATION_STORE a (take_bit (8 * n) val) m)
            (\<lambda>m. if addr_to_mem (devices m) pa then (Inr (), m\<lparr>ram := set_ram pa (to_le n (take_bit (8 * n) val)) (ram m)\<rparr>)
                 else
                   case mmio_store pa (to_le n (take_bit (8 * n) val)) m of
                     None \<Rightarrow> (Inl (Trap (mem_trap CAUSE_STORE_ACCESS a 0 0)), m)
                   | Some m \<Rightarrow> (Inr (), m)))"

text \<open>A fetch from a page the protection splits, or from a device, is not checked for triggers.\<close>

definition ref_fetch :: "reg_t \<Rightarrow> machine \<Rightarrow> (thrown + reg_t) \<times> machine" where
  "ref_fetch a m =
     (case translate (phys m) (hart m) a 2 FETCH 0 of
        Inl e \<Rightarrow> (Inl e, m)
      | Inr pa \<Rightarrow>
          if addr_to_mem (devices m) pa then
            let insn = from_le (ram_bytes m pa 2)
            in if pmp_homogeneous (hart m) (pa AND NOT 0xFFF) 0x1000 = Some True then
                 (case trigger_match OPERATION_EXECUTE a insn (hart m) of
                    Some i \<Rightarrow> (Inl (Trigger_matched i OPERATION_EXECUTE a insn), m)
                  | None \<Rightarrow> (Inr insn, m))
               else (Inr insn, m)
          else
            case mmio_load pa 2 m of
              (None, m) \<Rightarrow> (Inl (Trap (mem_trap CAUSE_FETCH_ACCESS a 0 0)), m)
            | (Some bytes, m) \<Rightarrow> (Inr (from_le bytes), m))"

lemma forget_view:
  assumes "forget m = forget m'"
  shows "ram m = ram m'" "devices m = devices m'" "phys m = phys m'" "same_view (hart m) (hart m')"
    "trigger_match op a d (hart m) = trigger_match op a d (hart m')"
proof -
  obtain u where m: "m = m'\<lparr>hart := (hart m')\<lparr>mmu := u\<rparr>\<rparr>"
    using assms by (rule forgetE)
  show "ram m = ram m'" "devices m = devices m'" "phys m = phys m'" "same_view (hart m) (hart m')"
    "trigger_match op a d (hart m) = trigger_match op a d (hart m')"
    unfolding m by simp_all
qed

lemma ram_bytes_forget: "forget m = forget m' \<Longrightarrow> ram_bytes m a n = ram_bytes m' a n"
  unfolding ram_bytes_def by (simp only: forget_view(1)[of m m'])

lemma ref_load_forget:
  assumes "forget m = forget m'"
  shows "same_answer (ref_load sg n a m) (ref_load sg n a m')"
proof -
  note v = forget_view[OF assms]
  show ?thesis
  proof (cases "translate (phys m') (hart m') a n LOAD 0")
    case (Inl e)
    then show ?thesis
      unfolding ref_load_def v(3) translate_view[OF v(4)] by (simp add: same_answer_def assms)
  next
    case (Inr pa)
    show ?thesis
    proof (cases "addr_to_mem (devices m') pa")
      case True
      then show ?thesis
        unfolding ref_load_def v(2,3) translate_view[OF v(4)] Inr sum.case Let_def ram_bytes_forget[OF assms] if_P[OF True]
        by (intro after_check_forget check_trigger_forget assms) (simp add: same_answer_def)
    next
      case False
      obtain r k r' k' where k: "mmio_load pa n m = (r, k)" "mmio_load pa n m' = (r', k')"
        by (cases "mmio_load pa n m"; cases "mmio_load pa n m'")
      have r: "r' = r" "forget k = forget k'"
        using mmio_load_forget[OF assms, of pa n] by (simp_all add: k same_answer_def)
      show ?thesis
        unfolding ref_load_def v(2,3) translate_view[OF v(4)] Inr sum.case if_not_P[OF False] k r(1) prod.case
        by (cases r) (auto simp: same_answer_def r(2) intro!: after_check_forget[unfolded same_answer_def] check_trigger_forget[unfolded same_answer_def])
    qed
  qed
qed

lemma ram_forget: "forget m = forget m' \<Longrightarrow> forget (m\<lparr>ram := r\<rparr>) = forget (m'\<lparr>ram := r\<rparr>)"
  by (erule forgetE) (simp add: forget_def mmu_commute)

lemma ref_store_forget:
  assumes "forget m = forget m'"
  shows "same_answer (ref_store n a val m) (ref_store n a val m')"
proof -
  note v = forget_view[OF assms]
  show ?thesis
  proof (cases "translate (phys m') (hart m') a n STORE 0")
    case (Inl e)
    then show ?thesis
      unfolding ref_store_def v(3) translate_view[OF v(4)] by (simp add: same_answer_def assms)
  next
    case (Inr pa)
    show ?thesis
      unfolding ref_store_def v(3) translate_view[OF v(4)] Inr sum.case
    proof (rule after_check_forget[OF check_trigger_forget[OF assms]])
      fix k k'
      assume k: "forget k = forget k'"
      note kv = forget_view[OF k]
      define bs where "bs = to_le n (take_bit (8 * n) val)"
      show "same_answer
        (if addr_to_mem (devices k) pa then (Inr (), k\<lparr>ram := set_ram pa (to_le n (take_bit (8 * n) val)) (ram k)\<rparr>)
         else case mmio_store pa (to_le n (take_bit (8 * n) val)) k of
             None \<Rightarrow> (Inl (Trap (mem_trap CAUSE_STORE_ACCESS a 0 0)), k) | Some m \<Rightarrow> (Inr (), m))
        (if addr_to_mem (devices k') pa then (Inr (), k'\<lparr>ram := set_ram pa (to_le n (take_bit (8 * n) val)) (ram k')\<rparr>)
         else case mmio_store pa (to_le n (take_bit (8 * n) val)) k' of
             None \<Rightarrow> (Inl (Trap (mem_trap CAUSE_STORE_ACCESS a 0 0)), k') | Some m \<Rightarrow> (Inr (), m))"
        unfolding kv(1,2) bs_def[symmetric] using mmio_store_forget[OF k, of pa bs] ram_forget[OF k]
        by (cases "mmio_store pa bs k"; cases "mmio_store pa bs k'") (simp_all add: same_answer_def k)
    qed
  qed
qed

lemma ref_fetch_forget:
  assumes "forget m = forget m'"
  shows "same_answer (ref_fetch a m) (ref_fetch a m')"
proof -
  note v = forget_view[OF assms]
  show ?thesis
  proof (cases "translate (phys m') (hart m') a 2 FETCH 0")
    case (Inl e)
    then show ?thesis
      unfolding ref_fetch_def v(3) translate_view[OF v(4)] by (simp add: same_answer_def assms)
  next
    case (Inr pa)
    obtain r k r' k' where k: "mmio_load pa 2 m = (r, k)" "mmio_load pa 2 m' = (r', k')"
      by (cases "mmio_load pa 2 m"; cases "mmio_load pa 2 m'")
    have r: "r' = r" "forget k = forget k'"
      using mmio_load_forget[OF assms, of pa 2] by (simp_all add: k same_answer_def)
    show ?thesis
      unfolding ref_fetch_def v(2,3,5) translate_view[OF v(4)] pmp_homogeneous_view[OF v(4)] Inr sum.case Let_def ram_bytes_forget[OF assms] k r(1) prod.case
      by (auto simp: same_answer_def assms r(2) split: option.split)
  qed
qed

section \<open>The invariant\<close>

definition tlb_inv :: "machine \<Rightarrow> bool" where
  "tlb_inv m \<longleftrightarrow> coherent m \<and> tlb_ready m"

lemma ready_cong:
  assumes "devices m' = devices m" and "same_view (hart m') (hart m)" and "same_tlb (mmu (hart m')) (mmu (hart m))"
    and "mcontrol (hart m') = mcontrol (hart m)"
  shows "tlb_ready m' = tlb_ready m"
proof -
  note effective_mode_view[OF assms(2)]
  moreover have "check_triggers_fetch (mmu (hart m')) = check_triggers_fetch (mmu (hart m))"
    "check_triggers_load (mmu (hart m')) = check_triggers_load (mmu (hart m))"
    "check_triggers_store (mmu (hart m')) = check_triggers_store (mmu (hart m))"
    using assms(3) unfolding same_tlb_def by (metis check_triggers.simps)+
  ultimately show ?thesis
    unfolding tlb_ready_def uniform_mode_def triggers_known_def assms(1,4) by simp
qed

lemma inv_cong:
  assumes "phys m' = phys m" and "devices m' = devices m" and "same_view (hart m') (hart m)" and "same_tlb (mmu (hart m')) (mmu (hart m))"
    and "mcontrol (hart m') = mcontrol (hart m)"
  shows "tlb_inv m' = tlb_inv m"
  using coherent_cong[OF assms(1-4)] ready_cong[OF assms(2-5)] by (simp add: tlb_inv_def)

lemma mcontrol_refill [simp]: "mcontrol (refill_tlb a pa t p) = mcontrol p"
  by (simp add: refill_tlb_def Let_def)

lemma inv_refill:
  assumes "tlb_inv m" and "translate (phys m) (hart m) a n t 0 = Inr pa" and "aligned a n" and "addr_to_mem (devices m) pa"
  shows "tlb_inv (m_refill a pa t m)"
proof -
  note effective_mode_view[OF refill_view[of a pa t "hart m"]]
  moreover have "check_triggers_fetch (mmu (refill_tlb a pa t (hart m))) = check_triggers_fetch (mmu (hart m))"
    "check_triggers_load (mmu (refill_tlb a pa t (hart m))) = check_triggers_load (mmu (hart m))"
    "check_triggers_store (mmu (refill_tlb a pa t (hart m))) = check_triggers_store (mmu (hart m))"
    by (simp_all add: refill_tlb_def Let_def)
  moreover have "hart (m_refill a pa t m) = refill_tlb a pa t (hart m)"
    by (simp add: m_refill_def)
  ultimately have "tlb_ready (m_refill a pa t m) = tlb_ready m"
    unfolding tlb_ready_def uniform_mode_def triggers_known_def by simp
  then show ?thesis
    using assms coherent_refill[OF _ _ assms(2-4)] by (simp add: tlb_inv_def)
qed

lemma inv_simps [simp]:
  "tlb_inv (m\<lparr>matched_trigger := x\<rparr>) = tlb_inv m" "tlb_inv (m\<lparr>clint := c, hart := (hart m)\<lparr>mip := i\<rparr>\<rparr>) = tlb_inv m"
  by (rule inv_cong; simp add: phys_def fun_eq_iff same_tlb_def)+

lemma inv_check [simp]: "tlb_inv (snd (check_trigger op a d m)) = tlb_inv m"
  by (simp add: check_trigger_def split: option.split)

lemma inv_mmio_load [simp]: "tlb_inv (snd (mmio_load a n m)) = tlb_inv m"
  by (simp add: mmio_load_def split: prod.split)

lemma inv_mmio_store: "mmio_store a bs m = Some m' \<Longrightarrow> tlb_inv m' = tlb_inv m"
  by (auto simp: mmio_store_def split: option.splits prod.splits if_splits)

lemma inv_flush:
  assumes "tlb_ready m" and "wf_tlb (mmu (hart m))"
  shows "tlb_inv (m_flush m)"
proof -
  have "same_view (hart (m_flush m)) (hart m)"
    by (simp add: m_flush_def p_flush_tlb_def)
  note effective_mode_view[OF this]
  then show ?thesis
    using assms coherent_flush[OF assms(2)] unfolding tlb_inv_def tlb_ready_def uniform_mode_def triggers_known_def
    by (simp add: m_flush_def p_flush_tlb_def flush_tlb_def flush_icache_def)
qed

end
