(* ===== verification/RV_TLB_Props.thy ===== *)
theory RV_TLB_Props
  imports RV_TLB
begin

text \<open>
  Loads, stores, fetches and atomic operations answer the same whatever a coherent TLB holds, and
  they keep it coherent, a store as long as it does not change the translation itself.
\<close>

section \<open>Loads\<close>

lemma extend_simps [simp]: "extend False n x = x" "extend sg 8 x = x"
proof -
  show "extend False n x = x"
    by (simp add: extend_def)
  have "signed_take_bit 63 x = x"
  proof (rule bit_word_eqI)
    fix i
    assume "i < LENGTH(64)"
    then have "min 63 i = i" and "i < 64"
      by simp_all
    then show "bit (signed_take_bit 63 x) i = bit x i"
      by (simp add: bit_signed_take_bit_iff)
  qed
  then show "extend sg 8 x = x"
    by (simp add: extend_def)
qed

text \<open>A hit answers the datum behind the entry, after the check the entry is marked for.\<close>

lemma hit_entry:
  assumes "tlb_inv m" and "tlb_hit t (mmu (hart m)) a" and "aligned a n"
  shows "translate (phys m) (hart m) a n t 0 = Inr (tlb_target (mmu (hart m)) a)"
    and "addr_to_mem (devices m) (tlb_target (mmu (hart m)) a)"
    and "pmp_homogeneous (hart m) (tlb_target (mmu (hart m)) a AND NOT 0xFFF) 0x1000 = Some True"
    and "tlb_tag t (mmu (hart m)) ! tlb_index a =
      (if check_triggers t (mmu (hart m)) then vpn_of a OR TLB_CHECK_TRIGGERS else vpn_of a)"
  using assms by (auto simp: tlb_inv_def coherent_def entry_ok_def Let_def tlb_hit_def)

lemma check_skipped:
  assumes "tlb_inv m" and "\<not> check_triggers t (mmu (hart m))"
  shows "check_trigger (op_of t) a d m = (None, m)"
  by (rule no_check) (use assms in \<open>simp_all add: tlb_inv_def tlb_ready_def\<close>)

lemma load_hit:
  assumes "tlb_inv m" and "aligned a n" and "\<not> sg \<or> n = 8 \<or> \<not> check_triggers_load (mmu (hart m))" and "tlb_hit LOAD (mmu (hart m)) a"
  shows "load_func sg n 0 a m = ref_load sg n a m"
proof -
  note h = hit_entry[OF assms(1,4,2)]
  define x where "x = from_le (ram_bytes m (tlb_target (mmu (hart m)) a) n)"
  have R: "ref_load sg n a m = after_check (check_trigger OPERATION_LOAD a x m) (\<lambda>m. (Inr (extend sg n x), m))"
    unfolding ref_load_def h(1) sum.case if_P[OF h(2)] Let_def x_def ..
  show ?thesis
  proof (cases "check_triggers_load (mmu (hart m))")
    case True
    then have "extend sg n x = x"
      using assms(3) by auto
    then show ?thesis
      using True h(4) unfolding R load_func_def x_def tlb_target_def by (simp add: Let_def)
  next
    case False
    then have "check_trigger OPERATION_LOAD a d m = (None, m)" for d
      using check_skipped[OF assms(1), of LOAD] by simp
    then show ?thesis
      using False h(4) unfolding R load_func_def x_def tlb_target_def by (simp add: Let_def after_check_def)
  qed
qed

lemma after_check_apply:
  "(case after_check (check_trigger op a d m) (\<lambda>m. (Inr x, m)) of (Inl e, m) \<Rightarrow> (Inl e, m) | (Inr y, m) \<Rightarrow> (Inr (g y), m))
    = after_check (check_trigger op a d m) (\<lambda>m. (Inr (g x), m))"
  by (simp add: after_check_def split: prod.split option.split)

lemma load_miss:
  assumes "aligned a n" and "\<not> tlb_hit LOAD (mmu (hart m)) a"
  shows "load_func sg n 0 a m =
    (case load_slow_path a n 0 m of (Inl e, m) \<Rightarrow> (Inl e, m) | (Inr y, m) \<Rightarrow> (Inr (extend sg n y), m))"
  using assms by (simp add: load_func_def Let_def tlb_hit_def aligned_def cong: prod.case_cong sum.case_cong)

lemma after_check_inv:
  assumes "tlb_inv m" and "\<And>m. tlb_inv m \<Longrightarrow> tlb_inv (snd (k m))"
  shows "tlb_inv (snd (after_check (check_trigger op a d m) k))"
proof -
  obtain r m' where c: "check_trigger op a d m = (r, m')"
    by (cases "check_trigger op a d m")
  then have "tlb_inv m'"
    using inv_check[of op a d m] assms(1) by simp
  then show ?thesis
    using assms(2) by (simp add: c after_check_def split: option.split)
qed

lemma ref_load_inv:
  assumes "tlb_inv m"
  shows "tlb_inv (snd (ref_load sg n a m))"
proof (cases "translate (phys m) (hart m) a n LOAD 0")
  case (Inl e)
  then show ?thesis
    by (simp add: ref_load_def assms)
next
  case (Inr pa)
  obtain r k where k: "mmio_load pa n m = (r, k)"
    by (cases "mmio_load pa n m")
  then have "tlb_inv k"
    using inv_mmio_load[of pa n m] assms by simp
  then show ?thesis
    using assms unfolding ref_load_def Inr sum.case Let_def k prod.case
    by (auto intro!: after_check_inv split: option.split)
qed

lemma load_ref:
  assumes "tlb_inv m" and "aligned a n" and "\<not> sg \<or> n = 8 \<or> \<not> check_triggers_load (mmu (hart m))"
  shows "same_answer (load_func sg n 0 a m) (ref_load sg n a m)" and "tlb_inv (snd (load_func sg n 0 a m))"
proof -
  have "same_answer (load_func sg n 0 a m) (ref_load sg n a m) \<and> tlb_inv (snd (load_func sg n 0 a m))"
  proof (cases "tlb_hit LOAD (mmu (hart m)) a")
    case True
    then show ?thesis
      unfolding load_hit[OF assms True] using ref_load_inv[OF assms(1)] by simp
  next
    case False
    note M = load_miss[OF assms(2) False, of sg]
    show ?thesis
    proof (cases "translate (phys m) (hart m) a n LOAD 0")
      case (Inl e)
      then show ?thesis
        unfolding M load_slow_path_def ref_load_def by (simp add: assms(1))
    next
      case (Inr pa)
      show ?thesis
      proof (cases "addr_to_mem (devices m) pa")
        case True
        define x where "x = from_le (ram_bytes m pa n)"
        have L: "load_func sg n 0 a m =
            after_check (check_trigger OPERATION_LOAD a x (m_refill a pa LOAD m)) (\<lambda>m. (Inr (extend sg n x), m))"
          unfolding M load_slow_path_def Inr sum.case if_P[OF True] Let_def x_def by (rule after_check_apply)
        have R: "ref_load sg n a m = after_check (check_trigger OPERATION_LOAD a x m) (\<lambda>m. (Inr (extend sg n x), m))"
          unfolding ref_load_def Inr sum.case if_P[OF True] Let_def x_def ..
        have "tlb_inv (m_refill a pa LOAD m)"
          by (rule inv_refill[OF assms(1) Inr assms(2) True])
        then have "tlb_inv (snd (load_func sg n 0 a m))"
          unfolding L by (rule after_check_inv) simp
        moreover have "same_answer (load_func sg n 0 a m) (ref_load sg n a m)"
          unfolding L R by (intro after_check_forget check_trigger_forget) (simp_all add: same_answer_def)
        ultimately show ?thesis
          by simp
      next
        case False
        obtain r k where k: "mmio_load pa n m = (r, k)"
          by (cases "mmio_load pa n m")
        have "load_func sg n 0 a m = ref_load sg n a m"
          unfolding M load_slow_path_def ref_load_def Inr sum.case if_not_P[OF False] k prod.case
          by (cases r) (simp_all add: after_check_apply)
        then show ?thesis
          using ref_load_inv[OF assms(1)] by simp
      qed
    qed
  qed
  then show "same_answer (load_func sg n 0 a m) (ref_load sg n a m)" and "tlb_inv (snd (load_func sg n 0 a m))"
    by simp_all
qed


section \<open>Stores\<close>

text \<open>A check that does not fire leaves the machine as it was.\<close>

lemma after_check_same:
  "after_check (check_trigger op a d m) k = (case check_trigger op a d m of (Some e, m') \<Rightarrow> (Inl e, m') | (None, _) \<Rightarrow> k m)"
  by (simp add: after_check_def check_trigger_def split: option.split)

lemma after_check_pass:
  "(case after_check (check_trigger op a d m) k of (Inl e, m) \<Rightarrow> (Inl e, m) | (Inr u, m) \<Rightarrow> (Inr (), m)) = after_check (check_trigger op a d m) k"
  by (auto simp: after_check_def split: prod.split option.split sum.split)

lemma unit_pass: "(case r of (Inl e, m) \<Rightarrow> (Inl e, m) | (Inr u, m) \<Rightarrow> (Inr (), m)) = (r :: (thrown + unit) \<times> machine)"
  by (cases r rule: prod.exhaust) (simp split: sum.split)

lemma store_stored:
  assumes "aligned a n"
  shows "store_func n 0 a val m =
    (let tag = tlb_store_tag (mmu (hart m)) ! tlb_index a;
         host = tlb_target (mmu (hart m)) a;
         v = take_bit (8 * n) val
     in if tag = vpn_of a then (Inr (), m\<lparr>ram := set_ram host (to_le n v) (ram m)\<rparr>)
        else if tag = vpn_of a OR TLB_CHECK_TRIGGERS then
          after_check (check_trigger OPERATION_STORE a v m) (\<lambda>m. (Inr (), m\<lparr>ram := set_ram host (to_le n v) (ram m)\<rparr>))
        else store_slow_path a (to_le n v) 0 m)"
proof -
  have al: "(a AND (of_nat n - 1) \<noteq> 0) = False" and z: "((0 :: uint32) \<noteq> 0) = False"
    using assms by (simp_all add: aligned_def)
  show ?thesis
    unfolding store_func_def al z if_False Let_def tlb_target_def[symmetric] unit_pass ..
qed

lemma store_hit:
  assumes "tlb_inv m" and "aligned a n" and "tlb_hit STORE (mmu (hart m)) a"
  shows "store_func n 0 a val m = ref_store n a val m"
proof -
  note h = hit_entry[OF assms(1,3,2)]
  have R: "ref_store n a val m = after_check (check_trigger OPERATION_STORE a (take_bit (8 * n) val) m)
      (\<lambda>m. (Inr (), m\<lparr>ram := set_ram (tlb_target (mmu (hart m)) a) (to_le n (take_bit (8 * n) val)) (ram m)\<rparr>))"
    unfolding ref_store_def h(1) sum.case after_check_same by (simp add: h(2))
  show ?thesis
  proof (cases "check_triggers_store (mmu (hart m))")
    case True
    then show ?thesis
      unfolding R store_stored[OF assms(2)] after_check_same using h(4) by (simp add: Let_def)
  next
    case False
    then have "check_trigger OPERATION_STORE a d m = (None, m)" for d
      using check_skipped[OF assms(1), of STORE] by simp
    then show ?thesis
      unfolding R store_stored[OF assms(2)] after_check_same using h(4) False by (simp add: Let_def)
  qed
qed

lemma from_le_stored: "aligned a n \<Longrightarrow> from_le (to_le n (take_bit (8 * n) v)) = take_bit (8 * n) v"
  by (subst from_le_to_le) (auto simp: aligned_def)

lemma store_miss:
  assumes "aligned a n" and "\<not> tlb_hit STORE (mmu (hart m)) a"
  shows "store_func n 0 a val m = store_slow_path a (to_le n (take_bit (8 * n) val)) 0 m"
  using assms(2) unfolding store_stored[OF assms(1)] by (simp add: Let_def tlb_hit_def)

text \<open>A store may change the page tables; it must leave the translation as it is.\<close>

definition keeps_translation :: "machine \<Rightarrow> machine \<Rightarrow> bool" where
  "keeps_translation m m' \<longleftrightarrow> (\<forall>b k t. translate (phys m') (hart m) b k t 0 = translate (phys m) (hart m) b k t 0)"

lemma inv_ram:
  assumes "tlb_inv m" and "keeps_translation m (m\<lparr>ram := r\<rparr>)"
  shows "tlb_inv (m\<lparr>ram := r\<rparr>)"
proof -
  have "entry_ok (m\<lparr>ram := r\<rparr>) t a n = entry_ok m t a n" for t a n
    using assms(2) by (simp add: entry_ok_def keeps_translation_def)
  then show ?thesis
    using assms(1) by (simp add: tlb_inv_def coherent_def tlb_ready_def)
qed

lemma keeps_refl: "phys m' = phys m \<Longrightarrow> keeps_translation m m'"
  by (simp add: keeps_translation_def)

lemma keeps_cong: "phys m' = phys m'' \<Longrightarrow> keeps_translation m m' = keeps_translation m m''"
  by (simp add: keeps_translation_def)

lemma ref_store_inv:
  assumes "tlb_inv m" and "keeps_translation m (snd (ref_store n a val m))"
  shows "tlb_inv (snd (ref_store n a val m))"
proof (cases "translate (phys m) (hart m) a n STORE 0")
  case (Inl e)
  then show ?thesis
    by (simp add: ref_store_def assms)
next
  case (Inr pa)
  obtain r k where c: "check_trigger OPERATION_STORE a (take_bit (8 * n) val) m = (r, k)"
    by (cases "check_trigger OPERATION_STORE a (take_bit (8 * n) val) m")
  then have "tlb_inv k"
    using inv_check[of OPERATION_STORE a "take_bit (8 * n) val" m] assms(1) by simp
  then show ?thesis
    using assms inv_ram[OF assms(1)] unfolding ref_store_def Inr sum.case after_check_same unfolding c prod.case
    by (auto split: option.splits if_splits dest: inv_mmio_store)
qed

lemma store_ref:
  assumes "tlb_inv m" and "aligned a n"
  shows "same_answer (store_func n 0 a val m) (ref_store n a val m)"
    and "keeps_translation m (snd (store_func n 0 a val m)) \<Longrightarrow> tlb_inv (snd (store_func n 0 a val m))"
proof -
  have "same_answer (store_func n 0 a val m) (ref_store n a val m)
      \<and> (keeps_translation m (snd (store_func n 0 a val m)) \<longrightarrow> tlb_inv (snd (store_func n 0 a val m)))"
  proof (cases "tlb_hit STORE (mmu (hart m)) a")
    case True
    then show ?thesis
      unfolding store_hit[OF assms True] using ref_store_inv[OF assms(1)] by simp
  next
    case False
    note M = store_miss[OF assms(2) False, of val]
    define v where "v = take_bit (8 * n) val"
    have fl: "from_le (to_le n v) = v"
      unfolding v_def by (rule from_le_stored[OF assms(2)])
    show ?thesis
    proof (cases "translate (phys m) (hart m) a n STORE 0")
      case (Inl e)
      then show ?thesis
        unfolding M store_slow_path_def ref_store_def length_to_le by (simp add: assms(1))
    next
      case (Inr pa)
      obtain r k where c: "check_trigger OPERATION_STORE a v m = (r, k)"
        by (cases "check_trigger OPERATION_STORE a v m")
      show ?thesis
      proof (cases "addr_to_mem (devices m) pa \<and> r = None")
        case True
        define m' where "m' = m\<lparr>ram := set_ram pa (to_le n v) (ram m)\<rparr>"
        have S: "store_func n 0 a val m = (Inr (), m_refill a pa STORE m')"
          unfolding M store_slow_path_def length_to_le Inr sum.case v_def[symmetric] fl after_check_same unfolding c
          using True by (simp add: m'_def)
        have R: "ref_store n a val m = (Inr (), m')"
          unfolding ref_store_def Inr sum.case after_check_same v_def[symmetric] unfolding c using True by (simp add: m'_def)
        have "tlb_inv (m_refill a pa STORE m')" if keeps: "keeps_translation m (m_refill a pa STORE m')"
        proof (rule inv_refill)
          have k: "keeps_translation m m'"
            using keeps keeps_cong[of "m_refill a pa STORE m'" m'] by simp
          then show "tlb_inv m'"
            using inv_ram[OF assms(1)] by (simp add: m'_def)
          show "translate (phys m') (hart m') a n STORE 0 = Inr pa"
            using k Inr by (simp add: keeps_translation_def m'_def)
          show "addr_to_mem (devices m') pa"
            using True by (simp add: m'_def)
        qed (rule assms(2))
        then show ?thesis
          unfolding S R by (simp add: same_answer_def)
      next
        case False
        have "store_func n 0 a val m = ref_store n a val m"
          unfolding M store_slow_path_def ref_store_def length_to_le Inr sum.case v_def[symmetric] fl after_check_same unfolding c
          using False by (cases r) simp_all
        then show ?thesis
          using ref_store_inv[OF assms(1)] by simp
      qed
    qed
  qed
  then show "same_answer (store_func n 0 a val m) (ref_store n a val m)"
    and "keeps_translation m (snd (store_func n 0 a val m)) \<Longrightarrow> tlb_inv (snd (store_func n 0 a val m))"
    by simp_all
qed


section \<open>Fetches\<close>

lemma mmio_load_mmu: "mmio_load a n m = (r, k) \<Longrightarrow> mmu (hart k) = mmu (hart m)"
  by (auto simp: mmio_load_def split: if_splits prod.splits)

lemma silent:
  assumes "tlb_inv m" and "\<not> check_triggers t (mmu (hart m))"
  shows "trigger_match (op_of t) a d (hart m) = None"
  by (rule no_trigger) (use assms in \<open>simp_all add: tlb_inv_def tlb_ready_def\<close>)

lemma ref_fetch_inv:
  assumes "tlb_inv m"
  shows "tlb_inv (snd (ref_fetch a m))"
proof (cases "translate (phys m) (hart m) a 2 FETCH 0")
  case (Inl e)
  then show ?thesis
    by (simp add: ref_fetch_def assms)
next
  case (Inr pa)
  obtain r k where k: "mmio_load pa 2 m = (r, k)"
    by (cases "mmio_load pa 2 m")
  then have "tlb_inv k"
    using inv_mmio_load[of pa 2 m] assms by simp
  then show ?thesis
    using assms unfolding ref_fetch_def Inr sum.case Let_def k prod.case by (auto split: option.split)
qed

lemma fetch_hit:
  assumes "tlb_inv m" and "aligned a 2" and "tlb_hit FETCH (mmu (hart m)) a"
  shows "fetch_half a m = ref_fetch a m"
proof -
  note h = hit_entry[OF assms(1,3,2)]
  define x where "x = from_le (ram_bytes m (tlb_target (mmu (hart m)) a) 2)"
  have R: "ref_fetch a m = (case trigger_match OPERATION_EXECUTE a x (hart m) of
      Some i \<Rightarrow> (Inl (Trigger_matched i OPERATION_EXECUTE a x), m) | None \<Rightarrow> (Inr x, m))"
    unfolding ref_fetch_def h(1) sum.case if_P[OF h(2)] if_P[OF h(3)] Let_def x_def ..
  show ?thesis
  proof (cases "check_triggers_fetch (mmu (hart m))")
    case True
    then show ?thesis
      using h(4) unfolding R fetch_half_def x_def tlb_target_def by (simp add: Let_def)
  next
    case False
    then have "trigger_match OPERATION_EXECUTE a x (hart m) = None"
      using silent[OF assms(1), of FETCH] by simp
    then show ?thesis
      using h(4) False unfolding R fetch_half_def x_def tlb_target_def by (simp add: Let_def)
  qed
qed

lemma fetch_ref:
  assumes "tlb_inv m" and "aligned a 2"
  shows "same_answer (fetch_half a m) (ref_fetch a m)" and "tlb_inv (snd (fetch_half a m))"
proof -
  have "same_answer (fetch_half a m) (ref_fetch a m) \<and> tlb_inv (snd (fetch_half a m))"
  proof (cases "tlb_hit FETCH (mmu (hart m)) a")
    case True
    then show ?thesis
      unfolding fetch_hit[OF assms True] using ref_fetch_inv[OF assms(1)] by simp
  next
    case False
    then have miss: "tlb_insn_tag (mmu (hart m)) ! tlb_index a \<noteq> vpn_of a"
      "tlb_insn_tag (mmu (hart m)) ! tlb_index a \<noteq> vpn_of a OR TLB_CHECK_TRIGGERS"
      by (simp_all add: tlb_hit_def Let_def)
    show ?thesis
    proof (cases "translate (phys m) (hart m) a 2 FETCH 0")
      case (Inl e)
      then have "fetch_half a m = (Inl e, m)" and "ref_fetch a m = (Inl e, m)"
        using miss by (simp_all add: fetch_half_def fetch_slow_path_def ref_fetch_def Let_def)
      then show ?thesis
        using assms(1) by simp
    next
      case (Inr pa)
      show ?thesis
      proof (cases "addr_to_mem (devices m) pa")
        case mem: True
        define m' where "m' = m_refill a pa FETCH m"
        define x where "x = from_le (ram_bytes m pa 2)"
        define hom where "hom \<longleftrightarrow> pmp_homogeneous (hart m) (pa AND NOT 0xFFF) 0x1000 = Some True"
        have inv: "tlb_inv m'"
          unfolding m'_def by (rule inv_refill[OF assms(1) Inr assms(2) mem])
        have wf: "wf_tlb (mmu (hart m))"
          using assms(1) by (simp add: tlb_inv_def coherent_def)
        have hart: "hart m' = refill_tlb a pa FETCH (hart m)"
          by (simp add: m'_def m_refill_def)
        have tag: "tlb_insn_tag (mmu (hart m')) ! tlb_index a =
            (if hom then if check_triggers_fetch (mmu (hart m)) then vpn_of a OR TLB_CHECK_TRIGGERS else vpn_of a else - 1)"
          using refilled_tag[OF wf, of FETCH a pa FETCH "tlb_index a"] False unfolding hart hom_def[symmetric] by simp
        have target: "tlb_data (mmu (hart m')) ! tlb_index a + a = pa"
          using target_refill[OF wf, of a pa FETCH a] unfolding hart tlb_target_def by simp
        have half: "from_le (ram_bytes m' pa 2) = x"
          by (simp add: x_def m'_def ram_bytes_def)
        have trig: "trigger_match OPERATION_EXECUTE a x (hart m') = trigger_match OPERATION_EXECUTE a x (hart m)"
          by (simp add: hart refill_tlb_def Let_def)
        have S: "fetch_slow_path a m = (Inr (Inl (pa - a)), m')"
          using mem by (simp add: fetch_slow_path_def Inr m'_def)
        have F: "fetch_half a m =
            (if hom \<and> check_triggers_fetch (mmu (hart m)) then
               (case trigger_match OPERATION_EXECUTE a x (hart m) of
                  Some i \<Rightarrow> (Inl (Trigger_matched i OPERATION_EXECUTE a x), m') | None \<Rightarrow> (Inr x, m'))
             else (Inr x, m'))"
          using miss tag by (simp add: fetch_half_def Let_def S target half trig split: option.split)
        have R: "ref_fetch a m =
            (if hom then
               (case trigger_match OPERATION_EXECUTE a x (hart m) of
                  Some i \<Rightarrow> (Inl (Trigger_matched i OPERATION_EXECUTE a x), m) | None \<Rightarrow> (Inr x, m))
             else (Inr x, m))"
          unfolding ref_fetch_def Inr sum.case if_P[OF mem] Let_def x_def[symmetric] hom_def[symmetric] ..
        have "trigger_match OPERATION_EXECUTE a x (hart m) = None" if "\<not> check_triggers_fetch (mmu (hart m))"
          using silent[OF assms(1), of FETCH] that by simp
        moreover have "forget m' = forget m"
          by (simp add: m'_def)
        ultimately show ?thesis
          using inv unfolding F R by (auto simp: same_answer_def split: option.split)
      next
        case False
        obtain r k where k: "mmio_load pa 2 m = (r, k)"
          by (cases "mmio_load pa 2 m")
        have "fetch_half a m = ref_fetch a m"
          using miss False mmio_load_mmu[OF k] by (cases r) (simp_all add: fetch_half_def fetch_slow_path_def ref_fetch_def Let_def Inr k)
        then show ?thesis
          using ref_fetch_inv[OF assms(1)] by simp
      qed
    qed
  qed
  then show "same_answer (fetch_half a m) (ref_fetch a m)" and "tlb_inv (snd (fetch_half a m))"
    by simp_all
qed


section \<open>Atomic operations and reservations\<close>

lemma reservation_forget: "forget m = forget m' \<Longrightarrow> forget (set_reservation r m) = forget (set_reservation r m')"
proof (erule forgetE)
  fix u
  assume m: "m = m'\<lparr>hart := (hart m')\<lparr>mmu := u\<rparr>\<rparr>" and u: "forget_mmu u = forget_mmu (mmu (hart m'))"
  have c: "forget_mmu (v\<lparr>load_reservation_address := r\<rparr>) = (forget_mmu v)\<lparr>load_reservation_address := r\<rparr>" for v
    by (simp add: forget_mmu_def)
  show ?thesis
    unfolding m by (simp add: set_reservation_def forget_def c u)
qed

lemma inv_reservation [simp]: "tlb_inv (set_reservation r m) = tlb_inv m"
proof (rule inv_cong)
  have "tlb_tag t (u\<lparr>load_reservation_address := r\<rparr>) = tlb_tag t u" "check_triggers t (u\<lparr>load_reservation_address := r\<rparr>) = check_triggers t u" for t u
    by (cases t; simp)+
  then show "same_tlb (mmu (hart (set_reservation r m))) (mmu (hart m))"
    by (simp add: same_tlb_def set_reservation_def)
qed (simp_all add: set_reservation_def phys_def fun_eq_iff)

lemma aligned_1 [simp]: "aligned a 1"
  by (simp add: aligned_def)

lemma reserve_two:
  assumes "forget m = forget m'"
  shows "same_answer (acquire_load_reservation a m) (acquire_load_reservation a m')"
    and "same_answer (check_load_reservation a n m) (check_load_reservation a n m')"
proof -
  note v = forget_view[OF assms]
  have "load_reservation_address (mmu (hart m)) = load_reservation_address (mmu (hart m'))"
    using arg_cong[OF assms, of "\<lambda>m. load_reservation_address (mmu (hart m))"] by (simp add: forget_def forget_mmu_def)
  moreover have "forget (set_reservation r (m_refill a pa LOAD m)) = forget (set_reservation r (m_refill a pa LOAD m'))" for r pa
    by (rule reservation_forget) (simp add: assms)
  ultimately show "same_answer (acquire_load_reservation a m) (acquire_load_reservation a m')"
    and "same_answer (check_load_reservation a n m) (check_load_reservation a n m')"
    unfolding acquire_load_reservation_def check_load_reservation_def v(2,3) translate_view[OF v(4)]
    by (auto simp: same_answer_def assms split: sum.split)
qed

lemma reserve_inv:
  assumes "tlb_inv m"
  shows "tlb_inv (snd (acquire_load_reservation a m))" and "tlb_inv (snd (check_load_reservation a n m))"
  using assms inv_refill[OF assms _ aligned_1] unfolding acquire_load_reservation_def check_load_reservation_def
  by (auto split: sum.split)

lemma load_two:
  assumes "tlb_inv m" and "tlb_inv m'" and "forget m = forget m'" and "aligned a n"
    and "\<not> sg \<or> n = 8 \<or> \<not> check_triggers_load (mmu (hart m))"
  shows "same_answer (load_func sg n 0 a m) (load_func sg n 0 a m')"
proof -
  have "check_triggers_load (mmu (hart m')) = check_triggers_load (mmu (hart m))"
    using arg_cong[OF assms(3), of "\<lambda>m. check_triggers_load (mmu (hart m))"] by (simp add: forget_def forget_mmu_def)
  then have "same_answer (load_func sg n 0 a m') (ref_load sg n a m')"
    using load_ref(1)[OF assms(2,4)] assms(5) by simp
  then show ?thesis
    using load_ref(1)[OF assms(1,4,5)] ref_load_forget[OF assms(3), of sg n a] by (simp add: same_answer_def)
qed

lemma store_two:
  assumes "tlb_inv m" and "tlb_inv m'" and "forget m = forget m'" and "aligned a n"
  shows "same_answer (store_func n 0 a val m) (store_func n 0 a val m')"
  using store_ref(1)[OF assms(1,4), of val] store_ref(1)[OF assms(2,4), of val] ref_store_forget[OF assms(3), of n a val]
  by (simp add: same_answer_def)

lemma fetch_two:
  assumes "tlb_inv m" and "tlb_inv m'" and "forget m = forget m'" and "aligned a 2"
  shows "same_answer (fetch_half a m) (fetch_half a m')"
  using fetch_ref(1)[OF assms(1,4)] fetch_ref(1)[OF assms(2,4)] ref_fetch_forget[OF assms(3), of a] by (simp add: same_answer_def)

lemma amo_two:
  assumes "tlb_inv m" and "tlb_inv m'" and "forget m = forget m'" and "aligned a n"
  shows "same_answer (amo_func n a f m) (amo_func n a f m')"
proof -
  obtain r k r' k' where l: "load_func False n 0 a m = (r, k)" "load_func False n 0 a m' = (r', k')"
    by (cases "load_func False n 0 a m"; cases "load_func False n 0 a m'")
  have r: "r' = r" "forget k = forget k'"
    using load_two[OF assms, of False] by (simp_all add: l same_answer_def)
  have i: "tlb_inv k" "tlb_inv k'"
    using load_ref(2)[OF assms(1,4), of False] load_ref(2)[OF assms(2,4), of False] by (simp_all add: l)
  have al: "a AND (of_nat n - 1) = 0"
    using assms(4) by (simp add: aligned_def)
  show ?thesis
  proof (cases r)
    case (Inl e)
    then show ?thesis
      using al by (simp add: amo_func_def l r same_answer_def)
  next
    case (Inr lhs)
    obtain s j s' j' where st: "store_func n 0 a (f lhs) k = (s, j)" "store_func n 0 a (f lhs) k' = (s', j')"
      by (cases "store_func n 0 a (f lhs) k"; cases "store_func n 0 a (f lhs) k'")
    have "s' = s" "forget j = forget j'"
      using store_two[OF i r(2) assms(4), of "f lhs"] by (simp_all add: st same_answer_def)
    then show ?thesis
      using al by (cases s) (simp_all add: amo_func_def l r(1) Inr st same_answer_def)
  qed
qed

section \<open>The TLB is transparent\<close>

text \<open>
  C3: the TLB is transparent. If two machines agree but for what their TLBs hold, and both TLBs
  are coherent with the translation (every hit is the translation of the access, in a page that
  the protection does not split, and marked if triggers watch it; part of this is that data accesses are made in
  the mode of fetches, without an effective \<open>MPRV\<close>), then aligned loads, stores, atomic
  operations, reservations and fetches have the same results, the same faults and the same fired
  triggers, and leave machines that agree again. In particular one of the TLBs may be empty. Signed loads
  are included where no trigger watches loads, since a hit shows triggers the extended datum and
  a miss the bare bytes.
\<close>

theorem tlb_transparent:
  assumes "tlb_inv m" and "tlb_inv m'" and "forget m = forget m'" and "aligned a n" and "aligned b 2"
  shows "(\<not> sg \<or> n = 8 \<or> \<not> check_triggers_load (mmu (hart m)) \<longrightarrow>
        same_answer (load_func sg n 0 a m) (load_func sg n 0 a m'))
    \<and> same_answer (store_func n 0 a val m) (store_func n 0 a val m')
    \<and> same_answer (amo_func n a f m) (amo_func n a f m')
    \<and> same_answer (acquire_load_reservation a m) (acquire_load_reservation a m')
    \<and> same_answer (check_load_reservation a n m) (check_load_reservation a n m')
    \<and> same_answer (fetch_half b m) (fetch_half b m')"
  using load_two[OF assms(1-4)] store_two[OF assms(1-4)] amo_two[OF assms(1-4)] reserve_two[OF assms(3)]
    fetch_two[OF assms(1-3,5)] by simp

text \<open>A machine with one memory, and the same machine after a page has been cached.\<close>

definition example_machine :: machine where
  "example_machine = \<lparr>hart = example_hart\<lparr>n_pmp := 0\<rparr>, ram = (\<lambda>a. ucast a), devices = [(0x80000000, Mem_dev 0x80000000)],
     clint = \<lparr>real_time = False, freq_hz = 1, mtime = 0, mtimecmp = [0]\<rparr>, matched_trigger = None\<rparr>"

lemma example_addr_to_mem: "addr_to_mem [(0x80000000, Mem_dev 0x80000000)] a \<longleftrightarrow> drop_bit 31 a = 1"
proof -
  have u: "unat (drop_bit 31 a) = unat a div 2147483648"
    by (simp add: drop_bit_eq_div unat_div)
  have "(0x80000000 \<le> a \<and> a - 0x80000000 < 0x80000000) \<longleftrightarrow> unat a div 2147483648 = 1"
  proof (cases "0x80000000 \<le> a")
    case True
    then have "unat (a - 0x80000000) = unat a - 2147483648" and "2147483648 \<le> unat a"
      by (simp_all add: unat_sub word_le_nat_alt)
    then show ?thesis
      using True by (auto simp: word_less_nat_alt div_nat_eqI)
  next
    case False
    then have "unat a < 2147483648"
      by (simp add: word_le_nat_alt)
    then show ?thesis
      using False by simp
  qed
  moreover have "unat a div 2147483648 = 1 \<longleftrightarrow> drop_bit 31 a = 1"
    unfolding u[symmetric] word_unat_eq_iff by simp
  moreover have "paddr_ok a" if "drop_bit 31 a = 1"
  proof -
    have "drop_bit 32 a = drop_bit 1 (drop_bit 31 a)" "drop_bit 56 a = drop_bit 25 (drop_bit 31 a)"
      by simp_all
    then show ?thesis
      unfolding that paddr_ok_def by simp
  qed
  ultimately show ?thesis
    by (auto simp: addr_to_mem_def find_device_def Let_def not_less)
qed

lemma example_paged: "paged_bus [(0x80000000, Mem_dev 0x80000000)]"
proof -
  have "drop_bit 31 a = drop_bit 31 b" if "vpn_of a = vpn_of b" for a b
    by (rule drop_vpn[OF that]) simp
  then show ?thesis
    unfolding paged_bus_def example_addr_to_mem by metis
qed

lemma example_ready: "tlb_ready example_machine" "wf_tlb (mmu (hart example_machine))"
proof -
  show "tlb_ready example_machine"
    using example_paged by (simp add: tlb_ready_def example_machine_def uniform_mode_def effective_mode_def example_hart_def
        get_field_def triggers_known_def Let_def)
  show "wf_tlb (mmu (hart example_machine))"
    by (simp add: example_machine_def example_hart_def wf_tlb_def)
qed

lemma example_translate: "translate (phys (m_flush example_machine)) (hart (m_flush example_machine)) 0x80001000 4 LOAD 0 = Inr 0x80001000"
  by (simp add: translate_def effective_mode_def m_flush_def p_flush_tlb_def example_machine_def example_hart_def get_field_def Let_def
      walk_def decode_vm_info_def s2xlate_def pmp_ok_def vm_off_def low_bits_def)

lemma tlb_transparent_witness:
  "let m = m_flush example_machine; m' = m_refill 0x80001000 0x80001000 LOAD m
   in tlb_hit LOAD (mmu (hart m')) 0x80001008 \<and> \<not> tlb_hit LOAD (mmu (hart m)) 0x80001008
     \<and> fst (fetch_half 0x80001008 m) = fst (fetch_half 0x80001008 m')"
proof -
  define m where "m = m_flush example_machine"
  define m' where "m' = m_refill 0x80001000 0x80001000 LOAD m"
  have i: "tlb_inv m"
    unfolding m_def by (rule inv_flush[OF example_ready])
  have "tlb_inv m'"
    unfolding m'_def by (rule inv_refill[OF i example_translate[folded m_def]])
      (simp_all add: aligned_def m_def m_flush_def example_machine_def example_addr_to_mem)
  then have "fst (fetch_half 0x80001008 m) = fst (fetch_half 0x80001008 m')"
    using tlb_transparent[OF i, of m' "0x80001008" 4 "0x80001008" False 0 id] by (simp add: m'_def aligned_def same_answer_def)
  then show ?thesis
    unfolding m_def[symmetric] m'_def[symmetric] Let_def
    by (simp add: m'_def m_def tlb_hit_def Let_def m_refill_def tag_refill refill_tags_def keep_tag_def m_flush_def p_flush_tlb_def
        flush_tlb_def flush_icache_def example_machine_def example_hart_def vpn_of_def tlb_index_def pmp_homogeneous_def
        tag_refill[of LOAD, simplified])
qed

text \<open>
  C6: the TLB stays coherent while the privilege of data accesses is not modified. The hart must translate loads and
  stores in the mode it fetches in (\<open>uniform_mode\<close>: \<open>MPRV\<close> is clear, or stands for the same mode), main memory must consist of whole
  pages and the MMU must know what the triggers watch. Then a flush makes the TLB coherent, and loads, fetches,
  reservations and their checks keep it so, and keep these conditions, whether they succeed, fault or fire a
  trigger. A store does as long as it leaves the translation as it is: writing a page table is the program's business
  to follow with a fence. Writing a trigger register flushes and informs the MMU of what the triggers watch. With
  \<open>MPRV\<close> in effect the claim is false, as the theorem on loads that redirect fetches shows.
\<close>

theorem tlb_coherence_invariant:
  assumes "uniform_mode (hart m)" and "paged_bus (devices m)" and "triggers_known (hart m)" and "aligned a n" and "aligned b 2"
  shows "(wf_tlb (mmu (hart m)) \<longrightarrow> coherent (m_flush m) \<and> tlb_ready (m_flush m))
    \<and> (length (mcontrol p) = num_triggers \<longrightarrow> triggers_known (trigger_updated p))
    \<and> (coherent m \<longrightarrow>
         (\<not> sg \<or> n = 8 \<or> \<not> check_triggers_load (mmu (hart m)) \<longrightarrow>
           coherent (snd (load_func sg n 0 a m)) \<and> tlb_ready (snd (load_func sg n 0 a m)))
         \<and> (coherent (snd (fetch_half b m)) \<and> tlb_ready (snd (fetch_half b m)))
         \<and> (coherent (snd (acquire_load_reservation a m)) \<and> tlb_ready (snd (acquire_load_reservation a m)))
         \<and> (coherent (snd (check_load_reservation a n m)) \<and> tlb_ready (snd (check_load_reservation a n m)))
         \<and> (keeps_translation m (snd (store_func n 0 a val m)) \<longrightarrow>
           coherent (snd (store_func n 0 a val m)) \<and> tlb_ready (snd (store_func n 0 a val m))))"
proof -
  have r: "tlb_ready m"
    using assms(1-3) by (simp add: tlb_ready_def)
  then have i: "coherent m \<Longrightarrow> tlb_inv m"
    by (simp add: tlb_inv_def)
  show ?thesis
    unfolding tlb_inv_def[symmetric]
    using r i inv_flush load_ref(2)[OF i assms(4)] fetch_ref(2)[OF i assms(5)] store_ref(2)[OF i assms(4)] reserve_inv
    by (auto simp: triggers_known_def trigger_updated_def list_ex_iff)
qed

lemma tlb_coherence_invariant_witness:
  "let m = m_flush example_machine in coherent m \<and> coherent (snd (load_func False 4 0 0x80001000 m))
     \<and> coherent (snd (fetch_half 0x80001000 m))"
proof -
  define m where "m = m_flush example_machine"
  have a: "aligned 0x80001000 4" "aligned 0x80001000 2"
    by (simp_all add: aligned_def)
  have e: "uniform_mode (hart example_machine)" "paged_bus (devices example_machine)" "triggers_known (hart example_machine)"
      "wf_tlb (mmu (hart example_machine))"
    using example_ready by (simp_all add: tlb_ready_def)
  have m: "coherent m" "uniform_mode (hart m)" "paged_bus (devices m)" "triggers_known (hart m)"
    using tlb_coherence_invariant[OF e(1-3) a] e(4) by (simp_all add: m_def tlb_ready_def)
  show ?thesis
    unfolding m_def[symmetric] Let_def using tlb_coherence_invariant[OF m(2-4) a, of _ False] m(1) by blast
qed

section \<open>One entry for data and instructions\<close>

text \<open>
  C40: data accesses and fetches share the address of a TLB entry, and so a data access with modified
  privilege redirects the fetches of its page. If a fetch hits a page and a load of that
  page misses, the next fetch of the page answers the bytes the load read, wherever the fetch
  itself is translated to; \<open>refill_tlb\<close> keeps the tag of the fetch because the page's number is the same.
\<close>

theorem load_redirects_fetch:
  assumes "wf_tlb (mmu (hart m))" and "tlb_insn_tag (mmu (hart m)) ! tlb_index a = vpn_of a" and "\<not> tlb_hit LOAD (mmu (hart m)) a"
    and "aligned a 2" and "translate (phys m) (hart m) a 2 LOAD 0 = Inr pa" and "addr_to_mem (devices m) pa"
    and "triggers_known (hart m)" and "\<not> check_triggers_load (mmu (hart m))"
  shows "\<exists>m'. load_func False 2 0 a m = (Inr (from_le (ram_bytes m pa 2)), m')
    \<and> fetch_half a m' = (Inr (from_le (ram_bytes m pa 2)), m')"
proof -
  define m' where "m' = m_refill a pa LOAD m"
  have h: "hart m' = refill_tlb a pa LOAD (hart m)"
    by (simp add: m'_def m_refill_def)
  have "triggers_known (hart m')" and "\<not> check_triggers_load (mmu (hart m'))"
    using assms(7,8) by (simp_all add: h triggers_known_def refill_tlb_def Let_def)
  then have "check_trigger OPERATION_LOAD a d m' = (None, m')" for d
    using no_check[of m' LOAD] by simp
  then have l: "load_func False 2 0 a m = (Inr (from_le (ram_bytes m pa 2)), m')"
    unfolding load_miss[OF assms(4,3)] load_slow_path_def assms(5) sum.case if_P[OF assms(6)] Let_def
    by (simp add: m'_def after_check_def)
  have "tlb_hit FETCH (mmu (hart m)) a"
    using assms(2) by (simp add: tlb_hit_def)
  then have "tlb_insn_tag (mmu (hart m')) ! tlb_index a = vpn_of a"
    using refilled_tag[OF assms(1), of FETCH a pa LOAD "tlb_index a"] assms(2) by (simp add: h)
  moreover have "tlb_data (mmu (hart m')) ! tlb_index a + a = pa"
    using target_refill[OF assms(1), of a pa LOAD a] by (simp add: h tlb_target_def)
  ultimately have "fetch_half a m' = (Inr (from_le (ram_bytes m pa 2)), m')"
    by (simp add: fetch_half_def Let_def m'_def ram_bytes_def)
  with l show ?thesis
    by blast
qed

text \<open>
  Machine mode with modified privilege: the page at \<open>0x80001000\<close> is fetched untranslated, and
  loaded through a supervisor's gigapage at \<open>0xC0000000\<close>.
\<close>

definition mprv_machine :: machine where
  "mprv_machine = example_machine\<lparr>hart := example_hart\<lparr>n_pmp := 0, mstatus := 0x20800, satp := 0x8000000000080000\<rparr>,
     ram := (\<lambda>a. if a = 0x80000010 then 0x43 else if a = 0x80000013 then 0x30 else if a = 0xC0001234 then 0x13 else 0)\<rparr>"

lemma mprv_translate: "translate (phys mprv_machine) (hart mprv_machine) 0x80001234 2 LOAD 0 = Inr 0xC0001234"
proof -
  have e: "effective_mode (hart mprv_machine) LOAD 0 = (1, False, False)"
    by (simp add: effective_mode_def mprv_machine_def example_hart_def get_field_def Let_def)
  have d: "decode_vm_info (max_xlen (hart mprv_machine)) False 1 (satp (hart mprv_machine)) = Some (vm_make (Suc 2) 9 0 8 0x80000)"
    by (simp add: decode_vm_info_def mprv_machine_def example_hart_def get_field_def Let_def)
  have ok: "pmp_ok (hart mprv_machine) a n t mode" for a n t mode
    by (simp add: pmp_ok_def mprv_machine_def)
  have r: "read_mem (phys mprv_machine) 0x80000010 8 = 0x30000043"
    by (simp add: read_mem_def mem_bytes_def mem_byte_def phys_def mprv_machine_def example_machine_def example_addr_to_mem upt_rec)
  have i: "in_mem (phys mprv_machine) 0x80000010"
    by (simp add: in_mem_def phys_def mprv_machine_def example_machine_def example_addr_to_mem)
  have "walk_loop (phys mprv_machine) (hart mprv_machine) (vm_make (Suc 2) 9 0 8 0x80000) 0x80001234 LOAD 1 False False (Suc 2) 0x80000000 = Inr 0xC0001000"
    unfolding walk_loop.simps by (simp add: vm_make_def s2xlate_def low_bits_def ok r i PTE_TABLE_def pte_forbidden_def pte_invalid_def pte_denies_def
        pte_not_marked_def page_of_def Let_def)
  then have "walk (phys mprv_machine) (hart mprv_machine) 0x80001234 LOAD 1 False False = Inr 0xC0001000"
    unfolding walk_def if_False d option.case by (simp add: vm_make_def low_bits_def mprv_machine_def example_hart_def)
  then show ?thesis
    unfolding translate_def e prod.case by (simp add: ok low_bits_def)
qed

lemma load_redirects_fetch_witness:
  "let m = m_refill 0x80001234 0x80001234 FETCH mprv_machine
   in fst (fetch_half 0x80001234 m) = Inr 0 \<and> fst (fetch_half 0x80001234 (snd (load_func False 2 0 0x80001234 m))) = Inr 0x13"
proof -
  define m where "m = m_refill 0x80001234 0x80001234 FETCH mprv_machine"
  have h: "hart m = refill_tlb 0x80001234 0x80001234 FETCH (hart mprv_machine)"
    by (simp add: m_def m_refill_def)
  have wf0: "wf_tlb (mmu (hart mprv_machine))"
    by (simp add: mprv_machine_def example_hart_def wf_tlb_def)
  have no: "\<not> tlb_hit t (mmu (hart mprv_machine)) 0x80001234" for t
    by (cases t) (simp_all add: mprv_machine_def example_hart_def tlb_hit_def vpn_of_def tlb_index_def)
  have hom: "pmp_homogeneous (hart mprv_machine) (0x80001234 AND NOT 0xFFF) 0x1000 = Some True"
    by (simp add: pmp_homogeneous_def mprv_machine_def)
  have ct: "\<not> check_triggers t (mmu (hart mprv_machine))" for t
    by (cases t) (simp_all add: mprv_machine_def example_hart_def)
  have tag: "tlb_insn_tag (mmu (hart m)) ! tlb_index 0x80001234 = vpn_of 0x80001234" "\<not> tlb_hit LOAD (mmu (hart m)) 0x80001234"
    using refilled_tag[OF wf0, of FETCH "0x80001234" "0x80001234" FETCH "tlb_index 0x80001234"]
      refilled_tag[OF wf0, of LOAD "0x80001234" "0x80001234" FETCH "tlb_index 0x80001234"] hom ct[of FETCH] no[of LOAD]
    unfolding h tlb_hit_def Let_def by simp_all
  have bytes: "from_le (ram_bytes m 0xC0001234 2) = 0x13" "from_le (ram_bytes m 0x80001234 2) = 0"
    by (simp_all add: ram_bytes_def m_def mprv_machine_def upt_rec)
  have before: "fst (fetch_half 0x80001234 m) = Inr 0"
    using target_refill[OF wf0, of "0x80001234" "0x80001234" FETCH "0x80001234"] tag(1) bytes(2)
    by (simp add: fetch_half_def Let_def h tlb_target_def)
  have "\<exists>m'. load_func False 2 0 0x80001234 m = (Inr (from_le (ram_bytes m 0xC0001234 2)), m')
      \<and> fetch_half 0x80001234 m' = (Inr (from_le (ram_bytes m 0xC0001234 2)), m')"
  proof (rule load_redirects_fetch[OF _ tag])
    show "wf_tlb (mmu (hart m))"
      unfolding h by (rule wf_refill[OF wf0])
    show "translate (phys m) (hart m) 0x80001234 2 LOAD 0 = Inr 0xC0001234"
      unfolding h translate_view[OF refill_view] by (simp add: m_def mprv_translate)
    show "addr_to_mem (devices m) 0xC0001234"
      by (simp add: m_def mprv_machine_def example_machine_def example_addr_to_mem)
    show "triggers_known (hart m)"
      by (simp add: h triggers_known_def) (simp add: mprv_machine_def example_hart_def)
    show "\<not> check_triggers_load (mmu (hart m))"
      using ct[of LOAD] by (simp add: h refill_tlb_def Let_def)
  qed (simp add: aligned_def)
  then show ?thesis
    using before bytes(1) unfolding Let_def m_def[symmetric] by auto
qed

end
