(* ===== verification/RV_MemInsns_Props.thy ===== *)
theory RV_MemInsns_Props
  imports RV_MemInsns RV_TLB_Props
begin

text \<open>
  The memory instructions: load-reserved and store-conditional work as a pair, and what an
  instruction changes besides memory.
\<close>

section \<open>Reservations\<close>

definition rv_lr :: "nat \<Rightarrow> insn_bits \<Rightarrow> reg_t \<Rightarrow> machine \<Rightarrow> mexec" where
  "rv_lr n = (if n = 4 then rv_lr_w else rv_lr_d)"

definition rv_sc :: "nat \<Rightarrow> insn_bits \<Rightarrow> reg_t \<Rightarrow> machine \<Rightarrow> mexec" where
  "rv_sc n = (if n = 4 then rv_sc_w else rv_sc_d)"

definition atomic_width :: "nat \<Rightarrow> processor_t \<Rightarrow> bool" where
  "atomic_width n p \<longleftrightarrow> supports_extension (CHR ''A'') p \<and> (n = 4 \<or> n = 8 \<and> xlen p = 64)"

lemma rv_lr_exec: "atomic_width n (hart m) \<Longrightarrow> rv_lr n insn at_pc m = exec_lr True n insn at_pc m"
  by (auto simp: atomic_width_def rv_lr_def rv_lr_w_def rv_lr_d_def)

lemma rv_sc_exec: "atomic_width n (hart m) \<Longrightarrow> rv_sc n insn at_pc m = exec_sc True n insn at_pc m"
  by (auto simp: atomic_width_def rv_sc_def rv_sc_w_def rv_sc_d_def)

lemma forget_hart:
  assumes "forget m = forget m'"
  shows "XPR (hart m) = XPR (hart m')" "xlen (hart m) = xlen (hart m')"
    "load_reservation_address (mmu (hart m)) = load_reservation_address (mmu (hart m'))"
proof -
  obtain u where m: "m = m'\<lparr>hart := (hart m')\<lparr>mmu := u\<rparr>\<rparr>"
    using assms by (rule forgetE)
  show "XPR (hart m) = XPR (hart m')" "xlen (hart m) = xlen (hart m')"
    unfolding m by simp_all
  show "load_reservation_address (mmu (hart m)) = load_reservation_address (mmu (hart m'))"
    using arg_cong[OF assms, of "\<lambda>m. load_reservation_address (mmu (hart m))"] by (simp add: forget_def forget_mmu_def)
qed

lemma next_pc_forget:
  assumes "forget m = forget m'"
  shows "next_pc at_pc insn (hart m) = next_pc at_pc insn (hart m')"
  unfolding next_pc_def forget_hart(2)[OF assms] ..

text \<open>An access to memory that the triggers do not watch.\<close>

definition plain_access :: "access_type \<Rightarrow> machine \<Rightarrow> reg_t \<Rightarrow> nat \<Rightarrow> reg_t \<Rightarrow> bool" where
  "plain_access t m a n pa \<longleftrightarrow>
     translate (phys m) (hart m) a n t 0 = Inr pa \<and> translate (phys m) (hart m) a 1 t 0 = Inr pa
     \<and> addr_to_mem (devices m) pa \<and> \<not> check_triggers t (mmu (hart m))"

lemma plain_load:
  assumes "tlb_inv m" and "aligned a n" and "plain_access LOAD m a n pa"
  shows "\<exists>m'. load_func True n 0 a m = (Inr (extend True n (from_le (ram_bytes m pa n))), m') \<and> forget m' = forget m \<and> tlb_inv m'"
proof -
  have c: "check_trigger OPERATION_LOAD a d m = (None, m)" for d
    using check_skipped[OF assms(1), of LOAD] assms(3) by (simp add: plain_access_def)
  have "ref_load True n a m = (Inr (extend True n (from_le (ram_bytes m pa n))), m)"
    using assms(3) by (simp add: ref_load_def plain_access_def c after_check_def)
  moreover have "\<not> True \<or> n = 8 \<or> \<not> check_triggers_load (mmu (hart m))"
    using assms(3) by (simp add: plain_access_def)
  from load_ref[OF assms(1,2) this] have "same_answer (load_func True n 0 a m) (ref_load True n a m)"
    and "tlb_inv (snd (load_func True n 0 a m))" .
  ultimately show ?thesis
    by (cases "load_func True n 0 a m") (simp add: same_answer_def)
qed

lemma plain_store:
  assumes "tlb_inv m" and "aligned a n" and "plain_access STORE m a n pa"
  shows "\<exists>m'. store_func n 0 a v m = (Inr (), m')
    \<and> forget m' = forget (m\<lparr>ram := set_ram pa (to_le n (take_bit (8 * n) v)) (ram m)\<rparr>)"
proof -
  have c: "check_trigger OPERATION_STORE a d m = (None, m)" for d
    using check_skipped[OF assms(1), of STORE] assms(3) by (simp add: plain_access_def)
  have "ref_store n a v m = (Inr (), m\<lparr>ram := set_ram pa (to_le n (take_bit (8 * n) v)) (ram m)\<rparr>)"
    using assms(3) by (simp add: ref_store_def plain_access_def c after_check_def)
  then show ?thesis
    using store_ref(1)[OF assms(1,2), of v] by (cases "store_func n 0 a v m") (simp add: same_answer_def)
qed

lemma plain_forget:
  assumes "forget m' = forget m" and "plain_access t m a n pa"
  shows "plain_access t m' a n pa"
proof -
  have "check_triggers t (mmu (hart m')) = check_triggers t (mmu (hart m))"
    using arg_cong[OF assms(1), of "\<lambda>m. check_triggers t (mmu (hart m))"] by (cases t) (simp_all add: forget_def forget_mmu_def)
  then show ?thesis
    using assms(2) forget_view[OF assms(1)] by (simp add: plain_access_def translate_view[OF forget_view(4)[OF assms(1)]])
qed

lemma write_reg_other [simp]: "mmu (write_reg r v p) = mmu p" "same_view (write_reg r v p) p" "mcontrol (write_reg r v p) = mcontrol p"
  by (simp_all add: write_reg_def same_view_def)

lemma lr_reserves:
  assumes "atomic_width n (hart m)" and "tlb_inv m" and "aligned a n" and "a = RS1 insn (hart m)" and "plain_access LOAD m a n pa"
  shows "\<exists>m'. rv_lr n insn at_pc m = (Inr (next_pc at_pc insn (hart m)), m') \<and> tlb_inv m' \<and> ram m' = ram m
    \<and> XPR (hart m') = XPR (write_reg (insn_rd insn) (extend True n (from_le (ram_bytes m pa n))) (hart m))
    \<and> load_reservation_address (mmu (hart m')) = pa \<and> (\<forall>t b k q. plain_access t m b k q \<longrightarrow> plain_access t m' b k q)
    \<and> atomic_width n (hart m')"
proof -
  define v where "v = extend True n (from_le (ram_bytes m pa n))"
  obtain m1 where l: "load_func True n 0 a m = (Inr v, m1)" and f1: "forget m1 = forget m" and i1: "tlb_inv m1"
    using plain_load[OF assms(2,3,5)] by (auto simp: v_def)
  note p1 = plain_forget[OF f1 assms(5)]
  define m2 where "m2 = set_reservation pa (m_refill a pa LOAD m1)"
  have r: "acquire_load_reservation a m1 = (Inr (), m2)"
    using p1 by (simp add: acquire_load_reservation_def plain_access_def m2_def)
  have i2: "tlb_inv m2"
    using reserve_inv(1)[OF i1, of a] by (simp add: r)
  define m' where "m' = m2\<lparr>hart := write_reg (insn_rd insn) v (hart m2)\<rparr>"
  have x: "rv_lr n insn at_pc m = (Inr (next_pc at_pc insn (hart m2)), m')"
    unfolding rv_lr_exec[OF assms(1)] exec_lr_def assms(4)[symmetric] Let_def by (simp add: l r m_done_def m'_def)
  define u2 where "u2 = mmu (hart m2)"
  have h2: "hart m2 = (hart m1)\<lparr>mmu := u2\<rparr>"
    by (simp add: u2_def m2_def set_reservation_def m_refill_def refill_tlb_def Let_def)
  have "load_reservation_address (mmu (hart m')) = pa"
    by (simp add: m'_def m2_def set_reservation_def)
  moreover have "tlb_inv m' = tlb_inv m2"
    by (rule inv_cong) (simp_all add: m'_def same_tlb_def)
  moreover have "ram m' = ram m"
    using forget_view(1)[OF f1] by (simp add: m'_def m2_def set_reservation_def)
  moreover have e: "XPR (hart m2) = XPR (hart m)" "next_pc at_pc insn (hart m2) = next_pc at_pc insn (hart m)"
    using forget_hart(1,2)[OF f1] by (simp_all add: h2 next_pc_def)
  then have "XPR (hart m') = XPR (write_reg (insn_rd insn) v (hart m))"
    by (simp add: m'_def write_reg_def)
  moreover have "plain_access t m' b k q" if "plain_access t m b k q" for t b k q
  proof -
    have sv: "same_view (hart m') (hart m1)"
      by (simp add: m'_def h2 write_reg_def same_view_def)
    have "check_triggers t u2 = check_triggers t (mmu (hart m1))"
      by (cases t) (simp_all add: u2_def m2_def set_reservation_def m_refill_def refill_tlb_def Let_def)
    moreover have "mmu (hart m') = u2"
      by (simp add: m'_def u2_def)
    moreover have "phys m' = phys m1" "devices m' = devices m1"
      by (simp_all add: m'_def m2_def set_reservation_def)
    ultimately show ?thesis
      using plain_forget[OF f1 that] unfolding plain_access_def translate_view[OF sv] by simp
  qed
  moreover have "atomic_width n (hart m')"
  proof -
    obtain u where m1: "m1 = m\<lparr>hart := (hart m)\<lparr>mmu := u\<rparr>\<rparr>"
      using f1 by (rule forgetE)
    have "misa (hart m2) = misa (hart m)" "xlen (hart m2) = xlen (hart m)"
      unfolding h2 m1 by simp_all
    then have "misa (hart m') = misa (hart m)" "xlen (hart m') = xlen (hart m)"
      by (simp_all add: m'_def write_reg_def)
    then show ?thesis
      using assms(1) by (simp add: atomic_width_def supports_extension_def)
  qed
  ultimately show ?thesis
    using x i2 e(2) by (auto simp: v_def)
qed

lemma sc_result:
  assumes "atomic_width n (hart m)" and "tlb_inv m" and "aligned a n" and "a = RS1 insn (hart m)" and "plain_access STORE m a n pa"
  shows "\<exists>m'. rv_sc n insn at_pc m = (Inr (next_pc at_pc insn (hart m)), m') \<and> load_reservation_address (mmu (hart m')) = - 1
    \<and> (if load_reservation_address (mmu (hart m)) = pa
       then ram m' = set_ram pa (to_le n (take_bit (8 * n) (RS2 insn (hart m)))) (ram m)
         \<and> XPR (hart m') = XPR (write_reg (insn_rd insn) 0 (hart m))
       else ram m' = ram m \<and> XPR (hart m') = XPR (write_reg (insn_rd insn) 1 (hart m)))"
proof -
  define m1 where "m1 = m_refill a pa STORE m"
  have f1: "forget m1 = forget m"
    by (simp add: m1_def)
  have i1: "tlb_inv m1"
    unfolding m1_def by (rule inv_refill[OF assms(2) _ aligned_1]) (use assms(5) in \<open>simp_all add: plain_access_def\<close>)
  have c: "check_load_reservation a n m = (Inr (load_reservation_address (mmu (hart m)) = pa), m1)"
    using assms(3,5) by (simp add: check_load_reservation_def plain_access_def aligned_def m1_def)
  have fin: "XPR (hart (snd (m_done at_pc insn (write_reg (insn_rd insn) x) (yield_load_reservation k)))) = XPR (write_reg (insn_rd insn) x (hart m))
      \<and> fst (m_done at_pc insn (write_reg (insn_rd insn) x) (yield_load_reservation k)) = Inr (next_pc at_pc insn (hart m))
      \<and> load_reservation_address (mmu (hart (snd (m_done at_pc insn (write_reg (insn_rd insn) x) (yield_load_reservation k))))) = - 1
      \<and> ram (snd (m_done at_pc insn (write_reg (insn_rd insn) x) (yield_load_reservation k))) = ram k"
    if "XPR (hart k) = XPR (hart m)" "xlen (hart k) = xlen (hart m)" for x k
    using that by (simp add: m_done_def yield_load_reservation_def set_reservation_def write_reg_def next_pc_def)
  show ?thesis
  proof (cases "load_reservation_address (mmu (hart m)) = pa")
    case True
    obtain m2 where st: "store_func n 0 a (RS2 insn (hart m)) m1 = (Inr (), m2)"
      and f2: "forget m2 = forget (m1\<lparr>ram := set_ram pa (to_le n (take_bit (8 * n) (RS2 insn (hart m)))) (ram m1)\<rparr>)"
      using plain_store[OF i1 assms(3) plain_forget[OF f1 assms(5)], of "RS2 insn (hart m)"] by blast
    have x: "XPR (hart m2) = XPR (hart m)" "xlen (hart m2) = xlen (hart m)"
      using forget_hart(1,2)[OF f2] forget_hart(1,2)[OF f1] by simp_all
    have "rv_sc n insn at_pc m = m_done at_pc insn (write_reg (insn_rd insn) 0) (yield_load_reservation m2)"
      unfolding rv_sc_exec[OF assms(1)] exec_sc_def assms(4)[symmetric] Let_def using True by (simp add: c st)
    moreover have "ram m2 = set_ram pa (to_le n (take_bit (8 * n) (RS2 insn (hart m)))) (ram m)"
      using forget_view(1)[OF f2] by (simp add: m1_def)
    ultimately show ?thesis
      using fin[OF x, of 0] True by (metis prod.collapse)
  next
    case False
    have x: "XPR (hart m1) = XPR (hart m)" "xlen (hart m1) = xlen (hart m)"
      using forget_hart(1,2)[OF f1] by simp_all
    have "rv_sc n insn at_pc m = m_done at_pc insn (write_reg (insn_rd insn) 1) (yield_load_reservation m1)"
      unfolding rv_sc_exec[OF assms(1)] exec_sc_def assms(4)[symmetric] Let_def using False by (simp add: c)
    moreover have "ram m1 = ram m"
      by (simp add: m1_def)
    ultimately show ?thesis
      using fin[OF x, of 1] False by (metis prod.collapse)
  qed
qed

text \<open>
  C11: load-reserved and store-conditional work as a pair. For an aligned address in memory that no
  trigger watches, the store-conditional writes its operand and answers 0 if the
  reservation is the address's translation, and otherwise answers 1 and leaves memory alone; the
  reservation is gone either way. And it makes progress: after a load-reserved of the address,
  which loads the word there, a store-conditional to it does succeed, whatever register
  the load has overwritten and whatever the TLB holds.
\<close>

theorem reservations_correct:
  assumes "atomic_width n (hart m)" and "tlb_inv m" and "aligned a n" and "a = RS1 insn (hart m)"
    and "plain_access STORE m a n pa"
  shows "(\<exists>m'. rv_sc n insn at_pc m = (Inr (next_pc at_pc insn (hart m)), m') \<and> load_reservation_address (mmu (hart m')) = - 1
      \<and> (if load_reservation_address (mmu (hart m)) = pa
         then ram m' = set_ram pa (to_le n (take_bit (8 * n) (RS2 insn (hart m)))) (ram m)
           \<and> XPR (hart m') = XPR (write_reg (insn_rd insn) 0 (hart m))
         else ram m' = ram m \<and> XPR (hart m') = XPR (write_reg (insn_rd insn) 1 (hart m))))
    \<and> (plain_access LOAD m a n pa \<longrightarrow>
        (\<exists>m1. rv_lr n insn at_pc m = (Inr (next_pc at_pc insn (hart m)), m1)
          \<and> XPR (hart m1) = XPR (write_reg (insn_rd insn) (extend True n (from_le (ram_bytes m pa n))) (hart m))
          \<and> (\<forall>sc. RS1 sc (hart m1) = a \<longrightarrow>
               (\<exists>m2. rv_sc n sc pc' m1 = (Inr (next_pc pc' sc (hart m1)), m2)
                  \<and> ram m2 = set_ram pa (to_le n (take_bit (8 * n) (RS2 sc (hart m1)))) (ram m)
                  \<and> XPR (hart m2) = XPR (write_reg (insn_rd sc) 0 (hart m1))))))"
proof (intro conjI impI)
  show "\<exists>m'. rv_sc n insn at_pc m = (Inr (next_pc at_pc insn (hart m)), m') \<and> load_reservation_address (mmu (hart m')) = - 1
      \<and> (if load_reservation_address (mmu (hart m)) = pa
         then ram m' = set_ram pa (to_le n (take_bit (8 * n) (RS2 insn (hart m)))) (ram m)
           \<and> XPR (hart m') = XPR (write_reg (insn_rd insn) 0 (hart m))
         else ram m' = ram m \<and> XPR (hart m') = XPR (write_reg (insn_rd insn) 1 (hart m)))"
    by (rule sc_result[OF assms])
next
  assume l: "plain_access LOAD m a n pa"
  obtain m1 where lr: "rv_lr n insn at_pc m = (Inr (next_pc at_pc insn (hart m)), m1)" and i: "tlb_inv m1" and r: "ram m1 = ram m"
    and x: "XPR (hart m1) = XPR (write_reg (insn_rd insn) (extend True n (from_le (ram_bytes m pa n))) (hart m))"
    and a: "load_reservation_address (mmu (hart m1)) = pa" and p: "plain_access STORE m1 a n pa" and w: "atomic_width n (hart m1)"
    using lr_reserves[OF assms(1-4) l, of at_pc] assms(5) by blast
  have "\<exists>m2. rv_sc n sc pc' m1 = (Inr (next_pc pc' sc (hart m1)), m2)
      \<and> ram m2 = set_ram pa (to_le n (take_bit (8 * n) (RS2 sc (hart m1)))) (ram m)
      \<and> XPR (hart m2) = XPR (write_reg (insn_rd sc) 0 (hart m1))" if "RS1 sc (hart m1) = a" for sc
    using sc_result[OF w i assms(3) that[symmetric] p, of pc'] a r by auto
  with lr x show "\<exists>m1. rv_lr n insn at_pc m = (Inr (next_pc at_pc insn (hart m)), m1)
          \<and> XPR (hart m1) = XPR (write_reg (insn_rd insn) (extend True n (from_le (ram_bytes m pa n))) (hart m))
          \<and> (\<forall>sc. RS1 sc (hart m1) = a \<longrightarrow>
               (\<exists>m2. rv_sc n sc pc' m1 = (Inr (next_pc pc' sc (hart m1)), m2)
                  \<and> ram m2 = set_ram pa (to_le n (take_bit (8 * n) (RS2 sc (hart m1)))) (ram m)
                  \<and> XPR (hart m2) = XPR (write_reg (insn_rd sc) 0 (hart m1))))"
    by blast
qed

text \<open>\<open>lr.w x2, (x1)\<close>, then \<open>sc.w x3, x1, (x1)\<close>.\<close>

definition reserving_machine :: machine where
  "reserving_machine = m_flush (example_machine\<lparr>hart := (hart example_machine)\<lparr>XPR := (replicate 32 0)[1 := 0x80001000]\<rparr>\<rparr>)"

lemma reserving_machine_ready: "tlb_inv reserving_machine"
  unfolding reserving_machine_def
proof (rule inv_flush)
  show "tlb_ready (example_machine\<lparr>hart := (hart example_machine)\<lparr>XPR := (replicate 32 0)[1 := 0x80001000]\<rparr>\<rparr>)"
    using example_paged by (simp add: tlb_ready_def example_machine_def uniform_mode_def effective_mode_def example_hart_def
        get_field_def triggers_known_def Let_def)
qed (use example_ready(2) in simp)

lemma reserving_machine_access:
  assumes "n = 1 \<or> n = 4"
  shows "translate (phys reserving_machine) (hart reserving_machine) 0x80001000 n t 0 = Inr 0x80001000"
proof -
  have ok: "pmp_ok (hart reserving_machine) a n t mode" for a n t mode
    by (simp add: pmp_ok_def reserving_machine_def m_flush_def p_flush_tlb_def example_machine_def)
  have e: "effective_mode (hart reserving_machine) t 0 = (3, False, False)"
    by (simp add: effective_mode_def reserving_machine_def m_flush_def p_flush_tlb_def example_machine_def example_hart_def
        get_field_def Let_def)
  have "walk (phys reserving_machine) (hart reserving_machine) 0x80001000 t 3 False False = Inr 0x80001000"
    by (simp add: walk_def decode_vm_info_def s2xlate_def vm_off_def low_bits_def reserving_machine_def m_flush_def p_flush_tlb_def
        example_machine_def example_hart_def)
  then show ?thesis
    unfolding translate_def e prod.case by (simp add: ok low_bits_def)
qed

lemma reservations_correct_witness:
  "\<exists>m1 m2. rv_lr_w 0x1000A12F 0x80000000 reserving_machine = (Inr 0x80000004, m1)
     \<and> rv_sc_w 0x1810A1AF 0x80000004 m1 = (Inr (next_pc 0x80000004 0x1810A1AF (hart m1)), m2) \<and> XPR (hart m2) ! 3 = 0
     \<and> ram m2 = set_ram 0x80001000 (to_le 4 0x80001000) (ram reserving_machine)"
proof -
  define m where "m = reserving_machine"
  have x: "XPR (hart m) = (replicate 32 0)[1 := 0x80001000]" "xlen (hart m) = 64" "supports_extension (CHR ''A'') (hart m)"
    by (simp_all add: m_def reserving_machine_def m_flush_def p_flush_tlb_def example_machine_def example_hart_def supports_extension_def)
  have w: "atomic_width 4 (hart m)"
    using x by (simp add: atomic_width_def)
  have f: "insn_rs1 0x1000A12F = 1" "insn_rd 0x1000A12F = 2" "insn_rs1 0x1810A1AF = 1" "insn_rs2 0x1810A1AF = 1" "insn_rd 0x1810A1AF = 3"
    "insn_length 0x1000A12F = 4" "insn_length 0x1810A1AF = 4"
    by (simp_all add: insn_rs1_def insn_rs2_def insn_rd_def insn_x_def insn_length_def)
  have p: "plain_access t m 0x80001000 4 0x80001000" for t
    using reserving_machine_access[of 4 t] reserving_machine_access[of 1 t] unfolding plain_access_def m_def
    by (cases t) (simp_all add: reserving_machine_def m_flush_def p_flush_tlb_def flush_tlb_def flush_icache_def example_machine_def
        example_hart_def example_addr_to_mem)
  have a: "0x80001000 = RS1 0x1000A12F (hart m)"
    by (simp add: RS1_def x f)
  have "aligned 0x80001000 4"
    by (simp add: aligned_def)
  from reservations_correct[OF w reserving_machine_ready[folded m_def] this a p, of "0x80000000" "0x80000004"] p
  obtain m1 where l: "rv_lr 4 0x1000A12F 0x80000000 m = (Inr (next_pc 0x80000000 0x1000A12F (hart m)), m1)"
    and r: "XPR (hart m1) = XPR (write_reg (insn_rd 0x1000A12F) (extend True 4 (from_le (ram_bytes m 0x80001000 4))) (hart m))"
    and sc: "\<forall>sc. RS1 sc (hart m1) = 0x80001000 \<longrightarrow>
               (\<exists>m2. rv_sc 4 sc 0x80000004 m1 = (Inr (next_pc 0x80000004 sc (hart m1)), m2)
                  \<and> ram m2 = set_ram 0x80001000 (to_le 4 (take_bit (8 * 4) (RS2 sc (hart m1)))) (ram m)
                  \<and> XPR (hart m2) = XPR (write_reg (insn_rd sc) 0 (hart m1)))"
    by blast
  have x1: "XPR (hart m1) ! 1 = 0x80001000" "length (XPR (hart m1)) = 32"
    by (simp_all add: r write_reg_def f x)
  then obtain m2 where s: "rv_sc 4 0x1810A1AF 0x80000004 m1 = (Inr (next_pc 0x80000004 0x1810A1AF (hart m1)), m2)"
    and mem: "ram m2 = set_ram 0x80001000 (to_le 4 (take_bit 32 0x80001000)) (ram m)"
    and rd: "XPR (hart m2) = XPR (write_reg 3 0 (hart m1))"
    using sc[rule_format, of "0x1810A1AF"] by (auto simp: RS1_def RS2_def f)
  show ?thesis
    using l s mem rd x1 by (auto simp: rv_lr_def rv_sc_def next_pc_def sext_xlen_def f x m_def[symmetric] write_reg_def)
qed

end
