(* ===== verification/Spec2Isabelle.thy ===== *)
theory Spec2Isabelle
  imports RV_Cache RV_InsnTable SF_ToIntMin RV_FInsns_Props RV_Decode RV_Faults RV_MulDiv RV_MemInsns_Props
begin

text \<open>
  A verification development for the instruction-set simulator of the differential-testing
  tool. The tool runs generated RISC-V programs on a hardware design and on a copy of Spike
  and compares the two; the simulator is the reference every difference is judged by. The
  development models the parts of it that decide what a program computes:
  \<^item> Berkeley SoftFloat (\<open>softfloat/\<close>), which computes the results of floating-point
    instructions and their exception flags;
  \<^item> the hart (\<open>riscv/\<close>): instruction words, the registers, the control and status registers,
    traps and interrupts, address translation and protection, the translation cache, memory
    accesses and the instructions, with the devices behind the bus and the cache model that
    traces the accesses.

  All paths are relative to \<open>src/difuzz-rtl/Fuzzer/ISASim/riscv-isa-sim\<close>.

  \<^bold>\<open>Conventions.\<close> A C struct or class is a record, and inheritance is an extension of it; an
  unsigned integer is a word of its width, a signed one the two's complement reading of a word
  or, where its overflow would be undefined, an integer. Global variables of SoftFloat (rounding
  mode, tininess, flags) are a record passed along. An instruction takes its bits and its
  program counter and returns the next program counter or the trap it throws, together with the
  state it leaves either way. A C loop is a recursive function; memory is a partial map of bytes.
  The host is little-endian and 64 bits wide, with the type widths of glibc (\<open>Prelude\<close>).

  \<^bold>\<open>Floating point.\<close> \<open>Rounding\<close> and \<open>IEEE_Spec\<close> hold the specification, over real numbers and
  without a mention of the code: rounding in the five modes, the value of a bit pattern, the
  results and flags of an operation. \<open>SF_State\<close>, \<open>SF_Primitives\<close>, \<open>SF_RoundPack\<close> and
  \<open>SF_NormRound\<close> model the shared routines, \<open>SF_Mul\<close>, \<open>SF_Add\<close>, \<open>SF_Compare\<close>, \<open>SF_ToInt\<close>,
  \<open>SF_ToIntMin\<close>, \<open>SF_FromInt\<close> and \<open>SF_FloatConv\<close> the operations. \<open>SF_RoundSpec\<close> states what a
  rounding routine owes its caller as the interface \<open>round_pack\<close>, extended by \<open>norm_round_pack\<close>
  for the normalizing routines; both are interpreted on the routines of the three formats, and
  the operations are proved against them. \<open>SF_AddCore\<close> does the same for sums and differences
  of magnitudes (\<open>mags\<close>), \<open>SF_Compare\<close> for the comparisons (\<open>fp_compare\<close>). The theorems say that
  multiplication, addition, subtraction and every conversion return the correctly rounded
  result with the prescribed flags for every operand and rounding mode, that comparisons decide
  the order of the represented numbers, and that the optimised truncating conversions agree
  with the general ones.

  \<^bold>\<open>State, registers and traps.\<close> \<open>RV_State\<close> is \<open>state_t\<close> and \<open>processor_t\<close> with the exceptions
  and field macros; \<open>RV_CSR\<close> is \<open>set_csr\<close> and \<open>get_csr\<close> on every register number; \<open>RV_Trap\<close> is
  \<open>take_trap\<close>, \<open>take_interrupt\<close> and the changes of privilege; \<open>RV_Priv\<close> the privileged
  instructions. \<open>RV_CSR_Props\<close>, \<open>RV_CSR_Safety\<close>, \<open>RV_CSR_Views\<close>, \<open>RV_Trap_Props\<close> and
  \<open>RV_Priv_Props\<close> show the invariant of the state, which writes are confined or locked, the
  order of interrupts, and that only a trap raises the privilege. The scan for the lowest
  pending interrupt is bounded by the 64 bits of its word.

  \<^bold>\<open>Memory.\<close> \<open>RV_MMU\<close> is the page-table walk of one or two stages and the protection of
  physical memory, with the levels of the walk as its fuel; \<open>RV_MMU_Props\<close>, \<open>RV_PMP\<close> and
  \<open>RV_Faults\<close> refine it to a relation between addresses and leaf entries, to regions, and to the
  list of possible faults. \<open>RV_Access\<close> is the port through the translation cache with the debug
  triggers, \<open>RV_TLB\<close> and \<open>RV_TLB_Props\<close> show that the cache is transparent as long as it is
  coherent, what keeps it so, and one sequence of accesses that does not. \<open>RV_Devices\<close> is the
  bus, the boot ROM and the core-local interruptor. \<open>RV_Cache\<close> is the cache model; the interface
  \<open>cache_methods\<close> holds the laws of the two virtual methods, is interpreted on both classes, and
  gives that every access in a chain of caches is a step of an abstract cache.

  \<^bold>\<open>Instructions.\<close> \<open>RV_Decode\<close> holds the fields of instruction words and the assembler of the
  debug ROM; \<open>RV_Dispatch\<close> and \<open>RV_InsnTable\<close> the self-organising decoder with the table of
  all instructions; \<open>RV_Arith\<close> and \<open>RV_Insns\<close> the integer instructions, \<open>RV_MemInsns\<close> those that
  access memory and \<open>RV_FPR\<close> and \<open>RV_FInsns\<close> the floating-point ones. \<open>RV_Insns_Props\<close>,
  \<open>RV_MulDiv\<close>, \<open>RV_MemInsns_Props\<close> and \<open>RV_FInsns_Props\<close> show that they keep the state well
  formed and compute what the architecture prescribes, the floating-point ones by composing the
  routines of SoftFloat with the registers.

  \<^bold>\<open>Not modelled.\<close> Quad precision, and in SoftFloat division, square root, remainder and the
  fused operations, with the instructions that call them; the vector instructions, which are
  macros over a register file the fuzzer's programs do not use; accessed and dirty bits set by
  hardware and misaligned accesses, which the tool's configuration leaves out. The debug module,
  the JTAG bridge, the front-end server, the interactive console, the disassembler, option
  handling and the device-tree library are host input and output or vendored code around the
  model, the coprocessor interface is a hook for code outside the repository. The interruptor is modelled with its
  instruction-counting timer; in its real-time mode it would follow the host's clock. The cache of
  decoded instructions, the commit log and statistics do not change what is computed. The fuzzer
  itself and the comparison of traces are Python scripts around external simulators.
\<close>

end
